(* ===== verification/Prelude.thy ===== *)
theory Prelude
  imports Main "HOL-Library.Word" "HOL-Library.State_Monad" "HOL-Library.Monad_Syntax"
begin

text \<open>
  Shared vocabulary of the development: the machine types the sources use, the
  collections of facts the component proofs draw on, and generic lemmas on lists,
  options and words that more than one component needs.
\<close>

subsection \<open>Machine types\<close>

text \<open>
  Indices and sizes (\<^verbatim>\<open>std::size_t\<close>) that only index containers are natural numbers, with
  the sentinel \<^verbatim>\<open>SIZE_MAX\<close> kept as a number. Counters whose wrap-around the code relies on
  (\<^verbatim>\<open>std::uint32_t\<close> epochs, \<^verbatim>\<open>std::uint64_t\<close> ticks and integers) are words.
\<close>

type_synonym u8 = "8 word"
type_synonym u32 = "32 word"
type_synonym u64 = "64 word"

definition SIZE_MAX :: nat where
  "SIZE_MAX = 2 ^ 64 - 1"

named_theorems logic_simps \<open>case tables of the four-valued operators\<close>
named_theorems frame_simps \<open>fields an operation leaves alone\<close>
named_theorems inv_intros \<open>operations keep their component's invariant\<close>

subsection \<open>Vectors\<close>

text \<open>
  \<^verbatim>\<open>vector::resize(n, v)\<close>: truncate, or pad with \<open>v\<close> at the end. The guarded form
  \<open>grow_to\<close> is the idiom \<^verbatim>\<open>if(v.size() < n) { v.resize(n, x); }\<close> of the sources.
\<close>

definition resize_vec :: "'a \<Rightarrow> nat \<Rightarrow> 'a list \<Rightarrow> 'a list" where
  "resize_vec d n xs = take n xs @ replicate (n - length xs) d"

definition grow_to :: "'a \<Rightarrow> nat \<Rightarrow> 'a list \<Rightarrow> 'a list" where
  "grow_to d n xs = (if length xs < n then resize_vec d n xs else xs)"

lemma length_resize_vec [simp]: "length (resize_vec d n xs) = n"
  by (simp add: resize_vec_def)

lemma length_grow_to [simp]: "length (grow_to d n xs) = max n (length xs)"
  by (simp add: grow_to_def)

lemma nth_grow_to:
  "i < length xs \<Longrightarrow> grow_to d n xs ! i = xs ! i"
  by (simp add: grow_to_def resize_vec_def nth_append)

lemma nth_grow_to_new:
  "length xs \<le> i \<Longrightarrow> i < n \<Longrightarrow> grow_to d n xs ! i = d"
  by (auto simp: grow_to_def resize_vec_def nth_append)

lemma set_grow_to: "set (grow_to d n xs) \<subseteq> insert d (set xs)"
  by (auto simp: grow_to_def resize_vec_def dest: in_set_takeD)

lemma grow_to_id [simp]: "n \<le> length xs \<Longrightarrow> grow_to d n xs = xs"
  by (simp add: grow_to_def)

subsection \<open>Lists\<close>

lemma list_update_neq: "xs[i := v] \<noteq> xs \<Longrightarrow> i < length xs"
  by (metis list_update_beyond not_less)

lemma nth_list_update_self [simp]:
  "xs[i := v] ! j = (if i = j \<and> j < length xs then v else xs ! j)"
  by (cases "i < length xs") (auto simp: nth_list_update list_update_beyond)

subsection \<open>Words\<close>

lemma word_less_plus_one:
  fixes x :: "'a::len word"
  shows "x + 1 \<noteq> 0 \<Longrightarrow> x < x + 1"
  by unat_arith

end
