(* ===== verification/Codec.thy ===== *)
theory Codec
  imports Prelude
begin

unbundle bit_operations_syntax

text \<open>
  The byte codec of the netlist file format (\<^verbatim>\<open>pe_nl_fileformat/codec.h\<close>, \<^verbatim>\<open>status.h\<close>).
  A \<^verbatim>\<open>std::string\<close> of the codec is a list of bytes. A reader takes the input and an offset and
  returns either the failed status or the value with the new offset; what a failed reader
  leaves in its out parameters is not modelled, every caller returns at once. A \<^verbatim>\<open>double\<close> is
  its bit pattern. The byte order of the host is the argument \<open>le\<close>.
\<close>

subsection \<open>Statuses\<close>

datatype errc = errc_ok | invalid_argument | io_error | db_error | corrupt | unsupported | not_found

record status =
  code :: errc
  message :: string

definition mk_status :: "errc \<Rightarrow> string \<Rightarrow> status" where
  "mk_status c m = \<lparr>code = c, message = m\<rparr>"

definition success :: status where
  "success = mk_status errc_ok []"

definition status_ok :: "status \<Rightarrow> bool" where
  "status_ok st = (code st = errc_ok)"

lemma status_simps [simp]:
  "code (mk_status c m) = c" "message (mk_status c m) = m"
  "status_ok success" "status_ok (mk_status c m) = (c = errc_ok)"
  "mk_status c m = mk_status c' m' \<longleftrightarrow> c = c' \<and> m = m'"
  by (simp_all add: mk_status_def success_def status_ok_def)

type_synonym bytes = "u8 list"
type_synonym 'a reader = "bytes \<Rightarrow> nat \<Rightarrow> status + 'a \<times> nat"

subsection \<open>Memory images\<close>

text \<open>
  The object representation of an unsigned integer of \<open>n\<close> bytes, as \<^verbatim>\<open>memcpy\<close> copies it on a
  little-endian (\<open>le\<close>) or big-endian host.
\<close>

definition le_bytes :: "nat \<Rightarrow> 'a::len word \<Rightarrow> bytes" where
  "le_bytes n v = map (\<lambda>i. ucast (drop_bit (8 * i) v)) [0..<n]"

definition of_le_bytes :: "bytes \<Rightarrow> 'a::len word" where
  "of_le_bytes bs = foldr (\<lambda>b r. push_bit 8 r OR ucast b) bs 0"

definition mem_bytes :: "bool \<Rightarrow> nat \<Rightarrow> 'a::len word \<Rightarrow> bytes" where
  "mem_bytes le n v = (if le then le_bytes n v else rev (le_bytes n v))"

definition mem_word :: "bool \<Rightarrow> bytes \<Rightarrow> 'a::len word" where
  "mem_word le bs = of_le_bytes (if le then bs else rev bs)"

text \<open>Subtraction of \<^verbatim>\<open>std::size_t\<close> values.\<close>

definition size_sub :: "nat \<Rightarrow> nat \<Rightarrow> nat" where
  "size_sub a b = nat ((int a - int b) mod 2 ^ 64)"

subsection \<open>Writers and readers\<close>

definition append_bytes :: "bytes \<Rightarrow> bytes \<Rightarrow> bytes" where
  "append_bytes out b = out @ b"

definition append_trivial :: "('a \<Rightarrow> bytes) \<Rightarrow> bytes \<Rightarrow> 'a \<Rightarrow> bytes" where
  "append_trivial img out v = append_bytes out (img v)"

definition append_u8 :: "bytes \<Rightarrow> u8 \<Rightarrow> bytes" where
  "append_u8 out v = out @ [v]"

function append_uleb128 :: "bytes \<Rightarrow> u64 \<Rightarrow> bytes" where
  "append_uleb128 out v =
     (if 0x80 \<le> v then append_uleb128 (append_u8 out (ucast v OR 0x80)) (drop_bit 7 v)
      else append_u8 out (ucast v))"
  by auto
termination
proof (relation "measure (\<lambda>(out, v). unat v)")
  fix v :: u64 assume "0x80 \<le> v"
  then have "128 \<le> unat v" by (simp add: word_le_nat_alt)
  then have "unat (drop_bit 7 v) < unat v" by (simp only: unat_drop_bit_eq) (simp add: drop_bit_eq_div)
  then show "((append_u8 out (ucast v OR 0x80), drop_bit 7 v), out, v) \<in> measure (\<lambda>(out, v). unat v)" for out
    by simp
qed simp

declare append_uleb128.simps [simp del]

definition varint_eof :: status where
  "varint_eof = mk_status corrupt ''unexpected EOF while reading varint''"

definition varint_overflow :: status where
  "varint_overflow = mk_status corrupt ''varint overflow''"

function read_uleb128_loop :: "bytes \<Rightarrow> nat \<Rightarrow> u64 \<Rightarrow> nat \<Rightarrow> status + u64 \<times> nat" where
  "read_uleb128_loop inp off v shift =
     (if length inp \<le> off then Inl varint_eof
      else let b = inp ! off; v' = v OR push_bit shift (ucast (b AND 0x7f)) in
        if b AND 0x80 = 0 then Inr (v', off + 1)
        else if 64 \<le> shift + 7 then Inl varint_overflow
        else read_uleb128_loop inp (off + 1) v' (shift + 7))"
  by auto
termination by (relation "measure (\<lambda>(inp, off, v, shift). length inp - off)") auto

declare read_uleb128_loop.simps [simp del]

definition read_uleb128 :: "u64 reader" where
  "read_uleb128 inp off = read_uleb128_loop inp off 0 0"

definition read_trivial :: "(bytes \<Rightarrow> 'a) \<Rightarrow> nat \<Rightarrow> 'a reader" where
  "read_trivial unimg sz inp off =
     (if size_sub (length inp) off < sz
      then Inl (mk_status corrupt ''unexpected EOF while reading fixed-size value'')
      else Inr (unimg (take sz (drop off inp)), off + sz))"

definition byte_swap64 :: "u64 \<Rightarrow> u64" where
  "byte_swap64 u = fold (\<lambda>i r. push_bit 8 r OR (drop_bit (8 * i) u AND 0xff)) [0..<8] 0"

definition append_f64 :: "bool \<Rightarrow> bytes \<Rightarrow> u64 \<Rightarrow> bytes" where
  "append_f64 le out u =
     (if le then append_trivial (mem_bytes le 8) out u
      else append_trivial (mem_bytes le 8) out (byte_swap64 u))"

definition read_f64 :: "bool \<Rightarrow> u64 reader" where
  "read_f64 le inp off =
     (case read_trivial (mem_word le) 8 inp off of
        Inl st \<Rightarrow> Inl st
      | Inr (u, off') \<Rightarrow> Inr (if le then u else byte_swap64 u, off'))"

definition append_string :: "bytes \<Rightarrow> bytes \<Rightarrow> bytes" where
  "append_string out s = append_bytes (append_uleb128 out (of_nat (length s))) s"

definition read_string :: "bytes reader" where
  "read_string inp off =
     (case read_uleb128 inp off of
        Inl st \<Rightarrow> Inl st
      | Inr (n, off') \<Rightarrow>
          if size_sub (length inp) off' < unat n then Inl (mk_status corrupt ''invalid string length'')
          else Inr (take (unat n) (drop off' inp), off' + unat n))"

definition u8sv_to_bytes :: "bytes \<Rightarrow> bytes" where
  "u8sv_to_bytes v = fold (\<lambda>i out. out @ [v ! i]) [0..<length v] []"

definition bytes_to_u8string :: "bytes \<Rightarrow> bytes" where
  "bytes_to_u8string v = fold (\<lambda>c out. out @ [c]) v []"

definition append_trivial_vector :: "('a \<Rightarrow> bytes) \<Rightarrow> bytes \<Rightarrow> 'a list \<Rightarrow> bytes" where
  "append_trivial_vector img out v =
     (let out' = append_uleb128 out (of_nat (length v)) in
      if v \<noteq> [] then append_bytes out' (concat (map img v)) else out')"

text \<open>The elements of a vector of \<open>n\<close> objects of \<open>sz\<close> bytes each.\<close>

fun chunks :: "nat \<Rightarrow> nat \<Rightarrow> 'a list \<Rightarrow> 'a list list" where
  "chunks sz 0 bs = []"
| "chunks sz (Suc n) bs = take sz bs # chunks sz n (drop sz bs)"

definition read_trivial_vector :: "(bytes \<Rightarrow> 'a) \<Rightarrow> nat \<Rightarrow> 'a list reader" where
  "read_trivial_vector unimg sz inp off =
     (case read_uleb128 inp off of
        Inl st \<Rightarrow> Inl st
      | Inr (n, off') \<Rightarrow>
          if SIZE_MAX div sz < unat n then Inl (mk_status corrupt ''vector length overflow'')
          else let n_bytes = unat n * sz in
            if size_sub (length inp) off' < n_bytes
            then Inl (mk_status corrupt ''unexpected EOF while reading vector'')
            else Inr (map unimg (chunks sz (unat n) (drop off' inp)), off' + n_bytes))"

subsection \<open>Images are invertible\<close>

lemma length_le_bytes [simp]: "length (le_bytes n v) = n"
  by (simp add: le_bytes_def)

lemma length_mem_bytes [simp]: "length (mem_bytes le n v) = n"
  by (simp add: mem_bytes_def)

lemma of_le_bytes_simps [simp]:
  "of_le_bytes [] = 0" "of_le_bytes (b # bs) = push_bit 8 (of_le_bytes bs) OR ucast b"
  by (simp_all add: of_le_bytes_def)

lemma le_bytes_Suc: "le_bytes (Suc n) v = ucast v # le_bytes n (drop_bit 8 v)"
proof -
  have "[0..<Suc n] = 0 # map Suc [0..<n]" by (simp add: map_Suc_upt upt_conv_Cons del: upt_Suc)
  then show ?thesis by (simp add: le_bytes_def comp_def drop_bit_drop_bit add.commute del: upt_Suc)
qed

lemma le_bytes_0 [simp]: "le_bytes 0 v = []"
  by (simp add: le_bytes_def)

lemma push_drop_byte:
  "push_bit 8 (take_bit n (drop_bit 8 v)) OR ucast (ucast v :: u8) = take_bit (n + 8) (v :: 'a::len word)"
  by (rule bit_word_eqI) (auto simp: bit_simps)

lemma of_le_bytes_le_bytes: "of_le_bytes (le_bytes n v) = take_bit (8 * n) v"
proof (induction n arbitrary: v)
  case (Suc n)
  have "of_le_bytes (le_bytes (Suc n) v) = push_bit 8 (take_bit (8 * n) (drop_bit 8 v)) OR ucast (ucast v :: u8)"
    by (simp add: le_bytes_Suc Suc)
  also have "\<dots> = take_bit (8 * n + 8) v" by (rule push_drop_byte)
  finally show ?case by (simp add: add.commute)
qed simp

lemma le_bytes_of_le_bytes:
  assumes "8 * length bs \<le> LENGTH('a::len)"
  shows "le_bytes (length bs) (of_le_bytes bs :: 'a word) = bs"
  using assms
proof (induction bs)
  case (Cons b bs)
  let ?w = "of_le_bytes bs :: 'a word"
  have "ucast (push_bit 8 ?w OR ucast b) = b"
    using Cons.prems by (intro bit_word_eqI) (auto simp: bit_simps)
  moreover have "le_bytes (length bs) (drop_bit 8 (push_bit 8 ?w OR ucast b)) = le_bytes (length bs) ?w"
    unfolding le_bytes_def
  proof (rule map_cong [OF refl])
    fix i assume "i \<in> set [0..<length bs]"
    then have "8 * i + 16 \<le> LENGTH('a)" using Cons.prems by simp
    then show "ucast (drop_bit (8 * i) (drop_bit 8 (push_bit 8 ?w OR ucast b))) = (ucast (drop_bit (8 * i) ?w) :: u8)"
      by (intro bit_word_eqI) (auto simp: bit_simps dest: bit_imp_le_length)
  qed
  ultimately show ?case using Cons by (simp add: le_bytes_Suc)
qed simp

lemma mem_word_mem_bytes:
  "8 * n = LENGTH('a::len) \<Longrightarrow> mem_word le (mem_bytes le n (v :: 'a word)) = v"
  by (simp add: mem_word_def mem_bytes_def of_le_bytes_le_bytes take_bit_word_eq_self)

lemma mask_byte: "(x :: u64) AND 0xff = ucast (ucast x :: u8)"
proof -
  have "(0xff :: u64) = mask 8" by (simp add: mask_eq_exp_minus_1)
  then have "x AND 0xff = take_bit 8 x" by (simp only: take_bit_eq_mask)
  also have "\<dots> = ucast (ucast x :: u8)" by (rule bit_word_eqI) (simp add: bit_simps)
  finally show ?thesis .
qed

lemma byte_swap64_rev: "byte_swap64 u = of_le_bytes (rev (le_bytes 8 u))"
proof -
  show ?thesis
    by (simp only: byte_swap64_def of_le_bytes_def foldr_conv_fold rev_rev_ident le_bytes_def fold_map comp_def mask_byte)
qed

lemma le_bytes_byte_swap64: "le_bytes 8 (byte_swap64 u) = rev (le_bytes 8 u)"
  using le_bytes_of_le_bytes [of "rev (le_bytes 8 u)", where 'a = 64] by (simp add: byte_swap64_rev)

lemma byte_swap64_twice: "byte_swap64 (byte_swap64 u) = u"
  by (simp add: byte_swap64_rev [of "byte_swap64 u"] le_bytes_byte_swap64 of_le_bytes_le_bytes take_bit_word_eq_self)

subsection \<open>Variable-length integers\<close>

definition uleb :: "u64 \<Rightarrow> bytes" where
  "uleb v = append_uleb128 [] v"

lemma append_uleb128_app: "append_uleb128 (out @ out') v = out @ append_uleb128 out' v"
proof (induction out' v rule: append_uleb128.induct)
  case (1 out' v)
  then show ?case
    by (subst (1 2) append_uleb128.simps) (simp add: append_u8_def)
qed

lemma append_uleb128_uleb: "append_uleb128 out v = out @ uleb v"
  using append_uleb128_app [of out "[]" v] by (simp add: uleb_def)

lemma uleb_rec: "uleb v = (if 0x80 \<le> v then (ucast v OR 0x80) # uleb (drop_bit 7 v) else [ucast v])"
  by (subst uleb_def, subst append_uleb128.simps) (simp add: append_u8_def append_uleb128_uleb)

text \<open>A continuation byte, and the value a run of seven-bit groups stands for.\<close>

definition cont :: "u8 \<Rightarrow> bool" where
  "cont b = (b AND 0x80 \<noteq> 0)"

fun groups_value :: "bytes \<Rightarrow> nat" where
  "groups_value [] = 0"
| "groups_value (b # bs) = unat b mod 128 + 128 * groups_value bs"

lemma low_group: "(ucast ((b :: u8) AND 0x7f) :: u64) = of_nat (unat b mod 128)"
proof -
  have "(0x7f :: u8) = mask 7" by (simp add: mask_eq_exp_minus_1)
  then have "b AND 0x7f = take_bit 7 b" by (simp only: take_bit_eq_mask)
  moreover have "unat (take_bit 7 b) = unat b mod 128" by (simp only: unsigned_take_bit_eq) (simp add: take_bit_eq_mod)
  moreover have "(ucast (take_bit 7 b) :: u64) = of_nat (unat (take_bit 7 b))" by simp
  ultimately show ?thesis by metis
qed

lemma or_disjoint_add:
  fixes v w :: "'a::len word"
  assumes "take_bit n v = v"
  shows "v OR push_bit n w = v + push_bit n w"
proof (rule disjunctive_add [symmetric])
  fix i show "\<not> bit v i \<or> \<not> bit (push_bit n w) i"
    using bit_take_bit_iff [of n v i] unfolding assms by (auto simp: bit_simps)
qed

lemma take_bit_or_group:
  fixes v :: u64
  assumes "take_bit n v = v" "g < 128"
  shows "take_bit (n + 7) (v OR push_bit n (of_nat g)) = v OR push_bit n (of_nat g)"
proof -
  have "(of_nat g :: u64) = take_bit 7 (of_nat g)"
    using assms(2) by (simp only: take_bit_of_nat) (simp add: take_bit_eq_mod)
  then have "v OR push_bit n (of_nat g) = take_bit n v OR push_bit n (take_bit 7 (of_nat g))" using assms(1) by simp
  moreover have "take_bit (n + 7) (take_bit n v OR push_bit n (take_bit 7 (of_nat g)))
      = take_bit n v OR push_bit n (take_bit 7 (of_nat g :: u64))"
    by (rule bit_word_eqI) (auto simp: bit_simps)
  ultimately show ?thesis by simp
qed

definition varint_spec :: "bytes \<Rightarrow> nat \<Rightarrow> nat \<Rightarrow> u64 \<Rightarrow> nat \<Rightarrow> status + u64 \<times> nat" where
  "varint_spec bs k shift v off =
     (let n = length (takeWhile cont bs) in
      if n < length bs \<and> n + k < 10
      then Inr (v + push_bit shift (of_nat (groups_value (take (n + 1) bs))), off + n + 1)
      else Inl (if length bs < 10 - k then varint_eof else varint_overflow))"

lemma read_uleb128_loop_spec:
  assumes "drop off inp = bs" "off \<le> length inp" "shift = 7 * k" "k < 10" "take_bit shift v = v"
  shows "read_uleb128_loop inp off v shift = varint_spec bs k shift v off"
  using assms
proof (induction bs arbitrary: off v shift k)
  case Nil
  then show ?case by (subst read_uleb128_loop.simps) (simp add: varint_spec_def)
next
  case (Cons b bs)
  let ?v = "v OR push_bit shift (of_nat (unat b mod 128))"
  have "length (drop off inp) = Suc (length bs)" using Cons.prems by simp
  then have off: "off < length inp" by simp
  then have "inp ! off # drop (Suc off) inp = b # bs" using Cons.prems by (simp add: Cons_nth_drop_Suc)
  then have b: "inp ! off = b" and d: "drop (Suc off) inp = bs" by simp_all
  have v: "?v = v + push_bit shift (of_nat (unat b mod 128))" using Cons.prems by (intro or_disjoint_add) simp
  have tv: "take_bit (shift + 7) ?v = ?v" using Cons.prems by (intro take_bit_or_group) simp_all
  have step: "read_uleb128_loop inp off v shift =
     (if \<not> cont b then Inr (?v, off + 1)
      else if k = 9 then Inl varint_overflow else read_uleb128_loop inp (Suc off) ?v (shift + 7))"
    using off b Cons.prems by (subst read_uleb128_loop.simps) (auto simp: Let_def low_group cont_def)
  show ?case
  proof (cases "cont b \<and> k \<noteq> 9")
    case True
    have "read_uleb128_loop inp (Suc off) ?v (shift + 7) = varint_spec bs (Suc k) (shift + 7) ?v (Suc off)"
      using Cons.prems off d tv True by (intro Cons.IH) auto
    moreover have "?v + push_bit (shift + 7) (of_nat g) = v + push_bit shift (of_nat (unat b mod 128 + 128 * g))" for g
      unfolding v by (simp add: push_bit_eq_mult power_add algebra_simps)
    ultimately show ?thesis using step True by (auto simp: varint_spec_def Let_def)
  next
    case False
    then show ?thesis using step v Cons.prems by (auto simp: varint_spec_def)
  qed
qed

lemma read_uleb128_spec:
  "off \<le> length inp \<Longrightarrow> read_uleb128 inp off = varint_spec (drop off inp) 0 0 0 off"
  unfolding read_uleb128_def by (rule read_uleb128_loop_spec) simp_all

lemma uleb_induct [case_names group]:
  assumes "\<And>v :: u64. (0x80 \<le> v \<Longrightarrow> P (drop_bit 7 v)) \<Longrightarrow> P v"
  shows "P v"
  using append_uleb128.induct [of "\<lambda>_. P" "[]" v] assms by blast

lemma cont_high: "cont b \<longleftrightarrow> 128 \<le> unat b"
proof -
  have "b AND 0x80 = 0 \<longleftrightarrow> \<not> bit b 7"
    by (auto simp: bit_eq_iff [of "b AND 0x80"] bit_simps numeral_eq_Suc less_Suc_eq bit_Suc)
  moreover have "bit b 7 \<longleftrightarrow> 128 \<le> unat b"
  proof -
    have "unat b < 256" using unsigned_less [of b] by simp
    then have "unat b div 128 = (if 128 \<le> unat b then 1 else 0)" by (auto intro: div_nat_eqI)
    moreover have "bit b 7 \<longleftrightarrow> odd (unat b div 128)"
      using bit_unsigned_iff [of b 7, where 'a = nat] bit_iff_odd [of "unat b" 7] by simp
    ultimately show ?thesis by simp
  qed
  ultimately show ?thesis by (simp add: cont_def)
qed

lemma group_byte:
  fixes v :: u64
  shows "cont (ucast v OR 0x80)" "unat (ucast v OR 0x80 :: u8) mod 128 = unat v mod 128"
proof -
  have "(ucast v OR 0x80 :: u8) AND 0x80 = 0x80" by (simp add: bit.conj_disj_distrib2 or.commute)
  then show "cont (ucast v OR 0x80)" by (simp add: cont_def)
  have "take_bit 7 (ucast v OR 0x80 :: u8) = take_bit 7 (ucast v)"
  proof -
    have "(0x80 :: u8) = push_bit 7 1" by (simp add: push_bit_eq_mult)
    then show ?thesis by (simp only:) (rule bit_word_eqI, auto simp: bit_simps)
  qed
  then have "unat (take_bit 7 (ucast v OR 0x80 :: u8)) = unat (take_bit 7 (ucast v :: u8))" by simp
  then have "take_bit 7 (unat (ucast v OR 0x80 :: u8)) = take_bit 7 (unat (ucast v :: u8))"
    by (simp only: unsigned_take_bit_eq)
  then show "unat (ucast v OR 0x80 :: u8) mod 128 = unat v mod 128"
    by (simp add: take_bit_eq_mod mod_mod_cancel unsigned_ucast_eq)
qed

lemma last_byte:
  assumes "\<not> 0x80 \<le> (v :: u64)"
  shows "unat (ucast v :: u8) = unat v" "\<not> cont (ucast v)"
proof -
  have v: "unat v < 128" using assms by (simp add: word_le_nat_alt)
  then show e: "unat (ucast v :: u8) = unat v" by (simp add: unsigned_ucast_eq take_bit_eq_mod)
  then show "\<not> cont (ucast v)" using v by (simp add: cont_high)
qed

lemma uleb_shape:
  "\<exists>bs b. uleb v = bs @ [b] \<and> list_all cont bs \<and> \<not> cont b \<and> groups_value (bs @ [b]) = unat v"
proof (induction v rule: uleb_induct)
  case (group v)
  show ?case
  proof (cases "0x80 \<le> v")
    case True
    then obtain bs b where *: "uleb (drop_bit 7 v) = bs @ [b]" "list_all cont bs" "\<not> cont b"
        "groups_value (bs @ [b]) = unat (drop_bit 7 v)"
      using group by blast
    have "unat v mod 128 + 128 * unat (drop_bit 7 v) = unat v"
      by (simp only: unat_drop_bit_eq) (simp add: drop_bit_eq_div)
    then show ?thesis using * True group_byte [of v]
      by (intro exI [of _ "(ucast v OR 0x80) # bs"] exI [of _ b]) (simp add: uleb_rec [of v])
  next
    case False
    then show ?thesis using last_byte [OF False]
      by (intro exI [of _ "[]"] exI [of _ "ucast v"]) (simp add: uleb_rec [of v] cont_high)
  qed
qed

lemma length_uleb: "0 < k \<Longrightarrow> unat v < 128 ^ k \<Longrightarrow> length (uleb v) \<le> k"
proof (induction k arbitrary: v)
  case (Suc k)
  show ?case
  proof (cases "0x80 \<le> v")
    case True
    then have "128 \<le> unat v" by (simp add: word_le_nat_alt)
    then have k: "0 < k" using Suc.prems by (cases k) auto
    have "unat (drop_bit 7 v) < 128 ^ k"
      using Suc.prems by (simp only: unat_drop_bit_eq) (simp add: drop_bit_eq_div less_mult_imp_div_less mult.commute)
    then show ?thesis using Suc.IH k True by (simp add: uleb_rec [of v])
  qed (simp add: uleb_rec [of v])
qed simp

lemma length_uleb_le: "length (uleb v) \<le> 10"
  using unsigned_less [of v, where 'a = nat] by (intro length_uleb) simp_all

subsection \<open>What a reader owes its writer\<close>

text \<open>
  The contract between the writer of a field and its reader: the reader gives back what was
  written and stops right after it, refuses every truncation of it, never moves the offset
  backwards or past the end of the input, and reports every failure as corruption.
\<close>

definition in_range :: "bytes \<Rightarrow> nat \<Rightarrow> bool" where
  "in_range inp off = (off \<le> length inp \<and> length inp \<le> SIZE_MAX)"

lemma drop_next: "drop off inp = xs @ ys \<Longrightarrow> drop (off + length xs) inp = ys"
  by (metis add.commute append_eq_conv_conj drop_drop)

locale codec =
  fixes enc :: "'a \<Rightarrow> bytes" and rd :: "'a reader" and valid :: "'a \<Rightarrow> bool"
  assumes read_back: "valid x \<Longrightarrow> in_range inp off \<Longrightarrow> drop off inp = enc x @ suf \<Longrightarrow> rd inp off = Inr (x, off + length (enc x))"
    and truncated: "valid x \<Longrightarrow> in_range inp off \<Longrightarrow> drop off inp = take k (enc x) \<Longrightarrow> k < length (enc x) \<Longrightarrow> \<exists>st. rd inp off = Inl st"
    and bounded: "in_range inp off \<Longrightarrow> rd inp off = Inr (x, off') \<Longrightarrow> off \<le> off' \<and> off' \<le> length inp"
    and failed: "in_range inp off \<Longrightarrow> rd inp off = Inl st \<Longrightarrow> code st = corrupt"
begin

lemma next_range: "in_range inp off \<Longrightarrow> rd inp off = Inr (x, off') \<Longrightarrow> in_range inp off'"
  by (frule (1) bounded) (simp add: in_range_def)

lemma round_trip:
  "valid x \<Longrightarrow> length (pre @ enc x @ suf) \<le> SIZE_MAX \<Longrightarrow>
   rd (pre @ enc x @ suf) (length pre) = Inr (x, length pre + length (enc x))"
  by (rule read_back [where suf = suf]) (simp_all add: in_range_def)

lemma prefix_free:
  assumes "valid x" "valid y" "enc x @ s = enc y @ t" "length (enc x @ s) \<le> SIZE_MAX"
  shows "x = y \<and> s = t"
proof -
  have "rd (enc x @ s) 0 = Inr (x, length (enc x))" "rd (enc y @ t) 0 = Inr (y, length (enc y))"
    using round_trip [of x "[]" s] round_trip [of y "[]" t] assms by simp_all
  then show ?thesis using assms by simp
qed

end

text \<open>Two fields in a row.\<close>

definition read_pair :: "'a reader \<Rightarrow> 'b reader \<Rightarrow> ('a \<times> 'b) reader" where
  "read_pair ra rb inp off =
     (case ra inp off of Inl st \<Rightarrow> Inl st
      | Inr (x, off') \<Rightarrow> (case rb inp off' of Inl st \<Rightarrow> Inl st | Inr (y, off'') \<Rightarrow> Inr ((x, y), off'')))"

definition enc_pair :: "('a \<Rightarrow> bytes) \<Rightarrow> ('b \<Rightarrow> bytes) \<Rightarrow> 'a \<times> 'b \<Rightarrow> bytes" where
  "enc_pair ea eb = (\<lambda>(x, y). ea x @ eb y)"

locale codec_pair = a: codec enca rda valida + b: codec encb rdb validb
  for enca :: "'a \<Rightarrow> bytes" and rda and valida and encb :: "'b \<Rightarrow> bytes" and rdb and validb

sublocale codec_pair \<subseteq> codec "enc_pair enca encb" "read_pair rda rdb" "\<lambda>(x, y). valida x \<and> validb y"
proof (unfold_locales, goal_cases)
  case (1 xy inp off suf)
  obtain x y where xy: "xy = (x, y)" by (cases xy)
  have d: "drop off inp = enca x @ (encb y @ suf)" using 1 xy by (simp add: enc_pair_def)
  have a: "rda inp off = Inr (x, off + length (enca x))" using 1 xy d by (intro a.read_back) auto
  have "drop (off + length (enca x)) inp = encb y @ suf" using d by (rule drop_next)
  then have "rdb inp (off + length (enca x)) = Inr (y, off + length (enca x) + length (encb y))"
    using 1 xy a.next_range [OF _ a] by (intro b.read_back) auto
  then show ?case using a xy by (simp add: read_pair_def enc_pair_def)
next
  case (2 xy inp off k)
  obtain x y where xy: "xy = (x, y)" by (cases xy)
  show ?case
  proof (cases "k < length (enca x)")
    case True
    then have "\<exists>st. rda inp off = Inl st" using 2 xy by (intro a.truncated) (auto simp: enc_pair_def)
    then show ?thesis by (auto simp: read_pair_def)
  next
    case False
    then have d: "drop off inp = enca x @ take (k - length (enca x)) (encb y)" using 2 xy by (simp add: enc_pair_def)
    have a: "rda inp off = Inr (x, off + length (enca x))" using 2 xy by (intro a.read_back [OF _ _ d]) auto
    have "drop (off + length (enca x)) inp = take (k - length (enca x)) (encb y)"
      using d by (rule drop_next)
    then have "\<exists>st. rdb inp (off + length (enca x)) = Inl st"
      using 2 xy False a.next_range [OF _ a] by (intro b.truncated) (auto simp: enc_pair_def)
    then show ?thesis using a by (auto simp: read_pair_def)
  qed
next
  case (3 inp off x off')
  then obtain u m v where r: "rda inp off = Inr (u, m)" "rdb inp m = Inr (v, off')"
    by (auto simp: read_pair_def split: sum.splits prod.splits)
  have "in_range inp m" using 3(1) r(1) by (rule a.next_range)
  then show ?case using a.bounded [OF 3(1) r(1)] b.bounded [OF _ r(2)] by simp
next
  case (4 inp off st)
  then show ?case
    by (auto simp: read_pair_def split: sum.splits prod.splits dest: a.failed b.failed a.next_range)
qed

subsection \<open>The fields of the format keep the contract\<close>

lemma size_sub_in_range [simp]: "in_range inp off \<Longrightarrow> size_sub (length inp) off = length inp - off"
  by (auto simp: in_range_def size_sub_def SIZE_MAX_def)

lemma groups_value_app: "groups_value (xs @ ys) = groups_value xs + 128 ^ length xs * groups_value ys"
  by (induction xs) (simp_all add: algebra_simps)

lemma length_takeWhile_all: "list_all P xs \<Longrightarrow> length (takeWhile P (xs @ ys)) = length xs + length (takeWhile P ys)"
  by (induction xs) simp_all

lemma uleb_takeWhile: "length (takeWhile cont (uleb v @ suf)) + 1 = length (uleb v)"
  using uleb_shape [of v] length_takeWhile_all by fastforce

lemma uleb_take: "k < length (uleb v) \<Longrightarrow> list_all cont (take k (uleb v))"
  using uleb_shape [of v] by (auto simp: list_all_iff) (meson in_set_takeD)

lemma varint_spec_all_cont: "list_all cont bs \<Longrightarrow> \<exists>st. varint_spec bs k shift v off = Inl st"
proof -
  assume "list_all cont bs"
  then have "length (takeWhile cont bs) = length bs" by (metis list_all_iff takeWhile_eq_all_conv)
  then show ?thesis by (simp add: varint_spec_def)
qed

interpretation varint: codec uleb read_uleb128 "\<lambda>_. True"
proof (unfold_locales, goal_cases)
  case (1 x inp off suf)
  have g: "groups_value (uleb x) = unat x" using uleb_shape [of x] by auto
  show ?case using 1 length_uleb_le [of x] uleb_takeWhile [of x suf] g
    by (simp add: read_uleb128_spec varint_spec_def Let_def in_range_def)
next
  case (2 x inp off k)
  have "list_all cont (drop off inp)" using 2 uleb_take by simp
  then show ?case using 2 varint_spec_all_cont by (simp add: read_uleb128_spec in_range_def)
next
  case (3 inp off x off')
  then show ?case
    by (auto simp: read_uleb128_spec varint_spec_def in_range_def Let_def split: if_splits)
next
  case (4 inp off st)
  then show ?case
    by (auto simp: read_uleb128_spec varint_spec_def in_range_def Let_def varint_eof_def varint_overflow_def split: if_splits)
qed

text \<open>A trivially copyable type: its image has a fixed, positive size and determines the value.\<close>

locale layout =
  fixes img :: "'a \<Rightarrow> bytes" and unimg :: "bytes \<Rightarrow> 'a" and sz :: nat
  assumes length_img [simp]: "length (img x) = sz"
    and unimg_img [simp]: "unimg (img x) = x"
    and sz_pos: "0 < sz"
begin

lemma chunks_images: "chunks sz (length v) (concat (map img v) @ suf) = map img v"
  by (induction v) simp_all

lemma length_images: "length (concat (map img v)) = length v * sz"
  by (induction v) simp_all

end

sublocale layout \<subseteq> fixed: codec img "read_trivial unimg sz" "\<lambda>_. True"
proof (unfold_locales, goal_cases)
  case (1 x inp off suf)
  then have "length inp - off = sz + length suf" by (metis length_append length_drop length_img)
  then show ?case using 1 by (simp add: read_trivial_def)
next
  case (2 x inp off k)
  then have "length inp - off = k" by (metis length_drop length_take min.absorb4)
  then show ?case using 2 by (simp add: read_trivial_def)
next
  case (3 inp off x off')
  then show ?case by (auto simp: read_trivial_def in_range_def split: if_splits)
next
  case (4 inp off st)
  then show ?case by (auto simp: read_trivial_def split: if_splits)
qed

text \<open>Length-prefixed data: strings and vectors of trivially copyable elements.\<close>

definition enc_string :: "bytes \<Rightarrow> bytes" where
  "enc_string s = uleb (of_nat (length s)) @ s"

definition enc_vector :: "('a \<Rightarrow> bytes) \<Rightarrow> 'a list \<Rightarrow> bytes" where
  "enc_vector img v = uleb (of_nat (length v)) @ concat (map img v)"

definition fits :: "nat \<Rightarrow> bool" where
  "fits n = (n \<le> SIZE_MAX)"

lemma fits_unat [simp]: "fits n \<Longrightarrow> unat (of_nat n :: u64) = n"
  by (simp add: fits_def SIZE_MAX_def unat_of_nat)

sublocale layout \<subseteq> vector: codec "enc_vector img" "read_trivial_vector unimg sz" "\<lambda>v. fits (length v * sz)"
proof (unfold_locales, goal_cases)
  case (1 v inp off suf)
  let ?n = "of_nat (length v) :: u64"
  have d: "drop off inp = uleb ?n @ (concat (map img v) @ suf)" using 1 by (simp add: enc_vector_def)
  have r: "read_uleb128 inp off = Inr (?n, off + length (uleb ?n))" using 1 d by (intro varint.read_back) auto
  have d': "drop (off + length (uleb ?n)) inp = concat (map img v) @ suf" using d by (rule drop_next)
  have len: "length inp - (off + length (uleb ?n)) = length v * sz + length suf"
    using arg_cong [OF d', of length] by (simp add: length_images)
  have n: "unat ?n = length v" and "length v \<le> SIZE_MAX div sz"
    using 1 sz_pos by (auto simp: fits_def less_eq_div_iff_mult_less_eq intro!: fits_unat order_trans [OF _ 1(1) [unfolded fits_def]])
  then show ?case
    using r d' len varint.next_range [OF 1(2) r] chunks_images [of v suf]
    by (simp add: read_trivial_vector_def enc_vector_def length_images comp_def)
next
  case (2 v inp off k)
  let ?n = "of_nat (length v) :: u64"
  show ?case
  proof (cases "k < length (uleb ?n)")
    case True
    then have "\<exists>st. read_uleb128 inp off = Inl st"
      using 2 by (intro varint.truncated [where x = ?n]) (simp_all add: enc_vector_def)
    then show ?thesis by (auto simp: read_trivial_vector_def)
  next
    case False
    then have d: "drop off inp = uleb ?n @ take (k - length (uleb ?n)) (concat (map img v))"
      using 2 by (simp add: enc_vector_def)
    have r: "read_uleb128 inp off = Inr (?n, off + length (uleb ?n))" using 2 by (intro varint.read_back [OF _ _ d]) auto
    have "length inp - (off + length (uleb ?n)) < length v * sz"
      using arg_cong [OF drop_next [OF d], of length] 2 False by (auto simp: enc_vector_def length_images)
    moreover have "unat ?n = length v"
      using 2 sz_pos by (auto simp: fits_def intro!: fits_unat order_trans [OF _ 2(1) [unfolded fits_def]])
    ultimately show ?thesis using r varint.next_range [OF 2(2) r] by (simp add: read_trivial_vector_def)
  qed
next
  case (3 inp off x off')
  then obtain n m where r: "read_uleb128 inp off = Inr (n, m)"
    by (auto simp: read_trivial_vector_def split: sum.splits)
  then show ?case using 3 varint.bounded [OF 3(1) r] varint.next_range [OF 3(1) r]
    by (auto simp: read_trivial_vector_def Let_def split: if_splits)
next
  case (4 inp off st)
  then show ?case
    by (auto simp: read_trivial_vector_def Let_def split: sum.splits if_splits dest: varint.failed)
qed

interpretation u64_field: layout "mem_bytes le 8 :: u64 \<Rightarrow> bytes" "mem_word le" 8 for le
  by unfold_locales (simp_all add: mem_word_mem_bytes)

interpretation u32_field: layout "mem_bytes le 4 :: u32 \<Rightarrow> bytes" "mem_word le" 4 for le
  by unfold_locales (simp_all add: mem_word_mem_bytes)

interpretation u16_field: layout "mem_bytes le 2 :: 16 word \<Rightarrow> bytes" "mem_word le" 2 for le
  by unfold_locales (simp_all add: mem_word_mem_bytes)

interpretation u8_field: layout "mem_bytes le 1 :: u8 \<Rightarrow> bytes" "mem_word le" 1 for le
  by unfold_locales (simp_all add: mem_word_mem_bytes)

text \<open>The bytes of a string are a vector of one-byte elements, read by its own routine.\<close>

lemma concat_singletons: "concat (map (\<lambda>b. [b]) s) = s"
  by (induction s) simp_all

interpretation char_field: layout "\<lambda>b :: u8. [b]" hd 1
  by unfold_locales simp_all

lemma map_hd_chunks: "n \<le> length bs \<Longrightarrow> map hd (chunks 1 n bs) = take n bs"
  by (induction n arbitrary: bs) (auto simp: Suc_le_length_iff)

lemma read_string_vector:
  assumes "in_range inp off"
  shows "read_string inp off = Inr r \<longleftrightarrow> read_trivial_vector hd 1 inp off = Inr r"
    "read_string inp off = Inl st \<Longrightarrow> code st = corrupt"
proof (atomize (full), cases "read_uleb128 inp off")
  case (Inl st')
  then show "(read_string inp off = Inr r \<longleftrightarrow> read_trivial_vector hd 1 inp off = Inr r) \<and>
      (read_string inp off = Inl st \<longrightarrow> code st = corrupt)"
    using assms by (auto simp: read_string_def read_trivial_vector_def dest: varint.failed)
next
  case (Inr nm)
  obtain n m where [simp]: "nm = (n, m)" by (cases nm)
  have m: "in_range inp m" using varint.next_range assms Inr by simp
  have "unat n \<le> SIZE_MAX" using unsigned_less [of n, where 'a = nat] by (simp add: SIZE_MAX_def)
  then show "(read_string inp off = Inr r \<longleftrightarrow> read_trivial_vector hd 1 inp off = Inr r) \<and>
      (read_string inp off = Inl st \<longrightarrow> code st = corrupt)"
    using Inr m map_hd_chunks [of "unat n" "drop m inp"]
    by (auto simp: read_string_def read_trivial_vector_def Let_def)
qed

lemma enc_string_vector: "enc_string s = enc_vector (\<lambda>b. [b]) s"
  by (simp add: enc_string_def enc_vector_def concat_singletons)

interpretation str_field: codec enc_string read_string "\<lambda>s. fits (length s)"
proof (unfold_locales, goal_cases)
  case (1 s inp off suf)
  then show ?case using char_field.vector.read_back [of s inp off suf]
    by (simp add: read_string_vector enc_string_vector)
next
  case (2 s inp off k)
  then have "\<exists>st. read_trivial_vector hd 1 inp off = Inl st"
    using char_field.vector.truncated [of s inp off k] by (simp add: enc_string_vector)
  then have "read_string inp off \<noteq> Inr r" for r using 2 by (auto simp: read_string_vector)
  then show ?case by (cases "read_string inp off") auto
next
  case (3 inp off x off')
  then show ?case using char_field.vector.bounded by (simp add: read_string_vector)
next
  case (4 inp off st)
  then show ?case by (rule read_string_vector(2))
qed

text \<open>The bit pattern of a \<^verbatim>\<open>double\<close> is stored in little-endian order on every host.\<close>

lemma append_f64_le: "append_f64 le out u = out @ le_bytes 8 u"
  by (simp add: append_f64_def append_trivial_def append_bytes_def mem_bytes_def le_bytes_byte_swap64)

lemma read_f64_le: "read_f64 le inp off = read_trivial of_le_bytes 8 inp off" if "in_range inp off"
proof -
  have *: "byte_swap64 (of_le_bytes (rev bs)) = of_le_bytes bs" if "length bs = 8" for bs
    using le_bytes_of_le_bytes [of "rev bs", where 'a = 64] that by (simp add: byte_swap64_rev)
  show ?thesis using that by (auto simp: read_f64_def read_trivial_def mem_word_def * split: sum.splits)
qed

interpretation le_field: layout "le_bytes 8 :: u64 \<Rightarrow> bytes" of_le_bytes 8
  by unfold_locales (simp_all add: of_le_bytes_le_bytes take_bit_word_eq_self)

interpretation f64_field: codec "le_bytes 8" "read_f64 le" "\<lambda>_. True" for le
proof (unfold_locales, goal_cases)
  case (1 x inp off suf)
  then show ?case using le_field.fixed.read_back [where x = x and inp = inp and off = off and suf = suf] by (simp add: read_f64_le)
next
  case (2 x inp off k)
  then show ?case using le_field.fixed.truncated [where x = x and inp = inp and off = off and k = k] by (simp add: read_f64_le)
next
  case (3 inp off x off')
  then show ?case using le_field.fixed.bounded by (simp add: read_f64_le)
next
  case (4 inp off st)
  then show ?case using le_field.fixed.failed by (simp add: read_f64_le)
qed

subsection \<open>Writers as appends\<close>

lemma append_writers:
  "append_u8 out b = out @ [b]"
  "append_trivial img out v = out @ img v"
  "append_uleb128 out n = out @ uleb n"
  "append_string out s = out @ enc_string s"
  "append_trivial_vector img out vs = out @ enc_vector img vs"
  "append_f64 le out u = out @ le_bytes 8 u"
  by (auto simp: append_u8_def append_trivial_def append_bytes_def append_uleb128_uleb append_string_def
      enc_string_def append_trivial_vector_def enc_vector_def append_f64_le Let_def)

lemma u8sv_to_bytes_id [simp]: "u8sv_to_bytes v = v"
proof -
  have "n \<le> length v \<Longrightarrow> fold (\<lambda>i out. out @ [v ! i]) [0..<n] [] = take n v" for n
    by (induction n) (simp_all add: take_Suc_conv_app_nth)
  then show ?thesis by (simp add: u8sv_to_bytes_def)
qed

lemma bytes_to_u8string_id [simp]: "bytes_to_u8string v = v"
proof -
  have "fold (\<lambda>c out. out @ [c]) v out = out @ v" for out
    by (induction v arbitrary: out) simp_all
  then show ?thesis by (simp add: bytes_to_u8string_def)
qed

end
