(* ===== verification/Blobs.thy ===== *)
theory Blobs
  imports Codec
begin

text \<open>
  The values of the netlist database (\<^verbatim>\<open>pe_nl_fileformat/pe_nl_fileformat.h\<close>): attribute
  variants, the attribute blob of a model, the environment and the analyzer settings. A model
  is seen through its \<^verbatim>\<open>get_attribute_name\<close>, \<^verbatim>\<open>get_attribute\<close> and \<^verbatim>\<open>set_attribute\<close>, which are
  arguments.
\<close>

subsection \<open>Variants\<close>

text \<open>
  Integers and floats are their bit patterns. A digital value keeps the byte as stored: the
  reader casts it to the enumeration unchecked. \<open>V_other\<close> is a value of type \<^verbatim>\<open>invalid\<close> or of a
  type code that is no enumerator; neither has a payload.
\<close>

datatype variant =
    V_other u8
  | V_i8 u8 | V_i16 "16 word" | V_i32 u32 | V_i64 u64
  | V_ui8 u8 | V_ui16 "16 word" | V_ui32 u32 | V_ui64 u64
  | V_boolean bool | V_f u32 | V_d u64 | V_digital u8

fun variant_type :: "variant \<Rightarrow> u8" where
  "variant_type (V_other c) = c"
| "variant_type (V_i8 _) = 1"
| "variant_type (V_i16 _) = 2"
| "variant_type (V_i32 _) = 3"
| "variant_type (V_i64 _) = 4"
| "variant_type (V_ui8 _) = 5"
| "variant_type (V_ui16 _) = 6"
| "variant_type (V_ui32 _) = 7"
| "variant_type (V_ui64 _) = 8"
| "variant_type (V_boolean _) = 9"
| "variant_type (V_f _) = 10"
| "variant_type (V_d _) = 11"
| "variant_type (V_digital _) = 12"

fun append_variant_payload :: "bool \<Rightarrow> bytes \<Rightarrow> variant \<Rightarrow> bytes" where
  "append_variant_payload le out (V_i8 w) = append_trivial (mem_bytes le 1) out w"
| "append_variant_payload le out (V_i16 w) = append_trivial (mem_bytes le 2) out w"
| "append_variant_payload le out (V_i32 w) = append_trivial (mem_bytes le 4) out w"
| "append_variant_payload le out (V_i64 w) = append_trivial (mem_bytes le 8) out w"
| "append_variant_payload le out (V_ui8 w) = append_trivial (mem_bytes le 1) out w"
| "append_variant_payload le out (V_ui16 w) = append_trivial (mem_bytes le 2) out w"
| "append_variant_payload le out (V_ui32 w) = append_trivial (mem_bytes le 4) out w"
| "append_variant_payload le out (V_ui64 w) = append_trivial (mem_bytes le 8) out w"
| "append_variant_payload le out (V_boolean b) = append_u8 out (if b then 1 else 0)"
| "append_variant_payload le out (V_f w) = append_trivial (mem_bytes le 4) out w"
| "append_variant_payload le out (V_d w) = append_f64 le out w"
| "append_variant_payload le out (V_digital b) = append_u8 out b"
| "append_variant_payload le out (V_other c) = out"

definition append_variant :: "bool \<Rightarrow> bytes \<Rightarrow> variant \<Rightarrow> bytes" where
  "append_variant le out v = append_variant_payload le (append_u8 out (variant_type v)) v"

definition map_reader :: "('a \<Rightarrow> 'b) \<Rightarrow> 'a reader \<Rightarrow> 'b reader" where
  "map_reader f r inp off = (case r inp off of Inl st \<Rightarrow> Inl st | Inr (x, off') \<Rightarrow> Inr (f x, off'))"

text \<open>One byte, with the message of its own end-of-input check.\<close>

definition read_byte :: "string \<Rightarrow> u8 reader" where
  "read_byte eof inp off =
     (if length inp \<le> off then Inl (mk_status corrupt eof) else Inr (inp ! off, off + 1))"

definition read_variant_payload :: "bool \<Rightarrow> u8 \<Rightarrow> variant reader" where
  "read_variant_payload le t =
     (if t = 1 then map_reader V_i8 (read_trivial (mem_word le) 1)
      else if t = 2 then map_reader V_i16 (read_trivial (mem_word le) 2)
      else if t = 3 then map_reader V_i32 (read_trivial (mem_word le) 4)
      else if t = 4 then map_reader V_i64 (read_trivial (mem_word le) 8)
      else if t = 5 then map_reader V_ui8 (read_trivial (mem_word le) 1)
      else if t = 6 then map_reader V_ui16 (read_trivial (mem_word le) 2)
      else if t = 7 then map_reader V_ui32 (read_trivial (mem_word le) 4)
      else if t = 8 then map_reader V_ui64 (read_trivial (mem_word le) 8)
      else if t = 9 then map_reader (\<lambda>b. V_boolean (b \<noteq> 0)) (read_byte ''unexpected EOF reading bool'')
      else if t = 10 then map_reader V_f (read_trivial (mem_word le) 4)
      else if t = 11 then map_reader V_d (read_f64 le)
      else if t = 12 then map_reader V_digital (read_byte ''unexpected EOF reading digital'')
      else (\<lambda>inp off. Inr (V_other t, off)))"

definition read_variant :: "bool \<Rightarrow> variant reader" where
  "read_variant le inp off =
     (if length inp \<le> off then Inl (mk_status corrupt ''unexpected EOF reading variant type'')
      else read_variant_payload le (inp ! off) inp (off + 1))"

subsection \<open>Attribute blobs\<close>

definition kMaxScan :: nat where "kMaxScan = 512"
definition kMaxConsecutiveEmpty :: nat where "kMaxConsecutiveEmpty = 64"

text \<open>The counting pass and the writing pass over the attribute indices.\<close>

fun count_attributes :: "(nat \<Rightarrow> bytes) \<Rightarrow> nat list \<Rightarrow> nat \<Rightarrow> bool \<Rightarrow> nat \<Rightarrow> nat" where
  "count_attributes names [] empty_run seen_any count = count"
| "count_attributes names (idx # is) empty_run seen_any count =
     (if names idx = [] then
        (if seen_any then
           (if kMaxConsecutiveEmpty \<le> empty_run + 1 then count
            else count_attributes names is (empty_run + 1) seen_any count)
         else count_attributes names is empty_run seen_any count)
      else count_attributes names is 0 True (count + 1))"

fun write_attributes ::
  "bool \<Rightarrow> (nat \<Rightarrow> bytes) \<Rightarrow> (nat \<Rightarrow> variant) \<Rightarrow> nat list \<Rightarrow> nat \<Rightarrow> bool \<Rightarrow> bytes \<Rightarrow> bytes" where
  "write_attributes le names get [] empty_run seen_any out = out"
| "write_attributes le names get (idx # is) empty_run seen_any out =
     (if names idx = [] then
        (if seen_any then
           (if kMaxConsecutiveEmpty \<le> empty_run + 1 then out
            else write_attributes le names get is (empty_run + 1) seen_any out)
         else write_attributes le names get is empty_run seen_any out)
      else write_attributes le names get is 0 True
        (append_variant le
          (append_string (append_uleb128 out (of_nat idx)) (u8sv_to_bytes (names idx))) (get idx)))"

definition encode_attributes :: "bool \<Rightarrow> (nat \<Rightarrow> bytes) \<Rightarrow> (nat \<Rightarrow> variant) \<Rightarrow> bytes" where
  "encode_attributes le names get =
     write_attributes le names get [0..<kMaxScan] 0 False
       (append_uleb128 [] (of_nat (count_attributes names [0..<kMaxScan] 0 False 0)))"

primrec apply_attributes_loop ::
  "bool \<Rightarrow> ('m \<Rightarrow> nat \<Rightarrow> variant \<Rightarrow> 'm) \<Rightarrow> bytes \<Rightarrow> nat \<Rightarrow> nat \<Rightarrow> 'm \<Rightarrow> (status + nat) \<times> 'm" where
  "apply_attributes_loop le set_attribute inp 0 off m = (Inr off, m)"
| "apply_attributes_loop le set_attribute inp (Suc n) off m =
     (case read_uleb128 inp off of Inl st \<Rightarrow> (Inl st, m)
      | Inr (idx, off1) \<Rightarrow>
     (case read_string inp off1 of Inl st \<Rightarrow> (Inl st, m)
      | Inr (name, off2) \<Rightarrow>
     (case read_variant le inp off2 of Inl st \<Rightarrow> (Inl st, m)
      | Inr (v, off3) \<Rightarrow>
          apply_attributes_loop le set_attribute inp n off3 (set_attribute m (unat idx) v))))"

definition apply_attributes ::
  "bool \<Rightarrow> ('m \<Rightarrow> nat \<Rightarrow> variant \<Rightarrow> 'm) \<Rightarrow> 'm \<Rightarrow> bytes \<Rightarrow> status \<times> 'm" where
  "apply_attributes le set_attribute m inp =
     (case read_uleb128 inp 0 of Inl st \<Rightarrow> (st, m)
      | Inr (count, off) \<Rightarrow>
     (case apply_attributes_loop le set_attribute inp (unat count) off m of
        (Inl st, m') \<Rightarrow> (st, m')
      | (Inr off', m') \<Rightarrow>
          if off' \<noteq> length inp then (mk_status corrupt ''trailing bytes in attributes blob'', m')
          else (success, m')))"

subsection \<open>Environment and analyzer settings\<close>

record environment =
  V_eps_max :: u64
  V_epsr_max :: u64
  I_eps_max :: u64
  I_epsr_max :: u64
  charge_eps_max :: u64
  g_min :: u64
  r_open :: u64
  t_TOEF :: u64
  temperature :: u64
  norm_temperature :: u64

definition encode_environment :: "bool \<Rightarrow> environment \<Rightarrow> bytes" where
  "encode_environment le e =
     (let out = append_f64 le [] (V_eps_max e);
          out = append_f64 le out (V_epsr_max e);
          out = append_f64 le out (I_eps_max e);
          out = append_f64 le out (I_epsr_max e);
          out = append_f64 le out (charge_eps_max e);
          out = append_f64 le out (g_min e);
          out = append_f64 le out (r_open e);
          out = append_f64 le out (t_TOEF e);
          out = append_f64 le out (temperature e)
      in append_f64 le out (norm_temperature e))"

text \<open>Fields read one after another into an object; those read before a failure stay assigned.\<close>

fun read_fields :: "('a reader \<times> ('a \<Rightarrow> 'r \<Rightarrow> 'r)) list \<Rightarrow> bytes \<Rightarrow> nat \<Rightarrow> 'r \<Rightarrow> (status + nat) \<times> 'r" where
  "read_fields [] inp off e = (Inr off, e)"
| "read_fields ((rd, upd) # fs) inp off e =
     (case rd inp off of Inl st \<Rightarrow> (Inl st, e)
      | Inr (x, off') \<Rightarrow> read_fields fs inp off' (upd x e))"

definition at_end :: "string \<Rightarrow> bytes \<Rightarrow> (status + nat) \<times> 'r \<Rightarrow> status \<times> 'r" where
  "at_end msg inp r =
     (case r of (Inl st, e) \<Rightarrow> (st, e)
      | (Inr off, e) \<Rightarrow> (if off \<noteq> length inp then mk_status corrupt msg else success, e))"

definition decode_environment :: "bool \<Rightarrow> bytes \<Rightarrow> environment \<Rightarrow> status \<times> environment" where
  "decode_environment le inp e =
     at_end ''trailing bytes in environment'' inp (read_fields
       [(read_f64 le, \<lambda>x e. e\<lparr>V_eps_max := x\<rparr>), (read_f64 le, \<lambda>x e. e\<lparr>V_epsr_max := x\<rparr>),
        (read_f64 le, \<lambda>x e. e\<lparr>I_eps_max := x\<rparr>), (read_f64 le, \<lambda>x e. e\<lparr>I_epsr_max := x\<rparr>),
        (read_f64 le, \<lambda>x e. e\<lparr>charge_eps_max := x\<rparr>), (read_f64 le, \<lambda>x e. e\<lparr>g_min := x\<rparr>),
        (read_f64 le, \<lambda>x e. e\<lparr>r_open := x\<rparr>), (read_f64 le, \<lambda>x e. e\<lparr>t_TOEF := x\<rparr>),
        (read_f64 le, \<lambda>x e. e\<lparr>temperature := x\<rparr>), (read_f64 le, \<lambda>x e. e\<lparr>norm_temperature := x\<rparr>)]
       inp 0 e)"

record analyzer_storage =
  ac_sweep :: u8
  ac_omega :: u64
  ac_omega_start :: u64
  ac_omega_stop :: u64
  ac_points :: u64
  dc_m_currentOmega :: u64
  tr_t_stop :: u64
  tr_t_step :: u64

definition encode_analyzer :: "bool \<Rightarrow> analyzer_storage \<Rightarrow> bytes" where
  "encode_analyzer le a =
     (let out = append_u8 [] (ac_sweep a);
          out = append_f64 le out (ac_omega a);
          out = append_f64 le out (ac_omega_start a);
          out = append_f64 le out (ac_omega_stop a);
          out = append_uleb128 out (ac_points a);
          out = append_f64 le out (dc_m_currentOmega a);
          out = append_f64 le out (tr_t_stop a)
      in append_f64 le out (tr_t_step a))"

definition decode_analyzer :: "bool \<Rightarrow> bytes \<Rightarrow> analyzer_storage \<Rightarrow> status \<times> analyzer_storage" where
  "decode_analyzer le inp a =
     (case read_byte ''unexpected EOF reading analyzer sweep'' inp 0 of
        Inl st \<Rightarrow> (st, a)
      | Inr (b, off) \<Rightarrow>
          at_end ''trailing bytes in analyzer'' inp (read_fields
            [(read_f64 le, \<lambda>x a. a\<lparr>ac_omega := x\<rparr>),
             (read_f64 le, \<lambda>x a. a\<lparr>ac_omega_start := x\<rparr>),
             (read_f64 le, \<lambda>x a. a\<lparr>ac_omega_stop := x\<rparr>),
             (read_uleb128, \<lambda>x a. a\<lparr>ac_points := x\<rparr>),
             (read_f64 le, \<lambda>x a. a\<lparr>dc_m_currentOmega := x\<rparr>),
             (read_f64 le, \<lambda>x a. a\<lparr>tr_t_stop := x\<rparr>),
             (read_f64 le, \<lambda>x a. a\<lparr>tr_t_step := x\<rparr>)]
            inp off (a\<lparr>ac_sweep := b\<rparr>)))"

subsection \<open>Fields, one value at a time\<close>

text \<open>The codec contract for one value, and the part of it that concerns every input.\<close>

definition field :: "'a reader \<Rightarrow> 'a \<Rightarrow> bytes \<Rightarrow> bool" where
  "field rd x bs \<longleftrightarrow>
     (\<forall>inp off suf. in_range inp off \<longrightarrow> drop off inp = bs @ suf \<longrightarrow> rd inp off = Inr (x, off + length bs)) \<and>
     (\<forall>inp off k. in_range inp off \<longrightarrow> drop off inp = take k bs \<longrightarrow> k < length bs \<longrightarrow> (\<exists>st. rd inp off = Inl st))"

definition safe :: "'a reader \<Rightarrow> bool" where
  "safe rd \<longleftrightarrow>
     (\<forall>inp off. in_range inp off \<longrightarrow>
        (case rd inp off of Inl st \<Rightarrow> code st = corrupt | Inr (x, off') \<Rightarrow> off \<le> off' \<and> off' \<le> length inp))"

lemma codec_field: "codec enc rd valid \<Longrightarrow> valid x \<Longrightarrow> field rd x (enc x)"
  unfolding field_def by (meson codec.read_back codec.truncated)

lemma codec_safe: "codec enc rd valid \<Longrightarrow> safe rd"
  unfolding safe_def by (auto split: sum.splits dest: codec.bounded codec.failed)

lemma codecI:
  assumes "\<And>x. valid x \<Longrightarrow> field rd x (enc x)" "safe rd"
  shows "codec enc rd valid"
proof (unfold_locales, goal_cases)
  case 1 then show ?case using assms(1) unfolding field_def by blast
next
  case 2 then show ?case using assms(1) unfolding field_def by blast
next
  case 3 then show ?case using assms(2) unfolding safe_def by (auto split: sum.splits)
next
  case 4 then show ?case using assms(2) unfolding safe_def by (auto split: sum.splits)
qed

lemma fieldD: "field rd x bs \<Longrightarrow> in_range inp off \<Longrightarrow> drop off inp = bs @ suf \<Longrightarrow> rd inp off = Inr (x, off + length bs)"
  unfolding field_def by blast

lemma field_truncD: "field rd x bs \<Longrightarrow> in_range inp off \<Longrightarrow> drop off inp = take k bs \<Longrightarrow> k < length bs \<Longrightarrow> \<exists>st. rd inp off = Inl st"
  unfolding field_def by blast

lemma in_range_step:
  assumes "in_range inp off" "drop off inp = bs @ suf"
  shows "in_range inp (off + length bs)"
proof -
  have "length (drop off inp) = length bs + length suf" using assms(2) by simp
  then show ?thesis using assms(1) by (auto simp: in_range_def)
qed

lemma field_map [intro]: "field rd x bs \<Longrightarrow> field (map_reader f rd) (f x) bs"
proof -
  assume f: "field rd x bs"
  show ?thesis unfolding field_def map_reader_def
    by (auto simp: fieldD [OF f] dest: field_truncD [OF f] split: sum.splits)
qed

lemma safe_map [intro]: "safe rd \<Longrightarrow> safe (map_reader f rd)"
  unfolding safe_def map_reader_def by (auto split: sum.splits)

lemma field_byte [intro]: "field (read_byte eof) b [b]"
proof -
  have "inp ! off = b \<and> off < length inp" if "drop off inp = [b] @ suf" for inp :: bytes and off suf
    using that by (metis append_Cons drop_eq_Nil2 leI list.distinct(1) nth_via_drop)
  then show ?thesis by (auto simp: field_def read_byte_def not_le)
qed

lemma safe_byte [intro]: "safe (read_byte eof)"
  by (auto simp: safe_def read_byte_def in_range_def)

lemmas word_fields =
  codec_field [OF u8_field.fixed.codec_axioms TrueI] codec_field [OF u16_field.fixed.codec_axioms TrueI]
  codec_field [OF u32_field.fixed.codec_axioms TrueI] codec_field [OF u64_field.fixed.codec_axioms TrueI]
  codec_field [OF f64_field.codec_axioms TrueI]

lemmas word_safe =
  codec_safe [OF u8_field.fixed.codec_axioms] codec_safe [OF u16_field.fixed.codec_axioms]
  codec_safe [OF u32_field.fixed.codec_axioms] codec_safe [OF u64_field.fixed.codec_axioms]
  codec_safe [OF f64_field.codec_axioms]

definition enc_variant :: "bool \<Rightarrow> variant \<Rightarrow> bytes" where
  "enc_variant le v = append_variant le [] v"

definition valid_variant :: "variant \<Rightarrow> bool" where
  "valid_variant v = (case v of V_other c \<Rightarrow> c = 0 \<or> 12 < c | _ \<Rightarrow> True)"

lemma append_variant_enc: "append_variant le out v = out @ enc_variant le v"
  by (cases v) (simp_all add: append_variant_def enc_variant_def append_writers)

lemma enc_variant_payload: "enc_variant le v = variant_type v # append_variant_payload le [] v"
  by (cases v) (simp_all add: append_variant_def enc_variant_def append_writers)

lemma field_variant_payload:
  assumes "valid_variant v"
  shows "field (read_variant_payload le (variant_type v)) v (append_variant_payload le [] v)"
proof (cases v)
  case (V_other c)
  then have "\<forall>k \<in> {1, 2, 3, 4, 5, 6, 7, 8, 9, 10, 11, 12}. c \<noteq> k" using assms by (auto simp: valid_variant_def)
  then show ?thesis using V_other by (simp add: read_variant_payload_def field_def)
next
  case (V_boolean b)
  have "field (map_reader (\<lambda>b. V_boolean (b \<noteq> 0)) (read_byte eof)) (V_boolean ((if b then 1 else 0 :: u8) \<noteq> 0)) [if b then 1 else 0]" for eof
    by (intro field_map field_byte)
  from this [of "''unexpected EOF reading bool''"] show ?thesis
    using V_boolean by (cases b) (simp_all add: read_variant_payload_def append_writers)
qed (simp_all add: read_variant_payload_def append_writers field_map field_byte word_fields del: One_nat_def)

lemma safe_variant_payload: "safe (read_variant_payload le t)"
proof -
  have "safe (\<lambda>inp off. Inr (V_other t, off))" by (simp add: safe_def in_range_def)
  then show ?thesis unfolding read_variant_payload_def by (simp add: safe_map safe_byte word_safe del: One_nat_def)
qed

interpretation variant_field: codec "enc_variant le" "read_variant le" valid_variant for le
proof (rule codecI)
  fix v assume v: "valid_variant v"
  let ?p = "append_variant_payload le [] v"
  have f: "field (read_variant_payload le (variant_type v)) v ?p" using v by (rule field_variant_payload)
  have head: "off < length inp \<and> inp ! off = variant_type v \<and> drop (Suc off) inp = bs"
    if "drop off inp = variant_type v # bs" for inp off bs
    using that by (metis Cons_nth_drop_Suc drop_eq_Nil2 leI list.distinct(1) list.inject)
  show "field (read_variant le) v (enc_variant le v)"
    unfolding field_def
  proof (intro conjI allI impI)
    fix inp off suf assume r: "in_range inp off" and d: "drop off inp = enc_variant le v @ suf"
    then have h: "off < length inp" "inp ! off = variant_type v" "drop (Suc off) inp = ?p @ suf"
      using head by (auto simp: enc_variant_payload)
    then show "read_variant le inp off = Inr (v, off + length (enc_variant le v))"
      using r fieldD [OF f _ h(3)] by (simp add: read_variant_def enc_variant_payload in_range_def)
  next
    fix inp off k assume r: "in_range inp off" and d: "drop off inp = take k (enc_variant le v)" and k: "k < length (enc_variant le v)"
    show "\<exists>st. read_variant le inp off = Inl st"
    proof (cases k)
      case 0
      then show ?thesis using d by (simp add: read_variant_def)
    next
      case (Suc j)
      then have h: "off < length inp" "inp ! off = variant_type v" "drop (Suc off) inp = take j ?p"
        using head d by (auto simp: enc_variant_payload)
      then show ?thesis
        using r k Suc field_truncD [OF f _ h(3)] by (simp add: read_variant_def enc_variant_payload in_range_def)
    qed
  qed
next
  show "safe (read_variant le)"
    unfolding safe_def
  proof (intro allI impI)
    fix inp off assume r: "in_range inp off"
    show "case read_variant le inp off of Inl st \<Rightarrow> code st = corrupt | Inr (x, off') \<Rightarrow> off \<le> off' \<and> off' \<le> length inp"
    proof (cases "off < length inp")
      case True
      then have "in_range inp (Suc off)" using r by (simp add: in_range_def)
      then show ?thesis using True safe_variant_payload [of le "inp ! off"]
        unfolding safe_def by (fastforce simp: read_variant_def split: sum.splits)
    qed (simp add: read_variant_def)
  qed
qed

lemma read_fields_back:
  assumes "list_all2 (\<lambda>(rd, upd) (x, bs). field rd x bs) fs vs"
    and "in_range inp off" "drop off inp = concat (map snd vs) @ suf"
  shows "read_fields fs inp off e =
    (Inr (off + length (concat (map snd vs))), fold (\<lambda>((rd, upd), (x, bs)). upd x) (zip fs vs) e)"
  using assms
proof (induction fs vs arbitrary: off e rule: list_all2_induct)
  case (Cons f fs v vs)
  obtain rd upd x bs where [simp]: "f = (rd, upd)" "v = (x, bs)" by (cases f; cases v)
  have f: "field rd x bs" and d: "drop off inp = bs @ (concat (map snd vs) @ suf)" using Cons by simp_all
  have "rd inp off = Inr (x, off + length bs)" using f Cons.prems(1) d by (rule fieldD)
  moreover have "in_range inp (off + length bs)" "drop (off + length bs) inp = concat (map snd vs) @ suf"
    using in_range_step [OF Cons.prems(1) d] drop_next [OF d] by simp_all
  ultimately show ?case using Cons.IH by (simp add: add.assoc)
qed simp

lemma field_f64: "field (read_f64 le) x (le_bytes 8 x)"
  by (rule codec_field [OF f64_field.codec_axioms TrueI])

lemma field_varint: "field read_uleb128 n (uleb n)"
  by (rule codec_field [OF varint.codec_axioms TrueI])

lemma read_f64_inv:
  assumes "in_range inp off" "read_f64 le inp off = Inr (x, off')"
  shows "off' = off + 8 \<and> in_range inp off' \<and> drop off inp = le_bytes 8 x @ drop off' inp"
proof -
  have "8 \<le> length inp - off" and x: "x = of_le_bytes (take 8 (drop off inp))" and o: "off' = off + 8"
    using assms by (auto simp: read_f64_le read_trivial_def split: if_splits)
  then have "le_bytes 8 x = take 8 (drop off inp)"
    using le_bytes_of_le_bytes [of "take 8 (drop off inp)", where 'a = 64] by (simp add: min.absorb2)
  then have "drop off inp = le_bytes 8 x @ drop off' inp" using o by (metis append_take_drop_id add.commute drop_drop)
  moreover have "in_range inp off'" using f64_field.next_range assms by blast
  ultimately show ?thesis using o by simp
qed

lemma read_f64_fields_inv:
  assumes "in_range inp off" "read_fields (map (Pair (read_f64 le)) upds) inp off e = (Inr off', e')"
  shows "\<exists>xs. length xs = length upds \<and> e' = fold (\<lambda>(upd, x). upd x) (zip upds xs) e \<and>
    drop off inp = concat (map (le_bytes 8) xs) @ drop off' inp \<and> off' = off + 8 * length xs"
  using assms
proof (induction upds arbitrary: off e)
  case (Cons u upds)
  from Cons.prems(2) obtain x m where r: "read_f64 le inp off = Inr (x, m)"
    and rest: "read_fields (map (Pair (read_f64 le)) upds) inp m (u x e) = (Inr off', e')"
    by (auto split: sum.splits)
  have m: "m = off + 8" "in_range inp m" "drop off inp = le_bytes 8 x @ drop m inp"
    using read_f64_inv [OF Cons.prems(1) r] by blast+
  obtain xs where "length xs = length upds" "e' = fold (\<lambda>(upd, x). upd x) (zip upds xs) (u x e)"
      "drop m inp = concat (map (le_bytes 8) xs) @ drop off' inp" "off' = m + 8 * length xs"
    using Cons.IH [OF m(2) rest] by blast
  then show ?case using m by (intro exI [of _ "x # xs"]) simp
qed simp

subsection \<open>Environment and analyzer\<close>

definition environment_values :: "environment \<Rightarrow> u64 list" where
  "environment_values e = [V_eps_max e, V_epsr_max e, I_eps_max e, I_epsr_max e, charge_eps_max e,
     g_min e, r_open e, t_TOEF e, temperature e, norm_temperature e]"

lemma encode_environment_values: "encode_environment le e = concat (map (le_bytes 8) (environment_values e))"
  by (simp add: encode_environment_def environment_values_def append_writers Let_def)

lemma length_encode_environment: "length (encode_environment le e) = 80"
  by (simp add: encode_environment_values environment_values_def)

lemma decode_encode_environment: "decode_environment le (encode_environment le e) e0 = (success, e)"
proof -
  let ?inp = "encode_environment le e"
  let ?vs = "map (\<lambda>x. (x, le_bytes 8 x)) (environment_values e)"
  have "drop 0 ?inp = concat (map snd ?vs) @ []" by (simp add: encode_environment_values comp_def)
  moreover have "in_range ?inp 0" by (simp add: in_range_def length_encode_environment SIZE_MAX_def)
  ultimately show ?thesis
    unfolding decode_environment_def
    by (subst read_fields_back [where vs = ?vs and suf = "[]"])
      (simp_all add: environment_values_def field_f64 at_end_def length_encode_environment)
qed

lemma encode_decode_environment:
  assumes len: "length inp \<le> SIZE_MAX" and dec: "decode_environment le inp e0 = (st, e)" and ok: "status_ok st"
  shows "inp = encode_environment le e"
proof -
  let ?upds = "[\<lambda>x e. e\<lparr>V_eps_max := x\<rparr>, \<lambda>x e. e\<lparr>V_epsr_max := x\<rparr>, \<lambda>x e. e\<lparr>I_eps_max := x\<rparr>, \<lambda>x e. e\<lparr>I_epsr_max := x\<rparr>,
    \<lambda>x e. e\<lparr>charge_eps_max := x\<rparr>, \<lambda>x e. e\<lparr>g_min := x\<rparr>, \<lambda>x e. e\<lparr>r_open := x\<rparr>, \<lambda>x e. e\<lparr>t_TOEF := x\<rparr>,
    \<lambda>x e. e\<lparr>temperature := x\<rparr>, \<lambda>x e. e\<lparr>norm_temperature := x\<rparr>] :: (u64 \<Rightarrow> environment \<Rightarrow> environment) list"
  have r0: "in_range inp 0" using len by (simp add: in_range_def)
  have fail: "code st' = corrupt" if "read_fields (map (Pair (read_f64 le)) upds) inp off e1 = (Inl st', e2)" "in_range inp off"
    for st' e1 e2 upds off
    using that by (induction upds arbitrary: off e1)
      (auto split: sum.splits dest: f64_field.failed f64_field.next_range)
  obtain q e1 where q: "read_fields (map (Pair (read_f64 le)) ?upds) inp 0 e0 = (q, e1)" by fastforce
  then have d: "at_end ''trailing bytes in environment'' inp (q, e1) = (st, e)" using dec by (simp add: decode_environment_def)
  have r: "read_fields (map (Pair (read_f64 le)) ?upds) inp 0 e0 = (Inr (length inp), e)"
  proof (cases q)
    case (Inl st')
    then show ?thesis using d ok fail [OF q [unfolded Inl] r0] by (simp add: at_end_def status_ok_def)
  next
    case (Inr off)
    then show ?thesis using d ok q by (auto simp: at_end_def split: if_splits)
  qed
  obtain xs where "length xs = length ?upds" "e = fold (\<lambda>(upd, x). upd x) (zip ?upds xs) e0"
      "drop 0 inp = concat (map (le_bytes 8) xs) @ drop (length inp) inp"
    using read_f64_fields_inv [OF r0 r] by blast
  then show ?thesis
    by (auto simp: length_Suc_conv encode_environment_values environment_values_def)
qed

lemma decode_encode_analyzer: "decode_analyzer le (encode_analyzer le a) a0 = (success, a)"
proof -
  let ?inp = "encode_analyzer le a"
  let ?f = "\<lambda>x. (x, le_bytes 8 x)"
  let ?vs = "[?f (ac_omega a), ?f (ac_omega_start a), ?f (ac_omega_stop a), (ac_points a, uleb (ac_points a)),
    ?f (dc_m_currentOmega a), ?f (tr_t_stop a), ?f (tr_t_step a)]"
  have inp: "?inp = ac_sweep a # concat (map snd ?vs)" by (simp add: encode_analyzer_def append_writers Let_def)
  have "length ?inp \<le> 60" using length_uleb_le [of "ac_points a"] by (simp add: inp)
  then have "in_range ?inp 1" by (simp add: in_range_def inp SIZE_MAX_def)
  moreover have "drop 1 ?inp = concat (map snd ?vs) @ []" by (simp add: inp)
  moreover have "read_byte eof ?inp 0 = Inr (ac_sweep a, 1)" for eof by (simp add: read_byte_def inp)
  ultimately show ?thesis
    unfolding decode_analyzer_def
    by (simp only: sum.case prod.case, subst read_fields_back [where vs = ?vs and suf = "[]"])
      (simp_all add: field_f64 field_varint at_end_def inp)
qed

subsection \<open>Attributes\<close>

text \<open>The indices both passes visit.\<close>

fun scan_attributes :: "(nat \<Rightarrow> bytes) \<Rightarrow> nat list \<Rightarrow> nat \<Rightarrow> bool \<Rightarrow> nat list" where
  "scan_attributes names [] run seen = []"
| "scan_attributes names (i # is) run seen =
     (if names i \<noteq> [] then i # scan_attributes names is 0 True
      else if seen \<and> kMaxConsecutiveEmpty \<le> run + 1 then []
      else scan_attributes names is (if seen then run + 1 else run) seen)"

definition attribute_indices :: "(nat \<Rightarrow> bytes) \<Rightarrow> nat list" where
  "attribute_indices names = scan_attributes names [0..<kMaxScan] 0 False"

type_synonym attribute = "u64 \<times> bytes \<times> variant"

definition attribute_of :: "(nat \<Rightarrow> bytes) \<Rightarrow> (nat \<Rightarrow> variant) \<Rightarrow> nat \<Rightarrow> attribute" where
  "attribute_of names get i = (of_nat i, names i, get i)"

abbreviation enc_attribute :: "bool \<Rightarrow> attribute \<Rightarrow> bytes" where
  "enc_attribute le \<equiv> enc_pair uleb (enc_pair enc_string (enc_variant le))"

abbreviation read_attribute :: "bool \<Rightarrow> attribute reader" where
  "read_attribute le \<equiv> read_pair read_uleb128 (read_pair read_string (read_variant le))"

interpretation name_value: codec_pair enc_string read_string "\<lambda>s. fits (length s)" "enc_variant le" "read_variant le" valid_variant
  for le by unfold_locales

interpretation attribute_field: codec_pair uleb read_uleb128 "\<lambda>_. True"
    "enc_pair enc_string (enc_variant le)" "read_pair read_string (read_variant le)" "\<lambda>(s, v). fits (length s) \<and> valid_variant v"
  for le by unfold_locales

lemma count_attributes_scan:
  "count_attributes names is run seen c = c + length (scan_attributes names is run seen)"
  by (induction names "is" run seen c rule: count_attributes.induct) auto

lemma write_attributes_scan:
  "write_attributes le names get is run seen out =
     out @ concat (map (enc_attribute le \<circ> attribute_of names get) (scan_attributes names is run seen))"
  by (induction le names get "is" run seen out rule: write_attributes.induct)
    (auto simp: append_writers append_variant_enc attribute_of_def enc_pair_def)

lemma scan_attributes_subset: "set (scan_attributes names is run seen) \<subseteq> set is"
  by (induction names "is" run seen rule: scan_attributes.induct) auto

lemma scan_attributes_named: "i \<in> set (scan_attributes names is run seen) \<Longrightarrow> names i \<noteq> []"
  by (induction names "is" run seen rule: scan_attributes.induct) (auto split: if_splits)

lemma length_scan_attributes: "length (scan_attributes names is run seen) \<le> length is"
  by (induction names "is" run seen rule: scan_attributes.induct) auto

lemma encode_attributes_scan:
  "encode_attributes le names get =
     uleb (of_nat (length (attribute_indices names))) @
     concat (map (enc_attribute le \<circ> attribute_of names get) (attribute_indices names))"
  by (simp add: encode_attributes_def write_attributes_scan count_attributes_scan append_writers attribute_indices_def)

lemma apply_attributes_loop_read:
  "apply_attributes_loop le setf inp (Suc n) off m =
     (case read_attribute le inp off of Inl st \<Rightarrow> (Inl st, m)
      | Inr ((idx, name, v), off') \<Rightarrow> apply_attributes_loop le setf inp n off' (setf m (unat idx) v))"
  by (simp add: read_pair_def split: sum.splits)

definition valid_attribute :: "attribute \<Rightarrow> bool" where
  "valid_attribute a = (case a of (i, s, v) \<Rightarrow> fits (length s) \<and> valid_variant v)"

lemma apply_attributes_loop_back:
  assumes "list_all valid_attribute as" "in_range inp off" "drop off inp = concat (map (enc_attribute le) as) @ suf"
  shows "apply_attributes_loop le setf inp (length as) off m =
    (Inr (off + length (concat (map (enc_attribute le) as))), fold (\<lambda>(i, s, v) m. setf m (unat i) v) as m)"
  using assms
proof (induction "as" arbitrary: off m)
  case (Cons a "as")
  have d: "drop off inp = enc_attribute le a @ (concat (map (enc_attribute le) as) @ suf)" using Cons.prems by simp
  have "read_attribute le inp off = Inr (a, off + length (enc_attribute le a))"
    using Cons.prems by (intro attribute_field.read_back [OF _ _ d]) (auto simp: valid_attribute_def)
  then show ?case
    using Cons.IH [OF _ in_range_step [OF Cons.prems(2) d] drop_next [OF d]] Cons.prems(1)
    by (simp add: apply_attributes_loop_read add.assoc split: prod.splits del: apply_attributes_loop.simps)
qed simp

lemma attribute_indices_bound: "i \<in> set (attribute_indices names) \<Longrightarrow> i < 512"
  using scan_attributes_subset [of names "[0..<kMaxScan]"] by (fastforce simp: attribute_indices_def kMaxScan_def)

lemma length_attribute_indices: "length (attribute_indices names) \<le> 512"
  using length_scan_attributes [of names "[0..<kMaxScan]" 0 False] by (simp add: attribute_indices_def kMaxScan_def)

lemma apply_encode_attributes:
  assumes valid: "\<And>i. fits (length (names i))" "\<And>i. valid_variant (get i)"
    and len: "fits (length (encode_attributes le names get))"
  shows "apply_attributes le setf m (encode_attributes le names get) =
    (success, fold (\<lambda>i m. setf m i (get i)) (attribute_indices names) m)"
proof -
  let ?is = "attribute_indices names" and ?inp = "encode_attributes le names get"
  let ?as = "map (attribute_of names get) ?is"
  let ?n = "of_nat (length ?is) :: u64"
  have inp: "?inp = uleb ?n @ concat (map (enc_attribute le) ?as)" by (simp add: encode_attributes_scan)
  then have d: "drop 0 ?inp = uleb ?n @ concat (map (enc_attribute le) ?as)" by simp
  have r0: "in_range ?inp 0" using len by (simp add: in_range_def fits_def)
  have n: "unat ?n = length ?as" using length_attribute_indices [of names] by (simp add: fits_def SIZE_MAX_def)
  have "read_uleb128 ?inp 0 = Inr (?n, length (uleb ?n))" using varint.read_back [OF TrueI r0 d] by simp
  moreover have "apply_attributes_loop le setf ?inp (length ?as) (length (uleb ?n)) m =
      (Inr (length ?inp), fold (\<lambda>(i, s, v) m. setf m (unat i) v) ?as m)"
    using apply_attributes_loop_back [where le = le and as = ?as and off = "length (uleb ?n)" and inp = ?inp and suf = "[]"]
      in_range_step [OF r0 d] drop_next [OF d] valid inp
    by (simp add: list_all_iff valid_attribute_def attribute_of_def)
  moreover have "unat (of_nat i :: u64) = i" if "i \<in> set ?is" for i
    using attribute_indices_bound [OF that] by (simp add: fits_def SIZE_MAX_def)
  then have "fold (\<lambda>(i, s, v) m. setf m (unat i) v) ?as m = fold (\<lambda>i m. setf m i (get i)) ?is m"
    by (auto simp: fold_map comp_def attribute_of_def simp del: unat_of_nat intro!: fold_cong)
  ultimately show ?thesis using n by (simp add: apply_attributes_def)
qed

text \<open>A gap of fewer than 64 unnamed indices hides no attribute.\<close>

lemma scan_attributes_complete:
  assumes "names i \<noteq> []" "k \<le> i" "i < n" "seen \<longrightarrow> run + (i - k) < kMaxConsecutiveEmpty" "i - k \<le> kMaxConsecutiveEmpty"
  shows "i \<in> set (scan_attributes names [k..<n] run seen)"
  using assms
proof (induction "i - k" arbitrary: k run seen)
  case 0
  then show ?case by (simp add: upt_conv_Cons)
next
  case (Suc d)
  then have k: "[k..<n] = k # [Suc k..<n]" "k < i" by (simp_all add: upt_conv_Cons)
  have "i \<in> set (scan_attributes names [Suc k..<n] run' seen')"
    if "seen' \<longrightarrow> run' + (i - Suc k) < kMaxConsecutiveEmpty" for run' seen'
    using Suc that by (intro Suc.hyps(1)) auto
  then show ?case using Suc.prems k by (auto simp: kMaxConsecutiveEmpty_def)
qed

end
