(* ===== verification/Archive.thy ===== *)
theory Archive
  imports Codec
begin

unbundle bit_operations_syntax

text \<open>
  The single-file container of a netlist database (\<^verbatim>\<open>pe_nl_fileformat/archive.h\<close>). An input
  stream is the list of bytes still to read; an output file is the list of bytes written so
  far. What the operating system decides (whether a file opens, whether a write succeeds) is an
  argument; the paths are POSIX paths as bytes.
\<close>

subsection \<open>Checksum and streams\<close>

definition fnv1a_basis :: u64 where "fnv1a_basis = 14695981039346656037"
definition fnv1a_prime :: u64 where "fnv1a_prime = 1099511628211"

definition fnv1a_update :: "u64 \<Rightarrow> bytes \<Rightarrow> u64" where
  "fnv1a_update h data = foldl (\<lambda>h p. (h XOR ucast p) * fnv1a_prime) h data"

definition read_exact :: "bytes \<Rightarrow> nat \<Rightarrow> (bytes \<times> bytes) option" where
  "read_exact inp n = (if length inp < n then None else Some (take n inp, drop n inp))"

text \<open>\<open>wr p\<close> tells whether the stream accepts a write at position \<open>p\<close>.\<close>

definition write_exact :: "(nat \<Rightarrow> bool) \<Rightarrow> bytes \<Rightarrow> bytes \<Rightarrow> bytes option" where
  "write_exact wr out src = (if wr (length out) then Some (out @ src) else None)"

definition write_u32 :: "(nat \<Rightarrow> bool) \<Rightarrow> bool \<Rightarrow> bytes \<Rightarrow> u32 \<Rightarrow> status + bytes" where
  "write_u32 wr le out v =
     (case write_exact wr out (mem_bytes le 4 v) of
        None \<Rightarrow> Inl (mk_status io_error ''failed writing u32'') | Some out' \<Rightarrow> Inr out')"

definition write_u64 :: "(nat \<Rightarrow> bool) \<Rightarrow> bool \<Rightarrow> bytes \<Rightarrow> u64 \<Rightarrow> status + bytes" where
  "write_u64 wr le out v =
     (case write_exact wr out (mem_bytes le 8 v) of
        None \<Rightarrow> Inl (mk_status io_error ''failed writing u64'') | Some out' \<Rightarrow> Inr out')"

definition read_u32 :: "bool \<Rightarrow> bytes \<Rightarrow> status + u32 \<times> bytes" where
  "read_u32 le inp =
     (case read_exact inp 4 of
        None \<Rightarrow> Inl (mk_status io_error ''failed reading u32'') | Some (b, inp') \<Rightarrow> Inr (mem_word le b, inp'))"

definition read_u64 :: "bool \<Rightarrow> bytes \<Rightarrow> status + u64 \<times> bytes" where
  "read_u64 le inp =
     (case read_exact inp 8 of
        None \<Rightarrow> Inl (mk_status io_error ''failed reading u64'') | Some (b, inp') \<Rightarrow> Inr (mem_word le b, inp'))"

definition write_string :: "(nat \<Rightarrow> bool) \<Rightarrow> bool \<Rightarrow> bytes \<Rightarrow> bytes \<Rightarrow> status + bytes" where
  "write_string wr le out s =
     (case write_u64 wr le out (of_nat (length s)) of Inl st \<Rightarrow> Inl st
      | Inr out' \<Rightarrow>
          (case write_exact wr out' s of
             None \<Rightarrow> Inl (mk_status io_error ''failed writing string bytes'') | Some out'' \<Rightarrow> Inr out''))"

definition read_string_max :: "bool \<Rightarrow> bytes \<Rightarrow> nat \<Rightarrow> status + bytes \<times> bytes" where
  "read_string_max le inp max_len =
     (case read_u64 le inp of Inl st \<Rightarrow> Inl st
      | Inr (n, inp') \<Rightarrow>
          if max_len < unat n then Inl (mk_status corrupt ''string length too large'')
          else if n \<noteq> 0 then
            (case read_exact inp' (unat n) of
               None \<Rightarrow> Inl (mk_status io_error ''failed reading string bytes'') | Some (s, inp'') \<Rightarrow> Inr (s, inp''))
          else Inr ([], inp'))"

subsection \<open>Paths\<close>

abbreviation slash :: u8 where "slash \<equiv> 0x2f"
abbreviation dot :: bytes where "dot \<equiv> [0x2e]"
abbreviation dotdot :: bytes where "dotdot \<equiv> [0x2e, 0x2e]"

text \<open>
  The components of a path, and those of \<^verbatim>\<open>lexically_normal()\<close> of a relative path: dots are
  dropped and a name followed by two dots cancels. (An empty normal form is written as one dot,
  a trailing separator leaves an empty component; neither is two dots.)
\<close>

fun path_parts :: "bytes \<Rightarrow> bytes list" where
  "path_parts [] = [[]]"
| "path_parts (c # cs) =
     (if c = slash then [] # path_parts cs
      else case path_parts cs of [] \<Rightarrow> [[c]] | p # ps \<Rightarrow> (c # p) # ps)"

fun normal_parts :: "bytes list \<Rightarrow> bytes list \<Rightarrow> bytes list" where
  "normal_parts [] st = rev st"
| "normal_parts (p # ps) st =
     (if p = [] \<or> p = dot then normal_parts ps st
      else if p = dotdot then
        (case st of [] \<Rightarrow> normal_parts ps [dotdot]
         | q # qs \<Rightarrow> if q = dotdot then normal_parts ps (dotdot # st) else normal_parts ps qs)
      else normal_parts ps (p # st))"

definition is_absolute :: "bytes \<Rightarrow> bool" where
  "is_absolute p = (case p of [] \<Rightarrow> False | c # _ \<Rightarrow> c = slash)"

definition ensure_safe_relative_path :: "bytes \<Rightarrow> status" where
  "ensure_safe_relative_path rel =
     (if rel = [] then mk_status corrupt ''empty path in archive''
      else if is_absolute rel then mk_status corrupt ''absolute paths not allowed in archive''
      else if dotdot \<in> set (normal_parts (path_parts rel) []) then
        mk_status corrupt ''parent path (..) not allowed in archive''
      else success)"

subsection \<open>Packing\<close>

text \<open>
  A regular file of the directory, in the order the directory iterator gives it: the path
  relative to the directory, the size the file system reports, and its contents unless it does
  not open.
\<close>

record dir_file =
  rel :: bytes
  file_sz :: u64
  contents :: "bytes option"

definition kBuf :: nat where "kBuf = 2 ^ 20"

function pack_copy :: "(nat \<Rightarrow> bool) \<Rightarrow> bytes \<Rightarrow> nat \<Rightarrow> bytes \<Rightarrow> u64 \<Rightarrow> status + bytes \<times> u64" where
  "pack_copy wr inp remaining out hash =
     (if remaining = 0 then Inr (out, hash)
      else let n = min remaining kBuf in
        case read_exact inp n of
          None \<Rightarrow> Inl (mk_status io_error ''failed reading file bytes while packing'')
        | Some (buf, inp') \<Rightarrow>
            (case write_exact wr out buf of
               None \<Rightarrow> Inl (mk_status io_error ''failed writing file bytes while packing'')
             | Some out' \<Rightarrow> pack_copy wr inp' (remaining - n) out' (fnv1a_update hash buf)))"
  by auto
termination by (relation "measure (\<lambda>(wr, inp, remaining, out, hash). remaining)") (auto simp: kBuf_def)

declare pack_copy.simps [simp del]

definition pack_path :: "(nat \<Rightarrow> bool) \<Rightarrow> bool \<Rightarrow> bytes \<Rightarrow> bytes \<Rightarrow> u64 \<Rightarrow> status + bytes \<times> u64" where
  "pack_path wr le p out hash =
     (let path_len = of_nat (length p) :: u64 in
      case write_u64 wr le out path_len of Inl st \<Rightarrow> Inl st
      | Inr out1 \<Rightarrow>
          let hash1 = fnv1a_update hash (mem_bytes le 8 path_len) in
          if path_len \<noteq> 0 then
            (case write_exact wr out1 p of
               None \<Rightarrow> Inl (mk_status io_error ''failed writing path bytes'')
             | Some out2 \<Rightarrow> Inr (out2, fnv1a_update hash1 p))
          else Inr (out1, hash1))"

definition pack_file :: "(nat \<Rightarrow> bool) \<Rightarrow> bool \<Rightarrow> dir_file \<Rightarrow> bytes \<Rightarrow> u64 \<Rightarrow> status + bytes \<times> u64" where
  "pack_file wr le f out hash =
     (let st = ensure_safe_relative_path (rel f) in
      if \<not> status_ok st then Inl st
      else case pack_path wr le (rel f) out hash of Inl st \<Rightarrow> Inl st
      | Inr (out1, hash1) \<Rightarrow>
     (case write_u64 wr le out1 (file_sz f) of Inl st \<Rightarrow> Inl st
      | Inr out2 \<Rightarrow>
          let hash2 = fnv1a_update hash1 (mem_bytes le 8 (file_sz f)) in
          case contents f of
            None \<Rightarrow> Inl (mk_status io_error ''failed to open input file while packing'')
          | Some data \<Rightarrow> pack_copy wr data (unat (file_sz f)) out2 hash2))"

fun pack_files :: "(nat \<Rightarrow> bool) \<Rightarrow> bool \<Rightarrow> dir_file list \<Rightarrow> bytes \<Rightarrow> u64 \<Rightarrow> status + bytes \<times> u64" where
  "pack_files wr le [] out hash = Inr (out, hash)"
| "pack_files wr le (f # fs) out hash =
     (case pack_file wr le f out hash of Inl st \<Rightarrow> Inl st
      | Inr (out', hash') \<Rightarrow> pack_files wr le fs out' hash')"

definition magic :: bytes where
  "magic = [0x50, 0x45, 0x4e, 0x4c, 0x44, 0x42, 0x41, 0x31]"

text \<open>\<open>opens\<close>: the output file opens. The result is the status or the bytes of the archive.\<close>

definition pack_directory_to_file ::
  "(nat \<Rightarrow> bool) \<Rightarrow> bool \<Rightarrow> bool \<Rightarrow> bool \<Rightarrow> dir_file list \<Rightarrow> status + bytes" where
  "pack_directory_to_file wr le is_dir opens files =
     (if \<not> is_dir then Inl (mk_status invalid_argument ''pack: input is not a directory'')
      else if \<not> opens then Inl (mk_status io_error ''failed to open output file'')
      else case write_exact wr [] magic of
        None \<Rightarrow> Inl (mk_status io_error ''failed writing magic'')
      | Some out0 \<Rightarrow>
     (case write_u32 wr le out0 1 of Inl st \<Rightarrow> Inl st
      | Inr out1 \<Rightarrow>
     (case write_u64 wr le out1 (of_nat (length files)) of Inl st \<Rightarrow> Inl st
      | Inr out2 \<Rightarrow>
     (case pack_files wr le files out2 fnv1a_basis of Inl st \<Rightarrow> Inl st
      | Inr (out3, hash) \<Rightarrow>
     (case write_u64 wr le out3 hash of Inl st \<Rightarrow> Inl st
      | Inr out4 \<Rightarrow>
          if \<not> wr (length out4) then Inl (mk_status io_error ''failed finalizing archive file'')
          else Inr out4)))))"

subsection \<open>Unpacking\<close>

text \<open>
  The target file system: which paths open for writing and which writes succeed. The files
  written so far are the entries \<open>(path, data)\<close> in the order they were opened.
\<close>

record target =
  creatable :: "bytes \<Rightarrow> bool"
  writable :: "bytes \<Rightarrow> nat \<Rightarrow> bool"

type_synonym entries = "(bytes \<times> bytes) list"

function unpack_copy ::
  "(nat \<Rightarrow> bool) \<Rightarrow> bytes \<Rightarrow> nat \<Rightarrow> bytes \<Rightarrow> u64 \<Rightarrow> (status + bytes \<times> u64) \<times> bytes" where
  "unpack_copy wr inp remaining data hash =
     (if remaining = 0 then (Inr (inp, hash), data)
      else let n = min remaining kBuf in
        case read_exact inp n of
          None \<Rightarrow> (Inl (mk_status io_error ''failed reading file bytes while unpacking''), data)
        | Some (buf, inp') \<Rightarrow>
            let hash' = fnv1a_update hash buf in
            (case write_exact wr data buf of
               None \<Rightarrow> (Inl (mk_status io_error ''failed writing file bytes while unpacking''), data)
             | Some data' \<Rightarrow> unpack_copy wr inp' (remaining - n) data' hash'))"
  by auto
termination by (relation "measure (\<lambda>(wr, inp, remaining, data, hash). remaining)") (auto simp: kBuf_def)

declare unpack_copy.simps [simp del]

definition unpack_path :: "bool \<Rightarrow> bytes \<Rightarrow> u64 \<Rightarrow> status + bytes \<times> bytes \<times> u64" where
  "unpack_path le inp hash =
     (case read_u64 le inp of Inl st \<Rightarrow> Inl st
      | Inr (path_len, inp1) \<Rightarrow>
          let hash1 = fnv1a_update hash (mem_bytes le 8 path_len) in
          if 4096 < path_len then Inl (mk_status corrupt ''archive path too long'')
          else if path_len \<noteq> 0 then
            (case read_exact inp1 (unat path_len) of
               None \<Rightarrow> Inl (mk_status io_error ''failed reading path bytes'')
             | Some (p, inp2) \<Rightarrow> Inr (p, inp2, fnv1a_update hash1 p))
          else Inr ([], inp1, hash1))"

definition unpack_file ::
  "target \<Rightarrow> bool \<Rightarrow> bytes \<Rightarrow> u64 \<Rightarrow> entries \<Rightarrow> (status + bytes \<times> u64) \<times> entries" where
  "unpack_file t le inp hash files =
     (case unpack_path le inp hash of Inl st \<Rightarrow> (Inl st, files)
      | Inr (p, inp1, hash1) \<Rightarrow>
          let st = ensure_safe_relative_path p in
          if \<not> status_ok st then (Inl st, files)
          else (case read_u64 le inp1 of Inl st \<Rightarrow> (Inl st, files)
          | Inr (fsz, inp2) \<Rightarrow>
              let hash2 = fnv1a_update hash1 (mem_bytes le 8 fsz) in
              if \<not> creatable t p then
                (Inl (mk_status io_error ''failed to create output file while unpacking''), files)
              else case unpack_copy (writable t p) inp2 (unat fsz) [] hash2 of
                (r, data) \<Rightarrow> (r, files @ [(p, data)])))"

primrec unpack_files ::
  "target \<Rightarrow> bool \<Rightarrow> nat \<Rightarrow> bytes \<Rightarrow> u64 \<Rightarrow> entries \<Rightarrow> (status + bytes \<times> u64) \<times> entries" where
  "unpack_files t le 0 inp hash files = (Inr (inp, hash), files)"
| "unpack_files t le (Suc n) inp hash files =
     (case unpack_file t le inp hash files of
        (Inl st, files') \<Rightarrow> (Inl st, files')
      | (Inr (inp', hash'), files') \<Rightarrow> unpack_files t le n inp' hash' files')"

definition unpack_file_to_directory :: "target \<Rightarrow> bool \<Rightarrow> bool \<Rightarrow> bytes \<Rightarrow> status \<times> entries" where
  "unpack_file_to_directory t le opens inp =
     (if \<not> opens then (mk_status io_error ''failed to open archive file'', [])
      else case read_exact inp 8 of
        None \<Rightarrow> (mk_status io_error ''failed reading magic'', [])
      | Some (m, inp1) \<Rightarrow>
          if m \<noteq> magic then (mk_status unsupported ''not a pe_nl single-file archive'', [])
          else (case read_u32 le inp1 of Inl st \<Rightarrow> (st, [])
          | Inr (ver, inp2) \<Rightarrow>
              if ver \<noteq> 1 then (mk_status unsupported ''unsupported archive version'', [])
              else (case read_u64 le inp2 of Inl st \<Rightarrow> (st, [])
              | Inr (file_count, inp3) \<Rightarrow>
                  if 10000000 < file_count then (mk_status corrupt ''archive file_count too large'', [])
                  else (case unpack_files t le (unat file_count) inp3 fnv1a_basis [] of
                    (Inl st, files) \<Rightarrow> (st, files)
                  | (Inr (inp4, hash), files) \<Rightarrow>
                      (case read_u64 le inp4 of Inl st \<Rightarrow> (st, files)
                       | Inr (stored_hash, _) \<Rightarrow>
                           if stored_hash \<noteq> hash then (mk_status corrupt ''archive checksum mismatch'', files)
                           else (success, files))))))"

subsection \<open>The format\<close>

definition entry_bytes :: "bool \<Rightarrow> bytes \<times> bytes \<Rightarrow> bytes" where
  "entry_bytes le = (\<lambda>(p, d). mem_bytes le 8 (of_nat (length p) :: u64) @ p @ mem_bytes le 8 (of_nat (length d) :: u64) @ d)"

definition body_bytes :: "bool \<Rightarrow> entries \<Rightarrow> bytes" where
  "body_bytes le es = concat (map (entry_bytes le) es)"

definition archive_with :: "bool \<Rightarrow> entries \<Rightarrow> u64 \<Rightarrow> bytes" where
  "archive_with le es h =
     magic @ mem_bytes le 4 (1 :: u32) @ mem_bytes le 8 (of_nat (length es) :: u64) @ body_bytes le es @ mem_bytes le 8 h"

definition body_hash :: "bool \<Rightarrow> entries \<Rightarrow> u64" where
  "body_hash le es = fnv1a_update fnv1a_basis (body_bytes le es)"

definition archive_bytes :: "bool \<Rightarrow> entries \<Rightarrow> bytes" where
  "archive_bytes le es = archive_with le es (body_hash le es)"

lemma fnv1a_update_simps [simp]:
  "fnv1a_update h [] = h" "fnv1a_update h (b # bs) = fnv1a_update ((h XOR ucast b) * fnv1a_prime) bs"
  by (simp_all add: fnv1a_update_def)

lemma fnv1a_update_append [simp]: "fnv1a_update h (xs @ ys) = fnv1a_update (fnv1a_update h xs) ys"
  by (simp add: fnv1a_update_def)

lemma read_exact_simps:
  "read_exact (b @ inp) (length b) = Some (b, inp)"
  "read_exact inp n = Some (b, inp') \<longleftrightarrow> inp = b @ inp' \<and> length b = n"
  by (auto simp: read_exact_def)

lemma read_u64_mem [simp]: "read_u64 le (mem_bytes le 8 v @ inp) = Inr (v, inp)"
  using read_exact_simps(1) [of "mem_bytes le 8 v"] by (simp add: read_u64_def mem_word_mem_bytes)

lemma read_u32_mem [simp]: "read_u32 le (mem_bytes le 4 v @ inp) = Inr (v, inp)"
  using read_exact_simps(1) [of "mem_bytes le 4 v"] by (simp add: read_u32_def mem_word_mem_bytes)

lemma mem_bytes_mem_word:
  "length bs = n \<Longrightarrow> 8 * n = LENGTH('a::len) \<Longrightarrow> mem_bytes le n (mem_word le bs :: 'a word) = bs"
  using le_bytes_of_le_bytes [of bs, where 'a = 'a] le_bytes_of_le_bytes [of "rev bs", where 'a = 'a]
  by (auto simp: mem_bytes_def mem_word_def)

lemma read_u64_inv: "read_u64 le inp = Inr (v, inp') \<Longrightarrow> inp = mem_bytes le 8 v @ inp'"
  by (auto simp: read_u64_def read_exact_simps mem_bytes_mem_word split: option.splits)

lemma read_u32_inv: "read_u32 le inp = Inr (v, inp') \<Longrightarrow> inp = mem_bytes le 4 v @ inp'"
  by (auto simp: read_u32_def read_exact_simps mem_bytes_mem_word split: option.splits)

lemma read_write_string:
  assumes "write_string wr le out s = Inr out'" "length s \<le> max_len" "max_len \<le> SIZE_MAX"
  shows "read_string_max le (drop (length out) out' @ rest) max_len = Inr (s, rest)"
proof -
  let ?n = "of_nat (length s) :: u64"
  have n: "unat ?n = length s" using assms by (intro fits_unat) (simp add: fits_def)
  then have "?n = 0 \<longleftrightarrow> s = []" by (cases s) (auto dest: arg_cong [of _ _ unat])
  moreover have "out' = out @ mem_bytes le 8 ?n @ s"
    using assms(1) by (auto simp: write_string_def write_u64_def write_exact_def split: if_splits)
  ultimately show ?thesis using n assms(2) read_exact_simps(1) [of s rest] by (auto simp: read_string_max_def)
qed

subsection \<open>Copying in chunks\<close>

lemma unpack_copy_run:
  assumes "remaining \<le> length inp" "\<And>p. wr p"
  shows "unpack_copy wr inp remaining data hash =
    (Inr (drop remaining inp, fnv1a_update hash (take remaining inp)), data @ take remaining inp)"
  using assms
proof (induction wr inp remaining data hash rule: unpack_copy.induct)
  case (1 wr inp remaining data hash)
  show ?case
  proof (cases "remaining = 0")
    case True
    then show ?thesis by (simp add: unpack_copy.simps)
  next
    case False
    let ?n = "min remaining kBuf"
    let ?d = "drop ?n inp" and ?b = "take ?n inp"
    have t: "?b @ take (remaining - ?n) ?d = take remaining inp"
      using take_add [of ?n "remaining - ?n" inp] by simp
    have h: "fnv1a_update (fnv1a_update hash ?b) (take (remaining - ?n) ?d) = fnv1a_update hash (take remaining inp)"
      by (simp only: t flip: fnv1a_update_append)
    have r: "read_exact inp ?n = Some (?b, ?d)" using 1(2) by (simp add: read_exact_def)
    have w: "write_exact wr data ?b = Some (data @ ?b)" using 1(3) by (simp add: write_exact_def)
    have "unpack_copy wr inp remaining data hash = unpack_copy wr ?d (remaining - ?n) (data @ ?b) (fnv1a_update hash ?b)"
      using False r w by (subst unpack_copy.simps) (simp add: Let_def)
    also have "\<dots> = (Inr (drop (remaining - ?n) ?d, fnv1a_update (fnv1a_update hash ?b) (take (remaining - ?n) ?d)),
        (data @ ?b) @ take (remaining - ?n) ?d)"
      using 1(2,3) by (intro 1(1) [OF False refl r refl refl w]) auto
    finally show ?thesis by (simp only: h append_assoc t) simp
  qed
qed

lemma unpack_copy_inv:
  assumes "unpack_copy wr inp remaining data hash = (Inr (inp', hash'), data')"
  shows "inp = drop (length data) data' @ inp' \<and> length data' = length data + remaining \<and>
    take (length data) data' = data \<and> hash' = fnv1a_update hash (drop (length data) data')"
  using assms
proof (induction wr inp remaining data hash rule: unpack_copy.induct)
  case (1 wr inp remaining data hash)
  show ?case
  proof (cases "remaining = 0")
    case True
    then show ?thesis using 1(2) by (simp add: unpack_copy.simps)
  next
    case False
    let ?n = "min remaining kBuf"
    from 1(2) False obtain buf inp1 where r: "read_exact inp ?n = Some (buf, inp1)" and w: "wr (length data)"
      and rest: "unpack_copy wr inp1 (remaining - ?n) (data @ buf) (fnv1a_update hash buf) = (Inr (inp', hash'), data')"
      by (subst (asm) unpack_copy.simps) (auto simp: Let_def write_exact_def split: option.splits if_splits)
    have b: "inp = buf @ inp1" "length buf = ?n" using r by (simp_all add: read_exact_simps)
    have IH: "inp1 = drop (length (data @ buf)) data' @ inp' \<and> length data' = length (data @ buf) + (remaining - ?n) \<and>
        take (length (data @ buf)) data' = data @ buf \<and> hash' = fnv1a_update (fnv1a_update hash buf) (drop (length (data @ buf)) data')"
      using 1(1) [OF False refl r _ refl _ rest] w by (simp add: write_exact_def)
    then have "drop (length data) data' = buf @ drop (length (data @ buf)) data'" "take (length data) data' = data"
      by (metis append_eq_conv_conj append_take_drop_id append.assoc) (metis IH append_eq_conv_conj take_take min.absorb1 le_add1 length_append)
    then show ?thesis using IH b by auto
  qed
qed

lemma pack_copy_inv:
  assumes "pack_copy wr inp remaining out hash = Inr (out', hash')"
  shows "remaining \<le> length inp \<and> out' = out @ take remaining inp \<and> hash' = fnv1a_update hash (take remaining inp)"
  using assms
proof (induction wr inp remaining out hash rule: pack_copy.induct)
  case (1 wr inp remaining out hash)
  show ?case
  proof (cases "remaining = 0")
    case True
    then show ?thesis using 1(2) by (simp add: pack_copy.simps)
  next
    case False
    let ?n = "min remaining kBuf"
    from 1(2) False obtain buf inp1 where r: "read_exact inp ?n = Some (buf, inp1)" and w: "wr (length out)"
      and rest: "pack_copy wr inp1 (remaining - ?n) (out @ buf) (fnv1a_update hash buf) = Inr (out', hash')"
      by (subst (asm) pack_copy.simps) (auto simp: Let_def write_exact_def split: option.splits if_splits)
    have b: "inp = buf @ inp1" "length buf = ?n" using r by (simp_all add: read_exact_simps)
    have t: "take remaining inp = buf @ take (remaining - ?n) inp1" using b by simp
    have "remaining - ?n \<le> length inp1 \<and> out' = (out @ buf) @ take (remaining - ?n) inp1 \<and>
        hash' = fnv1a_update (fnv1a_update hash buf) (take (remaining - ?n) inp1)"
      using 1(1) [OF False refl r refl _ rest] w by (simp add: write_exact_def)
    then show ?thesis using b t by auto
  qed
qed

subsection \<open>Packing writes the format\<close>

definition entry_of :: "dir_file \<Rightarrow> bytes \<times> bytes" where
  "entry_of f = (rel f, take (unat (file_sz f)) (the (contents f)))"

lemma write_u64_inv: "write_u64 wr le out v = Inr out' \<longleftrightarrow> wr (length out) \<and> out' = out @ mem_bytes le 8 v"
  by (auto simp: write_u64_def write_exact_def split: if_splits)

lemma write_u32_inv: "write_u32 wr le out v = Inr out' \<longleftrightarrow> wr (length out) \<and> out' = out @ mem_bytes le 4 v"
  by (auto simp: write_u32_def write_exact_def split: if_splits)

lemma pack_path_inv:
  assumes "pack_path wr le p out hash = Inr (out', hash')" "length p \<le> SIZE_MAX"
  shows "out' = out @ mem_bytes le 8 (of_nat (length p) :: u64) @ p \<and>
    hash' = fnv1a_update hash (mem_bytes le 8 (of_nat (length p) :: u64) @ p)"
proof -
  have "unat (of_nat (length p) :: u64) = length p" using assms(2) by (intro fits_unat) (simp add: fits_def)
  then have "(of_nat (length p) :: u64) = 0 \<longleftrightarrow> p = []" by (cases p) (auto dest: arg_cong [of _ _ unat])
  then show ?thesis using assms(1)
    by (auto simp: pack_path_def Let_def write_u64_inv write_exact_def split: sum.splits option.splits if_splits)
qed

lemma pack_file_inv:
  assumes "pack_file wr le f out hash = Inr (out', hash')" "length (rel f) \<le> SIZE_MAX"
  shows "status_ok (ensure_safe_relative_path (rel f)) \<and> out' = out @ entry_bytes le (entry_of f) \<and>
    hash' = fnv1a_update hash (entry_bytes le (entry_of f)) \<and> length (snd (entry_of f)) = unat (file_sz f)"
proof -
  from assms(1) obtain out1 hash1 out2 data where safe: "status_ok (ensure_safe_relative_path (rel f))"
    and p: "pack_path wr le (rel f) out hash = Inr (out1, hash1)" and o2: "out2 = out1 @ mem_bytes le 8 (file_sz f)"
    and d: "contents f = Some data"
    and c: "pack_copy wr data (unat (file_sz f)) out2 (fnv1a_update hash1 (mem_bytes le 8 (file_sz f))) = Inr (out', hash')"
    by (auto simp: pack_file_def Let_def write_u64_inv split: sum.splits option.splits if_splits prod.splits)
  show ?thesis using safe o2 d pack_path_inv [OF p assms(2)] pack_copy_inv [OF c]
    by (simp add: entry_of_def entry_bytes_def)
qed

lemma pack_files_inv:
  assumes "pack_files wr le files out hash = Inr (out', hash')" "\<forall>f \<in> set files. length (rel f) \<le> SIZE_MAX"
  shows "(\<forall>f \<in> set files. status_ok (ensure_safe_relative_path (rel f)) \<and> length (snd (entry_of f)) = unat (file_sz f)) \<and>
    out' = out @ body_bytes le (map entry_of files) \<and> hash' = fnv1a_update hash (body_bytes le (map entry_of files))"
  using assms
proof (induction files arbitrary: out hash)
  case (Cons f files)
  then obtain out1 hash1 where f: "pack_file wr le f out hash = Inr (out1, hash1)"
      and r: "pack_files wr le files out1 hash1 = Inr (out', hash')"
    by (auto split: sum.splits)
  show ?case using pack_file_inv [OF f] Cons.IH [OF r] Cons.prems(2) by (simp add: body_bytes_def)
qed (simp add: body_bytes_def)

lemma pack_writes_archive:
  assumes "pack_directory_to_file wr le is_dir opens files = Inr out" "\<forall>f \<in> set files. length (rel f) \<le> SIZE_MAX"
  shows "out = archive_bytes le (map entry_of files) \<and>
    (\<forall>f \<in> set files. status_ok (ensure_safe_relative_path (rel f)) \<and> length (snd (entry_of f)) = unat (file_sz f))"
proof -
  from assms(1) obtain out3 hash where
    p: "pack_files wr le files (magic @ mem_bytes le 4 (1 :: u32) @ mem_bytes le 8 (of_nat (length files) :: u64)) fnv1a_basis = Inr (out3, hash)"
    and o: "out = out3 @ mem_bytes le 8 hash"
    by (auto simp: pack_directory_to_file_def write_exact_def write_u32_inv write_u64_inv
        split: sum.splits option.splits if_splits prod.splits)
  show ?thesis using pack_files_inv [OF p assms(2)] o
    by (simp add: archive_bytes_def archive_with_def body_hash_def)
qed

subsection \<open>Unpacking reads the format\<close>

text \<open>What the reader accepts of an entry, and what the target must allow.\<close>

definition entry_ok :: "target \<Rightarrow> bytes \<times> bytes \<Rightarrow> bool" where
  "entry_ok t = (\<lambda>(p, d). status_ok (ensure_safe_relative_path p) \<and> length p \<le> 4096 \<and> fits (length d) \<and>
     creatable t p \<and> (\<forall>n. writable t p n))"

lemma path_len_simps:
  assumes "length p \<le> 4096"
  shows "unat (of_nat (length p) :: u64) = length p" "\<not> 4096 < (of_nat (length p) :: u64)"
    "(of_nat (length p) :: u64) = 0 \<longleftrightarrow> p = []"
proof -
  show u: "unat (of_nat (length p) :: u64) = length p" using assms by (intro fits_unat) (simp add: fits_def SIZE_MAX_def)
  then show "\<not> 4096 < (of_nat (length p) :: u64)" using assms by (simp add: word_less_nat_alt)
  show "(of_nat (length p) :: u64) = 0 \<longleftrightarrow> p = []" using u by (cases p) (auto dest: arg_cong [of _ _ unat])
qed

lemma unpack_path_run:
  assumes "length p \<le> 4096"
  shows "unpack_path le (mem_bytes le 8 (of_nat (length p) :: u64) @ p @ inp) hash =
    Inr (p, inp, fnv1a_update hash (mem_bytes le 8 (of_nat (length p) :: u64) @ p))"
  using path_len_simps [OF assms] read_exact_simps(1) [of p inp] by (auto simp: unpack_path_def Let_def)

lemma unpack_file_run:
  assumes "entry_ok t e"
  shows "unpack_file t le (entry_bytes le e @ inp) hash files =
    (Inr (inp, fnv1a_update hash (entry_bytes le e)), files @ [e])"
proof -
  obtain p d where [simp]: "e = (p, d)" by (cases e)
  have ok: "status_ok (ensure_safe_relative_path p)" "length p \<le> 4096" "fits (length d)" "creatable t p" "\<And>n. writable t p n"
    using assms by (auto simp: entry_ok_def)
  have "entry_bytes le e @ inp = mem_bytes le 8 (of_nat (length p) :: u64) @ p @ (mem_bytes le 8 (of_nat (length d) :: u64) @ d @ inp)"
    by (simp add: entry_bytes_def)
  then show ?thesis using ok unpack_copy_run [of "length d" "d @ inp" "writable t p"]
    by (simp add: unpack_file_def unpack_path_run entry_bytes_def del: unat_of_nat)
qed

lemma unpack_files_run:
  assumes "list_all (entry_ok t) es"
  shows "unpack_files t le (length es) (body_bytes le es @ inp) hash files =
    (Inr (inp, fnv1a_update hash (body_bytes le es)), files @ es)"
  using assms
proof (induction es arbitrary: hash files)
  case (Cons e es)
  then show ?case
    using unpack_file_run [of t e le "body_bytes le es @ inp" hash files] by (simp add: body_bytes_def)
qed (simp add: body_bytes_def)

lemma unpack_archive:
  assumes "list_all (entry_ok t) es" "length es \<le> 10000000"
  shows "unpack_file_to_directory t le True (archive_with le es h @ rest) =
    (if h = body_hash le es then success else mk_status corrupt ''archive checksum mismatch'', es)"
proof -
  let ?n = "of_nat (length es) :: u64"
  have n: "unat ?n = length es" using assms(2) by (intro fits_unat) (simp add: fits_def SIZE_MAX_def)
  then have "\<not> 10000000 < ?n" using assms(2) by (simp add: word_less_nat_alt)
  moreover have "read_exact (archive_with le es h @ rest) 8 =
      Some (magic, mem_bytes le 4 (1 :: u32) @ mem_bytes le 8 ?n @ body_bytes le es @ mem_bytes le 8 h @ rest)"
    by (simp add: read_exact_simps(2) archive_with_def) (simp add: magic_def)
  ultimately show ?thesis
    using n unpack_files_run [OF assms(1), of le "mem_bytes le 8 h @ rest" fnv1a_basis "[]"]
    by (simp add: unpack_file_to_directory_def body_hash_def)
qed

lemma unpack_path_inv:
  assumes "unpack_path le inp hash = Inr (p, inp', hash')"
  shows "inp = mem_bytes le 8 (of_nat (length p) :: u64) @ p @ inp' \<and> length p \<le> 4096 \<and>
    hash' = fnv1a_update hash (mem_bytes le 8 (of_nat (length p) :: u64) @ p)"
proof -
  from assms obtain n inp1 where r: "read_u64 le inp = Inr (n, inp1)" and n: "\<not> 4096 < n"
    and c: "n \<noteq> 0 \<and> read_exact inp1 (unat n) = Some (p, inp') \<and> hash' = fnv1a_update (fnv1a_update hash (mem_bytes le 8 n)) p \<or>
      n = 0 \<and> p = [] \<and> inp' = inp1 \<and> hash' = fnv1a_update hash (mem_bytes le 8 n)"
    by (auto simp: unpack_path_def Let_def split: sum.splits option.splits if_splits)
  have "inp1 = p @ inp' \<and> length p = unat n" using c by (auto simp: read_exact_simps)
  then show ?thesis using read_u64_inv [OF r] n c by (auto simp: word_less_nat_alt)
qed

lemma unpack_file_inv:
  assumes "unpack_file t le inp hash files = (Inr (inp', hash'), files')"
  shows "\<exists>e. inp = entry_bytes le e @ inp' \<and> hash' = fnv1a_update hash (entry_bytes le e) \<and> files' = files @ [e] \<and>
    status_ok (ensure_safe_relative_path (fst e)) \<and> length (fst e) \<le> 4096"
proof -
  from assms obtain p inp1 hash1 n inp2 data where p: "unpack_path le inp hash = Inr (p, inp1, hash1)"
    and safe: "status_ok (ensure_safe_relative_path p)" and r: "read_u64 le inp1 = Inr (n, inp2)"
    and c: "unpack_copy (writable t p) inp2 (unat n) [] (fnv1a_update hash1 (mem_bytes le 8 n)) = (Inr (inp', hash'), data)"
    and f: "files' = files @ [(p, data)]"
    by (auto simp: unpack_file_def Let_def split: sum.splits if_splits prod.splits)
  have "inp2 = data @ inp'" "length data = unat n" "hash' = fnv1a_update (fnv1a_update hash1 (mem_bytes le 8 n)) data"
    using unpack_copy_inv [OF c] by auto
  then show ?thesis using unpack_path_inv [OF p] read_u64_inv [OF r] safe f
    by (intro exI [of _ "(p, data)"]) (simp add: entry_bytes_def)
qed

lemma unpack_files_inv:
  assumes "unpack_files t le n inp hash files = (Inr (inp', hash'), files')"
  shows "\<exists>es. inp = body_bytes le es @ inp' \<and> hash' = fnv1a_update hash (body_bytes le es) \<and> files' = files @ es \<and>
    length es = n \<and> list_all (\<lambda>e. status_ok (ensure_safe_relative_path (fst e)) \<and> length (fst e) \<le> 4096) es"
  using assms
proof (induction n arbitrary: inp hash files)
  case (Suc n)
  from Suc.prems obtain inp1 hash1 files1 where f: "unpack_file t le inp hash files = (Inr (inp1, hash1), files1)"
      and r: "unpack_files t le n inp1 hash1 files1 = (Inr (inp', hash'), files')"
    by (auto split: sum.splits prod.splits)
  obtain e where e: "inp = entry_bytes le e @ inp1" "hash1 = fnv1a_update hash (entry_bytes le e)" "files1 = files @ [e]"
      "status_ok (ensure_safe_relative_path (fst e))" "length (fst e) \<le> 4096"
    using unpack_file_inv [OF f] by blast
  obtain es where "inp1 = body_bytes le es @ inp'" "hash' = fnv1a_update hash1 (body_bytes le es)" "files' = files1 @ es"
      "length es = n" "list_all (\<lambda>e. status_ok (ensure_safe_relative_path (fst e)) \<and> length (fst e) \<le> 4096) es"
    using Suc.IH [OF r] by blast
  then show ?case using e by (intro exI [of _ "e # es"]) (simp add: body_bytes_def)
qed (simp add: body_bytes_def)

lemma read_int_failed: "read_u64 le i = Inl st \<Longrightarrow> \<not> status_ok st" "read_u32 le i = Inl st \<Longrightarrow> \<not> status_ok st"
  by (auto simp: read_u64_def read_u32_def split: option.splits)

lemma unpack_copy_failed: "unpack_copy wr inp remaining data hash = (Inl st, data') \<Longrightarrow> \<not> status_ok st"
proof (induction wr inp remaining data hash rule: unpack_copy.induct)
  case (1 wr inp remaining data hash)
  from 1(2) show ?case
    by (subst (asm) unpack_copy.simps) (auto simp: Let_def split: if_splits option.splits dest: 1(1) [rotated -1])
qed

lemma unpack_file_failed: "unpack_file t le inp hash files = (Inl st, files') \<Longrightarrow> \<not> status_ok st"
  by (auto simp: unpack_file_def unpack_path_def Let_def split: if_splits option.splits sum.splits prod.splits
      dest: read_int_failed unpack_copy_failed)

lemma unpack_files_failed: "unpack_files t le n inp hash files = (Inl st, files') \<Longrightarrow> \<not> status_ok st"
  by (induction n arbitrary: inp hash files) (auto split: sum.splits prod.splits dest: unpack_file_failed)

lemma unpack_reads_archive:
  assumes "unpack_file_to_directory t le opens inp = (st, es)" "status_ok st"
  shows "\<exists>rest. inp = archive_bytes le es @ rest \<and> length es \<le> 10000000 \<and>
    list_all (\<lambda>e. status_ok (ensure_safe_relative_path (fst e)) \<and> length (fst e) \<le> 4096) es"
proof -
  from assms obtain inp1 inp2 n inp3 inp4 hash rest where m: "read_exact inp 8 = Some (magic, inp1)"
    and v: "read_u32 le inp1 = Inr (1, inp2)" and n: "read_u64 le inp2 = Inr (n, inp3)" "\<not> 10000000 < n"
    and f: "unpack_files t le (unat n) inp3 fnv1a_basis [] = (Inr (inp4, hash), es)" and h: "read_u64 le inp4 = Inr (hash, rest)"
    by (auto simp: unpack_file_to_directory_def split: if_splits option.splits sum.splits prod.splits
        dest: read_int_failed unpack_files_failed)
  have "inp = magic @ inp1" using m by (simp add: read_exact_simps)
  moreover have "length es = unat n" "inp3 = body_bytes le es @ inp4" "hash = body_hash le es"
      "list_all (\<lambda>e. status_ok (ensure_safe_relative_path (fst e)) \<and> length (fst e) \<le> 4096) es"
    using unpack_files_inv [OF f] by (auto simp: body_hash_def)
  ultimately show ?thesis
    using read_u32_inv [OF v] read_u64_inv [OF n(1)] read_u64_inv [OF h] n(2)
    by (intro exI [of _ rest]) (simp add: archive_bytes_def archive_with_def word_less_nat_alt)
qed

subsection \<open>The checksum\<close>

lemma fnv1a_prime_inverse: "fnv1a_prime * 14886173955864302971 = 1"
  by (simp add: fnv1a_prime_def)

lemma fnv1a_step_inj:
  assumes "(x :: u64) * fnv1a_prime = y * fnv1a_prime"
  shows "x = y"
proof -
  have "x * (fnv1a_prime * 14886173955864302971) = y * (fnv1a_prime * 14886173955864302971)"
    unfolding mult.assoc [symmetric] assms ..
  then show ?thesis by (simp only: fnv1a_prime_inverse mult.right_neutral)
qed

lemma xor_cancel:
  assumes "(z :: u64) XOR x = z XOR y"
  shows "x = y"
proof -
  have "(z XOR z) XOR x = (z XOR z) XOR y" unfolding xor.assoc assms ..
  then show ?thesis by simp
qed

lemma fnv1a_update_inj: "fnv1a_update h bs = fnv1a_update h' bs \<Longrightarrow> h = h'"
proof (induction bs arbitrary: h h')
  case (Cons b bs)
  then have "(h XOR ucast b) * fnv1a_prime = (h' XOR ucast b) * fnv1a_prime" by simp
  then have "ucast b XOR h = ucast b XOR h'" by (metis fnv1a_step_inj xor.commute)
  then show ?case by (rule xor_cancel)
qed simp

lemma fnv1a_single_byte:
  assumes "b \<noteq> b'"
  shows "fnv1a_update h (xs @ b # ys) \<noteq> fnv1a_update h (xs @ b' # ys)"
proof
  assume "fnv1a_update h (xs @ b # ys) = fnv1a_update h (xs @ b' # ys)"
  then have "(fnv1a_update h xs XOR ucast b) * fnv1a_prime = (fnv1a_update h xs XOR ucast b') * fnv1a_prime"
    using fnv1a_update_inj by simp
  then have e: "(ucast b :: u64) = ucast b'" using xor_cancel fnv1a_step_inj by blast
  have "(ucast (ucast c :: u64) :: u8) = c" for c :: u8 by (rule bit_word_eqI) (simp add: bit_simps)
  then show False using assms e by metis
qed

subsection \<open>Paths stay inside\<close>

text \<open>Following the components of a path from a directory, given by its components from the root.\<close>

fun walk :: "bytes list \<Rightarrow> bytes list \<Rightarrow> bytes list" where
  "walk cur [] = cur"
| "walk cur (p # ps) =
     (if p = [] \<or> p = dot then walk cur ps
      else if p = dotdot then walk (butlast cur) ps
      else walk (cur @ [p]) ps)"

fun escapes :: "bytes list \<Rightarrow> nat \<Rightarrow> bool" where
  "escapes [] d = False"
| "escapes (p # ps) d =
     (if p = [] \<or> p = dot then escapes ps d
      else if p = dotdot then (d = 0 \<or> escapes ps (d - 1))
      else escapes ps (Suc d))"

lemma normal_parts_keeps: "dotdot \<in> set st \<Longrightarrow> dotdot \<in> set (normal_parts ps st)"
  by (induction ps st rule: normal_parts.induct) (auto split: list.splits)

lemma normal_parts_escapes:
  "dotdot \<notin> set st \<Longrightarrow> dotdot \<in> set (normal_parts ps st) \<longleftrightarrow> escapes ps (length st)"
  by (induction ps st rule: normal_parts.induct) (auto simp: normal_parts_keeps split: list.splits)

lemma walk_inside:
  "\<not> escapes ps (length cur) \<Longrightarrow> \<exists>cur'. walk (dir @ cur) (take k ps) = dir @ cur'"
proof (induction ps arbitrary: cur k)
  case (Cons p ps)
  show ?case
  proof (cases k)
    case (Suc j)
    have b: "cur \<noteq> [] \<Longrightarrow> butlast (dir @ cur) = dir @ butlast cur" by (simp add: butlast_append)
    show ?thesis using Cons.prems Cons.IH [of "butlast cur" j] Cons.IH [of "cur @ [p]" j] Cons.IH [of cur j] Suc b
      by (auto split: if_splits)
  qed simp
qed simp

lemma walk_escapes:
  assumes "escapes ps (length cur)" "dir \<noteq> []"
  shows "\<exists>k. walk (dir @ cur) (take k ps) = butlast dir"
  using assms
proof (induction ps arbitrary: cur)
  case (Cons p ps)
  have step: "\<exists>k. walk (dir @ cur) (take k (p # ps)) = butlast dir"
    if "\<exists>j. walk (dir @ cur') (take j ps) = butlast dir" "\<And>qs. walk (dir @ cur) (p # qs) = walk (dir @ cur') qs" for cur'
    using that by (metis take_Suc_Cons)
  consider "p = [] \<or> p = dot" | "p = dotdot" "cur = []" | "p = dotdot" "cur \<noteq> []" | "p \<noteq> []" "p \<noteq> dot" "p \<noteq> dotdot" by blast
  then show ?case
  proof cases
    case 1
    then show ?thesis using Cons by (intro step [of cur]) auto
  next
    case 2
    then show ?thesis by (intro exI [of _ 1]) simp
  next
    case 3
    then show ?thesis using Cons by (intro step [of "butlast cur"]) (auto simp: butlast_append)
  next
    case 4
    then show ?thesis using Cons by (intro step [of "cur @ [p]"]) auto
  qed
qed simp

end
