(* ===== verification/Format_Props.thy ===== *)
theory Format_Props
  imports Blobs Archive
begin

text \<open>
  Properties of the netlist file format: variable-length integers, the blobs of the database,
  and the single-file archive.
\<close>

subsection \<open>The database\<close>

text \<open>
  C22: Reading a variable-length integer looks at the bytes up to the first without a continuation
  bit: if it is among the first ten, the result is the value of the seven-bit groups modulo two to
  the 64 and the offset moves past them; otherwise the status says end of input when fewer than
  ten bytes are left and overflow when not.
\<close>

theorem varint_decoding_exact:
  assumes "off \<le> length inp" and "bs = drop off inp" and "n = length (takeWhile cont bs)"
  shows "read_uleb128 inp off =
    (if n < length bs \<and> n < 10
     then Inr (of_nat (groups_value (take (n + 1) bs)), off + n + 1)
     else Inl (if length bs < 10 then varint_eof else varint_overflow))"
  using assms by (simp add: read_uleb128_spec varint_spec_def Let_def)

theorem varint_decoding_exact_witness:
  "read_uleb128 [7, 0x80, 0x80, 0x80, 0x80, 0x80, 0x80, 0x80, 0x80, 0x80, 2] 1 = Inr (0, 11) \<and>
   read_uleb128 [0xac, 2] 0 = Inr (300, 2) \<and>
   read_uleb128 [0x80] 0 = Inl varint_eof"
proof -
  have "read_uleb128 [7, 0x80, 0x80, 0x80, 0x80, 0x80, 0x80, 0x80, 0x80, 0x80, 2] 1 = Inr (0, 11)"
    using varint_decoding_exact [of 1 "[7, 0x80, 0x80, 0x80, 0x80, 0x80, 0x80, 0x80, 0x80, 0x80, 2]", OF _ refl refl]
    by (simp add: cont_def)
  moreover have "read_uleb128 [0xac, 2] 0 = Inr (300, 2)"
    using varint_decoding_exact [of 0 "[0xac, 2]", OF _ refl refl] by (simp add: cont_def)
  moreover have "read_uleb128 [0x80] 0 = Inl varint_eof"
    using varint_decoding_exact [of 0 "[0x80]", OF _ refl refl] by (simp add: cont_def)
  ultimately show ?thesis by blast
qed

text \<open>A double is stored as the same eight bytes on hosts of either byte order and read back on either.\<close>

theorem f64_portable:
  assumes "length (append_f64 le out u @ suf) \<le> SIZE_MAX"
  shows "append_f64 le out u = append_f64 le' out u \<and>
    read_f64 le' (append_f64 le out u @ suf) (length out) = Inr (u, length out + 8)"
  using assms f64_field.round_trip [of out u suf le'] by (simp add: append_f64_le)

theorem f64_portable_witness:
  "append_f64 False [1] 0x3ff0000000000001 = [1, 1, 0, 0, 0, 0, 0, 0xf0, 0x3f] \<and>
   read_f64 True [1, 1, 0, 0, 0, 0, 0, 0xf0, 0x3f] 1 = Inr (0x3ff0000000000001, 9)"
proof -
  have b: "append_f64 le [1] 0x3ff0000000000001 = [1, 1, 0, 0, 0, 0, 0, 0xf0, 0x3f]" for le
    by (simp add: append_f64_le le_bytes_def upt_rec)
  then show ?thesis
    using f64_portable [of False "[1]" "0x3ff0000000000001" "[]" True] by (simp add: SIZE_MAX_def)
qed

text \<open>
  C20: Applying the attribute blob of a model to another model succeeds and sets, in order,
  exactly the attributes the scan found to the values it read, on hosts of either byte order; the
  scan finds every named attribute with an index of at most 64.
\<close>

theorem attributes_round_trip:
  assumes "\<And>i. fits (length (names i))" and "\<And>i. valid_variant (get i)"
    and "fits (length (encode_attributes le names get))"
  shows "apply_attributes le set_attribute m (encode_attributes le names get) =
      (success, fold (\<lambda>i m. set_attribute m i (get i)) (attribute_indices names) m) \<and>
    (\<forall>i \<le> 64. i \<in> set (attribute_indices names) \<longleftrightarrow> names i \<noteq> [])"
proof -
  have "i \<in> set (attribute_indices names) \<longleftrightarrow> names i \<noteq> []" if "i \<le> 64" for i
    using that scan_attributes_complete [of names i 0 kMaxScan] scan_attributes_named [of i names]
    by (auto simp: attribute_indices_def kMaxScan_def kMaxConsecutiveEmpty_def)
  then show ?thesis using apply_encode_attributes [OF assms] by simp
qed

definition demo_names :: "nat \<Rightarrow> bytes" where
  "demo_names i = (if i = 2 then [0x52] else [])"

lemma scan_unnamed: "\<forall>i \<in> set is. names i = [] \<Longrightarrow> scan_attributes names is run seen = []"
  by (induction names "is" run seen rule: scan_attributes.induct) auto

lemma demo_indices: "attribute_indices demo_names = [2]"
proof -
  have "[0..<3] = [0, 1, 2 :: nat]" by (simp add: upt_rec)
  then have "[0..<kMaxScan] = [0, 1, 2] @ [3..<512]" using upt_add_eq_append [of 0 3 509]
    by (simp add: kMaxScan_def del: upt_rec_numeral)
  moreover have "scan_attributes demo_names [3..<512] 0 True = []" by (rule scan_unnamed) (simp add: demo_names_def del: upt_rec_numeral)
  ultimately show ?thesis by (simp add: attribute_indices_def demo_names_def del: upt_rec_numeral)
qed

theorem attributes_round_trip_witness:
  "apply_attributes True (\<lambda>m i v. m @ [(i, v)]) [] (encode_attributes False demo_names (\<lambda>_. V_ui8 7)) = (success, [(2, V_ui8 7)])"
proof -
  have e: "encode_attributes le demo_names (\<lambda>_. V_ui8 7) = [1, 2, 1, 0x52, 5, 7]" for le
    by (simp add: encode_attributes_scan demo_indices attribute_of_def enc_pair_def enc_string_def demo_names_def
        uleb_rec enc_variant_payload append_writers mem_bytes_def le_bytes_def word_le_nat_alt)
  have "apply_attributes True (\<lambda>m i v. m @ [(i, v)]) [] (encode_attributes True demo_names (\<lambda>_. V_ui8 7)) =
      (success, fold (\<lambda>i m. m @ [(i, V_ui8 7)]) (attribute_indices demo_names) [])"
    using attributes_round_trip [of demo_names "\<lambda>_. V_ui8 7" True "\<lambda>m i v. m @ [(i, v)]" "[]"]
    by (simp add: e fits_def SIZE_MAX_def valid_variant_def demo_names_def)
  then show ?thesis by (simp add: e demo_indices)
qed

text \<open>
  C21: Decoding a blob gives an environment without an error exactly when the blob is the encoding
  of that environment, whatever the decoder started from: every environment is read back bit for
  bit, and shorter, longer or other blobs are refused.
\<close>

theorem environment_round_trip:
  assumes "length inp \<le> SIZE_MAX"
  shows "(\<exists>st. decode_environment le inp e0 = (st, e) \<and> status_ok st) \<longleftrightarrow> inp = encode_environment le e"
proof
  assume "\<exists>st. decode_environment le inp e0 = (st, e) \<and> status_ok st"
  then show "inp = encode_environment le e" using encode_decode_environment [OF assms] by blast
next
  assume "inp = encode_environment le e"
  then show "\<exists>st. decode_environment le inp e0 = (st, e) \<and> status_ok st"
    using decode_encode_environment [of le e e0] by (intro exI [of _ success]) simp
qed

definition demo_environment :: environment where
  "demo_environment = \<lparr>V_eps_max = 1, V_epsr_max = 2, I_eps_max = 3, I_epsr_max = 4, charge_eps_max = 5,
     g_min = 6, r_open = 7, t_TOEF = 8, temperature = 9, norm_temperature = 10\<rparr>"

theorem environment_round_trip_witness:
  "(\<exists>st. decode_environment True (encode_environment False demo_environment) (demo_environment\<lparr>g_min := 0\<rparr>) = (st, demo_environment) \<and> status_ok st) \<and>
   \<not> (\<exists>st. decode_environment True [] demo_environment = (st, demo_environment) \<and> status_ok st)"
proof
  have e: "encode_environment False demo_environment = encode_environment True demo_environment"
    by (simp add: encode_environment_values)
  show "\<exists>st. decode_environment True (encode_environment False demo_environment) (demo_environment\<lparr>g_min := 0\<rparr>) = (st, demo_environment) \<and> status_ok st"
    using environment_round_trip [of "encode_environment False demo_environment" True "demo_environment\<lparr>g_min := 0\<rparr>" demo_environment]
    by (simp add: length_encode_environment SIZE_MAX_def e)
  have "[] \<noteq> encode_environment True demo_environment"
    using length_encode_environment [of True demo_environment] by (metis list.size(3) zero_neq_numeral)
  then show "\<not> (\<exists>st. decode_environment True [] demo_environment = (st, demo_environment) \<and> status_ok st)"
    using environment_round_trip [of "[]" True demo_environment demo_environment] by simp
qed

subsection \<open>The archive\<close>

definition dir_ok :: "dir_file list \<Rightarrow> bool" where
  "dir_ok files = (length files \<le> 10000000 \<and> list_all (\<lambda>f. length (rel f) \<le> 4096) files)"

text \<open>
  C11: Whatever pack_directory_to_file writes for a directory of at most ten million files with
  paths of at most 4096 bytes, unpack_file_to_directory accepts and turns back into exactly these
  files, with the same paths, contents and order, when the target accepts every write.
\<close>

theorem archive_round_trip:
  assumes "pack_directory_to_file wr le is_dir opens files = Inr out" and "dir_ok files"
    and "\<And>p. creatable t p" and "\<And>p n. writable t p n"
  shows "unpack_file_to_directory t le True out =
      (success, map (\<lambda>f. (rel f, take (unat (file_sz f)) (the (contents f)))) files)"
proof -
  have len: "\<forall>f \<in> set files. length (rel f) \<le> SIZE_MAX" using assms(2) by (auto simp: dir_ok_def list_all_iff SIZE_MAX_def)
  note p = pack_writes_archive [OF assms(1) len]
  have "length (snd (entry_of f)) \<le> SIZE_MAX" if "f \<in> set files" for f
    using p that unsigned_less [of "file_sz f", where 'a = nat] by (simp add: SIZE_MAX_def)
  then have "list_all (entry_ok t) (map entry_of files)"
    using p assms(2-4) by (auto simp: list_all_iff entry_ok_def entry_of_def dir_ok_def fits_def)
  then show ?thesis using unpack_archive [of t "map entry_of files" le "body_hash le (map entry_of files)" "[]"] p assms(2)
    by (simp add: archive_bytes_def dir_ok_def entry_of_def)
qed

definition demo_dir :: "dir_file list" where
  "demo_dir = [\<lparr>rel = [0x61], file_sz = 2, contents = Some [1, 2]\<rparr>, \<lparr>rel = [0x62, 0x2f, 0x63], file_sz = 0, contents = Some []\<rparr>]"

definition any_target :: target where
  "any_target = \<lparr>creatable = \<lambda>_. True, writable = \<lambda>_ _. True\<rparr>"

lemma demo_pack: "\<exists>out. pack_directory_to_file (\<lambda>_. True) True True True demo_dir = Inr out"
  by (simp add: pack_directory_to_file_def demo_dir_def write_exact_def write_u32_def write_u64_def pack_file_def
      pack_path_def pack_copy.simps read_exact_def kBuf_def ensure_safe_relative_path_def is_absolute_def Let_def)

theorem archive_round_trip_witness:
  "\<exists>out. pack_directory_to_file (\<lambda>_. True) True True True demo_dir = Inr out \<and>
     unpack_file_to_directory any_target True True out = (success, [([0x61], [1, 2]), ([0x62, 0x2f, 0x63], [])])"
proof -
  obtain out where p: "pack_directory_to_file (\<lambda>_. True) True True True demo_dir = Inr out" using demo_pack by blast
  have "unpack_file_to_directory any_target True True out =
      (success, map (\<lambda>f. (rel f, take (unat (file_sz f)) (the (contents f)))) demo_dir)"
    using p by (rule archive_round_trip) (simp_all add: dir_ok_def demo_dir_def any_target_def)
  then show ?thesis using p by (simp add: demo_dir_def)
qed

text \<open>
  C18: Input that unpack_file_to_directory accepts begins with the archive of exactly the files it
  wrote, checksum included, and every path among them passed the path check and has at most 4096
  bytes; bytes after the checksum are ignored.
\<close>

theorem archive_accepted_is_archive:
  assumes "unpack_file_to_directory t le opens inp = (st, es)" and "status_ok st"
  shows "\<exists>rest. inp = archive_bytes le es @ rest \<and> length es \<le> 10000000 \<and>
    list_all (\<lambda>(p, d). status_ok (ensure_safe_relative_path p) \<and> length p \<le> 4096) es"
  using unpack_reads_archive [OF assms] by (simp add: case_prod_unfold)

theorem archive_accepted_is_archive_witness:
  "\<exists>rest. archive_bytes True [([0x61], [1, 2])] @ [9] = archive_bytes True [([0x61], [1, 2])] @ rest \<and>
     length [([0x61 :: u8], [1 :: u8, 2])] \<le> 10000000 \<and>
     list_all (\<lambda>(p, d). status_ok (ensure_safe_relative_path p) \<and> length p \<le> 4096) [([0x61], [1 :: u8, 2])]"
proof (rule archive_accepted_is_archive)
  have "list_all (entry_ok any_target) [([0x61], [1, 2])]"
    by (simp add: entry_ok_def any_target_def fits_def SIZE_MAX_def ensure_safe_relative_path_def is_absolute_def)
  then show "unpack_file_to_directory any_target True True (archive_bytes True [([0x61], [1, 2])] @ [9]) = (success, [([0x61], [1, 2])])"
    using unpack_archive [of any_target "[([0x61], [1, 2])]" True _ "[9]"] by (simp add: archive_bytes_def)
qed simp

text \<open>
  Changing one byte of the contents of a file inside an archive is always detected: unpacking
  reports a checksum mismatch. By then every file, the corrupted one included, has been written to
  the directory.
\<close>

theorem archive_corruption_detected:
  assumes "list_all (entry_ok t) (es @ (p, xs @ b # ys) # fs)" and "b \<noteq> b'" and "length es + length fs < 10000000"
    and "good = es @ (p, xs @ b # ys) # fs" and "bad = es @ (p, xs @ b' # ys) # fs"
  shows "unpack_file_to_directory t le True (archive_with le bad (body_hash le good)) =
    (mk_status corrupt ''archive checksum mismatch'', bad)"
proof -
  let ?pre = "body_bytes le es @ mem_bytes le 8 (of_nat (length p) :: u64) @ p @
    mem_bytes le 8 (of_nat (Suc (length xs + length ys)) :: u64) @ xs"
  have "body_bytes le good = ?pre @ b # (ys @ body_bytes le fs)" "body_bytes le bad = ?pre @ b' # (ys @ body_bytes le fs)"
    using assms(4,5) by (simp_all add: body_bytes_def entry_bytes_def)
  then have "body_hash le good \<noteq> body_hash le bad"
    unfolding body_hash_def using fnv1a_single_byte [OF assms(2)] by metis
  moreover have "list_all (entry_ok t) bad" using assms(1,5) by (auto simp: entry_ok_def)
  moreover have "length bad \<le> 10000000" using assms(3,5) by simp
  ultimately show ?thesis using unpack_archive [of t bad le "body_hash le good" "[]"] by simp
qed

theorem archive_corruption_detected_witness:
  "unpack_file_to_directory any_target True True
     (archive_with True [([0x61], [1, 2])] (body_hash True [([0x61], [1, 3])])) =
   (mk_status corrupt ''archive checksum mismatch'', [([0x61], [1, 2])])"
  by (rule archive_corruption_detected [of any_target "[]" "[0x61]" "[1]" 3 "[]" "[]" 2])
    (simp_all add: entry_ok_def any_target_def fits_def SIZE_MAX_def ensure_safe_relative_path_def is_absolute_def)

text \<open>
  The writer enforces none of the limits of the reader: a directory with a longer path packs
  without an error into an archive that does not unpack.
\<close>

lemma long_path_unreadable:
  assumes pack: "pack_directory_to_file wr le is_dir opens [f] = Inr out" and len: "4096 < length (rel f)" "length (rel f) \<le> SIZE_MAX"
  shows "unpack_file_to_directory t le True out = (mk_status corrupt ''archive path too long'', [])"
proof -
  let ?n = "of_nat (length (rel f)) :: u64"
  have out: "out = archive_bytes le [entry_of f]" using pack_writes_archive [OF pack] len by simp
  obtain rest where r: "archive_bytes le [entry_of f] = magic @ mem_bytes le 4 (1 :: u32) @ mem_bytes le 8 (1 :: u64) @ mem_bytes le 8 ?n @ rest"
    by (simp add: archive_bytes_def archive_with_def body_bytes_def entry_bytes_def entry_of_def)
  have "unat ?n = length (rel f)" using len by (intro fits_unat) (simp add: fits_def)
  then have "4096 < ?n" using len by (simp add: word_less_nat_alt)
  then have "unpack_files t le (Suc 0) (mem_bytes le 8 ?n @ rest) fnv1a_basis [] = (Inl (mk_status corrupt ''archive path too long''), [])"
    by (simp add: unpack_file_def unpack_path_def Let_def)
  moreover have "read_exact out 8 = Some (magic, mem_bytes le 4 (1 :: u32) @ mem_bytes le 8 (1 :: u64) @ mem_bytes le 8 ?n @ rest)"
    unfolding out r by (simp add: read_exact_simps(2)) (simp add: magic_def)
  ultimately show ?thesis by (simp add: unpack_file_to_directory_def)
qed

text \<open>
  C19: A non-empty relative path passes the path check exactly when following its components from
  any directory never leaves that directory, at no component.
\<close>

theorem archive_paths_inside:
  assumes "dir \<noteq> []" and "p \<noteq> []" and "\<not> is_absolute p"
  shows "status_ok (ensure_safe_relative_path p) \<longleftrightarrow>
    (\<forall>k. \<exists>q. walk dir (take k (path_parts p)) = dir @ q)"
proof -
  have "status_ok (ensure_safe_relative_path p) \<longleftrightarrow> \<not> escapes (path_parts p) 0"
    using assms normal_parts_escapes [of "[]" "path_parts p"] by (simp add: ensure_safe_relative_path_def)
  moreover have "butlast dir \<noteq> dir @ q" for q
  proof
    assume "butlast dir = dir @ q"
    then have "length dir - 1 = length dir + length q" by (metis length_append length_butlast)
    then show False using assms(1) by (cases dir) simp_all
  qed
  ultimately show ?thesis
    using walk_inside [of "path_parts p" "[]" dir] walk_escapes [of "path_parts p" "[]" dir] assms(1)
    by (metis append_Nil2 list.size(3))
qed

theorem archive_paths_inside_witness:
  "status_ok (ensure_safe_relative_path [0x61, 0x2f, 0x2e, 0x2e, 0x2f, 0x62]) \<and>
   \<not> status_ok (ensure_safe_relative_path [0x61, 0x2f, 0x2e, 0x2e, 0x2f, 0x2e, 0x2e]) \<and>
   (\<exists>q. walk [[0x64]] (take 3 (path_parts [0x61, 0x2f, 0x2e, 0x2e, 0x2f, 0x62])) = [[0x64]] @ q)"
proof -
  have ok: "status_ok (ensure_safe_relative_path [0x61, 0x2f, 0x2e, 0x2e, 0x2f, 0x62])"
    by (simp add: ensure_safe_relative_path_def is_absolute_def)
  then have "\<exists>q. walk [[0x64]] (take 3 (path_parts [0x61, 0x2f, 0x2e, 0x2e, 0x2f, 0x62])) = [[0x64]] @ q"
    using archive_paths_inside [of "[[0x64]]" "[0x61, 0x2f, 0x2e, 0x2e, 0x2f, 0x62]"] by (auto simp: is_absolute_def)
  moreover have "\<not> status_ok (ensure_safe_relative_path [0x61, 0x2f, 0x2e, 0x2e, 0x2f, 0x2e, 0x2e])"
    by (simp add: ensure_safe_relative_path_def is_absolute_def)
  ultimately show ?thesis using ok by blast
qed

end
