(* ===== verification/Logic4.thy ===== *)
theory Logic4
  imports Prelude "HOL-Library.Multiset"
begin

text \<open>
  The four-valued logic of \<^verbatim>\<open>model/node/node.h\<close> (the overloaded operators the device models
  use) and of \<^verbatim>\<open>verilog/digital/digital.h\<close> (the free functions the Verilog front end uses),
  with the algebra both share and the information order that makes \<^verbatim>\<open>X\<close> a sound
  abstraction of the two binary values.
\<close>

subsection \<open>Values\<close>

datatype digital_node_statement_t =
    false_state | true_state | indeterminate_state | high_impedence_state

type_synonym logic_t = digital_node_statement_t

text \<open>\<^verbatim>\<open>static_cast<logic_t>(bool)\<close> and \<^verbatim>\<open>static_cast<bool>(logic_t)\<close>.\<close>

definition of_bool_state :: "bool \<Rightarrow> logic_t" where
  "of_bool_state b = (if b then true_state else false_state)"

definition to_bool_state :: "logic_t \<Rightarrow> bool" where
  "to_bool_state v \<longleftrightarrow> v \<noteq> false_state"

fun state_char :: "logic_t \<Rightarrow> char" where
  "state_char false_state = CHR ''L''"
| "state_char true_state = CHR ''H''"
| "state_char indeterminate_state = CHR ''X''"
| "state_char high_impedence_state = CHR ''Z''"

subsection \<open>Operators of the device models (node.h)\<close>

fun op_and :: "logic_t \<Rightarrow> logic_t \<Rightarrow> logic_t" where
  "op_and false_state b = false_state"
| "op_and true_state b =
     (case b of false_state \<Rightarrow> false_state
      | true_state \<Rightarrow> true_state
      | indeterminate_state \<Rightarrow> indeterminate_state
      | high_impedence_state \<Rightarrow> indeterminate_state)"
| "op_and _ b =
     (case b of false_state \<Rightarrow> false_state
      | true_state \<Rightarrow> indeterminate_state
      | indeterminate_state \<Rightarrow> indeterminate_state
      | high_impedence_state \<Rightarrow> indeterminate_state)"

fun op_or :: "logic_t \<Rightarrow> logic_t \<Rightarrow> logic_t" where
  "op_or false_state b =
     (case b of false_state \<Rightarrow> false_state
      | true_state \<Rightarrow> true_state
      | indeterminate_state \<Rightarrow> indeterminate_state
      | high_impedence_state \<Rightarrow> indeterminate_state)"
| "op_or true_state b = true_state"
| "op_or _ b =
     (case b of false_state \<Rightarrow> indeterminate_state
      | true_state \<Rightarrow> true_state
      | indeterminate_state \<Rightarrow> indeterminate_state
      | high_impedence_state \<Rightarrow> indeterminate_state)"

fun op_not :: "logic_t \<Rightarrow> logic_t" where
  "op_not false_state = true_state"
| "op_not true_state = false_state"
| "op_not indeterminate_state = indeterminate_state"
| "op_not high_impedence_state = indeterminate_state"

fun op_xor :: "logic_t \<Rightarrow> logic_t \<Rightarrow> logic_t" where
  "op_xor indeterminate_state b = indeterminate_state"
| "op_xor high_impedence_state b = indeterminate_state"
| "op_xor a b =
     (case b of false_state \<Rightarrow> of_bool_state (to_bool_state a \<noteq> to_bool_state b)
      | true_state \<Rightarrow> of_bool_state (to_bool_state a \<noteq> to_bool_state b)
      | indeterminate_state \<Rightarrow> indeterminate_state
      | high_impedence_state \<Rightarrow> indeterminate_state)"

subsection \<open>Functions of the Verilog front end (digital.h)\<close>

definition normalize_z_to_x :: "logic_t \<Rightarrow> logic_t" where
  "normalize_z_to_x v = (if v = high_impedence_state then indeterminate_state else v)"

definition is_unknown :: "logic_t \<Rightarrow> bool" where
  "is_unknown v \<longleftrightarrow> normalize_z_to_x v = indeterminate_state"

definition logic_not :: "logic_t \<Rightarrow> logic_t" where
  "logic_not a =
     (case normalize_z_to_x a of
        false_state \<Rightarrow> true_state
      | true_state \<Rightarrow> false_state
      | _ \<Rightarrow> indeterminate_state)"

definition logic_and :: "logic_t \<Rightarrow> logic_t \<Rightarrow> logic_t" where
  "logic_and a0 b0 =
     (let a = normalize_z_to_x a0; b = normalize_z_to_x b0 in
      if a = false_state \<or> b = false_state then false_state
      else if is_unknown a \<or> is_unknown b then indeterminate_state
      else true_state)"

definition logic_or :: "logic_t \<Rightarrow> logic_t \<Rightarrow> logic_t" where
  "logic_or a0 b0 =
     (let a = normalize_z_to_x a0; b = normalize_z_to_x b0 in
      if a = true_state \<or> b = true_state then true_state
      else if is_unknown a \<or> is_unknown b then indeterminate_state
      else false_state)"

definition logic_xor :: "logic_t \<Rightarrow> logic_t \<Rightarrow> logic_t" where
  "logic_xor a0 b0 =
     (let a = normalize_z_to_x a0; b = normalize_z_to_x b0 in
      if is_unknown a \<or> is_unknown b then indeterminate_state
      else of_bool_state (to_bool_state a \<noteq> to_bool_state b))"

text \<open>The comparisons of \<^verbatim>\<open>eval_expr\<close>: \<^verbatim>\<open>==\<close>, \<^verbatim>\<open>!=\<close> and \<^verbatim>\<open>===\<close> on one bit.\<close>

definition logic_eq :: "logic_t \<Rightarrow> logic_t \<Rightarrow> logic_t" where
  "logic_eq a0 b0 =
     (let a = normalize_z_to_x a0; b = normalize_z_to_x b0 in
      if is_unknown a \<or> is_unknown b then indeterminate_state
      else if a = b then true_state else false_state)"

definition logic_neq :: "logic_t \<Rightarrow> logic_t \<Rightarrow> logic_t" where
  "logic_neq a0 b0 =
     (let a = normalize_z_to_x a0; b = normalize_z_to_x b0 in
      if is_unknown a \<or> is_unknown b then indeterminate_state
      else if a \<noteq> b then true_state else false_state)"

definition logic_case_eq :: "logic_t \<Rightarrow> logic_t \<Rightarrow> logic_t" where
  "logic_case_eq a b = (if a = b then true_state else false_state)"

definition logic_is_unknown :: "logic_t \<Rightarrow> logic_t" where
  "logic_is_unknown a = (if is_unknown (normalize_z_to_x a) then true_state else false_state)"

text \<open>Resolution of two drivers of one net, in the Verilog runtime.\<close>

definition resolve_net_drivers :: "logic_t \<Rightarrow> logic_t \<Rightarrow> logic_t" where
  "resolve_net_drivers a0 b0 =
     (if b0 = high_impedence_state then a0
      else if a0 = high_impedence_state then b0
      else
        let a = normalize_z_to_x a0; b = normalize_z_to_x b0 in
        if is_unknown a \<or> is_unknown b then indeterminate_state
        else if a = b then a else indeterminate_state)"

text \<open>Resolution in the \<^verbatim>\<open>RESOLVE2\<close> device (\<^verbatim>\<open>logical/resolve2.h\<close>, the lambda \<^verbatim>\<open>resolve\<close>).\<close>

definition resolve2 :: "logic_t \<Rightarrow> logic_t \<Rightarrow> logic_t" where
  "resolve2 a0 b0 =
     (if a0 = high_impedence_state then b0
      else if b0 = high_impedence_state then a0
      else if a0 = b0 then a0
      else indeterminate_state)"

lemmas logic_defs =
  normalize_z_to_x_def is_unknown_def logic_not_def logic_and_def logic_or_def logic_xor_def
  logic_eq_def logic_neq_def logic_case_eq_def logic_is_unknown_def resolve_net_drivers_def
  resolve2_def of_bool_state_def to_bool_state_def Let_def


lemma all_logic_iff: "(\<forall>v. P v) \<longleftrightarrow>
   P false_state \<and> P true_state \<and> P indeterminate_state \<and> P high_impedence_state"
  by (metis digital_node_statement_t.exhaust)

instantiation digital_node_statement_t :: enum
begin
definition enum_digital_node_statement_t :: "digital_node_statement_t list" where
  "enum_digital_node_statement_t =
     [false_state, true_state, indeterminate_state, high_impedence_state]"
definition enum_all_digital_node_statement_t :: "(digital_node_statement_t \<Rightarrow> bool) \<Rightarrow> bool" where
  "enum_all_digital_node_statement_t P \<longleftrightarrow>
     P false_state \<and> P true_state \<and> P indeterminate_state \<and> P high_impedence_state"
definition enum_ex_digital_node_statement_t :: "(digital_node_statement_t \<Rightarrow> bool) \<Rightarrow> bool" where
  "enum_ex_digital_node_statement_t P \<longleftrightarrow>
     P false_state \<or> P true_state \<or> P indeterminate_state \<or> P high_impedence_state"
instance
  by standard
    (auto simp: enum_digital_node_statement_t_def enum_all_digital_node_statement_t_def
       enum_ex_digital_node_statement_t_def all_logic_iff UNIV_eq_I
       intro: digital_node_statement_t.exhaust,
     metis digital_node_statement_t.exhaust)
end

subsection \<open>Case tables\<close>

lemma of_bool_state_simps [simp]:
  "of_bool_state True = true_state" "of_bool_state False = false_state"
  by (simp_all add: of_bool_state_def)

lemma of_bool_state_eq_iff [simp]:
  "of_bool_state b = true_state \<longleftrightarrow> b"
  "of_bool_state b = false_state \<longleftrightarrow> \<not> b"
  "of_bool_state b \<noteq> indeterminate_state"
  "of_bool_state b \<noteq> high_impedence_state"
  "of_bool_state a = of_bool_state b \<longleftrightarrow> a = b"
  by (auto simp: of_bool_state_def)

lemma normalize_z_to_x_simps [simp]:
  "normalize_z_to_x false_state = false_state"
  "normalize_z_to_x true_state = true_state"
  "normalize_z_to_x indeterminate_state = indeterminate_state"
  "normalize_z_to_x high_impedence_state = indeterminate_state"
  "normalize_z_to_x (of_bool_state b) = of_bool_state b"
  by (simp_all add: normalize_z_to_x_def)

lemma normalize_idem [simp]: "normalize_z_to_x (normalize_z_to_x v) = normalize_z_to_x v"
  by (cases v) simp_all

lemma is_unknown_simps [simp]:
  "\<not> is_unknown false_state" "\<not> is_unknown true_state"
  "is_unknown indeterminate_state" "is_unknown high_impedence_state"
  "is_unknown (normalize_z_to_x v) = is_unknown v"
  "\<not> is_unknown (of_bool_state b)"
  by (simp_all add: is_unknown_def)

lemma known_iff: "\<not> is_unknown v \<longleftrightarrow> (\<exists>b. v = of_bool_state b)"
  by (cases v) (auto simp: of_bool_state_def)

lemma logic_of_bool [simp]:
  "logic_not (of_bool_state a) = of_bool_state (\<not> a)"
  "logic_and (of_bool_state a) (of_bool_state b) = of_bool_state (a \<and> b)"
  "logic_or (of_bool_state a) (of_bool_state b) = of_bool_state (a \<or> b)"
  "logic_xor (of_bool_state a) (of_bool_state b) = of_bool_state (a \<noteq> b)"
  "logic_eq (of_bool_state a) (of_bool_state b) = of_bool_state (a = b)"
  "logic_neq (of_bool_state a) (of_bool_state b) = of_bool_state (a \<noteq> b)"
  "logic_case_eq (of_bool_state a) (of_bool_state b) = of_bool_state (a = b)"
  "logic_is_unknown (of_bool_state a) = false_state"
  by (cases a; cases b; simp add: logic_defs)+

lemma logic_consts [simp]:
  "logic_and false_state b = false_state" "logic_and a false_state = false_state"
  "logic_or true_state b = true_state" "logic_or a true_state = true_state"
  "logic_and true_state b = normalize_z_to_x b" "logic_and a true_state = normalize_z_to_x a"
  "logic_or false_state b = normalize_z_to_x b" "logic_or a false_state = normalize_z_to_x a"
  "logic_not false_state = true_state" "logic_not true_state = false_state"
  "logic_not indeterminate_state = indeterminate_state"
  "logic_is_unknown indeterminate_state = true_state"
  by (cases a; cases b; simp add: logic_defs)+

text \<open>The two renderings of the logic are one: the overloaded operators of \<^verbatim>\<open>node.h\<close> and the
  functions of \<^verbatim>\<open>digital.h\<close> agree on all sixteen argument pairs.\<close>

lemma node_ops_eq [logic_simps]:
  "op_and a b = logic_and a b"
  "op_or a b = logic_or a b"
  "op_not a = logic_not a"
  "op_xor a b = logic_xor a b"
  by (cases a; cases b; simp add: logic_defs)+

subsection \<open>The shared algebra\<close>

text \<open>
  What the optimiser and the simulator rely on: conjunction and disjunction are commutative,
  associative, distribute, absorb up to the normalisation of \<^verbatim>\<open>Z\<close>, and are dual.
\<close>

locale kleene_ops =
  fixes conj disj :: "logic_t \<Rightarrow> logic_t \<Rightarrow> logic_t"
    and neg norm :: "logic_t \<Rightarrow> logic_t"
  assumes conj_comm: "conj a b = conj b a"
    and conj_assoc: "conj (conj a b) c = conj a (conj b c)"
    and conj_disj_distrib: "conj a (disj b c) = disj (conj a b) (conj a c)"
    and conj_absorb: "conj a (disj a b) = norm a"
    and conj_idem: "conj a a = norm a"
    and de_morgan: "neg (conj a b) = disj (neg a) (neg b)"
    and neg_neg: "neg (neg a) = norm a"
    and disj_norm: "disj (norm a) (norm b) = disj a b"
    and norm_disj: "norm (disj a b) = disj a b"
begin

lemma disj_as_conj: "disj a b = neg (conj (neg a) (neg b))"
  by (simp add: de_morgan neg_neg disj_norm)

lemma disj_comm: "disj a b = disj b a"
  by (simp add: disj_as_conj conj_comm)

lemma conj_left_comm: "conj a (conj b c) = conj b (conj a c)"
  by (metis conj_assoc conj_comm)

lemma fold_conj_perm:
  assumes "mset xs = mset ys"
  shows "fold conj xs a = fold conj ys a"
proof -
  have "fold conj xs = fold conj ys"
    using assms by (intro fold_multiset_equiv) (auto simp: fun_eq_iff intro: conj_left_comm)
  then show ?thesis by simp
qed

lemma nand_eq: "neg (conj a a) = neg (norm a)"
  by (simp add: conj_idem)

end

interpretation verilog_logic: kleene_ops logic_and logic_or logic_not normalize_z_to_x
proof unfold_locales
  fix a b c
  show "logic_and a b = logic_and b a" by (cases a; cases b; simp add: logic_defs)
  show "logic_and (logic_and a b) c = logic_and a (logic_and b c)"
    by (cases a; cases b; cases c; simp add: logic_defs)
  show "logic_and a (logic_or b c) = logic_or (logic_and a b) (logic_and a c)"
    by (cases a; cases b; cases c; simp add: logic_defs)
  show "logic_and a (logic_or a b) = normalize_z_to_x a" by (cases a; cases b; simp add: logic_defs)
  show "logic_and a a = normalize_z_to_x a" by (cases a; simp add: logic_defs)
  show "logic_not (logic_and a b) = logic_or (logic_not a) (logic_not b)"
    by (cases a; cases b; simp add: logic_defs)
  show "logic_not (logic_not a) = normalize_z_to_x a" by (cases a; simp add: logic_defs)
  show "logic_or (normalize_z_to_x a) (normalize_z_to_x b) = logic_or a b"
    by (cases a; cases b; simp add: logic_defs)
  show "normalize_z_to_x (logic_or a b) = logic_or a b" by (cases a; cases b; simp add: logic_defs)
qed

interpretation node_logic: kleene_ops op_and op_or op_not normalize_z_to_x
  by (simp add: node_ops_eq [abs_def] verilog_logic.kleene_ops_axioms)

subsection \<open>Driver resolution\<close>

text \<open>
  The contract of a resolution function: \<^verbatim>\<open>Z\<close> is the unit, and the result does not depend on
  the order in which the drivers of a net are visited.
\<close>

locale net_resolution =
  fixes res :: "logic_t \<Rightarrow> logic_t \<Rightarrow> logic_t"
  assumes res_comm: "res a b = res b a"
    and res_assoc: "res (res a b) c = res a (res b c)"
    and res_unit: "res a high_impedence_state = a"
    and res_idem: "res a a = a"
    and res_conflict: "a \<noteq> high_impedence_state \<Longrightarrow> b \<noteq> high_impedence_state \<Longrightarrow> a \<noteq> b \<Longrightarrow>
          res a b = indeterminate_state"
begin

definition resolve_all :: "logic_t list \<Rightarrow> logic_t" where
  "resolve_all ds = fold (\<lambda>d acc. res acc d) ds high_impedence_state"

lemma res_left_comm: "res a (res b c) = res b (res a c)"
  by (metis res_assoc res_comm)

lemma resolve_all_perm:
  assumes "mset ds = mset es"
  shows "resolve_all ds = resolve_all es"
proof -
  have swap: "res (res c b) a = res (res c a) b" for a b c
    by (metis res_assoc res_comm)
  have "fold (\<lambda>d acc. res acc d) ds = fold (\<lambda>d acc. res acc d) es"
    using assms by (intro fold_multiset_equiv) (auto simp: fun_eq_iff intro: swap)
  then show ?thesis by (simp add: resolve_all_def)
qed

lemma fold_res_unit: "fold (\<lambda>d acc. res acc d) ds a = res a (resolve_all ds)"
proof (induction ds arbitrary: a)
  case Nil
  then show ?case by (simp add: resolve_all_def res_unit)
next
  case (Cons d ds)
  have "resolve_all (d # ds) = res d (resolve_all ds)"
    using Cons.IH [of "res high_impedence_state d"]
    by (simp add: resolve_all_def res_comm [of high_impedence_state] res_unit)
  then show ?case using Cons.IH [of "res a d"] by (simp add: res_assoc)
qed

lemma resolve_all_Cons: "resolve_all (d # ds) = res d (resolve_all ds)"
  using fold_res_unit [of ds "res high_impedence_state d"]
  by (simp add: resolve_all_def res_comm [of high_impedence_state] res_unit)

lemma resolve_all_Nil: "resolve_all [] = high_impedence_state"
  by (simp add: resolve_all_def)

text \<open>The resolved value: \<^verbatim>\<open>Z\<close> when nothing drives, the common value when the drivers agree,
  \<^verbatim>\<open>X\<close> otherwise.\<close>

lemma res_X: "a \<noteq> high_impedence_state \<Longrightarrow> res a indeterminate_state = indeterminate_state"
  by (cases "a = indeterminate_state") (auto simp: res_idem res_conflict)

lemma resolve_all_char:
  "resolve_all ds =
     (let ds' = filter (\<lambda>d. d \<noteq> high_impedence_state) ds in
      case ds' of [] \<Rightarrow> high_impedence_state
      | d # r \<Rightarrow> if \<forall>e \<in> set r. e = d then d else indeterminate_state)"
proof (induction ds)
  case Nil
  then show ?case by (simp add: resolve_all_Nil)
next
  case (Cons d ds)
  show ?case
  proof (cases "d = high_impedence_state")
    case True
    then show ?thesis using Cons.IH
      by (simp add: resolve_all_Cons res_comm [of high_impedence_state] res_unit)
  next
    case False
    show ?thesis
    proof (cases "filter (\<lambda>d. d \<noteq> high_impedence_state) ds")
      case Nil
      then show ?thesis using Cons.IH False by (simp add: resolve_all_Cons res_unit)
    next
      case er: (Cons e r)
      then have "e \<in> set (filter (\<lambda>d. d \<noteq> high_impedence_state) ds)" by simp
      then have e: "e \<noteq> high_impedence_state" by simp
      have ds: "resolve_all ds = (if \<forall>x \<in> set r. x = e then e else indeterminate_state)"
        using Cons.IH by (simp only: er Let_def list.case)
      have "resolve_all (d # ds) = (if \<forall>x \<in> set (e # r). x = d then d else indeterminate_state)"
      proof (cases "d = e")
        case True
        then show ?thesis using False by (auto simp: resolve_all_Cons ds res_idem res_X)
      next
        case neq: False
        then have "resolve_all (d # ds) = indeterminate_state"
          using False e by (simp add: resolve_all_Cons ds res_X res_conflict)
        then show ?thesis using neq by auto
      qed
      then show ?thesis using False er by simp
    qed
  qed
qed

end

interpretation verilog_net: net_resolution resolve_net_drivers
proof unfold_locales
  fix a b c
  show "resolve_net_drivers a b = resolve_net_drivers b a"
    by (cases a; cases b; simp add: logic_defs)
  show "resolve_net_drivers (resolve_net_drivers a b) c = resolve_net_drivers a (resolve_net_drivers b c)"
    by (cases a; cases b; cases c; simp add: logic_defs)
  show "resolve_net_drivers a high_impedence_state = a" by (simp add: logic_defs)
  show "resolve_net_drivers a a = a" by (cases a; simp add: logic_defs)
  show "a \<noteq> high_impedence_state \<Longrightarrow> b \<noteq> high_impedence_state \<Longrightarrow> a \<noteq> b \<Longrightarrow>
        resolve_net_drivers a b = indeterminate_state"
    by (cases a; cases b; simp add: logic_defs)
qed

lemma resolve2_eq: "resolve2 a b = resolve_net_drivers a b"
  by (cases a; cases b; simp add: logic_defs)

interpretation device_net: net_resolution resolve2
  by (simp add: resolve2_eq [abs_def] verilog_net.net_resolution_axioms)

subsection \<open>The information order\<close>

text \<open>
  \<open>info_le a b\<close>: \<open>b\<close> is at least as defined as \<open>a\<close>, where both \<^verbatim>\<open>X\<close> and \<^verbatim>\<open>Z\<close> mean "unknown".
  Every operator but \<^verbatim>\<open>===\<close> and the unknown test is monotone in it, which is what makes an
  \<^verbatim>\<open>X\<close> a sound stand-in for either binary value.
\<close>

definition info_le :: "logic_t \<Rightarrow> logic_t \<Rightarrow> bool" where
  "info_le a b \<longleftrightarrow> is_unknown a \<or> a = b"

lemma info_le_refl [simp]: "info_le a a"
  by (simp add: info_le_def)

lemma info_le_trans: "info_le a b \<Longrightarrow> info_le b c \<Longrightarrow> info_le a c"
  by (auto simp: info_le_def)

lemma info_le_known: "info_le (of_bool_state b) v \<longleftrightarrow> v = of_bool_state b"
  by (auto simp: info_le_def)

lemma info_mono:
  "info_le a a' \<Longrightarrow> info_le (logic_not a) (logic_not a')"
  "info_le a a' \<Longrightarrow> info_le b b' \<Longrightarrow> info_le (logic_and a b) (logic_and a' b')"
  "info_le a a' \<Longrightarrow> info_le b b' \<Longrightarrow> info_le (logic_or a b) (logic_or a' b')"
  "info_le a a' \<Longrightarrow> info_le b b' \<Longrightarrow> info_le (logic_xor a b) (logic_xor a' b')"
  "info_le a a' \<Longrightarrow> info_le b b' \<Longrightarrow> info_le (logic_eq a b) (logic_eq a' b')"
  "info_le a a' \<Longrightarrow> info_le b b' \<Longrightarrow> info_le (logic_neq a b) (logic_neq a' b')"
  unfolding info_le_def
  by (cases a; cases b; cases a'; cases b'; simp add: logic_defs)+

end
