(* ===== verification/Netlist.thy ===== *)
theory Netlist
  imports Prelude Logic4
begin

text \<open>
  The netlist container (\<^verbatim>\<open>netlist/netlist.h\<close>, \<^verbatim>\<open>netlist/operation.h\<close>, \<^verbatim>\<open>model/model_refs/base.h\<close>,
  \<^verbatim>\<open>model/node/node.h\<close>). Models and nodes live in chunks that never move, so an address is a
  position: a node is the ground node or a chunk and an index, a pin is the position of its
  model and its number. A null pointer is \<open>None\<close>; an operation that would follow one returns
  \<open>None\<close>. The chunk capacities are arguments.
\<close>

subsection \<open>Data\<close>

datatype model_type = mt_null | mt_invalid | mt_normal

datatype model_device_type = linear | non_linear | digital

datatype node_ref = Ground | Node nat nat

record model_pos =
  vec_pos :: nat
  chunk_pos :: nat

type_synonym pin_ref = "model_pos \<times> nat"

datatype node_information = DN digital_node_statement_t | AN u64 u64

record node_t =
  node_info :: node_information
  pins :: "pin_ref set"
  num_of_analog_node :: u64
  node_index :: nat

definition new_node_t :: node_t where
  "new_node_t = \<lparr>node_info = DN false_state, pins = {}, num_of_analog_node = 0, node_index = SIZE_MAX\<rparr>"

text \<open>The object behind the model pointer: its device type and the node pointer of every pin.\<close>

record model_base_impl =
  device_type :: model_device_type
  pin_nodes :: "node_ref option list"

record model_base =
  mb_type :: model_type
  mb_ptr :: "model_base_impl option"
  mb_identification :: u64
  mb_name :: string
  mb_describe :: string
  mb_has_init :: bool

definition new_model_base :: model_base where
  "new_model_base = \<lparr>mb_type = mt_null, mb_ptr = None, mb_identification = 0, mb_name = [], mb_describe = [], mb_has_init = False\<rparr>"

definition model_base_of :: "model_base_impl \<Rightarrow> model_base" where
  "model_base_of m = new_model_base\<lparr>mb_type := mt_normal, mb_ptr := Some m\<rparr>"

record netlist_model_base_block =
  cells :: "model_base list"
  num_of_null_model :: u64

record netlist =
  models :: "netlist_model_base_block list"
  nl_nodes :: "node_t list list"
  ground_node :: node_t

definition empty_netlist :: netlist where
  "empty_netlist = \<lparr>models = [], nl_nodes = [], ground_node = new_node_t\<rparr>"

subsection \<open>Memory\<close>

text \<open>Dereferencing a node or a pin, and assigning through them.\<close>

fun node_at :: "netlist \<Rightarrow> node_ref \<Rightarrow> node_t option" where
  "node_at nl Ground = Some (ground_node nl)"
| "node_at nl (Node c i) =
     (if c < length (nl_nodes nl) \<and> i < length (nl_nodes nl ! c) then Some (nl_nodes nl ! c ! i) else None)"

fun update_node :: "node_ref \<Rightarrow> (node_t \<Rightarrow> node_t) \<Rightarrow> netlist \<Rightarrow> netlist" where
  "update_node Ground f nl = nl\<lparr>ground_node := f (ground_node nl)\<rparr>"
| "update_node (Node c i) f nl =
     (if c < length (nl_nodes nl) \<and> i < length (nl_nodes nl ! c)
      then nl\<lparr>nl_nodes := (nl_nodes nl)[c := (nl_nodes nl ! c)[i := f (nl_nodes nl ! c ! i)]]\<rparr> else nl)"

definition get_model :: "netlist \<Rightarrow> model_pos \<Rightarrow> model_base option" where
  "get_model nl pos =
     (if length (models nl) \<le> chunk_pos pos then None
      else let nlb = models nl ! chunk_pos pos in
        if length (cells nlb) \<le> vec_pos pos then None else Some (cells nlb ! vec_pos pos))"

definition put_model :: "model_pos \<Rightarrow> model_base \<Rightarrow> netlist \<Rightarrow> netlist" where
  "put_model pos m nl =
     nl\<lparr>models := (models nl)[chunk_pos pos := (models nl ! chunk_pos pos)
         \<lparr>cells := (cells (models nl ! chunk_pos pos))[vec_pos pos := m]\<rparr>]\<rparr>"

definition impl_at :: "netlist \<Rightarrow> model_pos \<Rightarrow> model_base_impl option" where
  "impl_at nl pos = Option.bind (get_model nl pos) mb_ptr"

definition pin_at :: "netlist \<Rightarrow> pin_ref \<Rightarrow> node_ref option" where
  "pin_at nl p =
     (case impl_at nl (fst p) of None \<Rightarrow> None
      | Some m \<Rightarrow> if snd p < length (pin_nodes m) then pin_nodes m ! snd p else None)"

text \<open>Assign every pin of the netlist from its address and its value.\<close>

definition map_impl :: "(nat \<Rightarrow> node_ref option \<Rightarrow> node_ref option) \<Rightarrow> model_base \<Rightarrow> model_base" where
  "map_impl f m = m\<lparr>mb_ptr := map_option (\<lambda>im. im\<lparr>pin_nodes := map (\<lambda>(i, x). f i x) (enumerate 0 (pin_nodes im))\<rparr>) (mb_ptr m)\<rparr>"

definition map_block :: "nat \<Rightarrow> (pin_ref \<Rightarrow> node_ref option \<Rightarrow> node_ref option) \<Rightarrow> netlist_model_base_block \<Rightarrow> netlist_model_base_block" where
  "map_block c f b = b\<lparr>cells := map (\<lambda>(v, m). map_impl (\<lambda>i. f (\<lparr>vec_pos = v, chunk_pos = c\<rparr>, i)) m) (enumerate 0 (cells b))\<rparr>"

definition map_pins :: "(pin_ref \<Rightarrow> node_ref option \<Rightarrow> node_ref option) \<Rightarrow> netlist \<Rightarrow> netlist" where
  "map_pins f nl = nl\<lparr>models := map (\<lambda>(c, b). map_block c f b) (enumerate 0 (models nl))\<rparr>"

definition set_pin :: "pin_ref \<Rightarrow> node_ref option \<Rightarrow> netlist \<Rightarrow> netlist" where
  "set_pin p v = map_pins (\<lambda>q x. if q = p then v else x)"

definition is_digital :: "netlist \<Rightarrow> model_pos \<Rightarrow> bool" where
  "is_digital nl pos = (case impl_at nl pos of None \<Rightarrow> False | Some m \<Rightarrow> device_type m = digital)"

subsection \<open>Nodes\<close>

definition destroy :: "node_t \<Rightarrow> node_t" where
  "destroy n = n\<lparr>pins := {}, num_of_analog_node := 0, node_index := SIZE_MAX\<rparr>"

definition clear_node :: "node_ref \<Rightarrow> netlist \<Rightarrow> netlist" where
  "clear_node r nl =
     (case node_at nl r of None \<Rightarrow> nl
      | Some n \<Rightarrow> update_node r destroy (map_pins (\<lambda>q x. if q \<in> pins n then None else x) nl))"

definition clear_node_t :: "node_ref \<Rightarrow> netlist \<Rightarrow> netlist" where
  "clear_node_t r nl = update_node r (\<lambda>n. n\<lparr>node_info := DN false_state\<rparr>) (clear_node r nl)"

text \<open>\<^verbatim>\<open>node_t(node_t const&)\<close>: copy and disconnect from the models.\<close>

definition copy_node_t :: "node_t \<Rightarrow> node_t" where
  "copy_node_t others = new_node_t\<lparr>node_info := node_info others\<rparr>"

subsection \<open>Models\<close>

definition unplug :: "bool \<Rightarrow> pin_ref \<Rightarrow> node_t \<Rightarrow> node_t" where
  "unplug analog p n =
     n\<lparr>pins := pins n - {p}, num_of_analog_node := (if analog then num_of_analog_node n - 1 else num_of_analog_node n)\<rparr>"

definition plug :: "bool \<Rightarrow> pin_ref \<Rightarrow> node_t \<Rightarrow> node_t" where
  "plug analog p n =
     n\<lparr>pins := insert p (pins n), num_of_analog_node := (if analog then num_of_analog_node n + 1 else num_of_analog_node n)\<rparr>"

text \<open>\<^verbatim>\<open>model_base::remove_from_node\<close>, its loop over the pins, and \<^verbatim>\<open>model_base::clear\<close>.\<close>

fun unplug_pins :: "bool \<Rightarrow> pin_ref list \<Rightarrow> netlist \<Rightarrow> netlist" where
  "unplug_pins analog [] nl = nl"
| "unplug_pins analog (p # ps) nl =
     (case pin_at nl p of None \<Rightarrow> unplug_pins analog ps nl
      | Some r \<Rightarrow> unplug_pins analog ps (set_pin p None (update_node r (unplug analog p) nl)))"

definition remove_model_from_node :: "model_pos \<Rightarrow> netlist \<Rightarrow> netlist" where
  "remove_model_from_node pos nl =
     (case get_model nl pos of None \<Rightarrow> nl
      | Some m \<Rightarrow>
          (case mb_ptr m of None \<Rightarrow> nl
           | Some im \<Rightarrow>
               if mb_type m = mt_normal
               then unplug_pins (device_type im \<noteq> digital) (map (Pair pos) [0..<length (pin_nodes im)]) nl
               else nl))"

definition clear_model :: "model_pos \<Rightarrow> netlist \<Rightarrow> netlist" where
  "clear_model pos nl = put_model pos new_model_base (remove_model_from_node pos nl)"

subsection \<open>Operations\<close>

definition get_num_of_model_checked :: "netlist \<Rightarrow> nat" where
  "get_num_of_model_checked nl =
     fold (\<lambda>i res. fold (\<lambda>b res. if mb_type b \<noteq> mt_null then res + 1 else res) (cells i) res) (models nl) 0"

definition block_num_of_model :: "netlist_model_base_block \<Rightarrow> u64" where
  "block_num_of_model b = of_nat (length (cells b)) - num_of_null_model b"

definition get_num_of_model :: "netlist \<Rightarrow> u64" where
  "get_num_of_model nl = fold (\<lambda>i res. res + block_num_of_model i) (models nl) 0"

definition new_model_block :: netlist_model_base_block where
  "new_model_block = \<lparr>cells = [], num_of_null_model = 0\<rparr>"

definition push_cell :: "model_base \<Rightarrow> netlist_model_base_block \<Rightarrow> netlist_model_base_block" where
  "push_cell m b = b\<lparr>cells := cells b @ [m]\<rparr>"

definition push_model :: "nat \<Rightarrow> model_base \<Rightarrow> netlist \<Rightarrow> netlist" where
  "push_model cap m nl =
     (if models nl = [] then nl\<lparr>models := [push_cell m new_model_block]\<rparr>
      else if length (cells (last (models nl))) = cap
      then nl\<lparr>models := models nl @ [push_cell m new_model_block]\<rparr>
      else nl\<lparr>models := butlast (models nl) @ [push_cell m (last (models nl))]\<rparr>)"

definition next_model_pos :: "nat \<Rightarrow> netlist \<Rightarrow> model_pos" where
  "next_model_pos cap nl =
     (if models nl = [] then \<lparr>vec_pos = 0, chunk_pos = 0\<rparr>
      else if length (cells (last (models nl))) = cap
      then \<lparr>vec_pos = 0, chunk_pos = length (models nl)\<rparr>
      else \<lparr>vec_pos = length (cells (last (models nl))), chunk_pos = length (models nl) - 1\<rparr>)"

definition add_model :: "nat \<Rightarrow> model_base_impl \<Rightarrow> netlist \<Rightarrow> model_pos \<times> netlist" where
  "add_model cap m nl = (next_model_pos cap nl, push_model cap (model_base_of m) nl)"

definition update_block :: "nat \<Rightarrow> (netlist_model_base_block \<Rightarrow> netlist_model_base_block) \<Rightarrow> netlist \<Rightarrow> netlist" where
  "update_block c f nl = nl\<lparr>models := (models nl)[c := f (models nl ! c)]\<rparr>"

definition pop_cell :: "netlist_model_base_block \<Rightarrow> netlist_model_base_block" where
  "pop_cell b = b\<lparr>cells := butlast (cells b)\<rparr>"

definition delete_model :: "model_pos \<Rightarrow> netlist \<Rightarrow> bool \<times> netlist" where
  "delete_model pos nl =
     (let c = chunk_pos pos; v = vec_pos pos in
      if length (models nl) \<le> c then (False, nl)
      else let n = length (cells (models nl ! c)) in
        if n \<le> v then (False, nl)
        else if v = n - 1 then
          (if mb_type (cells (models nl ! c) ! v) = mt_null
           then (False, update_block c pop_cell (clear_model pos
             (update_block c (\<lambda>b. b\<lparr>num_of_null_model := num_of_null_model b - 1\<rparr>) nl)))
           else (True, update_block c pop_cell (clear_model pos nl)))
        else if mb_type (cells (models nl ! c) ! v) \<noteq> mt_null
        then (True, clear_model pos (update_block c (\<lambda>b. b\<lparr>num_of_null_model := num_of_null_model b + 1\<rparr>) nl))
        else (False, nl))"

definition push_node :: "nat \<Rightarrow> node_t \<Rightarrow> netlist \<Rightarrow> netlist" where
  "push_node cap n nl =
     (if nl_nodes nl = [] then nl\<lparr>nl_nodes := [[n]]\<rparr>
      else if length (last (nl_nodes nl)) = cap then nl\<lparr>nl_nodes := nl_nodes nl @ [[n]]\<rparr>
      else nl\<lparr>nl_nodes := butlast (nl_nodes nl) @ [last (nl_nodes nl) @ [n]]\<rparr>)"

definition next_node_ref :: "nat \<Rightarrow> netlist \<Rightarrow> node_ref" where
  "next_node_ref cap nl =
     (if nl_nodes nl = [] then Node 0 0
      else if length (last (nl_nodes nl)) = cap then Node (length (nl_nodes nl)) 0
      else Node (length (nl_nodes nl) - 1) (length (last (nl_nodes nl))))"

definition create_node :: "nat \<Rightarrow> netlist \<Rightarrow> node_ref \<times> netlist" where
  "create_node cap nl = (next_node_ref cap nl, push_node cap new_node_t nl)"

definition add_to_node :: "model_pos \<Rightarrow> nat \<Rightarrow> node_ref \<Rightarrow> netlist \<Rightarrow> (bool \<times> netlist) option" where
  "add_to_node mp1 n1 r nl =
     (case get_model nl mp1 of None \<Rightarrow> Some (False, nl)
      | Some model1 \<Rightarrow>
          (case mb_ptr model1 of None \<Rightarrow> None
           | Some im \<Rightarrow>
               if length (pin_nodes im) \<le> n1 then Some (False, nl)
               else Some (True, update_node r (plug (device_type im \<noteq> digital) (mp1, n1)) (set_pin (mp1, n1) (Some r) nl))))"

definition remove_from_node :: "model_pos \<Rightarrow> nat \<Rightarrow> node_ref \<Rightarrow> netlist \<Rightarrow> (bool \<times> netlist) option" where
  "remove_from_node mp1 n1 r nl =
     (case get_model nl mp1 of None \<Rightarrow> Some (False, nl)
      | Some model1 \<Rightarrow>
          (case mb_ptr model1 of None \<Rightarrow> None
           | Some im \<Rightarrow>
               if length (pin_nodes im) \<le> n1 then Some (False, nl)
               else Some (True, update_node r (unplug (device_type im \<noteq> digital) (mp1, n1)) (set_pin (mp1, n1) None nl))))"

definition delete_node :: "node_ref \<Rightarrow> netlist \<Rightarrow> netlist" where
  "delete_node r nl = clear_node_t r nl"

definition merge_node :: "node_ref \<Rightarrow> node_ref \<Rightarrow> netlist \<Rightarrow> netlist" where
  "merge_node r other nl =
     (case node_at nl other of None \<Rightarrow> nl
      | Some n \<Rightarrow>
          update_node other destroy
            (update_node r (\<lambda>m. m\<lparr>pins := pins m \<union> pins n\<rparr>)
              (map_pins (\<lambda>q x. if q \<in> pins n then Some r else x) nl)))"

subsection \<open>Copying\<close>

text \<open>
  Copying nodes gives each an address in the target and records it in the table \<^verbatim>\<open>node_map\<close>;
  copying a model looks up the node of every connected pin there. A lookup that fails follows
  the end iterator of the table and gives \<open>None\<close>.
\<close>

type_synonym node_map = "node_ref \<rightharpoonup> node_ref"

definition node_list :: "netlist \<Rightarrow> (node_ref \<times> node_t) list" where
  "node_list nl = concat (map (\<lambda>(c, b). map (\<lambda>(i, n). (Node c i, n)) (enumerate 0 b)) (enumerate 0 (nl_nodes nl)))"

definition all_models :: "netlist \<Rightarrow> model_base list" where
  "all_models nl = concat (map cells (models nl))"

fun copy_nodes :: "nat \<Rightarrow> (node_ref \<times> node_t) list \<Rightarrow> node_map \<Rightarrow> netlist \<Rightarrow> node_map \<times> netlist" where
  "copy_nodes cap [] f nl = (f, nl)"
| "copy_nodes cap ((r, n) # rs) f nl =
     copy_nodes cap rs (f(r \<mapsto> next_node_ref cap nl)) (push_node cap (copy_node_t n) nl)"

text \<open>\<^verbatim>\<open>copy_with_node_ptr\<close> of a model into a fresh one, with the pins moved to the nodes of the table.\<close>

fun remap_pins :: "node_map \<Rightarrow> node_ref option list \<Rightarrow> node_ref option list option" where
  "remap_pins f [] = Some []"
| "remap_pins f (None # rs) = map_option (Cons None) (remap_pins f rs)"
| "remap_pins f (Some r # rs) =
     (case f r of None \<Rightarrow> None | Some r' \<Rightarrow> map_option (Cons (Some r')) (remap_pins f rs))"

definition attach :: "pin_ref \<Rightarrow> node_t \<Rightarrow> node_t" where
  "attach p n = n\<lparr>pins := insert p (pins n)\<rparr>"

fun attach_pins :: "model_pos \<Rightarrow> nat \<Rightarrow> node_ref option list \<Rightarrow> netlist \<Rightarrow> netlist" where
  "attach_pins pos i [] nl = nl"
| "attach_pins pos i (None # rs) nl = attach_pins pos (Suc i) rs nl"
| "attach_pins pos i (Some r # rs) nl = attach_pins pos (Suc i) rs (update_node r (attach (pos, i)) nl)"

definition copy_live_model :: "nat \<Rightarrow> node_map \<Rightarrow> model_base \<Rightarrow> model_base_impl \<Rightarrow> netlist \<Rightarrow> netlist option" where
  "copy_live_model cap f m im nl =
     (case remap_pins f (pin_nodes im) of None \<Rightarrow> None
      | Some rs \<Rightarrow>
          Some (attach_pins (next_model_pos cap nl) 0 rs
            (push_model cap (m\<lparr>mb_ptr := Some (im\<lparr>pin_nodes := rs\<rparr>)\<rparr>) nl)))"

fun copy_models :: "nat \<Rightarrow> node_map \<Rightarrow> model_base list \<Rightarrow> netlist \<Rightarrow> netlist option" where
  "copy_models cap f [] nl = Some nl"
| "copy_models cap f (m # ms) nl =
     (case mb_ptr m of
        Some im \<Rightarrow>
          if mb_type m = mt_normal
          then Option.bind (copy_live_model cap f m im nl) (copy_models cap f ms)
          else copy_models cap f ms (push_model cap m nl)
      | None \<Rightarrow> copy_models cap f ms (push_model cap m nl))"

definition copy_netlist :: "nat \<Rightarrow> nat \<Rightarrow> netlist \<Rightarrow> netlist option" where
  "copy_netlist mcap ncap other =
     (case copy_nodes ncap (node_list other) [Ground \<mapsto> Ground] empty_netlist of
        (f, nl) \<Rightarrow> copy_models mcap f (all_models other) nl)"

text \<open>\<^verbatim>\<open>operator=\<close> empties the target, resets its ground node and copies; on itself it does nothing.\<close>

definition assign_netlist :: "nat \<Rightarrow> nat \<Rightarrow> bool \<Rightarrow> netlist \<Rightarrow> netlist \<Rightarrow> netlist option" where
  "assign_netlist mcap ncap same_object nl other =
     (if same_object then Some nl
      else let nl0 = nl\<lparr>models := [], nl_nodes := [],
             ground_node := (ground_node nl)\<lparr>pins := {}, num_of_analog_node := 0, node_index := SIZE_MAX, node_info := DN false_state\<rparr>\<rparr>
        in case copy_nodes ncap (node_list other) [Ground \<mapsto> Ground] nl0 of
          (f, nl1) \<Rightarrow> copy_models mcap f (all_models other) nl1)"

text \<open>\<^verbatim>\<open>add_netlist\<close> follows the model pointer of every copy, and its table has no entry for the ground node.\<close>

fun add_models :: "nat \<Rightarrow> node_map \<Rightarrow> model_base list \<Rightarrow> netlist \<Rightarrow> netlist option" where
  "add_models cap f [] nl = Some nl"
| "add_models cap f (m # ms) nl =
     (case mb_ptr m of None \<Rightarrow> None
      | Some im \<Rightarrow> Option.bind (copy_live_model cap f m im nl) (add_models cap f ms))"

definition add_netlist :: "nat \<Rightarrow> nat \<Rightarrow> netlist \<Rightarrow> netlist \<Rightarrow> netlist option" where
  "add_netlist mcap ncap nl other_nl =
     (case copy_nodes ncap (node_list other_nl) Map.empty nl of
        (f, nl1) \<Rightarrow> add_models mcap f (all_models other_nl) nl1)"

end
