(* ===== verification/Devices.thy ===== *)
theory Devices
  imports Netlist Blobs
begin

text \<open>
  The digital device models (\<^verbatim>\<open>model/models/digital/\<close>): state, attributes and
  \<^verbatim>\<open>update_digital_clk_define\<close> of each. The structs of the two-input gates differ only in the
  operator, as do their functions, so they share one record and one body; likewise the adders and
  the flip-flops. Doubles are bit patterns and their arithmetic is the argument \<open>ops\<close>.
\<close>

subsection \<open>Nodes and levels\<close>

record f64_ops =
  f64_ge :: "u64 \<Rightarrow> u64 \<Rightarrow> bool"
  f64_le :: "u64 \<Rightarrow> u64 \<Rightarrow> bool"
  f64_gt :: "u64 \<Rightarrow> u64 \<Rightarrow> bool"
  f64_sub :: "u64 \<Rightarrow> u64 \<Rightarrow> u64"

record drive_levels =
  Ll :: u64
  Hl :: u64

text \<open>The nodes and the queue \<^verbatim>\<open>tables\<close> of pending nodes, which a device may change.\<close>

record node_store =
  dnet :: netlist
  tables :: "node_ref set"

datatype digital_update_method_t = update_table | before_all_clk | after_all_clk

text \<open>\<^verbatim>\<open>need_operate_analog_node_t\<close>: a voltage for an analog node, or nothing.\<close>

type_synonym analog_drive = "(u64 \<times> node_ref) option"

definition deref :: "node_store \<Rightarrow> node_ref \<Rightarrow> node_t" where
  "deref s r = (case node_at (dnet s) r of Some n \<Rightarrow> n | None \<Rightarrow> new_node_t)"

definition is_analog :: "node_store \<Rightarrow> node_ref \<Rightarrow> bool" where
  "is_analog s r \<longleftrightarrow> num_of_analog_node (deref s r) \<noteq> 0"

text \<open>The members of the union. Reading the one that was not written is undefined in C++.\<close>

fun dn_state :: "node_information \<Rightarrow> logic_t" where
  "dn_state (DN v) = v"
| "dn_state (AN re im) = indeterminate_state"

fun an_real :: "node_information \<Rightarrow> u64" where
  "an_real (AN re im) = re"
| "an_real (DN v) = 0"

definition state_of :: "node_store \<Rightarrow> node_ref \<Rightarrow> logic_t" where
  "state_of s r = dn_state (node_info (deref s r))"

definition voltage_of :: "node_store \<Rightarrow> node_ref \<Rightarrow> u64" where
  "voltage_of s r = an_real (node_info (deref s r))"

definition put_state :: "node_ref \<Rightarrow> logic_t \<Rightarrow> node_store \<Rightarrow> node_store" where
  "put_state r v s = s\<lparr>dnet := update_node r (\<lambda>n. n\<lparr>node_info := DN v\<rparr>) (dnet s)\<rparr>"

definition schedule :: "node_ref \<Rightarrow> node_store \<Rightarrow> node_store" where
  "schedule r s = s\<lparr>tables := insert r (tables s)\<rparr>"

definition level_of :: "f64_ops \<Rightarrow> drive_levels \<Rightarrow> u64 \<Rightarrow> logic_t" where
  "level_of ops lv v =
     (if f64_ge ops v (Hl lv) then true_state else if f64_le ops v (Ll lv) then false_state else indeterminate_state)"

text \<open>The two variants of the lambda \<^verbatim>\<open>read_dn\<close>: with the state as it is, and with high impedance read as unknown.\<close>

definition read_raw :: "f64_ops \<Rightarrow> drive_levels \<Rightarrow> node_store \<Rightarrow> node_ref \<Rightarrow> logic_t" where
  "read_raw ops lv s r = (if is_analog s r then level_of ops lv (voltage_of s r) else state_of s r)"

definition read_dn :: "f64_ops \<Rightarrow> drive_levels \<Rightarrow> node_store \<Rightarrow> node_ref \<Rightarrow> logic_t" where
  "read_dn ops lv s r =
     (if is_analog s r then level_of ops lv (voltage_of s r)
      else if state_of s r = high_impedence_state then indeterminate_state else state_of s r)"

definition drive_voltage :: "drive_levels \<Rightarrow> logic_t \<Rightarrow> u64" where
  "drive_voltage lv v = (if v = true_state then Hl lv else Ll lv)"

text \<open>Write a digital node when it differs, and schedule it.\<close>

definition write_changed :: "node_ref \<Rightarrow> logic_t \<Rightarrow> node_store \<Rightarrow> node_store" where
  "write_changed r v s = (if state_of s r \<noteq> v then schedule r (put_state r v s) else s)"

text \<open>The lambda \<^verbatim>\<open>inv\<close>.\<close>

fun inv_state :: "logic_t \<Rightarrow> logic_t" where
  "inv_state false_state = true_state"
| "inv_state true_state = false_state"
| "inv_state _ = indeterminate_state"

subsection \<open>Gates\<close>

record gate_input =
  input :: logic_t
  USR :: logic_t
  duration :: u64

record gate =
  g_levels :: drive_levels
  Tsu :: u64
  Th :: u64
  inA :: gate_input
  inB :: gate_input
  last_outputA :: logic_t

text \<open>
  The input of a gate. On an analog node it follows the voltage with set-up and hold times; the
  case that the target \<open>USR\<close> is high impedance is unreachable in the code.
\<close>

definition settle_input :: "f64_ops \<Rightarrow> gate \<Rightarrow> u64 \<Rightarrow> u64 \<Rightarrow> gate_input \<Rightarrow> gate_input" where
  "settle_input ops g tr_duration v i =
     (case USR i of
        false_state \<Rightarrow>
          if f64_le ops v (Ll (g_levels g))
          then (if f64_ge ops (f64_sub ops tr_duration (duration i)) (Tsu g) then i\<lparr>input := false_state\<rparr> else i)
          else i\<lparr>input := true_state\<rparr>
      | true_state \<Rightarrow>
          if f64_ge ops v (Hl (g_levels g))
          then (if f64_ge ops (f64_sub ops tr_duration (duration i)) (Th g) then i\<lparr>input := true_state\<rparr> else i)
          else i\<lparr>input := false_state\<rparr>
      | indeterminate_state \<Rightarrow>
          if f64_ge ops v (Hl (g_levels g))
          then (if f64_ge ops (f64_sub ops tr_duration (duration i)) (Th g) then i\<lparr>input := true_state\<rparr> else i)
          else if f64_le ops v (Ll (g_levels g))
          then (if f64_ge ops (f64_sub ops tr_duration (duration i)) (Tsu g) then i\<lparr>input := false_state\<rparr> else i)
          else i\<lparr>duration := tr_duration\<rparr>
      | high_impedence_state \<Rightarrow> i)"

definition analog_input :: "f64_ops \<Rightarrow> gate \<Rightarrow> u64 \<Rightarrow> u64 \<Rightarrow> gate_input \<Rightarrow> gate_input" where
  "analog_input ops g tr_duration v i =
     (case input i of
        false_state \<Rightarrow>
          if f64_ge ops v (Hl (g_levels g))
          then (if f64_gt ops (Tsu g) 0 then i\<lparr>input := indeterminate_state, USR := true_state, duration := tr_duration\<rparr>
                else i\<lparr>input := true_state\<rparr>)
          else i
      | true_state \<Rightarrow>
          if f64_le ops v (Ll (g_levels g))
          then (if f64_gt ops (Th g) 0 then i\<lparr>input := indeterminate_state, USR := false_state, duration := tr_duration\<rparr>
                else i\<lparr>input := false_state\<rparr>)
          else i
      | indeterminate_state \<Rightarrow> settle_input ops g tr_duration v i
      | high_impedence_state \<Rightarrow> i)"

definition sample_input :: "f64_ops \<Rightarrow> gate \<Rightarrow> u64 \<Rightarrow> node_store \<Rightarrow> node_ref \<Rightarrow> gate_input \<Rightarrow> gate_input" where
  "sample_input ops g tr_duration s r i =
     (if is_analog s r then analog_input ops g tr_duration (voltage_of s r) i else i\<lparr>input := state_of s r\<rparr>)"

text \<open>The output part: a digital node is always written, and scheduled when the output of the gate changed.\<close>

definition gate_out :: "drive_levels \<Rightarrow> bool \<Rightarrow> logic_t \<Rightarrow> node_ref \<Rightarrow> node_store \<Rightarrow> node_store \<times> analog_drive" where
  "gate_out lv output_change v o1 s =
     (if is_analog s o1 then (s, if v = high_impedence_state then None else Some (drive_voltage lv v, o1))
      else ((if output_change then schedule o1 else id) (put_state o1 v s), None))"

definition gate2_clk :: "(logic_t \<Rightarrow> logic_t \<Rightarrow> logic_t) \<Rightarrow> f64_ops \<Rightarrow> u64 \<Rightarrow> node_ref option list \<Rightarrow> gate \<Rightarrow> node_store \<Rightarrow> gate \<times> node_store \<times> analog_drive" where
  "gate2_clk f ops tr_duration ps clip s =
     (case ps of
        [Some ia, Some ib, Some o1] \<Rightarrow>
          let clip1 = clip\<lparr>inA := sample_input ops clip tr_duration s ia (inA clip)\<rparr>;
              clip2 = clip1\<lparr>inB := sample_input ops clip1 tr_duration s ib (inB clip1)\<rparr>;
              output_res = f (input (inA clip2)) (input (inB clip2))
          in (clip2\<lparr>last_outputA := output_res\<rparr>, gate_out (g_levels clip2) (last_outputA clip2 \<noteq> output_res) output_res o1 s)
      | _ \<Rightarrow> (clip, s, None))"

definition gate1_clk :: "(logic_t \<Rightarrow> logic_t) \<Rightarrow> f64_ops \<Rightarrow> u64 \<Rightarrow> node_ref option list \<Rightarrow> gate \<Rightarrow> node_store \<Rightarrow> gate \<times> node_store \<times> analog_drive" where
  "gate1_clk f ops tr_duration ps clip s =
     (case ps of
        [Some i, Some o1] \<Rightarrow>
          let clip1 = clip\<lparr>inA := sample_input ops clip tr_duration s i (inA clip)\<rparr>;
              output_res = f (input (inA clip1))
          in (clip1\<lparr>last_outputA := output_res\<rparr>, gate_out (g_levels clip1) (last_outputA clip1 \<noteq> output_res) output_res o1 s)
      | _ \<Rightarrow> (clip, s, None))"

definition AND_fun :: "logic_t \<Rightarrow> logic_t \<Rightarrow> logic_t" where "AND_fun a b = op_and a b"
definition OR_fun :: "logic_t \<Rightarrow> logic_t \<Rightarrow> logic_t" where "OR_fun a b = op_or a b"
definition XOR_fun :: "logic_t \<Rightarrow> logic_t \<Rightarrow> logic_t" where "XOR_fun a b = op_xor a b"
definition NAND_fun :: "logic_t \<Rightarrow> logic_t \<Rightarrow> logic_t" where "NAND_fun a b = inv_state (op_and a b)"
definition NOR_fun :: "logic_t \<Rightarrow> logic_t \<Rightarrow> logic_t" where "NOR_fun a b = inv_state (op_or a b)"
definition XNOR_fun :: "logic_t \<Rightarrow> logic_t \<Rightarrow> logic_t" where "XNOR_fun a b = inv_state (op_xor a b)"
definition IMP_fun :: "logic_t \<Rightarrow> logic_t \<Rightarrow> logic_t" where "IMP_fun a b = op_or (inv_state a) b"
definition NIMP_fun :: "logic_t \<Rightarrow> logic_t \<Rightarrow> logic_t" where "NIMP_fun a b = op_and a (inv_state b)"

definition AND_clk where "AND_clk = gate2_clk AND_fun"
definition OR_clk where "OR_clk = gate2_clk OR_fun"
definition XOR_clk where "XOR_clk = gate2_clk XOR_fun"
definition NAND_clk where "NAND_clk = gate2_clk NAND_fun"
definition NOR_clk where "NOR_clk = gate2_clk NOR_fun"
definition XNOR_clk where "XNOR_clk = gate2_clk XNOR_fun"
definition IMP_clk where "IMP_clk = gate2_clk IMP_fun"
definition NIMP_clk where "NIMP_clk = gate2_clk NIMP_fun"
definition NOT_clk where "NOT_clk = gate1_clk op_not"
definition YES_clk where "YES_clk = gate1_clk (\<lambda>v. v)"

subsection \<open>Adders and the multiplier\<close>

text \<open>
  The adders and subtractors keep the last value of each output. A digital output is written and
  scheduled when its value changed; the first analog output among the two is returned.
\<close>

record adder =
  a_levels :: drive_levels
  last_outs :: "logic_t list"

definition any_indeterminate :: "logic_t list \<Rightarrow> bool" where
  "any_indeterminate vs \<longleftrightarrow> indeterminate_state \<in> set vs"

definition write_last :: "node_ref \<Rightarrow> logic_t \<Rightarrow> logic_t \<Rightarrow> node_store \<Rightarrow> logic_t \<times> node_store" where
  "write_last r lst v s =
     (if is_analog s r then (lst, s) else if lst \<noteq> v then (v, schedule r (put_state r v s)) else (lst, s))"

definition two_out :: "adder \<Rightarrow> logic_t \<Rightarrow> logic_t \<Rightarrow> node_ref \<Rightarrow> node_ref \<Rightarrow> node_store \<Rightarrow> adder \<times> node_store \<times> analog_drive" where
  "two_out clip v w rv rw s =
     (let (l1, s1) = write_last rv (last_outs clip ! 0) v s;
          (l2, s2) = write_last rw (last_outs clip ! 1) w s1
      in (clip\<lparr>last_outs := [l1, l2]\<rparr>, s2,
          if is_analog s2 rv then Some (drive_voltage (a_levels clip) v, rv)
          else if is_analog s2 rw then Some (drive_voltage (a_levels clip) w, rw) else None))"

definition known_or_x :: "logic_t list \<Rightarrow> logic_t \<Rightarrow> logic_t" where
  "known_or_x vs v = (if any_indeterminate vs then indeterminate_state else v)"

definition HALF_ADDER_clk :: "f64_ops \<Rightarrow> node_ref option list \<Rightarrow> adder \<Rightarrow> node_store \<Rightarrow> adder \<times> node_store \<times> analog_drive" where
  "HALF_ADDER_clk ops ps clip s =
     (case ps of [Some a, Some b, Some rs, Some rc] \<Rightarrow>
        let A = read_dn ops (a_levels clip) s a; B = read_dn ops (a_levels clip) s b
        in two_out clip (known_or_x [A, B] (op_xor A B)) (known_or_x [A, B] (op_and A B)) rs rc s
      | _ \<Rightarrow> (clip, s, None))"

definition HALF_SUB_clk :: "f64_ops \<Rightarrow> node_ref option list \<Rightarrow> adder \<Rightarrow> node_store \<Rightarrow> adder \<times> node_store \<times> analog_drive" where
  "HALF_SUB_clk ops ps clip s =
     (case ps of [Some a, Some b, Some rd, Some rb] \<Rightarrow>
        let A = read_dn ops (a_levels clip) s a; B = read_dn ops (a_levels clip) s b
        in two_out clip (known_or_x [A, B] (op_xor A B)) (known_or_x [A, B] (op_and (inv_state A) B)) rd rb s
      | _ \<Rightarrow> (clip, s, None))"

definition FULL_ADDER_clk :: "f64_ops \<Rightarrow> node_ref option list \<Rightarrow> adder \<Rightarrow> node_store \<Rightarrow> adder \<times> node_store \<times> analog_drive" where
  "FULL_ADDER_clk ops ps clip s =
     (case ps of [Some a, Some b, Some ci, Some rs, Some rc] \<Rightarrow>
        let A = read_dn ops (a_levels clip) s a; B = read_dn ops (a_levels clip) s b; CI = read_dn ops (a_levels clip) s ci
        in two_out clip (known_or_x [A, B, CI] (op_xor (op_xor A B) CI))
             (known_or_x [A, B, CI] (op_or (op_or (op_and A B) (op_and A CI)) (op_and B CI))) rs rc s
      | _ \<Rightarrow> (clip, s, None))"

definition FULL_SUB_clk :: "f64_ops \<Rightarrow> node_ref option list \<Rightarrow> adder \<Rightarrow> node_store \<Rightarrow> adder \<times> node_store \<times> analog_drive" where
  "FULL_SUB_clk ops ps clip s =
     (case ps of [Some a, Some b, Some bi, Some rd, Some rb] \<Rightarrow>
        let A = read_dn ops (a_levels clip) s a; B = read_dn ops (a_levels clip) s b; BI = read_dn ops (a_levels clip) s bi
        in two_out clip (known_or_x [A, B, BI] (op_xor (op_xor A B) BI))
             (known_or_x [A, B, BI] (op_or (op_or (op_and (inv_state A) B) (op_and (inv_state A) BI)) (op_and B BI))) rd rb s
      | _ \<Rightarrow> (clip, s, None))"

text \<open>The outputs of \<^verbatim>\<open>MUL2\<close> are written in turn until one is analog, which is returned.\<close>

fun mul2_outs :: "drive_levels \<Rightarrow> (logic_t \<times> node_ref) list \<Rightarrow> logic_t list \<Rightarrow> node_store \<Rightarrow> logic_t list \<times> node_store \<times> analog_drive" where
  "mul2_outs lv ((v, r) # outs) (l # ls) s =
     (if is_analog s r then (l # ls, s, Some (drive_voltage lv v, r))
      else case write_last r l v s of (l', s1) \<Rightarrow>
        (case mul2_outs lv outs ls s1 of (ls', s2, d) \<Rightarrow> (l' # ls', s2, d)))"
| "mul2_outs lv outs ls s = (ls, s, None)"

definition mul2_vals :: "logic_t \<Rightarrow> logic_t \<Rightarrow> logic_t \<Rightarrow> logic_t \<Rightarrow> logic_t list" where
  "mul2_vals A0 A1 B0 B1 =
     (if any_indeterminate [A0, A1, B0, B1] then replicate 4 indeterminate_state
      else let p1_t1 = op_and A0 B1; p1_t2 = op_and A1 B0; c1 = op_and p1_t1 p1_t2; p2_t1 = op_and A1 B1
        in [op_and A0 B0, op_xor p1_t1 p1_t2, op_xor p2_t1 c1, op_and p2_t1 c1])"

definition MUL2_clk :: "f64_ops \<Rightarrow> node_ref option list \<Rightarrow> adder \<Rightarrow> node_store \<Rightarrow> adder \<times> node_store \<times> analog_drive" where
  "MUL2_clk ops ps clip s =
     (case ps of [Some a0, Some a1, Some b0, Some b1, Some p0, Some p1, Some p2, Some p3] \<Rightarrow>
        let rd = read_dn ops (a_levels clip) s;
            (ls, s', d) = mul2_outs (a_levels clip) (zip (mul2_vals (rd a0) (rd a1) (rd b0) (rd b1)) [p0, p1, p2, p3]) (last_outs clip) s
        in (clip\<lparr>last_outs := ls\<rparr>, s', d)
      | _ \<Rightarrow> (clip, s, None))"

subsection \<open>Unknown tests, resolution, tri-state driver, Schmitt trigger\<close>

text \<open>Write the node when it differs and remember the value, or drive the voltage when the value is new.\<close>

record tester =
  t_levels :: drive_levels
  last_out :: logic_t

definition test_out :: "tester \<Rightarrow> logic_t \<Rightarrow> node_ref \<Rightarrow> node_store \<Rightarrow> tester \<times> node_store \<times> analog_drive" where
  "test_out clip out r s =
     (if \<not> is_analog s r then (clip\<lparr>last_out := out\<rparr>, write_changed r out s, None)
      else if last_out clip = out then (clip, s, None)
      else (clip\<lparr>last_out := out\<rparr>, s, Some (drive_voltage (t_levels clip) out, r)))"

definition IS_UNKNOWN_clk :: "f64_ops \<Rightarrow> node_ref option list \<Rightarrow> tester \<Rightarrow> node_store \<Rightarrow> tester \<times> node_store \<times> analog_drive" where
  "IS_UNKNOWN_clk ops ps clip s =
     (case ps of [Some i, Some o1] \<Rightarrow>
        let v = read_raw ops (t_levels clip) s i
        in test_out clip (if v = indeterminate_state \<or> v = high_impedence_state then true_state else false_state) o1 s
      | _ \<Rightarrow> (clip, s, None))"

definition CASE_EQ_clk :: "f64_ops \<Rightarrow> node_ref option list \<Rightarrow> tester \<Rightarrow> node_store \<Rightarrow> tester \<times> node_store \<times> analog_drive" where
  "CASE_EQ_clk ops ps clip s =
     (case ps of [Some a, Some b, Some o1] \<Rightarrow>
        test_out clip (if read_raw ops (t_levels clip) s a = read_raw ops (t_levels clip) s b then true_state else false_state) o1 s
      | _ \<Rightarrow> (clip, s, None))"

definition RESOLVE2_clk :: "f64_ops \<Rightarrow> node_ref option list \<Rightarrow> drive_levels \<Rightarrow> node_store \<Rightarrow> node_store \<times> analog_drive" where
  "RESOLVE2_clk ops ps lv s =
     (case ps of [Some a, Some b, Some o1] \<Rightarrow>
        let out = resolve2 (read_raw ops lv s a) (read_raw ops lv s b)
        in if is_analog s o1 then (s, Some (drive_voltage lv out, o1)) else (write_changed o1 out s, None)
      | _ \<Rightarrow> (s, None))"

definition TRI_clk :: "f64_ops \<Rightarrow> node_ref option list \<Rightarrow> drive_levels \<Rightarrow> node_store \<Rightarrow> node_store \<times> analog_drive" where
  "TRI_clk ops ps lv s =
     (case ps of [Some i, Some en, Some o1] \<Rightarrow>
        if \<not> (if is_analog s en then f64_ge ops (voltage_of s en) (Hl lv) else state_of s en = true_state)
        then (if is_analog s o1 then (s, None) else (schedule o1 (put_state o1 high_impedence_state s), None))
        else let v = read_raw ops lv s i
          in if is_analog s o1 then (s, Some (drive_voltage lv v, o1)) else (schedule o1 (put_state o1 v s), None)
      | _ \<Rightarrow> (s, None))"

record schmitt =
  s_levels :: drive_levels
  Vth_low :: u64
  Vth_high :: u64
  inverted :: bool
  s_last_out :: logic_t
  last_driven :: logic_t

definition schmitt_level :: "f64_ops \<Rightarrow> schmitt \<Rightarrow> u64 \<Rightarrow> logic_t" where
  "schmitt_level ops clip v =
     (case s_last_out clip of
        false_state \<Rightarrow> if f64_ge ops v (Vth_high clip) then true_state else false_state
      | true_state \<Rightarrow> if f64_le ops v (Vth_low clip) then false_state else true_state
      | u \<Rightarrow> if f64_ge ops v (Vth_high clip) then true_state else if f64_le ops v (Vth_low clip) then false_state else u)"

definition SCHMITT_TRIGGER_clk :: "f64_ops \<Rightarrow> node_ref option list \<Rightarrow> schmitt \<Rightarrow> node_store \<Rightarrow> schmitt \<times> node_store \<times> analog_drive" where
  "SCHMITT_TRIGGER_clk ops ps clip0 s =
     (case ps of [Some i, Some o1] \<Rightarrow>
        let clip = clip0\<lparr>s_last_out := if is_analog s i then schmitt_level ops clip0 (voltage_of s i)
              else if state_of s i = high_impedence_state then indeterminate_state else state_of s i\<rparr>;
            driven = (if inverted clip
              then (if s_last_out clip = false_state then true_state else if s_last_out clip = true_state then false_state else s_last_out clip)
              else s_last_out clip)
        in if \<not> is_analog s o1 then (clip\<lparr>last_driven := driven\<rparr>, write_changed o1 driven s, None)
           else if last_driven clip = driven then (clip, s, None)
           else (clip\<lparr>last_driven := driven\<rparr>, s, Some (drive_voltage (s_levels clip) driven, o1))
      | _ \<Rightarrow> (clip0, s, None))"

end
