(* ===== verification/Registers.thy ===== *)
theory Registers
  imports Devices
begin

text \<open>
  The digital devices with memory: flip-flops, latch, counter, random generator, delay line, and
  the input and output devices.
\<close>

subsection \<open>Flip-flops and the latch\<close>

record flipflop =
  f_levels :: drive_levels
  ff_q :: logic_t
  reset_value :: logic_t
  last_clk :: logic_t

definition rising :: "logic_t \<Rightarrow> logic_t \<Rightarrow> bool" where
  "rising prev clk \<longleftrightarrow> prev = false_state \<and> clk = true_state"

definition keep_clk :: "logic_t \<Rightarrow> logic_t \<Rightarrow> logic_t" where
  "keep_clk prev clk = (if clk = false_state \<or> clk = true_state then clk else prev)"

definition drive_q :: "flipflop \<Rightarrow> node_ref \<Rightarrow> node_store \<Rightarrow> node_store \<times> analog_drive" where
  "drive_q clip r s = (if is_analog s r then (s, Some (drive_voltage (f_levels clip) (ff_q clip), r)) else (write_changed r (ff_q clip) s, None))"

text \<open>\<^verbatim>\<open>static_cast<digital_node_statement_t>(!static_cast<bool>(q))\<close>\<close>

definition toggle :: "logic_t \<Rightarrow> logic_t" where
  "toggle v = of_bool_state (\<not> to_bool_state v)"

definition DFF_clk :: "f64_ops \<Rightarrow> node_ref option list \<Rightarrow> flipflop \<Rightarrow> node_store \<Rightarrow> flipflop \<times> node_store \<times> analog_drive" where
  "DFF_clk ops ps clip s =
     (case ps of [Some nd, Some nclk, Some nq] \<Rightarrow>
        let D = read_dn ops (f_levels clip) s nd; CLK = read_dn ops (f_levels clip) s nclk;
            clip1 = clip\<lparr>ff_q := if rising (last_clk clip) CLK then D else ff_q clip, last_clk := keep_clk (last_clk clip) CLK\<rparr>
        in (clip1, drive_q clip1 nq s)
      | _ \<Rightarrow> (clip, s, None))"

definition DFF_ARSTN_clk :: "f64_ops \<Rightarrow> node_ref option list \<Rightarrow> flipflop \<Rightarrow> node_store \<Rightarrow> flipflop \<times> node_store \<times> analog_drive" where
  "DFF_ARSTN_clk ops ps clip s =
     (case ps of [Some nd, Some nclk, Some narst, Some nq] \<Rightarrow>
        let D = read_dn ops (f_levels clip) s nd; CLK = read_dn ops (f_levels clip) s nclk; ARSTN = read_dn ops (f_levels clip) s narst;
            clip1 = clip\<lparr>ff_q := if ARSTN = indeterminate_state then indeterminate_state
                            else if ARSTN = false_state then reset_value clip
                            else if rising (last_clk clip) CLK then D else ff_q clip,
                         last_clk := keep_clk (last_clk clip) CLK\<rparr>
        in (clip1, drive_q clip1 nq s)
      | _ \<Rightarrow> (clip, s, None))"

definition jk_next :: "logic_t \<Rightarrow> logic_t \<Rightarrow> logic_t \<Rightarrow> logic_t" where
  "jk_next J K v =
     (if J = true_state \<and> K = false_state then true_state
      else if J = false_state \<and> K = true_state then false_state
      else if J = true_state \<and> K = true_state then toggle v
      else if J = indeterminate_state \<or> K = indeterminate_state then indeterminate_state
      else v)"

definition JKFF_clk :: "f64_ops \<Rightarrow> node_ref option list \<Rightarrow> flipflop \<Rightarrow> node_store \<Rightarrow> flipflop \<times> node_store \<times> analog_drive" where
  "JKFF_clk ops ps clip s =
     (case ps of [Some nj, Some nk, Some nclk, Some nq] \<Rightarrow>
        let J = read_dn ops (f_levels clip) s nj; K = read_dn ops (f_levels clip) s nk; CLK = read_dn ops (f_levels clip) s nclk;
            clip1 = clip\<lparr>ff_q := if rising (last_clk clip) CLK then jk_next J K (ff_q clip) else ff_q clip, last_clk := keep_clk (last_clk clip) CLK\<rparr>
        in (clip1, drive_q clip1 nq s)
      | _ \<Rightarrow> (clip, s, None))"

definition t_next :: "logic_t \<Rightarrow> logic_t \<Rightarrow> logic_t \<Rightarrow> logic_t" where
  "t_next active T v = (if T = active then toggle v else if T = indeterminate_state then indeterminate_state else v)"

definition toggle_clk :: "logic_t \<Rightarrow> f64_ops \<Rightarrow> node_ref option list \<Rightarrow> flipflop \<Rightarrow> node_store \<Rightarrow> flipflop \<times> node_store \<times> analog_drive" where
  "toggle_clk active ops ps clip s =
     (case ps of [Some nt, Some nclk, Some nq] \<Rightarrow>
        let T = read_dn ops (f_levels clip) s nt; CLK = read_dn ops (f_levels clip) s nclk;
            clip1 = clip\<lparr>ff_q := if rising (last_clk clip) CLK then t_next active T (ff_q clip) else ff_q clip, last_clk := keep_clk (last_clk clip) CLK\<rparr>
        in (clip1, drive_q clip1 nq s)
      | _ \<Rightarrow> (clip, s, None))"

definition TFF_clk where "TFF_clk = toggle_clk true_state"
definition T_BAR_FF_clk where "T_BAR_FF_clk = toggle_clk false_state"

definition DLATCH_clk :: "f64_ops \<Rightarrow> node_ref option list \<Rightarrow> flipflop \<Rightarrow> node_store \<Rightarrow> flipflop \<times> node_store \<times> analog_drive" where
  "DLATCH_clk ops ps clip s =
     (case ps of [Some nd, Some nen, Some nq] \<Rightarrow>
        let d = read_dn ops (f_levels clip) s nd; en = read_dn ops (f_levels clip) s nen;
            clip1 = clip\<lparr>ff_q := if en = indeterminate_state then indeterminate_state else if en = true_state then d else ff_q clip\<rparr>
        in (clip1, drive_q clip1 nq s)
      | _ \<Rightarrow> (clip, s, None))"

subsection \<open>Four-bit counter and random generator\<close>

record counter =
  c_levels :: drive_levels
  c_value :: u8
  c_unknown :: bool
  c_last_clk :: logic_t
  last_value :: u8
  last_unknown :: bool

text \<open>A pin that may be unconnected: the state as it is, high impedance when unconnected, which counts as high.\<close>

definition read_pull_up :: "f64_ops \<Rightarrow> drive_levels \<Rightarrow> node_store \<Rightarrow> node_ref option \<Rightarrow> logic_t" where
  "read_pull_up ops lv s p =
     (let v = (case p of None \<Rightarrow> high_impedence_state
               | Some r \<Rightarrow> if is_analog s r then read_dn ops lv s r else state_of s r)
      in if v = high_impedence_state then true_state else v)"

definition bit_state :: "bool \<Rightarrow> u8 \<Rightarrow> nat \<Rightarrow> logic_t" where
  "bit_state unknown v i = (if unknown then indeterminate_state else if bit v i then true_state else false_state)"

text \<open>The loop over the output pins, most significant bit first; \<open>always\<close> is \<^verbatim>\<open>true\<close> for the counters.\<close>

fun bus_out :: "bool \<Rightarrow> drive_levels \<Rightarrow> (nat \<Rightarrow> logic_t) \<Rightarrow> nat \<Rightarrow> node_ref option list \<Rightarrow> node_store \<Rightarrow> analog_drive \<Rightarrow> node_store \<times> analog_drive" where
  "bus_out always lv out (Suc i) (p # ps) s d =
     (case p of None \<Rightarrow> bus_out always lv out i ps s d
      | Some r \<Rightarrow>
          if \<not> is_analog s r then bus_out always lv out i ps (if always then write_changed r (out i) s else s) d
          else bus_out always lv out i ps s (if d = None then Some (drive_voltage lv (out i), r) else d))"
| "bus_out always lv out i ps s d = (s, d)"

definition counter_out :: "node_ref option list \<Rightarrow> counter \<Rightarrow> node_store \<Rightarrow> counter \<times> node_store \<times> analog_drive" where
  "counter_out ps clip s =
     (clip\<lparr>last_value := c_value clip, last_unknown := c_unknown clip\<rparr>,
      bus_out True (c_levels clip) (bit_state (c_unknown clip) (c_value clip)) 4 (take 4 ps) s None)"

definition COUNTER4_clk :: "f64_ops \<Rightarrow> node_ref option list \<Rightarrow> counter \<Rightarrow> node_store \<Rightarrow> counter \<times> node_store \<times> analog_drive" where
  "COUNTER4_clk ops ps clip s =
     (case ps ! 4 of None \<Rightarrow> (clip, s, None)
      | Some n_clk \<Rightarrow>
          let clk = read_dn ops (c_levels clip) s n_clk; en = read_pull_up ops (c_levels clip) s (ps ! 5);
              clip1 = (if rising (c_last_clk clip) clk
                then (if en = true_state then (if c_unknown clip then clip else clip\<lparr>c_value := and (c_value clip + 1) 0x0F\<rparr>)
                      else if en = false_state then clip else clip\<lparr>c_unknown := True\<rparr>)
                else clip)
          in counter_out ps (clip1\<lparr>c_last_clk := keep_clk (c_last_clk clip1) clk\<rparr>) s)"

definition random_next :: "u8 \<Rightarrow> u8" where
  "random_next v = or (and (push_bit 1 v) 0x0E) (if (bit v 3 \<noteq> bit v 2) \<noteq> True then 1 else 0)"

definition RANDOM_GENERATOR4_clk :: "f64_ops \<Rightarrow> node_ref option list \<Rightarrow> counter \<Rightarrow> node_store \<Rightarrow> counter \<times> node_store \<times> analog_drive" where
  "RANDOM_GENERATOR4_clk ops ps clip s =
     (case ps ! 4 of None \<Rightarrow> (clip, s, None)
      | Some n_clk \<Rightarrow>
          let clk = read_dn ops (c_levels clip) s n_clk; rstn = read_pull_up ops (c_levels clip) s (ps ! 5);
              clip1 = (if rstn = false_state then clip\<lparr>c_value := 0, c_unknown := False\<rparr>
                else if rstn = indeterminate_state then clip\<lparr>c_unknown := True\<rparr>
                else if rising (c_last_clk clip) clk
                then (if \<not> c_unknown clip then clip\<lparr>c_value := random_next (c_value clip)\<rparr> else clip)
                else clip)
          in counter_out ps (clip1\<lparr>c_last_clk := keep_clk (c_last_clk clip1) clk\<rparr>) s)"

subsection \<open>Inputs, outputs and the delay line\<close>

record input_pin =
  i_levels :: drive_levels
  outputA :: logic_t
  i_last :: logic_t

definition INPUT_clk :: "node_ref option list \<Rightarrow> input_pin \<Rightarrow> node_store \<Rightarrow> input_pin \<times> node_store \<times> analog_drive" where
  "INPUT_clk ps clip s =
     (case ps of [Some o1] \<Rightarrow>
        (clip\<lparr>i_last := outputA clip\<rparr>, gate_out (i_levels clip) (i_last clip \<noteq> outputA clip) (outputA clip) o1 s)
      | _ \<Rightarrow> (clip, s, None))"

text \<open>\<^verbatim>\<open>OUTPUT\<close> samples its node like the input of a gate; it is only called for a connected pin.\<close>

definition OUTPUT_clk :: "f64_ops \<Rightarrow> u64 \<Rightarrow> node_ref option list \<Rightarrow> gate \<Rightarrow> node_store \<Rightarrow> gate \<times> node_store \<times> analog_drive" where
  "OUTPUT_clk ops tr_duration ps clip s =
     (case ps of [Some i] \<Rightarrow> (clip\<lparr>inA := sample_input ops clip tr_duration s i (inA clip)\<rparr>, s, None)
      | _ \<Rightarrow> (clip, s, None))"

record byte_input =
  b_levels :: drive_levels
  b_value :: u8
  b_last :: u8

definition EIGHT_BIT_INPUT_clk :: "node_ref option list \<Rightarrow> byte_input \<Rightarrow> node_store \<Rightarrow> byte_input \<times> node_store \<times> analog_drive" where
  "EIGHT_BIT_INPUT_clk ps clip s =
     (clip\<lparr>b_last := b_value clip\<rparr>,
      bus_out (b_last clip \<noteq> b_value clip) (b_levels clip) (bit_state False (b_value clip)) 8 (take 8 ps) s None)"

record byte_display =
  y_levels :: drive_levels
  y_value :: u8
  unknown_mask :: u8

fun sample_bus :: "f64_ops \<Rightarrow> drive_levels \<Rightarrow> node_store \<Rightarrow> nat \<Rightarrow> node_ref option list \<Rightarrow> u8 \<Rightarrow> u8 \<Rightarrow> u8 \<times> u8" where
  "sample_bus ops lv s (Suc i) (p # ps) v um =
     (case (case p of None \<Rightarrow> indeterminate_state | Some r \<Rightarrow> read_dn ops lv s r) of
        false_state \<Rightarrow> sample_bus ops lv s i ps v um
      | true_state \<Rightarrow> sample_bus ops lv s i ps (or v (push_bit i 1)) um
      | _ \<Rightarrow> sample_bus ops lv s i ps v (or um (push_bit i 1)))"
| "sample_bus ops lv s i ps v um = (v, um)"

definition EIGHT_BIT_DISPLAY_clk :: "f64_ops \<Rightarrow> node_ref option list \<Rightarrow> byte_display \<Rightarrow> node_store \<Rightarrow> byte_display \<times> node_store \<times> analog_drive" where
  "EIGHT_BIT_DISPLAY_clk ops ps clip s =
     (case sample_bus ops (y_levels clip) s 8 ps 0 0 of (v, um) \<Rightarrow> (clip\<lparr>y_value := v, unknown_mask := um\<rparr>, s, None))"

record delay_line =
  d_levels :: drive_levels
  delay_ticks :: nat
  pipe :: "logic_t list"
  d_last :: logic_t

definition delay_out :: "delay_line \<Rightarrow> logic_t \<Rightarrow> node_ref \<Rightarrow> node_store \<Rightarrow> delay_line \<times> node_store \<times> analog_drive" where
  "delay_out m v r s =
     (if is_analog s r
      then (m, s, if v = false_state then Some (Ll (d_levels m), r) else if v = true_state then Some (Hl (d_levels m), r) else None)
      else if d_last m \<noteq> v then (m\<lparr>d_last := v\<rparr>, schedule r (put_state r v s), None)
      else (m, put_state r v s, None))"

definition TICK_DELAY_clk :: "f64_ops \<Rightarrow> digital_update_method_t \<Rightarrow> node_ref option list \<Rightarrow> delay_line \<Rightarrow> node_store \<Rightarrow> delay_line \<times> node_store \<times> analog_drive" where
  "TICK_DELAY_clk ops method ps m s =
     (if method \<noteq> before_all_clk then (m, s, None)
      else case ps of [i, Some o1] \<Rightarrow>
        let v = (case i of None \<Rightarrow> indeterminate_state | Some r \<Rightarrow> read_raw ops (d_levels m) s r)
        in if delay_ticks m = 0 then delay_out m v o1 s
           else let m1 = (if length (pipe m) \<noteq> delay_ticks m then m\<lparr>pipe := replicate (delay_ticks m) v, d_last := indeterminate_state\<rparr> else m)
             in delay_out (m1\<lparr>pipe := v # butlast (pipe m1)\<rparr>) (pipe m1 ! (delay_ticks m - 1)) o1 s
      | _ \<Rightarrow> (m, s, None))"

end
