(* ===== verification/Ast.thy ===== *)
theory Ast
  imports Logic4
begin

text \<open>
  The data the Verilog compiler hands to the simulator and to the synthesiser
  (\<^verbatim>\<open>verilog/digital/digital.h\<close>, from \<^verbatim>\<open>port_dir\<close> to \<^verbatim>\<open>compiled_module\<close>). Structs are records whose
  field names carry a short prefix, enums are datatypes, \<^verbatim>\<open>btree_map\<close>s are maps, and
  \<^verbatim>\<open>u8string\<close>s are strings. Arena indices are natural numbers with the sentinel \<open>SIZE_MAX\<close>.
\<close>

subsection \<open>Expressions\<close>

datatype port_dir = dir_unknown | dir_input | dir_output | dir_inout

datatype expr_kind =
    literal_kind | signal_kind | is_unknown_kind | unary_not
  | binary_and | binary_or | binary_xor | binary_eq | binary_neq | binary_case_eq

record expr_node =
  en_kind :: expr_kind
  en_literal :: logic_t
  en_a :: nat
  en_b :: nat
  en_signal :: nat

definition expr_node_default :: expr_node where
  "expr_node_default =
     \<lparr>en_kind = literal_kind, en_literal = indeterminate_state,
      en_a = SIZE_MAX, en_b = SIZE_MAX, en_signal = SIZE_MAX\<rparr>"

record continuous_assign =
  ca_lhs_signal :: nat
  ca_expr_root :: nat
  ca_guard_root :: nat

subsection \<open>Statements\<close>

record case_item =
  ci_is_default :: bool
  ci_match_roots :: "nat list"
  ci_stmts :: "nat list"

datatype stmt_kind =
    empty_stmt | block | subprogram_block
  | blocking_assign | blocking_assign_vec | nonblocking_assign | nonblocking_assign_vec
  | if_stmt | case_stmt | for_stmt | while_stmt | do_while_stmt
  | return_stmt | break_stmt | continue_stmt

datatype case_kind = case_normal | casez | casex

record stmt_node =
  sn_k :: stmt_kind
  sn_ck :: case_kind
  sn_delay_ticks :: u64
  sn_lhs_signal :: nat
  sn_expr_root :: nat
  sn_lhs_signals :: "nat list"
  sn_rhs_roots :: "nat list"
  sn_stmts :: "nat list"
  sn_else_stmts :: "nat list"
  sn_case_expr_roots :: "nat list"
  sn_case_items :: "case_item list"
  sn_init_stmt :: nat
  sn_step_stmt :: nat
  sn_body_stmt :: nat

definition stmt_node_default :: stmt_node where
  "stmt_node_default =
     \<lparr>sn_k = empty_stmt, sn_ck = case_normal, sn_delay_ticks = 0,
      sn_lhs_signal = SIZE_MAX, sn_expr_root = SIZE_MAX, sn_lhs_signals = [], sn_rhs_roots = [],
      sn_stmts = [], sn_else_stmts = [], sn_case_expr_roots = [], sn_case_items = [],
      sn_init_stmt = SIZE_MAX, sn_step_stmt = SIZE_MAX, sn_body_stmt = SIZE_MAX\<rparr>"

datatype sensitivity_kind = level | posedge | negedge

record sensitivity_event =
  se_k :: sensitivity_kind
  se_signal :: nat

record always_ff =
  ff_events :: "sensitivity_event list"
  ff_stmt_nodes :: "stmt_node list"
  ff_roots :: "nat list"

record always_comb =
  ac_is_star :: bool
  ac_sens_signals :: "nat list"
  ac_stmt_nodes :: "stmt_node list"
  ac_roots :: "nat list"

record initial_block =
  ib_stmt_nodes :: "stmt_node list"
  ib_roots :: "nat list"

subsection \<open>Ports, vectors, instances\<close>

record port_decl =
  pd_dir :: port_dir
  pd_has_range :: bool
  pd_msb :: int
  pd_lsb :: int
  pd_is_reg :: bool
  pd_is_signed :: bool

definition port_decl_default :: port_decl where
  "port_decl_default =
     \<lparr>pd_dir = dir_unknown, pd_has_range = False, pd_msb = 0, pd_lsb = 0,
      pd_is_reg = False, pd_is_signed = False\<rparr>"

record vector_desc =
  vd_msb :: int
  vd_lsb :: int
  vd_is_reg :: bool
  vd_is_signed :: bool
  vd_bits :: "nat list"

datatype connection_kind =
    conn_unconnected | conn_scalar | conn_vector | conn_literal
  | conn_literal_vector | conn_bit_list | conn_expr

record connection_bit =
  cb_is_literal :: bool
  cb_signal :: nat
  cb_literal :: logic_t

record connection_ref =
  cr_kind :: connection_kind
  cr_is_signed :: bool
  cr_scalar_signal :: nat
  cr_vector_base :: string
  cr_literal :: logic_t
  cr_literal_bits :: "logic_t list"
  cr_bit_list :: "connection_bit list"
  cr_expr_roots :: "nat list"

definition connection_ref_default :: connection_ref where
  "connection_ref_default =
     \<lparr>cr_kind = conn_unconnected, cr_is_signed = False, cr_scalar_signal = SIZE_MAX,
      cr_vector_base = [], cr_literal = indeterminate_state, cr_literal_bits = [],
      cr_bit_list = [], cr_expr_roots = []\<rparr>"

record instance_connection =
  ic_port_name :: string
  ic_ref :: connection_ref

text \<open>\<^verbatim>\<open>param_named_values\<close> is a \<^verbatim>\<open>btree_map\<close> that is only iterated: the list of its entries in
  key order.\<close>

record instance_def =
  id_module_name :: string
  id_instance_name :: string
  id_param_positional_values :: "u64 list"
  id_param_named_values :: "(string \<times> u64) list"
  id_connections :: "instance_connection list"

record port =
  p_name :: string
  p_dir :: port_dir
  p_signal :: nat

text \<open>A function is kept as the text of its body and parsed again at every call.\<close>

record function_param =
  fp_name :: string
  fp_has_range :: bool
  fp_msb :: int
  fp_lsb :: int
  fp_is_signed :: bool
  fp_width :: nat

record function_def =
  fd_ret_has_range :: bool
  fd_ret_msb :: int
  fd_ret_lsb :: int
  fd_ret_is_signed :: bool
  fd_ret_width :: nat
  fd_params :: "function_param list"
  fd_locals :: "string list"
  fd_body_text :: string

datatype param_dir = param_input | param_output | param_inout

record task_param =
  tp_name :: string
  tp_dir :: param_dir
  tp_has_range :: bool
  tp_msb :: int
  tp_lsb :: int
  tp_is_signed :: bool
  tp_width :: nat

record task_def =
  td_params :: "task_param list"
  td_body_text :: string

record compiled_module =
  m_name :: string
  m_ports :: "port list"
  m_port_order :: "string list"
  m_port_decls :: "string \<rightharpoonup> port_decl"
  m_vectors :: "string \<rightharpoonup> vector_desc"
  m_signal_names :: "string list"
  m_signal_is_reg :: "bool list"
  m_signal_is_signed :: "bool list"
  m_signal_is_const :: "bool list"
  m_signal_is_const_foldable :: "bool list"
  m_signal_const_value :: "logic_t list"
  m_signal_index :: "string \<rightharpoonup> nat"
  m_param_order :: "string list"
  m_param_default_values :: "string \<rightharpoonup> u64"
  m_param_is_local :: "string \<rightharpoonup> bool"
  m_expr_nodes :: "expr_node list"
  m_expr_intern :: "expr_node \<rightharpoonup> nat"
  m_assigns :: "continuous_assign list"
  m_always_ffs :: "always_ff list"
  m_always_combs :: "always_comb list"
  m_initials :: "initial_block list"
  m_instances :: "instance_def list"
  m_functions :: "string \<rightharpoonup> function_def"
  m_tasks :: "string \<rightharpoonup> task_def"
  m_inline_counter :: u64

definition empty_module :: compiled_module where
  "empty_module =
     \<lparr>m_name = [], m_ports = [], m_port_order = [], m_port_decls = Map.empty,
      m_vectors = Map.empty, m_signal_names = [], m_signal_is_reg = [], m_signal_is_signed = [],
      m_signal_is_const = [], m_signal_is_const_foldable = [], m_signal_const_value = [],
      m_signal_index = Map.empty, m_param_order = [], m_param_default_values = Map.empty, m_param_is_local = Map.empty,
      m_expr_nodes = [], m_expr_intern = Map.empty, m_assigns = [], m_always_ffs = [],
      m_always_combs = [], m_initials = [], m_instances = [], m_functions = Map.empty, m_tasks = Map.empty, m_inline_counter = 0\<rparr>"

end
