(* ===== verification/Expr.thy ===== *)
theory Expr
  imports Ast
begin

text \<open>
  Expression evaluation in \<^verbatim>\<open>verilog/digital/digital.h\<close>: the plain recursive evaluator
  \<^verbatim>\<open>eval_expr\<close>, the evaluator \<^verbatim>\<open>eval_expr_cached\<close> the simulator runs (memoised per call with a
  32-bit epoch), and the reference semantics \<open>deval\<close> of an expression arena both implement.
\<close>

subsection \<open>The plain evaluator\<close>

text \<open>
  \<open>None\<close> is an evaluation that does not return a value: the recursion never ends (a cyclic
  arena) or it reads past the arena (\<^verbatim>\<open>index_unchecked\<close> out of range). The first argument
  bounds the depth of the recursion.
\<close>

fun eval_expr :: "nat \<Rightarrow> expr_node list \<Rightarrow> nat \<Rightarrow> logic_t list \<Rightarrow> logic_t option" where
  "eval_expr 0 ns root vals = None"
| "eval_expr (Suc fuel) ns root vals =
     (if \<not> root < length ns then None
      else
        let n = ns ! root in
        case en_kind n of
          literal_kind \<Rightarrow> Some (en_literal n)
        | signal_kind \<Rightarrow>
            if en_signal n \<ge> length vals then Some indeterminate_state
            else Some (vals ! en_signal n)
        | is_unknown_kind \<Rightarrow>
            do {a \<leftarrow> eval_expr fuel ns (en_a n) vals; Some (logic_is_unknown a)}
        | unary_not \<Rightarrow>
            do {a \<leftarrow> eval_expr fuel ns (en_a n) vals; Some (logic_not a)}
        | binary_and \<Rightarrow>
            do {a \<leftarrow> eval_expr fuel ns (en_a n) vals; b \<leftarrow> eval_expr fuel ns (en_b n) vals;
                Some (logic_and a b)}
        | binary_or \<Rightarrow>
            do {a \<leftarrow> eval_expr fuel ns (en_a n) vals; b \<leftarrow> eval_expr fuel ns (en_b n) vals;
                Some (logic_or a b)}
        | binary_xor \<Rightarrow>
            do {a \<leftarrow> eval_expr fuel ns (en_a n) vals; b \<leftarrow> eval_expr fuel ns (en_b n) vals;
                Some (logic_xor a b)}
        | binary_eq \<Rightarrow>
            do {a \<leftarrow> eval_expr fuel ns (en_a n) vals; b \<leftarrow> eval_expr fuel ns (en_b n) vals;
                Some (logic_eq a b)}
        | binary_neq \<Rightarrow>
            do {a \<leftarrow> eval_expr fuel ns (en_a n) vals; b \<leftarrow> eval_expr fuel ns (en_b n) vals;
                Some (logic_neq a b)}
        | binary_case_eq \<Rightarrow>
            do {a \<leftarrow> eval_expr fuel ns (en_a n) vals; b \<leftarrow> eval_expr fuel ns (en_b n) vals;
                Some (logic_case_eq a b)})"

subsection \<open>The memoising evaluator\<close>

text \<open>
  The lambda \<^verbatim>\<open>eval\<close> inside \<^verbatim>\<open>eval_expr_cached\<close>. A node is marked with the epoch before its
  operands are visited, so the recursion is bounded by the number of unmarked nodes even on a
  cyclic arena (lemma \<open>eval_go_returns\<close>). The operand visits thread the mark and cache
  vectors; C++ leaves the order of the two visits of \<^verbatim>\<open>logic_and\<close>, \<^verbatim>\<open>logic_or\<close> and \<^verbatim>\<open>logic_xor\<close>
  open, and the model visits the left one first. The compiler's \<^verbatim>\<open>eval_const_root_cached\<close> is the
  same recursion with a flag vector in place of the marks, so the type of marks is a parameter.
\<close>

type_synonym 't memo = "'t list \<times> logic_t list"

definition eval_unary :: "(nat \<Rightarrow> 't memo \<Rightarrow> (logic_t \<times> 't memo) option) \<Rightarrow>
    (logic_t \<Rightarrow> logic_t) \<Rightarrow> expr_node \<Rightarrow> 't memo \<Rightarrow> (logic_t \<times> 't memo) option" where
  "eval_unary self f n mc = do {(a, mc1) \<leftarrow> self (en_a n) mc; Some (f a, mc1)}"

definition eval_binary :: "(nat \<Rightarrow> 't memo \<Rightarrow> (logic_t \<times> 't memo) option) \<Rightarrow>
    (logic_t \<Rightarrow> logic_t \<Rightarrow> logic_t) \<Rightarrow> expr_node \<Rightarrow> 't memo \<Rightarrow> (logic_t \<times> 't memo) option" where
  "eval_binary self f n mc =
     do {(a, mc1) \<leftarrow> self (en_a n) mc; (b, mc2) \<leftarrow> self (en_b n) mc1; Some (f a b, mc2)}"

definition eval_kind :: "(nat \<Rightarrow> 't memo \<Rightarrow> (logic_t \<times> 't memo) option) \<Rightarrow>
    logic_t list \<Rightarrow> expr_node \<Rightarrow> 't memo \<Rightarrow> (logic_t \<times> 't memo) option" where
  "eval_kind self vals n mc =
     (case en_kind n of
        literal_kind \<Rightarrow> Some (en_literal n, mc)
      | signal_kind \<Rightarrow>
          Some (if en_signal n \<ge> length vals then indeterminate_state else vals ! en_signal n, mc)
      | is_unknown_kind \<Rightarrow> eval_unary self logic_is_unknown n mc
      | unary_not \<Rightarrow> eval_unary self logic_not n mc
      | binary_and \<Rightarrow> eval_binary self logic_and n mc
      | binary_or \<Rightarrow> eval_binary self logic_or n mc
      | binary_xor \<Rightarrow> eval_binary self logic_xor n mc
      | binary_eq \<Rightarrow> eval_binary self logic_eq n mc
      | binary_neq \<Rightarrow> eval_binary self logic_neq n mc
      | binary_case_eq \<Rightarrow> eval_binary self logic_case_eq n mc)"

fun eval_go :: "nat \<Rightarrow> expr_node list \<Rightarrow> logic_t list \<Rightarrow> 't \<Rightarrow> nat \<Rightarrow> 't memo \<Rightarrow>
    (logic_t \<times> 't memo) option" where
  "eval_go 0 ns vals tok r mc = None"
| "eval_go (Suc fuel) ns vals tok r mc =
     (if r \<ge> length ns then Some (indeterminate_state, mc)
      else if fst mc ! r = tok then Some (snd mc ! r, mc)
      else
        do {(v, mark, cache) \<leftarrow> eval_kind (eval_go fuel ns vals tok) vals (ns ! r) ((fst mc)[r := tok], snd mc);
            Some (v, mark, cache[r := v])})"

text \<open>The evaluation fields of \<^verbatim>\<open>module_state\<close>.\<close>

record eval_cache =
  expr_eval_cache :: "logic_t list"
  expr_eval_mark :: "u32 list"
  expr_eval_token :: u32

definition bump_token :: "eval_cache \<Rightarrow> eval_cache" where
  "bump_token c =
     (let t = expr_eval_token c + 1 in
      if t = 0
      then c\<lparr>expr_eval_token := 1, expr_eval_mark := replicate (length (expr_eval_mark c)) 0\<rparr>
      else c\<lparr>expr_eval_token := t\<rparr>)"

text \<open>Sizing of the vectors and the new epoch, before the recursion starts.\<close>

definition cache_ready :: "nat \<Rightarrow> eval_cache \<Rightarrow> eval_cache" where
  "cache_ready n_nodes c =
     bump_token
       (if length (expr_eval_cache c) < n_nodes
        then c\<lparr>expr_eval_cache := resize_vec false_state n_nodes (expr_eval_cache c),
               expr_eval_mark := resize_vec 0 n_nodes (expr_eval_mark c)\<rparr>
        else c)"

definition eval_expr_cached ::
    "expr_node list \<Rightarrow> nat \<Rightarrow> logic_t list \<Rightarrow> eval_cache \<Rightarrow> logic_t \<times> eval_cache" where
  "eval_expr_cached ns root vals c =
     (if root \<ge> length ns then (indeterminate_state, c)
      else
        let c2 = cache_ready (length ns) c
        in case eval_go (Suc (length ns)) ns vals (expr_eval_token c2) root
                  (expr_eval_mark c2, expr_eval_cache c2) of
             None \<Rightarrow> (indeterminate_state, c2)
           | Some (v, mark, cache) \<Rightarrow>
               (v, c2\<lparr>expr_eval_mark := mark, expr_eval_cache := cache\<rparr>))"

subsection \<open>Reference semantics of an arena\<close>

text \<open>
  Operands point below their node, or are \<^verbatim>\<open>SIZE_MAX\<close> where the compiler ran out of nodes. The
  reference value follows the operands downwards; anything else reads as \<^verbatim>\<open>X\<close>.
\<close>

definition kind_arity :: "expr_kind \<Rightarrow> nat" where
  "kind_arity k =
     (case k of literal_kind \<Rightarrow> 0 | signal_kind \<Rightarrow> 0 | is_unknown_kind \<Rightarrow> 1 | unary_not \<Rightarrow> 1
      | _ \<Rightarrow> 2)"

definition kind_fun :: "expr_kind \<Rightarrow> logic_t \<Rightarrow> logic_t \<Rightarrow> logic_t" where
  "kind_fun k a b =
     (case k of
        is_unknown_kind \<Rightarrow> logic_is_unknown a
      | unary_not \<Rightarrow> logic_not a
      | binary_and \<Rightarrow> logic_and a b
      | binary_or \<Rightarrow> logic_or a b
      | binary_xor \<Rightarrow> logic_xor a b
      | binary_eq \<Rightarrow> logic_eq a b
      | binary_neq \<Rightarrow> logic_neq a b
      | binary_case_eq \<Rightarrow> logic_case_eq a b
      | _ \<Rightarrow> indeterminate_state)"

definition leaf_value :: "expr_node \<Rightarrow> logic_t list \<Rightarrow> logic_t" where
  "leaf_value n vals =
     (if en_kind n = literal_kind then en_literal n
      else if en_signal n < length vals then vals ! en_signal n else indeterminate_state)"

function deval :: "expr_node list \<Rightarrow> logic_t list \<Rightarrow> nat \<Rightarrow> logic_t" where
  "deval ns vals r =
     (if \<not> r < length ns then indeterminate_state
      else
        let n = ns ! r;
            va = (if en_a n < r then deval ns vals (en_a n) else indeterminate_state);
            vb = (if en_b n < r then deval ns vals (en_b n) else indeterminate_state)
        in if kind_arity (en_kind n) = 0 then leaf_value n vals
           else kind_fun (en_kind n) va vb)"
  by pat_completeness auto
termination
  by (relation "measure (\<lambda>(ns, vals, r). r)") auto

declare deval.simps [simp del]

definition child_ok :: "nat \<Rightarrow> nat \<Rightarrow> bool" where
  "child_ok i c \<longleftrightarrow> c < i \<or> c = SIZE_MAX"

definition node_ok :: "nat \<Rightarrow> expr_node \<Rightarrow> bool" where
  "node_ok i n \<longleftrightarrow>
     (kind_arity (en_kind n) \<ge> 1 \<longrightarrow> child_ok i (en_a n)) \<and>
     (kind_arity (en_kind n) \<ge> 2 \<longrightarrow> child_ok i (en_b n))"

definition wf_arena :: "expr_node list \<Rightarrow> bool" where
  "wf_arena ns \<longleftrightarrow> length ns \<le> SIZE_MAX \<and> (\<forall>i < length ns. node_ok i (ns ! i))"

text \<open>No operand is missing: the arenas the parser produces when it reports no error.\<close>

definition complete_arena :: "expr_node list \<Rightarrow> bool" where
  "complete_arena ns \<longleftrightarrow>
     (\<forall>i < length ns.
        (kind_arity (en_kind (ns ! i)) \<ge> 1 \<longrightarrow> en_a (ns ! i) < i) \<and>
        (kind_arity (en_kind (ns ! i)) \<ge> 2 \<longrightarrow> en_b (ns ! i) < i))"


lemmas kind_simps = kind_arity_def kind_fun_def leaf_value_def

lemma complete_imp_wf: "complete_arena ns \<Longrightarrow> length ns \<le> SIZE_MAX \<Longrightarrow> wf_arena ns"
  by (simp add: complete_arena_def wf_arena_def node_ok_def child_ok_def)

lemma deval_leaf:
  "r < length ns \<Longrightarrow> kind_arity (en_kind (ns ! r)) = 0 \<Longrightarrow> deval ns vals r = leaf_value (ns ! r) vals"
  by (subst deval.simps) simp

lemma deval_op:
  "r < length ns \<Longrightarrow> kind_arity (en_kind (ns ! r)) \<noteq> 0 \<Longrightarrow>
   deval ns vals r =
     kind_fun (en_kind (ns ! r))
       (if en_a (ns ! r) < r then deval ns vals (en_a (ns ! r)) else indeterminate_state)
       (if en_b (ns ! r) < r then deval ns vals (en_b (ns ! r)) else indeterminate_state)"
  by (subst deval.simps) (simp add: Let_def)

lemma deval_out: "length ns \<le> r \<Longrightarrow> deval ns vals r = indeterminate_state"
  by (subst deval.simps) simp

text \<open>Appending nodes does not change the value of an existing root.\<close>

lemma deval_append: "r < length ns \<Longrightarrow> deval (ns @ ms) vals r = deval ns vals r"
proof (induction r rule: less_induct)
  case (less r)
  then show ?case
    by (cases "kind_arity (en_kind (ns ! r)) = 0") (simp_all add: deval_leaf deval_op nth_append)
qed

subsection \<open>The plain evaluator computes the reference value\<close>

theorem eval_expr_deval:
  assumes "complete_arena ns" and "r < length ns" and "r < fuel"
  shows "eval_expr fuel ns r vals = Some (deval ns vals r)"
  using assms(2,3)
proof (induction r arbitrary: fuel rule: less_induct)
  case (less r)
  then obtain f where f: "fuel = Suc f" by (cases fuel) auto
  have a: "kind_arity (en_kind (ns ! r)) \<ge> 1 \<Longrightarrow>
      en_a (ns ! r) < r \<and> eval_expr f ns (en_a (ns ! r)) vals = Some (deval ns vals (en_a (ns ! r)))"
    using assms(1) less f by (auto simp: complete_arena_def)
  have b: "kind_arity (en_kind (ns ! r)) \<ge> 2 \<Longrightarrow>
      en_b (ns ! r) < r \<and> eval_expr f ns (en_b (ns ! r)) vals = Some (deval ns vals (en_b (ns ! r)))"
    using assms(1) less f by (auto simp: complete_arena_def)
  show ?case
    using a b less.prems
    by (cases "en_kind (ns ! r)")
      (simp_all add: f deval_leaf deval_op kind_simps Let_def)
qed

subsection \<open>The memoising evaluator\<close>

definition memo_upto :: "nat \<Rightarrow> expr_node list \<Rightarrow> logic_t list \<Rightarrow> 't \<Rightarrow> 't memo \<Rightarrow> bool" where
  "memo_upto k ns vals tok mc \<longleftrightarrow>
     length ns \<le> length (fst mc) \<and> length ns \<le> length (snd mc) \<and>
     (\<forall>i < k. fst mc ! i = tok \<longrightarrow> snd mc ! i = deval ns vals i)"

text \<open>What one visit does: the value, and marks and cache changed below \<open>k\<close> only.\<close>

definition visit_ok :: "nat \<Rightarrow> expr_node list \<Rightarrow> logic_t list \<Rightarrow> 't \<Rightarrow> logic_t \<Rightarrow> 't memo \<Rightarrow>
    (logic_t \<times> 't memo) option \<Rightarrow> bool" where
  "visit_ok k ns vals tok v mc res \<longleftrightarrow>
     (\<exists>mc'. res = Some (v, mc') \<and> memo_upto k ns vals tok mc' \<and>
        length (fst mc') = length (fst mc) \<and> length (snd mc') = length (snd mc) \<and>
        (\<forall>i \<ge> k. fst mc' ! i = fst mc ! i \<and> snd mc' ! i = snd mc ! i) \<and>
        set (fst mc') \<subseteq> insert tok (set (fst mc)))"

lemma visit_ok_refl: "memo_upto k ns vals tok mc \<Longrightarrow> visit_ok k ns vals tok v mc (Some (v, mc))"
  by (auto simp: visit_ok_def)

lemma visit_ok_unary:
  assumes "visit_ok k ns vals tok va mc (self (en_a n) mc)"
  shows "visit_ok k ns vals tok (f va) mc (eval_unary self f n mc)"
  using assms by (auto simp: visit_ok_def eval_unary_def)

lemma visit_ok_binary:
  assumes "visit_ok k ns vals tok va mc (self (en_a n) mc)"
    and "\<And>mc1. memo_upto k ns vals tok mc1 \<Longrightarrow> visit_ok k ns vals tok vb mc1 (self (en_b n) mc1)"
  shows "visit_ok k ns vals tok (f va vb) mc (eval_binary self f n mc)"
proof -
  from assms(1) obtain mc1 where mc1: "self (en_a n) mc = Some (va, mc1)"
      "memo_upto k ns vals tok mc1"
      "length (fst mc1) = length (fst mc)" "length (snd mc1) = length (snd mc)"
      "\<forall>i \<ge> k. fst mc1 ! i = fst mc ! i \<and> snd mc1 ! i = snd mc ! i"
      "set (fst mc1) \<subseteq> insert tok (set (fst mc))"
    by (auto simp: visit_ok_def)
  from assms(2) [OF mc1(2)] show ?thesis
    using mc1 by (auto simp: visit_ok_def eval_binary_def) blast+
qed

lemma eval_go_correct:
  assumes "wf_arena ns" and "r < length ns" and "Suc r < fuel" and "r < k"
    and "memo_upto k ns vals tok mc"
  shows "visit_ok k ns vals tok (deval ns vals r) mc (eval_go fuel ns vals tok r mc)"
  using assms(2-5)
proof (induction fuel arbitrary: r k mc)
  case 0
  then show ?case by simp
next
  case (Suc fuel)
  let ?n = "ns ! r" and ?self = "eval_go fuel ns vals tok"
  let ?va = "if en_a ?n < r then deval ns vals (en_a ?n) else indeterminate_state"
  let ?vb = "if en_b ?n < r then deval ns vals (en_b ?n) else indeterminate_state"
  show ?case
  proof (cases "fst mc ! r = tok")
    case True
    then show ?thesis
      using Suc.prems visit_ok_refl [of k ns vals tok mc "deval ns vals r"]
      by (simp add: memo_upto_def)
  next
    case False
    define mc1 where "mc1 = ((fst mc)[r := tok], snd mc)"
    have mc1: "memo_upto r ns vals tok mc1"
      using Suc.prems by (auto simp: mc1_def memo_upto_def)
    have child: "visit_ok r ns vals tok (if c < r then deval ns vals c else indeterminate_state) mc2 (?self c mc2)"
      if "child_ok r c" and "memo_upto r ns vals tok mc2" for c mc2
    proof (cases "c < r")
      case True
      then show ?thesis using Suc.IH [of c r mc2] Suc.prems that by simp
    next
      case False
      with that(1) have "c = SIZE_MAX" by (simp add: child_ok_def)
      moreover from this assms(1) have "length ns \<le> c" by (simp add: wf_arena_def)
      moreover obtain f where "fuel = Suc f" using Suc.prems by (cases fuel) auto
      ultimately show ?thesis using that(2) False visit_ok_refl by simp
    qed
    have ok: "node_ok r ?n" using assms(1) Suc.prems by (simp add: wf_arena_def)
    have a: "kind_arity (en_kind ?n) \<ge> 1 \<Longrightarrow> visit_ok r ns vals tok ?va mc1 (?self (en_a ?n) mc1)"
      using ok child [OF _ mc1] by (simp only: node_ok_def)
    have b: "kind_arity (en_kind ?n) \<ge> 2 \<Longrightarrow> memo_upto r ns vals tok mc2 \<Longrightarrow>
        visit_ok r ns vals tok ?vb mc2 (?self (en_b ?n) mc2)" for mc2
      using ok child by (simp only: node_ok_def)
    have "visit_ok r ns vals tok (deval ns vals r) mc1 (eval_kind ?self vals ?n mc1)"
    proof (cases "kind_arity (en_kind ?n) = 0")
      case True
      then have "deval ns vals r = leaf_value ?n vals" using Suc.prems(1) by (simp add: deval_leaf)
      then show ?thesis
        using True visit_ok_refl [OF mc1]
        by (cases "en_kind ?n") (simp_all add: eval_kind_def kind_simps)
    next
      case False
      then have d: "deval ns vals r = kind_fun (en_kind ?n) ?va ?vb"
        using Suc.prems(1) by (simp only: deval_op not_False_eq_True)
      show ?thesis
        unfolding d eval_kind_def
        using False a b visit_ok_unary [where self = ?self and n = ?n]
          visit_ok_binary [where self = ?self and n = ?n]
        by (cases "en_kind ?n") (simp_all add: kind_arity_def kind_fun_def)
    qed
    then obtain mc2 where mc2: "eval_kind ?self vals ?n mc1 = Some (deval ns vals r, mc2)"
        "memo_upto r ns vals tok mc2"
        "length (fst mc2) = length (fst mc1)" "length (snd mc2) = length (snd mc1)"
        "\<forall>i \<ge> r. fst mc2 ! i = fst mc1 ! i \<and> snd mc2 ! i = snd mc1 ! i"
        "set (fst mc2) \<subseteq> insert tok (set (fst mc1))"
      by (auto simp: visit_ok_def)
    let ?mc3 = "(fst mc2, (snd mc2)[r := deval ns vals r])"
    have res: "eval_go (Suc fuel) ns vals tok r mc = Some (deval ns vals r, ?mc3)"
      using False Suc.prems(1) mc2(1) by (cases mc2) (simp add: mc1_def)
    have "memo_upto k ns vals tok ?mc3"
      using mc2 Suc.prems
      by (auto simp: memo_upto_def mc1_def) (metis linorder_not_less)
    moreover have "set (fst mc1) \<subseteq> insert tok (set (fst mc))"
      by (auto simp: mc1_def dest: in_set_conv_nth [THEN iffD1] intro!: set_update_subset_insert [THEN subsetD])
    ultimately show ?thesis
      unfolding res using mc2 Suc.prems by (auto simp: visit_ok_def mc1_def)
  qed
qed

subsection \<open>The recursion is bounded on every arena\<close>

text \<open>
  Every nested visit marks one more node, so the number of unmarked nodes bounds the depth:
  the evaluator returns even when the operands of the arena form a cycle.
\<close>

definition unmarked :: "'t \<Rightarrow> nat \<Rightarrow> 't list \<Rightarrow> nat" where
  "unmarked tok n mark = card {i. i < n \<and> mark ! i \<noteq> tok}"

definition returns :: "'t \<Rightarrow> nat \<Rightarrow> 't memo \<Rightarrow> (logic_t \<times> 't memo) option \<Rightarrow> bool" where
  "returns tok n mc res \<longleftrightarrow>
     (\<exists>v mc'. res = Some (v, mc') \<and> length (fst mc') = length (fst mc) \<and>
        unmarked tok n (fst mc') \<le> unmarked tok n (fst mc))"

lemma unmarked_mark:
  assumes "r < n" and "n \<le> length mark" and "mark ! r \<noteq> tok"
  shows "Suc (unmarked tok n (mark[r := tok])) = unmarked tok n mark"
proof -
  have "{i. i < n \<and> mark ! i \<noteq> tok} = insert r {i. i < n \<and> mark[r := tok] ! i \<noteq> tok}"
    using assms by auto
  moreover have "r \<notin> {i. i < n \<and> mark[r := tok] ! i \<noteq> tok}"
    using assms by simp
  ultimately show ?thesis by (simp add: unmarked_def)
qed

lemma unmarked_le: "unmarked tok n mark \<le> n"
  unfolding unmarked_def by (rule order_trans [OF card_mono [of "{..<n}"]]) auto

lemma returns_kind:
  assumes "\<And>c mc1. length (fst mc1) = length (fst mc) \<Longrightarrow>
      unmarked tok n (fst mc1) \<le> unmarked tok n (fst mc) \<Longrightarrow> returns tok n mc1 (self c mc1)"
  shows "returns tok n mc (eval_kind self vals nd mc)"
proof -
  have un: "returns tok n mc (eval_unary self f nd mc)" for f
  proof -
    obtain v mc1 where "self (en_a nd) mc = Some (v, mc1)" "length (fst mc1) = length (fst mc)"
        "unmarked tok n (fst mc1) \<le> unmarked tok n (fst mc)"
      using assms [of mc "en_a nd"] by (auto simp: returns_def)
    then show ?thesis by (simp add: returns_def eval_unary_def)
  qed
  have bin: "returns tok n mc (eval_binary self f nd mc)" for f
  proof -
    obtain v mc1 where 1: "self (en_a nd) mc = Some (v, mc1)" "length (fst mc1) = length (fst mc)"
        "unmarked tok n (fst mc1) \<le> unmarked tok n (fst mc)"
      using assms [of mc "en_a nd"] by (auto simp: returns_def)
    obtain w mc2 where 2: "self (en_b nd) mc1 = Some (w, mc2)" "length (fst mc2) = length (fst mc1)"
        "unmarked tok n (fst mc2) \<le> unmarked tok n (fst mc1)"
      using assms [OF 1(2,3), of "en_b nd"] by (auto simp: returns_def)
    from 1 2 show ?thesis by (simp add: returns_def eval_binary_def)
  qed
  show ?thesis
    unfolding eval_kind_def
    by (cases "en_kind nd") (simp_all add: un bin, simp_all add: returns_def)
qed

lemma eval_go_returns:
  assumes "length ns \<le> length (fst mc)" and "unmarked tok (length ns) (fst mc) < fuel"
  shows "returns tok (length ns) mc (eval_go fuel ns vals tok r mc)"
  using assms
proof (induction fuel arbitrary: r mc)
  case 0
  then show ?case by simp
next
  case (Suc fuel)
  show ?case
  proof (cases "r < length ns \<and> fst mc ! r \<noteq> tok")
    case False
    then show ?thesis by (cases mc) (auto simp: returns_def)
  next
    case True
    let ?mc1 = "((fst mc)[r := tok], snd mc)"
    have less: "Suc (unmarked tok (length ns) (fst ?mc1)) = unmarked tok (length ns) (fst mc)"
      using True Suc.prems unmarked_mark [of r "length ns" "fst mc"] by simp
    have "returns tok (length ns) ?mc1 (eval_kind (eval_go fuel ns vals tok) vals (ns ! r) ?mc1)"
      using Suc.prems less by (intro returns_kind Suc.IH) simp_all
    then show ?thesis
      using True less by (auto simp: returns_def)
  qed
qed

subsection \<open>The epoch counter\<close>

text \<open>
  No mark is ahead of the epoch, so the bumped epoch is fresh; when the 32-bit epoch wraps to
  zero the marks are cleared and it restarts at one.
\<close>

definition cache_inv :: "eval_cache \<Rightarrow> bool" where
  "cache_inv c \<longleftrightarrow>
     length (expr_eval_mark c) = length (expr_eval_cache c) \<and>
     (\<forall>m \<in> set (expr_eval_mark c). m \<le> expr_eval_token c)"

definition eval_cache_init :: eval_cache where
  "eval_cache_init = \<lparr>expr_eval_cache = [], expr_eval_mark = [], expr_eval_token = 1\<rparr>"

lemma cache_inv_init [simp]: "cache_inv eval_cache_init"
  by (simp add: cache_inv_def eval_cache_init_def)

lemma bump_token_fresh:
  assumes "cache_inv c"
  shows "\<forall>m \<in> set (expr_eval_mark (bump_token c)). m < expr_eval_token (bump_token c)"
proof (cases "expr_eval_token c + 1 = 0")
  case True
  then show ?thesis by (simp add: bump_token_def)
next
  case False
  then have "expr_eval_token c < expr_eval_token c + 1"
    by (rule word_less_plus_one)
  then show ?thesis
    using assms False by (auto simp: bump_token_def Let_def cache_inv_def)
qed

lemma bump_token_lengths [simp]:
  "length (expr_eval_mark (bump_token c)) = length (expr_eval_mark c)"
  "expr_eval_cache (bump_token c) = expr_eval_cache c"
  by (simp_all add: bump_token_def Let_def)

lemma cache_ready_props:
  assumes "cache_inv c"
  shows "length (expr_eval_mark (cache_ready n c)) = length (expr_eval_cache (cache_ready n c))"
    and "n \<le> length (expr_eval_cache (cache_ready n c))"
    and "\<forall>m \<in> set (expr_eval_mark (cache_ready n c)). m < expr_eval_token (cache_ready n c)"
proof -
  let ?c1 = "if length (expr_eval_cache c) < n
     then c\<lparr>expr_eval_cache := resize_vec false_state n (expr_eval_cache c),
            expr_eval_mark := resize_vec 0 n (expr_eval_mark c)\<rparr> else c"
  have "cache_inv ?c1"
    using assms by (auto simp: cache_inv_def resize_vec_def dest: in_set_takeD)
  then show "\<forall>m \<in> set (expr_eval_mark (cache_ready n c)). m < expr_eval_token (cache_ready n c)"
    unfolding cache_ready_def by (rule bump_token_fresh)
  show "length (expr_eval_mark (cache_ready n c)) = length (expr_eval_cache (cache_ready n c))"
    and "n \<le> length (expr_eval_cache (cache_ready n c))"
    using assms by (auto simp: cache_ready_def cache_inv_def)
qed

lemma eval_expr_cached_deval:
  assumes "wf_arena ns" and "cache_inv c"
  shows "\<exists>c'. eval_expr_cached ns root vals c = (deval ns vals root, c') \<and> cache_inv c'"
proof (cases "root < length ns")
  case False
  then show ?thesis using assms(2) by (simp add: eval_expr_cached_def deval_out)
next
  case True
  let ?c = "cache_ready (length ns) c"
  let ?mc = "(expr_eval_mark ?c, expr_eval_cache ?c)" and ?tok = "expr_eval_token ?c"
  note ready = cache_ready_props [OF assms(2), of "length ns"]
  have "memo_upto (length ns) ns vals ?tok ?mc"
    using ready by (auto simp: memo_upto_def in_set_conv_nth)
  from eval_go_correct [OF assms(1) True _ True this, of "Suc (length ns)"] True
  obtain mc' where go: "eval_go (Suc (length ns)) ns vals ?tok root ?mc = Some (deval ns vals root, mc')"
    and len: "length (fst mc') = length (expr_eval_mark ?c)" "length (snd mc') = length (expr_eval_cache ?c)"
    and marks: "set (fst mc') \<subseteq> insert ?tok (set (expr_eval_mark ?c))"
    by (auto simp: visit_ok_def)
  have "cache_inv (?c\<lparr>expr_eval_mark := fst mc', expr_eval_cache := snd mc'\<rparr>)"
    using len marks ready by (auto simp: cache_inv_def order.strict_implies_order dest!: subsetD)
  with go True show ?thesis
    by (cases mc') (simp add: eval_expr_cached_def del: eval_go.simps)
qed

end
