(* ===== verification/State.thy ===== *)
theory State
  imports Expr
begin

text \<open>
  The run-time state of one module instance (\<^verbatim>\<open>module_state\<close>, \<^verbatim>\<open>scheduled_event\<close> in
  \<^verbatim>\<open>verilog/digital/digital.h\<close>) and the primitive updates every scheduler pass is made of:
  initialisation, the change epoch, \<^verbatim>\<open>assign_signal\<close> and expression evaluation in a state.
\<close>

record scheduled_event =
  ev_due_tick :: u64
  ev_nonblocking :: bool
  ev_lhs_signal :: nat
  ev_expr_root :: nat
  ev_is_vector :: bool
  ev_lhs_signals :: "nat list"
  ev_expr_roots :: "nat list"

record module_state =
  st_mod :: "compiled_module option"
  st_values :: "logic_t list"
  st_prev_values :: "logic_t list"
  st_comb_prev_values :: "logic_t list"
  st_comb_initialized :: bool
  st_initial_ran :: bool
  st_initial_base_tick :: u64
  st_events :: "scheduled_event list"
  st_nba_queue :: "(nat \<times> logic_t) list"
  st_next_net_values :: "logic_t list"
  st_change_mark :: "u32 list"
  st_changed_signals :: "nat list"
  st_change_token :: u32
  st_eval :: eval_cache

text \<open>\<^verbatim>\<open>init_state\<close>: every signal is \<^verbatim>\<open>X\<close> but the constants.\<close>

definition init_value :: "compiled_module \<Rightarrow> nat \<Rightarrow> logic_t" where
  "init_value m i =
     (if i < length (m_signal_is_const m) \<and> i < length (m_signal_const_value m) \<and>
         m_signal_is_const m ! i
      then m_signal_const_value m ! i else indeterminate_state)"

definition init_state :: "compiled_module \<Rightarrow> module_state" where
  "init_state m =
     (let vs = map (init_value m) [0..<length (m_signal_names m)] in
      \<lparr>st_mod = Some m, st_values = vs, st_prev_values = vs, st_comb_prev_values = vs,
       st_comb_initialized = False, st_initial_ran = False, st_initial_base_tick = 0,
       st_events = [], st_nba_queue = [], st_next_net_values = [], st_change_mark = [],
       st_changed_signals = [], st_change_token = 1, st_eval = eval_cache_init\<rparr>)"

definition begin_change_epoch :: "module_state \<Rightarrow> u32 \<times> module_state" where
  "begin_change_epoch st =
     (let t = st_change_token st + 1;
          st1 = st\<lparr>st_changed_signals := [], st_change_token := t\<rparr>;
          st2 = (if t = 0
                 then st1\<lparr>st_change_token := 1,
                          st_change_mark := replicate (length (st_change_mark st)) 0\<rparr>
                 else st1);
          st3 = st2\<lparr>st_change_mark := grow_to 0 (length (st_values st)) (st_change_mark st2)\<rparr>
      in (st_change_token st3, st3))"

definition assign_signal :: "module_state \<Rightarrow> nat \<Rightarrow> logic_t \<Rightarrow> bool \<times> module_state" where
  "assign_signal st sig v =
     (if sig \<ge> length (st_values st) then (False, st)
      else if st_values st ! sig \<noteq> v then
        (let marks = grow_to 0 (length (st_values st)) (st_change_mark st);
             st1 = st\<lparr>st_values := (st_values st)[sig := v], st_change_mark := marks\<rparr>
         in (True,
             if marks ! sig \<noteq> st_change_token st
             then st1\<lparr>st_change_mark := marks[sig := st_change_token st],
                      st_changed_signals := st_changed_signals st @ [sig]\<rparr>
             else st1))
      else (False, st))"

definition eval_in :: "compiled_module \<Rightarrow> nat \<Rightarrow> module_state \<Rightarrow> logic_t \<times> module_state" where
  "eval_in m root st =
     (case eval_expr_cached (m_expr_nodes m) root (st_values st) (st_eval st) of
        (v, c) \<Rightarrow> (v, st\<lparr>st_eval := c\<rparr>))"

subsection \<open>Well-formed states\<close>

text \<open>
  The change log of the current epoch lists exactly the signals marked with the epoch, each
  once; no mark is ahead of the epoch; the evaluation cache keeps its own invariant.
\<close>

definition st_inv :: "module_state \<Rightarrow> bool" where
  "st_inv st \<longleftrightarrow>
     cache_inv (st_eval st) \<and>
     (\<forall>t \<in> set (st_change_mark st). t \<le> st_change_token st) \<and>
     distinct (st_changed_signals st) \<and>
     (\<forall>i. i \<in> set (st_changed_signals st) \<longrightarrow>
        i < length (st_change_mark st) \<and> st_change_mark st ! i = st_change_token st) \<and>
     st_change_token st \<noteq> 0"

lemma st_inv_init: "st_inv (init_state m)"
  by (simp add: st_inv_def init_state_def Let_def)

lemma assign_signal_values:
  "st_values (snd (assign_signal st sig v)) = (st_values st)[sig := v]"
  by (auto simp: assign_signal_def Let_def list_update_beyond)

lemma assign_signal_changed:
  "fst (assign_signal st sig v) \<longleftrightarrow> sig < length (st_values st) \<and> st_values st ! sig \<noteq> v"
  by (simp add: assign_signal_def Let_def)

lemma assign_signal_frame [frame_simps]:
  "st_mod (snd (assign_signal st sig v)) = st_mod st"
  "st_prev_values (snd (assign_signal st sig v)) = st_prev_values st"
  "st_comb_prev_values (snd (assign_signal st sig v)) = st_comb_prev_values st"
  "st_comb_initialized (snd (assign_signal st sig v)) = st_comb_initialized st"
  "st_initial_ran (snd (assign_signal st sig v)) = st_initial_ran st"
  "st_initial_base_tick (snd (assign_signal st sig v)) = st_initial_base_tick st"
  "st_events (snd (assign_signal st sig v)) = st_events st"
  "st_nba_queue (snd (assign_signal st sig v)) = st_nba_queue st"
  "st_next_net_values (snd (assign_signal st sig v)) = st_next_net_values st"
  "st_change_token (snd (assign_signal st sig v)) = st_change_token st"
  "st_eval (snd (assign_signal st sig v)) = st_eval st"
  by (simp_all add: assign_signal_def Let_def)

lemma assign_signal_inv [inv_intros]:
  assumes "st_inv st"
  shows "st_inv (snd (assign_signal st sig v))"
proof (cases "sig < length (st_values st) \<and> st_values st ! sig \<noteq> v")
  case False
  then have "snd (assign_signal st sig v) = st" by (auto simp: assign_signal_def)
  then show ?thesis using assms by simp
next
  case True
  let ?marks = "grow_to 0 (length (st_values st)) (st_change_mark st)"
  have len: "sig < length ?marks" using True by (simp add: less_max_iff_disj)
  have le: "\<forall>t \<in> set ?marks. t \<le> st_change_token st"
    using assms set_grow_to [of 0 "length (st_values st)" "st_change_mark st"]
    by (auto simp: st_inv_def)
  have old: "i < length ?marks \<and> ?marks ! i = st_change_token st"
    if "i \<in> set (st_changed_signals st)" for i
    using assms that by (auto simp: st_inv_def nth_grow_to)
  show ?thesis
  proof (cases "?marks ! sig = st_change_token st")
    case marked: True
    then show ?thesis
      using assms True le old by (auto simp: assign_signal_def st_inv_def Let_def)
  next
    case unmarked: False
    then have "sig \<notin> set (st_changed_signals st)" using old by auto
    then show ?thesis
      using assms True unmarked le old len
      by (auto simp: assign_signal_def st_inv_def Let_def dest!: set_update_subset_insert [THEN subsetD])
  qed
qed

lemma begin_change_epoch_frame [frame_simps]:
  "st_mod (snd (begin_change_epoch st)) = st_mod st"
  "st_values (snd (begin_change_epoch st)) = st_values st"
  "st_prev_values (snd (begin_change_epoch st)) = st_prev_values st"
  "st_comb_prev_values (snd (begin_change_epoch st)) = st_comb_prev_values st"
  "st_events (snd (begin_change_epoch st)) = st_events st"
  "st_nba_queue (snd (begin_change_epoch st)) = st_nba_queue st"
  "st_changed_signals (snd (begin_change_epoch st)) = []"
  "st_comb_initialized (snd (begin_change_epoch st)) = st_comb_initialized st"
  "st_initial_ran (snd (begin_change_epoch st)) = st_initial_ran st"
  "st_eval (snd (begin_change_epoch st)) = st_eval st"
  "st_change_token (snd (begin_change_epoch st)) = fst (begin_change_epoch st)"
  "length (st_values st) \<le> length (st_change_mark (snd (begin_change_epoch st)))"
  by (simp_all add: begin_change_epoch_def Let_def)

text \<open>A new epoch is fresh: nothing is marked with it yet, even after the counter wraps.\<close>

lemma begin_change_epoch_fresh:
  assumes "st_inv st"
  shows "\<forall>t \<in> set (st_change_mark (snd (begin_change_epoch st))). t < fst (begin_change_epoch st)"
proof (cases "st_change_token st + 1 = 0")
  case True
  then show ?thesis
    using set_grow_to [of "0::u32" "length (st_values st)" "replicate (length (st_change_mark st)) 0"]
    by (auto simp: begin_change_epoch_def Let_def)
next
  case False
  then have "st_change_token st < st_change_token st + 1" by (rule word_less_plus_one)
  moreover from False have "0 < st_change_token st + 1" by (simp add: word_neq_0_conv)
  ultimately show ?thesis
    using assms False set_grow_to [of "0::u32" "length (st_values st)" "st_change_mark st"]
    by (fastforce simp: begin_change_epoch_def Let_def st_inv_def)
qed

lemma begin_change_epoch_inv [inv_intros]:
  assumes "st_inv st"
  shows "st_inv (snd (begin_change_epoch st))"
proof -
  have "fst (begin_change_epoch st) \<noteq> 0"
    by (simp add: begin_change_epoch_def Let_def)
  then show ?thesis
    using assms begin_change_epoch_fresh [OF assms]
    by (auto simp: st_inv_def frame_simps order.strict_implies_order)
qed

lemma eval_in_deval:
  assumes "wf_arena (m_expr_nodes m)" and "st_inv st"
  shows "fst (eval_in m root st) = deval (m_expr_nodes m) (st_values st) root"
    and "st_inv (snd (eval_in m root st))"
proof -
  from assms(2) have "cache_inv (st_eval st)" by (simp add: st_inv_def)
  from eval_expr_cached_deval [OF assms(1) this, of root "st_values st"]
  obtain c where "eval_expr_cached (m_expr_nodes m) root (st_values st) (st_eval st) =
      (deval (m_expr_nodes m) (st_values st) root, c)" "cache_inv c"
    by blast
  then show "fst (eval_in m root st) = deval (m_expr_nodes m) (st_values st) root"
    and "st_inv (snd (eval_in m root st))"
    using assms(2) by (auto simp: eval_in_def st_inv_def)
qed

lemma eval_in_frame [frame_simps]:
  "st_mod (snd (eval_in m root st)) = st_mod st"
  "st_values (snd (eval_in m root st)) = st_values st"
  "st_prev_values (snd (eval_in m root st)) = st_prev_values st"
  "st_comb_prev_values (snd (eval_in m root st)) = st_comb_prev_values st"
  "st_comb_initialized (snd (eval_in m root st)) = st_comb_initialized st"
  "st_initial_ran (snd (eval_in m root st)) = st_initial_ran st"
  "st_initial_base_tick (snd (eval_in m root st)) = st_initial_base_tick st"
  "st_events (snd (eval_in m root st)) = st_events st"
  "st_nba_queue (snd (eval_in m root st)) = st_nba_queue st"
  "st_next_net_values (snd (eval_in m root st)) = st_next_net_values st"
  "st_change_mark (snd (eval_in m root st)) = st_change_mark st"
  "st_changed_signals (snd (eval_in m root st)) = st_changed_signals st"
  "st_change_token (snd (eval_in m root st)) = st_change_token st"
  by (simp_all add: eval_in_def split: prod.splits)

end
