(* ===== verification/Stmt.thy ===== *)
theory Stmt
  imports State
begin

text \<open>
  The statement interpreter \<^verbatim>\<open>runtime_details::exec_stmt\<close> of \<^verbatim>\<open>verilog/digital/digital.h\<close>, one
  definition per statement kind. \<open>None\<close> is an execution that does not return; the first
  argument of \<open>exec_stmt\<close> bounds the nesting depth of the statement tree, and
  \<open>exec_stmt_returns\<close> shows that the arenas the parser builds (children before parents) never
  exhaust it. The two loop kinds are cut off after 4096 iterations by the code itself.
\<close>

subsection \<open>Control flow\<close>

datatype flow_kind = flow_none | flow_ret | flow_brk | flow_cont

text \<open>\<^verbatim>\<open>flow_state* fs\<close>: \<open>None\<close> is the null pointer.\<close>

type_synonym flow = "flow_kind option"
type_synonym xres = "(bool \<times> module_state \<times> flow) option"
type_synonym executor = "nat \<Rightarrow> module_state \<Rightarrow> flow \<Rightarrow> xres"

definition flow_active :: "flow \<Rightarrow> bool" where
  "flow_active fs \<longleftrightarrow> fs \<noteq> None \<and> fs \<noteq> Some flow_none"

text \<open>The loop over a statement list, which stops once a jump is pending.\<close>

fun exec_seq :: "executor \<Rightarrow> nat list \<Rightarrow> bool \<Rightarrow> module_state \<Rightarrow> flow \<Rightarrow> xres" where
  "exec_seq self [] changed st fs = Some (changed, st, fs)"
| "exec_seq self (sub # subs) changed st fs =
     (if flow_active fs then Some (changed, st, fs)
      else do {(c, st1, fs1) \<leftarrow> self sub st fs; exec_seq self subs (c \<or> changed) st1 fs1})"

definition exec_subprogram :: "executor \<Rightarrow> stmt_node \<Rightarrow> module_state \<Rightarrow> flow \<Rightarrow> xres" where
  "exec_subprogram self n st fs =
     do {(changed, st1, loc) \<leftarrow> exec_seq self (sn_stmts n) False st (Some flow_none);
         Some (changed, st1,
               if (loc = Some flow_brk \<or> loc = Some flow_cont) \<and> fs \<noteq> None then loc else fs)}"

subsection \<open>Assignments\<close>

definition scalar_event :: "u64 \<Rightarrow> bool \<Rightarrow> nat \<Rightarrow> nat \<Rightarrow> scheduled_event" where
  "scalar_event due nb lhs root =
     \<lparr>ev_due_tick = due, ev_nonblocking = nb, ev_lhs_signal = lhs, ev_expr_root = root,
      ev_is_vector = False, ev_lhs_signals = [], ev_expr_roots = []\<rparr>"

definition vector_event :: "u64 \<Rightarrow> bool \<Rightarrow> nat list \<Rightarrow> nat list \<Rightarrow> scheduled_event" where
  "vector_event due nb lhs roots =
     \<lparr>ev_due_tick = due, ev_nonblocking = nb, ev_lhs_signal = SIZE_MAX, ev_expr_root = SIZE_MAX,
      ev_is_vector = True, ev_lhs_signals = lhs, ev_expr_roots = roots\<rparr>"

definition push_event :: "scheduled_event \<Rightarrow> module_state \<Rightarrow> module_state" where
  "push_event ev st = st\<lparr>st_events := st_events st @ [ev]\<rparr>"

definition push_nba :: "nat \<Rightarrow> logic_t \<Rightarrow> module_state \<Rightarrow> module_state" where
  "push_nba sig v st = st\<lparr>st_nba_queue := st_nba_queue st @ [(sig, v)]\<rparr>"

fun sample_roots :: "compiled_module \<Rightarrow> nat list \<Rightarrow> module_state \<Rightarrow> logic_t list \<times> module_state" where
  "sample_roots m [] st = ([], st)"
| "sample_roots m (r # rs) st =
     (let (v, st1) = eval_in m r st; (vs, st2) = sample_roots m rs st1 in (v # vs, st2))"

fun assign_all :: "(nat \<times> logic_t) list \<Rightarrow> bool \<Rightarrow> module_state \<Rightarrow> bool \<times> module_state" where
  "assign_all [] changed st = (changed, st)"
| "assign_all ((sig, v) # svs) changed st =
     (if sig \<ge> length (st_values st) then assign_all svs changed st
      else let (c, st1) = assign_signal st sig v in assign_all svs (c \<or> changed) st1)"

fun nba_roots :: "compiled_module \<Rightarrow> (nat \<times> nat) list \<Rightarrow> module_state \<Rightarrow> module_state" where
  "nba_roots m [] st = st"
| "nba_roots m ((sig, r) # srs) st =
     (if sig \<ge> length (st_values st) then nba_roots m srs st
      else let (v, st1) = eval_in m r st in nba_roots m srs (push_nba sig v st1))"

definition exec_blocking_assign :: "compiled_module \<Rightarrow> stmt_node \<Rightarrow> u64 \<Rightarrow> module_state \<Rightarrow>
    bool \<times> module_state" where
  "exec_blocking_assign m n tick st =
     (if sn_lhs_signal n \<ge> length (st_values st) then (False, st)
      else if sn_delay_ticks n \<noteq> 0 then
        (False, push_event (scalar_event (tick + sn_delay_ticks n) False (sn_lhs_signal n) (sn_expr_root n)) st)
      else let (v, st1) = eval_in m (sn_expr_root n) st in assign_signal st1 (sn_lhs_signal n) v)"

definition exec_blocking_assign_vec :: "compiled_module \<Rightarrow> stmt_node \<Rightarrow> u64 \<Rightarrow> module_state \<Rightarrow>
    bool \<times> module_state" where
  "exec_blocking_assign_vec m n tick st =
     (if length (sn_lhs_signals n) \<noteq> length (sn_rhs_roots n) then (False, st)
      else if sn_lhs_signals n = [] then (False, st)
      else if sn_delay_ticks n \<noteq> 0 then
        (False, push_event (vector_event (tick + sn_delay_ticks n) False (sn_lhs_signals n) (sn_rhs_roots n)) st)
      else let (sampled, st1) = sample_roots m (sn_rhs_roots n) st
           in assign_all (zip (sn_lhs_signals n) sampled) False st1)"

definition exec_nonblocking_assign :: "compiled_module \<Rightarrow> stmt_node \<Rightarrow> u64 \<Rightarrow> bool \<Rightarrow> module_state \<Rightarrow>
    bool \<times> module_state" where
  "exec_nonblocking_assign m n tick treat_nonblocking_as_blocking st =
     (if sn_lhs_signal n \<ge> length (st_values st) then (False, st)
      else if treat_nonblocking_as_blocking then exec_blocking_assign m n tick st
      else if sn_delay_ticks n \<noteq> 0 then
        (False, push_event (scalar_event (tick + sn_delay_ticks n) True (sn_lhs_signal n) (sn_expr_root n)) st)
      else let (v, st1) = eval_in m (sn_expr_root n) st in (False, push_nba (sn_lhs_signal n) v st1))"

definition exec_nonblocking_assign_vec :: "compiled_module \<Rightarrow> stmt_node \<Rightarrow> u64 \<Rightarrow> bool \<Rightarrow> module_state \<Rightarrow>
    bool \<times> module_state" where
  "exec_nonblocking_assign_vec m n tick treat_nonblocking_as_blocking st =
     (if length (sn_lhs_signals n) \<noteq> length (sn_rhs_roots n) then (False, st)
      else if sn_lhs_signals n = [] then (False, st)
      else if treat_nonblocking_as_blocking then exec_blocking_assign_vec m n tick st
      else if sn_delay_ticks n \<noteq> 0 then
        (False, push_event (vector_event (tick + sn_delay_ticks n) True (sn_lhs_signals n) (sn_rhs_roots n)) st)
      else (False, nba_roots m (zip (sn_lhs_signals n) (sn_rhs_roots n)) st))"

subsection \<open>Branching\<close>

definition exec_if :: "executor \<Rightarrow> compiled_module \<Rightarrow> stmt_node \<Rightarrow> module_state \<Rightarrow> flow \<Rightarrow> xres" where
  "exec_if self m n st fs =
     (let (c, st1) = eval_in m (sn_expr_root n) st;
          take = (normalize_z_to_x c = true_state)
      in exec_seq self (if take then sn_stmts n else sn_else_stmts n) False st1 fs)"

definition bit_matches :: "case_kind \<Rightarrow> logic_t \<Rightarrow> logic_t \<Rightarrow> bool" where
  "bit_matches ck a b =
     (case ck of
        case_normal \<Rightarrow> a = b
      | casez \<Rightarrow> a = high_impedence_state \<or> b = high_impedence_state \<or> a = b
      | casex \<Rightarrow> is_unknown (normalize_z_to_x a) \<or> is_unknown (normalize_z_to_x b) \<or> a = b)"

fun match_roots :: "compiled_module \<Rightarrow> case_kind \<Rightarrow> logic_t list \<Rightarrow> nat list \<Rightarrow> module_state \<Rightarrow>
    bool \<times> module_state" where
  "match_roots m ck (k # ks) (r # rs) st =
     (let (mb, st1) = eval_in m r st
      in if bit_matches ck k mb then match_roots m ck ks rs st1 else (False, st1))"
| "match_roots m ck _ _ st = (True, st)"

fun find_case :: "compiled_module \<Rightarrow> case_kind \<Rightarrow> logic_t list \<Rightarrow> case_item option \<Rightarrow> case_item list \<Rightarrow>
    module_state \<Rightarrow> case_item option \<times> module_state" where
  "find_case m ck key def_item [] st = (def_item, st)"
| "find_case m ck key def_item (ci # cis) st =
     (if ci_is_default ci then find_case m ck key (Some ci) cis st
      else if length (ci_match_roots ci) \<noteq> length key then find_case m ck key def_item cis st
      else let (ok, st1) = match_roots m ck key (ci_match_roots ci) st
           in if ok then (Some ci, st1) else find_case m ck key def_item cis st1)"

definition case_key :: "compiled_module \<Rightarrow> stmt_node \<Rightarrow> module_state \<Rightarrow> logic_t list \<times> module_state" where
  "case_key m n st =
     (if sn_case_expr_roots n = [] then ([indeterminate_state], st)
      else sample_roots m (sn_case_expr_roots n) st)"

definition exec_case :: "executor \<Rightarrow> compiled_module \<Rightarrow> stmt_node \<Rightarrow> module_state \<Rightarrow> flow \<Rightarrow> xres" where
  "exec_case self m n st fs =
     (let (key, st1) = case_key m n st;
          (chosen, st2) = find_case m (sn_ck n) key None (sn_case_items n) st1
      in case chosen of
           None \<Rightarrow> Some (False, st2, fs)
         | Some ci \<Rightarrow> exec_seq self (ci_stmts ci) False st2 fs)"

subsection \<open>Loops\<close>

text \<open>An optional sub-statement (\<^verbatim>\<open>if(n.step_stmt != SIZE_MAX)\<close>).\<close>

definition exec_opt :: "executor \<Rightarrow> nat \<Rightarrow> bool \<Rightarrow> module_state \<Rightarrow> flow \<Rightarrow> xres" where
  "exec_opt self idx changed st fs =
     (if idx \<noteq> SIZE_MAX
      then do {(c, st1, fs1) \<leftarrow> self idx st fs; Some (c \<or> changed, st1, fs1)}
      else Some (changed, st, fs))"

definition clear_cont :: "flow \<Rightarrow> flow" where
  "clear_cont fs = (if fs = Some flow_cont then Some flow_none else fs)"

definition max_iter :: nat where
  "max_iter = 4096"

fun for_loop :: "executor \<Rightarrow> compiled_module \<Rightarrow> stmt_node \<Rightarrow> nat \<Rightarrow> bool \<Rightarrow> module_state \<Rightarrow> flow \<Rightarrow> xres" where
  "for_loop self m n 0 changed st fs = Some (changed, st, fs)"
| "for_loop self m n (Suc k) changed st fs =
     (if fs = Some flow_ret then Some (changed, st, fs)
      else if fs = Some flow_brk then Some (changed, st, Some flow_none)
      else if fs = Some flow_cont then
        do {(changed1, st1, fs1) \<leftarrow> exec_opt self (sn_step_stmt n) changed st (Some flow_none);
            for_loop self m n k changed1 st1 fs1}
      else
        (let (c, st1) = eval_in m (sn_expr_root n) st
         in if normalize_z_to_x c \<noteq> true_state then Some (changed, st1, fs)
            else
              do {(changed2, st2, fs2) \<leftarrow> exec_opt self (sn_body_stmt n) changed st1 fs;
                  if fs2 = Some flow_ret then Some (changed2, st2, fs2)
                  else if fs2 = Some flow_brk then Some (changed2, st2, Some flow_none)
                  else
                    do {(changed3, st3, fs3) \<leftarrow> exec_opt self (sn_step_stmt n) changed2 st2 (clear_cont fs2);
                        for_loop self m n k changed3 st3 fs3}}))"

definition exec_for :: "executor \<Rightarrow> compiled_module \<Rightarrow> stmt_node \<Rightarrow> module_state \<Rightarrow> flow \<Rightarrow> xres" where
  "exec_for self m n st fs =
     do {(changed, st1, fs1) \<leftarrow> exec_opt self (sn_init_stmt n) False st fs;
         for_loop self m n max_iter changed st1 fs1}"

fun while_loop :: "executor \<Rightarrow> compiled_module \<Rightarrow> stmt_node \<Rightarrow> nat \<Rightarrow> bool \<Rightarrow> module_state \<Rightarrow> flow \<Rightarrow> xres" where
  "while_loop self m n 0 changed st fs = Some (changed, st, fs)"
| "while_loop self m n (Suc k) changed st fs =
     (if fs = Some flow_ret then Some (changed, st, fs)
      else if fs = Some flow_brk then Some (changed, st, Some flow_none)
      else
        (let fs1 = clear_cont fs; (c, st1) = eval_in m (sn_expr_root n) st
         in if normalize_z_to_x c \<noteq> true_state then Some (changed, st1, fs1)
            else
              do {(changed2, st2, fs2) \<leftarrow> exec_opt self (sn_body_stmt n) changed st1 fs1;
                  if fs2 = Some flow_ret then Some (changed2, st2, fs2)
                  else if fs2 = Some flow_brk then Some (changed2, st2, Some flow_none)
                  else while_loop self m n k changed2 st2 (clear_cont fs2)}))"

fun do_while_loop :: "executor \<Rightarrow> compiled_module \<Rightarrow> stmt_node \<Rightarrow> nat \<Rightarrow> bool \<Rightarrow> module_state \<Rightarrow> flow \<Rightarrow> xres" where
  "do_while_loop self m n 0 changed st fs = Some (changed, st, fs)"
| "do_while_loop self m n (Suc k) changed st fs =
     (if fs = Some flow_ret then Some (changed, st, fs)
      else if fs = Some flow_brk then Some (changed, st, Some flow_none)
      else
        do {(changed2, st2, fs2) \<leftarrow> exec_opt self (sn_body_stmt n) changed st (clear_cont fs);
            if fs2 = Some flow_ret then Some (changed2, st2, fs2)
            else if fs2 = Some flow_brk then Some (changed2, st2, Some flow_none)
            else
              (let (c, st3) = eval_in m (sn_expr_root n) st2
               in if normalize_z_to_x c \<noteq> true_state then Some (changed2, st3, clear_cont fs2)
                  else do_while_loop self m n k changed2 st3 (clear_cont fs2))})"

subsection \<open>The interpreter\<close>

definition plain :: "flow \<Rightarrow> bool \<times> module_state \<Rightarrow> xres" where
  "plain fs r = Some (fst r, snd r, fs)"

definition set_flow :: "flow_kind \<Rightarrow> flow \<Rightarrow> flow" where
  "set_flow k fs = (if fs = None then None else Some k)"

definition exec_node :: "executor \<Rightarrow> compiled_module \<Rightarrow> u64 \<Rightarrow> bool \<Rightarrow> stmt_node \<Rightarrow> module_state \<Rightarrow> flow \<Rightarrow> xres" where
  "exec_node self m tick tnb n st fs =
     (case sn_k n of
        empty_stmt \<Rightarrow> Some (False, st, fs)
      | block \<Rightarrow> exec_seq self (sn_stmts n) False st fs
      | subprogram_block \<Rightarrow> exec_subprogram self n st fs
      | blocking_assign \<Rightarrow> plain fs (exec_blocking_assign m n tick st)
      | blocking_assign_vec \<Rightarrow> plain fs (exec_blocking_assign_vec m n tick st)
      | nonblocking_assign \<Rightarrow> plain fs (exec_nonblocking_assign m n tick tnb st)
      | nonblocking_assign_vec \<Rightarrow> plain fs (exec_nonblocking_assign_vec m n tick tnb st)
      | if_stmt \<Rightarrow> exec_if self m n st fs
      | case_stmt \<Rightarrow> exec_case self m n st fs
      | for_stmt \<Rightarrow> exec_for self m n st fs
      | while_stmt \<Rightarrow> while_loop self m n max_iter False st fs
      | do_while_stmt \<Rightarrow> do_while_loop self m n max_iter False st fs
      | return_stmt \<Rightarrow> Some (False, st, set_flow flow_ret fs)
      | break_stmt \<Rightarrow> Some (False, st, set_flow flow_brk fs)
      | continue_stmt \<Rightarrow> Some (False, st, set_flow flow_cont fs))"

primrec exec_stmt :: "nat \<Rightarrow> compiled_module \<Rightarrow> stmt_node list \<Rightarrow> u64 \<Rightarrow> bool \<Rightarrow> executor" where
  "exec_stmt 0 m arena tick tnb = (\<lambda>idx st fs. None)"
| "exec_stmt (Suc fuel) m arena tick tnb =
     (\<lambda>idx st fs.
        if idx \<ge> length arena then Some (False, st, fs)
        else exec_node (exec_stmt fuel m arena tick tnb) m tick tnb (arena ! idx) st fs)"

end
