(* ===== verification/Stmt_Props.thy ===== *)
theory Stmt_Props
  imports Stmt
begin

text \<open>
  What the interpreter guarantees. The locale \<open>exec_rel\<close> lifts a reflexive and transitive
  relation between states from the primitive updates to whole statements; its interpretations
  give the state invariant, the frame of the untouched fields, the set of signals a statement
  can write, and the isolation of nonblocking assignments. \<open>exec_stmt_returns\<close> shows that the
  interpreter returns on every arena in which children precede their parents.
\<close>

subsection \<open>Relations kept by execution\<close>

definition direct_targets :: "bool \<Rightarrow> stmt_node \<Rightarrow> nat set" where
  "direct_targets tnb n =
     (case sn_k n of
        blocking_assign \<Rightarrow> {sn_lhs_signal n}
      | blocking_assign_vec \<Rightarrow> set (sn_lhs_signals n)
      | nonblocking_assign \<Rightarrow> if tnb then {sn_lhs_signal n} else {}
      | nonblocking_assign_vec \<Rightarrow> if tnb then set (sn_lhs_signals n) else {}
      | _ \<Rightarrow> {})"

definition arena_targets :: "bool \<Rightarrow> stmt_node list \<Rightarrow> nat set" where
  "arena_targets tnb arena = (\<Union>n \<in> set arena. direct_targets tnb n)"

lemma plain_eq: "plain fs r = Some (c, st, fs') \<longleftrightarrow> r = (c, st) \<and> fs' = fs"
  by (cases r) (auto simp: plain_def)

locale exec_rel =
  fixes m :: compiled_module
    and R :: "bool \<Rightarrow> module_state \<Rightarrow> module_state \<Rightarrow> bool"
    and W :: "nat set"
  assumes R_refl: "R False st st"
    and R_comp: "R c s0 st \<Longrightarrow> R d st st1 \<Longrightarrow> R (d \<or> c) s0 st1"
    and R_eval: "R c s0 st \<Longrightarrow> R c s0 (snd (eval_in m root st))"
    and R_assign: "sig \<in> W \<Longrightarrow> R c s0 st \<Longrightarrow>
      R (fst (assign_signal st sig v) \<or> c) s0 (snd (assign_signal st sig v))"
    and R_nba: "R c s0 st \<Longrightarrow> R c s0 (push_nba sig v st)"
    and R_event: "R c s0 st \<Longrightarrow> R c s0 (push_event ev st)"
begin

definition keeps :: "executor \<Rightarrow> bool" where
  "keeps self \<longleftrightarrow> (\<forall>idx st fs c st' fs'. self idx st fs = Some (c, st', fs') \<longrightarrow> R c st st')"

lemma keeps_comp:
  "keeps self \<Longrightarrow> self idx st fs = Some (d, st', fs') \<Longrightarrow> R c s0 st \<Longrightarrow> R (d \<or> c) s0 st'"
  unfolding keeps_def using R_comp by blast

lemma eval_R: "eval_in m root st = (v, st') \<Longrightarrow> R c s0 st \<Longrightarrow> R c s0 st'"
  using R_eval [of c s0 st root] by simp

lemma assign_R: "assign_signal st sig v = (d, st') \<Longrightarrow> sig \<in> W \<Longrightarrow> R c s0 st \<Longrightarrow> R (d \<or> c) s0 st'"
  using R_assign [of sig c s0 st v] by simp

lemma sample_roots_R: "sample_roots m rs st = (vs, st') \<Longrightarrow> R c s0 st \<Longrightarrow> R c s0 st'"
  by (induction rs arbitrary: st vs) (auto dest: eval_R split: prod.splits)

lemma assign_all_R:
  "assign_all svs c st = (c', st') \<Longrightarrow> set (map fst svs) \<subseteq> W \<Longrightarrow> R c s0 st \<Longrightarrow> R c' s0 st'"
proof (induction svs arbitrary: c st)
  case Nil
  then show ?case by simp
next
  case (Cons sv svs)
  obtain sig v where sv: "sv = (sig, v)" by (cases sv)
  obtain d st1 where 1: "assign_signal st sig v = (d, st1)" by fastforce
  show ?case
    using Cons.prems Cons.IH [of c st] Cons.IH [of "d \<or> c" st1] assign_R [OF 1]
    by (auto simp: sv 1 split: if_splits)
qed

lemma nba_roots_R: "R c s0 st \<Longrightarrow> R c s0 (nba_roots m srs st)"
proof (induction srs arbitrary: st)
  case Nil
  then show ?case by simp
next
  case (Cons sr srs)
  obtain sig r where sr: "sr = (sig, r)" by (cases sr)
  obtain v st1 where 1: "eval_in m r st = (v, st1)" by fastforce
  show ?case using Cons eval_R [OF 1] R_nba by (simp add: sr 1)
qed

lemma match_roots_R: "match_roots m ck ks rs st = (ok, st') \<Longrightarrow> R c s0 st \<Longrightarrow> R c s0 st'"
proof (induction ks arbitrary: rs st)
  case Nil
  then show ?case by simp
next
  case (Cons k ks)
  show ?case
  proof (cases rs)
    case Nil
    then show ?thesis using Cons.prems by simp
  next
    case rs: (Cons r rs')
    obtain v st1 where 1: "eval_in m r st = (v, st1)" by fastforce
    show ?thesis using Cons eval_R [OF 1] by (auto simp: rs 1 split: if_splits)
  qed
qed

lemma find_case_R: "find_case m ck key d cis st = (ch, st') \<Longrightarrow> R c s0 st \<Longrightarrow> R c s0 st'"
proof (induction cis arbitrary: d st)
  case Nil
  then show ?case by simp
next
  case (Cons ci cis)
  obtain ok st1 where 1: "match_roots m ck key (ci_match_roots ci) st = (ok, st1)" by fastforce
  show ?case using Cons match_roots_R [OF 1] by (auto simp: 1 split: if_splits)
qed

lemma exec_seq_R:
  assumes "keeps self"
  shows "exec_seq self subs c st fs = Some (c', st', fs') \<Longrightarrow> R c s0 st \<Longrightarrow> R c' s0 st'"
proof (induction subs arbitrary: c st fs)
  case Nil
  then show ?case by simp
next
  case (Cons sub subs)
  show ?case
  proof (cases "flow_active fs")
    case True
    then show ?thesis using Cons.prems by simp
  next
    case False
    then obtain c1 st1 fs1 where 1: "self sub st fs = Some (c1, st1, fs1)"
        and 2: "exec_seq self subs (c1 \<or> c) st1 fs1 = Some (c', st', fs')"
      using Cons.prems by (auto split: Option.bind_splits)
    show ?thesis using Cons.IH [OF 2] keeps_comp [OF assms 1] Cons.prems(2) by blast
  qed
qed

lemma exec_opt_R:
  assumes "keeps self" and "exec_opt self idx c st fs = Some (c', st', fs')" and "R c s0 st"
  shows "R c' s0 st'"
proof (cases "idx = SIZE_MAX")
  case True
  then show ?thesis using assms by (simp add: exec_opt_def)
next
  case False
  then obtain d where "self idx st fs = Some (d, st', fs')" "c' = (d \<or> c)"
    using assms(2) by (auto simp: exec_opt_def split: Option.bind_splits)
  then show ?thesis using keeps_comp [OF assms(1) _ assms(3)] by blast
qed

lemma for_loop_R:
  assumes "keeps self"
  shows "for_loop self m n k c st fs = Some (c', st', fs') \<Longrightarrow> R c s0 st \<Longrightarrow> R c' s0 st'"
proof (induction k arbitrary: c st fs)
  case 0
  then show ?case by simp
next
  case (Suc k)
  obtain v st1 where ev: "eval_in m (sn_expr_root n) st = (v, st1)" by fastforce
  note R1 = eval_R [OF ev Suc.prems(2)]
  consider (stop) "fs = Some flow_ret \<or> fs = Some flow_brk" | (cont) "fs = Some flow_cont"
    | (exit) "fs \<noteq> Some flow_ret" "fs \<noteq> Some flow_brk" "fs \<noteq> Some flow_cont"
        "normalize_z_to_x v \<noteq> true_state"
    | (iter) "fs \<noteq> Some flow_ret" "fs \<noteq> Some flow_brk" "fs \<noteq> Some flow_cont"
        "normalize_z_to_x v = true_state"
    by blast
  then show ?case
  proof cases
    case stop
    then show ?thesis using Suc.prems by auto
  next
    case cont
    then obtain c1 st2 fs1 where 1: "exec_opt self (sn_step_stmt n) c st (Some flow_none) = Some (c1, st2, fs1)"
        and 2: "for_loop self m n k c1 st2 fs1 = Some (c', st', fs')"
      using Suc.prems by (auto split: Option.bind_splits)
    show ?thesis using Suc.IH [OF 2 exec_opt_R [OF assms 1 Suc.prems(2)]] .
  next
    case exit
    then show ?thesis using Suc.prems ev R1 by simp
  next
    case iter
    then obtain c2 st2 fs2 where 2: "exec_opt self (sn_body_stmt n) c st1 fs = Some (c2, st2, fs2)"
      and rest: "(if fs2 = Some flow_ret then Some (c2, st2, fs2)
         else if fs2 = Some flow_brk then Some (c2, st2, Some flow_none)
         else exec_opt self (sn_step_stmt n) c2 st2 (clear_cont fs2) \<bind>
           (\<lambda>(c3, st3, fs3). for_loop self m n k c3 st3 fs3)) = Some (c', st', fs')"
      using Suc.prems ev by (auto split: Option.bind_splits)
    note R2 = exec_opt_R [OF assms 2 R1]
    show ?thesis
      using rest R2 Suc.IH [OF _ exec_opt_R [OF assms _ R2]]
      by (auto split: if_splits Option.bind_splits)
  qed
qed

lemma while_loop_R:
  assumes "keeps self"
  shows "while_loop self m n k c st fs = Some (c', st', fs') \<Longrightarrow> R c s0 st \<Longrightarrow> R c' s0 st'"
proof (induction k arbitrary: c st fs)
  case 0
  then show ?case by simp
next
  case (Suc k)
  obtain v st1 where ev: "eval_in m (sn_expr_root n) st = (v, st1)" by fastforce
  note R1 = eval_R [OF ev Suc.prems(2)]
  show ?case
  proof (cases "fs = Some flow_ret \<or> fs = Some flow_brk \<or> normalize_z_to_x v \<noteq> true_state")
    case True
    then show ?thesis using Suc.prems ev R1 by (auto split: if_splits)
  next
    case False
    then obtain c2 st2 fs2 where 2: "exec_opt self (sn_body_stmt n) c st1 (clear_cont fs) = Some (c2, st2, fs2)"
      and rest: "(if fs2 = Some flow_ret then Some (c2, st2, fs2)
         else if fs2 = Some flow_brk then Some (c2, st2, Some flow_none)
         else while_loop self m n k c2 st2 (clear_cont fs2)) = Some (c', st', fs')"
      using Suc.prems ev by (auto split: Option.bind_splits)
    note R2 = exec_opt_R [OF assms 2 R1]
    show ?thesis using rest R2 Suc.IH [OF _ R2] by (auto split: if_splits)
  qed
qed

lemma do_while_loop_R:
  assumes "keeps self"
  shows "do_while_loop self m n k c st fs = Some (c', st', fs') \<Longrightarrow> R c s0 st \<Longrightarrow> R c' s0 st'"
proof (induction k arbitrary: c st fs)
  case 0
  then show ?case by simp
next
  case (Suc k)
  show ?case
  proof (cases "fs = Some flow_ret \<or> fs = Some flow_brk")
    case True
    then show ?thesis using Suc.prems by auto
  next
    case False
    then obtain c2 st2 fs2 where 2: "exec_opt self (sn_body_stmt n) c st (clear_cont fs) = Some (c2, st2, fs2)"
      and rest: "(if fs2 = Some flow_ret then Some (c2, st2, fs2)
         else if fs2 = Some flow_brk then Some (c2, st2, Some flow_none)
         else (let (v, st3) = eval_in m (sn_expr_root n) st2
               in if normalize_z_to_x v \<noteq> true_state then Some (c2, st3, clear_cont fs2)
                  else do_while_loop self m n k c2 st3 (clear_cont fs2))) = Some (c', st', fs')"
      using Suc.prems by (auto split: Option.bind_splits)
    obtain v st3 where ev: "eval_in m (sn_expr_root n) st2 = (v, st3)" by fastforce
    note R2 = exec_opt_R [OF assms 2 Suc.prems(2)]
    note R3 = eval_R [OF ev R2]
    show ?thesis using rest ev R2 R3 Suc.IH [OF _ R3] by (auto split: if_splits)
  qed
qed

lemma blocking_R:
  assumes "exec_blocking_assign m n tick st = (c, st')" and "sn_lhs_signal n \<in> W"
  shows "R c st st'"
proof -
  obtain v st1 where 1: "eval_in m (sn_expr_root n) st = (v, st1)" by fastforce
  show ?thesis
    using assms assign_R [OF _ assms(2) eval_R [OF 1 R_refl]] R_refl R_event [OF R_refl]
    by (auto simp: exec_blocking_assign_def 1 split: if_splits)
qed

lemma blocking_vec_R:
  assumes "exec_blocking_assign_vec m n tick st = (c, st')" and "set (sn_lhs_signals n) \<subseteq> W"
  shows "R c st st'"
proof -
  obtain vs st1 where 1: "sample_roots m (sn_rhs_roots n) st = (vs, st1)" by fastforce
  have "set (map fst (zip (sn_lhs_signals n) vs)) \<subseteq> W"
    using assms(2) by (auto dest: set_zip_leftD)
  from assign_all_R [OF _ this sample_roots_R [OF 1 R_refl]] show ?thesis
    using assms(1) R_refl R_event [OF R_refl]
    by (auto simp: exec_blocking_assign_vec_def 1 split: if_splits)
qed

lemma nonblocking_R:
  assumes "exec_nonblocking_assign m n tick tnb st = (c, st')" and "tnb \<Longrightarrow> sn_lhs_signal n \<in> W"
  shows "R c st st'"
proof -
  obtain v st1 where 1: "eval_in m (sn_expr_root n) st = (v, st1)" by fastforce
  show ?thesis
    using assms R_nba [OF eval_R [OF 1 R_refl]] R_refl R_event [OF R_refl] blocking_R
    by (auto simp: exec_nonblocking_assign_def 1 split: if_splits)
qed

lemma nonblocking_vec_R:
  assumes "exec_nonblocking_assign_vec m n tick tnb st = (c, st')"
    and "tnb \<Longrightarrow> set (sn_lhs_signals n) \<subseteq> W"
  shows "R c st st'"
  using assms R_refl R_event [OF R_refl] nba_roots_R [OF R_refl] blocking_vec_R
  by (auto simp: exec_nonblocking_assign_vec_def split: if_splits)

lemma exec_case_R:
  assumes "keeps self" and "exec_case self m n st fs = Some (c', st', fs')"
  shows "R c' st st'"
proof -
  obtain key st1 where 1: "case_key m n st = (key, st1)" by fastforce
  obtain ch st2 where 2: "find_case m (sn_ck n) key None (sn_case_items n) st1 = (ch, st2)" by fastforce
  have "R False st st1"
    using 1 R_refl sample_roots_R [OF _ R_refl] by (auto simp: case_key_def split: if_splits)
  note R2 = find_case_R [OF 2 this]
  show ?thesis
    using assms(2) R2 exec_seq_R [OF assms(1) _ R2] by (auto simp: exec_case_def 1 2 split: option.splits)
qed

lemma exec_if_R:
  assumes "keeps self" and "exec_if self m n st fs = Some (c', st', fs')"
  shows "R c' st st'"
proof -
  obtain v st1 where 1: "eval_in m (sn_expr_root n) st = (v, st1)" by fastforce
  show ?thesis
    using assms(2) exec_seq_R [OF assms(1) _ eval_R [OF 1 R_refl]]
    by (auto simp: exec_if_def 1 Let_def)
qed

lemma exec_for_R:
  assumes "keeps self" and "exec_for self m n st fs = Some (c', st', fs')"
  shows "R c' st st'"
  using assms(2) for_loop_R [OF assms(1) _ exec_opt_R [OF assms(1) _ R_refl]]
  by (auto simp: exec_for_def split: Option.bind_splits)

lemma exec_node_R:
  assumes "keeps self" and "direct_targets tnb n \<subseteq> W"
    and "exec_node self m tick tnb n st fs = Some (c', st', fs')"
  shows "R c' st st'"
proof (cases "sn_k n")
  case subprogram_block
  then show ?thesis
    using assms(3) exec_seq_R [OF assms(1) _ R_refl]
    by (auto simp: exec_node_def exec_subprogram_def split: Option.bind_splits)
next
  case nonblocking_assign
  then show ?thesis
    using assms nonblocking_R [of n tick tnb st c' st']
    by (auto simp: exec_node_def plain_eq direct_targets_def split: if_splits)
next
  case nonblocking_assign_vec
  then show ?thesis
    using assms nonblocking_vec_R [of n tick tnb st c' st']
    by (auto simp: exec_node_def plain_eq direct_targets_def split: if_splits)
qed (use assms R_refl exec_seq_R [OF assms(1) _ R_refl] exec_case_R [OF assms(1)]
      exec_if_R [OF assms(1)] exec_for_R [OF assms(1)]
      while_loop_R [OF assms(1) _ R_refl] do_while_loop_R [OF assms(1) _ R_refl]
      blocking_R [of n tick st c' st'] blocking_vec_R [of n tick st c' st']
    in \<open>auto simp: exec_node_def plain_eq direct_targets_def\<close>)

lemma exec_stmt_keeps:
  assumes "arena_targets tnb arena \<subseteq> W"
  shows "keeps (exec_stmt fuel m arena tick tnb)"
proof (induction fuel)
  case 0
  then show ?case by (simp add: keeps_def)
next
  case (Suc fuel)
  have "direct_targets tnb (arena ! i) \<subseteq> W" if "i < length arena" for i
    using assms that by (fastforce simp: arena_targets_def)
  then show ?case
    unfolding keeps_def
    using R_refl exec_node_R [OF Suc.IH, of tnb _ tick]
    by (metis (no_types, lifting) exec_stmt.simps(2) linorder_not_less option.inject prod.inject)
qed

lemma exec_stmt_R:
  "arena_targets tnb arena \<subseteq> W \<Longrightarrow> exec_stmt fuel m arena tick tnb idx st fs = Some (c, st', fs') \<Longrightarrow>
     R c st st'"
  using exec_stmt_keeps unfolding keeps_def by blast

end

subsection \<open>Interpretations on the interpreter\<close>

text \<open>The state invariant.\<close>

definition inv_rel :: "compiled_module \<Rightarrow> module_state \<Rightarrow> module_state \<Rightarrow> bool" where
  "inv_rel m st st' \<longleftrightarrow> (wf_arena (m_expr_nodes m) \<longrightarrow> st_inv st \<longrightarrow> st_inv st')"

lemma push_inv [inv_intros]:
  "st_inv st \<Longrightarrow> st_inv (push_nba sig v st)"
  "st_inv st \<Longrightarrow> st_inv (push_event ev st)"
  by (auto simp: st_inv_def push_nba_def push_event_def)

interpretation exec_inv: exec_rel m "\<lambda>_. inv_rel m" UNIV for m
  by unfold_locales (auto simp: inv_rel_def intro: inv_intros eval_in_deval(2))

text \<open>The fields no statement touches, and the sizes of the value vectors.\<close>

definition same_shape :: "module_state \<Rightarrow> module_state \<Rightarrow> bool" where
  "same_shape st st' \<longleftrightarrow>
     st_mod st' = st_mod st \<and> length (st_values st') = length (st_values st) \<and>
     st_prev_values st' = st_prev_values st \<and> st_comb_prev_values st' = st_comb_prev_values st \<and>
     st_comb_initialized st' = st_comb_initialized st \<and> st_initial_ran st' = st_initial_ran st \<and>
     st_initial_base_tick st' = st_initial_base_tick st \<and>
     st_next_net_values st' = st_next_net_values st \<and>
     st_change_token st' = st_change_token st"

interpretation exec_shape: exec_rel m "\<lambda>_. same_shape" UNIV for m
  by unfold_locales
    (auto simp: same_shape_def frame_simps assign_signal_values push_nba_def push_event_def)

text \<open>Signals outside the assignment targets keep their values.\<close>

definition writes_only :: "nat set \<Rightarrow> module_state \<Rightarrow> module_state \<Rightarrow> bool" where
  "writes_only W st st' \<longleftrightarrow>
     length (st_values st') = length (st_values st) \<and>
     (\<forall>i. i \<notin> W \<longrightarrow> st_values st' ! i = st_values st ! i)"

interpretation exec_writes: exec_rel m "\<lambda>_. writes_only W" W for m W
  by unfold_locales
    (auto simp: writes_only_def frame_simps assign_signal_values push_nba_def push_event_def)

text \<open>Deferred updates are only appended.\<close>

definition queues_grow :: "module_state \<Rightarrow> module_state \<Rightarrow> bool" where
  "queues_grow st st' \<longleftrightarrow>
     (\<exists>q. st_nba_queue st' = st_nba_queue st @ q) \<and> (\<exists>e. st_events st' = st_events st @ e)"

interpretation exec_queues: exec_rel m "\<lambda>_. queues_grow" UNIV for m
  by unfold_locales (force simp: queues_grow_def frame_simps push_nba_def push_event_def)+

text \<open>The change flag: a statement that reports no change left every value alone.\<close>

definition flag_sound :: "bool \<Rightarrow> module_state \<Rightarrow> module_state \<Rightarrow> bool" where
  "flag_sound c st st' \<longleftrightarrow> c \<or> st_values st' = st_values st"

interpretation exec_flag: exec_rel m flag_sound UNIV for m
  by unfold_locales
    (auto simp: flag_sound_def frame_simps assign_signal_values assign_signal_changed push_nba_def
      push_event_def dest: list_update_neq)

subsection \<open>The interpreter returns\<close>

definition stmt_children :: "stmt_node \<Rightarrow> nat set" where
  "stmt_children n =
     (case sn_k n of
        block \<Rightarrow> set (sn_stmts n)
      | subprogram_block \<Rightarrow> set (sn_stmts n)
      | if_stmt \<Rightarrow> set (sn_stmts n) \<union> set (sn_else_stmts n)
      | case_stmt \<Rightarrow> (\<Union>ci \<in> set (sn_case_items n). set (ci_stmts ci))
      | for_stmt \<Rightarrow> {sn_init_stmt n, sn_step_stmt n, sn_body_stmt n} - {SIZE_MAX}
      | while_stmt \<Rightarrow> {sn_body_stmt n} - {SIZE_MAX}
      | do_while_stmt \<Rightarrow> {sn_body_stmt n} - {SIZE_MAX}
      | _ \<Rightarrow> {})"

definition wf_stmts :: "stmt_node list \<Rightarrow> bool" where
  "wf_stmts arena \<longleftrightarrow> (\<forall>i < length arena. \<forall>c \<in> stmt_children (arena ! i). c < i)"

definition returns_on :: "nat set \<Rightarrow> executor \<Rightarrow> bool" where
  "returns_on C self \<longleftrightarrow> (\<forall>c \<in> C. \<forall>st fs. self c st fs \<noteq> None)"

lemma returns_onD: "returns_on C self \<Longrightarrow> c \<in> C \<Longrightarrow> \<exists>r. self c st fs = Some r"
  by (auto simp: returns_on_def)

lemma returns_on_mono: "returns_on C self \<Longrightarrow> D \<subseteq> C \<Longrightarrow> returns_on D self"
  by (auto simp: returns_on_def)

lemma exec_seq_returns: "returns_on (set subs) self \<Longrightarrow> exec_seq self subs c st fs \<noteq> None"
proof (induction subs arbitrary: c st fs)
  case Nil
  then show ?case by simp
next
  case (Cons sub subs)
  obtain c1 st1 fs1 where "self sub st fs = Some (c1, st1, fs1)"
    using returns_onD [OF Cons.prems, of sub st fs] by auto
  moreover have "returns_on (set subs) self"
    using Cons.prems by (rule returns_on_mono) auto
  ultimately show ?case using Cons.IH by simp
qed

lemma exec_opt_returns:
  "returns_on ({idx} - {SIZE_MAX}) self \<Longrightarrow> \<exists>c' st' fs'. exec_opt self idx c st fs = Some (c', st', fs')"
  using returns_onD [of "{idx} - {SIZE_MAX}" self idx st fs]
  by (auto simp: exec_opt_def)

lemma for_loop_returns:
  assumes "returns_on ({sn_step_stmt n, sn_body_stmt n} - {SIZE_MAX}) self"
  shows "for_loop self m n k c st fs \<noteq> None"
proof (induction k arbitrary: c st fs)
  case 0
  then show ?case by simp
next
  case (Suc k)
  have step: "\<exists>c' st' fs'. exec_opt self (sn_step_stmt n) c st fs = Some (c', st', fs')" for c st fs
    by (rule exec_opt_returns, rule returns_on_mono [OF assms]) auto
  have body: "\<exists>c' st' fs'. exec_opt self (sn_body_stmt n) c st fs = Some (c', st', fs')" for c st fs
    by (rule exec_opt_returns, rule returns_on_mono [OF assms]) auto
  obtain v st1 where ev: "eval_in m (sn_expr_root n) st = (v, st1)" by fastforce
  obtain c2 st2 fs2 where 2: "exec_opt self (sn_body_stmt n) c st1 fs = Some (c2, st2, fs2)"
    using body by blast
  obtain c3 st3 fs3 where 3: "exec_opt self (sn_step_stmt n) c2 st2 (clear_cont fs2) = Some (c3, st3, fs3)"
    using step by blast
  obtain c4 st4 fs4 where 4: "exec_opt self (sn_step_stmt n) c st (Some flow_none) = Some (c4, st4, fs4)"
    using step by blast
  show ?case using Suc.IH by (simp add: ev 2 3 4)
qed

lemma while_loop_returns:
  assumes "returns_on ({sn_body_stmt n} - {SIZE_MAX}) self"
  shows "while_loop self m n k c st fs \<noteq> None"
proof (induction k arbitrary: c st fs)
  case 0
  then show ?case by simp
next
  case (Suc k)
  obtain v st1 where ev: "eval_in m (sn_expr_root n) st = (v, st1)" by fastforce
  obtain c2 st2 fs2 where 2: "exec_opt self (sn_body_stmt n) c st1 (clear_cont fs) = Some (c2, st2, fs2)"
    using exec_opt_returns [OF assms] by blast
  show ?case using Suc.IH by (simp add: ev 2 Let_def)
qed

lemma do_while_loop_returns:
  assumes "returns_on ({sn_body_stmt n} - {SIZE_MAX}) self"
  shows "do_while_loop self m n k c st fs \<noteq> None"
proof (induction k arbitrary: c st fs)
  case 0
  then show ?case by simp
next
  case (Suc k)
  obtain c2 st2 fs2 where 2: "exec_opt self (sn_body_stmt n) c st (clear_cont fs) = Some (c2, st2, fs2)"
    using exec_opt_returns [OF assms] by blast
  obtain v st3 where ev: "eval_in m (sn_expr_root n) st2 = (v, st3)" by fastforce
  show ?case using Suc.IH by (simp add: ev 2)
qed

lemma find_case_in: "fst (find_case m ck key d cis st) = Some ci \<Longrightarrow> ci \<in> set cis \<or> d = Some ci"
proof (induction cis arbitrary: d st)
  case Nil
  then show ?case by simp
next
  case (Cons c cis)
  obtain ok st1 where 1: "match_roots m ck key (ci_match_roots c) st = (ok, st1)" by fastforce
  show ?case
    using Cons.prems Cons.IH [of "Some c" st] Cons.IH [of d st] Cons.IH [of d st1]
    by (auto simp: 1 split: if_splits)
qed

lemma exec_node_returns:
  assumes "returns_on (stmt_children n) self"
  shows "exec_node self m tick tnb n st fs \<noteq> None"
proof (cases "sn_k n")
  case subprogram_block
  then have "returns_on (set (sn_stmts n)) self" using assms by (simp add: stmt_children_def)
  from exec_seq_returns [OF this, of False st "Some flow_none"]
  obtain c1 st1 fs1 where "exec_seq self (sn_stmts n) False st (Some flow_none) = Some (c1, st1, fs1)"
    by auto
  then show ?thesis
    using subprogram_block by (simp add: exec_node_def exec_subprogram_def)
next
  case if_stmt
  then have "returns_on (set (if b then sn_stmts n else sn_else_stmts n)) self" for b
    using assms by (auto simp: stmt_children_def elim: returns_on_mono)
  from exec_seq_returns [OF this] show ?thesis
    using if_stmt by (simp add: exec_node_def exec_if_def Let_def split: prod.splits)
next
  case case_stmt
  obtain key st1 where 1: "case_key m n st = (key, st1)" by fastforce
  obtain ch st2 where 2: "find_case m (sn_ck n) key None (sn_case_items n) st1 = (ch, st2)" by fastforce
  have "exec_seq self (ci_stmts ci) False st2 fs \<noteq> None" if "ch = Some ci" for ci
  proof (rule exec_seq_returns)
    have "ci \<in> set (sn_case_items n)"
      using find_case_in [of m "sn_ck n" key None "sn_case_items n" st1 ci] 2 that by simp
    then show "returns_on (set (ci_stmts ci)) self"
      using case_stmt assms by (auto simp: stmt_children_def elim!: returns_on_mono)
  qed
  then show ?thesis
    using case_stmt by (auto simp: exec_node_def exec_case_def 1 2 split: option.splits)
next
  case for_stmt
  have init: "returns_on ({sn_init_stmt n} - {SIZE_MAX}) self"
    and rest: "returns_on ({sn_step_stmt n, sn_body_stmt n} - {SIZE_MAX}) self"
    using for_stmt assms by (auto simp: stmt_children_def elim!: returns_on_mono)
  obtain c1 st1 fs1 where "exec_opt self (sn_init_stmt n) False st fs = Some (c1, st1, fs1)"
    using exec_opt_returns [OF init] by blast
  then show ?thesis
    using for_stmt for_loop_returns [OF rest] by (simp add: exec_node_def exec_for_def)
next
  case block
  then show ?thesis
    using assms exec_seq_returns by (simp add: exec_node_def stmt_children_def)
next
  case while_stmt
  then show ?thesis
    using assms while_loop_returns by (simp add: exec_node_def stmt_children_def)
next
  case do_while_stmt
  then show ?thesis
    using assms do_while_loop_returns by (simp add: exec_node_def stmt_children_def)
qed (simp_all add: exec_node_def plain_def)

lemma exec_stmt_returns:
  assumes "wf_stmts arena" and "idx < fuel \<or> length arena \<le> idx \<and> 0 < fuel"
  shows "exec_stmt fuel m arena tick tnb idx st fs \<noteq> None"
  using assms(2)
proof (induction fuel arbitrary: idx st fs)
  case 0
  then show ?case by simp
next
  case (Suc fuel)
  show ?case
  proof (cases "idx < length arena")
    case False
    then show ?thesis by simp
  next
    case True
    have "returns_on (stmt_children (arena ! idx)) (exec_stmt fuel m arena tick tnb)"
      unfolding returns_on_def
    proof (intro ballI allI)
      fix c st fs
      assume "c \<in> stmt_children (arena ! idx)"
      then have "c < idx" using assms(1) True by (auto simp: wf_stmts_def)
      then show "exec_stmt fuel m arena tick tnb c st fs \<noteq> None"
        using Suc.prems True by (intro Suc.IH) auto
    qed
    then show ?thesis using True by (simp add: exec_node_returns)
  qed
qed

end
