(* ===== verification/Instance.thy ===== *)
theory Instance
  imports Stmt_Props
begin

text \<open>
  One node of the instance tree (\<^verbatim>\<open>instance_state\<close> in \<^verbatim>\<open>verilog/digital/digital.h\<close>, without its
  children) and the passes that work on a single node or on a parent and a child: the net
  drivers, the due events, the nonblocking queue, the edge-triggered blocks, the combinational
  blocks and the two directions of port propagation. Passes that run statements return an
  option, as the interpreter does.
\<close>

subsection \<open>The node\<close>

datatype binding_kind = bind_unconnected | bind_parent_signal | bind_literal | bind_parent_expr_root

record port_binding =
  pb_k :: binding_kind
  pb_parent_signal :: nat
  pb_parent_expr_root :: nat
  pb_literal :: logic_t

definition port_binding_default :: port_binding where
  "port_binding_default =
     \<lparr>pb_k = bind_unconnected, pb_parent_signal = SIZE_MAX, pb_parent_expr_root = SIZE_MAX,
      pb_literal = indeterminate_state\<rparr>"

record port_drive =
  dr_parent_signal :: nat
  dr_src_is_literal :: bool
  dr_child_signal :: nat
  dr_literal :: logic_t

record inst_node =
  in_mod :: "compiled_module option"
  in_instance_name :: string
  in_state :: module_state
  in_driven_nets :: "bool list"
  in_bindings :: "port_binding list"
  in_output_drives :: "port_drive list"

definition is_reg :: "compiled_module \<Rightarrow> nat \<Rightarrow> bool" where
  "is_reg m sig \<longleftrightarrow> sig < length (m_signal_is_reg m) \<and> m_signal_is_reg m ! sig"

definition upd_state :: "(module_state \<Rightarrow> module_state) \<Rightarrow> inst_node \<Rightarrow> inst_node" where
  "upd_state f n = n\<lparr>in_state := f (in_state n)\<rparr>"

subsection \<open>Net drivers\<close>

definition mark_assigned :: "compiled_module \<Rightarrow> bool list \<Rightarrow> continuous_assign \<Rightarrow> bool list" where
  "mark_assigned m driven a =
     (if ca_lhs_signal a \<ge> length driven then driven
      else if is_reg m (ca_lhs_signal a) then driven
      else driven[ca_lhs_signal a := True])"

definition init_driven_nets_from_assigns :: "inst_node \<Rightarrow> inst_node" where
  "init_driven_nets_from_assigns n =
     (case in_mod n of
        None \<Rightarrow> n
      | Some m \<Rightarrow> n\<lparr>in_driven_nets :=
          foldl (mark_assigned m) (replicate (length (m_signal_names m)) False) (m_assigns m)\<rparr>)"

definition clear_driven :: "bool list \<Rightarrow> nat \<Rightarrow> logic_t list \<Rightarrow> logic_t list" where
  "clear_driven driven n nets =
     foldl (\<lambda>ns i. if driven ! i then ns[i := high_impedence_state] else ns) nets [0..<n]"

definition prepare_net_drives :: "inst_node \<Rightarrow> inst_node" where
  "prepare_net_drives n =
     (case in_mod n of
        None \<Rightarrow> n
      | Some m \<Rightarrow>
          (let st = in_state n; k = length (st_values st);
               nets = grow_to high_impedence_state k (st_next_net_values st);
               driven = grow_to False k (in_driven_nets n)
           in n\<lparr>in_driven_nets := driven,
                in_state := st\<lparr>st_next_net_values := clear_driven driven k nets\<rparr>\<rparr>))"

definition drive_signal_next :: "inst_node \<Rightarrow> nat \<Rightarrow> logic_t \<Rightarrow> inst_node" where
  "drive_signal_next n sig v =
     (case in_mod n of
        None \<Rightarrow> n
      | Some m \<Rightarrow>
          (let st = in_state n in
           if sig \<ge> length (st_values st) then n
           else if is_reg m sig then n\<lparr>in_state := snd (assign_signal st sig v)\<rparr>
           else if sig \<ge> length (in_driven_nets n) \<or> \<not> in_driven_nets n ! sig
           then n\<lparr>in_state := snd (assign_signal st sig v)\<rparr>
           else
             (let nets = grow_to high_impedence_state (length (st_values st)) (st_next_net_values st)
              in n\<lparr>in_state := st\<lparr>st_next_net_values :=
                     nets[sig := resolve_net_drivers (nets ! sig) v]\<rparr>\<rparr>)))"

fun apply_drives :: "compiled_module \<Rightarrow> bool list \<Rightarrow> nat list \<Rightarrow> bool \<Rightarrow> module_state \<Rightarrow>
    bool \<times> module_state" where
  "apply_drives m driven [] changed st = (changed, st)"
| "apply_drives m driven (i # is) changed st =
     (if \<not> driven ! i then apply_drives m driven is changed st
      else if is_reg m i then apply_drives m driven is changed st
      else let (c, st1) = assign_signal st i (st_next_net_values st ! i)
           in apply_drives m driven is (c \<or> changed) st1)"

definition apply_net_drives :: "inst_node \<Rightarrow> bool \<times> inst_node" where
  "apply_net_drives n =
     (case in_mod n of
        None \<Rightarrow> (False, n)
      | Some m \<Rightarrow>
          (let st = in_state n; k = length (st_values st) in
           if length (st_next_net_values st) < k \<or> length (in_driven_nets n) < k then (False, n)
           else let (c, st1) = apply_drives m (in_driven_nets n) [0..<k] False st
                in (c, n\<lparr>in_state := st1\<rparr>)))"

subsection \<open>Due events and the nonblocking queue\<close>

fun nba_all :: "(nat \<times> logic_t) list \<Rightarrow> module_state \<Rightarrow> module_state" where
  "nba_all [] st = st"
| "nba_all ((sig, v) # svs) st =
     (if sig \<ge> length (st_values st) then nba_all svs st else nba_all svs (push_nba sig v st))"

definition run_vector_event :: "compiled_module \<Rightarrow> scheduled_event \<Rightarrow> module_state \<Rightarrow> module_state" where
  "run_vector_event m ev st =
     (if length (ev_lhs_signals ev) \<noteq> length (ev_expr_roots ev) then st
      else if ev_lhs_signals ev = [] then st
      else
        (let (sampled, st1) = sample_roots m (ev_expr_roots ev) st
         in if ev_nonblocking ev then nba_all (zip (ev_lhs_signals ev) sampled) st1
            else snd (assign_all (zip (ev_lhs_signals ev) sampled) False st1)))"

definition run_event :: "compiled_module \<Rightarrow> scheduled_event \<Rightarrow> module_state \<Rightarrow> module_state" where
  "run_event m ev st =
     (if ev_is_vector ev then run_vector_event m ev st
      else if ev_lhs_signal ev \<ge> length (st_values st) then st
      else
        (let (v, st1) = eval_in m (ev_expr_root ev) st
         in if ev_nonblocking ev then push_nba (ev_lhs_signal ev) v st1
            else snd (assign_signal st1 (ev_lhs_signal ev) v)))"

fun fire_events :: "compiled_module \<Rightarrow> u64 \<Rightarrow> scheduled_event list \<Rightarrow> scheduled_event list \<Rightarrow>
    module_state \<Rightarrow> scheduled_event list \<times> module_state" where
  "fire_events m tick [] keep st = (keep, st)"
| "fire_events m tick (ev # evs) keep st =
     (if ev_due_tick ev > tick then fire_events m tick evs (keep @ [ev]) st
      else fire_events m tick evs keep (run_event m ev st))"

definition process_due_events :: "module_state \<Rightarrow> u64 \<Rightarrow> module_state" where
  "process_due_events st tick =
     (case st_mod st of
        None \<Rightarrow> st
      | Some m \<Rightarrow>
          (let (keep, st1) = fire_events m tick (st_events st) [] st in st1\<lparr>st_events := keep\<rparr>))"

fun nba_assign :: "(nat \<times> logic_t) list \<Rightarrow> bool \<Rightarrow> module_state \<Rightarrow> bool \<times> module_state" where
  "nba_assign [] changed st = (changed, st)"
| "nba_assign ((lhs, v) # q) changed st =
     (let (c, st1) = assign_signal st lhs v in nba_assign q (c \<or> changed) st1)"

definition apply_nba :: "module_state \<Rightarrow> bool \<times> module_state" where
  "apply_nba st =
     (let (changed, st1) = nba_assign (st_nba_queue st) False st
      in (changed, st1\<lparr>st_nba_queue := []\<rparr>))"

subsection \<open>The random-number bus\<close>

definition find_sig :: "compiled_module \<Rightarrow> string \<Rightarrow> nat" where
  "find_sig m nm = (case m_signal_index m nm of None \<Rightarrow> SIZE_MAX | Some i \<Rightarrow> i)"

definition poke :: "nat \<Rightarrow> logic_t \<Rightarrow> module_state \<Rightarrow> module_state" where
  "poke sig v st =
     (if sig < length (st_values st) then st\<lparr>st_values := (st_values st)[sig := v]\<rparr> else st)"

definition set_bus :: "nat list \<Rightarrow> logic_t \<Rightarrow> module_state \<Rightarrow> module_state" where
  "set_bus bits v st = foldl (\<lambda>s sig. poke sig v s) st bits"

fun read_bus :: "module_state \<Rightarrow> nat list \<Rightarrow> nat \<Rightarrow> u8 \<Rightarrow> u8 option" where
  "read_bus st [] k acc = Some acc"
| "read_bus st (sig # sigs) k acc =
     (if sig \<ge> length (st_values st) then None
      else
        (let v = normalize_z_to_x (st_values st ! sig) in
         if is_unknown v then None
         else read_bus st sigs (k + 1)
                (if v = true_state then or acc (push_bit (3 - k) 1) else acc)))"

definition lfsr_next :: "u8 \<Rightarrow> u8" where
  "lfsr_next s =
     (let b3 = bit s 3; b2 = bit s 2; feedback = ((b3 \<noteq> b2) \<noteq> True)
      in or (and (push_bit 1 s) 0x0E) (of_bool feedback))"

fun write_bus :: "nat list \<Rightarrow> nat \<Rightarrow> u8 \<Rightarrow> module_state \<Rightarrow> module_state" where
  "write_bus [] k w st = st"
| "write_bus (sig # sigs) k w st =
     write_bus sigs (k + 1) w (poke sig (of_bool_state (bit w (3 - k))) st)"

definition is_posedge :: "logic_t \<Rightarrow> logic_t \<Rightarrow> bool" where
  "is_posedge prev now \<longleftrightarrow>
     normalize_z_to_x prev = false_state \<and> normalize_z_to_x now = true_state"

definition is_negedge :: "logic_t \<Rightarrow> logic_t \<Rightarrow> bool" where
  "is_negedge prev now \<longleftrightarrow>
     normalize_z_to_x prev = true_state \<and> normalize_z_to_x now = false_state"

definition reset_level :: "compiled_module \<Rightarrow> module_state \<Rightarrow> logic_t" where
  "reset_level m st =
     (let rst_sig0 = find_sig m ''rst_n''; rst_sig1 = find_sig m ''reset_n'';
          rst_sig = (if rst_sig0 \<noteq> SIZE_MAX then rst_sig0 else rst_sig1);
          rstn = (if rst_sig \<noteq> SIZE_MAX \<and> rst_sig < length (st_values st)
                  then (if st_values st ! rst_sig = high_impedence_state then true_state
                        else st_values st ! rst_sig)
                  else true_state)
      in normalize_z_to_x rstn)"

definition urandom_update :: "compiled_module \<Rightarrow> module_state \<Rightarrow> module_state" where
  "urandom_update m st =
     (case m_vectors m ''$urandom'' of
        None \<Rightarrow> st
      | Some vd \<Rightarrow>
          if length (vd_bits vd) \<noteq> 4 then st
          else
            (let clk_sig = find_sig m ''clk''; rstn = reset_level m st in
             if rstn = false_state then set_bus (vd_bits vd) false_state st
             else if is_unknown rstn then set_bus (vd_bits vd) indeterminate_state st
             else if clk_sig \<noteq> SIZE_MAX \<and> clk_sig < length (st_values st) \<and>
                     clk_sig < length (st_prev_values st) \<and>
                     is_posedge (st_prev_values st ! clk_sig) (st_values st ! clk_sig)
             then (case read_bus st (vd_bits vd) 0 0 of
                     None \<Rightarrow> set_bus (vd_bits vd) indeterminate_state st
                   | Some s \<Rightarrow> write_bus (vd_bits vd) 0 (lfsr_next s) st)
             else st))"

subsection \<open>Edge-triggered and combinational blocks\<close>

definition event_fires :: "module_state \<Rightarrow> sensitivity_event \<Rightarrow> bool" where
  "event_fires st ev \<longleftrightarrow>
     se_signal ev < length (st_values st) \<and> se_signal ev < length (st_prev_values st) \<and>
     (let prev = st_prev_values st ! se_signal ev; now = st_values st ! se_signal ev
      in case se_k ev of
           posedge \<Rightarrow> is_posedge prev now
         | negedge \<Rightarrow> is_negedge prev now
         | level \<Rightarrow> prev \<noteq> now)"

text \<open>The root statements of a block, each with a flow state of its own. Statement arenas have
  no path longer than their length, which is the depth bound given to the interpreter.\<close>

fun run_roots :: "compiled_module \<Rightarrow> stmt_node list \<Rightarrow> u64 \<Rightarrow> nat list \<Rightarrow> bool \<Rightarrow> module_state \<Rightarrow>
    (bool \<times> module_state) option" where
  "run_roots m arena tick [] changed st = Some (changed, st)"
| "run_roots m arena tick (root # roots) changed st =
     do {(c, st1, fs) \<leftarrow> exec_stmt (Suc (length arena)) m arena tick False root st (Some flow_none);
         run_roots m arena tick roots (c \<or> changed) st1}"

fun run_ffs :: "compiled_module \<Rightarrow> u64 \<Rightarrow> always_ff list \<Rightarrow> module_state \<Rightarrow> module_state option" where
  "run_ffs m tick [] st = Some st"
| "run_ffs m tick (ff # ffs) st =
     (if list_ex (event_fires st) (ff_events ff)
      then do {(c, st1) \<leftarrow> run_roots m (ff_stmt_nodes ff) tick (ff_roots ff) False st;
               run_ffs m tick ffs st1}
      else run_ffs m tick ffs st)"

definition run_sequential :: "inst_node \<Rightarrow> u64 \<Rightarrow> inst_node option" where
  "run_sequential n tick =
     (case in_mod n of
        None \<Rightarrow> Some n
      | Some m \<Rightarrow>
          do {st1 \<leftarrow> run_ffs m tick (m_always_ffs m) (urandom_update m (in_state n));
              Some (n\<lparr>in_state := st1\<rparr>)})"

definition comb_runs :: "u32 \<Rightarrow> bool \<Rightarrow> always_comb \<Rightarrow> module_state \<Rightarrow> bool" where
  "comb_runs trigger_token any_triggered ac st =
     (if ac_is_star ac then any_triggered
      else list_ex (\<lambda>sig. sig < length (st_change_mark st) \<and> st_change_mark st ! sig = trigger_token)
             (ac_sens_signals ac))"

fun run_combs :: "compiled_module \<Rightarrow> u64 \<Rightarrow> u32 \<Rightarrow> bool \<Rightarrow> always_comb list \<Rightarrow> bool \<Rightarrow> module_state \<Rightarrow>
    (bool \<times> module_state) option" where
  "run_combs m tick tok any [] changed st = Some (changed, st)"
| "run_combs m tick tok any (ac # acs) changed st =
     (if comb_runs tok any ac st
      then do {(c, st1) \<leftarrow> run_roots m (ac_stmt_nodes ac) tick (ac_roots ac) changed st;
               run_combs m tick tok any acs c st1}
      else run_combs m tick tok any acs changed st)"

definition run_assign :: "compiled_module \<Rightarrow> continuous_assign \<Rightarrow> inst_node \<Rightarrow> inst_node" where
  "run_assign m a n =
     (let (go, st1) =
            (if ca_guard_root a \<noteq> SIZE_MAX
             then (let (c, s) = eval_in m (ca_guard_root a) (in_state n)
                   in (normalize_z_to_x c = true_state, s))
             else (True, in_state n))
      in if \<not> go then n\<lparr>in_state := st1\<rparr>
         else let (v, st2) = eval_in m (ca_expr_root a) st1
              in drive_signal_next (n\<lparr>in_state := st2\<rparr>) (ca_lhs_signal a) v)"

definition run_comb_local :: "inst_node \<Rightarrow> u64 \<Rightarrow> u32 \<Rightarrow> bool \<Rightarrow> (bool \<times> inst_node) option" where
  "run_comb_local n tick trigger_token any_triggered =
     (case in_mod n of
        None \<Rightarrow> Some (False, n)
      | Some m \<Rightarrow>
          do {(changed, st1) \<leftarrow> run_combs m tick trigger_token any_triggered (m_always_combs m) False (in_state n);
              Some (changed, foldl (\<lambda>n' a. run_assign m a n') (n\<lparr>in_state := st1\<rparr>) (m_assigns m))})"

subsection \<open>Ports\<close>

definition port_value :: "inst_node \<Rightarrow> port_binding \<Rightarrow> logic_t \<times> inst_node" where
  "port_value parent b =
     (case pb_k b of
        bind_parent_signal \<Rightarrow>
          (if pb_parent_signal b < length (st_values (in_state parent))
           then st_values (in_state parent) ! pb_parent_signal b else indeterminate_state, parent)
      | bind_literal \<Rightarrow> (pb_literal b, parent)
      | bind_parent_expr_root \<Rightarrow>
          (case in_mod parent of
             None \<Rightarrow> (indeterminate_state, parent)
           | Some pm \<Rightarrow>
               if pb_parent_expr_root b = SIZE_MAX then (indeterminate_state, parent)
               else let (v, st1) = eval_in pm (pb_parent_expr_root b) (in_state parent)
                    in (v, parent\<lparr>in_state := st1\<rparr>))
      | bind_unconnected \<Rightarrow> (indeterminate_state, parent))"

fun drive_ports :: "(port \<times> port_binding) list \<Rightarrow> bool \<Rightarrow> inst_node \<Rightarrow> module_state \<Rightarrow>
    bool \<times> inst_node \<times> module_state" where
  "drive_ports [] changed parent cst = (changed, parent, cst)"
| "drive_ports ((p, b) # pbs) changed parent cst =
     (if p_dir p = dir_output then drive_ports pbs changed parent cst
      else
        (let (v, parent1) = port_value parent b; (c, cst1) = assign_signal cst (p_signal p) v
         in drive_ports pbs (c \<or> changed) parent1 cst1))"

definition propagate_parent_to_child :: "inst_node \<Rightarrow> inst_node \<Rightarrow> bool \<times> inst_node \<times> inst_node" where
  "propagate_parent_to_child parent child =
     (case in_mod child of
        None \<Rightarrow> (False, parent, child)
      | Some cm \<Rightarrow>
          if length (in_bindings child) < length (m_ports cm) then (False, parent, child)
          else
            (let (changed, parent1, cst1) =
                   drive_ports (zip (m_ports cm) (in_bindings child)) False parent (in_state child)
             in (changed, parent1, child\<lparr>in_state := cst1\<rparr>)))"

definition apply_port_drive :: "module_state \<Rightarrow> inst_node \<Rightarrow> port_drive \<Rightarrow> inst_node" where
  "apply_port_drive cst parent d =
     (if dr_parent_signal d = SIZE_MAX then parent
      else if dr_src_is_literal d then drive_signal_next parent (dr_parent_signal d) (dr_literal d)
      else if dr_child_signal d \<ge> length (st_values cst) then parent
      else drive_signal_next parent (dr_parent_signal d) (st_values cst ! dr_child_signal d))"

definition propagate_child_to_parent :: "inst_node \<Rightarrow> inst_node \<Rightarrow> inst_node" where
  "propagate_child_to_parent child parent =
     (case in_mod child of
        None \<Rightarrow> parent
      | Some _ \<Rightarrow> foldl (apply_port_drive (in_state child)) parent (in_output_drives child))"

end
