(* ===== verification/Scheduler.thy ===== *)
theory Scheduler
  imports Instance
begin

text \<open>
  The scheduler of \<^verbatim>\<open>verilog/digital/digital.h\<close> over the whole instance tree: the sequential pass
  (initial blocks, due events, edge-triggered blocks), the combinational settling loop with
  its 64 iterations per instance, and \<^verbatim>\<open>simulate\<close>. A child pointer of the code is never null,
  since \<^verbatim>\<open>elaborate_children\<close> only stores allocated children, so children are plain subtrees.
\<close>

datatype instance_state = Inst (inst_of: inst_node) (children: "instance_state list")

fun depth :: "instance_state \<Rightarrow> nat" where
  "depth (Inst n cs) = Suc (foldr max (map depth cs) 0)"

subsection \<open>Initial blocks\<close>

text \<open>\<^verbatim>\<open>try_schedule_linear\<close>: a block that is a sequence of assignments is turned into events, with
  the delays summed in \<open>cursor\<close>. Events already pushed stay when the block turns out not to be
  linear.\<close>

type_synonym scheduler_fn = "nat \<Rightarrow> u64 \<Rightarrow> module_state \<Rightarrow> (bool \<times> u64 \<times> module_state) option"

fun schedule_seq :: "scheduler_fn \<Rightarrow> nat list \<Rightarrow> u64 \<Rightarrow> module_state \<Rightarrow> (bool \<times> u64 \<times> module_state) option" where
  "schedule_seq self [] cursor st = Some (True, cursor, st)"
| "schedule_seq self (sub # subs) cursor st =
     do {(ok, cursor1, st1) \<leftarrow> self sub cursor st;
         if ok then schedule_seq self subs cursor1 st1 else Some (False, cursor1, st1)}"

definition schedule_assign :: "bool \<Rightarrow> bool \<Rightarrow> stmt_node \<Rightarrow> u64 \<Rightarrow> module_state \<Rightarrow> (bool \<times> u64 \<times> module_state) option" where
  "schedule_assign is_vec nb n cursor st =
     (let cursor1 = cursor + sn_delay_ticks n; due = st_initial_base_tick st + cursor1
      in Some (True, cursor1,
           push_event (if is_vec then vector_event due nb (sn_lhs_signals n) (sn_rhs_roots n)
                       else scalar_event due nb (sn_lhs_signal n) (sn_expr_root n)) st))"

definition schedule_node :: "scheduler_fn \<Rightarrow> stmt_node \<Rightarrow> u64 \<Rightarrow> module_state \<Rightarrow> (bool \<times> u64 \<times> module_state) option" where
  "schedule_node self n cursor st =
     (case sn_k n of
        empty_stmt \<Rightarrow> Some (True, cursor, st)
      | block \<Rightarrow> schedule_seq self (sn_stmts n) cursor st
      | subprogram_block \<Rightarrow> schedule_seq self (sn_stmts n) cursor st
      | blocking_assign \<Rightarrow> schedule_assign False False n cursor st
      | blocking_assign_vec \<Rightarrow> schedule_assign True False n cursor st
      | nonblocking_assign \<Rightarrow> schedule_assign False True n cursor st
      | nonblocking_assign_vec \<Rightarrow> schedule_assign True True n cursor st
      | _ \<Rightarrow> Some (False, cursor, st))"

primrec try_schedule_linear :: "nat \<Rightarrow> stmt_node list \<Rightarrow> scheduler_fn" where
  "try_schedule_linear 0 arena = (\<lambda>root cursor st. None)"
| "try_schedule_linear (Suc fuel) arena =
     (\<lambda>root cursor st.
        if root \<ge> length arena then Some (False, cursor, st)
        else schedule_node (try_schedule_linear fuel arena) (arena ! root) cursor st)"

fun schedule_roots :: "scheduler_fn \<Rightarrow> nat list \<Rightarrow> bool \<Rightarrow> u64 \<Rightarrow> module_state \<Rightarrow> (bool \<times> module_state) option" where
  "schedule_roots sched [] linear cursor st = Some (linear, st)"
| "schedule_roots sched (root # roots) linear cursor st =
     do {(ok, cursor1, st1) \<leftarrow> sched root cursor st;
         if ok then schedule_roots sched roots True cursor1 st1 else Some (False, st1)}"

definition run_initial :: "compiled_module \<Rightarrow> initial_block \<Rightarrow> module_state \<Rightarrow> module_state option" where
  "run_initial m ib st =
     do {(linear, st1) \<leftarrow> schedule_roots (try_schedule_linear (Suc (length (ib_stmt_nodes ib))) (ib_stmt_nodes ib))
                            (ib_roots ib) False 0 st;
         if linear then Some st1
         else do {(c, st2) \<leftarrow> run_roots m (ib_stmt_nodes ib) (st_initial_base_tick st1) (ib_roots ib) False st1;
                  Some st2}}"

fun run_initials :: "compiled_module \<Rightarrow> initial_block list \<Rightarrow> module_state \<Rightarrow> module_state option" where
  "run_initials m [] st = Some st"
| "run_initials m (ib # ibs) st = do {st1 \<leftarrow> run_initial m ib st; run_initials m ibs st1}"

definition initial_pass :: "inst_node \<Rightarrow> u64 \<Rightarrow> inst_node option" where
  "initial_pass n tick =
     (let st = (in_state n)\<lparr>st_nba_queue := []\<rparr> in
      case in_mod n of
        None \<Rightarrow> Some (n\<lparr>in_state := st\<rparr>)
      | Some m \<Rightarrow>
          if \<not> st_initial_ran st \<and> st_mod st \<noteq> None
          then do {st1 \<leftarrow> run_initials m (m_initials m)
                             (st\<lparr>st_initial_ran := True, st_initial_base_tick := tick\<rparr>);
                   Some (n\<lparr>in_state := st1\<rparr>)}
          else Some (n\<lparr>in_state := st\<rparr>))"

subsection \<open>The sequential pass\<close>

definition sequential_local :: "u64 \<Rightarrow> bool \<Rightarrow> inst_node \<Rightarrow> inst_node option" where
  "sequential_local tick process_sequential n =
     do {n1 \<leftarrow> initial_pass n tick;
         let n2 = n1\<lparr>in_state := process_due_events (in_state n1) tick\<rparr>;
         if process_sequential then run_sequential n2 tick else Some n2}"

fun sequential_pass :: "u64 \<Rightarrow> bool \<Rightarrow> instance_state \<Rightarrow> instance_state option"
and sequential_children :: "u64 \<Rightarrow> bool \<Rightarrow> inst_node \<Rightarrow> instance_state list \<Rightarrow>
      (inst_node \<times> instance_state list) option" where
  "sequential_pass tick ps (Inst n cs) =
     do {n1 \<leftarrow> sequential_local tick ps n;
         (n2, cs1) \<leftarrow> sequential_children tick ps n1 cs;
         Some (Inst n2 cs1)}"
| "sequential_children tick ps n [] = Some (n, [])"
| "sequential_children tick ps n (Inst cn ccs # cs) =
     (let (c, n1, cn1) = propagate_parent_to_child n cn in
      do {child \<leftarrow> sequential_pass tick ps (Inst cn1 ccs);
          (n2, cs1) \<leftarrow> sequential_children tick ps n1 cs;
          Some (n2, child # cs1)})"

subsection \<open>Combinational settling\<close>

type_synonym resolver = "instance_state \<Rightarrow> (bool \<times> instance_state) option"

fun propagate_down :: "inst_node \<Rightarrow> instance_state list \<Rightarrow> bool \<Rightarrow> bool \<times> inst_node \<times> instance_state list" where
  "propagate_down n [] changed = (changed, n, [])"
| "propagate_down n (Inst cn ccs # cs) changed =
     (let (c, n1, cn1) = propagate_parent_to_child n cn;
          (changed1, n2, cs1) = propagate_down n1 cs (c \<or> changed)
      in (changed1, n2, Inst cn1 ccs # cs1))"

fun resolve_children :: "resolver \<Rightarrow> instance_state list \<Rightarrow> bool \<Rightarrow> (bool \<times> instance_state list) option" where
  "resolve_children self [] changed = Some (changed, [])"
| "resolve_children self (t # ts) changed =
     do {(c, t1) \<leftarrow> self t;
         (changed1, ts1) \<leftarrow> resolve_children self ts (c \<or> changed);
         Some (changed1, t1 # ts1)}"

definition propagate_up :: "instance_state list \<Rightarrow> inst_node \<Rightarrow> inst_node" where
  "propagate_up cs n = foldl (\<lambda>p c. propagate_child_to_parent (inst_of c) p) n cs"

text \<open>One iteration of the settling loop: the change flag and the epoch it recorded changes in.\<close>

definition comb_iter :: "resolver \<Rightarrow> u64 \<Rightarrow> u32 \<Rightarrow> bool \<Rightarrow> inst_node \<Rightarrow> instance_state list \<Rightarrow>
    (bool \<times> u32 \<times> inst_node \<times> instance_state list) option" where
  "comb_iter self tick trigger_token any_triggered n cs =
     (let (record_token, st) = begin_change_epoch (in_state n);
          n1 = prepare_net_drives (n\<lparr>in_state := st\<rparr>);
          (c1, n2, cs1) = propagate_down n1 cs False
      in do {(c2, cs2) \<leftarrow> resolve_children self cs1 c1;
             (c3, n4) \<leftarrow> run_comb_local (propagate_up cs2 n2) tick trigger_token any_triggered;
             let (c4, n5) = apply_net_drives n4;
             let (c5, st5) = apply_nba (in_state n5);
             Some (c5 \<or> c4 \<or> c3 \<or> c2, record_token, n5\<lparr>in_state := st5\<rparr>, cs2)})"

fun comb_loop :: "resolver \<Rightarrow> u64 \<Rightarrow> nat \<Rightarrow> u32 \<Rightarrow> bool \<Rightarrow> bool \<Rightarrow> inst_node \<Rightarrow> instance_state list \<Rightarrow>
    (bool \<times> inst_node \<times> instance_state list) option" where
  "comb_loop self tick 0 trigger any any_changed n cs = Some (any_changed, n, cs)"
| "comb_loop self tick (Suc k) trigger any any_changed n cs =
     do {(changed, record_token, n1, cs1) \<leftarrow> comb_iter self tick trigger any n cs;
         if \<not> changed then Some (any_changed, n1, cs1)
         else comb_loop self tick k record_token (st_changed_signals (in_state n1) \<noteq> []) True n1 cs1}"

definition mark_changed :: "u32 \<Rightarrow> module_state \<Rightarrow> bool \<times> module_state" where
  "mark_changed tok st =
     (let moved = filter (\<lambda>i. st_values st ! i \<noteq> st_comb_prev_values st ! i)
                    [0..<min (length (st_values st)) (length (st_comb_prev_values st))]
      in (moved \<noteq> [], st\<lparr>st_change_mark := foldl (\<lambda>mk i. mk[i := tok]) (st_change_mark st) moved\<rparr>))"

definition comb_start :: "module_state \<Rightarrow> u32 \<times> bool \<times> module_state" where
  "comb_start st =
     (let st1 = (if length (st_comb_prev_values st) \<noteq> length (st_values st)
                 then st\<lparr>st_comb_prev_values := st_prev_values st\<rparr> else st);
          st2 = st1\<lparr>st_change_mark := grow_to 0 (length (st_values st1)) (st_change_mark st1)\<rparr>;
          (trigger_token, st3) = begin_change_epoch st2;
          (any, st4) = mark_changed trigger_token st3
      in if \<not> st_comb_initialized st4 then (trigger_token, True, st4\<lparr>st_comb_initialized := True\<rparr>)
         else (trigger_token, any, st4))"

definition comb_max_iter :: nat where
  "comb_max_iter = 64"

primrec comb_resolve :: "nat \<Rightarrow> u64 \<Rightarrow> resolver" where
  "comb_resolve 0 tick = (\<lambda>t. None)"
| "comb_resolve (Suc fuel) tick =
     (\<lambda>t. case t of Inst n cs \<Rightarrow>
        if in_mod n = None then Some (False, t)
        else
          (let (trigger_token, any_triggered, st) = comb_start (in_state n) in
           do {(any_changed, n1, cs1) \<leftarrow>
                 comb_loop (comb_resolve fuel tick) tick comb_max_iter trigger_token any_triggered
                   False (n\<lparr>in_state := st\<rparr>) cs;
               Some (any_changed,
                     Inst (upd_state (\<lambda>s. s\<lparr>st_comb_prev_values := st_values s\<rparr>) n1) cs1)}))"

subsection \<open>One simulation step\<close>

fun apply_nba_recursive :: "instance_state \<Rightarrow> bool \<times> instance_state"
and apply_nba_children :: "instance_state list \<Rightarrow> bool \<Rightarrow> bool \<times> instance_state list" where
  "apply_nba_recursive (Inst n cs) =
     (let (c, st) = apply_nba (in_state n); (c1, cs1) = apply_nba_children cs c
      in (c1, Inst (n\<lparr>in_state := st\<rparr>) cs1))"
| "apply_nba_children [] changed = (changed, [])"
| "apply_nba_children (t # ts) changed =
     (let (c, t1) = apply_nba_recursive t; (c1, ts1) = apply_nba_children ts (c \<or> changed)
      in (c1, t1 # ts1))"

definition snapshot :: "module_state \<Rightarrow> module_state" where
  "snapshot st = st\<lparr>st_prev_values := st_values st, st_comb_prev_values := st_values st\<rparr>"

fun update_prev_recursive :: "instance_state \<Rightarrow> instance_state" where
  "update_prev_recursive (Inst n cs) = Inst (upd_state snapshot n) (map update_prev_recursive cs)"

definition simulate :: "instance_state \<Rightarrow> u64 \<Rightarrow> bool \<Rightarrow> instance_state option" where
  "simulate t tick process_sequential =
     do {t1 \<leftarrow> sequential_pass tick process_sequential t;
         (c, t2) \<leftarrow> comb_resolve (depth t1) tick t1;
         Some (update_prev_recursive t2)}"

end
