(* ===== verification/Bits.thy ===== *)
theory Bits
  imports Prelude
begin

text \<open>
  MSB-first bit vectors: the unsigned and two's complement numbers they stand for, and the width
  coercion the sources repeat for port bindings (\<^verbatim>\<open>resize_bits\<close>), output drives (\<^verbatim>\<open>resize_rhs\<close>)
  and expression values (\<^verbatim>\<open>resize_to_vector\<close>).
\<close>

subsection \<open>MSB-first vectors as numbers\<close>

definition bits_val :: "bool list \<Rightarrow> nat" where
  "bits_val bs = foldl (\<lambda>acc b. 2 * acc + of_bool b) 0 bs"

definition sbits_val :: "bool list \<Rightarrow> int" where
  "sbits_val bs = int (bits_val bs) - (if bs \<noteq> [] \<and> hd bs then 2 ^ length bs else 0)"

lemma bits_val_acc: "foldl (\<lambda>acc b. 2 * acc + of_bool b) a bs = a * 2 ^ length bs + bits_val bs"
proof (induction bs arbitrary: a)
  case Nil
  then show ?case by (simp add: bits_val_def)
next
  case (Cons b bs)
  show ?case using Cons.IH [of "2 * a + of_bool b"] Cons.IH [of "of_bool b"]
    by (simp add: bits_val_def algebra_simps)
qed

lemma bits_val_Nil [simp]: "bits_val [] = 0"
  by (simp add: bits_val_def)

lemma bits_val_append: "bits_val (xs @ ys) = bits_val xs * 2 ^ length ys + bits_val ys"
  using bits_val_acc [of "bits_val xs" ys] by (simp add: bits_val_def)

lemma bits_val_Cons: "bits_val (b # bs) = of_bool b * 2 ^ length bs + bits_val bs"
  using bits_val_append [of "[b]" bs] by (simp add: bits_val_def)

lemma bits_val_bound: "bits_val bs < 2 ^ length bs"
  by (induction bs) (auto simp: bits_val_Cons)

lemma bits_val_replicate: "bits_val (replicate k b) = (if b then 2 ^ k - 1 else 0)"
  by (induction k) (auto simp: bits_val_Cons)

lemma bits_val_drop: "k \<le> length bs \<Longrightarrow> bits_val (drop k bs) = bits_val bs mod 2 ^ (length bs - k)"
proof -
  assume k: "k \<le> length bs"
  have "bits_val bs = bits_val (take k bs) * 2 ^ (length bs - k) + bits_val (drop k bs)"
    using bits_val_append [of "take k bs" "drop k bs"] by simp
  moreover have "bits_val (drop k bs) < 2 ^ (length bs - k)"
    using bits_val_bound [of "drop k bs"] by simp
  ultimately show ?thesis by simp
qed

subsection \<open>Width coercion\<close>

text \<open>MSB-first vectors keep their low bits, and are extended by the sign bit or by a filler.\<close>

definition resize_msb :: "'a \<Rightarrow> 'a \<Rightarrow> 'a list \<Rightarrow> nat \<Rightarrow> bool \<Rightarrow> 'a list" where
  "resize_msb unconnected zero src w sign_extend =
     (if w = 0 then []
      else if src = [] then replicate w unconnected
      else if w = 1 then [last src]
      else if length src = w then src
      else if length src > w then map (\<lambda>i. src ! (length src - w + i)) [0..<w]
      else replicate (w - length src) (if sign_extend then hd src else zero) @ src)"

lemma resize_msb_map: "map f (resize_msb u z src w se) = resize_msb (f u) (f z) (map f src) w se"
  by (simp add: resize_msb_def last_map hd_map)

lemma resize_msb_low: "src \<noteq> [] \<Longrightarrow> 0 < w \<Longrightarrow> w \<le> length src \<Longrightarrow> resize_msb u z src w se = drop (length src - w) src"
proof -
  assume a: "src \<noteq> []" "0 < w" "w \<le> length src"
  have "drop (length src - 1) src = [last src]"
    using a(1) by (metis append_butlast_last_id append_eq_conv_conj length_butlast)
  moreover have "map (\<lambda>i. src ! (length src - w + i)) [0..<w] = drop (length src - w) src"
    using a(3) by (intro nth_equalityI) auto
  ultimately show ?thesis using a by (auto simp: resize_msb_def)
qed

lemma resize_msb_high: "src \<noteq> [] \<Longrightarrow> length src < w \<Longrightarrow>
    resize_msb u z src w se = replicate (w - length src) (if se then hd src else z) @ src"
  by (cases src) (auto simp: resize_msb_def)

lemma resize_unsigned:
  assumes "src \<noteq> []" and "0 < w"
  shows "bits_val (resize_msb u False src w False) = bits_val src mod 2 ^ w"
proof (cases "w \<le> length src")
  case True
  then show ?thesis using assms by (simp add: resize_msb_low bits_val_drop)
next
  case False
  then have "bits_val src < 2 ^ w"
    using bits_val_bound [of src] power_strict_increasing [of "length src" w "2::nat"] by linarith
  then show ?thesis using False assms by (simp add: resize_msb_high bits_val_append bits_val_replicate)
qed

lemma resize_signed:
  assumes "src \<noteq> []" and "length src \<le> w"
  shows "sbits_val (resize_msb u z src w True) = sbits_val src"
proof (cases "w = length src")
  case True
  then show ?thesis using assms(1) by (simp add: resize_msb_low)
next
  case False
  then have w: "length src < w" using assms(2) by simp
  let ?k = "w - length src"
  have hd: "hd (replicate ?k (hd src) @ src) = hd src" using w by (cases ?k) auto
  have "(2::int) ^ w = 2 ^ ?k * 2 ^ length src" using w by (simp flip: power_add)
  moreover have "int (2 ^ ?k - 1) = 2 ^ ?k - 1" by (simp add: of_nat_diff)
  ultimately show ?thesis
    using assms(1) w hd
    by (auto simp: resize_msb_high sbits_val_def bits_val_append bits_val_replicate algebra_simps)
qed

end
