(* ===== verification/Elab.thy ===== *)
theory Elab
  imports Scheduler Bits
begin

text \<open>
  Elaboration (\<^verbatim>\<open>build_design\<close>, \<^verbatim>\<open>find_module\<close>, \<^verbatim>\<open>fill_bindings\<close>, \<^verbatim>\<open>elaborate_children\<close>, \<^verbatim>\<open>elaborate\<close> in
  \<^verbatim>\<open>verilog/digital/digital.h\<close>): the module table, the binding of ports to the expressions and
  signals of the parent with width coercion, the parameter overrides, and the instance tree,
  which the code cuts below depth 64.
\<close>

subsection \<open>Designs\<close>

record compiled_design =
  d_modules :: "compiled_module list"
  d_module_index :: "string \<rightharpoonup> nat"

definition index_module :: "compiled_module list \<Rightarrow> (string \<rightharpoonup> nat) \<Rightarrow> nat \<Rightarrow> (string \<rightharpoonup> nat)" where
  "index_module ms idx i =
     (if idx (m_name (ms ! i)) = None then idx(m_name (ms ! i) \<mapsto> i) else idx)"

definition build_design :: "compiled_module list \<Rightarrow> compiled_design" where
  "build_design ms =
     \<lparr>d_modules = ms, d_module_index = foldl (index_module ms) Map.empty [0..<length ms]\<rparr>"

definition find_module :: "compiled_design \<Rightarrow> string \<Rightarrow> compiled_module option" where
  "find_module d nm = (case d_module_index d nm of None \<Rightarrow> None | Some i \<Rightarrow> Some (d_modules d ! i))"

subsection \<open>Port bindings\<close>

definition make_parent_signal :: "nat \<Rightarrow> port_binding" where
  "make_parent_signal sig =
     \<lparr>pb_k = bind_parent_signal, pb_parent_signal = sig, pb_parent_expr_root = SIZE_MAX,
      pb_literal = false_state\<rparr>"

definition make_literal_binding :: "logic_t \<Rightarrow> port_binding" where
  "make_literal_binding v =
     \<lparr>pb_k = bind_literal, pb_parent_signal = SIZE_MAX, pb_parent_expr_root = SIZE_MAX, pb_literal = v\<rparr>"

definition make_expr_root :: "nat \<Rightarrow> port_binding" where
  "make_expr_root root =
     \<lparr>pb_k = bind_parent_expr_root, pb_parent_signal = SIZE_MAX, pb_parent_expr_root = root,
      pb_literal = false_state\<rparr>"

definition named_connections :: "instance_connection list \<Rightarrow> string \<rightharpoonup> connection_ref" where
  "named_connections cs =
     foldl (\<lambda>f c. if ic_port_name c = [] then f else f(ic_port_name c \<mapsto> ic_ref c)) Map.empty cs"

definition any_named :: "instance_connection list \<Rightarrow> bool" where
  "any_named cs \<longleftrightarrow> list_ex (\<lambda>c. ic_port_name c \<noteq> []) cs"

definition connection_bits :: "compiled_module \<Rightarrow> connection_ref \<Rightarrow> port_binding list \<times> bool" where
  "connection_bits pm ref =
     (case cr_kind ref of
        conn_unconnected \<Rightarrow> ([], cr_is_signed ref)
      | conn_scalar \<Rightarrow>
          if cr_scalar_signal ref = SIZE_MAX then ([], cr_is_signed ref)
          else ([make_parent_signal (cr_scalar_signal ref)],
                cr_scalar_signal ref < length (m_signal_is_signed pm) \<and>
                m_signal_is_signed pm ! cr_scalar_signal ref)
      | conn_vector \<Rightarrow>
          (case m_vectors pm (cr_vector_base ref) of
             None \<Rightarrow> ([], cr_is_signed ref)
           | Some vd \<Rightarrow> (map make_parent_signal (vd_bits vd), vd_is_signed vd))
      | conn_literal \<Rightarrow> ([make_literal_binding (cr_literal ref)], cr_is_signed ref)
      | conn_literal_vector \<Rightarrow> (map make_literal_binding (cr_literal_bits ref), cr_is_signed ref)
      | conn_bit_list \<Rightarrow>
          (map (\<lambda>b. if cb_is_literal b then make_literal_binding (cb_literal b)
                    else make_parent_signal (cb_signal b)) (cr_bit_list ref), cr_is_signed ref)
      | conn_expr \<Rightarrow> (map make_expr_root (cr_expr_roots ref), cr_is_signed ref))"

definition resize_bits :: "port_binding list \<Rightarrow> nat \<Rightarrow> bool \<Rightarrow> port_binding list" where
  "resize_bits = resize_msb port_binding_default (make_literal_binding false_state)"

record rhs_bit =
  rb_is_literal :: bool
  rb_child_signal :: nat
  rb_literal :: logic_t

definition rhs_literal :: "logic_t \<Rightarrow> rhs_bit" where
  "rhs_literal v = \<lparr>rb_is_literal = True, rb_child_signal = SIZE_MAX, rb_literal = v\<rparr>"

definition rhs_signal :: "nat \<Rightarrow> rhs_bit" where
  "rhs_signal sig = \<lparr>rb_is_literal = False, rb_child_signal = sig, rb_literal = false_state\<rparr>"

definition resize_rhs :: "rhs_bit list \<Rightarrow> nat \<Rightarrow> bool \<Rightarrow> rhs_bit list" where
  "resize_rhs = resize_msb (rhs_literal indeterminate_state) (rhs_literal false_state)"

definition connection_dest_bits :: "compiled_module \<Rightarrow> connection_ref \<Rightarrow> nat list" where
  "connection_dest_bits pm ref =
     (case cr_kind ref of
        conn_scalar \<Rightarrow> if cr_scalar_signal ref \<noteq> SIZE_MAX then [cr_scalar_signal ref] else []
      | conn_vector \<Rightarrow> (case m_vectors pm (cr_vector_base ref) of None \<Rightarrow> [] | Some vd \<Rightarrow> vd_bits vd)
      | conn_bit_list \<Rightarrow> map (\<lambda>b. if cb_is_literal b then SIZE_MAX else cb_signal b) (cr_bit_list ref)
      | _ \<Rightarrow> [])"

definition port_width :: "port_decl \<Rightarrow> nat" where
  "port_width pd =
     (if pd_has_range pd
      then nat (if pd_msb pd - pd_lsb pd \<ge> 0 then pd_msb pd - pd_lsb pd + 1
                else pd_lsb pd - pd_msb pd + 1)
      else 1)"

text \<open>The copy loop \<^verbatim>\<open>bindings[port_offset + pos] = resized[pos]\<close>, cut at the end of \<open>bindings\<close>.\<close>

definition write_bindings :: "nat \<Rightarrow> port_binding list \<Rightarrow> port_binding list \<Rightarrow> port_binding list" where
  "write_bindings off resized bs =
     foldl (\<lambda>b pos. if off + pos < length b then b[off + pos := resized ! pos] else b)
       bs [0..<length resized]"

definition output_drives_of :: "nat list \<Rightarrow> rhs_bit list \<Rightarrow> port_drive list" where
  "output_drives_of dst rhs =
     map (\<lambda>(s, r). \<lparr>dr_parent_signal = s, dr_src_is_literal = rb_is_literal r,
                    dr_child_signal = rb_child_signal r, dr_literal = rb_literal r\<rparr>)
       (filter (\<lambda>(s, r). s \<noteq> SIZE_MAX \<and> (rb_is_literal r \<or> rb_child_signal r \<noteq> SIZE_MAX)) (zip dst rhs))"

definition port_ref :: "instance_def \<Rightarrow> string \<Rightarrow> nat \<Rightarrow> connection_ref" where
  "port_ref idef base positional_idx =
     (if any_named (id_connections idef)
      then (case named_connections (id_connections idef) base of
              None \<Rightarrow> connection_ref_default | Some r \<Rightarrow> r)
      else if positional_idx < length (id_connections idef)
      then ic_ref (id_connections idef ! positional_idx)
      else connection_ref_default)"

definition bind_port :: "compiled_module \<Rightarrow> compiled_module \<Rightarrow> port_decl \<Rightarrow> connection_ref \<Rightarrow> nat \<Rightarrow>
    port_binding list \<times> port_drive list \<Rightarrow> port_binding list \<times> port_drive list" where
  "bind_port pm cm pd ref off bd =
     (let width = port_width pd;
          bs1 = (if pd_dir pd = dir_output then fst bd
                 else let (src, signed_src) = connection_bits pm ref
                      in write_bindings off (resize_bits src width signed_src) (fst bd));
          dst = connection_dest_bits pm ref;
          ds1 = (if (pd_dir pd = dir_output \<or> pd_dir pd = dir_inout) \<and> dst \<noteq> [] \<and>
                    off + width \<le> length (m_ports cm)
                 then snd bd @ output_drives_of dst
                        (resize_rhs (map (\<lambda>pos. rhs_signal (p_signal (m_ports cm ! (off + pos)))) [0..<width])
                           (length dst) (pd_is_signed pd))
                 else snd bd)
      in (bs1, ds1))"

fun bind_ports :: "compiled_module \<Rightarrow> compiled_module \<Rightarrow> instance_def \<Rightarrow> string list \<Rightarrow> nat \<Rightarrow> nat \<Rightarrow>
    port_binding list \<times> port_drive list \<Rightarrow> port_binding list \<times> port_drive list" where
  "bind_ports pm cm idef [] positional_idx off bd = bd"
| "bind_ports pm cm idef (base # bases) positional_idx off bd =
     (let pd = (case m_port_decls cm base of None \<Rightarrow> port_decl_default | Some pd \<Rightarrow> pd)
      in bind_ports pm cm idef bases (positional_idx + 1) (off + port_width pd)
           (bind_port pm cm pd (port_ref idef base positional_idx) off bd))"

definition fill_bindings :: "compiled_module \<Rightarrow> compiled_module \<Rightarrow> instance_def \<Rightarrow> port_binding list \<Rightarrow>
    port_binding list \<times> port_drive list" where
  "fill_bindings pm cm idef bindings = bind_ports pm cm idef (m_port_order cm) 0 0 (bindings, [])"

subsection \<open>Parameter overrides\<close>

definition override_bit :: "vector_desc \<Rightarrow> u64 \<Rightarrow> module_state \<Rightarrow> nat \<Rightarrow> module_state" where
  "override_bit vd value st bit_from_lsb =
     (let sig = vd_bits vd ! (31 - bit_from_lsb); lv = of_bool_state (bit value bit_from_lsb)
      in if sig \<ge> length (st_values st) then st
         else st\<lparr>st_values := (st_values st)[sig := lv],
                 st_prev_values := (st_prev_values st)[sig := lv]\<rparr>)"

definition apply_param_value :: "compiled_module \<Rightarrow> string \<Rightarrow> u64 \<Rightarrow> module_state \<Rightarrow> module_state" where
  "apply_param_value cm pname value st =
     (case m_vectors cm pname of
        None \<Rightarrow> st
      | Some vd \<Rightarrow> if length (vd_bits vd) \<noteq> 32 then st
                    else foldl (override_bit vd value) st [0..<32])"

definition apply_param :: "compiled_module \<Rightarrow> module_state \<Rightarrow> string \<times> u64 \<Rightarrow> module_state" where
  "apply_param cm st pv =
     (if (case m_param_is_local cm (fst pv) of None \<Rightarrow> False | Some l \<Rightarrow> l) then st
      else apply_param_value cm (fst pv) (snd pv) st)"

definition apply_params :: "compiled_module \<Rightarrow> instance_def \<Rightarrow> module_state \<Rightarrow> module_state" where
  "apply_params cm idef st =
     foldl (apply_param cm)
       (foldl (apply_param cm) st (zip (m_param_order cm) (id_param_positional_values idef)))
       (id_param_named_values idef)"

subsection \<open>The instance tree\<close>

definition mark_driven :: "compiled_module \<Rightarrow> bool list \<Rightarrow> port_drive \<Rightarrow> bool list" where
  "mark_driven pm driven d =
     (if dr_parent_signal d = SIZE_MAX then driven
      else if dr_parent_signal d \<ge> length driven then driven
      else if is_reg pm (dr_parent_signal d) then driven
      else driven[dr_parent_signal d := True])"

definition new_node :: "compiled_module \<Rightarrow> string \<Rightarrow> inst_node" where
  "new_node m nm =
     init_driven_nets_from_assigns
       \<lparr>in_mod = Some m, in_instance_name = nm, in_state = init_state m, in_driven_nets = [],
        in_bindings = [], in_output_drives = []\<rparr>"

definition make_child :: "compiled_module \<Rightarrow> compiled_module \<Rightarrow> instance_def \<Rightarrow> inst_node" where
  "make_child pm cm idef =
     (let n = new_node cm (id_instance_name idef);
          (bs, ds) = fill_bindings pm cm idef (replicate (length (m_ports cm)) port_binding_default)
      in n\<lparr>in_state := apply_params cm idef (in_state n), in_bindings := bs, in_output_drives := ds\<rparr>)"

definition mark_child_drives :: "compiled_module \<Rightarrow> inst_node \<Rightarrow> inst_node \<Rightarrow> inst_node" where
  "mark_child_drives pm parent child =
     (let p = (if in_driven_nets parent = [] then init_driven_nets_from_assigns parent else parent)
      in p\<lparr>in_driven_nets := foldl (mark_driven pm) (in_driven_nets p) (in_output_drives child)\<rparr>)"

text \<open>\<open>levels\<close> counts down from 65 where the code counts \<^verbatim>\<open>depth\<close> up and stops at \<^verbatim>\<open>depth > 64\<close>.\<close>

fun elaborate_children :: "nat \<Rightarrow> compiled_design \<Rightarrow> inst_node \<Rightarrow> instance_state"
and elaborate_instances :: "nat \<Rightarrow> compiled_design \<Rightarrow> compiled_module \<Rightarrow> instance_def list \<Rightarrow> inst_node \<Rightarrow>
      instance_state list \<Rightarrow> instance_state" where
  "elaborate_children 0 d parent = Inst parent []"
| "elaborate_children (Suc levels) d parent =
     (case in_mod parent of
        None \<Rightarrow> Inst parent []
      | Some pm \<Rightarrow> elaborate_instances levels d pm (m_instances pm) parent [])"
| "elaborate_instances levels d pm [] parent cs = Inst parent cs"
| "elaborate_instances levels d pm (idef # idefs) parent cs =
     (case find_module d (id_module_name idef) of
        None \<Rightarrow> elaborate_instances levels d pm idefs parent cs
      | Some cm \<Rightarrow>
          (let child = make_child pm cm idef
           in elaborate_instances levels d pm idefs (mark_child_drives pm parent child)
                (cs @ [elaborate_children levels d child])))"

definition max_levels :: nat where
  "max_levels = 65"

definition elaborate :: "compiled_design \<Rightarrow> compiled_module \<Rightarrow> instance_state" where
  "elaborate d m = elaborate_children max_levels d (new_node m (m_name m))"

end
