(* ===== verification/Sched_Props.thy ===== *)
theory Sched_Props
  imports Elab
begin

text \<open>
  The scheduler on well-formed designs: every pass returns, keeps the shape of the instance
  tree and the invariant of every node, and \<^verbatim>\<open>simulate\<close> leaves no pending nonblocking update and
  no difference between the current and the previous values.
\<close>

subsection \<open>Well-formed modules, states and nodes\<close>

definition wf_module :: "compiled_module \<Rightarrow> bool" where
  "wf_module m \<longleftrightarrow>
     wf_arena (m_expr_nodes m) \<and>
     (\<forall>ff \<in> set (m_always_ffs m). wf_stmts (ff_stmt_nodes ff)) \<and>
     (\<forall>ac \<in> set (m_always_combs m). wf_stmts (ac_stmt_nodes ac)) \<and>
     (\<forall>ib \<in> set (m_initials m). wf_stmts (ib_stmt_nodes ib))"

definition st_ok :: "compiled_module \<Rightarrow> module_state \<Rightarrow> bool" where
  "st_ok m st \<longleftrightarrow>
     wf_arena (m_expr_nodes m) \<and> st_mod st = Some m \<and> st_inv st \<and>
     length (st_values st) = length (m_signal_names m)"

lemma st_ok_assign: "st_ok m st \<Longrightarrow> st_ok m (snd (assign_signal st sig v))"
  by (simp add: st_ok_def frame_simps assign_signal_values assign_signal_inv)

lemma st_ok_eval: "st_ok m st \<Longrightarrow> st_ok m (snd (eval_in m r st))"
  by (simp add: st_ok_def frame_simps eval_in_deval(2))

lemma st_ok_push:
  "st_ok m st \<Longrightarrow> st_ok m (push_nba sig v st)"
  "st_ok m st \<Longrightarrow> st_ok m (push_event ev st)"
  by (auto simp: st_ok_def st_inv_def push_nba_def push_event_def)

definition ok_rel :: "compiled_module \<Rightarrow> module_state \<Rightarrow> module_state \<Rightarrow> bool" where
  "ok_rel m st st' \<longleftrightarrow> (st_ok m st \<longrightarrow> st_ok m st')"

interpretation exec_ok: exec_rel m "\<lambda>_. ok_rel m" UNIV for m
  by unfold_locales (auto simp: ok_rel_def st_ok_assign st_ok_eval st_ok_push)

definition inode_ok :: "inst_node \<Rightarrow> bool" where
  "inode_ok n \<longleftrightarrow> (\<exists>m. in_mod n = Some m \<and> wf_module m \<and> st_ok m (in_state n))"

definition driven_set :: "inst_node \<Rightarrow> nat set" where
  "driven_set n = {i. i < length (in_driven_nets n) \<and> in_driven_nets n ! i}"

text \<open>The part of a node that elaboration fixes.\<close>

type_synonym static_part =
  "compiled_module option \<times> string \<times> port_binding list \<times> port_drive list \<times> nat set"

definition static :: "inst_node \<Rightarrow> static_part" where
  "static n = (in_mod n, in_instance_name n, in_bindings n, in_output_drives n, driven_set n)"

lemma static_upd [simp]:
  "static (n\<lparr>in_state := st\<rparr>) = static n"
  "static (upd_state f n) = static n"
  by (simp_all add: static_def upd_state_def driven_set_def)

lemma static_mod: "static n' = static n \<Longrightarrow> in_mod n' = in_mod n"
  by (simp add: static_def)

lemma inode_okE:
  assumes "inode_ok n"
  obtains m where "in_mod n = Some m" "wf_module m" "st_ok m (in_state n)"
  using assms by (auto simp: inode_ok_def)

lemma inode_okI: "in_mod n = Some m \<Longrightarrow> wf_module m \<Longrightarrow> st_ok m (in_state n) \<Longrightarrow> inode_ok n"
  by (auto simp: inode_ok_def)

subsection \<open>Passes over one state\<close>

lemma st_ok_sample: "sample_roots m rs st = (vs, st') \<Longrightarrow> st_ok m st \<Longrightarrow> st_ok m st'"
  using exec_ok.sample_roots_R [of m rs st vs st' st] by (simp add: ok_rel_def)

lemma st_ok_assign_all: "assign_all svs c st = (c', st') \<Longrightarrow> st_ok m st \<Longrightarrow> st_ok m st'"
  using exec_ok.assign_all_R [of svs c st c' st' m st] by (simp add: ok_rel_def)

lemma st_ok_exec:
  "exec_stmt fuel m arena tick tnb idx st fs = Some (c, st', fs') \<Longrightarrow> st_ok m st \<Longrightarrow> st_ok m st'"
  using exec_ok.exec_stmt_R [of tnb arena fuel m tick idx st fs c st' fs'] by (simp add: ok_rel_def)

lemma st_ok_fields [simp]:
  "st_ok m (st\<lparr>st_events := e\<rparr>) = st_ok m st"
  "st_ok m (st\<lparr>st_nba_queue := q\<rparr>) = st_ok m st"
  "st_ok m (st\<lparr>st_next_net_values := nv\<rparr>) = st_ok m st"
  "st_ok m (st\<lparr>st_prev_values := pv\<rparr>) = st_ok m st"
  "st_ok m (st\<lparr>st_comb_prev_values := cv\<rparr>) = st_ok m st"
  "st_ok m (st\<lparr>st_comb_initialized := b\<rparr>) = st_ok m st"
  "st_ok m (st\<lparr>st_initial_ran := b, st_initial_base_tick := t\<rparr>) = st_ok m st"
  by (auto simp: st_ok_def st_inv_def)

lemma st_ok_nba_all: "st_ok m st \<Longrightarrow> st_ok m (nba_all svs st)"
  by (induction svs st rule: nba_all.induct) (auto simp: st_ok_push)

lemma st_ok_run_event: "st_ok m st \<Longrightarrow> st_ok m (run_event m ev st)"
proof -
  assume ok: "st_ok m st"
  obtain v st1 where 1: "eval_in m (ev_expr_root ev) st = (v, st1)" by fastforce
  obtain vs st2 where 2: "sample_roots m (ev_expr_roots ev) st = (vs, st2)" by fastforce
  obtain c st3 where 3: "assign_all (zip (ev_lhs_signals ev) vs) False st2 = (c, st3)" by fastforce
  have "st_ok m st1" using st_ok_eval [OF ok, of "ev_expr_root ev"] 1 by simp
  moreover note st_ok_sample [OF 2 ok]
  ultimately show ?thesis
    using ok st_ok_assign_all [OF 3]
    by (auto simp: run_event_def run_vector_event_def 1 2 3 st_ok_push st_ok_assign st_ok_nba_all)
qed

lemma st_ok_fire_events: "st_ok m st \<Longrightarrow> st_ok m (snd (fire_events m tick evs keep st))"
  by (induction evs arbitrary: keep st) (auto simp: st_ok_run_event)

lemma st_ok_process_due_events:
  assumes "st_ok m st"
  shows "st_ok m (process_due_events st tick)"
proof -
  have "st_mod st = Some m" using assms by (simp add: st_ok_def)
  then show ?thesis
    using st_ok_fire_events [OF assms, of tick "st_events st" "[]"]
    by (auto simp: process_due_events_def split: prod.split)
qed

lemma st_ok_nba_assign: "st_ok m st \<Longrightarrow> st_ok m (snd (nba_assign q c st))"
  by (induction q arbitrary: c st) (auto split: prod.splits dest: st_ok_assign, metis snd_conv st_ok_assign)

lemma st_ok_apply_nba: "st_ok m st \<Longrightarrow> st_ok m (snd (apply_nba st))"
  using st_ok_nba_assign [of m st "st_nba_queue st" False] by (auto simp: apply_nba_def split: prod.splits)

lemma st_ok_poke: "st_ok m st \<Longrightarrow> st_ok m (poke sig v st)"
  by (auto simp: poke_def st_ok_def st_inv_def)

lemma st_ok_set_bus: "st_ok m st \<Longrightarrow> st_ok m (set_bus bits v st)"
  unfolding set_bus_def by (induction bits arbitrary: st) (auto simp: st_ok_poke)

lemma st_ok_write_bus: "st_ok m st \<Longrightarrow> st_ok m (write_bus bits k w st)"
  by (induction bits k w st rule: write_bus.induct) (auto simp: st_ok_poke)

lemma st_ok_urandom: "st_ok m st \<Longrightarrow> st_ok m (urandom_update m st)"
  by (simp add: urandom_update_def Let_def st_ok_set_bus st_ok_write_bus split: option.split)

subsection \<open>Blocks return\<close>

lemma run_roots_ok:
  assumes "wf_stmts arena" and "st_ok m st"
  shows "\<exists>c' st'. run_roots m arena tick roots c st = Some (c', st') \<and> st_ok m st'"
  using assms(2)
proof (induction roots arbitrary: c st)
  case Nil
  then show ?case by simp
next
  case (Cons root roots)
  have "exec_stmt (Suc (length arena)) m arena tick False root st (Some flow_none) \<noteq> None"
    by (rule exec_stmt_returns [OF assms(1)]) auto
  then obtain d st1 fs1 where 1: "exec_stmt (Suc (length arena)) m arena tick False root st (Some flow_none) = Some (d, st1, fs1)"
    by auto
  then show ?case using Cons.IH [OF st_ok_exec [OF 1 Cons.prems]] by (simp del: exec_stmt.simps)
qed

lemma run_ffs_ok:
  assumes "\<forall>ff \<in> set ffs. wf_stmts (ff_stmt_nodes ff)" and "st_ok m st"
  shows "\<exists>st'. run_ffs m tick ffs st = Some st' \<and> st_ok m st'"
  using assms
proof (induction ffs arbitrary: st)
  case Nil
  then show ?case by simp
next
  case (Cons ff ffs)
  obtain c st1 where "run_roots m (ff_stmt_nodes ff) tick (ff_roots ff) False st = Some (c, st1)" "st_ok m st1"
    using run_roots_ok [of "ff_stmt_nodes ff" m st tick "ff_roots ff" False] Cons.prems by auto
  then show ?case using Cons by auto
qed

lemma run_combs_ok:
  assumes "\<forall>ac \<in> set acs. wf_stmts (ac_stmt_nodes ac)" and "st_ok m st"
  shows "\<exists>c' st'. run_combs m tick tok any acs c st = Some (c', st') \<and> st_ok m st'"
  using assms
proof (induction acs arbitrary: c st)
  case Nil
  then show ?case by simp
next
  case (Cons ac acs)
  obtain d st1 where "run_roots m (ac_stmt_nodes ac) tick (ac_roots ac) c st = Some (d, st1)" "st_ok m st1"
    using run_roots_ok [of "ac_stmt_nodes ac" m st tick "ac_roots ac" c] Cons.prems by auto
  then show ?case using Cons by auto
qed

definition schedules :: "nat set \<Rightarrow> compiled_module \<Rightarrow> scheduler_fn \<Rightarrow> bool" where
  "schedules C m f \<longleftrightarrow>
     (\<forall>c \<in> C. \<forall>cur st. st_ok m st \<longrightarrow> (\<exists>ok cur' st'. f c cur st = Some (ok, cur', st') \<and> st_ok m st'))"

lemma schedule_seq_ok:
  "schedules C m self \<Longrightarrow> set subs \<subseteq> C \<Longrightarrow> st_ok m st \<Longrightarrow>
     \<exists>ok cur' st'. schedule_seq self subs cur st = Some (ok, cur', st') \<and> st_ok m st'"
proof (induction subs arbitrary: cur st)
  case Nil
  then show ?case by auto
next
  case (Cons sub subs)
  from Cons.prems obtain ok cur1 st1 where "self sub cur st = Some (ok, cur1, st1)" "st_ok m st1"
    by (fastforce simp: schedules_def)
  then show ?case using Cons.IH [of st1 cur1] Cons.prems by auto
qed

lemma schedule_node_ok:
  assumes "schedules (stmt_children n) m self" and "st_ok m st"
  shows "\<exists>ok cur' st'. schedule_node self n cur st = Some (ok, cur', st') \<and> st_ok m st'"
  using assms(2) schedule_seq_ok [OF assms(1) _ assms(2), of "sn_stmts n" cur]
  by (cases "sn_k n")
    (auto simp: schedule_node_def schedule_assign_def Let_def stmt_children_def st_ok_push)

lemma try_schedule_linear_ok:
  assumes "wf_stmts arena" and "root < fuel \<or> length arena \<le> root \<and> 0 < fuel" and "st_ok m st"
  shows "\<exists>ok cur' st'. try_schedule_linear fuel arena root cur st = Some (ok, cur', st') \<and> st_ok m st'"
  using assms(2,3)
proof (induction fuel arbitrary: root cur st)
  case 0
  then show ?case by simp
next
  case (Suc fuel)
  show ?case
  proof (cases "root < length arena")
    case False
    then show ?thesis using Suc.prems by auto
  next
    case True
    have "c < fuel" if "c \<in> stmt_children (arena ! root)" for c
      using assms(1) True that Suc.prems(1) by (fastforce simp: wf_stmts_def)
    then have "schedules (stmt_children (arena ! root)) m (try_schedule_linear fuel arena)"
      using Suc.IH by (simp add: schedules_def)
    then show ?thesis using True schedule_node_ok [OF _ Suc.prems(2)] by simp
  qed
qed

lemma schedule_roots_ok:
  assumes "schedules UNIV m sched" and "st_ok m st"
  shows "\<exists>l st'. schedule_roots sched roots lin cur st = Some (l, st') \<and> st_ok m st'"
  using assms(2)
proof (induction roots arbitrary: lin cur st)
  case Nil
  then show ?case by simp
next
  case (Cons root roots)
  from assms(1) Cons.prems obtain ok cur1 st1 where "sched root cur st = Some (ok, cur1, st1)" "st_ok m st1"
    by (fastforce simp: schedules_def)
  then show ?case using Cons.IH by auto
qed

lemma run_initial_ok:
  assumes "wf_stmts (ib_stmt_nodes ib)" and "st_ok m st"
  shows "\<exists>st'. run_initial m ib st = Some st' \<and> st_ok m st'"
proof -
  let ?f = "try_schedule_linear (Suc (length (ib_stmt_nodes ib))) (ib_stmt_nodes ib)"
  have "schedules UNIV m ?f"
    unfolding schedules_def using try_schedule_linear_ok [OF assms(1), of _ "Suc (length (ib_stmt_nodes ib))"]
    by (meson less_Suc_eq not_less zero_less_Suc)
  then obtain l st1 where 1: "schedule_roots ?f (ib_roots ib) False 0 st = Some (l, st1)" "st_ok m st1"
    using schedule_roots_ok assms(2) by blast
  obtain c st2 where "run_roots m (ib_stmt_nodes ib) (st_initial_base_tick st1) (ib_roots ib) False st1 = Some (c, st2)" "st_ok m st2"
    using run_roots_ok [OF assms(1) 1(2)] by blast
  then show ?thesis using 1 by (auto simp: run_initial_def simp del: try_schedule_linear.simps)
qed

lemma run_initials_ok:
  assumes "\<forall>ib \<in> set ibs. wf_stmts (ib_stmt_nodes ib)" and "st_ok m st"
  shows "\<exists>st'. run_initials m ibs st = Some st' \<and> st_ok m st'"
  using assms
proof (induction ibs arbitrary: st)
  case Nil
  then show ?case by simp
next
  case (Cons ib ibs)
  then obtain st1 where "run_initial m ib st = Some st1" "st_ok m st1"
    using run_initial_ok by (metis list.set_intros(1))
  then show ?case using Cons by auto
qed

subsection \<open>Passes over one node\<close>

text \<open>\<open>n'\<close> is \<open>n\<close> after a pass: the elaborated part is untouched and the node is still well formed.\<close>

definition next_ok :: "inst_node \<Rightarrow> inst_node \<Rightarrow> bool" where
  "next_ok n n' \<longleftrightarrow> static n' = static n \<and> (inode_ok n \<longrightarrow> inode_ok n')"

lemma next_ok_refl [simp]: "next_ok n n"
  by (simp add: next_ok_def)

lemma next_ok_trans: "next_ok n n1 \<Longrightarrow> next_ok n1 n2 \<Longrightarrow> next_ok n n2"
  by (simp add: next_ok_def)

lemma next_okD: "next_ok n n' \<Longrightarrow> inode_ok n \<Longrightarrow> inode_ok n'" "next_ok n n' \<Longrightarrow> static n' = static n"
  by (simp_all add: next_ok_def)

lemma next_ok_state:
  assumes "\<And>m. in_mod n = Some m \<Longrightarrow> st_ok m (in_state n) \<Longrightarrow> st_ok m st"
  shows "next_ok n (n\<lparr>in_state := st\<rparr>)"
  using assms by (auto simp: next_ok_def inode_ok_def)

lemma initial_pass_ok:
  assumes "inode_ok n"
  shows "\<exists>n'. initial_pass n tick = Some n' \<and> next_ok n n'"
proof -
  from assms obtain m where m: "in_mod n = Some m" "wf_module m" "st_ok m (in_state n)" by (rule inode_okE)
  let ?st = "(in_state n)\<lparr>st_nba_queue := []\<rparr>"
  obtain st1 where 1: "run_initials m (m_initials m) (?st\<lparr>st_initial_ran := True, st_initial_base_tick := tick\<rparr>) = Some st1"
      "st_ok m st1"
    using run_initials_ok [of "m_initials m" m "?st\<lparr>st_initial_ran := True, st_initial_base_tick := tick\<rparr>"] m
    by (auto simp: wf_module_def)
  then show ?thesis using m by (auto simp: initial_pass_def Let_def intro!: next_ok_state)
qed

lemma run_sequential_ok:
  assumes "inode_ok n"
  shows "\<exists>n'. run_sequential n tick = Some n' \<and> next_ok n n'"
proof -
  from assms obtain m where m: "in_mod n = Some m" "wf_module m" "st_ok m (in_state n)" by (rule inode_okE)
  obtain st1 where "run_ffs m tick (m_always_ffs m) (urandom_update m (in_state n)) = Some st1" "st_ok m st1"
    using run_ffs_ok [OF _ st_ok_urandom [OF m(3)], of "m_always_ffs m" tick] m(2)
    by (auto simp: wf_module_def)
  then show ?thesis using m by (auto simp: run_sequential_def intro!: next_ok_state)
qed

lemma sequential_local_ok:
  assumes "inode_ok n"
  shows "\<exists>n'. sequential_local tick ps n = Some n' \<and> next_ok n n'"
proof -
  obtain n1 where 1: "initial_pass n tick = Some n1" "next_ok n n1"
    using initial_pass_ok [OF assms] by blast
  let ?n2 = "n1\<lparr>in_state := process_due_events (in_state n1) tick\<rparr>"
  have 2: "next_ok n ?n2"
    by (rule next_ok_trans [OF 1(2) next_ok_state]) (rule st_ok_process_due_events)
  then obtain n3 where "run_sequential ?n2 tick = Some n3" "next_ok ?n2 n3"
    using run_sequential_ok next_okD assms by blast
  then show ?thesis using 1 2 next_ok_trans by (auto simp: sequential_local_def Let_def)
qed

lemma drive_signal_next_ok: "next_ok n (drive_signal_next n sig v)"
  by (auto simp: drive_signal_next_def Let_def st_ok_assign split: option.split intro!: next_ok_state)

lemma driven_set_grow:
  "in_driven_nets n' = grow_to False k (in_driven_nets n) \<Longrightarrow> driven_set n' = driven_set n"
  by (auto simp: driven_set_def grow_to_def resize_vec_def nth_append split: if_splits)

lemma prepare_net_drives_ok: "next_ok n (prepare_net_drives n)"
proof (cases "in_mod n")
  case None
  then show ?thesis by (simp add: prepare_net_drives_def)
next
  case (Some m)
  have "static (prepare_net_drives n) = static n"
    using driven_set_grow [of "prepare_net_drives n" "length (st_values (in_state n))" n] Some
    by (simp add: static_def prepare_net_drives_def Let_def)
  then show ?thesis
    using Some by (auto simp: next_ok_def inode_ok_def prepare_net_drives_def Let_def)
qed

lemma apply_drives_ok: "st_ok m' st \<Longrightarrow> st_ok m' (snd (apply_drives m driven is c st))"
proof (induction "is" arbitrary: c st)
  case Nil
  then show ?case by simp
next
  case (Cons i "is")
  obtain d st1 where 1: "assign_signal st i (st_next_net_values st ! i) = (d, st1)" by fastforce
  then have "st_ok m' st1" using st_ok_assign [OF Cons.prems, of i "st_next_net_values st ! i"] by simp
  then show ?case using Cons 1 by simp
qed

lemma apply_net_drives_ok: "next_ok n (snd (apply_net_drives n))"
proof (cases "in_mod n")
  case None
  then show ?thesis by (simp add: apply_net_drives_def)
next
  case (Some m)
  have "next_ok n (n\<lparr>in_state := snd (apply_drives m d is c (in_state n))\<rparr>)" for d "is" c
    by (rule next_ok_state) (rule apply_drives_ok)
  then show ?thesis using Some by (simp add: apply_net_drives_def Let_def case_prod_beta)
qed

lemma run_assign_ok:
  assumes "in_mod n = Some m"
  shows "next_ok n (run_assign m a n)"
proof -
  obtain go st1 where 1: "(if ca_guard_root a \<noteq> SIZE_MAX
             then (let (c, s) = eval_in m (ca_guard_root a) (in_state n)
                   in (normalize_z_to_x c = true_state, s))
             else (True, in_state n)) = (go, st1)" by fastforce
  obtain v st2 where 2: "eval_in m (ca_expr_root a) st1 = (v, st2)" by fastforce
  have ok1: "st_ok m st1" if "st_ok m (in_state n)"
    using 1 that st_ok_eval [OF that, of "ca_guard_root a"] by (auto split: if_splits prod.splits)
  then have ok2: "st_ok m st2" if "st_ok m (in_state n)"
    using that st_ok_eval [of m st1 "ca_expr_root a"] 2 by simp
  have "next_ok n (n\<lparr>in_state := st2\<rparr>)" "next_ok n (n\<lparr>in_state := st1\<rparr>)"
    using assms ok1 ok2 by (auto intro!: next_ok_state)
  then show ?thesis
    using drive_signal_next_ok next_ok_trans by (auto simp: run_assign_def 1 2 simp del: if_split_asm)
qed

lemma run_assigns_ok: "in_mod n = Some m \<Longrightarrow> next_ok n (foldl (\<lambda>n' a. run_assign m a n') n as)"
proof (induction as arbitrary: n)
  case Nil
  then show ?case by simp
next
  case (Cons a as)
  have "in_mod (run_assign m a n) = Some m"
    using next_okD(2) [OF run_assign_ok [OF Cons.prems]] Cons.prems static_mod by metis
  then show ?case using Cons.IH run_assign_ok [OF Cons.prems] next_ok_trans by simp blast
qed

lemma run_comb_local_ok:
  assumes "inode_ok n"
  shows "\<exists>c n'. run_comb_local n tick tok any = Some (c, n') \<and> next_ok n n'"
proof -
  from assms obtain m where m: "in_mod n = Some m" "wf_module m" "st_ok m (in_state n)" by (rule inode_okE)
  obtain c st1 where 1: "run_combs m tick tok any (m_always_combs m) False (in_state n) = Some (c, st1)" "st_ok m st1"
    using run_combs_ok [of "m_always_combs m" m "in_state n" tick tok any False] m
    by (auto simp: wf_module_def)
  have "next_ok n (n\<lparr>in_state := st1\<rparr>)" using m 1 by (auto intro!: next_ok_state)
  moreover have "next_ok (n\<lparr>in_state := st1\<rparr>) (foldl (\<lambda>n' a. run_assign m a n') (n\<lparr>in_state := st1\<rparr>) (m_assigns m))"
    using m by (intro run_assigns_ok) simp
  ultimately show ?thesis using m 1 next_ok_trans by (auto simp: run_comb_local_def)
qed

subsection \<open>Parents and children\<close>

lemma port_value_ok: "next_ok n (snd (port_value n b))"
proof (cases "in_mod n")
  case None
  then show ?thesis by (simp add: port_value_def split: binding_kind.split)
next
  case (Some m)
  have "next_ok n (n\<lparr>in_state := snd (eval_in m r (in_state n))\<rparr>)" for r
    using Some by (auto intro!: next_ok_state st_ok_eval)
  then show ?thesis using Some by (simp add: port_value_def case_prod_beta split: binding_kind.split)
qed

lemma drive_ports_ok:
  "drive_ports pbs c parent cst = (c', parent', cst') \<Longrightarrow>
     next_ok parent parent' \<and> (\<forall>m. st_ok m cst \<longrightarrow> st_ok m cst')"
proof (induction pbs arbitrary: c parent cst)
  case Nil
  then show ?case by simp
next
  case (Cons pb pbs)
  obtain p b where pb: "pb = (p, b)" by (cases pb)
  obtain v parent1 where 1: "port_value parent b = (v, parent1)" by fastforce
  obtain d cst1 where 2: "assign_signal cst (p_signal p) v = (d, cst1)" by fastforce
  have "next_ok parent parent1" using port_value_ok [of parent b] 1 by simp
  moreover have "st_ok m cst1" if "st_ok m cst" for m
    using st_ok_assign [OF that, of "p_signal p" v] 2 by simp
  ultimately show ?case
    using Cons.prems Cons.IH [of c parent cst] Cons.IH [of "d \<or> c" parent1 cst1] next_ok_trans
    by (auto simp: pb 1 2 split: if_splits)
qed

lemma propagate_parent_to_child_ok:
  assumes "propagate_parent_to_child parent child = (c, parent', child')"
  shows "next_ok parent parent' \<and> next_ok child child'"
proof (cases "in_mod child")
  case None
  then show ?thesis using assms by (simp add: propagate_parent_to_child_def)
next
  case (Some cm)
  obtain d p cst where 1: "drive_ports (zip (m_ports cm) (in_bindings child)) False parent (in_state child) = (d, p, cst)"
    using prod_cases3 by blast
  show ?thesis
    using assms Some drive_ports_ok [OF 1]
    by (auto simp: propagate_parent_to_child_def 1 split: if_splits intro!: next_ok_state)
qed

lemma propagate_child_to_parent_ok: "next_ok parent (propagate_child_to_parent child parent)"
proof -
  have step: "next_ok p (apply_port_drive cst p d)" for p cst d
    by (simp add: apply_port_drive_def drive_signal_next_ok)
  have "next_ok p (foldl (apply_port_drive cst) p ds)" for p cst ds
    by (induction ds arbitrary: p) (auto intro: next_ok_trans [OF step])
  then show ?thesis by (simp add: propagate_child_to_parent_def split: option.split)
qed

lemma propagate_up_ok: "next_ok n (propagate_up cs n)"
  unfolding propagate_up_def
  by (induction cs arbitrary: n) (auto intro: next_ok_trans [OF propagate_child_to_parent_ok])

subsection \<open>The instance tree\<close>

datatype 'a rose = Rose 'a "'a rose list"

fun shape :: "instance_state \<Rightarrow> static_part rose" where
  "shape (Inst n cs) = Rose (static n) (map shape cs)"

fun tree_all :: "(inst_node \<Rightarrow> bool) \<Rightarrow> instance_state \<Rightarrow> bool" where
  "tree_all P (Inst n cs) \<longleftrightarrow> P n \<and> (\<forall>c \<in> set cs. tree_all P c)"

fun rose_depth :: "'a rose \<Rightarrow> nat" where
  "rose_depth (Rose a rs) = Suc (foldr max (map rose_depth rs) 0)"

lemma depth_shape: "depth t = rose_depth (shape t)"
proof (induction t)
  case (Inst n cs)
  then have "map depth cs = map (rose_depth \<circ> shape) cs" by simp
  then show ?case by (simp only: depth.simps shape.simps rose_depth.simps map_map)
qed

lemma foldr_max_ge: "x \<in> set xs \<Longrightarrow> x \<le> foldr max xs (0::nat)"
  by (induction xs) auto

lemma depth_child: "c \<in> set cs \<Longrightarrow> depth c < depth (Inst n cs)"
  using foldr_max_ge [of "depth c" "map depth cs"] by (simp add: less_Suc_eq_le)

lemma depth_pos: "0 < depth t"
  by (cases t) simp

abbreviation tree_ok :: "instance_state \<Rightarrow> bool" where
  "tree_ok \<equiv> tree_all inode_ok"

lemma sequential_pass_ok:
  "tree_ok t \<Longrightarrow> \<exists>t'. sequential_pass tick ps t = Some t' \<and> shape t' = shape t \<and> tree_ok t'"
  "inode_ok n \<Longrightarrow> \<forall>c \<in> set cs. tree_ok c \<Longrightarrow>
     \<exists>n' cs'. sequential_children tick ps n cs = Some (n', cs') \<and> next_ok n n' \<and>
       map shape cs' = map shape cs \<and> (\<forall>c \<in> set cs'. tree_ok c)"
proof (induction tick ps t and tick ps n cs rule: sequential_pass_sequential_children.induct)
  case (1 tick ps n cs)
  then have n: "inode_ok n" and cs: "\<forall>c \<in> set cs. tree_ok c" by auto
  obtain n1 where n1: "sequential_local tick ps n = Some n1" "next_ok n n1"
    using sequential_local_ok [OF n] by blast
  from 1(1) [OF n1(1) next_okD(1) [OF n1(2) n] cs]
  obtain n2 cs' where "sequential_children tick ps n1 cs = Some (n2, cs')" "next_ok n1 n2"
      "map shape cs' = map shape cs" "\<forall>c \<in> set cs'. tree_ok c"
    by blast
  then show ?case using n n1 by (auto simp: next_ok_def)
next
  case (2 tick ps n)
  then show ?case by simp
next
  case (3 tick ps n cn ccs cs)
  obtain c n1 cn1 where 1: "propagate_parent_to_child n cn = (c, n1, cn1)" using prod_cases3 by blast
  note p = propagate_parent_to_child_ok [OF 1]
  have "tree_ok (Inst cn1 ccs)" using 3(4) p by (auto dest: next_okD)
  then obtain child where child: "sequential_pass tick ps (Inst cn1 ccs) = Some child"
      "shape child = shape (Inst cn1 ccs)" "tree_ok child"
    using 3(1) [of "(c, n1, cn1)" c "(n1, cn1)" n1 cn1] 1 by auto
  have "inode_ok n1" using 3(3) p by (auto dest: next_okD)
  then obtain n2 cs' where "sequential_children tick ps n1 cs = Some (n2, cs')" "next_ok n1 n2"
      "map shape cs' = map shape cs" "\<forall>c \<in> set cs'. tree_ok c"
    using 3(2) [of "(c, n1, cn1)" c "(n1, cn1)" n1 cn1 child] 3(4) 1 child by auto
  then show ?case using 1 child p
    by (auto simp del: sequential_pass.simps dest: next_okD(2) intro: next_ok_trans)
qed

definition nba_empty :: "inst_node \<Rightarrow> bool" where
  "nba_empty n \<longleftrightarrow> st_nba_queue (in_state n) = []"

definition resolves :: "nat \<Rightarrow> resolver \<Rightarrow> bool" where
  "resolves d self \<longleftrightarrow>
     (\<forall>t. tree_ok t \<longrightarrow> depth t \<le> d \<longrightarrow>
        (\<exists>c t'. self t = Some (c, t') \<and> shape t' = shape t \<and> tree_ok t' \<and> tree_all nba_empty t'))"

lemma propagate_down_ok:
  "propagate_down n cs c = (c', n', cs') \<Longrightarrow> inode_ok n \<Longrightarrow> \<forall>t \<in> set cs. tree_ok t \<Longrightarrow>
     next_ok n n' \<and> map shape cs' = map shape cs \<and> (\<forall>t \<in> set cs'. tree_ok t)"
proof (induction cs arbitrary: n c c' n' cs')
  case Nil
  then show ?case by simp
next
  case (Cons t cs)
  obtain cn ccs where t: "t = Inst cn ccs" by (cases t)
  obtain d n1 cn1 where 1: "propagate_parent_to_child n cn = (d, n1, cn1)" using prod_cases3 by blast
  obtain e n2 cs2 where 2: "propagate_down n1 cs (d \<or> c) = (e, n2, cs2)" using prod_cases3 by blast
  note p = propagate_parent_to_child_ok [OF 1]
  have "next_ok n1 n2 \<and> map shape cs2 = map shape cs \<and> (\<forall>t \<in> set cs2. tree_ok t)"
    using Cons.prems p by (intro Cons.IH [OF 2]) (auto dest: next_okD)
  then show ?case using Cons.prems p by (auto simp: t 1 2 next_ok_def)
qed

lemma resolve_children_ok:
  assumes "resolves d self" and "\<forall>t \<in> set ts. tree_ok t \<and> depth t \<le> d"
  shows "\<exists>c' ts'. resolve_children self ts c = Some (c', ts') \<and> map shape ts' = map shape ts \<and>
    (\<forall>t \<in> set ts'. tree_ok t \<and> tree_all nba_empty t)"
  using assms(2)
proof (induction ts arbitrary: c)
  case Nil
  then show ?case by simp
next
  case (Cons t ts)
  from assms(1) Cons.prems obtain e t' where
    t': "self t = Some (e, t')" "shape t' = shape t" "tree_ok t'" "tree_all nba_empty t'"
    by (auto simp: resolves_def)
  obtain c' ts' where "resolve_children self ts (e \<or> c) = Some (c', ts')" "map shape ts' = map shape ts"
      "\<forall>t \<in> set ts'. tree_ok t \<and> tree_all nba_empty t"
    using Cons.IH [of "e \<or> c"] Cons.prems by auto
  then show ?case using t' by auto
qed

lemma map_shape_depth:
  "map shape cs' = map shape cs \<Longrightarrow> \<forall>t \<in> set cs. depth t \<le> d \<Longrightarrow> \<forall>t \<in> set cs'. depth t \<le> d"
proof
  fix t assume eq: "map shape cs' = map shape cs" and le: "\<forall>t \<in> set cs. depth t \<le> d" and "t \<in> set cs'"
  then have "shape t \<in> shape ` set cs" by (metis image_eqI list.set_map)
  then show "depth t \<le> d" using le by (auto simp: depth_shape)
qed

lemma next_ok_st: "(\<And>m. st_ok m (in_state n) \<Longrightarrow> st_ok m st) \<Longrightarrow> next_ok n (n\<lparr>in_state := st\<rparr>)"
  by (rule next_ok_state)

lemma st_ok_begin_change_epoch: "st_ok m st \<Longrightarrow> st_ok m (snd (begin_change_epoch st))"
  by (simp add: st_ok_def frame_simps begin_change_epoch_inv)

text \<open>What one pass over a node and its subtrees guarantees.\<close>

definition pass_ok :: "inst_node \<Rightarrow> instance_state list \<Rightarrow> inst_node \<Rightarrow> instance_state list \<Rightarrow> bool" where
  "pass_ok n cs n' cs' \<longleftrightarrow>
     next_ok n n' \<and> inode_ok n' \<and> map shape cs' = map shape cs \<and> (\<forall>t \<in> set cs'. tree_ok t)"

lemma comb_iter_ok:
  assumes self: "resolves d self" and n: "inode_ok n" and cs: "\<forall>t \<in> set cs. tree_ok t \<and> depth t \<le> d"
  shows "\<exists>c tok n' cs'. comb_iter self tick trig any n cs = Some (c, tok, n', cs') \<and>
    pass_ok n cs n' cs' \<and> nba_empty n' \<and> (\<forall>t \<in> set cs'. tree_all nba_empty t)"
proof -
  obtain tok st where 0: "begin_change_epoch (in_state n) = (tok, st)" by fastforce
  let ?n1 = "prepare_net_drives (n\<lparr>in_state := st\<rparr>)"
  have "next_ok n (n\<lparr>in_state := st\<rparr>)"
    using st_ok_begin_change_epoch [of _ "in_state n"] 0 by (intro next_ok_st) simp
  then have n1: "next_ok n ?n1" using prepare_net_drives_ok next_ok_trans by blast
  obtain c1 n2 cs1 where 1: "propagate_down ?n1 cs False = (c1, n2, cs1)" using prod_cases3 by blast
  have cs1: "next_ok ?n1 n2 \<and> map shape cs1 = map shape cs \<and> (\<forall>t \<in> set cs1. tree_ok t)"
    using n1 n cs by (intro propagate_down_ok [OF 1]) (auto dest: next_okD)
  then have "\<forall>t \<in> set cs1. tree_ok t \<and> depth t \<le> d"
    using map_shape_depth [of cs1 cs d] cs by auto
  from resolve_children_ok [OF self this, of c1] obtain c2 cs2 where
    2: "resolve_children self cs1 c1 = Some (c2, cs2)" "map shape cs2 = map shape cs1"
      "\<forall>t \<in> set cs2. tree_ok t \<and> tree_all nba_empty t" by blast
  have n3: "next_ok n (propagate_up cs2 n2)"
    using n1 cs1 propagate_up_ok next_ok_trans by blast
  then obtain c3 n4 where 3: "run_comb_local (propagate_up cs2 n2) tick trig any = Some (c3, n4)"
      "next_ok (propagate_up cs2 n2) n4"
    using run_comb_local_ok next_okD(1) n by blast
  obtain c4 n5 where 4: "apply_net_drives n4 = (c4, n5)" by fastforce
  obtain c5 st5 where 5: "apply_nba (in_state n5) = (c5, st5)" by fastforce
  have n5: "next_ok n n5"
    using n3 3(2) apply_net_drives_ok [of n4] 4 next_ok_trans by (metis snd_conv)
  have n6: "next_ok n (n5\<lparr>in_state := st5\<rparr>)"
    using st_ok_apply_nba [of _ "in_state n5"] 5 by (intro next_ok_trans [OF n5] next_ok_st) simp
  have "nba_empty (n5\<lparr>in_state := st5\<rparr>)"
    using 5 by (auto simp: nba_empty_def apply_nba_def split: prod.splits)
  then show ?thesis
    using 2 cs1 n6 next_okD(1) [OF n6 n] by (simp add: comb_iter_def 0 1 3 4 5 pass_ok_def)
qed

lemma pass_ok_trans:
  "pass_ok n cs n1 cs1 \<Longrightarrow> pass_ok n1 cs1 n2 cs2 \<Longrightarrow> pass_ok n cs n2 cs2"
  by (auto simp: pass_ok_def intro: next_ok_trans)

lemma comb_loop_ok:
  assumes self: "resolves d self" and n: "inode_ok n" and cs: "\<forall>t \<in> set cs. tree_ok t \<and> depth t \<le> d"
    and k: "0 < k \<or> nba_empty n \<and> (\<forall>t \<in> set cs. tree_all nba_empty t)"
  shows "\<exists>c n' cs'. comb_loop self tick k trig any ac n cs = Some (c, n', cs') \<and>
    pass_ok n cs n' cs' \<and> nba_empty n' \<and> (\<forall>t \<in> set cs'. tree_all nba_empty t)"
  using n cs k
proof (induction k arbitrary: trig any ac n cs)
  case 0
  then show ?case by (simp add: pass_ok_def)
next
  case (Suc k)
  from comb_iter_ok [OF self Suc.prems(1,2), of tick trig any] obtain c tok n1 cs1 where
    1: "comb_iter self tick trig any n cs = Some (c, tok, n1, cs1)" and p: "pass_ok n cs n1 cs1"
      and e: "nba_empty n1" "\<forall>t \<in> set cs1. tree_all nba_empty t" by blast
  have "\<forall>t \<in> set cs1. tree_ok t \<and> depth t \<le> d"
    using p Suc.prems(2) map_shape_depth [of cs1 cs d] by (auto simp: pass_ok_def)
  then show ?case
    using 1 p e Suc.IH [of n1 cs1 tok "st_changed_signals (in_state n1) \<noteq> []" True]
    by (auto simp: pass_ok_def intro: next_ok_trans)
qed

lemma foldl_marks_set: "set (foldl (\<lambda>mk i. mk[i := tok]) mk is) \<subseteq> insert tok (set mk)"
proof (induction "is" arbitrary: mk)
  case Nil
  then show ?case by auto
next
  case (Cons i "is")
  have "set (mk[i := tok]) \<subseteq> insert tok (set mk)" by (rule set_update_subset_insert)
  then show ?case using Cons.IH [of "mk[i := tok]"] by auto
qed

lemma st_ok_comb_start:
  assumes "st_ok m st"
  shows "st_ok m (snd (snd (comb_start st)))"
proof -
  let ?st1 = "if length (st_comb_prev_values st) \<noteq> length (st_values st)
    then st\<lparr>st_comb_prev_values := st_prev_values st\<rparr> else st"
  let ?st2 = "?st1\<lparr>st_change_mark := grow_to 0 (length (st_values ?st1)) (st_change_mark ?st1)\<rparr>"
  obtain tok st3 where 3: "begin_change_epoch ?st2 = (tok, st3)" by fastforce
  have ok1: "st_ok m ?st1" using assms by simp
  then have "st_ok m ?st2"
    using set_grow_to [of "0::u32" "length (st_values ?st1)" "st_change_mark ?st1"]
    by (auto simp: st_ok_def st_inv_def nth_grow_to)
  then have ok3: "st_ok m st3" using st_ok_begin_change_epoch 3 by (metis snd_conv)
  moreover have "st_changed_signals st3 = []" "st_change_token st3 = tok"
    using begin_change_epoch_frame(7,11) [of ?st2] 3 by auto
  ultimately have "st_ok m (snd (mark_changed tok st3))"
    using foldl_marks_set [of tok "st_change_mark st3"]
    by (fastforce simp: mark_changed_def Let_def st_ok_def st_inv_def)
  then show ?thesis by (auto simp: comb_start_def 3 Let_def split: prod.splits)
qed

lemma tree_all_mono: "tree_all P t \<Longrightarrow> (\<And>n. P n \<Longrightarrow> Q n) \<Longrightarrow> tree_all Q t"
  by (induction t) auto

lemma comb_resolve_ok: "resolves d (comb_resolve d tick)"
proof (induction d)
  case 0
  then show ?case using depth_pos by (simp add: resolves_def)
next
  case (Suc d)
  show ?case unfolding resolves_def
  proof (intro allI impI)
    fix t assume t: "tree_ok t" "depth t \<le> Suc d"
    obtain n cs where tt: "t = Inst n cs" by (cases t)
    then have n: "inode_ok n" and cs: "\<forall>c \<in> set cs. tree_ok c \<and> depth c \<le> d"
      using t depth_child [of _ cs n] by fastforce+
    obtain tok any st where 1: "comb_start (in_state n) = (tok, any, st)" using prod_cases3 by blast
    have n1: "next_ok n (n\<lparr>in_state := st\<rparr>)"
      using st_ok_comb_start [of _ "in_state n"] 1 by (intro next_ok_st) simp
    have m: "in_mod n \<noteq> None" using n by (auto elim: inode_okE)
    from comb_loop_ok [OF Suc.IH next_okD(1) [OF n1 n] cs, of comb_max_iter tick tok any False]
    obtain c n' cs' where 2: "comb_loop (comb_resolve d tick) tick comb_max_iter tok any False (n\<lparr>in_state := st\<rparr>) cs
        = Some (c, n', cs')" "pass_ok (n\<lparr>in_state := st\<rparr>) cs n' cs'" "nba_empty n'"
        "\<forall>t \<in> set cs'. tree_all nba_empty t"
      by (auto simp: comb_max_iter_def)
    let ?n2 = "upd_state (\<lambda>s. s\<lparr>st_comb_prev_values := st_values s\<rparr>) n'"
    have "next_ok n ?n2 \<and> nba_empty ?n2"
      using n1 2(2,3) unfolding upd_state_def
      by (auto simp: pass_ok_def nba_empty_def intro: next_ok_trans [OF n1 next_ok_trans [OF _ next_ok_st]])
    then show "\<exists>c t'. comb_resolve (Suc d) tick t = Some (c, t') \<and> shape t' = shape t \<and> tree_ok t' \<and> tree_all nba_empty t'"
      using 2 m n by (auto simp: tt 1 pass_ok_def dest: next_okD)
  qed
qed

subsection \<open>Simulation steps\<close>

definition quiescent :: "inst_node \<Rightarrow> bool" where
  "quiescent n \<longleftrightarrow>
     (let st = in_state n in
      st_nba_queue st = [] \<and> st_prev_values st = st_values st \<and> st_comb_prev_values st = st_values st)"

lemma shape_update_prev: "shape (update_prev_recursive t) = shape t"
  by (induction t) auto

lemma tree_ok_update_prev: "tree_ok t \<Longrightarrow> tree_ok (update_prev_recursive t)"
proof (induction t)
  case (Inst n cs)
  then have "inode_ok (upd_state snapshot n)"
    by (auto simp: inode_ok_def upd_state_def snapshot_def st_ok_def st_inv_def)
  then show ?case using Inst by auto
qed

lemma quiescent_update_prev: "tree_all nba_empty t \<Longrightarrow> tree_all quiescent (update_prev_recursive t)"
  by (induction t) (auto simp: quiescent_def nba_empty_def upd_state_def snapshot_def Let_def)

lemma simulate_ok:
  assumes "tree_ok t"
  shows "\<exists>t'. simulate t tick ps = Some t' \<and> shape t' = shape t \<and> tree_ok t' \<and> tree_all quiescent t'"
proof -
  obtain t1 where 1: "sequential_pass tick ps t = Some t1" "shape t1 = shape t" "tree_ok t1"
    using sequential_pass_ok(1) [OF assms] by blast
  obtain c t2 where "comb_resolve (depth t1) tick t1 = Some (c, t2)" "shape t2 = shape t1" "tree_ok t2"
      "tree_all nba_empty t2"
    using comb_resolve_ok [of "depth t1" tick] 1(3) by (auto simp: resolves_def)
  then show ?thesis
    using 1 by (simp add: simulate_def shape_update_prev tree_ok_update_prev quiescent_update_prev)
qed

text \<open>A run: one step per clock tick.\<close>

fun simulate_run :: "instance_state \<Rightarrow> u64 list \<Rightarrow> instance_state option" where
  "simulate_run t [] = Some t"
| "simulate_run t (tick # ticks) = do {t1 \<leftarrow> simulate t tick True; simulate_run t1 ticks}"

lemma simulate_run_ok:
  "tree_ok t \<Longrightarrow> \<exists>t'. simulate_run t ticks = Some t' \<and> shape t' = shape t \<and> tree_ok t'"
proof (induction ticks arbitrary: t)
  case Nil
  then show ?case by simp
next
  case (Cons tick ticks)
  obtain t1 where "simulate t tick True = Some t1" "shape t1 = shape t" "tree_ok t1"
    using simulate_ok [OF Cons.prems] by blast
  then show ?case using Cons.IH [of t1] by auto
qed

subsection \<open>Elaboration\<close>

lemma foldl_index_module:
  assumes "k \<le> length ms"
  shows "foldl (index_module ms) Map.empty [0..<k] nm =
    (if \<exists>i < k. m_name (ms ! i) = nm then Some (LEAST i. m_name (ms ! i) = nm) else None)"
  using assms
proof (induction k)
  case 0
  then show ?case by simp
next
  case (Suc k)
  show ?case
  proof (cases "\<exists>i < k. m_name (ms ! i) = nm")
    case True
    then show ?thesis using Suc by (auto simp: index_module_def less_Suc_eq)
  next
    case False
    then have "(LEAST i. m_name (ms ! i) = nm) = k" if "m_name (ms ! k) = nm"
      using that by (intro Least_equality) (auto simp: not_less [symmetric])
    then show ?thesis using Suc False by (auto simp: index_module_def less_Suc_eq)
  qed
qed

lemma find_module_build_design: "find_module (build_design ms) nm = find (\<lambda>m. m_name m = nm) ms"
proof (cases "\<exists>i < length ms. m_name (ms ! i) = nm")
  case True
  then obtain i where i: "i < length ms" "m_name (ms ! i) = nm" by blast
  define l where "l = (LEAST i. m_name (ms ! i) = nm)"
  have "m_name (ms ! l) = nm" "l \<le> i" "\<forall>j < l. m_name (ms ! j) \<noteq> nm"
    unfolding l_def using LeastI [of "\<lambda>i. m_name (ms ! i) = nm", OF i(2)]
      Least_le [of "\<lambda>i. m_name (ms ! i) = nm", OF i(2)] not_less_Least by blast+
  then have "find (\<lambda>m. m_name m = nm) ms = Some (ms ! l)"
    using i(1) unfolding find_Some_iff by (intro exI [of _ l]) simp
  then show ?thesis
    using True foldl_index_module [of "length ms" ms nm]
    by (simp add: find_module_def build_design_def l_def [symmetric])
next
  case False
  then have "find (\<lambda>m. m_name m = nm) ms = None" by (auto simp: find_None_iff in_set_conv_nth)
  then show ?thesis
    using False foldl_index_module [of "length ms" ms nm] by (simp add: find_module_def build_design_def)
qed

lemma find_in_set: "find P xs = Some x \<Longrightarrow> x \<in> set xs"
  by (auto simp: find_Some_iff)

lemma st_ok_init: "wf_module m \<Longrightarrow> st_ok m (init_state m)"
  using st_inv_init [of m] by (simp add: st_ok_def wf_module_def init_state_def Let_def)

lemma in_mod_init_driven [simp]:
  "in_mod (init_driven_nets_from_assigns n) = in_mod n"
  "in_state (init_driven_nets_from_assigns n) = in_state n"
  by (simp_all add: init_driven_nets_from_assigns_def split: option.split)

lemma inode_ok_new: "wf_module m \<Longrightarrow> inode_ok (new_node m nm)"
  by (auto simp: inode_ok_def new_node_def st_ok_init)

lemma st_ok_apply_params: "st_ok cm st \<Longrightarrow> st_ok cm (apply_params cm idef st)"
proof -
  have bit: "st_ok cm (override_bit vd v st i)" if "st_ok cm st" for vd v st i
    using that by (auto simp: override_bit_def Let_def st_ok_def st_inv_def)
  have "st_ok cm (foldl (override_bit vd v) st is)" if "st_ok cm st" for vd v st "is"
    using that by (induction "is" arbitrary: st) (auto simp: bit)
  then have one: "st_ok cm (apply_param cm st pv)" if "st_ok cm st" for st pv
    using that by (simp add: apply_param_def apply_param_value_def split: option.split)
  have "st_ok cm (foldl (apply_param cm) st pvs)" if "st_ok cm st" for st pvs
    using that by (induction pvs arbitrary: st) (auto simp: one)
  then show "st_ok cm st \<Longrightarrow> ?thesis" by (simp add: apply_params_def)
qed

lemma inode_ok_child: "wf_module cm \<Longrightarrow> inode_ok (make_child pm cm idef)"
  using inode_ok_new [of cm "id_instance_name idef"] st_ok_apply_params
  by (auto simp: make_child_def inode_ok_def new_node_def Let_def split: prod.split)

lemma inode_ok_mark: "inode_ok p \<Longrightarrow> inode_ok (mark_child_drives pm p c)"
  by (auto simp: mark_child_drives_def inode_ok_def Let_def)

definition wf_design :: "compiled_design \<Rightarrow> bool" where
  "wf_design d \<longleftrightarrow> (\<forall>nm m. find_module d nm = Some m \<longrightarrow> wf_module m)"

lemma wf_build_design: "\<forall>m \<in> set ms. wf_module m \<Longrightarrow> wf_design (build_design ms)"
  by (auto simp: wf_design_def find_module_build_design dest: find_in_set)

lemma elaborate_children_ok:
  "wf_design d \<Longrightarrow> inode_ok p \<Longrightarrow> tree_ok (elaborate_children l d p)"
  "wf_design d \<Longrightarrow> inode_ok p \<Longrightarrow> \<forall>c \<in> set cs. tree_ok c \<Longrightarrow> tree_ok (elaborate_instances l d pm idefs p cs)"
proof (induction l d p and l d pm idefs p cs rule: elaborate_children_elaborate_instances.induct)
  case (4 levels d pm idef idefs parent cs)
  then show ?case
    by (auto simp: Let_def wf_design_def inode_ok_mark inode_ok_child split: option.split)
qed (auto split: option.split)

lemma foldr_max_le: "\<forall>x \<in> set xs. x \<le> b \<Longrightarrow> foldr max xs (0::nat) \<le> b"
  by (induction xs) auto

lemma elaborate_children_depth:
  "depth (elaborate_children l d p) \<le> Suc l"
  "\<forall>c \<in> set cs. depth c \<le> Suc l \<Longrightarrow> depth (elaborate_instances l d pm idefs p cs) \<le> Suc (Suc l)"
proof (induction l d p and l d pm idefs p cs rule: elaborate_children_elaborate_instances.induct)
  case (3 levels d pm parent cs)
  then show ?case using foldr_max_le [of "map depth cs" "Suc levels"] by simp
qed (auto simp: Let_def split: option.split)

end
