(* ===== verification/Verilog_Module.thy ===== *)
theory Verilog_Module
  imports Devices Sched_Props
begin

text \<open>
  The device that embeds a Verilog design in a circuit (\<^verbatim>\<open>model/models/digital/verilog_module.h\<close>): its
  construction from compiled modules, its copy, and its \<^verbatim>\<open>update_digital_clk_define\<close>, which samples the
  input ports, simulates the design and drives the output ports. The result of \<^verbatim>\<open>compile\<close> is an
  argument. Pins are the nodes the netlist gives the device, one per port.
\<close>

subsection \<open>The device\<close>

definition new_module_state :: module_state where
  "new_module_state =
     \<lparr>st_mod = None, st_values = [], st_prev_values = [], st_comb_prev_values = [], st_comb_initialized = False,
      st_initial_ran = False, st_initial_base_tick = 0, st_events = [], st_nba_queue = [], st_next_net_values = [],
      st_change_mark = [], st_changed_signals = [], st_change_token = 1, st_eval = eval_cache_init\<rparr>"

definition new_instance_state :: instance_state where
  "new_instance_state =
     Inst \<lparr>in_mod = None, in_instance_name = '''', in_state = new_module_state, in_driven_nets = [], in_bindings = [],
           in_output_drives = []\<rparr> []"

record verilog_module =
  v_levels :: drive_levels
  v_source :: string
  v_top :: string
  v_design :: "compiled_design option"
  top_instance :: instance_state
  v_tick :: u64
  pin_name_storage :: "string list"
  analog_emit_cursor :: nat

definition new_VERILOG_MODULE :: verilog_module where
  "new_VERILOG_MODULE =
     \<lparr>v_levels = \<lparr>Ll = 0, Hl = 0x4014000000000000\<rparr>, v_source = '''', v_top = '''', v_design = None,
      top_instance = new_instance_state, v_tick = 0, pin_name_storage = [], analog_emit_cursor = 0\<rparr>"

abbreviation top_mod_of :: "verilog_module \<Rightarrow> compiled_module option" where
  "top_mod_of m \<equiv> in_mod (inst_of (top_instance m))"

abbreviation top_values :: "verilog_module \<Rightarrow> logic_t list" where
  "top_values m \<equiv> st_values (in_state (inst_of (top_instance m)))"

definition port_names :: "instance_state \<Rightarrow> string list" where
  "port_names t = (case in_mod (inst_of t) of None \<Rightarrow> [] | Some cm \<Rightarrow> map p_name (m_ports cm))"

definition make_verilog_module :: "compiled_module list \<Rightarrow> string \<Rightarrow> string \<Rightarrow> verilog_module" where
  "make_verilog_module cr_modules source top_name =
     (let m = new_VERILOG_MODULE\<lparr>v_source := source, v_top := top_name\<rparr> in
      if cr_modules = [] then m
      else let d = build_design cr_modules;
               chosen = (case find_module d top_name of Some c \<Rightarrow> c | None \<Rightarrow> hd (d_modules d));
               t = elaborate d chosen
        in m\<lparr>v_design := Some d, top_instance := t, pin_name_storage := port_names t\<rparr>)"

definition vm_ports :: "verilog_module \<Rightarrow> port list" where
  "vm_ports m = (case top_mod_of m of None \<Rightarrow> [] | Some cm \<Rightarrow> m_ports cm)"

subsection \<open>Copies\<close>

text \<open>The copy of a module state leaves three members of the target alone.\<close>

definition deep_copy_module_state :: "module_state \<Rightarrow> module_state \<Rightarrow> module_state" where
  "deep_copy_module_state dst src =
     src\<lparr>st_comb_initialized := st_comb_initialized dst, st_initial_ran := st_initial_ran dst,
         st_initial_base_tick := st_initial_base_tick dst\<rparr>"

fun deep_copy_instance_state :: "module_state \<Rightarrow> instance_state \<Rightarrow> instance_state" where
  "deep_copy_instance_state dst (Inst n cs) =
     Inst (n\<lparr>in_state := deep_copy_module_state dst (in_state n)\<rparr>) (map (deep_copy_instance_state new_module_state) cs)"

definition assign_verilog_module :: "verilog_module \<Rightarrow> verilog_module \<Rightarrow> verilog_module" where
  "assign_verilog_module this other =
     (let t = deep_copy_instance_state (in_state (inst_of (top_instance this))) (top_instance other)
      in other\<lparr>top_instance := t, pin_name_storage := port_names t\<rparr>)"

definition copy_verilog_module :: "verilog_module \<Rightarrow> verilog_module" where
  "copy_verilog_module other = assign_verilog_module new_VERILOG_MODULE other"

subsection \<open>Evaluation\<close>

fun sample_ports :: "f64_ops \<Rightarrow> drive_levels \<Rightarrow> node_store \<Rightarrow> port list \<Rightarrow> node_ref option list \<Rightarrow> logic_t list \<Rightarrow> logic_t list" where
  "sample_ports ops lv s (p # ports) (n # ns) vs =
     sample_ports ops lv s ports ns
       (case n of None \<Rightarrow> vs
        | Some r \<Rightarrow> if (p_dir p = dir_input \<or> p_dir p = dir_inout \<or> p_dir p = dir_unknown) \<and> p_signal p < length vs
                   then vs[p_signal p := read_raw ops lv s r] else vs)"
| "sample_ports ops lv s ports ns vs = vs"

definition drives :: "port \<Rightarrow> bool" where
  "drives p \<longleftrightarrow> p_dir p = dir_output \<or> p_dir p = dir_inout"

fun drive_pins :: "logic_t list \<Rightarrow> port list \<Rightarrow> node_ref option list \<Rightarrow> node_store \<Rightarrow> node_store" where
  "drive_pins vs (p # ports) (n # ns) s =
     drive_pins vs ports ns
       (case n of None \<Rightarrow> s
        | Some r \<Rightarrow> if drives p \<and> p_signal p < length vs \<and> \<not> is_analog s r then write_changed r (vs ! p_signal p) s else s)"
| "drive_pins vs ports ns s = s"

text \<open>A port that can drive an analog node now, and the loop that starts at the cursor.\<close>

definition can_emit :: "node_store \<Rightarrow> logic_t list \<Rightarrow> port \<Rightarrow> node_ref option \<Rightarrow> bool" where
  "can_emit s vs p n \<longleftrightarrow>
     drives p \<and> (case n of None \<Rightarrow> False | Some r \<Rightarrow> is_analog s r) \<and> p_signal p < length vs \<and> vs ! p_signal p \<noteq> high_impedence_state"

definition emit_analog :: "drive_levels \<Rightarrow> node_store \<Rightarrow> logic_t list \<Rightarrow> port list \<Rightarrow> node_ref option list \<Rightarrow> nat \<Rightarrow> nat \<times> analog_drive" where
  "emit_analog lv s vs ports ns cursor =
     (let nports = length ports in
      case find (\<lambda>i. can_emit s vs (ports ! i) (ns ! i)) (map (\<lambda>k. (cursor + k) mod nports) [0..<nports]) of
        None \<Rightarrow> (cursor, None)
      | Some i \<Rightarrow> ((i + 1) mod nports, map_option (\<lambda>r. (drive_voltage lv (vs ! p_signal (ports ! i)), r)) (ns ! i)))"

definition set_top_values :: "(logic_t list \<Rightarrow> logic_t list) \<Rightarrow> instance_state \<Rightarrow> instance_state" where
  "set_top_values f t = Inst (upd_state (\<lambda>st. st\<lparr>st_values := f (st_values st)\<rparr>) (inst_of t)) (children t)"

definition VERILOG_MODULE_clk ::
  "f64_ops \<Rightarrow> digital_update_method_t \<Rightarrow> node_ref option list \<Rightarrow> verilog_module \<Rightarrow> node_store \<Rightarrow> (verilog_module \<times> node_store \<times> analog_drive) option" where
  "VERILOG_MODULE_clk ops mth ns m s =
     (case top_mod_of m of None \<Rightarrow> Some (m, s, None)
      | Some cm \<Rightarrow>
          if v_design m = None then Some (m, s, None)
          else let m1 = (if mth = before_all_clk then m\<lparr>v_tick := v_tick m + 1\<rparr> else m);
                   t = set_top_values (sample_ports ops (v_levels m) s (m_ports cm) ns) (top_instance m1)
            in do {t' \<leftarrow> simulate t (v_tick m1) (mth = before_all_clk);
                   let vs = st_values (in_state (inst_of t'));
                   let s' = drive_pins vs (m_ports cm) ns s;
                   let (cursor, d) = emit_analog (v_levels m) s' vs (m_ports cm) ns (analog_emit_cursor m);
                   Some (m1\<lparr>top_instance := t', analog_emit_cursor := cursor\<rparr>, s', d)})"

subsection \<open>Every call returns\<close>

definition vm_ok :: "verilog_module \<Rightarrow> bool" where
  "vm_ok m \<longleftrightarrow> (v_design m \<noteq> None \<longrightarrow> tree_ok (top_instance m))"

lemma length_sample_ports [simp]: "length (sample_ports ops lv s ports ns vs) = length vs"
  by (induction ops lv s ports ns vs rule: sample_ports.induct) (simp_all split: option.splits)

lemma set_top_values_simps [simp]:
  "inst_of (set_top_values f t) = upd_state (\<lambda>st. st\<lparr>st_values := f (st_values st)\<rparr>) (inst_of t)" "children (set_top_values f t) = children t"
  "shape (set_top_values f t) = shape t"
  by (cases t; simp add: set_top_values_def)+

lemma tree_ok_set_top_values:
  assumes "tree_ok t" "\<And>vs. length (f vs) = length vs"
  shows "tree_ok (set_top_values f t)"
proof (cases t)
  case (Inst n cs)
  then have "inode_ok (upd_state (\<lambda>st. st\<lparr>st_values := f (st_values st)\<rparr>) n)"
    using assms by (auto simp: inode_ok_def upd_state_def st_ok_def st_inv_def)
  then show ?thesis using assms Inst by (simp add: set_top_values_def)
qed

lemma shape_in_mod: "shape t' = shape t \<Longrightarrow> in_mod (inst_of t') = in_mod (inst_of t)"
  by (cases t; cases t') (simp add: static_def)

text \<open>What one call does, when the device has a design.\<close>

lemma VERILOG_MODULE_run:
  assumes "vm_ok m" "v_design m \<noteq> None" "top_mod_of m = Some cm"
  obtains t' cursor d where
    "simulate (set_top_values (sample_ports ops (v_levels m) s (m_ports cm) ns) (top_instance m))
       (if mth = before_all_clk then v_tick m + 1 else v_tick m) (mth = before_all_clk) = Some t'"
    "emit_analog (v_levels m) (drive_pins (st_values (in_state (inst_of t'))) (m_ports cm) ns s)
       (st_values (in_state (inst_of t'))) (m_ports cm) ns (analog_emit_cursor m) = (cursor, d)"
    "VERILOG_MODULE_clk ops mth ns m s =
       Some (m\<lparr>v_tick := if mth = before_all_clk then v_tick m + 1 else v_tick m, top_instance := t', analog_emit_cursor := cursor\<rparr>,
             drive_pins (st_values (in_state (inst_of t'))) (m_ports cm) ns s, d)"
    "shape t' = shape (top_instance m)" "tree_ok t'" "tree_all quiescent t'"
proof -
  let ?t = "set_top_values (sample_ports ops (v_levels m) s (m_ports cm) ns) (top_instance m)"
  let ?tick = "if mth = before_all_clk then v_tick m + 1 else v_tick m"
  have "tree_ok ?t" using assms(1,2) by (simp add: vm_ok_def tree_ok_set_top_values)
  then obtain t' where t': "simulate ?t ?tick (mth = before_all_clk) = Some t'" "shape t' = shape ?t" "tree_ok t'" "tree_all quiescent t'"
    using simulate_ok by blast
  obtain cursor d where e: "emit_analog (v_levels m) (drive_pins (st_values (in_state (inst_of t'))) (m_ports cm) ns s)
       (st_values (in_state (inst_of t'))) (m_ports cm) ns (analog_emit_cursor m) = (cursor, d)" by (metis surj_pair)
  have c: "VERILOG_MODULE_clk ops mth ns m s =
       Some (m\<lparr>v_tick := ?tick, top_instance := t', analog_emit_cursor := cursor\<rparr>,
             drive_pins (st_values (in_state (inst_of t'))) (m_ports cm) ns s, d)"
    using t'(1) e assms(2,3) by (cases "mth = before_all_clk") (auto simp: VERILOG_MODULE_clk_def Let_def)
  show thesis by (rule that [OF t'(1) e c]) (use t' in simp_all)
qed

lemma vm_ok_call:
  assumes "vm_ok m"
  shows "\<exists>m' s' d. VERILOG_MODULE_clk ops mth ns m s = Some (m', s', d) \<and> vm_ok m' \<and> vm_ports m' = vm_ports m"
proof (cases "v_design m = None \<or> top_mod_of m = None")
  case True
  then show ?thesis using assms by (auto simp: VERILOG_MODULE_clk_def split: option.splits)
next
  case False
  then obtain cm where cm: "v_design m \<noteq> None" "top_mod_of m = Some cm" by auto
  show ?thesis
  proof (rule VERILOG_MODULE_run [OF assms cm, of ops s ns mth])
    fix t' cursor d
    assume t': "shape t' = shape (top_instance m)" "tree_ok t'"
      and c: "VERILOG_MODULE_clk ops mth ns m s =
       Some (m\<lparr>v_tick := if mth = before_all_clk then v_tick m + 1 else v_tick m, top_instance := t', analog_emit_cursor := cursor\<rparr>,
             drive_pins (st_values (in_state (inst_of t'))) (m_ports cm) ns s, d)"
    show ?thesis unfolding c using t'(2) shape_in_mod [OF t'(1)] by (simp add: vm_ok_def vm_ports_def)
  qed
qed

lemma vm_ok_made:
  assumes "\<forall>m \<in> set ms. wf_module m"
  shows "vm_ok (make_verilog_module ms source top_name)"
proof (cases "ms = []")
  case True
  then show ?thesis by (simp add: make_verilog_module_def vm_ok_def new_VERILOG_MODULE_def)
next
  case False
  let ?d = "build_design ms"
  let ?c = "case find_module ?d top_name of Some c \<Rightarrow> c | None \<Rightarrow> hd (d_modules ?d)"
  have "wf_module ?c"
    using wf_build_design [OF assms] assms False by (auto simp: wf_design_def build_design_def split: option.splits)
  then have "tree_ok (elaborate ?d ?c)"
    unfolding elaborate_def using elaborate_children_ok(1) [OF wf_build_design [OF assms] inode_ok_new] by blast
  then show ?thesis using False by (simp add: make_verilog_module_def vm_ok_def Let_def)
qed

subsection \<open>Ports as placeholders\<close>

text \<open>\<^verbatim>\<open>VERILOG_PORTS\<close> has pins and does nothing.\<close>

record verilog_ports =
  vp_pin_name_storage :: "string list"

definition set_pins :: "string list \<Rightarrow> verilog_ports \<Rightarrow> verilog_ports" where
  "set_pins names m = m\<lparr>vp_pin_name_storage := names\<rparr>"

definition VERILOG_PORTS_clk :: "verilog_ports \<Rightarrow> node_store \<Rightarrow> verilog_ports \<times> node_store \<times> analog_drive" where
  "VERILOG_PORTS_clk m s = (m, s, None)"

end
