(* ===== verification/Digital.thy ===== *)
theory Digital
  imports Registers Verilog_Module
begin

text \<open>
  The digital engine of \<^verbatim>\<open>circuits/circuit.h\<close>: preparing a circuit, and \<^verbatim>\<open>digital_clk\<close>, which
  runs the devices called before every tick, settles the pending nodes, and runs the devices
  called after every tick. The address orders in which the queue and the pins of a node are
  walked are the arguments \<open>pick\<close> and \<open>ord\<close>.
\<close>

subsection \<open>Devices\<close>

datatype digital_model =
    D_AND gate | D_OR gate | D_XOR gate | D_NAND gate | D_NOR gate | D_XNOR gate | D_IMP gate | D_NIMP gate
  | D_NOT gate | D_YES gate
  | D_HALF_ADDER adder | D_HALF_SUB adder | D_FULL_ADDER adder | D_FULL_SUB adder | D_MUL2 adder
  | D_IS_UNKNOWN tester | D_CASE_EQ tester | D_RESOLVE2 drive_levels | D_TRI drive_levels | D_SCHMITT_TRIGGER schmitt
  | D_DFF flipflop | D_DFF_ARSTN flipflop | D_JKFF flipflop | D_TFF flipflop | D_T_BAR_FF flipflop | D_DLATCH flipflop
  | D_COUNTER4 counter | D_RANDOM_GENERATOR4 counter
  | D_INPUT input_pin | D_OUTPUT gate | D_EIGHT_BIT_INPUT byte_input | D_EIGHT_BIT_DISPLAY byte_display | D_TICK_DELAY delay_line
  | D_VERILOG_MODULE verilog_module | D_VERILOG_PORTS verilog_ports

definition wrap :: "('a \<Rightarrow> digital_model) \<Rightarrow> 'a \<times> node_store \<times> analog_drive \<Rightarrow> digital_model \<times> node_store \<times> analog_drive" where
  "wrap K x = (case x of (clip, s, d) \<Rightarrow> (K clip, s, d))"

text \<open>
  The virtual call \<^verbatim>\<open>ptr->update_digital_clk(tables, tr_duration, method)\<close>. A Verilog design that was
  built from ordered arenas never runs out of depth, so its second case does not occur (\<open>vm_ok_call\<close>).
\<close>

fun update_digital_clk ::
  "f64_ops \<Rightarrow> u64 \<Rightarrow> digital_update_method_t \<Rightarrow> node_ref option list \<Rightarrow> digital_model \<Rightarrow> node_store \<Rightarrow> digital_model \<times> node_store \<times> analog_drive" where
  "update_digital_clk ops tr method ps (D_AND g) s = wrap D_AND (AND_clk ops tr ps g s)"
| "update_digital_clk ops tr method ps (D_OR g) s = wrap D_OR (OR_clk ops tr ps g s)"
| "update_digital_clk ops tr method ps (D_XOR g) s = wrap D_XOR (XOR_clk ops tr ps g s)"
| "update_digital_clk ops tr method ps (D_NAND g) s = wrap D_NAND (NAND_clk ops tr ps g s)"
| "update_digital_clk ops tr method ps (D_NOR g) s = wrap D_NOR (NOR_clk ops tr ps g s)"
| "update_digital_clk ops tr method ps (D_XNOR g) s = wrap D_XNOR (XNOR_clk ops tr ps g s)"
| "update_digital_clk ops tr method ps (D_IMP g) s = wrap D_IMP (IMP_clk ops tr ps g s)"
| "update_digital_clk ops tr method ps (D_NIMP g) s = wrap D_NIMP (NIMP_clk ops tr ps g s)"
| "update_digital_clk ops tr method ps (D_NOT g) s = wrap D_NOT (NOT_clk ops tr ps g s)"
| "update_digital_clk ops tr method ps (D_YES g) s = wrap D_YES (YES_clk ops tr ps g s)"
| "update_digital_clk ops tr method ps (D_HALF_ADDER a) s = wrap D_HALF_ADDER (HALF_ADDER_clk ops ps a s)"
| "update_digital_clk ops tr method ps (D_HALF_SUB a) s = wrap D_HALF_SUB (HALF_SUB_clk ops ps a s)"
| "update_digital_clk ops tr method ps (D_FULL_ADDER a) s = wrap D_FULL_ADDER (FULL_ADDER_clk ops ps a s)"
| "update_digital_clk ops tr method ps (D_FULL_SUB a) s = wrap D_FULL_SUB (FULL_SUB_clk ops ps a s)"
| "update_digital_clk ops tr method ps (D_MUL2 a) s = wrap D_MUL2 (MUL2_clk ops ps a s)"
| "update_digital_clk ops tr method ps (D_IS_UNKNOWN t) s = wrap D_IS_UNKNOWN (IS_UNKNOWN_clk ops ps t s)"
| "update_digital_clk ops tr method ps (D_CASE_EQ t) s = wrap D_CASE_EQ (CASE_EQ_clk ops ps t s)"
| "update_digital_clk ops tr method ps (D_RESOLVE2 lv) s = wrap D_RESOLVE2 (lv, RESOLVE2_clk ops ps lv s)"
| "update_digital_clk ops tr method ps (D_TRI lv) s = wrap D_TRI (lv, TRI_clk ops ps lv s)"
| "update_digital_clk ops tr method ps (D_SCHMITT_TRIGGER t) s = wrap D_SCHMITT_TRIGGER (SCHMITT_TRIGGER_clk ops ps t s)"
| "update_digital_clk ops tr method ps (D_DFF f) s = wrap D_DFF (DFF_clk ops ps f s)"
| "update_digital_clk ops tr method ps (D_DFF_ARSTN f) s = wrap D_DFF_ARSTN (DFF_ARSTN_clk ops ps f s)"
| "update_digital_clk ops tr method ps (D_JKFF f) s = wrap D_JKFF (JKFF_clk ops ps f s)"
| "update_digital_clk ops tr method ps (D_TFF f) s = wrap D_TFF (TFF_clk ops ps f s)"
| "update_digital_clk ops tr method ps (D_T_BAR_FF f) s = wrap D_T_BAR_FF (T_BAR_FF_clk ops ps f s)"
| "update_digital_clk ops tr method ps (D_DLATCH f) s = wrap D_DLATCH (DLATCH_clk ops ps f s)"
| "update_digital_clk ops tr method ps (D_COUNTER4 c) s = wrap D_COUNTER4 (COUNTER4_clk ops ps c s)"
| "update_digital_clk ops tr method ps (D_RANDOM_GENERATOR4 c) s = wrap D_RANDOM_GENERATOR4 (RANDOM_GENERATOR4_clk ops ps c s)"
| "update_digital_clk ops tr method ps (D_INPUT i) s = wrap D_INPUT (INPUT_clk ps i s)"
| "update_digital_clk ops tr method ps (D_OUTPUT g) s = wrap D_OUTPUT (OUTPUT_clk ops tr ps g s)"
| "update_digital_clk ops tr method ps (D_EIGHT_BIT_INPUT b) s = wrap D_EIGHT_BIT_INPUT (EIGHT_BIT_INPUT_clk ps b s)"
| "update_digital_clk ops tr method ps (D_EIGHT_BIT_DISPLAY b) s = wrap D_EIGHT_BIT_DISPLAY (EIGHT_BIT_DISPLAY_clk ops ps b s)"
| "update_digital_clk ops tr method ps (D_TICK_DELAY m) s = wrap D_TICK_DELAY (TICK_DELAY_clk ops method ps m s)"
| "update_digital_clk ops tr method ps (D_VERILOG_MODULE m) s =
     (case VERILOG_MODULE_clk ops method ps m s of Some x \<Rightarrow> wrap D_VERILOG_MODULE x | None \<Rightarrow> (D_VERILOG_MODULE m, s, None))"
| "update_digital_clk ops tr method ps (D_VERILOG_PORTS m) s = wrap D_VERILOG_PORTS (VERILOG_PORTS_clk m s)"

fun get_digital_update_method :: "digital_model \<Rightarrow> digital_update_method_t" where
  "get_digital_update_method (D_INPUT _) = before_all_clk"
| "get_digital_update_method (D_EIGHT_BIT_INPUT _) = before_all_clk"
| "get_digital_update_method (D_TICK_DELAY _) = before_all_clk"
| "get_digital_update_method (D_VERILOG_MODULE _) = before_all_clk"
| "get_digital_update_method _ = update_table"

text \<open>\<^verbatim>\<open>prepare_tr_define\<close> of the gates; the other devices have none.\<close>

definition gate_prepare_tr :: "gate \<Rightarrow> gate" where
  "gate_prepare_tr clip =
     clip\<lparr>inA := \<lparr>input = indeterminate_state, USR = false_state, duration = 0\<rparr>,
          inB := \<lparr>input = indeterminate_state, USR = false_state, duration = 0\<rparr>\<rparr>"

definition gate1_prepare_tr :: "gate \<Rightarrow> gate" where
  "gate1_prepare_tr clip = clip\<lparr>inA := \<lparr>input = indeterminate_state, USR = false_state, duration = 0\<rparr>\<rparr>"

fun prepare_tr :: "digital_model \<Rightarrow> digital_model" where
  "prepare_tr (D_AND g) = D_AND (gate_prepare_tr g)"
| "prepare_tr (D_OR g) = D_OR (gate_prepare_tr g)"
| "prepare_tr (D_XOR g) = D_XOR (gate_prepare_tr g)"
| "prepare_tr (D_NAND g) = D_NAND (gate_prepare_tr g)"
| "prepare_tr (D_NOR g) = D_NOR (gate_prepare_tr g)"
| "prepare_tr (D_XNOR g) = D_XNOR (gate_prepare_tr g)"
| "prepare_tr (D_IMP g) = D_IMP (gate_prepare_tr g)"
| "prepare_tr (D_NIMP g) = D_NIMP (gate_prepare_tr g)"
| "prepare_tr (D_NOT g) = D_NOT (gate1_prepare_tr g)"
| "prepare_tr (D_YES g) = D_YES (gate1_prepare_tr g)"
| "prepare_tr d = d"

subsection \<open>The circuit\<close>

record digital_circuit =
  store :: node_store
  dmodels :: "model_pos \<Rightarrow> digital_model option"
  always_tables :: "node_ref set"
  size_t_to_node_p :: "node_ref list"
  digital_out :: "(u64 \<times> node_ref) list"
  before_all_clk_digital_model :: "model_pos list"
  after_all_clk_digital_model :: "model_pos list"
  tr_duration :: u64
  has_prepare :: bool

definition pins_of :: "digital_circuit \<Rightarrow> model_pos \<Rightarrow> node_ref option list" where
  "pins_of c pos = (case impl_at (dnet (store c)) pos of None \<Rightarrow> [] | Some im \<Rightarrow> pin_nodes im)"

definition run_model :: "f64_ops \<Rightarrow> digital_update_method_t \<Rightarrow> model_pos \<Rightarrow> digital_circuit \<Rightarrow> digital_circuit" where
  "run_model ops method pos c =
     (case dmodels c pos of None \<Rightarrow> c
      | Some d \<Rightarrow>
          (case update_digital_clk ops (tr_duration c) method (pins_of c pos) d (store c) of (d', s, drive) \<Rightarrow>
             c\<lparr>dmodels := (dmodels c)(pos \<mapsto> d'), store := s,
               digital_out := digital_out c @ (case drive of None \<Rightarrow> [] | Some x \<Rightarrow> [x])\<rparr>))"

fun run_models :: "f64_ops \<Rightarrow> digital_update_method_t \<Rightarrow> model_pos list \<Rightarrow> digital_circuit \<Rightarrow> digital_circuit" where
  "run_models ops method [] c = c"
| "run_models ops method (pos # ps) c = run_models ops method ps (run_model ops method pos c)"

definition before_digital_clk :: "f64_ops \<Rightarrow> digital_circuit \<Rightarrow> digital_circuit" where
  "before_digital_clk ops c = run_models ops before_all_clk (before_all_clk_digital_model c) c"

definition after_table_digital_clk :: "f64_ops \<Rightarrow> digital_circuit \<Rightarrow> digital_circuit" where
  "after_table_digital_clk ops c = run_models ops after_all_clk (after_all_clk_digital_model c) c"

definition process_node :: "f64_ops \<Rightarrow> (pin_ref set \<Rightarrow> pin_ref list) \<Rightarrow> node_ref \<Rightarrow> digital_circuit \<Rightarrow> digital_circuit" where
  "process_node ops ord r c =
     run_models ops update_table
       (filter (is_digital (dnet (store c))) (map fst (ord (pins (deref (store c) r)))))
       (c\<lparr>store := (store c)\<lparr>tables := tables (store c) - {r}\<rparr>\<rparr>)"

fun settle_loop ::
  "f64_ops \<Rightarrow> (node_ref set \<Rightarrow> node_ref) \<Rightarrow> (pin_ref set \<Rightarrow> pin_ref list) \<Rightarrow> nat \<Rightarrow> digital_circuit \<Rightarrow> digital_circuit" where
  "settle_loop ops pick ord 0 c = c"
| "settle_loop ops pick ord (Suc iter_budget) c =
     (if tables (store c) = {} then c
      else settle_loop ops pick ord iter_budget (process_node ops ord (pick (tables (store c))) c))"

definition max_iter_budget :: nat where
  "max_iter_budget = 10000000"

definition seed_tables :: "digital_circuit \<Rightarrow> digital_circuit" where
  "seed_tables c = c\<lparr>store := (store c)\<lparr>tables := tables (store c) \<union> always_tables c\<rparr>\<rparr>"

definition update_table_digital_clk ::
  "f64_ops \<Rightarrow> (node_ref set \<Rightarrow> node_ref) \<Rightarrow> (pin_ref set \<Rightarrow> pin_ref list) \<Rightarrow> digital_circuit \<Rightarrow> digital_circuit" where
  "update_table_digital_clk ops pick ord c = settle_loop ops pick ord max_iter_budget (seed_tables c)"

definition digital_clk ::
  "f64_ops \<Rightarrow> (node_ref set \<Rightarrow> node_ref) \<Rightarrow> (pin_ref set \<Rightarrow> pin_ref list) \<Rightarrow> digital_circuit \<Rightarrow> digital_circuit" where
  "digital_clk ops pick ord c =
     after_table_digital_clk ops (update_table_digital_clk ops pick ord (before_digital_clk ops (c\<lparr>digital_out := []\<rparr>)))"

subsection \<open>Preparing and resetting\<close>

text \<open>What \<^verbatim>\<open>prepare\<close> does with the nodes: digital ones become unknown the first time, analog ones are numbered.\<close>

definition prepare_node :: "bool \<Rightarrow> node_t \<Rightarrow> nat \<Rightarrow> node_t \<times> nat" where
  "prepare_node prepared n node_counter =
     (if num_of_analog_node n = 0
      then (if pins n \<noteq> {} \<and> \<not> prepared then n\<lparr>node_info := DN indeterminate_state\<rparr> else n, node_counter)
      else (n\<lparr>node_index := node_counter\<rparr>, node_counter + 1))"

fun prepare_block :: "bool \<Rightarrow> node_t list \<Rightarrow> nat \<Rightarrow> node_t list \<times> nat" where
  "prepare_block prepared [] k = ([], k)"
| "prepare_block prepared (n # ns) k =
     (case prepare_node prepared n k of (n', k1) \<Rightarrow> (case prepare_block prepared ns k1 of (ns', k2) \<Rightarrow> (n' # ns', k2)))"

fun prepare_blocks :: "bool \<Rightarrow> node_t list list \<Rightarrow> nat \<Rightarrow> node_t list list \<times> nat" where
  "prepare_blocks prepared [] k = ([], k)"
| "prepare_blocks prepared (b # bs) k =
     (case prepare_block prepared b k of (b', k1) \<Rightarrow> (case prepare_blocks prepared bs k1 of (bs', k2) \<Rightarrow> (b' # bs', k2)))"

definition is_hybrid :: "node_t \<Rightarrow> bool" where
  "is_hybrid n \<longleftrightarrow> num_of_analog_node n \<noteq> 0 \<and> num_of_analog_node n \<noteq> of_nat (card (pins n))"

definition model_positions :: "netlist \<Rightarrow> model_pos list" where
  "model_positions nl =
     concat (map (\<lambda>(k, b). map (\<lambda>(v, m). \<lparr>vec_pos = v, chunk_pos = k\<rparr>)
       (filter (\<lambda>(v, m). mb_type m = mt_normal) (enumerate 0 (cells b)))) (enumerate 0 (models nl)))"

definition called :: "digital_update_method_t \<Rightarrow> digital_circuit \<Rightarrow> model_pos list" where
  "called method c = filter (\<lambda>pos. map_option get_digital_update_method (dmodels c pos) = Some method) (model_positions (dnet (store c)))"

definition prepare :: "digital_circuit \<Rightarrow> digital_circuit" where
  "prepare c =
     (let nl = dnet (store c) in
      c\<lparr>store := \<lparr>dnet = nl\<lparr>nl_nodes := fst (prepare_blocks (has_prepare c) (nl_nodes nl) 0),
                          ground_node := (ground_node nl)\<lparr>node_index := SIZE_MAX\<rparr>\<rparr>, tables = {}\<rparr>,
        always_tables := set (map fst (filter (\<lambda>(r, n). is_hybrid n) (node_list nl))),
        size_t_to_node_p := map fst (filter (\<lambda>(r, n). num_of_analog_node n \<noteq> 0) (node_list nl)),
        dmodels := (if has_prepare c then dmodels c else (\<lambda>pos. map_option prepare_tr (dmodels c pos))),
        before_all_clk_digital_model := called before_all_clk c,
        after_all_clk_digital_model := called after_all_clk c,
        has_prepare := True\<rparr>)"

text \<open>
  \<^verbatim>\<open>reset\<close> clears the voltages of the nodes \<^verbatim>\<open>prepare\<close> listed; the branch currents belong to analog
  devices. Neither the states of digital nodes nor the devices are touched.
\<close>

definition reset :: "digital_circuit \<Rightarrow> digital_circuit" where
  "reset c = c\<lparr>tr_duration := 0, digital_out := [], always_tables := {},
     store := \<lparr>dnet = fold (\<lambda>r. update_node r (\<lambda>n. n\<lparr>node_info := AN 0 0\<rparr>)) (size_t_to_node_p c) (dnet (store c)), tables = {}\<rparr>,
     size_t_to_node_p := [], has_prepare := False\<rparr>"

end
