(* ===== verification/Netlist_Props.thy ===== *)
theory Netlist_Props
  imports Netlist
begin

text \<open>
  Invariants of the netlist: pins and nodes point at each other, the counters of analog
  connections and of deleted models are exact, and every operation keeps this.
\<close>

subsection \<open>Reading after writing\<close>

lemma node_at_update_node [simp]: "node_at (update_node r f nl) = (node_at nl)(r := map_option f (node_at nl r))"
proof
  fix q show "node_at (update_node r f nl) q = ((node_at nl)(r := map_option f (node_at nl r))) q"
    by (cases r; cases q) (auto simp: nth_list_update)
qed

lemma models_update_node [simp]: "models (update_node r f nl) = models nl"
  by (cases r) auto

lemma model_views_update_node [simp]:
  "get_model (update_node r f nl) = get_model nl" "impl_at (update_node r f nl) = impl_at nl"
  "pin_at (update_node r f nl) = pin_at nl" "is_digital (update_node r f nl) = is_digital nl"
  by (simp_all add: fun_eq_iff get_model_def impl_at_def pin_at_def is_digital_def)

lemma node_at_models_update [simp]: "node_at (nl\<lparr>models := ms\<rparr>) = node_at nl"
proof
  fix q show "node_at (nl\<lparr>models := ms\<rparr>) q = node_at nl q" by (cases q) auto
qed

lemma node_at_map_pins [simp]: "node_at (map_pins f nl) = node_at nl"
  by (simp add: map_pins_def)

lemma get_model_map_pins: "get_model (map_pins f nl) pos = map_option (map_impl (\<lambda>i. f (pos, i))) (get_model nl pos)"
  by (cases pos) (simp add: get_model_def map_pins_def map_block_def Let_def nth_enumerate_eq)

lemma impl_at_map_pins:
  "impl_at (map_pins f nl) pos =
     map_option (\<lambda>im. im\<lparr>pin_nodes := map (\<lambda>(i, x). f (pos, i) x) (enumerate 0 (pin_nodes im))\<rparr>) (impl_at nl pos)"
  by (cases "get_model nl pos") (simp_all add: impl_at_def get_model_map_pins map_impl_def)

definition valid_pin :: "netlist \<Rightarrow> pin_ref \<Rightarrow> bool" where
  "valid_pin nl p = (case impl_at nl (fst p) of None \<Rightarrow> False | Some im \<Rightarrow> snd p < length (pin_nodes im))"

lemma pin_at_valid: "pin_at nl p = Some r \<Longrightarrow> valid_pin nl p"
  by (simp add: pin_at_def valid_pin_def split: option.splits if_splits)

lemma pin_at_map_pins: "pin_at (map_pins f nl) p = (if valid_pin nl p then f p (pin_at nl p) else None)"
  by (cases p) (simp add: pin_at_def impl_at_map_pins valid_pin_def nth_enumerate_eq split: option.splits)

lemma is_digital_map_pins [simp]: "is_digital (map_pins f nl) = is_digital nl"
  by (simp add: fun_eq_iff is_digital_def impl_at_map_pins split: option.splits)

lemma pin_at_set_pin: "valid_pin nl p \<Longrightarrow> pin_at (set_pin p v nl) = (pin_at nl)(p := v)"
  by (auto simp: fun_eq_iff set_pin_def pin_at_map_pins dest: pin_at_valid) (metis option.exhaust pin_at_valid)

lemma set_pin_views [simp]: "node_at (set_pin p v nl) = node_at nl" "is_digital (set_pin p v nl) = is_digital nl"
  by (simp_all add: set_pin_def)

subsection \<open>The graph\<close>

text \<open>
  The invariant over the three views of a netlist: its nodes, its pins and the kind of its models.
\<close>

definition analog_pins :: "(model_pos \<Rightarrow> bool) \<Rightarrow> pin_ref set \<Rightarrow> pin_ref set" where
  "analog_pins D P = {p \<in> P. \<not> D (fst p)}"

definition links_ok :: "(pin_ref \<Rightarrow> node_ref option) \<Rightarrow> (model_pos \<Rightarrow> bool) \<Rightarrow> node_ref \<Rightarrow> node_t \<Rightarrow> bool" where
  "links_ok P D r n \<longleftrightarrow> pins n = {p. P p = Some r} \<and> finite (pins n) \<and>
     num_of_analog_node n = of_nat (card (analog_pins D (pins n)))"

definition graph_ok :: "(node_ref \<Rightarrow> node_t option) \<Rightarrow> (pin_ref \<Rightarrow> node_ref option) \<Rightarrow> (model_pos \<Rightarrow> bool) \<Rightarrow> bool" where
  "graph_ok N P D \<longleftrightarrow> (\<forall>r n. N r = Some n \<longrightarrow> links_ok P D r n) \<and> (\<forall>p r. P p = Some r \<longrightarrow> N r \<noteq> None)"

lemma graph_okD: "graph_ok N P D \<Longrightarrow> N r = Some n \<Longrightarrow> links_ok P D r n"
  "graph_ok N P D \<Longrightarrow> P p = Some r \<Longrightarrow> \<exists>n. N r = Some n"
  unfolding graph_ok_def by blast+

text \<open>A node whose set of pins is the same stays well-formed.\<close>

lemma links_ok_same:
  assumes "links_ok P D r n" "\<And>p. P' p = Some r \<longleftrightarrow> P p = Some r" "\<And>p. P p = Some r \<Longrightarrow> D' (fst p) = D (fst p)"
  shows "links_ok P' D' r n"
proof -
  have "analog_pins D' (pins n) = analog_pins D (pins n)" using assms by (auto simp: links_ok_def analog_pins_def)
  then show ?thesis using assms(1,2) by (auto simp: links_ok_def)
qed

lemma graph_ok_update:
  assumes ok: "graph_ok N P D"
    and r: "\<And>n. N r = Some n \<Longrightarrow> links_ok P' D r (f n)"
    and others: "\<And>p q. q \<noteq> r \<Longrightarrow> P' p = Some q \<longleftrightarrow> P p = Some q"
    and dom: "\<And>p. P' p = Some r \<Longrightarrow> N r \<noteq> None"
  shows "graph_ok (N(r := map_option f (N r))) P' D"
  unfolding graph_ok_def
proof (intro conjI allI impI)
  fix q m assume q: "(N(r := map_option f (N r))) q = Some m"
  show "links_ok P' D q m"
  proof (cases "q = r")
    case True
    then show ?thesis using q r by (auto simp: map_option_case split: option.splits)
  next
    case False
    then have "links_ok P D q m" using q graph_okD(1) [OF ok] by simp
    then show ?thesis by (rule links_ok_same) (use others [OF False] in auto)
  qed
next
  fix p q assume p: "P' p = Some q"
  show "(N(r := map_option f (N r))) q \<noteq> None"
  proof (cases "q = r")
    case True
    then show ?thesis using dom [of p] p by simp
  next
    case False
    then show ?thesis using others [OF False, of p] p graph_okD(2) [OF ok, of p q] by auto
  qed
qed

lemma card_analog_insert:
  assumes "finite P" "p \<notin> P"
  shows "card (analog_pins D (insert p P)) = card (analog_pins D P) + (if D (fst p) then 0 else 1)"
proof -
  have "analog_pins D (insert p P) = (if D (fst p) then analog_pins D P else insert p (analog_pins D P))"
    by (auto simp: analog_pins_def)
  then show ?thesis using assms by (simp add: analog_pins_def)
qed

lemma graph_ok_cut:
  assumes ok: "graph_ok N P D" and p: "P p = Some r"
  shows "graph_ok (N(r := map_option (unplug (\<not> D (fst p)) p) (N r))) (P(p := None)) D"
proof (rule graph_ok_update [OF ok])
  fix n assume "N r = Some n"
  then have n: "links_ok P D r n" by (rule graph_okD(1) [OF ok])
  then have "card (analog_pins D (pins n)) = card (analog_pins D (pins n - {p})) + (if D (fst p) then 0 else 1)"
    using p card_analog_insert [of "pins n - {p}" p D] by (auto simp: links_ok_def insert_absorb)
  then show "links_ok (P(p := None)) D r (unplug (\<not> D (fst p)) p n)" using n p by (auto simp: links_ok_def unplug_def)
qed (use p graph_okD(2) [OF ok] in \<open>auto split: if_splits\<close>)

lemma graph_ok_join:
  assumes ok: "graph_ok N P D" and p: "P p = None" and n: "N r = Some n"
  shows "graph_ok (N(r := map_option (plug (\<not> D (fst p)) p) (N r))) (P(p := Some r)) D"
proof (rule graph_ok_update [OF ok])
  fix n assume "N r = Some n"
  then have n: "links_ok P D r n" by (rule graph_okD(1) [OF ok])
  then have "card (analog_pins D (insert p (pins n))) = card (analog_pins D (pins n)) + (if D (fst p) then 0 else 1)"
    using p by (intro card_analog_insert) (auto simp: links_ok_def)
  then show "links_ok (P(p := Some r)) D r (plug (\<not> D (fst p)) p n)" using n p by (auto simp: links_ok_def plug_def)
qed (use p n in \<open>auto split: if_splits\<close>)

lemma graph_ok_isolate:
  assumes ok: "graph_ok N P D" and n: "N r = Some n" and f: "\<And>n. pins (f n) = {}" "\<And>n. num_of_analog_node (f n) = 0"
  shows "graph_ok (N(r := map_option f (N r))) (\<lambda>p. if p \<in> pins n then None else P p) D"
proof (rule graph_ok_update [OF ok])
  fix n' assume "N r = Some n'"
  then show "links_ok (\<lambda>p. if p \<in> pins n then None else P p) D r (f n')"
    using n f graph_okD(1) [OF ok n] by (auto simp: links_ok_def analog_pins_def)
qed (use n graph_okD(1) [OF ok n] in \<open>auto simp: links_ok_def split: if_splits\<close>)

lemma graph_ok_kinds:
  assumes "graph_ok N P D" "\<And>p r. P p = Some r \<Longrightarrow> D' (fst p) = D (fst p)"
  shows "graph_ok N P D'"
  unfolding graph_ok_def using graph_okD [OF assms(1)] assms(2) by (blast intro: links_ok_same)

lemma graph_ok_new_node:
  assumes ok: "graph_ok N P D" and r: "N r = None" and n: "pins n = {}" "num_of_analog_node n = 0"
  shows "graph_ok (N(r := Some n)) P D"
  unfolding graph_ok_def
proof (intro conjI allI impI)
  fix q m assume "(N(r := Some n)) q = Some m"
  then show "links_ok P D q m"
    using graph_okD [OF ok] r n by (cases "q = r") (fastforce simp: links_ok_def analog_pins_def)+
next
  fix p q assume "P p = Some q"
  then show "(N(r := Some n)) q \<noteq> None" using graph_okD(2) [OF ok] by auto
qed

subsection \<open>Models\<close>

text \<open>Models are live or deleted, and each chunk counts its deleted models.\<close>

definition model_ok :: "model_base \<Rightarrow> bool" where
  "model_ok m = (mb_type m = mt_null \<and> mb_ptr m = None \<or> mb_type m = mt_normal \<and> mb_ptr m \<noteq> None)"

definition num_null :: "model_base list \<Rightarrow> nat" where
  "num_null ms = length (filter (\<lambda>m. mb_type m = mt_null) ms)"

definition block_ok :: "netlist_model_base_block \<Rightarrow> bool" where
  "block_ok b = (list_all model_ok (cells b) \<and> num_of_null_model b = of_nat (num_null (cells b)))"

definition netlist_ok :: "netlist \<Rightarrow> bool" where
  "netlist_ok nl \<longleftrightarrow> graph_ok (node_at nl) (pin_at nl) (is_digital nl) \<and> list_all block_ok (models nl)"

lemma netlist_okD: "netlist_ok nl \<Longrightarrow> graph_ok (node_at nl) (pin_at nl) (is_digital nl)"
  "netlist_ok nl \<Longrightarrow> list_all block_ok (models nl)"
  by (simp_all add: netlist_ok_def)

lemma map_impl_type [simp]: "mb_type (map_impl f m) = mb_type m" "model_ok (map_impl f m) = model_ok m"
  by (simp_all add: map_impl_def model_ok_def)

lemma map_enumerate_snd: "map (\<lambda>(i, x). g x) (enumerate k xs) = map g xs"
  by (induction xs arbitrary: k) simp_all

lemma block_ok_map [simp]: "block_ok (map_block c f b) = block_ok b"
proof -
  let ?ms = "map (\<lambda>(v, m). map_impl (\<lambda>i. f (\<lparr>vec_pos = v, chunk_pos = c\<rparr>, i)) m) (enumerate 0 (cells b))"
  have t: "map mb_type ?ms = map mb_type (cells b)" and o: "map model_ok ?ms = map model_ok (cells b)"
    using map_enumerate_snd [of mb_type 0 "cells b"] map_enumerate_snd [of model_ok 0 "cells b"]
    by (simp_all add: comp_def case_prod_unfold)
  have "num_null ms = length (filter (\<lambda>t. t = mt_null) (map mb_type ms))" for ms
    by (simp add: num_null_def filter_map comp_def)
  then have "num_null ?ms = num_null (cells b)" by (simp only: t)
  moreover have "list_all model_ok ms = list_all id (map model_ok ms)" for ms by (simp add: list_all_iff)
  then have "list_all model_ok ?ms = list_all model_ok (cells b)" by (simp only: o)
  ultimately show ?thesis by (simp add: block_ok_def map_block_def)
qed

lemma blocks_ok_map_pins [simp]: "list_all block_ok (models (map_pins f nl)) = list_all block_ok (models nl)"
proof -
  have "map block_ok (models (map_pins f nl)) = map block_ok (models nl)"
    using map_enumerate_snd [of block_ok 0 "models nl"] by (simp add: map_pins_def comp_def case_prod_unfold)
  moreover have "list_all block_ok bs = list_all id (map block_ok bs)" for bs by (simp add: list_all_iff)
  ultimately show ?thesis by metis
qed

lemma blocks_ok_set_pin [simp]: "list_all block_ok (models (set_pin p v nl)) = list_all block_ok (models nl)"
  by (simp add: set_pin_def)

lemma get_model_ok: "list_all block_ok (models nl) \<Longrightarrow> get_model nl pos = Some m \<Longrightarrow> model_ok m"
  by (auto simp: get_model_def Let_def block_ok_def list_all_length split: if_splits)

subsection \<open>Connecting pins\<close>

lemma impl_at_model: "get_model nl pos = Some m \<Longrightarrow> impl_at nl pos = mb_ptr m"
  by (simp add: impl_at_def)

lemma pin_impl: "impl_at nl pos = Some im \<Longrightarrow> i < length (pin_nodes im) \<Longrightarrow> valid_pin nl (pos, i)"
  "impl_at nl pos = Some im \<Longrightarrow> is_digital nl pos = (device_type im = digital)"
  by (simp_all add: valid_pin_def is_digital_def)

lemma add_to_node_ok:
  assumes ok: "netlist_ok nl" and free: "pin_at nl (pos, i) = None" and node: "node_at nl r \<noteq> None"
    and add: "add_to_node pos i r nl = Some (b, nl')"
  shows "netlist_ok nl' \<and> is_digital nl' = is_digital nl \<and>
    pin_at nl' = (if b then (pin_at nl)((pos, i) := Some r) else pin_at nl) \<and> (b \<longleftrightarrow> valid_pin nl (pos, i))"
proof (cases "valid_pin nl (pos, i)")
  case True
  then obtain m im where m: "get_model nl pos = Some m" "mb_ptr m = Some im" "i < length (pin_nodes im)"
    by (auto simp: valid_pin_def impl_at_def split: option.splits bind_splits)
  then have nl': "b" "nl' = update_node r (plug (\<not> is_digital nl (fst (pos, i))) (pos, i)) (set_pin (pos, i) (Some r) nl)"
    using add by (auto simp: add_to_node_def pin_impl(2) [of nl pos im] impl_at_model)
  obtain n where n: "node_at nl r = Some n" using node by auto
  have "graph_ok (node_at nl') (pin_at nl') (is_digital nl')"
    using graph_ok_join [OF netlist_okD(1) [OF ok] free n] True unfolding nl'(2) by (simp add: pin_at_set_pin netlist_ok_def)
  then show ?thesis using nl' True ok by (simp add: netlist_ok_def pin_at_set_pin)
next
  case False
  then have "\<not> b \<and> nl' = nl"
    using add by (auto simp: add_to_node_def valid_pin_def impl_at_def split: option.splits if_splits)
  then show ?thesis using ok False by simp
qed

lemma remove_from_node_ok:
  assumes ok: "netlist_ok nl" and p: "pin_at nl (pos, i) = Some r" and rem: "remove_from_node pos i r nl = Some (b, nl')"
  shows "netlist_ok nl' \<and> b \<and> pin_at nl' = (pin_at nl)((pos, i) := None)"
proof -
  have v: "valid_pin nl (pos, i)" using p by (rule pin_at_valid)
  then obtain m im where m: "get_model nl pos = Some m" "mb_ptr m = Some im" "i < length (pin_nodes im)"
    by (auto simp: valid_pin_def impl_at_def split: option.splits bind_splits)
  then have nl': "b" "nl' = update_node r (unplug (\<not> is_digital nl (fst (pos, i))) (pos, i)) (set_pin (pos, i) None nl)"
    using rem by (auto simp: remove_from_node_def pin_impl(2) [of nl pos im] impl_at_model)
  have "graph_ok (node_at nl') (pin_at nl') (is_digital nl')"
    using graph_ok_cut [OF netlist_okD(1) [OF ok] p] v unfolding nl'(2) by (simp add: pin_at_set_pin netlist_ok_def)
  then show ?thesis using nl' v ok by (simp add: netlist_ok_def pin_at_set_pin)
qed

lemma delete_node_ok:
  assumes ok: "netlist_ok nl" and n: "node_at nl r = Some n"
  shows "netlist_ok (delete_node r nl) \<and> pin_at (delete_node r nl) = (\<lambda>p. if pin_at nl p = Some r then None else pin_at nl p)"
proof -
  let ?nl = "map_pins (\<lambda>q x. if q \<in> pins n then None else x) nl"
  let ?f = "\<lambda>n. (destroy n)\<lparr>node_info := DN false_state\<rparr>"
  have pins: "pins n = {p. pin_at nl p = Some r}"
    using graph_okD(1) [OF netlist_okD(1) [OF ok] n] by (simp add: links_ok_def)
  have P: "pin_at ?nl = (\<lambda>p. if p \<in> pins n then None else pin_at nl p)"
    by (auto simp: fun_eq_iff pin_at_map_pins dest: pin_at_valid) (metis not_None_eq pin_at_valid)
  have "(node_at nl)(r := map_option ?f (node_at nl r)) = node_at (delete_node r nl)"
    using n by (simp add: delete_node_def clear_node_t_def clear_node_def fun_eq_iff)
  moreover have "graph_ok ((node_at nl)(r := map_option ?f (node_at nl r))) (\<lambda>p. if p \<in> pins n then None else pin_at nl p) (is_digital nl)"
    by (rule graph_ok_isolate [OF netlist_okD(1) [OF ok] n]) (simp_all add: destroy_def)
  ultimately show ?thesis using n P ok pins
    by (simp add: delete_node_def clear_node_t_def clear_node_def netlist_ok_def)
qed

subsection \<open>Adding and deleting\<close>

lemma get_model_push:
  "get_model (push_model cap m nl) pos = (if pos = next_model_pos cap nl then Some m else get_model nl pos)"
  by (cases pos; cases "models nl" rule: rev_cases)
    (auto simp: get_model_def push_model_def next_model_pos_def push_cell_def new_model_block_def Let_def
      nth_append less_Suc_eq not_le split: if_splits)

lemma get_model_next: "get_model nl (next_model_pos cap nl) = None"
  by (auto simp: get_model_def next_model_pos_def Let_def last_conv_nth)

lemma node_at_push_model [simp]: "node_at (push_model cap m nl) = node_at nl"
  by (simp add: push_model_def)

lemma blocks_ok_push_model:
  "list_all block_ok (models nl) \<Longrightarrow> mb_type m \<noteq> mt_null \<Longrightarrow> model_ok m \<Longrightarrow> list_all block_ok (models (push_model cap m nl))"
  by (cases "models nl" rule: rev_cases)
    (auto simp: push_model_def push_cell_def new_model_block_def block_ok_def num_null_def)

lemma add_model_ok:
  assumes ok: "netlist_ok nl" and fresh: "list_all (\<lambda>r. r = None) (pin_nodes m)" and add: "add_model cap m nl = (pos, nl')"
  shows "netlist_ok nl' \<and> get_model nl pos = None \<and>
    get_model nl' = (get_model nl)(pos := Some (model_base_of m)) \<and> pin_at nl' = pin_at nl"
proof -
  have nl': "nl' = push_model cap (model_base_of m) nl" and pos: "pos = next_model_pos cap nl"
    using add by (simp_all add: add_model_def)
  have g: "get_model nl' = (get_model nl)(pos := Some (model_base_of m))" by (auto simp: nl' pos get_model_push)
  have old: "get_model nl pos = None" by (simp add: pos get_model_next)
  have im: "impl_at nl' = (impl_at nl)(pos := Some m)" by (auto simp: impl_at_def g model_base_of_def)
  have "pin_at nl' p = pin_at nl p" for p
    using fresh old by (auto simp: pin_at_def im impl_at_def list_all_length)
  then have P: "pin_at nl' = pin_at nl" by blast
  have "is_digital nl' (fst p) = is_digital nl (fst p)" if "pin_at nl p = Some r" for p r
    using that old by (auto simp: is_digital_def im impl_at_def pin_at_def)
  then have "graph_ok (node_at nl') (pin_at nl') (is_digital nl')"
    using graph_ok_kinds [OF netlist_okD(1) [OF ok], of "is_digital nl'"] by (simp add: P) (simp add: nl')
  moreover have "list_all block_ok (models nl')"
    using netlist_okD(2) [OF ok] unfolding nl'
    by (rule blocks_ok_push_model) (simp_all add: model_base_of_def model_ok_def)
  ultimately show ?thesis using g old P by (simp add: netlist_ok_def)
qed

lemma node_at_push_node: "node_at (push_node cap n nl) = (node_at nl)(next_node_ref cap nl := Some n)"
proof
  fix q show "node_at (push_node cap n nl) q = ((node_at nl)(next_node_ref cap nl := Some n)) q"
    by (cases q; cases "nl_nodes nl" rule: rev_cases)
      (auto simp: push_node_def next_node_ref_def nth_append less_Suc_eq split: if_splits)
qed

lemma node_at_next: "node_at nl (next_node_ref cap nl) = None"
  by (auto simp: next_node_ref_def last_conv_nth)

lemma model_views_nodes_update [simp]:
  "get_model (nl\<lparr>nl_nodes := ns\<rparr>) = get_model nl" "impl_at (nl\<lparr>nl_nodes := ns\<rparr>) = impl_at nl"
  "pin_at (nl\<lparr>nl_nodes := ns\<rparr>) = pin_at nl" "is_digital (nl\<lparr>nl_nodes := ns\<rparr>) = is_digital nl"
  by (simp_all add: fun_eq_iff get_model_def impl_at_def pin_at_def is_digital_def)

lemma model_views_push_node [simp]:
  "get_model (push_node cap n nl) = get_model nl" "pin_at (push_node cap n nl) = pin_at nl"
  "is_digital (push_node cap n nl) = is_digital nl" "models (push_node cap n nl) = models nl"
  by (simp_all add: push_node_def)

lemma create_node_ok:
  assumes ok: "netlist_ok nl" and create: "create_node cap nl = (r, nl')"
  shows "netlist_ok nl' \<and> node_at nl r = None \<and> node_at nl' = (node_at nl)(r := Some new_node_t) \<and> pin_at nl' = pin_at nl"
proof -
  have nl': "nl' = push_node cap new_node_t nl" and r: "r = next_node_ref cap nl"
    using create by (simp_all add: create_node_def)
  have "graph_ok ((node_at nl)(r := Some new_node_t)) (pin_at nl) (is_digital nl)"
    by (rule graph_ok_new_node [OF netlist_okD(1) [OF ok]]) (simp_all add: r node_at_next new_node_t_def)
  then show ?thesis using netlist_okD(2) [OF ok] by (simp add: netlist_ok_def nl' r node_at_push_node node_at_next)
qed

text \<open>What the invariant of the models depends on.\<close>

definition skel :: "netlist_model_base_block \<Rightarrow> (model_type \<times> bool) list \<times> u64" where
  "skel b = (map (\<lambda>m. (mb_type m, model_ok m)) (cells b), num_of_null_model b)"

definition skel_ok :: "(model_type \<times> bool) list \<times> u64 \<Rightarrow> bool" where
  "skel_ok = (\<lambda>(ms, k). list_all snd ms \<and> k = of_nat (length (filter (\<lambda>m. fst m = mt_null) ms)))"

lemma block_ok_skel: "block_ok b = skel_ok (skel b)"
  by (simp add: block_ok_def skel_ok_def skel_def num_null_def filter_map comp_def list_all_iff)

lemma blocks_ok_skel: "list_all block_ok bs = list_all skel_ok (map skel bs)"
  by (simp add: list_all_iff block_ok_skel)

lemma skel_map_block [simp]: "skel (map_block c f b) = skel b"
  using map_enumerate_snd [of "\<lambda>m. (mb_type m, model_ok m)" 0 "cells b"]
  by (simp add: skel_def map_block_def comp_def case_prod_unfold)

lemma skel_map_pins [simp]: "map skel (models (map_pins f nl)) = map skel (models nl)"
  using map_enumerate_snd [of skel 0 "models nl"] by (simp add: map_pins_def comp_def case_prod_unfold)

text \<open>The invariant without the counters of deleted models.\<close>

definition netlist_wf :: "netlist \<Rightarrow> bool" where
  "netlist_wf nl \<longleftrightarrow> graph_ok (node_at nl) (pin_at nl) (is_digital nl) \<and> list_all (\<lambda>s. list_all snd (fst s)) (map skel (models nl))"

lemma netlist_ok_wf: "netlist_ok nl \<Longrightarrow> netlist_wf nl"
  by (auto simp: netlist_ok_def netlist_wf_def list_all_iff block_ok_def skel_def)

lemma netlist_wfD:
  "netlist_wf nl \<Longrightarrow> graph_ok (node_at nl) (pin_at nl) (is_digital nl)"
  "netlist_wf nl \<Longrightarrow> get_model nl pos = Some m \<Longrightarrow> model_ok m"
  by (auto simp: netlist_wf_def get_model_def Let_def skel_def list_all_length split: if_splits)

lemma cut_ok:
  assumes ok: "netlist_wf nl" and p: "pin_at nl p = Some r"
  shows "netlist_wf (set_pin p None (update_node r (unplug (\<not> is_digital nl (fst p)) p) nl))"
proof -
  have "valid_pin (update_node r f nl) p" for f using pin_at_valid [OF p] by (simp add: valid_pin_def)
  moreover have "map skel (models (set_pin p None (update_node r f nl))) = map skel (models nl)" for f by (simp add: set_pin_def)
  ultimately show ?thesis using graph_ok_cut [OF netlist_wfD(1) [OF ok] p] ok
    by (simp add: netlist_wf_def pin_at_set_pin del: map_map list.map_comp)
qed

lemma map_impl_id: "map_impl (\<lambda>i x. x) m = m"
proof -
  have "im\<lparr>pin_nodes := map (\<lambda>(i, x). x) (enumerate 0 (pin_nodes im))\<rparr> = im" for im :: model_base_impl
    using map_enumerate_snd [of "\<lambda>x. x" 0 "pin_nodes im"] by (cases im) simp
  then show ?thesis by (cases m) (simp add: map_impl_def option.map_ident)
qed

lemma get_model_set_pin: "q \<noteq> fst p \<Longrightarrow> get_model (set_pin p v nl) q = get_model nl q"
proof -
  assume "q \<noteq> fst p"
  then have "(\<lambda>i x. if (q, i) = p then v else x) = (\<lambda>i x. x)" by (auto simp: fun_eq_iff)
  then show ?thesis by (cases "get_model nl q") (simp_all add: set_pin_def get_model_map_pins map_impl_id)
qed

lemma unplug_pins_ok:
  assumes "netlist_wf nl" "\<forall>p \<in> set ps. analog = (\<not> is_digital nl (fst p))"
  shows "netlist_wf (unplug_pins analog ps nl) \<and>
    pin_at (unplug_pins analog ps nl) = (\<lambda>p. if p \<in> set ps then None else pin_at nl p) \<and>
    is_digital (unplug_pins analog ps nl) = is_digital nl \<and>
    map skel (models (unplug_pins analog ps nl)) = map skel (models nl) \<and>
    (\<forall>q. q \<notin> fst ` set ps \<longrightarrow> get_model (unplug_pins analog ps nl) q = get_model nl q)"
  using assms
proof (induction ps arbitrary: nl)
  case (Cons p ps)
  show ?case
  proof (cases "pin_at nl p")
    case None
    then show ?thesis using Cons.IH [OF Cons.prems(1)] Cons.prems(2) by (auto simp: fun_eq_iff)
  next
    case (Some r)
    let ?nl = "set_pin p None (update_node r (unplug analog p) nl)"
    have a: "analog = (\<not> is_digital nl (fst p))" using Cons.prems(2) by simp
    have ok: "netlist_wf ?nl" using cut_ok [OF Cons.prems(1) Some] unfolding a .
    have v: "valid_pin (update_node r (unplug analog p) nl) p" using pin_at_valid [OF Some] by (simp add: valid_pin_def)
    have "map skel (models ?nl) = map skel (models nl)" by (simp add: set_pin_def)
    then show ?thesis
      using Cons.IH [OF ok] Cons.prems(2) Some pin_at_set_pin [OF v, of None]
      by (auto simp: fun_eq_iff get_model_set_pin)
  qed
qed simp

lemma remove_model_from_node_ok:
  assumes ok: "netlist_wf nl"
  shows "netlist_wf (remove_model_from_node pos nl) \<and>
    pin_at (remove_model_from_node pos nl) = (\<lambda>p. if fst p = pos then None else pin_at nl p) \<and>
    is_digital (remove_model_from_node pos nl) = is_digital nl \<and>
    map skel (models (remove_model_from_node pos nl)) = map skel (models nl) \<and>
    (\<forall>q. q \<noteq> pos \<longrightarrow> get_model (remove_model_from_node pos nl) q = get_model nl q)"
proof (cases "impl_at nl pos")
  case None
  then have "pin_at nl = (\<lambda>p. if fst p = pos then None else pin_at nl p)" by (auto simp: fun_eq_iff pin_at_def)
  moreover have "remove_model_from_node pos nl = nl"
    using None by (auto simp: remove_model_from_node_def impl_at_def split: option.splits bind_splits)
  ultimately show ?thesis using ok by simp
next
  case (Some im)
  then obtain m where m: "get_model nl pos = Some m" "mb_ptr m = Some im" by (auto simp: impl_at_def split: bind_splits)
  then have "mb_type m = mt_normal" using netlist_wfD(2) [OF ok m(1)] by (simp add: model_ok_def)
  then have r: "remove_model_from_node pos nl = unplug_pins (device_type im \<noteq> digital) (map (Pair pos) [0..<length (pin_nodes im)]) nl"
    using m by (simp add: remove_model_from_node_def)
  have "pin_at nl p = None" if "fst p = pos" "p \<notin> set (map (Pair pos) [0..<length (pin_nodes im)])" for p
    using that Some by (cases p) (auto simp: pin_at_def)
  then show ?thesis
    using unplug_pins_ok [OF ok, of "map (Pair pos) [0..<length (pin_nodes im)]" "device_type im \<noteq> digital"] Some
    unfolding r by (auto simp: fun_eq_iff is_digital_def)
qed

lemma get_model_put: "get_model nl pos \<noteq> None \<Longrightarrow> get_model (put_model pos m nl) = (get_model nl)(pos := Some m)"
proof -
  assume "get_model nl pos \<noteq> None"
  then have pos: "chunk_pos pos < length (models nl)" "vec_pos pos < length (cells (models nl ! chunk_pos pos))"
    by (auto simp: get_model_def Let_def split: if_splits)
  have "get_model (put_model pos m nl) q = ((get_model nl)(pos := Some m)) q" for q
    using pos by (cases pos; cases q) (auto simp: get_model_def put_model_def Let_def)
  then show ?thesis by blast
qed

lemma node_at_put [simp]: "node_at (put_model pos m nl) = node_at nl"
  by (simp add: put_model_def)

lemma views_impl: "impl_at nl' = impl_at nl \<Longrightarrow> pin_at nl' = pin_at nl" "impl_at nl' = impl_at nl \<Longrightarrow> is_digital nl' = is_digital nl"
  by (simp_all add: fun_eq_iff pin_at_def is_digital_def)

lemma clear_model_ok:
  assumes ok: "netlist_wf nl" and pos: "get_model nl pos \<noteq> None"
  shows "graph_ok (node_at (clear_model pos nl)) (pin_at (clear_model pos nl)) (is_digital (clear_model pos nl)) \<and>
    pin_at (clear_model pos nl) = (\<lambda>p. if fst p = pos then None else pin_at nl p) \<and>
    get_model (clear_model pos nl) = (get_model nl)(pos := Some new_model_base)"
proof -
  let ?nl = "remove_model_from_node pos nl" and ?c = "clear_model pos nl"
  note r = remove_model_from_node_ok [OF ok, of pos]
  have c: "chunk_pos pos < length (models nl)" "vec_pos pos < length (cells (models nl ! chunk_pos pos))"
    using pos by (auto simp: get_model_def Let_def split: if_splits)
  have "length (models ?nl) = length (models nl)" using r by (metis length_map)
  moreover have "map fst (map skel (models ?nl)) = map fst (map skel (models nl))" using r by simp
  then have "length (cells (models ?nl ! chunk_pos pos)) = length (cells (models nl ! chunk_pos pos))"
    using c calculation by (auto simp: skel_def list_eq_iff_nth_eq dest: arg_cong [of _ _ length])
  ultimately have "get_model ?nl pos \<noteq> None" using c by (simp add: get_model_def Let_def)
  then have g: "get_model ?c = (get_model ?nl)(pos := Some new_model_base)" unfolding clear_model_def by (rule get_model_put)
  then have im: "impl_at ?c = (impl_at ?nl)(pos := None)" by (auto simp: fun_eq_iff impl_at_def new_model_base_def)
  have P: "pin_at ?c = pin_at ?nl" using r by (auto simp: fun_eq_iff pin_at_def im)
  have "graph_ok (node_at ?nl) (pin_at ?nl) (is_digital ?c)"
  proof (rule graph_ok_kinds [OF netlist_wfD(1)])
    fix p q assume "pin_at ?nl p = Some q"
    then have "fst p \<noteq> pos" using r by (auto split: if_splits)
    then show "is_digital ?c (fst p) = is_digital ?nl (fst p)" by (simp add: is_digital_def im)
  qed (use r in blast)
  then have "graph_ok (node_at ?c) (pin_at ?c) (is_digital ?c)" using P by (simp add: clear_model_def)
  moreover have "get_model ?c = (get_model nl)(pos := Some new_model_base)" using r g by (auto simp: fun_eq_iff)
  ultimately show ?thesis using r P by simp
qed

lemma skel_clear:
  assumes ok: "netlist_wf nl" and c: "chunk_pos pos < length (models nl)"
  shows "map skel (models (clear_model pos nl)) =
    (map skel (models nl))[chunk_pos pos :=
      ((fst (skel (models nl ! chunk_pos pos)))[vec_pos pos := (mt_null, True)], num_of_null_model (models nl ! chunk_pos pos))]"
proof -
  let ?nl = "remove_model_from_node pos nl" and ?k = "chunk_pos pos"
  have s: "map skel (models ?nl) = map skel (models nl)" using remove_model_from_node_ok [OF ok, of pos] by blast
  then have len: "length (models ?nl) = length (models nl)" by (metis length_map)
  then have k: "skel (models ?nl ! ?k) = skel (models nl ! ?k)" using c s by (metis nth_map)
  have "map skel (models (clear_model pos nl)) = (map skel (models ?nl))[?k :=
      ((fst (skel (models ?nl ! ?k)))[vec_pos pos := (mt_null, True)], num_of_null_model (models ?nl ! ?k))]"
    by (simp add: clear_model_def put_model_def map_update skel_def new_model_base_def model_ok_def)
  then show ?thesis using s k by (simp add: skel_def)
qed

lemma models_update_block [simp]:
  "node_at (update_block c f nl) = node_at nl" "models (update_block c f nl) = (models nl)[c := f (models nl ! c)]"
  by (simp_all add: update_block_def)

lemma get_model_count [simp]: "get_model (update_block c (\<lambda>b. b\<lparr>num_of_null_model := f b\<rparr>) nl) = get_model nl"
  by (auto simp: fun_eq_iff get_model_def Let_def)

lemma get_model_pop:
  assumes "c < length (models nl)"
  shows "get_model (update_block c pop_cell nl) =
    (get_model nl)(\<lparr>vec_pos = length (cells (models nl ! c)) - 1, chunk_pos = c\<rparr> := None)"
proof -
  have "get_model (update_block c pop_cell nl) q =
      ((get_model nl)(\<lparr>vec_pos = length (cells (models nl ! c)) - 1, chunk_pos = c\<rparr> := None)) q" for q
    using assms by (cases q) (auto simp: get_model_def Let_def pop_cell_def nth_butlast)
  then show ?thesis by blast
qed

lemma netlist_wf_count: "netlist_wf nl \<Longrightarrow> netlist_wf (update_block c (\<lambda>b. b\<lparr>num_of_null_model := f b\<rparr>) nl)"
proof -
  assume wf: "netlist_wf nl"
  let ?nl = "update_block c (\<lambda>b. b\<lparr>num_of_null_model := f b\<rparr>) nl"
  have "impl_at ?nl = impl_at nl" by (simp add: fun_eq_iff impl_at_def)
  then have "pin_at ?nl = pin_at nl" "is_digital ?nl = is_digital nl" using views_impl by blast+
  moreover have "list_all (\<lambda>s. list_all snd (fst s)) (map skel (models ?nl))"
    using wf by (auto simp: netlist_wf_def list_all_length skel_def)
  ultimately show ?thesis using wf by (simp add: netlist_wf_def del: models_update_block(2))
qed

lemma skel_ok_pop:
  assumes "skel_ok (ms, k)" "ms \<noteq> []"
  shows "skel_ok (butlast ms, if fst (last ms) = mt_null then k - 1 else k)"
proof -
  obtain xs x where ms: "ms = xs @ [x]" using assms(2) by (metis append_butlast_last_id)
  then show ?thesis using assms(1) by (auto simp: skel_ok_def)
qed

lemma skel_ok_clear:
  assumes "skel_ok (ms, k)" "v < length ms" "fst (ms ! v) \<noteq> mt_null"
  shows "skel_ok (ms[v := (mt_null, True)], k + 1)"
proof -
  have ms: "ms = take v ms @ ms ! v # drop (Suc v) ms" using assms(2) by (rule id_take_nth_drop)
  then have "ms[v := (mt_null, True)] = take v ms @ (mt_null, True) # drop (Suc v) ms"
    using assms(2) by (simp add: upd_conv_take_nth_drop)
  moreover have "skel_ok (take v ms @ ms ! v # drop (Suc v) ms, k)" using assms(1) ms by simp
  ultimately show ?thesis using assms(3) by (simp add: skel_ok_def)
qed

definition removed :: "model_pos \<Rightarrow> netlist \<Rightarrow> netlist \<Rightarrow> bool" where
  "removed pos nl nl' \<longleftrightarrow> graph_ok (node_at nl') (pin_at nl') (is_digital nl') \<and>
     pin_at nl' = (\<lambda>p. if fst p = pos then None else pin_at nl p) \<and> impl_at nl' = (impl_at nl)(pos := None)"

lemma removed_cong: "node_at y = node_at x \<Longrightarrow> impl_at y = impl_at x \<Longrightarrow> removed pos nl y = removed pos nl x"
  by (simp only: removed_def views_impl [of y x])

lemma removed_from: "impl_at x = impl_at nl \<Longrightarrow> removed pos x y = removed pos nl y"
  by (simp only: removed_def views_impl [of x nl])

lemma removed_clear: "netlist_wf nl \<Longrightarrow> get_model nl pos \<noteq> None \<Longrightarrow> removed pos nl (clear_model pos nl)"
  using clear_model_ok [of nl pos] by (auto simp: removed_def fun_eq_iff impl_at_def new_model_base_def)

lemma removed_pop:
  assumes wf: "netlist_wf nl" and c: "chunk_pos pos < length (models nl)"
    and v: "vec_pos pos = length (cells (models nl ! chunk_pos pos)) - 1" "cells (models nl ! chunk_pos pos) \<noteq> []"
  shows "removed pos nl (update_block (chunk_pos pos) pop_cell (clear_model pos nl)) \<and>
    map skel (models (update_block (chunk_pos pos) pop_cell (clear_model pos nl))) =
      (map skel (models nl))[chunk_pos pos :=
        (butlast (fst (skel (models nl ! chunk_pos pos))), num_of_null_model (models nl ! chunk_pos pos))]"
proof -
  let ?k = "chunk_pos pos" and ?nl = "clear_model pos nl"
  have "vec_pos pos < length (cells (models nl ! ?k))" using v by (cases "cells (models nl ! ?k)") auto
  then have g: "get_model nl pos \<noteq> None" using c by (simp add: get_model_def Let_def)
  have s: "map skel (models ?nl) = (map skel (models nl))[?k :=
      ((fst (skel (models nl ! ?k)))[vec_pos pos := (mt_null, True)], num_of_null_model (models nl ! ?k))]"
    using wf c by (rule skel_clear)
  then have len: "length (models ?nl) = length (models nl)" by (metis length_list_update length_map)
  have sk: "skel (models ?nl ! ?k) = ((fst (skel (models nl ! ?k)))[vec_pos pos := (mt_null, True)], num_of_null_model (models nl ! ?k))"
    using s c len by (metis length_map nth_list_update_eq nth_map)
  then have l: "length (cells (models ?nl ! ?k)) = length (cells (models nl ! ?k))"
    by (auto simp: skel_def dest: arg_cong [of _ _ length])
  have r: "removed pos nl ?nl" using wf g by (rule removed_clear)
  have "\<lparr>vec_pos = length (cells (models ?nl ! ?k)) - 1, chunk_pos = ?k\<rparr> = pos" using v l by (cases pos) simp
  then have "get_model (update_block ?k pop_cell ?nl) = (get_model ?nl)(pos := None)"
    using get_model_pop [of ?k ?nl] c len by simp
  then have im: "impl_at (update_block ?k pop_cell ?nl) = impl_at ?nl"
    using r by (auto simp: fun_eq_iff impl_at_def removed_def)
  have r': "removed pos nl (update_block ?k pop_cell ?nl)" using r removed_cong [OF _ im, of pos nl] by simp
  have "skel (pop_cell (models ?nl ! ?k)) = (butlast (fst (skel (models nl ! ?k))), num_of_null_model (models nl ! ?k))"
    using sk v by (simp add: skel_def pop_cell_def map_butlast butlast_list_update)
  then have "map skel (models (update_block ?k pop_cell ?nl)) =
      (map skel (models nl))[?k := (butlast (fst (skel (models nl ! ?k))), num_of_null_model (models nl ! ?k))]"
    using s by (simp add: map_update)
  then show ?thesis using r' by blast
qed

lemma netlist_ok_removed:
  "removed pos nl nl' \<Longrightarrow> list_all skel_ok (map skel (models nl')) \<Longrightarrow> netlist_ok nl'"
  unfolding netlist_ok_def removed_def blocks_ok_skel by blast

lemma list_all_update: "list_all P xs \<Longrightarrow> P x \<Longrightarrow> list_all P (xs[i := x])"
  by (auto simp: list_all_length nth_list_update split: if_splits)

lemma delete_model_ok:
  assumes ok: "netlist_ok nl" and del: "delete_model pos nl = (b, nl')"
  shows "netlist_ok nl' \<and> b = (impl_at nl pos \<noteq> None) \<and>
    pin_at nl' = (\<lambda>p. if fst p = pos then None else pin_at nl p) \<and> impl_at nl' = (impl_at nl)(pos := None)"
proof -
  let ?k = "chunk_pos pos" and ?v = "vec_pos pos"
  let ?b = "models nl ! ?k"
  have wf: "netlist_wf nl" using ok by (rule netlist_ok_wf)
  have none: ?thesis if "impl_at nl pos = None" "nl' = nl" "\<not> b"
    using that ok by (auto simp: fun_eq_iff pin_at_def)
  show ?thesis
  proof (cases "?k < length (models nl) \<and> ?v < length (cells ?b)")
    case False
    then have "impl_at nl pos = None" by (auto simp: impl_at_def get_model_def Let_def)
    then show ?thesis using del False by (intro none) (auto simp: delete_model_def Let_def split: if_splits)
  next
    case True
    let ?m = "cells ?b ! ?v"
    have g: "get_model nl pos = Some ?m" using True by (simp add: get_model_def Let_def)
    then have m: "model_ok ?m" by (rule netlist_wfD(2) [OF wf])
    then have im: "impl_at nl pos \<noteq> None \<longleftrightarrow> mb_type ?m \<noteq> mt_null" using g by (auto simp: impl_at_def model_ok_def)
    have sk: "list_all skel_ok (map skel (models nl))" using netlist_okD(2) [OF ok] by (simp only: blocks_ok_skel)
    then have skb: "skel_ok (fst (skel ?b), num_of_null_model ?b)" using True by (simp add: list_all_length skel_def)
    have ne: "cells ?b \<noteq> []" using True by auto
    have fin: ?thesis if "removed pos nl nl'" "skel_ok x" "map skel (models nl') = (map skel (models nl))[?k := x]" "b = (mb_type ?m \<noteq> mt_null)" for x
      using that netlist_ok_removed [OF that(1)] list_all_update [OF sk that(2)] im by (simp add: removed_def)
    show ?thesis
    proof (cases "?v = length (cells ?b) - 1")
      case last: True
      have lst: "fst (last (fst (skel ?b))) = mb_type ?m" using last ne by (simp add: skel_def last_map last_conv_nth)
      have x: "skel_ok (butlast (fst (skel ?b)), if mb_type ?m = mt_null then num_of_null_model ?b - 1 else num_of_null_model ?b)"
        using skel_ok_pop [OF skb] ne lst by (simp add: skel_def)
      show ?thesis
      proof (cases "mb_type ?m = mt_null")
        case False
        then have "b" "nl' = update_block ?k pop_cell (clear_model pos nl)" using del True last by (auto simp: delete_model_def Let_def)
        then show ?thesis using removed_pop [OF wf _ last ne] True False x by (intro fin [of "(butlast (fst (skel ?b)), num_of_null_model ?b)"]) auto
      next
        case null: True
        let ?nl = "update_block ?k (\<lambda>b. b\<lparr>num_of_null_model := num_of_null_model b - 1\<rparr>) nl"
        have nl': "\<not> b" "nl' = update_block ?k pop_cell (clear_model pos ?nl)" using del True last null by (auto simp: delete_model_def Let_def)
        have "removed pos ?nl nl'" "map skel (models nl') = (map skel (models ?nl))[?k := (butlast (fst (skel (models ?nl ! ?k))), num_of_null_model (models ?nl ! ?k))]"
          using removed_pop [OF netlist_wf_count [OF wf], of pos ?k "\<lambda>b. num_of_null_model b - 1"] True last ne by (simp_all add: nl'(2))
        moreover have "impl_at ?nl = impl_at nl" by (simp add: fun_eq_iff impl_at_def)
        then have "removed pos ?nl nl' = removed pos nl nl'" by (rule removed_from)
        ultimately show ?thesis using null x True nl'(1)
          by (intro fin [of "(butlast (fst (skel ?b)), num_of_null_model ?b - 1)"]) (simp_all add: skel_def map_update)
      qed
    next
      case inner: False
      show ?thesis
      proof (cases "mb_type ?m = mt_null")
        case True
        then show ?thesis using del \<open>?k < length (models nl) \<and> ?v < length (cells ?b)\<close> inner im
          by (intro none) (auto simp: delete_model_def Let_def)
      next
        case live: False
        let ?nl = "update_block ?k (\<lambda>b. b\<lparr>num_of_null_model := num_of_null_model b + 1\<rparr>) nl"
        have nl': "b" "nl' = clear_model pos ?nl" using del True inner live by (auto simp: delete_model_def Let_def)
        have wf': "netlist_wf ?nl" using wf by (rule netlist_wf_count)
        have "removed pos ?nl nl'" unfolding nl'(2) using wf' by (rule removed_clear) (simp add: g)
        moreover have "impl_at ?nl = impl_at nl" by (simp add: fun_eq_iff impl_at_def)
        then have "removed pos ?nl nl' = removed pos nl nl'" by (rule removed_from)
        moreover have "map skel (models nl') = (map skel (models nl))[?k := ((fst (skel ?b))[?v := (mt_null, True)], num_of_null_model ?b + 1)]"
          unfolding nl'(2) using skel_clear [OF wf', of pos] True by (simp add: skel_def map_update)
        moreover have "skel_ok ((fst (skel ?b))[?v := (mt_null, True)], num_of_null_model ?b + 1)"
          using skb True live by (intro skel_ok_clear) (simp_all add: skel_def)
        ultimately show ?thesis using live nl'(1) by (intro fin) auto
      qed
    qed
  qed
qed

subsection \<open>Merging\<close>

lemma merge_node_links:
  assumes ok: "netlist_ok nl" and r: "node_at nl r = Some n" and o: "node_at nl other = Some m" and ne: "r \<noteq> other"
  shows "pin_at (merge_node r other nl) = (\<lambda>p. if pin_at nl p = Some other then Some r else pin_at nl p) \<and>
    node_at (merge_node r other nl) = (node_at nl)(r := Some (n\<lparr>pins := pins n \<union> pins m\<rparr>), other := Some (destroy m))"
proof -
  have m: "pins m = {p. pin_at nl p = Some other}"
    using graph_okD(1) [OF netlist_okD(1) [OF ok] o] by (simp add: links_ok_def)
  let ?nl = "map_pins (\<lambda>q x. if q \<in> pins m then Some r else x) nl"
  have "pin_at ?nl p = (if pin_at nl p = Some other then Some r else pin_at nl p)" for p
    using pin_at_valid [of nl p] by (cases "pin_at nl p") (auto simp: pin_at_map_pins m)
  then have "pin_at ?nl = (\<lambda>p. if pin_at nl p = Some other then Some r else pin_at nl p)" by blast
  then show ?thesis using r o ne by (simp add: merge_node_def)
qed

subsection \<open>Reachable netlists\<close>

text \<open>
  The operations as steps, with what the callers owe: a new model is not connected yet, a pin is
  connected only when it is free, disconnected only from its own node, and nodes are existing ones.
\<close>

inductive netlist_step :: "nat \<Rightarrow> nat \<Rightarrow> netlist \<Rightarrow> netlist \<Rightarrow> bool" for mcap ncap where
  add: "list_all (\<lambda>r. r = None) (pin_nodes m) \<Longrightarrow> add_model mcap m nl = (pos, nl') \<Longrightarrow> netlist_step mcap ncap nl nl'"
| delete: "delete_model pos nl = (b, nl') \<Longrightarrow> netlist_step mcap ncap nl nl'"
| create: "create_node ncap nl = (r, nl') \<Longrightarrow> netlist_step mcap ncap nl nl'"
| connect: "pin_at nl (pos, i) = None \<Longrightarrow> node_at nl r \<noteq> None \<Longrightarrow> add_to_node pos i r nl = Some (b, nl') \<Longrightarrow> netlist_step mcap ncap nl nl'"
| disconnect: "pin_at nl (pos, i) = Some r \<Longrightarrow> remove_from_node pos i r nl = Some (b, nl') \<Longrightarrow> netlist_step mcap ncap nl nl'"
| clear: "node_at nl r \<noteq> None \<Longrightarrow> nl' = delete_node r nl \<Longrightarrow> netlist_step mcap ncap nl nl'"

lemma netlist_step_ok: "netlist_step mcap ncap nl nl' \<Longrightarrow> netlist_ok nl \<Longrightarrow> netlist_ok nl'"
  by (induction rule: netlist_step.induct)
    (auto dest: add_model_ok delete_model_ok create_node_ok add_to_node_ok remove_from_node_ok delete_node_ok)

lemma empty_netlist_ok: "netlist_ok empty_netlist"
proof -
  have N: "node_at empty_netlist = (\<lambda>r. if r = Ground then Some new_node_t else None)"
  proof
    fix r show "node_at empty_netlist r = (if r = Ground then Some new_node_t else None)"
      by (cases r) (simp_all add: empty_netlist_def)
  qed
  have P: "pin_at empty_netlist = (\<lambda>p. None)" by (simp add: fun_eq_iff pin_at_def impl_at_def get_model_def empty_netlist_def)
  show ?thesis unfolding netlist_ok_def graph_ok_def N P
    by (auto simp: links_ok_def new_node_t_def analog_pins_def split: if_splits) (simp add: empty_netlist_def)
qed

lemma reachable_netlist_ok: "(netlist_step mcap ncap)\<^sup>*\<^sup>* empty_netlist nl \<Longrightarrow> netlist_ok nl"
  by (induction rule: rtranclp_induct) (auto intro: empty_netlist_ok netlist_step_ok)

lemma fold_count: "fold (\<lambda>b res. if P b then res + 1 else res) xs k = k + length (filter P xs)" for k :: nat
  by (induction xs arbitrary: k) simp_all

lemma num_of_model_exact:
  assumes "netlist_ok nl"
  shows "get_num_of_model nl = of_nat (get_num_of_model_checked nl)"
proof -
  have b: "block_num_of_model b = of_nat (length (filter (\<lambda>m. mb_type m \<noteq> mt_null) (cells b)))" if "block_ok b" for b
    using that sum_length_filter_compl [of "\<lambda>m. mb_type m = mt_null" "cells b"]
    by (simp add: block_num_of_model_def block_ok_def num_null_def) (metis add_diff_cancel_left' of_nat_add)
  have "list_all block_ok bs \<Longrightarrow> fold (\<lambda>i res. res + block_num_of_model i) bs (of_nat k) =
      of_nat (fold (\<lambda>i res. fold (\<lambda>b res. if mb_type b \<noteq> mt_null then res + 1 else res) (cells i) res) bs k)" for bs k
  proof (induction bs arbitrary: k)
    case (Cons i bs)
    then show ?case by (simp add: b fold_count flip: of_nat_add)
  qed simp
  from this [of "models nl" 0] show ?thesis
    using netlist_okD(2) [OF assms] by (simp add: get_num_of_model_def get_num_of_model_checked_def)
qed

subsection \<open>Copies\<close>

lemma mem_node_list: "(r, n) \<in> set (node_list nl) \<longleftrightarrow> r \<noteq> Ground \<and> node_at nl r = Some n"
proof (cases r)
  case Ground
  then show ?thesis by (auto simp: node_list_def)
next
  case (Node c i)
  have "(Node c i, n) \<in> set (node_list nl) \<longleftrightarrow> (\<exists>b. (c, b) \<in> set (enumerate 0 (nl_nodes nl)) \<and> (i, n) \<in> set (enumerate 0 b))"
    by (force simp: node_list_def)
  then show ?thesis using Node by (auto simp: in_set_enumerate_eq)
qed

lemma distinct_node_list: "distinct (map fst (node_list nl))"
proof -
  have row: "map fst (map (\<lambda>(i, n). (Node c i, n)) (enumerate k b)) = map (Node c) [k..<k + length b]" for c k and b :: "node_t list"
  proof (induction b arbitrary: k)
    case (Cons x b)
    have "[k..<k + length (x # b)] = k # [Suc k..<Suc k + length b]" by (simp add: upt_conv_Cons del: upt_Suc)
    then show ?case using Cons [of "Suc k"] by (simp del: upt_Suc)
  qed simp
  have "distinct (concat (map (\<lambda>(c, b). map (Node c) [0..<length b]) (enumerate k bs))) \<and>
      (\<forall>r \<in> set (concat (map (\<lambda>(c, b). map (Node c) [0..<length b]) (enumerate k bs))). \<exists>c i. r = Node c i \<and> k \<le> c)"
    for k and bs :: "node_t list list"
  proof (induction bs arbitrary: k)
    case (Cons b bs)
    show ?case using Cons.IH [of "Suc k"] by (fastforce simp: distinct_map inj_on_def)
  qed simp
  then show ?thesis using row [where k = 0] by (simp add: node_list_def map_concat comp_def case_prod_unfold)
qed

lemma copy_nodes_models: "copy_nodes cap rs f nl = (f', nl') \<Longrightarrow> models nl' = models nl"
  by (induction cap rs f nl rule: copy_nodes.induct) auto

lemma push_node_keep: "node_at nl r = Some n \<Longrightarrow> node_at (push_node cap m nl) r = Some n"
  using node_at_next [of nl cap] by (auto simp: node_at_push_node)

lemma copy_nodes_keep: "copy_nodes cap rs f nl = (f', nl') \<Longrightarrow> node_at nl r = Some n \<Longrightarrow> node_at nl' r = Some n"
  by (induction cap rs f nl rule: copy_nodes.induct) (auto dest: push_node_keep)

lemma copy_nodes_new:
  assumes "copy_nodes cap rs f nl = (f', nl')" "\<forall>r n. node_at nl r = Some n \<longrightarrow> P n" "\<forall>n. P (copy_node_t n)"
  shows "\<forall>r n. node_at nl' r = Some n \<longrightarrow> P n"
  using assms
proof (induction cap rs f nl rule: copy_nodes.induct)
  case (2 cap r n rs f nl)
  have "\<forall>r' n'. node_at (push_node cap (copy_node_t n) nl) r' = Some n' \<longrightarrow> P n'"
    using 2(3,4) by (auto simp: node_at_push_node)
  then show ?case using 2(1) [OF 2(2) [unfolded copy_nodes.simps] _ 2(4)] by blast
qed simp

definition map_ok :: "node_map \<Rightarrow> netlist \<Rightarrow> bool" where
  "map_ok f nl \<longleftrightarrow> (\<forall>r r'. f r = Some r' \<longrightarrow> node_at nl r' \<noteq> None) \<and> inj_on f (dom f)"

lemma map_ok_push:
  assumes "map_ok f nl" "f r = None"
  shows "map_ok (f(r \<mapsto> next_node_ref cap nl)) (push_node cap n nl)"
proof -
  have "f a \<noteq> Some (next_node_ref cap nl)" for a using assms(1) node_at_next [of nl cap] unfolding map_ok_def by force
  then show ?thesis using assms by (auto simp: map_ok_def inj_on_def node_at_push_node)
qed

lemma copy_nodes_map:
  assumes "copy_nodes cap rs f nl = (f', nl')" "map_ok f nl" "distinct (map fst rs)" "fst ` set rs \<inter> dom f = {}"
  shows "map_ok f' nl' \<and> dom f' = dom f \<union> fst ` set rs \<and> (\<forall>r \<in> dom f. f' r = f r) \<and>
    (\<forall>(r, n) \<in> set rs. \<exists>r'. f' r = Some r' \<and> node_at nl' r' = Some (copy_node_t n))"
  using assms
proof (induction cap rs f nl rule: copy_nodes.induct)
  case (2 cap r n rs f nl)
  let ?q = "next_node_ref cap nl" and ?nl = "push_node cap (copy_node_t n) nl"
  have f: "f r = None" using 2(5) by auto
  have run: "copy_nodes cap rs (f(r \<mapsto> ?q)) ?nl = (f', nl')" using 2(2) by simp
  have disj: "fst ` set rs \<inter> dom (f(r \<mapsto> ?q)) = {}" 
  proof -
    have "dom (f(r \<mapsto> ?q)) = insert r (dom f)" by simp
    then show ?thesis using 2(4,5) by auto
  qed
  have IH: "map_ok f' nl' \<and> dom f' = dom (f(r \<mapsto> ?q)) \<union> fst ` set rs \<and> (\<forall>a \<in> dom (f(r \<mapsto> ?q)). f' a = (f(r \<mapsto> ?q)) a) \<and>
      (\<forall>(r, n) \<in> set rs. \<exists>r'. f' r = Some r' \<and> node_at nl' r' = Some (copy_node_t n))"
    using 2(4) disj by (intro 2(1) [OF run map_ok_push [OF 2(3) f]]) (simp_all add: fun_upd_def)
  have "node_at nl' ?q = Some (copy_node_t n)"
    by (rule copy_nodes_keep [OF run]) (simp add: node_at_push_node)
  moreover have "f' r = Some ?q" using IH by simp
  moreover have "\<forall>a \<in> dom f. f' a = f a" using IH f by auto
  ultimately show ?case using IH by auto
qed simp

text \<open>The nodes list exactly the pins that point at them, whatever their counters say.\<close>

definition linked :: "netlist \<Rightarrow> bool" where
  "linked nl \<longleftrightarrow> (\<forall>r n. node_at nl r = Some n \<longrightarrow> pins n = {p. pin_at nl p = Some r}) \<and>
     (\<forall>p r. pin_at nl p = Some r \<longrightarrow> node_at nl r \<noteq> None)"

definition uncounted :: "netlist \<Rightarrow> bool" where
  "uncounted nl \<longleftrightarrow> (\<forall>r n. node_at nl r = Some n \<longrightarrow> num_of_analog_node n = 0) \<and> (\<forall>b \<in> set (models nl). num_of_null_model b = 0)"

lemma attach_pins_models [simp]: "models (attach_pins pos i rs nl) = models nl"
  by (induction pos i rs nl rule: attach_pins.induct) simp_all

lemma attach_pins_views [simp]: "pin_at (attach_pins pos i rs nl) = pin_at nl" "get_model (attach_pins pos i rs nl) = get_model nl"
  by (simp_all add: fun_eq_iff pin_at_def impl_at_def get_model_def)

fun hits :: "model_pos \<Rightarrow> nat \<Rightarrow> node_ref option list \<Rightarrow> node_ref \<Rightarrow> pin_ref set" where
  "hits pos i [] r = {}"
| "hits pos i (x # xs) r = (if x = Some r then {(pos, i)} else {}) \<union> hits pos (Suc i) xs r"

lemma mem_hits: "p \<in> hits pos i rs r \<longleftrightarrow> fst p = pos \<and> i \<le> snd p \<and> snd p - i < length rs \<and> rs ! (snd p - i) = Some r"
proof (induction pos i rs r rule: hits.induct)
  case (2 pos i x xs r)
  show ?case
  proof (cases "snd p = i")
    case True
    then show ?thesis using 2 by (cases p) auto
  next
    case False
    then show ?thesis using 2 by (cases "i < snd p") (auto simp: nth_Cons' Suc_diff_Suc not_less)
  qed
qed simp

lemma attach_pins_nodes:
  "node_at (attach_pins pos i rs nl) r = map_option (\<lambda>n. n\<lparr>pins := pins n \<union> hits pos i rs r\<rparr>) (node_at nl r)"
proof (induction pos i rs nl rule: attach_pins.induct)
  case (1 pos i nl)
  then show ?case by (cases "node_at nl r") simp_all
next
  case (3 pos i q rs nl)
  then show ?case by (cases "node_at nl r") (auto simp: attach_def)
qed simp

lemma remap_pins_total: "(\<forall>r. Some r \<in> set rs \<longrightarrow> f r \<noteq> None) \<Longrightarrow> remap_pins f rs = Some (map (\<lambda>r. Option.bind r f) rs)"
  by (induction f rs rule: remap_pins.induct) auto

text \<open>A model with its pins moved along a table of nodes.\<close>

definition moved :: "node_map \<Rightarrow> model_base \<Rightarrow> model_base" where
  "moved f m = m\<lparr>mb_ptr := map_option (\<lambda>im. im\<lparr>pin_nodes := map (\<lambda>r. Option.bind r f) (pin_nodes im)\<rparr>) (mb_ptr m)\<rparr>"

lemma all_models_push: "all_models (push_model cap m nl) = all_models nl @ [m]"
  by (cases "models nl" rule: rev_cases) (auto simp: all_models_def push_model_def push_cell_def new_model_block_def)

lemma uncounted_push: "uncounted nl \<Longrightarrow> uncounted (push_model cap m nl)"
  by (cases "models nl" rule: rev_cases)
    (auto simp: uncounted_def push_model_def push_cell_def new_model_block_def)

lemma linked_push:
  assumes "linked nl" "map_ok f nl" "mb_ptr m = Some im" "\<forall>r. Some r \<in> set (pin_nodes im) \<longrightarrow> f r \<noteq> None"
  shows "linked (attach_pins (next_model_pos cap nl) 0 (map (\<lambda>r. Option.bind r f) (pin_nodes im)) (push_model cap (moved f m) nl))"
proof -
  let ?pos = "next_model_pos cap nl" and ?rs = "map (\<lambda>r. Option.bind r f) (pin_nodes im)"
  let ?nl = "push_model cap (moved f m) nl"
  have "get_model ?nl = (get_model nl)(?pos := Some (moved f m))" by (auto simp: get_model_push)
  then have im: "impl_at ?nl = (impl_at nl)(?pos := Some (im\<lparr>pin_nodes := ?rs\<rparr>))" by (auto simp: impl_at_def moved_def assms(3))
  have old: "impl_at nl ?pos = None" using get_model_next [of nl cap] by (simp add: impl_at_def)
  have P: "pin_at ?nl p = (if fst p = ?pos then (if snd p < length ?rs then ?rs ! snd p else None) else pin_at nl p)" for p
    by (simp add: pin_at_def im)
  have none: "fst p = ?pos \<Longrightarrow> pin_at nl p = None" for p using old by (simp add: pin_at_def)
  have h: "p \<in> hits ?pos 0 ?rs r \<longleftrightarrow> fst p = ?pos \<and> pin_at ?nl p = Some r" for p r by (auto simp: mem_hits P split: if_splits)
  have "node_at nl r \<noteq> None" if p: "pin_at ?nl p = Some r" for p r
  proof (cases "fst p = ?pos")
    case True
    then obtain q where "f q = Some r" using p by (auto simp: P bind_eq_Some_conv split: if_splits)
    then show ?thesis using assms(2) by (auto simp: map_ok_def)
  next
    case False
    then show ?thesis using p assms(1) by (cases p) (auto simp: P linked_def)
  qed
  moreover have "pins n \<union> hits ?pos 0 ?rs r = {p. pin_at ?nl p = Some r}" if "node_at nl r = Some n" for n r
    using that assms(1) none by (auto simp: h linked_def P split: if_splits)
  ultimately show ?thesis unfolding linked_def by (auto simp: attach_pins_nodes)
qed

lemma copy_models_run:
  assumes "\<forall>m \<in> set ms. model_ok m \<and> (\<forall>im r. mb_ptr m = Some im \<longrightarrow> Some r \<in> set (pin_nodes im) \<longrightarrow> f r \<noteq> None)"
    and "linked nl" "map_ok f nl" "uncounted nl"
  shows "\<exists>nl'. copy_models cap f ms nl = Some nl' \<and> linked nl' \<and> uncounted nl' \<and> all_models nl' = all_models nl @ map (moved f) ms \<and>
    (\<forall>r. map_option node_info (node_at nl' r) = map_option node_info (node_at nl r))"
  using assms
proof (induction ms arbitrary: nl)
  case (Cons m ms)
  have m: "model_ok m" using Cons.prems(1) by simp
  show ?case
  proof (cases "mb_ptr m")
    case None
    let ?nl = "push_model cap m nl"
    have mv: "moved f m = m" using None by (cases m) (simp add: moved_def)
    have "get_model ?nl = (get_model nl)(next_model_pos cap nl := Some m)" by (auto simp: get_model_push)
    then have "impl_at ?nl = impl_at nl" using None get_model_next [of nl cap] by (auto simp: fun_eq_iff impl_at_def)
    then have "pin_at ?nl = pin_at nl" by (rule views_impl)
    then have "linked ?nl" "map_ok f ?nl" using Cons.prems by (simp_all add: linked_def map_ok_def)
    then show ?thesis using Cons.IH [of ?nl] Cons.prems uncounted_push None mv by (simp add: all_models_push)
  next
    case (Some im)
    then have ty: "mb_type m = mt_normal" using m by (simp add: model_ok_def)
    let ?rs = "map (\<lambda>r. Option.bind r f) (pin_nodes im)"
    let ?nl = "attach_pins (next_model_pos cap nl) 0 ?rs (push_model cap (moved f m) nl)"
    have f: "\<forall>r. Some r \<in> set (pin_nodes im) \<longrightarrow> f r \<noteq> None" using Cons.prems(1) Some by simp
    have run: "copy_models cap f (m # ms) nl = copy_models cap f ms ?nl"
      using Some ty remap_pins_total [OF f] by (simp add: copy_live_model_def moved_def)
    have "linked ?nl" using Cons.prems(2,3) Some f by (rule linked_push)
    moreover have "map_ok f ?nl" using Cons.prems(3) by (simp add: map_ok_def attach_pins_nodes)
    moreover have "uncounted ?nl" using uncounted_push [OF Cons.prems(4), of cap "moved f m"]
      by (auto simp: uncounted_def attach_pins_nodes)
    moreover have "all_models ?nl = all_models nl @ [moved f m]" by (simp add: all_models_def) (simp add: all_models_push flip: all_models_def)
    moreover have "map_option node_info (node_at ?nl r) = map_option node_info (node_at nl r)" for r
      by (cases "node_at nl r") (simp_all add: attach_pins_nodes)
    ultimately show ?thesis using Cons.IH [of ?nl] Cons.prems(1) unfolding run by auto
  qed
qed simp

end
