(* ===== verification/Digital_Props.thy ===== *)
theory Digital_Props
  imports Digital Netlist_Props
begin

text \<open>
  What a device may do to the nodes, what it keeps, and what the event loop makes of it: a queue
  that runs empty leaves every combinational device consistent with its inputs.
\<close>

subsection \<open>The node store\<close>

definition strip :: "node_t \<Rightarrow> node_t" where
  "strip n = n\<lparr>node_info := DN indeterminate_state, node_index := 0\<rparr>"

text \<open>Two stores with the same models and the same nodes up to their information and numbers.\<close>

definition same_net :: "node_store \<Rightarrow> node_store \<Rightarrow> bool" where
  "same_net s s' \<longleftrightarrow> models (dnet s') = models (dnet s) \<and> (\<forall>r. map_option strip (node_at (dnet s') r) = map_option strip (node_at (dnet s) r))"

definition valid_node :: "node_store \<Rightarrow> node_ref \<Rightarrow> bool" where
  "valid_node s r \<longleftrightarrow> node_at (dnet s) r \<noteq> None"

definition digital_net :: "node_store \<Rightarrow> bool" where
  "digital_net s \<longleftrightarrow> (\<forall>r n. node_at (dnet s) r = Some n \<longrightarrow> num_of_analog_node n = 0)"

lemma same_net_refl [simp]: "same_net s s"
  by (simp add: same_net_def)

lemma same_net_trans: "same_net s s1 \<Longrightarrow> same_net s1 s2 \<Longrightarrow> same_net s s2"
  by (simp add: same_net_def)

lemma same_net_sym: "same_net s s' \<Longrightarrow> same_net s' s"
  by (simp add: same_net_def)

lemma strip_eqD: "strip n = strip m \<Longrightarrow> pins n = pins m \<and> num_of_analog_node n = num_of_analog_node m"
  by (cases n; cases m) (simp add: strip_def)

lemma same_net_nodes:
  assumes "same_net s s'"
  shows "valid_node s' r = valid_node s r" "pins (deref s' r) = pins (deref s r)" "is_analog s' r = is_analog s r"
proof -
  have m: "map_option strip (node_at (dnet s') r) = map_option strip (node_at (dnet s) r)" using assms by (simp add: same_net_def)
  then show "valid_node s' r = valid_node s r" by (cases "node_at (dnet s) r") (auto simp: valid_node_def)
  have "strip (deref s' r) = strip (deref s r)"
    using m by (cases "node_at (dnet s) r"; cases "node_at (dnet s') r") (simp_all add: deref_def)
  then show "pins (deref s' r) = pins (deref s r)" "is_analog s' r = is_analog s r"
    using strip_eqD [of "deref s' r" "deref s r"] by (simp_all add: is_analog_def)
qed

lemma same_net_digital: "same_net s s' \<Longrightarrow> digital_net s' = digital_net s"
proof -
  have "digital_net s'" if "same_net s s'" "digital_net s" for s s'
    unfolding digital_net_def
  proof (intro allI impI)
    fix r n assume "node_at (dnet s') r = Some n"
    moreover have "map_option strip (node_at (dnet s') r) = map_option strip (node_at (dnet s) r)" using that(1) by (simp add: same_net_def)
    ultimately obtain m where "node_at (dnet s) r = Some m" "strip n = strip m" by (cases "node_at (dnet s) r") auto
    then show "num_of_analog_node n = 0" using that(2) strip_eqD [of n m] by (auto simp: digital_net_def)
  qed
  then show "same_net s s' \<Longrightarrow> digital_net s' = digital_net s" using same_net_sym by blast
qed

lemma not_analog: "digital_net s \<Longrightarrow> \<not> is_analog s r"
  by (auto simp: digital_net_def is_analog_def deref_def new_node_t_def split: option.splits)

lemma same_net_put [simp]: "same_net s (put_state r v s)"
  by (auto simp: same_net_def put_state_def strip_def [abs_def] option.map_comp comp_def)

lemma same_net_schedule [simp]: "same_net s (schedule r s') = same_net s s'"
  by (simp add: same_net_def schedule_def)

lemma state_of_put: "state_of (put_state r v s) q = (if q = r \<and> valid_node s r then v else state_of s q)"
  by (auto simp: state_of_def deref_def put_state_def valid_node_def split: option.splits)

lemma state_of_schedule [simp]: "state_of (schedule r s) = state_of s"
  by (simp add: state_of_def deref_def schedule_def fun_eq_iff)

lemma tables_put [simp]: "tables (put_state r v s) = tables s"
  by (simp add: put_state_def)

lemma tables_schedule [simp]: "tables (schedule r s) = insert r (tables s)"
  by (simp add: schedule_def)

subsection \<open>Scheduled writes\<close>

text \<open>Only the nodes of \<open>W\<close> change or are scheduled, and every changed node is pending.\<close>

definition writes :: "node_ref set \<Rightarrow> node_store \<Rightarrow> node_store \<Rightarrow> bool" where
  "writes W s s' \<longleftrightarrow> same_net s s' \<and> tables s \<subseteq> tables s' \<and> tables s' \<subseteq> tables s \<union> W \<and>
     (\<forall>r. state_of s' r \<noteq> state_of s r \<longrightarrow> r \<in> W \<and> r \<in> tables s')"

lemma writes_refl [simp]: "writes W s s"
  by (simp add: writes_def)

lemma writes_trans:
  assumes "writes W s s1" "writes W s1 s2"
  shows "writes W s s2"
proof -
  have "r \<in> W \<and> r \<in> tables s2" if "state_of s2 r \<noteq> state_of s r" for r
    using assms that unfolding writes_def by (cases "state_of s1 r = state_of s r") auto
  then show ?thesis using assms same_net_trans unfolding writes_def by blast
qed

lemma writes_mono: "writes W s s' \<Longrightarrow> W \<subseteq> V \<Longrightarrow> writes V s s'"
  unfolding writes_def by blast

lemma writes_put: "r \<in> W \<Longrightarrow> writes W s (schedule r (put_state r v s))"
  by (auto simp: writes_def state_of_put)

lemma writes_same: "state_of s r = v \<Longrightarrow> writes W s (put_state r v s)"
  by (auto simp: writes_def state_of_put)

lemma writes_changed: "r \<in> W \<Longrightarrow> writes W s (write_changed r v s)"
  by (simp add: write_changed_def writes_put)

lemma state_of_write_changed: "valid_node s r \<Longrightarrow> state_of (write_changed r v s) q = (if q = r then v else state_of s q)"
  by (auto simp: write_changed_def state_of_put)

subsection \<open>What a device may do\<close>

text \<open>Pin numbers, the values a device remembers of its outputs, and the function of a combinational device.\<close>

fun in_pins :: "digital_model \<Rightarrow> nat list" where
  "in_pins (D_NOT _) = [0]" | "in_pins (D_YES _) = [0]"
| "in_pins (D_FULL_ADDER _) = [0, 1, 2]" | "in_pins (D_FULL_SUB _) = [0, 1, 2]"
| "in_pins (D_MUL2 _) = [0, 1, 2, 3]"
| "in_pins (D_IS_UNKNOWN _) = [0]" | "in_pins (D_SCHMITT_TRIGGER _) = [0]"
| "in_pins (D_DFF_ARSTN _) = [0, 1, 2]" | "in_pins (D_JKFF _) = [0, 1, 2]"
| "in_pins (D_COUNTER4 _) = [4, 5]" | "in_pins (D_RANDOM_GENERATOR4 _) = [4, 5]"
| "in_pins (D_INPUT _) = []" | "in_pins (D_OUTPUT _) = [0]"
| "in_pins (D_EIGHT_BIT_INPUT _) = []" | "in_pins (D_EIGHT_BIT_DISPLAY _) = [0, 1, 2, 3, 4, 5, 6, 7]"
| "in_pins (D_TICK_DELAY _) = [0]"
| "in_pins (D_VERILOG_MODULE m) = filter (\<lambda>i. p_dir (vm_ports m ! i) \<noteq> dir_output) [0..<length (vm_ports m)]"
| "in_pins (D_VERILOG_PORTS _) = []"
| "in_pins _ = [0, 1]"

fun out_pins :: "digital_model \<Rightarrow> nat list" where
  "out_pins (D_NOT _) = [1]" | "out_pins (D_YES _) = [1]"
| "out_pins (D_HALF_ADDER _) = [2, 3]" | "out_pins (D_HALF_SUB _) = [2, 3]"
| "out_pins (D_FULL_ADDER _) = [3, 4]" | "out_pins (D_FULL_SUB _) = [3, 4]"
| "out_pins (D_MUL2 _) = [4, 5, 6, 7]"
| "out_pins (D_IS_UNKNOWN _) = [1]" | "out_pins (D_SCHMITT_TRIGGER _) = [1]"
| "out_pins (D_DFF_ARSTN _) = [3]" | "out_pins (D_JKFF _) = [3]"
| "out_pins (D_COUNTER4 _) = [0, 1, 2, 3]" | "out_pins (D_RANDOM_GENERATOR4 _) = [0, 1, 2, 3]"
| "out_pins (D_INPUT _) = [0]" | "out_pins (D_OUTPUT _) = []"
| "out_pins (D_EIGHT_BIT_INPUT _) = [0, 1, 2, 3, 4, 5, 6, 7]" | "out_pins (D_EIGHT_BIT_DISPLAY _) = []"
| "out_pins (D_TICK_DELAY _) = [1]"
| "out_pins (D_VERILOG_MODULE m) = filter (\<lambda>i. drives (vm_ports m ! i)) [0..<length (vm_ports m)]"
| "out_pins (D_VERILOG_PORTS _) = []"
| "out_pins _ = [2]"

fun arity :: "digital_model \<Rightarrow> nat" where
  "arity (D_VERILOG_MODULE m) = length (vm_ports m)"
| "arity (D_VERILOG_PORTS m) = length (vp_pin_name_storage m)"
| "arity d = length (in_pins d) + length (out_pins d)"

fun remembered :: "digital_model \<Rightarrow> logic_t list option" where
  "remembered (D_AND g) = Some [last_outputA g]" | "remembered (D_OR g) = Some [last_outputA g]"
| "remembered (D_XOR g) = Some [last_outputA g]" | "remembered (D_NAND g) = Some [last_outputA g]"
| "remembered (D_NOR g) = Some [last_outputA g]" | "remembered (D_XNOR g) = Some [last_outputA g]"
| "remembered (D_IMP g) = Some [last_outputA g]" | "remembered (D_NIMP g) = Some [last_outputA g]"
| "remembered (D_NOT g) = Some [last_outputA g]" | "remembered (D_YES g) = Some [last_outputA g]"
| "remembered (D_HALF_ADDER a) = Some (last_outs a)" | "remembered (D_HALF_SUB a) = Some (last_outs a)"
| "remembered (D_FULL_ADDER a) = Some (last_outs a)" | "remembered (D_FULL_SUB a) = Some (last_outs a)"
| "remembered (D_MUL2 a) = Some (last_outs a)"
| "remembered (D_INPUT i) = Some [i_last i]" | "remembered (D_TICK_DELAY m) = Some [d_last m]"
| "remembered _ = None"

definition z_to_x :: "logic_t \<Rightarrow> logic_t" where
  "z_to_x v = (if v = high_impedence_state then indeterminate_state else v)"

definition adder_fun :: "(logic_t list \<Rightarrow> logic_t) \<Rightarrow> (logic_t list \<Rightarrow> logic_t) \<Rightarrow> logic_t list \<Rightarrow> logic_t list" where
  "adder_fun f g vs = (let ws = map z_to_x vs in [known_or_x ws (f ws), known_or_x ws (g ws)])"

fun comb :: "digital_model \<Rightarrow> (logic_t list \<Rightarrow> logic_t list) option" where
  "comb (D_AND _) = Some (\<lambda>vs. [AND_fun (vs ! 0) (vs ! 1)])"
| "comb (D_OR _) = Some (\<lambda>vs. [OR_fun (vs ! 0) (vs ! 1)])"
| "comb (D_XOR _) = Some (\<lambda>vs. [XOR_fun (vs ! 0) (vs ! 1)])"
| "comb (D_NAND _) = Some (\<lambda>vs. [NAND_fun (vs ! 0) (vs ! 1)])"
| "comb (D_NOR _) = Some (\<lambda>vs. [NOR_fun (vs ! 0) (vs ! 1)])"
| "comb (D_XNOR _) = Some (\<lambda>vs. [XNOR_fun (vs ! 0) (vs ! 1)])"
| "comb (D_IMP _) = Some (\<lambda>vs. [IMP_fun (vs ! 0) (vs ! 1)])"
| "comb (D_NIMP _) = Some (\<lambda>vs. [NIMP_fun (vs ! 0) (vs ! 1)])"
| "comb (D_NOT _) = Some (\<lambda>vs. [op_not (vs ! 0)])"
| "comb (D_YES _) = Some (\<lambda>vs. [vs ! 0])"
| "comb (D_RESOLVE2 _) = Some (\<lambda>vs. [resolve2 (vs ! 0) (vs ! 1)])"
| "comb (D_HALF_ADDER _) = Some (adder_fun (\<lambda>ws. op_xor (ws ! 0) (ws ! 1)) (\<lambda>ws. op_and (ws ! 0) (ws ! 1)))"
| "comb (D_HALF_SUB _) = Some (adder_fun (\<lambda>ws. op_xor (ws ! 0) (ws ! 1)) (\<lambda>ws. op_and (inv_state (ws ! 0)) (ws ! 1)))"
| "comb (D_FULL_ADDER _) = Some (adder_fun (\<lambda>ws. op_xor (op_xor (ws ! 0) (ws ! 1)) (ws ! 2))
     (\<lambda>ws. op_or (op_or (op_and (ws ! 0) (ws ! 1)) (op_and (ws ! 0) (ws ! 2))) (op_and (ws ! 1) (ws ! 2))))"
| "comb (D_FULL_SUB _) = Some (adder_fun (\<lambda>ws. op_xor (op_xor (ws ! 0) (ws ! 1)) (ws ! 2))
     (\<lambda>ws. op_or (op_or (op_and (inv_state (ws ! 0)) (ws ! 1)) (op_and (inv_state (ws ! 0)) (ws ! 2))) (op_and (ws ! 1) (ws ! 2))))"
| "comb (D_MUL2 _) = Some (\<lambda>vs. mul2_vals (z_to_x (vs ! 0)) (z_to_x (vs ! 1)) (z_to_x (vs ! 2)) (z_to_x (vs ! 3)))"
| "comb _ = None"

lemma arity_comb [simp]: "comb d \<noteq> None \<Longrightarrow> arity d = length (in_pins d) + length (out_pins d)"
  by (cases d) simp_all

text \<open>The nodes at some pins, and the nodes a device drives.\<close>

definition nodes_at :: "node_ref option list \<Rightarrow> nat list \<Rightarrow> node_ref list" where
  "nodes_at ps is = List.map_filter (\<lambda>i. if i < length ps then ps ! i else None) is"

abbreviation out_nodes :: "node_ref option list \<Rightarrow> digital_model \<Rightarrow> node_ref list" where
  "out_nodes ps d \<equiv> nodes_at ps (out_pins d)"

fun pipe_ok :: "digital_model \<Rightarrow> bool" where
  "pipe_ok (D_TICK_DELAY m) \<longleftrightarrow> (pipe m = [] \<and> d_last m = indeterminate_state) \<or> length (pipe m) = delay_ticks m"
| "pipe_ok (D_VERILOG_MODULE m) \<longleftrightarrow> vm_ok m"
| "pipe_ok _ \<longleftrightarrow> True"

text \<open>The remembered outputs are the states of the nodes the device drives.\<close>

definition dev_ok :: "node_ref option list \<Rightarrow> digital_model \<Rightarrow> node_store \<Rightarrow> bool" where
  "dev_ok ps d s \<longleftrightarrow> pipe_ok d \<and>
     (length (out_nodes ps d) = length (out_pins d) \<longrightarrow> remembered d \<noteq> None \<longrightarrow> remembered d = Some (map (state_of s) (out_nodes ps d)))"

text \<open>A combinational device whose outputs are the function of its inputs.\<close>

definition settled_device :: "node_ref option list \<Rightarrow> digital_model \<Rightarrow> node_store \<Rightarrow> node_store \<Rightarrow> bool" where
  "settled_device ps d s s' \<longleftrightarrow>
     (case comb d of None \<Rightarrow> True
      | Some f \<Rightarrow> None \<notin> set ps \<longrightarrow> map (state_of s') (out_nodes ps d) = f (map (state_of s) (nodes_at ps (in_pins d))))"

definition same_kind :: "digital_model \<Rightarrow> digital_model \<Rightarrow> bool" where
  "same_kind d d' \<longleftrightarrow> in_pins d' = in_pins d \<and> out_pins d' = out_pins d \<and> arity d' = arity d \<and> comb d' = comb d"

definition wired_ok :: "node_ref option list \<Rightarrow> digital_model \<Rightarrow> node_store \<Rightarrow> bool" where
  "wired_ok ps d s \<longleftrightarrow> length ps = arity d \<and> distinct (out_nodes ps d) \<and> digital_net s \<and> (\<forall>r. Some r \<in> set ps \<longrightarrow> valid_node s r)"

definition ran :: "node_ref option list \<Rightarrow> digital_model \<Rightarrow> node_store \<Rightarrow> digital_model \<Rightarrow> node_store \<Rightarrow> bool" where
  "ran ps d s d' s' \<longleftrightarrow> writes (set (out_nodes ps d)) s s' \<and> dev_ok ps d' s' \<and> same_kind d d' \<and> settled_device ps d s s'"

end
