(* ===== verification/Digital_Run.thy ===== *)
theory Digital_Run
  imports Digital_Props
begin

text \<open>Every device keeps to what \<open>ran\<close> allows on digital nodes.\<close>

subsection \<open>Pins\<close>

lemma nodes_at_simps [simp]:
  "nodes_at ps [] = []"
  "nodes_at ps (i # is) = (if i < length ps then (case ps ! i of None \<Rightarrow> nodes_at ps is | Some r \<Rightarrow> r # nodes_at ps is) else nodes_at ps is)"
  by (auto simp: nodes_at_def map_filter_simps split: option.splits)

lemma mem_nodes_at: "r \<in> set (nodes_at ps is) \<longleftrightarrow> (\<exists>i \<in> set is. i < length ps \<and> ps ! i = Some r)"
  by (induction "is") (auto split: option.splits)

lemma list2: "length ps = 2 \<Longrightarrow> \<exists>a b. ps = [a, b]"
  by (auto simp: length_Suc_conv numeral_2_eq_2)

lemma list3: "length ps = 3 \<Longrightarrow> \<exists>a b c. ps = [a, b, c]"
  by (auto simp: length_Suc_conv numeral_3_eq_3)

lemma list4: "length ps = 4 \<Longrightarrow> \<exists>a b c d. ps = [a, b, c, d]"
  by (auto simp: length_Suc_conv eval_nat_numeral)

lemma list5: "length ps = 5 \<Longrightarrow> \<exists>a b c d e. ps = [a, b, c, d, e]"
  by (auto simp: length_Suc_conv eval_nat_numeral)

lemma list8: "length ps = 8 \<Longrightarrow> \<exists>a b c d e f g h. ps = [a, b, c, d, e, f, g, h]"
  by (auto simp: length_Suc_conv eval_nat_numeral)

lemma connected: "None \<notin> set ps \<Longrightarrow> \<exists>rs. ps = map Some rs"
proof (induction ps)
  case (Cons p ps)
  then show ?case by (cases p) (auto intro: exI [of _ "_ # _"])
qed simp

lemma wired_okD:
  assumes "wired_ok ps d s"
  shows "length ps = arity d" "digital_net s" "Some r \<in> set ps \<Longrightarrow> valid_node s r" "distinct (out_nodes ps d)"
  using assms by (simp_all add: wired_ok_def)

lemma pins2: "wired_ok ps d s \<Longrightarrow> arity d = 2 \<Longrightarrow> \<exists>a b. ps = [a, b]"
  by (simp add: wired_okD(1) list2)

lemma pins3: "wired_ok ps d s \<Longrightarrow> arity d = 3 \<Longrightarrow> \<exists>a b c. ps = [a, b, c]"
  by (simp add: wired_okD(1) list3)

lemma pins4: "wired_ok ps d s \<Longrightarrow> arity d = 4 \<Longrightarrow> \<exists>a b c d. ps = [a, b, c, d]"
  by (simp add: wired_okD(1) list4)

lemma pins5: "wired_ok ps d s \<Longrightarrow> arity d = 5 \<Longrightarrow> \<exists>a b c d e. ps = [a, b, c, d, e]"
  by (simp add: wired_okD(1) list5)

lemma pins8: "wired_ok ps d s \<Longrightarrow> arity d = 8 \<Longrightarrow> \<exists>a b c d e f g h. ps = [a, b, c, d, e, f, g, h]"
  by (simp add: wired_okD(1) list8)

lemma ran_idle: "dev_ok ps d s \<Longrightarrow> comb d = None \<or> None \<in> set ps \<Longrightarrow> ran ps d s d s"
  by (auto simp: ran_def same_kind_def settled_device_def split: option.splits)

lemma read_digital:
  "digital_net s \<Longrightarrow> read_raw ops lv s r = state_of s r"
  "digital_net s \<Longrightarrow> read_dn ops lv s r = z_to_x (state_of s r)"
  "digital_net s \<Longrightarrow> sample_input ops g tr s r i = i\<lparr>input := state_of s r\<rparr>"
  by (simp_all add: read_raw_def read_dn_def sample_input_def not_analog z_to_x_def)

subsection \<open>Gates\<close>

lemma gate_out_run:
  assumes "digital_net s" "valid_node s r" "\<not> change \<Longrightarrow> state_of s r = v"
  obtains s' where "gate_out lv change v r s = (s', None)" "writes {r} s s'" "state_of s' r = v"
proof
  show "gate_out lv change v r s = ((if change then schedule r else id) (put_state r v s), None)"
    using assms(1) by (simp add: gate_out_def not_analog)
  show "writes {r} s ((if change then schedule r else id) (put_state r v s))"
    using assms(3) by (simp add: writes_put writes_same)
  show "state_of ((if change then schedule r else id) (put_state r v s)) r = v" using assms(2) by (simp add: state_of_put)
qed

lemma gate2_run:
  assumes "digital_net s" "valid_node s r" "state_of s r = last_outputA g"
  obtains g' s' where "gate2_clk f ops tr [Some a, Some b, Some r] g s = (g', s', None)"
    "last_outputA g' = f (state_of s a) (state_of s b)" "writes {r} s s'" "state_of s' r = f (state_of s a) (state_of s b)"
proof (rule gate_out_run [OF assms(1,2), of "last_outputA g \<noteq> f (state_of s a) (state_of s b)" "f (state_of s a) (state_of s b)" "g_levels g"], goal_cases)
  case 1
  then show ?case using assms(3) by simp
next
  case (2 s')
  then show ?case using that by (simp add: gate2_clk_def read_digital [OF assms(1)] Let_def)
qed

lemma gate1_run:
  assumes "digital_net s" "valid_node s r" "state_of s r = last_outputA g"
  obtains g' s' where "gate1_clk f ops tr [Some a, Some r] g s = (g', s', None)"
    "last_outputA g' = f (state_of s a)" "writes {r} s s'" "state_of s' r = f (state_of s a)"
proof (rule gate_out_run [OF assms(1,2), of "last_outputA g \<noteq> f (state_of s a)" "f (state_of s a)" "g_levels g"], goal_cases)
  case 1
  then show ?case using assms(3) by simp
next
  case (2 s')
  then show ?case using that by (simp add: gate1_clk_def read_digital [OF assms(1)] Let_def)
qed

text \<open>The constructors of the gates, with their functions.\<close>

definition gate2_kind :: "(gate \<Rightarrow> digital_model) \<Rightarrow> (logic_t \<Rightarrow> logic_t \<Rightarrow> logic_t) \<Rightarrow> bool" where
  "gate2_kind K f \<longleftrightarrow> (\<forall>g. in_pins (K g) = [0, 1] \<and> out_pins (K g) = [2] \<and> remembered (K g) = Some [last_outputA g] \<and>
     comb (K g) = Some (\<lambda>vs. [f (vs ! 0) (vs ! 1)]) \<and> pipe_ok (K g))"

definition gate1_kind :: "(gate \<Rightarrow> digital_model) \<Rightarrow> (logic_t \<Rightarrow> logic_t) \<Rightarrow> bool" where
  "gate1_kind K f \<longleftrightarrow> (\<forall>g. in_pins (K g) = [0] \<and> out_pins (K g) = [1] \<and> remembered (K g) = Some [last_outputA g] \<and>
     comb (K g) = Some (\<lambda>vs. [f (vs ! 0)]) \<and> pipe_ok (K g))"

lemma gate2_ran:
  assumes K: "gate2_kind K f" and w: "wired_ok ps (K g) s" and ok: "dev_ok ps (K g) s"
    and run: "wrap K (gate2_clk f ops tr ps g s) = (d', s', dr)"
  shows "ran ps (K g) s d' s'"
proof -
  have "length ps = 3" using wired_okD(1) [OF w] K by (simp add: gate2_kind_def )
  then obtain a b c where ps: "ps = [a, b, c]" using list3 by blast
  show ?thesis
  proof (cases "None \<in> set ps")
    case True
    then have "gate2_clk f ops tr ps g s = (g, s, None)" by (auto simp: gate2_clk_def ps split: option.splits)
    then show ?thesis using run ran_idle [OF ok] True by (simp add: wrap_def)
  next
    case False
    then obtain a' b' r where ps: "ps = [Some a', Some b', Some r]" using ps connected [of ps] by auto
    have k: "in_pins (K g) = [0, 1]" "out_pins (K g) = [2]" "remembered (K g) = Some [last_outputA g]"
      "comb (K g) = Some (\<lambda>vs. [f (vs ! 0) (vs ! 1)])" "pipe_ok (K g)" for g
      using K by (simp_all add: gate2_kind_def)
    have l: "state_of s r = last_outputA g" using ok by (simp add: dev_ok_def k ps)
    show ?thesis
    proof (rule gate2_run [OF wired_okD(2) [OF w] _ l, of f ops tr a' b'], goal_cases)
      case 1
      then show ?case using wired_okD(3) [OF w, of r] by (simp add: ps)
    next
      case (2 g1 s1)
      then have "d' = K g1" "s' = s1" using run by (simp_all add: wrap_def ps)
      then show ?case using 2 by (simp add: ran_def dev_ok_def same_kind_def settled_device_def k ps)
    qed
  qed
qed

lemma gate1_ran:
  assumes K: "gate1_kind K f" and w: "wired_ok ps (K g) s" and ok: "dev_ok ps (K g) s"
    and run: "wrap K (gate1_clk f ops tr ps g s) = (d', s', dr)"
  shows "ran ps (K g) s d' s'"
proof -
  have "length ps = 2" using wired_okD(1) [OF w] K by (simp add: gate1_kind_def )
  then obtain a b where ps: "ps = [a, b]" using list2 by blast
  show ?thesis
  proof (cases "None \<in> set ps")
    case True
    then have "gate1_clk f ops tr ps g s = (g, s, None)" by (auto simp: gate1_clk_def ps split: option.splits)
    then show ?thesis using run ran_idle [OF ok] True by (simp add: wrap_def)
  next
    case False
    then obtain a' r where ps: "ps = [Some a', Some r]" using ps connected [of ps] by auto
    have k: "in_pins (K g) = [0]" "out_pins (K g) = [1]" "remembered (K g) = Some [last_outputA g]"
      "comb (K g) = Some (\<lambda>vs. [f (vs ! 0)])" "pipe_ok (K g)" for g
      using K by (simp_all add: gate1_kind_def)
    have l: "state_of s r = last_outputA g" using ok by (simp add: dev_ok_def k ps)
    show ?thesis
    proof (rule gate1_run [OF wired_okD(2) [OF w] _ l, of f ops tr a'], goal_cases)
      case 1
      then show ?case using wired_okD(3) [OF w, of r] by (simp add: ps)
    next
      case (2 g1 s1)
      then have "d' = K g1" "s' = s1" using run by (simp_all add: wrap_def ps)
      then show ?case using 2 by (simp add: ran_def dev_ok_def same_kind_def settled_device_def k ps)
    qed
  qed
qed

lemmas gate_clk_defs = AND_clk_def OR_clk_def XOR_clk_def NAND_clk_def NOR_clk_def XNOR_clk_def IMP_clk_def NIMP_clk_def NOT_clk_def YES_clk_def

lemma gate_kinds [simp]:
  "gate2_kind D_AND AND_fun" "gate2_kind D_OR OR_fun" "gate2_kind D_XOR XOR_fun" "gate2_kind D_NAND NAND_fun"
  "gate2_kind D_NOR NOR_fun" "gate2_kind D_XNOR XNOR_fun" "gate2_kind D_IMP IMP_fun" "gate2_kind D_NIMP NIMP_fun"
  "gate1_kind D_NOT op_not" "gate1_kind D_YES (\<lambda>v. v)"
  by (simp_all add: gate2_kind_def gate1_kind_def)

lemmas gate_rans =
  gate2_ran [OF gate_kinds(1)] gate2_ran [OF gate_kinds(2)] gate2_ran [OF gate_kinds(3)] gate2_ran [OF gate_kinds(4)]
  gate2_ran [OF gate_kinds(5)] gate2_ran [OF gate_kinds(6)] gate2_ran [OF gate_kinds(7)] gate2_ran [OF gate_kinds(8)]
  gate1_ran [OF gate_kinds(9)] gate1_ran [OF gate_kinds(10)]

subsection \<open>Adders and the multiplier\<close>

lemma write_last_run:
  assumes "digital_net s" "valid_node s r" "state_of s r = l"
  obtains s' where "write_last r l v s = (v, s')" "writes {r} s s'" "\<And>q. state_of s' q = (if q = r then v else state_of s q)"
proof (cases "l = v")
  case True
  then show ?thesis using assms that [of s] by (auto simp: write_last_def not_analog)
next
  case False
  then show ?thesis using assms that [of "schedule r (put_state r v s)"]
    by (auto simp: write_last_def not_analog writes_put state_of_put)
qed

lemma writes_nets: "writes W s s' \<Longrightarrow> digital_net s \<Longrightarrow> digital_net s'" "writes W s s' \<Longrightarrow> valid_node s' r = valid_node s r"
  by (auto simp: writes_def same_net_digital same_net_nodes)

lemma two_out_run:
  assumes s: "digital_net s" "valid_node s r1" "valid_node s r2" "r1 \<noteq> r2" and l: "last_outs a = [state_of s r1, state_of s r2]"
  obtains a' s' where "two_out a v w r1 r2 s = (a', s', None)" "last_outs a' = [v, w]" "writes {r1, r2} s s'"
    "state_of s' r1 = v" "state_of s' r2 = w"
proof -
  obtain s1 where s1: "write_last r1 (state_of s r1) v s = (v, s1)" "writes {r1} s s1" "\<And>q. state_of s1 q = (if q = r1 then v else state_of s q)"
    by (rule write_last_run [OF s(1,2) refl]) blast
  have d1: "digital_net s1" "valid_node s1 r2" using writes_nets [OF s1(2)] s by simp_all
  have "state_of s1 r2 = state_of s r2" using s1(3) s(4) by simp
  then obtain s2 where s2: "write_last r2 (state_of s r2) w s1 = (w, s2)" "writes {r2} s1 s2" "\<And>q. state_of s2 q = (if q = r2 then w else state_of s1 q)"
    by (rule write_last_run [OF d1]) blast
  have "digital_net s2" using writes_nets(1) [OF s2(2) d1(1)] .
  then have "two_out a v w r1 r2 s = (a\<lparr>last_outs := [v, w]\<rparr>, s2, None)" using s1(1) s2(1) l by (simp add: two_out_def not_analog)
  moreover have "writes {r1, r2} s s2" using s1(2) s2(2) by (auto intro: writes_trans writes_mono)
  ultimately show ?thesis using that s1(3) s2(3) s(4) by simp
qed

lemma two_out_ran:
  assumes w: "wired_ok ps (K a) s" and ok: "dev_ok ps (K a) s" and out: "out_nodes ps (K a) = [r1, r2]"
    and k: "\<And>a'. same_kind (K a) (K a')" "\<And>a'. remembered (K a') = Some (last_outs a')" "\<And>a'. pipe_ok (K a')"
    and two: "length (out_pins (K a)) = 2" and c: "comb (K a) = Some h" "h (map (state_of s) (nodes_at ps (in_pins (K a)))) = [v, u]"
    and run: "wrap K (two_out a v u r1 r2 s) = (d', s', dr)"
  shows "ran ps (K a) s d' s'"
proof -
  have out': "out_nodes ps (K a') = [r1, r2]" for a' using out k(1) [of a'] by (simp add: same_kind_def)
  have "valid_node s r1" "valid_node s r2"
  proof -
    have "r \<in> set (out_nodes ps (K a)) \<Longrightarrow> Some r \<in> set ps" for r by (auto simp: mem_nodes_at) (metis nth_mem)
    then show "valid_node s r1" "valid_node s r2" using out wired_okD(3) [OF w] by simp_all
  qed
  moreover have "r1 \<noteq> r2" using wired_okD(4) [OF w] out by simp
  moreover have "last_outs a = [state_of s r1, state_of s r2]" using ok two k(2) out by (simp add: dev_ok_def)
  ultimately obtain a1 s1 where r: "two_out a v u r1 r2 s = (a1, s1, None)" "last_outs a1 = [v, u]" "writes {r1, r2} s s1"
      "state_of s1 r1 = v" "state_of s1 r2 = u"
    using two_out_run [OF wired_okD(2) [OF w]] by metis
  then have "d' = K a1" "s' = s1" using run by (simp_all add: wrap_def)
  then show ?thesis using r k c two out out' by (simp add: ran_def dev_ok_def settled_device_def same_kind_def)
qed

lemma length_wired: "wired_ok ps d s \<Longrightarrow> arity d = n \<Longrightarrow> length ps = n"
  by (simp add: wired_okD)

lemma half_clk_ran:
  assumes w: "wired_ok ps (K a) s" and ok: "dev_ok ps (K a) s"
    and k: "\<And>a'. in_pins (K a') = [0, 1]" "\<And>a'. out_pins (K a') = [2, 3]" "\<And>a'. remembered (K a') = Some (last_outs a')" "\<And>a'. pipe_ok (K a')"
        "\<And>a'. comb (K a') = Some (adder_fun f g)"
    and clk: "\<And>x y r1 r2 ws. ps = [Some x, Some y, Some r1, Some r2] \<Longrightarrow> ws = [z_to_x (state_of s x), z_to_x (state_of s y)] \<Longrightarrow>
        clk = two_out a (known_or_x ws (f ws)) (known_or_x ws (g ws)) r1 r2 s"
    and idle: "None \<in> set ps \<Longrightarrow> clk = (a, s, None)"
    and run: "wrap K clk = (d', s', dr)"
  shows "ran ps (K a) s d' s'"
proof (cases "None \<in> set ps")
  case True
  then show ?thesis using ran_idle [OF ok] idle run by (simp add: wrap_def)
next
  case False
  have "length ps = 4" using wired_okD(1) [OF w] by (simp add: k)
  then obtain p1 p2 p3 p4 where "ps = [p1, p2, p3, p4]" using list4 by blast
  then obtain x y r1 r2 where ps: "ps = [Some x, Some y, Some r1, Some r2]" using False connected [of ps] by auto
  let ?ws = "[z_to_x (state_of s x), z_to_x (state_of s y)]"
  have run': "wrap K (two_out a (known_or_x ?ws (f ?ws)) (known_or_x ?ws (g ?ws)) r1 r2 s) = (d', s', dr)"
    using run clk [OF ps refl] by simp
  show ?thesis
    by (rule two_out_ran [where K = K and a = a and ps = ps and s = s and h = "adder_fun f g", OF w ok _ _ _ _ _ _ _ run'])
      (simp_all add: k same_kind_def, simp_all add: ps adder_fun_def Let_def)
qed

lemma full_clk_ran:
  assumes w: "wired_ok ps (K a) s" and ok: "dev_ok ps (K a) s"
    and k: "\<And>a'. in_pins (K a') = [0, 1, 2]" "\<And>a'. out_pins (K a') = [3, 4]" "\<And>a'. remembered (K a') = Some (last_outs a')" "\<And>a'. pipe_ok (K a')"
        "\<And>a'. comb (K a') = Some (adder_fun f g)"
    and clk: "\<And>x y z r1 r2 ws. ps = [Some x, Some y, Some z, Some r1, Some r2] \<Longrightarrow> ws = [z_to_x (state_of s x), z_to_x (state_of s y), z_to_x (state_of s z)] \<Longrightarrow>
        clk = two_out a (known_or_x ws (f ws)) (known_or_x ws (g ws)) r1 r2 s"
    and idle: "None \<in> set ps \<Longrightarrow> clk = (a, s, None)"
    and run: "wrap K clk = (d', s', dr)"
  shows "ran ps (K a) s d' s'"
proof (cases "None \<in> set ps")
  case True
  then show ?thesis using ran_idle [OF ok] idle run by (simp add: wrap_def)
next
  case False
  have "length ps = 5" using wired_okD(1) [OF w] by (simp add: k)
  then obtain p1 p2 p3 p4 p5 where "ps = [p1, p2, p3, p4, p5]" using list5 by blast
  then obtain x y z r1 r2 where ps: "ps = [Some x, Some y, Some z, Some r1, Some r2]" using False connected [of ps] by auto
  let ?ws = "[z_to_x (state_of s x), z_to_x (state_of s y), z_to_x (state_of s z)]"
  have run': "wrap K (two_out a (known_or_x ?ws (f ?ws)) (known_or_x ?ws (g ?ws)) r1 r2 s) = (d', s', dr)"
    using run clk [OF ps refl] by simp
  show ?thesis
    by (rule two_out_ran [where K = K and a = a and ps = ps and s = s and h = "adder_fun f g", OF w ok _ _ _ _ _ _ _ run'])
      (simp_all add: k same_kind_def, simp_all add: ps adder_fun_def Let_def)
qed

text \<open>The outputs of \<^verbatim>\<open>MUL2\<close>, and of any device that writes its outputs in turn.\<close>

lemma mul2_outs_run:
  assumes "digital_net s" "\<forall>r \<in> set rs. valid_node s r" "distinct rs" "length vs = length rs"
  shows "\<exists>s'. mul2_outs lv (zip vs rs) (map (state_of s) rs) s = (vs, s', None) \<and> writes (set rs) s s' \<and> map (state_of s') rs = vs \<and>
    (\<forall>q. q \<notin> set rs \<longrightarrow> state_of s' q = state_of s q)"
  using assms
proof (induction rs arbitrary: vs s)
  case (Cons r rs)
  then obtain v vs' where vs: "vs = v # vs'" "length vs' = length rs" by (cases vs) auto
  have "valid_node s r" using Cons.prems(2) by simp
  then obtain s1 where s1: "write_last r (state_of s r) v s = (v, s1)" "writes {r} s s1" "\<And>q. state_of s1 q = (if q = r then v else state_of s q)"
    by (rule write_last_run [OF Cons.prems(1) _ refl]) blast
  have d1: "digital_net s1" "\<forall>r \<in> set rs. valid_node s1 r" using writes_nets [OF s1(2)] Cons.prems by simp_all
  have eq: "map (state_of s1) rs = map (state_of s) rs" using s1(3) Cons.prems(3) by auto
  obtain s2 where s2: "mul2_outs lv (zip vs' rs) (map (state_of s1) rs) s1 = (vs', s2, None)" "writes (set rs) s1 s2" "map (state_of s2) rs = vs'"
      "\<forall>q. q \<notin> set rs \<longrightarrow> state_of s2 q = state_of s1 q"
    using Cons.IH [OF d1 _ vs(2)] Cons.prems(3) by auto
  have "writes (set (r # rs)) s s2" by (rule writes_trans [OF writes_mono [OF s1(2)] writes_mono [OF s2(2)]]) auto
  then show ?case using s1 s2 vs Cons.prems(1,3) by (intro exI [of _ s2]) (simp add: not_analog flip: eq)
qed simp

lemma length_mul2_vals: "length (mul2_vals a b c d) = 4"
  by (simp add: mul2_vals_def Let_def)

lemma MUL2_ran:
  assumes w: "wired_ok ps (D_MUL2 a) s" and ok: "dev_ok ps (D_MUL2 a) s" and run: "wrap D_MUL2 (MUL2_clk ops ps a s) = (d', s', dr)"
  shows "ran ps (D_MUL2 a) s d' s'"
proof -
  obtain p1 p2 p3 p4 p5 p6 p7 p8 where ps: "ps = [p1, p2, p3, p4, p5, p6, p7, p8]" using pins8 [OF w] by auto
  show ?thesis
  proof (cases "None \<in> set ps")
    case True
    then have "MUL2_clk ops ps a s = (a, s, None)" by (auto simp: MUL2_clk_def ps split: option.splits)
    then show ?thesis using run ran_idle [OF ok] True by (simp add: wrap_def)
  next
    case False
    then obtain a0 a1 b0 b1 r0 r1 r2 r3 where ps': "ps = [Some a0, Some a1, Some b0, Some b1, Some r0, Some r1, Some r2, Some r3]"
      using ps connected [of ps] by auto
    let ?vs = "mul2_vals (z_to_x (state_of s a0)) (z_to_x (state_of s a1)) (z_to_x (state_of s b0)) (z_to_x (state_of s b1))"
    have out: "out_nodes ps (D_MUL2 a) = [r0, r1, r2, r3]" by (simp add: ps')
    have l: "last_outs a = map (state_of s) [r0, r1, r2, r3]" using ok unfolding dev_ok_def by (simp only: out) simp
    have "\<forall>r \<in> set [r0, r1, r2, r3]. valid_node s r" using wired_okD(3) [OF w] by (simp add: ps')
    then obtain s1 where s1: "mul2_outs (a_levels a) (zip ?vs [r0, r1, r2, r3]) (map (state_of s) [r0, r1, r2, r3]) s = (?vs, s1, None)"
        "writes (set [r0, r1, r2, r3]) s s1" "map (state_of s1) [r0, r1, r2, r3] = ?vs"
      using mul2_outs_run [OF wired_okD(2) [OF w], of "[r0, r1, r2, r3]" ?vs "a_levels a"] wired_okD(4) [OF w] out length_mul2_vals by auto
    have "MUL2_clk ops ps a s = (a\<lparr>last_outs := ?vs\<rparr>, s1, None)"
      using s1(1) unfolding MUL2_clk_def l by (simp only: ps' list.case option.case Let_def read_digital [OF wired_okD(2) [OF w]] case_prod_conv)
    then have d': "d' = D_MUL2 (a\<lparr>last_outs := ?vs\<rparr>)" "s' = s1" using run by (simp_all add: wrap_def)
    have "dev_ok ps d' s1" unfolding dev_ok_def d' using s1(3) by (simp add: ps')
    moreover have "settled_device ps (D_MUL2 a) s s1" using s1(3) by (simp add: settled_device_def ps')
    ultimately show ?thesis using s1(2) out d' by (simp add: ran_def same_kind_def)
  qed
qed

lemma HALF_ADDER_ran:
  assumes "wired_ok ps (D_HALF_ADDER a) s" "dev_ok ps (D_HALF_ADDER a) s" "wrap D_HALF_ADDER (HALF_ADDER_clk ops ps a s) = (d', s', dr)"
  shows "ran ps (D_HALF_ADDER a) s d' s'"
proof -
  obtain a1 a2 a3 a4 where ps: "ps = [a1, a2, a3, a4]" using pins4 [OF assms(1)] by auto
  show ?thesis
    by (rule half_clk_ran [OF assms(1,2) _ _ _ _ _ _ _ assms(3)])
      (auto simp: HALF_ADDER_clk_def ps read_digital [OF wired_okD(2) [OF assms(1)]] Let_def split: option.splits)
qed

lemma HALF_SUB_ran:
  assumes "wired_ok ps (D_HALF_SUB a) s" "dev_ok ps (D_HALF_SUB a) s" "wrap D_HALF_SUB (HALF_SUB_clk ops ps a s) = (d', s', dr)"
  shows "ran ps (D_HALF_SUB a) s d' s'"
proof -
  obtain a1 a2 a3 a4 where ps: "ps = [a1, a2, a3, a4]" using pins4 [OF assms(1)] by auto
  show ?thesis
    by (rule half_clk_ran [OF assms(1,2) _ _ _ _ _ _ _ assms(3)])
      (auto simp: HALF_SUB_clk_def ps read_digital [OF wired_okD(2) [OF assms(1)]] Let_def split: option.splits)
qed

lemma FULL_ADDER_ran:
  assumes "wired_ok ps (D_FULL_ADDER a) s" "dev_ok ps (D_FULL_ADDER a) s" "wrap D_FULL_ADDER (FULL_ADDER_clk ops ps a s) = (d', s', dr)"
  shows "ran ps (D_FULL_ADDER a) s d' s'"
proof -
  obtain a1 a2 a3 a4 a5 where ps: "ps = [a1, a2, a3, a4, a5]" using pins5 [OF assms(1)] by auto
  show ?thesis
    by (rule full_clk_ran [OF assms(1,2) _ _ _ _ _ _ _ assms(3)])
      (auto simp: FULL_ADDER_clk_def ps read_digital [OF wired_okD(2) [OF assms(1)]] Let_def split: option.splits)
qed

lemma FULL_SUB_ran:
  assumes "wired_ok ps (D_FULL_SUB a) s" "dev_ok ps (D_FULL_SUB a) s" "wrap D_FULL_SUB (FULL_SUB_clk ops ps a s) = (d', s', dr)"
  shows "ran ps (D_FULL_SUB a) s d' s'"
proof -
  obtain a1 a2 a3 a4 a5 where ps: "ps = [a1, a2, a3, a4, a5]" using pins5 [OF assms(1)] by auto
  show ?thesis
    by (rule full_clk_ran [OF assms(1,2) _ _ _ _ _ _ _ assms(3)])
      (auto simp: FULL_SUB_clk_def ps read_digital [OF wired_okD(2) [OF assms(1)]] Let_def split: option.splits)
qed

subsection \<open>Devices that compare with the node\<close>

text \<open>A device without remembered outputs and without a function only has to schedule what it writes.\<close>

lemma ran_simple:
  "writes (set (out_nodes ps d)) s s' \<Longrightarrow> same_kind d d' \<Longrightarrow> remembered d' = None \<Longrightarrow> pipe_ok d' \<Longrightarrow> comb d = None \<Longrightarrow> ran ps d s d' s'"
  by (simp add: ran_def dev_ok_def settled_device_def)

lemma test_out_run: "digital_net s \<Longrightarrow> r \<in> W \<Longrightarrow> test_out t v r s = (t', s', dr) \<Longrightarrow> writes W s s'"
  by (auto simp: test_out_def not_analog writes_changed)

lemma IS_UNKNOWN_ran:
  assumes "wired_ok ps (D_IS_UNKNOWN t) s" "wrap D_IS_UNKNOWN (IS_UNKNOWN_clk ops ps t s) = (d', s', dr)"
  shows "ran ps (D_IS_UNKNOWN t) s d' s'"
proof -
  obtain a b where ps: "ps = [a, b]" using pins2 [OF assms(1)] by auto
  show ?thesis using assms(2) test_out_run [OF wired_okD(2) [OF assms(1)]]
    by (intro ran_simple) (auto simp: IS_UNKNOWN_clk_def ps wrap_def same_kind_def Let_def split: option.splits prod.splits)
qed

lemma CASE_EQ_ran:
  assumes "wired_ok ps (D_CASE_EQ t) s" "wrap D_CASE_EQ (CASE_EQ_clk ops ps t s) = (d', s', dr)"
  shows "ran ps (D_CASE_EQ t) s d' s'"
proof -
  obtain a b c where ps: "ps = [a, b, c]" using pins3 [OF assms(1)] by auto
  show ?thesis using assms(2) test_out_run [OF wired_okD(2) [OF assms(1)]]
    by (intro ran_simple) (auto simp: CASE_EQ_clk_def ps wrap_def same_kind_def split: option.splits prod.splits)
qed

lemma TRI_ran:
  assumes "wired_ok ps (D_TRI lv) s" "wrap D_TRI (lv, TRI_clk ops ps lv s) = (d', s', dr)"
  shows "ran ps (D_TRI lv) s d' s'"
proof -
  obtain a b c where ps: "ps = [a, b, c]" using pins3 [OF assms(1)] by auto
  show ?thesis using assms(2) not_analog [OF wired_okD(2) [OF assms(1)]]
    by (intro ran_simple) (auto simp: TRI_clk_def ps wrap_def same_kind_def Let_def writes_put split: option.splits if_splits)
qed

lemma RESOLVE2_ran:
  assumes "wired_ok ps (D_RESOLVE2 lv) s" "wrap D_RESOLVE2 (lv, RESOLVE2_clk ops ps lv s) = (d', s', dr)"
  shows "ran ps (D_RESOLVE2 lv) s d' s'"
proof -
  obtain a b c where ps: "ps = [a, b, c]" using pins3 [OF assms(1)] by auto
  have d: "digital_net s" by (rule wired_okD(2) [OF assms(1)])
  show ?thesis
  proof (cases "None \<in> set ps")
    case True
    then have "RESOLVE2_clk ops ps lv s = (s, None)" by (auto simp: RESOLVE2_clk_def ps split: option.splits)
    then show ?thesis using assms(2) True by (auto simp: wrap_def dev_ok_def intro!: ran_idle)
  next
    case False
    then obtain x y r where ps': "ps = [Some x, Some y, Some r]" using ps connected [of ps] by auto
    let ?v = "resolve2 (state_of s x) (state_of s y)"
    have "RESOLVE2_clk ops ps lv s = (write_changed r ?v s, None)"
      by (simp add: RESOLVE2_clk_def ps' not_analog [OF d] read_digital [OF d])
    then have d': "d' = D_RESOLVE2 lv" "s' = write_changed r ?v s" using assms(2) by (simp_all add: wrap_def)
    have "valid_node s r" using wired_okD(3) [OF assms(1), of r] by (simp add: ps')
    then show ?thesis unfolding d'
      by (simp add: ran_def dev_ok_def same_kind_def settled_device_def ps' writes_changed state_of_write_changed)
  qed
qed

text \<open>A device that writes at most one of its outputs, when it differs.\<close>

definition one_write :: "node_ref set \<Rightarrow> node_store \<Rightarrow> 'a \<times> node_store \<times> analog_drive \<Rightarrow> bool" where
  "one_write W s x \<longleftrightarrow> fst (snd x) = s \<or> (\<exists>r \<in> W. \<exists>v. fst (snd x) = write_changed r v s)"

lemma one_write_simps [simp]:
  "one_write W s (t, s, dr)"
  "r \<in> W \<Longrightarrow> one_write W s (t, write_changed r v s, dr)"
  by (auto simp: one_write_def)

lemma write_changed_ran:
  assumes run: "wrap K x = (d', s', dr)" and x: "one_write (set (out_nodes ps (K t))) s x"
    and k: "\<And>t'. same_kind (K t) (K t')" "\<And>t'. remembered (K t') = None" "\<And>t'. pipe_ok (K t')" "\<And>t'. comb (K t') = None"
  shows "ran ps (K t) s d' s'"
proof -
  have "d' = K (fst x)" "s' = fst (snd x)" using run by (auto simp: wrap_def split: prod.splits)
  then show ?thesis using x k by (auto intro!: ran_simple simp: one_write_def writes_changed)
qed

lemma SCHMITT_TRIGGER_ran:
  assumes "wired_ok ps (D_SCHMITT_TRIGGER t) s" "wrap D_SCHMITT_TRIGGER (SCHMITT_TRIGGER_clk ops ps t s) = (d', s', dr)"
  shows "ran ps (D_SCHMITT_TRIGGER t) s d' s'"
proof -
  obtain a b where ps: "ps = [a, b]" using pins2 [OF assms(1)] by auto
  have "one_write (set (out_nodes ps (D_SCHMITT_TRIGGER t))) s (SCHMITT_TRIGGER_clk ops ps t s)"
    using not_analog [OF wired_okD(2) [OF assms(1)]]
    by (cases a; cases b) (simp_all add: SCHMITT_TRIGGER_clk_def ps Let_def del: if_split)
  then show ?thesis by (rule write_changed_ran [OF assms(2)]) (simp_all add: same_kind_def)
qed

subsection \<open>Flip-flops\<close>

lemma drive_q_digital: "digital_net s \<Longrightarrow> drive_q f r s = (write_changed r (ff_q f) s, None)"
  by (simp add: drive_q_def not_analog)

lemma DFF_ran:
  assumes "wired_ok ps (D_DFF f) s" "wrap D_DFF (DFF_clk ops ps f s) = (d', s', dr)"
  shows "ran ps (D_DFF f) s d' s'"
proof -
  obtain a b c where ps: "ps = [a, b, c]" using pins3 [OF assms(1)] by auto
  show ?thesis
    by (rule write_changed_ran [OF assms(2)])
      (auto simp: DFF_clk_def ps same_kind_def Let_def drive_q_digital [OF wired_okD(2) [OF assms(1)]] split: option.splits)
qed

lemma DFF_ARSTN_ran:
  assumes "wired_ok ps (D_DFF_ARSTN f) s" "wrap D_DFF_ARSTN (DFF_ARSTN_clk ops ps f s) = (d', s', dr)"
  shows "ran ps (D_DFF_ARSTN f) s d' s'"
proof -
  obtain a b c d where ps: "ps = [a, b, c, d]" using pins4 [OF assms(1)] by auto
  show ?thesis
    by (rule write_changed_ran [OF assms(2)])
      (auto simp: DFF_ARSTN_clk_def ps same_kind_def Let_def drive_q_digital [OF wired_okD(2) [OF assms(1)]] split: option.splits)
qed

lemma JKFF_ran:
  assumes "wired_ok ps (D_JKFF f) s" "wrap D_JKFF (JKFF_clk ops ps f s) = (d', s', dr)"
  shows "ran ps (D_JKFF f) s d' s'"
proof -
  obtain a b c d where ps: "ps = [a, b, c, d]" using pins4 [OF assms(1)] by auto
  show ?thesis
    by (rule write_changed_ran [OF assms(2)])
      (auto simp: JKFF_clk_def ps same_kind_def Let_def drive_q_digital [OF wired_okD(2) [OF assms(1)]] split: option.splits)
qed

lemma TFF_ran:
  assumes "wired_ok ps (D_TFF f) s" "wrap D_TFF (TFF_clk ops ps f s) = (d', s', dr)"
  shows "ran ps (D_TFF f) s d' s'"
proof -
  obtain a b c where ps: "ps = [a, b, c]" using pins3 [OF assms(1)] by auto
  show ?thesis
    by (rule write_changed_ran [OF assms(2)])
      (auto simp: TFF_clk_def toggle_clk_def ps same_kind_def Let_def drive_q_digital [OF wired_okD(2) [OF assms(1)]] split: option.splits)
qed

lemma T_BAR_FF_ran:
  assumes "wired_ok ps (D_T_BAR_FF f) s" "wrap D_T_BAR_FF (T_BAR_FF_clk ops ps f s) = (d', s', dr)"
  shows "ran ps (D_T_BAR_FF f) s d' s'"
proof -
  obtain a b c where ps: "ps = [a, b, c]" using pins3 [OF assms(1)] by auto
  show ?thesis
    by (rule write_changed_ran [OF assms(2)])
      (auto simp: T_BAR_FF_clk_def toggle_clk_def ps same_kind_def Let_def drive_q_digital [OF wired_okD(2) [OF assms(1)]] split: option.splits)
qed

lemma DLATCH_ran:
  assumes "wired_ok ps (D_DLATCH f) s" "wrap D_DLATCH (DLATCH_clk ops ps f s) = (d', s', dr)"
  shows "ran ps (D_DLATCH f) s d' s'"
proof -
  obtain a b c where ps: "ps = [a, b, c]" using pins3 [OF assms(1)] by auto
  show ?thesis
    by (rule write_changed_ran [OF assms(2)])
      (auto simp: DLATCH_clk_def ps same_kind_def Let_def drive_q_digital [OF wired_okD(2) [OF assms(1)]] split: option.splits)
qed

subsection \<open>Busses\<close>

lemma pins_among: "Some r \<in> set (take k ps) \<Longrightarrow> r \<in> set (nodes_at ps [0..<k])"
  unfolding mem_nodes_at by (auto simp: in_set_conv_nth)

lemma bus_out_run:
  "bus_out on lv out i ps s d = (s', d') \<Longrightarrow> digital_net s \<Longrightarrow> \<forall>r. Some r \<in> set ps \<longrightarrow> r \<in> W \<Longrightarrow> writes W s s'"
proof (induction on lv out i ps s d rule: bus_out.induct)
  case (1 on lv out i p ps s d)
  show ?case
  proof (cases p)
    case None
    then show ?thesis using 1(1,4,5,6) by simp
  next
    case (Some r)
    let ?s = "if on then write_changed r (out i) s else s"
    have w: "writes W s ?s" using 1(6) Some by (simp add: writes_changed)
    have "bus_out on lv out i ps ?s d = (s', d')" using 1(4) Some not_analog [OF 1(5)] by simp
    then have "writes W ?s s'" using 1(2) [OF Some] not_analog [OF 1(5)] 1(6) writes_nets(1) [OF w 1(5)] by simp
    then show ?thesis by (rule writes_trans [OF w])
  qed
qed simp_all

lemma counter_out_ran:
  assumes w: "wired_ok ps (K c) s" and run: "wrap K x = (d', s', dr)" and x: "snd x = (s, None) \<or> (\<exists>c'. x = counter_out ps c' s)"
    and k: "\<And>c'. same_kind (K c) (K c')" "\<And>c'. remembered (K c') = None" "\<And>c'. pipe_ok (K c')" "\<And>c'. comb (K c') = None"
      "out_pins (K c) = [0, 1, 2, 3]"
  shows "ran ps (K c) s d' s'"
proof -
  have out: "r \<in> set (out_nodes ps (K c))" if "Some r \<in> set (take 4 ps)" for r
    using pins_among [OF that] k(5) by (simp add: eval_nat_numeral del: nodes_at_simps)
  have "writes (set (out_nodes ps (K c))) s (fst (snd x))"
    using x
  proof (elim disjE exE)
    fix c' assume x: "x = counter_out ps c' s"
    obtain s1 d1 where b: "bus_out True (c_levels c') (bit_state (c_unknown c') (c_value c')) 4 (take 4 ps) s None = (s1, d1)" by fastforce
    then show ?thesis using bus_out_run [OF b wired_okD(2) [OF w]] out by (simp add: x counter_out_def)
  qed simp
  moreover have "d' = K (fst x)" "s' = fst (snd x)" using run by (auto simp: wrap_def split: prod.splits)
  ultimately show ?thesis using k by (auto intro!: ran_simple)
qed

lemma COUNTER4_ran:
  assumes "wired_ok ps (D_COUNTER4 c) s" "wrap D_COUNTER4 (COUNTER4_clk ops ps c s) = (d', s', dr)"
  shows "ran ps (D_COUNTER4 c) s d' s'"
  by (rule counter_out_ran [OF assms]) (auto simp: COUNTER4_clk_def Let_def same_kind_def split: option.splits)

lemma RANDOM_GENERATOR4_ran:
  assumes "wired_ok ps (D_RANDOM_GENERATOR4 c) s" "wrap D_RANDOM_GENERATOR4 (RANDOM_GENERATOR4_clk ops ps c s) = (d', s', dr)"
  shows "ran ps (D_RANDOM_GENERATOR4 c) s d' s'"
  by (rule counter_out_ran [OF assms]) (auto simp: RANDOM_GENERATOR4_clk_def Let_def same_kind_def split: option.splits)

lemma EIGHT_BIT_INPUT_ran:
  assumes "wired_ok ps (D_EIGHT_BIT_INPUT b) s" "wrap D_EIGHT_BIT_INPUT (EIGHT_BIT_INPUT_clk ps b s) = (d', s', dr)"
  shows "ran ps (D_EIGHT_BIT_INPUT b) s d' s'"
proof -
  have out: "r \<in> set (out_nodes ps (D_EIGHT_BIT_INPUT b))" if "Some r \<in> set (take 8 ps)" for r
    using pins_among [OF that] by (simp add: eval_nat_numeral del: nodes_at_simps)
  obtain s1 d1 where b: "bus_out (b_last b \<noteq> b_value b) (b_levels b) (bit_state False (b_value b)) 8 (take 8 ps) s None = (s1, d1)" by fastforce
  have "writes (set (out_nodes ps (D_EIGHT_BIT_INPUT b))) s s1" using bus_out_run [OF b wired_okD(2) [OF assms(1)]] out by simp
  then show ?thesis using assms(2) b by (intro ran_simple) (auto simp: EIGHT_BIT_INPUT_clk_def wrap_def same_kind_def)
qed

lemma EIGHT_BIT_DISPLAY_ran:
  "wrap D_EIGHT_BIT_DISPLAY (EIGHT_BIT_DISPLAY_clk ops ps b s) = (d', s', dr) \<Longrightarrow> ran ps (D_EIGHT_BIT_DISPLAY b) s d' s'"
  by (intro ran_simple) (auto simp: EIGHT_BIT_DISPLAY_clk_def wrap_def same_kind_def split: prod.splits)

subsection \<open>Inputs, outputs and the delay line\<close>

lemma OUTPUT_ran: "wrap D_OUTPUT (OUTPUT_clk ops tr ps g s) = (d', s', dr) \<Longrightarrow> ran ps (D_OUTPUT g) s d' s'"
  by (intro ran_simple) (auto simp: OUTPUT_clk_def wrap_def same_kind_def split: list.splits option.splits)

lemma INPUT_ran:
  assumes w: "wired_ok ps (D_INPUT i) s" and ok: "dev_ok ps (D_INPUT i) s" and run: "wrap D_INPUT (INPUT_clk ps i s) = (d', s', dr)"
  shows "ran ps (D_INPUT i) s d' s'"
proof -
  obtain p where ps: "ps = [p]" using wired_okD(1) [OF w] by (auto simp: length_Suc_conv)
  show ?thesis
  proof (cases p)
    case None
    then show ?thesis using run ran_idle [OF ok] by (simp add: ps INPUT_clk_def wrap_def)
  next
    case (Some r)
    have v: "valid_node s r" using wired_okD(3) [OF w, of r] by (simp add: ps Some)
    have l: "state_of s r = i_last i" using ok by (simp add: dev_ok_def ps Some)
    show ?thesis
    proof (rule gate_out_run [OF wired_okD(2) [OF w] v, of "i_last i \<noteq> outputA i" "outputA i" "i_levels i"], goal_cases)
      case 1
      then show ?case using l by simp
    next
      case (2 s1)
      then have "d' = D_INPUT (i\<lparr>i_last := outputA i\<rparr>)" "s' = s1" using run by (simp_all add: ps Some INPUT_clk_def wrap_def)
      then show ?case using 2 by (simp add: ran_def dev_ok_def same_kind_def settled_device_def ps Some)
    qed
  qed
qed

lemma delay_out_run:
  assumes "digital_net s" "valid_node s r" "state_of s r = d_last m"
  shows "\<exists>s'. delay_out m v r s = (m\<lparr>d_last := v\<rparr>, s', None) \<and> writes {r} s s' \<and> state_of s' r = v"
  using assms by (cases "d_last m = v") (auto simp: delay_out_def not_analog writes_put writes_same state_of_put)

lemma TICK_DELAY_ran:
  assumes w: "wired_ok ps (D_TICK_DELAY m) s" and ok: "dev_ok ps (D_TICK_DELAY m) s"
    and run: "wrap D_TICK_DELAY (TICK_DELAY_clk ops method ps m s) = (d', s', dr)"
  shows "ran ps (D_TICK_DELAY m) s d' s'"
proof -
  obtain i p where ps: "ps = [i, p]" using pins2 [OF w] by auto
  show ?thesis
  proof (cases "method = before_all_clk \<and> p \<noteq> None")
    case False
    then have "TICK_DELAY_clk ops method ps m s = (m, s, None)" by (auto simp: TICK_DELAY_clk_def ps)
    then have "d' = D_TICK_DELAY m" "s' = s" using run by (simp_all add: wrap_def)
    then show ?thesis using ran_idle [OF ok] by simp
  next
    case True
    then obtain r where r: "p = Some r" by blast
    have v: "valid_node s r" using wired_okD(3) [OF w, of r] by (simp add: ps r)
    have l: "state_of s r = d_last m" using ok by (simp add: dev_ok_def ps r)
    have pk: "(pipe m = [] \<and> d_last m = indeterminate_state) \<or> length (pipe m) = delay_ticks m" using ok unfolding dev_ok_def pipe_ok.simps by blast
    obtain m1 u where m1: "TICK_DELAY_clk ops method ps m s = delay_out m1 u r s" "d_last m1 = d_last m" "delay_ticks m1 = delay_ticks m"
        "length (pipe m1) = delay_ticks m1"
    proof (cases "delay_ticks m = 0")
      case True
      then have "TICK_DELAY_clk ops method ps m s = delay_out m (case i of None \<Rightarrow> indeterminate_state | Some r \<Rightarrow> read_raw ops (d_levels m) s r) r s"
        using \<open>method = before_all_clk \<and> p \<noteq> None\<close> by (simp add: TICK_DELAY_clk_def ps r)
      moreover have "length (pipe m) = delay_ticks m" using pk True by auto
      ultimately show ?thesis using that by blast
    next
      case False
      let ?v = "case i of None \<Rightarrow> indeterminate_state | Some r \<Rightarrow> read_raw ops (d_levels m) s r"
      let ?m = "if length (pipe m) \<noteq> delay_ticks m then m\<lparr>pipe := replicate (delay_ticks m) ?v, d_last := indeterminate_state\<rparr> else m"
      have "TICK_DELAY_clk ops method ps m s = delay_out (?m\<lparr>pipe := ?v # butlast (pipe ?m)\<rparr>) (pipe ?m ! (delay_ticks m - 1)) r s"
        using \<open>method = before_all_clk \<and> p \<noteq> None\<close> False by (simp add: TICK_DELAY_clk_def ps r Let_def)
      then show ?thesis using that [of "?m\<lparr>pipe := ?v # butlast (pipe ?m)\<rparr>"] pk False by auto
    qed
    obtain s1 where "delay_out m1 u r s = (m1\<lparr>d_last := u\<rparr>, s1, None)" "writes {r} s s1" "state_of s1 r = u"
      using delay_out_run [OF wired_okD(2) [OF w] v] l m1(2) by metis
    then show ?thesis using run m1 by (auto simp: wrap_def ran_def dev_ok_def same_kind_def settled_device_def ps r)
  qed
qed

subsection \<open>Verilog modules\<close>

lemma drive_pins_run:
  assumes "\<forall>r. Some r \<in> set ns \<longrightarrow> valid_node s r" "length ns = length ports"
  shows "writes {r. \<exists>i < length ports. drives (ports ! i) \<and> ns ! i = Some r} s (drive_pins vs ports ns s)"
  using assms
proof (induction vs ports ns s rule: drive_pins.induct)
  case (1 vs p ports n ns s)
  let ?s = "case n of None \<Rightarrow> s | Some r \<Rightarrow> if drives p \<and> p_signal p < length vs \<and> \<not> is_analog s r then write_changed r (vs ! p_signal p) s else s"
  let ?W = "{r. \<exists>i < length (p # ports). drives ((p # ports) ! i) \<and> (n # ns) ! i = Some r}"
  have w: "writes ?W s ?s"
    by (auto split: option.splits intro!: writes_changed exI [of _ 0])
  then have "valid_node ?s r = valid_node s r" for r using same_net_nodes(1) by (auto simp: writes_def)
  then have "writes {r. \<exists>i < length ports. drives (ports ! i) \<and> ns ! i = Some r} ?s (drive_pins vs ports ns ?s)"
    using 1 by auto
  then have "writes ?W ?s (drive_pins vs ports ns ?s)" by (rule writes_mono) force
  then show ?case using writes_trans [OF w] by simp
qed auto

lemma VERILOG_MODULE_ran:
  assumes "wired_ok ps (D_VERILOG_MODULE m) s" "dev_ok ps (D_VERILOG_MODULE m) s"
    "update_digital_clk ops tr mth ps (D_VERILOG_MODULE m) s = (d', s', dr)"
  shows "ran ps (D_VERILOG_MODULE m) s d' s'"
proof (cases "v_design m = None \<or> top_mod_of m = None")
  case True
  then have "VERILOG_MODULE_clk ops mth ps m s = Some (m, s, None)" by (auto simp: VERILOG_MODULE_clk_def split: option.splits)
  then show ?thesis using assms ran_idle by (auto simp: wrap_def)
next
  case False
  then obtain cm where cm: "v_design m \<noteq> None" "top_mod_of m = Some cm" by auto
  have p: "vm_ports m = m_ports cm" by (simp add: vm_ports_def cm)
  have ok: "vm_ok m" using assms(2) by (simp add: dev_ok_def)
  obtain m' where m': "VERILOG_MODULE_clk ops mth ps m s = Some (m', s', dr)" "d' = D_VERILOG_MODULE m'" "vm_ok m'" "vm_ports m' = vm_ports m"
    using vm_ok_call [OF ok, of ops mth ps s] assms(3) by (auto simp: wrap_def)
  obtain vs where s': "s' = drive_pins vs (vm_ports m) ps s"
    by (rule VERILOG_MODULE_run [OF ok cm, of ops s ps mth]) (use m'(1) p in auto)
  have "set (out_nodes ps (D_VERILOG_MODULE m)) = {r. \<exists>i < length (vm_ports m). drives (vm_ports m ! i) \<and> ps ! i = Some r}"
    using assms(1) by (auto simp: mem_nodes_at wired_ok_def)
  then have "writes (set (out_nodes ps (D_VERILOG_MODULE m))) s s'"
    unfolding s' using drive_pins_run [of ps s "vm_ports m" vs] assms(1) by (simp add: wired_ok_def)
  then show ?thesis by (simp add: ran_def dev_ok_def same_kind_def settled_device_def m')
qed

lemma VERILOG_PORTS_ran:
  "dev_ok ps (D_VERILOG_PORTS m) s \<Longrightarrow> update_digital_clk ops tr mth ps (D_VERILOG_PORTS m) s = (d', s', dr) \<Longrightarrow> ran ps (D_VERILOG_PORTS m) s d' s'"
  using ran_idle by (auto simp: wrap_def VERILOG_PORTS_clk_def)

subsection \<open>All devices\<close>

theorem update_digital_clk_ran:
  assumes "wired_ok ps d s" "dev_ok ps d s" "update_digital_clk ops tr method ps d s = (d', s', dr)"
  shows "ran ps d s d' s'"
  using assms
  by (cases d)
    (simp_all add: gate_clk_defs gate_rans HALF_ADDER_ran HALF_SUB_ran FULL_ADDER_ran FULL_SUB_ran MUL2_ran
      IS_UNKNOWN_ran CASE_EQ_ran RESOLVE2_ran TRI_ran SCHMITT_TRIGGER_ran DFF_ran DFF_ARSTN_ran JKFF_ran TFF_ran T_BAR_FF_ran DLATCH_ran
      COUNTER4_ran RANDOM_GENERATOR4_ran INPUT_ran OUTPUT_ran EIGHT_BIT_INPUT_ran EIGHT_BIT_DISPLAY_ran TICK_DELAY_ran
      del: update_digital_clk.simps(34,35) add: VERILOG_MODULE_ran VERILOG_PORTS_ran)

end
