(* ===== verification/Attributes.thy ===== *)
theory Attributes
  imports Digital
begin

text \<open>
  The devices as they are constructed, and their attributes: \<^verbatim>\<open>set_attribute\<close>, \<^verbatim>\<open>get_attribute\<close> and
  \<^verbatim>\<open>get_attribute_name\<close> of every digital device model. An index the device does not know or a
  variant of another type is refused. A digital variant may hold a byte that is no enumerator; such
  a device is outside the model and setting it gives \<open>None\<close>.
\<close>

subsection \<open>Construction\<close>

text \<open>The bit patterns of 0.0, 5.0, 1e-9, 5e-10, 5/3 and 10/3.\<close>

definition default_levels :: drive_levels where
  "default_levels = \<lparr>Ll = 0, Hl = 0x4014000000000000\<rparr>"

definition new_gate :: gate where
  "new_gate =
     \<lparr>g_levels = default_levels, Tsu = 0x3E112E0BE826D695, Th = 0x3E012E0BE826D695,
      inA = \<lparr>input = indeterminate_state, USR = indeterminate_state, duration = 0\<rparr>,
      inB = \<lparr>input = indeterminate_state, USR = indeterminate_state, duration = 0\<rparr>,
      last_outputA = indeterminate_state\<rparr>"

definition new_adder :: adder where
  "new_adder = \<lparr>a_levels = default_levels, last_outs = [indeterminate_state, indeterminate_state]\<rparr>"

definition new_tester :: tester where
  "new_tester = \<lparr>t_levels = default_levels, last_out = indeterminate_state\<rparr>"

definition new_flipflop :: flipflop where
  "new_flipflop = \<lparr>f_levels = default_levels, ff_q = false_state, reset_value = false_state, last_clk = false_state\<rparr>"

definition new_counter :: "u8 \<Rightarrow> counter" where
  "new_counter v =
     \<lparr>c_levels = default_levels, c_value = v, c_unknown = False, c_last_clk = false_state, last_value = 0xFF, last_unknown = True\<rparr>"

definition new_AND :: digital_model where "new_AND = D_AND new_gate"
definition new_OR :: digital_model where "new_OR = D_OR new_gate"
definition new_XOR :: digital_model where "new_XOR = D_XOR new_gate"
definition new_NAND :: digital_model where "new_NAND = D_NAND new_gate"
definition new_NOR :: digital_model where "new_NOR = D_NOR new_gate"
definition new_XNOR :: digital_model where "new_XNOR = D_XNOR new_gate"
definition new_IMP :: digital_model where "new_IMP = D_IMP new_gate"
definition new_NIMP :: digital_model where "new_NIMP = D_NIMP new_gate"
definition new_NOT :: digital_model where "new_NOT = D_NOT new_gate"
definition new_YES :: digital_model where "new_YES = D_YES new_gate"
definition new_HALF_ADDER :: digital_model where "new_HALF_ADDER = D_HALF_ADDER new_adder"
definition new_HALF_SUB :: digital_model where "new_HALF_SUB = D_HALF_SUB new_adder"
definition new_FULL_ADDER :: digital_model where "new_FULL_ADDER = D_FULL_ADDER new_adder"
definition new_FULL_SUB :: digital_model where "new_FULL_SUB = D_FULL_SUB new_adder"
definition new_MUL2 :: digital_model where
  "new_MUL2 = D_MUL2 \<lparr>a_levels = default_levels, last_outs = replicate 4 indeterminate_state\<rparr>"
definition new_IS_UNKNOWN :: digital_model where "new_IS_UNKNOWN = D_IS_UNKNOWN new_tester"
definition new_CASE_EQ :: digital_model where "new_CASE_EQ = D_CASE_EQ new_tester"
definition new_RESOLVE2 :: digital_model where "new_RESOLVE2 = D_RESOLVE2 default_levels"
definition new_TRI :: digital_model where "new_TRI = D_TRI default_levels"
definition new_SCHMITT_TRIGGER :: digital_model where
  "new_SCHMITT_TRIGGER = D_SCHMITT_TRIGGER
     \<lparr>s_levels = default_levels, Vth_low = 0x3FFAAAAAAAAAAAAB, Vth_high = 0x400AAAAAAAAAAAAB, inverted = False,
      s_last_out = false_state, last_driven = indeterminate_state\<rparr>"
definition new_DFF :: digital_model where "new_DFF = D_DFF new_flipflop"
definition new_DFF_ARSTN :: digital_model where "new_DFF_ARSTN = D_DFF_ARSTN new_flipflop"
definition new_JKFF :: digital_model where "new_JKFF = D_JKFF new_flipflop"
definition new_TFF :: digital_model where "new_TFF = D_TFF new_flipflop"
definition new_T_BAR_FF :: digital_model where "new_T_BAR_FF = D_T_BAR_FF new_flipflop"
definition new_DLATCH :: digital_model where "new_DLATCH = D_DLATCH (new_flipflop\<lparr>ff_q := indeterminate_state\<rparr>)"
definition new_COUNTER4 :: digital_model where "new_COUNTER4 = D_COUNTER4 (new_counter 0)"
definition new_RANDOM_GENERATOR4 :: digital_model where "new_RANDOM_GENERATOR4 = D_RANDOM_GENERATOR4 (new_counter 1)"
definition new_INPUT :: digital_model where
  "new_INPUT = D_INPUT \<lparr>i_levels = default_levels, outputA = false_state, i_last = indeterminate_state\<rparr>"
definition new_OUTPUT :: digital_model where "new_OUTPUT = D_OUTPUT new_gate"
definition new_EIGHT_BIT_INPUT :: digital_model where
  "new_EIGHT_BIT_INPUT = D_EIGHT_BIT_INPUT \<lparr>b_levels = default_levels, b_value = 0, b_last = 0xFF\<rparr>"
definition new_EIGHT_BIT_DISPLAY :: digital_model where
  "new_EIGHT_BIT_DISPLAY = D_EIGHT_BIT_DISPLAY \<lparr>y_levels = default_levels, y_value = 0, unknown_mask = 0\<rparr>"
definition new_TICK_DELAY :: "nat \<Rightarrow> digital_model" where
  "new_TICK_DELAY t = D_TICK_DELAY \<lparr>d_levels = default_levels, delay_ticks = t, pipe = [], d_last = indeterminate_state\<rparr>"

lemmas new_device_defs =
  new_AND_def new_OR_def new_XOR_def new_NAND_def new_NOR_def new_XNOR_def new_IMP_def new_NIMP_def new_NOT_def new_YES_def new_HALF_ADDER_def new_HALF_SUB_def new_FULL_ADDER_def new_FULL_SUB_def new_MUL2_def new_IS_UNKNOWN_def new_CASE_EQ_def new_RESOLVE2_def new_TRI_def new_SCHMITT_TRIGGER_def new_DFF_def new_DFF_ARSTN_def new_JKFF_def new_TFF_def new_T_BAR_FF_def new_DLATCH_def new_COUNTER4_def new_RANDOM_GENERATOR4_def new_INPUT_def new_OUTPUT_def new_EIGHT_BIT_INPUT_def new_EIGHT_BIT_DISPLAY_def new_TICK_DELAY_def

subsection \<open>Attributes of a device\<close>

record 'a attributes =
  set_attribute_define :: "'a \<Rightarrow> nat \<Rightarrow> variant \<Rightarrow> (bool \<times> 'a) option"
  get_attribute_define :: "'a \<Rightarrow> nat \<Rightarrow> variant"
  get_attribute_name_define :: "nat \<Rightarrow> bytes"

definition u8string :: "string \<Rightarrow> bytes" where
  "u8string s = map (\<lambda>c. of_nat (of_char c)) s"

text \<open>The enumerators as bytes, and the variant of a default-initialised \<^verbatim>\<open>variant\<close>.\<close>

fun byte_of_state :: "logic_t \<Rightarrow> u8" where
  "byte_of_state false_state = 0"
| "byte_of_state true_state = 1"
| "byte_of_state indeterminate_state = 2"
| "byte_of_state high_impedence_state = 3"

definition state_of_byte :: "u8 \<Rightarrow> logic_t option" where
  "state_of_byte b =
     (if b = 0 then Some false_state else if b = 1 then Some true_state
      else if b = 2 then Some indeterminate_state else if b = 3 then Some high_impedence_state else None)"

definition no_variant :: variant where
  "no_variant = V_other 0"

text \<open>A case of the switch that stores a double.\<close>

definition set_d :: "(u64 \<Rightarrow> 'a) \<Rightarrow> 'a \<Rightarrow> variant \<Rightarrow> (bool \<times> 'a) option" where
  "set_d store_d clip vi = Some (case vi of V_d x \<Rightarrow> (True, store_d x) | _ \<Rightarrow> (False, clip))"

definition gate_attributes :: "gate attributes" where
  "gate_attributes =
     \<lparr>set_attribute_define = (\<lambda>clip n vi.
        if n = 0 then set_d (\<lambda>x. clip\<lparr>g_levels := (g_levels clip)\<lparr>Ll := x\<rparr>\<rparr>) clip vi
        else if n = 1 then set_d (\<lambda>x. clip\<lparr>g_levels := (g_levels clip)\<lparr>Hl := x\<rparr>\<rparr>) clip vi
        else if n = 2 then set_d (\<lambda>x. clip\<lparr>Tsu := x\<rparr>) clip vi
        else if n = 3 then set_d (\<lambda>x. clip\<lparr>Th := x\<rparr>) clip vi
        else Some (False, clip)),
      get_attribute_define = (\<lambda>clip n.
        if n = 0 then V_d (Ll (g_levels clip)) else if n = 1 then V_d (Hl (g_levels clip))
        else if n = 2 then V_d (Tsu clip) else if n = 3 then V_d (Th clip) else no_variant),
      get_attribute_name_define = (\<lambda>n.
        if n = 0 then u8string ''Ll'' else if n = 1 then u8string ''Hl''
        else if n = 2 then u8string ''Tsu'' else if n = 3 then u8string ''Th'' else [])\<rparr>"

definition AND_attributes :: "gate attributes" where "AND_attributes = gate_attributes"
definition OR_attributes :: "gate attributes" where "OR_attributes = gate_attributes"
definition XOR_attributes :: "gate attributes" where "XOR_attributes = gate_attributes"
definition NAND_attributes :: "gate attributes" where "NAND_attributes = gate_attributes"
definition NOR_attributes :: "gate attributes" where "NOR_attributes = gate_attributes"
definition XNOR_attributes :: "gate attributes" where "XNOR_attributes = gate_attributes"
definition IMP_attributes :: "gate attributes" where "IMP_attributes = gate_attributes"
definition NIMP_attributes :: "gate attributes" where "NIMP_attributes = gate_attributes"
definition NOT_attributes :: "gate attributes" where "NOT_attributes = gate_attributes"
definition YES_attributes :: "gate attributes" where "YES_attributes = gate_attributes"

text \<open>The unknown tests and the tri-state driver have their two levels.\<close>

definition tester_attributes :: "tester attributes" where
  "tester_attributes =
     \<lparr>set_attribute_define = (\<lambda>clip n vi.
        if n = 0 then set_d (\<lambda>x. clip\<lparr>t_levels := (t_levels clip)\<lparr>Ll := x\<rparr>\<rparr>) clip vi
        else if n = 1 then set_d (\<lambda>x. clip\<lparr>t_levels := (t_levels clip)\<lparr>Hl := x\<rparr>\<rparr>) clip vi
        else Some (False, clip)),
      get_attribute_define = (\<lambda>clip n.
        if n = 0 then V_d (Ll (t_levels clip)) else if n = 1 then V_d (Hl (t_levels clip)) else no_variant),
      get_attribute_name_define = (\<lambda>n. if n = 0 then u8string ''Ll'' else if n = 1 then u8string ''Hl'' else [])\<rparr>"

definition IS_UNKNOWN_attributes :: "tester attributes" where "IS_UNKNOWN_attributes = tester_attributes"
definition CASE_EQ_attributes :: "tester attributes" where "CASE_EQ_attributes = tester_attributes"

definition TRI_attributes :: "drive_levels attributes" where
  "TRI_attributes =
     \<lparr>set_attribute_define = (\<lambda>t idx vi.
        if idx = 0 then set_d (\<lambda>x. t\<lparr>Ll := x\<rparr>) t vi else if idx = 1 then set_d (\<lambda>x. t\<lparr>Hl := x\<rparr>) t vi else Some (False, t)),
      get_attribute_define = (\<lambda>t idx. if idx = 0 then V_d (Ll t) else if idx = 1 then V_d (Hl t) else no_variant),
      get_attribute_name_define = (\<lambda>idx. if idx = 0 then u8string ''Ll'' else if idx = 1 then u8string ''Hl'' else [])\<rparr>"

definition SCHMITT_TRIGGER_attributes :: "schmitt attributes" where
  "SCHMITT_TRIGGER_attributes =
     \<lparr>set_attribute_define = (\<lambda>clip n vi.
        if n = 0 then Some (case vi of V_boolean b \<Rightarrow> (True, clip\<lparr>inverted := b\<rparr>) | _ \<Rightarrow> (False, clip))
        else if n = 1 then set_d (\<lambda>x. clip\<lparr>Vth_low := x\<rparr>) clip vi
        else if n = 2 then set_d (\<lambda>x. clip\<lparr>Vth_high := x\<rparr>) clip vi
        else Some (False, clip)),
      get_attribute_define = (\<lambda>clip n.
        if n = 0 then V_boolean (inverted clip) else if n = 1 then V_d (Vth_low clip)
        else if n = 2 then V_d (Vth_high clip) else if n = 3 then V_digital (byte_of_state (s_last_out clip)) else no_variant),
      get_attribute_name_define = (\<lambda>n.
        if n = 0 then u8string ''inverted'' else if n = 1 then u8string ''Vth_low''
        else if n = 2 then u8string ''Vth_high'' else if n = 3 then u8string ''out'' else [])\<rparr>"

text \<open>The counter and the random generator differ in the name of the first attribute.\<close>

definition counter_attributes :: "string \<Rightarrow> counter attributes" where
  "counter_attributes nm =
     \<lparr>set_attribute_define = (\<lambda>clip n vi.
        if n = 0 then Some (case vi of V_ui8 x \<Rightarrow> (True, clip\<lparr>c_value := and x 0x0F, c_unknown := False\<rparr>) | _ \<Rightarrow> (False, clip))
        else if n = 1 then Some (case vi of V_boolean b \<Rightarrow> (True, clip\<lparr>c_unknown := b\<rparr>) | _ \<Rightarrow> (False, clip))
        else Some (False, clip)),
      get_attribute_define = (\<lambda>clip n.
        if n = 0 then V_ui8 (and (c_value clip) 0x0F) else if n = 1 then V_boolean (c_unknown clip) else no_variant),
      get_attribute_name_define = (\<lambda>n. if n = 0 then u8string nm else if n = 1 then u8string ''unknown'' else [])\<rparr>"

definition COUNTER4_attributes :: "counter attributes" where "COUNTER4_attributes = counter_attributes ''value''"
definition RANDOM_GENERATOR4_attributes :: "counter attributes" where "RANDOM_GENERATOR4_attributes = counter_attributes ''state''"

definition INPUT_attributes :: "input_pin attributes" where
  "INPUT_attributes =
     \<lparr>set_attribute_define = (\<lambda>clip n vi.
        if n = 0
        then (case vi of V_digital b \<Rightarrow> map_option (\<lambda>v. (True, clip\<lparr>outputA := v\<rparr>)) (state_of_byte b) | _ \<Rightarrow> Some (False, clip))
        else Some (False, clip)),
      get_attribute_define = (\<lambda>clip n. if n = 0 then V_digital (byte_of_state (outputA clip)) else no_variant),
      get_attribute_name_define = (\<lambda>n. if n = 0 then u8string ''boolean'' else [])\<rparr>"

definition OUTPUT_attributes :: "gate attributes" where
  "OUTPUT_attributes =
     \<lparr>set_attribute_define = (\<lambda>clip n vi. Some (False, clip)),
      get_attribute_define = (\<lambda>clip n. if n = 0 then V_digital (byte_of_state (input (inA clip))) else no_variant),
      get_attribute_name_define = (\<lambda>n. if n = 0 then u8string ''value'' else [])\<rparr>"

definition EIGHT_BIT_INPUT_attributes :: "byte_input attributes" where
  "EIGHT_BIT_INPUT_attributes =
     \<lparr>set_attribute_define = (\<lambda>clip n vi.
        if n = 0 then Some (case vi of V_ui8 x \<Rightarrow> (True, clip\<lparr>b_value := x\<rparr>) | _ \<Rightarrow> (False, clip)) else Some (False, clip)),
      get_attribute_define = (\<lambda>clip n. if n = 0 then V_ui8 (b_value clip) else no_variant),
      get_attribute_name_define = (\<lambda>n. if n = 0 then u8string ''value'' else [])\<rparr>"

definition EIGHT_BIT_DISPLAY_attributes :: "byte_display attributes" where
  "EIGHT_BIT_DISPLAY_attributes =
     \<lparr>set_attribute_define = (\<lambda>clip n vi. Some (False, clip)),
      get_attribute_define = (\<lambda>clip n. if n = 0 then V_ui8 (y_value clip) else if n = 1 then V_ui8 (unknown_mask clip) else no_variant),
      get_attribute_name_define = (\<lambda>n. if n = 0 then u8string ''value'' else if n = 1 then u8string ''unknown_mask'' else [])\<rparr>"

definition TICK_DELAY_attributes :: "delay_line attributes" where
  "TICK_DELAY_attributes =
     \<lparr>set_attribute_define = (\<lambda>m index vi. Some (False, m)), get_attribute_define = (\<lambda>m index. no_variant), get_attribute_name_define = (\<lambda>index. [])\<rparr>"

definition VERILOG_MODULE_attributes :: "verilog_module attributes" where
  "VERILOG_MODULE_attributes =
     \<lparr>set_attribute_define = (\<lambda>m idx vi.
        if idx = 0 then set_d (\<lambda>x. m\<lparr>v_levels := (v_levels m)\<lparr>Ll := x\<rparr>\<rparr>) m vi
        else if idx = 1 then set_d (\<lambda>x. m\<lparr>v_levels := (v_levels m)\<lparr>Hl := x\<rparr>\<rparr>) m vi
        else Some (False, m)),
      get_attribute_define = (\<lambda>m idx. if idx = 0 then V_d (Ll (v_levels m)) else if idx = 1 then V_d (Hl (v_levels m)) else no_variant),
      get_attribute_name_define = (\<lambda>idx. if idx = 0 then u8string ''Ll'' else if idx = 1 then u8string ''Hl'' else [])\<rparr>"

definition VERILOG_PORTS_attributes :: "verilog_ports attributes" where
  "VERILOG_PORTS_attributes =
     \<lparr>set_attribute_define = (\<lambda>m index vi. Some (False, m)), get_attribute_define = (\<lambda>m index. no_variant), get_attribute_name_define = (\<lambda>index. [])\<rparr>"

subsection \<open>The virtual calls\<close>

text \<open>The adders, flip-flops and \<^verbatim>\<open>RESOLVE2\<close> define no attributes.\<close>

definition rewrap :: "('a \<Rightarrow> digital_model) \<Rightarrow> (bool \<times> 'a) option \<Rightarrow> (bool \<times> digital_model) option" where
  "rewrap K x = map_option (\<lambda>(b, clip). (b, K clip)) x"

fun set_attribute :: "digital_model \<Rightarrow> nat \<Rightarrow> variant \<Rightarrow> (bool \<times> digital_model) option" where
  "set_attribute (D_AND m) n vi = rewrap D_AND (set_attribute_define AND_attributes m n vi)"
| "set_attribute (D_OR m) n vi = rewrap D_OR (set_attribute_define OR_attributes m n vi)"
| "set_attribute (D_XOR m) n vi = rewrap D_XOR (set_attribute_define XOR_attributes m n vi)"
| "set_attribute (D_NAND m) n vi = rewrap D_NAND (set_attribute_define NAND_attributes m n vi)"
| "set_attribute (D_NOR m) n vi = rewrap D_NOR (set_attribute_define NOR_attributes m n vi)"
| "set_attribute (D_XNOR m) n vi = rewrap D_XNOR (set_attribute_define XNOR_attributes m n vi)"
| "set_attribute (D_IMP m) n vi = rewrap D_IMP (set_attribute_define IMP_attributes m n vi)"
| "set_attribute (D_NIMP m) n vi = rewrap D_NIMP (set_attribute_define NIMP_attributes m n vi)"
| "set_attribute (D_NOT m) n vi = rewrap D_NOT (set_attribute_define NOT_attributes m n vi)"
| "set_attribute (D_YES m) n vi = rewrap D_YES (set_attribute_define YES_attributes m n vi)"
| "set_attribute (D_IS_UNKNOWN m) n vi = rewrap D_IS_UNKNOWN (set_attribute_define IS_UNKNOWN_attributes m n vi)"
| "set_attribute (D_CASE_EQ m) n vi = rewrap D_CASE_EQ (set_attribute_define CASE_EQ_attributes m n vi)"
| "set_attribute (D_TRI m) n vi = rewrap D_TRI (set_attribute_define TRI_attributes m n vi)"
| "set_attribute (D_SCHMITT_TRIGGER m) n vi = rewrap D_SCHMITT_TRIGGER (set_attribute_define SCHMITT_TRIGGER_attributes m n vi)"
| "set_attribute (D_COUNTER4 m) n vi = rewrap D_COUNTER4 (set_attribute_define COUNTER4_attributes m n vi)"
| "set_attribute (D_RANDOM_GENERATOR4 m) n vi = rewrap D_RANDOM_GENERATOR4 (set_attribute_define RANDOM_GENERATOR4_attributes m n vi)"
| "set_attribute (D_INPUT m) n vi = rewrap D_INPUT (set_attribute_define INPUT_attributes m n vi)"
| "set_attribute (D_OUTPUT m) n vi = rewrap D_OUTPUT (set_attribute_define OUTPUT_attributes m n vi)"
| "set_attribute (D_EIGHT_BIT_INPUT m) n vi = rewrap D_EIGHT_BIT_INPUT (set_attribute_define EIGHT_BIT_INPUT_attributes m n vi)"
| "set_attribute (D_EIGHT_BIT_DISPLAY m) n vi = rewrap D_EIGHT_BIT_DISPLAY (set_attribute_define EIGHT_BIT_DISPLAY_attributes m n vi)"
| "set_attribute (D_TICK_DELAY m) n vi = rewrap D_TICK_DELAY (set_attribute_define TICK_DELAY_attributes m n vi)"
| "set_attribute (D_VERILOG_MODULE m) n vi = rewrap D_VERILOG_MODULE (set_attribute_define VERILOG_MODULE_attributes m n vi)"
| "set_attribute (D_VERILOG_PORTS m) n vi = rewrap D_VERILOG_PORTS (set_attribute_define VERILOG_PORTS_attributes m n vi)"
| "set_attribute d n vi = Some (False, d)"

fun get_attribute :: "digital_model \<Rightarrow> nat \<Rightarrow> variant" where
  "get_attribute (D_AND m) n = get_attribute_define AND_attributes m n"
| "get_attribute (D_OR m) n = get_attribute_define OR_attributes m n"
| "get_attribute (D_XOR m) n = get_attribute_define XOR_attributes m n"
| "get_attribute (D_NAND m) n = get_attribute_define NAND_attributes m n"
| "get_attribute (D_NOR m) n = get_attribute_define NOR_attributes m n"
| "get_attribute (D_XNOR m) n = get_attribute_define XNOR_attributes m n"
| "get_attribute (D_IMP m) n = get_attribute_define IMP_attributes m n"
| "get_attribute (D_NIMP m) n = get_attribute_define NIMP_attributes m n"
| "get_attribute (D_NOT m) n = get_attribute_define NOT_attributes m n"
| "get_attribute (D_YES m) n = get_attribute_define YES_attributes m n"
| "get_attribute (D_IS_UNKNOWN m) n = get_attribute_define IS_UNKNOWN_attributes m n"
| "get_attribute (D_CASE_EQ m) n = get_attribute_define CASE_EQ_attributes m n"
| "get_attribute (D_TRI m) n = get_attribute_define TRI_attributes m n"
| "get_attribute (D_SCHMITT_TRIGGER m) n = get_attribute_define SCHMITT_TRIGGER_attributes m n"
| "get_attribute (D_COUNTER4 m) n = get_attribute_define COUNTER4_attributes m n"
| "get_attribute (D_RANDOM_GENERATOR4 m) n = get_attribute_define RANDOM_GENERATOR4_attributes m n"
| "get_attribute (D_INPUT m) n = get_attribute_define INPUT_attributes m n"
| "get_attribute (D_OUTPUT m) n = get_attribute_define OUTPUT_attributes m n"
| "get_attribute (D_EIGHT_BIT_INPUT m) n = get_attribute_define EIGHT_BIT_INPUT_attributes m n"
| "get_attribute (D_EIGHT_BIT_DISPLAY m) n = get_attribute_define EIGHT_BIT_DISPLAY_attributes m n"
| "get_attribute (D_TICK_DELAY m) n = get_attribute_define TICK_DELAY_attributes m n"
| "get_attribute (D_VERILOG_MODULE m) n = get_attribute_define VERILOG_MODULE_attributes m n"
| "get_attribute (D_VERILOG_PORTS m) n = get_attribute_define VERILOG_PORTS_attributes m n"
| "get_attribute d n = no_variant"

fun get_attribute_name :: "digital_model \<Rightarrow> nat \<Rightarrow> bytes" where
  "get_attribute_name (D_AND _) n = get_attribute_name_define AND_attributes n"
| "get_attribute_name (D_OR _) n = get_attribute_name_define OR_attributes n"
| "get_attribute_name (D_XOR _) n = get_attribute_name_define XOR_attributes n"
| "get_attribute_name (D_NAND _) n = get_attribute_name_define NAND_attributes n"
| "get_attribute_name (D_NOR _) n = get_attribute_name_define NOR_attributes n"
| "get_attribute_name (D_XNOR _) n = get_attribute_name_define XNOR_attributes n"
| "get_attribute_name (D_IMP _) n = get_attribute_name_define IMP_attributes n"
| "get_attribute_name (D_NIMP _) n = get_attribute_name_define NIMP_attributes n"
| "get_attribute_name (D_NOT _) n = get_attribute_name_define NOT_attributes n"
| "get_attribute_name (D_YES _) n = get_attribute_name_define YES_attributes n"
| "get_attribute_name (D_IS_UNKNOWN _) n = get_attribute_name_define IS_UNKNOWN_attributes n"
| "get_attribute_name (D_CASE_EQ _) n = get_attribute_name_define CASE_EQ_attributes n"
| "get_attribute_name (D_TRI _) n = get_attribute_name_define TRI_attributes n"
| "get_attribute_name (D_SCHMITT_TRIGGER _) n = get_attribute_name_define SCHMITT_TRIGGER_attributes n"
| "get_attribute_name (D_COUNTER4 _) n = get_attribute_name_define COUNTER4_attributes n"
| "get_attribute_name (D_RANDOM_GENERATOR4 _) n = get_attribute_name_define RANDOM_GENERATOR4_attributes n"
| "get_attribute_name (D_INPUT _) n = get_attribute_name_define INPUT_attributes n"
| "get_attribute_name (D_OUTPUT _) n = get_attribute_name_define OUTPUT_attributes n"
| "get_attribute_name (D_EIGHT_BIT_INPUT _) n = get_attribute_name_define EIGHT_BIT_INPUT_attributes n"
| "get_attribute_name (D_EIGHT_BIT_DISPLAY _) n = get_attribute_name_define EIGHT_BIT_DISPLAY_attributes n"
| "get_attribute_name (D_TICK_DELAY _) n = get_attribute_name_define TICK_DELAY_attributes n"
| "get_attribute_name (D_VERILOG_MODULE _) n = get_attribute_name_define VERILOG_MODULE_attributes n"
| "get_attribute_name (D_VERILOG_PORTS _) n = get_attribute_name_define VERILOG_PORTS_attributes n"
| "get_attribute_name _ n = []"

text \<open>\<^verbatim>\<open>model_name\<close> of the structs.\<close>

fun model_name :: "digital_model \<Rightarrow> string" where
  "model_name (D_AND _) = ''AND''"
| "model_name (D_OR _) = ''OR''"
| "model_name (D_XOR _) = ''XOR''"
| "model_name (D_NAND _) = ''NAND''"
| "model_name (D_NOR _) = ''NOR''"
| "model_name (D_XNOR _) = ''XNOR''"
| "model_name (D_IMP _) = ''IMP''"
| "model_name (D_NIMP _) = ''NIMP''"
| "model_name (D_NOT _) = ''NOT''"
| "model_name (D_YES _) = ''YES''"
| "model_name (D_HALF_ADDER _) = ''HALF_ADDER''"
| "model_name (D_HALF_SUB _) = ''HALF_SUB''"
| "model_name (D_FULL_ADDER _) = ''FULL_ADDER''"
| "model_name (D_FULL_SUB _) = ''FULL_SUB''"
| "model_name (D_MUL2 _) = ''MUL2''"
| "model_name (D_IS_UNKNOWN _) = ''IS_UNKNOWN''"
| "model_name (D_CASE_EQ _) = ''CASE_EQ''"
| "model_name (D_RESOLVE2 _) = ''RESOLVE2''"
| "model_name (D_TRI _) = ''TRI''"
| "model_name (D_SCHMITT_TRIGGER _) = ''SCHMITT_TRIGGER''"
| "model_name (D_DFF _) = ''DFF''"
| "model_name (D_DFF_ARSTN _) = ''DFF_ARSTN''"
| "model_name (D_JKFF _) = ''JKFF''"
| "model_name (D_TFF _) = ''TFF''"
| "model_name (D_T_BAR_FF _) = ''T_BAR_FF''"
| "model_name (D_DLATCH _) = ''DLATCH''"
| "model_name (D_COUNTER4 _) = ''COUNTER4''"
| "model_name (D_RANDOM_GENERATOR4 _) = ''RANDOM_GENERATOR4''"
| "model_name (D_INPUT _) = ''INPUT''"
| "model_name (D_OUTPUT _) = ''OUTPUT''"
| "model_name (D_EIGHT_BIT_INPUT _) = ''EIGHT_BIT_INPUT''"
| "model_name (D_EIGHT_BIT_DISPLAY _) = ''EIGHT_BIT_DISPLAY''"
| "model_name (D_TICK_DELAY _) = ''TICK_DELAY''"
| "model_name (D_VERILOG_MODULE _) = ''VERILOG_MODULE''"
| "model_name (D_VERILOG_PORTS _) = ''VERILOG_PORTS''"

text \<open>Setting an attribute of a model of the circuit.\<close>

definition set_model_attribute :: "model_pos \<Rightarrow> nat \<Rightarrow> variant \<Rightarrow> digital_circuit \<Rightarrow> (bool \<times> digital_circuit) option" where
  "set_model_attribute pos n vi c =
     (case dmodels c pos of None \<Rightarrow> None
      | Some d \<Rightarrow> map_option (\<lambda>(b, d'). (b, c\<lparr>dmodels := (dmodels c)(pos \<mapsto> d')\<rparr>)) (set_attribute d n vi))"

end
