(* ===== verification/Floating.thy ===== *)
theory Floating
  imports Netlist_Props
begin

text \<open>
  Detection of floating subnets (\<^verbatim>\<open>circuits/floating_subnet/detect.h\<close>): the nodes the ground node
  does not reach through models, grouped into connected components. A set of pins is iterated in
  the order of their addresses, which is the argument \<open>ord\<close>; the stack is a list with its top
  first.
\<close>

subsection \<open>The search\<close>

text \<open>The model pointer of a pin after \<^verbatim>\<open>ensure_pin_model_ptr\<close> has set it for every live model.\<close>

definition pin_model :: "netlist \<Rightarrow> pin_ref \<Rightarrow> model_base option" where
  "pin_model nl p =
     (case get_model nl (fst p) of None \<Rightarrow> None
      | Some m \<Rightarrow> if mb_type m \<noteq> mt_normal \<or> mb_ptr m = None then None else Some m)"

definition model_nodes :: "model_base \<Rightarrow> node_ref list" where
  "model_nodes m = (case mb_ptr m of None \<Rightarrow> [] | Some im \<Rightarrow> List.map_filter id (pin_nodes im))"

definition neighbours :: "(pin_ref set \<Rightarrow> pin_ref list) \<Rightarrow> netlist \<Rightarrow> node_ref \<Rightarrow> node_ref list" where
  "neighbours ord nl r =
     (case node_at nl r of None \<Rightarrow> []
      | Some n \<Rightarrow> concat (map (\<lambda>p. case pin_model nl p of None \<Rightarrow> [] | Some m \<Rightarrow> model_nodes m) (ord (pins n))))"

text \<open>\<^verbatim>\<open>if(processed.insert(other).second) { stack.push_back(other); }\<close> for each other node.\<close>

fun visit :: "'a list \<Rightarrow> 'a set \<Rightarrow> 'a list \<Rightarrow> 'a set \<times> 'a list" where
  "visit [] processed stack = (processed, stack)"
| "visit (q # qs) processed stack =
     (if q \<in> processed then visit qs processed stack else visit qs (insert q processed) (q # stack))"

lemma visit_run:
  "visit qs processed stack = (processed', stack') \<Longrightarrow>
   processed' = processed \<union> set qs \<and> (\<exists>new. stack' = new @ stack \<and> set new = set qs - processed \<and> distinct new)"
proof (induction qs processed stack rule: visit.induct)
  case (2 q qs processed stack)
  show ?case
  proof (cases "q \<in> processed")
    case True
    then show ?thesis using 2 by auto
  next
    case False
    then obtain new where "processed' = insert q processed \<union> set qs" "stack' = new @ (q # stack)"
        "set new = set qs - insert q processed" "distinct new"
      using 2 by auto
    then show ?thesis using False by (intro conjI exI [of _ "new @ [q]"]) auto
  qed
qed simp

definition pin_targets :: "netlist \<Rightarrow> node_ref set" where
  "pin_targets nl = set (concat (map model_nodes (all_models nl)))"

lemma get_model_all: "get_model nl pos = Some m \<Longrightarrow> m \<in> set (all_models nl)"
  by (auto simp: get_model_def all_models_def Let_def split: if_splits intro!: bexI [of _ "models nl ! chunk_pos pos"])

lemma pin_model_all: "pin_model nl p = Some m \<Longrightarrow> m \<in> set (all_models nl)"
  by (auto simp: pin_model_def split: option.splits if_splits dest: get_model_all)

lemma neighbours_targets: "set (neighbours ord nl r) \<subseteq> pin_targets nl"
  by (auto simp: neighbours_def pin_targets_def split: option.splits) (metis pin_model_all)

lemma finite_targets [simp]: "finite (pin_targets nl)"
  by (simp add: pin_targets_def)

text \<open>
  The loop over the stack. The second phase skips the ground node (\<open>skip\<close>) and collects the
  nodes it takes off the stack.
\<close>

definition others :: "(pin_ref set \<Rightarrow> pin_ref list) \<Rightarrow> netlist \<Rightarrow> bool \<Rightarrow> node_ref \<Rightarrow> node_ref list" where
  "others ord nl skip r = filter (\<lambda>q. \<not> (skip \<and> q = Ground)) (neighbours ord nl r)"

function flood ::
  "(pin_ref set \<Rightarrow> pin_ref list) \<Rightarrow> netlist \<Rightarrow> bool \<Rightarrow> node_ref set \<Rightarrow> node_ref list \<Rightarrow> node_ref list \<Rightarrow> node_ref list \<times> node_ref set" where
  "flood ord nl skip processed [] subnet = (subnet, processed)"
| "flood ord nl skip processed (r # stack) subnet =
     (case visit (others ord nl skip r) processed stack of
        (processed', stack') \<Rightarrow> flood ord nl skip processed' stack' (subnet @ [r]))"
  by pat_completeness auto
termination
proof (relation "(\<lambda>(ord, nl, skip, processed, stack, subnet). card (pin_targets nl - processed)) <*mlex*>
    measure (\<lambda>(ord, nl, skip, processed, stack, subnet). length stack)", goal_cases)
  case 1
  show ?case by (intro wf_mlex) simp
next
  case (2 ord nl skip processed r stack subnet processed' stack')
  then obtain new where v: "processed' = processed \<union> set (others ord nl skip r)" "stack' = new @ stack"
      "set new = set (others ord nl skip r) - processed"
    using visit_run [of "others ord nl skip r" processed stack processed' stack'] by auto
  show ?case
  proof (cases "new = []")
    case True
    then have "pin_targets nl - processed' = pin_targets nl - processed" using v by auto
    then show ?thesis using v True by (simp add: mlex_prod_def)
  next
    case False
    then obtain q where "q \<in> set (others ord nl skip r)" "q \<notin> processed" using v(3) by (cases new) auto
    then have "pin_targets nl - processed' \<subset> pin_targets nl - processed"
      using v(1) neighbours_targets [of ord nl r] by (auto simp: others_def)
    then have "card (pin_targets nl - processed') < card (pin_targets nl - processed)" by (intro psubset_card_mono) auto
    then show ?thesis by (simp add: mlex_prod_def)
  qed
qed

fun subnets_from ::
  "(pin_ref set \<Rightarrow> pin_ref list) \<Rightarrow> netlist \<Rightarrow> node_ref set \<Rightarrow> node_ref list \<Rightarrow> node_ref list list" where
  "subnets_from ord nl processed [] = []"
| "subnets_from ord nl processed (start # starts) =
     (if start \<in> processed then subnets_from ord nl processed starts
      else case flood ord nl True (insert start processed) [start] [] of
        (subnet, processed') \<Rightarrow> subnet # subnets_from ord nl processed' starts)"

definition connected_nodes :: "netlist \<Rightarrow> node_ref list" where
  "connected_nodes nl = map fst (filter (\<lambda>(r, n). pins n \<noteq> {}) (node_list nl))"

definition detect :: "(pin_ref set \<Rightarrow> pin_ref list) \<Rightarrow> netlist \<Rightarrow> node_ref list list" where
  "detect ord nl =
     (if connected_nodes nl = [] then []
      else case flood ord nl False {Ground} [Ground] [] of
        (_, processed) \<Rightarrow> subnets_from ord nl processed (connected_nodes nl))"

subsection \<open>Components of an undirected graph\<close>

locale undirected =
  fixes edge :: "'a \<Rightarrow> 'a \<Rightarrow> bool"
  assumes edge_sym: "edge a b \<Longrightarrow> edge b a"
begin

definition comp :: "'a \<Rightarrow> 'a set" where
  "comp a = {b. edge\<^sup>*\<^sup>* a b}"

definition closed :: "'a set \<Rightarrow> bool" where
  "closed S \<longleftrightarrow> (\<forall>a b. a \<in> S \<longrightarrow> edge a b \<longrightarrow> b \<in> S)"

lemma path_sym: "edge\<^sup>*\<^sup>* a b \<Longrightarrow> edge\<^sup>*\<^sup>* b a"
  by (induction rule: rtranclp_induct) (auto intro: edge_sym converse_rtranclp_into_rtranclp)

lemma comp_eq: "b \<in> comp a \<Longrightarrow> comp b = comp a"
  using path_sym by (auto simp: comp_def intro: rtranclp_trans)

lemma closed_comp: "closed (comp a)"
  by (auto simp: closed_def comp_def)

lemma closed_Un: "closed S \<Longrightarrow> closed T \<Longrightarrow> closed (S \<union> T)"
  unfolding closed_def by blast

lemma closed_path: "closed S \<Longrightarrow> edge\<^sup>*\<^sup>* a b \<Longrightarrow> a \<in> S \<Longrightarrow> b \<in> S"
proof -
  assume "closed S" "edge\<^sup>*\<^sup>* a b" "a \<in> S"
  from this(2,1,3) show ?thesis by (induction rule: rtranclp_induct) (auto simp: closed_def)
qed

lemma comp_outside: "closed S \<Longrightarrow> a \<notin> S \<Longrightarrow> comp a \<inter> S = {}"
  using closed_path path_sym by (fastforce simp: comp_def)

text \<open>A set that grows from \<open>a\<close> along edges and is closed up to a closed set is the component.\<close>

lemma comp_search:
  assumes "closed P" "a \<notin> P" "a \<in> S" "S \<inter> P = {}" "\<And>b c. b \<in> S \<Longrightarrow> edge b c \<Longrightarrow> c \<in> S \<union> P" "S \<subseteq> comp a"
  shows "S = comp a"
proof
  show "comp a \<subseteq> S"
  proof
    fix b assume "b \<in> comp a"
    then have "edge\<^sup>*\<^sup>* a b" by (simp add: comp_def)
    then show "b \<in> S"
    proof (induction rule: rtranclp_induct)
      case (step b c)
      have "b \<notin> P" using step.IH assms(4) by blast
      then have "c \<notin> P" using assms(1) edge_sym [OF step.hyps(2)] unfolding closed_def by blast
      then show ?case using assms(5) [OF step.IH step.hyps(2)] by blast
    qed (rule assms(3))
  qed
qed (rule assms(6))

end

subsection \<open>The search finds components\<close>

definition adj :: "netlist \<Rightarrow> node_ref \<Rightarrow> node_ref \<Rightarrow> bool" where
  "adj nl r q \<longleftrightarrow> (\<exists>pos i j. pin_at nl (pos, i) = Some r \<and> pin_at nl (pos, j) = Some q)"

interpretation net: undirected "adj nl" for nl
  by unfold_locales (auto simp: adj_def)

definition enumerates :: "(pin_ref set \<Rightarrow> pin_ref list) \<Rightarrow> bool" where
  "enumerates ord \<longleftrightarrow> (\<forall>P. finite P \<longrightarrow> set (ord P) = P)"

lemma set_model_nodes: "r \<in> set (model_nodes m) \<longleftrightarrow> (\<exists>im i. mb_ptr m = Some im \<and> i < length (pin_nodes im) \<and> pin_nodes im ! i = Some r)"
proof (cases "mb_ptr m")
  case (Some im)
  have "set (List.map_filter id xs) = {r. Some r \<in> set xs}" for xs :: "node_ref option list"
    by (induction xs) (auto simp: map_filter_simps split: option.splits)
  then show ?thesis using Some by (auto simp: model_nodes_def in_set_conv_nth)
qed (simp add: model_nodes_def)

lemma pin_at_model:
  "pin_at nl (pos, i) = Some r \<longleftrightarrow>
     (\<exists>m im. get_model nl pos = Some m \<and> mb_ptr m = Some im \<and> i < length (pin_nodes im) \<and> pin_nodes im ! i = Some r)"
  by (auto simp: pin_at_def impl_at_def split: option.splits bind_splits if_splits)

lemma neighbours_adj:
  assumes ok: "netlist_ok nl" and ord: "enumerates ord"
  shows "set (neighbours ord nl r) = {q. adj nl r q}"
proof (cases "node_at nl r")
  case None
  then have "\<not> adj nl r q" for q using graph_okD(2) [OF netlist_okD(1) [OF ok]] by (fastforce simp: adj_def)
  then show ?thesis using None by (simp add: neighbours_def)
next
  case (Some n)
  have n: "pins n = {p. pin_at nl p = Some r}" "finite (pins n)"
    using graph_okD(1) [OF netlist_okD(1) [OF ok] Some] by (auto simp: links_ok_def)
  have live: "pin_model nl (pos, i) = get_model nl pos" if "pin_at nl (pos, i) = Some q" for pos i q
    using that netlist_wfD(2) [OF netlist_ok_wf [OF ok], of pos] by (auto simp: pin_model_def pin_at_model model_ok_def)
  have "q \<in> set (neighbours ord nl r) \<longleftrightarrow> (\<exists>p m. p \<in> pins n \<and> pin_model nl p = Some m \<and> q \<in> set (model_nodes m))" for q
    using ord n(2) Some by (force simp: neighbours_def enumerates_def split: option.splits)
  also have "\<dots> q \<longleftrightarrow> adj nl r q" for q
    using live by (fastforce simp: n(1) adj_def set_model_nodes pin_at_model)
  finally show ?thesis by blast
qed

lemma others_adj:
  "netlist_ok nl \<Longrightarrow> enumerates ord \<Longrightarrow> set (others ord nl skip r) = {q. adj nl r q \<and> \<not> (skip \<and> q = Ground)}"
  by (auto simp: others_def neighbours_adj)

definition flood_inv :: "(node_ref \<Rightarrow> node_ref set) \<Rightarrow> node_ref set \<Rightarrow> node_ref \<Rightarrow> node_ref set \<Rightarrow> node_ref list \<Rightarrow> node_ref list \<Rightarrow> bool" where
  "flood_inv S P s processed stack subnet \<longleftrightarrow>
     distinct (subnet @ stack) \<and> processed = P \<union> set (subnet @ stack) \<and> P \<inter> set (subnet @ stack) = {} \<and>
     (\<forall>r \<in> set subnet. S r \<subseteq> processed) \<and> (\<forall>q \<in> set (subnet @ stack). (\<lambda>a b. b \<in> S a)\<^sup>*\<^sup>* s q) \<and> s \<in> set (subnet @ stack)"

lemma flood_run:
  assumes "flood_inv (\<lambda>r. set (others ord nl skip r)) P s processed stack subnet"
    and "flood ord nl skip processed stack subnet = (subnet', processed')"
  shows "flood_inv (\<lambda>r. set (others ord nl skip r)) P s processed' [] subnet'"
  using assms
proof (induction ord nl skip processed stack subnet rule: flood.induct)
  case (2 ord nl skip processed r stack subnet)
  let ?S = "\<lambda>r. set (others ord nl skip r)"
  obtain p1 st1 where v: "visit (others ord nl skip r) processed stack = (p1, st1)" by fastforce
  then obtain new where new: "p1 = processed \<union> ?S r" "st1 = new @ stack" "set new = ?S r - processed" "distinct new"
    using visit_run [OF v] by blast
  have inv: "flood_inv ?S P s processed (r # stack) subnet" by (rule 2(2))
  have "(\<lambda>a b. b \<in> ?S a)\<^sup>*\<^sup>* s q" if "q \<in> set new" for q
    using inv that new(3) by (auto simp: flood_inv_def intro: rtranclp.rtrancl_into_rtrancl)
  then have "flood_inv ?S P s p1 st1 (subnet @ [r])" using inv new by (auto simp: flood_inv_def)
  then show ?case using 2(1) [OF v [symmetric]] 2(3) v by simp
qed simp

lemma flood_start: "flood_inv S P s (insert s P) [s] []" if "s \<notin> P"
  using that by (auto simp: flood_inv_def)

text \<open>Phase one marks the component of the ground node.\<close>

lemma flood_ground:
  assumes ok: "netlist_ok nl" and ord: "enumerates ord"
    and run: "flood ord nl False {Ground} [Ground] [] = (subnet, processed)"
  shows "processed = net.comp nl Ground"
proof -
  let ?S = "\<lambda>r. set (others ord nl False r)"
  have inv: "flood_inv ?S {} Ground processed [] subnet"
    using flood_run [OF _ run, of "{}" Ground] flood_start [of Ground "{}" ?S] by simp
  have S: "(\<lambda>a b. b \<in> ?S a) = adj nl" by (auto simp: others_adj [OF ok ord] fun_eq_iff)
  have "set subnet = net.comp nl Ground"
    using inv S by (intro net.comp_search [where P = "{}"])
      (auto simp: flood_inv_def net.closed_def net.comp_def others_adj [OF ok ord])
  then show ?thesis using inv by (simp add: flood_inv_def)
qed

text \<open>Phase two takes the component of its start node.\<close>

lemma flood_component:
  assumes ok: "netlist_ok nl" and ord: "enumerates ord" and P: "net.closed nl P" "Ground \<in> P" "s \<notin> P"
    and run: "flood ord nl True (insert s P) [s] [] = (subnet, processed)"
  shows "set subnet = net.comp nl s" "processed = P \<union> net.comp nl s" "distinct subnet" "subnet \<noteq> []"
proof -
  let ?S = "\<lambda>r. set (others ord nl True r)"
  have inv: "flood_inv ?S P s processed [] subnet"
    using flood_run [OF _ run] flood_start [OF P(3), of ?S] by simp
  have "(adj nl)\<^sup>*\<^sup>* s q" if "(\<lambda>a b. b \<in> ?S a)\<^sup>*\<^sup>* s q" for q
    using that by (rule rtranclp_mono [THEN predicate2D, rotated]) (auto simp: others_adj [OF ok ord])
  then show comp: "set subnet = net.comp nl s"
    using inv P by (intro net.comp_search [where P = P]) (auto simp: flood_inv_def net.comp_def others_adj [OF ok ord])
  show "processed = P \<union> net.comp nl s" "distinct subnet" "subnet \<noteq> []" using inv comp by (auto simp: flood_inv_def)
qed

lemma subnets_from_components:
  assumes ok: "netlist_ok nl" and ord: "enumerates ord"
  shows "net.closed nl P \<Longrightarrow> Ground \<in> P \<Longrightarrow>
    set (concat (subnets_from ord nl P starts)) = (\<Union>s \<in> set starts. net.comp nl s) - P \<and>
    distinct (concat (subnets_from ord nl P starts)) \<and>
    (\<forall>sub \<in> set (subnets_from ord nl P starts). sub \<noteq> [] \<and> (\<forall>r \<in> set sub. set sub = net.comp nl r))"
proof (induction starts arbitrary: P)
  case (Cons s starts)
  show ?case
  proof (cases "s \<in> P")
    case True
    then have "net.comp nl s \<subseteq> P" using net.closed_path [OF Cons.prems(1)] by (auto simp: net.comp_def)
    then show ?thesis using True Cons by auto
  next
    case False
    obtain sub P' where run: "flood ord nl True (insert s P) [s] [] = (sub, P')" by fastforce
    note f = flood_component [OF ok ord Cons.prems False run]
    have "net.closed nl P'" using f(2) net.closed_Un [OF Cons.prems(1) net.closed_comp] by simp
    then have IH: "set (concat (subnets_from ord nl P' starts)) = (\<Union>s \<in> set starts. net.comp nl s) - P'"
        "distinct (concat (subnets_from ord nl P' starts))"
        "\<forall>sub \<in> set (subnets_from ord nl P' starts). sub \<noteq> [] \<and> (\<forall>r \<in> set sub. set sub = net.comp nl r)"
      using Cons.IH [of P'] Cons.prems(2) f(2) by blast+
    have eq: "subnets_from ord nl P (s # starts) = sub # subnets_from ord nl P' starts" using False run by simp
    have apart: "net.comp nl s \<inter> P = {}" by (rule net.comp_outside [OF Cons.prems(1) False])
    have "net.comp nl s \<union> ((\<Union>s \<in> set starts. net.comp nl s) - P') = (\<Union>s \<in> set (s # starts). net.comp nl s) - P"
      using f(2) apart by auto
    moreover have "distinct (concat (sub # subnets_from ord nl P' starts))" using IH(1,2) f by auto
    moreover have "\<forall>r \<in> set sub. set sub = net.comp nl r" using f(1) net.comp_eq by metis
    moreover have "set (concat (sub # subnets_from ord nl P' starts)) = net.comp nl s \<union> ((\<Union>s \<in> set starts. net.comp nl s) - P')"
      by (simp only: concat.simps set_append f(1) IH(1))
    ultimately show ?thesis unfolding eq using IH(3) f(4) by simp
  qed
qed simp

lemma set_connected_nodes: "set (connected_nodes nl) = {r. r \<noteq> Ground \<and> (\<exists>n. node_at nl r = Some n \<and> pins n \<noteq> {})}"
proof -
  have "r \<in> set (connected_nodes nl) \<longleftrightarrow> (\<exists>n. (r, n) \<in> set (node_list nl) \<and> pins n \<noteq> {})" for r
    by (force simp: connected_nodes_def)
  then show ?thesis by (auto simp: mem_node_list)
qed

text \<open>A node that shares a model with another has a pin.\<close>

lemma adj_connected: "netlist_ok nl \<Longrightarrow> adj nl r q \<Longrightarrow> \<exists>n. node_at nl q = Some n \<and> pins n \<noteq> {}"
  using graph_okD [OF netlist_okD(1)] unfolding adj_def links_ok_def by blast

lemma comp_connected:
  assumes "netlist_ok nl" "q \<in> net.comp nl r" "r \<in> set (connected_nodes nl)" "q \<noteq> Ground"
  shows "q \<in> set (connected_nodes nl)"
proof -
  have "(adj nl)\<^sup>*\<^sup>* r q" using assms(2) by (simp add: net.comp_def)
  then show ?thesis using assms(3,4) adj_connected [OF assms(1)] by (cases rule: rtranclp.cases) (auto simp: set_connected_nodes)
qed

lemma detect_components:
  assumes ok: "netlist_ok nl" and ord: "enumerates ord"
  shows "set (concat (detect ord nl)) = set (connected_nodes nl) - net.comp nl Ground"
    and "distinct (concat (detect ord nl))"
    and "sub \<in> set (detect ord nl) \<Longrightarrow> sub \<noteq> [] \<and> (\<forall>r \<in> set sub. set sub = net.comp nl r)"
proof -
  obtain sub0 P where run: "flood ord nl False {Ground} [Ground] [] = (sub0, P)" by fastforce
  have P: "P = net.comp nl Ground" by (rule flood_ground [OF ok ord run])
  have "Ground \<in> P" by (simp add: P net.comp_def)
  moreover have "net.closed nl P" unfolding P by (rule net.closed_comp)
  ultimately have subs: "set (concat (subnets_from ord nl P (connected_nodes nl))) = (\<Union>s \<in> set (connected_nodes nl). net.comp nl s) - P \<and>
    distinct (concat (subnets_from ord nl P (connected_nodes nl))) \<and>
    (\<forall>sub \<in> set (subnets_from ord nl P (connected_nodes nl)). sub \<noteq> [] \<and> (\<forall>r \<in> set sub. set sub = net.comp nl r))"
    by (intro subnets_from_components [OF ok ord])
  have d: "detect ord nl = (if connected_nodes nl = [] then [] else subnets_from ord nl P (connected_nodes nl))"
    using run by (simp add: detect_def)
  have "(\<Union>s \<in> set (connected_nodes nl). net.comp nl s) - P = set (connected_nodes nl) - net.comp nl Ground"
    using comp_connected [OF ok] \<open>Ground \<in> P\<close> by (auto simp: P) (auto simp: net.comp_def)
  then show "set (concat (detect ord nl)) = set (connected_nodes nl) - net.comp nl Ground" using subs d by auto
  show "distinct (concat (detect ord nl))" using subs d by simp
  show "sub \<in> set (detect ord nl) \<Longrightarrow> sub \<noteq> [] \<and> (\<forall>r \<in> set sub. set sub = net.comp nl r)"
    using subs d by (auto split: if_splits)
qed

end
