(* ===== verification/Event_Loop.thy ===== *)
theory Event_Loop
  imports Digital_Run Attributes Floating
begin

text \<open>
  The event loop of the digital engine. A contract says what one evaluation of a device owes the
  queue; from it alone follows that every device is consistent with its inputs or has a pending
  input, so that an empty queue means a settled circuit. The devices meet the contract on digital
  circuits in which every node has one driver.
\<close>

subsection \<open>The contract of an evaluation\<close>

text \<open>
  \<open>step p\<close> evaluates the device \<open>p\<close>, \<open>forget r\<close> takes the node \<open>r\<close> off the queue \<open>pend\<close>; \<open>reads p\<close>
  are the nodes the device looks at and \<open>good p\<close> says that its outputs fit its inputs.
\<close>

locale event_loop =
  fixes step :: "'p \<Rightarrow> 'c \<Rightarrow> 'c" and forget :: "'n \<Rightarrow> 'c \<Rightarrow> 'c" and pend :: "'c \<Rightarrow> 'n set"
    and inv :: "'c \<Rightarrow> bool" and good :: "'p \<Rightarrow> 'c \<Rightarrow> bool" and reads :: "'p \<Rightarrow> 'c \<Rightarrow> 'n set"
  assumes inv_step: "inv c \<Longrightarrow> inv (step p c)"
    and pend_step: "inv c \<Longrightarrow> pend c \<subseteq> pend (step p c)"
    and reads_step: "inv c \<Longrightarrow> reads q (step p c) = reads q c"
    and good_step: "inv c \<Longrightarrow> good p (step p c) \<or> reads p c \<inter> pend (step p c) \<noteq> {}"
    and good_other: "inv c \<Longrightarrow> good q c \<Longrightarrow> good q (step p c) \<or> reads q c \<inter> pend (step p c) \<noteq> {}"
    and forget_laws: "inv (forget r c) = inv c" "pend (forget r c) = pend c - {r}" "good p (forget r c) = good p c" "reads p (forget r c) = reads p c"
begin

definition served :: "'p \<Rightarrow> 'c \<Rightarrow> bool" where
  "served p c \<longleftrightarrow> good p c \<or> reads p c \<inter> pend c \<noteq> {}"

definition consistent :: "'c \<Rightarrow> bool" where
  "consistent c \<longleftrightarrow> inv c \<and> (\<forall>p. served p c)"

lemma served_self: "inv c \<Longrightarrow> served p (step p c)"
  using good_step reads_step by (simp add: served_def)

lemma served_other:
  assumes "inv c" "served q c"
  shows "served q (step p c)"
proof (cases "good q c")
  case True
  then show ?thesis using good_other [OF assms(1)] reads_step [OF assms(1)] by (simp add: served_def)
next
  case False
  then show ?thesis using assms(2) pend_step [OF assms(1), of p] reads_step [OF assms(1)] by (auto simp: served_def)
qed

lemma steps_serve:
  "inv c \<Longrightarrow> \<forall>p. p \<in> set ps \<or> served p c \<Longrightarrow> consistent (fold step ps c)"
proof (induction ps arbitrary: c)
  case Nil
  then show ?case by (simp add: consistent_def)
next
  case (Cons p ps)
  have "\<forall>q. q \<in> set ps \<or> served q (step p c)"
    using Cons.prems served_self served_other by (metis set_ConsD)
  then show ?case using Cons.IH inv_step [OF Cons.prems(1)] by simp
qed

lemma consistent_steps: "consistent c \<Longrightarrow> consistent (fold step ps c)"
  by (rule steps_serve) (simp_all add: consistent_def)

lemma consistent_process:
  assumes "consistent c" "{p. r \<in> reads p c} \<subseteq> set ps"
  shows "consistent (fold step ps (forget r c))"
proof (rule steps_serve)
  show "inv (forget r c)" using assms(1) by (simp add: consistent_def forget_laws)
  show "\<forall>p. p \<in> set ps \<or> served p (forget r c)" using assms by (auto simp: consistent_def served_def forget_laws)
qed

lemma quiescent: "consistent c \<Longrightarrow> pend c = {} \<Longrightarrow> good p c"
  by (auto simp: consistent_def served_def)

end

subsection \<open>Circuits\<close>

text \<open>Every device is on digital nodes of a well-formed netlist, and no two devices drive the same node.\<close>

definition circuit_ok :: "digital_circuit \<Rightarrow> bool" where
  "circuit_ok c \<longleftrightarrow> netlist_ok (dnet (store c)) \<and> digital_net (store c) \<and>
     (\<forall>pos d. dmodels c pos = Some d \<longrightarrow> is_digital (dnet (store c)) pos \<and> wired_ok (pins_of c pos) d (store c)) \<and>
     (\<forall>p q d e. p \<noteq> q \<longrightarrow> dmodels c p = Some d \<longrightarrow> dmodels c q = Some e \<longrightarrow>
        set (out_nodes (pins_of c p) d) \<inter> set (out_nodes (pins_of c q) e) = {})"

definition devices_ok :: "digital_circuit \<Rightarrow> bool" where
  "devices_ok c \<longleftrightarrow> (\<forall>pos d. dmodels c pos = Some d \<longrightarrow> dev_ok (pins_of c pos) d (store c))"

definition circuit_inv :: "digital_circuit \<Rightarrow> bool" where
  "circuit_inv c \<longleftrightarrow> circuit_ok c \<and> devices_ok c"

definition device_good :: "model_pos \<Rightarrow> digital_circuit \<Rightarrow> bool" where
  "device_good pos c \<longleftrightarrow> (\<forall>d. dmodels c pos = Some d \<longrightarrow> settled_device (pins_of c pos) d (store c) (store c))"

definition device_reads :: "model_pos \<Rightarrow> digital_circuit \<Rightarrow> node_ref set" where
  "device_reads pos c = (case dmodels c pos of None \<Rightarrow> {} | Some d \<Rightarrow> set (nodes_at (pins_of c pos) (in_pins d)))"

definition forget_node :: "node_ref \<Rightarrow> digital_circuit \<Rightarrow> digital_circuit" where
  "forget_node r c = c\<lparr>store := (store c)\<lparr>tables := tables (store c) - {r}\<rparr>\<rparr>"

subsection \<open>The same net\<close>

lemma same_net_models:
  assumes "same_net s s'"
  shows "impl_at (dnet s') = impl_at (dnet s)" "pin_at (dnet s') = pin_at (dnet s)" "is_digital (dnet s') = is_digital (dnet s)"
  using assms by (simp_all add: same_net_def fun_eq_iff impl_at_def get_model_def pin_at_def is_digital_def)

lemma links_ok_strip: "strip n = strip m \<Longrightarrow> links_ok P D r n = links_ok P D r m"
  using strip_eqD [of n m] by (simp add: links_ok_def)

lemma same_net_ok:
  assumes "same_net s s'" "netlist_ok (dnet s)"
  shows "netlist_ok (dnet s')"
proof -
  note m = same_net_models [OF assms(1)]
  have n: "map_option strip (node_at (dnet s') r) = map_option strip (node_at (dnet s) r)" for r using assms(1) by (simp add: same_net_def)
  have "graph_ok (node_at (dnet s')) (pin_at (dnet s)) (is_digital (dnet s))"
    unfolding graph_ok_def
  proof (intro conjI allI impI)
    fix r k assume "node_at (dnet s') r = Some k"
    then obtain k0 where "node_at (dnet s) r = Some k0" "strip k = strip k0" using n [of r] by (cases "node_at (dnet s) r") auto
    then show "links_ok (pin_at (dnet s)) (is_digital (dnet s)) r k"
      using graph_okD(1) [OF netlist_okD(1) [OF assms(2)]] links_ok_strip [of k k0] by simp
  next
    fix p r assume "pin_at (dnet s) p = Some r"
    then show "node_at (dnet s') r \<noteq> None"
      using graph_okD(2) [OF netlist_okD(1) [OF assms(2)]] n [of r] by (metis option.map_disc_iff option.distinct(1))
  qed
  then show ?thesis using m assms netlist_okD(2) [OF assms(2)] by (simp add: netlist_ok_def same_net_def)
qed

lemma wired_ok_same: "same_net s s' \<Longrightarrow> wired_ok ps d s' = wired_ok ps d s"
  by (simp add: wired_ok_def same_net_digital same_net_nodes)

lemma wired_ok_kind: "same_kind d d' \<Longrightarrow> wired_ok ps d' s = wired_ok ps d s"
  by (simp add: wired_ok_def same_kind_def )

lemma nodes_at_pins: "r \<in> set (nodes_at ps is) \<Longrightarrow> Some r \<in> set ps"
  by (auto simp: mem_nodes_at) (metis nth_mem)

subsection \<open>One evaluation\<close>

lemma dev_ok_same: "\<forall>r \<in> set (out_nodes ps d). state_of s' r = state_of s r \<Longrightarrow> dev_ok ps d s' = dev_ok ps d s"
  by (simp add: dev_ok_def cong: map_cong)

lemma settled_device_same:
  "\<forall>r \<in> set (out_nodes ps d). state_of s2 r = state_of s1 r \<Longrightarrow> \<forall>r \<in> set (nodes_at ps (in_pins d)). state_of t2 r = state_of t1 r \<Longrightarrow>
   settled_device ps d t2 s2 = settled_device ps d t1 s1"
  by (simp add: settled_device_def cong: map_cong option.case_cong)

lemma settled_device_kind: "same_kind d d' \<Longrightarrow> settled_device ps d' s s' = settled_device ps d s s'"
  by (simp add: settled_device_def same_kind_def cong: option.case_cong)

lemma circuit_invD:
  assumes "circuit_inv c"
  shows "netlist_ok (dnet (store c))" "dmodels c p = Some d \<Longrightarrow> is_digital (dnet (store c)) p"
    "dmodels c p = Some d \<Longrightarrow> wired_ok (pins_of c p) d (store c)" "dmodels c p = Some d \<Longrightarrow> dev_ok (pins_of c p) d (store c)"
    "p \<noteq> q \<Longrightarrow> dmodels c p = Some d \<Longrightarrow> dmodels c q = Some e \<Longrightarrow> r \<in> set (out_nodes (pins_of c p) d) \<Longrightarrow> r \<notin> set (out_nodes (pins_of c q) e)"
  using assms unfolding circuit_inv_def circuit_ok_def devices_ok_def by blast+

lemma run_model_none: "dmodels c pos = None \<Longrightarrow> run_model ops meth pos c = c"
  by (simp add: run_model_def)

text \<open>What evaluating a device does to the circuit.\<close>

lemma run_model_ran:
  assumes inv: "circuit_inv c" and d: "dmodels c pos = Some d"
  obtains d' where "dmodels (run_model ops meth pos c) = (dmodels c)(pos \<mapsto> d')" "pins_of (run_model ops meth pos c) = pins_of c"
    "ran (pins_of c pos) d (store c) d' (store (run_model ops meth pos c))"
proof -
  obtain d' s dr where u: "update_digital_clk ops (tr_duration c) meth (pins_of c pos) d (store c) = (d', s, dr)" by (metis prod_cases3)
  let ?c = "run_model ops meth pos c"
  have r: "ran (pins_of c pos) d (store c) d' s" by (rule update_digital_clk_ran [OF circuit_invD(3,4) [OF inv d] u])
  have c: "dmodels ?c = (dmodels c)(pos \<mapsto> d')" "store ?c = s" using d u by (simp_all add: run_model_def)
  moreover have "same_net (store c) (store ?c)" using r c by (simp add: ran_def writes_def)
  then have "pins_of ?c = pins_of c" by (simp add: fun_eq_iff pins_of_def same_net_models)
  ultimately show ?thesis using that r by simp
qed

lemma inv_run_model:
  assumes inv: "circuit_inv c"
  shows "circuit_inv (run_model ops meth pos c)"
proof (cases "dmodels c pos")
  case None
  then show ?thesis using inv by (simp add: run_model_none)
next
  case (Some d)
  obtain d' where c: "dmodels (run_model ops meth pos c) = (dmodels c)(pos \<mapsto> d')" "pins_of (run_model ops meth pos c) = pins_of c"
      "ran (pins_of c pos) d (store c) d' (store (run_model ops meth pos c))" by (rule run_model_ran [OF inv Some])
  let ?s = "store (run_model ops meth pos c)"
  have w: "writes (set (out_nodes (pins_of c pos) d)) (store c) ?s" "dev_ok (pins_of c pos) d' ?s" "same_kind d d'" using c(3) by (simp_all add: ran_def)
  then have n: "same_net (store c) ?s" by (simp add: writes_def)
  note m = same_net_models [OF n]
  have kind: "\<exists>e0. dmodels c q = Some e0 \<and> same_kind e0 e" if "((dmodels c)(pos \<mapsto> d')) q = Some e" for q e
    using that Some w(3) by (auto simp: same_kind_def split: if_splits)
  have "circuit_ok (run_model ops meth pos c)"
    unfolding circuit_ok_def c
  proof (intro conjI allI impI)
    show "netlist_ok (dnet ?s)" by (rule same_net_ok [OF n circuit_invD(1) [OF inv]])
    show "digital_net ?s" using same_net_digital [OF n] inv by (simp add: circuit_inv_def circuit_ok_def)
    fix q e assume q: "((dmodels c)(pos \<mapsto> d')) q = Some e"
    then obtain e0 where e0: "dmodels c q = Some e0" "same_kind e0 e" using kind by blast
    show "is_digital (dnet ?s) q" using circuit_invD(2) [OF inv e0(1)] m by simp
    show "wired_ok (pins_of c q) e ?s" using circuit_invD(3) [OF inv e0(1)] wired_ok_same [OF n] wired_ok_kind [OF e0(2)] by simp
  next
    fix q1 q2 e1 e2
    assume ne: "q1 \<noteq> q2" and q: "((dmodels c)(pos \<mapsto> d')) q1 = Some e1" "((dmodels c)(pos \<mapsto> d')) q2 = Some e2"
    obtain f1 f2 where "dmodels c q1 = Some f1" "same_kind f1 e1" "dmodels c q2 = Some f2" "same_kind f2 e2" using kind q by blast
    then show "set (out_nodes (pins_of c q1) e1) \<inter> set (out_nodes (pins_of c q2) e2) = {}"
      using circuit_invD(5) [OF inv ne, of f1 f2] by (auto simp: same_kind_def)
  qed
  moreover have "devices_ok (run_model ops meth pos c)"
    unfolding devices_ok_def c
  proof (intro allI impI)
    fix q e assume q: "((dmodels c)(pos \<mapsto> d')) q = Some e"
    show "dev_ok (pins_of c q) e ?s"
    proof (cases "q = pos")
      case True
      then show ?thesis using q w(2) by simp
    next
      case False
      then have e: "dmodels c q = Some e" using q by simp
      have "\<forall>r \<in> set (out_nodes (pins_of c q) e). state_of ?s r = state_of (store c) r"
        using w(1) circuit_invD(5) [OF inv False e Some] unfolding writes_def by blast
      then show ?thesis using circuit_invD(4) [OF inv e] dev_ok_same by blast
    qed
  qed
  ultimately show ?thesis by (simp add: circuit_inv_def)
qed

text \<open>A device whose outputs nobody else wrote stays consistent or gets a pending input.\<close>

lemma good_after:
  assumes w: "writes W s s'" and out: "\<forall>r \<in> set (out_nodes ps d). state_of s' r = state_of s0 r"
    and ok: "settled_device ps d s s0"
  shows "settled_device ps d s' s' \<or> set (nodes_at ps (in_pins d)) \<inter> tables s' \<noteq> {}"
proof (cases "\<forall>r \<in> set (nodes_at ps (in_pins d)). state_of s' r = state_of s r")
  case True
  then show ?thesis using settled_device_same [OF out True] ok by simp
next
  case False
  then show ?thesis using w unfolding writes_def by blast
qed

lemma reads_run_model:
  assumes "circuit_inv c"
  shows "device_reads q (run_model ops meth pos c) = device_reads q c"
proof (cases "dmodels c pos")
  case (Some d)
  obtain d' where c: "dmodels (run_model ops meth pos c) = (dmodels c)(pos \<mapsto> d')" "pins_of (run_model ops meth pos c) = pins_of c"
      "ran (pins_of c pos) d (store c) d' (store (run_model ops meth pos c))" by (rule run_model_ran [OF assms Some])
  have "in_pins d' = in_pins d" using c(3) by (simp add: ran_def same_kind_def)
  then show ?thesis using Some by (simp add: device_reads_def c(1,2) split: option.split)
qed (simp add: run_model_none)

lemma good_run_model:
  assumes inv: "circuit_inv c" and q: "q = pos \<or> device_good q c"
  shows "device_good q (run_model ops meth pos c) \<or> device_reads q c \<inter> tables (store (run_model ops meth pos c)) \<noteq> {}"
proof (cases "dmodels c pos")
  case None
  then show ?thesis using q by (auto simp: run_model_none device_good_def)
next
  case (Some d)
  obtain d' where c: "dmodels (run_model ops meth pos c) = (dmodels c)(pos \<mapsto> d')" "pins_of (run_model ops meth pos c) = pins_of c"
      "ran (pins_of c pos) d (store c) d' (store (run_model ops meth pos c))" by (rule run_model_ran [OF inv Some])
  let ?s = "store (run_model ops meth pos c)"
  have w: "writes (set (out_nodes (pins_of c pos) d)) (store c) ?s" "same_kind d d'" "settled_device (pins_of c pos) d (store c) ?s"
    using c(3) by (simp_all add: ran_def)
  show ?thesis
  proof (cases "q = pos")
    case True
    have "settled_device (pins_of c pos) d ?s ?s \<or> set (nodes_at (pins_of c pos) (in_pins d)) \<inter> tables ?s \<noteq> {}"
      by (rule good_after [OF w(1) _ w(3)]) simp
    then show ?thesis using True Some settled_device_kind [OF w(2)] by (auto simp: device_good_def device_reads_def c)
  next
    case False
    then have good: "device_good q c" using q by simp
    show ?thesis
    proof (cases "dmodels c q")
      case None
      then show ?thesis using False by (simp add: device_good_def c)
    next
      case e: (Some e)
      have "settled_device (pins_of c q) e ?s ?s \<or> set (nodes_at (pins_of c q) (in_pins e)) \<inter> tables ?s \<noteq> {}"
      proof (rule good_after [OF w(1)])
        show "\<forall>r \<in> set (out_nodes (pins_of c q) e). state_of ?s r = state_of (store c) r"
          using w(1) circuit_invD(5) [OF inv False e Some] unfolding writes_def by blast
        show "settled_device (pins_of c q) e (store c) (store c)" using good e by (simp add: device_good_def)
      qed
      then show ?thesis using False e by (auto simp: device_good_def device_reads_def c)
    qed
  qed
qed

lemma pend_run_model: "circuit_inv c \<Longrightarrow> tables (store c) \<subseteq> tables (store (run_model ops meth pos c))"
proof (cases "dmodels c pos")
  case (Some d)
  assume "circuit_inv c"
  then show ?thesis by (rule run_model_ran [OF _ Some, of ops meth]) (simp add: ran_def writes_def)
qed (simp add: run_model_none)

subsection \<open>The devices meet the contract\<close>

lemma forget_node_simps [simp]:
  "dmodels (forget_node r c) = dmodels c" "pins_of (forget_node r c) = pins_of c" "tables (store (forget_node r c)) = tables (store c) - {r}"
  "dnet (store (forget_node r c)) = dnet (store c)"
  by (simp_all add: forget_node_def fun_eq_iff pins_of_def)

lemma state_of_tables [simp]: "state_of (s\<lparr>tables := T\<rparr>) = state_of s"
  by (simp add: fun_eq_iff state_of_def deref_def)

lemma tables_irrelevant [simp]:
  "digital_net (s\<lparr>tables := T\<rparr>) = digital_net s" "wired_ok ps d (s\<lparr>tables := T\<rparr>) = wired_ok ps d s" "dev_ok ps d (s\<lparr>tables := T\<rparr>) = dev_ok ps d s"
  "settled_device ps d (s\<lparr>tables := T\<rparr>) (s\<lparr>tables := T\<rparr>) = settled_device ps d s s"
  by (simp_all add: wired_ok_def digital_net_def valid_node_def dev_ok_def settled_device_def split: option.split)

lemma forget_node_inv: "circuit_inv (forget_node r c) = circuit_inv c"
  by (simp add: circuit_inv_def circuit_ok_def devices_ok_def) (simp add: forget_node_def)

lemma forget_node_views: "device_good p (forget_node r c) = device_good p c" "device_reads p (forget_node r c) = device_reads p c"
  by (simp_all add: device_good_def device_reads_def split: option.split) (simp add: forget_node_def)

interpretation engine: event_loop "run_model ops meth" forget_node "\<lambda>c. tables (store c)" circuit_inv device_good device_reads
  for ops meth
proof unfold_locales
  fix c p q
  assume inv: "circuit_inv c"
  show "circuit_inv (run_model ops meth p c)" by (rule inv_run_model [OF inv])
  show "tables (store c) \<subseteq> tables (store (run_model ops meth p c))" by (rule pend_run_model [OF inv])
  show "device_reads q (run_model ops meth p c) = device_reads q c" by (rule reads_run_model [OF inv])
  show "device_good p (run_model ops meth p c) \<or> device_reads p c \<inter> tables (store (run_model ops meth p c)) \<noteq> {}"
    by (rule good_run_model [OF inv]) simp
  show "device_good q (run_model ops meth p c) \<or> device_reads q c \<inter> tables (store (run_model ops meth p c)) \<noteq> {}"
    if "device_good q c" by (rule good_run_model [OF inv]) (simp add: that)
qed (simp_all add: forget_node_inv forget_node_views)

end
