(* ===== verification/Digital_Sim.thy ===== *)
theory Digital_Sim
  imports Event_Loop
begin

text \<open>
  Running a circuit: preparing it, setting attributes and ticking keep every combinational device
  consistent or waiting for a pending input.
\<close>

subsection \<open>The loops\<close>

lemma run_models_fold: "run_models ops method ps c = fold (run_model ops method) ps c"
  by (induction ps arbitrary: c) simp_all

lemma pin_is_listed:
  assumes "circuit_inv c" "dmodels c p = Some d" "i < length (pins_of c p)" "pins_of c p ! i = Some r"
  shows "is_digital (dnet (store c)) p" "(p, i) \<in> pins (deref (store c) r)" "finite (pins (deref (store c) r))"
proof -
  show "is_digital (dnet (store c)) p" by (rule circuit_invD(2) [OF assms(1,2)])
  have "pin_at (dnet (store c)) (p, i) = Some r" using assms(3,4) by (auto simp: pins_of_def pin_at_def split: option.splits)
  then obtain n where "node_at (dnet (store c)) r = Some n" "links_ok (pin_at (dnet (store c))) (is_digital (dnet (store c))) r n" "(p, i) \<in> pins n"
    using graph_okD [OF netlist_okD(1) [OF circuit_invD(1) [OF assms(1)]]] by (fastforce simp: links_ok_def)
  then show "(p, i) \<in> pins (deref (store c) r)" "finite (pins (deref (store c) r))" by (auto simp: deref_def links_ok_def)
qed

lemma reader_is_pin:
  assumes "circuit_inv c" "r \<in> device_reads p c"
  shows "is_digital (dnet (store c)) p" "\<exists>i. (p, i) \<in> pins (deref (store c) r)" "finite (pins (deref (store c) r))"
proof -
  obtain d where d: "dmodels c p = Some d" "Some r \<in> set (pins_of c p)"
    using assms(2) by (auto simp: device_reads_def dest: nodes_at_pins split: option.splits)
  obtain i where "i < length (pins_of c p)" "pins_of c p ! i = Some r" using d(2) by (auto simp: in_set_conv_nth)
  then show "is_digital (dnet (store c)) p" "\<exists>i. (p, i) \<in> pins (deref (store c) r)" "finite (pins (deref (store c) r))"
    using pin_is_listed [OF assms(1) d(1)] by blast+
qed

lemma consistent_process_node:
  assumes "engine.consistent c" "enumerates ord"
  shows "engine.consistent (process_node ops ord r c)"
proof -
  let ?ps = "filter (is_digital (dnet (store c))) (map fst (ord (pins (deref (store c) r))))"
  have inv: "circuit_inv c" using assms(1) by (simp add: engine.consistent_def)
  have "{p. r \<in> device_reads p c} \<subseteq> set ?ps"
    using reader_is_pin [OF inv, of r] assms(2) by (force simp: enumerates_def)
  then have "engine.consistent (fold (run_model ops update_table) ?ps (forget_node r c))" by (rule engine.consistent_process [OF assms(1)])
  then show ?thesis by (simp add: process_node_def run_models_fold forget_node_def)
qed

lemma consistent_settle_loop: "enumerates ord \<Longrightarrow> engine.consistent c \<Longrightarrow> engine.consistent (settle_loop ops pick ord n c)"
  by (induction ops pick ord n c rule: settle_loop.induct) (simp_all add: consistent_process_node)

lemma consistent_more_pending:
  assumes "engine.consistent c" "store c' = (store c)\<lparr>tables := T\<rparr>" "tables (store c) \<subseteq> T" "dmodels c' = dmodels c"
  shows "engine.consistent c'"
proof -
  have p: "pins_of c' = pins_of c" using assms(2) by (simp add: fun_eq_iff pins_of_def)
  have "circuit_inv c' = circuit_inv c" by (simp add: circuit_inv_def circuit_ok_def devices_ok_def p assms(2,4))
  moreover have "device_good q c' = device_good q c" "device_reads q c' = device_reads q c" for q
    by (simp_all add: device_good_def device_reads_def p assms(2,4) split: option.split)
  moreover have "tables (store c') = T" using assms(2) by simp
  ultimately show ?thesis using assms(1,3) unfolding engine.consistent_def engine.served_def by blast
qed

lemma consistent_digital_clk:
  assumes "engine.consistent c" "enumerates ord"
  shows "engine.consistent (digital_clk ops pick ord c)"
proof -
  have "engine.consistent (c\<lparr>digital_out := []\<rparr>)"
    by (rule consistent_more_pending [OF assms(1), of _ "tables (store c)"]) simp_all
  then have b: "engine.consistent (before_digital_clk ops (c\<lparr>digital_out := []\<rparr>))" (is "engine.consistent ?b")
    by (simp add: before_digital_clk_def run_models_fold engine.consistent_steps)
  have "engine.consistent (seed_tables ?b)"
    by (rule consistent_more_pending [OF b, of _ "tables (store ?b) \<union> always_tables ?b"]) (simp_all add: seed_tables_def)
  then show ?thesis
    by (simp add: digital_clk_def after_table_digital_clk_def update_table_digital_clk_def run_models_fold
        engine.consistent_steps consistent_settle_loop [OF assms(2)])
qed

subsection \<open>Attributes\<close>

text \<open>No attribute touches what a device remembers of its outputs.\<close>

lemma set_d_Some: "set_d f clip vi = Some (b, m) \<Longrightarrow> m = clip \<or> (\<exists>x. m = f x)"
  by (cases vi) (auto simp: set_d_def)

lemma rewrap_Some: "rewrap K x = Some (b, d') \<longleftrightarrow> (\<exists>m. x = Some (b, m) \<and> d' = K m)"
  by (auto simp: rewrap_def)

lemma gate_attributes_keep: "set_attribute_define gate_attributes g n vi = Some (b, g') \<Longrightarrow> last_outputA g' = last_outputA g"
  by (auto simp: gate_attributes_def dest!: set_d_Some split: if_splits)

lemma INPUT_attributes_keep: "set_attribute_define INPUT_attributes i n vi = Some (b, i') \<Longrightarrow> i_last i' = i_last i"
  by (cases vi) (auto simp: INPUT_attributes_def split: if_splits)

lemma TICK_DELAY_attributes_keep: "set_attribute_define TICK_DELAY_attributes m n vi = Some (b, m') \<Longrightarrow> m' = m"
  by (simp add: TICK_DELAY_attributes_def)

lemmas gate_attributes_defs =
  AND_attributes_def OR_attributes_def XOR_attributes_def NAND_attributes_def NOR_attributes_def XNOR_attributes_def
  IMP_attributes_def NIMP_attributes_def NOT_attributes_def YES_attributes_def

lemma VERILOG_attributes_keep:
  "set_attribute_define VERILOG_MODULE_attributes m n vi = Some (b, m') \<Longrightarrow> vm_ports m' = vm_ports m \<and> vm_ok m' = vm_ok m"
  "set_attribute_define VERILOG_PORTS_attributes vp n vi = Some (b, vp') \<Longrightarrow> vp' = vp"
  by (auto simp: VERILOG_MODULE_attributes_def VERILOG_PORTS_attributes_def set_d_def vm_ports_def vm_ok_def split: if_splits variant.splits)

lemma set_attribute_keeps:
  "set_attribute d n vi = Some (b, d') \<Longrightarrow> same_kind d d' \<and> remembered d' = remembered d \<and> pipe_ok d' = pipe_ok d"
  by (cases d)
    (auto simp: gate_attributes_defs rewrap_Some same_kind_def dest: gate_attributes_keep INPUT_attributes_keep TICK_DELAY_attributes_keep VERILOG_attributes_keep)

lemma consistent_set_device:
  assumes con: "engine.consistent c" and d: "dmodels c pos = Some d"
    and keep: "same_kind d d'" "remembered d' = remembered d" "pipe_ok d' = pipe_ok d"
  shows "engine.consistent (c\<lparr>dmodels := (dmodels c)(pos \<mapsto> d')\<rparr>)" (is "engine.consistent ?c")
proof -
  have p: "pins_of ?c = pins_of c" by (simp add: fun_eq_iff pins_of_def)
  have inv: "circuit_inv c" using con by (simp add: engine.consistent_def)
  have k: "\<exists>e0. dmodels c q = Some e0 \<and> same_kind e0 e \<and> remembered e = remembered e0 \<and> pipe_ok e = pipe_ok e0"
    if "dmodels ?c q = Some e" for q e
    using that d keep by (auto simp: same_kind_def split: if_splits)
  have "circuit_ok ?c"
    unfolding circuit_ok_def p
  proof (intro conjI allI impI)
    show "netlist_ok (dnet (store ?c))" "digital_net (store ?c)" using inv by (simp_all add: circuit_inv_def circuit_ok_def)
    fix q e assume "dmodels ?c q = Some e"
    then obtain e0 where e0: "dmodels c q = Some e0" "same_kind e0 e" using k by blast
    show "is_digital (dnet (store ?c)) q" using circuit_invD(2) [OF inv e0(1)] by simp
    show "wired_ok (pins_of c q) e (store ?c)" using circuit_invD(3) [OF inv e0(1)] wired_ok_kind [OF e0(2)] by simp
  next
    fix q1 q2 e1 e2
    assume ne: "q1 \<noteq> q2" and q: "dmodels ?c q1 = Some e1" "dmodels ?c q2 = Some e2"
    obtain f1 f2 where "dmodels c q1 = Some f1" "same_kind f1 e1" "dmodels c q2 = Some f2" "same_kind f2 e2" using k q by blast
    then show "set (out_nodes (pins_of c q1) e1) \<inter> set (out_nodes (pins_of c q2) e2) = {}"
      using circuit_invD(5) [OF inv ne, of f1 f2] by (auto simp: same_kind_def)
  qed
  moreover have "devices_ok ?c"
    unfolding devices_ok_def p using k circuit_invD(4) [OF inv] by (fastforce simp: dev_ok_def same_kind_def)
  moreover have "device_good q ?c = device_good q c" for q
    using d settled_device_kind [OF keep(1)] by (auto simp: device_good_def p)
  moreover have "device_reads q ?c = device_reads q c" for q
    using d keep(1) by (auto simp: device_reads_def p same_kind_def split: option.splits)
  ultimately show ?thesis using con by (simp add: engine.consistent_def engine.served_def circuit_inv_def)
qed

lemma consistent_set_model_attribute:
  "set_model_attribute pos n vi c = Some (b, c') \<Longrightarrow> engine.consistent c \<Longrightarrow> engine.consistent c'"
  by (auto simp: set_model_attribute_def dest!: set_attribute_keeps intro!: consistent_set_device split: option.splits)

subsection \<open>Preparing\<close>

text \<open>Devices as a program can make them: constructed, then configured through their attributes.\<close>

definition new_devices :: "digital_model set" where
  "new_devices =
     {new_AND, new_OR, new_XOR, new_NAND, new_NOR, new_XNOR, new_IMP, new_NIMP, new_NOT, new_YES,
     new_HALF_ADDER, new_HALF_SUB, new_FULL_ADDER, new_FULL_SUB, new_MUL2, new_IS_UNKNOWN, new_CASE_EQ, new_RESOLVE2, new_TRI,
     new_SCHMITT_TRIGGER, new_DFF, new_DFF_ARSTN, new_JKFF, new_TFF, new_T_BAR_FF, new_DLATCH, new_COUNTER4, new_RANDOM_GENERATOR4,
     new_INPUT, new_OUTPUT, new_EIGHT_BIT_INPUT, new_EIGHT_BIT_DISPLAY} \<union> range new_TICK_DELAY \<union> range D_VERILOG_PORTS \<union>
     {D_VERILOG_MODULE (make_verilog_module ms source top_name) | ms source top_name. \<forall>m \<in> set ms. wf_module m}"

inductive configured :: "digital_model \<Rightarrow> bool" where
  constructed: "d \<in> new_devices \<Longrightarrow> configured d"
| attribute: "configured d \<Longrightarrow> set_attribute d n vi = Some (b, d') \<Longrightarrow> configured d'"

definition forgetful :: "digital_model \<Rightarrow> bool" where
  "forgetful d \<longleftrightarrow> pipe_ok d \<and> (remembered d \<noteq> None \<longrightarrow> remembered d = Some (replicate (length (out_pins d)) indeterminate_state))"

lemma new_devices_forgetful: "d \<in> new_devices \<Longrightarrow> forgetful d"
  by (auto simp: new_devices_def new_device_defs forgetful_def new_gate_def new_adder_def numeral_2_eq_2 eval_nat_numeral vm_ok_made)

lemma configured_forgetful: "configured d \<Longrightarrow> forgetful d"
proof (induction rule: configured.induct)
  case (attribute d n vi b d')
  then show ?case using set_attribute_keeps [OF attribute(2)] by (simp add: forgetful_def same_kind_def)
qed (rule new_devices_forgetful)

text \<open>The unknown inputs of a combinational device give unknown outputs.\<close>

lemma comb_unknown:
  "comb d = Some f \<Longrightarrow> f (replicate (length (in_pins d)) indeterminate_state) = replicate (length (out_pins d)) indeterminate_state"
  by (cases d)
    (auto simp: eval_nat_numeral adder_fun_def known_or_x_def any_indeterminate_def z_to_x_def mul2_vals_def Let_def
      AND_fun_def OR_fun_def XOR_fun_def NAND_fun_def NOR_fun_def XNOR_fun_def IMP_fun_def NIMP_fun_def resolve2_def)

lemma prepare_Cons:
  "fst (prepare_block b (n # ns) k) = fst (prepare_node b n k) # fst (prepare_block b ns (snd (prepare_node b n k)))"
  "fst (prepare_blocks b (ns # bs) k) = fst (prepare_block b ns k) # fst (prepare_blocks b bs (snd (prepare_block b ns k)))"
  by (simp_all split: prod.split)

lemma prepare_block_nth:
  "length (fst (prepare_block b ns k)) = length ns \<and> (i < length ns \<longrightarrow> (\<exists>k'. fst (prepare_block b ns k) ! i = fst (prepare_node b (ns ! i) k')))"
proof (induction ns arbitrary: i k)
  case (Cons n ns)
  then show ?case unfolding prepare_Cons by (cases i) auto
qed simp

lemma prepare_blocks_nth:
  "length (fst (prepare_blocks b bs k)) = length bs \<and> (v < length bs \<longrightarrow> (\<exists>k'. fst (prepare_blocks b bs k) ! v = fst (prepare_block b (bs ! v) k')))"
proof (induction bs arbitrary: v k)
  case (Cons n bs)
  then show ?case unfolding prepare_Cons by (cases v) auto
qed simp

lemma strip_prepare_node [simp]: "strip (fst (prepare_node b n k)) = strip n"
  by (simp add: prepare_node_def strip_def)

text \<open>A node after \<^verbatim>\<open>prepare\<close>.\<close>

lemma node_at_prepare:
  "node_at (dnet (store (prepare c))) (Node v i) =
     None \<and> node_at (dnet (store c)) (Node v i) = None \<or>
   (\<exists>n k. node_at (dnet (store c)) (Node v i) = Some n \<and>
     node_at (dnet (store (prepare c))) (Node v i) = Some (fst (prepare_node (has_prepare c) n k)))"
proof (cases "v < length (nl_nodes (dnet (store c))) \<and> i < length (nl_nodes (dnet (store c)) ! v)")
  case True
  let ?bs = "fst (prepare_blocks (has_prepare c) (nl_nodes (dnet (store c))) 0)"
  obtain k where k: "?bs ! v = fst (prepare_block (has_prepare c) (nl_nodes (dnet (store c)) ! v) k)"
    using prepare_blocks_nth True by blast
  obtain k' where "?bs ! v ! i = fst (prepare_node (has_prepare c) (nl_nodes (dnet (store c)) ! v ! i) k')"
    unfolding k using prepare_block_nth True by blast
  then show ?thesis using True prepare_blocks_nth prepare_block_nth by (auto simp: prepare_def Let_def k)
next
  case False
  then have "\<not> (v < length (nl_nodes (dnet (store c))) \<and>
      i < length (fst (prepare_blocks (has_prepare c) (nl_nodes (dnet (store c))) 0) ! v))"
    using prepare_blocks_nth [of "has_prepare c" "nl_nodes (dnet (store c))" 0 v] prepare_block_nth by auto
  then show ?thesis using False prepare_blocks_nth by (simp add: prepare_def Let_def)
qed

lemma same_net_prepare: "same_net (store c) (store (prepare c))"
  unfolding same_net_def
proof (intro conjI allI)
  show "models (dnet (store (prepare c))) = models (dnet (store c))" by (simp add: prepare_def Let_def)
  show "map_option strip (node_at (dnet (store (prepare c))) r) = map_option strip (node_at (dnet (store c)) r)" for r
  proof (cases r)
    case Ground
    then show ?thesis by (simp add: prepare_def Let_def strip_def)
  next
    case (Node v i)
    show ?thesis unfolding Node using node_at_prepare [of c v i] by (elim disjE exE conjE) (simp_all del: node_at.simps)
  qed
qed

lemma state_after_prepare:
  assumes "r \<noteq> Ground" "node_at (dnet (store c)) r = Some n" "pins n \<noteq> {}" "num_of_analog_node n = 0" "\<not> has_prepare c"
  shows "state_of (store (prepare c)) r = indeterminate_state"
proof -
  obtain v i where r: "r = Node v i" using assms(1) by (cases r) auto
  obtain k where "node_at (dnet (store (prepare c))) r = Some (fst (prepare_node False n k))"
    using node_at_prepare [of c v i] assms(2,5) unfolding r by (metis option.distinct(1) option.inject)
  then show ?thesis using assms by (simp add: state_of_def deref_def prepare_node_def)
qed

lemma prepare_tr_keeps: "same_kind d (prepare_tr d) \<and> remembered (prepare_tr d) = remembered d \<and> pipe_ok (prepare_tr d) = pipe_ok d"
  by (cases d) (simp_all add: same_kind_def gate_prepare_tr_def gate1_prepare_tr_def)

lemma dmodels_prepare: "\<not> has_prepare c \<Longrightarrow> dmodels (prepare c) = (\<lambda>pos. map_option prepare_tr (dmodels c pos))"
  by (simp add: prepare_def Let_def)

lemma tables_prepare: "tables (store (prepare c)) = {}"
  by (simp add: prepare_def Let_def)

lemma pins_of_prepare: "pins_of (prepare c) = pins_of c"
  using same_net_models(1) [OF same_net_prepare] by (simp add: fun_eq_iff pins_of_def)

text \<open>A circuit as it is before the first analysis: configured devices, none of them on the ground node.\<close>

definition fresh_circuit :: "digital_circuit \<Rightarrow> bool" where
  "fresh_circuit c \<longleftrightarrow> circuit_ok c \<and> \<not> has_prepare c \<and>
     (\<forall>pos d. dmodels c pos = Some d \<longrightarrow> configured d \<and> Some Ground \<notin> set (pins_of c pos))"

lemma unknown_after_prepare:
  assumes "fresh_circuit c" "dmodels c pos = Some d" "r \<in> set (nodes_at (pins_of c pos) is)"
  shows "state_of (store (prepare c)) r = indeterminate_state"
proof -
  have c: "circuit_ok c" "\<not> has_prepare c" using assms(1) by (simp_all add: fresh_circuit_def)
  have p: "Some r \<in> set (pins_of c pos)" by (rule nodes_at_pins [OF assms(3)])
  then have r: "r \<noteq> Ground" using assms(1,2) by (auto simp: fresh_circuit_def)
  have d: "digital_net (store c)" using c(1) by (simp add: circuit_ok_def)
  obtain i where "i < length (pins_of c pos)" "pins_of c pos ! i = Some r" using p by (auto simp: in_set_conv_nth)
  then have "pin_at (dnet (store c)) (pos, i) = Some r" by (auto simp: pins_of_def pin_at_def split: option.splits)
  moreover have "graph_ok (node_at (dnet (store c))) (pin_at (dnet (store c))) (is_digital (dnet (store c)))"
    using c(1) by (simp add: circuit_ok_def netlist_ok_def)
  ultimately obtain n where n: "node_at (dnet (store c)) r = Some n" "pins n \<noteq> {}"
    unfolding graph_ok_def links_ok_def by blast
  moreover have "num_of_analog_node n = 0" using d n(1) by (simp add: digital_net_def)
  ultimately show ?thesis using state_after_prepare [OF r] c(2) by blast
qed

lemma map_unknown: "\<forall>r \<in> set rs. f r = v \<Longrightarrow> map f rs = replicate (length rs) v"
  by (induction rs) auto

lemma connected_nodes_at:
  assumes "None \<notin> set ps" "\<forall>i \<in> set is. i < length ps"
  shows "length (nodes_at ps is) = length is"
  using assms by (induction "is") (auto split: option.splits, metis nth_mem option.exhaust)

lemma pins_in_range: "i \<in> set (in_pins d) \<union> set (out_pins d) \<Longrightarrow> i < arity d"
  by (cases d) auto

lemma consistent_prepare:
  assumes fresh: "fresh_circuit c"
  shows "engine.consistent (prepare c)"
proof -
  have c: "circuit_ok c" "\<not> has_prepare c" using fresh by (simp_all add: fresh_circuit_def)
  note n = same_net_models [OF same_net_prepare, of c]
  have dev: "\<exists>d0. dmodels c pos = Some d0 \<and> same_kind d0 d \<and> forgetful d" if "dmodels (prepare c) pos = Some d" for pos d
  proof -
    obtain d0 where d0: "dmodels c pos = Some d0" "d = prepare_tr d0" using \<open>dmodels (prepare c) pos = Some d\<close> c(2) by (auto simp: dmodels_prepare)
    have "forgetful d0" using fresh d0(1) configured_forgetful by (auto simp: fresh_circuit_def)
    then show ?thesis using d0 prepare_tr_keeps [of d0] by (auto simp: forgetful_def same_kind_def)
  qed
  have ok: "circuit_ok (prepare c)"
    unfolding circuit_ok_def pins_of_prepare
  proof (intro conjI allI impI)
    show "netlist_ok (dnet (store (prepare c)))" "digital_net (store (prepare c))"
      using same_net_ok [OF same_net_prepare] same_net_digital [OF same_net_prepare] c(1) by (simp_all add: circuit_ok_def)
    fix pos d assume "dmodels (prepare c) pos = Some d"
    then obtain d0 where d0: "dmodels c pos = Some d0" "same_kind d0 d" using dev by blast
    then show "is_digital (dnet (store (prepare c))) pos" "wired_ok (pins_of c pos) d (store (prepare c))"
      using c(1) n wired_ok_same [OF same_net_prepare] wired_ok_kind [OF d0(2)] by (simp_all add: circuit_ok_def)
  next
    fix p q d e assume "p \<noteq> q" "dmodels (prepare c) p = Some d" "dmodels (prepare c) q = Some e"
    moreover then obtain d0 e0 where "dmodels c p = Some d0" "same_kind d0 d" "dmodels c q = Some e0" "same_kind e0 e" using dev by metis
    ultimately show "set (out_nodes (pins_of c p) d) \<inter> set (out_nodes (pins_of c q) e) = {}"
      using c(1) unfolding circuit_ok_def same_kind_def by metis
  qed
  have x: "map (state_of (store (prepare c))) (nodes_at (pins_of c pos) is) = replicate (length (nodes_at (pins_of c pos) is)) indeterminate_state"
    if "dmodels (prepare c) pos = Some d" for pos d "is"
    using dev [OF that] unknown_after_prepare [OF fresh] by (blast intro: map_unknown)
  have "devices_ok (prepare c)"
    using dev x unfolding devices_ok_def pins_of_prepare dev_ok_def forgetful_def by metis
  moreover have "device_good pos (prepare c)" for pos
    unfolding device_good_def settled_device_def pins_of_prepare
  proof (intro allI impI)
    fix d assume d: "dmodels (prepare c) pos = Some d"
    have l: "length (pins_of c pos) = arity d" using ok d by (auto simp: circuit_ok_def wired_ok_def pins_of_prepare)
    then have len: "length (out_nodes (pins_of c pos) d) = length (out_pins d)" "length (nodes_at (pins_of c pos) (in_pins d)) = length (in_pins d)"
      if "None \<notin> set (pins_of c pos)" using that connected_nodes_at [OF that] pins_in_range [of _ d] by simp_all
    show "case comb d of None \<Rightarrow> True
      | Some f \<Rightarrow> None \<notin> set (pins_of c pos) \<longrightarrow>
          map (state_of (store (prepare c))) (out_nodes (pins_of c pos) d) =
          f (map (state_of (store (prepare c))) (nodes_at (pins_of c pos) (in_pins d)))"
      using comb_unknown [of d] len by (simp add: x [OF d] split: option.split)
  qed
  ultimately show ?thesis using ok by (simp add: engine.consistent_def engine.served_def circuit_inv_def)
qed

subsection \<open>Simulation\<close>

text \<open>What a program does with a prepared circuit: tick it and set attributes.\<close>

inductive sim_step :: "f64_ops \<Rightarrow> (node_ref set \<Rightarrow> node_ref) \<Rightarrow> (pin_ref set \<Rightarrow> pin_ref list) \<Rightarrow> digital_circuit \<Rightarrow> digital_circuit \<Rightarrow> bool"
  for ops pick ord where
  tick: "sim_step ops pick ord c (digital_clk ops pick ord c)"
| attribute: "set_model_attribute pos n vi c = Some (b, c') \<Longrightarrow> sim_step ops pick ord c c'"

lemma consistent_sim:
  assumes "(sim_step ops pick ord)\<^sup>*\<^sup>* (prepare c) c'" "fresh_circuit c" "enumerates ord"
  shows "engine.consistent c'"
  using assms(1)
proof (induction rule: rtranclp_induct)
  case base
  show ?case by (rule consistent_prepare [OF assms(2)])
next
  case (step c1 c2)
  from step(2) show ?case
    by cases (auto intro: consistent_digital_clk [OF step(3) assms(3)] consistent_set_model_attribute step(3))
qed

end
