(* ===== verification/Digital_Live.thy ===== *)
theory Digital_Live
  imports Digital_Sim
begin

text \<open>
  When the queue runs empty. Evaluating a device that fits its inputs schedules nothing; so in a
  circuit of combinational devices without feedback the work left is bounded by a cost that every
  dequeued node lowers, and a budget as large as the cost empties the queue.
\<close>

subsection \<open>Quiet devices\<close>

text \<open>The devices without memory: gates, adders, inputs, outputs, and the delay line between ticks.\<close>

fun feedforward :: "digital_model \<Rightarrow> bool" where
  "feedforward (D_INPUT _) \<longleftrightarrow> True"
| "feedforward (D_OUTPUT _) \<longleftrightarrow> True"
| "feedforward (D_EIGHT_BIT_INPUT _) \<longleftrightarrow> True"
| "feedforward (D_EIGHT_BIT_DISPLAY _) \<longleftrightarrow> True"
| "feedforward (D_TICK_DELAY _) \<longleftrightarrow> True"
| "feedforward d \<longleftrightarrow> comb d \<noteq> None"

fun quiet_device :: "node_ref option list \<Rightarrow> digital_model \<Rightarrow> node_store \<Rightarrow> bool" where
  "quiet_device ps (D_INPUT i) s \<longleftrightarrow> None \<in> set ps \<or> i_last i = outputA i"
| "quiet_device ps (D_EIGHT_BIT_INPUT b) s \<longleftrightarrow> b_last b = b_value b"
| "quiet_device ps d s \<longleftrightarrow> settled_device ps d s s"

definition same_view :: "node_store \<Rightarrow> node_store \<Rightarrow> bool" where
  "same_view s s' \<longleftrightarrow> tables s' = tables s \<and> state_of s' = state_of s"

lemma same_view_refl [simp]: "same_view s s"
  by (simp add: same_view_def)

lemma same_view_put: "state_of s r = v \<Longrightarrow> same_view s (put_state r v s)"
  by (auto simp: same_view_def fun_eq_iff state_of_put)

lemma gate2_quiet:
  assumes K: "gate2_kind K f" and w: "wired_ok ps (K g) s" and ok: "dev_ok ps (K g) s" and q: "settled_device ps (K g) s s"
    and run: "wrap K (gate2_clk f ops tr ps g s) = (d', s', dr)"
  shows "same_view s s'"
proof -
  have k: "in_pins (K g) = [0, 1]" "out_pins (K g) = [2]" "remembered (K g) = Some [last_outputA g]"
    "comb (K g) = Some (\<lambda>vs. [f (vs ! 0) (vs ! 1)])" using K by (simp_all add: gate2_kind_def)
  obtain a b c where ps: "ps = [a, b, c]" using pins3 [OF w] by (auto simp: k)
  show ?thesis
  proof (cases "None \<in> set ps")
    case True
    then show ?thesis using run by (auto simp: gate2_clk_def ps wrap_def split: option.splits)
  next
    case False
    then obtain x y r where ps': "ps = [Some x, Some y, Some r]" using ps connected [of ps] by auto
    have "last_outputA g = f (state_of s x) (state_of s y)" "state_of s r = f (state_of s x) (state_of s y)" using ok q by (simp_all add: dev_ok_def settled_device_def k ps')
    then show ?thesis using run not_analog [OF wired_okD(2) [OF w]]
      by (auto simp: gate2_clk_def ps' wrap_def gate_out_def same_view_put read_digital [OF wired_okD(2) [OF w]] Let_def)
  qed
qed

lemma gate1_quiet:
  assumes K: "gate1_kind K f" and w: "wired_ok ps (K g) s" and ok: "dev_ok ps (K g) s" and q: "settled_device ps (K g) s s"
    and run: "wrap K (gate1_clk f ops tr ps g s) = (d', s', dr)"
  shows "same_view s s'"
proof -
  have k: "in_pins (K g) = [0]" "out_pins (K g) = [1]" "remembered (K g) = Some [last_outputA g]"
    "comb (K g) = Some (\<lambda>vs. [f (vs ! 0)])" using K by (simp_all add: gate1_kind_def)
  obtain a b where ps: "ps = [a, b]" using pins2 [OF w] by (auto simp: k)
  show ?thesis
  proof (cases "None \<in> set ps")
    case True
    then show ?thesis using run by (auto simp: gate1_clk_def ps wrap_def split: option.splits)
  next
    case False
    then obtain x r where ps': "ps = [Some x, Some r]" using ps connected [of ps] by auto
    have "last_outputA g = f (state_of s x)" "state_of s r = f (state_of s x)" using ok q by (simp_all add: dev_ok_def settled_device_def k ps')
    then show ?thesis using run not_analog [OF wired_okD(2) [OF w]]
      by (auto simp: gate1_clk_def ps' wrap_def gate_out_def same_view_put read_digital [OF wired_okD(2) [OF w]] Let_def)
  qed
qed

lemmas gate_quiets =
  gate2_quiet [OF gate_kinds(1)] gate2_quiet [OF gate_kinds(2)] gate2_quiet [OF gate_kinds(3)] gate2_quiet [OF gate_kinds(4)]
  gate2_quiet [OF gate_kinds(5)] gate2_quiet [OF gate_kinds(6)] gate2_quiet [OF gate_kinds(7)] gate2_quiet [OF gate_kinds(8)]
  gate1_quiet [OF gate_kinds(9)] gate1_quiet [OF gate_kinds(10)]

lemma write_last_same: "write_last r v v s = (v, s)"
  by (simp add: write_last_def)

lemma two_out_quiet: "last_outs a = [v, w] \<Longrightarrow> fst (snd (two_out a v w r1 r2 s)) = s"
  by (simp add: two_out_def write_last_same)

lemma mul2_outs_quiet: "length vs = length rs \<Longrightarrow> fst (snd (mul2_outs lv (zip vs rs) vs s)) = s"
  by (induction vs rs rule: list_induct2) (auto simp: write_last_same split: prod.splits)

text \<open>The remembered outputs of a connected, settled device are the values of its function.\<close>

lemma settled_remembered:
  assumes "dev_ok ps d s" "settled_device ps d s s" "comb d \<noteq> None" "remembered d = Some l" "wired_ok ps d s" "None \<notin> set ps"
  shows "l = the (comb d) (map (state_of s) (nodes_at ps (in_pins d)))"
proof -
  have "length (out_nodes ps d) = length (out_pins d)"
    using connected_nodes_at [OF assms(6)] pins_in_range [of _ d] wired_okD(1) [OF assms(5)] by simp
  then show ?thesis using assms by (auto simp: dev_ok_def settled_device_def)
qed

lemma HALF_ADDER_quiet:
  assumes w: "wired_ok ps (D_HALF_ADDER a) s" and ok: "dev_ok ps (D_HALF_ADDER a) s" "settled_device ps (D_HALF_ADDER a) s s"
  shows "fst (snd (HALF_ADDER_clk ops ps a s)) = s"
proof (cases "None \<in> set ps")
  case True
  obtain a1 a2 a3 a4 where "ps = [a1, a2, a3, a4]" using pins4 [OF w] by auto
  then show ?thesis using True by (auto simp: HALF_ADDER_clk_def split: option.splits)
next
  case False
  obtain a1 a2 a3 a4 where ps: "ps = [Some a1, Some a2, Some a3, Some a4]"
    using pins4 [OF w] connected [OF False] by auto
  have "last_outs a = the (comb (D_HALF_ADDER a)) (map (state_of s) (nodes_at ps (in_pins (D_HALF_ADDER a))))"
    by (rule settled_remembered [OF ok _ _ w False]) simp_all
  then show ?thesis
    by (simp add: HALF_ADDER_clk_def ps read_digital [OF wired_okD(2) [OF w]] adder_fun_def Let_def two_out_quiet)
qed

lemma HALF_SUB_quiet:
  assumes w: "wired_ok ps (D_HALF_SUB a) s" and ok: "dev_ok ps (D_HALF_SUB a) s" "settled_device ps (D_HALF_SUB a) s s"
  shows "fst (snd (HALF_SUB_clk ops ps a s)) = s"
proof (cases "None \<in> set ps")
  case True
  obtain a1 a2 a3 a4 where "ps = [a1, a2, a3, a4]" using pins4 [OF w] by auto
  then show ?thesis using True by (auto simp: HALF_SUB_clk_def split: option.splits)
next
  case False
  obtain a1 a2 a3 a4 where ps: "ps = [Some a1, Some a2, Some a3, Some a4]"
    using pins4 [OF w] connected [OF False] by auto
  have "last_outs a = the (comb (D_HALF_SUB a)) (map (state_of s) (nodes_at ps (in_pins (D_HALF_SUB a))))"
    by (rule settled_remembered [OF ok _ _ w False]) simp_all
  then show ?thesis
    by (simp add: HALF_SUB_clk_def ps read_digital [OF wired_okD(2) [OF w]] adder_fun_def Let_def two_out_quiet)
qed

lemma FULL_ADDER_quiet:
  assumes w: "wired_ok ps (D_FULL_ADDER a) s" and ok: "dev_ok ps (D_FULL_ADDER a) s" "settled_device ps (D_FULL_ADDER a) s s"
  shows "fst (snd (FULL_ADDER_clk ops ps a s)) = s"
proof (cases "None \<in> set ps")
  case True
  obtain a1 a2 a3 a4 a5 where "ps = [a1, a2, a3, a4, a5]" using pins5 [OF w] by auto
  then show ?thesis using True by (auto simp: FULL_ADDER_clk_def split: option.splits)
next
  case False
  obtain a1 a2 a3 a4 a5 where ps: "ps = [Some a1, Some a2, Some a3, Some a4, Some a5]"
    using pins5 [OF w] connected [OF False] by auto
  have "last_outs a = the (comb (D_FULL_ADDER a)) (map (state_of s) (nodes_at ps (in_pins (D_FULL_ADDER a))))"
    by (rule settled_remembered [OF ok _ _ w False]) simp_all
  then show ?thesis
    by (simp add: FULL_ADDER_clk_def ps read_digital [OF wired_okD(2) [OF w]] adder_fun_def Let_def two_out_quiet)
qed

lemma FULL_SUB_quiet:
  assumes w: "wired_ok ps (D_FULL_SUB a) s" and ok: "dev_ok ps (D_FULL_SUB a) s" "settled_device ps (D_FULL_SUB a) s s"
  shows "fst (snd (FULL_SUB_clk ops ps a s)) = s"
proof (cases "None \<in> set ps")
  case True
  obtain a1 a2 a3 a4 a5 where "ps = [a1, a2, a3, a4, a5]" using pins5 [OF w] by auto
  then show ?thesis using True by (auto simp: FULL_SUB_clk_def split: option.splits)
next
  case False
  obtain a1 a2 a3 a4 a5 where ps: "ps = [Some a1, Some a2, Some a3, Some a4, Some a5]"
    using pins5 [OF w] connected [OF False] by auto
  have "last_outs a = the (comb (D_FULL_SUB a)) (map (state_of s) (nodes_at ps (in_pins (D_FULL_SUB a))))"
    by (rule settled_remembered [OF ok _ _ w False]) simp_all
  then show ?thesis
    by (simp add: FULL_SUB_clk_def ps read_digital [OF wired_okD(2) [OF w]] adder_fun_def Let_def two_out_quiet)
qed

lemma MUL2_quiet:
  assumes w: "wired_ok ps (D_MUL2 a) s" and ok: "dev_ok ps (D_MUL2 a) s" "settled_device ps (D_MUL2 a) s s"
  shows "fst (snd (MUL2_clk ops ps a s)) = s"
proof (cases "None \<in> set ps")
  case True
  obtain a1 a2 a3 a4 a5 a6 a7 a8 where "ps = [a1, a2, a3, a4, a5, a6, a7, a8]" using pins8 [OF w] by auto
  then show ?thesis using True by (auto simp: MUL2_clk_def split: option.splits)
next
  case False
  obtain a1 a2 a3 a4 a5 a6 a7 a8 where ps: "ps = [Some a1, Some a2, Some a3, Some a4, Some a5, Some a6, Some a7, Some a8]"
    using pins8 [OF w] connected [OF False] by auto
  let ?vs = "mul2_vals (z_to_x (state_of s a1)) (z_to_x (state_of s a2)) (z_to_x (state_of s a3)) (z_to_x (state_of s a4))"
  have "last_outs a = the (comb (D_MUL2 a)) (map (state_of s) (nodes_at ps (in_pins (D_MUL2 a))))"
    by (rule settled_remembered [OF ok _ _ w False]) simp_all
  then have "last_outs a = ?vs" by (simp add: ps)
  moreover have "fst (snd (mul2_outs (a_levels a) (zip ?vs [a5, a6, a7, a8]) ?vs s)) = s"
    by (rule mul2_outs_quiet) (simp add: length_mul2_vals)
  ultimately show ?thesis
    unfolding MUL2_clk_def ps by (simp only: list.case option.case Let_def read_digital [OF wired_okD(2) [OF w]]) (auto split: prod.splits)
qed

lemma RESOLVE2_quiet:
  assumes w: "wired_ok ps (D_RESOLVE2 lv) s" and ok: "settled_device ps (D_RESOLVE2 lv) s s"
  shows "fst (RESOLVE2_clk ops ps lv s) = s"
proof -
  obtain a b c where ps: "ps = [a, b, c]" using pins3 [OF w] by auto
  show ?thesis
    using ok not_analog [OF wired_okD(2) [OF w]] read_digital [OF wired_okD(2) [OF w]]
    by (auto simp: RESOLVE2_clk_def ps settled_device_def write_changed_def Let_def split: option.splits)
qed

lemma bus_out_off: "fst (bus_out False lv out i ps s d) = s"
  by (induction False lv out i ps s d rule: bus_out.induct) (auto split: option.splits)

lemma INPUT_quiet:
  assumes w: "wired_ok ps (D_INPUT i) s" and ok: "dev_ok ps (D_INPUT i) s" and q: "quiet_device ps (D_INPUT i) s"
  shows "same_view s (fst (snd (INPUT_clk ps i s)))"
proof -
  obtain p where ps: "ps = [p]" using wired_okD(1) [OF w] by (auto simp: length_Suc_conv)
  show ?thesis
    using ok q not_analog [OF wired_okD(2) [OF w]]
    by (auto simp: INPUT_clk_def gate_out_def dev_ok_def ps intro!: same_view_put split: option.splits)
qed

lemma wrap_store: "wrap K x = (d', s', dr) \<Longrightarrow> s' = fst (snd x)"
  by (auto simp: wrap_def split: prod.splits)

text \<open>Evaluating a quiet device changes nothing that another device sees.\<close>

theorem quiet_view:
  assumes "wired_ok ps d s" "dev_ok ps d s" "feedforward d" "quiet_device ps d s"
    "update_digital_clk ops tr update_table ps d s = (d', s', dr)"
  shows "same_view s s'"
proof (cases "\<exists>i. d = D_INPUT i")
  case True
  then show ?thesis using assms INPUT_quiet by (auto dest!: wrap_store)
next
  case False
  then show ?thesis
    using assms
    by (cases d)
      (auto simp: gate_clk_defs gate_quiets HALF_ADDER_quiet HALF_SUB_quiet FULL_ADDER_quiet FULL_SUB_quiet MUL2_quiet RESOLVE2_quiet
        EIGHT_BIT_INPUT_clk_def EIGHT_BIT_DISPLAY_clk_def OUTPUT_clk_def TICK_DELAY_clk_def bus_out_off
        dest!: wrap_store split: prod.splits list.splits option.splits)
qed

text \<open>A device that does not read its own outputs is quiet after its evaluation.\<close>

lemma quiet_comb: "comb d \<noteq> None \<Longrightarrow> quiet_device ps d s = settled_device ps d s s" "comb d \<noteq> None \<Longrightarrow> feedforward d"
  by (cases d; simp)+

lemma io_after:
  assumes "length ps = arity d" "feedforward d" "comb d = None" "update_digital_clk ops tr meth ps d s = (d', s', dr)"
  shows "feedforward d' \<and> quiet_device ps d' s'"
proof (cases "\<exists>i. d = D_INPUT i")
  case True
  then obtain i p where "d = D_INPUT i" "ps = [p]" using assms(1) by (auto simp: length_Suc_conv)
  then show ?thesis using assms(4) by (auto simp: wrap_def INPUT_clk_def split: option.splits prod.splits)
next
  case False
  then show ?thesis
    using assms(2,3,4)
    by (cases d) (auto simp: wrap_def EIGHT_BIT_INPUT_clk_def settled_device_def split: prod.splits)
qed

lemma quiet_after:
  assumes "wired_ok ps d s" "dev_ok ps d s" "feedforward d" "update_digital_clk ops tr meth ps d s = (d', s', dr)"
  shows "feedforward d' \<and> ((\<forall>r \<in> set (nodes_at ps (in_pins d)). state_of s' r = state_of s r) \<longrightarrow> quiet_device ps d' s')"
proof (cases "comb d = None")
  case True
  then show ?thesis using io_after [OF wired_okD(1) [OF assms(1)] assms(3) _ assms(4)] by blast
next
  case False
  have r: "settled_device ps d s s'" "same_kind d d'" using update_digital_clk_ran [OF assms(1,2,4)] by (simp_all add: ran_def)
  have c: "comb d' \<noteq> None" using False r(2) by (simp add: same_kind_def)
  have "settled_device ps d' s' s'" if "\<forall>r \<in> set (nodes_at ps (in_pins d)). state_of s' r = state_of s r"
    using settled_device_same [of ps d s' s' s' s] that r(1) settled_device_kind [OF r(2)] by simp
  then show ?thesis using quiet_comb [OF c] by blast
qed

lemma quiet_device_same:
  assumes "\<forall>r \<in> set (out_nodes ps d). state_of s' r = state_of s r" "\<forall>r \<in> set (nodes_at ps (in_pins d)). state_of s' r = state_of s r"
  shows "quiet_device ps d s' = quiet_device ps d s"
  using settled_device_same [OF assms] by (cases d) simp_all

subsection \<open>The cost of settling\<close>

text \<open>
  The contract of an evaluation for this: a quiet device schedules nothing and disturbs nobody, and
  any device disturbs only the readers of its outputs. The cost \<open>v p\<close> of a device pays for its
  outputs on the queue and for every device that reads one of them.
\<close>

locale costed_loop =
  fixes step :: "'p \<Rightarrow> 'c \<Rightarrow> 'c" and forget :: "'n \<Rightarrow> 'c \<Rightarrow> 'c" and pend :: "'c \<Rightarrow> 'n set"
    and inv :: "'c \<Rightarrow> bool" and quiet :: "'p \<Rightarrow> 'c \<Rightarrow> bool" and reads :: "'p \<Rightarrow> 'c \<Rightarrow> 'n set"
    and outs :: "'p \<Rightarrow> 'c \<Rightarrow> 'n set" and devices :: "'c \<Rightarrow> 'p set"
  assumes inv_step: "inv c \<Longrightarrow> inv (step p c)"
    and shape_step: "inv c \<Longrightarrow> reads q (step p c) = reads q c \<and> outs q (step p c) = outs q c \<and> devices (step p c) = devices c"
    and quiet_step: "inv c \<Longrightarrow> quiet p c \<Longrightarrow> pend (step p c) = pend c \<and> (quiet q c \<longrightarrow> quiet q (step p c))"
    and pend_step: "inv c \<Longrightarrow> pend (step p c) \<subseteq> pend c \<union> outs p c"
    and disturb_step: "inv c \<Longrightarrow> q = p \<or> quiet q c \<Longrightarrow> quiet q (step p c) \<or> reads q c \<inter> outs p c \<noteq> {}"
    and finite_parts: "inv c \<Longrightarrow> finite (devices c) \<and> finite (pend c) \<and> finite (outs p c)"
    and quiet_outside: "p \<notin> devices c \<Longrightarrow> quiet p c"
    and forget_views: "inv c \<Longrightarrow> inv (forget r c)" "pend (forget r c) = pend c - {r}" "quiet p (forget r c) = quiet p c"
      "reads p (forget r c) = reads p c" "outs p (forget r c) = outs p c" "devices (forget r c) = devices c"
begin

definition busy :: "'c \<Rightarrow> 'p set" where
  "busy c = {p \<in> devices c. \<not> quiet p c}"

definition readers :: "'p \<Rightarrow> 'c \<Rightarrow> 'p set" where
  "readers p c = {q \<in> devices c. reads q c \<inter> outs p c \<noteq> {}}"

definition covers :: "('p \<Rightarrow> nat) \<Rightarrow> 'c \<Rightarrow> bool" where
  "covers v c \<longleftrightarrow> (\<forall>p \<in> devices c. card (outs p c) + (\<Sum>q \<in> readers p c. v q) \<le> v p)"

definition work :: "('p \<Rightarrow> nat) \<Rightarrow> 'c \<Rightarrow> nat" where
  "work v c = card (pend c) + (\<Sum>p \<in> busy c. v p)"

lemma covers_step: "inv c \<Longrightarrow> covers v (step p c) = covers v c"
  by (simp add: covers_def readers_def shape_step)

lemma work_step:
  assumes inv: "inv c" and cov: "covers v c"
  shows "work v (step p c) \<le> work v c"
proof (cases "quiet p c")
  case True
  have "busy (step p c) \<subseteq> busy c" using quiet_step [OF inv True] shape_step [OF inv] by (auto simp: busy_def)
  then have "(\<Sum>q \<in> busy (step p c). v q) \<le> (\<Sum>q \<in> busy c. v q)"
    using finite_parts [OF inv] by (intro sum_mono2) (auto simp: busy_def)
  then show ?thesis using quiet_step [OF inv True] by (simp add: work_def)
next
  case False
  then have p: "p \<in> devices c" using quiet_outside by blast
  have fin: "finite (busy c - {p})" "finite (readers p c)" "finite (pend c \<union> outs p c)"
    using finite_parts [OF inv] by (auto simp: busy_def readers_def)
  have "busy (step p c) \<subseteq> (busy c - {p}) \<union> readers p c"
    using disturb_step [OF inv] shape_step [OF inv] by (auto simp: busy_def readers_def)
  then have "(\<Sum>q \<in> busy (step p c). v q) \<le> (\<Sum>q \<in> (busy c - {p}) \<union> readers p c. v q)" using fin by (intro sum_mono2) auto
  also have "\<dots> \<le> (\<Sum>q \<in> busy c - {p}. v q) + (\<Sum>q \<in> readers p c. v q)" using sum_Un_nat [OF fin(1,2)] by simp
  finally have s: "(\<Sum>q \<in> busy (step p c). v q) \<le> (\<Sum>q \<in> busy c - {p}. v q) + (\<Sum>q \<in> readers p c. v q)" .
  have "card (pend (step p c)) \<le> card (pend c) + card (outs p c)"
    using card_mono [OF fin(3) pend_step [OF inv]] card_Un_le [of "pend c" "outs p c"] by linarith
  moreover have "(\<Sum>q \<in> busy c. v q) = v p + (\<Sum>q \<in> busy c - {p}. v q)"
    using sum.remove [of "busy c" p v] p False finite_parts [OF inv] by (simp add: busy_def)
  moreover have "card (outs p c) + (\<Sum>q \<in> readers p c. v q) \<le> v p" using cov p by (simp add: covers_def)
  ultimately show ?thesis using s by (simp add: work_def)
qed

lemma work_steps: "inv c \<Longrightarrow> covers v c \<Longrightarrow> inv (fold step ps c) \<and> covers v (fold step ps c) \<and> work v (fold step ps c) \<le> work v c"
proof (induction ps arbitrary: c)
  case (Cons p ps)
  have "inv (step p c)" "covers v (step p c)" using Cons.prems inv_step covers_step by blast+
  then show ?case using Cons.IH [of "step p c"] work_step [OF Cons.prems, of p] by simp
qed simp

lemma work_process:
  assumes inv: "inv c" and cov: "covers v c" and r: "r \<in> pend c"
  shows "inv (fold step ps (forget r c)) \<and> covers v (fold step ps (forget r c)) \<and> work v (fold step ps (forget r c)) < work v c"
proof -
  have "covers v (forget r c)" using cov by (simp add: covers_def readers_def forget_views)
  then have "work v (fold step ps (forget r c)) \<le> work v (forget r c) \<and> inv (fold step ps (forget r c)) \<and> covers v (fold step ps (forget r c))"
    using work_steps [OF forget_views(1) [OF inv]] by blast
  moreover have "card (pend c - {r}) < card (pend c)" using r finite_parts [OF inv] by (intro card_Diff1_less) auto
  then have "work v (forget r c) < work v c" by (simp add: work_def busy_def forget_views)
  ultimately show ?thesis by simp
qed

end

subsection \<open>Combinational circuits\<close>

definition device_outs :: "model_pos \<Rightarrow> digital_circuit \<Rightarrow> node_ref set" where
  "device_outs p c = (case dmodels c p of None \<Rightarrow> {} | Some d \<Rightarrow> set (out_nodes (pins_of c p) d))"

definition device_quiet :: "model_pos \<Rightarrow> digital_circuit \<Rightarrow> bool" where
  "device_quiet p c \<longleftrightarrow> (\<forall>d. dmodels c p = Some d \<longrightarrow> quiet_device (pins_of c p) d (store c))"

definition combinational :: "digital_circuit \<Rightarrow> bool" where
  "combinational c \<longleftrightarrow> circuit_inv c \<and> finite (dom (dmodels c)) \<and> finite (tables (store c)) \<and> (\<forall>p d. dmodels c p = Some d \<longrightarrow> feedforward d)"

lemma combinationalD:
  assumes "combinational c"
  shows "circuit_inv c" "finite (dom (dmodels c))" "finite (tables (store c))" "dmodels c p = Some d \<Longrightarrow> feedforward d"
  using assms unfolding combinational_def by blast+

text \<open>What one evaluation of a device does in a combinational circuit.\<close>

lemma combinational_run:
  assumes com: "combinational c" and d: "dmodels c p = Some d"
  obtains d' where "dmodels (run_model ops update_table p c) = (dmodels c)(p \<mapsto> d')" "pins_of (run_model ops update_table p c) = pins_of c"
    "same_kind d d'" "feedforward d'" "writes (device_outs p c) (store c) (store (run_model ops update_table p c))"
    "device_quiet p c \<longrightarrow> same_view (store c) (store (run_model ops update_table p c))"
    "(\<forall>r \<in> device_reads p c. state_of (store (run_model ops update_table p c)) r = state_of (store c) r) \<longrightarrow>
      quiet_device (pins_of c p) d' (store (run_model ops update_table p c))"
proof -
  note inv = combinationalD(1) [OF com]
  obtain d' s dr where u: "update_digital_clk ops (tr_duration c) update_table (pins_of c p) d (store c) = (d', s, dr)" by (metis prod_cases3)
  let ?c = "run_model ops update_table p c"
  have c: "dmodels ?c = (dmodels c)(p \<mapsto> d')" "store ?c = s" using d u by (simp_all add: run_model_def)
  obtain d'' where r: "dmodels ?c = (dmodels c)(p \<mapsto> d'')" "pins_of ?c = pins_of c" "ran (pins_of c p) d (store c) d'' (store ?c)"
    by (rule run_model_ran [OF inv d])
  have "d'' = d'" using c(1) r(1) by (metis fun_upd_same option.inject)
  then have r: "pins_of ?c = pins_of c" "same_kind d d'" "writes (set (out_nodes (pins_of c p) d)) (store c) s"
    using r(2,3) c by (simp_all add: ran_def)
  note q = quiet_after [OF circuit_invD(3,4) [OF inv d] combinationalD(4) [OF com d] u]
  note v = quiet_view [OF circuit_invD(3,4) [OF inv d] combinationalD(4) [OF com d] _ u]
  show ?thesis using that [of d'] c r q v d by (simp add: device_outs_def device_reads_def device_quiet_def)
qed

lemma combinational_quiet:
  assumes com: "combinational c" and q: "device_quiet q c" and ne: "q \<noteq> p"
    and same: "\<forall>r \<in> device_reads q c. state_of (store (run_model ops update_table p c)) r = state_of (store c) r"
  shows "device_quiet q (run_model ops update_table p c)"
proof (cases "dmodels c p")
  case None
  then show ?thesis using q by (simp add: run_model_none)
next
  case (Some d)
  let ?c = "run_model ops update_table p c"
  obtain d' where c: "dmodels ?c = (dmodels c)(p \<mapsto> d')" "pins_of ?c = pins_of c" "writes (device_outs p c) (store c) (store ?c)"
    by (rule combinational_run [OF com Some])
  show ?thesis
    unfolding device_quiet_def c(1,2)
  proof (intro allI impI)
    fix e assume "((dmodels c)(p \<mapsto> d')) q = Some e"
    then have e: "dmodels c q = Some e" using ne by simp
    have "\<forall>r \<in> set (out_nodes (pins_of c q) e). state_of (store ?c) r = state_of (store c) r"
      using c(3) circuit_invD(5) [OF combinationalD(1) [OF com] ne e Some] unfolding writes_def device_outs_def by (auto simp: Some)
    moreover have "\<forall>r \<in> set (nodes_at (pins_of c q) (in_pins e)). state_of (store ?c) r = state_of (store c) r"
      using same e by (simp add: device_reads_def)
    ultimately have "quiet_device (pins_of c q) e (store ?c) = quiet_device (pins_of c q) e (store c)" by (rule quiet_device_same)
    then show "quiet_device (pins_of c q) e (store ?c)" using q e by (simp add: device_quiet_def)
  qed
qed

lemma combinational_shape:
  assumes com: "combinational c"
  shows "combinational (run_model ops meth p c)"
    and "device_reads q (run_model ops meth p c) = device_reads q c \<and>
      device_outs q (run_model ops meth p c) = device_outs q c \<and>
      dom (dmodels (run_model ops meth p c)) = dom (dmodels c)"
    and "tables (store (run_model ops meth p c)) \<subseteq> tables (store c) \<union> device_outs p c"
proof -
  let ?c = "run_model ops meth p c"
  note inv = combinationalD(1) [OF com]
  have r: "device_reads q ?c = device_reads q c" by (rule reads_run_model [OF inv])
  have i: "circuit_inv ?c" by (rule inv_run_model [OF inv])
  have "combinational ?c \<and> device_outs q ?c = device_outs q c \<and> dom (dmodels ?c) = dom (dmodels c) \<and> tables (store ?c) \<subseteq> tables (store c) \<union> device_outs p c"
  proof (cases "dmodels c p")
    case None
    then show ?thesis using com by (auto simp: run_model_none)
  next
    case (Some d)
    obtain d' where c: "dmodels ?c = (dmodels c)(p \<mapsto> d')" "pins_of ?c = pins_of c" "ran (pins_of c p) d (store c) d' (store ?c)"
      by (rule run_model_ran [OF inv Some])
    obtain d1 s1 dr where u: "update_digital_clk ops (tr_duration c) meth (pins_of c p) d (store c) = (d1, s1, dr)" by (metis prod_cases3)
    have "d1 = d'" using c(1) Some u by (auto simp: run_model_def dest: fun_cong [of _ _ p])
    then have f: "feedforward d'" using quiet_after [OF circuit_invD(3,4) [OF inv Some] combinationalD(4) [OF com Some] u] by blast
    have t: "tables (store ?c) \<subseteq> tables (store c) \<union> device_outs p c" using c(3) Some by (simp add: ran_def writes_def device_outs_def)
    moreover have dom: "dom (dmodels ?c) = dom (dmodels c)" using c(1) Some by auto
    moreover have "device_outs q ?c = device_outs q c"
      using c Some by (simp add: device_outs_def ran_def same_kind_def split: option.split)
    moreover have "finite (tables (store ?c))"
      by (rule finite_subset [OF t]) (simp add: combinationalD(3) [OF com] device_outs_def split: option.split)
    moreover have "\<forall>q e. dmodels ?c q = Some e \<longrightarrow> feedforward e" using c(1) f combinationalD(4) [OF com] by auto
    ultimately show ?thesis using i combinationalD(2) [OF com] by (simp add: combinational_def)
  qed
  then show "combinational ?c" "device_reads q ?c = device_reads q c \<and> device_outs q ?c = device_outs q c \<and> dom (dmodels ?c) = dom (dmodels c)"
    "tables (store ?c) \<subseteq> tables (store c) \<union> device_outs p c" using r by blast+
qed

lemma combinational_quiet_step:
  assumes com: "combinational c" and p: "device_quiet p c"
  shows "tables (store (run_model ops update_table p c)) = tables (store c) \<and>
    (device_quiet q c \<longrightarrow> device_quiet q (run_model ops update_table p c))"
proof (cases "dmodels c p")
  case None
  then show ?thesis by (simp add: run_model_none)
next
  case (Some d)
  let ?c = "run_model ops update_table p c"
  obtain d' where c: "dmodels ?c = (dmodels c)(p \<mapsto> d')" "pins_of ?c = pins_of c" "device_quiet p c \<longrightarrow> same_view (store c) (store ?c)"
      "(\<forall>r \<in> device_reads p c. state_of (store ?c) r = state_of (store c) r) \<longrightarrow> quiet_device (pins_of c p) d' (store ?c)"
    by (rule combinational_run [OF com Some])
  have v: "tables (store ?c) = tables (store c)" "state_of (store ?c) = state_of (store c)" using c(3) p by (simp_all add: same_view_def)
  have "device_quiet p ?c" using c(1,2,4) v(2) by (simp add: device_quiet_def)
  moreover have "device_quiet q ?c" if "device_quiet q c" "q \<noteq> p" by (rule combinational_quiet [OF com that]) (simp add: v(2))
  ultimately show ?thesis using v(1) by blast
qed

lemma combinational_disturb:
  assumes com: "combinational c" and q: "q = p \<or> device_quiet q c"
  shows "device_quiet q (run_model ops update_table p c) \<or> device_reads q c \<inter> device_outs p c \<noteq> {}"
proof (cases "dmodels c p")
  case None
  then show ?thesis using q by (auto simp: run_model_none device_quiet_def)
next
  case (Some d)
  let ?c = "run_model ops update_table p c"
  obtain d' where c: "dmodels ?c = (dmodels c)(p \<mapsto> d')" "pins_of ?c = pins_of c" "writes (device_outs p c) (store c) (store ?c)"
      "(\<forall>r \<in> device_reads p c. state_of (store ?c) r = state_of (store c) r) \<longrightarrow> quiet_device (pins_of c p) d' (store ?c)"
    by (rule combinational_run [OF com Some])
  show ?thesis
  proof (cases "device_reads q c \<inter> device_outs p c = {}")
    case True
    then have same: "\<forall>r \<in> device_reads q c. state_of (store ?c) r = state_of (store c) r" using c(3) unfolding writes_def by blast
    have "device_quiet q ?c"
    proof (cases "q = p")
      case True
      then show ?thesis using c(1,2,4) same by (simp add: device_quiet_def)
    next
      case False
      then show ?thesis using q combinational_quiet [OF com _ False same] by blast
    qed
    then show ?thesis by blast
  qed blast
qed

lemma combinational_forget: "combinational c \<Longrightarrow> combinational (forget_node r c)"
  by (simp add: combinational_def forget_node_inv)

lemma device_quiet_forget: "device_quiet p (forget_node r c) = device_quiet p c"
proof -
  have "quiet_device ps d (store (forget_node r c)) = quiet_device ps d (store c)" for ps d
    by (rule quiet_device_same) (simp_all add: forget_node_def)
  then show ?thesis by (simp add: device_quiet_def)
qed

lemma device_quiet_outside: "p \<notin> dom (dmodels c) \<Longrightarrow> device_quiet p c"
  by (auto simp: device_quiet_def)

lemma device_outs_forget: "device_outs p (forget_node r c) = device_outs p c"
  by (simp add: device_outs_def split: option.split)

interpretation live: costed_loop "run_model ops update_table" forget_node "\<lambda>c. tables (store c)" combinational device_quiet device_reads device_outs
  "\<lambda>c. dom (dmodels c)" for ops
proof unfold_locales
  fix c p q
  assume com: "combinational c"
  show "combinational (run_model ops update_table p c)" by (rule combinational_shape(1) [OF com])
  show "device_reads q (run_model ops update_table p c) = device_reads q c \<and> device_outs q (run_model ops update_table p c) = device_outs q c \<and>
      dom (dmodels (run_model ops update_table p c)) = dom (dmodels c)" by (rule combinational_shape(2) [OF com])
  show "tables (store (run_model ops update_table p c)) \<subseteq> tables (store c) \<union> device_outs p c" by (rule combinational_shape(3) [OF com])
  show "tables (store (run_model ops update_table p c)) = tables (store c) \<and> (device_quiet q c \<longrightarrow> device_quiet q (run_model ops update_table p c))"
    if "device_quiet p c" by (rule combinational_quiet_step [OF com that])
  show "device_quiet q (run_model ops update_table p c) \<or> device_reads q c \<inter> device_outs p c \<noteq> {}" if "q = p \<or> device_quiet q c"
    by (rule combinational_disturb [OF com that])
  show "finite (dom (dmodels c)) \<and> finite (tables (store c)) \<and> finite (device_outs p c)"
    using combinationalD(2,3) [OF com] by (simp add: device_outs_def split: option.split)
qed (simp_all add: combinational_forget device_quiet_forget device_quiet_outside forget_node_views device_outs_forget)

lemma work_process_node:
  assumes "combinational c" "live.covers v c" "r \<in> tables (store c)"
  shows "combinational (process_node ops ord r c) \<and> live.covers v (process_node ops ord r c) \<and> live.work v (process_node ops ord r c) < live.work v c"
  using live.work_process [OF assms] by (simp add: process_node_def run_models_fold forget_node_def)

text \<open>A budget as large as the work left empties the queue.\<close>

theorem settle_loop_empties:
  assumes "combinational c" "live.covers v c" "live.work v c \<le> n" "\<And>T. finite T \<Longrightarrow> T \<noteq> {} \<Longrightarrow> pick T \<in> T"
  shows "tables (store (settle_loop ops pick ord n c)) = {}"
  using assms(1,2,3)
proof (induction n arbitrary: c)
  case 0
  then show ?case using combinationalD(3) [OF 0(1)] by (simp add: live.work_def)
next
  case (Suc n)
  show ?case
  proof (cases "tables (store c) = {}")
    case False
    let ?c = "process_node ops ord (pick (tables (store c))) c"
    have "combinational ?c" "live.covers v ?c" "live.work v ?c < live.work v c"
      using work_process_node [OF Suc.prems(1,2) assms(4) [OF combinationalD(3) [OF Suc.prems(1)] False]] by blast+
    then show ?thesis using Suc.IH [of ?c] Suc.prems(3) False by simp
  qed simp
qed

subsection \<open>Running a combinational circuit\<close>

text \<open>What never changes: the devices and their wiring, and that only driven nodes are scheduled.\<close>

definition kept :: "digital_circuit \<Rightarrow> digital_circuit \<Rightarrow> bool" where
  "kept c c' \<longleftrightarrow> combinational c' \<and> dom (dmodels c') = dom (dmodels c) \<and>
     (\<forall>q. device_reads q c' = device_reads q c \<and> device_outs q c' = device_outs q c) \<and>
     tables (store c') \<subseteq> tables (store c) \<union> (\<Union>q. device_outs q c) \<and>
     always_tables c' = always_tables c \<and> after_all_clk_digital_model c' = after_all_clk_digital_model c"

lemma kept_refl: "combinational c \<Longrightarrow> kept c c"
  by (simp add: kept_def)

lemma kept_trans: "kept c c1 \<Longrightarrow> kept c1 c2 \<Longrightarrow> kept c c2"
  unfolding kept_def by auto

lemma kept_run:
  assumes "combinational c"
  shows "kept c (run_model ops meth p c)"
proof -
  note k = combinational_shape [OF assms]
  have "always_tables (run_model ops meth p c) = always_tables c \<and> after_all_clk_digital_model (run_model ops meth p c) = after_all_clk_digital_model c"
    by (simp add: run_model_def split: option.split prod.split)
  moreover have "tables (store (run_model ops meth p c)) \<subseteq> tables (store c) \<union> (\<Union>q. device_outs q c)" using k(3) [of ops meth p] by blast
  ultimately show ?thesis unfolding kept_def using k(1,2) by blast
qed

lemma kept_runs: "combinational c \<Longrightarrow> kept c (run_models ops meth ps c)"
proof (induction ps arbitrary: c)
  case (Cons p ps)
  have k: "kept c (run_model ops meth p c)" by (rule kept_run [OF Cons.prems])
  then have "combinational (run_model ops meth p c)" by (simp add: kept_def)
  then show ?case using kept_trans [OF k Cons.IH] by simp
qed (simp add: kept_refl)

lemma kept_forget: "combinational c \<Longrightarrow> kept c (forget_node r c)"
  by (auto simp: kept_def combinational_forget forget_node_views device_outs_forget) (simp_all add: forget_node_def)

lemma kept_process: "combinational c \<Longrightarrow> kept c (process_node ops ord r c)"
  using kept_trans [OF kept_forget kept_runs] combinational_forget
  by (simp add: process_node_def forget_node_def)

lemma kept_settle: "combinational c \<Longrightarrow> kept c (settle_loop ops pick ord n c)"
proof (induction n arbitrary: c)
  case (Suc n)
  have k: "kept c (process_node ops ord (pick (tables (store c))) c)" by (rule kept_process [OF Suc.prems])
  then have "combinational (process_node ops ord (pick (tables (store c))) c)" by (simp add: kept_def)
  then show ?case using kept_trans [OF k Suc.IH] kept_refl [OF Suc.prems] by simp
qed (simp add: kept_refl)

lemma work_bound:
  assumes com: "combinational c" and cov: "live.covers v c" and t: "tables (store c) \<subseteq> (\<Union>q. device_outs q c)"
  shows "live.work v c \<le> 2 * (\<Sum>p \<in> dom (dmodels c). v p)"
proof -
  let ?D = "dom (dmodels c)"
  have fin: "finite ?D" by (rule combinationalD(2) [OF com])
  have "tables (store c) \<subseteq> (\<Union>q \<in> ?D. device_outs q c)" using t by (fastforce simp: device_outs_def split: option.splits)
  then have "card (tables (store c)) \<le> card (\<Union>q \<in> ?D. device_outs q c)"
    by (rule card_mono [rotated]) (auto simp: fin device_outs_def split: option.split)
  also have "\<dots> \<le> (\<Sum>q \<in> ?D. card (device_outs q c))" by (rule card_UN_le [OF fin])
  also have "\<dots> \<le> (\<Sum>q \<in> ?D. v q)" using cov by (intro sum_mono) (auto simp: live.covers_def dest!: bspec)
  finally have "card (tables (store c)) \<le> (\<Sum>q \<in> ?D. v q)" .
  moreover have "(\<Sum>q \<in> live.busy c. v q) \<le> (\<Sum>q \<in> ?D. v q)" by (rule sum_mono2 [OF fin]) (auto simp: live.busy_def)
  ultimately show ?thesis by (simp add: live.work_def)
qed

lemma kept_same_store:
  assumes "combinational c" "store c' = (store c)\<lparr>tables := T\<rparr>" "T \<subseteq> tables (store c)" "dmodels c' = dmodels c"
    "always_tables c' = always_tables c" "after_all_clk_digital_model c' = after_all_clk_digital_model c"
  shows "kept c c'"
proof -
  have p: "pins_of c' = pins_of c" using assms(2) by (simp add: fun_eq_iff pins_of_def)
  have "circuit_inv c' = circuit_inv c" by (simp add: circuit_inv_def circuit_ok_def devices_ok_def p assms(2,4))
  moreover have "device_outs q c' = device_outs q c" "device_reads q c' = device_reads q c" for q
    by (simp_all add: device_outs_def device_reads_def p assms(4) split: option.split)
  moreover have "finite T" using assms(3) combinationalD(3) [OF assms(1)] by (rule finite_subset)
  ultimately show ?thesis using assms by (auto simp: kept_def combinational_def)
qed

lemma kept_digital_clk:
  assumes com: "combinational c" and always: "always_tables c = {}"
  shows "kept c (digital_clk ops pick ord c)"
    and "live.covers v c \<Longrightarrow> tables (store c) \<subseteq> (\<Union>q. device_outs q c) \<Longrightarrow> 2 * (\<Sum>p \<in> dom (dmodels c). v p) \<le> max_iter_budget \<Longrightarrow>
      (\<And>T. finite T \<Longrightarrow> T \<noteq> {} \<Longrightarrow> pick T \<in> T) \<Longrightarrow> after_all_clk_digital_model c = [] \<Longrightarrow> tables (store (digital_clk ops pick ord c)) = {}"
proof -
  let ?b = "before_digital_clk ops (c\<lparr>digital_out := []\<rparr>)"
  let ?u = "update_table_digital_clk ops pick ord ?b"
  have k0: "kept c (c\<lparr>digital_out := []\<rparr>)" by (rule kept_same_store [OF com, of _ "tables (store c)"]) simp_all
  have kb: "kept c ?b" unfolding before_digital_clk_def using k0 by (intro kept_trans [OF k0] kept_runs) (simp add: kept_def)
  then have b: "combinational ?b" "always_tables ?b = {}" using always by (simp_all add: kept_def)
  have seed: "seed_tables ?b = ?b" by (simp add: seed_tables_def b(2))
  have ku: "kept c ?u" unfolding update_table_digital_clk_def seed by (rule kept_trans [OF kb kept_settle [OF b(1)]])
  then show "kept c (digital_clk ops pick ord c)"
    unfolding digital_clk_def after_table_digital_clk_def by (intro kept_trans [OF ku] kept_runs) (simp add: kept_def)
  assume cov: "live.covers v c" and t: "tables (store c) \<subseteq> (\<Union>q. device_outs q c)" and n: "2 * (\<Sum>p \<in> dom (dmodels c). v p) \<le> max_iter_budget"
    and pick: "\<And>T. finite T \<Longrightarrow> T \<noteq> {} \<Longrightarrow> pick T \<in> T" and after: "after_all_clk_digital_model c = []"
  have "live.covers v ?b" using kb cov by (simp add: kept_def live.covers_def live.readers_def)
  moreover have "tables (store ?b) \<subseteq> (\<Union>q. device_outs q ?b)" "dom (dmodels ?b) = dom (dmodels c)"
    using kb t unfolding kept_def by auto
  then have "live.work v ?b \<le> max_iter_budget" using work_bound [OF b(1) calculation] n by simp
  ultimately have "tables (store ?u) = {}"
    unfolding update_table_digital_clk_def seed using settle_loop_empties [OF b(1) _ _ pick] by blast
  moreover have "after_all_clk_digital_model ?u = []" using ku after by (simp add: kept_def)
  ultimately show "tables (store (digital_clk ops pick ord c)) = {}" by (simp add: digital_clk_def after_table_digital_clk_def)
qed

text \<open>Setting attributes and preparing.\<close>

lemma set_attribute_feedforward: "set_attribute d n vi = Some (b, d') \<Longrightarrow> feedforward d' = feedforward d"
  by (cases d) (auto simp: rewrap_Some)

lemma kept_set_model_attribute:
  assumes com: "combinational c" and "engine.consistent c" and a: "set_model_attribute pos n vi c = Some (b, c')"
  shows "kept c c'"
proof -
  obtain d d' where d: "dmodels c pos = Some d" "set_attribute d n vi = Some (b, d')" "c' = c\<lparr>dmodels := (dmodels c)(pos \<mapsto> d')\<rparr>"
    using a by (auto simp: set_model_attribute_def split: option.splits)
  have k: "same_kind d d'" using set_attribute_keeps [OF d(2)] by blast
  have p: "pins_of c' = pins_of c" by (simp add: d(3) fun_eq_iff pins_of_def)
  have "circuit_inv c'" using consistent_set_model_attribute [OF a assms(2)] by (simp add: engine.consistent_def)
  moreover have "dom (dmodels c') = dom (dmodels c)" using d(1,3) by auto
  moreover have "\<forall>q e. dmodels c' q = Some e \<longrightarrow> feedforward e"
    using d combinationalD(4) [OF com] set_attribute_feedforward [OF d(2)] by auto
  moreover have "device_outs q c' = device_outs q c" "device_reads q c' = device_reads q c" for q
    unfolding device_outs_def device_reads_def p using k d(1) by (simp_all add: d(3) same_kind_def split: option.split)
  ultimately show ?thesis using com by (simp add: kept_def combinational_def) (simp add: d(3))
qed

lemma prepare_tr_feedforward: "feedforward (prepare_tr d) = feedforward d"
  by (cases d) simp_all

lemma no_after_all_clk: "called after_all_clk c = []"
proof -
  have "get_digital_update_method d \<noteq> after_all_clk" for d by (cases d) simp_all
  then show ?thesis by (auto simp: called_def filter_empty_conv)
qed

lemma combinational_prepare:
  assumes fresh: "fresh_circuit c" and fin: "finite (dom (dmodels c))" and ff: "\<forall>p d. dmodels c p = Some d \<longrightarrow> feedforward d"
  shows "combinational (prepare c)" "always_tables (prepare c) = {}" "after_all_clk_digital_model (prepare c) = []" "dom (dmodels (prepare c)) = dom (dmodels c)"
    "device_reads q (prepare c) = device_reads q c" "device_outs q (prepare c) = device_outs q c"
proof -
  have n: "\<not> has_prepare c" "digital_net (store c)" using fresh by (simp_all add: fresh_circuit_def circuit_ok_def)
  have k: "same_kind d (prepare_tr d)" for d using prepare_tr_keeps by blast
  show dom: "dom (dmodels (prepare c)) = dom (dmodels c)" using n(1) by (auto simp: dmodels_prepare)
  show "device_reads q (prepare c) = device_reads q c" "device_outs q (prepare c) = device_outs q c"
    using k n(1) by (simp_all add: device_reads_def device_outs_def pins_of_prepare dmodels_prepare same_kind_def split: option.split)
  have "circuit_inv (prepare c)" using consistent_prepare [OF fresh] by (simp add: engine.consistent_def)
  then show "combinational (prepare c)"
    using fin ff n(1) dom unfolding combinational_def by (auto simp: tables_prepare dmodels_prepare prepare_tr_feedforward)
  show "always_tables (prepare c) = {}"
    using n(2) by (auto simp: prepare_def Let_def is_hybrid_def mem_node_list digital_net_def simp del: node_at.simps)
  show "after_all_clk_digital_model (prepare c) = []" by (simp add: prepare_def Let_def no_after_all_clk)
qed

lemma kept_sim:
  assumes "(sim_step ops pick ord)\<^sup>*\<^sup>* (prepare c) c'" "fresh_circuit c" "enumerates ord"
    "finite (dom (dmodels c))" "\<forall>p d. dmodels c p = Some d \<longrightarrow> feedforward d"
  shows "kept (prepare c) c'"
  using assms(1)
proof (induction rule: rtranclp_induct)
  case base
  show ?case by (rule kept_refl [OF combinational_prepare(1) [OF assms(2,4,5)]])
next
  case (step c1 c2)
  have c1: "combinational c1" "always_tables c1 = {}" using step(3) combinational_prepare(2) [OF assms(2,4,5)] by (simp_all add: kept_def)
  have "kept c1 c2"
    using step(2)
  proof cases
    case tick
    then show ?thesis using kept_digital_clk(1) [OF c1] by simp
  next
    case (attribute pos n vi b)
    then show ?thesis by (rule kept_set_model_attribute [OF c1(1) consistent_sim [OF step(1) assms(2,3)]])
  qed
  then show ?case by (rule kept_trans [OF step(3)])
qed

end
