(* ===== verification/Tri_State.thy ===== *)
theory Tri_State
  imports Digital_Sim
begin

text \<open>
  What every device does to the nodes, whatever else drives them: the net stays the same and no
  pending node is forgotten. So the tri-state driver, which schedules its output in every call and is
  called for every pending node it is connected to, never leaves its output node in peace, on a bus
  with several drivers too.
\<close>

subsection \<open>No device forgets a pending node\<close>

definition net_grows :: "node_store \<Rightarrow> node_store \<Rightarrow> bool" where
  "net_grows s s' \<longleftrightarrow> same_net s s' \<and> tables s \<subseteq> tables s'"

lemma net_grows_refl [simp]: "net_grows s s"
  by (simp add: net_grows_def)

lemma net_grows_trans: "net_grows s s1 \<Longrightarrow> net_grows s1 s2 \<Longrightarrow> net_grows s s2"
  unfolding net_grows_def by (blast intro: same_net_trans)

lemma net_grows_put [simp]: "net_grows s (put_state r v s)" "net_grows s (schedule r (put_state r v s))" "net_grows s (write_changed r v s)"
  by (auto simp: net_grows_def write_changed_def)

lemma net_grows_gate_out [simp]: "net_grows s (fst (gate_out lv ch v r s))"
  by (simp add: gate_out_def)

lemma net_grows_gates [simp]: "net_grows s (fst (snd (gate2_clk f ops tr ps g s)))" "net_grows s (fst (snd (gate1_clk h ops tr ps g s)))"
  by (auto simp: gate2_clk_def gate1_clk_def Let_def split: list.split option.split)

lemma net_grows_write_last [simp]: "net_grows s (snd (write_last r l v s))"
  by (simp add: write_last_def)

lemma net_grows_two_out [simp]: "net_grows s (fst (snd (two_out clip v w rv rw s)))"
  unfolding two_out_def Let_def case_prod_beta by simp (rule net_grows_trans [OF net_grows_write_last net_grows_write_last])

lemma net_grows_adders [simp]:
  "net_grows s (fst (snd (HALF_ADDER_clk ops ps a s)))" "net_grows s (fst (snd (HALF_SUB_clk ops ps a s)))"
  "net_grows s (fst (snd (FULL_ADDER_clk ops ps a s)))" "net_grows s (fst (snd (FULL_SUB_clk ops ps a s)))"
  by (auto simp: HALF_ADDER_clk_def HALF_SUB_clk_def FULL_ADDER_clk_def FULL_SUB_clk_def Let_def split: list.split option.split)

lemma net_grows_mul2_outs: "net_grows s (fst (snd (mul2_outs lv outs ls s)))"
proof (induction lv outs ls s rule: mul2_outs.induct)
  case (1 lv v r outs l ls s)
  obtain l' s1 where w: "write_last r l v s = (l', s1)" by fastforce
  obtain ls' s2 d where m: "mul2_outs lv outs ls s1 = (ls', s2, d)" by (metis prod_cases3)
  have "net_grows s s1" using net_grows_write_last [of s r l v] w by simp
  then show ?case using 1 w m by (auto dest: net_grows_trans)
qed simp_all

lemma net_grows_mul2 [simp]: "net_grows s (fst (snd (MUL2_clk ops ps a s)))"
  using net_grows_mul2_outs by (auto simp: MUL2_clk_def Let_def case_prod_beta split: list.split option.split)

lemma net_grows_testers [simp]:
  "net_grows s (fst (snd (IS_UNKNOWN_clk ops ps t s)))" "net_grows s (fst (snd (CASE_EQ_clk ops ps t s)))"
  "net_grows s (fst (RESOLVE2_clk ops ps lv s))" "net_grows s (fst (TRI_clk ops ps lv s))" "net_grows s (fst (snd (SCHMITT_TRIGGER_clk ops ps c s)))"
  by (auto simp: IS_UNKNOWN_clk_def CASE_EQ_clk_def RESOLVE2_clk_def TRI_clk_def SCHMITT_TRIGGER_clk_def test_out_def Let_def split: list.split option.split)

lemma net_grows_drive_q [simp]: "net_grows s (fst (drive_q f r s))"
  by (simp add: drive_q_def)

lemma net_grows_flipflops [simp]:
  "net_grows s (fst (snd (DFF_clk ops ps f s)))" "net_grows s (fst (snd (DFF_ARSTN_clk ops ps f s)))" "net_grows s (fst (snd (JKFF_clk ops ps f s)))"
  "net_grows s (fst (snd (toggle_clk v ops ps f s)))" "net_grows s (fst (snd (DLATCH_clk ops ps f s)))"
  by (auto simp: DFF_clk_def DFF_ARSTN_clk_def JKFF_clk_def toggle_clk_def DLATCH_clk_def Let_def split: list.split option.split)

lemma net_grows_bus_out [simp]: "net_grows s (fst (bus_out al lv out i ps s d))"
  by (induction al lv out i ps s d rule: bus_out.induct) (auto split: option.split intro: net_grows_trans [OF net_grows_put(3)])

lemma net_grows_buses [simp]:
  "net_grows s (fst (snd (COUNTER4_clk ops ps c s)))" "net_grows s (fst (snd (RANDOM_GENERATOR4_clk ops ps c s)))"
  "net_grows s (fst (snd (EIGHT_BIT_INPUT_clk ps b s)))" "net_grows s (fst (snd (EIGHT_BIT_DISPLAY_clk ops ps y s)))"
  by (auto simp: COUNTER4_clk_def RANDOM_GENERATOR4_clk_def EIGHT_BIT_INPUT_clk_def EIGHT_BIT_DISPLAY_clk_def counter_out_def Let_def
    split: option.split prod.split)

lemma net_grows_pins [simp]:
  "net_grows s (fst (snd (INPUT_clk ps i s)))" "net_grows s (fst (snd (OUTPUT_clk ops tr ps g s)))" "net_grows s (fst (snd (TICK_DELAY_clk ops mth ps m s)))"
  by (auto simp: INPUT_clk_def OUTPUT_clk_def TICK_DELAY_clk_def delay_out_def Let_def split: list.split option.split)

lemma net_grows_drive_pins [simp]: "net_grows s (drive_pins vs ports ns s)"
  by (induction vs ports ns s rule: drive_pins.induct) (auto split: option.split intro: net_grows_trans [OF net_grows_put(3)])

lemma net_grows_verilog: "VERILOG_MODULE_clk ops mth ns m s = Some (m', s', d) \<Longrightarrow> net_grows s s'"
  by (auto simp: VERILOG_MODULE_clk_def Let_def split: option.splits if_splits Option.bind_splits prod.splits)

lemma net_grows_wrap: "net_grows s (fst (snd x)) \<Longrightarrow> net_grows s (fst (snd (wrap K x)))"
  by (cases x) (simp add: wrap_def)

lemma update_digital_clk_grows: "net_grows s (fst (snd (update_digital_clk ops tr mth ps d s)))"
proof (cases d)
  case (D_VERILOG_MODULE m)
  then show ?thesis using net_grows_verilog [of ops mth ps m s]
    by (cases "VERILOG_MODULE_clk ops mth ps m s") (auto simp: wrap_def split: prod.splits)
qed (simp_all add: net_grows_wrap AND_clk_def OR_clk_def XOR_clk_def NAND_clk_def NOR_clk_def XNOR_clk_def IMP_clk_def NIMP_clk_def
  NOT_clk_def YES_clk_def TFF_clk_def T_BAR_FF_clk_def VERILOG_PORTS_clk_def)

lemma run_model_grows: "net_grows (store c) (store (run_model ops mth p c))"
  using update_digital_clk_grows by (auto simp: run_model_def split: option.split prod.split) (metis fst_conv snd_conv)

lemma run_model_other: "q \<noteq> p \<Longrightarrow> dmodels (run_model ops mth p c) q = dmodels c q"
  by (simp add: run_model_def split: option.split prod.split)

subsection \<open>The tri-state driver\<close>

text \<open>A driver in a well-formed netlist, its three pins connected, its output on a node without analog devices.\<close>

definition tri_at :: "digital_circuit \<Rightarrow> model_pos \<Rightarrow> node_ref \<Rightarrow> node_ref \<Rightarrow> node_ref \<Rightarrow> bool" where
  "tri_at c pos i en r \<longleftrightarrow>
     netlist_ok (dnet (store c)) \<and> \<not> is_analog (store c) r \<and> is_digital (dnet (store c)) pos \<and>
     (\<exists>lv. dmodels c pos = Some (D_TRI lv)) \<and> pins_of c pos = [Some i, Some en, Some r]"

lemma tri_at_same:
  assumes "tri_at c pos i en r" "same_net (store c) (store c')" "dmodels c' pos = dmodels c pos"
  shows "tri_at c' pos i en r"
proof -
  have "pins_of c' = pins_of c" by (simp add: fun_eq_iff pins_of_def same_net_models [OF assms(2)])
  then show ?thesis
    using assms same_net_ok [OF assms(2)] same_net_nodes(3) [OF assms(2)] same_net_models [OF assms(2)] by (simp add: tri_at_def)
qed

lemma tri_run:
  assumes t: "tri_at c pos i en r"
  shows "tri_at (run_model ops mth q c) pos i en r" "r \<in> tables (store (run_model ops mth pos c))"
proof -
  obtain lv where lv: "\<not> is_analog (store c) r" "dmodels c pos = Some (D_TRI lv)" "pins_of c pos = [Some i, Some en, Some r]"
    using t by (auto simp: tri_at_def)
  show "r \<in> tables (store (run_model ops mth pos c))"
    using lv by (simp add: run_model_def wrap_def TRI_clk_def Let_def split: prod.split)
  have "dmodels (run_model ops mth q c) pos = dmodels c pos"
    using lv(2) run_model_other [of pos q ops mth c] by (cases "q = pos") (simp_all add: run_model_def wrap_def split: prod.split)
  then show "tri_at (run_model ops mth q c) pos i en r"
    using tri_at_same [OF t] run_model_grows by (auto simp: net_grows_def)
qed

lemma tri_runs:
  "tri_at c pos i en r \<Longrightarrow> tri_at (run_models ops mth ps c) pos i en r \<and> tables (store c) \<subseteq> tables (store (run_models ops mth ps c)) \<and>
   (pos \<in> set ps \<longrightarrow> r \<in> tables (store (run_models ops mth ps c)))"
proof (induction ps arbitrary: c)
  case (Cons p ps)
  have "tables (store c) \<subseteq> tables (store (run_model ops mth p c))" using run_model_grows by (auto simp: net_grows_def)
  then show ?case using Cons.IH [OF tri_run(1) [OF Cons.prems, of ops mth p]] tri_run(2) [OF Cons.prems] by auto
qed simp

lemma tri_pin_listed:
  assumes "tri_at c pos i en r" "x \<in> {i, en, r}" "enumerates ord"
  shows "pos \<in> set (filter (is_digital (dnet (store c))) (map fst (ord (pins (deref (store c) x)))))"
proof -
  have t: "netlist_ok (dnet (store c))" "is_digital (dnet (store c)) pos" "pins_of c pos = [Some i, Some en, Some r]"
    using assms(1) by (simp_all add: tri_at_def)
  have "Some x \<in> set (pins_of c pos)" using assms(2) t(3) by auto
  then obtain k where k: "k < length (pins_of c pos)" "pins_of c pos ! k = Some x" by (auto simp: in_set_conv_nth)
  have "pin_at (dnet (store c)) (pos, k) = Some x" using k by (auto simp: pins_of_def pin_at_def split: option.splits)
  then obtain n where "node_at (dnet (store c)) x = Some n" "links_ok (pin_at (dnet (store c))) (is_digital (dnet (store c))) x n" "(pos, k) \<in> pins n"
    using graph_okD [OF netlist_okD(1) [OF t(1)]] by (fastforce simp: links_ok_def)
  then have "(pos, k) \<in> set (ord (pins (deref (store c) x)))" using assms(3) by (auto simp: deref_def links_ok_def enumerates_def)
  then have "pos \<in> fst ` set (ord (pins (deref (store c) x)))" by (metis fst_conv image_eqI)
  then show ?thesis using t(2) by simp
qed

lemma tri_process:
  assumes t: "tri_at c pos i en r" and ord: "enumerates ord"
  shows "tri_at (process_node ops ord x c) pos i en r" "x \<in> {i, en, r} \<Longrightarrow> r \<in> tables (store (process_node ops ord x c))"
    "r \<in> tables (store c) \<Longrightarrow> r \<in> tables (store (process_node ops ord x c))"
proof -
  let ?ps = "filter (is_digital (dnet (store c))) (map fst (ord (pins (deref (store c) x))))"
  have "tri_at (forget_node x c) pos i en r" by (rule tri_at_same [OF t]) (simp_all add: forget_node_def same_net_def)
  note m = tri_runs [OF this, of ops update_table ?ps]
  have eq: "process_node ops ord x c = run_models ops update_table ?ps (forget_node x c)" by (simp add: process_node_def forget_node_def)
  show "tri_at (process_node ops ord x c) pos i en r" using m eq by simp
  show l: "x \<in> {i, en, r} \<Longrightarrow> r \<in> tables (store (process_node ops ord x c))" using m tri_pin_listed [OF t _ ord] unfolding eq by blast
  have "tables (store c) - {x} \<subseteq> tables (store (process_node ops ord x c))" using m unfolding eq by (simp add: forget_node_def)
  then show "r \<in> tables (store c) \<Longrightarrow> r \<in> tables (store (process_node ops ord x c))" using l by (cases "x = r") auto
qed

lemma tri_settle:
  "tri_at c pos i en r \<Longrightarrow> r \<in> tables (store c) \<Longrightarrow> enumerates ord \<Longrightarrow>
   tri_at (settle_loop ops pick ord n c) pos i en r \<and> r \<in> tables (store (settle_loop ops pick ord n c))"
proof (induction n arbitrary: c)
  case (Suc n)
  then show ?case using Suc.IH [OF tri_process(1,3) [OF Suc.prems(1,3)]] by auto
qed simp

lemma tri_tick:
  assumes t: "tri_at c pos i en r" and p: "r \<in> tables (store c)" and ord: "enumerates ord"
  shows "r \<in> tables (store (digital_clk ops pick ord c))"
proof -
  let ?c = "c\<lparr>digital_out := []\<rparr>"
  let ?b = "before_digital_clk ops ?c"
  have "tri_at ?c pos i en r" by (rule tri_at_same [OF t]) simp_all
  then have b: "tri_at ?b pos i en r" "r \<in> tables (store ?b)"
    using tri_runs [of ?c pos i en r ops before_all_clk "before_all_clk_digital_model ?c"] p by (auto simp: before_digital_clk_def)
  have "tri_at (seed_tables ?b) pos i en r" by (rule tri_at_same [OF b(1)]) (simp_all add: seed_tables_def same_net_def)
  moreover have "r \<in> tables (store (seed_tables ?b))" using b(2) by (simp add: seed_tables_def)
  ultimately have "tri_at (update_table_digital_clk ops pick ord ?b) pos i en r \<and> r \<in> tables (store (update_table_digital_clk ops pick ord ?b))"
    unfolding update_table_digital_clk_def using tri_settle ord by blast
  then show ?thesis unfolding digital_clk_def after_table_digital_clk_def using tri_runs by blast
qed

end
