(* ===== verification/Device_Bounds.thy ===== *)
theory Device_Bounds
  imports Digital_Sim
begin

text \<open>
  Bounds on the state of the devices: four-bit counters stay below sixteen, the display never
  shows a known bit as unknown, the delay line holds its number of ticks, and the adders remember
  one value per output. They hold on any wiring.
\<close>

fun in_bounds :: "digital_model \<Rightarrow> bool" where
  "in_bounds (D_COUNTER4 c) \<longleftrightarrow> unat (c_value c) < 16"
| "in_bounds (D_RANDOM_GENERATOR4 c) \<longleftrightarrow> unat (c_value c) < 16"
| "in_bounds (D_EIGHT_BIT_DISPLAY y) \<longleftrightarrow> and (y_value y) (unknown_mask y) = 0"
| "in_bounds (D_TICK_DELAY m) \<longleftrightarrow> pipe m = [] \<or> length (pipe m) = delay_ticks m"
| "in_bounds (D_HALF_ADDER a) \<longleftrightarrow> length (last_outs a) = 2"
| "in_bounds (D_HALF_SUB a) \<longleftrightarrow> length (last_outs a) = 2"
| "in_bounds (D_FULL_ADDER a) \<longleftrightarrow> length (last_outs a) = 2"
| "in_bounds (D_FULL_SUB a) \<longleftrightarrow> length (last_outs a) = 2"
| "in_bounds (D_MUL2 a) \<longleftrightarrow> length (last_outs a) = 4"
| "in_bounds d \<longleftrightarrow> True"

subsection \<open>Four bits\<close>

lemma low_nibble: "unat (and x 0x0F :: u8) < 16"
proof -
  have "and x 0x0F = take_bit 4 x" by (simp add: take_bit_eq_mask mask_eq_exp_minus_1)
  then show ?thesis using take_bit_nat_less_exp [of 4 "unat x"] by (simp add: unsigned_take_bit_eq)
qed

lemma random_next_bound: "unat (random_next v) < 16"
proof -
  have "random_next v = and (random_next v) 0x0F"
    by (simp add: random_next_def bit.conj_disj_distrib2 and.assoc)
  then show ?thesis using low_nibble [of "random_next v"] by simp
qed

subsection \<open>Evaluation\<close>

lemma counter_out_value: "c_value (fst (counter_out ps c s)) = c_value c"
  by (simp add: counter_out_def)

lemma COUNTER4_bound: "unat (c_value c) < 16 \<Longrightarrow> unat (c_value (fst (COUNTER4_clk ops ps c s))) < 16"
  using low_nibble [of "c_value c + 1"] by (auto simp: COUNTER4_clk_def Let_def counter_out_value split: option.split)

lemma RANDOM_GENERATOR4_bound: "unat (c_value c) < 16 \<Longrightarrow> unat (c_value (fst (RANDOM_GENERATOR4_clk ops ps c s))) < 16"
  using random_next_bound [of "c_value c"] by (auto simp: RANDOM_GENERATOR4_clk_def Let_def counter_out_value split: option.split)

text \<open>The bits still to be sampled are clear in both words.\<close>

lemma set_bit_disjoint:
  assumes "and v um = 0" "\<not> bit um i"
  shows "and (or v (push_bit i 1)) um = (0 :: u8)"
proof (rule bit_word_eqI)
  fix n
  have "\<not> (bit v n \<and> bit um n)" using assms(1) by (metis bit_0_eq bit_and_iff bot_apply bot_bool_def)
  then show "bit (and (or v (push_bit i 1)) um) n \<longleftrightarrow> bit (0 :: u8) n"
    using assms(2) by (auto simp: bit_and_iff bit_or_iff bit_exp_iff)
qed

lemma sample_bus_disjoint:
  "and v um = 0 \<Longrightarrow> \<forall>j < k. \<not> bit v j \<and> \<not> bit um j \<Longrightarrow> sample_bus ops lv s k ps v um = (v', um') \<Longrightarrow> and v' um' = 0"
proof (induction ops lv s k ps v um rule: sample_bus.induct)
  case (1 ops lv s i p ps v um)
  have lower: "\<forall>j < i. \<not> bit (or w (push_bit i 1)) j" if "\<forall>j < Suc i. \<not> bit w j" for w :: u8
    using that by (auto simp: bit_or_iff bit_exp_iff)
  show ?case
  proof (cases "case p of None \<Rightarrow> indeterminate_state | Some r \<Rightarrow> read_dn ops lv s r")
    case false_state
    then show ?thesis using 1(1) 1(5,6,7) by simp
  next
    case true_state
    then show ?thesis using 1(2) 1(5,6,7) lower [of v] set_bit_disjoint [of v um i] by simp
  next
    case indeterminate_state
    then show ?thesis using 1(3) 1(5,6,7) lower [of um] set_bit_disjoint [of um v i] by (simp add: and.commute)
  next
    case high_impedence_state
    then show ?thesis using 1(4) 1(5,6,7) lower [of um] set_bit_disjoint [of um v i] by (simp add: and.commute)
  qed
qed simp_all

lemma EIGHT_BIT_DISPLAY_bound: "and (y_value (fst (EIGHT_BIT_DISPLAY_clk ops ps y s))) (unknown_mask (fst (EIGHT_BIT_DISPLAY_clk ops ps y s))) = 0"
proof -
  obtain v um where v: "sample_bus ops (y_levels y) s 8 ps 0 0 = (v, um)" by fastforce
  have "and v um = 0" by (rule sample_bus_disjoint [OF _ _ v]) simp_all
  then show ?thesis using v by (simp add: EIGHT_BIT_DISPLAY_clk_def)
qed

lemma delay_out_pipe: "pipe (fst (delay_out m v r s)) = pipe m" "delay_ticks (fst (delay_out m v r s)) = delay_ticks m"
  by (simp_all add: delay_out_def)

lemma TICK_DELAY_bound:
  "pipe m = [] \<or> length (pipe m) = delay_ticks m \<Longrightarrow>
   pipe (fst (TICK_DELAY_clk ops meth ps m s)) = [] \<or> length (pipe (fst (TICK_DELAY_clk ops meth ps m s))) = delay_ticks (fst (TICK_DELAY_clk ops meth ps m s))"
  by (auto simp: TICK_DELAY_clk_def Let_def delay_out_pipe split: list.splits option.splits)

lemma two_out_length: "length (last_outs (fst (two_out a v w r1 r2 s))) = 2"
  by (simp add: two_out_def split: prod.split)

lemma mul2_outs_length: "length (fst (mul2_outs lv os ls s)) = length ls"
  by (induction lv os ls s rule: mul2_outs.induct) (auto split: prod.splits)

lemma adder_bounds:
  "length (last_outs a) = 2 \<Longrightarrow> length (last_outs (fst (HALF_ADDER_clk ops ps a s))) = 2"
  "length (last_outs a) = 2 \<Longrightarrow> length (last_outs (fst (HALF_SUB_clk ops ps a s))) = 2"
  "length (last_outs a) = 2 \<Longrightarrow> length (last_outs (fst (FULL_ADDER_clk ops ps a s))) = 2"
  "length (last_outs a) = 2 \<Longrightarrow> length (last_outs (fst (FULL_SUB_clk ops ps a s))) = 2"
  by (simp_all add: HALF_ADDER_clk_def HALF_SUB_clk_def FULL_ADDER_clk_def FULL_SUB_clk_def two_out_length Let_def split: list.split option.split)

lemma MUL2_bound:
  assumes "length (last_outs a) = 4"
  shows "length (last_outs (fst (MUL2_clk ops ps a s))) = 4"
proof -
  have "length ls = 4" if "mul2_outs lv outs (last_outs a) s = (ls, x)" for lv outs ls x
    using mul2_outs_length [of lv outs "last_outs a" s] that assms by simp
  then show ?thesis using assms by (auto simp: MUL2_clk_def Let_def split: list.split option.split prod.split)
qed

lemma wrap_device: "wrap K x = (d', s', dr) \<Longrightarrow> d' = K (fst x)"
  by (auto simp: wrap_def split: prod.splits)

theorem update_digital_clk_bounds: "in_bounds d \<Longrightarrow> in_bounds (fst (update_digital_clk ops tr meth ps d s))"
proof -
  assume b: "in_bounds d"
  obtain d' s' dr where u: "update_digital_clk ops tr meth ps d s = (d', s', dr)" by (metis prod_cases3)
  have "in_bounds d'"
    using b u by (cases d) (auto dest!: wrap_device simp: COUNTER4_bound RANDOM_GENERATOR4_bound EIGHT_BIT_DISPLAY_bound TICK_DELAY_bound adder_bounds MUL2_bound
        split: option.splits)
  then show ?thesis by (simp add: u)
qed

subsection \<open>Construction, attributes, circuits\<close>

lemma counter_attributes_bound:
  "set_attribute_define (counter_attributes nm) c n vi = Some (b, c') \<Longrightarrow> unat (c_value c) < 16 \<Longrightarrow> unat (c_value c') < 16"
  using low_nibble by (cases vi) (auto simp: counter_attributes_def split: if_splits)

lemma set_attribute_bounds: "set_attribute d n vi = Some (b, d') \<Longrightarrow> in_bounds d \<Longrightarrow> in_bounds d'"
  by (cases d)
    (auto simp: rewrap_Some COUNTER4_attributes_def RANDOM_GENERATOR4_attributes_def EIGHT_BIT_DISPLAY_attributes_def TICK_DELAY_attributes_def
      dest: counter_attributes_bound)

lemma configured_bounds: "configured d \<Longrightarrow> in_bounds d"
proof (induction rule: configured.induct)
  case (constructed d)
  then show ?case by (auto simp: new_devices_def new_device_defs new_adder_def new_counter_def)
next
  case (attribute d n vi b d')
  then show ?case using set_attribute_bounds by blast
qed

lemma prepare_tr_bounds: "in_bounds (prepare_tr d) = in_bounds d"
  by (cases d) simp_all

definition all_in_bounds :: "digital_circuit \<Rightarrow> bool" where
  "all_in_bounds c \<longleftrightarrow> (\<forall>pos d. dmodels c pos = Some d \<longrightarrow> in_bounds d)"

lemma bounds_run: "all_in_bounds c \<Longrightarrow> all_in_bounds (run_model ops meth p c)"
proof (cases "dmodels c p")
  case (Some d)
  assume b: "all_in_bounds c"
  obtain d' s dr where u: "update_digital_clk ops (tr_duration c) meth (pins_of c p) d (store c) = (d', s, dr)" by (metis prod_cases3)
  have "in_bounds d'" using update_digital_clk_bounds [of d ops "tr_duration c" meth "pins_of c p" "store c"] u b Some by (simp add: all_in_bounds_def)
  then show ?thesis using b Some u by (simp add: all_in_bounds_def run_model_def)
qed (simp add: run_model_none)

lemma bounds_runs: "all_in_bounds c \<Longrightarrow> all_in_bounds (run_models ops meth ps c)"
  by (induction ps arbitrary: c) (simp_all add: bounds_run)

lemma bounds_fields [simp]: "all_in_bounds (c\<lparr>store := s\<rparr>) = all_in_bounds c" "all_in_bounds (c\<lparr>digital_out := x\<rparr>) = all_in_bounds c"
  by (simp_all add: all_in_bounds_def)

lemma bounds_settle: "all_in_bounds c \<Longrightarrow> all_in_bounds (settle_loop ops pick ord n c)"
proof (induction n arbitrary: c)
  case (Suc n)
  have "all_in_bounds (process_node ops ord (pick (tables (store c))) c)"
    unfolding process_node_def by (rule bounds_runs) (simp add: Suc.prems)
  then show ?case using Suc by simp
qed simp

lemma bounds_sim_step:
  assumes "sim_step ops pick ord c c'" "all_in_bounds c"
  shows "all_in_bounds c'"
  using assms(1)
proof cases
  case tick
  have "all_in_bounds (c\<lparr>digital_out := []\<rparr>)" using assms(2) by simp
  then have "all_in_bounds (seed_tables (before_digital_clk ops (c\<lparr>digital_out := []\<rparr>)))"
    by (simp add: before_digital_clk_def seed_tables_def bounds_runs)
  then show ?thesis
    by (simp add: tick digital_clk_def after_table_digital_clk_def update_table_digital_clk_def bounds_settle bounds_runs)
next
  case (attribute pos n vi b)
  then show ?thesis using assms(2) by (auto simp: set_model_attribute_def all_in_bounds_def dest: set_attribute_bounds split: option.splits if_splits)
qed

end
