(* ===== verification/Attribute_Props.thy ===== *)
theory Attribute_Props
  imports Attributes
begin

text \<open>
  Saving and loading the attributes of a device: the scan of the file format finds exactly the
  named attributes, and loading them into any device of the same model restores every attribute
  that can be set.
\<close>

subsection \<open>The scan\<close>

lemma scan_without_names: "\<forall>i \<in> set ys. names i = [] \<Longrightarrow> scan_attributes names ys run seen = []"
  by (induction names ys run seen rule: scan_attributes.induct) auto

lemma scan_named: "\<forall>i \<in> set xs. names i \<noteq> [] \<Longrightarrow> \<forall>i \<in> set ys. names i = [] \<Longrightarrow> scan_attributes names (xs @ ys) run seen = xs"
  by (induction xs arbitrary: run seen) (auto simp: scan_without_names)

lemma attribute_indices_prefix:
  assumes "\<And>i. names i \<noteq> [] \<longleftrightarrow> i < k" "k \<le> kMaxScan"
  shows "attribute_indices names = [0..<k]"
proof -
  have n: "names i = [] \<longleftrightarrow> k \<le> i" for i using assms(1) [of i] by (simp only: not_less [symmetric]) blast
  have "scan_attributes names ([0..<k] @ [k..<kMaxScan]) 0 False = [0..<k]" by (rule scan_named) (simp_all add: n)
  then show ?thesis unfolding attribute_indices_def using upt_add_eq_append [of 0 k "kMaxScan - k"] assms(2) by simp
qed

subsection \<open>Restoring\<close>

definition load_step :: "'a attributes \<Rightarrow> 'a option \<Rightarrow> nat \<Rightarrow> variant \<Rightarrow> 'a option" where
  "load_step A m i v = Option.bind m (\<lambda>m. map_option snd (set_attribute_define A m i v))"

definition settable :: "'a attributes \<Rightarrow> 'a \<Rightarrow> nat \<Rightarrow> bool" where
  "settable A m i \<longleftrightarrow> (\<exists>m'. set_attribute_define A m i (get_attribute_define A m i) = Some (True, m'))"

text \<open>The first \<open>k\<close> indices are the named ones, and loading them restores what can be set.\<close>

definition restorable :: "'a attributes \<Rightarrow> nat \<Rightarrow> bool" where
  "restorable A k \<longleftrightarrow> (\<forall>i. get_attribute_name_define A i \<noteq> [] \<longleftrightarrow> i < k) \<and>
     (\<forall>m m0. \<exists>m1. fold (\<lambda>i x. load_step A x i (get_attribute_define A m i)) [0..<k] (Some m0) = Some m1 \<and>
        (\<forall>i. settable A m i \<longrightarrow> get_attribute_define A m1 i = get_attribute_define A m i))"

lemma restorableI:
  assumes "\<And>i. get_attribute_name_define A i \<noteq> [] \<longleftrightarrow> i < k"
    and "\<And>m m0. \<exists>m1. fold (\<lambda>i x. load_step A x i (get_attribute_define A m i)) [0..<k] (Some m0) = Some m1 \<and>
      (\<forall>i. settable A m i \<longrightarrow> get_attribute_define A m1 i = get_attribute_define A m i)"
  shows "restorable A k"
  using assms unfolding restorable_def by blast

lemma state_of_byte_of_state [simp]: "state_of_byte (byte_of_state v) = Some v"
  by (cases v) (simp_all add: state_of_byte_def)

lemma u8string_empty [simp]: "u8string s = [] \<longleftrightarrow> s = []"
  by (simp add: u8string_def)

lemmas load_simps = load_step_def settable_def set_d_def no_variant_def

lemma gate_restorable: "restorable gate_attributes 4"
  by (rule restorableI) (auto simp: gate_attributes_def load_simps eval_nat_numeral)

lemma tester_restorable: "restorable tester_attributes 2"
  by (rule restorableI) (auto simp: tester_attributes_def load_simps eval_nat_numeral)

lemma TRI_restorable: "restorable TRI_attributes 2"
  by (rule restorableI) (auto simp: TRI_attributes_def load_simps eval_nat_numeral)

lemma SCHMITT_TRIGGER_restorable: "restorable SCHMITT_TRIGGER_attributes 4"
  by (rule restorableI) (auto simp: SCHMITT_TRIGGER_attributes_def load_simps eval_nat_numeral)

lemma counter_restorable: "nm \<noteq> [] \<Longrightarrow> restorable (counter_attributes nm) 2"
  by (rule restorableI) (auto simp: counter_attributes_def load_simps eval_nat_numeral and.assoc)

lemma INPUT_restorable: "restorable INPUT_attributes 1"
  by (rule restorableI) (auto simp: INPUT_attributes_def load_simps)

lemma OUTPUT_restorable: "restorable OUTPUT_attributes 1"
  by (rule restorableI) (auto simp: OUTPUT_attributes_def load_simps)

lemma EIGHT_BIT_INPUT_restorable: "restorable EIGHT_BIT_INPUT_attributes 1"
  by (rule restorableI) (auto simp: EIGHT_BIT_INPUT_attributes_def load_simps)

lemma EIGHT_BIT_DISPLAY_restorable: "restorable EIGHT_BIT_DISPLAY_attributes 2"
  by (rule restorableI) (auto simp: EIGHT_BIT_DISPLAY_attributes_def load_simps eval_nat_numeral)

lemma TICK_DELAY_restorable: "restorable TICK_DELAY_attributes 0"
  by (rule restorableI) (auto simp: TICK_DELAY_attributes_def load_simps)

subsection \<open>Devices\<close>

definition load_attribute :: "digital_model option \<Rightarrow> nat \<Rightarrow> variant \<Rightarrow> digital_model option" where
  "load_attribute m i v = Option.bind m (\<lambda>d. map_option snd (set_attribute d i v))"

definition attribute_settable :: "digital_model \<Rightarrow> nat \<Rightarrow> bool" where
  "attribute_settable d i \<longleftrightarrow> (\<exists>d'. set_attribute d i (get_attribute d i) = Some (True, d'))"

definition restored :: "digital_model \<Rightarrow> digital_model \<Rightarrow> digital_model \<Rightarrow> bool" where
  "restored d d0 d1 \<longleftrightarrow> fold (\<lambda>i m. load_attribute m i (get_attribute d i)) (attribute_indices (get_attribute_name d)) (Some d0) = Some d1 \<and>
     (\<forall>i. attribute_settable d i \<longrightarrow> get_attribute d1 i = get_attribute d i)"

lemma VERILOG_MODULE_restorable: "restorable VERILOG_MODULE_attributes 2"
  by (rule restorableI) (auto simp: VERILOG_MODULE_attributes_def load_simps eval_nat_numeral)

lemma VERILOG_PORTS_restorable: "restorable VERILOG_PORTS_attributes 0"
  by (rule restorableI) (auto simp: VERILOG_PORTS_attributes_def load_simps)

lemma load_wrapped:
  assumes "\<And>m n v. set_attribute (K m) n v = rewrap K (set_attribute_define A m n v)"
  shows "fold (\<lambda>i x. load_attribute x i (f i)) is (map_option K x) = map_option K (fold (\<lambda>i x. load_step A x i (f i)) is x)"
proof (induction "is" arbitrary: x)
  case (Cons i "is")
  have "load_attribute (map_option K x) i (f i) = map_option K (load_step A x i (f i))"
    by (cases x) (simp_all add: load_attribute_def load_step_def assms rewrap_def option.map_comp comp_def case_prod_unfold)
  then show ?case using Cons.IH by simp
qed simp

lemma restored_wrapped:
  assumes r: "restorable A k" "k \<le> kMaxScan" and s: "\<And>m n v. set_attribute (K m) n v = rewrap K (set_attribute_define A m n v)"
    and g: "\<And>m n. get_attribute (K m) n = get_attribute_define A m n" "\<And>m n. get_attribute_name (K m) n = get_attribute_name_define A n"
  shows "\<exists>d1. restored (K m) (K m0) d1"
proof -
  have n: "attribute_indices (get_attribute_name (K m)) = [0..<k]"
    by (rule attribute_indices_prefix [OF _ r(2)]) (use r(1) g(2) in \<open>simp add: restorable_def\<close>)
  obtain m1 where m1: "fold (\<lambda>i x. load_step A x i (get_attribute_define A m i)) [0..<k] (Some m0) = Some m1"
      "\<forall>i. settable A m i \<longrightarrow> get_attribute_define A m1 i = get_attribute_define A m i"
    using r(1) unfolding restorable_def by blast
  have "fold (\<lambda>i x. load_attribute x i (get_attribute (K m) i)) [0..<k] (Some (K m0)) = Some (K m1)"
    using load_wrapped [of K A "get_attribute_define A m" "[0..<k]" "Some m0", OF s] m1(1) g(1) by simp
  moreover have "attribute_settable (K m) i \<longleftrightarrow> settable A m i" for i by (auto simp: attribute_settable_def settable_def s g rewrap_def)
  ultimately have "restored (K m) (K m0) (K m1)" using m1(2) n g(1) by (simp add: restored_def)
  then show ?thesis by blast
qed

lemma restored_plain:
  assumes "\<And>n v. set_attribute d n v = Some (False, d)" "\<And>n. get_attribute_name d n = []"
  shows "\<exists>d1. restored d d0 d1"
proof -
  have "attribute_indices (get_attribute_name d) = [0..<0]" by (rule attribute_indices_prefix) (simp_all add: assms)
  then show ?thesis by (simp add: restored_def attribute_settable_def assms)
qed

lemma kMaxScan_small: "k \<le> 4 \<Longrightarrow> k \<le> kMaxScan"
  by (simp add: kMaxScan_def)

lemmas gate_restored = restored_wrapped [OF gate_restorable kMaxScan_small]
lemmas tester_restored = restored_wrapped [OF tester_restorable kMaxScan_small]

theorem attributes_restored:
  assumes "model_name d0 = model_name d"
  shows "\<exists>d1. restored d d0 d1"
  using assms
  by (cases d; cases d0)
    (simp_all add: restored_plain
      gate_restored [of D_AND] gate_restored [of D_OR] gate_restored [of D_XOR] gate_restored [of D_NAND] gate_restored [of D_NOR]
      gate_restored [of D_XNOR] gate_restored [of D_IMP] gate_restored [of D_NIMP] gate_restored [of D_NOT] gate_restored [of D_YES]
      AND_attributes_def OR_attributes_def XOR_attributes_def NAND_attributes_def NOR_attributes_def XNOR_attributes_def
      IMP_attributes_def NIMP_attributes_def NOT_attributes_def YES_attributes_def IS_UNKNOWN_attributes_def CASE_EQ_attributes_def
      COUNTER4_attributes_def RANDOM_GENERATOR4_attributes_def
      tester_restored [of D_IS_UNKNOWN] tester_restored [of D_CASE_EQ]
      restored_wrapped [OF TRI_restorable kMaxScan_small, of D_TRI]
      restored_wrapped [OF SCHMITT_TRIGGER_restorable kMaxScan_small, of D_SCHMITT_TRIGGER]
      restored_wrapped [OF counter_restorable kMaxScan_small, of "''value''" D_COUNTER4]
      restored_wrapped [OF counter_restorable kMaxScan_small, of "''state''" D_RANDOM_GENERATOR4]
      restored_wrapped [OF INPUT_restorable kMaxScan_small, of D_INPUT]
      restored_wrapped [OF OUTPUT_restorable kMaxScan_small, of D_OUTPUT]
      restored_wrapped [OF EIGHT_BIT_INPUT_restorable kMaxScan_small, of D_EIGHT_BIT_INPUT]
      restored_wrapped [OF EIGHT_BIT_DISPLAY_restorable kMaxScan_small, of D_EIGHT_BIT_DISPLAY]
      restored_wrapped [OF TICK_DELAY_restorable kMaxScan_small, of D_TICK_DELAY]
      restored_wrapped [OF VERILOG_MODULE_restorable kMaxScan_small, of D_VERILOG_MODULE]
      restored_wrapped [OF VERILOG_PORTS_restorable kMaxScan_small, of D_VERILOG_PORTS])

subsection \<open>The blob\<close>

lemma attributes_valid: "fits (length (get_attribute_name d i))" "valid_variant (get_attribute d i)"
  by (cases d; simp add: AND_attributes_def OR_attributes_def XOR_attributes_def NAND_attributes_def NOR_attributes_def XNOR_attributes_def
      IMP_attributes_def NIMP_attributes_def NOT_attributes_def YES_attributes_def IS_UNKNOWN_attributes_def CASE_EQ_attributes_def
      COUNTER4_attributes_def RANDOM_GENERATOR4_attributes_def gate_attributes_def tester_attributes_def TRI_attributes_def
      SCHMITT_TRIGGER_attributes_def counter_attributes_def INPUT_attributes_def OUTPUT_attributes_def EIGHT_BIT_INPUT_attributes_def
      EIGHT_BIT_DISPLAY_attributes_def TICK_DELAY_attributes_def VERILOG_MODULE_attributes_def VERILOG_PORTS_attributes_def u8string_def fits_def SIZE_MAX_def valid_variant_def no_variant_def)+

lemma load_saved_attributes:
  assumes "model_name d0 = model_name d" "fits (length (encode_attributes le (get_attribute_name d) (get_attribute d)))"
  shows "\<exists>d1. apply_attributes le load_attribute (Some d0) (encode_attributes le (get_attribute_name d) (get_attribute d)) = (success, Some d1) \<and>
    (\<forall>i. attribute_settable d i \<longrightarrow> get_attribute d1 i = get_attribute d i)"
proof -
  obtain d1 where "restored d d0 d1" using attributes_restored [OF assms(1)] by blast
  then show ?thesis using apply_encode_attributes [OF attributes_valid assms(2), of load_attribute "Some d0"] by (auto simp: restored_def)
qed

end
