(* ===== verification/Netlist_Facts.thy ===== *)
theory Netlist_Facts
  imports Floating "HOL-Library.Product_Lexorder"
begin

text \<open>
  What the netlist promises: its invariant in every reachable state, the refinement of an abstract
  connection table by its operations, copies, merging, and the exactness of the search for
  floating subnets.
\<close>

subsection \<open>The abstract netlist\<close>

text \<open>
  A client sees which models exist, with their number of pins, and which node each pin is connected to.
\<close>

record wiring =
  sizes :: "model_pos \<rightharpoonup> nat"
  links :: "pin_ref \<rightharpoonup> node_ref"

definition wiring_of :: "netlist \<Rightarrow> wiring" where
  "wiring_of nl = \<lparr>sizes = (\<lambda>pos. map_option (\<lambda>im. length (pin_nodes im)) (impl_at nl pos)), links = pin_at nl\<rparr>"

datatype netlist_op =
    Add_model model_base_impl
  | Delete_model model_pos
  | Create_node
  | Add_to_node model_pos nat node_ref
  | Remove_from_node model_pos nat node_ref
  | Delete_node node_ref

fun exec_op :: "nat \<Rightarrow> nat \<Rightarrow> netlist_op \<Rightarrow> netlist \<Rightarrow> netlist option" where
  "exec_op mcap ncap (Add_model m) nl = Some (snd (add_model mcap m nl))"
| "exec_op mcap ncap (Delete_model pos) nl = Some (snd (delete_model pos nl))"
| "exec_op mcap ncap Create_node nl = Some (snd (create_node ncap nl))"
| "exec_op mcap ncap (Add_to_node pos i r) nl = map_option snd (add_to_node pos i r nl)"
| "exec_op mcap ncap (Remove_from_node pos i r) nl = map_option snd (remove_from_node pos i r nl)"
| "exec_op mcap ncap (Delete_node r) nl = Some (delete_node r nl)"

text \<open>What a call owes: a live model, a free pin to connect, the own node to disconnect from, an existing node.\<close>

fun op_legal :: "netlist \<Rightarrow> netlist_op \<Rightarrow> bool" where
  "op_legal nl (Add_model m) = list_all (\<lambda>r. r = None) (pin_nodes m)"
| "op_legal nl (Delete_model pos) = True"
| "op_legal nl Create_node = True"
| "op_legal nl (Add_to_node pos i r) = (impl_at nl pos \<noteq> None \<and> pin_at nl (pos, i) = None \<and> node_at nl r \<noteq> None)"
| "op_legal nl (Remove_from_node pos i r) = (pin_at nl (pos, i) = Some r)"
| "op_legal nl (Delete_node r) = (node_at nl r \<noteq> None)"

inductive wiring_step :: "netlist_op \<Rightarrow> wiring \<Rightarrow> wiring \<Rightarrow> bool" where
  w_add: "sizes w pos = None \<Longrightarrow> wiring_step (Add_model m) w (w\<lparr>sizes := (sizes w)(pos \<mapsto> length (pin_nodes m))\<rparr>)"
| w_delete: "wiring_step (Delete_model pos) w
    (w\<lparr>sizes := (sizes w)(pos := None), links := (\<lambda>p. if fst p = pos then None else links w p)\<rparr>)"
| w_create: "wiring_step Create_node w w"
| w_connect: "sizes w pos = Some k \<Longrightarrow> i < k \<Longrightarrow> wiring_step (Add_to_node pos i r) w (w\<lparr>links := (links w)((pos, i) \<mapsto> r)\<rparr>)"
| w_range: "sizes w pos = Some k \<Longrightarrow> \<not> i < k \<Longrightarrow> wiring_step (Add_to_node pos i r) w w"
| w_disconnect: "links w (pos, i) = Some r \<Longrightarrow> wiring_step (Remove_from_node pos i r) w (w\<lparr>links := (links w)((pos, i) := None)\<rparr>)"
| w_clear: "wiring_step (Delete_node r) w (w\<lparr>links := (\<lambda>p. if links w p = Some r then None else links w p)\<rparr>)"

lemma wiring_eqI: "sizes w = sizes w' \<Longrightarrow> links w = links w' \<Longrightarrow> w = (w' :: wiring)"
  by (cases w; cases w') simp

lemma wiring_of_sel [simp]:
  "sizes (wiring_of nl) pos = map_option (\<lambda>im. length (pin_nodes im)) (impl_at nl pos)" "links (wiring_of nl) = pin_at nl"
  by (simp_all add: wiring_of_def)

lemma sizes_map_pins [simp]: "sizes (wiring_of (map_pins f nl)) = sizes (wiring_of nl)"
  by (auto simp: fun_eq_iff impl_at_map_pins option.map_comp comp_def)

lemma sizes_update_node [simp]: "sizes (wiring_of (update_node r f nl)) = sizes (wiring_of nl)"
  by (simp add: fun_eq_iff)

lemma sizes_pins [simp]: "sizes (wiring_of (set_pin p v nl)) = sizes (wiring_of nl)"
  unfolding set_pin_def by (rule sizes_map_pins)

lemma sizes_add_to_node: "add_to_node pos i r nl = Some (b, nl') \<Longrightarrow> sizes (wiring_of nl') = sizes (wiring_of nl)"
  by (auto simp: add_to_node_def split: option.splits if_splits)

lemma sizes_remove_from_node: "remove_from_node pos i r nl = Some (b, nl') \<Longrightarrow> sizes (wiring_of nl') = sizes (wiring_of nl)"
  by (auto simp: remove_from_node_def split: option.splits if_splits)

lemma sizes_delete_node: "sizes (wiring_of (delete_node r nl)) = sizes (wiring_of nl)"
  by (simp add: delete_node_def clear_node_t_def clear_node_def split: option.splits)

lemma live_pin_defined:
  "impl_at nl pos = Some im \<Longrightarrow> \<exists>b nl'. add_to_node pos i r nl = Some (b, nl')"
  "pin_at nl (pos, i) = Some r \<Longrightarrow> \<exists>b nl'. remove_from_node pos i r nl = Some (b, nl')"
  by (auto simp: add_to_node_def remove_from_node_def impl_at_def pin_at_def split: option.splits bind_splits)

lemma refine_add:
  assumes "netlist_ok nl" "op_legal nl (Add_model m)"
  shows "\<exists>nl'. exec_op mcap ncap (Add_model m) nl = Some nl' \<and> netlist_ok nl' \<and> wiring_step (Add_model m) (wiring_of nl) (wiring_of nl')"
proof -
  obtain pos nl' where add: "add_model mcap m nl = (pos, nl')" by fastforce
  note a = add_model_ok [OF assms(1) _ add]
  have old: "impl_at nl pos = None" using a assms(2) by (simp add: impl_at_def)
  have "wiring_of nl' = (wiring_of nl)\<lparr>sizes := (sizes (wiring_of nl))(pos \<mapsto> length (pin_nodes m))\<rparr>"
    using a assms(2) by (intro wiring_eqI) (auto simp: fun_eq_iff impl_at_def model_base_of_def)
  then show ?thesis using a assms(2) add old w_add [of "wiring_of nl" pos m] by simp
qed

lemma refine_connect:
  assumes "netlist_ok nl" "op_legal nl (Add_to_node pos i r)"
  shows "\<exists>nl'. exec_op mcap ncap (Add_to_node pos i r) nl = Some nl' \<and> netlist_ok nl' \<and>
    wiring_step (Add_to_node pos i r) (wiring_of nl) (wiring_of nl')"
proof -
  obtain im where im: "impl_at nl pos = Some im" using assms(2) by auto
  obtain b nl' where add: "add_to_node pos i r nl = Some (b, nl')" using live_pin_defined(1) [OF im] by blast
  have a: "netlist_ok nl'" "pin_at nl' = (if b then (pin_at nl)((pos, i) := Some r) else pin_at nl)" "b = (i < length (pin_nodes im))"
    using add_to_node_ok [OF assms(1) _ _ add] assms(2) im by (auto simp: valid_pin_def)
  have w: "wiring_of nl' = (if b then (wiring_of nl)\<lparr>links := (links (wiring_of nl))((pos, i) \<mapsto> r)\<rparr> else wiring_of nl)"
    using a sizes_add_to_node [OF add] by (intro wiring_eqI) simp_all
  have "wiring_step (Add_to_node pos i r) (wiring_of nl) (wiring_of nl')"
    unfolding w using a(3) im w_connect [of "wiring_of nl" pos "length (pin_nodes im)" i r] w_range [of "wiring_of nl" pos "length (pin_nodes im)" i r]
    by simp
  then show ?thesis using a(1) add by simp
qed

lemma refine_disconnect:
  assumes "netlist_ok nl" "op_legal nl (Remove_from_node pos i r)"
  shows "\<exists>nl'. exec_op mcap ncap (Remove_from_node pos i r) nl = Some nl' \<and> netlist_ok nl' \<and>
    wiring_step (Remove_from_node pos i r) (wiring_of nl) (wiring_of nl')"
proof -
  have p: "pin_at nl (pos, i) = Some r" using assms(2) by simp
  obtain b nl' where rem: "remove_from_node pos i r nl = Some (b, nl')" using live_pin_defined(2) [OF p] by blast
  note a = remove_from_node_ok [OF assms(1) p rem]
  have "wiring_of nl' = (wiring_of nl)\<lparr>links := (links (wiring_of nl))((pos, i) := None)\<rparr>"
    using a sizes_remove_from_node [OF rem] by (intro wiring_eqI) simp_all
  then show ?thesis using a rem p w_disconnect [of "wiring_of nl" pos i r] by simp
qed

lemma refine_delete:
  assumes "netlist_ok nl"
  shows "netlist_ok (snd (delete_model pos nl)) \<and> wiring_step (Delete_model pos) (wiring_of nl) (wiring_of (snd (delete_model pos nl)))"
proof -
  obtain b nl' where del: "delete_model pos nl = (b, nl')" by fastforce
  note d = delete_model_ok [OF assms del]
  have "wiring_of nl' = (wiring_of nl)\<lparr>sizes := (sizes (wiring_of nl))(pos := None),
      links := (\<lambda>p. if fst p = pos then None else links (wiring_of nl) p)\<rparr>"
    using d by (intro wiring_eqI) (auto simp: fun_eq_iff)
  then show ?thesis using d del w_delete [of pos "wiring_of nl"] by simp
qed

lemma refine_clear:
  assumes "netlist_ok nl" "node_at nl r = Some n"
  shows "netlist_ok (delete_node r nl) \<and> wiring_step (Delete_node r) (wiring_of nl) (wiring_of (delete_node r nl))"
proof -
  note d = delete_node_ok [OF assms]
  have "wiring_of (delete_node r nl) = (wiring_of nl)\<lparr>links := (\<lambda>p. if links (wiring_of nl) p = Some r then None else links (wiring_of nl) p)\<rparr>"
    using d sizes_delete_node [of r nl] by (intro wiring_eqI) (simp_all add: fun_eq_iff)
  then show ?thesis using d w_clear [of r "wiring_of nl"] by simp
qed

lemma refine_create:
  assumes "netlist_ok nl"
  shows "netlist_ok (snd (create_node ncap nl)) \<and> wiring_of (snd (create_node ncap nl)) = wiring_of nl"
  using create_node_ok [OF assms, of ncap "fst (create_node ncap nl)" "snd (create_node ncap nl)"]
  by (auto intro!: wiring_eqI simp: create_node_def fun_eq_iff impl_at_def get_model_def push_node_def)

subsection \<open>A small netlist\<close>

text \<open>
  A run of legal operations, and one with two resistors: the first between ground and a node, the
  second between two nodes of its own. Chunks hold two models and two nodes.
\<close>

fun legal_run :: "nat \<Rightarrow> nat \<Rightarrow> netlist_op list \<Rightarrow> netlist \<Rightarrow> netlist option" where
  "legal_run mcap ncap [] nl = Some nl"
| "legal_run mcap ncap (op # ops) nl =
     (if op_legal nl op then Option.bind (exec_op mcap ncap op nl) (legal_run mcap ncap ops) else None)"

lemma exec_op_step: "op_legal nl op \<Longrightarrow> exec_op mcap ncap op nl = Some nl' \<Longrightarrow> netlist_step mcap ncap nl nl'"
  by (cases op) (auto intro: netlist_step.intros prod.collapse [symmetric])

lemma legal_run_reachable: "legal_run mcap ncap ops nl = Some nl' \<Longrightarrow> (netlist_step mcap ncap)\<^sup>*\<^sup>* nl nl'"
  by (induction mcap ncap ops nl rule: legal_run.induct)
    (auto simp: bind_eq_Some_conv split: if_splits intro: exec_op_step converse_rtranclp_into_rtranclp)

definition resistor :: model_base_impl where
  "resistor = \<lparr>device_type = linear, pin_nodes = [None, None]\<rparr>"

definition demo_pos :: "nat \<Rightarrow> model_pos" where
  "demo_pos v = \<lparr>vec_pos = v, chunk_pos = 0\<rparr>"

definition demo_ops :: "netlist_op list" where
  "demo_ops =
     [Add_model resistor, Add_model resistor, Create_node, Create_node, Create_node,
      Add_to_node (demo_pos 0) 0 Ground, Add_to_node (demo_pos 0) 1 (Node 0 0),
      Add_to_node (demo_pos 1) 0 (Node 0 1), Add_to_node (demo_pos 1) 1 (Node 1 0)]"

definition wired :: "node_ref \<Rightarrow> node_ref \<Rightarrow> model_base" where
  "wired a b = model_base_of (resistor\<lparr>pin_nodes := [Some a, Some b]\<rparr>)"

definition demo_node :: "pin_ref \<Rightarrow> node_t" where
  "demo_node p = new_node_t\<lparr>pins := {p}, num_of_analog_node := 1\<rparr>"

definition demo_net :: netlist where
  "demo_net =
     \<lparr>models = [\<lparr>cells = [wired Ground (Node 0 0), wired (Node 0 1) (Node 1 0)], num_of_null_model = 0\<rparr>],
      nl_nodes = [[demo_node (demo_pos 0, 1), demo_node (demo_pos 1, 0)], [demo_node (demo_pos 1, 1)]],
      ground_node = demo_node (demo_pos 0, 0)\<rparr>"

lemmas demo_net_simps = resistor_def demo_pos_def wired_def demo_node_def demo_net_def new_node_t_def model_base_of_def new_model_base_def

lemma demo_run: "legal_run 2 2 demo_ops empty_netlist = Some demo_net"
  by (simp add: demo_ops_def demo_net_simps empty_netlist_def add_model_def push_model_def push_cell_def new_model_block_def
    create_node_def push_node_def impl_at_def pin_at_def get_model_def add_to_node_def plug_def set_pin_def map_pins_def map_block_def map_impl_def)

lemma demo_reachable: "(netlist_step 2 2)\<^sup>*\<^sup>* empty_netlist demo_net"
  by (rule legal_run_reachable [OF demo_run])

lemma demo_net_ok: "netlist_ok demo_net"
  by (rule reachable_netlist_ok [OF demo_reachable])

subsection \<open>Refinement\<close>

text \<open>
  C9: Every legal call of a netlist operation on a netlist that satisfies the invariant returns,
  keeps the invariant, and does to the connection table (the live models with their pin counts and
  the node of every pin) exactly what the operation promises: a new model gets an unused position,
  deleting a model disconnects all its pins, connecting out of range changes nothing, deleting a
  node disconnects the pins on it.
\<close>

theorem netlist_refines_wiring:
  assumes "netlist_ok nl" "op_legal nl op"
  shows "\<exists>nl'. exec_op mcap ncap op nl = Some nl' \<and> netlist_ok nl' \<and> wiring_step op (wiring_of nl) (wiring_of nl')"
proof (cases op)
  case (Delete_model pos)
  then show ?thesis using refine_delete [OF assms(1)] by simp
next
  case Create_node
  then show ?thesis using refine_create [OF assms(1)] by (simp add: w_create)
next
  case (Delete_node r)
  then show ?thesis using refine_clear [OF assms(1), of r] assms(2) by auto
qed (use assms refine_add refine_connect refine_disconnect in blast)+

theorem netlist_refines_wiring_witness:
  "\<exists>nl'. exec_op 2 2 (Delete_model (demo_pos 0)) demo_net = Some nl' \<and> netlist_ok nl' \<and>
     wiring_step (Delete_model (demo_pos 0)) (wiring_of demo_net) (wiring_of nl')"
  using netlist_refines_wiring [OF demo_net_ok, of "Delete_model (demo_pos 0)" 2 2] by simp

subsection \<open>Every reachable netlist\<close>

text \<open>
  C23: In every netlist reachable from the empty one by adding and deleting models, creating and
  deleting nodes, connecting free pins and disconnecting pins from their node, each node lists
  exactly the pins that point at it and counts the analog ones among them, pins point at existing
  nodes, and the counted number of models equals the number found by inspection.
\<close>

theorem netlist_invariant:
  assumes "(netlist_step mcap ncap)\<^sup>*\<^sup>* empty_netlist nl"
  shows "(\<forall>r n. node_at nl r = Some n \<longrightarrow> pins n = {p. pin_at nl p = Some r} \<and> finite (pins n) \<and>
        num_of_analog_node n = of_nat (card {p \<in> pins n. \<not> is_digital nl (fst p)})) \<and>
    (\<forall>p r. pin_at nl p = Some r \<longrightarrow> node_at nl r \<noteq> None) \<and>
    get_num_of_model nl = of_nat (get_num_of_model_checked nl)"
proof -
  have ok: "netlist_ok nl" using assms by (rule reachable_netlist_ok)
  then have "graph_ok (node_at nl) (pin_at nl) (is_digital nl)" by (rule netlist_okD)
  then show ?thesis using num_of_model_exact [OF ok] unfolding graph_ok_def links_ok_def analog_pins_def by blast
qed

theorem netlist_invariant_witness:
  "pins (ground_node demo_net) = {p. pin_at demo_net p = Some Ground} \<and>
   num_of_analog_node (ground_node demo_net) = of_nat (card {p \<in> pins (ground_node demo_net). \<not> is_digital demo_net (fst p)}) \<and>
   get_num_of_model demo_net = of_nat (get_num_of_model_checked demo_net)"
  using netlist_invariant [OF demo_reachable] node_at.simps(1) [of demo_net] by blast

subsection \<open>Copies\<close>

lemma all_models_at: "m \<in> set (all_models nl) \<Longrightarrow> \<exists>pos. get_model nl pos = Some m"
proof -
  assume "m \<in> set (all_models nl)"
  then obtain b where "b \<in> set (models nl)" "m \<in> set (cells b)" by (auto simp: all_models_def)
  then obtain c v where "c < length (models nl)" "v < length (cells (models nl ! c))" "cells (models nl ! c) ! v = m"
    by (metis in_set_conv_nth)
  then have "get_model nl \<lparr>vec_pos = v, chunk_pos = c\<rparr> = Some m" by (simp add: get_model_def Let_def)
  then show ?thesis by blast
qed

lemma model_pins_exist:
  assumes "netlist_ok nl" "m \<in> set (all_models nl)"
  shows "model_ok m \<and> (\<forall>im r. mb_ptr m = Some im \<longrightarrow> Some r \<in> set (pin_nodes im) \<longrightarrow> node_at nl r \<noteq> None)"
proof -
  obtain pos where pos: "get_model nl pos = Some m" using all_models_at [OF assms(2)] by blast
  have "node_at nl r \<noteq> None" if im: "mb_ptr m = Some im" and r: "Some r \<in> set (pin_nodes im)" for im r
  proof -
    obtain i where "i < length (pin_nodes im)" "pin_nodes im ! i = Some r" using r by (auto simp: in_set_conv_nth)
    then have "pin_at nl (pos, i) = Some r" using pos im by (auto simp: pin_at_model)
    then show ?thesis using graph_okD(2) [OF netlist_okD(1) [OF assms(1)]] by blast
  qed
  then show ?thesis using get_model_ok [OF netlist_okD(2) [OF assms(1)] pos] by blast
qed

lemma copy_run:
  assumes ok: "netlist_ok nl" and nodes0: "node_at nl0 = [Ground \<mapsto> g]" and ms0: "models nl0 = []"
    and g: "pins g = {}" "num_of_analog_node g = 0"
    and run: "copy_nodes ncap (node_list nl) [Ground \<mapsto> Ground] nl0 = (f, nl1)"
  shows "\<exists>nl'. copy_models mcap f (all_models nl) nl1 = Some nl' \<and> f Ground = Some Ground \<and> inj_on f (dom f) \<and>
     dom f = dom (node_at nl) \<and> all_models nl' = map (moved f) (all_models nl) \<and> linked nl' \<and> uncounted nl' \<and>
     (\<forall>r n. r \<noteq> Ground \<longrightarrow> node_at nl r = Some n \<longrightarrow>
        map_option node_info (Option.bind (f r) (node_at nl')) = Some (node_info n))"
proof -
  have names: "fst ` set (node_list nl) = dom (node_at nl) - {Ground}" using mem_node_list by (force simp: dom_def image_iff)
  have m0: "map_ok [Ground \<mapsto> Ground] nl0" by (simp add: map_ok_def nodes0)
  have c: "map_ok f nl1 \<and> dom f = dom [Ground \<mapsto> Ground] \<union> fst ` set (node_list nl) \<and>
     (\<forall>r \<in> dom [Ground \<mapsto> Ground]. f r = [Ground \<mapsto> Ground] r) \<and>
     (\<forall>(r, n) \<in> set (node_list nl). \<exists>r'. f r = Some r' \<and> node_at nl1 r' = Some (copy_node_t n))"
    by (rule copy_nodes_map [OF run m0 distinct_node_list]) (simp add: names)
  have fG: "f Ground = Some Ground" using c by simp
  have dom: "dom f = dom (node_at nl)" using c names by auto
  have empty: "\<forall>r n. node_at nl1 r = Some n \<longrightarrow> pins n = {} \<and> num_of_analog_node n = 0"
    by (rule copy_nodes_new [OF run]) (use g nodes0 in \<open>auto simp: copy_node_t_def new_node_t_def split: if_splits\<close>)
  have ms1: "models nl1 = []" using copy_nodes_models [OF run] ms0 by simp
  then have none: "pin_at nl1 p = None" for p by (simp add: pin_at_def impl_at_def get_model_def)
  have "linked nl1" "uncounted nl1" using empty ms1 none by (auto simp: linked_def uncounted_def)
  moreover have "\<forall>m \<in> set (all_models nl). model_ok m \<and> (\<forall>im r. mb_ptr m = Some im \<longrightarrow> Some r \<in> set (pin_nodes im) \<longrightarrow> f r \<noteq> None)"
    using model_pins_exist [OF ok] dom by (fastforce simp: dom_def)
  ultimately obtain nl' where nl': "copy_models mcap f (all_models nl) nl1 = Some nl'" "linked nl'" "uncounted nl'"
      "all_models nl' = all_models nl1 @ map (moved f) (all_models nl)"
      "\<forall>r. map_option node_info (node_at nl' r) = map_option node_info (node_at nl1 r)"
    using copy_models_run [of "all_models nl" f nl1 mcap] c by blast
  have "map_option node_info (Option.bind (f r) (node_at nl')) = Some (node_info n)" if "r \<noteq> Ground" "node_at nl r = Some n" for r n
  proof -
    have "(r, n) \<in> set (node_list nl)" using that by (simp add: mem_node_list)
    then obtain r' where "f r = Some r'" "node_at nl1 r' = Some (copy_node_t n)" using c by blast
    then show ?thesis using nl'(5) by (simp add: copy_node_t_def)
  qed
  moreover have "all_models nl1 = []" using ms1 by (simp add: all_models_def)
  ultimately show ?thesis using nl' fG dom c by (auto simp: map_ok_def)
qed

lemma copy_netlist_run:
  assumes "netlist_ok nl"
  obtains nl' f where "copy_netlist mcap ncap nl = Some nl'" "f Ground = Some Ground" "inj_on f (dom f)"
    "dom f = dom (node_at nl)" "all_models nl' = map (moved f) (all_models nl)" "linked nl'" "uncounted nl'"
    "\<forall>r n. r \<noteq> Ground \<longrightarrow> node_at nl r = Some n \<longrightarrow> map_option node_info (Option.bind (f r) (node_at nl')) = Some (node_info n)"
proof -
  obtain f nl1 where run: "copy_nodes ncap (node_list nl) [Ground \<mapsto> Ground] empty_netlist = (f, nl1)" by fastforce
  have "node_at empty_netlist r = [Ground \<mapsto> new_node_t] r" for r by (cases r) (simp_all add: empty_netlist_def)
  then have n0: "node_at empty_netlist = [Ground \<mapsto> new_node_t]" by blast
  have "models empty_netlist = []" "pins new_node_t = {}" "num_of_analog_node new_node_t = 0"
    by (simp_all add: empty_netlist_def new_node_t_def)
  note c = copy_run [OF assms n0 this run, of mcap]
  have "copy_netlist mcap ncap nl = copy_models mcap f (all_models nl) nl1" using run by (simp add: copy_netlist_def)
  then show ?thesis using c that by (elim exE conjE) simp
qed

lemma assign_netlist_copy: "assign_netlist mcap ncap False nl other = copy_netlist mcap ncap other"
proof -
  have "nl\<lparr>models := [], nl_nodes := [], ground_node := (ground_node nl)\<lparr>pins := {}, num_of_analog_node := 0,
      node_index := SIZE_MAX, node_info := DN false_state\<rparr>\<rparr> = empty_netlist"
    by (cases nl; cases "ground_node nl") (simp add: empty_netlist_def new_node_t_def)
  then show ?thesis by (simp add: assign_netlist_def copy_netlist_def Let_def)
qed

text \<open>
  Copying a netlist that satisfies the invariant, by the constructor or by assignment to any
  other netlist, returns the same models in the same order with their pins moved along an
  injective renaming of all nodes that keeps ground; the copied nodes list exactly the pins that
  point at them and keep their information.
\<close>

theorem copy_netlist_structure:
  assumes "netlist_ok nl"
  shows "\<exists>nl' f. copy_netlist mcap ncap nl = Some nl' \<and> assign_netlist mcap ncap False target nl = Some nl' \<and>
     f Ground = Some Ground \<and> inj_on f (dom f) \<and> dom f = dom (node_at nl) \<and>
     all_models nl' = map (moved f) (all_models nl) \<and> linked nl' \<and>
     (\<forall>r n. r \<noteq> Ground \<longrightarrow> node_at nl r = Some n \<longrightarrow>
        map_option node_info (Option.bind (f r) (node_at nl')) = Some (node_info n))"
proof (rule copy_netlist_run [OF assms, of mcap ncap], goal_cases)
  case (1 nl' f)
  then show ?case unfolding assign_netlist_copy by (intro exI [of _ nl'] exI [of _ f] conjI)
qed

theorem copy_netlist_structure_witness:
  "\<exists>nl' f. copy_netlist 2 2 demo_net = Some nl' \<and> assign_netlist 2 2 False demo_net demo_net = Some nl' \<and>
     f Ground = Some Ground \<and> inj_on f (dom f) \<and> dom f = dom (node_at demo_net) \<and>
     all_models nl' = map (moved f) (all_models demo_net) \<and> linked nl'"
  using copy_netlist_structure [OF demo_net_ok, of 2 2 demo_net] by blast

lemma fold_size: "\<forall>b \<in> set bs. num_of_null_model b = 0 \<Longrightarrow>
  fold (\<lambda>i res. res + block_num_of_model i) bs k = k + of_nat (length (concat (map cells bs)))"
  by (induction bs arbitrary: k) (simp_all add: block_num_of_model_def add.assoc)

text \<open>
  In a copy every node has an analog counter of zero, whatever is connected to it, and the
  counted number of models includes the deleted ones.
\<close>

theorem copy_netlist_uncounted:
  assumes "netlist_ok nl"
  shows "\<exists>nl'. copy_netlist mcap ncap nl = Some nl' \<and> (\<forall>r n. node_at nl' r = Some n \<longrightarrow> num_of_analog_node n = 0) \<and>
     get_num_of_model nl' = of_nat (length (all_models nl))"
proof (rule copy_netlist_run [OF assms, of mcap ncap])
  fix nl' f
  assume "copy_netlist mcap ncap nl = Some nl'" "all_models nl' = map (moved f) (all_models nl)" "uncounted nl'"
  then show ?thesis using fold_size [of "models nl'" 0]
    by (intro exI [of _ nl']) (simp add: uncounted_def get_num_of_model_def flip: all_models_def)
qed

theorem copy_netlist_uncounted_witness:
  "\<exists>nl'. copy_netlist 2 2 demo_net = Some nl' \<and> num_of_analog_node (ground_node nl') = 0 \<and> get_num_of_model nl' = 2"
proof -
  have "length (all_models demo_net) = 2" by (simp add: all_models_def demo_net_def)
  then show ?thesis using copy_netlist_uncounted [OF demo_net_ok, of 2 2] node_at.simps(1) by fastforce
qed

subsection \<open>Merging nodes\<close>

text \<open>
  Merging one node of a netlist that satisfies the invariant into another moves exactly its
  pins and leaves the nodes listing the pins that point at them, but the analog counter of the
  remaining node still counts only the pins it had before.
\<close>

theorem merge_node_effect:
  assumes "netlist_ok nl" "node_at nl r = Some n" "node_at nl other = Some m" "r \<noteq> other"
  shows "pin_at (merge_node r other nl) = (\<lambda>p. if pin_at nl p = Some other then Some r else pin_at nl p) \<and>
    linked (merge_node r other nl) \<and>
    map_option num_of_analog_node (node_at (merge_node r other nl) r) =
      Some (of_nat (card {p. pin_at nl p = Some r \<and> \<not> is_digital nl (fst p)}))"
proof -
  note m = merge_node_links [OF assms]
  have ok: "graph_ok (node_at nl) (pin_at nl) (is_digital nl)" using assms(1) by (rule netlist_okD)
  have pins: "pins k = {p. pin_at nl p = Some q}" if "node_at nl q = Some k" for q k
    using graph_okD(1) [OF ok that] by (simp add: links_ok_def)
  have "linked (merge_node r other nl)"
    using m assms(2-4) pins graph_okD(2) [OF ok] by (auto simp: linked_def destroy_def split: if_splits)
  moreover have "num_of_analog_node n = of_nat (card {p. pin_at nl p = Some r \<and> \<not> is_digital nl (fst p)})"
    using graph_okD(1) [OF ok assms(2)] by (simp add: links_ok_def analog_pins_def)
  ultimately show ?thesis using m assms(4) by simp
qed

theorem merge_node_effect_witness:
  "pin_at (merge_node (Node 0 0) (Node 0 1) demo_net) =
     (\<lambda>p. if pin_at demo_net p = Some (Node 0 1) then Some (Node 0 0) else pin_at demo_net p) \<and>
   linked (merge_node (Node 0 0) (Node 0 1) demo_net)"
  using merge_node_effect [OF demo_net_ok, of "Node 0 0" "demo_node (demo_pos 0, 1)" "Node 0 1" "demo_node (demo_pos 1, 0)"]
  by (simp add: demo_net_def)

subsection \<open>Floating subnets\<close>

text \<open>The pins of a set in the order of the model chunk, the model and the pin number.\<close>

definition address_order :: "pin_ref set \<Rightarrow> pin_ref list" where
  "address_order P =
     map (\<lambda>(c, v, i). (\<lparr>vec_pos = v, chunk_pos = c\<rparr>, i))
       (sorted_list_of_set ((\<lambda>(pos, i). (chunk_pos pos, vec_pos pos, i)) ` P))"

lemma enumerates_address_order: "enumerates address_order"
proof -
  have "(\<lambda>(c, v, i). (\<lparr>vec_pos = v, chunk_pos = c\<rparr>, i)) ((\<lambda>(pos, i). (chunk_pos pos, vec_pos pos, i)) p) = p" for p :: pin_ref
    by (cases p) (cases "fst p", simp)
  then have "set (address_order P) = P" if "finite P" for P
    using that by (simp add: address_order_def image_image)
  then show ?thesis by (simp add: enumerates_def)
qed

lemma address_order_single [simp]: "address_order {(pos, i)} = [(pos, i)]"
  by (cases pos) (simp add: address_order_def)

lemma map_filter_id [simp]: "List.map_filter id [Some a, Some b] = [a, b]"
  by (simp add: map_filter_simps)

lemma demo_detect: "detect address_order demo_net = [[Node 0 1, Node 1 0]]"
  by (simp add: detect_def connected_nodes_def node_list_def others_def neighbours_def pin_model_def get_model_def model_nodes_def
    demo_net_simps)

text \<open>
  C10: For a netlist that satisfies the invariant and any order in which the pins of a node are
  visited, the detected subnets contain exactly the nodes with a pin that no chain of models
  connects to ground, each once; no subnet is empty, and each is the set of nodes connected to any
  of its members.
\<close>

theorem floating_subnets_exact:
  assumes "netlist_ok nl" "enumerates ord"
  shows "set (concat (detect ord nl)) = {r. (\<exists>n. node_at nl r = Some n \<and> pins n \<noteq> {}) \<and> \<not> (adj nl)\<^sup>*\<^sup>* Ground r} \<and>
    distinct (concat (detect ord nl)) \<and> [] \<notin> set (detect ord nl) \<and>
    (\<forall>sub \<in> set (detect ord nl). \<forall>r \<in> set sub. set sub = {q. (adj nl)\<^sup>*\<^sup>* r q})"
proof -
  note d = detect_components [OF assms]
  have "set (concat (detect ord nl)) = {r. (\<exists>n. node_at nl r = Some n \<and> pins n \<noteq> {}) \<and> \<not> (adj nl)\<^sup>*\<^sup>* Ground r}"
    unfolding d(1) by (auto simp: set_connected_nodes net.comp_def)
  moreover have "[] \<notin> set (detect ord nl)" using d(3) by blast
  moreover have "\<forall>sub \<in> set (detect ord nl). \<forall>r \<in> set sub. set sub = {q. (adj nl)\<^sup>*\<^sup>* r q}"
    using d(3) unfolding net.comp_def by blast
  ultimately show ?thesis using d(2) by blast
qed

theorem floating_subnets_exact_witness:
  "detect address_order demo_net = [[Node 0 1, Node 1 0]] \<and>
   set (concat (detect address_order demo_net)) =
     {r. (\<exists>n. node_at demo_net r = Some n \<and> pins n \<noteq> {}) \<and> \<not> (adj demo_net)\<^sup>*\<^sup>* Ground r}"
proof
  show "detect address_order demo_net = [[Node 0 1, Node 1 0]]" by (rule demo_detect)
  show "set (concat (detect address_order demo_net)) =
     {r. (\<exists>n. node_at demo_net r = Some n \<and> pins n \<noteq> {}) \<and> \<not> (adj demo_net)\<^sup>*\<^sup>* Ground r}"
    using floating_subnets_exact [OF demo_net_ok enumerates_address_order] by blast
qed

end
