(* ===== verification/Digital_Facts.thy ===== *)
theory Digital_Facts
  imports Digital_Live Tri_State Device_Bounds Attribute_Props Netlist_Facts
begin

text \<open>What the digital engine promises, on circuits wired through the netlist.\<close>

subsection \<open>A demonstration circuit\<close>

text \<open>An input drives an inverter.\<close>

definition digital_impl :: "nat \<Rightarrow> model_base_impl" where
  "digital_impl k = \<lparr>device_type = digital, pin_nodes = replicate k None\<rparr>"

definition inverter_ops :: "netlist_op list" where
  "inverter_ops =
     [Add_model (digital_impl 1), Add_model (digital_impl 2), Create_node, Create_node,
      Add_to_node (demo_pos 0) 0 (Node 0 0), Add_to_node (demo_pos 1) 0 (Node 0 0), Add_to_node (demo_pos 1) 1 (Node 0 1)]"

definition inverter_net :: netlist where
  "inverter_net =
     \<lparr>models = [\<lparr>cells = [model_base_of \<lparr>device_type = digital, pin_nodes = [Some (Node 0 0)]\<rparr>,
         model_base_of \<lparr>device_type = digital, pin_nodes = [Some (Node 0 0), Some (Node 0 1)]\<rparr>], num_of_null_model = 0\<rparr>],
      nl_nodes = [[new_node_t\<lparr>pins := {(demo_pos 0, 0), (demo_pos 1, 0)}\<rparr>, new_node_t\<lparr>pins := {(demo_pos 1, 1)}\<rparr>]],
      ground_node = new_node_t\<rparr>"

lemma inverter_run: "legal_run 2 2 inverter_ops empty_netlist = Some inverter_net"
  by (simp add: inverter_ops_def inverter_net_def digital_impl_def demo_pos_def new_node_t_def model_base_of_def new_model_base_def
    empty_netlist_def add_model_def push_model_def push_cell_def new_model_block_def create_node_def push_node_def impl_at_def pin_at_def
    get_model_def add_to_node_def plug_def set_pin_def map_pins_def map_block_def map_impl_def numeral_2_eq_2 insert_commute)

lemma inverter_net_ok: "netlist_ok inverter_net"
  by (rule reachable_netlist_ok [OF legal_run_reachable [OF inverter_run]])

definition new_circuit :: "netlist \<Rightarrow> (model_pos \<Rightarrow> digital_model option) \<Rightarrow> digital_circuit" where
  "new_circuit nl ds =
     \<lparr>store = \<lparr>dnet = nl, tables = {}\<rparr>, dmodels = ds, always_tables = {}, size_t_to_node_p = [], digital_out = [], before_all_clk_digital_model = [],
      after_all_clk_digital_model = [], tr_duration = 0, has_prepare = False\<rparr>"

definition inverter :: digital_circuit where
  "inverter = new_circuit inverter_net [demo_pos 0 \<mapsto> new_INPUT, demo_pos 1 \<mapsto> new_NOT]"

lemma demo_pos_eq [simp]: "demo_pos i = demo_pos j \<longleftrightarrow> i = j"
  by (simp add: demo_pos_def)

lemma inverter_pins: "pins_of inverter (demo_pos 0) = [Some (Node 0 0)]" "pins_of inverter (demo_pos (Suc 0)) = [Some (Node 0 0), Some (Node 0 1)]"
  by (simp_all add: inverter_def new_circuit_def pins_of_def inverter_net_def impl_at_def get_model_def demo_pos_def model_base_of_def new_model_base_def)

lemma inverter_nodes: "node_at inverter_net (Node c i) = Some n \<longleftrightarrow>
   c = 0 \<and> i = 0 \<and> n = new_node_t\<lparr>pins := {(demo_pos 0, 0), (demo_pos 1, 0)}\<rparr> \<or>
   c = 0 \<and> i = 1 \<and> n = new_node_t\<lparr>pins := {(demo_pos 1, 1)}\<rparr>"
  by (auto simp: inverter_net_def nth_Cons' less_Suc_eq)

lemma inverter_digital: "digital_net (store inverter)"
  unfolding digital_net_def
proof (intro allI impI)
  fix r n assume "node_at (dnet (store inverter)) r = Some n"
  then show "num_of_analog_node n = 0"
    by (cases r) (auto simp: inverter_def new_circuit_def inverter_nodes new_node_t_def simp del: node_at.simps(2), simp add: inverter_net_def new_node_t_def)
qed

lemma inverter_devices:
  "dmodels inverter pos = Some d \<longleftrightarrow> pos = demo_pos 0 \<and> d = new_INPUT \<or> pos = demo_pos (Suc 0) \<and> d = new_NOT"
  by (auto simp: inverter_def new_circuit_def)

lemma inverter_is_digital: "is_digital (dnet (store inverter)) (demo_pos 0)" "is_digital (dnet (store inverter)) (demo_pos (Suc 0))"
  by (simp_all add: inverter_def new_circuit_def inverter_net_def is_digital_def impl_at_def get_model_def demo_pos_def model_base_of_def new_model_base_def)

lemma inverter_valid: "valid_node (store inverter) (Node 0 0)" "valid_node (store inverter) (Node 0 1)"
  by (simp_all add: valid_node_def inverter_def new_circuit_def inverter_net_def)

lemma inverter_fresh: "fresh_circuit inverter"
  unfolding fresh_circuit_def circuit_ok_def
proof (intro conjI allI impI)
  show "netlist_ok (dnet (store inverter))" using inverter_net_ok by (simp add: inverter_def new_circuit_def)
  show "digital_net (store inverter)" by (rule inverter_digital)
  show "\<not> has_prepare inverter" by (simp add: inverter_def new_circuit_def)
  fix pos d assume d: "dmodels inverter pos = Some d"
  show "is_digital (dnet (store inverter)) pos" using d by (auto simp: inverter_devices inverter_is_digital)
  show "wired_ok (pins_of inverter pos) d (store inverter)"
    using d inverter_digital inverter_valid
    by (auto simp: inverter_devices inverter_pins wired_ok_def new_INPUT_def new_NOT_def)
  show "configured d" using d by (auto simp: inverter_devices new_devices_def intro: configured.constructed)
  show "Some Ground \<notin> set (pins_of inverter pos)" using d by (auto simp: inverter_devices inverter_pins)
next
  fix p q d e assume "p \<noteq> q" "dmodels inverter p = Some d" "dmodels inverter q = Some e"
  then show "set (out_nodes (pins_of inverter p) d) \<inter> set (out_nodes (pins_of inverter q) e) = {}"
    by (auto simp: inverter_devices inverter_pins new_INPUT_def new_NOT_def)
qed

text \<open>Comparisons of doubles do not matter on digital nodes; pending nodes in address order.\<close>

definition demo_f64 :: f64_ops where
  "demo_f64 = \<lparr>f64_ge = (\<lambda>a b. b \<le> a), f64_le = (\<lambda>a b. a \<le> b), f64_gt = (\<lambda>a b. b < a), f64_sub = (\<lambda>a b. a - b)\<rparr>"

fun node_address :: "node_ref \<Rightarrow> nat \<times> nat \<times> nat" where
  "node_address Ground = (0, 0, 0)"
| "node_address (Node c i) = (1, c, i)"

definition node_of_address :: "nat \<times> nat \<times> nat \<Rightarrow> node_ref" where
  "node_of_address a = (case a of (k, c, i) \<Rightarrow> if k = 0 then Ground else Node c i)"

definition first_pending :: "node_ref set \<Rightarrow> node_ref" where
  "first_pending T = node_of_address (Min (node_address ` T))"

lemma first_pending_in: "finite T \<Longrightarrow> T \<noteq> {} \<Longrightarrow> first_pending T \<in> T"
proof -
  assume "finite T" "T \<noteq> {}"
  then have "Min (node_address ` T) \<in> node_address ` T" by (intro Min_in) auto
  moreover have "node_of_address (node_address r) = r" for r by (cases r) (simp_all add: node_of_address_def)
  ultimately show "first_pending T \<in> T" by (auto simp: first_pending_def)
qed

subsection \<open>Settling\<close>

text \<open>The outputs of a combinational device fit its inputs.\<close>

definition device_fits :: "digital_circuit \<Rightarrow> model_pos \<Rightarrow> bool" where
  "device_fits c pos \<longleftrightarrow>
     (\<forall>d f. dmodels c pos = Some d \<longrightarrow> comb d = Some f \<longrightarrow> None \<notin> set (pins_of c pos) \<longrightarrow>
        map (state_of (store c)) (out_nodes (pins_of c pos) d) = f (map (state_of (store c)) (nodes_at (pins_of c pos) (in_pins d))))"

lemma device_fits_good: "device_fits c pos \<longleftrightarrow> device_good pos c"
  by (auto simp: device_fits_def device_good_def settled_device_def split: option.splits)


text \<open>One tick of the inverter.\<close>

definition inverter_cost :: "model_pos \<Rightarrow> nat" where
  "inverter_cost p = (if p = demo_pos 0 then 2 else 1)"

definition inverter_tick :: digital_circuit where
  "inverter_tick = digital_clk demo_f64 first_pending address_order (prepare inverter)"

lemma inverter_views:
  "dom (dmodels inverter) = {demo_pos 0, demo_pos (Suc 0)}" "device_outs (demo_pos 0) inverter = {Node 0 0}"
  "device_outs (demo_pos (Suc 0)) inverter = {Node 0 1}" "device_reads (demo_pos 0) inverter = {}"
  "device_reads (demo_pos (Suc 0)) inverter = {Node 0 0}"
proof -
  have d: "dmodels inverter (demo_pos 0) = Some new_INPUT" "dmodels inverter (demo_pos (Suc 0)) = Some new_NOT" by (simp_all add: inverter_devices)
  show "dom (dmodels inverter) = {demo_pos 0, demo_pos (Suc 0)}" by (auto simp: dom_def inverter_devices)
  show "device_outs (demo_pos 0) inverter = {Node 0 0}" "device_outs (demo_pos (Suc 0)) inverter = {Node 0 1}"
    "device_reads (demo_pos 0) inverter = {}" "device_reads (demo_pos (Suc 0)) inverter = {Node 0 0}"
    by (simp_all add: device_outs_def device_reads_def d inverter_pins new_INPUT_def new_NOT_def)
qed

lemma inverter_covers: "live.covers inverter_cost inverter"
proof -
  have "live.readers (demo_pos 0) inverter = {demo_pos (Suc 0)}" "live.readers (demo_pos (Suc 0)) inverter = {}"
    unfolding live.readers_def inverter_views(1) by (auto simp: inverter_views)
  then show ?thesis by (simp add: live.covers_def inverter_views inverter_cost_def)
qed

lemma inverter_feedforward: "\<forall>p d. dmodels inverter p = Some d \<longrightarrow> feedforward d"
  by (auto simp: inverter_devices new_INPUT_def new_NOT_def)

lemma inverter_finite: "finite (dom (dmodels inverter))"
  by (simp add: inverter_views)

lemma inverter_budget: "2 * (\<Sum>p \<in> dom (dmodels inverter). inverter_cost p) \<le> max_iter_budget"
  by (simp add: inverter_views inverter_cost_def max_iter_budget_def)

lemma inverter_tick_reached: "(sim_step demo_f64 first_pending address_order)\<^sup>*\<^sup>* (prepare inverter) inverter_tick"
  unfolding inverter_tick_def by (rule r_into_rtranclp) (rule sim_step.tick)

lemma inverter_pin_order: "address_order {(demo_pos 0, 0), (demo_pos (Suc 0), 0)} = [(demo_pos 0, 0), (demo_pos (Suc 0), 0)]"
  by (simp add: address_order_def demo_pos_def)


definition inverter_at :: "logic_t \<Rightarrow> logic_t \<Rightarrow> node_ref set \<Rightarrow> input_pin \<Rightarrow> gate \<Rightarrow> digital_circuit" where
  "inverter_at a b T i g = inverter\<lparr>
     store := \<lparr>dnet = inverter_net\<lparr>nl_nodes := [[new_node_t\<lparr>pins := {(demo_pos 0, 0), (demo_pos 1, 0)}, node_info := DN a\<rparr>,
       new_node_t\<lparr>pins := {(demo_pos 1, 1)}, node_info := DN b\<rparr>]]\<rparr>, tables = T\<rparr>,
     dmodels := [demo_pos 0 \<mapsto> D_INPUT i, demo_pos 1 \<mapsto> D_NOT g],
     before_all_clk_digital_model := [demo_pos 0], has_prepare := True\<rparr>"

lemmas inverter_simps = inverter_at_def inverter_def new_circuit_def inverter_net_def new_node_t_def

lemma inverter_prepared: "prepare inverter = inverter_at indeterminate_state indeterminate_state {}
   \<lparr>i_levels = default_levels, outputA = false_state, i_last = indeterminate_state\<rparr> (gate1_prepare_tr new_gate)"
  by (simp add: inverter_simps prepare_def Let_def prepare_node_def called_def model_positions_def node_list_def is_hybrid_def enumerate_eq_zip
    model_base_of_def new_model_base_def fun_eq_iff demo_pos_def new_INPUT_def new_NOT_def) auto

lemma inverter_run_input: "run_model ops m (demo_pos 0) (inverter_at a b T i g) =
   inverter_at (outputA i) b (if i_last i \<noteq> outputA i then insert (Node 0 0) T else T) (i\<lparr>i_last := outputA i\<rparr>) g"
  by (simp add: inverter_simps run_model_def pins_of_def impl_at_def get_model_def model_base_of_def new_model_base_def wrap_def INPUT_clk_def gate_out_def
     is_analog_def deref_def put_state_def schedule_def fun_eq_iff demo_pos_def)


lemma inverter_run_not: "run_model ops m (demo_pos (Suc 0)) (inverter_at a b T i g) =
   inverter_at a (op_not a) (if last_outputA g \<noteq> op_not a then insert (Node 0 1) T else T) i (g\<lparr>inA := (inA g)\<lparr>input := a\<rparr>, last_outputA := op_not a\<rparr>)"
  by (simp add: inverter_simps run_model_def pins_of_def impl_at_def get_model_def model_base_of_def new_model_base_def wrap_def NOT_clk_def gate1_clk_def gate_out_def
     is_analog_def deref_def put_state_def schedule_def fun_eq_iff demo_pos_def sample_input_def state_of_def Let_def)

lemma inverter_process:
  "process_node ops address_order (Node 0 0) (inverter_at a b T i g) =
     run_model ops update_table (demo_pos (Suc 0)) (run_model ops update_table (demo_pos 0) (inverter_at a b (T - {Node 0 0}) i g))"
  "process_node ops address_order (Node 0 1) (inverter_at a b T i g) =
     run_model ops update_table (demo_pos (Suc 0)) (inverter_at a b (T - {Node 0 1}) i g)"
proof -
  have s: "pins (deref (store (inverter_at a b T i g)) (Node 0 0)) = {(demo_pos 0, 0), (demo_pos (Suc 0), 0)}"
    "pins (deref (store (inverter_at a b T i g)) (Node 0 1)) = {(demo_pos (Suc 0), Suc 0)}"
    "is_digital (dnet (store (inverter_at a b T i g))) (demo_pos 0)" "is_digital (dnet (store (inverter_at a b T i g))) (demo_pos (Suc 0))"
    "(inverter_at a b T i g)\<lparr>store := (store (inverter_at a b T i g))\<lparr>tables := tables (store (inverter_at a b T i g)) - {r}\<rparr>\<rparr> = inverter_at a b (T - {r}) i g" for r
    by (simp_all add: inverter_simps deref_def is_digital_def impl_at_def get_model_def demo_pos_def model_base_of_def new_model_base_def)
  show "process_node ops address_order (Node 0 0) (inverter_at a b T i g) =
     run_model ops update_table (demo_pos (Suc 0)) (run_model ops update_table (demo_pos 0) (inverter_at a b (T - {Node 0 0}) i g))"
   "process_node ops address_order (Node 0 1) (inverter_at a b T i g) =
     run_model ops update_table (demo_pos (Suc 0)) (inverter_at a b (T - {Node 0 1}) i g)"
    unfolding process_node_def s by (simp_all add: inverter_pin_order s(3,4))
qed

lemma inverter_at_simps [simp]: "tables (store (inverter_at a b T i g)) = T" "always_tables (inverter_at a b T i g) = {}"
  "before_all_clk_digital_model (inverter_at a b T i g) = [demo_pos 0]" "after_all_clk_digital_model (inverter_at a b T i g) = []"
  "(inverter_at a b T i g)\<lparr>digital_out := []\<rparr> = inverter_at a b T i g" "seed_tables (inverter_at a b T i g) = inverter_at a b T i g"
  by (simp_all add: inverter_simps seed_tables_def)

lemma first_pending_single [simp]: "first_pending {r} = r"
  using first_pending_in [of "{r}"] by simp

lemma inverter_before: "before_digital_clk ops (inverter_at a b T i g) =
   inverter_at (outputA i) b (if i_last i \<noteq> outputA i then insert (Node 0 0) T else T) (i\<lparr>i_last := outputA i\<rparr>) g"
  by (simp add: before_digital_clk_def inverter_run_input)

lemma inverter_loop0: "settle_loop ops pick ord n (inverter_at a b {} i g) = inverter_at a b {} i g"
  by (cases n) simp_all

lemma inverter_next: "settle_loop ops first_pending ord (Suc n) (inverter_at a b {r} i g) =
    settle_loop ops first_pending ord n (process_node ops ord r (inverter_at a b {r} i g))"
  by simp

lemma inverter_tick_value: "\<exists>i g. inverter_tick = inverter_at false_state true_state {} i g \<and> outputA i = false_state \<and> i_last i = false_state"
proof -
  let ?i = "\<lparr>i_levels = default_levels, outputA = false_state, i_last = false_state\<rparr>"
  let ?g = "gate1_prepare_tr new_gate"
  obtain n where n: "max_iter_budget = Suc (Suc n)" by (rule that [of 9999998]) (simp add: max_iter_budget_def)
  have g: "last_outputA ?g = indeterminate_state" by (simp add: gate1_prepare_tr_def new_gate_def)
  have "before_digital_clk demo_f64 (prepare inverter\<lparr>digital_out := []\<rparr>) = inverter_at false_state indeterminate_state {Node 0 0} ?i ?g"
    unfolding inverter_prepared inverter_at_simps inverter_before by simp
  moreover obtain g1 where g1: "run_model demo_f64 update_table (demo_pos (Suc 0)) (inverter_at false_state indeterminate_state {} ?i ?g) =
      inverter_at false_state true_state {Node 0 1} ?i g1" "last_outputA g1 = true_state"
    using that by (simp add: inverter_run_not g)
  moreover have "process_node demo_f64 address_order (Node 0 0) (inverter_at false_state indeterminate_state {Node 0 0} ?i ?g) =
      inverter_at false_state true_state {Node 0 1} ?i g1"
    unfolding inverter_process using g1 by (simp add: inverter_run_input)
  moreover obtain g2 where "process_node demo_f64 address_order (Node 0 1) (inverter_at false_state true_state {Node 0 1} ?i g1) =
      inverter_at false_state true_state {} ?i g2"
    using that unfolding inverter_process by (simp add: inverter_run_not g1(2))
  ultimately have "inverter_tick = inverter_at false_state true_state {} ?i g2"
    unfolding inverter_tick_def digital_clk_def after_table_digital_clk_def update_table_digital_clk_def n
    by (simp add: inverter_next inverter_loop0 del: settle_loop.simps)
  then show ?thesis by fastforce
qed

lemma inverter_tick_empty: "tables (store inverter_tick) = {}"
proof -
  obtain i g where v: "inverter_tick = inverter_at false_state true_state {} i g" using inverter_tick_value by blast
  show ?thesis unfolding v by simp
qed


text \<open>
  After a reset the nodes become unknown again, but the devices remember what they drove last: the
  input writes its unchanged value without scheduling its node, so the inverter is not evaluated.
\<close>

lemma inverter_prepare_again:
  "prepare (reset (inverter_at a b T i g)) = inverter_at indeterminate_state indeterminate_state {} i (gate1_prepare_tr g)"
  by (simp add: inverter_simps reset_def prepare_def Let_def prepare_node_def called_def model_positions_def node_list_def is_hybrid_def
    enumerate_eq_zip model_base_of_def new_model_base_def fun_eq_iff demo_pos_def) auto

definition inverter_restarted :: digital_circuit where
  "inverter_restarted = digital_clk demo_f64 first_pending address_order (prepare (reset inverter_tick))"

lemma reset_leaves_outputs_unknown:
  "tables (store inverter_restarted) = {} \<and> state_of (store inverter_restarted) (Node 0 0) = false_state \<and>
   state_of (store inverter_restarted) (Node 0 1) = indeterminate_state"
proof -
  obtain i g where v: "inverter_tick = inverter_at false_state true_state {} i g" "outputA i = false_state" "i_last i = false_state"
    using inverter_tick_value by blast
  have r: "inverter_restarted = inverter_at false_state indeterminate_state {} (i\<lparr>i_last := outputA i\<rparr>) (gate1_prepare_tr g)"
    unfolding inverter_restarted_def v(1) inverter_prepare_again
    by (simp add: digital_clk_def inverter_before v after_table_digital_clk_def update_table_digital_clk_def inverter_loop0)
  show ?thesis unfolding r by (simp add: inverter_simps state_of_def deref_def)
qed

definition settle_cost :: "(model_pos \<Rightarrow> nat) \<Rightarrow> digital_circuit \<Rightarrow> bool" where
  "settle_cost v c \<longleftrightarrow>
     (\<forall>p \<in> dom (dmodels c). card (device_outs p c) + (\<Sum>q | q \<in> dom (dmodels c) \<and> device_reads q c \<inter> device_outs p c \<noteq> {}. v q) \<le> v p)"

lemma settle_cost_covers: "settle_cost v c = live.covers v c"
  by (simp add: settle_cost_def live.covers_def live.readers_def)



subsection \<open>The tri-state driver\<close>

text \<open>
  C24: A connected tri-state driver whose output node has no analog device makes that node pending
  whenever its input or its enable node is processed, changed or not, and is itself called for the
  output node, so once the output node is pending it stays pending: it is in the queue after any
  number of iterations and at the end of the tick, whatever the other devices are, other drivers
  of the same node included, and in whatever order nodes and pins are taken; the loop ends only by
  using up its budget.
\<close>

theorem tri_state_never_settles:
  assumes "netlist_ok (dnet (store c))" "is_digital (dnet (store c)) pos" "dmodels c pos = Some (D_TRI lv)"
    and "pins_of c pos = [Some i, Some en, Some r]" "\<not> is_analog (store c) r" "enumerates ord"
  shows "r \<in> tables (store (process_node ops ord i c)) \<and> r \<in> tables (store (process_node ops ord en c)) \<and>
    (r \<in> tables (store c) \<longrightarrow>
       r \<in> tables (store (settle_loop ops pick ord n c)) \<and> r \<in> tables (store (digital_clk ops pick ord c)))"
proof -
  have t: "tri_at c pos i en r" using assms(1-5) by (simp add: tri_at_def)
  then show ?thesis using tri_process(2) [OF t assms(6)] tri_settle [OF t _ assms(6)] tri_tick [OF t _ assms(6)] by blast
qed

text \<open>A bus with two tri-state drivers, its node pending.\<close>

definition bus_ops :: "netlist_op list" where
  "bus_ops =
     [Add_model (digital_impl 3), Add_model (digital_impl 3), Create_node, Create_node, Create_node, Create_node, Create_node,
      Add_to_node (demo_pos 0) 0 (Node 0 0), Add_to_node (demo_pos 0) 1 (Node 0 1), Add_to_node (demo_pos 0) 2 (Node 0 4),
      Add_to_node (demo_pos 1) 0 (Node 0 2), Add_to_node (demo_pos 1) 1 (Node 0 3), Add_to_node (demo_pos 1) 2 (Node 0 4)]"

definition bus_net :: netlist where
  "bus_net =
     \<lparr>models = [\<lparr>cells = [model_base_of \<lparr>device_type = digital, pin_nodes = [Some (Node 0 0), Some (Node 0 1), Some (Node 0 4)]\<rparr>,
                        model_base_of \<lparr>device_type = digital, pin_nodes = [Some (Node 0 2), Some (Node 0 3), Some (Node 0 4)]\<rparr>], num_of_null_model = 0\<rparr>],
      nl_nodes = [[new_node_t\<lparr>pins := {(demo_pos 0, 0)}\<rparr>, new_node_t\<lparr>pins := {(demo_pos 0, 1)}\<rparr>,
                   new_node_t\<lparr>pins := {(demo_pos 1, 0)}\<rparr>, new_node_t\<lparr>pins := {(demo_pos 1, 1)}\<rparr>,
                   new_node_t\<lparr>pins := {(demo_pos 0, 2), (demo_pos 1, 2)}\<rparr>]],
      ground_node = new_node_t\<rparr>"

lemma bus_run_ops: "legal_run 5 5 bus_ops empty_netlist = Some bus_net"
  by (simp add: bus_ops_def bus_net_def digital_impl_def demo_pos_def new_node_t_def model_base_of_def new_model_base_def
    empty_netlist_def add_model_def push_model_def push_cell_def new_model_block_def create_node_def push_node_def impl_at_def pin_at_def
    get_model_def add_to_node_def plug_def set_pin_def map_pins_def map_block_def map_impl_def eval_nat_numeral insert_commute)

definition bus_circuit :: digital_circuit where
  "bus_circuit = prepare (new_circuit bus_net [demo_pos 0 \<mapsto> new_TRI, demo_pos 1 \<mapsto> new_TRI])"

definition bus_pending :: digital_circuit where
  "bus_pending = bus_circuit\<lparr>store := (store bus_circuit)\<lparr>tables := {Node 0 4}\<rparr>\<rparr>"

lemma bus_same_net: "same_net \<lparr>dnet = bus_net, tables = {}\<rparr> (store bus_pending)"
  using same_net_prepare [of "new_circuit bus_net [demo_pos 0 \<mapsto> new_TRI, demo_pos 1 \<mapsto> new_TRI]"]
  by (simp add: bus_pending_def bus_circuit_def same_net_def new_circuit_def)

theorem tri_state_never_settles_witness:
  "Node 0 4 \<in> tables (store (process_node demo_f64 address_order (Node 0 0) bus_pending)) \<and>
   Node 0 4 \<in> tables (store (settle_loop demo_f64 first_pending address_order 10000000 bus_pending)) \<and>
   Node 0 4 \<in> tables (store (digital_clk demo_f64 first_pending address_order bus_pending))"
proof -
  note n = same_net_models [OF bus_same_net] same_net_nodes(3) [OF bus_same_net]
  have "netlist_ok (dnet (store bus_pending))"
    using same_net_ok [OF bus_same_net] reachable_netlist_ok [OF legal_run_reachable [OF bus_run_ops]] by simp
  moreover have "is_digital (dnet (store bus_pending)) (demo_pos 0)"
    by (simp add: n bus_net_def is_digital_def impl_at_def get_model_def demo_pos_def model_base_of_def new_model_base_def)
  moreover have "dmodels bus_pending (demo_pos 0) = Some (D_TRI default_levels)"
    by (simp add: bus_pending_def bus_circuit_def prepare_def Let_def new_circuit_def new_TRI_def demo_pos_def)
  moreover have "pins_of bus_pending (demo_pos 0) = [Some (Node 0 0), Some (Node 0 1), Some (Node 0 4)]"
    by (simp add: pins_of_def n) (simp add: bus_net_def impl_at_def get_model_def demo_pos_def model_base_of_def new_model_base_def)
  moreover have "\<not> is_analog (store bus_pending) (Node 0 4)"
    unfolding n by (simp add: is_analog_def deref_def bus_net_def new_node_t_def)
  moreover have "Node 0 4 \<in> tables (store bus_pending)" by (simp add: bus_pending_def)
  ultimately show ?thesis
    using tri_state_never_settles [OF _ _ _ _ _ enumerates_address_order, of bus_pending "demo_pos 0" default_levels "Node 0 0" "Node 0 1" "Node 0 4"] by blast
qed

subsection \<open>Devices\<close>

text \<open>
  C25: Starting from newly built devices, ticks and attribute settings with any value keep the
  counter and the random generator within four bits; the adders and the multiplier remember
  exactly one value per output; a display reports no bit both as one and as unknown; and a delay
  line that has started holds exactly as many samples as its delay.
\<close>

theorem device_state_bounded:
  assumes "\<forall>pos d. dmodels c pos = Some d \<longrightarrow> configured d" "(sim_step ops pick ord)\<^sup>*\<^sup>* (prepare c) c'" "dmodels c' pos = Some d"
  shows "in_bounds d"
proof -
  have "all_in_bounds (prepare c)"
    using assms(1) configured_bounds by (auto simp: all_in_bounds_def prepare_def Let_def prepare_tr_bounds split: if_splits)
  with assms(2) have "all_in_bounds c'" by (induction rule: rtranclp_induct) (auto intro: bounds_sim_step)
  then show ?thesis using assms(3) by (auto simp: all_in_bounds_def)
qed

definition lone_counter :: digital_circuit where
  "lone_counter = new_circuit empty_netlist [demo_pos 0 \<mapsto> new_COUNTER4]"

definition counter_at_15 :: digital_circuit where
  "counter_at_15 = (prepare lone_counter)\<lparr>dmodels := [demo_pos 0 \<mapsto> D_COUNTER4 ((new_counter 0)\<lparr>c_value := 15\<rparr>)]\<rparr>"

lemma lone_counter_models: "dmodels (prepare lone_counter) = [demo_pos 0 \<mapsto> new_COUNTER4]"
  by (simp add: lone_counter_def new_circuit_def prepare_def Let_def fun_eq_iff new_COUNTER4_def)

theorem device_state_bounded_witness: "in_bounds (D_COUNTER4 ((new_counter 0)\<lparr>c_value := 15\<rparr>))"
proof (rule device_state_bounded [of lone_counter demo_f64 first_pending address_order counter_at_15 "demo_pos 0"])
  show "\<forall>pos d. dmodels lone_counter pos = Some d \<longrightarrow> configured d"
    by (auto simp: lone_counter_def new_circuit_def new_devices_def intro: configured.constructed)
  have "set_attribute new_COUNTER4 0 (V_ui8 0xFF) = Some (True, D_COUNTER4 ((new_counter 0)\<lparr>c_value := 15\<rparr>))"
    by (simp add: new_COUNTER4_def COUNTER4_attributes_def counter_attributes_def rewrap_def new_counter_def)
  then have "set_model_attribute (demo_pos 0) 0 (V_ui8 0xFF) (prepare lone_counter) = Some (True, counter_at_15)"
    by (simp add: set_model_attribute_def lone_counter_models counter_at_15_def)
  then show "(sim_step demo_f64 first_pending address_order)\<^sup>*\<^sup>* (prepare lone_counter) counter_at_15"
    by (blast intro: sim_step.attribute)
qed (simp add: counter_at_15_def)

text \<open>
  C26: Saving the attributes of a digital device and loading them into any other device of the
  same kind succeeds, and every attribute that can be set reads the same afterwards, for all 35
  kinds and on hosts of either byte order.
\<close>

theorem device_attributes_round_trip:
  assumes "model_name d0 = model_name d" "fits (length (encode_attributes le (get_attribute_name d) (get_attribute d)))"
  shows "\<exists>d1. apply_attributes le load_attribute (Some d0) (encode_attributes le (get_attribute_name d) (get_attribute d)) = (success, Some d1) \<and>
    (\<forall>i. attribute_settable d i \<longrightarrow> get_attribute d1 i = get_attribute d i)"
  by (rule load_saved_attributes [OF assms])

theorem device_attributes_round_trip_witness:
  "\<exists>d1. apply_attributes True load_attribute (Some new_INPUT)
      (encode_attributes True (get_attribute_name (D_INPUT \<lparr>i_levels = default_levels, outputA = true_state, i_last = true_state\<rparr>))
        (get_attribute (D_INPUT \<lparr>i_levels = default_levels, outputA = true_state, i_last = true_state\<rparr>))) = (success, Some d1) \<and>
     get_attribute d1 0 = V_digital 1"
proof -
  let ?d = "D_INPUT \<lparr>i_levels = default_levels, outputA = true_state, i_last = true_state\<rparr>"
  have "attribute_indices (get_attribute_name ?d) = [0..<1]"
    by (rule attribute_indices_prefix) (simp_all add: INPUT_attributes_def kMaxScan_def)
  then have "fits (length (encode_attributes True (get_attribute_name ?d) (get_attribute ?d)))"
    by (simp add: encode_attributes_scan attribute_of_def enc_pair_def enc_string_def INPUT_attributes_def u8string_def
        uleb_rec enc_variant_payload append_writers word_le_nat_alt fits_def SIZE_MAX_def)
  moreover have "attribute_settable ?d 0" by (simp add: attribute_settable_def INPUT_attributes_def rewrap_def state_of_byte_def)
  moreover have "get_attribute ?d 0 = V_digital 1" by (simp add: INPUT_attributes_def)
  moreover have "model_name new_INPUT = model_name ?d" by (simp add: new_INPUT_def)
  ultimately show ?thesis using device_attributes_round_trip [of new_INPUT ?d True] by metis
qed

end
