(* ===== verification/Settle.thy ===== *)
theory Settle
  imports Sched_Props
begin

text \<open>
  What it means that the combinational settling loop reports no change. Each net with internal
  drivers then carries the resolution of everything that drives it (continuous assignments and
  output ports of children), and each input port of a child carries the value of what it is
  bound to, at every level of the instance tree.
\<close>

subsection \<open>The drivers of a net\<close>

definition driver_vals :: "(nat \<times> logic_t) list \<Rightarrow> nat \<Rightarrow> logic_t list" where
  "driver_vals drs i = map snd (filter (\<lambda>d. fst d = i) drs)"

definition drive_of :: "module_state \<Rightarrow> port_drive \<Rightarrow> (nat \<times> logic_t) list" where
  "drive_of cst d =
     (if dr_parent_signal d = SIZE_MAX then []
      else if dr_src_is_literal d then [(dr_parent_signal d, dr_literal d)]
      else if dr_child_signal d \<ge> length (st_values cst) then []
      else [(dr_parent_signal d, st_values cst ! dr_child_signal d)])"

definition child_drives :: "inst_node \<Rightarrow> (nat \<times> logic_t) list" where
  "child_drives c = (if in_mod c = None then [] else concat (map (drive_of (in_state c)) (in_output_drives c)))"

definition assign_drive :: "compiled_module \<Rightarrow> logic_t list \<Rightarrow> continuous_assign \<Rightarrow> (nat \<times> logic_t) list" where
  "assign_drive m vs a =
     (if ca_guard_root a \<noteq> SIZE_MAX \<and>
         normalize_z_to_x (deval (m_expr_nodes m) vs (ca_guard_root a)) \<noteq> true_state
      then [] else [(ca_lhs_signal a, deval (m_expr_nodes m) vs (ca_expr_root a))])"

definition node_drives :: "compiled_module \<Rightarrow> logic_t list \<Rightarrow> instance_state list \<Rightarrow> (nat \<times> logic_t) list" where
  "node_drives m vs cs =
     concat (map (\<lambda>c. child_drives (inst_of c)) cs) @ concat (map (assign_drive m vs) (m_assigns m))"

definition bound_value :: "inst_node \<Rightarrow> port_binding \<Rightarrow> logic_t" where
  "bound_value n b =
     (case pb_k b of
        bind_parent_signal \<Rightarrow>
          if pb_parent_signal b < length (st_values (in_state n))
          then st_values (in_state n) ! pb_parent_signal b else indeterminate_state
      | bind_literal \<Rightarrow> pb_literal b
      | bind_parent_expr_root \<Rightarrow>
          (case in_mod n of
             None \<Rightarrow> indeterminate_state
           | Some pm \<Rightarrow>
               if pb_parent_expr_root b = SIZE_MAX then indeterminate_state
               else deval (m_expr_nodes pm) (st_values (in_state n)) (pb_parent_expr_root b))
      | bind_unconnected \<Rightarrow> indeterminate_state)"

definition settled_nets :: "inst_node \<Rightarrow> instance_state list \<Rightarrow> bool" where
  "settled_nets n cs \<longleftrightarrow>
     (\<forall>m. in_mod n = Some m \<longrightarrow>
        (\<forall>i \<in> driven_set n. i < length (st_values (in_state n)) \<longrightarrow> \<not> is_reg m i \<longrightarrow>
           st_values (in_state n) ! i =
           verilog_net.resolve_all (driver_vals (node_drives m (st_values (in_state n)) cs) i)))"

definition ports_match :: "inst_node \<Rightarrow> inst_node \<Rightarrow> bool" where
  "ports_match n c \<longleftrightarrow>
     (\<forall>cm. in_mod c = Some cm \<longrightarrow> length (m_ports cm) \<le> length (in_bindings c) \<longrightarrow>
        (\<forall>(p, b) \<in> set (zip (m_ports cm) (in_bindings c)).
           p_dir p \<noteq> dir_output \<longrightarrow> p_signal p < length (st_values (in_state c)) \<longrightarrow>
           st_values (in_state c) ! p_signal p = bound_value n b))"

fun settled_tree :: "instance_state \<Rightarrow> bool" where
  "settled_tree (Inst n cs) \<longleftrightarrow>
     settled_nets n cs \<and> (\<forall>c \<in> set cs. ports_match n (inst_of c) \<and> settled_tree c)"

text \<open>Only nets are driven, and each is known to be: no register is the target of a continuous
  assignment or of an output port.\<close>

definition drive_targets :: "compiled_module \<Rightarrow> inst_node list \<Rightarrow> nat set" where
  "drive_targets m cs =
     (\<Union>c \<in> set cs. dr_parent_signal ` set (in_output_drives c)) - {SIZE_MAX} \<union>
     ca_lhs_signal ` set (m_assigns m)"

definition nets_driven :: "inst_node \<Rightarrow> inst_node list \<Rightarrow> bool" where
  "nets_driven n cs \<longleftrightarrow>
     (\<forall>m. in_mod n = Some m \<longrightarrow>
        (\<forall>s \<in> drive_targets m cs. s < length (m_signal_names m) \<longrightarrow>
           s \<in> driven_set n \<and> \<not> is_reg m s))"

fun driven_tree :: "instance_state \<Rightarrow> bool" where
  "driven_tree (Inst n cs) \<longleftrightarrow> nets_driven n (map inst_of cs) \<and> (\<forall>c \<in> set cs. driven_tree c)"

fun values_of :: "instance_state \<Rightarrow> logic_t list rose" where
  "values_of (Inst n cs) = Rose (st_values (in_state n)) (map values_of cs)"

subsection \<open>Driving a list of nets\<close>

definition drive_all :: "inst_node \<Rightarrow> (nat \<times> logic_t) list \<Rightarrow> inst_node" where
  "drive_all n drs = foldl (\<lambda>n' d. drive_signal_next n' (fst d) (snd d)) n drs"

definition net_acc :: "nat \<Rightarrow> logic_t list \<Rightarrow> (nat \<times> logic_t) list \<Rightarrow> logic_t list" where
  "net_acc k nets drs =
     foldl (\<lambda>ns d. if fst d < k then ns[fst d := resolve_net_drivers (ns ! fst d) (snd d)] else ns) nets drs"

lemma length_net_acc [simp]: "length (net_acc k nets drs) = length nets"
  unfolding net_acc_def by (induction drs arbitrary: nets) auto

lemma drive_all_append: "drive_all n (xs @ ys) = drive_all (drive_all n xs) ys"
  by (simp add: drive_all_def)

lemma net_acc_append: "net_acc k nets (xs @ ys) = net_acc k (net_acc k nets xs) ys"
  by (simp add: net_acc_def)

lemma net_acc_nth:
  assumes "i < k" and "k \<le> length nets"
  shows "net_acc k nets drs ! i = fold (\<lambda>d acc. resolve_net_drivers acc d) (driver_vals drs i) (nets ! i)"
  using assms(2)
proof (induction drs arbitrary: nets)
  case Nil
  then show ?case by (simp add: net_acc_def driver_vals_def)
next
  case (Cons d drs)
  let ?nets = "if fst d < k then nets[fst d := resolve_net_drivers (nets ! fst d) (snd d)] else nets"
  have "net_acc k nets (d # drs) = net_acc k ?nets drs" by (simp add: net_acc_def)
  then show ?case using Cons.IH [of ?nets] Cons.prems assms(1) by (auto simp: driver_vals_def)
qed

definition with_nets :: "inst_node \<Rightarrow> eval_cache \<Rightarrow> logic_t list \<Rightarrow> inst_node" where
  "with_nets n e nets = n\<lparr>in_state := (in_state n)\<lparr>st_next_net_values := nets, st_eval := e\<rparr>\<rparr>"

lemma with_nets_simps [simp]:
  "in_mod (with_nets n e nets) = in_mod n"
  "in_driven_nets (with_nets n e nets) = in_driven_nets n"
  "driven_set (with_nets n e nets) = driven_set n"
  "st_values (in_state (with_nets n e nets)) = st_values (in_state n)"
  "st_next_net_values (in_state (with_nets n e nets)) = nets"
  "st_nba_queue (in_state (with_nets n e nets)) = st_nba_queue (in_state n)"
  "st_eval (in_state (with_nets n e nets)) = e"
  "with_nets (with_nets n e nets) e' nets' = with_nets n e' nets'"
  "with_nets n (st_eval (in_state n)) (st_next_net_values (in_state n)) = n"
  by (simp_all add: with_nets_def driven_set_def)

text \<open>Driving nets that are all marked as driven only accumulates into the next net values.\<close>

lemma drive_all_nets:
  assumes "in_mod n = Some m" and "length (st_values (in_state n)) \<le> length (st_next_net_values (in_state n))"
    and "\<forall>s \<in> fst ` set drs. s < length (st_values (in_state n)) \<longrightarrow> s \<in> driven_set n \<and> \<not> is_reg m s"
  shows "drive_all n drs =
    with_nets n (st_eval (in_state n)) (net_acc (length (st_values (in_state n))) (st_next_net_values (in_state n)) drs)"
  using assms
proof (induction drs arbitrary: n)
  case Nil
  then show ?case by (simp add: drive_all_def net_acc_def)
next
  case (Cons d drs)
  let ?k = "length (st_values (in_state n))" and ?nets = "st_next_net_values (in_state n)"
  let ?nets1 = "if fst d < ?k then ?nets[fst d := resolve_net_drivers (?nets ! fst d) (snd d)] else ?nets"
  have 1: "drive_signal_next n (fst d) (snd d) = with_nets n (st_eval (in_state n)) ?nets1"
    using Cons.prems by (auto simp: drive_signal_next_def Let_def with_nets_def driven_set_def)
  have "drive_all (with_nets n (st_eval (in_state n)) ?nets1) drs =
      with_nets n (st_eval (in_state n)) (net_acc ?k ?nets1 drs)"
    using Cons.IH [of "with_nets n (st_eval (in_state n)) ?nets1"] Cons.prems by simp
  then show ?case using 1 by (simp add: drive_all_def net_acc_def)
qed

lemma child_to_parent_drives: "propagate_child_to_parent c n = drive_all n (child_drives c)"
proof (cases "in_mod c")
  case None
  then show ?thesis by (simp add: propagate_child_to_parent_def child_drives_def drive_all_def)
next
  case (Some cm)
  have step: "apply_port_drive cst n d = drive_all n (drive_of cst d)" for cst n d
    by (simp add: apply_port_drive_def drive_of_def drive_all_def)
  have "foldl (apply_port_drive cst) n ds = drive_all n (concat (map (drive_of cst) ds))" for cst n ds
    by (induction ds arbitrary: n) (simp_all add: step drive_all_append, simp add: drive_all_def)
  then show ?thesis using Some by (simp add: propagate_child_to_parent_def child_drives_def)
qed

lemma propagate_up_drives: "propagate_up cs n = drive_all n (concat (map (\<lambda>c. child_drives (inst_of c)) cs))"
  unfolding propagate_up_def
  by (induction cs arbitrary: n) (simp_all add: child_to_parent_drives drive_all_append, simp add: drive_all_def)

lemma eval_in_eq:
  assumes "st_ok m st"
  obtains e where "eval_in m r st = (deval (m_expr_nodes m) (st_values st) r, st\<lparr>st_eval := e\<rparr>)"
proof -
  have "fst (eval_in m r st) = deval (m_expr_nodes m) (st_values st) r"
    using assms eval_in_deval(1) by (simp add: st_ok_def)
  then show thesis
    using that by (auto simp: eval_in_def split: prod.splits)
qed

lemma inode_ok_st: "inode_ok n \<Longrightarrow> in_mod n = Some m \<Longrightarrow> st_ok m (in_state n)"
  by (auto simp: inode_ok_def)

lemma run_assign_nets:
  assumes ok: "inode_ok n" and m: "in_mod n = Some m"
    and len: "length (st_values (in_state n)) \<le> length (st_next_net_values (in_state n))"
    and lhs: "ca_lhs_signal a < length (st_values (in_state n)) \<Longrightarrow>
      ca_lhs_signal a \<in> driven_set n \<and> \<not> is_reg m (ca_lhs_signal a)"
  shows "\<exists>e. run_assign m a n = with_nets n e (net_acc (length (st_values (in_state n)))
    (st_next_net_values (in_state n)) (assign_drive m (st_values (in_state n)) a))"
proof -
  let ?st = "in_state n" and ?g = "ca_guard_root a" and ?r = "ca_expr_root a"
  have st: "st_ok m ?st" using inode_ok_st ok m .
  obtain e1 where 1: "eval_in m ?g ?st = (deval (m_expr_nodes m) (st_values ?st) ?g, ?st\<lparr>st_eval := e1\<rparr>)"
    using eval_in_eq [OF st] .
  have st1: "st_ok m (?st\<lparr>st_eval := e1\<rparr>)" using st_ok_eval [OF st, of ?g] 1 by simp
  let ?st1 = "if ?g \<noteq> SIZE_MAX then ?st\<lparr>st_eval := e1\<rparr> else ?st"
  have vs: "st_values ?st1 = st_values ?st" by simp
  have "st_ok m ?st1" using st st1 by simp
  then obtain e2 where 2: "eval_in m ?r ?st1 = (deval (m_expr_nodes m) (st_values ?st) ?r, ?st1\<lparr>st_eval := e2\<rparr>)"
    using eval_in_eq [of m ?st1 ?r] vs by metis
  have st2: "n\<lparr>in_state := ?st1\<lparr>st_eval := e2\<rparr>\<rparr> = with_nets n e2 (st_next_net_values ?st)"
    by (simp add: with_nets_def)
  let ?d = "(ca_lhs_signal a, deval (m_expr_nodes m) (st_values ?st) ?r)"
  have drive: "drive_signal_next (with_nets n e2 (st_next_net_values ?st)) (fst ?d) (snd ?d) =
      with_nets n e2 (net_acc (length (st_values ?st)) (st_next_net_values ?st) [?d])"
    using drive_all_nets [of "with_nets n e2 (st_next_net_values ?st)" m "[?d]"] m len lhs
    by (simp add: drive_all_def)
  show ?thesis
  proof (cases "assign_drive m (st_values ?st) a = []")
    case True
    then have "run_assign m a n = with_nets n e1 (st_next_net_values ?st)"
      by (auto simp: run_assign_def assign_drive_def 1 with_nets_def split: if_splits)
    then show ?thesis using True by (auto simp: net_acc_def)
  next
    case False
    then have d: "assign_drive m (st_values ?st) a = [?d]" by (auto simp: assign_drive_def split: if_splits)
    from False have "run_assign m a n = drive_signal_next (n\<lparr>in_state := ?st1\<lparr>st_eval := e2\<rparr>\<rparr>) (fst ?d) (snd ?d)"
      using 2 by (auto simp: run_assign_def assign_drive_def 1 split: if_splits)
    then show ?thesis unfolding d st2 drive by blast
  qed
qed

lemma run_assigns_nets:
  assumes "inode_ok n" and "in_mod n = Some m"
    and "length (st_values (in_state n)) \<le> length (st_next_net_values (in_state n))"
    and "\<forall>s \<in> ca_lhs_signal ` set as. s < length (st_values (in_state n)) \<longrightarrow> s \<in> driven_set n \<and> \<not> is_reg m s"
  shows "\<exists>e. foldl (\<lambda>n' a. run_assign m a n') n as = with_nets n e (net_acc (length (st_values (in_state n)))
    (st_next_net_values (in_state n)) (concat (map (assign_drive m (st_values (in_state n))) as)))"
  using assms
proof (induction as arbitrary: n)
  case Nil
  then show ?case by (auto simp: net_acc_def intro!: exI [of _ "st_eval (in_state n)"])
next
  case (Cons a as)
  let ?vs = "st_values (in_state n)" and ?nets = "st_next_net_values (in_state n)"
  obtain e where 1: "run_assign m a n = with_nets n e (net_acc (length ?vs) ?nets (assign_drive m ?vs a))"
    using run_assign_nets [OF Cons.prems(1,2,3), of a] Cons.prems(4) by auto
  have "inode_ok (run_assign m a n)"
    using next_okD(1) [OF run_assign_ok [OF Cons.prems(2)] Cons.prems(1)] .
  then obtain e' where "foldl (\<lambda>n' a. run_assign m a n') (run_assign m a n) as =
      with_nets n e' (net_acc (length ?vs) (net_acc (length ?vs) ?nets (assign_drive m ?vs a))
        (concat (map (assign_drive m ?vs) as)))"
    using Cons.IH [of "run_assign m a n"] Cons.prems by (auto simp: 1)
  then show ?case by (auto simp: net_acc_append)
qed

subsection \<open>Passes that report no change\<close>

lemma assign_signal_same: "assign_signal st sig v = (False, st') \<Longrightarrow>
    st' = st \<and> (sig < length (st_values st) \<longrightarrow> st_values st ! sig = v)"
  by (auto simp: assign_signal_def Let_def split: if_splits)

lemma nba_assign_flag: "nba_assign q c st = (False, st') \<Longrightarrow> \<not> c \<and> st' = st"
proof (induction q arbitrary: c st)
  case Nil
  then show ?case by simp
next
  case (Cons u q)
  obtain lhs v where u: "u = (lhs, v)" by (cases u)
  obtain d st1 where 1: "assign_signal st lhs v = (d, st1)" by fastforce
  have "\<not> (d \<or> c) \<and> st' = st1" using Cons.IH [of "d \<or> c" st1] Cons.prems by (simp add: u 1)
  then show ?case using assign_signal_same [of st lhs v st1] 1 by auto
qed

lemma apply_drives_flag:
  "apply_drives m driven is c st = (False, st') \<Longrightarrow> \<forall>i \<in> set is. i < length (st_values st) \<Longrightarrow>
     \<not> c \<and> st' = st \<and>
     (\<forall>i \<in> set is. driven ! i \<longrightarrow> \<not> is_reg m i \<longrightarrow> st_values st ! i = st_next_net_values st ! i)"
proof (induction "is" arbitrary: c st)
  case Nil
  then show ?case by simp
next
  case (Cons i "is")
  obtain d st1 where 1: "assign_signal st i (st_next_net_values st ! i) = (d, st1)" by fastforce
  show ?case
  proof (cases "driven ! i \<and> \<not> is_reg m i")
    case False
    then have "apply_drives m driven is c st = (False, st')" using Cons.prems(1) by (auto split: if_splits)
    then show ?thesis using Cons.IH [of c st] Cons.prems(2) False by auto
  next
    case True
    have len: "length (st_values st1) = length (st_values st)"
      using assign_signal_values [of st i "st_next_net_values st ! i"] 1 by simp
    have "\<not> (d \<or> c) \<and> st' = st1 \<and>
        (\<forall>i \<in> set is. driven ! i \<longrightarrow> \<not> is_reg m i \<longrightarrow> st_values st1 ! i = st_next_net_values st1 ! i)"
      using Cons.IH [of "d \<or> c" st1] Cons.prems True by (simp add: 1 len)
    then show ?thesis
      using assign_signal_same [of st i "st_next_net_values st ! i" st1] 1 Cons.prems(2) by auto
  qed
qed

lemma port_value_bound:
  assumes "inode_ok n"
  obtains e where "port_value n b = (bound_value n b, with_nets n e (st_next_net_values (in_state n)))"
proof -
  from assms obtain m where m: "in_mod n = Some m" "st_ok m (in_state n)" by (auto elim: inode_okE)
  obtain e where e: "eval_in m (pb_parent_expr_root b) (in_state n) =
      (deval (m_expr_nodes m) (st_values (in_state n)) (pb_parent_expr_root b), (in_state n)\<lparr>st_eval := e\<rparr>)"
    using eval_in_eq [OF m(2)] .
  have *: "n = with_nets n (st_eval (in_state n)) (st_next_net_values (in_state n))" by simp
  show thesis
  proof (cases "pb_k b = bind_parent_expr_root \<and> pb_parent_expr_root b \<noteq> SIZE_MAX")
    case True
    then show ?thesis using m e by (intro that [of e]) (simp add: port_value_def bound_value_def with_nets_def)
  next
    case False
    then show ?thesis using m by (intro that [of "st_eval (in_state n)"])
        (auto simp: port_value_def bound_value_def split: binding_kind.split)
  qed
qed

lemma bound_value_with_nets [simp]: "bound_value (with_nets n e nets) b = bound_value n b"
  unfolding bound_value_def with_nets_simps ..

lemma drive_ports_flag:
  assumes "inode_ok n"
  shows "drive_ports pbs c n cst = (False, n', cst') \<Longrightarrow>
    \<not> c \<and> cst' = cst \<and> (\<exists>e. n' = with_nets n e (st_next_net_values (in_state n))) \<and>
    (\<forall>(p, b) \<in> set pbs. p_dir p \<noteq> dir_output \<longrightarrow> p_signal p < length (st_values cst) \<longrightarrow>
       st_values cst ! p_signal p = bound_value n b)"
  using assms
proof (induction pbs arbitrary: c n cst)
  case Nil
  then show ?case by (auto intro!: exI [of _ "st_eval (in_state n)"])
next
  case (Cons pb pbs)
  obtain p b where pb: "pb = (p, b)" by (cases pb)
  obtain e where 1: "port_value n b = (bound_value n b, with_nets n e (st_next_net_values (in_state n)))"
    using port_value_bound [OF Cons.prems(2)] .
  obtain d cst1 where 2: "assign_signal cst (p_signal p) (bound_value n b) = (d, cst1)" by fastforce
  show ?case
  proof (cases "p_dir p = dir_output")
    case True
    then show ?thesis using Cons.IH [OF _ Cons.prems(2), of c cst] Cons.prems(1) by (auto simp: pb)
  next
    case False
    let ?n1 = "with_nets n e (st_next_net_values (in_state n))"
    have n1: "inode_ok ?n1" using port_value_ok [of n b] 1 Cons.prems(2) by (auto dest: next_okD)
    have rest: "drive_ports pbs (d \<or> c) ?n1 cst1 = (False, n', cst')"
      using Cons.prems(1) False by (simp add: pb 1 2)
    note ih = Cons.IH [OF rest n1]
    then have "cst1 = cst" "p_signal p < length (st_values cst) \<longrightarrow> st_values cst ! p_signal p = bound_value n b"
      using assign_signal_same [of cst "p_signal p" "bound_value n b" cst1] 2 by auto
    then show ?thesis using ih by (auto simp: pb)
  qed
qed

lemma parent_to_child_flag:
  assumes "inode_ok n" and "propagate_parent_to_child n c = (False, n', c')"
  shows "c' = c \<and> (\<exists>e. n' = with_nets n e (st_next_net_values (in_state n))) \<and> ports_match n c"
proof (cases "in_mod c = None \<or> (\<exists>cm. in_mod c = Some cm \<and> length (in_bindings c) < length (m_ports cm))")
  case True
  then have "c' = c \<and> n' = n \<and> ports_match n c"
    using assms(2) by (auto simp: propagate_parent_to_child_def ports_match_def)
  then show ?thesis by (auto intro!: exI [of _ "st_eval (in_state n)"])
next
  case False
  then obtain cm where cm: "in_mod c = Some cm" "\<not> length (in_bindings c) < length (m_ports cm)" by auto
  obtain cst where "drive_ports (zip (m_ports cm) (in_bindings c)) False n (in_state c) = (False, n', cst)"
      "c' = c\<lparr>in_state := cst\<rparr>"
    using assms(2) cm by (auto simp: propagate_parent_to_child_def split: prod.splits)
  then show ?thesis using drive_ports_flag [OF assms(1)] cm(1) by (auto simp: ports_match_def)
qed

lemma ports_match_with_nets [simp]: "ports_match (with_nets n e nets) c = ports_match n c"
  by (simp add: ports_match_def)

lemma propagate_down_flag:
  "inode_ok n \<Longrightarrow> propagate_down n cs c = (False, n', cs') \<Longrightarrow>
     \<not> c \<and> cs' = cs \<and> (\<exists>e. n' = with_nets n e (st_next_net_values (in_state n))) \<and>
     (\<forall>t \<in> set cs. ports_match n (inst_of t))"
proof (induction cs arbitrary: n c n' cs')
  case Nil
  then show ?case by (auto intro!: exI [of _ "st_eval (in_state n)"])
next
  case (Cons t cs)
  obtain cn ccs where t: "t = Inst cn ccs" by (cases t)
  obtain d n1 cn1 where 1: "propagate_parent_to_child n cn = (d, n1, cn1)" using prod_cases3 by blast
  have n1: "inode_ok n1" using propagate_parent_to_child_ok [OF 1] Cons.prems(1) by (auto dest: next_okD)
  obtain cs2 where 2: "propagate_down n1 cs (d \<or> c) = (False, n', cs2)" "cs' = Inst cn1 ccs # cs2"
    using Cons.prems(2) by (auto simp: t 1 split: prod.splits)
  note ih = Cons.IH [OF n1 2(1)]
  then have "\<not> d" by simp
  then show ?case
    using ih parent_to_child_flag [OF Cons.prems(1), of cn n1 cn1] 1 2(2) by (auto simp: t)
qed

definition settles :: "nat \<Rightarrow> resolver \<Rightarrow> bool" where
  "settles d self \<longleftrightarrow>
     (\<forall>t t'. tree_ok t \<longrightarrow> driven_tree t \<longrightarrow> depth t \<le> d \<longrightarrow> self t = Some (False, t') \<longrightarrow>
        shape t' = shape t \<and> values_of t' = values_of t \<and> settled_tree t')"

lemma resolve_children_flag:
  assumes "settles d self" and "\<forall>t \<in> set ts. tree_ok t \<and> driven_tree t \<and> depth t \<le> d"
    and "resolve_children self ts c = Some (False, ts')"
  shows "\<not> c \<and> map shape ts' = map shape ts \<and> map values_of ts' = map values_of ts \<and>
    (\<forall>t \<in> set ts'. settled_tree t)"
  using assms(2,3)
proof (induction ts arbitrary: c ts')
  case Nil
  then show ?case by simp
next
  case (Cons t ts)
  obtain b t' where 1: "self t = Some (b, t')" using Cons.prems by (auto split: Option.bind_splits)
  obtain ts2 where 2: "resolve_children self ts (b \<or> c) = Some (False, ts2)" "ts' = t' # ts2"
    using Cons.prems 1 by (auto split: Option.bind_splits)
  have ih: "\<not> (b \<or> c) \<and> map shape ts2 = map shape ts \<and> map values_of ts2 = map values_of ts \<and>
      (\<forall>t \<in> set ts2. settled_tree t)"
    using Cons.IH [OF _ 2(1)] Cons.prems by simp
  then have "shape t' = shape t \<and> values_of t' = values_of t \<and> settled_tree t'"
    using assms(1) Cons.prems 1 by (auto simp: settles_def)
  then show ?case using ih 2 by simp
qed

lemma clear_driven_nth:
  assumes "i < k" and "driven ! i" and "k \<le> length nets"
  shows "clear_driven driven k nets ! i = high_impedence_state"
proof -
  have len: "length (foldl (\<lambda>ns j. if driven ! j then ns[j := high_impedence_state] else ns) ns js) = length ns" for js ns
    by (induction js arbitrary: ns) auto
  have "foldl (\<lambda>ns j. if driven ! j then ns[j := high_impedence_state] else ns) ns js ! i =
      (if i \<in> set js \<and> driven ! i \<and> i < length ns then high_impedence_state else ns ! i)" for js ns
    by (induction js arbitrary: ns) (auto simp: len)
  then show ?thesis using assms by (simp add: clear_driven_def)
qed

lemma prepare_net_drives_nets:
  assumes "in_mod n = Some m"
  shows "\<exists>nets. prepare_net_drives n = with_nets (n\<lparr>in_driven_nets := grow_to False (length (st_values (in_state n))) (in_driven_nets n)\<rparr>)
      (st_eval (in_state n)) nets \<and> length (st_values (in_state n)) \<le> length nets \<and>
      (\<forall>i \<in> driven_set n. i < length (st_values (in_state n)) \<longrightarrow> nets ! i = high_impedence_state)"
proof -
  let ?k = "length (st_values (in_state n))" and ?d = "grow_to False (length (st_values (in_state n))) (in_driven_nets n)"
  let ?nets = "grow_to high_impedence_state ?k (st_next_net_values (in_state n))"
  have len: "length (foldl (\<lambda>ns j. if ?d ! j then ns[j := high_impedence_state] else ns) ns js) = length ns" for js and ns :: "logic_t list"
    by (induction js arbitrary: ns) auto
  have "?d ! i" if "i \<in> driven_set n" for i using that by (auto simp: driven_set_def nth_grow_to)
  then have "\<forall>i \<in> driven_set n. i < ?k \<longrightarrow> clear_driven ?d ?k ?nets ! i = high_impedence_state"
    by (auto intro!: clear_driven_nth)
  moreover have "?k \<le> length (clear_driven ?d ?k ?nets)" by (simp add: clear_driven_def len)
  ultimately show ?thesis
    using assms by (intro exI [of _ "clear_driven ?d ?k ?nets"])
      (simp add: prepare_net_drives_def with_nets_def Let_def)
qed

subsection \<open>Statement blocks\<close>

context exec_rel
begin

lemma run_roots_R:
  "arena_targets False arena \<subseteq> W \<Longrightarrow> run_roots m arena tick roots c st = Some (c', st') \<Longrightarrow>
     R c s0 st \<Longrightarrow> R c' s0 st'"
proof (induction roots arbitrary: c st)
  case Nil
  then show ?case by simp
next
  case (Cons root roots)
  obtain d st1 fs where 1: "exec_stmt (Suc (length arena)) m arena tick False root st (Some flow_none) = Some (d, st1, fs)"
      and 2: "run_roots m arena tick roots (d \<or> c) st1 = Some (c', st')"
    using Cons.prems(2) by (auto simp del: exec_stmt.simps split: Option.bind_splits)
  show ?case
    using Cons.IH [OF Cons.prems(1) 2] R_comp [OF Cons.prems(3) exec_stmt_R [OF Cons.prems(1) 1]] by simp
qed

lemma run_combs_R:
  "\<forall>ac \<in> set acs. arena_targets False (ac_stmt_nodes ac) \<subseteq> W \<Longrightarrow>
     run_combs m tick tok any acs c st = Some (c', st') \<Longrightarrow> R c s0 st \<Longrightarrow> R c' s0 st'"
proof (induction acs arbitrary: c st)
  case Nil
  then show ?case by simp
next
  case (Cons ac acs)
  show ?case
  proof (cases "comb_runs tok any ac st")
    case False
    then show ?thesis using Cons by simp
  next
    case True
    then obtain d st1 where 1: "run_roots m (ac_stmt_nodes ac) tick (ac_roots ac) c st = Some (d, st1)"
        and 2: "run_combs m tick tok any acs d st1 = Some (c', st')"
      using Cons.prems(2) by (auto split: Option.bind_splits)
    show ?thesis using Cons.IH [OF _ 2] run_roots_R [OF _ 1 Cons.prems(3)] Cons.prems(1) by simp
  qed
qed

end

lemma run_comb_local_flag:
  assumes n: "inode_ok n" "in_mod n = Some m"
    and len: "length (st_values (in_state n)) \<le> length (st_next_net_values (in_state n))"
    and lhs: "\<forall>s \<in> ca_lhs_signal ` set (m_assigns m). s < length (st_values (in_state n)) \<longrightarrow>
      s \<in> driven_set n \<and> \<not> is_reg m s"
    and run: "run_comb_local n tick tok any = Some (False, n')"
  shows "st_values (in_state n') = st_values (in_state n) \<and> in_driven_nets n' = in_driven_nets n \<and>
    st_next_net_values (in_state n') = net_acc (length (st_values (in_state n))) (st_next_net_values (in_state n))
      (concat (map (assign_drive m (st_values (in_state n))) (m_assigns m)))"
proof -
  obtain st1 where 1: "run_combs m tick tok any (m_always_combs m) False (in_state n) = Some (False, st1)"
      and n': "n' = foldl (\<lambda>n' a. run_assign m a n') (n\<lparr>in_state := st1\<rparr>) (m_assigns m)"
    using run n(2) by (auto simp: run_comb_local_def split: Option.bind_splits)
  have v: "st_values st1 = st_values (in_state n)"
    using exec_flag.run_combs_R [OF _ 1 exec_flag.R_refl] by (simp add: flag_sound_def)
  have "same_shape (in_state n) st1"
    using exec_shape.run_combs_R [OF _ 1 exec_shape.R_refl] by simp
  then have nets: "st_next_net_values st1 = st_next_net_values (in_state n)" by (simp add: same_shape_def)
  have "ok_rel m (in_state n) st1"
    using exec_ok.run_combs_R [OF _ 1 exec_ok.R_refl] by simp
  then have "inode_ok (n\<lparr>in_state := st1\<rparr>)" using n by (auto simp: inode_ok_def ok_rel_def)
  then obtain e where "n' = with_nets (n\<lparr>in_state := st1\<rparr>) e (net_acc (length (st_values (in_state n)))
      (st_next_net_values (in_state n)) (concat (map (assign_drive m (st_values (in_state n))) (m_assigns m))))"
    using run_assigns_nets [of "n\<lparr>in_state := st1\<rparr>" m "m_assigns m"] n(2) len lhs
    by (auto simp: n' v nets driven_set_def)
  then show ?thesis by (simp add: v)
qed

lemma apply_net_drives_flag:
  assumes "in_mod n = Some m" and "apply_net_drives n = (False, n')"
    and "length (st_values (in_state n)) \<le> length (st_next_net_values (in_state n))"
    and "length (st_values (in_state n)) \<le> length (in_driven_nets n)"
  shows "n' = n \<and> (\<forall>i \<in> driven_set n. i < length (st_values (in_state n)) \<longrightarrow> \<not> is_reg m i \<longrightarrow>
    st_values (in_state n) ! i = st_next_net_values (in_state n) ! i)"
proof -
  obtain st1 where "apply_drives m (in_driven_nets n) [0..<length (st_values (in_state n))] False (in_state n) = (False, st1)"
      "n' = n\<lparr>in_state := st1\<rparr>"
    using assms by (auto simp: apply_net_drives_def Let_def split: prod.splits)
  then show ?thesis using apply_drives_flag by (fastforce simp: driven_set_def)
qed

subsection \<open>The settled tree\<close>

lemma bound_value_cong:
  "in_mod n' = in_mod n \<Longrightarrow> st_values (in_state n') = st_values (in_state n) \<Longrightarrow>
   bound_value n' b = bound_value n b"
  by (simp only: bound_value_def)

lemma ports_match_cong:
  "in_mod n' = in_mod n \<Longrightarrow> st_values (in_state n') = st_values (in_state n) \<Longrightarrow>
   static c' = static c \<Longrightarrow> st_values (in_state c') = st_values (in_state c) \<Longrightarrow>
   ports_match n' c' = ports_match n c"
  using bound_value_cong [of n' n] by (simp add: ports_match_def static_def)

lemma map_eq_member:
  "map f xs = map f ys \<Longrightarrow> map g xs = map g ys \<Longrightarrow> x \<in> set xs \<Longrightarrow> \<exists>y \<in> set ys. f x = f y \<and> g x = g y"
  by (metis in_set_conv_nth length_map nth_map)

lemma shape_inst: "shape t = shape t' \<Longrightarrow> static (inst_of t) = static (inst_of t')"
  by (cases t; cases t') simp

lemma values_inst:
  "values_of t = values_of t' \<Longrightarrow> st_values (in_state (inst_of t)) = st_values (in_state (inst_of t'))"
  by (cases t; cases t') simp

lemma drive_targets_fst:
  "fst ` set (node_drives m vs cs) \<subseteq> drive_targets m (map inst_of cs)"
  by (fastforce simp: node_drives_def drive_targets_def child_drives_def drive_of_def assign_drive_def
      split: if_splits)

lemma drive_targets_shape:
  "map shape cs' = map shape cs \<Longrightarrow> drive_targets m (map inst_of cs') = drive_targets m (map inst_of cs)"
proof -
  assume eq: "map shape cs' = map shape cs"
  have "in_output_drives (inst_of t) = in_output_drives (inst_of t')" if "shape t = shape t'" for t t'
    using shape_inst [OF that] by (simp add: static_def)
  then have "map (\<lambda>t. in_output_drives (inst_of t)) cs' = map (\<lambda>t. in_output_drives (inst_of t)) cs"
    using eq by (metis (no_types, lifting) length_map nth_equalityI nth_map)
  then have "(\<lambda>t. in_output_drives (inst_of t)) ` set cs' = (\<lambda>t. in_output_drives (inst_of t)) ` set cs"
    by (metis list.set_map)
  then show ?thesis unfolding drive_targets_def set_map image_image by (metis (no_types, lifting) SUP_image comp_apply image_cong)
qed

lemma nets_drivenD:
  assumes "nets_driven n cs" and "in_mod n = Some m" and "st_ok m (in_state n)"
    and "D \<subseteq> drive_targets m cs"
  shows "\<forall>s \<in> D. s < length (st_values (in_state n)) \<longrightarrow> s \<in> driven_set n \<and> \<not> is_reg m s"
  using assms by (auto simp: nets_driven_def st_ok_def)

lemma settle_node:
  assumes n: "inode_ok n" "in_mod n = Some m"
    and len: "length (st_values (in_state n)) \<le> length (st_next_net_values (in_state n))"
      "length (st_values (in_state n)) \<le> length (in_driven_nets n)"
    and hiz: "\<forall>i \<in> driven_set n. i < length (st_values (in_state n)) \<longrightarrow>
      st_next_net_values (in_state n) ! i = high_impedence_state"
    and driven: "nets_driven n (map inst_of cs)"
    and run: "run_comb_local (propagate_up cs n) tick tok any = Some (False, n4)"
    and drives: "apply_net_drives n4 = (False, n5)"
  shows "n5 = n4 \<and> st_values (in_state n4) = st_values (in_state n) \<and>
    (\<forall>i \<in> driven_set n. i < length (st_values (in_state n)) \<longrightarrow> \<not> is_reg m i \<longrightarrow>
       st_values (in_state n) ! i =
       verilog_net.resolve_all (driver_vals (node_drives m (st_values (in_state n)) cs) i))"
proof -
  let ?vs = "st_values (in_state n)" and ?nets = "st_next_net_values (in_state n)"
  let ?D1 = "concat (map (\<lambda>c. child_drives (inst_of c)) cs)"
  let ?D2 = "concat (map (assign_drive m ?vs) (m_assigns m))"
  note st = inode_ok_st [OF n]
  have D1: "fst ` set ?D1 \<subseteq> drive_targets m (map inst_of cs)"
    using drive_targets_fst [of m ?vs cs] by (auto simp: node_drives_def)
  have D2: "ca_lhs_signal ` set (m_assigns m) \<subseteq> drive_targets m (map inst_of cs)"
    by (auto simp: drive_targets_def)
  have up: "propagate_up cs n = with_nets n (st_eval (in_state n)) (net_acc (length ?vs) ?nets ?D1)"
    unfolding propagate_up_drives using drive_all_nets [OF n(2) len(1) nets_drivenD [OF driven n(2) st D1]] .
  have "inode_ok (propagate_up cs n)" using next_okD(1) [OF propagate_up_ok n(1)] .
  then have 4: "st_values (in_state n4) = ?vs" "in_driven_nets n4 = in_driven_nets n"
      "st_next_net_values (in_state n4) = net_acc (length ?vs) (net_acc (length ?vs) ?nets ?D1) ?D2"
    using run_comb_local_flag [OF _ _ _ _ run] nets_drivenD [OF driven n(2) st D2] n(2) len(1)
    by (simp_all add: up)
  have "in_mod n4 = Some m"
    using run_comb_local_ok [OF \<open>inode_ok (propagate_up cs n)\<close>, of tick tok any] run n(2)
    by (auto simp: next_ok_def static_def up)
  then have "n5 = n4 \<and> (\<forall>i \<in> driven_set n. i < length ?vs \<longrightarrow> \<not> is_reg m i \<longrightarrow>
      ?vs ! i = net_acc (length ?vs) ?nets (node_drives m ?vs cs) ! i)"
    using apply_net_drives_flag [of n4 m n5] drives len 4
    by (auto simp: driven_set_def node_drives_def net_acc_append)
  then show ?thesis
    using 4(1) hiz len(1) by (simp add: net_acc_nth verilog_net.resolve_all_def)
qed

lemma resolve_children_true: "resolve_children self ts True = Some (c, ts') \<Longrightarrow> c"
  by (induction ts arbitrary: ts') (auto split: Option.bind_splits)

lemma settled_tree_children:
  assumes "map shape cs' = map shape cs" "map values_of cs' = map values_of cs"
    and "in_mod n' = in_mod n" "st_values (in_state n') = st_values (in_state n)"
    and "\<forall>t \<in> set cs. ports_match n (inst_of t)" "t' \<in> set cs'"
  shows "ports_match n' (inst_of t')"
proof -
  obtain t where "t \<in> set cs" "shape t' = shape t" "values_of t' = values_of t"
    using map_eq_member [OF assms(1,2,6)] by blast
  then show ?thesis
    using assms(3,4,5) ports_match_cong [of n' n "inst_of t'" "inst_of t"] shape_inst values_inst by blast
qed

lemma comb_iterE:
  assumes "comb_iter self tick trig any n cs = Some (False, tok, n', cs')"
  obtains st n2 cs1 n4 n5 where
    "begin_change_epoch (in_state n) = (tok, st)"
    "propagate_down (prepare_net_drives (n\<lparr>in_state := st\<rparr>)) cs False = (False, n2, cs1)"
    "resolve_children self cs1 False = Some (False, cs')"
    "run_comb_local (propagate_up cs' n2) tick trig any = Some (False, n4)"
    "apply_net_drives n4 = (False, n5)"
    "apply_nba (in_state n5) = (False, in_state n')" "n' = n5\<lparr>in_state := in_state n'\<rparr>"
proof -
  obtain tok0 st where 0: "begin_change_epoch (in_state n) = (tok0, st)" by fastforce
  let ?n1 = "prepare_net_drives (n\<lparr>in_state := st\<rparr>)"
  obtain c1 n2 cs1 where 1: "propagate_down ?n1 cs False = (c1, n2, cs1)" using prod_cases3 by blast
  obtain c2 cs2 where 2: "resolve_children self cs1 c1 = Some (c2, cs2)"
    using assms by (auto simp: comb_iter_def 0 1 split: Option.bind_splits)
  obtain c3 n4 where 3: "run_comb_local (propagate_up cs2 n2) tick trig any = Some (c3, n4)"
    using assms by (auto simp: comb_iter_def 0 1 2 split: Option.bind_splits)
  obtain c4 n5 where 4: "apply_net_drives n4 = (c4, n5)" by fastforce
  obtain c5 st5 where 5: "apply_nba (in_state n5) = (c5, st5)" by fastforce
  have flags: "c5 = False" "c4 = False" "c3 = False" "c2 = False"
      and res: "tok = tok0" "n' = n5\<lparr>in_state := st5\<rparr>" "cs' = cs2"
    using assms by (auto simp: comb_iter_def 0 1 2 3 4 5)
  then have "c1 = False" using 2 resolve_children_true by (cases c1) auto
  then show thesis using that [of st n2 cs1 n4 n5] 0 1 2 3 4 5 flags res by simp
qed

lemma nba_flag:
  assumes "apply_nba st = (False, st')"
  shows "st_values st' = st_values st"
  using assms nba_assign_flag [of "st_nba_queue st" False st] by (auto simp: apply_nba_def split: prod.splits)

lemma comb_iter_flag:
  assumes self: "settles d self" "resolves d self" and n: "inode_ok n"
    and cs: "\<forall>t \<in> set cs. tree_ok t \<and> driven_tree t \<and> depth t \<le> d"
    and driven: "nets_driven n (map inst_of cs)"
    and iter: "comb_iter self tick trig any n cs = Some (False, tok, n', cs')"
  shows "static n' = static n \<and> st_values (in_state n') = st_values (in_state n) \<and>
    map shape cs' = map shape cs \<and> map values_of cs' = map values_of cs \<and>
    settled_tree (Inst n' cs')"
proof -
  from n obtain m where m: "in_mod n = Some m" by (auto elim: inode_okE)
  have st_n': "static n' = static n"
    using comb_iter_ok [OF self(2) n, of cs tick trig any] cs iter by (auto simp: pass_ok_def next_ok_def)
  obtain st n2 cs1 n4 n5 where 0: "begin_change_epoch (in_state n) = (tok, st)"
    and 1: "propagate_down (prepare_net_drives (n\<lparr>in_state := st\<rparr>)) cs False = (False, n2, cs1)"
    and 2: "resolve_children self cs1 False = Some (False, cs')"
    and 3: "run_comb_local (propagate_up cs' n2) tick trig any = Some (False, n4)" "apply_net_drives n4 = (False, n5)"
    and 5: "apply_nba (in_state n5) = (False, in_state n')"
    using comb_iterE [OF iter] by metis
  let ?n0 = "n\<lparr>in_state := st\<rparr>"
  have v0: "st_values st = st_values (in_state n)"
    using begin_change_epoch_frame(2) [of "in_state n"] 0 by simp
  have ok0: "next_ok n ?n0"
    using st_ok_begin_change_epoch [of _ "in_state n"] 0 by (intro next_ok_st) simp
  define n1 where "n1 = prepare_net_drives ?n0"
  have ok1: "inode_ok n1" and s1: "static n1 = static n"
    using ok0 prepare_net_drives_ok [of ?n0] n by (auto simp: next_ok_def n1_def)
  obtain nets where n1: "n1 = with_nets (?n0\<lparr>in_driven_nets := grow_to False (length (st_values st)) (in_driven_nets n)\<rparr>) (st_eval st) nets"
      "length (st_values st) \<le> length nets"
      "\<forall>i \<in> driven_set ?n0. i < length (st_values st) \<longrightarrow> nets ! i = high_impedence_state"
    using prepare_net_drives_nets [of ?n0 m] m unfolding n1_def by auto
  obtain e where down: "cs1 = cs" "n2 = with_nets n1 e nets" "\<forall>t \<in> set cs. ports_match n1 (inst_of t)"
    using propagate_down_flag [OF ok1, of cs False n2 cs1] 1 n1(1) by (auto simp: n1_def)
  have kids: "map shape cs' = map shape cs" "map values_of cs' = map values_of cs" "\<forall>t \<in> set cs'. settled_tree t"
    using resolve_children_flag [OF self(1) _ 2] down(1) cs by auto
  have m2: "inode_ok n2" "in_mod n2 = Some m"
    using propagate_down_ok [OF 1] cs m ok1 s1 down(2) by (auto simp: next_ok_def static_def n1_def)
  have dr2: "nets_driven n2 (map inst_of cs')"
    using driven drive_targets_shape [OF kids(1)] s1 by (simp add: nets_driven_def down(2) static_def)
  have "driven_set n2 = driven_set ?n0" using s1 by (simp add: down(2) static_def driven_set_def)
  then have settled: "n5 = n4 \<and> st_values (in_state n4) = st_values (in_state n2) \<and>
      (\<forall>i \<in> driven_set n2. i < length (st_values (in_state n2)) \<longrightarrow> \<not> is_reg m i \<longrightarrow>
       st_values (in_state n2) ! i =
       verilog_net.resolve_all (driver_vals (node_drives m (st_values (in_state n2)) cs') i))"
    using settle_node [OF m2 _ _ _ dr2 3] n1 by (auto simp: down(2))
  then have v': "st_values (in_state n') = st_values (in_state n)" "st_values (in_state n2) = st_values (in_state n)"
    using nba_flag [OF 5] v0 n1(1) by (auto simp: down(2))
  have "settled_nets n' cs'"
    using settled st_n' m v' s1 by (auto simp: settled_nets_def static_def down(2))
  moreover have "in_mod n' = in_mod n1" "st_values (in_state n') = st_values (in_state n1)"
    using st_n' s1 v' by (auto simp: static_def down(2))
  ultimately show ?thesis
    using st_n' v' kids settled_tree_children [OF kids(1,2) _ _ down(3)] by simp
qed

lemma comb_loop_true: "comb_loop self tick k trig any True n cs = Some (c, n', cs') \<Longrightarrow> c"
  by (induction k arbitrary: trig any n cs) (auto split: Option.bind_splits if_splits)

lemma comb_loop_flag:
  assumes "comb_loop self tick (Suc k) trig any False n cs = Some (False, n', cs')"
  shows "\<exists>tok. comb_iter self tick trig any n cs = Some (False, tok, n', cs')"
proof -
  obtain c tok n1 cs1 where 1: "comb_iter self tick trig any n cs = Some (c, tok, n1, cs1)"
    using assms by (auto split: Option.bind_splits)
  show ?thesis using assms 1 comb_loop_true by (cases c) (auto dest: comb_loop_true)
qed

lemma comb_start_values: "st_values (snd (snd (comb_start st))) = st_values st"
  by (auto simp: comb_start_def mark_changed_def begin_change_epoch_def Let_def)

lemma settled_tree_node:
  assumes "settled_tree (Inst n cs)" and "static n' = static n"
    and "st_values (in_state n') = st_values (in_state n)"
  shows "settled_tree (Inst n' cs)"
proof -
  have "ports_match n' c = ports_match n c" for c
    using assms(2,3) by (intro ports_match_cong) (auto simp: static_def)
  then show ?thesis using assms by (auto simp: settled_nets_def static_def)
qed

lemma comb_resolve_settles: "settles d (comb_resolve d tick)"
proof (induction d)
  case 0
  then show ?case by (simp add: settles_def)
next
  case (Suc d)
  show ?case unfolding settles_def
  proof (intro allI impI)
    fix t t' assume t: "tree_ok t" "driven_tree t" "depth t \<le> Suc d" and run: "comb_resolve (Suc d) tick t = Some (False, t')"
    obtain n cs where tt: "t = Inst n cs" by (cases t)
    then have n: "inode_ok n" "in_mod n \<noteq> None" using t(1) by (auto simp: inode_ok_def)
    obtain tok any st where 1: "comb_start (in_state n) = (tok, any, st)" using prod_cases3 by blast
    have n1: "next_ok n (n\<lparr>in_state := st\<rparr>)"
      using st_ok_comb_start [of _ "in_state n"] 1 by (intro next_ok_st) simp
    obtain n' cs' where 2: "comb_loop (comb_resolve d tick) tick (Suc 63) tok any False (n\<lparr>in_state := st\<rparr>) cs = Some (False, n', cs')"
        and t': "t' = Inst (upd_state (\<lambda>s. s\<lparr>st_comb_prev_values := st_values s\<rparr>) n') cs'"
      using run n(2) by (auto simp: tt 1 comb_max_iter_def simp del: comb_loop.simps split: Option.bind_splits)
    obtain tok' where iter: "comb_iter (comb_resolve d tick) tick tok any (n\<lparr>in_state := st\<rparr>) cs = Some (False, tok', n', cs')"
      using comb_loop_flag [OF 2] by blast
    have cs: "\<forall>c \<in> set cs. tree_ok c \<and> driven_tree c \<and> depth c \<le> d"
      using t depth_child [of _ cs n] by (fastforce simp: tt)
    have "nets_driven (n\<lparr>in_state := st\<rparr>) (map inst_of cs)"
      using t(2) by (simp add: tt nets_driven_def driven_set_def)
    note settled = comb_iter_flag [OF Suc.IH comb_resolve_ok next_okD(1) [OF n1 n(1)] cs this iter]
    have "st_values st = st_values (in_state n)" using comb_start_values [of "in_state n"] 1 by simp
    then show "shape t' = shape t \<and> values_of t' = values_of t \<and> settled_tree t'"
      using settled settled_tree_node [of n' cs' "upd_state (\<lambda>s. s\<lparr>st_comb_prev_values := st_values s\<rparr>) n'"]
      by (simp add: tt t' upd_state_def)
  qed
qed

end
