(* ===== verification/Settle_Elab.thy ===== *)
theory Settle_Elab
  imports Settle
begin

text \<open>
  Elaboration marks every net that a continuous assignment or an output port drives, so the
  settled-tree theorem applies to every design in which no register is driven that way.
\<close>

lemma driven_tree_shape: "shape t = shape t' \<Longrightarrow> driven_tree t \<Longrightarrow> driven_tree t'"
proof (induction t arbitrary: t')
  case (Inst n cs)
  obtain n' cs' where t': "t' = Inst n' cs'" by (cases t')
  then have st: "static n' = static n" and map: "map shape cs' = map shape cs" using Inst.prems(1) by auto
  have "driven_tree c'" if c': "c' \<in> set cs'" for c'
  proof -
    obtain c where "c \<in> set cs" "shape c = shape c'" using map_eq_member [OF map map c'] by auto
    then show ?thesis using Inst.IH Inst.prems(2) by auto
  qed
  moreover have "nets_driven n' (map inst_of cs')"
    using Inst.prems(2) st drive_targets_shape [OF map] by (simp add: nets_driven_def static_def)
  ultimately show ?case by (simp add: t')
qed

fun no_reg_targets :: "instance_state \<Rightarrow> bool" where
  "no_reg_targets (Inst n cs) \<longleftrightarrow>
     (case in_mod n of
        None \<Rightarrow> True
      | Some m \<Rightarrow> (\<forall>a \<in> set (m_assigns m). \<not> is_reg m (ca_lhs_signal a)) \<and>
                   (\<forall>c \<in> set cs. \<forall>d \<in> set (in_output_drives (inst_of c)). \<not> is_reg m (dr_parent_signal d))) \<and>
     (\<forall>c \<in> set cs. no_reg_targets c)"

definition marked :: "compiled_module \<Rightarrow> inst_node \<Rightarrow> inst_node list \<Rightarrow> bool" where
  "marked m n cs \<longleftrightarrow>
     in_mod n = Some m \<and> length (in_driven_nets n) = length (m_signal_names m) \<and>
     (\<forall>s \<in> drive_targets m cs. s < length (m_signal_names m) \<longrightarrow> \<not> is_reg m s \<longrightarrow> s \<in> driven_set n)"

lemma foldl_mark:
  assumes step: "\<And>dr x. f dr x = (if t x \<noteq> SIZE_MAX \<and> t x < length dr \<and> \<not> is_reg m (t x) then dr[t x := True] else dr)"
  shows "length (foldl f dr xs) = length dr \<and>
    (\<forall>s < length dr. foldl f dr xs ! s \<longleftrightarrow> dr ! s \<or> (\<exists>x \<in> set xs. t x = s \<and> s \<noteq> SIZE_MAX \<and> \<not> is_reg m s))"
proof (induction xs arbitrary: dr)
  case Nil
  then show ?case by simp
next
  case (Cons x xs)
  have "length (f dr x) = length dr" by (simp add: step)
  then show ?case using Cons.IH [of "f dr x"] by (auto simp: step)
qed

lemma marked_new: "marked m (new_node m nm) []"
proof -
  let ?dr = "replicate (length (m_signal_names m)) False"
  have dr: "in_driven_nets (new_node m nm) = foldl (mark_assigned m) ?dr (m_assigns m)"
    by (simp add: new_node_def init_driven_nets_from_assigns_def)
  have len: "length (foldl (mark_assigned m) dr as) = length dr" for dr as
    by (induction as arbitrary: dr) (auto simp: mark_assigned_def)
  have "foldl (mark_assigned m) dr as ! s \<longleftrightarrow> dr ! s \<or> (\<exists>a \<in> set as. ca_lhs_signal a = s \<and> \<not> is_reg m s)"
    if "s < length dr" for dr as s
    using that by (induction as arbitrary: dr) (auto simp: mark_assigned_def)
  then show ?thesis
    by (auto simp: marked_def dr len driven_set_def drive_targets_def) (simp add: new_node_def)
qed

lemma marked_child_drives:
  assumes "marked m n cs"
  shows "marked m (mark_child_drives m n c) (cs @ [c])"
proof -
  let ?n = "if in_driven_nets n = [] then init_driven_nets_from_assigns n else n"
  have empty: "foldl (mark_assigned m) [] as = []" for as
    by (induction as) (auto simp: mark_assigned_def)
  have n: "in_driven_nets ?n = in_driven_nets n" "in_mod ?n = Some m"
    using assms by (auto simp: marked_def init_driven_nets_from_assigns_def empty)
  have "mark_driven m dr d = (if dr_parent_signal d \<noteq> SIZE_MAX \<and> dr_parent_signal d < length dr \<and>
      \<not> is_reg m (dr_parent_signal d) then dr[dr_parent_signal d := True] else dr)" for dr d
    by (simp add: mark_driven_def)
  note mark = foldl_mark [of "mark_driven m" dr_parent_signal m, OF this, of "in_driven_nets n" "in_output_drives c"]
  have dr: "in_driven_nets (mark_child_drives m n c) = foldl (mark_driven m) (in_driven_nets n) (in_output_drives c)"
      "in_mod (mark_child_drives m n c) = Some m"
    using n by (simp_all add: mark_child_drives_def Let_def)
  have "s \<in> driven_set (mark_child_drives m n c)"
    if s: "s \<in> drive_targets m (cs @ [c])" "s < length (m_signal_names m)" "\<not> is_reg m s" for s
  proof (cases "s \<in> drive_targets m cs")
    case True
    then show ?thesis using assms s mark by (simp add: marked_def driven_set_def dr)
  next
    case False
    then have "\<exists>d \<in> set (in_output_drives c). dr_parent_signal d = s" "s \<noteq> SIZE_MAX"
      using s(1) by (auto simp: drive_targets_def)
    then show ?thesis using assms s mark by (simp add: marked_def driven_set_def dr)
  qed
  then show ?thesis using assms mark dr by (simp add: marked_def)
qed

lemma output_drives_elab:
  "in_output_drives (inst_of (elaborate_children l d p)) = in_output_drives p"
  "in_output_drives (inst_of (elaborate_instances l d pm idefs p cs)) = in_output_drives p"
proof (induction l d p and l d pm idefs p cs rule: elaborate_children_elaborate_instances.induct)
  case (4 levels d pm idef idefs parent cs)
  have "in_output_drives (mark_child_drives pm parent c) = in_output_drives parent" for c
    by (simp add: mark_child_drives_def Let_def init_driven_nets_from_assigns_def split: option.split)
  then show ?case using 4 by (auto simp: Let_def split: option.split)
qed (auto split: option.split)

fun marked_tree :: "instance_state \<Rightarrow> bool" where
  "marked_tree (Inst n cs) \<longleftrightarrow>
     (\<forall>m. in_mod n = Some m \<longrightarrow> marked m n (map inst_of cs)) \<and> (\<forall>c \<in> set cs. marked_tree c)"

lemma marked_cong:
  "map in_output_drives cs = map in_output_drives cs' \<Longrightarrow> marked m n cs = marked m n cs'"
proof -
  assume "map in_output_drives cs = map in_output_drives cs'"
  then have "in_output_drives ` set cs = in_output_drives ` set cs'" by (metis list.set_map)
  then have "drive_targets m cs = drive_targets m cs'"
    unfolding drive_targets_def by (metis (no_types, lifting) SUP_image comp_apply image_cong)
  then show ?thesis by (simp add: marked_def)
qed

lemma marked_make_child: "marked cm (make_child pm cm idef) []"
  using marked_new [of cm "id_instance_name idef"]
  by (auto simp: marked_def make_child_def Let_def driven_set_def split: prod.split)

lemma elaborate_marked:
  "(\<And>m. in_mod p = Some m \<Longrightarrow> marked m p []) \<Longrightarrow> marked_tree (elaborate_children l d p)"
  "marked pm p (map inst_of cs) \<Longrightarrow> \<forall>c \<in> set cs. marked_tree c \<Longrightarrow>
     marked_tree (elaborate_instances l d pm idefs p cs)"
proof (induction l d p and l d pm idefs p cs rule: elaborate_children_elaborate_instances.induct)
  case (3 levels d pm parent cs)
  then show ?case by (auto simp: marked_def)
next
  case (4 levels d pm idef idefs parent cs)
  show ?case
  proof (cases "find_module d (id_module_name idef)")
    case None
    then show ?thesis using 4 by simp
  next
    case (Some cm)
    let ?child = "make_child pm cm idef"
    have "marked cm ?child []" by (rule marked_make_child)
    then have kid: "marked_tree (elaborate_children levels d ?child)"
      using 4(2) [OF Some refl] by (auto simp: marked_def)
    have "marked pm (mark_child_drives pm parent ?child) (map inst_of cs @ [?child])"
      using marked_child_drives [OF 4(4)] .
    then have "marked pm (mark_child_drives pm parent ?child) (map inst_of (cs @ [elaborate_children levels d ?child]))"
      by (subst marked_cong [where cs' = "map inst_of cs @ [?child]"]) (auto simp: output_drives_elab)
    then show ?thesis using 4(3) [OF Some refl] 4(5) kid Some by (simp add: Let_def)
  qed
qed (auto split: option.split)

lemma marked_driven: "marked_tree t \<Longrightarrow> no_reg_targets t \<Longrightarrow> tree_ok t \<Longrightarrow> driven_tree t"
proof (induction t)
  case (Inst n cs)
  from Inst.prems(3) obtain m where m: "in_mod n = Some m" by (auto elim: inode_okE)
  have "\<not> is_reg m s" if "s \<in> drive_targets m (map inst_of cs)" for s
    using that Inst.prems(2) m by (auto simp: drive_targets_def)
  then have "nets_driven n (map inst_of cs)"
    using Inst.prems(1) m by (auto simp: nets_driven_def marked_def)
  then show ?case using Inst by auto
qed

end
