(* ===== verification/Sim_Facts.thy ===== *)
theory Sim_Facts
  imports Settle_Elab
begin

text \<open>
  Functional behaviour of the scheduler's passes: due events, the nonblocking queue and the
  parallel semantics of nonblocking assignments, the random-number bus, the trigger set of the
  combinational blocks, and the initial blocks.
\<close>

unbundle bit_operations_syntax

subsection \<open>Due events\<close>

lemma fire_events_fold:
  "fire_events m tick evs keep st =
     (keep @ filter (\<lambda>ev. tick < ev_due_tick ev) evs,
      fold (run_event m) (filter (\<lambda>ev. \<not> tick < ev_due_tick ev) evs) st)"
  by (induction evs arbitrary: keep st) auto

lemma process_due_events_fold:
  assumes "st_mod st = Some m"
  shows "process_due_events st tick =
    (fold (run_event m) (filter (\<lambda>ev. ev_due_tick ev \<le> tick) (st_events st)) st)
      \<lparr>st_events := filter (\<lambda>ev. tick < ev_due_tick ev) (st_events st)\<rparr>"
  using assms by (simp add: process_due_events_def fire_events_fold not_less)

subsection \<open>The nonblocking queue\<close>

lemma nba_assign_values:
  "st_values (snd (nba_assign q c st)) = fold (\<lambda>(i, v) vs. vs[i := v]) q (st_values st)"
proof (induction q arbitrary: c st)
  case Nil
  then show ?case by simp
next
  case (Cons u q)
  obtain i v where u: "u = (i, v)" by (cases u)
  obtain d st1 where 1: "assign_signal st i v = (d, st1)" by fastforce
  then have "st_values st1 = (st_values st)[i := v]" using assign_signal_values [of st i v] by simp
  then show ?case using Cons.IH [of "d \<or> c" st1] by (simp add: u 1)
qed

lemma apply_nba_values:
  "st_values (snd (apply_nba st)) = fold (\<lambda>(i, v) vs. vs[i := v]) (st_nba_queue st) (st_values st)"
  using nba_assign_values [of "st_nba_queue st" False st] by (simp add: apply_nba_def case_prod_beta)

lemma fold_updates_notin:
  "i \<notin> fst ` set q \<Longrightarrow> fold (\<lambda>(i, v) vs. vs[i := v]) q vs ! i = vs ! i"
  by (induction q arbitrary: vs) auto

lemma fold_updates_length [simp]: "length (fold (\<lambda>(i, v) vs. vs[i := v]) q vs) = length vs"
  by (induction q arbitrary: vs) auto

lemma fold_updates_in:
  "distinct (map fst q) \<Longrightarrow> (i, v) \<in> set q \<Longrightarrow> i < length vs \<Longrightarrow>
     fold (\<lambda>(i, v) vs. vs[i := v]) q vs ! i = v"
proof (induction q arbitrary: vs)
  case Nil
  then show ?case by simp
next
  case (Cons u q)
  obtain j w where u: "u = (j, w)" by (cases u)
  show ?case
  proof (cases "(i, v) = u")
    case True
    then show ?thesis using Cons.prems by (simp add: u fold_updates_notin)
  next
    case False
    then show ?thesis using Cons by (auto simp: u)
  qed
qed

lemma nonblocking_eq:
  assumes "st_ok m st" and "sn_lhs_signal n < length (st_values st)" and "sn_delay_ticks n = 0"
  obtains st' where "exec_nonblocking_assign m n tick False st = (False, st')" "st_ok m st'"
    "st_values st' = st_values st"
    "st_nba_queue st' = st_nba_queue st @ [(sn_lhs_signal n, deval (m_expr_nodes m) (st_values st) (sn_expr_root n))]"
proof -
  obtain e where 1: "eval_in m (sn_expr_root n) st =
      (deval (m_expr_nodes m) (st_values st) (sn_expr_root n), st\<lparr>st_eval := e\<rparr>)"
    using eval_in_eq [OF assms(1)] .
  have ok: "st_ok m (push_nba i v (st\<lparr>st_eval := e\<rparr>))" for i v
    using st_ok_push(1) st_ok_eval [OF assms(1), of "sn_expr_root n"] 1 by simp
  have "exec_nonblocking_assign m n tick False st =
      (False, push_nba (sn_lhs_signal n) (deval (m_expr_nodes m) (st_values st) (sn_expr_root n)) (st\<lparr>st_eval := e\<rparr>))"
    using assms(2,3) by (simp add: exec_nonblocking_assign_def 1)
  from this ok show thesis by (rule that) (simp_all add: push_nba_def)
qed

lemma nonblocking_seq:
  assumes "st_ok m st"
    and "\<forall>i \<in> set idxs. i < length arena \<and> sn_k (arena ! i) = nonblocking_assign \<and>
      sn_delay_ticks (arena ! i) = 0 \<and> sn_lhs_signal (arena ! i) < length (st_values st)"
  shows "\<exists>st'. exec_seq (exec_stmt (Suc f) m arena tick False) idxs c st (Some flow_none) =
      Some (c, st', Some flow_none) \<and> st_values st' = st_values st \<and>
      st_nba_queue st' = st_nba_queue st @
        map (\<lambda>i. (sn_lhs_signal (arena ! i), deval (m_expr_nodes m) (st_values st) (sn_expr_root (arena ! i)))) idxs"
  using assms
proof (induction idxs arbitrary: st)
  case Nil
  then show ?case by simp
next
  case (Cons i idxs)
  then have i: "i < length arena" "sn_k (arena ! i) = nonblocking_assign" by auto
  obtain st1 where 1: "exec_nonblocking_assign m (arena ! i) tick False st = (False, st1)" "st_ok m st1"
      "st_values st1 = st_values st"
      "st_nba_queue st1 = st_nba_queue st @ [(sn_lhs_signal (arena ! i), deval (m_expr_nodes m) (st_values st) (sn_expr_root (arena ! i)))]"
    using nonblocking_eq [OF Cons.prems(1), of "arena ! i" tick] Cons.prems(2) by auto
  then have "exec_stmt (Suc f) m arena tick False i st (Some flow_none) = Some (False, st1, Some flow_none)"
    using i by (simp add: exec_node_def plain_def)
  moreover obtain st' where "exec_seq (exec_stmt (Suc f) m arena tick False) idxs c st1 (Some flow_none) =
      Some (c, st', Some flow_none)" "st_values st' = st_values st1"
      "st_nba_queue st' = st_nba_queue st1 @
        map (\<lambda>i. (sn_lhs_signal (arena ! i), deval (m_expr_nodes m) (st_values st1) (sn_expr_root (arena ! i)))) idxs"
    using Cons.IH [OF 1(2)] Cons.prems(2) 1(3) by auto
  ultimately show ?case using 1(3,4) by (simp add: flow_active_def del: exec_stmt.simps)
qed

subsection \<open>The random-number bus\<close>

lemma nibble_cases:
  fixes w :: u8
  assumes "w < 16"
  shows "w \<in> set [0, 1, 2, 3, 4, 5, 6, 7, 8, 9, 10, 11, 12, 13, 14, 15]"
proof -
  have "unat w < 16" using assms by (simp add: word_less_nat_alt)
  then have "unat w \<in> set [0..<16]" by simp
  then have "word_of_nat (unat w) \<in> (word_of_nat ` set [0..<16] :: u8 set)" by (rule imageI)
  then show ?thesis by (simp add: upt_rec)
qed

lemma lfsr_table:
  "map lfsr_next [0, 1, 2, 3, 4, 5, 6, 7, 8, 9, 10, 11, 12, 13, 14, 15] =
     [1, 3, 5, 7, 8, 10, 12, 14, 0, 2, 4, 6, 9, 11, 13, 15]"
  by (simp add: lfsr_next_def Let_def)

lemma read_write_bus:
  assumes "distinct [a, b, c, d]" and "\<forall>s \<in> {a, b, c, d}. s < length (st_values st)" and "w < 16"
  shows "read_bus (write_bus [a, b, c, d] 0 w st) [a, b, c, d] 0 0 = Some w"
  using nibble_cases [OF assms(3)] assms(1,2) unfolding set_simps insert_iff empty_iff
  by (elim disjE) (simp_all add: poke_def Let_def)

lemma read_bus_bound: "read_bus st [a, b, c, d] 0 0 = Some s \<Longrightarrow> s < 16"
  by (auto simp: Let_def split: if_splits)

lemma lfsr_next_bound: "s < 16 \<Longrightarrow> lfsr_next s < 16"
  using nibble_cases [of s] lfsr_table by auto

lemma urandom_step:
  assumes "m_vectors m ''$urandom'' = Some vd" "vd_bits vd = [a, b, c, d]" "distinct [a, b, c, d]"
    and "\<forall>s \<in> {a, b, c, d}. s < length (st_values st)"
    and "reset_level m st = true_state" "find_sig m ''clk'' = clk" "clk \<noteq> SIZE_MAX"
    and "clk < length (st_values st)" "clk < length (st_prev_values st)"
    and "is_posedge (st_prev_values st ! clk) (st_values st ! clk)"
    and "read_bus st [a, b, c, d] 0 0 = Some s"
  shows "read_bus (urandom_update m st) [a, b, c, d] 0 0 = Some (lfsr_next s)"
proof -
  have "urandom_update m st = write_bus [a, b, c, d] 0 (lfsr_next s) st"
    using assms by (simp add: urandom_update_def Let_def is_unknown_def del: read_bus.simps write_bus.simps)
  then show ?thesis
    using read_write_bus [OF assms(3,4) lfsr_next_bound [OF read_bus_bound [OF assms(11)]]] by simp
qed

lemma lfsr_orbit:
  "map (\<lambda>k. (lfsr_next ^^ k) 0) [0..<15] = [0, 1, 3, 7, 14, 13, 11, 6, 12, 9, 2, 5, 10, 4, 8]"
  "(lfsr_next ^^ 15) 0 = 0"
  using lfsr_table by (simp_all add: upt_rec numeral_eq_Suc)

subsection \<open>The trigger set of the combinational blocks\<close>

lemma foldl_marks:
  "length (foldl (\<lambda>mk i. mk[i := tok]) mk is) = length mk"
  "j < length mk \<Longrightarrow> foldl (\<lambda>mk i. mk[i := tok]) mk is ! j = (if j \<in> set is then tok else mk ! j)"
  by (induction "is" arbitrary: mk) auto

lemma comb_start_marks:
  assumes "st_inv st" and "length (st_comb_prev_values st) = length (st_values st)"
    and "st_change_token st + 1 \<noteq> 0" and "comb_start st = (tok, any, st1)"
  shows "tok = st_change_token st + 1 \<and> st_change_token st1 = tok \<and>
    length (st_values st) \<le> length (st_change_mark st1) \<and>
    st_values st1 = st_values st \<and>
    (\<forall>i < length (st_change_mark st1). st_change_mark st1 ! i = tok \<longleftrightarrow>
       i < length (st_values st) \<and> st_values st ! i \<noteq> st_comb_prev_values st ! i)"
proof -
  let ?st2 = "st\<lparr>st_change_mark := grow_to 0 (length (st_values st)) (st_change_mark st)\<rparr>"
  obtain t st3 where 3: "begin_change_epoch ?st2 = (t, st3)" by fastforce
  have st3: "t = st_change_token st + 1" "st3 = ?st2\<lparr>st_changed_signals := [], st_change_token := t\<rparr>"
    using 3 assms(3) by (auto simp: begin_change_epoch_def Let_def)
  obtain any' st4 where 4: "mark_changed t st3 = (any', st4)" by fastforce
  have st1: "tok = t" "st1 = st4 \<or> st1 = st4\<lparr>st_comb_initialized := True\<rparr>"
    using assms(2,4) by (auto simp: comb_start_def 3 4 Let_def split: if_splits)
  have "\<forall>x \<in> set (st_change_mark ?st2). x < t"
    using assms(1,3) st3(1) set_grow_to [of "0::u32" "length (st_values st)" "st_change_mark st"]
      word_less_plus_one [OF assms(3)] by (fastforce simp: st_inv_def word_neq_0_conv)
  then have old: "st_change_mark ?st2 ! i \<noteq> t" if "i < length (st_change_mark ?st2)" for i
    using that nth_mem by fastforce
  show ?thesis
    using st1 4 st3 assms(2) old by (auto simp: mark_changed_def Let_def foldl_marks filter_empty_conv split: if_splits)
qed

lemma comb_runs_exact:
  assumes "st_inv st" and "length (st_comb_prev_values st) = length (st_values st)"
    and "st_change_token st + 1 \<noteq> 0" and "st_change_token st + 2 \<noteq> 0"
    and "comb_start st = (tok, any, st1)" and "\<not> ac_is_star ac"
  shows "comb_runs tok any ac (snd (begin_change_epoch st1)) \<longleftrightarrow>
    (\<exists>sig \<in> set (ac_sens_signals ac). sig < length (st_values st) \<and>
       st_values st ! sig \<noteq> st_comb_prev_values st ! sig)"
proof -
  note m = comb_start_marks [OF assms(1,2,3,5)]
  then have "st_change_mark (snd (begin_change_epoch st1)) = st_change_mark st1"
    using assms(4) by (simp add: begin_change_epoch_def Let_def add.assoc)
  moreover have "sig < length (st_change_mark st1) \<and> st_change_mark st1 ! sig = tok \<longleftrightarrow>
      sig < length (st_values st) \<and> st_values st ! sig \<noteq> st_comb_prev_values st ! sig" for sig
    using m by (metis order_less_le_trans)
  ultimately show ?thesis using assms(6) by (simp add: comb_runs_def list_ex_iff)
qed

lemma comb_runs_wrap:
  assumes "st_inv st" and "length (st_comb_prev_values st) = length (st_values st)"
    and "st_change_token st + 2 = 0"
    and "comb_start st = (tok, any, st1)" and "\<not> ac_is_star ac"
  shows "\<not> comb_runs tok any ac (snd (begin_change_epoch st1))"
proof -
  have t: "st_change_token st + 1 \<noteq> 0"
  proof
    assume "st_change_token st + 1 = 0"
    then have "st_change_token st + 1 + 1 = 1" by simp
    then show False using assms(3) by (simp add: add.assoc)
  qed
  note m = comb_start_marks [OF assms(1,2) t assms(4)]
  have "st_change_token st1 + 1 = 0" using m assms(3) by (simp add: add.assoc)
  then have "\<forall>x \<in> set (st_change_mark (snd (begin_change_epoch st1))). x = 0"
    using set_grow_to [of "0::u32" "length (st_values st1)" "replicate (length (st_change_mark st1)) 0"]
    by (auto simp: begin_change_epoch_def Let_def)
  then show ?thesis using m t assms(5) by (auto simp: comb_runs_def list_ex_iff dest: nth_mem)
qed

subsection \<open>Initial blocks\<close>

text \<open>Performing an undelayed scalar assignment directly is the same as performing its event.\<close>

lemma run_event_is_assign:
  "sn_delay_ticks n = 0 \<Longrightarrow> snd (exec_blocking_assign m n tick st) = run_event m (scalar_event t False (sn_lhs_signal n) (sn_expr_root n)) st"
  by (simp add: exec_blocking_assign_def run_event_def scalar_event_def split: prod.split)

text \<open>A block whose first statement is an undelayed assignment and whose second is a conditional.\<close>

lemma initial_block_replays:
  assumes wf: "wf_stmts (ib_stmt_nodes ib)" and ok: "st_ok m st"
    and roots: "ib_roots ib = [r]" and r: "r < length (ib_stmt_nodes ib)"
    and blk: "sn_k (ib_stmt_nodes ib ! r) = block" "sn_stmts (ib_stmt_nodes ib ! r) = [a, b]"
    and a: "sn_k (ib_stmt_nodes ib ! a) = blocking_assign" "sn_delay_ticks (ib_stmt_nodes ib ! a) = 0"
    and b: "sn_k (ib_stmt_nodes ib ! b) = if_stmt"
    and ev: "ev = scalar_event (st_initial_base_tick st) False (sn_lhs_signal (ib_stmt_nodes ib ! a)) (sn_expr_root (ib_stmt_nodes ib ! a))"
  obtains c st' fs where
    "exec_stmt (length (ib_stmt_nodes ib)) m (ib_stmt_nodes ib) (st_initial_base_tick st) False b
       (run_event m ev (push_event ev st)) (Some flow_none) = Some (c, st', fs)"
    "run_initial m ib st = Some st'" "st_ok m st'" "ev \<in> set (st_events st')"
proof -
  let ?arena = "ib_stmt_nodes ib"
  have lt: "a < r" "b < r" using wf r blk by (simp_all add: wf_stmts_def stmt_children_def)
  then obtain k where k: "length ?arena = Suc (Suc k)"
    using r that [of "length ?arena - 2"] by (cases "length ?arena"; cases "length ?arena - 1") auto
  obtain st' where st': "run_initial m ib st = Some st'" "st_ok m st'" using run_initial_ok [OF wf ok] by blast
  have "schedule_roots (try_schedule_linear (Suc (length ?arena)) ?arena) (ib_roots ib) False 0 st =
      Some (False, push_event ev st)"
    using roots r blk a b lt k by (simp add: ev schedule_node_def schedule_assign_def Let_def)
  then obtain c where run: "run_roots m ?arena (st_initial_base_tick st) (ib_roots ib) False (push_event ev st) = Some (c, st')"
    using st'(1) by (auto simp: run_initial_def push_event_def simp del: try_schedule_linear.simps split: Option.bind_splits)
  then have "queues_grow (push_event ev st) st'"
    using exec_queues.run_roots_R [OF _ _ exec_queues.R_refl] by simp
  then have "ev \<in> set (st_events st')" by (auto simp: queues_grow_def push_event_def)
  moreover have "exec_stmt (length ?arena) m ?arena t False a s (Some flow_none) =
      Some (fst (exec_blocking_assign m (?arena ! a) t s), run_event m ev s, Some flow_none)" for t s
    using lt r a k run_event_is_assign [OF a(2)] by (simp add: exec_node_def plain_def ev)
  then have "\<exists>c fs. exec_stmt (length ?arena) m ?arena (st_initial_base_tick st) False b
      (run_event m ev (push_event ev st)) (Some flow_none) = Some (c, st', fs)"
    using run roots r blk by (auto simp: exec_node_def flow_active_def split: Option.bind_splits)
  ultimately show thesis using that st' by blast
qed

subsection \<open>The change log\<close>

text \<open>
  The log of an epoch that started with the values \<open>v0\<close>: it lists every signal that differs from
  \<open>v0\<close>, and every signal marked with the epoch.
\<close>

definition log_ok :: "logic_t list \<Rightarrow> module_state \<Rightarrow> bool" where
  "log_ok v0 st \<longleftrightarrow>
     st_inv st \<and> length v0 = length (st_values st) \<and>
     (\<forall>i < length (st_change_mark st). st_change_mark st ! i = st_change_token st \<longrightarrow> i \<in> set (st_changed_signals st)) \<and>
     (\<forall>i < length v0. st_values st ! i \<noteq> v0 ! i \<longrightarrow> i \<in> set (st_changed_signals st))"

definition log_rel :: "compiled_module \<Rightarrow> logic_t list \<Rightarrow> module_state \<Rightarrow> module_state \<Rightarrow> bool" where
  "log_rel m v0 st st' \<longleftrightarrow> (wf_arena (m_expr_nodes m) \<longrightarrow> log_ok v0 st \<longrightarrow> log_ok v0 st')"

lemma log_ok_epoch:
  assumes "st_inv st"
  shows "log_ok (st_values st) (snd (begin_change_epoch st))"
  using begin_change_epoch_inv [OF assms] begin_change_epoch_fresh [OF assms]
  by (auto simp: log_ok_def frame_simps dest!: nth_mem)

lemma log_ok_assign:
  assumes "log_ok v0 st"
  shows "log_ok v0 (snd (assign_signal st sig v))"
proof (cases "sig < length (st_values st) \<and> st_values st ! sig \<noteq> v")
  case False
  then have "snd (assign_signal st sig v) = st" by (auto simp: assign_signal_def)
  then show ?thesis using assms by simp
next
  case True
  let ?marks = "grow_to 0 (length (st_values st)) (st_change_mark st)"
  have tok: "st_change_token st \<noteq> 0" using assms by (simp add: log_ok_def st_inv_def)
  have old: "i \<in> set (st_changed_signals st)" if "i < length ?marks" "?marks ! i = st_change_token st" for i
  proof (cases "i < length (st_change_mark st)")
    case True
    then show ?thesis using assms that by (simp add: log_ok_def nth_grow_to)
  next
    case False
    then show ?thesis using that tok nth_grow_to_new [of "st_change_mark st" i "length (st_values st)" 0] by auto
  qed
  have len: "sig < length ?marks" using True by (simp add: less_max_iff_disj)
  have inv: "st_inv (snd (assign_signal st sig v))" using assms assign_signal_inv by (simp add: log_ok_def)
  show ?thesis
  proof (cases "?marks ! sig = st_change_token st")
    case marked: True
    then have eq: "snd (assign_signal st sig v) = st\<lparr>st_values := (st_values st)[sig := v], st_change_mark := ?marks\<rparr>"
      using True by (simp add: assign_signal_def Let_def)
    show ?thesis using assms inv old old [OF len marked] unfolding eq log_ok_def by auto
  next
    case unmarked: False
    then have eq: "snd (assign_signal st sig v) = st\<lparr>st_values := (st_values st)[sig := v],
        st_change_mark := ?marks[sig := st_change_token st], st_changed_signals := st_changed_signals st @ [sig]\<rparr>"
      using True by (simp add: assign_signal_def Let_def)
    show ?thesis using assms inv old unfolding eq log_ok_def by auto
  qed
qed

lemma log_ok_eval: "wf_arena (m_expr_nodes m) \<Longrightarrow> log_ok v0 st \<Longrightarrow> log_ok v0 (snd (eval_in m r st))"
  by (simp add: log_ok_def frame_simps eval_in_deval(2))

lemma log_ok_push: "log_ok v0 st \<Longrightarrow> log_ok v0 (push_nba sig v st)" "log_ok v0 st \<Longrightarrow> log_ok v0 (push_event ev st)"
  by (simp_all add: log_ok_def push_inv) (simp_all add: push_nba_def push_event_def)

interpretation exec_log: exec_rel m "\<lambda>_. log_rel m v0" UNIV for m v0
  by unfold_locales (auto simp: log_rel_def intro: log_ok_assign log_ok_eval log_ok_push)

end
