(* ===== verification/Elab_Facts.thy ===== *)
theory Elab_Facts
  imports Settle_Elab
begin

text \<open>
  Width coercion of port connections and parameter overrides: the numbers MSB-first bit vectors
  stand for, before and after \<^verbatim>\<open>resize_bits\<close>, and the 32 signals a parameter value is written to.
\<close>

subsection \<open>Port connections\<close>

lemma bound_value_literal [simp]: "bound_value n (make_literal_binding v) = v"
  by (simp add: bound_value_def make_literal_binding_def)

lemma resize_bits_values:
  "map (bound_value n) (resize_bits src w se) =
     resize_msb (bound_value n port_binding_default) false_state (map (bound_value n) src) w se"
  by (simp add: resize_bits_def resize_msb_map)

lemma resize_bits_known:
  assumes "map (bound_value n) src = map of_bool_state bs" and "src \<noteq> []"
  shows "map (bound_value n) (resize_bits src w se) = map of_bool_state (resize_msb False False bs w se)"
proof -
  have "bs \<noteq> []" using assms by auto
  then have "resize_msb x false_state (map of_bool_state bs) w se = map of_bool_state (resize_msb False False bs w se)" for x
    by (simp add: resize_msb_map) (simp add: resize_msb_def)
  then show ?thesis using assms(1) by (simp add: resize_bits_values)
qed

subsection \<open>Parameter overrides\<close>

lemma override_values:
  assumes "length (vd_bits vd) = 32" and "distinct (vd_bits vd)"
    and "\<forall>s \<in> set (vd_bits vd). s < length (st_values st)"
    and "distinct js" and "\<forall>j \<in> set js. j < 32"
  shows "length (st_values (foldl (override_bit vd value) st js)) = length (st_values st) \<and>
    (\<forall>j \<in> set js. st_values (foldl (override_bit vd value) st js) ! (vd_bits vd ! (31 - j)) = of_bool_state (bit value j)) \<and>
    (\<forall>s. s \<notin> (\<lambda>j. vd_bits vd ! (31 - j)) ` set js \<longrightarrow>
       st_values (foldl (override_bit vd value) st js) ! s = st_values st ! s)"
  using assms(3,4,5)
proof (induction js arbitrary: st)
  case Nil
  then show ?case by simp
next
  case (Cons j js)
  let ?st1 = "override_bit vd value st j" and ?f = "\<lambda>j. vd_bits vd ! (31 - j)"
  have inj: "?f i \<noteq> ?f j" if i: "i \<in> set js" for i
  proof -
    have "i < 32" "j < 32" "i \<noteq> j" using Cons.prems(2,3) i by auto
    then have "31 - i \<noteq> 31 - j" "31 - i < 32" "31 - j < 32" by arith+
    then show ?thesis using assms(1,2) by (simp add: nth_eq_iff_index_eq)
  qed
  have "?f j < length (st_values st)" using Cons.prems(1,3) assms(1) by simp
  then have st1: "st_values ?st1 = (st_values st)[?f j := of_bool_state (bit value j)]"
    by (simp add: override_bit_def Let_def)
  note ih = Cons.IH [of ?st1]
  have j: "?f j \<notin> ?f ` set js"
  proof
    assume "?f j \<in> ?f ` set js"
    then obtain i where "?f j = ?f i" "i \<in> set js" by (rule imageE)
    then show False using inj [of i] by simp
  qed
  show ?case using ih Cons.prems j \<open>?f j < length (st_values st)\<close> by (auto simp: st1)
qed

lemma apply_param_value_bits:
  assumes "m_vectors cm pname = Some vd" and "length (vd_bits vd) = 32" and "distinct (vd_bits vd)"
    and "\<forall>s \<in> set (vd_bits vd). s < length (st_values st)"
  shows "map ((!) (st_values (apply_param_value cm pname value st))) (vd_bits vd) =
      map (\<lambda>i. of_bool_state (bit value (31 - i))) [0..<32] \<and>
    (\<forall>s. s \<notin> set (vd_bits vd) \<longrightarrow>
       st_values (apply_param_value cm pname value st) ! s = st_values st ! s)"
proof -
  let ?st' = "foldl (override_bit vd value) st [0..<32]"
  have eq: "apply_param_value cm pname value st = ?st'" using assms by (simp add: apply_param_value_def)
  note ov = override_values [OF assms(2,3,4), of "[0..<32]" "value"]
  have "st_values ?st' ! (vd_bits vd ! i) = of_bool_state (bit value (31 - i))" if "i < 32" for i
    using ov that by (auto dest!: bspec [of _ _ "31 - i"])
  then have "map ((!) (st_values ?st')) (vd_bits vd) = map (\<lambda>i. of_bool_state (bit value (31 - i))) [0..<32]"
    using assms(2) by (intro nth_equalityI) auto
  moreover have "s \<notin> (\<lambda>j. vd_bits vd ! (31 - j)) ` set [0..<32]" if "s \<notin> set (vd_bits vd)" for s
    using that assms(2) nth_mem by fastforce
  ultimately show ?thesis using ov unfolding eq by (auto dest: subsetD)
qed

end
