(* ===== verification/Builder.thy ===== *)
theory Builder
  imports Expr "HOL-Library.State_Monad" "HOL-Library.Signed_Division"
begin

text \<open>
  The expression builder of the Verilog compiler (\<^verbatim>\<open>details::expr_parser\<close> in
  \<^verbatim>\<open>verilog/digital/digital.h\<close>, from \<^verbatim>\<open>add_node\<close> to the part selects): it turns vector operators
  into nodes of the module's expression arena, with constant folding, sharing of equal nodes
  and a limit on the number of nodes. The builder's state is the module and the diagnostics;
  operations are computations of the state monad. Where C++ leaves the order of two argument
  evaluations open, the left one comes first. Vectors are MSB first.
\<close>

unbundle bit_operations_syntax

subsection \<open>The builder's state\<close>

record xp =
  xp_m :: compiled_module
  xp_errs :: "string list"

type_synonym 'a builder = "(xp, 'a) state"

record expr_value =
  xv_is_vector :: bool
  xv_is_signed :: bool
  xv_scalar_root :: nat
  xv_vector_roots :: "nat list"
  xv_msb :: int
  xv_lsb :: int

definition max_expr_nodes :: nat where
  "max_expr_nodes = 100000"

definition max_concat_bits :: nat where
  "max_concat_bits = 4096"

definition get_m :: "compiled_module builder" where
  "get_m = State (\<lambda>s. (xp_m s, s))"

definition report :: "string \<Rightarrow> unit builder" where
  "report msg = State (\<lambda>s. ((), s\<lparr>xp_errs := xp_errs s @ [msg]\<rparr>))"

subsection \<open>Nodes\<close>

definition literal_node :: "logic_t \<Rightarrow> expr_node" where
  "literal_node v = expr_node_default\<lparr>en_kind := literal_kind, en_literal := v\<rparr>"

definition signal_node :: "nat \<Rightarrow> expr_node" where
  "signal_node sig = expr_node_default\<lparr>en_kind := signal_kind, en_signal := sig\<rparr>"

definition unary_node :: "expr_kind \<Rightarrow> nat \<Rightarrow> expr_node" where
  "unary_node k a = expr_node_default\<lparr>en_kind := k, en_a := a\<rparr>"

definition binary_node :: "expr_kind \<Rightarrow> nat \<Rightarrow> nat \<Rightarrow> expr_node" where
  "binary_node k a b = expr_node_default\<lparr>en_kind := k, en_a := a, en_b := b\<rparr>"

definition is_foldable :: "compiled_module \<Rightarrow> nat \<Rightarrow> bool" where
  "is_foldable m sig \<longleftrightarrow>
     sig \<noteq> SIZE_MAX \<and> sig < length (m_signal_is_const m) \<and> sig < length (m_signal_const_value m) \<and>
     m_signal_is_const m ! sig \<and> sig < length (m_signal_is_const_foldable m) \<and>
     m_signal_is_const_foldable m ! sig"

definition propagate_const :: "compiled_module \<Rightarrow> expr_node \<Rightarrow> expr_node" where
  "propagate_const m n =
     (if en_kind n = signal_kind \<and> is_foldable m (en_signal n)
      then n\<lparr>en_kind := literal_kind, en_literal := m_signal_const_value m ! en_signal n,
             en_a := SIZE_MAX, en_b := SIZE_MAX, en_signal := SIZE_MAX\<rparr>
      else n)"

definition try_get_literal :: "expr_node list \<Rightarrow> nat \<Rightarrow> logic_t option" where
  "try_get_literal ns root =
     (if root < length ns \<and> en_kind (ns ! root) = literal_kind then Some (en_literal (ns ! root)) else None)"

definition fold_node :: "expr_node list \<Rightarrow> expr_node \<Rightarrow> logic_t option" where
  "fold_node ns n =
     (case en_kind n of
        literal_kind \<Rightarrow> None
      | signal_kind \<Rightarrow> None
      | unary_not \<Rightarrow> do {a \<leftarrow> try_get_literal ns (en_a n); Some (logic_not a)}
      | is_unknown_kind \<Rightarrow>
          do {a \<leftarrow> try_get_literal ns (en_a n);
              Some (if is_unknown (normalize_z_to_x a) then true_state else false_state)}
      | k \<Rightarrow>
          do {a \<leftarrow> try_get_literal ns (en_a n); b \<leftarrow> try_get_literal ns (en_b n);
              Some (case k of
                binary_and \<Rightarrow> logic_and a b
              | binary_or \<Rightarrow> logic_or a b
              | binary_xor \<Rightarrow> logic_xor a b
              | binary_eq \<Rightarrow>
                  (let aa = normalize_z_to_x a; bb = normalize_z_to_x b in
                   if is_unknown aa \<or> is_unknown bb then indeterminate_state
                   else if aa = bb then true_state else false_state)
              | binary_neq \<Rightarrow>
                  (let aa = normalize_z_to_x a; bb = normalize_z_to_x b in
                   if is_unknown aa \<or> is_unknown bb then indeterminate_state
                   else if aa \<noteq> bb then true_state else false_state)
              | binary_case_eq \<Rightarrow> if a = b then true_state else false_state
              | _ \<Rightarrow> indeterminate_state)})"

text \<open>The end of \<^verbatim>\<open>add_node\<close>, which is also what its recursive call on a literal runs: share, or
  append below the node limit.\<close>

definition intern_node :: "expr_node \<Rightarrow> nat builder" where
  "intern_node n =
     State (\<lambda>s.
       let m = xp_m s in
       case m_expr_intern m n of
         Some i \<Rightarrow> (i, s)
       | None \<Rightarrow>
           if length (m_expr_nodes m) \<ge> max_expr_nodes
           then (SIZE_MAX, s\<lparr>xp_errs := xp_errs s @ [''expression too large (node limit exceeded)'']\<rparr>)
           else (length (m_expr_nodes m),
                 s\<lparr>xp_m := m\<lparr>m_expr_nodes := m_expr_nodes m @ [n],
                              m_expr_intern := (m_expr_intern m)(n \<mapsto> length (m_expr_nodes m))\<rparr>\<rparr>))"

definition add_node :: "expr_node \<Rightarrow> nat builder" where
  "add_node n =
     do {m \<leftarrow> get_m;
         let n1 = propagate_const m n;
         (case fold_node (m_expr_nodes m) n1 of
            Some v \<Rightarrow> intern_node (literal_node v)
          | None \<Rightarrow> intern_node n1)}"

definition make_literal :: "logic_t \<Rightarrow> nat builder" where
  "make_literal v = add_node (literal_node v)"

definition make_signal_root :: "nat \<Rightarrow> nat builder" where
  "make_signal_root sig = add_node (signal_node sig)"

definition make_is_unknown :: "nat \<Rightarrow> nat builder" where
  "make_is_unknown a = add_node (unary_node is_unknown_kind a)"

definition make_not :: "nat \<Rightarrow> nat builder" where
  "make_not a = add_node (unary_node unary_not a)"

definition make_and :: "nat \<Rightarrow> nat \<Rightarrow> nat builder" where
  "make_and a b = add_node (binary_node binary_and a b)"

definition make_or :: "nat \<Rightarrow> nat \<Rightarrow> nat builder" where
  "make_or a b = add_node (binary_node binary_or a b)"

definition make_xor :: "nat \<Rightarrow> nat \<Rightarrow> nat builder" where
  "make_xor a b = add_node (binary_node binary_xor a b)"

definition make_mux :: "nat \<Rightarrow> nat \<Rightarrow> nat \<Rightarrow> nat builder" where
  "make_mux sel t f =
     do {nsel \<leftarrow> make_not sel; a \<leftarrow> make_and sel t; b \<leftarrow> make_and nsel f; make_or a b}"

subsection \<open>Values\<close>

definition scalar_value :: "nat \<Rightarrow> int \<Rightarrow> int \<Rightarrow> bool \<Rightarrow> expr_value" where
  "scalar_value root msb lsb sg =
     \<lparr>xv_is_vector = False, xv_is_signed = sg, xv_scalar_root = root, xv_vector_roots = [],
      xv_msb = msb, xv_lsb = lsb\<rparr>"

definition vector_value :: "nat list \<Rightarrow> int \<Rightarrow> int \<Rightarrow> bool \<Rightarrow> expr_value" where
  "vector_value roots msb lsb sg =
     \<lparr>xv_is_vector = True, xv_is_signed = sg, xv_scalar_root = SIZE_MAX, xv_vector_roots = roots,
      xv_msb = msb, xv_lsb = lsb\<rparr>"

definition make_vector_with_range :: "nat list \<Rightarrow> int \<Rightarrow> int \<Rightarrow> bool \<Rightarrow> expr_value builder" where
  "make_vector_with_range roots msb lsb sg =
     (case roots of
        [] \<Rightarrow> do {x \<leftarrow> make_literal indeterminate_state; State_Monad.return (scalar_value x 0 0 sg)}
      | [r] \<Rightarrow> State_Monad.return (scalar_value r msb lsb sg)
      | _ \<Rightarrow> State_Monad.return (vector_value roots msb lsb sg))"

definition make_vector :: "nat list \<Rightarrow> bool \<Rightarrow> expr_value builder" where
  "make_vector roots sg =
     do {roots1 \<leftarrow> (if length roots > max_concat_bits
                     then do {_ \<leftarrow> report ''vector expression too wide (limit exceeded)'';
                              State_Monad.return (take max_concat_bits roots)}
                     else State_Monad.return roots);
         if roots1 = []
         then do {x \<leftarrow> make_literal indeterminate_state; State_Monad.return (scalar_value x 0 0 sg)}
         else make_vector_with_range roots1 (int (length roots1) - 1) 0 sg}"

definition value_bits :: "expr_value \<Rightarrow> nat list" where
  "value_bits v = (if xv_is_vector v then xv_vector_roots v else [xv_scalar_root v])"

definition value_width :: "expr_value \<Rightarrow> nat" where
  "value_width v = (if xv_is_vector v then length (xv_vector_roots v) else 1)"

definition resize_to_vector :: "expr_value \<Rightarrow> nat \<Rightarrow> bool \<Rightarrow> nat list builder" where
  "resize_to_vector v w sign_extend =
     (let src = value_bits v in
      if w \<le> 1 then State_Monad.return [last src]
      else if length src = w then State_Monad.return src
      else if length src > w
      then State_Monad.return (map (\<lambda>i. src ! (length src - w + i)) [0..<w])
      else do {z \<leftarrow> make_literal false_state;
               let s = (if src = [] then z else hd src);
               State_Monad.return (replicate (w - length src) (if sign_extend then s else z) @ src)})"

definition resize_value :: "expr_value \<Rightarrow> nat \<Rightarrow> bool \<Rightarrow> expr_value builder" where
  "resize_value v w sign_extend =
     (if w \<le> 1
      then do {vv \<leftarrow> resize_to_vector v 1 sign_extend;
               State_Monad.return (scalar_value (hd vv) 0 0 (xv_is_signed v))}
      else do {vv \<leftarrow> resize_to_vector v w sign_extend; make_vector vv (xv_is_signed v)})"

fun fold_roots :: "(nat \<Rightarrow> nat \<Rightarrow> nat builder) \<Rightarrow> nat \<Rightarrow> nat list \<Rightarrow> nat builder" where
  "fold_roots f r [] = State_Monad.return r"
| "fold_roots f r (x # xs) = do {r1 \<leftarrow> f r x; fold_roots f r1 xs}"

definition to_bool_root :: "expr_value \<Rightarrow> nat builder" where
  "to_bool_root v =
     (if \<not> xv_is_vector v then State_Monad.return (xv_scalar_root v)
      else case xv_vector_roots v of
             [] \<Rightarrow> make_literal indeterminate_state
           | r # rs \<Rightarrow> fold_roots make_or r rs)"

definition any_unknown_root :: "expr_value \<Rightarrow> nat builder" where
  "any_unknown_root v =
     (if \<not> xv_is_vector v then make_is_unknown (xv_scalar_root v)
      else if xv_vector_roots v = [] then make_literal true_state
      else do {r \<leftarrow> make_literal false_state;
               fold_roots (\<lambda>acc b. do {u \<leftarrow> make_is_unknown b; make_or acc u}) r (xv_vector_roots v)})"

subsection \<open>Comparisons for equality, bitwise operators\<close>

fun and_pairs :: "expr_kind \<Rightarrow> nat \<Rightarrow> (nat \<times> nat) list \<Rightarrow> nat builder" where
  "and_pairs k r [] = State_Monad.return r"
| "and_pairs k r ((a, b) # ps) =
     do {bi \<leftarrow> add_node (binary_node k a b); r1 \<leftarrow> make_and r bi; and_pairs k r1 ps}"

definition compare_kind :: "expr_kind \<Rightarrow> expr_value \<Rightarrow> expr_value \<Rightarrow> nat builder" where
  "compare_kind k a b =
     (let w = max (value_width a) (value_width b); signed_op = (xv_is_signed a \<and> xv_is_signed b) in
      do {av \<leftarrow> resize_to_vector a w signed_op; bv \<leftarrow> resize_to_vector b w signed_op;
          r \<leftarrow> add_node (binary_node k (hd av) (hd bv));
          and_pairs k r (zip (tl av) (tl bv))})"

definition compare_eq :: "expr_value \<Rightarrow> expr_value \<Rightarrow> nat builder" where
  "compare_eq = compare_kind binary_eq"

definition compare_case_eq :: "expr_value \<Rightarrow> expr_value \<Rightarrow> nat builder" where
  "compare_case_eq = compare_kind binary_case_eq"

definition bitwise_unary :: "expr_value \<Rightarrow> expr_kind \<Rightarrow> expr_value builder" where
  "bitwise_unary a k =
     (if \<not> xv_is_vector a
      then do {r \<leftarrow> add_node (unary_node k (xv_scalar_root a));
               State_Monad.return (scalar_value r 0 0 (xv_is_signed a))}
      else do {out \<leftarrow> State_Monad.traverse_list (\<lambda>r. add_node (unary_node k r)) (xv_vector_roots a);
               make_vector out (xv_is_signed a)})"

definition bitwise_binary :: "expr_value \<Rightarrow> expr_value \<Rightarrow> expr_kind \<Rightarrow> expr_value builder" where
  "bitwise_binary a b k =
     (let w = max (value_width a) (value_width b); signed_op = (xv_is_signed a \<and> xv_is_signed b) in
      do {av \<leftarrow> resize_to_vector a w signed_op; bv \<leftarrow> resize_to_vector b w signed_op;
          if w = 1
          then do {r \<leftarrow> add_node (binary_node k (hd av) (hd bv));
                   State_Monad.return (scalar_value r 0 0 signed_op)}
          else do {out \<leftarrow> State_Monad.traverse_list (\<lambda>(x, y). add_node (binary_node k x y)) (zip av bv);
                   make_vector out signed_op}})"

subsection \<open>Constant evaluation\<close>

text \<open>The value a signal has for the constant evaluator, which reads \<^verbatim>\<open>signal_is_const\<close> and not
  \<^verbatim>\<open>signal_is_const_foldable\<close>.\<close>

definition const_vals :: "compiled_module \<Rightarrow> logic_t list" where
  "const_vals m =
     map (\<lambda>sig. if m_signal_is_const m ! sig \<and> sig < length (m_signal_const_value m)
                then m_signal_const_value m ! sig else indeterminate_state)
       [0..<length (m_signal_is_const m)]"

definition eval_const_root :: "nat \<Rightarrow> compiled_module \<Rightarrow> nat \<Rightarrow> logic_t option" where
  "eval_const_root fuel m root = eval_expr fuel (m_expr_nodes m) root (const_vals m)"

type_synonym const_cache = "bool list \<times> logic_t list"

definition eval_const_root_cached :: "compiled_module \<Rightarrow> nat \<Rightarrow> const_cache \<Rightarrow> logic_t \<times> const_cache" where
  "eval_const_root_cached m root mc =
     (case eval_go (Suc (length (m_expr_nodes m))) (m_expr_nodes m) (const_vals m) True root mc of
        Some r \<Rightarrow> r | None \<Rightarrow> (indeterminate_state, mc))"

definition const_cache_init :: "compiled_module \<Rightarrow> const_cache" where
  "const_cache_init m =
     (replicate (length (m_expr_nodes m)) False, replicate (length (m_expr_nodes m)) false_state)"

fun const_bits_uint :: "compiled_module \<Rightarrow> nat list \<Rightarrow> nat \<Rightarrow> u64 \<Rightarrow> const_cache \<Rightarrow> u64 option" where
  "const_bits_uint m [] k acc mc = Some acc"
| "const_bits_uint m (r # rs) k acc mc =
     (let (b0, mc1) = eval_const_root_cached m r mc; b = normalize_z_to_x b0 in
      if is_unknown b then None
      else if k \<ge> 64 then (if b = true_state then None else const_bits_uint m rs (k + 1) acc mc1)
      else const_bits_uint m rs (k + 1) (if b = true_state then acc OR push_bit k 1 else acc) mc1)"

definition try_eval_const_uint64 :: "compiled_module \<Rightarrow> expr_value \<Rightarrow> u64 option" where
  "try_eval_const_uint64 m v =
     (if value_bits v = [] then None
      else const_bits_uint m (rev (value_bits v)) 0 0 (const_cache_init m))"

fun const_bits_int :: "compiled_module \<Rightarrow> bool \<Rightarrow> bool \<Rightarrow> nat list \<Rightarrow> nat \<Rightarrow> u64 \<Rightarrow> const_cache \<Rightarrow> u64 option" where
  "const_bits_int m signed_value sign_bit [] k acc mc = Some acc"
| "const_bits_int m signed_value sign_bit (r # rs) k acc mc =
     (let (b0, mc1) = eval_const_root_cached m r mc; b = normalize_z_to_x b0; one = (b = true_state) in
      if is_unknown b then None
      else if k \<ge> 64
      then (if (if signed_value then one \<noteq> sign_bit else one) then None
            else const_bits_int m signed_value sign_bit rs (k + 1) acc mc1)
      else const_bits_int m signed_value sign_bit rs (k + 1) (if one then acc OR push_bit k 1 else acc) mc1)"

text \<open>The result is the bit pattern of an \<^verbatim>\<open>int64_t\<close>.\<close>

definition try_eval_const_int64 :: "compiled_module \<Rightarrow> expr_value \<Rightarrow> bool \<Rightarrow> u64 option" where
  "try_eval_const_int64 m v signed_value =
     (let roots = value_bits v; w = length roots in
      if roots = [] then None
      else
        (let (m0, mc) = eval_const_root_cached m (hd roots) (const_cache_init m); msb_raw = normalize_z_to_x m0 in
         if is_unknown msb_raw then None
         else
           (let sign_bit = (msb_raw = true_state) in
            case const_bits_int m signed_value sign_bit (rev roots) 0 0 mc of
              None \<Rightarrow> None
            | Some u \<Rightarrow>
                if signed_value
                then (if w > 64 then (if bit u 63 \<noteq> sign_bit then None else Some u)
                      else if w < 64 \<and> sign_bit then Some (u OR push_bit w (NOT 0))
                      else Some u)
                else if u > 0x7FFFFFFFFFFFFFFF then None else Some u)))"

definition try_eval_const_int :: "compiled_module \<Rightarrow> expr_value \<Rightarrow> int option" where
  "try_eval_const_int m v =
     (case try_eval_const_uint64 m v of
        None \<Rightarrow> None
      | Some u \<Rightarrow> if u > 0x7FFFFFFF then None else Some (uint u))"

subsection \<open>Literals\<close>

definition literal_bits :: "(nat \<Rightarrow> bool) \<Rightarrow> nat \<Rightarrow> nat list builder" where
  "literal_bits f w =
     do {rs \<leftarrow> State_Monad.traverse_list (\<lambda>k. make_literal (of_bool_state (f k))) [0..<w];
         State_Monad.return (rev rs)}"

definition make_uint_literal :: "u64 \<Rightarrow> nat \<Rightarrow> expr_value builder" where
  "make_uint_literal u w =
     (if w \<le> 1
      then do {r \<leftarrow> make_literal (of_bool_state (bit u 0)); State_Monad.return (scalar_value r 0 0 False)}
      else do {roots \<leftarrow> literal_bits (\<lambda>k. k < 64 \<and> bit u k) w; make_vector roots False})"

definition make_int_literal :: "u64 \<Rightarrow> nat \<Rightarrow> expr_value builder" where
  "make_int_literal raw w =
     (if w \<le> 1
      then do {r \<leftarrow> make_literal (of_bool_state (bit raw 0)); State_Monad.return (scalar_value r 0 0 False)}
      else do {roots \<leftarrow> literal_bits (\<lambda>k. if k < 64 then bit raw k else sint raw < 0) w; make_vector roots True})"

definition make_unknown_vector :: "nat \<Rightarrow> bool \<Rightarrow> expr_value builder" where
  "make_unknown_vector w sg =
     (if w \<le> 1
      then do {x \<leftarrow> make_literal indeterminate_state; State_Monad.return (scalar_value x 0 0 sg)}
      else do {x \<leftarrow> make_literal indeterminate_state; make_vector (replicate w x) sg})"

subsection \<open>Arithmetic\<close>

text \<open>The carry chain, over the operand bits from the LSB; \<open>neg\<close> inverts the second operand.\<close>

fun ripple :: "bool \<Rightarrow> (nat \<times> nat) list \<Rightarrow> nat \<Rightarrow> nat list builder" where
  "ripple neg [] carry = State_Monad.return []"
| "ripple neg ((ai, b0) # ps) carry =
     do {bi \<leftarrow> (if neg then make_not b0 else State_Monad.return b0);
         axb \<leftarrow> make_xor ai bi; out \<leftarrow> make_xor axb carry;
         t1 \<leftarrow> make_and ai bi; t2 \<leftarrow> make_and ai carry; t3 \<leftarrow> make_and bi carry;
         t12 \<leftarrow> make_or t1 t2; carry1 \<leftarrow> make_or t12 t3;
         outs \<leftarrow> ripple neg ps carry1;
         State_Monad.return (outs @ [out])}"

definition mask_unknown :: "nat \<Rightarrow> nat list \<Rightarrow> nat list builder" where
  "mask_unknown unknown_sel out =
     do {x \<leftarrow> make_literal indeterminate_state;
         State_Monad.traverse_list (\<lambda>r. make_mux unknown_sel x r) out}"

definition add_sub :: "bool \<Rightarrow> string \<Rightarrow> expr_value \<Rightarrow> expr_value \<Rightarrow> expr_value builder" where
  "add_sub neg msg a b =
     (let signed_op = (xv_is_signed a \<and> xv_is_signed b); w0 = max (value_width a) (value_width b) in
      do {w \<leftarrow> (if w0 > max_concat_bits
                 then do {_ \<leftarrow> report msg; State_Monad.return max_concat_bits}
                 else State_Monad.return w0);
          ua \<leftarrow> any_unknown_root a; ub \<leftarrow> any_unknown_root b; unknown_sel \<leftarrow> make_or ua ub;
          if w \<le> 1
          then do {av \<leftarrow> resize_to_vector a 1 signed_op; bv \<leftarrow> resize_to_vector b 1 signed_op;
                   r \<leftarrow> make_xor (hd av) (hd bv); x \<leftarrow> make_literal indeterminate_state;
                   r1 \<leftarrow> make_mux unknown_sel x r;
                   State_Monad.return (scalar_value r1 0 0 signed_op)}
          else do {av \<leftarrow> resize_to_vector a w signed_op; bv \<leftarrow> resize_to_vector b w signed_op;
                   carry \<leftarrow> make_literal (of_bool_state neg);
                   out \<leftarrow> ripple neg (rev (zip av bv)) carry;
                   out1 \<leftarrow> mask_unknown unknown_sel out;
                   make_vector out1 signed_op}})"

definition arith_add :: "expr_value \<Rightarrow> expr_value \<Rightarrow> expr_value builder" where
  "arith_add = add_sub False ''addition result too wide (limit exceeded)''"

definition arith_sub :: "expr_value \<Rightarrow> expr_value \<Rightarrow> expr_value builder" where
  "arith_sub = add_sub True ''subtraction result too wide (limit exceeded)''"

text \<open>The 2-bit tile of the unsigned 8 by 8 multiplier, MSB first.\<close>

definition mul2_tile :: "nat \<Rightarrow> nat \<Rightarrow> nat \<Rightarrow> nat \<Rightarrow> nat list builder" where
  "mul2_tile a0 a1 b0 b1 =
     do {p0 \<leftarrow> make_and a0 b0; t1 \<leftarrow> make_and a0 b1; t2 \<leftarrow> make_and a1 b0;
         p1 \<leftarrow> make_xor t1 t2; c1 \<leftarrow> make_and t1 t2; t3 \<leftarrow> make_and a1 b1;
         p2 \<leftarrow> make_xor t3 c1; p3 \<leftarrow> make_and t3 c1;
         State_Monad.return [p3, p2, p1, p0]}"

definition bit_from_lsb :: "nat \<Rightarrow> nat list \<Rightarrow> nat \<Rightarrow> nat" where
  "bit_from_lsb z v k = (if k \<ge> length v then z else v ! (length v - 1 - k))"

definition place_tile :: "nat \<Rightarrow> nat \<Rightarrow> nat list \<Rightarrow> nat \<Rightarrow> nat list" where
  "place_tile z w tile shift =
     foldl (\<lambda>p k. if shift + k \<ge> w then p else p[w - 1 - (shift + k) := tile ! (3 - k)])
       (replicate w z) [0..<4]"

fun mul8_tiles :: "nat \<Rightarrow> nat \<Rightarrow> nat list \<Rightarrow> nat list \<Rightarrow> (nat \<times> nat) list \<Rightarrow> expr_value \<Rightarrow> expr_value builder" where
  "mul8_tiles z w av bv [] acc = State_Monad.return acc"
| "mul8_tiles z w av bv ((ai, bi) # ijs) acc =
     do {tile \<leftarrow> mul2_tile (bit_from_lsb z av (2 * ai)) (bit_from_lsb z av (2 * ai + 1))
                            (bit_from_lsb z bv (2 * bi)) (bit_from_lsb z bv (2 * bi + 1));
         partial \<leftarrow> make_vector (place_tile z w tile (2 * (ai + bi))) False;
         acc1 \<leftarrow> arith_add acc partial;
         mul8_tiles z w av bv ijs acc1}"

definition mask_value :: "nat \<Rightarrow> bool \<Rightarrow> expr_value \<Rightarrow> expr_value builder" where
  "mask_value unknown_sel sg acc =
     do {roots \<leftarrow> mask_unknown unknown_sel (xv_vector_roots acc);
         State_Monad.return (acc\<lparr>xv_vector_roots := roots, xv_is_signed := sg\<rparr>)}"

definition mul8 :: "nat \<Rightarrow> expr_value \<Rightarrow> expr_value \<Rightarrow> expr_value builder" where
  "mul8 unknown_sel a b =
     do {av \<leftarrow> resize_to_vector a 8 False; bv \<leftarrow> resize_to_vector b 8 False;
         z \<leftarrow> make_literal false_state;
         acc0 \<leftarrow> make_uint_literal 0 16;
         acc \<leftarrow> mul8_tiles z 16 av bv (List.product [0..<4] [0..<4]) acc0;
         if xv_is_vector acc then mask_value unknown_sel False acc
         else State_Monad.return (acc\<lparr>xv_is_signed := False\<rparr>)}"

definition partial_row :: "nat \<Rightarrow> nat list \<Rightarrow> nat \<Rightarrow> nat \<Rightarrow> nat list builder" where
  "partial_row z av k bbit =
     State_Monad.traverse_list
       (\<lambda>pos. if pos + k < length av then make_and (av ! (pos + k)) bbit else State_Monad.return z)
       [0..<length av]"

fun mul_rows :: "bool \<Rightarrow> nat \<Rightarrow> nat list \<Rightarrow> nat list \<Rightarrow> nat \<Rightarrow> expr_value \<Rightarrow> expr_value builder" where
  "mul_rows sg z av [] k acc = State_Monad.return acc"
| "mul_rows sg z av (bbit # bs) k acc =
     do {row \<leftarrow> partial_row z av k bbit; partial \<leftarrow> make_vector row sg;
         acc1 \<leftarrow> arith_add acc partial;
         mul_rows sg z av bs (k + 1) acc1}"

definition arith_mul :: "expr_value \<Rightarrow> expr_value \<Rightarrow> expr_value builder" where
  "arith_mul a b =
     (let signed_op = (xv_is_signed a \<and> xv_is_signed b);
          wa = value_width a; wb = value_width b; w0 = wa + wb in
      do {w \<leftarrow> (if w0 > max_concat_bits
                 then do {_ \<leftarrow> report ''multiplication result too wide (limit exceeded)'';
                          State_Monad.return max_concat_bits}
                 else State_Monad.return w0);
          ua \<leftarrow> any_unknown_root a; ub \<leftarrow> any_unknown_root b; unknown_sel \<leftarrow> make_or ua ub;
          if \<not> signed_op \<and> wa = 8 \<and> wb = 8 \<and> w = 16 then mul8 unknown_sel a b
          else if w \<le> 1
          then do {av \<leftarrow> resize_to_vector a 1 signed_op; bv \<leftarrow> resize_to_vector b 1 signed_op;
                   r \<leftarrow> make_and (hd av) (hd bv); x \<leftarrow> make_literal indeterminate_state;
                   r1 \<leftarrow> make_mux unknown_sel x r;
                   State_Monad.return (scalar_value r1 0 0 signed_op)}
          else do {av \<leftarrow> resize_to_vector a w signed_op; bv \<leftarrow> resize_to_vector b w signed_op;
                   acc0 \<leftarrow> (if signed_op then make_int_literal 0 w else make_uint_literal 0 w);
                   z \<leftarrow> make_literal false_state;
                   acc \<leftarrow> mul_rows signed_op z av (rev bv) 0 acc0;
                   if \<not> xv_is_vector acc then State_Monad.return acc
                   else mask_value unknown_sel signed_op acc}})"

definition div_mod :: "(int \<Rightarrow> int \<Rightarrow> int) \<Rightarrow> (u64 \<Rightarrow> u64 \<Rightarrow> u64) \<Rightarrow> expr_value \<Rightarrow> expr_value \<Rightarrow> expr_value builder" where
  "div_mod sop uop a b =
     (let signed_op = (xv_is_signed a \<and> xv_is_signed b); w = max (value_width a) (value_width b) in
      do {avv \<leftarrow> resize_value a w signed_op; bvv \<leftarrow> resize_value b w signed_op;
          m \<leftarrow> get_m;
          if signed_op
          then (case (try_eval_const_int64 m avv True, try_eval_const_int64 m bvv True) of
                  (Some av, Some bv) \<Rightarrow>
                    if bv = 0 then make_unknown_vector w True
                    else make_int_literal (word_of_int (sop (sint av) (sint bv))) w
                | _ \<Rightarrow> make_unknown_vector w True)
          else (case (try_eval_const_uint64 m avv, try_eval_const_uint64 m bvv) of
                  (Some av, Some bv) \<Rightarrow>
                    if bv = 0 then make_unknown_vector w False else make_uint_literal (uop av bv) w
                | _ \<Rightarrow> make_unknown_vector w False)})"

definition arith_div :: "expr_value \<Rightarrow> expr_value \<Rightarrow> expr_value builder" where
  "arith_div = div_mod (\<lambda>x y. x sdiv y) (div)"

definition arith_mod :: "expr_value \<Rightarrow> expr_value \<Rightarrow> expr_value builder" where
  "arith_mod = div_mod (\<lambda>x y. x smod y) (mod)"

definition mul_masked :: "nat \<Rightarrow> u64 \<Rightarrow> u64 \<Rightarrow> u64 \<Rightarrow> u64" where
  "mul_masked w msk x y =
     (if w = 64 then x * y
      else ucast ((ucast x * ucast y :: 128 word) AND ucast msk))"

function pow_loop :: "nat \<Rightarrow> u64 \<Rightarrow> u64 \<Rightarrow> u64 \<Rightarrow> u64 \<Rightarrow> u64" where
  "pow_loop w msk e base result =
     (if e = 0 then result
      else
        (let result1 = (if e AND 1 \<noteq> 0 then mul_masked w msk result base else result);
             e1 = drop_bit 1 e
         in if e1 = 0 then result1 else pow_loop w msk e1 (mul_masked w msk base base) result1))"
  by pat_completeness auto
termination
  by (relation "measure (\<lambda>(w, msk, e, base, result). unat e)")
    (auto simp: drop_bit_eq_div unat_div unat_gt_0)

definition arith_pow :: "expr_value \<Rightarrow> expr_value \<Rightarrow> expr_value builder" where
  "arith_pow a b =
     (let signed_op = (xv_is_signed a \<and> xv_is_signed b); w = max (value_width a) (value_width b) in
      if w > 64 then make_unknown_vector w signed_op
      else
        do {avv \<leftarrow> resize_value a w signed_op; bvv \<leftarrow> resize_value b w False;
            m \<leftarrow> get_m;
            case try_eval_const_int64 m bvv (xv_is_signed b) of
              None \<Rightarrow> make_unknown_vector w signed_op
            | Some e \<Rightarrow>
                if sint e < 0 then make_unknown_vector w signed_op
                else
                  (case try_eval_const_uint64 m avv of
                     None \<Rightarrow> make_unknown_vector w signed_op
                   | Some base0 \<Rightarrow>
                       (let msk = (if w = 64 then NOT 0 else push_bit w 1 - 1);
                            result = pow_loop w msk e (base0 AND msk) (1 AND msk)
                        in if signed_op then make_int_literal result w else make_uint_literal result w))})"

subsection \<open>Shifts\<close>

definition shift_left_by :: "nat \<Rightarrow> nat \<Rightarrow> nat list \<Rightarrow> nat list" where
  "shift_left_by z s cur = map (\<lambda>pos. if pos + s < length cur then cur ! (pos + s) else z) [0..<length cur]"

definition shift_right_by :: "nat \<Rightarrow> nat \<Rightarrow> nat list \<Rightarrow> nat list" where
  "shift_right_by z s cur = map (\<lambda>pos. if pos \<ge> s then cur ! (pos - s) else z) [0..<length cur]"

text \<open>\<^verbatim>\<open>while((1ull << nbits) < w && nbits < 64) { ++nbits; }\<close>, from \<open>n\<close>.\<close>

function nbits_from :: "nat \<Rightarrow> nat \<Rightarrow> nat" where
  "nbits_from w n = (if 2 ^ n < w \<and> n < 64 then nbits_from w (Suc n) else n)"
  by pat_completeness auto
termination
  by (relation "measure (\<lambda>(w, n). 64 - n)") auto

declare nbits_from.simps [simp del]

fun barrel :: "(nat \<Rightarrow> nat \<Rightarrow> nat list \<Rightarrow> nat list) \<Rightarrow> nat \<Rightarrow> nat list \<Rightarrow> nat \<Rightarrow> nat list \<Rightarrow> nat list builder" where
  "barrel sh z [] k cur = State_Monad.return cur"
| "barrel sh z (sel # sels) k cur =
     do {cur1 \<leftarrow> State_Monad.traverse_list (\<lambda>(t, f). make_mux sel t f) (zip (sh z (2 ^ k) cur) cur);
         barrel sh z sels (k + 1) cur1}"

definition shift_value :: "(nat \<Rightarrow> nat \<Rightarrow> nat list \<Rightarrow> nat list) \<Rightarrow> expr_value \<Rightarrow> expr_value \<Rightarrow> expr_value builder" where
  "shift_value dir v sh =
     (let w = value_width v in
      if w \<le> 1 then resize_value v 1 False
      else
        do {unknown_sel \<leftarrow> any_unknown_root sh;
            m \<leftarrow> get_m;
            case try_eval_const_int m sh of
              Some s \<Rightarrow>
                do {cur \<leftarrow> resize_to_vector v w False; z \<leftarrow> make_literal false_state;
                    out \<leftarrow> mask_unknown unknown_sel (dir z (nat s) cur);
                    make_vector out (xv_is_signed v)}
            | None \<Rightarrow>
                (let nbits = nbits_from w 0 in
                 if nbits = 0 then resize_value v w False
                 else
                   do {cur \<leftarrow> resize_to_vector v w False; shv \<leftarrow> resize_to_vector sh nbits False;
                       z \<leftarrow> make_literal false_state;
                       cur1 \<leftarrow> barrel dir z (rev shv) 0 cur;
                       out \<leftarrow> mask_unknown unknown_sel cur1;
                       make_vector out (xv_is_signed v)})})"

definition shift_left :: "expr_value \<Rightarrow> expr_value \<Rightarrow> expr_value builder" where
  "shift_left = shift_value shift_left_by"

definition shift_right :: "expr_value \<Rightarrow> expr_value \<Rightarrow> expr_value builder" where
  "shift_right = shift_value shift_right_by"

subsection \<open>Order comparisons and the conditional operator\<close>

fun lt_chain :: "(nat \<times> nat) list \<Rightarrow> nat \<Rightarrow> nat \<Rightarrow> nat builder" where
  "lt_chain [] eq_prefix lt = State_Monad.return lt"
| "lt_chain ((ai, bi) # ps) eq_prefix lt =
     do {eq_bit \<leftarrow> add_node (binary_node binary_eq ai bi);
         na \<leftarrow> make_not ai; lt_bit \<leftarrow> make_and na bi;
         t \<leftarrow> make_and eq_prefix lt_bit; lt1 \<leftarrow> make_or lt t;
         eq1 \<leftarrow> make_and eq_prefix eq_bit;
         lt_chain ps eq1 lt1}"

definition compare_lt :: "expr_value \<Rightarrow> expr_value \<Rightarrow> nat builder" where
  "compare_lt a b =
     (let w = max (value_width a) (value_width b); signed_op = (xv_is_signed a \<and> xv_is_signed b) in
      do {av \<leftarrow> resize_to_vector a w signed_op; bv \<leftarrow> resize_to_vector b w signed_op;
          if signed_op
          then if w \<le> 1
               then do {nb \<leftarrow> make_not (hd bv); make_and (hd av) nb}
               else do {diff \<leftarrow> make_xor (hd av) (hd bv);
                        nb \<leftarrow> make_not (hd bv); lt_sign \<leftarrow> make_and (hd av) nb;
                        eq_prefix \<leftarrow> make_literal true_state; lt0 \<leftarrow> make_literal false_state;
                        lt_mag \<leftarrow> lt_chain (zip (tl av) (tl bv)) eq_prefix lt0;
                        make_mux diff lt_sign lt_mag}
          else do {eq_prefix \<leftarrow> make_literal true_state; lt0 \<leftarrow> make_literal false_state;
                   lt_chain (zip av bv) eq_prefix lt0}})"

definition compare_le :: "expr_value \<Rightarrow> expr_value \<Rightarrow> nat builder" where
  "compare_le a b = do {lt \<leftarrow> compare_lt a b; eq \<leftarrow> compare_eq a b; make_or lt eq}"

definition compare_gt :: "expr_value \<Rightarrow> expr_value \<Rightarrow> nat builder" where
  "compare_gt a b = compare_lt b a"

definition compare_ge :: "expr_value \<Rightarrow> expr_value \<Rightarrow> nat builder" where
  "compare_ge a b = do {gt \<leftarrow> compare_lt b a; eq \<leftarrow> compare_eq a b; make_or gt eq}"

definition make_conditional :: "expr_value \<Rightarrow> expr_value \<Rightarrow> expr_value \<Rightarrow> expr_value builder" where
  "make_conditional cond t f =
     do {sel \<leftarrow> to_bool_root cond;
         let w = max (value_width t) (value_width f);
         let signed_op = (xv_is_signed t \<and> xv_is_signed f);
         if w \<le> 1
         then do {tv \<leftarrow> resize_to_vector t 1 signed_op; fv \<leftarrow> resize_to_vector f 1 signed_op;
                  r \<leftarrow> make_mux sel (hd tv) (hd fv);
                  State_Monad.return (scalar_value r 0 0 signed_op)}
         else do {tv \<leftarrow> resize_to_vector t w signed_op; fv \<leftarrow> resize_to_vector f w signed_op;
                  out \<leftarrow> State_Monad.traverse_list (\<lambda>(x, y). make_mux sel x y) (zip tv fv);
                  make_vector out signed_op}}"

subsection \<open>Bit and part selects\<close>

text \<open>The bounds are of type \<^verbatim>\<open>int\<close> in the code; a difference that overflows there is undefined, and an integer here.\<close>

definition vector_width :: "int \<Rightarrow> int \<Rightarrow> nat" where
  "vector_width msb lsb = nat (if msb - lsb \<ge> 0 then msb - lsb + 1 else - (msb - lsb) + 1)"

definition vector_contains :: "int \<Rightarrow> int \<Rightarrow> int \<Rightarrow> bool" where
  "vector_contains msb lsb idx =
     (if msb \<ge> lsb then idx \<le> msb \<and> idx \<ge> lsb else idx \<ge> msb \<and> idx \<le> lsb)"

text \<open>\<^verbatim>\<open>SIZE_MAX\<close> is \<open>None\<close>.\<close>

definition vector_pos :: "int \<Rightarrow> int \<Rightarrow> int \<Rightarrow> nat option" where
  "vector_pos msb lsb idx =
     (if \<not> vector_contains msb lsb idx then None
      else if msb \<ge> lsb then Some (nat (msb - idx)) else Some (nat (idx - msb)))"

definition vector_index_at :: "int \<Rightarrow> int \<Rightarrow> nat \<Rightarrow> int" where
  "vector_index_at msb lsb pos = (if msb \<ge> lsb then msb - int pos else msb + int pos)"

text \<open>\<^verbatim>\<open>while((1ull << need_bits) <= base_max && need_bits < 64) { ++need_bits; }\<close>, from \<open>n\<close>.\<close>

function need_bits_from :: "nat \<Rightarrow> nat \<Rightarrow> nat" where
  "need_bits_from base_max n = (if 2 ^ n \<le> base_max \<and> n < 64 then need_bits_from base_max (Suc n) else n)"
  by pat_completeness auto
termination
  by (relation "measure (\<lambda>(b, n). 64 - n)") auto

declare need_bits_from.simps [simp del]

definition to_size_t :: "int \<Rightarrow> nat" where
  "to_size_t x = unat (word_of_int x :: u64)"

fun select_bits :: "expr_value \<Rightarrow> nat \<Rightarrow> (int \<times> nat) list \<Rightarrow> nat \<Rightarrow> nat builder" where
  "select_bits idx_norm cmp_w [] out = State_Monad.return out"
| "select_bits idx_norm cmp_w ((idx_val, bit_root) # bs) out =
     do {idx_lit \<leftarrow> make_uint_literal (word_of_int idx_val) cmp_w;
         cond \<leftarrow> compare_eq idx_norm idx_lit;
         out1 \<leftarrow> make_mux cond bit_root out;
         select_bits idx_norm cmp_w bs out1}"

definition apply_bit_select :: "expr_value \<Rightarrow> expr_value \<Rightarrow> expr_value builder" where
  "apply_bit_select base idx_expr =
     (let msb = xv_msb base; lsb = xv_lsb base; base_bits = value_bits base; sg = xv_is_signed base in
      do {m \<leftarrow> get_m;
          case try_eval_const_int m idx_expr of
            Some idx_const \<Rightarrow>
              (case vector_pos msb lsb idx_const of
                 None \<Rightarrow> do {x \<leftarrow> make_literal indeterminate_state; State_Monad.return (scalar_value x 0 0 sg)}
               | Some pos \<Rightarrow> State_Monad.return (scalar_value (base_bits ! pos) idx_const idx_const sg))
          | None \<Rightarrow>
              (let cmp_w = max (value_width idx_expr) (need_bits_from (to_size_t (max msb lsb)) 1) in
               do {idx_norm \<leftarrow> resize_value idx_expr cmp_w False;
                   x \<leftarrow> make_literal indeterminate_state;
                   out \<leftarrow> select_bits idx_norm cmp_w
                            (map (\<lambda>pos. (vector_index_at msb lsb pos, base_bits ! pos)) [0..<length base_bits]) x;
                   State_Monad.return (scalar_value out 0 0 sg)})})"

definition index_range :: "int \<Rightarrow> int \<Rightarrow> int list" where
  "index_range sel_msb sel_lsb =
     (if sel_msb \<ge> sel_lsb then rev [sel_lsb..sel_msb] else [sel_msb..sel_lsb])"

definition apply_part_select :: "expr_value \<Rightarrow> expr_value \<Rightarrow> expr_value \<Rightarrow> expr_value builder" where
  "apply_part_select base msb_expr lsb_expr =
     do {m \<leftarrow> get_m;
         case (try_eval_const_int m msb_expr, try_eval_const_int m lsb_expr) of
           (Some sel_msb, Some sel_lsb) \<Rightarrow>
             do {bits \<leftarrow> State_Monad.traverse_list
                   (\<lambda>idx. case vector_pos (xv_msb base) (xv_lsb base) idx of
                            None \<Rightarrow> make_literal indeterminate_state
                          | Some pos \<Rightarrow> State_Monad.return (value_bits base ! pos))
                   (index_range sel_msb sel_lsb);
                 make_vector_with_range bits sel_msb sel_lsb (xv_is_signed base)}
         | _ \<Rightarrow>
             do {_ \<leftarrow> report ''part-select indices must be constant integer expressions in this subset'';
                 x \<leftarrow> make_literal indeterminate_state;
                 State_Monad.return (scalar_value x 0 0 (xv_is_signed base))}}"

definition compute_bounds :: "int \<Rightarrow> int \<Rightarrow> bool \<Rightarrow> int \<Rightarrow> int \<Rightarrow> int \<times> int" where
  "compute_bounds msb lsb is_plus w start =
     (let desc = (msb \<ge> lsb) in
      if is_plus then (if desc then (start + (w - 1), start) else (start, start + (w - 1)))
      else if desc then (start, start - (w - 1)) else (start - (w - 1), start))"

definition slice_bits_for_start :: "expr_value \<Rightarrow> bool \<Rightarrow> int \<Rightarrow> int \<Rightarrow> nat list builder" where
  "slice_bits_for_start base is_plus w start =
     (let (sel_msb, sel_lsb) = compute_bounds (xv_msb base) (xv_lsb base) is_plus w start in
      do {x \<leftarrow> make_literal indeterminate_state;
          State_Monad.return
            (map (\<lambda>idx. case vector_pos (xv_msb base) (xv_lsb base) idx of
                          None \<Rightarrow> x | Some pos \<Rightarrow> value_bits base ! pos)
               (index_range sel_msb sel_lsb))})"

fun select_slices :: "expr_value \<Rightarrow> bool \<Rightarrow> int \<Rightarrow> expr_value \<Rightarrow> nat \<Rightarrow> int list \<Rightarrow> nat list \<Rightarrow> nat list builder" where
  "select_slices base is_plus w idx_norm cmp_w [] out = State_Monad.return out"
| "select_slices base is_plus w idx_norm cmp_w (s # ss) out =
     (if s < 0 then select_slices base is_plus w idx_norm cmp_w ss out
      else
        do {bits \<leftarrow> slice_bits_for_start base is_plus w s;
            if length bits \<noteq> length out then select_slices base is_plus w idx_norm cmp_w ss out
            else
              do {idx_lit \<leftarrow> make_uint_literal (word_of_int s) cmp_w;
                  cond \<leftarrow> compare_eq idx_norm idx_lit;
                  out1 \<leftarrow> State_Monad.traverse_list (\<lambda>(t, f). make_mux cond t f) (zip bits out);
                  select_slices base is_plus w idx_norm cmp_w ss out1}})"

definition indexed_width_error :: "expr_value \<Rightarrow> expr_value builder" where
  "indexed_width_error base =
     do {_ \<leftarrow> report ''indexed part-select width must be a positive constant integer expression in this subset'';
         x \<leftarrow> make_literal indeterminate_state;
         State_Monad.return (scalar_value x 0 0 (xv_is_signed base))}"

definition indexed_dynamic :: "expr_value \<Rightarrow> expr_value \<Rightarrow> int \<Rightarrow> bool \<Rightarrow> expr_value builder" where
  "indexed_dynamic base start_expr w is_plus =
     (let min_idx = min (xv_msb base) (xv_lsb base); max_idx = max (xv_msb base) (xv_lsb base) in
      if max_idx < 0 then make_unknown_vector (nat w) False
      else
        (let cmp_w = max (value_width start_expr) (need_bits_from (nat max_idx) 1) in
         do {idx_norm \<leftarrow> resize_value start_expr cmp_w False;
             x \<leftarrow> make_literal indeterminate_state;
             out \<leftarrow> select_slices base is_plus w idx_norm cmp_w [min_idx..max_idx] (replicate (nat w) x);
             make_vector out (xv_is_signed base)}))"

definition apply_indexed_part_select :: "expr_value \<Rightarrow> expr_value \<Rightarrow> expr_value \<Rightarrow> bool \<Rightarrow> expr_value builder" where
  "apply_indexed_part_select base start_expr width_expr is_plus =
     do {m \<leftarrow> get_m;
         case try_eval_const_int m width_expr of
           None \<Rightarrow> indexed_width_error base
         | Some w \<Rightarrow>
             if w \<le> 0 then indexed_width_error base
             else
               (case try_eval_const_int m start_expr of
                  Some start \<Rightarrow>
                    (let (sel_msb, sel_lsb) = compute_bounds (xv_msb base) (xv_lsb base) is_plus w start in
                     do {bits \<leftarrow> slice_bits_for_start base is_plus w start;
                         make_vector_with_range bits sel_msb sel_lsb (xv_is_signed base)})
                | None \<Rightarrow> indexed_dynamic base start_expr w is_plus)}"

end
