(* ===== verification/Builder_Props.thy ===== *)
theory Builder_Props
  imports Builder Bits
begin

text \<open>
  What the expression builder builds. A root denotes a value under an assignment of the signals
  (\<open>den\<close>); adding nodes never changes what an existing root denotes, folding and sharing keep
  denotations, and a computation that reports no diagnostic yields roots that denote the
  expected function of its operands (\<open>builds\<close>).
\<close>

subsection \<open>Well-formed builder states and their extensions\<close>

abbreviation nodes :: "xp \<Rightarrow> expr_node list" where
  "nodes s \<equiv> m_expr_nodes (xp_m s)"

definition bwf :: "xp \<Rightarrow> bool" where
  "bwf s \<longleftrightarrow>
     complete_arena (nodes s) \<and> length (nodes s) \<le> max_expr_nodes \<and>
     (\<forall>n i. m_expr_intern (xp_m s) n = Some i \<longrightarrow> i < length (nodes s) \<and> nodes s ! i = n)"

definition ext :: "xp \<Rightarrow> xp \<Rightarrow> bool" where
  "ext s s' \<longleftrightarrow>
     (\<exists>ns I. xp_m s' = (xp_m s)\<lparr>m_expr_nodes := nodes s @ ns, m_expr_intern := I\<rparr>)"

lemma ext_refl [simp]: "ext s s"
  unfolding ext_def by (intro exI [of _ "[]"] exI [of _ "m_expr_intern (xp_m s)"]) simp

lemma ext_trans:
  assumes "ext s s1" and "ext s1 s2"
  shows "ext s s2"
proof -
  obtain ns I ns' I' where "xp_m s1 = (xp_m s)\<lparr>m_expr_nodes := nodes s @ ns, m_expr_intern := I\<rparr>"
      "xp_m s2 = (xp_m s1)\<lparr>m_expr_nodes := nodes s1 @ ns', m_expr_intern := I'\<rparr>"
    using assms unfolding ext_def by blast
  then show ?thesis
    unfolding ext_def by (intro exI [of _ "ns @ ns'"] exI [of _ I']) simp
qed

text \<open>Assignments that agree with the signals folded at compile time.\<close>

definition env_ok :: "compiled_module \<Rightarrow> logic_t list \<Rightarrow> bool" where
  "env_ok m vs \<longleftrightarrow> (\<forall>sig. is_foldable m sig \<longrightarrow> sig < length vs \<and> vs ! sig = m_signal_const_value m ! sig)"

definition den :: "logic_t list \<Rightarrow> xp \<Rightarrow> nat \<Rightarrow> logic_t \<Rightarrow> bool" where
  "den vs s r v \<longleftrightarrow> r < length (nodes s) \<and> (env_ok (xp_m s) vs \<longrightarrow> deval (nodes s) vs r = v)"

abbreviation dens :: "logic_t list \<Rightarrow> xp \<Rightarrow> nat list \<Rightarrow> logic_t list \<Rightarrow> bool" where
  "dens vs s \<equiv> list_all2 (den vs s)"

lemma ext_fold: "ext s s' \<Longrightarrow> is_foldable (xp_m s') sig = is_foldable (xp_m s) sig"
  by (auto simp: ext_def is_foldable_def)

lemma ext_env: "ext s s' \<Longrightarrow> env_ok (xp_m s') vs = env_ok (xp_m s) vs"
  by (auto simp: env_ok_def ext_fold) (auto simp: ext_def)

lemma den_ext: "den vs s r v \<Longrightarrow> ext s s' \<Longrightarrow> den vs s' r v"
  by (auto simp: den_def ext_env) (auto simp: ext_def deval_append)

lemma dens_ext: "dens vs s rs xs \<Longrightarrow> ext s s' \<Longrightarrow> dens vs s' rs xs"
  by (erule list_all2_mono) (rule den_ext)

subsection \<open>Computations\<close>

definition err_grows :: "'a builder \<Rightarrow> bool" where
  "err_grows f \<longleftrightarrow> (\<forall>s. \<exists>es. xp_errs (snd (run_state f s)) = xp_errs s @ es)"

definition builds :: "xp \<Rightarrow> 'a builder \<Rightarrow> ('a \<Rightarrow> xp \<Rightarrow> bool) \<Rightarrow> bool" where
  "builds s f Q \<longleftrightarrow>
     (\<forall>r s'. bwf s \<longrightarrow> run_state f s = (r, s') \<longrightarrow> xp_errs s' = xp_errs s \<longrightarrow> ext s s' \<and> bwf s' \<and> Q r s')"

named_theorems err_intros \<open>computations only append diagnostics\<close>

lemma err_grows_return [err_intros]: "err_grows (State_Monad.return x)"
  by (simp add: err_grows_def)

lemma err_grows_bind [err_intros]:
  assumes "err_grows f" and "\<And>r. err_grows (g r)"
  shows "err_grows (State_Monad.bind f g)"
  unfolding err_grows_def
proof
  fix s
  obtain r s1 where 1: "run_state f s = (r, s1)" by fastforce
  obtain es where "xp_errs s1 = xp_errs s @ es" using assms(1) 1 unfolding err_grows_def by (metis snd_conv)
  moreover obtain es' where "xp_errs (snd (run_state (g r) s1)) = xp_errs s1 @ es'"
    using assms(2) unfolding err_grows_def by blast
  ultimately show "\<exists>es. xp_errs (snd (run_state (State_Monad.bind f g) s)) = xp_errs s @ es"
    by (simp add: 1)
qed

lemma err_grows_get_m [err_intros]: "err_grows get_m"
  by (simp add: err_grows_def get_m_def)

lemma err_grows_report [err_intros]: "err_grows (report msg)"
  by (simp add: err_grows_def report_def)

lemma err_grows_intern [err_intros]: "err_grows (intern_node n)"
  by (auto simp: err_grows_def intern_node_def Let_def split: option.split)

lemma err_grows_if [err_intros]: "err_grows f \<Longrightarrow> err_grows g \<Longrightarrow> err_grows (if b then f else g)"
  by simp

lemma err_grows_option [err_intros]:
  "err_grows f \<Longrightarrow> (\<And>x. err_grows (g x)) \<Longrightarrow> err_grows (case v of None \<Rightarrow> f | Some x \<Rightarrow> g x)"
  by (cases v) auto

lemma err_grows_traverse [err_intros]:
  "(\<And>x. err_grows (f x)) \<Longrightarrow> err_grows (State_Monad.traverse_list f xs)"
  by (induction xs) (auto intro!: err_intros)

lemma err_grows_add_node [err_intros]: "err_grows (add_node n)"
  unfolding add_node_def Let_def by (intro err_intros)

lemma err_grows_make [err_intros]:
  "err_grows (make_literal v)" "err_grows (make_not a)" "err_grows (make_and a b)"
  "err_grows (make_or a b)" "err_grows (make_xor a b)" "err_grows (make_is_unknown a)"
  by (auto simp: make_literal_def make_not_def make_and_def make_or_def make_xor_def
      make_is_unknown_def intro: err_intros)

lemma err_grows_mux [err_intros]: "err_grows (make_mux sel t f)"
  unfolding make_mux_def by (intro err_intros)

lemma builds_return: "Q x s \<Longrightarrow> builds s (State_Monad.return x) Q"
  by (simp add: builds_def)

lemma builds_bind:
  assumes f: "builds s f P" and g: "\<And>r s'. ext s s' \<Longrightarrow> P r s' \<Longrightarrow> builds s' (g r) Q"
    and e: "err_grows f" "\<And>r. err_grows (g r)"
  shows "builds s (State_Monad.bind f g) Q"
  unfolding builds_def
proof (intro allI impI)
  fix r s2
  assume s: "bwf s" and run: "run_state (State_Monad.bind f g) s = (r, s2)" and err: "xp_errs s2 = xp_errs s"
  obtain r1 s1 where 1: "run_state f s = (r1, s1)" by fastforce
  with run have 2: "run_state (g r1) s1 = (r, s2)" by simp
  obtain es where es: "xp_errs s1 = xp_errs s @ es" using e(1) 1 unfolding err_grows_def by (metis snd_conv)
  obtain es' where "xp_errs s2 = xp_errs s1 @ es'"
    using e(2) [of r1] 2 unfolding err_grows_def by (metis snd_conv)
  with es err have "xp_errs s1 = xp_errs s" by simp
  then have "ext s s1 \<and> bwf s1 \<and> P r1 s1" using f s 1 unfolding builds_def by blast
  then show "ext s s2 \<and> bwf s2 \<and> Q r s2"
    using g [of s1 r1] 2 err es \<open>xp_errs s1 = xp_errs s\<close> ext_trans unfolding builds_def by metis
qed

lemma builds_weaken: "builds s f P \<Longrightarrow> (\<And>r s'. ext s s' \<Longrightarrow> P r s' \<Longrightarrow> Q r s') \<Longrightarrow> builds s f Q"
  by (auto simp: builds_def)

subsection \<open>Nodes\<close>

definition complete_node :: "nat \<Rightarrow> expr_node \<Rightarrow> bool" where
  "complete_node i n \<longleftrightarrow>
     (kind_arity (en_kind n) \<ge> 1 \<longrightarrow> en_a n < i) \<and> (kind_arity (en_kind n) \<ge> 2 \<longrightarrow> en_b n < i)"

lemma complete_arena_snoc:
  "complete_arena ns \<Longrightarrow> complete_node (length ns) n \<Longrightarrow> complete_arena (ns @ [n])"
  by (auto simp: complete_arena_def complete_node_def nth_append less_Suc_eq)

lemma builds_intern:
  assumes "complete_node (length (nodes s)) n"
  shows "builds s (intern_node n) (\<lambda>r s'. r < length (nodes s') \<and> nodes s' ! r = n \<and> complete_arena (nodes s'))"
  unfolding builds_def
proof (intro allI impI)
  fix r s'
  assume s: "bwf s" and run: "run_state (intern_node n) s = (r, s')" and err: "xp_errs s' = xp_errs s"
  show "ext s s' \<and> bwf s' \<and> r < length (nodes s') \<and> nodes s' ! r = n \<and> complete_arena (nodes s')"
  proof (cases "m_expr_intern (xp_m s) n")
    case (Some i)
    then show ?thesis using s run by (auto simp: intern_node_def bwf_def Let_def)
  next
    case None
    then have lt: "length (nodes s) < max_expr_nodes"
      using run err by (auto simp: intern_node_def Let_def split: if_splits)
    then have r: "r = length (nodes s)" and m: "xp_m s' = (xp_m s)\<lparr>m_expr_nodes := nodes s @ [n],
        m_expr_intern := (m_expr_intern (xp_m s))(n \<mapsto> length (nodes s))\<rparr>"
      using run None by (auto simp: intern_node_def Let_def)
    have "complete_arena (nodes s')"
      using s assms complete_arena_snoc by (simp add: bwf_def m)
    moreover have "\<forall>n' i. m_expr_intern (xp_m s') n' = Some i \<longrightarrow> i < length (nodes s') \<and> nodes s' ! i = n'"
      using s by (fastforce simp: bwf_def m nth_append less_Suc_eq split: if_splits)
    moreover have "ext s s'" unfolding ext_def using m by blast
    ultimately show ?thesis using lt r by (auto simp: bwf_def m)
  qed
qed

lemma deval_complete_op:
  assumes "complete_arena ns" and "r < length ns" and "kind_arity (en_kind (ns ! r)) \<noteq> 0"
  shows "deval ns vs r = kind_fun (en_kind (ns ! r)) (deval ns vs (en_a (ns ! r)))
    (if kind_arity (en_kind (ns ! r)) = 2 then deval ns vs (en_b (ns ! r)) else indeterminate_state)"
proof -
  have "en_a (ns ! r) < r" "kind_arity (en_kind (ns ! r)) = 2 \<longrightarrow> en_b (ns ! r) < r"
    using assms by (auto simp: complete_arena_def)
  then show ?thesis
    using assms(2,3) by (cases "en_kind (ns ! r)") (auto simp: deval_op kind_arity_def kind_fun_def)
qed

lemma try_get_literal_den: "den vs s a x \<Longrightarrow> env_ok (xp_m s) vs \<Longrightarrow> try_get_literal (nodes s) a = Some v \<Longrightarrow> v = x"
  by (auto simp: den_def try_get_literal_def deval_leaf kind_arity_def leaf_value_def split: if_splits)

lemma fold_node_den:
  assumes "fold_node (nodes s) n = Some v" and "env_ok (xp_m s) vs" and "den vs s (en_a n) x"
    and "kind_arity (en_kind n) = 2 \<Longrightarrow> den vs s (en_b n) y"
  shows "v = kind_fun (en_kind n) x y"
  using assms(1) try_get_literal_den [OF assms(3,2)] try_get_literal_den [OF assms(4) assms(2)]
  by (auto simp: fold_node_def kind_fun_def kind_arity_def logic_defs Let_def
      split: expr_kind.splits Option.bind_splits)

lemma builds_literal_node: "builds s (intern_node (literal_node v)) (\<lambda>r s'. den vs s' r v)"
proof (rule builds_weaken [OF builds_intern])
  show "complete_node (length (nodes s)) (literal_node v)"
    by (simp add: complete_node_def literal_node_def kind_arity_def)
qed (auto simp: den_def deval_leaf literal_node_def kind_arity_def leaf_value_def)

lemma builds_get_m:
  "builds s get_m (\<lambda>m s'. s' = s \<and> m = xp_m s)"
  by (simp add: builds_def get_m_def)

text \<open>An operator node denotes the operator, folded, shared or new.\<close>

lemma builds_op_node:
  assumes kind: "kind_arity (en_kind n) \<noteq> 0" and a: "den vs s (en_a n) x"
    and b: "kind_arity (en_kind n) = 2 \<Longrightarrow> den vs s (en_b n) y"
    and y: "kind_arity (en_kind n) \<noteq> 2 \<Longrightarrow> y = indeterminate_state"
  shows "builds s (add_node n) (\<lambda>r s'. den vs s' r (kind_fun (en_kind n) x y))"
  unfolding add_node_def Let_def
proof (rule builds_bind [OF builds_get_m])
  fix m s' assume "ext s s'" and "s' = s \<and> m = xp_m s"
  then have s': "s' = s" "m = xp_m s" by auto
  have n: "propagate_const m n = n" using kind by (auto simp: propagate_const_def kind_arity_def)
  show "builds s' (case fold_node (m_expr_nodes m) (propagate_const m n) of None \<Rightarrow> intern_node (propagate_const m n)
      | Some v \<Rightarrow> intern_node (literal_node v)) (\<lambda>r s'. den vs s' r (kind_fun (en_kind n) x y))"
    unfolding n unfolding s'
  proof (cases "fold_node (nodes s) n")
    case (Some v)
    have "builds s (intern_node (literal_node v)) (\<lambda>r s'. den vs s' r (kind_fun (en_kind n) x y))"
      by (rule builds_weaken [OF builds_literal_node [where vs = vs]])
        (use fold_node_den [OF Some _ a b] in \<open>auto simp: den_def ext_env\<close>)
    then show "builds s (case fold_node (nodes s) n of None \<Rightarrow> intern_node n
      | Some v \<Rightarrow> intern_node (literal_node v)) (\<lambda>r s'. den vs s' r (kind_fun (en_kind n) x y))"
      using Some by simp
  next
    case None
    have c: "complete_node (length (nodes s)) n"
      using a b kind by (cases "en_kind n") (auto simp: complete_node_def kind_arity_def den_def)
    have "builds s (intern_node n) (\<lambda>r s'. den vs s' r (kind_fun (en_kind n) x y))"
    proof (rule builds_weaken [OF builds_intern [OF c]])
      fix r s' assume e: "ext s s'" and r: "r < length (nodes s') \<and> nodes s' ! r = n \<and> complete_arena (nodes s')"
      have "den vs s' (en_a n) x" using a e by (rule den_ext)
      moreover have "kind_arity (en_kind n) = 2 \<Longrightarrow> den vs s' (en_b n) y" using b e den_ext by blast
      ultimately show "den vs s' r (kind_fun (en_kind n) x y)"
        using r kind y deval_complete_op [of "nodes s'" r vs]
        by (cases "kind_arity (en_kind n) = 2") (auto simp: den_def)
    qed
    then show "builds s (case fold_node (nodes s) n of None \<Rightarrow> intern_node n
      | Some v \<Rightarrow> intern_node (literal_node v)) (\<lambda>r s'. den vs s' r (kind_fun (en_kind n) x y))"
      using None by simp
  qed
qed (intro err_intros)+

lemma builds_literal: "builds s (make_literal v) (\<lambda>r s'. den vs s' r v)"
proof -
  have "run_state (make_literal v) s = run_state (intern_node (literal_node v)) s"
    by (simp add: make_literal_def add_node_def get_m_def propagate_const_def fold_node_def
        literal_node_def Let_def)
  then show ?thesis using builds_literal_node [of s v vs] by (simp add: builds_def)
qed

lemma builds_unary:
  "kind_arity k = 1 \<Longrightarrow> den vs s a x \<Longrightarrow>
     builds s (add_node (unary_node k a)) (\<lambda>r s'. den vs s' r (kind_fun k x indeterminate_state))"
  using builds_op_node [of "unary_node k a" vs s x indeterminate_state] by (simp add: unary_node_def)

lemma builds_binary:
  "kind_arity k = 2 \<Longrightarrow> den vs s a x \<Longrightarrow> den vs s b y \<Longrightarrow>
     builds s (add_node (binary_node k a b)) (\<lambda>r s'. den vs s' r (kind_fun k x y))"
  using builds_op_node [of "binary_node k a b" vs s x y] by (simp add: binary_node_def)

lemma builds_not: "den vs s a x \<Longrightarrow> builds s (make_not a) (\<lambda>r s'. den vs s' r (logic_not x))"
  using builds_unary [of unary_not vs s a x] by (simp add: make_not_def kind_arity_def kind_fun_def)

lemma builds_is_unknown:
  "den vs s a x \<Longrightarrow> builds s (make_is_unknown a) (\<lambda>r s'. den vs s' r (logic_is_unknown x))"
  using builds_unary [of is_unknown_kind vs s a x] by (simp add: make_is_unknown_def kind_arity_def kind_fun_def)

lemma builds_and:
  "den vs s a x \<Longrightarrow> den vs s b y \<Longrightarrow> builds s (make_and a b) (\<lambda>r s'. den vs s' r (logic_and x y))"
  using builds_binary [of binary_and vs s a x b y] by (simp add: make_and_def kind_arity_def kind_fun_def)

lemma builds_or:
  "den vs s a x \<Longrightarrow> den vs s b y \<Longrightarrow> builds s (make_or a b) (\<lambda>r s'. den vs s' r (logic_or x y))"
  using builds_binary [of binary_or vs s a x b y] by (simp add: make_or_def kind_arity_def kind_fun_def)

lemma builds_xor:
  "den vs s a x \<Longrightarrow> den vs s b y \<Longrightarrow> builds s (make_xor a b) (\<lambda>r s'. den vs s' r (logic_xor x y))"
  using builds_binary [of binary_xor vs s a x b y] by (simp add: make_xor_def kind_arity_def kind_fun_def)

definition v_mux :: "logic_t \<Rightarrow> logic_t \<Rightarrow> logic_t \<Rightarrow> logic_t" where
  "v_mux sel t f = logic_or (logic_and sel t) (logic_and (logic_not sel) f)"

lemma builds_mux:
  assumes "den vs s sel x" and "den vs s t y" and "den vs s f z"
  shows "builds s (make_mux sel t f) (\<lambda>r s'. den vs s' r (v_mux x y z))"
  unfolding make_mux_def v_mux_def
  by (rule builds_bind builds_not [where vs = vs] builds_and [where vs = vs] builds_or [where vs = vs] err_intros
      | assumption | rule assms den_ext | erule ext_trans)+

subsection \<open>Lists of nodes\<close>

lemma list_all2_zip:
  assumes "list_all2 P xs as" and "list_all2 Q ys bs"
    and "\<And>x y a b. P x a \<Longrightarrow> Q y b \<Longrightarrow> R (x, y) (h a b)"
  shows "list_all2 R (zip xs ys) (map2 h as bs)"
  using assms(1,2)
proof (induction xs as arbitrary: ys bs rule: list_all2_induct)
  case (Cons x xs a as)
  from Cons.prems show ?case
    by (cases ys; cases bs) (auto intro: assms(3) [OF Cons.hyps(1)] Cons.IH)
qed simp

lemma builds_traverse:
  assumes "list_all2 (\<lambda>x v. \<forall>s'. ext s s' \<longrightarrow> builds s' (f x) (\<lambda>r s''. den vs s'' r v)) xs vals"
    and err: "\<And>x. err_grows (f x)"
  shows "builds s (State_Monad.traverse_list f xs) (\<lambda>rs s'. dens vs s' rs vals)"
  using assms(1)
proof (induction xs arbitrary: s vals)
  case Nil
  then show ?case by (auto intro: builds_return)
next
  case (Cons x xs)
  then obtain v vals' where vals: "vals = v # vals'"
    and hd: "\<forall>s'. ext s s' \<longrightarrow> builds s' (f x) (\<lambda>r s''. den vs s'' r v)"
    and tl: "list_all2 (\<lambda>x v. \<forall>s'. ext s s' \<longrightarrow> builds s' (f x) (\<lambda>r s''. den vs s'' r v)) xs vals'"
    by (auto simp: list_all2_Cons1)
  have "builds s1 (State_Monad.bind (State_Monad.traverse_list f xs) (\<lambda>ys. State_Monad.return (r # ys)))
      (\<lambda>rs s'. dens vs s' rs vals)" if e: "ext s s1" and r: "den vs s1 r v" for r s1
  proof (rule builds_bind)
    show "builds s1 (State_Monad.traverse_list f xs) (\<lambda>rs s'. dens vs s' rs vals')"
      using tl e by (intro Cons.IH) (auto elim!: list_all2_mono intro: ext_trans)
    show "builds s2 (State_Monad.return (r # ys)) (\<lambda>rs s'. dens vs s' rs vals)"
      if "ext s1 s2" "dens vs s2 ys vals'" for ys s2
      using den_ext [OF r that(1)] that(2) by (intro builds_return) (simp add: vals)
  qed (intro err_intros err)+
  then show ?case
    using hd by (auto intro!: builds_bind [where P = "\<lambda>r s'. den vs s' r v"] err_intros err)
qed

lemma builds_fold_roots:
  assumes step: "\<And>s' acc a x. ext s s' \<Longrightarrow> den vs s' acc a \<Longrightarrow> \<forall>y v. (y, v) = x \<longrightarrow> den vs s' y v \<Longrightarrow>
      builds s' (f acc (fst x)) (\<lambda>r s''. den vs s'' r (h a (snd x)))"
    and err: "\<And>acc x. err_grows (f acc x)"
    and "den vs s r a" and "dens vs s xs vals"
  shows "builds s (fold_roots f r xs) (\<lambda>r s'. den vs s' r (foldl h a vals))"
proof -
  have "ext s s1 \<Longrightarrow> den vs s1 r a \<Longrightarrow> dens vs s1 xs vals \<Longrightarrow>
      builds s1 (fold_roots f r xs) (\<lambda>r s'. den vs s' r (foldl h a vals))" for s1 r a
  proof (induction xs arbitrary: s1 r a vals)
    case Nil
    then show ?case by (auto intro: builds_return)
  next
    case (Cons x xs)
    then obtain v vals' where v: "vals = v # vals'" "den vs s1 x v" "dens vs s1 xs vals'"
      by (auto simp: list_all2_Cons1)
    have "builds s1 (f r x) (\<lambda>r s'. den vs s' r (h a v))"
      using step [of s1 r a "(x, v)"] Cons.prems v by auto
    then show ?case
      unfolding fold_roots.simps v(1) foldl_Cons
    proof (rule builds_bind)
      show "builds s2 (fold_roots f r2 xs) (\<lambda>r s'. den vs s' r (foldl h (h a v) vals'))"
        if "ext s1 s2" "den vs s2 r2 (h a v)" for r2 s2
        using that Cons.IH [of s2 r2 "h a v" vals'] Cons.prems(1) v(3) ext_trans dens_ext by blast
      show "err_grows (fold_roots f r2 xs)" for r2
        by (induction xs arbitrary: r2) (auto intro!: err_intros err)
    qed (rule err)
  qed
  then show ?thesis using assms by simp
qed

lemma err_grows_fold_roots [err_intros]: "(\<And>acc x. err_grows (f acc x)) \<Longrightarrow> err_grows (fold_roots f r xs)"
  by (induction xs arbitrary: r) (auto intro!: err_intros)

subsection \<open>Values\<close>

text \<open>The bits a value denotes; a value has at least one bit.\<close>

definition vden :: "logic_t list \<Rightarrow> xp \<Rightarrow> expr_value \<Rightarrow> logic_t list \<Rightarrow> bool" where
  "vden vs s v xs \<longleftrightarrow> value_bits v \<noteq> [] \<and> dens vs s (value_bits v) xs"

lemma vden_ext: "vden vs s v xs \<Longrightarrow> ext s s' \<Longrightarrow> vden vs s' v xs"
  by (auto simp: vden_def intro: dens_ext)

lemma vden_width: "vden vs s v xs \<Longrightarrow> length xs = value_width v" "vden vs s v xs \<Longrightarrow> xs \<noteq> []"
  by (auto simp: vden_def value_bits_def value_width_def split: if_splits dest: list_all2_lengthD)

lemma value_width_bits: "length (value_bits v) = value_width v"
  by (simp add: value_bits_def value_width_def)

lemma vden_scalar: "den vs s r x \<Longrightarrow> vden vs s (scalar_value r msb lsb sg) [x]"
  by (simp add: vden_def value_bits_def scalar_value_def)

lemma vden_vector: "dens vs s rs xs \<Longrightarrow> rs \<noteq> [] \<Longrightarrow> vden vs s (vector_value rs msb lsb sg) xs"
  by (simp add: vden_def value_bits_def vector_value_def)

text \<open>What the constructors of values give: the bits, the sign flag and the shape.\<close>

definition value_ok :: "logic_t list \<Rightarrow> bool \<Rightarrow> logic_t list \<Rightarrow> expr_value \<Rightarrow> xp \<Rightarrow> bool" where
  "value_ok vs sg xs v s \<longleftrightarrow>
     vden vs s v xs \<and> xv_is_signed v = sg \<and> (xv_is_vector v \<longleftrightarrow> length xs > 1)"

lemma err_grows_make_vector_with_range [err_intros]: "err_grows (make_vector_with_range rs msb lsb sg)"
  by (cases rs rule: remdups_adj.cases)
    (auto simp: make_vector_with_range_def intro!: err_intros)

lemma err_grows_make_vector [err_intros]: "err_grows (make_vector rs sg)"
  unfolding make_vector_def by (intro err_intros)

lemma builds_make_vector_with_range:
  assumes "dens vs s rs xs" and "rs \<noteq> []"
  shows "builds s (make_vector_with_range rs msb lsb sg) (value_ok vs sg xs)"
proof (cases "length rs = 1")
  case True
  then obtain r x where "rs = [r]" "xs = [x]" "den vs s r x"
    using assms(1) by (auto simp: length_Suc_conv list_all2_Cons1)
  then show ?thesis
    by (auto simp: make_vector_with_range_def value_ok_def vden_scalar intro!: builds_return)
      (simp_all add: scalar_value_def)
next
  case False
  then have "make_vector_with_range rs msb lsb sg = State_Monad.return (vector_value rs msb lsb sg)"
    using assms(2) by (cases rs rule: remdups_adj.cases) (auto simp: make_vector_with_range_def)
  moreover have "length xs > 1"
    using False assms(2) list_all2_lengthD [OF assms(1)] by (cases "length rs") auto
  ultimately show ?thesis
    using assms by (auto simp: value_ok_def vden_vector intro!: builds_return) (simp_all add: vector_value_def)
qed

lemma builds_make_vector:
  assumes "dens vs s rs xs" and "rs \<noteq> []"
  shows "builds s (make_vector rs sg) (\<lambda>v s'. value_ok vs sg xs v s' \<and> length xs \<le> max_concat_bits)"
proof (cases "length rs > max_concat_bits")
  case True
  have "\<not> xp_errs (snd (run_state (make_vector rs sg) s)) = xp_errs s"
  proof -
    let ?s1 = "s\<lparr>xp_errs := xp_errs s @ [''vector expression too wide (limit exceeded)'']\<rparr>"
    let ?g = "make_vector_with_range (take max_concat_bits rs) (int (length (take max_concat_bits rs)) - 1) 0 sg"
    have "run_state (make_vector rs sg) s = run_state ?g ?s1"
      using True assms(2) by (simp add: make_vector_def report_def max_concat_bits_def)
    moreover obtain es where "xp_errs (snd (run_state ?g ?s1)) = xp_errs ?s1 @ es"
      using err_grows_make_vector_with_range unfolding err_grows_def by blast
    ultimately show ?thesis by simp
  qed
  then show ?thesis unfolding builds_def by (metis snd_conv)
next
  case False
  then have "make_vector rs sg = make_vector_with_range rs (int (length rs) - 1) 0 sg"
    using assms(2) by (simp add: make_vector_def)
  then show ?thesis
    using builds_weaken [OF builds_make_vector_with_range [OF assms]] False list_all2_lengthD [OF assms(1)]
    by simp
qed


subsection \<open>Sharing\<close>

lemma intern_node_cases:
  assumes "run_state (intern_node n) s = (r, s')" and "xp_errs s' = xp_errs s"
  obtains (old) "m_expr_intern (xp_m s) n = Some r" "s' = s"
    | (new) "r = length (nodes s)"
        "s' = s\<lparr>xp_m := (xp_m s)\<lparr>m_expr_nodes := nodes s @ [n],
                  m_expr_intern := (m_expr_intern (xp_m s))(n \<mapsto> length (nodes s))\<rparr>\<rparr>"
proof (cases "m_expr_intern (xp_m s) n")
  case (Some i)
  then have "r = i" "s' = s" using assms(1) by (simp_all add: intern_node_def Let_def)
  then show thesis using old Some by simp
next
  case None
  have "\<not> length (nodes s) \<ge> max_expr_nodes"
  proof
    assume "length (nodes s) \<ge> max_expr_nodes"
    then have "s' = s\<lparr>xp_errs := xp_errs s @ [''expression too large (node limit exceeded)'']\<rparr>"
      using assms(1) None by (simp add: intern_node_def Let_def)
    then have "xp_errs s' = xp_errs s @ [''expression too large (node limit exceeded)'']" by simp
    then show False using assms(2) by simp
  qed
  then have "run_state (intern_node n) s = (length (nodes s), s\<lparr>xp_m := (xp_m s)\<lparr>m_expr_nodes := nodes s @ [n],
      m_expr_intern := (m_expr_intern (xp_m s))(n \<mapsto> length (nodes s))\<rparr>\<rparr>)"
    using None by (simp add: intern_node_def Let_def)
  then have "(length (nodes s), s\<lparr>xp_m := (xp_m s)\<lparr>m_expr_nodes := nodes s @ [n],
      m_expr_intern := (m_expr_intern (xp_m s))(n \<mapsto> length (nodes s))\<rparr>\<rparr>) = (r, s')"
    unfolding assms(1) by (rule sym)
  then show thesis by (intro new) (erule Pair_inject, rule sym, assumption)+
qed

lemma intern_node_again:
  assumes "run_state (intern_node n) s = (r, s')" and "xp_errs s' = xp_errs s"
  shows "run_state (intern_node n) s' = (r, s')"
  using assms
proof (cases rule: intern_node_cases)
  case old
  then show ?thesis using assms(1) by simp
next
  case new
  have "m_expr_intern (xp_m s') n = Some r" unfolding new by simp
  then show ?thesis by (simp add: intern_node_def Let_def)
qed

lemma fold_node_append:
  assumes "kind_arity (en_kind n) \<ge> 1 \<Longrightarrow> en_a n < length ns" and "kind_arity (en_kind n) \<ge> 2 \<Longrightarrow> en_b n < length ns"
  shows "fold_node (ns @ ms) n = fold_node ns n"
  using assms by (auto simp: fold_node_def try_get_literal_def nth_append kind_arity_def split: expr_kind.splits)

lemma add_node_run:
  "run_state (add_node n) s =
     (let n1 = propagate_const (xp_m s) n in
      run_state (intern_node (case fold_node (nodes s) n1 of None \<Rightarrow> n1 | Some v \<Rightarrow> literal_node v)) s)"
  by (simp add: add_node_def get_m_def Let_def split: option.splits)

lemma intern_ext:
  assumes "run_state (intern_node n) s = (r, s')" and "xp_errs s' = xp_errs s"
  shows "ext s s'"
  using assms
proof (cases rule: intern_node_cases)
  case old
  then show ?thesis by simp
next
  case new
  show ?thesis unfolding ext_def new by auto
qed

lemma add_node_shares:
  assumes run: "run_state (add_node n) s = (r, s')" and err: "xp_errs s' = xp_errs s"
    and a: "kind_arity (en_kind n) \<ge> 1 \<Longrightarrow> en_a n < length (nodes s)"
    and b: "kind_arity (en_kind n) \<ge> 2 \<Longrightarrow> en_b n < length (nodes s)"
  shows "run_state (add_node n) s' = (r, s')"
proof -
  let ?n1 = "propagate_const (xp_m s) n"
  let ?n2 = "case fold_node (nodes s) ?n1 of None \<Rightarrow> ?n1 | Some v \<Rightarrow> literal_node v"
  have i: "run_state (intern_node ?n2) s = (r, s')" using run by (simp add: add_node_run Let_def)
  then obtain ns I where ext: "xp_m s' = (xp_m s)\<lparr>m_expr_nodes := nodes s @ ns, m_expr_intern := I\<rparr>"
    using intern_ext [OF i err] by (auto simp: ext_def)
  have n1: "propagate_const (xp_m s') n = ?n1" by (simp add: ext propagate_const_def is_foldable_def)
  have "kind_arity (en_kind ?n1) \<ge> 1 \<Longrightarrow> en_a ?n1 < length (nodes s)"
    "kind_arity (en_kind ?n1) \<ge> 2 \<Longrightarrow> en_b ?n1 < length (nodes s)"
    using a b by (auto simp: propagate_const_def kind_arity_def split: if_splits)
  then have "fold_node (nodes s') ?n1 = fold_node (nodes s) ?n1"
    by (simp add: ext fold_node_append)
  then show ?thesis using intern_node_again [OF i err] by (simp add: add_node_run n1 Let_def)
qed

end
