(* ===== verification/Arith.thy ===== *)
theory Arith
  imports Builder_Props
begin

text \<open>
  The arithmetic of the bit-level operators: on known operands the built expressions compute
  addition, subtraction, multiplication, comparison and shifting of the numbers the operand
  vectors stand for, and one unknown operand bit makes every result bit \<^verbatim>\<open>X\<close>.
\<close>

subsection \<open>Width coercion of values\<close>

abbreviation rsz :: "logic_t list \<Rightarrow> nat \<Rightarrow> bool \<Rightarrow> logic_t list" where
  "rsz xs w se \<equiv> resize_msb indeterminate_state false_state xs w se"

lemma length_resize_msb: "src \<noteq> [] \<Longrightarrow> length (resize_msb u z src w se) = w"
  by (auto simp: resize_msb_def)

lemma err_grows_resize_to_vector [err_intros]: "err_grows (resize_to_vector v w se)"
  unfolding resize_to_vector_def Let_def by (intro err_intros)

lemma list_all2_hd: "list_all2 P xs ys \<Longrightarrow> xs \<noteq> [] \<Longrightarrow> P (hd xs) (hd ys)"
  by (cases xs; cases ys) auto

lemma list_all2_last: "list_all2 P xs ys \<Longrightarrow> xs \<noteq> [] \<Longrightarrow> P (last xs) (last ys)"
  by (metis last_conv_nth length_0_conv list_all2_conv_all_nth diff_less length_greater_0_conv zero_less_one)

lemma builds_resize_to_vector:
  assumes v: "vden vs s v xs" and w: "0 < w"
  shows "builds s (resize_to_vector v w se) (\<lambda>rs s'. dens vs s' rs (rsz xs w se))"
proof -
  let ?src = "value_bits v"
  have src: "?src \<noteq> []" "dens vs s ?src xs" "xs \<noteq> []" "length xs = length ?src"
    using v vden_width [OF v] by (auto simp: vden_def value_width_bits)
  show ?thesis
  proof (cases "w \<le> length ?src")
    case True
    have eq: "resize_msb u z ?src w se = drop (length ?src - w) ?src" for u z
      using True w src by (simp add: resize_msb_low)
    have "resize_to_vector v w se = State_Monad.return (resize_msb u z ?src w se)" for u z
      using True w src by (auto simp: resize_to_vector_def resize_msb_def Let_def)
    then have "resize_to_vector v w se = State_Monad.return (drop (length ?src - w) ?src)"
      unfolding eq .
    moreover have "rsz xs w se = drop (length ?src - w) xs"
      using True w src by (simp add: resize_msb_low)
    moreover have "dens vs s (drop (length ?src - w) ?src) (drop (length ?src - w) xs)"
      using src(2) by (rule list_all2_dropI)
    ultimately show ?thesis by (auto intro: builds_return)
  next
    case False
    then have "1 < w" using src(1) by (cases ?src) auto
    with False have run: "resize_to_vector v w se =
        do {z \<leftarrow> make_literal false_state;
            State_Monad.return (replicate (w - length ?src) (if se then hd ?src else z) @ ?src)}"
      using w src(1) by (auto simp: resize_to_vector_def Let_def)
    have xs: "rsz xs w se = replicate (w - length ?src) (if se then hd xs else false_state) @ xs"
      using False src by (simp add: resize_msb_high)
    show ?thesis unfolding run
    proof (rule builds_bind [OF builds_literal [where vs = vs]])
      fix z s' assume "ext s s'" and z: "den vs s' z false_state"
      then have "dens vs s' ?src xs" using src(2) dens_ext by blast
      then have "den vs s' (if se then hd ?src else z) (if se then hd xs else false_state)"
        using z list_all2_hd src(1) by auto
      then have "dens vs s' (replicate (w - length ?src) (if se then hd ?src else z) @ ?src) (rsz xs w se)"
        unfolding xs using \<open>dens vs s' ?src xs\<close>
        by (intro list_all2_appendI) (auto simp: list_all2_conv_all_nth)
      then show "builds s' (State_Monad.return (replicate (w - length ?src) (if se then hd ?src else z) @ ?src))
          (\<lambda>rs s'. dens vs s' rs (rsz xs w se))"
        by (rule builds_return)
    qed (intro err_intros)+
  qed
qed

subsection \<open>Unknown operands\<close>

definition some_unknown :: "logic_t list \<Rightarrow> bool" where
  "some_unknown xs \<longleftrightarrow> (\<exists>x \<in> set xs. is_unknown (normalize_z_to_x x))"

lemma logic_is_unknown_bool: "logic_is_unknown x = of_bool_state (is_unknown (normalize_z_to_x x))"
  by (cases x) (simp_all add: logic_is_unknown_def)

lemma foldl_or_unknown:
  "foldl (\<lambda>a x. logic_or a (logic_is_unknown x)) (of_bool_state b) xs = of_bool_state (b \<or> some_unknown xs)"
  by (induction xs arbitrary: b) (auto simp: some_unknown_def logic_is_unknown_bool)

lemma err_grows_any_unknown [err_intros]: "err_grows (any_unknown_root v)"
  unfolding any_unknown_root_def by (intro err_intros)

lemma builds_any_unknown:
  assumes "vden vs s v xs"
  shows "builds s (any_unknown_root v) (\<lambda>r s'. den vs s' r (of_bool_state (some_unknown xs)))"
proof (cases "xv_is_vector v")
  case False
  then obtain x where "xs = [x]" "den vs s (xv_scalar_root v) x"
    using assms by (auto simp: vden_def value_bits_def list_all2_Cons1)
  then show ?thesis
    using False builds_is_unknown [of vs s "xv_scalar_root v" x]
    by (simp add: any_unknown_root_def logic_is_unknown_bool some_unknown_def)
next
  case True
  then have rs: "xv_vector_roots v \<noteq> []" "dens vs s (xv_vector_roots v) xs"
    using assms by (auto simp: vden_def value_bits_def)
  have run: "any_unknown_root v = do {r \<leftarrow> make_literal (of_bool_state False);
      fold_roots (\<lambda>acc b. do {u \<leftarrow> make_is_unknown b; make_or acc u}) r (xv_vector_roots v)}"
    using True rs by (simp add: any_unknown_root_def)
  have goal: "builds s1 (fold_roots (\<lambda>acc b. do {u \<leftarrow> make_is_unknown b; make_or acc u}) r (xv_vector_roots v))
      (\<lambda>r s'. den vs s' r (foldl (\<lambda>a x. logic_or a (logic_is_unknown x)) (of_bool_state False) xs))"
    if e: "ext s s1" and r: "den vs s1 r (of_bool_state False)" for r s1
  proof (rule builds_fold_roots [OF _ _ r])
    show "dens vs s1 (xv_vector_roots v) xs" using rs(2) e by (rule dens_ext)
    fix s' acc a and x :: "nat \<times> logic_t"
    assume "den vs s' acc a" and "\<forall>y v. (y, v) = x \<longrightarrow> den vs s' y v"
    then have "den vs s' acc a" "den vs s' (fst x) (snd x)" by auto
    then show "builds s' (do {u \<leftarrow> make_is_unknown (fst x); make_or acc u})
        (\<lambda>r s''. den vs s'' r (logic_or a (logic_is_unknown (snd x))))"
      by (intro builds_bind [OF builds_is_unknown [where vs = vs]] builds_or err_intros) (auto intro: den_ext)
  qed (intro err_intros)
  show ?thesis unfolding run
    by (rule builds_bind [OF builds_literal [where vs = vs]])
      (use goal foldl_or_unknown [of False xs] in \<open>auto intro!: err_intros\<close>)
qed

subsection \<open>The carry chain\<close>

fun v_ripple :: "bool \<Rightarrow> (logic_t \<times> logic_t) list \<Rightarrow> logic_t \<Rightarrow> logic_t list" where
  "v_ripple neg [] c = []"
| "v_ripple neg ((a, b0) # ps) c =
     (let b = (if neg then logic_not b0 else b0) in
      v_ripple neg ps (logic_or (logic_or (logic_and a b) (logic_and a c)) (logic_and b c)) @
      [logic_xor (logic_xor a b) c])"

lemma err_grows_ripple [err_intros]: "err_grows (ripple neg ps c)"
  by (induction neg ps c rule: ripple.induct) (auto intro!: err_intros)

lemma builds_not_if:
  "den vs s b y \<Longrightarrow> builds s (if neg then make_not b else State_Monad.return b)
     (\<lambda>r s'. den vs s' r (if neg then logic_not y else y))"
  by (auto intro: builds_not builds_return)

lemma builds_ripple:
  "list_all2 (\<lambda>(a, b) (x, y). den vs s a x \<and> den vs s b y) ps qs \<Longrightarrow> den vs s c z \<Longrightarrow>
     builds s (ripple neg ps c) (\<lambda>rs s'. dens vs s' rs (v_ripple neg qs z))"
proof (induction ps arbitrary: qs s c z)
  case Nil
  then show ?case by (auto intro: builds_return)
next
  case (Cons p ps)
  obtain a b where p: "p = (a, b)" by (cases p)
  from Cons.prems obtain x y qs' where qs: "qs = (x, y) # qs'" and a: "den vs s a x" and b: "den vs s b y"
    and tl: "list_all2 (\<lambda>(a, b) (x, y). den vs s a x \<and> den vs s b y) ps qs'"
    by (auto simp: list_all2_Cons1 p)
  let ?y = "if neg then logic_not y else y"
  let ?c = "logic_or (logic_or (logic_and x ?y) (logic_and x z)) (logic_and ?y z)"
  have rest: "builds s' (do {outs \<leftarrow> ripple neg ps c1; State_Monad.return (outs @ [out])})
      (\<lambda>rs s'. dens vs s' rs (v_ripple neg qs z))"
    if e: "ext s s'" and out: "den vs s' out (logic_xor (logic_xor x ?y) z)" and c1: "den vs s' c1 ?c" for s' out c1
  proof (rule builds_bind)
    show "builds s' (ripple neg ps c1) (\<lambda>rs s''. dens vs s'' rs (v_ripple neg qs' ?c))"
      using tl e c1 by (intro Cons.IH) (auto elim!: list_all2_mono intro: den_ext)
    show "builds s2 (State_Monad.return (outs @ [out])) (\<lambda>rs s'. dens vs s' rs (v_ripple neg qs z))"
      if "ext s' s2" "dens vs s2 outs (v_ripple neg qs' ?c)" for outs s2
      using den_ext [OF out that(1)] that(2) by (intro builds_return) (auto simp: qs Let_def intro!: list_all2_appendI)
  qed (intro err_intros)+
  show ?case
    unfolding p ripple.simps
    by (rule builds_bind builds_not_if [OF b] builds_xor [where vs = vs] builds_and [where vs = vs]
          builds_or [where vs = vs] rest err_intros
        | assumption | rule a Cons.prems(2) den_ext | erule ext_trans)+
qed

fun b_ripple :: "bool \<Rightarrow> (bool \<times> bool) list \<Rightarrow> bool \<Rightarrow> bool list" where
  "b_ripple neg [] c = []"
| "b_ripple neg ((a, b0) # ps) c =
     (let b = (b0 \<noteq> neg) in b_ripple neg ps (a \<and> b \<or> a \<and> c \<or> b \<and> c) @ [(a \<noteq> b) \<noteq> c])"

lemma v_ripple_known:
  "v_ripple neg (map (\<lambda>(a, b). (of_bool_state a, of_bool_state b)) ps) (of_bool_state c) =
     map of_bool_state (b_ripple neg ps c)"
proof (induction ps arbitrary: c)
  case Nil
  then show ?case by simp
next
  case (Cons p ps)
  obtain a b where p: "p = (a, b)" by (cases p)
  have nb: "(if neg then logic_not (of_bool_state b) else of_bool_state b) = of_bool_state (b \<noteq> neg)"
    by (cases neg; cases b) simp_all
  show ?case using Cons.IH by (simp add: p Let_def nb disj_assoc del: if_split)
qed

lemma length_b_ripple [simp]: "length (b_ripple neg ps c) = length ps"
  by (induction neg ps c rule: b_ripple.induct) (auto simp: Let_def)

text \<open>\<open>lsb_val\<close> is the number of an LSB-first vector, the order the chain runs in.\<close>

definition lsb_val :: "bool list \<Rightarrow> nat" where
  "lsb_val bs = bits_val (rev bs)"

lemma lsb_val_simps [simp]: "lsb_val [] = 0" "lsb_val (b # bs) = of_bool b + 2 * lsb_val bs"
  by (simp_all add: lsb_val_def bits_val_append bits_val_Cons)

lemma lsb_val_bound: "lsb_val bs < 2 ^ length bs"
  using bits_val_bound [of "rev bs"] by (simp add: lsb_val_def)

lemma b_ripple_sum:
  "\<exists>cout. bits_val (b_ripple neg ps c) + 2 ^ length ps * of_bool cout =
     lsb_val (map fst ps) + lsb_val (map (\<lambda>p. snd p \<noteq> neg) ps) + of_bool c"
proof (induction ps arbitrary: c)
  case Nil
  then show ?case by (auto intro: exI [of _ c])
next
  case (Cons p ps)
  obtain a b0 where p: "p = (a, b0)" by (cases p)
  let ?b = "b0 \<noteq> neg" let ?c = "a \<and> ?b \<or> a \<and> c \<or> ?b \<and> c"
  obtain cout where ih: "bits_val (b_ripple neg ps ?c) + 2 ^ length ps * of_bool cout =
      lsb_val (map fst ps) + lsb_val (map (\<lambda>p. snd p \<noteq> neg) ps) + of_bool ?c"
    using Cons.IH by blast
  have full: "(of_bool a + of_bool ?b + of_bool c :: nat) = of_bool ((a \<noteq> ?b) \<noteq> c) + 2 * of_bool ?c"
    by (cases a; cases ?b; cases c) simp_all
  have "bits_val (b_ripple neg (p # ps) c) = 2 * bits_val (b_ripple neg ps ?c) + of_bool ((a \<noteq> ?b) \<noteq> c)"
    by (simp add: p Let_def bits_val_append bits_val_Cons)
  then show ?case
    using ih full by (intro exI [of _ cout]) (simp add: p algebra_simps)
qed

lemma b_ripple_add:
  "length as = length bs \<Longrightarrow>
     bits_val (b_ripple False (rev (zip as bs)) False) = (bits_val as + bits_val bs) mod 2 ^ length as"
proof -
  assume len: "length as = length bs"
  have "map fst (rev (zip as bs)) = rev as" "map (\<lambda>p. snd p \<noteq> False) (rev (zip as bs)) = rev bs"
    using len by (simp_all add: rev_map flip: rev_map)
  then obtain cout where *: "bits_val (b_ripple False (rev (zip as bs)) False) + 2 ^ length as * of_bool cout = bits_val as + bits_val bs"
    using b_ripple_sum [of False "rev (zip as bs)" False] len by (auto simp: lsb_val_def)
  have "bits_val (b_ripple False (rev (zip as bs)) False) < 2 ^ length as"
    using bits_val_bound [of "b_ripple False (rev (zip as bs)) False"] len by simp
  then show ?thesis unfolding *[symmetric] by simp
qed

lemma lsb_val_not: "lsb_val (map Not bs) + lsb_val bs + 1 = 2 ^ length bs"
  by (induction bs) (auto simp: algebra_simps)

lemma b_ripple_sub:
  assumes len: "length as = length bs"
  shows "int (bits_val (b_ripple True (rev (zip as bs)) True)) = (int (bits_val as) - int (bits_val bs)) mod 2 ^ length as"
proof -
  have maps: "map fst (rev (zip as bs)) = rev as" "map (\<lambda>p. snd p \<noteq> True) (rev (zip as bs)) = map Not (rev bs)"
    using len by (auto simp: rev_map [symmetric] intro!: nth_equalityI)
  let ?r = "bits_val (b_ripple True (rev (zip as bs)) True)"
  obtain cout where "?r + 2 ^ length as * of_bool cout = bits_val as + lsb_val (map Not (rev bs)) + 1"
    using b_ripple_sum [of True "rev (zip as bs)" True] len unfolding maps by (auto simp: lsb_val_def)
  moreover have "lsb_val (map Not (rev bs)) + bits_val bs + 1 = 2 ^ length as"
    using lsb_val_not [of "rev bs"] len by (simp add: lsb_val_def)
  ultimately have "?r + 2 ^ length as * of_bool cout + bits_val bs = bits_val as + 2 ^ length as"
    by linarith
  then have "int (?r + 2 ^ length as * of_bool cout + bits_val bs) = int (bits_val as + 2 ^ length as)"
    by simp
  then have "int ?r = (int (bits_val as) - int (bits_val bs)) + 2 ^ length as * (1 - of_bool cout)"
    by (cases cout) (simp_all add: algebra_simps)
  moreover have "?r < 2 ^ length as"
    using bits_val_bound [of "b_ripple True (rev (zip as bs)) True"] len by simp
  ultimately show ?thesis
    by (metis mod_mult_self2 mod_pos_pos_trivial of_nat_0_le_iff of_nat_less_iff of_nat_numeral of_nat_power)
qed

end
