(* ===== verification/Arith_Add.thy ===== *)
theory Arith_Add
  imports Arith
begin

text \<open>
  Addition and subtraction of vector values (\<^verbatim>\<open>arith_add\<close>, \<^verbatim>\<open>arith_sub\<close>).
\<close>

subsection \<open>Masking unknown operands\<close>

lemma v_mux_mask [simp]:
  "v_mux true_state indeterminate_state z = indeterminate_state"
  "v_mux false_state indeterminate_state z = normalize_z_to_x z"
  by (cases z; simp add: v_mux_def)+

definition v_mask :: "bool \<Rightarrow> logic_t list \<Rightarrow> logic_t list" where
  "v_mask u zs = map (v_mux (of_bool_state u) indeterminate_state) zs"

lemma v_mask_simps: "v_mask True zs = replicate (length zs) indeterminate_state"
    "v_mask False (map of_bool_state bs) = map of_bool_state bs"
  unfolding v_mask_def by (induction zs) (simp_all add: comp_def)

lemma length_v_mask [simp]: "length (v_mask u zs) = length zs"
  by (simp add: v_mask_def)

lemma err_grows_mask_unknown [err_intros]: "err_grows (mask_unknown sel rs)"
  unfolding mask_unknown_def by (intro err_intros)

lemma builds_mask_unknown:
  assumes sel: "den vs s sel (of_bool_state u)" and rs: "dens vs s rs zs"
  shows "builds s (mask_unknown sel rs) (\<lambda>qs s'. dens vs s' qs (v_mask u zs))"
  unfolding mask_unknown_def
proof (rule builds_bind [OF builds_literal [where vs = vs]])
  fix x s' assume e: "ext s s'" and x: "den vs s' x indeterminate_state"
  have "builds s2 (make_mux sel x r) (\<lambda>q s3. den vs s3 q (v_mux (of_bool_state u) indeterminate_state z))"
    if "ext s' s2" "den vs s r z" for s2 r z
    using sel x that e by (intro builds_mux) (auto intro: den_ext ext_trans)
  then have "list_all2 (\<lambda>r z. \<forall>s2. ext s' s2 \<longrightarrow> builds s2 (make_mux sel x r) (\<lambda>q s3. den vs s3 q z)) rs (v_mask u zs)"
    using rs by (auto simp: v_mask_def list_all2_map2 elim!: list_all2_mono)
  then show "builds s' (State_Monad.traverse_list (make_mux sel x) rs) (\<lambda>qs s'. dens vs s' qs (v_mask u zs))"
    by (rule builds_traverse) (rule err_intros)
qed (intro err_intros)+

subsection \<open>The operators\<close>

lemma builds_report:
  assumes g: "\<And>r. err_grows (g r)"
  shows "builds s (State_Monad.bind (report msg) g) Q"
  unfolding builds_def
proof (intro allI impI)
  let ?s1 = "s\<lparr>xp_errs := xp_errs s @ [msg]\<rparr>"
  fix r s' assume run: "run_state (State_Monad.bind (report msg) g) s = (r, s')" and err: "xp_errs s' = xp_errs s"
  have "run_state (g ()) ?s1 = (r, s')" using run by (simp add: report_def)
  moreover have "\<exists>es. xp_errs (snd (run_state (g ()) ?s1)) = xp_errs ?s1 @ es"
    using g [of "()"] unfolding err_grows_def by blast
  ultimately show "ext s s' \<and> bwf s' \<and> Q r s'" using err by auto
qed

definition v_add_sub :: "bool \<Rightarrow> bool \<Rightarrow> logic_t list \<Rightarrow> logic_t list \<Rightarrow> logic_t list" where
  "v_add_sub neg sg xs ys =
     (let w = max (length xs) (length ys) in
      v_mask (some_unknown xs \<or> some_unknown ys)
        (if w \<le> 1 then [logic_xor (hd (rsz xs 1 sg)) (hd (rsz ys 1 sg))]
         else v_ripple neg (rev (zip (rsz xs w sg) (rsz ys w sg))) (of_bool_state neg)))"

lemma err_grows_add_sub [err_intros]: "err_grows (add_sub neg msg a b)"
  unfolding add_sub_def Let_def by (intro err_intros)

lemma dens_rev_zip:
  "dens vs s rs xs \<Longrightarrow> dens vs s qs ys \<Longrightarrow>
     list_all2 (\<lambda>(a, b) (x, y). den vs s a x \<and> den vs s b y) (rev (zip rs qs)) (rev (zip xs ys))"
  using list_all2_zip [of "den vs s" rs xs "den vs s" qs ys "\<lambda>(a, b) (x, y). den vs s a x \<and> den vs s b y" Pair]
  by (simp add: map2_map_map [where f = id and g = id, simplified] case_prod_beta' flip: zip_map_map)

lemma dens_nonempty: "dens vs s rs xs \<Longrightarrow> xs \<noteq> [] \<Longrightarrow> rs \<noteq> []"
  by auto

lemma dens_hd: "dens vs s rs xs \<Longrightarrow> xs \<noteq> [] \<Longrightarrow> den vs s (hd rs) (hd xs)"
  using list_all2_hd [of "den vs s" rs xs] dens_nonempty [of vs s rs xs] by blast

lemma builds_add_small:
  assumes a: "vden vs s a xs" and b: "vden vs s b ys" and sel: "den vs s sel (of_bool_state u)"
  shows "builds s (do {av \<leftarrow> resize_to_vector a 1 sg; bv \<leftarrow> resize_to_vector b 1 sg;
      r \<leftarrow> make_xor (hd av) (hd bv); x \<leftarrow> make_literal indeterminate_state; r1 \<leftarrow> make_mux sel x r;
      State_Monad.return (scalar_value r1 0 0 sg)})
    (value_ok vs sg (v_mask u [logic_xor (hd (rsz xs 1 sg)) (hd (rsz ys 1 sg))]))"
proof -
  have ne: "rsz xs 1 sg \<noteq> []" "rsz ys 1 sg \<noteq> []"
    using vden_width(2) [OF a] vden_width(2) [OF b] length_resize_msb by (metis length_0_conv zero_neq_one)+
  have fin: "builds s' (State_Monad.return (scalar_value r 0 0 sg)) (value_ok vs sg (v_mask u [z]))"
    if "den vs s' r (v_mux (of_bool_state u) indeterminate_state z)" for s' r z
    using vden_scalar [OF that] by (intro builds_return) (auto simp: value_ok_def v_mask_def scalar_value_def)
  show ?thesis
    by (rule builds_bind builds_resize_to_vector [where vs = vs] builds_xor [where vs = vs]
          builds_literal [where vs = vs] builds_mux [where vs = vs] fin err_intros zero_less_one a b sel
        | assumption | (rule den_ext, (assumption | rule sel)) | (rule vden_ext, rule a b)
        | (rule dens_hd, (assumption | rule dens_ext, assumption), assumption?, rule ne)
        | erule ext_trans)+
qed

lemma builds_add_big:
  assumes a: "vden vs s a xs" and b: "vden vs s b ys" and sel: "den vs s sel (of_bool_state u)" and w: "0 < w"
  shows "builds s (do {av \<leftarrow> resize_to_vector a w sg; bv \<leftarrow> resize_to_vector b w sg;
      carry \<leftarrow> make_literal (of_bool_state neg); out \<leftarrow> ripple neg (rev (zip av bv)) carry;
      out1 \<leftarrow> mask_unknown sel out; make_vector out1 sg})
    (\<lambda>v s'. value_ok vs sg (v_mask u (v_ripple neg (rev (zip (rsz xs w sg) (rsz ys w sg))) (of_bool_state neg))) v s' \<and> w \<le> max_concat_bits)"
proof -
  let ?zs = "v_ripple neg (rev (zip (rsz xs w sg) (rsz ys w sg))) (of_bool_state neg)"
  have len: "length (v_ripple neg ps c) = length ps" for ps c
    by (induction neg ps c rule: v_ripple.induct) (auto simp: Let_def)
  have lenz: "length ?zs = w"
    using vden_width(2) [OF a] vden_width(2) [OF b] by (simp add: len length_resize_msb)
  have fin: "builds s' (make_vector rs sg) (\<lambda>v s'. value_ok vs sg (v_mask u ?zs) v s' \<and> w \<le> max_concat_bits)"
    if d: "dens vs s' rs (v_mask u ?zs)" for s' rs
  proof -
    have "v_mask u ?zs \<noteq> []" using lenz w by (metis length_0_conv length_v_mask less_numeral_extra(3))
    from builds_make_vector [OF d dens_nonempty [OF d this]] show ?thesis
      unfolding length_v_mask lenz .
  qed
  show ?thesis
    by (rule builds_bind builds_resize_to_vector [where vs = vs] builds_literal [where vs = vs]
          builds_ripple [where vs = vs] builds_mask_unknown [where vs = vs] fin err_intros a b sel w
        | assumption | (rule den_ext, (assumption | rule sel)) | (rule vden_ext, rule a b)
        | (rule dens_rev_zip, (assumption | rule dens_ext, assumption), assumption?)
        | (rule dens_ext, assumption)
        | erule ext_trans)+
qed

lemma builds_add_sub:
  assumes a: "vden vs s a xs" and b: "vden vs s b ys"
  defines "sg \<equiv> xv_is_signed a \<and> xv_is_signed b"
  shows "builds s (add_sub neg msg a b) (\<lambda>v s'. value_ok vs sg (v_add_sub neg sg xs ys) v s' \<and>
    max (length xs) (length ys) \<le> max_concat_bits)"
proof -
  let ?u = "some_unknown xs \<or> some_unknown ys" and ?w = "max (value_width a) (value_width b)"
  have w: "?w = max (length xs) (length ys)" "0 < ?w"
    using vden_width [OF a] vden_width [OF b] by (auto simp: less_max_iff_disj)
  have sel: "builds s' (make_or ua ub) (\<lambda>r s''. den vs s'' r (of_bool_state ?u))"
    if "den vs s' ua (of_bool_state (some_unknown xs))" "den vs s' ub (of_bool_state (some_unknown ys))" for s' ua ub
    using builds_or [OF that] by simp
  show ?thesis
  proof (cases "?w > max_concat_bits")
    case True
    then show ?thesis unfolding add_sub_def Let_def
      by (simp only: if_True State_Monad.bind_assoc) (rule builds_report, intro err_intros)
  next
    case False
    have fin: "builds s1 (if ?w \<le> 1
          then do {av \<leftarrow> resize_to_vector a 1 sg; bv \<leftarrow> resize_to_vector b 1 sg;
                   r \<leftarrow> make_xor (hd av) (hd bv); x \<leftarrow> make_literal indeterminate_state;
                   r1 \<leftarrow> make_mux sel x r; State_Monad.return (scalar_value r1 0 0 sg)}
          else do {av \<leftarrow> resize_to_vector a ?w sg; bv \<leftarrow> resize_to_vector b ?w sg;
                   carry \<leftarrow> make_literal (of_bool_state neg); out \<leftarrow> ripple neg (rev (zip av bv)) carry;
                   out1 \<leftarrow> mask_unknown sel out; make_vector out1 sg})
        (\<lambda>v s'. value_ok vs sg (v_add_sub neg sg xs ys) v s' \<and> max (length xs) (length ys) \<le> max_concat_bits)"
      if e: "ext s s1" and sel: "den vs s1 sel (of_bool_state ?u)" for s1 sel
      using builds_add_small [OF vden_ext [OF a e] vden_ext [OF b e] sel, of sg]
        builds_add_big [OF vden_ext [OF a e] vden_ext [OF b e] sel w(2), of sg neg] False w
      by (auto simp: v_add_sub_def Let_def intro: builds_weaken)
    have run: "add_sub neg msg a b = do {ua \<leftarrow> any_unknown_root a; ub \<leftarrow> any_unknown_root b; sel \<leftarrow> make_or ua ub;
          if ?w \<le> 1
          then do {av \<leftarrow> resize_to_vector a 1 sg; bv \<leftarrow> resize_to_vector b 1 sg;
                   r \<leftarrow> make_xor (hd av) (hd bv); x \<leftarrow> make_literal indeterminate_state;
                   r1 \<leftarrow> make_mux sel x r; State_Monad.return (scalar_value r1 0 0 sg)}
          else do {av \<leftarrow> resize_to_vector a ?w sg; bv \<leftarrow> resize_to_vector b ?w sg;
                   carry \<leftarrow> make_literal (of_bool_state neg); out \<leftarrow> ripple neg (rev (zip av bv)) carry;
                   out1 \<leftarrow> mask_unknown sel out; make_vector out1 sg}}"
      using False unfolding add_sub_def Let_def sg_def by simp
    show ?thesis unfolding run
      by (rule builds_bind builds_any_unknown [where vs = vs] sel fin err_intros a b
        | assumption | (rule den_ext, assumption) | (rule vden_ext, rule a b) | erule ext_trans)+
  qed
qed

subsection \<open>Numbers\<close>

text \<open>The number a known vector stands for, as signed or unsigned.\<close>

definition numval :: "bool \<Rightarrow> bool list \<Rightarrow> int" where
  "numval sg bs = (if sg then sbits_val bs else int (bits_val bs))"

lemma bits_val_int_bound: "int (bits_val bs) < 2 ^ length bs"
  using bits_val_bound [of bs] by (metis of_nat_less_iff of_nat_numeral of_nat_power)

lemma numval_mod: "bs \<noteq> [] \<Longrightarrow> numval sg bs mod 2 ^ length bs = int (bits_val bs)"
  using bits_val_int_bound [of bs] by (simp add: numval_def sbits_val_def)

lemma rsz_known: "bs \<noteq> [] \<Longrightarrow> rsz (map of_bool_state bs) w sg = map of_bool_state (resize_msb False False bs w sg)"
  by (simp add: resize_msb_map) (simp add: resize_msb_def)

lemma resize_num:
  assumes "bs \<noteq> []" and "length bs \<le> w"
  shows "int (bits_val (resize_msb u False bs w sg)) = numval sg bs mod 2 ^ w"
proof -
  have w: "0 < w" using assms by (cases bs) auto
  let ?r = "resize_msb u False bs w sg"
  have r: "length ?r = w" "?r \<noteq> []" using assms(1) w length_resize_msb [OF assms(1), of u False w sg] by auto
  have "numval sg ?r = numval sg bs"
  proof (cases sg)
    case True
    then show ?thesis using resize_signed [OF assms, of u False] by (simp add: numval_def)
  next
    case False
    have "bits_val bs < 2 ^ w"
      using bits_val_bound [of bs] power_increasing [OF assms(2), of "2::nat"] by linarith
    then show ?thesis using resize_unsigned [OF assms(1) w, of u] False by (simp add: numval_def)
  qed
  then show ?thesis using numval_mod [OF r(2), of sg] r(1) by simp
qed

lemma some_unknown_known [simp]: "\<not> some_unknown (map of_bool_state bs)"
  by (auto simp: some_unknown_def)

lemma zip_map_known:
  "zip (map of_bool_state as) (map of_bool_state bs) = map (\<lambda>(a, b). (of_bool_state a, of_bool_state b)) (zip as bs)"
  by (simp add: zip_map_map)

lemma v_add_sub_known:
  assumes as: "as \<noteq> []" and bs: "bs \<noteq> []"
  defines "w \<equiv> max (length as) (length bs)"
  shows "\<exists>cs. v_add_sub neg sg (map of_bool_state as) (map of_bool_state bs) = map of_bool_state cs \<and>
    length cs = w \<and>
    int (bits_val cs) = (if neg then numval sg as - numval sg bs else numval sg as + numval sg bs) mod 2 ^ w"
proof (cases "w \<le> 1")
  case True
  then have "length as = 1" "length bs = 1" and w: "w = 1"
    using as bs by (cases as; cases bs; auto simp: w_def)+
  then obtain a b where ab: "as = [a]" "bs = [b]" by (auto simp: length_Suc_conv)
  have "v_add_sub neg sg (map of_bool_state as) (map of_bool_state bs) = map of_bool_state [a \<noteq> b]"
    using some_unknown_known [of "[a]"] some_unknown_known [of "[b]"]
    by (simp add: v_add_sub_def ab resize_msb_def v_mask_def)
  moreover have "int (bits_val [a \<noteq> b]) = (if neg then numval sg as - numval sg bs else numval sg as + numval sg bs) mod 2 ^ w"
    by (cases neg; cases sg; cases a; cases b) (simp_all add: ab w numval_def sbits_val_def bits_val_Cons)
  ultimately show ?thesis using w by (intro exI [of _ "[a \<noteq> b]"]) simp
next
  case False
  let ?A = "resize_msb False False as w sg" and ?B = "resize_msb False False bs w sg"
  let ?cs = "b_ripple neg (rev (zip ?A ?B)) neg"
  have len: "length ?A = w" "length ?B = w" using as bs by (simp_all add: length_resize_msb)
  have "v_add_sub neg sg (map of_bool_state as) (map of_bool_state bs) =
      v_mask False (v_ripple neg (rev (zip (map of_bool_state ?A) (map of_bool_state ?B))) (of_bool_state neg))"
    using False as bs by (auto simp: v_add_sub_def w_def Let_def rsz_known)
  moreover have "rev (zip (map of_bool_state ?A) (map of_bool_state ?B)) =
      map (\<lambda>(a, b). (of_bool_state a, of_bool_state b)) (rev (zip ?A ?B))"
    by (simp only: zip_map_known rev_map)
  ultimately have v: "v_add_sub neg sg (map of_bool_state as) (map of_bool_state bs) = map of_bool_state ?cs"
    by (simp only: v_ripple_known v_mask_simps)
  have n: "int (bits_val ?A) = numval sg as mod 2 ^ w" "int (bits_val ?B) = numval sg bs mod 2 ^ w"
    using as bs by (simp_all add: resize_num w_def)
  have "int (bits_val ?cs) = (if neg then numval sg as - numval sg bs else numval sg as + numval sg bs) mod 2 ^ w"
  proof (cases neg)
    case True
    then show ?thesis using b_ripple_sub [of ?A ?B] len n by (simp add: mod_diff_eq)
  next
    case False
    then show ?thesis using b_ripple_add [of ?A ?B] len n by (simp add: zmod_int mod_add_eq)
  qed
  then show ?thesis using v len by (intro exI [of _ ?cs]) simp
qed

lemma length_v_add_sub: "xs \<noteq> [] \<Longrightarrow> ys \<noteq> [] \<Longrightarrow> length (v_add_sub neg sg xs ys) = max (length xs) (length ys)"
proof -
  assume ne: "xs \<noteq> []" "ys \<noteq> []"
  have len: "length (v_ripple neg ps c) = length ps" for ps c
    by (induction neg ps c rule: v_ripple.induct) (auto simp: Let_def)
  have "max (length xs) (length ys) > 0" using ne by (cases xs) auto
  then show ?thesis using ne by (auto simp: v_add_sub_def Let_def len length_resize_msb)
qed

lemma v_add_sub_unknown:
  "xs \<noteq> [] \<Longrightarrow> ys \<noteq> [] \<Longrightarrow> some_unknown xs \<or> some_unknown ys \<Longrightarrow>
     v_add_sub neg sg xs ys = replicate (max (length xs) (length ys)) indeterminate_state"
  using length_v_add_sub [of xs ys neg sg] by (simp add: v_add_sub_def Let_def v_mask_simps split: if_splits)


subsection \<open>What the generated nodes compute\<close>

text \<open>
  The values of the operand bits and of the result bits under the signal values \<open>vs\<close>. The
  hypotheses on the run say that the builder reported no error.
\<close>

definition root_vals :: "xp \<Rightarrow> logic_t list \<Rightarrow> expr_value \<Rightarrow> logic_t list" where
  "root_vals s vs v = map (deval (nodes s) vs) (value_bits v)"

definition operand_ok :: "xp \<Rightarrow> expr_value \<Rightarrow> bool" where
  "operand_ok s v \<longleftrightarrow> value_bits v \<noteq> [] \<and> (\<forall>r \<in> set (value_bits v). r < length (nodes s))"

definition built_ok :: "xp \<Rightarrow> xp \<Rightarrow> expr_value \<Rightarrow> bool" where
  "built_ok s s' v \<longleftrightarrow> bwf s' \<and> ext s s' \<and> operand_ok s' v"

lemma operand_vden: "operand_ok s v \<Longrightarrow> vden vs s v (root_vals s vs v)"
  by (auto simp: operand_ok_def vden_def root_vals_def den_def list_all2_map2 intro: list.rel_refl_strong)

lemma vden_root_vals:
  assumes "vden vs s v xs" and "env_ok (xp_m s) vs"
  shows "operand_ok s v \<and> root_vals s vs v = xs"
  using assms by (auto simp: vden_def operand_ok_def root_vals_def den_def list_all2_conv_all_nth in_set_conv_nth
      intro: nth_equalityI)

lemma builds_value:
  assumes b: "builds s f (\<lambda>v s'. value_ok vs sg xs v s' \<and> P)" and s: "bwf s" "env_ok (xp_m s) vs"
    and run: "run_state f s = (v, s')" "xp_errs s' = xp_errs s"
  shows "built_ok s s' v \<and> root_vals s' vs v = xs \<and> xv_is_signed v = sg \<and> P"
proof -
  have r: "ext s s'" "bwf s'" "value_ok vs sg xs v s'" P using b s run by (auto simp: builds_def)
  then have "env_ok (xp_m s') vs" using ext_env s(2) by blast
  then show ?thesis using r vden_root_vals by (auto simp: value_ok_def built_ok_def)
qed

lemma add_sub_run:
  assumes "bwf s" "env_ok (xp_m s) vs" "operand_ok s a" "operand_ok s b"
    and "run_state (add_sub neg msg a b) s = (v, s')" "xp_errs s' = xp_errs s"
  defines "sg \<equiv> xv_is_signed a \<and> xv_is_signed b"
  shows "built_ok s s' v \<and> root_vals s' vs v = v_add_sub neg sg (root_vals s vs a) (root_vals s vs b) \<and>
    xv_is_signed v = sg"
  using builds_value [OF builds_add_sub [OF operand_vden [OF assms(3)] operand_vden [OF assms(4)]] assms(1,2,5,6)]
  by (simp add: sg_def)

lemma root_vals_nonempty: "operand_ok s v \<Longrightarrow> root_vals s vs v \<noteq> []"
  by (simp add: operand_ok_def root_vals_def)

lemma length_root_vals [simp]: "length (root_vals s vs v) = value_width v"
  by (simp add: root_vals_def value_width_bits)

end
