(* ===== verification/Demo.thy ===== *)
theory Demo
  imports Sim_Facts Elab_Facts Arith_Add
begin

text \<open>
  Small designs on which the properties of the development are evaluated: an inverter with one
  continuous assignment, a top module that drives an instance of it from an initial block, and
  a module that swaps two registers on the rising edge of its clock.
\<close>

definition scalar_ref :: "nat \<Rightarrow> connection_ref" where
  "scalar_ref sig = connection_ref_default\<lparr>cr_kind := conn_scalar, cr_scalar_signal := sig\<rparr>"

definition scalar_decl :: "port_dir \<Rightarrow> port_decl" where
  "scalar_decl d = port_decl_default\<lparr>pd_dir := d\<rparr>"

definition inv_mod :: compiled_module where
  "inv_mod = empty_module
     \<lparr>m_name := ''inv'',
      m_ports := [\<lparr>p_name = ''a'', p_dir = dir_input, p_signal = 0\<rparr>,
                  \<lparr>p_name = ''y'', p_dir = dir_output, p_signal = 1\<rparr>],
      m_port_order := [''a'', ''y''],
      m_port_decls := [''a'' \<mapsto> scalar_decl dir_input, ''y'' \<mapsto> scalar_decl dir_output],
      m_signal_names := [''a'', ''y''],
      m_signal_is_reg := [False, False],
      m_expr_nodes := [signal_node 0, unary_node unary_not 0],
      m_assigns := [\<lparr>ca_lhs_signal = 1, ca_expr_root = 1, ca_guard_root = SIZE_MAX\<rparr>]\<rparr>"

definition assign_stmt :: "nat \<Rightarrow> nat \<Rightarrow> u64 \<Rightarrow> stmt_node" where
  "assign_stmt lhs root d = stmt_node_default
     \<lparr>sn_k := blocking_assign, sn_lhs_signal := lhs, sn_expr_root := root, sn_delay_ticks := d\<rparr>"

definition nonblocking_stmt :: "nat \<Rightarrow> nat \<Rightarrow> stmt_node" where
  "nonblocking_stmt lhs root = stmt_node_default
     \<lparr>sn_k := nonblocking_assign, sn_lhs_signal := lhs, sn_expr_root := root\<rparr>"

definition block_stmt :: "nat list \<Rightarrow> stmt_node" where
  "block_stmt is = stmt_node_default\<lparr>sn_k := block, sn_stmts := is\<rparr>"

definition if_node :: "nat \<Rightarrow> nat list \<Rightarrow> stmt_node" where
  "if_node c is = stmt_node_default\<lparr>sn_k := if_stmt, sn_expr_root := c, sn_stmts := is\<rparr>"

definition top_inst :: instance_def where
  "top_inst =
     \<lparr>id_module_name = ''inv'', id_instance_name = ''u1'',
      id_param_positional_values = [], id_param_named_values = [],
      id_connections = [\<lparr>ic_port_name = ''a'', ic_ref = scalar_ref 0\<rparr>,
                        \<lparr>ic_port_name = ''y'', ic_ref = scalar_ref 1\<rparr>]\<rparr>"

definition top_mod :: compiled_module where
  "top_mod = empty_module
     \<lparr>m_name := ''top'',
      m_signal_names := [''x'', ''z''],
      m_signal_is_reg := [True, False],
      m_expr_nodes := [literal_node false_state, literal_node true_state],
      m_initials := [\<lparr>ib_stmt_nodes = [assign_stmt 0 0 0, assign_stmt 0 1 5, block_stmt [0, 1]],
                      ib_roots = [2]\<rparr>],
      m_instances := [top_inst]\<rparr>"

definition swap_mod :: compiled_module where
  "swap_mod = empty_module
     \<lparr>m_name := ''swap'',
      m_signal_names := [''clk'', ''a'', ''b''],
      m_signal_is_reg := [False, True, True],
      m_expr_nodes := [signal_node 1, signal_node 2],
      m_always_ffs := [\<lparr>ff_events = [\<lparr>se_k = posedge, se_signal = 0\<rparr>],
                        ff_stmt_nodes = [nonblocking_stmt 1 1, nonblocking_stmt 2 0, block_stmt [0, 1]],
                        ff_roots = [2]\<rparr>]\<rparr>"

lemmas demo_defs = scalar_ref_def scalar_decl_def assign_stmt_def
  nonblocking_stmt_def block_stmt_def if_node_def top_inst_def empty_module_def stmt_node_default_def
  signal_node_def unary_node_def literal_node_def expr_node_default_def connection_ref_default_def
  port_decl_default_def

lemma inv_mod_fields [simp]:
  "m_name inv_mod = ''inv''"
  "m_ports inv_mod = [\<lparr>p_name = ''a'', p_dir = dir_input, p_signal = 0\<rparr>,
                      \<lparr>p_name = ''y'', p_dir = dir_output, p_signal = 1\<rparr>]"
  "m_port_order inv_mod = [''a'', ''y'']"
  "m_port_decls inv_mod = [''a'' \<mapsto> scalar_decl dir_input, ''y'' \<mapsto> scalar_decl dir_output]"
  "m_vectors inv_mod = Map.empty" "m_signal_names inv_mod = [''a'', ''y'']"
  "m_signal_is_reg inv_mod = [False, False]" "m_signal_is_const inv_mod = []"
  "m_param_order inv_mod = []"
  "m_expr_nodes inv_mod = [signal_node 0, unary_node unary_not 0]"
  "m_assigns inv_mod = [\<lparr>ca_lhs_signal = 1, ca_expr_root = 1, ca_guard_root = SIZE_MAX\<rparr>]"
  "m_always_ffs inv_mod = []" "m_always_combs inv_mod = []" "m_initials inv_mod = []"
  "m_instances inv_mod = []"
  by (simp_all add: inv_mod_def empty_module_def)

lemma top_mod_fields [simp]:
  "m_name top_mod = ''top''" "m_ports top_mod = []" "m_port_order top_mod = []"
  "m_vectors top_mod = Map.empty" "m_signal_names top_mod = [''x'', ''z'']"
  "m_signal_is_reg top_mod = [True, False]" "m_signal_is_signed top_mod = []" "m_signal_is_const top_mod = []"
  "m_expr_nodes top_mod = [literal_node false_state, literal_node true_state]"
  "m_assigns top_mod = []" "m_always_ffs top_mod = []" "m_always_combs top_mod = []"
  "m_initials top_mod = [\<lparr>ib_stmt_nodes = [assign_stmt 0 0 0, assign_stmt 0 1 5, block_stmt [0, 1]],
                           ib_roots = [2]\<rparr>]"
  "m_instances top_mod = [top_inst]"
  by (simp_all add: top_mod_def empty_module_def)

definition demo_design :: compiled_design where
  "demo_design = build_design [inv_mod, top_mod, swap_mod]"

lemmas run_defs =
  simulate_def sequential_local_def initial_pass_def run_initial_def schedule_node_def schedule_assign_def
  scalar_event_def push_event_def push_nba_def process_due_events_def run_event_def run_vector_event_def
  run_sequential_def urandom_update_def propagate_parent_to_child_def port_value_def
  comb_iter_def comb_start_def mark_changed_def begin_change_epoch_def prepare_net_drives_def clear_driven_def
  propagate_up_def propagate_child_to_parent_def apply_port_drive_def drive_signal_next_def is_reg_def
  run_comb_local_def run_assign_def apply_net_drives_def apply_nba_def assign_signal_def
  eval_in_def eval_expr_cached_def cache_ready_def bump_token_def eval_kind_def eval_unary_def eval_binary_def
  eval_cache_init_def comb_max_iter_def upd_state_def snapshot_def logic_defs grow_to_def resize_vec_def
  init_state_def init_value_def SIZE_MAX_def Let_def event_fires_def is_posedge_def is_negedge_def
  exec_node_def plain_def exec_nonblocking_assign_def exec_blocking_assign_def flow_active_def

lemmas elab_defs =
  make_child_def new_node_def init_driven_nets_from_assigns_def mark_assigned_def
  fill_bindings_def bind_port_def
  port_ref_def any_named_def named_connections_def connection_bits_def resize_bits_def resize_msb_def
  resize_rhs_def connection_dest_bits_def port_width_def write_bindings_def output_drives_of_def
  make_parent_signal_def make_literal_binding_def rhs_signal_def rhs_literal_def port_binding_default_def
  apply_params_def mark_child_drives_def mark_driven_def is_reg_def SIZE_MAX_def upt_rec Let_def

definition demo_child :: inst_node where
  "demo_child =
     \<lparr>in_mod = Some inv_mod, in_instance_name = ''u1'', in_state = init_state inv_mod,
      in_driven_nets = [False, True], in_bindings = [make_parent_signal 0, port_binding_default],
      in_output_drives = [\<lparr>dr_parent_signal = 1, dr_src_is_literal = False, dr_child_signal = 1,
                            dr_literal = false_state\<rparr>]\<rparr>"

definition demo_top :: inst_node where
  "demo_top =
     \<lparr>in_mod = Some top_mod, in_instance_name = ''top'', in_state = init_state top_mod,
      in_driven_nets = [False, True], in_bindings = [], in_output_drives = []\<rparr>"

lemma make_child_demo: "make_child top_mod inv_mod top_inst = demo_child"
  by (simp add: demo_child_def elab_defs demo_defs)

lemma mark_child_demo: "mark_child_drives top_mod (new_node top_mod ''top'') demo_child = demo_top"
  by (simp add: demo_child_def demo_top_def elab_defs)

lemma elaborate_demo: "elaborate demo_design top_mod = Inst demo_top [Inst demo_child []]"
proof -
  have "in_mod (new_node top_mod ''top'') = Some top_mod" "in_mod demo_child = Some inv_mod"
    "find_module demo_design ''inv'' = Some inv_mod" "id_module_name top_inst = ''inv''"
    by (simp_all add: new_node_def demo_child_def demo_design_def find_module_build_design top_inst_def)
  then show ?thesis
    by (simp add: elaborate_def max_levels_def numeral_eq_Suc make_child_demo mark_child_demo)
qed

subsection \<open>Evaluation by rewriting\<close>

text \<open>
  The rewrite rules that run the scheduler on a concrete tree. The recursive functions that return
  functions are unfolded only when applied, the settling loop at its literal bound, and
  continuations only once the value they wait for is known.
\<close>

lemma bind_weak_cong: "x = y \<Longrightarrow> Option.bind x f = Option.bind y f"
  by simp

lemmas comb_resolve_app = comb_resolve.simps(2) [THEN fun_cong]

lemmas comb_loop_num = comb_loop.simps(2) [of _ _ "pred_numeral k" for k, folded numeral_eq_Suc]

lemmas run_simps = run_defs demo_defs port_binding_default_def make_parent_signal_def comb_resolve_app comb_loop_num

lemma demo_design_wf: "\<forall>m \<in> set [inv_mod, top_mod, swap_mod]. wf_module m"
  by (auto simp: wf_module_def wf_arena_def node_ok_def child_ok_def kind_arity_def wf_stmts_def
    stmt_children_def demo_defs less_Suc_eq swap_mod_def empty_module_def SIZE_MAX_def)

lemma demo_quiet:
  "case simulate_run (elaborate demo_design top_mod) [0] of
     None \<Rightarrow> False
   | Some t \<Rightarrow> (case comb_resolve (depth t) 1 t of
       None \<Rightarrow> False
     | Some (c, t') \<Rightarrow> \<not> c \<and> values_of t' = Rose [false_state, true_state] [Rose [false_state, true_state] []])"
  by (simp add: elaborate_demo demo_top_def demo_child_def)
    (simp add: run_simps cong: bind_weak_cong del: comb_resolve.simps)

subsection \<open>A state and a block\<close>

definition swap_arena :: "stmt_node list" where
  "swap_arena = [nonblocking_stmt 1 1, nonblocking_stmt 2 0, block_stmt [0, 1]]"

definition demo_state :: module_state where
  "demo_state = (init_state swap_mod)\<lparr>st_values := [true_state, false_state, true_state]\<rparr>"

lemma swap_mod_fields [simp]:
  "m_signal_names swap_mod = [''clk'', ''a'', ''b'']"
  "m_expr_nodes swap_mod = [signal_node 1, signal_node 2]"
  by (simp_all add: swap_mod_def empty_module_def)

lemma demo_state_ok: "st_ok swap_mod demo_state"
proof -
  have "wf_module swap_mod" using demo_design_wf by simp
  then have "wf_arena (m_expr_nodes swap_mod)" by (simp add: wf_module_def)
  then show ?thesis by (simp add: st_ok_def demo_state_def init_state_def st_inv_def Let_def)
qed

definition urandom_mod :: compiled_module where
  "urandom_mod = empty_module
     \<lparr>m_vectors := [''$urandom'' \<mapsto> \<lparr>vd_msb = 3, vd_lsb = 0, vd_is_reg = True, vd_is_signed = False, vd_bits = [1, 2, 3, 4]\<rparr>],
      m_signal_names := [''clk'', ''r3'', ''r2'', ''r1'', ''r0''], m_signal_index := [''clk'' \<mapsto> 0]\<rparr>"

definition urandom_state :: module_state where
  "urandom_state = (init_state urandom_mod)
     \<lparr>st_values := [true_state, false_state, true_state, true_state, true_state],
      st_prev_values := [false_state, false_state, true_state, true_state, true_state]\<rparr>"

definition param_mod :: compiled_module where
  "param_mod = empty_module
     \<lparr>m_vectors := [''W'' \<mapsto> \<lparr>vd_msb = 31, vd_lsb = 0, vd_is_reg = False, vd_is_signed = False, vd_bits = [0..<32]\<rparr>],
      m_signal_names := replicate 32 ''W''\<rparr>"


subsection \<open>A builder state\<close>

definition demo_xp :: xp where
  "demo_xp = \<lparr>xp_m = empty_module
     \<lparr>m_signal_names := [''a'', ''b''],
      m_expr_nodes := [signal_node 0, signal_node 1],
      m_expr_intern := [signal_node 0 \<mapsto> 0, signal_node 1 \<mapsto> 1]\<rparr>, xp_errs = []\<rparr>"

lemma demo_xp_fields [simp]:
  "nodes demo_xp = [signal_node 0, signal_node 1]" "xp_errs demo_xp = []"
  "m_signal_is_const (xp_m demo_xp) = []"
  by (simp_all add: demo_xp_def empty_module_def)

lemma signal_node_neq [simp]: "signal_node i = signal_node j \<longleftrightarrow> i = j"
  by (simp add: signal_node_def expr_node_default_def)

lemma demo_xp_ok: "bwf demo_xp" "env_ok (xp_m demo_xp) vs"
  by (auto simp: bwf_def demo_xp_def complete_arena_def less_Suc_eq signal_node_def expr_node_default_def kind_arity_def
      max_expr_nodes_def env_ok_def is_foldable_def empty_module_def split: if_splits)

lemmas builder_simps = add_node_run intern_node_def propagate_const_def is_foldable_def fold_node_def try_get_literal_def
  literal_node_def signal_node_def unary_node_def binary_node_def expr_node_default_def max_expr_nodes_def max_concat_bits_def
  make_is_unknown_def make_or_def make_literal_def make_and_def make_xor_def make_not_def make_mux_def
  any_unknown_root_def resize_to_vector_def value_width_def value_bits_def scalar_value_def vector_value_def
  mask_unknown_def make_vector_def make_vector_with_range_def empty_module_def

text \<open>A two-bit operand and a one-bit operand, both unsigned: under \<open>[1, 0]\<close> they read 2 and 1.\<close>

definition demo_a :: expr_value where
  "demo_a = vector_value [0, 1] 1 0 False"

definition demo_b :: expr_value where
  "demo_b = scalar_value 0 0 0 False"

lemma demo_operands:
  "operand_ok demo_xp demo_a" "operand_ok demo_xp demo_b"
  "\<not> xv_is_signed demo_a" "\<not> xv_is_signed demo_b"
  by (simp_all add: operand_ok_def demo_a_def demo_b_def vector_value_def scalar_value_def value_bits_def)

lemma demo_root_vals:
  "root_vals demo_xp [true_state, false_state] demo_a = map of_bool_state [True, False]"
  "root_vals demo_xp [true_state, false_state] demo_b = map of_bool_state [True]"
  by (simp_all add: root_vals_def demo_a_def demo_b_def vector_value_def scalar_value_def value_bits_def
    deval.simps demo_defs kind_simps)

lemma demo_add: "xp_errs (snd (run_state (arith_add demo_a demo_b) demo_xp)) = []"
  by (simp add: demo_a_def demo_b_def arith_add_def add_sub_def builder_simps demo_xp_def Let_def logic_defs cong: prod.case_cong_weak)

lemma demo_sub: "xp_errs (snd (run_state (arith_sub demo_a demo_b) demo_xp)) = []"
  by (simp add: demo_a_def demo_b_def arith_sub_def add_sub_def builder_simps demo_xp_def Let_def logic_defs cong: prod.case_cong_weak)

subsection \<open>An initial block that inverts a register\<close>

definition flip_block :: initial_block where
  "flip_block = \<lparr>ib_stmt_nodes = [assign_stmt 0 1 0, if_node 0 [], block_stmt [0, 1]], ib_roots = [2]\<rparr>"

definition flip_mod :: compiled_module where
  "flip_mod = empty_module
     \<lparr>m_name := ''flip'', m_signal_names := [''a''], m_signal_is_reg := [True],
      m_expr_nodes := [signal_node 0, unary_node unary_not 0], m_initials := [flip_block]\<rparr>"

text \<open>The instance before its first tick, the register set to 0 (as a port connection can do).\<close>

definition flip_inst :: inst_node where
  "flip_inst = (new_node flip_mod ''flip'')\<lparr>in_state := (init_state flip_mod)\<lparr>st_values := [false_state]\<rparr>\<rparr>"

lemma flip_mod_fields [simp]:
  "m_signal_names flip_mod = [''a'']" "m_initials flip_mod = [flip_block]"
  "m_expr_nodes flip_mod = [signal_node 0, unary_node unary_not 0]" "m_assigns flip_mod = []"
  "m_signal_is_const flip_mod = []" "m_signal_const_value flip_mod = []"
  by (simp_all add: flip_mod_def empty_module_def)

lemma flip_block_fields:
  "ib_roots flip_block = [2]" "length (ib_stmt_nodes flip_block) = 3" "sn_k (ib_stmt_nodes flip_block ! 2) = block" "sn_stmts (ib_stmt_nodes flip_block ! 2) = [0, 1]"
  "sn_k (ib_stmt_nodes flip_block ! 0) = blocking_assign" "sn_delay_ticks (ib_stmt_nodes flip_block ! 0) = 0" "sn_k (ib_stmt_nodes flip_block ! 1) = if_stmt"
  "sn_lhs_signal (ib_stmt_nodes flip_block ! 0) = 0" "sn_expr_root (ib_stmt_nodes flip_block ! 0) = 1"
  by (simp_all add: flip_block_def demo_defs)

lemma flip_result:
  "\<exists>n1. sequential_local 0 False flip_inst = Some n1 \<and> st_values (in_state n1) = [false_state] \<and> st_events (in_state n1) = []"
  by (simp add: flip_inst_def flip_block_def new_node_def init_driven_nets_from_assigns_def sequential_local_def initial_pass_def)
    (simp add: run_simps flip_block_def exec_if_def schedule_node_def schedule_assign_def run_initial_def push_event_def process_due_events_def
      run_event_def scalar_event_def cong: bind_weak_cong del: comb_resolve.simps)

lemma flip_ok: "inode_ok flip_inst" "in_mod flip_inst = Some flip_mod" "\<not> st_initial_ran (in_state flip_inst)"
proof -
  have "wf_module flip_mod"
    by (auto simp: wf_module_def wf_arena_def node_ok_def child_ok_def kind_arity_def wf_stmts_def
      stmt_children_def demo_defs less_Suc_eq flip_mod_def flip_block_def SIZE_MAX_def)
  then show "inode_ok flip_inst"
    by (simp add: inode_ok_def flip_inst_def new_node_def init_driven_nets_from_assigns_def st_ok_def wf_module_def init_state_def st_inv_def Let_def)
  show "in_mod flip_inst = Some flip_mod" "\<not> st_initial_ran (in_state flip_inst)"
    by (simp_all add: flip_inst_def new_node_def init_driven_nets_from_assigns_def init_state_def Let_def)
qed

end
