(* ===== verification/Verilog_Facts.thy ===== *)
theory Verilog_Facts
  imports Digital_Facts Demo
begin

text \<open>
  Verilog designs as devices of a circuit: every call returns and drives the output ports, analog
  output ports are served in turn, which edges are seen, and what a copy forgets.
\<close>

subsection \<open>Output ports\<close>

lemma drive_pins_value:
  assumes "\<forall>r. Some r \<in> set ns \<longrightarrow> valid_node s r" "length ns = length ports"
    and "i < length ports" "drives (ports ! i)" "ns ! i = Some r" "p_signal (ports ! i) < length vs" "\<not> is_analog s r"
    and "\<forall>j. i < j \<and> j < length ports \<and> drives (ports ! j) \<longrightarrow> ns ! j \<noteq> Some r"
  shows "state_of (drive_pins vs ports ns s) r = vs ! p_signal (ports ! i)"
  using assms
proof (induction vs ports ns s arbitrary: i rule: drive_pins.induct)
  case (1 vs p ports n ns s)
  let ?s = "case n of None \<Rightarrow> s | Some r \<Rightarrow> if drives p \<and> p_signal p < length vs \<and> \<not> is_analog s r then write_changed r (vs ! p_signal p) s else s"
  have net: "same_net s ?s" using writes_changed [of _ UNIV s] by (auto simp: writes_def split: option.splits)
  have valid: "\<forall>r. Some r \<in> set ns \<longrightarrow> valid_node ?s r" using 1(2) same_net_nodes(1) [OF net] by auto
  show ?case
  proof (cases i)
    case 0
    have v: "state_of ?s r = vs ! p_signal p" using 1(2-8) 0 by (simp add: state_of_write_changed)
    have w: "writes {r. \<exists>i < length ports. drives (ports ! i) \<and> ns ! i = Some r} ?s (drive_pins vs ports ns ?s)"
      using drive_pins_run [OF valid] 1(3) by simp
    have "ns ! j \<noteq> Some r" if "j < length ports" "drives (ports ! j)" for j
      using spec [OF 1(9), of "Suc j"] that 0 by simp
    then have "r \<notin> {r. \<exists>i < length ports. drives (ports ! i) \<and> ns ! i = Some r}" by blast
    then have "state_of (drive_pins vs ports ns ?s) r = state_of ?s r" using w unfolding writes_def by blast
    then show ?thesis using 0 v by simp
  next
    case (Suc i')
    have later: "\<forall>j. i' < j \<and> j < length ports \<and> drives (ports ! j) \<longrightarrow> ns ! j \<noteq> Some r"
    proof (intro allI impI)
      fix j assume "i' < j \<and> j < length ports \<and> drives (ports ! j)"
      then show "ns ! j \<noteq> Some r" using spec [OF 1(9), of "Suc j"] Suc by simp
    qed
    have "state_of (drive_pins vs ports ns ?s) r = vs ! p_signal (ports ! i')"
      by (rule 1(1) [OF valid _ _ _ _ _ _ later]) (use 1(3-8) Suc same_net_nodes(3) [OF net] in simp_all)
    then show ?thesis using Suc by simp
  qed
qed simp_all

lemma distinct_nodes_at:
  assumes "distinct (nodes_at ps (filter P [0..<n]))" "n \<le> length ps"
    and "i < j" "j < n" "P i" "P j" "ps ! i = Some r"
  shows "ps ! j \<noteq> Some r"
proof
  assume r: "ps ! j = Some r"
  have u: "[0..<n] = [0..<Suc i] @ [Suc i..<n]" using assms(3,4) upt_add_eq_append [of 0 "Suc i" "n - Suc i"] by simp
  have app: "nodes_at ps (xs @ ys) = nodes_at ps xs @ nodes_at ps ys" for xs ys by (simp add: nodes_at_def List.map_filter_def)
  have "r \<in> set (nodes_at ps (filter P [0..<Suc i]))" "r \<in> set (nodes_at ps (filter P [Suc i..<n]))"
    using assms r by (auto simp: mem_nodes_at intro: exI [of _ j])
  moreover have "distinct (nodes_at ps (filter P [0..<Suc i]) @ nodes_at ps (filter P [Suc i..<n]))"
    using assms(1) u app by (metis filter_append)
  ultimately show False by auto
qed

lemma VERILOG_MODULE_digital:
  assumes "wired_ok ps (D_VERILOG_MODULE m) s" "vm_ok m"
  shows "\<exists>m' s'. VERILOG_MODULE_clk ops mth ps m s = Some (m', s', None) \<and> top_mod_of m' = top_mod_of m \<and>
     (\<forall>cm. v_design m \<noteq> None \<longrightarrow> top_mod_of m = Some cm \<longrightarrow>
        length (top_values m') = length (m_signal_names cm) \<and> s' = drive_pins (top_values m') (m_ports cm) ps s)"
proof (cases "v_design m = None \<or> top_mod_of m = None")
  case True
  then show ?thesis by (auto simp: VERILOG_MODULE_clk_def vm_ports_def split: option.splits)
next
  case False
  then obtain cm where cm: "v_design m \<noteq> None" "top_mod_of m = Some cm" by auto
  show ?thesis
  proof (rule VERILOG_MODULE_run [OF assms(2) cm, of ops s ps mth])
    fix t' cursor d
    let ?vs = "st_values (in_state (inst_of t'))"
    let ?s = "drive_pins ?vs (m_ports cm) ps s"
    assume t: "shape t' = shape (top_instance m)" "tree_ok t'" and e: "emit_analog (v_levels m) ?s ?vs (m_ports cm) ps (analog_emit_cursor m) = (cursor, d)"
      and c: "VERILOG_MODULE_clk ops mth ps m s =
       Some (m\<lparr>v_tick := if mth = before_all_clk then v_tick m + 1 else v_tick m, top_instance := t', analog_emit_cursor := cursor\<rparr>, ?s, d)"
    have p: "vm_ports m = m_ports cm" by (simp add: vm_ports_def cm)
    have "writes UNIV s ?s"
      using drive_pins_run [of ps s "m_ports cm" ?vs] assms(1) p by (auto simp: wired_ok_def intro: writes_mono)
    then have "digital_net ?s" using assms(1) same_net_digital by (auto simp: writes_def wired_ok_def)
    then have "find (\<lambda>i. can_emit ?s ?vs (m_ports cm ! i) (ps ! i)) (map (\<lambda>k. (analog_emit_cursor m + k) mod length (m_ports cm)) [0..<length (m_ports cm)]) = None"
      by (auto simp: find_None_iff can_emit_def not_analog split: option.splits)
    then have "d = None" using e by (simp add: emit_analog_def)
    moreover have "length ?vs = length (m_signal_names cm)"
      using t(2) shape_in_mod [OF t(1)] cm by (cases t') (auto simp: inode_ok_def st_ok_def)
    ultimately show ?thesis unfolding c using shape_in_mod [OF t(1)] cm by simp
  qed
qed

text \<open>
  C8: In every state of a digital circuit reached by ticks and attribute settings, evaluating a
  device that embeds a Verilog design built from ordered arenas returns, keeps its module, changes
  and schedules no nodes but those on its output ports, schedules every node it changes, and
  afterwards every connected output port's node carries the value of the port's signal.
\<close>

theorem verilog_device_drives_ports:
  assumes "fresh_circuit c" "enumerates ord" "(sim_step ops pick ord)\<^sup>*\<^sup>* (prepare c) c'"
    and "dmodels c' pos = Some (D_VERILOG_MODULE m)" "v_design m \<noteq> None" "top_mod_of m = Some cm"
  shows "\<exists>m' s'. VERILOG_MODULE_clk ops mth (pins_of c' pos) m (store c') = Some (m', s', None) \<and>
    run_model ops mth pos c' = c'\<lparr>dmodels := (dmodels c')(pos \<mapsto> D_VERILOG_MODULE m'), store := s'\<rparr> \<and> top_mod_of m' = Some cm \<and>
    writes (set (out_nodes (pins_of c' pos) (D_VERILOG_MODULE m))) (store c') s' \<and>
    (\<forall>i r. i < length (m_ports cm) \<and> drives (m_ports cm ! i) \<and> p_signal (m_ports cm ! i) < length (m_signal_names cm) \<and> pins_of c' pos ! i = Some r \<longrightarrow>
       state_of s' r = top_values m' ! p_signal (m_ports cm ! i))"
proof -
  have inv: "circuit_inv c'" using consistent_sim [OF assms(3,1,2)] by (simp add: engine.consistent_def)
  have w: "wired_ok (pins_of c' pos) (D_VERILOG_MODULE m) (store c')" and ok: "dev_ok (pins_of c' pos) (D_VERILOG_MODULE m) (store c')"
    using circuit_invD(3,4) [OF inv assms(4)] .
  have p: "vm_ports m = m_ports cm" by (simp add: vm_ports_def assms(6))
  obtain m' s' where m': "VERILOG_MODULE_clk ops mth (pins_of c' pos) m (store c') = Some (m', s', None)" "top_mod_of m' = Some cm"
      "length (top_values m') = length (m_signal_names cm)" "s' = drive_pins (top_values m') (m_ports cm) (pins_of c' pos) (store c')"
    using VERILOG_MODULE_digital [OF w, of ops mth] ok assms(5,6) by (fastforce simp: dev_ok_def)
  have "writes (set (out_nodes (pins_of c' pos) (D_VERILOG_MODULE m))) (store c') s'"
    using VERILOG_MODULE_ran [OF w ok, of ops "tr_duration c'" mth] m'(1) by (simp add: wrap_def ran_def)
  moreover have "state_of s' r = top_values m' ! p_signal (m_ports cm ! i)"
    if "i < length (m_ports cm) \<and> drives (m_ports cm ! i) \<and> p_signal (m_ports cm ! i) < length (m_signal_names cm) \<and> pins_of c' pos ! i = Some r" for i r
    unfolding m'(4)
  proof (rule drive_pins_value)
    show "\<forall>j. i < j \<and> j < length (m_ports cm) \<and> drives (m_ports cm ! j) \<longrightarrow> pins_of c' pos ! j \<noteq> Some r"
      using distinct_nodes_at [of "pins_of c' pos" "\<lambda>i. drives (m_ports cm ! i)" "length (m_ports cm)" i _ r] w that
      by (simp add: wired_ok_def p)
  qed (use w that m'(3) p not_analog in \<open>auto simp: wired_ok_def\<close>)
  moreover have "run_model ops mth pos c' = c'\<lparr>dmodels := (dmodels c')(pos \<mapsto> D_VERILOG_MODULE m'), store := s'\<rparr>"
    by (simp add: run_model_def assms(4) m'(1) wrap_def)
  ultimately show ?thesis using m'(1,2) by blast
qed

text \<open>The inverter again, with the gate replaced by a Verilog module.\<close>

definition inv_device :: verilog_module where
  "inv_device = make_verilog_module [inv_mod] ''module inv'' ''inv''"

definition verilog_inverter :: digital_circuit where
  "verilog_inverter = new_circuit inverter_net [demo_pos 0 \<mapsto> new_INPUT, demo_pos 1 \<mapsto> D_VERILOG_MODULE inv_device]"

lemma elaborate_flat: "m_instances m = [] \<Longrightarrow> elaborate d m = Inst (new_node m (m_name m)) []"
proof -
  assume i: "m_instances m = []"
  have l: "max_levels = Suc 64" by (simp add: max_levels_def)
  show ?thesis unfolding elaborate_def l elaborate_children.simps(2) by (simp add: i new_node_def init_driven_nets_from_assigns_def)
qed

lemma inv_device_top: "v_design inv_device \<noteq> None" "top_mod_of inv_device = Some inv_mod" "vm_ports inv_device = m_ports inv_mod"
proof -
  have "find_module (build_design [inv_mod]) ''inv'' = Some inv_mod" by (simp add: find_module_build_design)
  then show t: "v_design inv_device \<noteq> None" "top_mod_of inv_device = Some inv_mod"
    by (simp_all add: inv_device_def make_verilog_module_def Let_def elaborate_flat new_node_def init_driven_nets_from_assigns_def)
  show "vm_ports inv_device = m_ports inv_mod" unfolding vm_ports_def t(2) by simp
qed

lemma verilog_inverter_store: "store verilog_inverter = store inverter" "pins_of verilog_inverter = pins_of inverter"
  by (simp_all add: verilog_inverter_def inverter_def new_circuit_def pins_of_def fun_eq_iff)

lemma verilog_inverter_devices:
  "dmodels verilog_inverter pos = Some d \<longleftrightarrow> pos = demo_pos 0 \<and> d = new_INPUT \<or> pos = demo_pos (Suc 0) \<and> d = D_VERILOG_MODULE inv_device"
  by (auto simp: verilog_inverter_def new_circuit_def)

lemma verilog_inverter_fresh: "fresh_circuit verilog_inverter"
  unfolding fresh_circuit_def circuit_ok_def verilog_inverter_store
proof (intro conjI allI impI)
  show "netlist_ok (dnet (store inverter))" using inverter_net_ok by (simp add: inverter_def new_circuit_def)
  show "digital_net (store inverter)" by (rule inverter_digital)
  show "\<not> has_prepare verilog_inverter" by (simp add: verilog_inverter_def new_circuit_def)
  fix pos d assume d: "dmodels verilog_inverter pos = Some d"
  show "is_digital (dnet (store inverter)) pos" using d by (auto simp: verilog_inverter_devices inverter_is_digital)
  show "wired_ok (pins_of inverter pos) d (store inverter)"
    using d inverter_digital inverter_valid
    by (auto simp: verilog_inverter_devices inverter_pins wired_ok_def new_INPUT_def inv_device_top(3) drives_def)
  have "\<forall>m \<in> set [inv_mod]. wf_module m" using demo_design_wf by simp
  then have "D_VERILOG_MODULE inv_device \<in> new_devices" unfolding inv_device_def new_devices_def by blast
  moreover have "new_INPUT \<in> new_devices" by (simp add: new_devices_def)
  ultimately show "configured d" using d by (auto simp: verilog_inverter_devices intro: configured.constructed)
  show "Some Ground \<notin> set (pins_of inverter pos)" using d by (auto simp: verilog_inverter_devices inverter_pins)
next
  fix p q d e assume "p \<noteq> q" "dmodels verilog_inverter p = Some d" "dmodels verilog_inverter q = Some e"
  then show "set (out_nodes (pins_of inverter p) d) \<inter> set (out_nodes (pins_of inverter q) e) = {}"
    by (auto simp: verilog_inverter_devices inverter_pins new_INPUT_def inv_device_top(3) drives_def)
qed

theorem verilog_device_drives_ports_witness:
  "\<exists>m' s'. VERILOG_MODULE_clk demo_f64 before_all_clk [Some (Node 0 0), Some (Node 0 1)] inv_device (store (prepare verilog_inverter)) = Some (m', s', None) \<and>
     state_of s' (Node 0 1) = top_values m' ! 1"
proof -
  have d: "dmodels (prepare verilog_inverter) (demo_pos 1) = Some (D_VERILOG_MODULE inv_device)"
    by (simp add: prepare_def Let_def verilog_inverter_def new_circuit_def)
  have p: "pins_of (prepare verilog_inverter) (demo_pos 1) = [Some (Node 0 0), Some (Node 0 1)]"
    by (simp add: pins_of_prepare verilog_inverter_store inverter_pins)
  obtain m' s' where m': "VERILOG_MODULE_clk demo_f64 before_all_clk [Some (Node 0 0), Some (Node 0 1)] inv_device (store (prepare verilog_inverter)) = Some (m', s', None)"
      "\<forall>i r. i < length (m_ports inv_mod) \<and> drives (m_ports inv_mod ! i) \<and> p_signal (m_ports inv_mod ! i) < length (m_signal_names inv_mod) \<and>
         [Some (Node 0 0), Some (Node 0 1)] ! i = Some r \<longrightarrow> state_of s' r = top_values m' ! p_signal (m_ports inv_mod ! i)"
    using verilog_device_drives_ports [OF verilog_inverter_fresh enumerates_address_order rtranclp.rtrancl_refl d inv_device_top(1,2), of demo_f64 before_all_clk]
    unfolding p by blast
  then have "state_of s' (Node 0 1) = top_values m' ! 1" using spec [OF m'(2), of 1] by (simp add: drives_def)
  then show ?thesis using m'(1) by blast
qed

subsection \<open>Edges\<close>

lemma sample_ports_other:
  "\<forall>j < length ports. p_signal (ports ! j) \<noteq> k \<Longrightarrow> sample_ports ops lv s ports ns vs ! k = vs ! k"
proof (induction ops lv s ports ns vs rule: sample_ports.induct)
  case (1 ops lv s p ports n ns vs)
  have "\<forall>j < length ports. p_signal (ports ! j) \<noteq> k" "p_signal p \<noteq> k" using 1(2) by auto
  then show ?case using 1(1) by (auto split: option.splits)
qed simp_all

lemma sample_ports_value:
  assumes "i < length ports" "i < length ns" "p_dir (ports ! i) \<noteq> dir_output" "ns ! i = Some r" "p_signal (ports ! i) < length vs"
    and "\<forall>j < length ports. j \<noteq> i \<longrightarrow> p_signal (ports ! j) \<noteq> p_signal (ports ! i)"
  shows "sample_ports ops lv s ports ns vs ! p_signal (ports ! i) = read_raw ops lv s r"
  using assms
proof (induction ops lv s ports ns vs arbitrary: i rule: sample_ports.induct)
  case (1 ops lv s p ports n ns vs)
  show ?case
  proof (cases i)
    case 0
    have "\<forall>j < length ports. p_signal (ports ! j) \<noteq> p_signal p" using 1(7) 0 by auto
    moreover have "p_dir p = dir_input \<or> p_dir p = dir_inout \<or> p_dir p = dir_unknown" using 1(4) 0 by (cases "p_dir p") auto
    ultimately show ?thesis using 1(5,6) 0 by (simp add: sample_ports_other)
  next
    case (Suc i')
    have "\<forall>j < length ports. j \<noteq> i' \<longrightarrow> p_signal (ports ! j) \<noteq> p_signal (ports ! i')" using 1(7) Suc by auto
    then show ?thesis using 1(1) [of i'] 1(2-6) Suc by (auto split: option.splits)
  qed
qed simp_all

lemma run_ffs_idle: "\<forall>ff \<in> set ffs. \<forall>ev \<in> set (ff_events ff). \<not> event_fires st ev \<Longrightarrow> run_ffs m tick ffs st = Some st"
  by (induction ffs) (auto simp: list_ex_iff)

lemma no_edge_without_change: "st_prev_values st ! se_signal ev = st_values st ! se_signal ev \<Longrightarrow> \<not> event_fires st ev"
  by (cases "normalize_z_to_x (st_values st ! se_signal ev)") (auto simp: event_fires_def Let_def is_posedge_def is_negedge_def split: sensitivity_kind.splits)

text \<open>An input port that is connected to a node and shares its signal with no other port.\<close>

definition connected_input :: "compiled_module \<Rightarrow> node_ref option list \<Rightarrow> nat \<Rightarrow> node_ref \<Rightarrow> bool" where
  "connected_input cm ns i r \<longleftrightarrow>
     i < length (m_ports cm) \<and> i < length ns \<and> p_dir (m_ports cm ! i) \<noteq> dir_output \<and> ns ! i = Some r \<and>
     p_signal (m_ports cm ! i) < length (m_signal_names cm) \<and>
     (\<forall>j < length (m_ports cm). j \<noteq> i \<longrightarrow> p_signal (m_ports cm ! j) \<noteq> p_signal (m_ports cm ! i))"

text \<open>When nothing falls due and no event fires, the tick of a module without submodules runs no block.\<close>

lemma simulate_idle:
  assumes n: "in_mod n = Some cm" "st_mod (in_state n) = Some cm" "st_initial_ran (in_state n)" "m_vectors cm ''$urandom'' = None"
    and due: "\<forall>e \<in> set (st_events (in_state n)). tick < ev_due_tick e"
    and idle: "\<forall>ff \<in> set (m_always_ffs cm). \<forall>ev \<in> set (ff_events ff). \<not> event_fires (in_state n) ev"
  shows "simulate (Inst n []) tick True = simulate (Inst n []) tick False"
proof -
  let ?st = "(in_state n)\<lparr>st_nba_queue := []\<rparr>"
  have "filter (\<lambda>e. ev_due_tick e \<le> tick) (st_events ?st) = []" "filter (\<lambda>e. tick < ev_due_tick e) (st_events ?st) = st_events ?st"
    using due by (auto simp: filter_empty_conv filter_id_conv)
  then have "process_due_events ?st tick = ?st" using n(2) process_due_events_fold [of ?st cm tick] by simp
  moreover have "run_ffs cm tick (m_always_ffs cm) ?st = Some ?st"
    using idle by (intro run_ffs_idle) (simp add: event_fires_def)
  ultimately have "sequential_local tick True n = sequential_local tick False n"
    using n by (simp add: sequential_local_def initial_pass_def run_sequential_def urandom_update_def)
  then show ?thesis by (simp add: simulate_def)
qed

text \<open>
  C27: A call while nodes settle simulates without edge-triggered blocks but still takes the
  snapshot edges are compared with. Take a module without submodules and without the random bus,
  whose initial blocks have run, no delayed assignment of which is due at the next tick, and every
  edge-triggered block of which is sensitive to connected input ports only. If after such a call
  each of these ports has at the tick the level the call has left in the module, the tick does
  exactly what one more settling call would do: no edge-triggered block runs, although the level
  may have been new in the settling call.
\<close>

theorem clock_edge_lost:
  assumes "vm_ok m" "v_design m \<noteq> None" "top_mod_of m = Some cm"
    and call: "VERILOG_MODULE_clk ops update_table ns m s = Some (m1, s1, d)"
    and alone: "children (top_instance m1) = []" "m_vectors cm ''$urandom'' = None"
    and ran: "st_initial_ran (in_state (inst_of (top_instance m1)))"
    and due: "\<forall>e \<in> set (st_events (in_state (inst_of (top_instance m1)))). v_tick m1 + 1 < ev_due_tick e"
    and seen: "\<forall>ff \<in> set (m_always_ffs cm). \<forall>ev \<in> set (ff_events ff). \<exists>i r.
      connected_input cm ns i r \<and> se_signal ev = p_signal (m_ports cm ! i) \<and> top_values m1 ! se_signal ev = read_raw ops (v_levels m) s2 r"
  shows "VERILOG_MODULE_clk ops before_all_clk ns m1 s2 = VERILOG_MODULE_clk ops update_table ns (m1\<lparr>v_tick := v_tick m1 + 1\<rparr>) s2"
proof -
  obtain t' cursor where m1: "m1 = m\<lparr>top_instance := t', analog_emit_cursor := cursor\<rparr>" "tree_ok t'" "tree_all quiescent t'" "shape t' = shape (top_instance m)"
    by (rule VERILOG_MODULE_run [OF assms(1-3), of ops s ns update_table]) (use call in auto)
  obtain n where t: "t' = Inst n []" using alone(1) m1(1) by (cases t') simp
  have top: "in_mod n = Some cm" using shape_in_mod [OF m1(4)] assms(3) by (simp add: t)
  then have q: "quiescent n" "st_ok cm (in_state n)" using m1(2,3) t by (auto simp: inode_ok_def)
  let ?st = "(in_state n)\<lparr>st_values := sample_ports ops (v_levels m) s2 (m_ports cm) ns (st_values (in_state n))\<rparr>"
  have len: "length (st_values (in_state n)) = length (m_signal_names cm)" using q(2) by (simp add: st_ok_def)
  have "\<not> event_fires ?st ev" if ev: "ff \<in> set (m_always_ffs cm)" "ev \<in> set (ff_events ff)" for ff ev
  proof -
    obtain i r where i: "connected_input cm ns i r" "se_signal ev = p_signal (m_ports cm ! i)" "st_values (in_state n) ! se_signal ev = read_raw ops (v_levels m) s2 r"
      using seen ev by (fastforce simp: m1(1) t)
    then have "st_values ?st ! se_signal ev = st_values (in_state n) ! se_signal ev"
      using sample_ports_value [of i "m_ports cm" ns r "st_values (in_state n)" ops "v_levels m" s2] len by (simp add: connected_input_def)
    moreover have "st_prev_values ?st = st_values (in_state n)" using q(1) by (simp add: quiescent_def Let_def)
    ultimately show ?thesis using no_edge_without_change [of ?st ev] by simp
  qed
  then have "simulate (Inst (n\<lparr>in_state := ?st\<rparr>) []) (v_tick m1 + 1) True = simulate (Inst (n\<lparr>in_state := ?st\<rparr>) []) (v_tick m1 + 1) False"
    using top q(2) ran due alone(2) by (intro simulate_idle [of _ cm]) (simp_all add: m1(1) t st_ok_def)
  moreover obtain y where "v_design m = Some y" using assms(2) by blast
  ultimately show ?thesis by (simp add: VERILOG_MODULE_clk_def m1(1) t top set_top_values_def upd_state_def Let_def)
qed

text \<open>A module that swaps two registers when its clock rises; the clock was low and goes high while nodes settle.\<close>

definition flop_mod :: compiled_module where
  "flop_mod = swap_mod\<lparr>m_ports := [\<lparr>p_name = ''clk'', p_dir = dir_input, p_signal = 0\<rparr>]\<rparr>"

definition flop_low :: verilog_module where
  "flop_low = new_VERILOG_MODULE
     \<lparr>v_design := Some (build_design [flop_mod]),
      top_instance := Inst ((new_node flop_mod ''swap'')\<lparr>in_state := (init_state flop_mod)
        \<lparr>st_values := [false_state, false_state, true_state], st_prev_values := [false_state, false_state, true_state],
         st_comb_prev_values := [false_state, false_state, true_state], st_comb_initialized := True, st_initial_ran := True\<rparr>\<rparr>) []\<rparr>"

definition clk_high :: node_store where
  "clk_high = \<lparr>dnet = empty_netlist\<lparr>nl_nodes := [[new_node_t\<lparr>node_info := DN true_state\<rparr>]]\<rparr>, tables = {}\<rparr>"

lemma flop_mod_fields [simp]:
  "m_ports flop_mod = [\<lparr>p_name = ''clk'', p_dir = dir_input, p_signal = 0\<rparr>]" "m_signal_names flop_mod = [''clk'', ''a'', ''b'']"
  "m_vectors flop_mod = Map.empty" "m_expr_nodes flop_mod = [signal_node 1, signal_node 2]" "m_signal_is_reg flop_mod = [False, True, True]"
  "m_assigns flop_mod = []" "m_always_combs flop_mod = []" "m_initials flop_mod = []" "m_instances flop_mod = []"
  "m_always_ffs flop_mod = [\<lparr>ff_events = [\<lparr>se_k = posedge, se_signal = 0\<rparr>],
     ff_stmt_nodes = [nonblocking_stmt 1 1, nonblocking_stmt 2 0, block_stmt [0, 1]], ff_roots = [2]\<rparr>]"
  by (simp_all add: flop_mod_def swap_mod_def empty_module_def)

lemma flop_wf: "wf_module flop_mod"
  using demo_design_wf by (simp add: wf_module_def flop_mod_def)

lemma flop_top: "v_design flop_low \<noteq> None" "top_mod_of flop_low = Some flop_mod" "vm_ok flop_low" "v_levels flop_low = v_levels new_VERILOG_MODULE"
proof -
  show "v_design flop_low \<noteq> None" "top_mod_of flop_low = Some flop_mod" "v_levels flop_low = v_levels new_VERILOG_MODULE"
    by (simp_all add: flop_low_def new_node_def init_driven_nets_from_assigns_def)
  show "vm_ok flop_low"
    using flop_wf by (simp add: vm_ok_def flop_low_def new_node_def init_driven_nets_from_assigns_def inode_ok_def st_ok_def wf_module_def init_state_def st_inv_def Let_def)
qed

lemma clk_read: "read_raw ops lv clk_high (Node 0 0) = true_state"
  by (simp add: read_raw_def is_analog_def state_of_def deref_def clk_high_def new_node_t_def)

text \<open>The settling call, a further call that runs no edge-triggered block, and the tick that sees the rising clock itself.\<close>

lemma flop_call:
  "\<exists>m1. VERILOG_MODULE_clk demo_f64 update_table [Some (Node 0 0)] flop_low clk_high = Some (m1, clk_high, None) \<and>
     top_values m1 = [true_state, false_state, true_state] \<and> children (top_instance m1) = [] \<and>
     st_initial_ran (in_state (inst_of (top_instance m1))) \<and> st_events (in_state (inst_of (top_instance m1))) = [] \<and>
     (\<exists>m2. VERILOG_MODULE_clk demo_f64 update_table [Some (Node 0 0)] (m1\<lparr>v_tick := v_tick m1 + 1\<rparr>) clk_high = Some (m2, clk_high, None) \<and>
        top_values m2 = [true_state, false_state, true_state])"
  by (simp add: VERILOG_MODULE_clk_def flop_low_def new_VERILOG_MODULE_def clk_read set_top_values_def new_node_def init_driven_nets_from_assigns_def)
    (simp add: run_simps set_top_values_def clk_read emit_analog_def can_emit_def drives_def cong: bind_weak_cong del: comb_resolve.simps)

lemma flop_tick:
  "\<exists>m2. VERILOG_MODULE_clk demo_f64 before_all_clk [Some (Node 0 0)] flop_low clk_high = Some (m2, clk_high, None) \<and> top_values m2 = [true_state, true_state, false_state]"
  by (simp add: VERILOG_MODULE_clk_def flop_low_def new_VERILOG_MODULE_def clk_read set_top_values_def new_node_def init_driven_nets_from_assigns_def)
    (simp add: run_simps clk_read emit_analog_def can_emit_def drives_def cong: bind_weak_cong del: comb_resolve.simps)

theorem clock_edge_lost_witness:
  "(\<exists>m1 m2. VERILOG_MODULE_clk demo_f64 update_table [Some (Node 0 0)] flop_low clk_high = Some (m1, clk_high, None) \<and>
      VERILOG_MODULE_clk demo_f64 before_all_clk [Some (Node 0 0)] m1 clk_high = Some (m2, clk_high, None) \<and> top_values m2 = [true_state, false_state, true_state]) \<and>
   (\<exists>m2. VERILOG_MODULE_clk demo_f64 before_all_clk [Some (Node 0 0)] flop_low clk_high = Some (m2, clk_high, None) \<and> top_values m2 = [true_state, true_state, false_state])"
proof -
  obtain m1 m2 where m1: "VERILOG_MODULE_clk demo_f64 update_table [Some (Node 0 0)] flop_low clk_high = Some (m1, clk_high, None)"
      "top_values m1 = [true_state, false_state, true_state]" "children (top_instance m1) = []"
      "st_initial_ran (in_state (inst_of (top_instance m1)))" "st_events (in_state (inst_of (top_instance m1))) = []"
      "VERILOG_MODULE_clk demo_f64 update_table [Some (Node 0 0)] (m1\<lparr>v_tick := v_tick m1 + 1\<rparr>) clk_high = Some (m2, clk_high, None)"
      "top_values m2 = [true_state, false_state, true_state]"
    using flop_call by blast
  have "connected_input flop_mod [Some (Node 0 0)] 0 (Node 0 0)" by (simp add: connected_input_def)
  then have "VERILOG_MODULE_clk demo_f64 before_all_clk [Some (Node 0 0)] m1 clk_high = VERILOG_MODULE_clk demo_f64 update_table [Some (Node 0 0)] (m1\<lparr>v_tick := v_tick m1 + 1\<rparr>) clk_high"
    by (intro clock_edge_lost [OF flop_top(3,1,2) m1(1,3) _ m1(4)]) (auto simp: m1(2,5) clk_read intro!: exI [of _ 0])
  then show ?thesis using m1(1,6,7) flop_tick by auto
qed

subsection \<open>Analog outputs\<close>

text \<open>The port a call serves comes no later than any other port that can emit, counted from the cursor.\<close>

lemma find_first: "find P xs = Some x \<Longrightarrow> k < length xs \<Longrightarrow> P (xs ! k) \<Longrightarrow> \<exists>j \<le> k. xs ! j = x"
proof (induction xs arbitrary: k)
  case (Cons y ys)
  show ?case
  proof (cases "P y")
    case True
    then show ?thesis using Cons.prems by auto
  next
    case False
    then obtain k' where "k = Suc k'" "find P ys = Some x" "k' < length ys" "P (ys ! k')" using Cons.prems by (cases k) auto
    then obtain j where "j \<le> k'" "ys ! j = x" using Cons.IH by blast
    then show ?thesis using \<open>k = Suc k'\<close> by (intro exI [of _ "Suc j"]) simp
  qed
qed simp

lemma emit_analog_first:
  assumes "k < length ports" "can_emit s vs (ports ! ((cursor + k) mod length ports)) (ns ! ((cursor + k) mod length ports))"
  obtains j i r where "j \<le> k" "i = (cursor + j) mod length ports" "can_emit s vs (ports ! i) (ns ! i)" "ns ! i = Some r"
    "emit_analog lv s vs ports ns cursor = ((cursor + j + 1) mod length ports, Some (drive_voltage lv (vs ! p_signal (ports ! i)), r))"
proof -
  let ?n = "length ports"
  let ?P = "\<lambda>i. can_emit s vs (ports ! i) (ns ! i)"
  let ?xs = "map (\<lambda>k. (cursor + k) mod ?n) [0..<?n]"
  have k: "k < length ?xs" "?P (?xs ! k)" using assms by simp_all
  have "find ?P ?xs \<noteq> None" unfolding find_None_iff using nth_mem [OF k(1)] k(2) by blast
  then obtain i where f: "find ?P ?xs = Some i" by blast
  obtain j where j: "j \<le> k" "?xs ! j = i" using find_first [OF f k] by blast
  then have ji: "i = (cursor + j) mod ?n" using assms(1) by auto
  have "?P i" using f by (auto simp: find_Some_iff)
  moreover from this obtain r where "ns ! i = Some r" by (auto simp: can_emit_def split: option.splits)
  moreover have "(i + 1) mod ?n = (cursor + j + 1) mod ?n" unfolding ji by (metis Suc_eq_plus1 mod_Suc_eq)
  ultimately show thesis using that [OF j(1) ji] f by (simp add: emit_analog_def Let_def)
qed

fun emit_run :: "drive_levels \<Rightarrow> port list \<Rightarrow> node_ref option list \<Rightarrow> (node_store \<times> logic_t list) list \<Rightarrow> nat \<Rightarrow> analog_drive list" where
  "emit_run lv ports ns [] cursor = []"
| "emit_run lv ports ns ((s, vs) # calls) cursor =
     (case emit_analog lv s vs ports ns cursor of (cursor', d) \<Rightarrow> d # emit_run lv ports ns calls cursor')"

lemma emit_run_serves:
  assumes "\<forall>(s, vs) \<in> set calls. can_emit s vs (ports ! ((cursor + k) mod length ports)) (ns ! ((cursor + k) mod length ports))"
    and "k < length calls" "k < length ports" "ns ! ((cursor + k) mod length ports) = Some r"
  shows "\<exists>j \<le> k. \<exists>v. emit_run lv ports ns calls cursor ! j = Some (v, r) \<and> v = drive_voltage lv (snd (calls ! j) ! p_signal (ports ! ((cursor + k) mod length ports)))"
  using assms
proof (induction k arbitrary: calls cursor rule: less_induct)
  case (less k)
  let ?n = "length ports"
  obtain s vs cs where calls: "calls = (s, vs) # cs" using less.prems(2) by (cases calls) auto
  have "can_emit s vs (ports ! ((cursor + k) mod ?n)) (ns ! ((cursor + k) mod ?n))" using less.prems(1) calls by simp
  then obtain j i q where j: "j \<le> k" "i = (cursor + j) mod ?n" "ns ! i = Some q"
      "emit_analog lv s vs ports ns cursor = ((cursor + j + 1) mod ?n, Some (drive_voltage lv (vs ! p_signal (ports ! i)), q))"
    using emit_analog_first [OF less.prems(3), of s vs cursor ns lv] by metis
  show ?case
  proof (cases "j = k")
    case True
    then show ?thesis using j less.prems(4) calls by (intro exI [of _ 0]) simp
  next
    case False
    let ?k = "k - j - 1"
    have "((cursor + j + 1) mod ?n + ?k) mod ?n = (cursor + j + 1 + ?k) mod ?n" by (rule mod_add_left_eq)
    then have e: "((cursor + j + 1) mod ?n + ?k) mod ?n = (cursor + k) mod ?n" using False j(1) by simp
    have c: "\<forall>(s, vs) \<in> set cs. can_emit s vs (ports ! (((cursor + j + 1) mod ?n + ?k) mod ?n)) (ns ! (((cursor + j + 1) mod ?n + ?k) mod ?n))"
      unfolding e using less.prems(1) calls by simp
    have r: "ns ! (((cursor + j + 1) mod ?n + ?k) mod ?n) = Some r" unfolding e by (rule less.prems(4))
    have "\<exists>i \<le> ?k. \<exists>v. emit_run lv ports ns cs ((cursor + j + 1) mod ?n) ! i = Some (v, r) \<and>
        v = drive_voltage lv (snd (cs ! i) ! p_signal (ports ! (((cursor + j + 1) mod ?n + ?k) mod ?n)))"
      by (rule less.IH [OF _ c _ _ r]) (use less.prems(2,3) False j(1) calls in simp_all)
    then obtain i' v where "i' \<le> ?k" "emit_run lv ports ns cs ((cursor + j + 1) mod ?n) ! i' = Some (v, r)"
        "v = drive_voltage lv (snd (cs ! i') ! p_signal (ports ! ((cursor + k) mod ?n)))" unfolding e by blast
    then show ?thesis using calls j(4) False j(1) by (intro exI [of _ "Suc i'"]) simp
  qed
qed

text \<open>
  Of the output ports on analog nodes one is driven per call, in turn: a port that can be
  driven in every call is driven within as many calls as the module has ports, with the level of
  the value its signal has in that call.
\<close>

theorem analog_ports_served:
  assumes "i < length ports" "cursor < length ports" "length ports \<le> length calls" "ns ! i = Some r"
    and "\<forall>(s, vs) \<in> set calls. can_emit s vs (ports ! i) (ns ! i)"
  shows "\<exists>j < length ports. emit_run lv ports ns calls cursor ! j = Some (drive_voltage lv (snd (calls ! j) ! p_signal (ports ! i)), r)"
proof -
  let ?n = "length ports"
  define k where "k = (i + ?n - cursor) mod ?n"
  have n: "0 < ?n" using assms(1) by linarith
  have "k < ?n" unfolding k_def by (rule mod_less_divisor [OF n])
  moreover have "(cursor + k) mod ?n = i" using assms(1,2) by (simp add: k_def mod_add_right_eq)
  ultimately have k: "k < ?n" "(cursor + k) mod ?n = i" .
  have c: "\<forall>(s, vs) \<in> set calls. can_emit s vs (ports ! ((cursor + k) mod ?n)) (ns ! ((cursor + k) mod ?n))" unfolding k(2) by (rule assms(5))
  have kc: "k < length calls" using k(1) assms(3) by simp
  have r: "ns ! ((cursor + k) mod ?n) = Some r" unfolding k(2) by (rule assms(4))
  obtain j where "j \<le> k" "emit_run lv ports ns calls cursor ! j = Some (drive_voltage lv (snd (calls ! j) ! p_signal (ports ! i)), r)"
    using emit_run_serves [OF c kc k(1) r, of lv] unfolding k(2) by blast
  then show ?thesis using k(1) by (intro exI [of _ j]) simp
qed

text \<open>Two output ports on analog nodes.\<close>

definition two_outputs :: "port list" where
  "two_outputs = [\<lparr>p_name = ''y0'', p_dir = dir_output, p_signal = 0\<rparr>, \<lparr>p_name = ''y1'', p_dir = dir_output, p_signal = 1\<rparr>]"

definition two_analog :: node_store where
  "two_analog = \<lparr>dnet = empty_netlist\<lparr>nl_nodes := [replicate 2 (new_node_t\<lparr>num_of_analog_node := 1\<rparr>)]\<rparr>, tables = {}\<rparr>"

definition two_calls :: "(node_store \<times> logic_t list) list" where
  "two_calls = replicate 2 (two_analog, [true_state, false_state])"

theorem analog_ports_served_witness:
  "\<exists>j < 2. emit_run \<lparr>Ll = 1, Hl = 2\<rparr> two_outputs [Some (Node 0 0), Some (Node 0 1)] two_calls 0 ! j =
     Some (drive_voltage \<lparr>Ll = 1, Hl = 2\<rparr> (snd (two_calls ! j) ! 1), Node 0 1)"
proof -
  have "\<exists>j < length two_outputs. emit_run \<lparr>Ll = 1, Hl = 2\<rparr> two_outputs [Some (Node 0 0), Some (Node 0 1)] two_calls 0 ! j =
     Some (drive_voltage \<lparr>Ll = 1, Hl = 2\<rparr> (snd (two_calls ! j) ! p_signal (two_outputs ! 1)), Node 0 1)"
    by (rule analog_ports_served)
      (simp_all add: two_outputs_def two_calls_def can_emit_def drives_def is_analog_def deref_def two_analog_def numeral_2_eq_2)
  then show ?thesis by (simp add: two_outputs_def numeral_2_eq_2)
qed

subsection \<open>Copies\<close>

lemma copied_instances:
  "tree_all (\<lambda>n. \<not> st_initial_ran (in_state n) \<and> \<not> st_comb_initialized (in_state n)) (deep_copy_instance_state new_module_state t)"
proof (induction t)
  case (Inst n cs)
  then show ?case by (simp add: deep_copy_module_state_def new_module_state_def)
qed

text \<open>
  A copy of a device has the same values and the same tick, but no instance remembers that its
  initial blocks have run, so the next call of the copy runs all of them again.
\<close>

lemma copy_reruns_initial:
  "top_values (copy_verilog_module m) = top_values m \<and> v_tick (copy_verilog_module m) = v_tick m \<and>
   tree_all (\<lambda>n. \<not> st_initial_ran (in_state n) \<and> \<not> st_comb_initialized (in_state n)) (top_instance (copy_verilog_module m))"
proof -
  have "top_instance (copy_verilog_module m) = deep_copy_instance_state new_module_state (top_instance m)"
    by (simp add: copy_verilog_module_def assign_verilog_module_def Let_def new_VERILOG_MODULE_def new_instance_state_def)
  moreover have "v_tick (copy_verilog_module m) = v_tick m" by (simp add: copy_verilog_module_def assign_verilog_module_def Let_def)
  ultimately show ?thesis using copied_instances by (cases "top_instance m") (simp add: deep_copy_module_state_def new_module_state_def)
qed

end
