(* ===== verification/Lexer.thy ===== *)
theory Lexer
  imports Prelude
begin

text \<open>
  The lexer of the Verilog front end (\<^verbatim>\<open>lex\<close> in \<^verbatim>\<open>digital.h\<close>). A pointer into the source is the rest of
  the text; each branch of the loop body consumes a number of characters and pushes at most one token.
\<close>

subsection \<open>Characters\<close>

abbreviation (input) ascii :: "char \<Rightarrow> nat" where
  "ascii \<equiv> of_char"

abbreviation newline :: char where
  "newline \<equiv> CHR 0x0A"

definition is_space :: "char \<Rightarrow> bool" where
  "is_space c \<longleftrightarrow> c = CHR '' '' \<or> c = CHR 0x09 \<or> c = newline \<or> c = CHR 0x0D \<or> c = CHR 0x0C \<or> c = CHR 0x0B"

definition is_digit :: "char \<Rightarrow> bool" where
  "is_digit c \<longleftrightarrow> ascii CHR ''0'' \<le> ascii c \<and> ascii c \<le> ascii CHR ''9''"

definition is_alpha :: "char \<Rightarrow> bool" where
  "is_alpha c \<longleftrightarrow> (ascii CHR ''a'' \<le> ascii c \<and> ascii c \<le> ascii CHR ''z'') \<or> (ascii CHR ''A'' \<le> ascii c \<and> ascii c \<le> ascii CHR ''Z'') \<or> c = CHR ''_''"

definition is_ident_continue :: "char \<Rightarrow> bool" where
  "is_ident_continue c \<longleftrightarrow> is_alpha c \<or> is_digit c \<or> c = CHR ''$''"

subsection \<open>Tokens\<close>

datatype token_kind = tk_eof | tk_identifier | tk_number | tk_symbol

record token =
  tk_kind :: token_kind
  tk_text :: string
  tk_line :: nat
  tk_column :: nat

record compile_error =
  ce_message :: string
  ce_offset :: nat
  ce_line :: nat
  ce_column :: nat

type_synonym source_position = "u32 \<times> u32"

definition bump :: "nat \<times> nat \<Rightarrow> char \<Rightarrow> nat \<times> nat" where
  "bump pos c = (if c = newline then (fst pos + 1, 1) else (fst pos, snd pos + 1))"

definition remap_line_col :: "source_position list option \<Rightarrow> nat \<Rightarrow> nat \<times> nat \<Rightarrow> nat \<times> nat" where
  "remap_line_col smap off pos =
     (case smap of None \<Rightarrow> pos
      | Some sps \<Rightarrow> if length sps \<le> off then pos else (unat (fst (sps ! off)), unat (snd (sps ! off))))"

definition make_tok :: "source_position list option \<Rightarrow> token_kind \<Rightarrow> nat \<Rightarrow> string \<Rightarrow> nat \<times> nat \<Rightarrow> token" where
  "make_tok smap k off txt pos =
     (case remap_line_col smap off pos of (rl, rc) \<Rightarrow> \<lparr>tk_kind = k, tk_text = txt, tk_line = rl, tk_column = rc\<rparr>)"

subsection \<open>The branches of the loop\<close>

text \<open>The length of a block comment after its opening, and of a string after its opening quote, with whether it is closed.\<close>

fun comment_len :: "string \<Rightarrow> nat" where
  "comment_len [] = 0"
| "comment_len [c] = 1"
| "comment_len (c # d # s) = (if c = CHR ''*'' \<and> d = CHR ''/'' then 2 else Suc (comment_len (d # s)))"

fun string_len :: "string \<Rightarrow> bool \<times> nat" where
  "string_len [] = (False, 0)"
| "string_len [c] = (if c = CHR 0x5C then (False, 1) else if c = CHR 0x22 then (True, 1) else (False, 1))"
| "string_len (c # d # s) =
     (if c = CHR 0x5C then apsnd (\<lambda>n. n + 2) (string_len s)
      else if c = CHR 0x22 then (True, 1)
      else apsnd Suc (string_len (d # s)))"

definition is_base :: "char \<Rightarrow> bool" where
  "is_base c \<longleftrightarrow> c \<in> set ''bBoOdDhH''"

definition is_decimal_base :: "char \<Rightarrow> bool" where
  "is_decimal_base c \<longleftrightarrow> c = CHR ''d'' \<or> c = CHR ''D''"

text \<open>The characters of an unsized literal after the apostrophe.\<close>

fun based_len :: "char \<Rightarrow> char \<Rightarrow> string \<Rightarrow> nat" where
  "based_len base prev [] = 0"
| "based_len base prev (nc # s) =
     (if is_alpha nc \<or> is_digit nc \<or> nc = CHR ''_'' \<or> (nc = CHR ''-'' \<and> is_decimal_base base \<and> prev = base)
      then Suc (based_len base nc s) else 0)"

text \<open>The characters of a number after its first digit; \<open>base\<close> is \<open>None\<close> for the zero of the code.\<close>

record number_state =
  after_apos :: bool
  after_base :: bool
  allow_minus :: bool
  num_base :: "char option"
  num_prev :: char

definition number_step :: "char \<Rightarrow> number_state \<Rightarrow> number_state" where
  "number_step nc st =
     (let st1 = (if nc = CHR 0x27 then st\<lparr>after_apos := True, after_base := False, allow_minus := False, num_base := None\<rparr>
                 else if after_apos st \<and> \<not> after_base st
                 then (if nc = CHR ''s'' \<or> nc = CHR ''S'' then st
                       else st\<lparr>num_base := Some nc, after_base := True, allow_minus := is_decimal_base nc\<rparr>)
                 else st)
      in st1\<lparr>num_prev := nc\<rparr>)"

fun number_len :: "number_state \<Rightarrow> string \<Rightarrow> nat" where
  "number_len st [] = 0"
| "number_len st (nc # s) =
     (if is_digit nc \<or> is_alpha nc \<or> nc = CHR 0x27 \<or> nc = CHR ''_'' \<or>
         (nc = CHR ''-'' \<and> allow_minus st \<and> Some (num_prev st) = num_base st)
      then Suc (number_len (number_step nc st) s) else 0)"

text \<open>The symbols of several characters, longest first, in the order of the code.\<close>

definition symbol_len :: "string \<Rightarrow> nat" where
  "symbol_len s =
     (case s of
        c # d # r \<Rightarrow>
          if c = CHR ''='' \<and> d = CHR ''='' \<and> r \<noteq> [] \<and> hd r = CHR ''='' then 3
          else if c = CHR ''!'' \<and> d = CHR ''='' \<and> r \<noteq> [] \<and> hd r = CHR ''='' then 3
          else if c = CHR ''*'' \<and> d = CHR ''*'' then 2
          else if c = CHR ''~'' \<and> (d = CHR ''&'' \<or> d = CHR ''|'' \<or> d = CHR ''^'') then 2
          else if c = CHR ''^'' \<and> d = CHR ''~'' then 2
          else if c = CHR ''='' \<and> d = CHR ''='' then 2
          else if c = CHR ''!'' \<and> d = CHR ''='' then 2
          else if c = CHR ''&'' \<and> d = CHR ''&'' then 2
          else if c = CHR ''|'' \<and> d = CHR ''|'' then 2
          else if (c = CHR ''<'' \<or> c = CHR ''>'') \<and> d = CHR ''='' then 2
          else if c = CHR ''<'' \<and> d = CHR ''<'' then 2
          else if c = CHR ''>'' \<and> d = CHR ''>'' then 2
          else if c = CHR ''+'' \<and> d = CHR '':'' then 2
          else if c = CHR ''-'' \<and> d = CHR '':'' then 2
          else 1
      | _ \<Rightarrow> 1)"

text \<open>An apostrophe followed by a bit, or by a base with an optional sign.\<close>

definition unsized_len :: "string \<Rightarrow> nat option" where
  "unsized_len s =
     (case s of [] \<Rightarrow> None
      | v0 # r \<Rightarrow>
          if v0 \<in> set ''01xXzZ'' then Some 2
          else case (if v0 = CHR ''s'' \<or> v0 = CHR ''S'' then r else s) of
            [] \<Rightarrow> None
          | base # _ \<Rightarrow> if is_base base then Some (Suc (based_len base CHR 0x27 s)) else None)"

text \<open>What an iteration does with the text: skip it, make a token of it, or report an unterminated string.\<close>

datatype lexeme = skipped | lexed token_kind | unterminated

definition next_lexeme :: "char \<Rightarrow> string \<Rightarrow> lexeme \<times> nat" where
  "next_lexeme c s =
     (if is_space c then (skipped, 1)
      else if c = CHR ''/'' \<and> s \<noteq> [] \<and> hd s = CHR ''/'' then (skipped, length (takeWhile (\<lambda>x. x \<noteq> newline) (c # s)))
      else if c = CHR ''/'' \<and> s \<noteq> [] \<and> hd s = CHR ''*'' then (skipped, 2 + comment_len (tl s))
      else if c = CHR 0x22 then (case string_len s of (closed, n) \<Rightarrow> (if closed then lexed tk_symbol else unterminated, Suc n))
      else if is_alpha c \<or> c = CHR ''$'' then (lexed tk_identifier, Suc (length (takeWhile is_ident_continue s)))
      else case (if c = CHR 0x27 then unsized_len s else None) of
        Some n \<Rightarrow> (lexed tk_number, n)
      | None \<Rightarrow>
          if is_digit c
          then (lexed tk_number, Suc (number_len \<lparr>after_apos = False, after_base = False, allow_minus = False, num_base = None, num_prev = c\<rparr> s))
          else (lexed tk_symbol, symbol_len (c # s)))"

subsection \<open>The loop\<close>

record lex_result =
  lx_tokens :: "token list"
  lx_errors :: "compile_error list"

definition emit :: "source_position list option \<Rightarrow> lexeme \<Rightarrow> nat \<Rightarrow> string \<Rightarrow> nat \<times> nat \<Rightarrow> lex_result \<Rightarrow> lex_result" where
  "emit smap k off txt pos out =
     (case k of
        skipped \<Rightarrow> out
      | lexed tk \<Rightarrow> out\<lparr>lx_tokens := lx_tokens out @ [make_tok smap tk off txt pos]\<rparr>
      | unterminated \<Rightarrow>
          (case remap_line_col smap off pos of (rl, rc) \<Rightarrow>
             out\<lparr>lx_errors := lx_errors out @ [\<lparr>ce_message = ''unterminated string literal'', ce_offset = off, ce_line = rl, ce_column = rc\<rparr>],
                 lx_tokens := lx_tokens out @ [make_tok smap tk_symbol off txt pos]\<rparr>))"

lemma symbol_len_pos [simp]: "0 < symbol_len s"
  by (simp add: symbol_len_def split: list.split)

lemma next_lexeme_pos [simp]: "0 < snd (next_lexeme c s)"
  by (auto simp: next_lexeme_def unsized_len_def is_space_def split: prod.splits option.splits list.splits if_splits)

function lex_loop :: "source_position list option \<Rightarrow> string \<Rightarrow> nat \<Rightarrow> nat \<times> nat \<Rightarrow> lex_result \<Rightarrow> lex_result" where
  "lex_loop smap [] off pos out =
     out\<lparr>lx_tokens := lx_tokens out @ [\<lparr>tk_kind = tk_eof, tk_text = [], tk_line = fst pos, tk_column = snd pos\<rparr>]\<rparr>"
| "lex_loop smap (c # s) off pos out =
     (let n = snd (next_lexeme c s); txt = take n (c # s)
      in lex_loop smap (drop n (c # s)) (off + n) (foldl bump pos txt) (emit smap (fst (next_lexeme c s)) off txt pos out))"
  by pat_completeness auto
termination
  by (relation "measure (\<lambda>(smap, s, off, pos, out). length s)") (simp_all add: Let_def)

definition lex :: "source_position list option \<Rightarrow> string \<Rightarrow> lex_result" where
  "lex smap src = lex_loop smap src 0 (1, 1) \<lparr>lx_tokens = [], lx_errors = []\<rparr>"

end
