(* ===== verification/Preprocess.thy ===== *)
theory Preprocess
  imports Lexer
begin

text \<open>
  The preprocessor of the Verilog front end (\<^verbatim>\<open>preprocess\<close> in \<^verbatim>\<open>digital.h\<close>): macros, conditional
  compilation and inclusion, with the source position of every character of the output. Pointers into a line are
  the rest of the line; the include resolver is a parameter.
\<close>

subsection \<open>State\<close>

record macro_def =
  function_like :: bool
  md_params :: "string list"
  md_body :: string

type_synonym macro_table = "string \<rightharpoonup> macro_def"

record if_frame =
  parent_active :: bool
  if_cond :: bool
  if_active :: bool
  seen_else :: bool

record preprocess_state =
  pp_output :: string
  pp_source_map :: "source_position list"
  pp_errors :: "compile_error list"
  pp_macros :: macro_table
  pp_ifs :: "if_frame list"

record preprocess_options =
  include_resolver :: "(string \<Rightarrow> string option) option"
  include_depth_limit :: u32

text \<open>The stack of conditionals has its top first.\<close>

definition current_active :: "preprocess_state \<Rightarrow> bool" where
  "current_active st = (case pp_ifs st of [] \<Rightarrow> True | fr # _ \<Rightarrow> if_active fr)"

definition source_pos :: "nat \<Rightarrow> nat \<Rightarrow> source_position" where
  "source_pos l c = (word_of_nat l, word_of_nat c)"

definition error_at :: "string \<Rightarrow> nat \<Rightarrow> nat \<Rightarrow> compile_error" where
  "error_at msg l c = \<lparr>ce_message = msg, ce_offset = 0, ce_line = l, ce_column = c\<rparr>"

subsection \<open>Scanning helpers\<close>

definition is_inline_space :: "char \<Rightarrow> bool" where
  "is_inline_space c \<longleftrightarrow> is_space c \<and> c \<noteq> newline \<and> c \<noteq> CHR 0x0D"

definition parse_ident :: "string \<Rightarrow> string \<times> string" where
  "parse_ident s =
     (case s of [] \<Rightarrow> ([], [])
      | c # r \<Rightarrow> if is_alpha c \<or> c = CHR ''$'' then (c # takeWhile is_ident_continue r, dropWhile is_ident_continue r) else ([], s))"

definition skip_spaces :: "string \<Rightarrow> string" where
  "skip_spaces s = dropWhile is_inline_space s"

definition trim_spaces :: "string \<Rightarrow> nat \<times> string" where
  "trim_spaces v =
     (length (takeWhile is_inline_space v), rev (dropWhile is_inline_space (rev (dropWhile is_inline_space v))))"

lemma parse_ident_length: "parse_ident s = (i, r) \<Longrightarrow> i \<noteq> [] \<Longrightarrow> length r < length s"
  by (auto simp: parse_ident_def le_imp_less_Suc length_dropWhile_le split: list.splits if_splits)

lemma skip_spaces_length: "length (skip_spaces s) \<le> length s"
  by (simp add: skip_spaces_def length_dropWhile_le)

subsection \<open>Macro definitions and calls\<close>

text \<open>The parameters after the opening parenthesis, and where the scan stops.\<close>

function param_loop :: "string \<Rightarrow> string list \<Rightarrow> bool \<times> string list \<times> string" where
  "param_loop s params =
     (case parse_ident (skip_spaces s) of
        (i, r) \<Rightarrow>
          if i = [] then (False, params, r)
          else (case skip_spaces r of
                  [] \<Rightarrow> (False, params @ [i], [])
                | c # t \<Rightarrow> if c = CHR '','' then param_loop t (params @ [i])
                          else if c = CHR '')'' then (True, params @ [i], t)
                          else (False, params @ [i], c # t)))"
  by pat_completeness auto
termination
proof (relation "measure (\<lambda>(s, params). length s)", goal_cases)
  case (2 s params i r c t)
  have "length r < length (skip_spaces s)" by (rule parse_ident_length [OF 2(1) [symmetric] 2(2)])
  then show ?case using skip_spaces_length [of s] skip_spaces_length [of r] 2(3) by simp
qed simp

declare param_loop.simps [simp del]

definition parse_param_list_after_lparen :: "string \<Rightarrow> bool \<times> string list \<times> string" where
  "parse_param_list_after_lparen s =
     (case s of
        [] \<Rightarrow> (False, [], [])
      | c # r \<Rightarrow>
          if c \<noteq> CHR ''('' then (False, [], s)
          else (case skip_spaces r of
                  d # t \<Rightarrow> if d = CHR '')'' then (True, [], t) else param_loop (d # t) []
                | [] \<Rightarrow> param_loop [] []))"

function substitute_params :: "string \<Rightarrow> string list \<Rightarrow> string list \<Rightarrow> string" where
  "substitute_params [] params args = []"
| "substitute_params (c # s) params args =
     (if is_alpha c \<or> c = CHR ''_'' \<or> c = CHR ''$''
      then (let tok = c # takeWhile is_ident_continue s
            in (case map_of (zip params args) tok of Some a \<Rightarrow> a | None \<Rightarrow> tok) @
               substitute_params (dropWhile is_ident_continue s) params args)
      else c # substitute_params s params args)"
  by pat_completeness auto
termination
  by (relation "measure (\<lambda>(s, params, args). length s)") (auto simp: le_imp_less_Suc length_dropWhile_le)

text \<open>The arguments of a call, each with the column it starts at.\<close>

record args_state =
  arg_begin :: nat
  arg_text :: string
  paren_depth :: nat
  brace_depth :: nat
  bracket_depth :: nat
  in_string :: bool
  saw_comma :: bool
  arg_views :: "(nat \<times> string) list"

definition nested :: "args_state \<Rightarrow> bool" where
  "nested a \<longleftrightarrow> paren_depth a \<noteq> 0 \<or> brace_depth a \<noteq> 0 \<or> bracket_depth a \<noteq> 0"

definition arg_step :: "char \<Rightarrow> args_state \<Rightarrow> args_state" where
  "arg_step c a =
     (let b = a\<lparr>arg_text := arg_text a @ [c]\<rparr>
      in if in_string a then (if c = CHR 0x22 then b\<lparr>in_string := False\<rparr> else b)
         else if c = CHR 0x22 then b\<lparr>in_string := True\<rparr>
         else if c = CHR ''('' then b\<lparr>paren_depth := paren_depth a + 1\<rparr>
         else if c = CHR '')'' then b\<lparr>paren_depth := paren_depth a - 1\<rparr>
         else if c = CHR ''{'' then b\<lparr>brace_depth := brace_depth a + 1\<rparr>
         else if c = CHR ''}'' then b\<lparr>brace_depth := brace_depth a - 1\<rparr>
         else if c = CHR ''['' then b\<lparr>bracket_depth := bracket_depth a + 1\<rparr>
         else if c = CHR '']'' then b\<lparr>bracket_depth := bracket_depth a - 1\<rparr>
         else b)"

definition last_views :: "args_state \<Rightarrow> (nat \<times> string) list" where
  "last_views a =
     (if arg_views a = [] \<and> \<not> saw_comma a \<and> snd (trim_spaces (arg_text a)) = [] then []
      else arg_views a @ [(arg_begin a, arg_text a)])"

fun arg_loop :: "nat \<Rightarrow> string \<Rightarrow> args_state \<Rightarrow> ((nat \<times> string) list \<times> nat \<times> string) option" where
  "arg_loop col [] a = None"
| "arg_loop col (c # s) a =
     (if in_string a \<and> c = CHR 0x5C \<and> s \<noteq> []
      then (case s of d # t \<Rightarrow> arg_loop (col + 2) t (a\<lparr>arg_text := arg_text a @ [c, d]\<rparr>) | [] \<Rightarrow> None)
      else if \<not> in_string a \<and> c = CHR '')'' \<and> \<not> nested a then Some (last_views a, col + 1, s)
      else if \<not> in_string a \<and> c = CHR '','' \<and> \<not> nested a
      then arg_loop (col + 1) s (a\<lparr>saw_comma := True, arg_views := arg_views a @ [(arg_begin a, arg_text a)], arg_begin := col + 1, arg_text := []\<rparr>)
      else arg_loop (col + 1) s (arg_step c a))"

definition parse_macro_call_args :: "nat \<Rightarrow> string \<Rightarrow> ((nat \<times> string) list \<times> nat \<times> string) option" where
  "parse_macro_call_args col s =
     (case s of
        [] \<Rightarrow> None
      | c # r \<Rightarrow>
          if c \<noteq> CHR ''('' then None
          else arg_loop (col + 1) r
                 \<lparr>arg_begin = col + 1, arg_text = [], paren_depth = 0, brace_depth = 0, bracket_depth = 0,
                  in_string = False, saw_comma = False, arg_views = []\<rparr>)"

subsection \<open>Macro expansion\<close>

record expand_result =
  er_text :: string
  er_map :: "source_position list"

definition append_char :: "char \<Rightarrow> nat \<Rightarrow> nat \<Rightarrow> expand_result \<Rightarrow> expand_result" where
  "append_char ch l c r = r\<lparr>er_text := er_text r @ [ch], er_map := er_map r @ [source_pos l c]\<rparr>"

fun append_passthrough :: "string \<Rightarrow> nat \<Rightarrow> nat \<Rightarrow> expand_result \<Rightarrow> expand_result" where
  "append_passthrough [] l c r = r"
| "append_passthrough (ch # v) l c r = append_passthrough v l (c + 1) (append_char ch l c r)"

definition append_expanded :: "expand_result \<Rightarrow> expand_result \<Rightarrow> expand_result" where
  "append_expanded e r = r\<lparr>er_text := er_text r @ er_text e, er_map := er_map r @ er_map e\<rparr>"

definition no_text :: expand_result where
  "no_text = \<lparr>er_text = [], er_map = []\<rparr>"

text \<open>
  A recursive call of \<^verbatim>\<open>expand_text\<close>: the names under expansion, the line, the column the text begins at,
  the text, and the errors so far.
\<close>

type_synonym expander = "string list \<Rightarrow> nat \<Rightarrow> nat \<Rightarrow> string \<Rightarrow> compile_error list \<Rightarrow> expand_result \<times> compile_error list"

fun expand_args :: "expander \<Rightarrow> string list \<Rightarrow> nat \<Rightarrow> (nat \<times> string) list \<Rightarrow> compile_error list \<Rightarrow> string list \<times> compile_error list" where
  "expand_args self stack l [] errs = ([], errs)"
| "expand_args self stack l ((col, av) # avs) errs =
     (case trim_spaces av of
        (skip, tv) \<Rightarrow>
          (case self stack l (col + skip) tv errs of
             (e, errs1) \<Rightarrow> apfst (\<lambda>args. er_text e # args) (expand_args self stack l avs errs1)))"

text \<open>What a use of a macro is replaced by and where the scan goes on, or the error that is reported.\<close>

definition expand_use ::
  "expander \<Rightarrow> string list \<Rightarrow> nat \<Rightarrow> nat \<Rightarrow> string \<Rightarrow> macro_def \<Rightarrow> nat \<Rightarrow> string \<Rightarrow> compile_error list \<Rightarrow>
   expand_result \<times> nat \<times> string \<times> compile_error list" where
  "expand_use self stack l call_col name md col s errs =
     (if name \<in> set stack then (no_text, col, s, errs @ [error_at ''recursive macro expansion'' l call_col])
      else if function_like md
      then (if s = [] \<or> hd s \<noteq> CHR ''(''
            then (no_text, col, s, errs @ [error_at (''function-like macro requires '' @ [CHR 0x27, CHR ''('', CHR 0x27]) l call_col])
            else (case parse_macro_call_args col s of
                    None \<Rightarrow> (no_text, col, s, errs @ [error_at ''unterminated macro argument list'' l call_col])
                  | Some (views, col', s') \<Rightarrow>
                      (case expand_args self (stack @ [name]) l views errs of
                         (args, errs1) \<Rightarrow>
                           (let errs2 = (if length args \<noteq> length (md_params md)
                                         then errs1 @ [error_at ''macro argument count mismatch'' l call_col] else errs1)
                            in (case self (stack @ [name]) l call_col (substitute_params (md_body md) (md_params md) args) errs2 of
                                  (e, errs3) \<Rightarrow> (e, col', s', errs3))))))
      else (case self (stack @ [name]) l call_col (md_body md) errs of (e, errs1) \<Rightarrow> (e, col, s, errs1)))"

lemma arg_loop_length: "arg_loop col s a = Some (views, col', s') \<Longrightarrow> length s' < length s"
  by (induction col s a rule: arg_loop.induct) (auto split: if_splits list.splits)

lemma expand_use_length:
  "expand_use self stack l cc name md col s errs = (e, col', s', errs') \<Longrightarrow> length s' \<le> length s"
  by (auto simp: expand_use_def parse_macro_call_args_def Let_def dest!: arg_loop_length
      split: if_splits list.splits option.splits prod.splits)

function expand_loop ::
  "expander \<Rightarrow> macro_table \<Rightarrow> string list \<Rightarrow> nat \<Rightarrow> nat \<Rightarrow> string \<Rightarrow> expand_result \<Rightarrow> compile_error list \<Rightarrow> expand_result \<times> compile_error list" where
  "expand_loop self ms stack l col [] r errs = (r, errs)"
| "expand_loop self ms stack l col (c # s) r errs =
     (if c \<noteq> CHR ''`'' then expand_loop self ms stack l (col + 1) s (append_char c l col r) errs
      else (case parse_ident s of
              (name, s') \<Rightarrow>
                if name = [] then expand_loop self ms stack l (col + 1) s (append_char c l col r) errs
                else (case ms name of
                        None \<Rightarrow> expand_loop self ms stack l (col + 1 + length name) s' r (errs @ [error_at ''undefined Verilog macro'' l col])
                      | Some md \<Rightarrow>
                          (case expand_use self stack l col name md (col + 1 + length name) s' errs of
                             (e, col', s'', errs') \<Rightarrow> expand_loop self ms stack l col' s'' (append_expanded e r) errs'))))"
  by pat_completeness auto
termination
proof (relation "measure (\<lambda>(self, ms, stack, l, col, s, r, errs). length s)", goal_cases)
  case (4 self ms stack l col c s r errs name s')
  then show ?case using parse_ident_length [of s name s'] by simp
next
  case (5 self ms stack l col c s r errs name s' md e y col' z s'' errs')
  then have "expand_use self stack l col name md (col + 1 + length name) s' errs = (e, col', s'', errs')" by simp
  then show ?case using parse_ident_length [OF 5(2) [symmetric] 5(3)] expand_use_length by fastforce
qed simp_all

definition max_macro_depth :: nat where
  "max_macro_depth = 32"

text \<open>\<open>expand_text ms n\<close> is the expander at depth \<open>33 - n\<close>.\<close>

primrec expand_text :: "macro_table \<Rightarrow> nat \<Rightarrow> expander" where
  "expand_text ms 0 = (\<lambda>stack l col s errs.
     (append_passthrough s l col no_text, errs @ [error_at ''macro expansion depth exceeded'' l col]))"
| "expand_text ms (Suc n) = (\<lambda>stack l col s errs. expand_loop (expand_text ms n) ms stack l col s no_text errs)"

subsection \<open>Lines\<close>

fun find_string_end :: "string \<Rightarrow> nat" where
  "find_string_end [] = 0"
| "find_string_end [c] = 1"
| "find_string_end (c # d # s) =
     (if c = CHR 0x5C then Suc (Suc (find_string_end s)) else if c = CHR 0x22 then 1 else Suc (find_string_end (d # s)))"

fun find_block_comment_end :: "string \<Rightarrow> nat" where
  "find_block_comment_end [] = 0"
| "find_block_comment_end [c] = 1"
| "find_block_comment_end (c # d # s) =
     (if c = CHR ''*'' \<and> d = CHR ''/'' then 2 else Suc (find_block_comment_end (d # s)))"

definition comment_opens :: "char \<Rightarrow> string \<Rightarrow> char \<Rightarrow> bool" where
  "comment_opens c s d \<longleftrightarrow> c = CHR ''/'' \<and> s \<noteq> [] \<and> hd s = d"

fun next_special :: "string \<Rightarrow> nat" where
  "next_special [] = 0"
| "next_special (c # s) =
     (if c = CHR 0x22 \<or> comment_opens c s CHR ''/'' \<or> comment_opens c s CHR ''*'' then 0 else Suc (next_special s))"

lemma find_block_comment_end_pos [simp]: "0 < find_block_comment_end (c # s)"
  by (cases s) auto

text \<open>The loop of \<^verbatim>\<open>expand_line_with_comments\<close> from column \<open>1 + i\<close> of line \<open>l\<close>, in a block comment when \<open>b\<close>.\<close>

function line_loop ::
  "(nat \<Rightarrow> string \<Rightarrow> compile_error list \<Rightarrow> expand_result \<times> compile_error list) \<Rightarrow> nat \<Rightarrow> nat \<Rightarrow> string \<Rightarrow> bool \<Rightarrow>
   expand_result \<Rightarrow> compile_error list \<Rightarrow> expand_result \<times> bool \<times> compile_error list" where
  "line_loop ex l i [] b r errs = (r, b, errs)"
| "line_loop ex l i (c # s) b r errs =
     (if b
      then (let n = find_block_comment_end (c # s)
            in line_loop ex l (i + n) (drop n (c # s)) (\<not> n < length (c # s)) (append_passthrough (take n (c # s)) l (1 + i) r) errs)
      else if 0 < next_special (c # s)
      then (let j = next_special (c # s)
            in case ex (1 + i) (take j (c # s)) errs of
                 (e, errs') \<Rightarrow> line_loop ex l (i + j) (drop j (c # s)) b (append_expanded e r) errs')
      else if c = CHR 0x22
      then (let n = Suc (find_string_end s)
            in line_loop ex l (i + n) (drop n (c # s)) b (append_passthrough (take n (c # s)) l (1 + i) r) errs)
      else if comment_opens c s CHR ''/'' then (append_passthrough (c # s) l (1 + i) r, b, errs)
      else if comment_opens c s CHR ''*''
      then (let n = Suc (Suc (find_block_comment_end (tl s)))
            in line_loop ex l (i + n) (drop n (c # s)) (b \<or> length (c # s) \<le> n) (append_passthrough (take n (c # s)) l (1 + i) r) errs)
      else line_loop ex l (i + 1) s b (append_char c l (1 + i) r) errs)"
  by pat_completeness auto
termination
  by (relation "measure (\<lambda>(ex, l, i, s, b, r, errs). length s)") (auto simp: Let_def)

definition expand_line_with_comments ::
  "macro_table \<Rightarrow> string \<Rightarrow> nat \<Rightarrow> bool \<Rightarrow> compile_error list \<Rightarrow> expand_result \<times> bool \<times> compile_error list" where
  "expand_line_with_comments ms txt l b errs =
     line_loop (expand_text ms (Suc max_macro_depth) [] l) l 0 txt b no_text errs"

subsection \<open>Directives\<close>

definition do_error :: "string \<Rightarrow> nat \<Rightarrow> nat \<Rightarrow> preprocess_state \<Rightarrow> preprocess_state" where
  "do_error msg l c st = st\<lparr>pp_errors := pp_errors st @ [error_at msg l c]\<rparr>"

definition define_directive :: "nat \<Rightarrow> nat \<Rightarrow> string \<Rightarrow> preprocess_state \<Rightarrow> preprocess_state" where
  "define_directive l col t st =
     (if \<not> current_active st then st
      else (case parse_ident (skip_spaces t) of
              (name, t1) \<Rightarrow>
                if name = [] then do_error ''expected macro name after `define'' l col st
                else if t1 \<noteq> [] \<and> hd t1 = CHR ''(''
                then (case parse_param_list_after_lparen t1 of
                        (ok, params, t2) \<Rightarrow>
                          (let st1 = (if ok then st else do_error ''invalid macro parameter list in `define'' l col st)
                           in st1\<lparr>pp_macros := (pp_macros st1)(name \<mapsto>
                                \<lparr>function_like = True, md_params = (if ok then params else []), md_body = skip_spaces t2\<rparr>)\<rparr>))
                else st\<lparr>pp_macros := (pp_macros st)(name \<mapsto> \<lparr>function_like = False, md_params = [], md_body = skip_spaces t1\<rparr>)\<rparr>))"

definition undef_directive :: "nat \<Rightarrow> nat \<Rightarrow> string \<Rightarrow> preprocess_state \<Rightarrow> preprocess_state" where
  "undef_directive l col t st =
     (if current_active st
      then (let name = fst (parse_ident (skip_spaces t))
            in if name = [] then do_error ''expected macro name after `undef'' l col st
               else st\<lparr>pp_macros := (pp_macros st)(name := None)\<rparr>)
      else st)"

definition ifdef_directive :: "bool \<Rightarrow> string \<Rightarrow> preprocess_state \<Rightarrow> preprocess_state" where
  "ifdef_directive is_ifdef t st =
     (let name = fst (parse_ident (skip_spaces t));
          defined = (if name = [] then False else pp_macros st name \<noteq> None);
          cond = (if is_ifdef then defined else \<not> defined);
          parent = current_active st
      in st\<lparr>pp_ifs := \<lparr>parent_active = parent, if_cond = cond, if_active = (parent \<and> cond), seen_else = False\<rparr> # pp_ifs st\<rparr>)"

definition else_directive :: "nat \<Rightarrow> nat \<Rightarrow> preprocess_state \<Rightarrow> preprocess_state" where
  "else_directive l col st =
     (case pp_ifs st of
        [] \<Rightarrow> do_error ''`else without matching `ifdef/`ifndef'' l col st
      | fr # frs \<Rightarrow>
          if seen_else fr then do_error ''multiple `else in the same conditional block'' l col st
          else st\<lparr>pp_ifs := fr\<lparr>seen_else := True, if_active := (parent_active fr \<and> \<not> if_cond fr)\<rparr> # frs\<rparr>)"

definition endif_directive :: "nat \<Rightarrow> nat \<Rightarrow> preprocess_state \<Rightarrow> preprocess_state" where
  "endif_directive l col st =
     (case pp_ifs st of
        [] \<Rightarrow> do_error ''`endif without matching `ifdef/`ifndef'' l col st
      | fr # frs \<Rightarrow> st\<lparr>pp_ifs := frs\<rparr>)"

text \<open>
  \<open>self\<close> processes an included text; it is \<open>None\<close> at the depth limit. The first component says whether the
  directive leaves an empty line.
\<close>

definition include_directive ::
  "(string \<Rightarrow> string option) option \<Rightarrow> (string \<Rightarrow> preprocess_state \<Rightarrow> preprocess_state) option \<Rightarrow> nat \<Rightarrow> nat \<Rightarrow> string \<Rightarrow>
   preprocess_state \<Rightarrow> bool \<times> preprocess_state" where
  "include_directive resolver self l col t st =
     (if \<not> current_active st then (True, st)
      else (case self of
              None \<Rightarrow> (True, do_error ''`include depth limit exceeded'' l col st)
            | Some go \<Rightarrow>
                (case resolver of
                   None \<Rightarrow> (True, do_error ''`include requires an include_resolver'' l col st)
                 | Some resolve \<Rightarrow>
                     (case skip_spaces t of
                        [] \<Rightarrow> (True, do_error ''expected path after `include'' l col st)
                      | opn # t1 \<Rightarrow>
                          (let close = (if opn = CHR ''<'' then CHR ''>'' else CHR 0x22)
                           in if opn \<noteq> CHR 0x22 \<and> opn \<noteq> CHR ''<''
                              then (True, do_error (''expected `include '' @ [CHR 0x22] @ ''path'' @ [CHR 0x22] @ '' or `include <path>'') l col st)
                              else if close \<notin> set t1 then (True, do_error ''unterminated `include path'' l col st)
                              else (case resolve (takeWhile (\<lambda>x. x \<noteq> close) t1) of
                                      None \<Rightarrow> (True, do_error ''failed to resolve `include'' l col st)
                                    | Some included \<Rightarrow> (False, go included st)))))))"

definition directive ::
  "(string \<Rightarrow> string option) option \<Rightarrow> (string \<Rightarrow> preprocess_state \<Rightarrow> preprocess_state) option \<Rightarrow> nat \<Rightarrow> nat \<Rightarrow> string \<Rightarrow>
   preprocess_state \<Rightarrow> bool \<times> preprocess_state" where
  "directive resolver self l col q st =
     (case parse_ident (dropWhile is_space q) of
        (kw, t) \<Rightarrow>
          if kw = ''define'' then (True, define_directive l col t st)
          else if kw = ''undef'' then (True, undef_directive l col t st)
          else if kw = ''ifdef'' \<or> kw = ''ifndef'' then (True, ifdef_directive (kw = ''ifdef'') t st)
          else if kw = ''else'' then (True, else_directive l col st)
          else if kw = ''endif'' then (True, endif_directive l col st)
          else if kw = ''include'' then include_directive resolver self l col t st
          else if kw = ''timescale'' then (True, st)
          else if kw = ''default_nettype'' then (True, st)
          else (True, do_error ''unsupported Verilog preprocessor directive'' l col st))"

subsection \<open>The text\<close>

definition logical_line :: "string \<Rightarrow> string" where
  "logical_line ln = (if ln \<noteq> [] \<and> last ln = CHR 0x0D then butlast ln else ln)"

definition push_newline :: "nat \<Rightarrow> preprocess_state \<Rightarrow> preprocess_state" where
  "push_newline l st = st\<lparr>pp_output := pp_output st @ [newline], pp_source_map := pp_source_map st @ [source_pos l 1]\<rparr>"

definition push_expanded :: "expand_result \<Rightarrow> preprocess_state \<Rightarrow> preprocess_state" where
  "push_expanded e st = st\<lparr>pp_output := pp_output st @ er_text e, pp_source_map := pp_source_map st @ er_map e\<rparr>"

text \<open>One line; the result has the state of the block comment after it.\<close>

definition process_line ::
  "(string \<Rightarrow> string option) option \<Rightarrow> (string \<Rightarrow> preprocess_state \<Rightarrow> preprocess_state) option \<Rightarrow> nat \<Rightarrow> bool \<Rightarrow> string \<Rightarrow>
   preprocess_state \<Rightarrow> bool \<times> preprocess_state" where
  "process_line resolver self l b ln st =
     (let txt = logical_line ln; q = skip_spaces txt
      in if \<not> b \<and> q \<noteq> [] \<and> hd q = CHR ''`''
         then (case directive resolver self l (length txt - length q + 1) (tl q) st of
                 (emit_newline, st1) \<Rightarrow> (b, if emit_newline then push_newline l st1 else st1))
         else if current_active st
         then (case expand_line_with_comments (pp_macros st) txt l b (pp_errors st) of
                 (e, b', errs) \<Rightarrow> (b', push_newline l (push_expanded e (st\<lparr>pp_errors := errs\<rparr>))))
         else (b, push_newline l st))"

function process_lines ::
  "(string \<Rightarrow> string option) option \<Rightarrow> (string \<Rightarrow> preprocess_state \<Rightarrow> preprocess_state) option \<Rightarrow> nat \<Rightarrow> bool \<Rightarrow> string \<Rightarrow>
   preprocess_state \<Rightarrow> preprocess_state" where
  "process_lines resolver self l b [] st = st"
| "process_lines resolver self l b (c # s) st =
     (let ln = takeWhile (\<lambda>x. x \<noteq> newline) (c # s)
      in case process_line resolver self l b ln st of
           (b', st') \<Rightarrow> process_lines resolver self (l + 1) b' (drop (Suc (length ln)) (c # s)) st')"
  by pat_completeness auto
termination
  by (relation "measure (\<lambda>(resolver, self, l, b, s, st). length s)") auto

text \<open>\<open>process_text resolver n\<close> is the processing of a text at an include depth \<open>n\<close> below the limit.\<close>

primrec process_text :: "(string \<Rightarrow> string option) option \<Rightarrow> nat \<Rightarrow> string \<Rightarrow> preprocess_state \<Rightarrow> preprocess_state" where
  "process_text resolver 0 = process_lines resolver None 1 False"
| "process_text resolver (Suc n) = process_lines resolver (Some (process_text resolver n)) 1 False"

definition new_preprocess_state :: preprocess_state where
  "new_preprocess_state = \<lparr>pp_output = [], pp_source_map = [], pp_errors = [], pp_macros = Map.empty, pp_ifs = []\<rparr>"

definition preprocess :: "preprocess_options \<Rightarrow> string \<Rightarrow> preprocess_state" where
  "preprocess opt src = process_text (include_resolver opt) (unat (include_depth_limit opt)) src new_preprocess_state"

definition default_preprocess_options :: preprocess_options where
  "default_preprocess_options = \<lparr>include_resolver = None, include_depth_limit = 32\<rparr>"

end
