(* ===== verification/Lexer_Props.thy ===== *)
theory Lexer_Props
  imports Lexer
begin

text \<open>
  The lexer cuts the source into pieces, loses none of it, numbers lines and columns correctly, and
  finds the same tokens again in its own output.
\<close>

subsection \<open>Pieces\<close>

function pieces :: "string \<Rightarrow> (lexeme \<times> string) list" where
  "pieces [] = []"
| "pieces (c # s) = (fst (next_lexeme c s), take (snd (next_lexeme c s)) (c # s)) # pieces (drop (snd (next_lexeme c s)) (c # s))"
  by pat_completeness auto
termination
  by (relation "measure length") simp_all

lemma pieces_concat: "concat (map snd (pieces s)) = s"
  by (induction s rule: pieces.induct) simp_all

text \<open>The position the character after a text has: a line per newline, a column per character since the last one.\<close>

definition position_after :: "string \<Rightarrow> nat \<times> nat" where
  "position_after pre = (Suc (count_list pre newline), Suc (length (takeWhile (\<lambda>x. x \<noteq> newline) (rev pre))))"

lemma position_after_Nil [simp]: "position_after [] = (1, 1)"
  by (simp add: position_after_def)

lemma foldl_bump [simp]: "foldl bump (position_after pre) t = position_after (pre @ t)"
proof (induction t arbitrary: pre)
  case (Cons c t)
  have "bump (position_after pre) c = position_after (pre @ [c])" by (simp add: bump_def position_after_def)
  then show ?case using Cons [of "pre @ [c]"] by simp
qed simp

text \<open>The tokens of some pieces that stand after a text, each with the position its own text begins at.\<close>

fun tokens_of :: "source_position list option \<Rightarrow> string \<Rightarrow> (lexeme \<times> string) list \<Rightarrow> token list" where
  "tokens_of smap pre [] = []"
| "tokens_of smap pre ((k, t) # ps) =
     (case k of skipped \<Rightarrow> [] | lexed tk \<Rightarrow> [make_tok smap tk (length pre) t (position_after pre)]
      | unterminated \<Rightarrow> [make_tok smap tk_symbol (length pre) t (position_after pre)]) @ tokens_of smap (pre @ t) ps"

definition eof_at :: "string \<Rightarrow> token" where
  "eof_at pre = \<lparr>tk_kind = tk_eof, tk_text = [], tk_line = fst (position_after pre), tk_column = snd (position_after pre)\<rparr>"

lemma length_take_lexeme [simp]: "length (take n (c # s)) = n \<longleftrightarrow> n \<le> Suc (length s)"
  by auto

lemma comment_len_le: "comment_len s \<le> length s"
  by (induction s rule: comment_len.induct) auto

lemma string_len_le: "snd (string_len s) \<le> length s"
  by (induction s rule: string_len.induct) auto

lemma based_len_le: "based_len b p s \<le> length s"
  by (induction b p s rule: based_len.induct) auto

lemma number_len_le: "number_len st s \<le> length s"
  by (induction st s rule: number_len.induct) auto

lemma symbol_len_le: "symbol_len (c # s) \<le> Suc (length s)"
  by (auto simp: symbol_len_def Suc_le_eq split: list.split)

lemma unsized_len_cases:
  assumes "unsized_len s = Some n"
  obtains (bit) v r where "s = v # r" "v \<in> set ''01xXzZ''" "n = 2"
  | (based) v r base where "s = v # r" "v \<notin> set ''01xXzZ''" "hd (if v = CHR ''s'' \<or> v = CHR ''S'' then r else s) = base"
      "(if v = CHR ''s'' \<or> v = CHR ''S'' then r else s) \<noteq> []" "is_base base" "n = Suc (based_len base CHR 0x27 s)"
proof (cases s)
  case (Cons v r)
  show ?thesis
  proof (cases "v \<in> set ''01xXzZ''")
    case True
    then have "unsized_len s = Some 2" unfolding unsized_len_def Cons list.case by (simp only: if_True)
    then show ?thesis using assms bit [OF Cons True] by simp
  next
    case False
    define t where "t = (if v = CHR ''s'' \<or> v = CHR ''S'' then r else s)"
    have e: "unsized_len s = (case t of [] \<Rightarrow> None | base # _ \<Rightarrow> if is_base base then Some (Suc (based_len base CHR 0x27 s)) else None)"
      unfolding unsized_len_def Cons list.case t_def using False by (simp only: if_False)
    then show ?thesis using assms False Cons based [OF Cons False]
      unfolding t_def [symmetric] by (cases t) (auto split: if_splits)
  qed
qed (use assms in \<open>simp add: unsized_len_def\<close>)

lemma unsized_len_le:
  assumes "unsized_len s = Some n"
  shows "n \<le> Suc (length s)"
  using assms
proof (cases rule: unsized_len_cases)
  case (based v r base)
  then show ?thesis using based_len_le [of base "CHR 0x27" s] by simp
qed simp

lemma next_lexeme_le: "snd (next_lexeme c s) \<le> Suc (length s)"
proof -
  have w: "length (takeWhile P t) \<le> length t" for P and t :: string by (rule length_takeWhile_le)
  have m: "s \<noteq> [] \<Longrightarrow> 2 + comment_len (tl s) \<le> Suc (length s)" using comment_len_le [of "tl s"] by (cases s) auto
  have n: "snd (case (if c = CHR 0x27 then unsized_len s else None) of Some n \<Rightarrow> (lexed tk_number, n)
      | None \<Rightarrow> if is_digit c then (lexed tk_number, Suc (number_len q s)) else (lexed tk_symbol, symbol_len (c # s))) \<le> Suc (length s)" for q
    using unsized_len_le [of s] symbol_len_le [of c s] number_len_le [of q s] by (auto split: option.split)
  show ?thesis
    unfolding next_lexeme_def
    using w [of _ "c # s"] w [of _ s] m n string_len_le [of s] by (simp add: case_prod_beta)
qed

lemma lex_loop_pieces:
  "lx_tokens (lex_loop smap s (length pre) (position_after pre) out) = lx_tokens out @ tokens_of smap pre (pieces s) @ [eof_at (pre @ s)]"
proof (induction s arbitrary: pre out rule: pieces.induct)
  case (2 c s)
  let ?n = "snd (next_lexeme c s)"
  let ?t = "take ?n (c # s)"
  have l: "length pre + ?n = length (pre @ ?t)" using next_lexeme_le [of c s] by simp
  have f: "(pre @ ?t) @ drop ?n (c # s) = pre @ c # s" by (metis append.assoc append_take_drop_id)
  have "lx_tokens (emit smap (fst (next_lexeme c s)) (length pre) ?t (position_after pre) out) @ tokens_of smap (pre @ ?t) (pieces (drop ?n (c # s))) =
      lx_tokens out @ tokens_of smap pre (pieces (c # s))"
    by (simp add: emit_def split: lexeme.split prod.split)
  then show ?case
    unfolding lex_loop.simps(2) Let_def l foldl_bump 2 f by (simp del: pieces.simps)
qed (simp add: eof_at_def)

lemma lex_pieces: "lx_tokens (lex smap src) = tokens_of smap [] (pieces src) @ [eof_at src]"
  using lex_loop_pieces [of smap src "[]"] by (simp add: lex_def)

subsection \<open>What is skipped\<close>

text \<open>The text has no end of a block comment inside.\<close>

fun no_close :: "string \<Rightarrow> bool" where
  "no_close (c # d # s) \<longleftrightarrow> \<not> (c = CHR ''*'' \<and> d = CHR ''/'') \<and> no_close (d # s)"
| "no_close _ \<longleftrightarrow> True"

text \<open>
  A text that may be skipped, given the text after it: a space; a line comment, which goes up to the
  newline or the end; a block comment up to its first end; a block comment with no end, which
  nothing follows.
\<close>

definition blank :: "string \<Rightarrow> string \<Rightarrow> bool" where
  "blank t rest \<longleftrightarrow>
     (\<exists>c. t = [c] \<and> is_space c) \<or>
     (\<exists>u. t = ''//'' @ u \<and> newline \<notin> set u \<and> (rest = [] \<or> hd rest = newline)) \<or>
     (\<exists>u. t = ''/*'' @ u @ ''*/'' \<and> no_close (u @ ''*'')) \<or>
     (\<exists>u. t = ''/*'' @ u \<and> no_close u \<and> rest = [])"

text \<open>
  A text that may be a token, given the text after it: it starts no space and no comment; what starts
  like an identifier is one, and runs as far as it can; only a string the source ends in is unterminated.
\<close>

definition token_piece :: "lexeme \<Rightarrow> string \<Rightarrow> string \<Rightarrow> bool" where
  "token_piece k t rest \<longleftrightarrow>
     \<not> is_space (hd t) \<and> take 2 (t @ rest) \<notin> {''//'', ''/*''} \<and>
     (k = lexed tk_identifier \<longleftrightarrow> is_alpha (hd t) \<or> hd t = CHR ''$'') \<and>
     (k = lexed tk_identifier \<longrightarrow> list_all is_ident_continue (tl t) \<and> (rest = [] \<or> \<not> is_ident_continue (hd rest))) \<and>
     (k = unterminated \<longrightarrow> hd t = CHR 0x22 \<and> rest = [])"

fun pieces_ok :: "(lexeme \<times> string) list \<Rightarrow> bool" where
  "pieces_ok [] \<longleftrightarrow> True"
| "pieces_ok ((k, t) # ps) \<longleftrightarrow>
     t \<noteq> [] \<and> (if k = skipped then blank t (concat (map snd ps)) else token_piece k t (concat (map snd ps))) \<and> pieces_ok ps"

lemma comment_len_cases:
  obtains (closed) u r where "s = u @ ''*/'' @ r" "no_close (u @ ''*'')" "comment_len s = length u + 2"
  | (unclosed) "no_close s" "comment_len s = length s"
proof (induction s arbitrary: thesis rule: comment_len.induct)
  case (3 c d s)
  show ?case
  proof (cases "c = CHR ''*'' \<and> d = CHR ''/''")
    case True
    then show ?thesis using 3(2) [of "[]" s] by simp
  next
    case False
    show ?thesis
    proof (rule 3(1) [OF False])
      fix u r assume u: "d # s = u @ ''*/'' @ r" "no_close (u @ ''*'')" "comment_len (d # s) = length u + 2"
      then have "no_close ((c # u) @ ''*'')" using False by (cases u) auto
      moreover have "comment_len (c # d # s) = length (c # u) + 2" using u(3) False by simp
      ultimately show thesis using 3(2) [of "c # u" r] u(1) by simp
    qed (use 3(3) False in simp)
  qed
qed simp_all

lemma string_len_open: "string_len s = (False, n) \<Longrightarrow> n = length s"
  by (induction s arbitrary: n rule: string_len.induct) (auto split: if_splits simp: apsnd_def map_prod_def split: prod.splits)

lemma blank_line: "newline \<notin> set u \<Longrightarrow> rest = [] \<or> hd rest = newline \<Longrightarrow> blank (''//'' @ u) rest"
  unfolding blank_def by blast

lemma skipped_blank:
  assumes "fst (next_lexeme c s) = skipped"
  shows "blank (take (snd (next_lexeme c s)) (c # s)) (drop (snd (next_lexeme c s)) (c # s))"
proof -
  consider "is_space c" | "c = CHR ''/''" "s \<noteq> []" "hd s = CHR ''/''" "\<not> is_space c" | "c = CHR ''/''" "s \<noteq> []" "hd s = CHR ''*''" "\<not> is_space c"
    using assms by (auto simp: next_lexeme_def split: if_splits prod.splits option.splits)
  then show ?thesis
  proof cases
    case 1
    then show ?thesis by (simp add: next_lexeme_def blank_def)
  next
    case 2
    then obtain r where s: "s = CHR ''/'' # r" by (cases s) auto
    let ?u = "takeWhile (\<lambda>x. x \<noteq> newline) r" and ?v = "dropWhile (\<lambda>x. x \<noteq> newline) r"
    have "take (snd (next_lexeme c s)) (c # s) = ''//'' @ ?u" "drop (snd (next_lexeme c s)) (c # s) = ?v"
      using 2 by (simp_all add: next_lexeme_def s takeWhile_eq_take [symmetric] dropWhile_eq_drop [symmetric])
    moreover have "newline \<notin> set ?u" by (auto dest: set_takeWhileD)
    moreover have "?v = [] \<or> hd ?v = newline" using hd_dropWhile [of "\<lambda>x. x \<noteq> newline" r] by blast
    ultimately show ?thesis using blank_line by simp
  next
    case 3
    then obtain r where s: "s = CHR ''*'' # r" by (cases s) auto
    have n: "snd (next_lexeme c s) = Suc (Suc (comment_len r))" using 3 by (simp add: next_lexeme_def s)
    show ?thesis
    proof (cases r rule: comment_len_cases)
      case (closed u r')
      then have "take (snd (next_lexeme c s)) (c # s) = ''/*'' @ u @ ''*/''" using 3 s n by simp
      then show ?thesis using closed(2) unfolding blank_def by blast
    next
      case unclosed
      then have "take (snd (next_lexeme c s)) (c # s) = ''/*'' @ r" "drop (snd (next_lexeme c s)) (c # s) = []" using 3 s n by simp_all
      then show ?thesis using unclosed(1) unfolding blank_def by blast
    qed
  qed
qed

lemma lexed_token_piece:
  assumes "fst (next_lexeme c s) \<noteq> skipped"
  shows "token_piece (fst (next_lexeme c s)) (take (snd (next_lexeme c s)) (c # s)) (drop (snd (next_lexeme c s)) (c # s))"
proof -
  obtain n where n: "snd (next_lexeme c s) = Suc n" using next_lexeme_pos [of c s] by (metis gr0_implies_Suc)
  have start: "\<not> is_space c" "\<not> (c = CHR ''/'' \<and> s \<noteq> [] \<and> hd s = CHR ''/'')" "\<not> (c = CHR ''/'' \<and> s \<noteq> [] \<and> hd s = CHR ''*'')"
    using assms by (auto simp: next_lexeme_def split: if_splits)
  then have two: "take 2 (c # s) \<notin> {''//'', ''/*''}" by (cases s) auto
  have cls: "is_alpha CHR 0x22 = False" by (simp add: is_alpha_def)
  show ?thesis
  proof (cases "is_alpha c \<or> c = CHR ''$''")
    case True
    then have q: "c \<noteq> CHR 0x22" using cls by auto
    let ?t = "takeWhile is_ident_continue s" and ?r = "dropWhile is_ident_continue s"
    have nl: "next_lexeme c s = (lexed tk_identifier, Suc (length ?t))" using start True q by (simp add: next_lexeme_def)
    have "take (Suc (length ?t)) (c # s) = c # ?t" "drop (Suc (length ?t)) (c # s) = ?r"
      by (simp_all add: takeWhile_eq_take [symmetric] dropWhile_eq_drop [symmetric])
    moreover have "list_all is_ident_continue ?t" by (auto simp: list_all_iff dest: set_takeWhileD)
    moreover have "?r = [] \<or> \<not> is_ident_continue (hd ?r)" using hd_dropWhile [of is_ident_continue s] by blast
    ultimately show ?thesis using two start(1) True unfolding nl token_piece_def by simp
  next
    case False
    then have "fst (next_lexeme c s) \<noteq> lexed tk_identifier"
      using start by (auto simp: next_lexeme_def split: prod.split option.split)
    moreover have "c = CHR 0x22 \<and> drop (Suc n) (c # s) = []" if "fst (next_lexeme c s) = unterminated"
    proof -
      have "c = CHR 0x22" "string_len s = (False, n)"
        using that start False n by (auto simp: next_lexeme_def split: prod.splits option.splits if_splits)
      then show ?thesis using string_len_open by simp
    qed
    ultimately show ?thesis using two start(1) False by (simp add: token_piece_def n)
  qed
qed

lemma pieces_are_ok: "pieces_ok (pieces s)"
proof (induction s rule: pieces.induct)
  case (2 c s)
  have "take (snd (next_lexeme c s)) (c # s) \<noteq> []" by simp
  then show ?case using 2 skipped_blank [of c s] lexed_token_piece [of c s] by (simp add: pieces_concat)
qed simp

lemma pieces_ok_nonempty: "pieces_ok ps \<Longrightarrow> list_all (\<lambda>p. snd p \<noteq> []) ps"
  by (induction ps rule: pieces_ok.induct) simp_all

subsection \<open>Lexing the tokens again\<close>

text \<open>A lexeme does not depend on what follows it once a space does.\<close>

lemma string_len_pos: "0 < snd (string_len (c # s))"
  by (cases s) auto

lemma string_len_again: "string_len s = (True, n) \<Longrightarrow> string_len (take n s @ r) = (True, n)"
proof (induction s arbitrary: n rule: string_len.induct)
  case (3 c d s)
  consider "c = CHR 0x5C" | "c = CHR 0x22" | "c \<noteq> CHR 0x5C" "c \<noteq> CHR 0x22" by blast
  then show ?case
  proof cases
    case 1
    then obtain m where "string_len s = (True, m)" "n = Suc (Suc m)" using 3 by (cases "string_len s") auto
    then show ?thesis using 1 3 by simp
  next
    case 2
    then show ?thesis using 3 by (cases r) auto
  next
    case c: 3
    then obtain m where m: "string_len (d # s) = (True, m)" "n = Suc m" using 3 by (cases "string_len (d # s)") auto
    then have "0 < m" using string_len_pos [of d s] by simp
    then obtain k where "m = Suc k" by (cases m) auto
    then show ?thesis using c m 3 by simp
  qed
next
  case (2 c)
  then show ?case by (cases r) (auto split: if_splits)
qed simp

lemma based_len_again: "based_len b p (take (based_len b p s) s @ CHR '' '' # r) = based_len b p s"
  by (induction b p s rule: based_len.induct) (auto simp: is_alpha_def is_digit_def)

lemma number_len_again: "number_len st (take (number_len st s) s @ CHR '' '' # r) = number_len st s"
  by (induction st s rule: number_len.induct) (auto simp: is_alpha_def is_digit_def)

lemma symbol_len_again: "symbol_len (take (symbol_len (c # s)) (c # s) @ CHR '' '' # r) = symbol_len (c # s)"
proof (cases s)
  case (Cons d u)
  show ?thesis unfolding Cons symbol_len_def by (cases u) auto
qed (simp add: symbol_len_def)

lemma unsized_len_again:
  assumes "unsized_len s = Some (Suc n)"
  shows "unsized_len (take n s @ CHR '' '' # r) = Some (Suc n)"
  using assms
proof (cases rule: unsized_len_cases)
  case (bit v u)
  then have "unsized_len (v # CHR '' '' # r) = Some 2" unfolding unsized_len_def list.case by (simp only: if_True)
  then show ?thesis using bit by simp
next
  case (based v u base)
  have n: "n = based_len base CHR 0x27 s" using based by simp
  have al: "is_alpha base" using based(5) by (auto simp: is_base_def is_alpha_def)
  show ?thesis
  proof (cases "v = CHR ''s'' \<or> v = CHR ''S''")
    case True
    then obtain w where u: "u = base # w" using based(3,4) by (cases u) simp_all
    have "is_alpha v" using True by (auto simp: is_alpha_def)
    then obtain m where m: "n = Suc (Suc m)" using n al based(1) u by simp
    have "unsized_len (v # base # take m w @ CHR '' '' # r) = Some (Suc (based_len base CHR 0x27 (v # base # take m w @ CHR '' '' # r)))"
      unfolding unsized_len_def list.case using based(2,5) True by (simp only: if_False if_True list.case)
    moreover have "take n s = v # base # take m w" using based(1) u m by simp
    ultimately show ?thesis using based_len_again [of base "CHR 0x27" s r, folded n] by (simp only: append_Cons)
  next
    case False
    then have v: "v = base" using based(1,3) by simp
    then obtain m where m: "n = Suc m" using n al based(1) by simp
    have "unsized_len (v # take m u @ CHR '' '' # r) = Some (Suc (based_len base CHR 0x27 (v # take m u @ CHR '' '' # r)))"
      unfolding unsized_len_def list.case using based(2,5) False v by (simp only: if_False if_True list.case)
    moreover have "take n s = v # take m u" using based(1) m by simp
    ultimately show ?thesis using based_len_again [of base "CHR 0x27" s r, folded n] by (simp only: append_Cons)
  qed
qed

text \<open>The lexeme after a character that starts neither a blank nor a string nor an identifier.\<close>

definition number_or_symbol :: "char \<Rightarrow> string \<Rightarrow> lexeme \<times> nat" where
  "number_or_symbol c s =
     (case (if c = CHR 0x27 then unsized_len s else None) of
        Some n \<Rightarrow> (lexed tk_number, n)
      | None \<Rightarrow>
          if is_digit c
          then (lexed tk_number, Suc (number_len \<lparr>after_apos = False, after_base = False, allow_minus = False, num_base = None, num_prev = c\<rparr> s))
          else (lexed tk_symbol, symbol_len (c # s)))"

lemma number_or_symbol_again:
  assumes "number_or_symbol c s = (k, Suc n)"
  shows "number_or_symbol c (take n s @ CHR '' '' # r) = (k, Suc n)"
proof (cases "if c = CHR 0x27 then unsized_len s else None")
  case (Some m)
  then have "c = CHR 0x27" "unsized_len s = Some (Suc n)" using assms by (auto simp: number_or_symbol_def split: if_splits)
  then show ?thesis using unsized_len_again [of s n r] assms by (simp add: number_or_symbol_def)
next
  case None
  show ?thesis
  proof (cases "is_digit c")
    case True
    then have "c \<noteq> CHR 0x27" by (auto simp: is_digit_def)
    then show ?thesis using assms True number_len_again by (auto simp: number_or_symbol_def)
  next
    case False
    then have k: "k = lexed tk_symbol" "symbol_len (c # s) = Suc n" using assms None by (auto simp: number_or_symbol_def)
    have "(if c = CHR 0x27 then unsized_len (take n s @ CHR '' '' # r) else None) = None"
    proof (cases "c = CHR 0x27")
      case True
      then have "n = 0" using k(2) by (simp add: symbol_len_def split: list.splits)
      then show ?thesis by (simp add: unsized_len_def is_base_def)
    qed simp
    then show ?thesis using k False symbol_len_again [of c s r] by (simp add: number_or_symbol_def)
  qed
qed

lemma next_lexeme_again:
  assumes "next_lexeme c s = (lexed k, Suc n)"
  shows "next_lexeme c (take n s @ CHR '' '' # r) = (lexed k, Suc n)"
proof -
  have sp: "\<not> is_space c" using assms by (auto simp: next_lexeme_def)
  have nc: "\<not> (c = CHR ''/'' \<and> take n s @ CHR '' '' # r \<noteq> [] \<and> hd (take n s @ CHR '' '' # r) \<in> {CHR ''/'', CHR ''*''})"
    using assms sp by (cases s; cases n) (auto simp: next_lexeme_def split: if_splits)
  have e: "next_lexeme c t = (if c = CHR 0x22 then (case string_len t of (closed, n) \<Rightarrow> (if closed then lexed tk_symbol else unterminated, Suc n))
      else if is_alpha c \<or> c = CHR ''$'' then (lexed tk_identifier, Suc (length (takeWhile is_ident_continue t)))
      else number_or_symbol c t)" if "\<not> (c = CHR ''/'' \<and> t \<noteq> [] \<and> hd t \<in> {CHR ''/'', CHR ''*''})" for t
    using sp that by (auto simp: next_lexeme_def number_or_symbol_def)
  have s: "\<not> (c = CHR ''/'' \<and> s \<noteq> [] \<and> hd s \<in> {CHR ''/'', CHR ''*''})" using assms sp by (auto simp: next_lexeme_def)
  have al: "is_alpha CHR '' '' = False" "is_ident_continue CHR '' '' = False" by (auto simp: is_ident_continue_def is_alpha_def is_digit_def)
  consider "c = CHR 0x22" | "c \<noteq> CHR 0x22" "is_alpha c \<or> c = CHR ''$''" | "c \<noteq> CHR 0x22" "\<not> (is_alpha c \<or> c = CHR ''$'')" by blast
  then show ?thesis
  proof cases
    case 1
    then have "string_len s = (True, n)" "k = tk_symbol" using assms e [OF s] by (auto split: prod.splits if_splits)
    then show ?thesis using e [OF nc] 1 string_len_again by simp
  next
    case 2
    then have n: "n = length (takeWhile is_ident_continue s)" "k = tk_identifier" using assms e [OF s] by auto
    then have "takeWhile is_ident_continue (take n s @ CHR '' '' # r) = takeWhile is_ident_continue s"
      using al by (simp add: takeWhile_eq_take [symmetric] takeWhile_append takeWhile_idem) 
    then show ?thesis using e [OF nc] 2 n by simp
  next
    case 3
    then show ?thesis using e [OF s] e [OF nc] assms number_or_symbol_again [of c s "lexed k" n r] by simp
  qed
qed

text \<open>What the parser reads of a token, and the text of some tokens with a space after each.\<close>

abbreviation token_key :: "token \<Rightarrow> token_kind \<times> string" where
  "token_key t \<equiv> (tk_kind t, tk_text t)"

definition spaced :: "string list \<Rightarrow> string" where
  "spaced ts = concat (map (\<lambda>t. t @ '' '') ts)"

fun piece_keys :: "(lexeme \<times> string) list \<Rightarrow> (token_kind \<times> string) list" where
  "piece_keys [] = []"
| "piece_keys ((k, t) # ps) = (case k of skipped \<Rightarrow> [] | lexed tk \<Rightarrow> [(tk, t)] | unterminated \<Rightarrow> [(tk_symbol, t)]) @ piece_keys ps"

lemma tokens_of_keys: "map token_key (tokens_of smap pre ps) = piece_keys ps"
  by (induction smap pre ps rule: tokens_of.induct) (auto simp: make_tok_def split: lexeme.split prod.split)

lemma lex_keys: "map token_key (lx_tokens (lex smap src)) = piece_keys (pieces src) @ [(tk_eof, [])]"
  by (simp add: lex_pieces tokens_of_keys eof_at_def)

lemma lex_loop_errors:
  "lx_errors (lex_loop smap s off pos out) = [] \<longleftrightarrow> lx_errors out = [] \<and> unterminated \<notin> fst ` set (pieces s)"
proof (induction smap s off pos out rule: lex_loop.induct)
  case (2 smap c s off pos out)
  then show ?case by (auto simp: Let_def emit_def split: lexeme.splits prod.splits)
qed simp

lemma piece_again:
  assumes "(lexed k, t) \<in> set (pieces s)"
  shows "t \<noteq> [] \<and> next_lexeme (hd t) (tl t @ CHR '' '' # r) = (lexed k, length t)"
  using assms
proof (induction s rule: pieces.induct)
  case (2 c s)
  obtain x n where e: "next_lexeme c s = (x, Suc n)" using next_lexeme_pos [of c s] by (metis gr0_implies_Suc prod.collapse)
  show ?case
  proof (cases "(lexed k, t) \<in> set (pieces (drop (Suc n) (c # s)))")
    case False
    then have t: "x = lexed k" "t = c # take n s" using 2(2) e by auto
    then have "length t = Suc n" using next_lexeme_le [of c s] e by simp
    then show ?thesis using next_lexeme_again [of c s k n r] e t by simp
  qed (use 2 e in simp)
qed simp

lemma pieces_step:
  assumes "t \<noteq> []" "next_lexeme (hd t) (tl t @ CHR '' '' # r) = (lexed k, length t)"
  shows "pieces (t @ CHR '' '' # r) = (lexed k, t) # (skipped, '' '') # pieces r"
proof -
  obtain c u where t: "t = c # u" using assms(1) by (cases t) auto
  have "next_lexeme CHR '' '' r = (skipped, 1)" by (simp add: next_lexeme_def is_space_def)
  then show ?thesis using assms(2) t by simp
qed

lemma piece_keys_spaced:
  assumes "unterminated \<notin> fst ` set ps" "\<And>k t r. (lexed k, t) \<in> set ps \<Longrightarrow> t \<noteq> [] \<and> next_lexeme (hd t) (tl t @ CHR '' '' # r) = (lexed k, length t)"
  shows "piece_keys (pieces (spaced (map snd (piece_keys ps)) @ r)) = piece_keys ps @ piece_keys (pieces r)"
  using assms
proof (induction ps rule: piece_keys.induct)
  case (2 k t ps)
  have IH: "piece_keys (pieces (spaced (map snd (piece_keys ps)) @ r)) = piece_keys ps @ piece_keys (pieces r)"
  proof (rule 2(1))
    show "unterminated \<notin> fst ` set ps" using 2(2) by simp
  qed (rule 2(3), simp)
  show ?case
  proof (cases k)
    case (lexed tk)
    then show ?thesis using IH 2(3) [of tk t] pieces_step [of t "spaced (map snd (piece_keys ps)) @ r" tk] by (simp add: spaced_def)
  qed (use IH 2(2) in \<open>auto simp: spaced_def\<close>)
qed (simp add: spaced_def)

lemma eof_text_blank: "piece_keys (pieces '' '') = []"
  by (simp add: next_lexeme_def is_space_def)

subsection \<open>Properties\<close>

text \<open>
  C28: The lexer loses nothing: every source is the concatenation of non-empty pieces, each
  skipped or a token. A skipped piece is a space, a line comment up to the newline or the end of
  the source, a block comment that ends at the first */ after its opening, or a block comment
  without */ that the source ends in; a token starts no space and no comment, the identifiers are
  exactly the tokens that start with a letter, an underscore or a dollar sign and run as far as
  they can, and only a string the source ends in is unterminated. The tokens of the result are
  exactly the token pieces, in order, each with the line and column its first character has in the
  source (or the one the source map gives for it), followed by one end-of-file token.
\<close>

theorem lex_partitions_source:
  "\<exists>ps. concat (map snd ps) = src \<and> pieces_ok ps \<and> lx_tokens (lex smap src) = tokens_of smap [] ps @ [eof_at src]"
proof (intro exI conjI)
  show "concat (map snd (pieces src)) = src" by (rule pieces_concat)
  show "pieces_ok (pieces src)" by (rule pieces_are_ok)
  show "lx_tokens (lex smap src) = tokens_of smap [] (pieces src) @ [eof_at src]" by (rule lex_pieces)
qed

text \<open>
  C29: If the source has no unterminated string, writing the texts of its tokens with a space
  after each and lexing that again gives the same kinds and texts: no two tokens merge, none is
  cut, and a token does not depend on what follows it.
\<close>

theorem relexing_finds_same_tokens:
  assumes "lx_errors (lex smap src) = []"
  shows "map token_key (lx_tokens (lex None (spaced (map tk_text (lx_tokens (lex smap src)))))) = map token_key (lx_tokens (lex smap src))"
proof -
  have t: "map tk_text (lx_tokens (lex smap src)) = map snd (piece_keys (pieces src)) @ [[]]"
    using arg_cong [OF lex_keys [of smap src], of "map snd"] by (simp add: comp_def)
  have e: "spaced (map tk_text (lx_tokens (lex smap src))) = spaced (map snd (piece_keys (pieces src))) @ '' ''"
    unfolding t by (simp add: spaced_def)
  have "unterminated \<notin> fst ` set (pieces src)" using assms by (simp add: lex_def lex_loop_errors)
  then have "piece_keys (pieces (spaced (map snd (piece_keys (pieces src))) @ '' '')) = piece_keys (pieces src)"
    using piece_keys_spaced [of "pieces src" "'' ''"] piece_again eof_text_blank by simp
  then show ?thesis unfolding lex_keys e by simp
qed

theorem relexing_finds_same_tokens_witness:
  "map tk_text (lx_tokens (lex None ''a<=8'')) = [''a'', ''<='', ''8'', []] \<and>
   map token_key (lx_tokens (lex None ''a <= 8  '')) = map token_key (lx_tokens (lex None ''a<=8''))"
proof -
  have s: "lx_errors (lex None ''a<=8'') = []" "map tk_text (lx_tokens (lex None ''a<=8'')) = [''a'', ''<='', ''8'', []]"
    by (code_simp, code_simp)
  show ?thesis using relexing_finds_same_tokens [OF s(1)] s(2) by (simp add: spaced_def)
qed

end
