(* ===== verification/Preprocess_Props.thy ===== *)
theory Preprocess_Props
  imports Preprocess Lexer_Props
begin

text \<open>
  What the preprocessor keeps of its input: a source position for every character of the output, the
  numbers of the lines, text without directives, and the selected branches of conditionals.
\<close>

subsection \<open>Scanners stay inside their text\<close>

lemma set_parse_ident: "parse_ident s = (i, r) \<Longrightarrow> set i \<subseteq> set s \<and> set r \<subseteq> set s"
  by (auto simp: parse_ident_def split: list.splits if_splits dest: set_takeWhileD set_dropWhileD)

lemma set_skip_spaces: "set (skip_spaces s) \<subseteq> set s"
  by (auto simp: skip_spaces_def dest: set_dropWhileD)

lemma set_trim_spaces: "set (snd (trim_spaces v)) \<subseteq> set v"
  by (auto simp: trim_spaces_def dest!: set_dropWhileD)

lemma set_param_loop: "param_loop s ps = (ok, ps', r) \<Longrightarrow> set r \<subseteq> set s"
proof (induction s ps arbitrary: ok ps' r rule: param_loop.induct)
  case (1 s ps)
  obtain i u where p: "parse_ident (skip_spaces s) = (i, u)" by fastforce
  have u: "set u \<subseteq> set s" using set_parse_ident [OF p] set_skip_spaces [of s] by blast
  show ?case
  proof (cases "i = [] \<or> skip_spaces u = []")
    case True
    then show ?thesis using 1(2) p u by (auto simp: param_loop.simps [of s] split: if_splits)
  next
    case False
    then obtain c t where t: "skip_spaces u = c # t" by (cases "skip_spaces u") auto
    have "set r \<subseteq> set (c # t)"
    proof (cases "c = CHR '',''")
      case True
      then have "set r \<subseteq> set t" using 1 p t False by (simp add: param_loop.simps [of s])
      then show ?thesis by auto
    next
      case c: False
      then have "r = t \<or> r = c # t" using 1(2) p t False by (auto simp: param_loop.simps [of s] split: if_splits)
      then show ?thesis by auto
    qed
    then show ?thesis using u set_skip_spaces [of u] t by auto
  qed
qed

lemma set_parse_param_list: "parse_param_list_after_lparen s = (ok, ps, r) \<Longrightarrow> set r \<subseteq> set s"
proof (cases s)
  case (Cons c u)
  assume *: "parse_param_list_after_lparen s = (ok, ps, r)"
  have "set r \<subseteq> set s \<or> set r \<subseteq> set (skip_spaces u)"
    using * Cons by (auto simp: parse_param_list_after_lparen_def split: if_splits list.splits dest!: set_param_loop)
  then show ?thesis using Cons set_skip_spaces [of u] by auto
qed (simp add: parse_param_list_after_lparen_def)

lemma set_substitute_params: "set (substitute_params s ps as) \<subseteq> set s \<union> \<Union> (set ` set as)"
proof (induction s ps as rule: substitute_params.induct)
  case (2 c s ps as)
  have "map_of (zip ps as) tok = Some a \<Longrightarrow> a \<in> set as" for tok a by (meson map_of_SomeD set_zip_rightD)
  then have r: "set (case map_of (zip ps as) (c # takeWhile is_ident_continue s) of Some a \<Rightarrow> a | None \<Rightarrow> c # takeWhile is_ident_continue s)
      \<subseteq> set (c # takeWhile is_ident_continue s) \<union> \<Union> (set ` set as)" by (cases "map_of (zip ps as) (c # takeWhile is_ident_continue s)") (simp_all add: UN_upper subset_eq, blast)
  have t: "set (takeWhile is_ident_continue s) \<subseteq> set s" "set (dropWhile is_ident_continue s) \<subseteq> set s"
    by (auto dest: set_takeWhileD set_dropWhileD)
  show ?case
  proof (cases "is_alpha c \<or> c = CHR ''_'' \<or> c = CHR ''$''")
    case True
    then show ?thesis using 2(1) [OF True refl] r t unfolding substitute_params.simps Let_def by (simp only: if_True set_append list.set) blast
  next
    case False
    then show ?thesis using 2(2) by auto
  qed
qed simp

lemma arg_text_step: "arg_text (arg_step c a) = arg_text a @ [c]" "arg_views (arg_step c a) = arg_views a"
  by (simp_all add: arg_step_def Let_def)

lemma set_arg_loop:
  assumes "arg_loop col s a = Some (vs, col', r)" "set s \<subseteq> A" "set (arg_text a) \<subseteq> A" "\<forall>v \<in> set (arg_views a). set (snd v) \<subseteq> A"
  shows "(\<forall>v \<in> set vs. set (snd v) \<subseteq> A) \<and> set r \<subseteq> A"
  using assms
proof (induction col s a rule: arg_loop.induct)
  case (2 col c s a)
  show ?case
  proof (cases "in_string a \<and> c = CHR 0x5C \<and> s \<noteq> []")
    case True
    then show ?thesis using 2 by (cases s) auto
  next
    case False
    then show ?thesis
    proof (cases "\<not> in_string a \<and> c = CHR '')'' \<and> \<not> nested a")
      case True
      then have "vs = last_views a" "r = s" using 2(4) False by auto
      then show ?thesis using 2(5-7) by (simp add: last_views_def ball_Un)
    next
      case n: False
      show ?thesis
      proof (cases "\<not> in_string a \<and> c = CHR '','' \<and> \<not> nested a")
        case True
        then show ?thesis using 2(2) [OF False n True] 2(4-7) False n by (simp add: ball_Un)
      next
        case o: False
        have "arg_loop (col + 1) s (arg_step c a) = Some (vs, col', r)" using 2(4) False n o by (simp only: arg_loop.simps if_False)
        then show ?thesis using 2(3) [OF False n o] 2(5-7) by (simp add: arg_text_step)
      qed
    qed
  qed
qed simp

lemma set_parse_macro_call_args:
  assumes "parse_macro_call_args col s = Some (vs, col', r)" "set s \<subseteq> A"
  shows "(\<forall>v \<in> set vs. set (snd v) \<subseteq> A) \<and> set r \<subseteq> A"
  using assms by (auto simp: parse_macro_call_args_def split: list.splits if_splits dest!: set_arg_loop [where A = A])

subsection \<open>Expansion stays on its line\<close>

abbreviation one_line :: "string \<Rightarrow> bool" where
  "one_line s \<equiv> newline \<notin> set s"

definition er_ok :: "nat \<Rightarrow> expand_result \<Rightarrow> bool" where
  "er_ok l r \<longleftrightarrow> length (er_map r) = length (er_text r) \<and> one_line (er_text r) \<and> (\<forall>sp \<in> set (er_map r). fst sp = word_of_nat l)"

definition expander_ok :: "expander \<Rightarrow> bool" where
  "expander_ok self \<longleftrightarrow> (\<forall>stack l col s errs. one_line s \<longrightarrow> er_ok l (fst (self stack l col s errs)))"

definition macros_ok :: "macro_table \<Rightarrow> bool" where
  "macros_ok ms \<longleftrightarrow> (\<forall>n md. ms n = Some md \<longrightarrow> one_line (md_body md))"

lemma er_ok_no_text [simp]: "er_ok l no_text"
  by (simp add: er_ok_def no_text_def)

lemma er_ok_append_char [simp]: "c \<noteq> newline \<Longrightarrow> er_ok l r \<Longrightarrow> er_ok l (append_char c l col r)"
  by (auto simp: er_ok_def append_char_def source_pos_def)

lemma er_ok_append_passthrough [simp]: "one_line s \<Longrightarrow> er_ok l r \<Longrightarrow> er_ok l (append_passthrough s l col r)"
  by (induction s arbitrary: col r) auto

lemma er_ok_append_expanded [simp]: "er_ok l e \<Longrightarrow> er_ok l r \<Longrightarrow> er_ok l (append_expanded e r)"
  by (auto simp: er_ok_def append_expanded_def)

lemma expand_args_ok:
  assumes "expander_ok self" "\<forall>v \<in> set vs. one_line (snd v)"
  shows "\<forall>a \<in> set (fst (expand_args self stack l vs errs)). one_line a"
  using assms(2)
proof (induction vs arbitrary: errs)
  case (Cons v vs)
  obtain col av where v: "v = (col, av)" by fastforce
  obtain sk tv where t: "trim_spaces av = (sk, tv)" by fastforce
  obtain e errs1 where e: "self stack l (col + sk) tv errs = (e, errs1)" by fastforce
  have "one_line tv" using set_trim_spaces [of av] t Cons(2) v by auto
  then have "er_ok l e" using assms(1) e unfolding expander_ok_def by (metis fst_conv)
  then show ?case using Cons v t e by (auto simp: er_ok_def)
qed simp

lemma expand_use_ok:
  assumes "expander_ok self" "one_line (md_body md)" "one_line s"
    and "expand_use self stack l cc name md col s errs = (e, col', s', errs')"
  shows "er_ok l e \<and> one_line s'"
proof -
  have self: "er_ok l (fst (self stack l c t es))" if "one_line t" for stack l c t es
    using assms(1) that by (simp add: expander_ok_def)
  consider (stop) "e = no_text" "s' = s" | (object) stack' where "e = fst (self stack' l cc (md_body md) errs)" "s' = s"
    | (call) vs stack' es where "parse_macro_call_args col s = Some (vs, col', s')"
        "e = fst (self stack' l cc (substitute_params (md_body md) (md_params md) (fst (expand_args self stack' l vs errs))) es)"
    using assms(4) unfolding expand_use_def Let_def
    by (simp split: if_splits option.splits prod.splits) (metis fst_conv)+
  then show ?thesis
  proof cases
    case call
    have v: "\<forall>v \<in> set vs. one_line (snd v)" "one_line s'"
      using set_parse_macro_call_args [OF call(1), of "- {newline}"] assms(3) by auto
    have "one_line (substitute_params (md_body md) (md_params md) (fst (expand_args self stack' l vs errs)))"
      using set_substitute_params [of "md_body md"] assms(2) expand_args_ok [OF assms(1) v(1)] by fastforce
    then show ?thesis using call v self by simp
  qed (use assms self in auto)
qed

lemma expand_loop_ok:
  assumes "expander_ok self" "macros_ok ms" "one_line s" "er_ok l r"
  shows "er_ok l (fst (expand_loop self ms stack l col s r errs))"
  using assms
proof (induction self ms stack l col s r errs rule: expand_loop.induct)
  case (2 self ms stack l col c s r errs)
  obtain name s1 where p: "parse_ident s = (name, s1)" by fastforce
  have s1: "one_line s1" using set_parse_ident [OF p] 2(7) by auto
  show ?case
  proof (cases "c \<noteq> CHR ''`'' \<or> name = []")
    case True
    then show ?thesis using 2(1,2) 2(5-8) p by auto
  next
    case False
    show ?thesis
    proof (cases "ms name")
      case None
      then show ?thesis using 2(3) [of name s1] 2(5-8) p False s1 by simp
    next
      case (Some md)
      obtain e col' s2 errs' where u: "expand_use self stack l col name md (col + 1 + length name) s1 errs = (e, col', s2, errs')"
        by (metis prod_cases4)
      have "er_ok l e \<and> one_line s2" using expand_use_ok [OF 2(5) _ s1 u] 2(6) Some by (simp add: macros_ok_def)
      then show ?thesis using 2(4) [of name s1 md e _ col' _ s2 errs'] 2(5-8) p False u Some by simp
    qed
  qed
qed simp

lemma expand_text_ok: "macros_ok ms \<Longrightarrow> expander_ok (expand_text ms n)"
proof (induction n)
  case (Suc n)
  then show ?case using expand_loop_ok [OF Suc(1)] by (simp add: expander_ok_def)
qed (simp add: expander_ok_def)

text \<open>Each iteration of the loop over a line copies some characters or hands them to the expander.\<close>

fun opens_comment :: "string \<Rightarrow> bool" where
  "opens_comment [] \<longleftrightarrow> False"
| "opens_comment (c # s) \<longleftrightarrow> comment_opens c s CHR ''*'' \<or> opens_comment s"

lemma opens_comment_drop: "opens_comment (drop n s) \<Longrightarrow> opens_comment s"
  by (induction s arbitrary: n) (auto simp: drop_Cons split: nat.splits)

lemma line_loop_cases:
  assumes "s \<noteq> []"
  obtains (copy) n b' where "0 < n" "b' \<longrightarrow> b \<or> opens_comment s" "line_loop ex l i s b r errs = line_loop ex l (i + n) (drop n s) b' (append_passthrough (take n s) l (1 + i) r) errs"
  | (expand) n where "0 < n" "\<not> b"
      "line_loop ex l i s b r errs = line_loop ex l (i + n) (drop n s) False (append_expanded (fst (ex (1 + i) (take n s) errs)) r) (snd (ex (1 + i) (take n s) errs))"
proof -
  obtain c t where s: "s = c # t" using assms by (cases s) auto
  consider "b" | "\<not> b" "0 < next_special s" | "\<not> b" "next_special s = 0" "c = CHR 0x22"
    | "\<not> b" "next_special s = 0" "c \<noteq> CHR 0x22" "comment_opens c t CHR ''/''"
    | "\<not> b" "next_special s = 0" "c \<noteq> CHR 0x22" "\<not> comment_opens c t CHR ''/''" "comment_opens c t CHR ''*''"
    | "\<not> b" "next_special s = 0" "c \<noteq> CHR 0x22" "\<not> comment_opens c t CHR ''/''" "\<not> comment_opens c t CHR ''*''" by blast
  then show thesis
  proof cases
    case 1
    then show thesis using copy [of "find_block_comment_end s" "\<not> find_block_comment_end s < length s"] by (simp add: s Let_def del: take_Suc_Cons drop_Suc_Cons)
  next
    case 2
    then show thesis using expand [of "next_special s"] by (simp add: s Let_def case_prod_beta del: next_special.simps take_Suc_Cons drop_Suc_Cons)
  next
    case 3
    then show thesis using copy [of "Suc (find_string_end t)" False] by (simp add: s Let_def)
  next
    case 4
    then show thesis using copy [of "length s" False] by (simp add: s)
  next
    case 5
    then show thesis using copy [of "Suc (Suc (find_block_comment_end (tl t)))" "length s \<le> Suc (Suc (find_block_comment_end (tl t)))"] by (simp add: s Let_def)
  next
    case 6
    then show thesis using copy [of 1 False] by (simp add: s)
  qed
qed

lemma line_loop_ok:
  assumes "\<And>col t es. one_line t \<Longrightarrow> er_ok l (fst (ex col t es))" "one_line s" "er_ok l r"
  shows "er_ok l (fst (line_loop ex l i s b r errs))"
  using assms(2,3)
proof (induction "length s" arbitrary: i s b r errs rule: less_induct)
  case less
  show ?case
  proof (cases "s = []")
    case False
    have t: "one_line (take n s)" "one_line (drop n s)" for n using less(2) by (metis in_set_takeD, metis in_set_dropD)
    show ?thesis
      using less(1) [OF _ t(2)] t(1) less(3) assms(1) False by (cases rule: line_loop_cases [OF False, where ex = ex and l = l and i = i and b = b and r = r and errs = errs]) auto
  qed (use less in simp)
qed

subsection \<open>The source map covers the output\<close>

definition pp_ok :: "preprocess_state \<Rightarrow> bool" where
  "pp_ok st \<longleftrightarrow> length (pp_source_map st) = length (pp_output st) \<and> macros_ok (pp_macros st)"

definition keeps_ok :: "(string \<Rightarrow> preprocess_state \<Rightarrow> preprocess_state) option \<Rightarrow> bool" where
  "keeps_ok self \<longleftrightarrow> (\<forall>go u st. self = Some go \<longrightarrow> pp_ok st \<longrightarrow> pp_ok (go u st))"

named_theorems directive_defs

lemmas [directive_defs] = directive_def define_directive_def undef_directive_def ifdef_directive_def else_directive_def
  endif_directive_def do_error_def Let_def

lemma macros_ok_upd: "macros_ok ms \<Longrightarrow> one_line (md_body md) \<Longrightarrow> macros_ok (ms(n \<mapsto> md))"
  by (simp add: macros_ok_def)

lemma macros_ok_del: "macros_ok ms \<Longrightarrow> macros_ok (ms(n := None))"
  by (simp add: macros_ok_def)

lemma define_ok:
  assumes "pp_ok st" "one_line t"
  shows "pp_ok (define_directive l col t st)"
proof -
  obtain name t1 where p: "parse_ident (skip_spaces t) = (name, t1)" by fastforce
  have t1: "one_line t1" using set_parse_ident [OF p] set_skip_spaces [of t] assms(2) by auto
  obtain ok ps t2 where q: "parse_param_list_after_lparen t1 = (ok, ps, t2)" by (metis prod_cases3)
  have t2: "one_line t2" using set_parse_param_list [OF q] t1 by auto
  have b: "one_line (skip_spaces t1)" "one_line (skip_spaces t2)" using set_skip_spaces t1 t2 by blast+
  show ?thesis
    using assms(1) b by (simp add: define_directive_def p q pp_ok_def do_error_def Let_def macros_ok_upd)
qed

lemma include_ok:
  assumes "pp_ok st" "keeps_ok self"
  shows "pp_ok (snd (include_directive res self l col t st))"
  proof -
  have e: "pp_ok (do_error m l col st)" for m using assms(1) by (simp add: pp_ok_def do_error_def)
  show ?thesis using assms e by (auto simp: include_directive_def Let_def keeps_ok_def split: option.split list.split)
qed

lemma directive_ok:
  assumes "pp_ok st" "one_line q" "keeps_ok self"
  shows "pp_ok (snd (directive res self l col q st))"
proof -
  obtain kw t where p: "parse_ident (dropWhile is_space q) = (kw, t)" by fastforce
  have t: "one_line t" using set_parse_ident [OF p] assms(2) by (auto dest: set_dropWhileD)
  have other: "pp_ok (undef_directive l col t st)" "pp_ok (ifdef_directive k t st)" "pp_ok (else_directive l col st)"
    "pp_ok (endif_directive l col st)" "pp_ok (do_error m l col st)" for k m
    using assms(1) by (simp_all add: pp_ok_def directive_defs macros_ok_del split: list.split)
  show ?thesis
    unfolding directive_def p prod.case
    using define_ok [OF assms(1) t] include_ok [OF assms(1,3)] other assms(1) by simp
qed

lemma one_line_logical: "one_line ln \<Longrightarrow> one_line (logical_line ln)"
  by (auto simp: logical_line_def dest: in_set_butlastD)

lemma expand_line_ok:
  "macros_ok ms \<Longrightarrow> one_line txt \<Longrightarrow> er_ok l (fst (expand_line_with_comments ms txt l b errs))"
  unfolding expand_line_with_comments_def
  using expand_text_ok [of ms "Suc max_macro_depth"] by (intro line_loop_ok) (simp_all add: expander_ok_def)

definition is_directive :: "string \<Rightarrow> bool" where
  "is_directive ln \<longleftrightarrow> skip_spaces (logical_line ln) \<noteq> [] \<and> hd (skip_spaces (logical_line ln)) = CHR ''`''"

abbreviation directive_column :: "string \<Rightarrow> nat" where
  "directive_column ln \<equiv> length (logical_line ln) - length (skip_spaces (logical_line ln)) + 1"

lemma process_line_cases:
  obtains (direct) em st1 where "\<not> b" "is_directive ln"
      "directive res self l (directive_column ln) (tl (skip_spaces (logical_line ln))) st = (em, st1)"
      "process_line res self l b ln st = (b, if em then push_newline l st1 else st1)"
  | (expanded) e b' errs where "b \<or> \<not> is_directive ln" "current_active st" "expand_line_with_comments (pp_macros st) (logical_line ln) l b (pp_errors st) = (e, b', errs)"
      "process_line res self l b ln st = (b', push_newline l (push_expanded e (st\<lparr>pp_errors := errs\<rparr>)))"
  | (blank) "b \<or> \<not> is_directive ln" "\<not> current_active st" "process_line res self l b ln st = (b, push_newline l st)"
proof -
  consider "\<not> b \<and> is_directive ln" | "b \<or> \<not> is_directive ln" "current_active st" | "b \<or> \<not> is_directive ln" "\<not> current_active st" by blast
  then show thesis
  proof cases
    case 1
    then show thesis
      using direct by (cases "directive res self l (directive_column ln) (tl (skip_spaces (logical_line ln))) st")
        (simp add: process_line_def Let_def is_directive_def)
  next
    case 2
    then show thesis
      using expanded by (cases "expand_line_with_comments (pp_macros st) (logical_line ln) l b (pp_errors st)")
        (auto simp: process_line_def Let_def is_directive_def)
  next
    case 3
    then show thesis using blank by (auto simp: process_line_def Let_def is_directive_def)
  qed
qed

lemma process_line_ok:
  assumes "pp_ok st" "one_line ln" "keeps_ok self"
  shows "pp_ok (snd (process_line res self l b ln st))"
proof -
  let ?t = "logical_line ln"
  have t: "one_line ?t" "one_line (skip_spaces ?t)" using one_line_logical [OF assms(2)] set_skip_spaces by blast+
  then have q: "one_line (tl (skip_spaces ?t))" by (cases "skip_spaces ?t") auto
  have n: "pp_ok s \<Longrightarrow> pp_ok (push_newline k s)" for s k by (simp add: pp_ok_def push_newline_def)
  show ?thesis
  proof (cases rule: process_line_cases [of b ln res self l st])
    case (direct em st1)
    then have "pp_ok st1" using directive_ok [OF assms(1) q assms(3)] by (metis snd_conv)
    then show ?thesis using direct n by simp
  next
    case (expanded e b' errs)
    then have "er_ok l e" using expand_line_ok [OF _ t(1)] assms(1) unfolding pp_ok_def by (metis fst_conv)
    then show ?thesis using expanded(4) assms(1) n by (simp add: pp_ok_def push_expanded_def er_ok_def)
  qed (use assms n in simp)
qed

text \<open>The lines of a text, and the processing of a list of lines.\<close>

function split_lines :: "string \<Rightarrow> string list" where
  "split_lines [] = []"
| "split_lines (c # s) = takeWhile (\<lambda>x. x \<noteq> newline) (c # s) # split_lines (drop (Suc (length (takeWhile (\<lambda>x. x \<noteq> newline) (c # s)))) (c # s))"
  by pat_completeness auto
termination
  by (relation "measure length") auto

fun line_fold ::
  "(string \<Rightarrow> string option) option \<Rightarrow> (string \<Rightarrow> preprocess_state \<Rightarrow> preprocess_state) option \<Rightarrow> nat \<Rightarrow> bool \<Rightarrow> string list \<Rightarrow>
   preprocess_state \<Rightarrow> bool \<times> preprocess_state" where
  "line_fold res self l b [] st = (b, st)"
| "line_fold res self l b (ln # lns) st = (case process_line res self l b ln st of (b', st') \<Rightarrow> line_fold res self (l + 1) b' lns st')"

lemma process_lines_fold: "process_lines res self l b s st = snd (line_fold res self l b (split_lines s) st)"
proof (induction s arbitrary: l b st rule: split_lines.induct)
  case (2 c s)
  show ?case unfolding process_lines.simps split_lines.simps line_fold.simps Let_def 2 by (rule prod.case_distrib [symmetric])
qed simp

lemma split_lines_one_line: "ln \<in> set (split_lines s) \<Longrightarrow> one_line ln"
proof (induction s rule: split_lines.induct)
  case (2 c s)
  have "one_line (takeWhile (\<lambda>x. x \<noteq> newline) (c # s))" by (auto dest: set_takeWhileD)
  then show ?case using 2 unfolding split_lines.simps set_simps by blast
qed simp

lemma line_fold_append:
  "line_fold res self l b (xs @ ys) st =
     (case line_fold res self l b xs st of (b', st') \<Rightarrow> line_fold res self (l + length xs) b' ys st')"
  by (induction xs arbitrary: l b st) (auto split: prod.split)

lemma line_fold_ok:
  "pp_ok st \<Longrightarrow> \<forall>ln \<in> set lns. one_line ln \<Longrightarrow> keeps_ok self \<Longrightarrow> pp_ok (snd (line_fold res self l b lns st))"
proof (induction lns arbitrary: l b st)
  case (Cons ln lns)
  then show ?case using process_line_ok [of st ln self res l b] by (auto split: prod.split)
qed simp

lemma process_lines_ok: "pp_ok st \<Longrightarrow> keeps_ok self \<Longrightarrow> pp_ok (process_lines res self l b s st)"
  unfolding process_lines_fold using split_lines_one_line by (intro line_fold_ok) auto

lemma process_text_ok: "pp_ok st \<Longrightarrow> pp_ok (process_text res n s st)"
  by (induction n arbitrary: s st) (auto intro!: process_lines_ok simp: keeps_ok_def)

lemma preprocess_ok: "pp_ok (preprocess opt src)"
  unfolding preprocess_def by (rule process_text_ok) (simp add: pp_ok_def new_preprocess_state_def macros_ok_def)

text \<open>The number of the line each character of a text is on.\<close>

fun line_numbers :: "nat \<Rightarrow> string \<Rightarrow> u32 list" where
  "line_numbers l [] = []"
| "line_numbers l (c # s) = word_of_nat l # line_numbers (if c = newline then l + 1 else l) s"

lemma line_numbers_append: "line_numbers l (s @ t) = line_numbers l s @ line_numbers (l + count_list s newline) t"
  by (induction s arbitrary: l) auto

lemma line_numbers_one_line: "one_line s \<Longrightarrow> line_numbers l s = replicate (length s) (word_of_nat l)"
  by (induction s) auto

lemma line_numbers_nth: "k < length s \<Longrightarrow> line_numbers l s ! k = word_of_nat (l + count_list (take k s) newline)"
  by (induction l s arbitrary: k rule: line_numbers.induct) (auto simp: nth_Cons split: nat.split)

definition lines_kept :: "nat \<Rightarrow> preprocess_state \<Rightarrow> bool" where
  "lines_kept l st \<longleftrightarrow> map fst (pp_source_map st) = line_numbers 1 (pp_output st) \<and> l = Suc (count_list (pp_output st) newline)"

lemma lines_kept_line:
  assumes "lines_kept l st" "er_ok l e"
  shows "lines_kept (l + 1) (push_newline l (push_expanded e st))"
proof -
  have "map fst (er_map e) = replicate (length (er_text e)) (word_of_nat l)"
    using assms(2) by (auto simp: er_ok_def intro: map_replicate_const [THEN trans] replicate_eqI)
  then show ?thesis
    using assms by (simp add: lines_kept_def push_newline_def push_expanded_def line_numbers_append line_numbers_one_line er_ok_def source_pos_def)
qed

lemma directive_no_resolver:
  assumes "directive None self l col q st = (em, st1)"
  shows "em \<and> pp_output st1 = pp_output st \<and> pp_source_map st1 = pp_source_map st"
proof -
  have "fst (include_directive None self l col t st)" "pp_output (snd (include_directive None self l col t st)) = pp_output st"
    "pp_source_map (snd (include_directive None self l col t st)) = pp_source_map st" for t
    by (simp_all add: include_directive_def do_error_def split: option.split)
  then show ?thesis
    using arg_cong [OF assms, of fst] arg_cong [OF assms, of snd]
    by (auto simp: directive_defs split: prod.splits if_splits list.splits)
qed

lemma process_line_lines:
  assumes "pp_ok st" "lines_kept l st" "one_line ln"
  shows "lines_kept (l + 1) (snd (process_line None self l b ln st))"
proof -
  have blank: "lines_kept (l + 1) (push_newline l st')" if "pp_output st' = pp_output st" "pp_source_map st' = pp_source_map st" for st'
    using assms(2) that by (simp add: lines_kept_def push_newline_def line_numbers_append source_pos_def)
  show ?thesis
  proof (cases rule: process_line_cases [of b ln None self l st])
    case (direct em st1)
    then show ?thesis using directive_no_resolver [OF direct(3)] blank by simp
  next
    case (expanded e b' errs)
    then have "er_ok l e"
      using expand_line_ok [OF _ one_line_logical [OF assms(3)]] assms(1) unfolding pp_ok_def by (metis fst_conv)
    moreover have "lines_kept l (st\<lparr>pp_errors := errs\<rparr>)" using assms(2) by (simp add: lines_kept_def)
    ultimately show ?thesis using expanded(4) lines_kept_line by simp
  qed (use blank in simp)
qed

lemma keeps_ok_None [simp]: "keeps_ok None"
  by (simp add: keeps_ok_def)

lemma keeps_ok_process_text: "keeps_ok (Some (process_text res n))"
  by (simp add: keeps_ok_def process_text_ok)

lemma line_fold_lines:
  assumes "pp_ok st" "lines_kept l st" "\<forall>ln \<in> set lns. one_line ln" "keeps_ok self"
  shows "lines_kept (l + length lns) (snd (line_fold None self l b lns st))"
  using assms(1-3)
proof (induction lns arbitrary: l b st)
  case (Cons ln lns)
  obtain b1 st1 where p: "process_line None self l b ln st = (b1, st1)" by fastforce
  have "lines_kept (l + 1) st1" "pp_ok st1"
    using process_line_lines [of st l ln self b] process_line_ok [OF Cons(2) _ assms(4), of ln None l b] Cons(2-4) p by auto
  then show ?case using Cons(1) [of st1 "l + 1" b1] Cons(4) p by simp
qed simp

lemma preprocess_fold:
  obtains self where "keeps_ok self" "preprocess opt src = snd (line_fold (include_resolver opt) self 1 False (split_lines src) new_preprocess_state)"
proof (cases "unat (include_depth_limit opt)")
  case 0
  then show ?thesis using that [of None] by (simp add: preprocess_def process_lines_fold)
next
  case (Suc n)
  then show ?thesis using that [OF keeps_ok_process_text [of "include_resolver opt" n]] by (simp add: preprocess_def process_lines_fold)
qed

lemma new_state_ok: "pp_ok new_preprocess_state" "lines_kept 1 new_preprocess_state"
  by (simp_all add: pp_ok_def lines_kept_def new_preprocess_state_def macros_ok_def)

text \<open>The tokens of some pieces, each at the position the source map has for its first character.\<close>

fun mapped_tokens :: "source_position list \<Rightarrow> nat \<Rightarrow> (lexeme \<times> string) list \<Rightarrow> token list" where
  "mapped_tokens m off [] = []"
| "mapped_tokens m off ((k, t) # ps) =
     (case k of skipped \<Rightarrow> []
      | lexed tk \<Rightarrow> [\<lparr>tk_kind = tk, tk_text = t, tk_line = unat (fst (m ! off)), tk_column = unat (snd (m ! off))\<rparr>]
      | unterminated \<Rightarrow> [\<lparr>tk_kind = tk_symbol, tk_text = t, tk_line = unat (fst (m ! off)), tk_column = unat (snd (m ! off))\<rparr>]) @
     mapped_tokens m (off + length t) ps"

lemma tokens_of_mapped:
  "list_all (\<lambda>p. snd p \<noteq> []) ps \<Longrightarrow> length m = length pre + length (concat (map snd ps)) \<Longrightarrow> tokens_of (Some m) pre ps = mapped_tokens m (length pre) ps"
proof (induction ps arbitrary: pre)
  case (Cons p ps)
  obtain k t where p: "p = (k, t)" by fastforce
  have "length pre < length m" using Cons(2,3) p by (cases t) auto
  then have "make_tok (Some m) tk (length pre) t pos =
      \<lparr>tk_kind = tk, tk_text = t, tk_line = unat (fst (m ! length pre)), tk_column = unat (snd (m ! length pre))\<rparr>" for tk pos
    by (simp add: make_tok_def remap_line_col_def)
  then show ?case using Cons(1) [of "pre @ t"] Cons(2,3) p by (simp split: lexeme.split)
qed simp

subsection \<open>Text without directives\<close>

lemma append_passthrough_append: "append_passthrough (s @ t) l c r = append_passthrough t l (c + length s) (append_passthrough s l c r)"
  by (induction s arbitrary: c r) auto

lemma er_text_passthrough [simp]: "er_text (append_passthrough s l c r) = er_text r @ s"
  by (induction s arbitrary: c r) (auto simp: append_char_def)

lemma er_map_passthrough [simp]: "er_map (append_passthrough s l c r) = er_map r @ map (\<lambda>i. source_pos l (c + i)) [0..<length s]"
proof (induction s arbitrary: c r)
  case (Cons a s)
  show ?case by (simp add: Cons append_char_def upt_conv_Cons map_Suc_upt [symmetric] del: upt_Suc)
qed simp

lemma append_expanded_passthrough: "append_expanded (append_passthrough s l c no_text) r = append_passthrough s l c r"
  by (rule expand_result.equality) (simp_all add: append_expanded_def no_text_def)

lemma expand_loop_plain:
  "CHR ''`'' \<notin> set s \<Longrightarrow> expand_loop self ms stack l col s r errs = (append_passthrough s l col r, errs)"
  by (induction s arbitrary: col r) auto

lemma line_loop_plain:
  assumes "\<And>col t es. CHR ''`'' \<notin> set t \<Longrightarrow> ex col t es = (append_passthrough t l col no_text, es)" "CHR ''`'' \<notin> set s"
  shows "\<exists>b'. line_loop ex l i s b r errs = (append_passthrough s l (1 + i) r, b', errs)"
  using assms(2)
proof (induction "length s" arbitrary: i s b r rule: less_induct)
  case less
  show ?case
  proof (cases "s = []")
    case False
    have j: "append_passthrough (drop n s) l (1 + (i + n)) (append_passthrough (take n s) l (1 + i) r) = append_passthrough s l (1 + i) r" for n
      using append_passthrough_append [of "take n s" "drop n s" l "1 + i" r] by (cases "n \<le> length s") auto
    have d: "CHR ''`'' \<notin> set (take n s)" "CHR ''`'' \<notin> set (drop n s)" for n using less(2) by (metis in_set_takeD, metis in_set_dropD)
    show ?thesis
      using False
    proof (cases rule: line_loop_cases [consumes 1, where ex = ex and l = l and i = i and b = b and r = r and errs = errs])
      case (copy n b')
      then show ?thesis using less(1) [OF _ d(2), of n "i + n" b' "append_passthrough (take n s) l (1 + i) r"] False j by simp
    next
      case (expand n)
      then show ?thesis using less(1) [OF _ d(2), of n "i + n" False "append_passthrough (take n s) l (1 + i) r"] False j assms(1) [OF d(1)]
        by (simp add: append_expanded_passthrough)
    qed
  qed simp
qed

abbreviation join_lines :: "string list \<Rightarrow> string" where
  "join_lines lns \<equiv> concat (map (\<lambda>ln. ln @ [newline]) lns)"

lemma split_lines_line: "one_line ln \<Longrightarrow> split_lines (ln @ newline # s) = ln # split_lines s"
proof -
  assume *: "one_line ln"
  then have t: "takeWhile (\<lambda>x. x \<noteq> newline) (ln @ newline # s) = ln" by (induction ln) auto
  obtain c u where u: "ln @ newline # s = c # u" by (cases ln) auto
  show ?thesis unfolding u split_lines.simps unfolding u [symmetric] t by simp
qed

lemma split_join_lines: "\<forall>ln \<in> set lns. one_line ln \<Longrightarrow> split_lines (join_lines lns) = lns"
  by (induction lns) (auto simp: split_lines_line)

lemma join_split_lines: "s = [] \<or> last s = newline \<Longrightarrow> join_lines (split_lines s) = s"
proof (induction "length s" arbitrary: s rule: less_induct)
  case less
  show ?case
  proof (cases "s = []")
    case False
    then have "newline \<in> set s" using less(2) last_in_set by metis
    then obtain ln u where s: "s = ln @ newline # u" "one_line ln" by (meson split_list_first)
    then have "u = [] \<or> last u = newline" using less(2) by (cases u) auto
    then show ?thesis using less(1) [of u] s by (simp add: split_lines_line)
  qed simp
qed

text \<open>A map that has the true position of every character but the newlines.\<close>

definition exact_map :: "preprocess_state \<Rightarrow> bool" where
  "exact_map st \<longleftrightarrow> length (pp_source_map st) = length (pp_output st) \<and>
     (\<forall>pre c post. pp_output st = pre @ c # post \<longrightarrow> c \<noteq> newline \<longrightarrow>
        pp_source_map st ! length pre = source_pos (fst (position_after pre)) (snd (position_after pre)))"

lemma position_after_line:
  "position_after out = (l, 1) \<Longrightarrow> one_line pre \<Longrightarrow> position_after (out @ pre) = (l, 1 + length pre)"
proof (induction pre rule: rev_induct)
  case (snoc c pre)
  then show ?case by (auto simp: position_after_def)
qed simp

lemma exact_map_line:
  assumes "exact_map st" "position_after (pp_output st) = (l, 1)" "one_line ln"
  defines "st' \<equiv> push_newline l (push_expanded (append_passthrough ln l 1 no_text) st)"
  shows "exact_map st'" "position_after (pp_output st') = (l + 1, 1)" "pp_output st' = pp_output st @ ln @ [newline]"
proof -
  show o: "pp_output st' = pp_output st @ ln @ [newline]" by (simp add: st'_def push_newline_def push_expanded_def no_text_def)
  have m: "pp_source_map st' = pp_source_map st @ map (\<lambda>i. source_pos l (1 + i)) [0..<length ln] @ [source_pos l 1]"
    by (simp add: st'_def push_newline_def push_expanded_def no_text_def)
  have len: "length (pp_source_map st) = length (pp_output st)" using assms(1) by (simp add: exact_map_def)
  show "position_after (pp_output st') = (l + 1, 1)" unfolding o using assms(2) by (simp add: position_after_def assms(3))
  show "exact_map st'"
    unfolding exact_map_def
  proof (intro conjI allI impI)
    show "length (pp_source_map st') = length (pp_output st')" using m o len by simp
    fix pre c post assume e: "pp_output st' = pre @ c # post" and c: "c \<noteq> newline"
    show "pp_source_map st' ! length pre = source_pos (fst (position_after pre)) (snd (position_after pre))"
    proof (cases "length pre < length (pp_output st)")
      case True
      then obtain v where v: "pp_output st = pre @ v" "v @ ln @ [newline] = c # post" using e o by (auto simp: append_eq_append_conv2)
      then obtain u where "pp_output st = pre @ c # u" using True by (cases v) auto
      then show ?thesis using assms(1) c m len True by (simp add: exact_map_def nth_append)
    next
      case False
      then obtain u where u: "pre = pp_output st @ u" using e o by (auto simp: append_eq_append_conv2)
      then have ln: "ln @ [newline] = u @ c # post" using e o by simp
      then have "\<exists>v. ln = u @ c # v" using c by (cases post rule: rev_cases) auto
      then obtain v where v: "ln = u @ c # v" by blast
      then have "position_after pre = (l, 1 + length u)" using u position_after_line [OF assms(2), of u] assms(3) by simp
      then show ?thesis using m len u v by (simp add: nth_append)
    qed
  qed
qed

lemma logical_line_plain: "CHR 0x0D \<notin> set ln \<Longrightarrow> logical_line ln = ln"
  unfolding logical_line_def using last_in_set [of ln] by metis

lemma plain_not_directive: "CHR ''`'' \<notin> set ln \<Longrightarrow> CHR 0x0D \<notin> set ln \<Longrightarrow> \<not> is_directive ln"
  using set_skip_spaces [of ln] by (auto simp: is_directive_def logical_line_plain dest: hd_in_set)

lemma process_line_plain:
  assumes "CHR ''`'' \<notin> set ln" "CHR 0x0D \<notin> set ln" "current_active st"
  shows "\<exists>b'. process_line res self l b ln st = (b', push_newline l (push_expanded (append_passthrough ln l 1 no_text) st))"
proof -
  have "expand_text ms (Suc n) [] l col t es = (append_passthrough t l col no_text, es)" if "CHR ''`'' \<notin> set t" for ms n col t es
    using that by (simp add: expand_loop_plain)
  then obtain b' where "expand_line_with_comments (pp_macros st) ln l b (pp_errors st) = (append_passthrough ln l 1 no_text, b', pp_errors st)"
    using line_loop_plain [of "expand_text (pp_macros st) (Suc max_macro_depth) [] l" l ln 0 b no_text "pp_errors st"] assms(1)
    unfolding expand_line_with_comments_def by auto
  then show ?thesis
    using plain_not_directive [OF assms(1,2)] assms(2,3)
    by (cases rule: process_line_cases [of b ln res self l st]) (simp_all add: logical_line_plain)
qed

lemma line_fold_plain:
  assumes "\<forall>ln \<in> set lns. CHR ''`'' \<notin> set ln \<and> CHR 0x0D \<notin> set ln \<and> one_line ln"
    and "pp_ifs st = []" "exact_map st" "position_after (pp_output st) = (l, 1)"
  shows "\<exists>b' st'. line_fold res self l b lns st = (b', st') \<and> exact_map st' \<and> pp_output st' = pp_output st @ join_lines lns \<and> pp_errors st' = pp_errors st"
  using assms
proof (induction lns arbitrary: l b st)
  case (Cons ln lns)
  let ?st = "push_newline l (push_expanded (append_passthrough ln l 1 no_text) st)"
  obtain b1 where p: "process_line res self l b ln st = (b1, ?st)"
    using process_line_plain [of ln st res self l b] Cons(2,3) by (auto simp: current_active_def)
  have i: "pp_ifs ?st = []" "pp_errors ?st = pp_errors st" using Cons(3) by (simp_all add: push_newline_def push_expanded_def)
  show ?case using Cons(1) [of ?st "l + 1" b1] Cons(2) p i exact_map_line [OF Cons(4,5), of ln] by auto
qed simp

lemma exact_map_lex:
  assumes "exact_map st" "pp_output st = pre @ s" "length (pp_output st) < 2 ^ 32"
  shows "lex_loop (Some (pp_source_map st)) s (length pre) (position_after pre) out = lex_loop None s (length pre) (position_after pre) out"
  using assms(2)
proof (induction s arbitrary: pre out rule: pieces.induct)
  case (2 c s)
  let ?n = "snd (next_lexeme c s)"
  let ?t = "take ?n (c # s)"
  let ?pos = "position_after pre"
  have le: "length (takeWhile P xs) \<le> length xs" for P and xs :: string by (rule length_takeWhile_le)
  have "count_list pre newline \<le> length pre" by (induction pre) auto
  then have "fst ?pos \<le> length (pp_output st)" "snd ?pos \<le> length (pp_output st)"
    using le [of "\<lambda>x. x \<noteq> newline" "rev pre"] 2(2) by (auto simp: position_after_def)
  then have w: "unat (word_of_nat (fst ?pos) :: u32) = fst ?pos" "unat (word_of_nat (snd ?pos) :: u32) = snd ?pos"
    using assms(3) by (auto simp: unat_of_nat take_bit_nat_eq_self)
  have "remap_line_col (Some (pp_source_map st)) (length pre) ?pos = ?pos" if "c \<noteq> newline"
    using assms(1) 2(2) that w by (simp add: exact_map_def remap_line_col_def source_pos_def)
  moreover have "fst (next_lexeme c s) = skipped" if "c = newline" using that by (simp add: next_lexeme_def is_space_def)
  moreover have "remap_line_col None (length pre) ?pos = ?pos" by (simp add: remap_line_col_def)
  ultimately have e: "emit (Some (pp_source_map st)) (fst (next_lexeme c s)) (length pre) ?t ?pos out = emit None (fst (next_lexeme c s)) (length pre) ?t ?pos out"
    by (cases "c = newline") (simp_all add: emit_def make_tok_def split: lexeme.split)
  have l: "length pre + ?n = length (pre @ ?t)" using next_lexeme_le [of c s] by simp
  have f: "pp_output st = (pre @ ?t) @ drop ?n (c # s)" using 2(2) by (metis append.assoc append_take_drop_id)
  show ?case unfolding lex_loop.simps(2) Let_def l foldl_bump e 2(1) [OF f] ..
qed simp

end
