(* ===== verification/Preprocess_Cond.thy ===== *)
theory Preprocess_Cond
  imports Preprocess_Props
begin

text \<open>
  Conditional compilation: a block of lines between matching directives is processed when its
  condition selects it and leaves only empty lines when not, at any depth of nesting.
\<close>

subsection \<open>Lines and their directives\<close>

definition directive_word :: "string \<Rightarrow> string" where
  "directive_word ln = (if is_directive ln then fst (parse_ident (dropWhile is_space (tl (skip_spaces (logical_line ln))))) else [])"

definition directive_name :: "string \<Rightarrow> string" where
  "directive_name ln = fst (parse_ident (skip_spaces (snd (parse_ident (dropWhile is_space (tl (skip_spaces (logical_line ln))))))))"

definition conditional :: "string \<Rightarrow> bool" where
  "conditional ln \<longleftrightarrow> directive_word ln = ''ifdef'' \<or> directive_word ln = ''ifndef''"

text \<open>A line that neither belongs to a conditional nor opens a block comment nor is an unknown directive.\<close>

definition quiet :: "string \<Rightarrow> bool" where
  "quiet ln \<longleftrightarrow> one_line ln \<and> \<not> opens_comment (logical_line ln) \<and>
     (\<not> is_directive ln \<or> directive_word ln \<in> {''define'', ''undef'', ''include'', ''timescale'', ''default_nettype''})"

inductive balanced :: "string list \<Rightarrow> bool" where
  Nil: "balanced []"
| Line: "quiet ln \<Longrightarrow> balanced lns \<Longrightarrow> balanced (ln # lns)"
| If: "conditional i \<Longrightarrow> one_line i \<Longrightarrow> balanced as \<Longrightarrow> directive_word e = ''endif'' \<Longrightarrow> one_line e \<Longrightarrow> balanced lns \<Longrightarrow> balanced (i # as @ e # lns)"
| Else: "conditional i \<Longrightarrow> one_line i \<Longrightarrow> balanced as \<Longrightarrow> directive_word m = ''else'' \<Longrightarrow> one_line m \<Longrightarrow> balanced bs \<Longrightarrow>
    directive_word e = ''endif'' \<Longrightarrow> one_line e \<Longrightarrow> balanced lns \<Longrightarrow> balanced (i # as @ m # bs @ e # lns)"

code_pred balanced .

lemma balanced_one_line: "balanced lns \<Longrightarrow> \<forall>ln \<in> set lns. one_line ln"
  by (induction rule: balanced.induct) (auto simp: quiet_def)

text \<open>One empty line per line.\<close>

fun blank_lines :: "nat \<Rightarrow> nat \<Rightarrow> preprocess_state \<Rightarrow> preprocess_state" where
  "blank_lines l 0 st = st"
| "blank_lines l (Suc n) st = blank_lines (l + 1) n (push_newline l st)"

lemma blank_lines_add: "blank_lines l (m + n) st = blank_lines (l + m) n (blank_lines l m st)"
  by (induction m arbitrary: l st) auto

lemma push_newline_ifs [simp]: "push_newline l (st\<lparr>pp_ifs := F\<rparr>) = (push_newline l st)\<lparr>pp_ifs := F\<rparr>"
  "pp_ifs (push_newline l st) = pp_ifs st" "pp_macros (push_newline l st) = pp_macros st"
  by (simp_all add: push_newline_def)

lemma blank_lines_ifs [simp]: "blank_lines l n (st\<lparr>pp_ifs := F\<rparr>) = (blank_lines l n st)\<lparr>pp_ifs := F\<rparr>"
  "pp_ifs (blank_lines l n st) = pp_ifs st" "pp_macros (blank_lines l n st) = pp_macros st"
  by (induction n arbitrary: l st) auto

lemma state_ifs [simp]: "st\<lparr>pp_ifs := pp_ifs st\<rparr> = st" for st :: preprocess_state
  by simp

lemma blank_lines_same [simp]: "(blank_lines l n st)\<lparr>pp_ifs := pp_ifs st\<rparr> = blank_lines l n st"
  using state_ifs [of "blank_lines l n st"] by (simp del: state_ifs)

lemma directive_split:
  assumes "is_directive ln"
  obtains t where "parse_ident (dropWhile is_space (tl (skip_spaces (logical_line ln)))) = (directive_word ln, t)"
    "directive_name ln = fst (parse_ident (skip_spaces t))"
  using assms that [of "snd (parse_ident (dropWhile is_space (tl (skip_spaces (logical_line ln)))))"]
  by (simp add: directive_word_def directive_name_def)

lemma directive_word_is: "directive_word ln \<noteq> [] \<Longrightarrow> is_directive ln"
  by (auto simp: directive_word_def split: if_splits)

lemma process_directive:
  assumes "is_directive ln" "directive res self l (directive_column ln) (tl (skip_spaces (logical_line ln))) st = (True, st1)"
  shows "process_line res self l False ln st = (False, push_newline l st1)"
  using assms by (cases rule: process_line_cases [of False ln res self l st]) auto

text \<open>The frame a conditional pushes, and whether it selects its first branch.\<close>

definition selects :: "string \<Rightarrow> macro_table \<Rightarrow> bool" where
  "selects i ms \<longleftrightarrow> (directive_word i = ''ifdef'') = (directive_name i \<noteq> [] \<and> ms (directive_name i) \<noteq> None)"

abbreviation frame :: "string \<Rightarrow> preprocess_state \<Rightarrow> if_frame" where
  "frame i st \<equiv> \<lparr>parent_active = current_active st, if_cond = selects i (pp_macros st),
     if_active = (current_active st \<and> selects i (pp_macros st)), seen_else = False\<rparr>"

lemma process_if:
  assumes "conditional i"
  shows "process_line res self l False i st = (False, (push_newline l st)\<lparr>pp_ifs := frame i st # pp_ifs st\<rparr>)"
proof -
  have d: "is_directive i" using assms directive_word_is by (auto simp: conditional_def)
  obtain t where t: "parse_ident (dropWhile is_space (tl (skip_spaces (logical_line i)))) = (directive_word i, t)"
    "directive_name i = fst (parse_ident (skip_spaces t))" using directive_split [OF d] .
  have "directive res self l c (tl (skip_spaces (logical_line i))) st = (True, st\<lparr>pp_ifs := frame i st # pp_ifs st\<rparr>)" for c
    using assms t by (auto simp: directive_def ifdef_directive_def conditional_def selects_def Let_def)
  then show ?thesis using process_directive [OF d] by simp
qed

lemma process_else:
  assumes "directive_word m = ''else''" "pp_ifs st = fr # F" "\<not> seen_else fr"
  shows "process_line res self l False m st =
    (False, (push_newline l st)\<lparr>pp_ifs := fr\<lparr>seen_else := True, if_active := (parent_active fr \<and> \<not> if_cond fr)\<rparr> # F\<rparr>)"
proof -
  have d: "is_directive m" using assms(1) directive_word_is by auto
  obtain t where "parse_ident (dropWhile is_space (tl (skip_spaces (logical_line m)))) = (directive_word m, t)" using directive_split [OF d] .
  then have "directive res self l c (tl (skip_spaces (logical_line m))) st =
      (True, st\<lparr>pp_ifs := fr\<lparr>seen_else := True, if_active := (parent_active fr \<and> \<not> if_cond fr)\<rparr> # F\<rparr>)" for c
    using assms by (simp add: directive_def else_directive_def)
  then show ?thesis using process_directive [OF d] by simp
qed

lemma process_endif:
  assumes "directive_word e = ''endif''" "pp_ifs st = fr # F"
  shows "process_line res self l False e st = (False, (push_newline l st)\<lparr>pp_ifs := F\<rparr>)"
proof -
  have d: "is_directive e" using assms(1) directive_word_is by auto
  obtain t where "parse_ident (dropWhile is_space (tl (skip_spaces (logical_line e)))) = (directive_word e, t)" using directive_split [OF d] .
  then have "directive res self l c (tl (skip_spaces (logical_line e))) st = (True, st\<lparr>pp_ifs := F\<rparr>)" for c
    using assms by (simp add: directive_def endif_directive_def)
  then show ?thesis using process_directive [OF d] by simp
qed

subsection \<open>Blocks that are not selected\<close>

lemma quiet_inactive:
  assumes "quiet ln" "\<not> current_active st"
  shows "process_line res self l False ln st = (False, push_newline l st)"
proof (cases "is_directive ln")
  case True
  obtain t where "parse_ident (dropWhile is_space (tl (skip_spaces (logical_line ln)))) = (directive_word ln, t)" using directive_split [OF True] .
  then have "directive res self l c (tl (skip_spaces (logical_line ln))) st = (True, st)" for c
    using assms True by (auto simp: quiet_def directive_def define_directive_def undef_directive_def include_directive_def)
  then show ?thesis using process_directive [OF True] by simp
next
  case False
  then show ?thesis using assms(2) by (cases rule: process_line_cases [of False ln res self l st]) auto
qed

lemma block_fold:
  assumes "conditional i" "directive_word e = ''endif''"
    and "line_fold res self (l + 1) False as ((push_newline l st)\<lparr>pp_ifs := frame i st # pp_ifs st\<rparr>) = (False, s2\<lparr>pp_ifs := frame i st # pp_ifs st\<rparr>)"
  shows "line_fold res self l False (i # as @ e # lns) st =
    line_fold res self (l + length as + 2) False lns ((push_newline (l + length as + 1) s2)\<lparr>pp_ifs := pp_ifs st\<rparr>)"
  using process_if [OF assms(1), of res self l st] assms(3)
    process_endif [OF assms(2), of "s2\<lparr>pp_ifs := frame i st # pp_ifs st\<rparr>" "frame i st" "pp_ifs st" res self "l + length as + 1"]
  by (simp add: line_fold_append)

definition else_frame :: "if_frame \<Rightarrow> if_frame" where
  "else_frame fr = fr\<lparr>seen_else := True, if_active := (parent_active fr \<and> \<not> if_cond fr)\<rparr>"

lemma block_else_fold:
  assumes "conditional i" "directive_word m = ''else''" "directive_word e = ''endif''"
    and "line_fold res self (l + 1) False as ((push_newline l st)\<lparr>pp_ifs := frame i st # pp_ifs st\<rparr>) = (False, s2\<lparr>pp_ifs := frame i st # pp_ifs st\<rparr>)"
    and "line_fold res self (l + length as + 2) False bs ((push_newline (l + length as + 1) s2)\<lparr>pp_ifs := else_frame (frame i st) # pp_ifs st\<rparr>) =
      (False, s3\<lparr>pp_ifs := else_frame (frame i st) # pp_ifs st\<rparr>)"
  shows "line_fold res self l False (i # as @ m # bs @ e # lns) st =
    line_fold res self (l + length as + length bs + 3) False lns ((push_newline (l + length as + length bs + 2) s3)\<lparr>pp_ifs := pp_ifs st\<rparr>)"
proof -
  have 1: "line_fold res self l False (i # as @ xs) st = line_fold res self (l + length as + 1) False xs (s2\<lparr>pp_ifs := frame i st # pp_ifs st\<rparr>)" for xs
    using process_if [OF assms(1), of res self l st] assms(4) by (simp add: line_fold_append)
  have 2: "line_fold res self (l + length as + 1) False (m # xs) (s2\<lparr>pp_ifs := frame i st # pp_ifs st\<rparr>) =
      line_fold res self (l + length as + 2) False xs ((push_newline (l + length as + 1) s2)\<lparr>pp_ifs := else_frame (frame i st) # pp_ifs st\<rparr>)" for xs
    using process_else [OF assms(2), of "s2\<lparr>pp_ifs := frame i st # pp_ifs st\<rparr>" "frame i st" "pp_ifs st" res self "l + length as + 1"]
    by (simp add: else_frame_def)
  have 3: "line_fold res self k False (e # lns) (s3\<lparr>pp_ifs := fr # pp_ifs st\<rparr>) = line_fold res self (k + 1) False lns ((push_newline k s3)\<lparr>pp_ifs := pp_ifs st\<rparr>)" for k fr
    using process_endif [OF assms(3), of "s3\<lparr>pp_ifs := fr # pp_ifs st\<rparr>"] by simp
  show ?thesis unfolding 1 2 line_fold_append assms(5) prod.case 3 by (simp add: numeral_eq_Suc)
qed

lemma blank_frame: "blank_lines (l + 1) n ((push_newline l st)\<lparr>pp_ifs := F\<rparr>) = (blank_lines l (Suc n) st)\<lparr>pp_ifs := F\<rparr>"
  by simp

lemma blank_next: "push_newline (l + n) (blank_lines l n st) = blank_lines l (Suc n) st"
  using blank_lines_add [of l n 1 st] by simp

lemma balanced_inactive:
  assumes "balanced lns" "\<not> current_active st"
  shows "line_fold res self l False lns st = (False, blank_lines l (length lns) st)"
  using assms
proof (induction lns arbitrary: l st rule: balanced.induct)
  case (Line ln lns)
  have "\<not> current_active (push_newline l st)" using Line(4) by (simp add: current_active_def)
  then show ?case using Line(3) quiet_inactive [OF Line(1,4)] by simp
next
  case (If i as e lns)
  have b: "\<not> current_active (blank_lines k n st)" for k n using If.prems by (simp add: current_active_def)
  let ?s2 = "blank_lines l (Suc (length as)) st"
  have "line_fold res self (l + 1) False as ((push_newline l st)\<lparr>pp_ifs := frame i st # pp_ifs st\<rparr>) = (False, ?s2\<lparr>pp_ifs := frame i st # pp_ifs st\<rparr>)"
    using If.IH(1) [of "(push_newline l st)\<lparr>pp_ifs := frame i st # pp_ifs st\<rparr>" "l + 1"] If.prems by (simp add: current_active_def)
  from block_fold [OF If.hyps(1,4) this, of lns]
  have "line_fold res self l False (i # as @ e # lns) st = line_fold res self (l + length as + 2) False lns (blank_lines l (Suc (Suc (length as))) st)"
    using blank_next [of l "Suc (length as)" st] by (simp del: blank_lines.simps)
  then show ?case
    using If.IH(2) [OF b] blank_lines_add [of l "Suc (Suc (length as))" "length lns" st] by (simp del: blank_lines.simps)
next
  case (Else i as m bs e lns)
  have b: "\<not> current_active (blank_lines k n st)" for k n using Else.prems by (simp add: current_active_def)
  let ?s2 = "blank_lines l (Suc (length as)) st"
  let ?s3 = "blank_lines l (Suc (Suc (length as)) + length bs) st"
  have 1: "line_fold res self (l + 1) False as ((push_newline l st)\<lparr>pp_ifs := frame i st # pp_ifs st\<rparr>) = (False, ?s2\<lparr>pp_ifs := frame i st # pp_ifs st\<rparr>)"
    using Else.IH(1) [of "(push_newline l st)\<lparr>pp_ifs := frame i st # pp_ifs st\<rparr>" "l + 1"] Else.prems by (simp add: current_active_def)
  have n: "push_newline (l + length as + 1) ?s2 = blank_lines l (Suc (Suc (length as))) st"
    using blank_next [of l "Suc (length as)" st] by (simp del: blank_lines.simps)
  have 2: "line_fold res self (l + length as + 2) False bs ((push_newline (l + length as + 1) ?s2)\<lparr>pp_ifs := else_frame (frame i st) # pp_ifs st\<rparr>) =
      (False, ?s3\<lparr>pp_ifs := else_frame (frame i st) # pp_ifs st\<rparr>)"
    unfolding n blank_lines_add
    using Else.IH(2) [of "(blank_lines l (Suc (Suc (length as))) st)\<lparr>pp_ifs := else_frame (frame i st) # pp_ifs st\<rparr>" "l + length as + 2"] Else.prems
    by (simp add: current_active_def else_frame_def del: blank_lines.simps)
  from block_else_fold [OF Else.hyps(1,4,7) 1 2, of lns]
  have "line_fold res self l False (i # as @ m # bs @ e # lns) st =
      line_fold res self (l + length as + length bs + 3) False lns (blank_lines l (Suc (Suc (Suc (length as)) + length bs)) st)"
    using blank_next [of l "Suc (Suc (length as)) + length bs" st] by (simp add: add.assoc del: blank_lines.simps)
  then show ?case
    using Else.IH(3) [OF b] blank_lines_add [of l "Suc (Suc (Suc (length as)) + length bs)" "length lns" st] by (simp add: algebra_simps numeral_eq_Suc del: blank_lines.simps)
qed simp

subsection \<open>Blocks that are selected\<close>

text \<open>Processing active lines looks at the conditionals around them only to find that they are active.\<close>

lemma line_loop_no_comment:
  assumes "\<not> opens_comment s"
  shows "fst (snd (line_loop ex l i s False r errs)) = False"
  using assms
proof (induction "length s" arbitrary: i s r errs rule: less_induct)
  case less
  show ?case
  proof (cases "s = []")
    case False
    have d: "\<not> opens_comment (drop n s)" for n using less(2) opens_comment_drop by blast
    show ?thesis
      using less(1) [OF _ d] less(2) False
      by (cases rule: line_loop_cases [OF False, where ex = ex and l = l and i = i and b = False and r = r and errs = errs]) auto
  qed simp
qed

lemma quiet_directive_ifs:
  assumes "quiet ln" "is_directive ln" "current_active (st\<lparr>pp_ifs := F\<rparr>)" "current_active (st\<lparr>pp_ifs := G\<rparr>)"
  shows "directive None self l c (tl (skip_spaces (logical_line ln))) (st\<lparr>pp_ifs := F\<rparr>) =
    apsnd (\<lambda>s. s\<lparr>pp_ifs := F\<rparr>) (directive None self l c (tl (skip_spaces (logical_line ln))) (st\<lparr>pp_ifs := G\<rparr>))"
proof -
  obtain t where t: "parse_ident (dropWhile is_space (tl (skip_spaces (logical_line ln)))) = (directive_word ln, t)" using directive_split [OF assms(2)] .
  have "define_directive l c t (st\<lparr>pp_ifs := F\<rparr>) = (define_directive l c t (st\<lparr>pp_ifs := G\<rparr>))\<lparr>pp_ifs := F\<rparr>"
    using assms(3,4) by (simp add: define_directive_def do_error_def Let_def split: prod.split)
  moreover have "undef_directive l c t (st\<lparr>pp_ifs := F\<rparr>) = (undef_directive l c t (st\<lparr>pp_ifs := G\<rparr>))\<lparr>pp_ifs := F\<rparr>"
    using assms(3,4) by (simp add: undef_directive_def do_error_def Let_def)
  moreover have "include_directive None self l c t (st\<lparr>pp_ifs := F\<rparr>) = apsnd (\<lambda>s. s\<lparr>pp_ifs := F\<rparr>) (include_directive None self l c t (st\<lparr>pp_ifs := G\<rparr>))"
    using assms(3,4) by (simp add: include_directive_def do_error_def split: option.split)
  ultimately show ?thesis using assms(1,2) t unfolding quiet_def directive_def by auto
qed

lemma quiet_active:
  assumes "quiet ln" "current_active (st\<lparr>pp_ifs := F\<rparr>)" "current_active (st\<lparr>pp_ifs := G\<rparr>)"
  shows "\<exists>s'. process_line None self l False ln (st\<lparr>pp_ifs := F\<rparr>) = (False, s'\<lparr>pp_ifs := F\<rparr>) \<and>
    process_line None self l False ln (st\<lparr>pp_ifs := G\<rparr>) = (False, s'\<lparr>pp_ifs := G\<rparr>)"
proof (cases "is_directive ln")
  case True
  obtain st1 where d: "directive None self l (directive_column ln) (tl (skip_spaces (logical_line ln))) (st\<lparr>pp_ifs := F\<rparr>) = (True, st1)"
    using directive_no_resolver by (metis (full_types) surj_pair)
  note e = quiet_directive_ifs [OF assms(1) True, where st = st and self = self and l = l and c = "directive_column ln"]
  have f: "st1\<lparr>pp_ifs := F\<rparr> = st1" using e [OF assms(2,2)] d by simp
  have g: "directive None self l (directive_column ln) (tl (skip_spaces (logical_line ln))) (st\<lparr>pp_ifs := G\<rparr>) = (True, st1\<lparr>pp_ifs := G\<rparr>)"
    using e [OF assms(3,2)] d by simp
  show ?thesis
    using process_directive [OF True d] process_directive [OF True g] f by (intro exI [of _ "push_newline l st1"]) (metis push_newline_ifs(1))
next
  case False
  have n: "\<not> opens_comment (logical_line ln)" using assms(1) by (simp add: quiet_def)
  obtain e errs where x: "expand_line_with_comments (pp_macros st) (logical_line ln) l False (pp_errors st) = (e, False, errs)"
    using line_loop_no_comment [OF n] unfolding expand_line_with_comments_def by (metis prod.collapse)
  have "process_line None self l False ln (st\<lparr>pp_ifs := H\<rparr>) = (False, (push_newline l (push_expanded e (st\<lparr>pp_errors := errs\<rparr>)))\<lparr>pp_ifs := H\<rparr>)"
    if "current_active (st\<lparr>pp_ifs := H\<rparr>)" for H
    using that False x by (cases rule: process_line_cases [of False ln None self l "st\<lparr>pp_ifs := H\<rparr>"]) (auto simp: push_expanded_def push_newline_def)
  then show ?thesis using assms(2,3) by blast
qed

definition uniform :: "(string \<Rightarrow> preprocess_state \<Rightarrow> preprocess_state) option \<Rightarrow> string list \<Rightarrow> bool" where
  "uniform self lns \<longleftrightarrow> (\<forall>st F G l. current_active (st\<lparr>pp_ifs := F\<rparr>) \<longrightarrow> current_active (st\<lparr>pp_ifs := G\<rparr>) \<longrightarrow>
     (\<exists>s'. line_fold None self l False lns (st\<lparr>pp_ifs := F\<rparr>) = (False, s'\<lparr>pp_ifs := F\<rparr>) \<and>
           line_fold None self l False lns (st\<lparr>pp_ifs := G\<rparr>) = (False, s'\<lparr>pp_ifs := G\<rparr>)))"

lemma uniformD:
  assumes "uniform self lns" "current_active (st\<lparr>pp_ifs := F\<rparr>)" "current_active (st\<lparr>pp_ifs := G\<rparr>)"
  obtains s' where "line_fold None self l False lns (st\<lparr>pp_ifs := F\<rparr>) = (False, s'\<lparr>pp_ifs := F\<rparr>)"
    "line_fold None self l False lns (st\<lparr>pp_ifs := G\<rparr>) = (False, s'\<lparr>pp_ifs := G\<rparr>)"
  using assms unfolding uniform_def by blast

lemma uniform_frame:
  assumes "uniform self lns" "balanced lns"
  obtains s' where "line_fold None self l False lns (st\<lparr>pp_ifs := fr # F\<rparr>) = (False, s'\<lparr>pp_ifs := fr # F\<rparr>)"
    "line_fold None self l False lns (st\<lparr>pp_ifs := fr # G\<rparr>) = (False, s'\<lparr>pp_ifs := fr # G\<rparr>)"
proof (cases "if_active fr")
  case True
  then have c: "current_active (st\<lparr>pp_ifs := fr # F\<rparr>)" "current_active (st\<lparr>pp_ifs := fr # G\<rparr>)" by (simp_all add: current_active_def)
  show thesis by (rule uniformD [OF assms(1) c]) (rule that)
next
  case False
  then have "\<not> current_active (st\<lparr>pp_ifs := fr # H\<rparr>)" for H by (simp add: current_active_def)
  from balanced_inactive [OF assms(2) this, of None self l] show thesis using that [of "blank_lines l (length lns) st"] by simp
qed

lemma uniformI:
  assumes "\<And>st F G l. current_active (st\<lparr>pp_ifs := F\<rparr>) \<Longrightarrow> current_active (st\<lparr>pp_ifs := G\<rparr>) \<Longrightarrow>
     \<exists>k s'. (\<forall>H \<in> {F, G}. line_fold None self l False lns (st\<lparr>pp_ifs := H\<rparr>) = line_fold None self k False rest (s'\<lparr>pp_ifs := H\<rparr>))"
    and "uniform self rest"
  shows "uniform self lns"
  unfolding uniform_def
proof (intro allI impI)
  fix st F G l assume a: "current_active (st\<lparr>pp_ifs := F\<rparr>)" "current_active (st\<lparr>pp_ifs := G\<rparr>)"
  then obtain k s1 where s1: "\<forall>H \<in> {F, G}. line_fold None self l False lns (st\<lparr>pp_ifs := H\<rparr>) = line_fold None self k False rest (s1\<lparr>pp_ifs := H\<rparr>)"
    using assms(1) by blast
  have "current_active (s1\<lparr>pp_ifs := F\<rparr>)" "current_active (s1\<lparr>pp_ifs := G\<rparr>)" using a by (simp_all add: current_active_def)
  then obtain s2 where "line_fold None self k False rest (s1\<lparr>pp_ifs := F\<rparr>) = (False, s2\<lparr>pp_ifs := F\<rparr>)"
    "line_fold None self k False rest (s1\<lparr>pp_ifs := G\<rparr>) = (False, s2\<lparr>pp_ifs := G\<rparr>)" by (rule uniformD [OF assms(2)])
  then show "\<exists>s'. line_fold None self l False lns (st\<lparr>pp_ifs := F\<rparr>) = (False, s'\<lparr>pp_ifs := F\<rparr>) \<and>
      line_fold None self l False lns (st\<lparr>pp_ifs := G\<rparr>) = (False, s'\<lparr>pp_ifs := G\<rparr>)" using s1 by auto
qed

lemma balanced_uniform: "balanced lns \<Longrightarrow> uniform self lns"
proof (induction rule: balanced.induct)
  case (Line ln lns)
  show ?case
  proof (rule uniformI [OF _ Line(3)])
    fix st F G l assume a: "current_active (st\<lparr>pp_ifs := F\<rparr>)" "current_active (st\<lparr>pp_ifs := G\<rparr>)"
    from quiet_active [OF Line(1) this, of self l] obtain s1 where
      "process_line None self l False ln (st\<lparr>pp_ifs := F\<rparr>) = (False, s1\<lparr>pp_ifs := F\<rparr>)"
      "process_line None self l False ln (st\<lparr>pp_ifs := G\<rparr>) = (False, s1\<lparr>pp_ifs := G\<rparr>)" by blast
    then show "\<exists>k s'. \<forall>H \<in> {F, G}. line_fold None self l False (ln # lns) (st\<lparr>pp_ifs := H\<rparr>) = line_fold None self k False lns (s'\<lparr>pp_ifs := H\<rparr>)"
      by (intro exI [of _ "l + 1"] exI [of _ s1]) auto
  qed
next
  case (If i as e lns)
  show ?case
  proof (rule uniformI [OF _ If.IH(2)])
    fix st F G l assume a: "current_active (st\<lparr>pp_ifs := F\<rparr>)" "current_active (st\<lparr>pp_ifs := G\<rparr>)"
    define fr where "fr = frame i (st\<lparr>pp_ifs := F\<rparr>)"
    have g: "fr = frame i (st\<lparr>pp_ifs := G\<rparr>)" using a by (simp add: fr_def)
    obtain s2 where s2: "line_fold None self (l + 1) False as ((push_newline l st)\<lparr>pp_ifs := fr # F\<rparr>) = (False, s2\<lparr>pp_ifs := fr # F\<rparr>)"
      "line_fold None self (l + 1) False as ((push_newline l st)\<lparr>pp_ifs := fr # G\<rparr>) = (False, s2\<lparr>pp_ifs := fr # G\<rparr>)"
      using uniform_frame [OF If.IH(1) If.hyps(3)] by blast
    show "\<exists>k s'. \<forall>H \<in> {F, G}. line_fold None self l False (i # as @ e # lns) (st\<lparr>pp_ifs := H\<rparr>) = line_fold None self k False lns (s'\<lparr>pp_ifs := H\<rparr>)"
      using block_fold [OF If.hyps(1,4), of None self l as "st\<lparr>pp_ifs := _\<rparr>" s2 lns] s2 fr_def g
      by (intro exI [of _ "l + length as + 2"] exI [of _ "push_newline (l + length as + 1) s2"]) auto
  qed
next
  case (Else i as m bs e lns)
  show ?case
  proof (rule uniformI [OF _ Else.IH(3)])
    fix st F G l assume a: "current_active (st\<lparr>pp_ifs := F\<rparr>)" "current_active (st\<lparr>pp_ifs := G\<rparr>)"
    define fr where "fr = frame i (st\<lparr>pp_ifs := F\<rparr>)"
    have g: "fr = frame i (st\<lparr>pp_ifs := G\<rparr>)" using a by (simp add: fr_def)
    obtain s2 where s2: "line_fold None self (l + 1) False as ((push_newline l st)\<lparr>pp_ifs := fr # F\<rparr>) = (False, s2\<lparr>pp_ifs := fr # F\<rparr>)"
      "line_fold None self (l + 1) False as ((push_newline l st)\<lparr>pp_ifs := fr # G\<rparr>) = (False, s2\<lparr>pp_ifs := fr # G\<rparr>)"
      using uniform_frame [OF Else.IH(1) Else.hyps(3)] by blast
    let ?s = "push_newline (l + length as + 1) s2"
    obtain s3 where s3: "line_fold None self (l + length as + 2) False bs (?s\<lparr>pp_ifs := else_frame fr # F\<rparr>) = (False, s3\<lparr>pp_ifs := else_frame fr # F\<rparr>)"
      "line_fold None self (l + length as + 2) False bs (?s\<lparr>pp_ifs := else_frame fr # G\<rparr>) = (False, s3\<lparr>pp_ifs := else_frame fr # G\<rparr>)"
      using uniform_frame [OF Else.IH(2) Else.hyps(6)] by blast
    show "\<exists>k s'. \<forall>H \<in> {F, G}. line_fold None self l False (i # as @ m # bs @ e # lns) (st\<lparr>pp_ifs := H\<rparr>) = line_fold None self k False lns (s'\<lparr>pp_ifs := H\<rparr>)"
      using block_else_fold [OF Else.hyps(1,4,7), of None self l as "st\<lparr>pp_ifs := _\<rparr>" s2 bs s3 lns] s2 s3 fr_def g
      by (intro exI [of _ "l + length as + length bs + 3"] exI [of _ "push_newline (l + length as + length bs + 2) s3"]) auto
  qed
qed (auto simp: uniform_def)

lemma conditional_fold:
  assumes "conditional i" "balanced as" "directive_word m = ''else''" "balanced bs" "directive_word e = ''endif''" "current_active st"
  shows "line_fold None self l False (i # as @ m # bs @ [e]) st =
    (False, if selects i (pp_macros st)
       then blank_lines (l + length as + 1) (length bs + 2) (snd (line_fold None self (l + 1) False as (push_newline l st)))
       else push_newline (l + length as + length bs + 2) (snd (line_fold None self (l + length as + 2) False bs (blank_lines l (length as + 2) st))))"
proof -
  let ?I = "pp_ifs st" and ?fr = "frame i st" and ?p = "push_newline l st"
  have ia: "\<not> if_active fr \<Longrightarrow> balanced lns \<Longrightarrow> line_fold None self k False lns (s\<lparr>pp_ifs := fr # ?I\<rparr>) = (False, (blank_lines k (length lns) s)\<lparr>pp_ifs := fr # ?I\<rparr>)" for fr k lns s
    using balanced_inactive [of lns "s\<lparr>pp_ifs := fr # ?I\<rparr>"] by (simp add: current_active_def)
  have ac: "\<exists>s'. line_fold None self k False lns (s\<lparr>pp_ifs := fr # ?I\<rparr>) = (False, s'\<lparr>pp_ifs := fr # ?I\<rparr>) \<and>
      line_fold None self k False lns (s\<lparr>pp_ifs := ?I\<rparr>) = (False, s'\<lparr>pp_ifs := ?I\<rparr>)" if "if_active fr" "balanced lns" for fr k lns s
  proof -
    have c: "current_active (s\<lparr>pp_ifs := fr # ?I\<rparr>)" "current_active (s\<lparr>pp_ifs := ?I\<rparr>)" using that assms(6) by (simp_all add: current_active_def)
    show ?thesis by (rule uniformD [OF balanced_uniform [OF that(2)] c]) blast
  qed
  show ?thesis
  proof (cases "selects i (pp_macros st)")
    case True
    obtain s2 where s2: "line_fold None self (l + 1) False as (?p\<lparr>pp_ifs := ?fr # ?I\<rparr>) = (False, s2\<lparr>pp_ifs := ?fr # ?I\<rparr>)"
      "line_fold None self (l + 1) False as (?p\<lparr>pp_ifs := ?I\<rparr>) = (False, s2\<lparr>pp_ifs := ?I\<rparr>)"
      using ac [of ?fr as "l + 1" ?p] True assms(2,6) by auto
    have "\<not> if_active (else_frame ?fr)" using True by (simp add: else_frame_def)
    note s3 = ia [OF this assms(4), of "l + length as + 2" "push_newline (l + length as + 1) s2"]
    show ?thesis
      using block_else_fold [OF assms(1,3,5) s2(1) s3, of "[]"] True s2(2) blank_next [of "l + length as + 1" "Suc (length bs)" s2]
      by (simp add: push_newline_def)
  next
    case False
    have "\<not> if_active ?fr" using False by simp
    note s2 = ia [OF this assms(2), of "l + 1" ?p]
    let ?b = "blank_lines l (length as + 2) st"
    have n: "push_newline (l + length as + 1) (blank_lines (l + 1) (length as) ?p) = ?b" using blank_next [of l "Suc (length as)" st] by simp
    have "if_active (else_frame ?fr)" using False assms(6) by (simp add: else_frame_def)
    then obtain s3 where s3: "line_fold None self (l + length as + 2) False bs (?b\<lparr>pp_ifs := else_frame ?fr # ?I\<rparr>) = (False, s3\<lparr>pp_ifs := else_frame ?fr # ?I\<rparr>)"
      "line_fold None self (l + length as + 2) False bs (?b\<lparr>pp_ifs := ?I\<rparr>) = (False, s3\<lparr>pp_ifs := ?I\<rparr>)"
      using ac [of "else_frame ?fr" bs "l + length as + 2" ?b] assms(4) by auto
    show ?thesis
      using block_else_fold [OF assms(1,3,5), of None self l as st "blank_lines (l + 1) (length as) ?p" bs s3 "[]"] s2 s3(1) n False s3(2) [unfolded blank_lines_same]
      by (simp del: blank_lines.simps)
  qed
qed

end
