(* ===== verification/Preprocess_Facts.thy ===== *)
theory Preprocess_Facts
  imports Preprocess_Cond
begin

text \<open>
  The properties of the preprocessor, alone and together with the lexer.
\<close>

subsection \<open>Positions\<close>

text \<open>
  Whatever the source, the macros and the included files, the source map has exactly one
  position per character of the preprocessed text, so every token of the preprocessed text gets
  the line and the column recorded for its first character and none falls back to its place in the
  expanded text.
\<close>

theorem preprocessed_tokens_mapped:
  "\<exists>ps. concat (map snd ps) = pp_output (preprocess opt src) \<and> pieces_ok ps \<and>
     length (pp_source_map (preprocess opt src)) = length (pp_output (preprocess opt src)) \<and>
     lx_tokens (lex (Some (pp_source_map (preprocess opt src))) (pp_output (preprocess opt src))) =
       mapped_tokens (pp_source_map (preprocess opt src)) 0 ps @ [eof_at (pp_output (preprocess opt src))]"
proof -
  let ?r = "preprocess opt src" and ?ps = "pieces (pp_output (preprocess opt src))"
  have ok: "pieces_ok ?ps" by (rule pieces_are_ok)
  have "length (pp_source_map ?r) = length (pp_output ?r)" using preprocess_ok by (simp add: pp_ok_def)
  moreover from this have "lx_tokens (lex (Some (pp_source_map ?r)) (pp_output ?r)) = mapped_tokens (pp_source_map ?r) 0 ?ps @ [eof_at (pp_output ?r)]"
    using tokens_of_mapped [OF pieces_ok_nonempty [OF ok], of "pp_source_map ?r" "[]"] by (simp add: lex_pieces pieces_concat)
  ultimately show ?thesis using ok pieces_concat by blast
qed

text \<open>
  C32: Without includes preprocessing keeps line numbers: the output has exactly as many lines as
  the source, and the line recorded for every character, inside expanded macros too, is the line
  it stands on.
\<close>

theorem line_numbers_kept:
  assumes "include_resolver opt = None"
  shows "map fst (pp_source_map (preprocess opt src)) = line_numbers 1 (pp_output (preprocess opt src)) \<and>
    count_list (pp_output (preprocess opt src)) newline = length (split_lines src)"
proof -
  obtain self where "keeps_ok self" "preprocess opt src = snd (line_fold None self 1 False (split_lines src) new_preprocess_state)"
    using preprocess_fold assms by metis
  then have "lines_kept (1 + length (split_lines src)) (preprocess opt src)"
    using line_fold_lines [OF new_state_ok, of "split_lines src" self False] split_lines_one_line by auto
  then show ?thesis by (simp add: lines_kept_def)
qed

theorem line_numbers_kept_witness:
  "map fst (pp_source_map (preprocess default_preprocess_options (join_lines [''`ifdef A'', ''x'', ''`endif'', ''y'']))) = [1, 2, 3, 4, 4] \<and>
   count_list (pp_output (preprocess default_preprocess_options (join_lines [''`ifdef A'', ''x'', ''`endif'', ''y'']))) newline = 4"
proof -
  have r: "include_resolver default_preprocess_options = None" by (simp add: default_preprocess_options_def)
  have o: "pp_output (preprocess default_preprocess_options (join_lines [''`ifdef A'', ''x'', ''`endif'', ''y''])) =
      [newline, newline, newline, CHR ''y'', newline]" by code_simp
  have l: "split_lines (join_lines [''`ifdef A'', ''x'', ''`endif'', ''y'']) = [''`ifdef A'', ''x'', ''`endif'', ''y'']" by (rule split_join_lines) simp
  show ?thesis using line_numbers_kept [OF r, of "join_lines [''`ifdef A'', ''x'', ''`endif'', ''y'']"] unfolding o l by simp
qed

subsection \<open>Text without directives\<close>

lemma set_split_lines: "ln \<in> set (split_lines s) \<Longrightarrow> set ln \<subseteq> set s"
proof (induction s rule: split_lines.induct)
  case (2 c s)
  let ?t = "takeWhile (\<lambda>x. x \<noteq> newline) (c # s)"
  have "ln = ?t \<or> ln \<in> set (split_lines (drop (Suc (length ?t)) (c # s)))" using 2(2) unfolding split_lines.simps(2) by (rule set_ConsD)
  then show ?case
  proof
    assume "ln = ?t"
    then show ?thesis by (metis set_takeWhileD subsetI)
  qed (metis 2(1) set_drop_subset subset_trans)
qed simp

text \<open>
  C31: A source without macro characters and carriage returns that ends with a newline is its own
  preprocessed text, without errors, and lexing it with the source map gives exactly the tokens,
  errors, lines and columns that lexing the source directly gives.
\<close>

theorem plain_text_unchanged:
  assumes "CHR ''`'' \<notin> set src" "CHR 0x0D \<notin> set src" "src = [] \<or> last src = newline" "length src < 2 ^ 32"
  shows "pp_output (preprocess opt src) = src \<and> pp_errors (preprocess opt src) = [] \<and>
    lex (Some (pp_source_map (preprocess opt src))) src = lex None src"
proof -
  let ?new = new_preprocess_state
  obtain self where p: "preprocess opt src = snd (line_fold (include_resolver opt) self 1 False (split_lines src) ?new)"
    using preprocess_fold by metis
  have j: "join_lines (split_lines src) = src" using join_split_lines [OF assms(3)] .
  have "\<forall>ln \<in> set (split_lines src). CHR ''`'' \<notin> set ln \<and> CHR 0x0D \<notin> set ln \<and> one_line ln"
    using assms(1,2) split_lines_one_line set_split_lines by blast
  moreover have "pp_ifs ?new = []" "exact_map ?new" "position_after (pp_output ?new) = (1, 1)" "pp_output ?new = []" "pp_errors ?new = []"
    by (simp_all add: new_preprocess_state_def exact_map_def)
  ultimately have r: "exact_map (preprocess opt src)" "pp_output (preprocess opt src) = src" "pp_errors (preprocess opt src) = []"
    using line_fold_plain [of "split_lines src" ?new 1 "include_resolver opt" self False] p j by auto
  then show ?thesis using exact_map_lex [OF r(1), of "[]" src] assms(4) by (simp add: lex_def)
qed

theorem plain_text_unchanged_witness:
  "pp_output (preprocess default_preprocess_options (join_lines [''/* a'', ''*/ wire b;''])) = join_lines [''/* a'', ''*/ wire b;''] \<and>
   pp_errors (preprocess default_preprocess_options (join_lines [''/* a'', ''*/ wire b;''])) = [] \<and>
   map token_key (lx_tokens (lex (Some (pp_source_map (preprocess default_preprocess_options (join_lines [''/* a'', ''*/ wire b;'']))))
     (join_lines [''/* a'', ''*/ wire b;'']))) = [(tk_identifier, ''wire''), (tk_identifier, ''b''), (tk_symbol, '';''), (tk_eof, [])]"
proof -
  have t: "map token_key (lx_tokens (lex None (join_lines [''/* a'', ''*/ wire b;'']))) =
      [(tk_identifier, ''wire''), (tk_identifier, ''b''), (tk_symbol, '';''), (tk_eof, [])]" by code_simp
  show ?thesis
    using plain_text_unchanged [of "join_lines [''/* a'', ''*/ wire b;'']" default_preprocess_options] t by simp
qed

subsection \<open>Conditional compilation\<close>

text \<open>
  C30: For well-nested lines that open no block comment and of which every one that begins with a
  backtick is a directive the code knows (a line that begins with a macro use is refused, in a
  branch that is not selected too), and without an include resolver, a conditional block in an
  active place does exactly this: when the macro test selects the first branch its lines are
  processed as if they stood there alone and every other line of the block leaves one empty line;
  when not, the same with the second branch. Nested conditionals, definitions and macro uses
  inside a line in the branch that is not selected have no effect and cause no error.
\<close>

theorem conditional_block_selected:
  assumes "conditional i" "one_line i" "balanced as" "directive_word m = ''else''" "one_line m" "balanced bs"
    and "directive_word e = ''endif''" "one_line e" "current_active st"
  shows "process_lines None self l False (join_lines (i # as @ m # bs @ [e])) st =
    (if selects i (pp_macros st)
     then blank_lines (l + length as + 1) (length bs + 2) (process_lines None self (l + 1) False (join_lines as) (push_newline l st))
     else push_newline (l + length as + length bs + 2)
            (process_lines None self (l + length as + 2) False (join_lines bs) (blank_lines l (length as + 2) st)))"
proof -
  have o: "\<forall>ln \<in> set as. one_line ln" "\<forall>ln \<in> set bs. one_line ln" using balanced_one_line assms(3,6) by blast+
  then have a: "\<forall>ln \<in> set (i # as @ m # bs @ [e]). one_line ln" using assms(2,5,8) by auto
  show ?thesis
    unfolding process_lines_fold split_join_lines [OF a] split_join_lines [OF o(1)] split_join_lines [OF o(2)]
      conditional_fold [OF assms(1,3,4,6,7,9)] by (rule snd_conv)
qed

theorem conditional_block_selected_witness:
  "current_active new_preprocess_state \<and> \<not> selects ''`ifdef A'' (pp_macros new_preprocess_state) \<and>
   process_lines None None 1 False (join_lines [''`ifdef A'', ''x'', ''`ifdef B'', ''`endif'', ''`else'', ''y'', ''`endif'']) new_preprocess_state =
     push_newline 7 (process_lines None None 6 False (join_lines [''y'']) (blank_lines 1 5 new_preprocess_state))"
proof -
  have q: "quiet ''x''" "quiet ''y''" "conditional ''`ifdef A''" "conditional ''`ifdef B''" "directive_word ''`else'' = ''else''"
    "directive_word ''`endif'' = ''endif''" by code_simp+
  have b: "balanced [''x'', ''`ifdef B'', ''`endif'']" "balanced [''y'']"
    using balanced.If [OF q(4) _ balanced.Nil q(6) _ balanced.Nil] balanced.Line [OF q(1)] balanced.Line [OF q(2) balanced.Nil] by simp_all
  have s: "current_active new_preprocess_state" "\<not> selects ''`ifdef A'' (pp_macros new_preprocess_state)" by code_simp+
  show ?thesis
    using conditional_block_selected [OF q(3) _ b(1) q(5) _ b(2) q(6) _ s(1), of None 1] s by (simp add: numeral_eq_Suc)
qed

subsection \<open>A block comment that ends with its line\<close>

fun closes_comment :: "string \<Rightarrow> bool" where
  "closes_comment [] \<longleftrightarrow> False"
| "closes_comment (c # s) \<longleftrightarrow> c = CHR ''*'' \<and> s \<noteq> [] \<and> hd s = CHR ''/'' \<or> closes_comment s"

lemma find_end_none: "\<not> closes_comment s \<Longrightarrow> find_block_comment_end s = length s"
  by (induction s rule: find_block_comment_end.induct) auto

lemma find_end_last: "CHR ''*'' \<notin> set u \<Longrightarrow> find_block_comment_end (u @ ''*/'') = length u + 2"
proof (induction u)
  case (Cons c u)
  then show ?case by (cases "u @ ''*/''") auto
qed simp

lemma process_line_in_comment:
  assumes "\<not> closes_comment ln" "CHR 0x0D \<notin> set ln" "current_active st"
  shows "process_line res self l True ln st = (True, push_newline l (push_expanded (append_passthrough ln l 1 no_text) st))"
proof -
  have "expand_line_with_comments (pp_macros st) ln l True (pp_errors st) = (append_passthrough ln l 1 no_text, True, pp_errors st)"
    using find_end_none [OF assms(1)] unfolding expand_line_with_comments_def by (cases ln) (simp_all add: Let_def)
  then show ?thesis using assms(2,3) by (cases rule: process_line_cases [of True ln res self l st]) (simp_all add: logical_line_plain)
qed

lemma line_fold_in_comment:
  assumes "\<forall>ln \<in> set lns. \<not> closes_comment ln \<and> CHR 0x0D \<notin> set ln" "current_active st"
  shows "\<exists>st'. line_fold res self l True lns st = (True, st') \<and> pp_output st' = pp_output st @ join_lines lns \<and>
    pp_errors st' = pp_errors st \<and> pp_macros st' = pp_macros st"
  using assms
proof (induction lns arbitrary: l st)
  case (Cons ln lns)
  let ?st = "push_newline l (push_expanded (append_passthrough ln l 1 no_text) st)"
  have "process_line res self l True ln st = (True, ?st)" using process_line_in_comment Cons(2,3) by auto
  moreover have "current_active ?st" "pp_output ?st = pp_output st @ ln @ [newline]" "pp_errors ?st = pp_errors st" "pp_macros ?st = pp_macros st"
    using Cons(3) by (simp_all add: current_active_def push_newline_def push_expanded_def no_text_def)
  ultimately show ?case using Cons(1) [of ?st "l + 1"] Cons(2) by auto
qed simp

lemma process_comment_line:
  assumes "CHR ''*'' \<notin> set u" "CHR 0x0D \<notin> set u" "current_active st"
  shows "process_line res self l False (''/*'' @ u @ ''*/'') st =
    (True, push_newline l (push_expanded (append_passthrough (''/*'' @ u @ ''*/'') l 1 no_text) st))"
proof -
  let ?t = "''/*'' @ u @ ''*/''"
  have "expand_line_with_comments (pp_macros st) ?t l False (pp_errors st) = (append_passthrough ?t l 1 no_text, True, pp_errors st)"
    using find_end_last [OF assms(1)] unfolding expand_line_with_comments_def by (simp add: comment_opens_def Let_def)
  moreover have "logical_line ?t = ?t" using assms(2) by (intro logical_line_plain) auto
  moreover have "\<not> is_directive ?t" using calculation(2) by (simp add: is_directive_def skip_spaces_def is_inline_space_def is_space_def)
  ultimately show ?thesis using assms(3) by (cases rule: process_line_cases [of False ?t res self l st]) simp_all
qed

text \<open>
  C33: After a block comment that begins a source and ends exactly at the end of its line the
  preprocessor still believes to be inside the comment: as long as no later line closes a comment,
  no directive is obeyed, no macro is expanded and no error is reported; the whole text is passed
  on as it is.
\<close>

theorem comment_at_line_end_hides_directives:
  assumes "CHR ''*'' \<notin> set u" "CHR 0x0D \<notin> set u" "one_line u"
    and "list_all (\<lambda>ln. \<not> closes_comment ln \<and> CHR 0x0D \<notin> set ln \<and> one_line ln) lns"
  shows "pp_output (preprocess opt (join_lines ((''/*'' @ u @ ''*/'') # lns))) = join_lines ((''/*'' @ u @ ''*/'') # lns) \<and>
    pp_errors (preprocess opt (join_lines ((''/*'' @ u @ ''*/'') # lns))) = [] \<and>
    pp_macros (preprocess opt (join_lines ((''/*'' @ u @ ''*/'') # lns))) = Map.empty"
proof -
  let ?t = "''/*'' @ u @ ''*/''" and ?new = new_preprocess_state
  obtain self where p: "preprocess opt (join_lines (?t # lns)) = snd (line_fold (include_resolver opt) self 1 False (split_lines (join_lines (?t # lns))) ?new)"
    using preprocess_fold by metis
  have a: "\<forall>ln \<in> set (?t # lns). one_line ln" using assms(3,4) by (auto simp: list_all_iff)
  let ?st = "push_newline 1 (push_expanded (append_passthrough ?t 1 1 no_text) ?new)"
  have n: "current_active ?new" by (simp add: current_active_def new_preprocess_state_def)
  have s: "current_active ?st" "pp_output ?st = ?t @ [newline]" "pp_errors ?st = []" "pp_macros ?st = Map.empty"
    by (simp_all add: current_active_def push_newline_def push_expanded_def no_text_def new_preprocess_state_def append_char_def)
  obtain st' where "line_fold (include_resolver opt) self (1 + 1) True lns ?st = (True, st')" "pp_output st' = pp_output ?st @ join_lines lns"
    "pp_errors st' = pp_errors ?st" "pp_macros st' = pp_macros ?st"
    using line_fold_in_comment [of lns ?st "include_resolver opt" self "1 + 1"] s(1) assms(4) by (auto simp: list_all_iff)
  then show ?thesis
    using s(2-4) process_comment_line [OF assms(1,2) n, of "include_resolver opt" self 1]
    unfolding p split_join_lines [OF a] line_fold.simps by simp
qed

theorem comment_at_line_end_hides_directives_witness:
  "pp_output (preprocess default_preprocess_options (join_lines [''/* c */'', ''`define N 1'', ''assign y = `N;''])) =
     join_lines [''/* c */'', ''`define N 1'', ''assign y = `N;''] \<and>
   pp_errors (preprocess default_preprocess_options (join_lines [''/* c */'', ''`define N 1'', ''assign y = `N;''])) = []"
  using comment_at_line_end_hides_directives [of "'' c ''" "[''`define N 1'', ''assign y = `N;'']" default_preprocess_options] by simp

subsection \<open>Macros without parameters\<close>

definition is_identifier :: "string \<Rightarrow> bool" where
  "is_identifier n \<longleftrightarrow> n \<noteq> [] \<and> is_alpha (hd n) \<and> list_all is_ident_continue n"

text \<open>Text that a segment of a line passes to the expander in one piece and that holds no macro use.\<close>

definition plain_segment :: "string \<Rightarrow> bool" where
  "plain_segment s \<longleftrightarrow> list_all (\<lambda>c. c \<notin> {CHR ''`'', CHR 0x22, CHR ''/'', CHR 0x0D, newline}) s"

lemma parse_ident_name:
  assumes "is_identifier n" "post = [] \<or> \<not> is_ident_continue (hd post)"
  shows "parse_ident (n @ post) = (n, post)"
proof -
  obtain c cs where n: "n = c # cs" using assms(1) by (cases n) (auto simp: is_identifier_def)
  have all: "\<And>x. x \<in> set cs \<Longrightarrow> is_ident_continue x" using assms(1) n by (auto simp: is_identifier_def list_all_iff)
  then have "takeWhile is_ident_continue (cs @ post) = cs" "dropWhile is_ident_continue (cs @ post) = post"
    using assms(2) by (cases post; simp add: takeWhile_append2 dropWhile_append2)+
  then show ?thesis using assms(1) n by (simp add: parse_ident_def is_identifier_def)
qed

lemma next_special_plain: "CHR 0x22 \<notin> set s \<Longrightarrow> CHR ''/'' \<notin> set s \<Longrightarrow> next_special s = length s"
  by (induction s) (auto simp: comment_opens_def)

lemma expand_loop_prefix:
  "CHR ''`'' \<notin> set pre \<Longrightarrow> expand_loop self ms stack l col (pre @ s) r errs = expand_loop self ms stack l (col + length pre) s (append_passthrough pre l col r) errs"
  by (induction pre arbitrary: col r) auto

lemma plain_segmentD:
  assumes "plain_segment s"
  shows "CHR ''`'' \<notin> set s" "CHR 0x22 \<notin> set s" "CHR ''/'' \<notin> set s" "CHR 0x0D \<notin> set s" "one_line s"
  using assms by (auto simp: plain_segment_def list_all_iff)

lemma identifier_plain: "is_identifier n \<Longrightarrow> plain_segment n"
  by (fastforce simp: plain_segment_def is_identifier_def list_all_iff is_ident_continue_def is_alpha_def is_digit_def)

lemma expand_line_use:
  assumes "is_identifier n" "ms n = Some md" "\<not> function_like md" "CHR ''`'' \<notin> set (md_body md)"
    and "plain_segment pre" "plain_segment post" "post = [] \<or> \<not> is_ident_continue (hd post)"
  shows "\<exists>e. expand_line_with_comments ms (pre @ CHR ''`'' # n @ post) l False errs = (e, False, errs) \<and> er_text e = pre @ md_body md @ post"
proof -
  let ?s = "pre @ CHR ''`'' # n @ post" and ?ex = "expand_text ms (Suc max_macro_depth) [] l"
  have ns: "next_special ?s = length ?s"
    using plain_segmentD [OF assms(5)] plain_segmentD [OF assms(6)] plain_segmentD [OF identifier_plain [OF assms(1)]] by (intro next_special_plain) simp_all
  let ?e = "append_passthrough (md_body md) l (1 + length pre) no_text"
  let ?r = "append_passthrough post l (1 + length pre + 1 + length n) (append_expanded ?e (append_passthrough pre l 1 no_text))"
  have bt: "CHR ''`'' \<notin> set pre" "CHR ''`'' \<notin> set post" using plain_segmentD(1) assms(5,6) by blast+
  have body: "expand_text ms max_macro_depth st l c (md_body md) es = (append_passthrough (md_body md) l c no_text, es)" for st c es
    using assms(4) by (simp add: max_macro_depth_def numeral_eq_Suc expand_loop_plain)
  have "n \<noteq> []" using assms(1) by (simp add: is_identifier_def)
  then have "?ex 1 ?s errs = (?r, errs)"
    using assms(2,3) bt parse_ident_name [OF assms(1,7)] body
    by (simp add: expand_loop_prefix expand_loop_plain expand_use_def)
  moreover have "line_loop ?ex l 0 ?s False no_text errs = (append_expanded (fst (?ex 1 ?s errs)) no_text, False, snd (?ex 1 ?s errs))"
  proof (cases ?s)
    case (Cons c t)
    then show ?thesis using ns by (simp add: Let_def case_prod_beta del: expand_text.simps next_special.simps)
  qed simp
  ultimately show ?thesis unfolding expand_line_with_comments_def by (simp add: append_expanded_def no_text_def)
qed

lemma process_define:
  assumes "is_identifier n" "plain_segment body" "body = [] \<or> \<not> is_inline_space (hd body)" "current_active st"
  shows "process_line res self l False (''`define '' @ n @ CHR '' '' # body) st =
    (False, push_newline l (st\<lparr>pp_macros := (pp_macros st)(n \<mapsto> \<lparr>function_like = False, md_params = [], md_body = body\<rparr>)\<rparr>))"
proof -
  let ?ln = "''`define '' @ n @ CHR '' '' # body"
  have "CHR 0x0D \<notin> set ?ln" using plain_segmentD [OF assms(2)] plain_segmentD [OF identifier_plain [OF assms(1)]] by simp
  then have ll: "logical_line ?ln = ?ln" by (rule logical_line_plain)
  have d2: "skip_spaces ?ln = ?ln" by (simp add: skip_spaces_def is_inline_space_def is_space_def)
  have d: "is_directive ?ln" unfolding is_directive_def ll d2 by simp
  have sp: "\<not> is_ident_continue CHR '' ''" by (simp add: is_ident_continue_def is_alpha_def is_digit_def)
  have kw: "parse_ident (dropWhile is_space (tl ?ln)) = (''define'', CHR '' '' # n @ CHR '' '' # body)"
    by (simp add: parse_ident_def is_space_def is_ident_continue_def is_alpha_def is_digit_def)
  have s0: "skip_spaces (CHR '' '' # n @ CHR '' '' # body) = n @ CHR '' '' # body"
  proof -
    obtain c cs where n: "n = c # cs" "is_alpha c" using assms(1) by (cases n) (auto simp: is_identifier_def)
    then have "\<not> is_space c" by (auto simp: is_alpha_def is_space_def)
    then show ?thesis using n by (simp add: skip_spaces_def is_inline_space_def is_space_def)
  qed
  have s1: "skip_spaces (CHR '' '' # body) = body"
    using assms(3) by (cases body) (auto simp: skip_spaces_def is_inline_space_def is_space_def)
  have "parse_ident (n @ CHR '' '' # body) = (n, CHR '' '' # body)" using parse_ident_name [OF assms(1)] sp by simp
  moreover have "n \<noteq> []" using assms(1) by (simp add: is_identifier_def)
  ultimately have "directive res self l c (tl (skip_spaces (logical_line ?ln))) st =
      (True, st\<lparr>pp_macros := (pp_macros st)(n \<mapsto> \<lparr>function_like = False, md_params = [], md_body = body\<rparr>)\<rparr>)" for c
    unfolding ll d2 directive_def kw using s0 s1 assms(4) by (simp add: define_directive_def)
  then show ?thesis by (rule process_directive [OF d])
qed

text \<open>
  In any active state, a definition of a macro without parameters leaves an empty line, and a use of its
  name in the next line, after some visible text, is replaced by exactly its body, whatever was defined
  before, with the text around it unchanged and no error. Body and text around have no quotes, slashes,
  backticks and carriage returns; a use that begins its line is refused as an unsupported directive.
\<close>

theorem object_macro_expanded:
  assumes "is_identifier n" "plain_segment body" "body = [] \<or> \<not> is_inline_space (hd body)"
    and "plain_segment pre" "\<not> list_all is_inline_space pre" "plain_segment post" "post = [] \<or> \<not> is_ident_continue (hd post)"
    and "current_active st"
  shows "pp_output (process_lines res self l False (join_lines [''`define '' @ n @ CHR '' '' # body, pre @ CHR ''`'' # n @ post]) st) =
      pp_output st @ [newline] @ pre @ body @ post @ [newline] \<and>
    pp_errors (process_lines res self l False (join_lines [''`define '' @ n @ CHR '' '' # body, pre @ CHR ''`'' # n @ post]) st) = pp_errors st"
proof -
  let ?d = "''`define '' @ n @ CHR '' '' # body" and ?u = "pre @ CHR ''`'' # n @ post"
  let ?md = "\<lparr>function_like = False, md_params = [], md_body = body\<rparr>"
  let ?st = "push_newline l (st\<lparr>pp_macros := (pp_macros st)(n \<mapsto> ?md)\<rparr>)"
  have chars: "\<forall>ln \<in> set [?d, ?u]. one_line ln" "CHR 0x0D \<notin> set ?u"
    using plain_segmentD [OF assms(2)] plain_segmentD [OF assms(4)] plain_segmentD [OF assms(6)] plain_segmentD [OF identifier_plain [OF assms(1)]] by simp_all
  have ll: "logical_line ?u = ?u" by (rule logical_line_plain [OF chars(2)])
  obtain c where c: "c \<in> set pre" "\<not> is_inline_space c" using assms(5) by (auto simp: list_all_iff)
  let ?w = "dropWhile is_inline_space pre"
  have w: "skip_spaces ?u = ?w @ CHR ''`'' # n @ post" "?w \<noteq> []" using c by (auto simp: skip_spaces_def)
  have "hd ?w \<in> set pre" using hd_in_set [OF w(2)] by (rule set_dropWhileD)
  then have "hd (skip_spaces ?u) \<in> set pre" unfolding w(1) hd_append2 [OF w(2)] .
  then have nd: "\<not> is_directive ?u" using plain_segmentD(1) [OF assms(4)] by (auto simp: is_directive_def ll)
  have "CHR ''`'' \<notin> set (md_body ?md)" using plain_segmentD(1) [OF assms(2)] by simp
  then obtain e where e: "expand_line_with_comments (pp_macros ?st) ?u (l + 1) False (pp_errors ?st) = (e, False, pp_errors ?st)" "er_text e = pre @ body @ post"
    using expand_line_use [OF assms(1), of "pp_macros ?st" ?md pre post "l + 1" "pp_errors ?st"] assms(4,6,7) by auto
  have ac: "current_active ?st" using assms(8) by (simp add: current_active_def)
  have "process_line res self (l + 1) False ?u ?st = (False, push_newline (l + 1) (push_expanded e ?st))"
    using nd ac e(1) ll by (cases rule: process_line_cases [of False ?u res self "l + 1" ?st]) auto
  then have "process_lines res self l False (join_lines [?d, ?u]) st = push_newline (l + 1) (push_expanded e ?st)"
    unfolding process_lines_fold split_join_lines [OF chars(1)] using process_define [OF assms(1-3,8), of res self l] by simp
  then show ?thesis using e(2) by (simp add: push_newline_def push_expanded_def)
qed

theorem object_macro_expanded_witness:
  "pp_output (process_lines None None 1 False (join_lines [''`define N 7'', ''wire [`N:0] a;'']) new_preprocess_state) = [newline] @ ''wire [7:0] a;'' @ [newline] \<and>
   pp_errors (process_lines None None 1 False (join_lines [''`define N 7'', ''wire [`N:0] a;'']) new_preprocess_state) = []"
proof -
  have h: "is_identifier ''N''" "plain_segment ''7''" "\<not> is_inline_space (hd ''7'')" "plain_segment ''wire [''" "\<not> list_all is_inline_space ''wire [''"
    "plain_segment '':0] a;''" "\<not> is_ident_continue (hd '':0] a;'')" "current_active new_preprocess_state"
    "pp_output new_preprocess_state = []" "pp_errors new_preprocess_state = []" by code_simp+
  show ?thesis using object_macro_expanded [OF h(1,2) disjI2 [OF h(3)] h(4-6) disjI2 [OF h(7)] h(8), of None None 1] h(9,10) by simp
qed

end
