(* ===== verification/Literals.thy ===== *)
theory Literals
  imports Lexer_Props Logic4 Bits
begin

text \<open>
  The number literals of the Verilog front end (\<^verbatim>\<open>parse_dec_uint64\<close> to \<^verbatim>\<open>parse_literal_bits\<close> in \<^verbatim>\<open>digital.h\<close>):
  from the text of a number token to MSB-first bits. A failure is \<open>None\<close>.
\<close>

subsection \<open>Decimal numbers\<close>

definition digit_value :: "char \<Rightarrow> nat" where
  "digit_value c = ascii c - ascii CHR ''0''"

fun dec_loop :: "u64 \<Rightarrow> string \<Rightarrow> u64 option" where
  "dec_loop v [] = Some v"
| "dec_loop v (c # t) =
     (if c = CHR ''_'' then dec_loop v t
      else if \<not> is_digit c then None
      else (let digit = word_of_nat (digit_value c)
            in if (- 1 - digit) div 10 < v then None else dec_loop (v * 10 + digit) t))"

definition parse_dec_uint64 :: "string \<Rightarrow> u64 option" where
  "parse_dec_uint64 t = (if t = [] then None else dec_loop 0 t)"

text \<open>A signed 64-bit result is the word with its bits.\<close>

definition parse_dec_int64 :: "string \<Rightarrow> u64 option" where
  "parse_dec_int64 t =
     (case t of [] \<Rightarrow> None
      | c # u \<Rightarrow>
          if c = CHR ''-''
          then (if u = [] then None
                else (case dec_loop 0 u of None \<Rightarrow> None | Some v \<Rightarrow> if 2 ^ 63 < v then None else Some (- v)))
          else (case dec_loop 0 t of None \<Rightarrow> None | Some v \<Rightarrow> if 2 ^ 63 - 1 < v then None else Some v))"

subsection \<open>Digits of a based literal\<close>

definition hex_digit_value :: "char \<Rightarrow> int" where
  "hex_digit_value c =
     (if is_digit c then int (digit_value c)
      else if ascii CHR ''a'' \<le> ascii c \<and> ascii c \<le> ascii CHR ''f'' then 10 + (int (ascii c) - int (ascii CHR ''a''))
      else if ascii CHR ''A'' \<le> ascii c \<and> ascii c \<le> ascii CHR ''F'' then 10 + (int (ascii c) - int (ascii CHR ''A''))
      else - 1)"

definition low_bits :: "nat \<Rightarrow> int \<Rightarrow> logic_t list" where
  "low_bits n v = map (\<lambda>k. of_bool_state (bit v k)) [0..<n]"

text \<open>The bits a digit writes, least significant first.\<close>

definition binary_digit :: "char \<Rightarrow> logic_t list option" where
  "binary_digit c =
     (if c = CHR ''0'' then Some [false_state]
      else if c = CHR ''1'' then Some [true_state]
      else if c = CHR ''x'' \<or> c = CHR ''X'' then Some [indeterminate_state]
      else if c = CHR ''z'' \<or> c = CHR ''Z'' then Some [high_impedence_state]
      else None)"

definition hex_digit :: "char \<Rightarrow> logic_t list option" where
  "hex_digit c =
     (if c = CHR ''x'' \<or> c = CHR ''X'' then Some (replicate 4 indeterminate_state)
      else if c = CHR ''z'' \<or> c = CHR ''Z'' then Some (replicate 4 high_impedence_state)
      else if hex_digit_value c < 0 then None
      else Some (low_bits 4 (hex_digit_value c)))"

definition octal_digit :: "char \<Rightarrow> logic_t list option" where
  "octal_digit c =
     (if c = CHR ''x'' \<or> c = CHR ''X'' then Some (replicate 3 indeterminate_state)
      else if c = CHR ''z'' \<or> c = CHR ''Z'' then Some (replicate 3 high_impedence_state)
      else if ascii c < ascii CHR ''0'' \<or> ascii CHR ''7'' < ascii c then None
      else Some (low_bits 3 (int (digit_value c))))"

text \<open>The position to write next; the code's \<^verbatim>\<open>SIZE_MAX\<close> after the leftmost bit is \<open>None\<close>.\<close>

definition write_bit :: "logic_t \<Rightarrow> logic_t list \<times> nat option \<Rightarrow> logic_t list \<times> nat option" where
  "write_bit v st =
     (case st of
        (bits, None) \<Rightarrow> (bits, None)
      | (bits, Some pos) \<Rightarrow> (bits[pos := v], if pos = 0 then None else Some (pos - 1)))"

text \<open>The digits from the last to the first.\<close>

fun write_digits :: "(char \<Rightarrow> logic_t list option) \<Rightarrow> string \<Rightarrow> logic_t list \<times> nat option \<Rightarrow> (logic_t list \<times> nat option) option" where
  "write_digits dig [] st = Some st"
| "write_digits dig (c # s) st =
     (if c = CHR ''_'' then write_digits dig s st
      else (case dig c of None \<Rightarrow> None | Some vs \<Rightarrow> write_digits dig s (fold write_bit vs st)))"

definition word_bits :: "nat \<Rightarrow> u64 \<Rightarrow> bool \<Rightarrow> logic_t list" where
  "word_bits w v fill = map (\<lambda>i. of_bool_state (if i < 64 then bit v i else fill)) (rev [0..<w])"

definition based_bits :: "char \<Rightarrow> bool \<Rightarrow> nat \<Rightarrow> string \<Rightarrow> logic_t list option" where
  "based_bits base signed_lit width digits =
     (let start = (replicate width false_state, Some (width - 1))
      in if base = CHR ''b'' \<or> base = CHR ''B'' then map_option fst (write_digits binary_digit (rev digits) start)
         else if base = CHR ''h'' \<or> base = CHR ''H'' then map_option fst (write_digits hex_digit (rev digits) start)
         else if base = CHR ''o'' \<or> base = CHR ''O'' then map_option fst (write_digits octal_digit (rev digits) start)
         else if base = CHR ''d'' \<or> base = CHR ''D''
         then (if digits \<noteq> [] \<and> hd digits = CHR ''-''
               then (if \<not> signed_lit then None
                     else map_option (\<lambda>iv. word_bits width iv (sint iv < 0)) (parse_dec_int64 digits))
               else map_option (\<lambda>v. word_bits width v False) (parse_dec_uint64 digits))
         else None)"

subsection \<open>Literals\<close>

definition fill_literal :: "char \<Rightarrow> logic_t option" where
  "fill_literal v =
     (if v = CHR ''0'' then Some false_state
      else if v = CHR ''1'' then Some true_state
      else if v = CHR ''x'' \<or> v = CHR ''X'' then Some indeterminate_state
      else if v = CHR ''z'' \<or> v = CHR ''Z'' then Some high_impedence_state
      else None)"

text \<open>The width before the apostrophe: 32 when there is none.\<close>

definition literal_width :: "string \<Rightarrow> nat option" where
  "literal_width pre =
     (if pre = [] then Some 32
      else (case parse_dec_uint64 pre of
              None \<Rightarrow> None
            | Some w \<Rightarrow> if w = 0 \<or> 2 ^ 31 - 1 < w then None else Some (unat w)))"

text \<open>\<open>want_signed\<close> says that the caller asks for the signedness, the second component of the result.\<close>

definition parse_literal_bits :: "bool \<Rightarrow> string \<Rightarrow> (logic_t list \<times> bool) option" where
  "parse_literal_bits want_signed t =
     (if t = [] then None
      else if length t = 2 \<and> hd t = CHR 0x27 then map_option (\<lambda>v. ([v], True)) (fill_literal (t ! 1))
      else (let pre = takeWhile (\<lambda>c. c \<noteq> CHR 0x27) t; rest = dropWhile (\<lambda>c. c \<noteq> CHR 0x27) t
            in if rest \<noteq> []
               then (if length rest < 2 then None
                     else (case literal_width pre of
                             None \<Rightarrow> None
                           | Some width \<Rightarrow>
                               (let after = tl rest;
                                    sgn = (hd after = CHR ''s'' \<or> hd after = CHR ''S'');
                                    after1 = (if sgn then tl after else after)
                                in if after1 = [] then None
                                   else map_option (\<lambda>bits. (bits, sgn)) (based_bits (hd after1) (want_signed \<and> sgn) width (tl after1)))))
               else map_option (\<lambda>v. (word_bits 32 v False, True)) (parse_dec_uint64 t)))"

definition parse_1bit_literal :: "string \<Rightarrow> logic_t" where
  "parse_1bit_literal t =
     (if t = ''0'' then false_state
      else if t = ''1'' then true_state
      else case (if length t = 2 \<and> hd t = CHR 0x27 then fill_literal (t ! 1) else None) of
        Some v \<Rightarrow> v
      | None \<Rightarrow>
          (case (if 4 \<le> length t \<and> t ! 1 = CHR 0x27 \<and> (t ! 2 = CHR ''b'' \<or> t ! 2 = CHR ''B'') then fill_literal (last t) else None) of
             Some v \<Rightarrow> v
           | None \<Rightarrow> indeterminate_state))"

end
