(* ===== verification/Diagnostics.thy ===== *)
theory Diagnostics
  imports Lexer_Props
begin

text \<open>
  Compile errors as text (\<^verbatim>\<open>format_compile_error\<close> and \<^verbatim>\<open>format_compile_errors\<close> in \<^verbatim>\<open>digital.h\<close>): the header, the
  line of the source and a caret under the column.
\<close>

subsection \<open>Model\<close>

record diagnostic_options =
  filename :: string
  show_source_line :: bool
  show_caret :: bool

text \<open>Decimal digits, as \<^verbatim>\<open>std::to_chars\<close> writes them.\<close>

fun dec_string :: "nat \<Rightarrow> string" where
  "dec_string n = (if n < 10 then [char_of (48 + n)] else dec_string (n div 10) @ [char_of (48 + n mod 10)])"

declare dec_string.simps [simp del]

definition append_u64 :: "string \<Rightarrow> nat \<Rightarrow> string" where
  "append_u64 out v = out @ dec_string v"

fun line_starts_from :: "nat \<Rightarrow> string \<Rightarrow> nat list" where
  "line_starts_from i [] = []"
| "line_starts_from i (c # s) = (if c = newline then (i + 1) # line_starts_from (i + 1) s else line_starts_from (i + 1) s)"

definition build_line_index :: "string \<Rightarrow> nat list" where
  "build_line_index src = 0 # line_starts_from 0 src"

definition line_view :: "string \<Rightarrow> nat list \<Rightarrow> nat \<Rightarrow> string" where
  "line_view src idx line =
     (if line = 0 \<or> idx = [] \<or> length idx < line then []
      else (let start = idx ! (line - 1)
            in if length src < start then []
               else (let end0 = (if line < length idx then idx ! line - 1 else length src);
                         end1 = (if length src < end0 then length src else end0);
                         end2 = (if start < end1 \<and> src ! (end1 - 1) = CHR 0x0D then end1 - 1 else end1)
                     in take (end2 - start) (drop start src))))"

definition append_error_header :: "string \<Rightarrow> compile_error \<Rightarrow> string \<Rightarrow> string" where
  "append_error_header out err name =
     append_u64 (append_u64 (out @ (if name \<noteq> [] then name @ '':'' else [])) (ce_line err) @ '':'') (ce_column err)
     @ '': error: '' @ ce_message err @ [newline]"

definition caret_column :: "compile_error \<Rightarrow> string \<Rightarrow> nat" where
  "caret_column err line_text =
     (let col = (if ce_column err = 0 then 1 else ce_column err)
      in if length line_text + 1 < col then length line_text + 1 else col)"

definition caret_line :: "compile_error \<Rightarrow> string \<Rightarrow> string" where
  "caret_line err line_text =
     map (\<lambda>i. if (if i - 1 < length line_text then line_text ! (i - 1) else CHR '' '') = CHR 0x09 then CHR 0x09 else CHR '' '')
       [1..<caret_column err line_text] @ ''^'' @ [newline]"

definition source_lines :: "compile_error \<Rightarrow> string \<Rightarrow> diagnostic_options \<Rightarrow> string" where
  "source_lines err line_text opt =
     (if show_source_line opt then ''  '' @ line_text @ [newline] else []) @
     (if show_caret opt then ''  '' @ caret_line err line_text else [])"

definition format_compile_error :: "compile_error \<Rightarrow> string \<Rightarrow> diagnostic_options \<Rightarrow> string" where
  "format_compile_error err src opt =
     (let out = append_error_header [] err (filename opt)
      in if \<not> (show_source_line opt \<or> show_caret opt) then out
         else if src = [] then out
         else (let line_text = line_view src (build_line_index src) (ce_line err)
               in if line_text = [] then out else out @ source_lines err line_text opt))"

fun format_errors_loop :: "string \<Rightarrow> nat list \<Rightarrow> diagnostic_options \<Rightarrow> compile_error list \<Rightarrow> string \<Rightarrow> string" where
  "format_errors_loop src idx opt [] out = out"
| "format_errors_loop src idx opt (err # errs) out =
     (let out1 = append_error_header out err (filename opt);
          line_text = line_view src idx (ce_line err);
          out2 = (if \<not> (show_source_line opt \<or> show_caret opt) \<or> src = [] then out1
                  else if line_text = [] then out1
                  else out1 @ source_lines err line_text opt)
      in format_errors_loop src idx opt errs (if errs \<noteq> [] then out2 @ [newline] else out2))"

definition format_compile_errors :: "compile_error list \<Rightarrow> string \<Rightarrow> diagnostic_options \<Rightarrow> string" where
  "format_compile_errors errors src opt =
     (if errors = [] then [] else format_errors_loop src (build_line_index src) opt errors [])"

subsection \<open>Lines\<close>

text \<open>The pieces of a text between its newlines.\<close>

fun text_lines :: "string \<Rightarrow> string list" where
  "text_lines [] = [[]]"
| "text_lines (c # s) = (if c = newline then [] # text_lines s else (c # hd (text_lines s)) # tl (text_lines s))"

lemma text_lines_nonempty [simp]: "text_lines s \<noteq> []"
  by (induction s) auto

lemma length_line_starts: "length (line_starts_from i s) = count_list s newline"
  by (induction i s rule: line_starts_from.induct) auto

lemma length_text_lines: "length (text_lines s) = Suc (count_list s newline)"
proof (induction s)
  case (Cons c s)
  then show ?case by (cases "text_lines s") auto
qed simp

lemma text_lines_append: "text_lines (s @ newline # t) = text_lines s @ text_lines t"
proof (induction s)
  case (Cons c s)
  then show ?case by (cases "text_lines s") auto
qed simp

lemma text_lines_one: "newline \<notin> set s \<Longrightarrow> text_lines s = [s]"
  by (induction s) auto

lemma line_starts_append: "line_starts_from i (s @ t) = line_starts_from i s @ line_starts_from (i + length s) t"
  by (induction s arbitrary: i) auto

definition strip_return :: "string \<Rightarrow> string" where
  "strip_return s = (if s \<noteq> [] \<and> last s = CHR 0x0D then butlast s else s)"

text \<open>The line with number \<open>l\<close> is found between its start and the next newline.\<close>

lemma line_view_at:
  assumes "src = pre @ ln @ post" "pre = [] \<or> last pre = newline" "newline \<notin> set ln" "post = [] \<or> hd post = newline"
  shows "line_view src (build_line_index src) (Suc (count_list pre newline)) = strip_return ln"
proof -
  let ?idx = "build_line_index src" and ?l = "count_list pre newline"
  have idx: "?idx = 0 # line_starts_from 0 pre @ line_starts_from (length pre + length ln) post"
    using assms(1,3) length_line_starts [of "length pre" ln] by (simp add: build_line_index_def line_starts_append)
  have start: "?idx ! ?l = length pre"
  proof (cases "pre = []")
    case False
    then obtain u where u: "pre = u @ [newline]" using assms(2) by (metis append_butlast_last_id)
    show ?thesis unfolding idx u by (simp add: line_starts_append nth_append length_line_starts)
  qed (simp add: idx)
  have len: "length ?idx = Suc (?l + count_list post newline)" by (simp add: idx length_line_starts)
  have "end0": "(if Suc ?l < length ?idx then ?idx ! Suc ?l - 1 else length src) = length pre + length ln"
  proof (cases post)
    case Nil
    then show ?thesis using assms(1) len by simp
  next
    case (Cons c t)
    then have c: "c = newline" using assms(4) by simp
    show ?thesis unfolding len idx Cons c by (simp add: nth_append length_line_starts)
  qed
  have nth: "0 < length ln \<Longrightarrow> src ! (length pre + length ln - 1) = last ln"
    using assms(1) by (cases ln rule: rev_cases) (simp_all add: nth_append)
  have td: "take n (drop (length pre) src) = take n ln" if "n \<le> length ln" for n using assms(1) that by simp
  show ?thesis
    unfolding line_view_def Let_def diff_Suc_1 start "end0"
    using len assms(1) nth td by (auto simp: strip_return_def butlast_conv_take)
qed

lemma append_error_header_out: "append_error_header out err name = out @ append_error_header [] err name"
  by (simp add: append_error_header_def append_u64_def)

subsection \<open>Several errors\<close>

lemma format_errors_loop_each:
  "errs \<noteq> [] \<Longrightarrow> format_errors_loop src (build_line_index src) opt errs out =
     out @ concat (map (\<lambda>e. format_compile_error e src opt @ [newline]) (butlast errs)) @ format_compile_error (last errs) src opt"
proof (induction errs arbitrary: out)
  case (Cons e errs)
  have "format_errors_loop src (build_line_index src) opt (e # errs) out =
      format_errors_loop src (build_line_index src) opt errs (out @ format_compile_error e src opt @ (if errs \<noteq> [] then [newline] else []))"
    unfolding format_errors_loop.simps Let_def append_error_header_out [of out] format_compile_error_def by simp
  then show ?case using Cons(1) by (cases errs) auto
qed simp

lemma format_compile_errors_each:
  "errs \<noteq> [] \<Longrightarrow> format_compile_errors errs src opt =
     concat (map (\<lambda>e. format_compile_error e src opt @ [newline]) (butlast errs)) @ format_compile_error (last errs) src opt"
  by (simp add: format_compile_errors_def format_errors_loop_each)

subsection \<open>Properties\<close>

text \<open>
  C36: A diagnostic at the position of a character prints its header, the line of the source with
  that character, and a caret exactly below the character, with the tabs before it kept.
\<close>

theorem diagnostic_points_at_source:
  assumes "src = p0 @ p1 @ c # r @ post" "p0 = [] \<or> last p0 = newline" "post = [] \<or> hd post = newline"
    and "newline \<notin> set (p1 @ c # r)" "CHR 0x0D \<notin> set (p1 @ c # r)"
    and "(ce_line err, ce_column err) = position_after (p0 @ p1)" "show_source_line opt" "show_caret opt"
  shows "format_compile_error err src opt =
    append_error_header [] err (filename opt) @ ''  '' @ p1 @ c # r @ newline # ''  '' @
    map (\<lambda>x. if x = CHR 0x09 then CHR 0x09 else CHR '' '') p1 @ ''^'' @ [newline]"
proof -
  let ?ln = "p1 @ c # r"
  have p: "position_after (p0 @ p1) = (Suc (count_list p0 newline), Suc (length p1))"
  proof -
    have "\<And>x. x \<in> set (rev p1) \<Longrightarrow> x \<noteq> newline" using assms(4) by auto
    then have "takeWhile (\<lambda>x. x \<noteq> newline) (rev p1 @ rev p0) = rev p1 @ takeWhile (\<lambda>x. x \<noteq> newline) (rev p0)"
      by (rule takeWhile_append2)
    also have "takeWhile (\<lambda>x. x \<noteq> newline) (rev p0) = []" using assms(2) by (cases p0 rule: rev_cases) simp_all
    finally have "takeWhile (\<lambda>x. x \<noteq> newline) (rev p1 @ rev p0) = rev p1" by simp
    moreover have "count_list p1 newline = 0" using assms(4) by (simp add: count_list_0_iff)
    ultimately show ?thesis by (simp add: position_after_def)
  qed
  have l: "line_view src (build_line_index src) (ce_line err) = ?ln"
    using line_view_at [of src p0 ?ln post] assms p last_in_set [of ?ln] by (auto simp: strip_return_def)
  have cc: "caret_column err ?ln = Suc (length p1)" using assms(6) p by (simp add: caret_column_def)
  have "caret_line err ?ln = map (\<lambda>x. if x = CHR 0x09 then CHR 0x09 else CHR '' '') p1 @ ''^'' @ [newline]"
    unfolding caret_line_def cc append_same_eq by (intro nth_equalityI) (simp_all add: nth_append del: upt_Suc)
  then show ?thesis
    using assms(1,7,8) l by (simp add: format_compile_error_def source_lines_def Let_def)
qed

theorem diagnostic_points_at_source_witness:
  "format_compile_error \<lparr>ce_message = ''m'', ce_offset = 0, ce_line = 2, ce_column = 3\<rparr> (''a'' @ newline # ''b c'' @ [newline])
     \<lparr>filename = ''f'', show_source_line = True, show_caret = True\<rparr> =
   ''f:2:3: error: m'' @ newline # ''  b c'' @ newline # ''    ^'' @ [newline]"
proof -
  let ?e = "\<lparr>ce_message = ''m'', ce_offset = 0, ce_line = 2, ce_column = 3\<rparr>" and ?o = "\<lparr>filename = ''f'', show_source_line = True, show_caret = True\<rparr>"
  have h: "append_error_header [] ?e ''f'' = ''f:2:3: error: m'' @ [newline]" by code_simp
  show ?thesis
    using diagnostic_points_at_source [of "''a'' @ newline # ''b c'' @ [newline]" "''a'' @ [newline]" "''b ''" "CHR ''c''" "[]" "[newline]" ?e ?o] h
    by (simp add: position_after_def)
qed

end
