(* ===== verification/Literal_Props.thy ===== *)
theory Literal_Props
  imports Literals Diagnostics
begin

text \<open>
  Literals denote the numbers they spell, the overflow checks are exact, and every bit vector can be
  written as a literal that lexes as one token and is read back unchanged.
\<close>

subsection \<open>Decimal numbers\<close>

text \<open>The number some digits spell to a base; underscores do not count.\<close>

definition add_digit :: "nat \<Rightarrow> nat \<Rightarrow> char \<Rightarrow> nat" where
  "add_digit base v c = (if c = CHR ''_'' then v else base * v + nat (hex_digit_value c))"

definition number :: "nat \<Rightarrow> string \<Rightarrow> nat" where
  "number base s = foldl (add_digit base) 0 s"

definition digits_ok :: "nat \<Rightarrow> string \<Rightarrow> bool" where
  "digits_ok base s \<longleftrightarrow> list_all (\<lambda>c. c = CHR ''_'' \<or> 0 \<le> hex_digit_value c \<and> hex_digit_value c < int base) s"

lemma add_digit_underscore [simp]: "add_digit b v CHR ''_'' = v"
  by (simp add: add_digit_def)

lemma is_digit_range: "is_digit c \<longleftrightarrow> 0 \<le> hex_digit_value c \<and> hex_digit_value c < 10"
  by (auto simp: hex_digit_value_def is_digit_def digit_value_def)

lemma digit_value_hex: "is_digit c \<Longrightarrow> nat (hex_digit_value c) = digit_value c"
  by (simp add: hex_digit_value_def)

lemma digit_value_less: "is_digit c \<Longrightarrow> digit_value c < 10"
  by (auto simp: is_digit_def digit_value_def)

lemma foldl_add_digit_mono: "0 < b \<Longrightarrow> v \<le> foldl (add_digit b) v s"
proof (induction s arbitrary: v)
  case (Cons c s)
  have "v \<le> add_digit b v c" using Cons(2) by (simp add: add_digit_def trans_le_add1)
  then show ?case using Cons by (metis foldl_Cons order.trans)
qed simp

lemma overflow_check:
  fixes v :: u64
  assumes "d < 10"
  shows "(- 1 - word_of_nat d) div 10 < v \<longleftrightarrow> 2 ^ 64 \<le> 10 * unat v + d"
proof -
  have d: "unat (word_of_nat d :: u64) = d" using assms by (simp add: unat_of_nat take_bit_nat_eq_self)
  have "(word_of_nat d :: u64) \<le> - 1" by simp
  then have "unat (- 1 - word_of_nat d :: u64) = 2 ^ 64 - 1 - d" using d by (simp add: unat_sub unsigned_minus_1_eq_mask mask_eq_exp_minus_1)
  then have "unat ((- 1 - word_of_nat d :: u64) div 10) = (2 ^ 64 - 1 - d) div 10" by (simp add: unat_div)
  then show ?thesis using assms by (auto simp: word_less_nat_alt)
qed

lemma dec_loop_exact:
  "dec_loop v s = (if digits_ok 10 s \<and> foldl (add_digit 10) (unat v) s < 2 ^ 64 then Some (word_of_nat (foldl (add_digit 10) (unat v) s)) else None)"
proof (induction s arbitrary: v)
  case Nil
  then show ?case using unsigned_less [of v] by (simp add: digits_ok_def)
next
  case (Cons c s)
  show ?case
  proof (cases "c = CHR ''_'' \<or> \<not> is_digit c")
    case True
    then show ?thesis using Cons by (auto simp: digits_ok_def is_digit_range)
  next
    case False
    let ?d = "digit_value c"
    have d: "?d < 10" "nat (hex_digit_value c) = ?d" using False digit_value_less digit_value_hex by auto
    have a: "add_digit 10 (unat v) c = 10 * unat v + ?d" using False d(2) by (simp add: add_digit_def)
    show ?thesis
    proof (cases "2 ^ 64 \<le> 10 * unat v + ?d")
      case True
      then have "2 ^ 64 \<le> foldl (add_digit 10) (10 * unat v + ?d) s"
        using foldl_add_digit_mono [of 10 "10 * unat v + ?d" s] by linarith
      then show ?thesis using overflow_check [OF d(1), of v] True False a by (simp add: Let_def)
    next
      case n: False
      have "v * 10 + word_of_nat ?d = (word_of_nat (10 * unat v + ?d) :: u64)" by (simp add: algebra_simps)
      then have "unat (v * 10 + word_of_nat ?d) = 10 * unat v + ?d" using n by (simp add: unat_of_nat take_bit_nat_eq_self del: of_nat_add of_nat_mult)
      then show ?thesis
        using Cons [of "v * 10 + word_of_nat ?d"] overflow_check [OF d(1), of v] n False a
        by (simp add: Let_def digits_ok_def is_digit_range)
    qed
  qed
qed

lemma parse_dec_exact:
  "parse_dec_uint64 t = (if t \<noteq> [] \<and> digits_ok 10 t \<and> number 10 t < 2 ^ 64 then Some (word_of_nat (number 10 t)) else None)"
  by (simp add: parse_dec_uint64_def dec_loop_exact number_def)

lemma dec_string_digits: "digits_ok 10 (dec_string n) \<and> number 10 (dec_string n) = n \<and> dec_string n \<noteq> [] \<and> list_all is_digit (dec_string n)"
proof (induction n rule: dec_string.induct)
  case (1 n)
  have c: "is_digit (char_of (48 + k)) \<and> nat (hex_digit_value (char_of (48 + k))) = k" if "k < 10" for k :: nat
    using that by (simp add: is_digit_def hex_digit_value_def digit_value_def)
  have "\<not> is_digit CHR ''_''" by (simp add: is_digit_def)
  then have u: "char_of (48 + k) \<noteq> CHR ''_''" if "k < 10" for k :: nat using c [OF that] by metis
  show ?case
  proof (cases "n < 10")
    case True
    then show ?thesis using c [of n] u [of n] by (simp add: dec_string.simps [of n] digits_ok_def number_def add_digit_def is_digit_range)
  next
    case False
    then show ?thesis using 1 c [of "n mod 10"] u [of "n mod 10"]
      by (simp add: dec_string.simps [of n] digits_ok_def number_def add_digit_def is_digit_range)
  qed
qed

subsection \<open>Writing digits\<close>

text \<open>The state of the writer after the bits \<open>vs\<close>, least significant first.\<close>

definition written :: "nat \<Rightarrow> logic_t list \<Rightarrow> logic_t list \<times> nat option" where
  "written w vs = (rev (take w (vs @ replicate w false_state)), if length vs < w then Some (w - 1 - length vs) else None)"

lemma write_bit_written: "write_bit v (written w vs) = written w (vs @ [v])"
proof (cases "length vs < w")
  case True
  let ?xs = "vs @ replicate (w - length vs) false_state"
  obtain n where n: "w - length vs = Suc n" using True by (metis Suc_diff_Suc)
  have "(rev ?xs)[w - 1 - length vs := v] = rev (?xs[length vs := v])"
    using rev_update [of "length vs" ?xs v] True by (simp add: add.commute diff_diff_add)
  also have "?xs[length vs := v] = (vs @ [v]) @ replicate n false_state" using n by simp
  finally have u: "(rev ?xs)[w - 1 - length vs := v] = rev ((vs @ [v]) @ replicate n false_state)" .
  have t: "take w (vs @ replicate w false_state) = ?xs" using True by simp
  have t2: "take w ((vs @ [v]) @ replicate w false_state) = (vs @ [v]) @ replicate n false_state"
    using True n by (simp add: take_Cons' min_def)
  show ?thesis using True u unfolding write_bit_def written_def t t2 by auto
qed (simp add: write_bit_def written_def)

lemma fold_write_bit: "fold write_bit us (written w vs) = written w (vs @ us)"
  by (induction us arbitrary: vs) (simp_all add: write_bit_written)

lemma write_digits_written:
  "\<forall>c \<in> set s. c \<noteq> CHR ''_'' \<longrightarrow> dig c \<noteq> None \<Longrightarrow>
   write_digits dig s (written w vs) = Some (written w (vs @ concat (map (\<lambda>c. the (dig c)) (filter (\<lambda>c. c \<noteq> CHR ''_'') s))))"
proof (induction s arbitrary: vs)
  case (Cons c s)
  then have IH: "write_digits dig s (written w us) = Some (written w (us @ concat (map (\<lambda>c. the (dig c)) (filter (\<lambda>c. c \<noteq> CHR ''_'') s))))" for us by simp
  show ?case
  proof (cases "c = CHR ''_''")
    case False
    then obtain us where "dig c = Some us" using Cons(2) by auto
    then show ?thesis using False by (simp add: fold_write_bit IH)
  qed (simp add: IH)
qed simp

lemma written_start: "0 < w \<Longrightarrow> written w [] = (replicate w false_state, Some (w - 1))"
  by (simp add: written_def)

lemma written_resize: "0 < w \<Longrightarrow> fst (written w vs) = resize_msb false_state false_state (rev vs) w False"
proof (cases "vs = []")
  case False
  assume "0 < w"
  show ?thesis
  proof (cases "w \<le> length vs")
    case True
    then show ?thesis using False \<open>0 < w\<close> by (simp add: written_def resize_msb_low drop_rev)
  next
    case n: False
    then show ?thesis using False by (simp add: written_def resize_msb_high)
  qed
qed (simp add: written_def resize_msb_def)

lemma map_resize_msb: "resize_msb false_state false_state (map of_bool_state bs) w False = map of_bool_state (resize_msb False False bs w False)"
  using resize_msb_map [of of_bool_state False False bs w False] by (simp add: of_bool_state_def)

subsection \<open>Bits as numbers\<close>

lemma bits_val_rev: "bits_val (rev bs) = horner_sum of_bool 2 bs"
  by (induction bs) (simp_all add: bits_val_append bits_val_Cons)

lemma bits_val_bits: "bits_val (rev (map (bit n) [0..<k])) = n mod 2 ^ k" for n :: nat
  unfolding bits_val_rev horner_sum_bit_eq_take_bit by (simp add: take_bit_eq_mod)

definition digit_bits :: "nat \<Rightarrow> char \<Rightarrow> bool list" where
  "digit_bits k c = map (bit (nat (hex_digit_value c))) [0..<k]"

definition lsb_bits :: "nat \<Rightarrow> string \<Rightarrow> bool list" where
  "lsb_bits k s = concat (map (digit_bits k) (rev (filter (\<lambda>c. c \<noteq> CHR ''_'') s)))"

lemma lsb_bits_number: "digits_ok (2 ^ k) s \<Longrightarrow> bits_val (rev (lsb_bits k s)) = number (2 ^ k) s"
proof (induction s rule: rev_induct)
  case (snoc c s)
  have "nat (hex_digit_value c) < 2 ^ k" if "c \<noteq> CHR ''_''"
    using snoc(2) that by (simp add: digits_ok_def nat_less_iff)
  then have "bits_val (rev (digit_bits k c)) = nat (hex_digit_value c)" if "c \<noteq> CHR ''_''"
    using that by (simp add: digit_bits_def bits_val_bits)
  then show ?case
    using snoc by (auto simp: lsb_bits_def digits_ok_def number_def add_digit_def bits_val_append digit_bits_def)
qed (simp add: lsb_bits_def number_def)

lemma word_bits_value: "word_bits w v False = map of_bool_state (rev (map (bit (unat v)) [0..<w]))"
proof -
  have "(if i < 64 then bit v i else False) = bit (unat v) i" for i
    using bit_imp_le_length [of v i] by (auto simp: bit_unsigned_iff)
  then show ?thesis by (simp add: word_bits_def rev_map)
qed

subsection \<open>Based literals\<close>

lemma literal_width_dec: "0 < w \<Longrightarrow> w < 2 ^ 31 \<Longrightarrow> literal_width (dec_string w) = Some w"
proof -
  assume w: "0 < w" "w < 2 ^ 31"
  have u: "unat (word_of_nat w :: u64) = w" using w by (simp add: unat_of_nat take_bit_nat_eq_self)
  then have "(word_of_nat w :: u64) \<noteq> 0" "\<not> 2 ^ 31 - 1 < (word_of_nat w :: u64)" using w by (auto simp: word_less_nat_alt)
  then show ?thesis using dec_string_digits [of w] w u by (simp add: literal_width_def parse_dec_exact)
qed

lemma parse_sized:
  assumes "0 < w" "w < 2 ^ 31" "b \<noteq> CHR ''s''" "b \<noteq> CHR ''S''"
  shows "parse_literal_bits want (dec_string w @ CHR 0x27 # b # ds) = map_option (\<lambda>bits. (bits, False)) (based_bits b False w ds)"
proof -
  let ?t = "dec_string w @ CHR 0x27 # b # ds"
  have d: "\<And>c. c \<in> set (dec_string w) \<Longrightarrow> c \<noteq> CHR 0x27" "dec_string w \<noteq> []"
    using dec_string_digits [of w] by (auto simp: list_all_iff is_digit_def)
  have "takeWhile (\<lambda>c. c \<noteq> CHR 0x27) ?t = dec_string w" "dropWhile (\<lambda>c. c \<noteq> CHR 0x27) ?t = CHR 0x27 # b # ds"
    using d(1) takeWhile_append2 [of "dec_string w" "\<lambda>c. c \<noteq> CHR 0x27" "CHR 0x27 # b # ds"] dropWhile_append2 [of "dec_string w" "\<lambda>c. c \<noteq> CHR 0x27" "CHR 0x27 # b # ds"]
    by auto
  moreover have "hd ?t \<noteq> CHR 0x27" using d by (cases "dec_string w") auto
  ultimately show ?thesis using assms literal_width_dec [OF assms(1,2)] by (simp add: parse_literal_bits_def Let_def)
qed

definition radix :: "char \<Rightarrow> nat" where
  "radix b = (if b \<in> set ''bB'' then 2 else if b \<in> set ''oO'' then 8 else if b \<in> set ''hH'' then 16 else 10)"

lemma low_bits_digit: "0 \<le> hex_digit_value c \<Longrightarrow> low_bits k (hex_digit_value c) = map of_bool_state (digit_bits k c)"
  by (simp add: low_bits_def digit_bits_def bit_nat_iff)

lemma hex_digit_value_xz: "hex_digit_value CHR ''x'' = - 1" "hex_digit_value CHR ''X'' = - 1" "hex_digit_value CHR ''z'' = - 1" "hex_digit_value CHR ''Z'' = - 1"
  by (simp_all add: hex_digit_value_def is_digit_def)

lemma hex_digit_bits: "0 \<le> hex_digit_value c \<Longrightarrow> hex_digit c = Some (map of_bool_state (digit_bits 4 c))"
  using hex_digit_value_xz by (auto simp: hex_digit_def low_bits_digit)

lemma octal_digit_bits:
  assumes "0 \<le> hex_digit_value c" "hex_digit_value c < 8"
  shows "octal_digit c = Some (map of_bool_state (digit_bits 3 c))"
proof -
  have d: "is_digit c" using assms is_digit_range by auto
  then have "hex_digit_value c = int (digit_value c)" by (simp add: hex_digit_value_def)
  moreover from this have "ascii CHR ''0'' \<le> ascii c" "ascii c \<le> ascii CHR ''7''" using assms d by (auto simp: digit_value_def is_digit_def)
  ultimately show ?thesis using low_bits_digit [OF assms(1), of 3] hex_digit_value_xz assms by (auto simp: octal_digit_def)
qed

lemma binary_digit_bits:
  assumes "0 \<le> hex_digit_value c" "hex_digit_value c < 2"
  shows "binary_digit c = Some (map of_bool_state (digit_bits 1 c))"
proof -
  have d: "is_digit c" using assms is_digit_range by auto
  then have v: "hex_digit_value c = int (digit_value c)" by (simp add: hex_digit_value_def)
  then have "ascii c = 48 \<or> ascii c = 49" using assms d by (auto simp: digit_value_def is_digit_def)
  then have "c = char_of (48 :: nat) \<or> c = char_of (49 :: nat)" by (metis char_of_char)
  moreover have "char_of (48 :: nat) = CHR ''0''" "char_of (49 :: nat) = CHR ''1''" by code_simp+
  ultimately have "c = CHR ''0'' \<or> c = CHR ''1''" by simp
  moreover have "binary_digit CHR ''0'' = Some (map of_bool_state (digit_bits 1 CHR ''0''))"
    "binary_digit CHR ''1'' = Some (map of_bool_state (digit_bits 1 CHR ''1''))" by code_simp+
  ultimately show ?thesis by metis
qed

lemma write_known_digits:
  assumes "0 < w" "digits_ok (2 ^ k) ds"
    and "\<And>c. 0 \<le> hex_digit_value c \<Longrightarrow> hex_digit_value c < 2 ^ k \<Longrightarrow> dig c = Some (map of_bool_state (digit_bits k c))"
  obtains bs where "map_option fst (write_digits dig (rev ds) (replicate w false_state, Some (w - 1))) = Some (map of_bool_state bs)"
    "length bs = w" "bits_val bs = number (2 ^ k) ds mod 2 ^ w"
proof -
  let ?v = "lsb_bits k ds" and ?f = "\<lambda>c. c \<noteq> CHR ''_''"
  have dig: "\<And>c. c \<in> set ds \<Longrightarrow> c \<noteq> CHR ''_'' \<Longrightarrow> dig c = Some (map of_bool_state (digit_bits k c))"
    using assms(2,3) by (auto simp: digits_ok_def list_all_iff)
  then have "concat (map (\<lambda>c. the (dig c)) (filter ?f (rev ds))) = concat (map (\<lambda>c. map of_bool_state (digit_bits k c)) (filter ?f (rev ds)))"
    by (intro arg_cong [where f = concat] map_cong) auto
  also have "\<dots> = map of_bool_state ?v" by (simp add: lsb_bits_def map_concat rev_filter comp_def)
  finally have "write_digits dig (rev ds) (written w []) = Some (written w (map of_bool_state ?v))"
    using write_digits_written [of "rev ds" dig w "[]"] dig by auto
  then have "map_option fst (write_digits dig (rev ds) (replicate w false_state, Some (w - 1))) = Some (map of_bool_state (resize_msb False False (rev ?v) w False))"
    using written_resize [OF assms(1), of "map of_bool_state ?v"] map_resize_msb [of "rev ?v" w] by (simp add: written_start [OF assms(1)] rev_map)
  moreover have "length (resize_msb False False (rev ?v) w False) = w" by (auto simp: resize_msb_def)
  moreover have "bits_val (resize_msb False False (rev ?v) w False) = number (2 ^ k) ds mod 2 ^ w"
  proof (cases "?v = []")
    case True
    then have "number (2 ^ k) ds = 0" using lsb_bits_number [OF assms(2)] by simp
    then show ?thesis using True by (simp add: resize_msb_def bits_val_replicate)
  next
    case False
    then show ?thesis using resize_unsigned [of "rev ?v" w False] assms(1) lsb_bits_number [OF assms(2)] by simp
  qed
  ultimately show thesis using that by blast
qed

lemma based_bits_value:
  assumes "0 < w" "is_base b" "digits_ok (radix b) ds" "b \<in> set ''dD'' \<longrightarrow> ds \<noteq> [] \<and> number 10 ds < 2 ^ 64"
  shows "\<exists>bs. based_bits b False w ds = Some (map of_bool_state bs) \<and> length bs = w \<and> bits_val bs = number (radix b) ds mod 2 ^ w"
proof -
  consider "b \<in> set ''bB''" | "b \<in> set ''oO''" | "b \<in> set ''hH''" | "b \<in> set ''dD''" using assms(2) by (auto simp: is_base_def)
  then show ?thesis
  proof cases
    case 1
    then have r: "radix b = 2 ^ 1" by (simp add: radix_def)
    obtain bs where "map_option fst (write_digits binary_digit (rev ds) (replicate w false_state, Some (w - 1))) = Some (map of_bool_state bs)"
      "length bs = w" "bits_val bs = number (2 ^ 1) ds mod 2 ^ w"
      using write_known_digits [OF assms(1), of 1 ds binary_digit] assms(3) binary_digit_bits unfolding r by auto
    then show ?thesis using 1 unfolding r by (auto simp: based_bits_def Let_def)
  next
    case 2
    then have r: "radix b = 2 ^ 3" by (auto simp: radix_def)
    obtain bs where "map_option fst (write_digits octal_digit (rev ds) (replicate w false_state, Some (w - 1))) = Some (map of_bool_state bs)"
      "length bs = w" "bits_val bs = number (2 ^ 3) ds mod 2 ^ w"
      using write_known_digits [OF assms(1), of 3 ds octal_digit] assms(3) octal_digit_bits unfolding r by auto
    then show ?thesis using 2 unfolding r by (auto simp: based_bits_def Let_def)
  next
    case 3
    then have r: "radix b = 2 ^ 4" by (auto simp: radix_def)
    obtain bs where "map_option fst (write_digits hex_digit (rev ds) (replicate w false_state, Some (w - 1))) = Some (map of_bool_state bs)"
      "length bs = w" "bits_val bs = number (2 ^ 4) ds mod 2 ^ w"
      using write_known_digits [OF assms(1), of 4 ds hex_digit] assms(3) hex_digit_bits unfolding r by auto
    then show ?thesis using 3 unfolding r by (auto simp: based_bits_def Let_def)
  next
    case 4
    then have r: "radix b = 10" by (auto simp: radix_def)
    have n: "ds \<noteq> []" "digits_ok 10 ds" "number 10 ds < 2 ^ 64" using 4 assms(3,4) r by auto
    have "hd ds \<noteq> CHR ''-''" using n(1,2) by (cases ds) (auto simp: digits_ok_def hex_digit_value_def is_digit_def)
    moreover have "unat (word_of_nat (number 10 ds) :: u64) = number 10 ds" using n(3) by (simp add: unat_of_nat take_bit_nat_eq_self)
    ultimately have "based_bits b False w ds = Some (map of_bool_state (rev (map (bit (number 10 ds)) [0..<w])))"
      using 4 n by (auto simp: based_bits_def Let_def parse_dec_exact word_bits_value)
    then show ?thesis unfolding r using bits_val_bits [of "number 10 ds" w] by auto
  qed
qed

subsection \<open>Properties\<close>

text \<open>
  C34: A literal with a width from 1 to 2^31 - 1, a binary, octal, decimal or hexadecimal base and
  any digits of that base, underscores among them, gives exactly the bits of the number the digits
  denote, modulo two to the width; decimal digits must denote a number below two to the 64.
\<close>

theorem literal_denotes_number:
  assumes "0 < w" "w < 2 ^ 31" "is_base b" "digits_ok (radix b) ds" "b \<in> set ''dD'' \<longrightarrow> ds \<noteq> [] \<and> number 10 ds < 2 ^ 64"
  shows "\<exists>bs. parse_literal_bits want (dec_string w @ CHR 0x27 # b # ds) = Some (map of_bool_state bs, False) \<and>
    length bs = w \<and> bits_val bs = number (radix b) ds mod 2 ^ w"
proof -
  have "b \<noteq> CHR ''s''" "b \<noteq> CHR ''S''" using assms(3) by (auto simp: is_base_def)
  then show ?thesis using based_bits_value [OF assms(1,3,4,5)] parse_sized [OF assms(1,2)] by auto
qed

theorem literal_denotes_number_witness:
  "\<exists>bs. parse_literal_bits True (dec_string 12 @ CHR 0x27 # CHR ''h'' # ''1_F3'') = Some (map of_bool_state bs, False) \<and> length bs = 12 \<and> bits_val bs = 0x1F3"
proof -
  have h: "is_base CHR ''h''" "digits_ok (radix CHR ''h'') ''1_F3''" "number (radix CHR ''h'') ''1_F3'' = 0x1F3" by code_simp+
  show ?thesis using literal_denotes_number [OF _ _ h(1,2), of 12 True] h(3) by simp
qed

subsection \<open>Writing literals\<close>

fun bit_char :: "logic_t \<Rightarrow> char" where
  "bit_char false_state = CHR ''0''"
| "bit_char true_state = CHR ''1''"
| "bit_char indeterminate_state = CHR ''x''"
| "bit_char high_impedence_state = CHR ''z''"

definition literal_text :: "logic_t list \<Rightarrow> string" where
  "literal_text bits = dec_string (length bits) @ CHR 0x27 # CHR ''b'' # map bit_char bits"

lemma binary_digit_char: "binary_digit (bit_char v) = Some [v]" "bit_char v \<noteq> CHR ''_''"
  by (cases v; simp add: binary_digit_def)+

lemma based_bits_text: "bits \<noteq> [] \<Longrightarrow> based_bits CHR ''b'' False (length bits) (map bit_char bits) = Some bits"
proof -
  assume b: "bits \<noteq> []"
  have f: "filter (\<lambda>c. c \<noteq> CHR ''_'') (rev (map bit_char bits)) = rev (map bit_char bits)" by (auto simp: filter_id_conv binary_digit_char)
  have "write_digits binary_digit (rev (map bit_char bits)) (written (length bits) []) = Some (written (length bits) (rev bits))"
    using write_digits_written [of "rev (map bit_char bits)" binary_digit "length bits" "[]"] unfolding f
    by (simp add: binary_digit_char rev_map comp_def)
  then show ?thesis using b by (simp add: based_bits_def Let_def written_start) (simp add: written_def)
qed

lemma number_len_all: "\<forall>c \<in> set s. is_digit c \<or> is_alpha c \<or> c = CHR 0x27 \<Longrightarrow> number_len st s = length s"
  by (induction st s rule: number_len.induct) auto

lemma lex_number_text:
  assumes "is_digit c" "\<forall>x \<in> set s. is_digit x \<or> is_alpha x \<or> x = CHR 0x27"
  shows "map token_key (lx_tokens (lex smap (c # s))) = [(tk_number, c # s), (tk_eof, [])]"
proof -
  have "\<not> is_space c" "c \<noteq> CHR ''/''" "c \<noteq> CHR 0x22" "\<not> is_alpha c" "c \<noteq> CHR ''$''" "c \<noteq> CHR 0x27"
    using assms(1) by (auto simp: is_digit_def is_space_def is_alpha_def)
  then have "next_lexeme c s = (lexed tk_number, Suc (length s))" using assms by (simp add: next_lexeme_def number_len_all)
  then show ?thesis by (simp add: lex_keys)
qed

text \<open>
  C35: Every non-empty vector of four-valued bits of fewer than 2^31 bits, written as a sized
  binary literal, is lexed as one number token, and parsing that token gives the same bits back,
  unknown and high-impedance ones included.
\<close>

theorem literal_round_trip:
  assumes "0 < length bits" "length bits < 2 ^ 31"
  shows "map token_key (lx_tokens (lex smap (literal_text bits))) = [(tk_number, literal_text bits), (tk_eof, [])] \<and>
    parse_literal_bits want (literal_text bits) = Some (bits, False)"
proof
  obtain c ds where t: "dec_string (length bits) = c # ds" "is_digit c" "list_all is_digit ds"
    using dec_string_digits [of "length bits"] by (cases "dec_string (length bits)") auto
  have "is_digit (bit_char v) \<or> is_alpha (bit_char v)" for v by (cases v) (simp_all add: is_digit_def is_alpha_def)
  moreover have "is_alpha CHR ''b''" by (simp add: is_alpha_def)
  ultimately have "\<forall>x \<in> set (ds @ CHR 0x27 # CHR ''b'' # map bit_char bits). is_digit x \<or> is_alpha x \<or> x = CHR 0x27"
    using t(3) by (auto simp: list_all_iff)
  then show "map token_key (lx_tokens (lex smap (literal_text bits))) = [(tk_number, literal_text bits), (tk_eof, [])]"
    using lex_number_text [OF t(2)] t(1) by (simp add: literal_text_def)
  show "parse_literal_bits want (literal_text bits) = Some (bits, False)"
    using parse_sized [OF assms, of "CHR ''b''" want "map bit_char bits"] based_bits_text assms(1) by (simp add: literal_text_def)
qed

theorem literal_round_trip_witness:
  "parse_literal_bits True (''3'' @ CHR 0x27 # ''b1x0'') = Some ([true_state, indeterminate_state, false_state], False) \<and>
   map token_key (lx_tokens (lex None (''3'' @ CHR 0x27 # ''b1x0''))) = [(tk_number, ''3'' @ CHR 0x27 # ''b1x0''), (tk_eof, [])]"
proof -
  have t: "literal_text [true_state, indeterminate_state, false_state] = ''3'' @ CHR 0x27 # ''b1x0''" by code_simp
  show ?thesis using literal_round_trip [of "[true_state, indeterminate_state, false_state]" None True] unfolding t by simp
qed

end
