(* ===== verification/Symbols.thy ===== *)
theory Symbols
  imports Builder Literal_Props
begin

text \<open>
  What the parser works with: its cursor over the tokens (\<^verbatim>\<open>details::parser\<close>), the scopes of procedural blocks
  (\<^verbatim>\<open>proc_scope\<close>) and the signal, vector, port and parameter tables of the module under construction.
\<close>

subsection \<open>The cursor\<close>

record parser =
  ps_toks :: "token list"
  ps_pos :: nat
  ps_errors :: "compile_error list"
  ps_return_target :: string

definition peek :: "parser \<Rightarrow> token" where
  "peek p = ps_toks p ! ps_pos p"

definition at_eof :: "parser \<Rightarrow> bool" where
  "at_eof p \<longleftrightarrow> tk_kind (peek p) = tk_eof"

definition consume :: "parser \<Rightarrow> token \<times> parser" where
  "consume p = (peek p, if \<not> at_eof p then p\<lparr>ps_pos := ps_pos p + 1\<rparr> else p)"

definition err :: "token \<Rightarrow> string \<Rightarrow> parser \<Rightarrow> parser" where
  "err t msg p = p\<lparr>ps_errors := ps_errors p @ [\<lparr>ce_message = msg, ce_offset = 0, ce_line = tk_line t, ce_column = tk_column t\<rparr>]\<rparr>"

text \<open>\<^verbatim>\<open>accept_sym\<close>, \<^verbatim>\<open>accept_sym2\<close> and \<^verbatim>\<open>accept_sym3\<close> compare the text with one, two or three characters.\<close>

definition accept_token :: "token_kind \<Rightarrow> string \<Rightarrow> parser \<Rightarrow> bool \<times> parser" where
  "accept_token k txt p = (if tk_kind (peek p) = k \<and> tk_text (peek p) = txt then (True, snd (consume p)) else (False, p))"

definition accept_sym :: "char \<Rightarrow> parser \<Rightarrow> bool \<times> parser" where
  "accept_sym c = accept_token tk_symbol [c]"

definition accept_sym2 :: "char \<Rightarrow> char \<Rightarrow> parser \<Rightarrow> bool \<times> parser" where
  "accept_sym2 a b = accept_token tk_symbol [a, b]"

definition accept_sym3 :: "char \<Rightarrow> char \<Rightarrow> char \<Rightarrow> parser \<Rightarrow> bool \<times> parser" where
  "accept_sym3 a b c = accept_token tk_symbol [a, b, c]"

definition accept_kw :: "string \<Rightarrow> parser \<Rightarrow> bool \<times> parser" where
  "accept_kw kw = accept_token tk_identifier kw"

definition expect_ident :: "string \<Rightarrow> parser \<Rightarrow> string \<times> parser" where
  "expect_ident what p =
     (if tk_kind (peek p) \<noteq> tk_identifier then ([], err (peek p) what p) else (tk_text (peek p), snd (consume p)))"

text \<open>The loop of \<^verbatim>\<open>skip_until_semicolon\<close>, with a bound on its iterations.\<close>

fun skip_loop :: "nat \<Rightarrow> parser \<Rightarrow> parser option" where
  "skip_loop 0 p = None"
| "skip_loop (Suc n) p =
     (if at_eof p then Some p
      else (case accept_sym CHR '';'' p of
              (True, p') \<Rightarrow> Some p'
            | (False, p') \<Rightarrow> skip_loop n (snd (consume p'))))"

definition skip_until_semicolon :: "parser \<Rightarrow> parser option" where
  "skip_until_semicolon p = skip_loop (Suc (length (ps_toks p))) p"

subsection \<open>Scopes\<close>

record undo_entry =
  un_name :: string
  un_alias :: "string option"
  un_subst :: "expr_value option"

text \<open>\<open>un_alias\<close> and \<open>un_subst\<close> hold the flags \<^verbatim>\<open>had_alias\<close> and \<^verbatim>\<open>had_subst\<close>; the stacks have their top first.\<close>

record proc_scope =
  sc_aliases :: "string \<rightharpoonup> string"
  sc_subst :: "string \<rightharpoonup> expr_value"
  sc_undo :: "undo_entry list"
  sc_marks :: "nat list"

definition push_frame :: "proc_scope \<Rightarrow> proc_scope" where
  "push_frame sc = sc\<lparr>sc_marks := length (sc_undo sc) # sc_marks sc\<rparr>"

fun undo_to :: "nat \<Rightarrow> undo_entry list \<Rightarrow> (string \<rightharpoonup> string) \<Rightarrow> (string \<rightharpoonup> expr_value) \<Rightarrow> undo_entry list \<times> (string \<rightharpoonup> string) \<times> (string \<rightharpoonup> expr_value)" where
  "undo_to mark [] al su = ([], al, su)"
| "undo_to mark (u # us) al su =
     (if length (u # us) > mark
      then undo_to mark us (al(un_name u := un_alias u)) (su(un_name u := un_subst u))
      else (u # us, al, su))"

definition pop_frame :: "proc_scope \<Rightarrow> proc_scope" where
  "pop_frame sc =
     (case sc_marks sc of
        [] \<Rightarrow> sc
      | mark # marks \<Rightarrow>
          (case undo_to mark (sc_undo sc) (sc_aliases sc) (sc_subst sc) of
             (us, al, su) \<Rightarrow> \<lparr>sc_aliases = al, sc_subst = su, sc_undo = us, sc_marks = marks\<rparr>))"

definition bind_name :: "string \<Rightarrow> string \<Rightarrow> expr_value \<Rightarrow> proc_scope \<Rightarrow> proc_scope" where
  "bind_name visible internal ev sc =
     sc\<lparr>sc_undo := \<lparr>un_name = visible, un_alias = sc_aliases sc visible, un_subst = sc_subst sc visible\<rparr> # sc_undo sc,
        sc_aliases := (sc_aliases sc)(visible \<mapsto> internal), sc_subst := (sc_subst sc)(visible \<mapsto> ev)\<rparr>"

subsection \<open>Signals and vectors\<close>

definition get_or_create_signal :: "string \<Rightarrow> compiled_module \<Rightarrow> nat \<times> compiled_module" where
  "get_or_create_signal name m =
     (case m_signal_index m name of
        Some idx \<Rightarrow> (idx, m)
      | None \<Rightarrow>
          (let idx = length (m_signal_names m)
           in (idx, m\<lparr>m_signal_names := m_signal_names m @ [name],
                      m_signal_is_reg := m_signal_is_reg m @ [False],
                      m_signal_is_signed := m_signal_is_signed m @ [False],
                      m_signal_is_const := m_signal_is_const m @ [False],
                      m_signal_is_const_foldable := m_signal_is_const_foldable m @ [False],
                      m_signal_const_value := m_signal_const_value m @ [indeterminate_state],
                      m_signal_index := (m_signal_index m)(name \<mapsto> idx)\<rparr>)))"

definition dec_int_string :: "int \<Rightarrow> string" where
  "dec_int_string v = (if v < 0 then CHR ''-'' # dec_string (nat (- v)) else dec_string (nat v))"

definition make_bit_name :: "string \<Rightarrow> int \<Rightarrow> string" where
  "make_bit_name base idx = base @ CHR ''['' # dec_int_string idx @ [CHR '']'']"

definition make_scoped_local_name :: "string \<Rightarrow> compiled_module \<Rightarrow> string \<times> compiled_module" where
  "make_scoped_local_name visible m =
     (''$blk'' @ dec_string (unat (m_inline_counter m)) @ ''__'' @ visible, m\<lparr>m_inline_counter := m_inline_counter m + 1\<rparr>)"

text \<open>The signals of the positions of a new vector, most significant first.\<close>

fun vector_signals :: "string \<Rightarrow> bool \<Rightarrow> bool \<Rightarrow> int list \<Rightarrow> compiled_module \<Rightarrow> nat list \<times> compiled_module" where
  "vector_signals base is_reg is_signed [] m = ([], m)"
| "vector_signals base is_reg is_signed (idx # is) m =
     (case get_or_create_signal (make_bit_name base idx) m of
        (sig, m1) \<Rightarrow>
          (let m2 = (if is_reg then m1\<lparr>m_signal_is_reg := (m_signal_is_reg m1)[sig := True]\<rparr> else m1);
               m3 = (if is_signed then m2\<lparr>m_signal_is_signed := (m_signal_is_signed m2)[sig := True]\<rparr> else m2)
           in (case vector_signals base is_reg is_signed is m3 of (sigs, m4) \<Rightarrow> (sig # sigs, m4))))"

definition mark_regs :: "nat list \<Rightarrow> bool list \<Rightarrow> bool list" where
  "mark_regs sigs regs = fold (\<lambda>sig rs. if sig < length rs then rs[sig := True] else rs) sigs regs"

text \<open>The parser is \<open>None\<close> for a null pointer; it gets the error about a different range.\<close>

definition declare_vector_range ::
  "parser option \<Rightarrow> string \<Rightarrow> int \<Rightarrow> int \<Rightarrow> bool \<Rightarrow> bool \<Rightarrow> compiled_module \<Rightarrow> vector_desc \<times> parser option \<times> compiled_module" where
  "declare_vector_range p base msb lsb is_reg is_signed m =
     (case m_vectors m base of
        Some vd \<Rightarrow>
          (let p1 = (if vd_msb vd \<noteq> msb \<or> vd_lsb vd \<noteq> lsb
                     then map_option (\<lambda>q. err (peek q) ''redeclared vector with a different range is not supported'' q) p else p);
               vd1 = (if is_signed \<and> \<not> vd_is_signed vd then vd\<lparr>vd_is_signed := True\<rparr> else vd);
               vd2 = (if is_reg \<and> \<not> vd_is_reg vd1 then vd1\<lparr>vd_is_reg := True\<rparr> else vd1);
               m1 = (if is_reg \<and> \<not> vd_is_reg vd1 then m\<lparr>m_signal_is_reg := mark_regs (vd_bits vd1) (m_signal_is_reg m)\<rparr> else m)
           in (vd2, p1, m1\<lparr>m_vectors := (m_vectors m1)(base \<mapsto> vd2)\<rparr>))
      | None \<Rightarrow>
          (case vector_signals base is_reg is_signed (map (vector_index_at msb lsb) [0..<vector_width msb lsb]) m of
             (sigs, m1) \<Rightarrow>
               (let vd = \<lparr>vd_msb = msb, vd_lsb = lsb, vd_is_reg = is_reg, vd_is_signed = is_signed, vd_bits = sigs\<rparr>
                in (vd, p, m1\<lparr>m_vectors := (m_vectors m1)(base \<mapsto> vd)\<rparr>))))"

definition get_or_create_vector_bit :: "string \<Rightarrow> int \<Rightarrow> bool \<Rightarrow> compiled_module \<Rightarrow> nat \<times> compiled_module" where
  "get_or_create_vector_bit base idx is_reg m =
     (case (case m_vectors m base of
              None \<Rightarrow> None
            | Some vd \<Rightarrow> map_option (\<lambda>pos. vd_bits vd ! pos) (vector_pos (vd_msb vd) (vd_lsb vd) idx)) of
        Some sig \<Rightarrow> (sig, m)
      | None \<Rightarrow>
          (case get_or_create_signal (make_bit_name base idx) m of
             (sig, m1) \<Rightarrow> (sig, if is_reg then m1\<lparr>m_signal_is_reg := (m_signal_is_reg m1)[sig := True]\<rparr> else m1)))"

subsection \<open>Ports and parameters\<close>

definition ensure_port_decl :: "string \<Rightarrow> compiled_module \<Rightarrow> port_decl \<times> compiled_module" where
  "ensure_port_decl base m =
     (case m_port_decls m base of
        Some pd \<Rightarrow> (pd, m)
      | None \<Rightarrow> (port_decl_default, m\<lparr>m_port_order := m_port_order m @ [base], m_port_decls := (m_port_decls m)(base \<mapsto> port_decl_default)\<rparr>))"

definition set_const_signal :: "nat \<Rightarrow> logic_t \<Rightarrow> compiled_module \<Rightarrow> compiled_module" where
  "set_const_signal sig v m =
     (if length (m_signal_names m) \<le> sig then m
      else (let n = length (m_signal_names m);
                m1 = (if length (m_signal_is_const m) < n
                      then m\<lparr>m_signal_is_const := resize_vec False n (m_signal_is_const m),
                             m_signal_is_const_foldable := resize_vec False n (m_signal_is_const_foldable m),
                             m_signal_const_value := resize_vec false_state n (m_signal_const_value m)\<rparr>
                      else m)
            in m1\<lparr>m_signal_is_const := (m_signal_is_const m1)[sig := True], m_signal_const_value := (m_signal_const_value m1)[sig := v]\<rparr>))"

definition set_foldable :: "nat \<Rightarrow> bool \<Rightarrow> compiled_module \<Rightarrow> compiled_module" where
  "set_foldable sig is_local m =
     (if sig < length (m_signal_is_const_foldable m)
      then m\<lparr>m_signal_is_const_foldable := (m_signal_is_const_foldable m)[sig := is_local]\<rparr> else m)"

definition define_param :: "parser option \<Rightarrow> string \<Rightarrow> u64 \<Rightarrow> bool \<Rightarrow> compiled_module \<Rightarrow> parser option \<times> compiled_module" where
  "define_param p name val is_local m =
     (if name = [] then (p, m)
      else if m_param_default_values m name \<noteq> None
      then (map_option (\<lambda>q. err (peek q) ''redeclared parameter/localparam is not supported'' q) p, m)
      else (case declare_vector_range p name 31 0 False False m of
              (vd, p1, m1) \<Rightarrow>
                (let m2 = (if length (vd_bits vd) = 32
                           then fold (\<lambda>k m. let sig = vd_bits vd ! (31 - k)
                                            in set_foldable sig is_local (set_const_signal sig (of_bool_state (bit val k)) m)) [0..<32] m1
                           else fold (\<lambda>sig m. set_foldable sig is_local (set_const_signal sig indeterminate_state m)) (vd_bits vd) m1);
                     m3 = (if \<not> is_local then m2\<lparr>m_param_order := m_param_order m2 @ [name]\<rparr> else m2)
                 in (p1, m3\<lparr>m_param_default_values := (m_param_default_values m3)(name \<mapsto> val),
                            m_param_is_local := (if m_param_is_local m3 name = None then (m_param_is_local m3)(name \<mapsto> is_local)
                                                 else m_param_is_local m3)\<rparr>))))"

end
