(* ===== verification/Expr_Parse.thy ===== *)
theory Expr_Parse
  imports Symbols
begin

text \<open>
  The expression parser (\<^verbatim>\<open>details::expr_parser\<close> in \<^verbatim>\<open>digital.h\<close>, from \<^verbatim>\<open>parse_primary\<close> to \<^verbatim>\<open>parse_expr\<close>, and
  \<^verbatim>\<open>accept_range\<close>): it reads tokens at the cursor and calls the builder. The state is the parser, the module
  under construction and a flag that a recursion or loop bound was used up, which the theorems exclude. The
  function that parses the body of an inlined function, \<^verbatim>\<open>parse_proc_stmt\<close>, is the argument \<open>proc_stmt\<close>.
\<close>

subsection \<open>State\<close>

record pstate =
  pt_parser :: parser
  pt_m :: compiled_module
  pt_stuck :: bool

type_synonym 'a parse = "(pstate, 'a) state"

record expr_env =
  ee_const :: "string \<rightharpoonup> u64"
  ee_subst :: "string \<rightharpoonup> expr_value"

definition no_env :: expr_env where
  "no_env = \<lparr>ee_const = Map.empty, ee_subst = Map.empty\<rparr>"

definition on_parser :: "(parser \<Rightarrow> 'a \<times> parser) \<Rightarrow> 'a parse" where
  "on_parser f = State (\<lambda>s. case f (pt_parser s) of (a, p) \<Rightarrow> (a, s\<lparr>pt_parser := p\<rparr>))"

definition on_module :: "(compiled_module \<Rightarrow> 'a \<times> compiled_module) \<Rightarrow> 'a parse" where
  "on_module f = State (\<lambda>s. case f (pt_m s) of (a, m) \<Rightarrow> (a, s\<lparr>pt_m := m\<rparr>))"

text \<open>A call of the builder; its diagnostics are reported at the current token.\<close>

definition build :: "'a builder \<Rightarrow> 'a parse" where
  "build b = State (\<lambda>s. case run_state b \<lparr>xp_m = pt_m s, xp_errs = []\<rparr> of
     (a, x) \<Rightarrow> (a, s\<lparr>pt_m := xp_m x, pt_parser := fold (\<lambda>msg p. err (peek p) msg p) (xp_errs x) (pt_parser s)\<rparr>))"

definition stuck :: "'a \<Rightarrow> 'a parse" where
  "stuck a = State (\<lambda>s. (a, s\<lparr>pt_stuck := True\<rparr>))"

definition quoted :: "string \<Rightarrow> string" where
  "quoted txt = CHR 0x27 # txt @ [CHR 0x27]"

text \<open>\<open>symbol\<close> is \<^verbatim>\<open>accept_sym\<close>, \<^verbatim>\<open>accept_sym2\<close> or \<^verbatim>\<open>accept_sym3\<close> by the length of the text.\<close>

definition symbol :: "string \<Rightarrow> bool parse" where
  "symbol txt = on_parser (accept_token tk_symbol txt)"

definition kw :: "string \<Rightarrow> bool parse" where
  "kw txt = on_parser (accept_kw txt)"

definition peek_tok :: "token parse" where
  "peek_tok = on_parser (\<lambda>p. (peek p, p))"

definition eof_here :: "bool parse" where
  "eof_here = on_parser (\<lambda>p. (at_eof p, p))"

definition next_tok :: "unit parse" where
  "next_tok = on_parser (\<lambda>p. ((), snd (consume p)))"

definition error_tok :: "token \<Rightarrow> string \<Rightarrow> unit parse" where
  "error_tok t msg = on_parser (\<lambda>p. ((), err t msg p))"

definition error_here :: "string \<Rightarrow> unit parse" where
  "error_here msg = on_parser (\<lambda>p. ((), err (peek p) msg p))"

definition expect_sym :: "string \<Rightarrow> string \<Rightarrow> unit parse" where
  "expect_sym txt msg = do {b \<leftarrow> symbol txt; if b then State_Monad.return () else error_here msg}"

definition the_module :: "compiled_module parse" where
  "the_module = on_module (\<lambda>m. (m, m))"

text \<open>The bound of the loops, each of whose iterations consumes a token.\<close>

definition token_bound :: "nat parse" where
  "token_bound = on_parser (\<lambda>p. (Suc (length (ps_toks p)), p))"

definition unset_value :: expr_value where
  "unset_value = scalar_value SIZE_MAX 0 0 False"

definition is_unset :: "expr_value \<Rightarrow> bool" where
  "is_unset v \<longleftrightarrow> xv_scalar_root v = SIZE_MAX \<and> \<not> xv_is_vector v"

definition unknown_scalar :: "expr_value builder" where
  "unknown_scalar = do {x \<leftarrow> make_literal indeterminate_state; State_Monad.return (scalar_value x 0 0 False)}"

fun skip_to_loop :: "nat \<Rightarrow> string \<Rightarrow> unit parse" where
  "skip_to_loop 0 txt = stuck ()"
| "skip_to_loop (Suc n) txt =
     do {e \<leftarrow> eof_here;
         if e then State_Monad.return ()
         else do {b \<leftarrow> symbol txt;
                  if b then State_Monad.return () else do {_ \<leftarrow> next_tok; skip_to_loop n txt}}}"

definition skip_to :: "string \<Rightarrow> unit parse" where
  "skip_to txt = do {n \<leftarrow> token_bound; skip_to_loop n txt}"

subsection \<open>Arguments and ranges\<close>

fun args_loop :: "nat \<Rightarrow> expr_value parse \<Rightarrow> string option \<Rightarrow> expr_value list parse" where
  "args_loop 0 expr msg = stuck []"
| "args_loop (Suc n) expr msg =
     do {v \<leftarrow> expr; b \<leftarrow> symbol '')'';
         if b then State_Monad.return [v]
         else do {c \<leftarrow> symbol '','';
                  if c then do {vs \<leftarrow> args_loop n expr msg; State_Monad.return (v # vs)}
                  else do {_ \<leftarrow> (case msg of None \<Rightarrow> State_Monad.return () | Some t \<Rightarrow> error_here t);
                           _ \<leftarrow> skip_to '')''; State_Monad.return [v]}}}"

definition parse_args :: "expr_value parse \<Rightarrow> string option \<Rightarrow> expr_value list parse" where
  "parse_args expr msg =
     do {b \<leftarrow> symbol '')''; if b then State_Monad.return [] else do {n \<leftarrow> token_bound; args_loop n expr msg}}"

definition close_call :: "string \<Rightarrow> unit parse" where
  "close_call msg =
     do {b \<leftarrow> symbol '')''; if b then State_Monad.return () else do {_ \<leftarrow> error_here msg; skip_to '')''}}"

definition range_error :: "string \<Rightarrow> (int \<times> int) option parse" where
  "range_error msg = do {_ \<leftarrow> error_here msg; _ \<leftarrow> skip_to '']''; State_Monad.return None}"

text \<open>\<open>expr\<close> is \<^verbatim>\<open>parse_expr\<close> of a new \<^verbatim>\<open>expr_parser\<close> without substitutions.\<close>

definition accept_range :: "expr_value parse \<Rightarrow> (int \<times> int) option parse" where
  "accept_range expr =
     do {o1 \<leftarrow> symbol ''['';
         if \<not> o1 then State_Monad.return None
         else do {a_expr \<leftarrow> expr; m \<leftarrow> the_module;
                  case try_eval_const_int m a_expr of
                    None \<Rightarrow> range_error ''expected constant integer in range''
                  | Some a \<Rightarrow>
                      do {c \<leftarrow> symbol '':'';
                          if c
                          then do {b_expr \<leftarrow> expr; m1 \<leftarrow> the_module;
                                   case try_eval_const_int m1 b_expr of
                                     None \<Rightarrow> range_error (''expected constant integer after '' @ quoted '':'')
                                   | Some b \<Rightarrow> do {_ \<leftarrow> expect_sym '']'' (''expected '' @ quoted '']''); State_Monad.return (Some (a, b))}}
                          else do {_ \<leftarrow> expect_sym '']'' (''expected '' @ quoted '']''); State_Monad.return (Some (a, a))}}}}"

subsection \<open>Casts\<close>

definition is_cast_type :: "string \<Rightarrow> bool" where
  "is_cast_type v \<longleftrightarrow> v \<in> {''int'', ''integer'', ''logic'', ''reg'', ''wire'', ''bit'', ''byte'', ''shortint'', ''longint'', ''void''}"

definition cast_default_signed :: "string \<Rightarrow> bool" where
  "cast_default_signed type_kw \<longleftrightarrow> type_kw \<in> {''int'', ''integer'', ''byte'', ''shortint'', ''longint''}"

definition cast_default_width :: "string \<Rightarrow> nat" where
  "cast_default_width type_kw =
     (if type_kw = ''byte'' then 8 else if type_kw = ''shortint'' then 16 else if type_kw = ''longint'' then 64
      else if type_kw = ''int'' \<or> type_kw = ''integer'' then 32 else 1)"

fun sign_loop :: "nat \<Rightarrow> bool \<Rightarrow> bool parse" where
  "sign_loop 0 sg = stuck sg"
| "sign_loop (Suc n) sg =
     do {a \<leftarrow> kw ''signed'';
         if a then sign_loop n True
         else do {b \<leftarrow> kw ''unsigned''; if b then sign_loop n False else State_Monad.return sg}}"

definition parse_signs :: "bool \<Rightarrow> bool parse" where
  "parse_signs sg = do {n \<leftarrow> token_bound; sign_loop n sg}"

definition set_pos :: "nat \<Rightarrow> unit parse" where
  "set_pos k = on_parser (\<lambda>p. ((), p\<lparr>ps_pos := k\<rparr>))"

definition get_pos :: "nat parse" where
  "get_pos = on_parser (\<lambda>p. (ps_pos p, p))"

definition cast_value :: "(int \<times> int) option \<Rightarrow> nat \<Rightarrow> bool \<Rightarrow> expr_value \<Rightarrow> expr_value builder" where
  "cast_value tr cast_w cast_signed v =
     do {roots \<leftarrow> resize_to_vector v cast_w cast_signed;
         if cast_w \<le> 1
         then do {r \<leftarrow> (if roots = [] then make_literal indeterminate_state else State_Monad.return (last roots));
                  State_Monad.return (scalar_value r 0 0 cast_signed)}
         else (case tr of
                 Some (msb, lsb) \<Rightarrow> make_vector_with_range roots msb lsb cast_signed
               | None \<Rightarrow> make_vector_with_range roots (int cast_w - 1) 0 cast_signed)}"

text \<open>\<open>None\<close>: there is no apostrophe after the type, and the cursor is back at the keyword.\<close>

definition parse_cast :: "(expr_env \<Rightarrow> expr_value parse) \<Rightarrow> expr_env \<Rightarrow> string \<Rightarrow> expr_value option parse" where
  "parse_cast expr env type_kw =
     do {saved \<leftarrow> get_pos; _ \<leftarrow> next_tok;
         sg1 \<leftarrow> parse_signs (cast_default_signed type_kw);
         tr \<leftarrow> accept_range (expr no_env);
         cast_signed \<leftarrow> parse_signs sg1;
         let cast_w = (case tr of Some (msb, lsb) \<Rightarrow> vector_width msb lsb | None \<Rightarrow> cast_default_width type_kw);
         q \<leftarrow> symbol [CHR 0x27];
         if q
         then do {_ \<leftarrow> expect_sym ''('' (''expected '' @ quoted ''('' @ '' after cast'');
                  v \<leftarrow> expr env;
                  _ \<leftarrow> expect_sym '')'' (''expected '' @ quoted '')'' @ '' after cast'');
                  r \<leftarrow> build (cast_value tr cast_w cast_signed v);
                  State_Monad.return (Some r)}
         else do {_ \<leftarrow> set_pos saved; State_Monad.return None}}"

subsection \<open>System functions\<close>

definition declare_vector :: "string \<Rightarrow> int \<Rightarrow> int \<Rightarrow> bool \<Rightarrow> bool \<Rightarrow> vector_desc parse" where
  "declare_vector base msb lsb is_reg is_signed =
     State (\<lambda>s. case declare_vector_range (Some (pt_parser s)) base msb lsb is_reg is_signed (pt_m s) of
       (vd, p, m) \<Rightarrow> (vd, s\<lparr>pt_parser := (case p of Some q \<Rightarrow> q | None \<Rightarrow> pt_parser s), pt_m := m\<rparr>))"

definition signal_roots :: "nat list \<Rightarrow> nat list builder" where
  "signal_roots sigs = State_Monad.traverse_list make_signal_root sigs"

function clog2_loop :: "u64 \<Rightarrow> u64 \<Rightarrow> u64" where
  "clog2_loop x r = (if x = 0 then r else clog2_loop (drop_bit 1 x) (r + 1))"
  by auto
termination
proof (relation "measure (\<lambda>(x, r). unat x)")
  fix x :: u64
  assume "x \<noteq> 0"
  then have "0 < unat x" by (simp add: unat_gt_0)
  then have "unat x div 2 < unat x" by simp
  then show "((drop_bit 1 x, r + 1), x, r) \<in> measure (\<lambda>(x, r). unat x)" for r :: u64
    by (simp add: unat_drop_bit_eq drop_bit_eq_div [where a = "unat x"])
qed simp

declare clog2_loop.simps [simp del]

definition clog2 :: "u64 \<Rightarrow> u64" where
  "clog2 v = (if v \<le> 1 then 0 else clog2_loop (v - 1) 0)"

text \<open>\<open>None\<close>: the name is not one of the system functions.\<close>

definition system_function :: "expr_value parse \<Rightarrow> token \<Rightarrow> expr_value option parse" where
  "system_function expr t0 =
     (let name = tk_text t0
      in if name = ''$urandom'' \<or> name = ''$random''
         then do {b \<leftarrow> symbol ''('';
                  _ \<leftarrow> (if b then parse_args expr (Some (''expected '' @ quoted '','' @ '' or '' @ quoted '')'' @ '' in $urandom/$random argument list'')) else State_Monad.return []);
                  vd \<leftarrow> declare_vector ''$urandom'' 3 0 False False;
                  v \<leftarrow> build (do {roots \<leftarrow> signal_roots (vd_bits vd); make_vector_with_range roots (vd_msb vd) (vd_lsb vd) False});
                  State_Monad.return (Some v)}
         else if name = ''$clog2''
         then do {_ \<leftarrow> expect_sym ''('' (''expected '' @ quoted ''('' @ '' after $clog2'');
                  arg \<leftarrow> expr;
                  _ \<leftarrow> close_call (''expected '' @ quoted '')'' @ '' after $clog2'');
                  m \<leftarrow> the_module;
                  case try_eval_const_uint64 m arg of
                    None \<Rightarrow> do {_ \<leftarrow> error_tok t0 ''$clog2 argument must be a constant integer expression in this subset'';
                                v \<leftarrow> build (make_uint_literal 0 32); State_Monad.return (Some v)}
                  | Some u \<Rightarrow> do {v \<leftarrow> build (make_uint_literal (clog2 u) 32); State_Monad.return (Some v)}}
         else if name = ''$bits''
         then do {_ \<leftarrow> expect_sym ''('' (''expected '' @ quoted ''('' @ '' after $bits'');
                  arg \<leftarrow> expr;
                  _ \<leftarrow> close_call (''expected '' @ quoted '')'' @ '' after $bits'');
                  v \<leftarrow> build (make_uint_literal (word_of_nat (value_width arg)) 32); State_Monad.return (Some v)}
         else if name = ''$signed'' \<or> name = ''$unsigned''
         then do {_ \<leftarrow> expect_sym ''('' (''expected '' @ quoted ''('' @ '' after $signed/$unsigned'');
                  v \<leftarrow> expr;
                  _ \<leftarrow> close_call (''expected '' @ quoted '')'' @ '' after $signed/$unsigned'');
                  State_Monad.return (Some (v\<lparr>xv_is_signed := (name = ''$signed'')\<rparr>))}
         else State_Monad.return None)"

subsection \<open>Names\<close>

record qual_name =
  qn_name :: string
  qn_scope :: bool
  qn_dot :: bool
  qn_dots :: nat
  qn_first :: string

definition is_symbol_tok :: "string \<Rightarrow> token \<Rightarrow> bool" where
  "is_symbol_tok txt t \<longleftrightarrow> tk_kind t = tk_symbol \<and> tk_text t = txt"

definition accept_scope_resolution :: "bool parse" where
  "accept_scope_resolution =
     on_parser (\<lambda>p. if length (ps_toks p) \<le> ps_pos p + 1 then (False, p)
                    else if is_symbol_tok '':'' (ps_toks p ! ps_pos p) \<and> is_symbol_tok '':'' (ps_toks p ! (ps_pos p + 1))
                    then (True, snd (consume (snd (consume p)))) else (False, p))"

definition ident :: "string \<Rightarrow> string parse" where
  "ident what = on_parser (expect_ident what)"

fun qual_loop :: "nat \<Rightarrow> qual_name \<Rightarrow> qual_name parse" where
  "qual_loop 0 q = stuck q"
| "qual_loop (Suc n) q =
     do {sc \<leftarrow> accept_scope_resolution;
         if sc
         then do {seg \<leftarrow> ident (''expected identifier after '' @ quoted ''::'');
                  let q1 = q\<lparr>qn_scope := True\<rparr>;
                  if seg = [] then State_Monad.return q1
                  else qual_loop n (q1\<lparr>qn_name := qn_name q1 @ ''__'' @ seg\<rparr>)}
         else do {d \<leftarrow> symbol ''.'';
                  if d
                  then do {seg \<leftarrow> ident (''expected identifier after '' @ quoted ''.'');
                           let q1 = q\<lparr>qn_dot := True, qn_dots := qn_dots q + 1\<rparr>;
                           if seg = [] then State_Monad.return q1
                           else qual_loop n (q1\<lparr>qn_first := (if qn_dots q1 = 1 \<and> \<not> qn_scope q1 then seg else qn_first q1),
                                                qn_name := qn_name q1 @ ''__'' @ seg\<rparr>)}
                  else State_Monad.return q}}"

definition vector_ref :: "vector_desc \<Rightarrow> expr_value builder" where
  "vector_ref vd =
     (if vector_width (vd_msb vd) (vd_lsb vd) \<le> 1
      then do {r \<leftarrow> make_signal_root (hd (vd_bits vd)); State_Monad.return (scalar_value r (vd_msb vd) (vd_lsb vd) (vd_is_signed vd))}
      else do {bits \<leftarrow> signal_roots (vd_bits vd); make_vector_with_range bits (vd_msb vd) (vd_lsb vd) (vd_is_signed vd)})"

definition signal_signed :: "compiled_module \<Rightarrow> nat \<Rightarrow> bool" where
  "signal_signed m sig \<longleftrightarrow> sig < length (m_signal_is_signed m) \<and> m_signal_is_signed m ! sig"

text \<open>The parent's side of a named port connection.\<close>

definition connection_value :: "compiled_module \<Rightarrow> connection_ref \<Rightarrow> expr_value builder" where
  "connection_value m ref =
     (case cr_kind ref of
        conn_scalar \<Rightarrow>
          do {r \<leftarrow> make_signal_root (cr_scalar_signal ref); State_Monad.return (scalar_value r 0 0 (signal_signed m (cr_scalar_signal ref)))}
      | conn_literal \<Rightarrow> do {r \<leftarrow> make_literal (cr_literal ref); State_Monad.return (scalar_value r 0 0 False)}
      | conn_literal_vector \<Rightarrow>
          do {roots \<leftarrow> State_Monad.traverse_list make_literal (cr_literal_bits ref); make_vector roots (cr_is_signed ref)}
      | conn_expr \<Rightarrow>
          if length (cr_expr_roots ref) \<le> 1
          then do {r \<leftarrow> (if cr_expr_roots ref = [] then make_literal indeterminate_state else State_Monad.return (hd (cr_expr_roots ref)));
                   State_Monad.return (scalar_value r 0 0 (cr_is_signed ref))}
          else make_vector (cr_expr_roots ref) (cr_is_signed ref)
      | conn_vector \<Rightarrow>
          (case m_vectors m (cr_vector_base ref) of
             Some vd \<Rightarrow> if vd_bits vd \<noteq> [] then vector_ref vd else unknown_scalar
           | None \<Rightarrow> unknown_scalar)
      | conn_bit_list \<Rightarrow>
          do {bits \<leftarrow> State_Monad.traverse_list (\<lambda>b. if cb_is_literal b then make_literal (cb_literal b) else make_signal_root (cb_signal b)) (cr_bit_list ref);
              make_vector bits (cr_is_signed ref)}
      | conn_unconnected \<Rightarrow> unknown_scalar)"

definition find_connection :: "compiled_module \<Rightarrow> string \<Rightarrow> string \<Rightarrow> connection_ref option" where
  "find_connection m inst_name member =
     (if member = [] then None
      else (case find (\<lambda>i. id_instance_name i = inst_name) (m_instances m) of
              None \<Rightarrow> None
            | Some i \<Rightarrow> map_option ic_ref (find (\<lambda>c. ic_port_name c \<noteq> [] \<and> ic_port_name c = member) (id_connections i))))"

definition try_resolve_inst_port :: "string \<Rightarrow> string \<Rightarrow> expr_value \<Rightarrow> expr_value parse" where
  "try_resolve_inst_port head member base =
     do {m \<leftarrow> the_module;
         case find_connection m head member of
           None \<Rightarrow> State_Monad.return base
         | Some ref \<Rightarrow> build (connection_value m ref)}"

text \<open>A name that is neither a constant nor called.\<close>

definition name_ref :: "string \<Rightarrow> expr_value parse" where
  "name_ref name =
     do {m \<leftarrow> the_module;
         case (case m_vectors m name of Some vd \<Rightarrow> if vd_bits vd \<noteq> [] then Some vd else None | None \<Rightarrow> None) of
           Some vd \<Rightarrow> build (vector_ref vd)
         | None \<Rightarrow>
             do {sig \<leftarrow> on_module (get_or_create_signal name);
                 m1 \<leftarrow> the_module;
                 build (do {r \<leftarrow> make_signal_root sig; State_Monad.return (scalar_value r 0 0 (signal_signed m1 sig))})}}"

subsection \<open>Calls of functions\<close>

definition mangle :: "u64 \<Rightarrow> string \<Rightarrow> string" where
  "mangle call_id nm = ''$fncall'' @ dec_string (unat call_id) @ ''__'' @ nm"

definition make_renames :: "u64 \<Rightarrow> string \<Rightarrow> function_def \<Rightarrow> (string \<times> string) list" where
  "make_renames call_id name fd =
     (name, mangle call_id name)
     # map (\<lambda>n. (n, mangle call_id n)) (filter (\<lambda>n. n \<noteq> []) (map fp_name (fd_params fd)))
     @ map (\<lambda>n. (n, mangle call_id n)) (filter (\<lambda>n. n \<noteq> [] \<and> n \<noteq> name) (fd_locals fd))"

definition lookup_rename :: "(string \<times> string) list \<Rightarrow> string \<Rightarrow> string" where
  "lookup_rename renames nm = (case find (\<lambda>rp. fst rp = nm) renames of Some rp \<Rightarrow> snd rp | None \<Rightarrow> [])"

text \<open>The rewritten body and whether it ends in a word.\<close>

definition emit_text :: "string \<Rightarrow> bool \<Rightarrow> string \<times> bool \<Rightarrow> string \<times> bool" where
  "emit_text txt is_word st =
     (case st of (out, prev_word) \<Rightarrow> (out @ (if out \<noteq> [] \<and> prev_word \<and> is_word then '' '' else []) @ txt, is_word))"

definition emit_renamed :: "(string \<times> string) list \<Rightarrow> token \<Rightarrow> string \<times> bool \<Rightarrow> string \<times> bool" where
  "emit_renamed renames tk st =
     (if tk_kind tk = tk_identifier
      then (if lookup_rename renames (tk_text tk) \<noteq> [] then emit_text (lookup_rename renames (tk_text tk)) True st
            else emit_text (tk_text tk) True st)
      else emit_text (tk_text tk) (tk_kind tk = tk_number) st)"

fun rename_body :: "(string \<times> string) list \<Rightarrow> string \<Rightarrow> bool \<Rightarrow> token list \<Rightarrow> string \<times> bool \<Rightarrow> string" where
  "rename_body renames ret in_return [] st = fst st"
| "rename_body renames ret in_return (tk # tks) st =
     (if tk_kind tk = tk_eof then fst st
      else if in_return
      then (if is_symbol_tok '';'' tk
            then rename_body renames ret False tks (emit_text '';'' False (emit_text ''return'' True (emit_text '';'' False st)))
            else rename_body renames ret True tks (emit_renamed renames tk st))
      else if tk_kind tk = tk_identifier \<and> tk_text tk = ''return''
      then (if tks \<noteq> [] \<and> is_symbol_tok '';'' (hd tks)
            then rename_body renames ret False tks (emit_text (tk_text tk) True st)
            else rename_body renames ret True tks (emit_text ''='' False (emit_text ret True st)))
      else rename_body renames ret False tks (emit_renamed renames tk st))"

definition declare_scalar :: "string \<Rightarrow> bool \<Rightarrow> bool \<Rightarrow> nat parse" where
  "declare_scalar nm is_reg is_signed =
     on_module (\<lambda>m. case get_or_create_signal nm m of
       (sig, m1) \<Rightarrow>
         (let m2 = (if sig < length (m_signal_is_reg m1) \<and> is_reg then m1\<lparr>m_signal_is_reg := (m_signal_is_reg m1)[sig := True]\<rparr> else m1);
              m3 = (if sig < length (m_signal_is_signed m2) \<and> is_signed then m2\<lparr>m_signal_is_signed := (m_signal_is_signed m2)[sig := True]\<rparr> else m2)
          in (sig, m3)))"

text \<open>\<open>None\<close> is the null pointer for a scalar.\<close>

definition declare_vector_like :: "string \<Rightarrow> bool \<Rightarrow> bool \<Rightarrow> bool \<Rightarrow> int \<Rightarrow> int \<Rightarrow> nat \<Rightarrow> vector_desc option parse" where
  "declare_vector_like nm is_reg is_signed has_range msb lsb w =
     (if w \<le> 1 \<and> \<not> has_range
      then do {_ \<leftarrow> declare_scalar nm is_reg is_signed; State_Monad.return None}
      else do {vd \<leftarrow> declare_vector nm (if has_range then msb else int w - 1) (if has_range then lsb else 0) is_reg is_signed;
               State_Monad.return (Some vd)})"

definition add_assigns :: "(nat \<times> nat) list \<Rightarrow> unit parse" where
  "add_assigns ps =
     on_module (\<lambda>m. ((), m\<lparr>m_assigns := m_assigns m @ map (\<lambda>(l, r). \<lparr>ca_lhs_signal = l, ca_expr_root = r, ca_guard_root = SIZE_MAX\<rparr>) ps\<rparr>))"

fun connect_params :: "u64 \<Rightarrow> (function_param \<times> expr_value) list \<Rightarrow> unit parse" where
  "connect_params call_id [] = State_Monad.return ()"
| "connect_params call_id ((pd, arg) # ps) =
     (if fp_name pd = [] then connect_params call_id ps
      else do {let mn = mangle call_id (fp_name pd);
               let w = (if fp_width pd = 0 then 1 else fp_width pd);
               vd \<leftarrow> declare_vector_like mn False (fp_is_signed pd) (fp_has_range pd) (fp_msb pd) (fp_lsb pd) w;
               rhs_bits \<leftarrow> build (resize_to_vector arg w (fp_is_signed pd));
               _ \<leftarrow> (case vd of
                       Some d \<Rightarrow> if length (vd_bits d) = length rhs_bits then add_assigns (zip (vd_bits d) rhs_bits) else State_Monad.return ()
                     | None \<Rightarrow> do {sig \<leftarrow> on_module (get_or_create_signal mn);
                                    if rhs_bits \<noteq> [] then add_assigns [(sig, last rhs_bits)] else State_Monad.return ()});
               connect_params call_id ps})"

type_synonym stmt_parser = "parser \<Rightarrow> compiled_module \<Rightarrow> (nat \<times> stmt_node list \<times> parser \<times> compiled_module) option"

text \<open>The renamed body as a combinational block; the new parser shares the list of errors.\<close>

definition inline_body :: "stmt_parser \<Rightarrow> string \<Rightarrow> string \<Rightarrow> unit parse" where
  "inline_body proc_stmt proc_text ret =
     State (\<lambda>s.
       let fp = \<lparr>ps_toks = lx_tokens (lex None proc_text), ps_pos = 0, ps_errors = ps_errors (pt_parser s), ps_return_target = ret\<rparr>
       in case proc_stmt fp (pt_m s) of
            None \<Rightarrow> ((), s\<lparr>pt_stuck := True\<rparr>)
          | Some (root, nodes, fp', m) \<Rightarrow>
              (let nodes1 = (if root < length nodes \<and> sn_k (nodes ! root) = block
                             then nodes[root := (nodes ! root)\<lparr>sn_k := subprogram_block\<rparr>] else nodes);
                   ac = \<lparr>ac_is_star = True, ac_sens_signals = [], ac_stmt_nodes = nodes1, ac_roots = [root]\<rparr>
               in ((), s\<lparr>pt_parser := (pt_parser s)\<lparr>ps_errors := ps_errors fp'\<rparr>,
                        pt_m := m\<lparr>m_always_combs := m_always_combs m @ [ac]\<rparr>\<rparr>)))"

definition inline_call :: "stmt_parser \<Rightarrow> token \<Rightarrow> string \<Rightarrow> function_def \<Rightarrow> expr_value list \<Rightarrow> expr_value parse" where
  "inline_call proc_stmt t0 name fd args =
     do {_ \<leftarrow> (if length args \<noteq> length (fd_params fd) then error_tok t0 ''function argument count mismatch'' else State_Monad.return ());
         call_id \<leftarrow> on_module (\<lambda>m. (m_inline_counter m, m\<lparr>m_inline_counter := m_inline_counter m + 1\<rparr>));
         let ret = mangle call_id name;
         let renames = make_renames call_id name fd;
         _ \<leftarrow> connect_params call_id (zip (fd_params fd) args);
         ret_vd \<leftarrow> declare_vector_like ret True (fd_ret_is_signed fd) (fd_ret_has_range fd) (fd_ret_msb fd) (fd_ret_lsb fd)
                     (if fd_ret_width fd = 0 then 1 else fd_ret_width fd);
         _ \<leftarrow> (if ret_vd = None \<and> 1 < fd_ret_width fd
                then do {_ \<leftarrow> declare_scalar ret True (fd_ret_is_signed fd); State_Monad.return ()} else State_Monad.return ());
         let body = rename_body renames ret False (lx_tokens (lex None (fd_body_text fd))) ([], False);
         _ \<leftarrow> inline_body proc_stmt (''begin '' @ body @ '' end'') ret;
         case ret_vd of
           Some vd \<Rightarrow>
             if vd_bits vd \<noteq> []
             then build (do {bits \<leftarrow> signal_roots (vd_bits vd); make_vector_with_range bits (vd_msb vd) (vd_lsb vd) (fd_ret_is_signed fd)})
             else do {sig \<leftarrow> on_module (get_or_create_signal ret);
                      build (do {r \<leftarrow> make_signal_root sig; State_Monad.return (scalar_value r 0 0 (fd_ret_is_signed fd))})}
         | None \<Rightarrow> do {sig \<leftarrow> on_module (get_or_create_signal ret);
                       build (do {r \<leftarrow> make_signal_root sig; State_Monad.return (scalar_value r 0 0 (fd_ret_is_signed fd))})}}"

text \<open>After the opening parenthesis.\<close>

definition parse_call :: "stmt_parser \<Rightarrow> expr_value parse \<Rightarrow> token \<Rightarrow> qual_name \<Rightarrow> expr_value parse" where
  "parse_call proc_stmt expr t0 q =
     do {m \<leftarrow> the_module;
         let name = qn_name q;
         case m_functions m name of
           None \<Rightarrow>
             do {_ \<leftarrow> (if \<not> (qn_scope q \<or> qn_dot q \<or> (name \<noteq> [] \<and> hd name = CHR ''$'') \<or> name = ''new'')
                        then do {_ \<leftarrow> error_tok t0 ''unknown function (only user-defined functions in this module are supported)''; skip_to '')''}
                        else do {_ \<leftarrow> parse_args expr None; State_Monad.return ()});
                 build unknown_scalar}
         | Some fd \<Rightarrow>
             do {args \<leftarrow> parse_args expr (Some (''expected '' @ quoted '','' @ '' or '' @ quoted '')'' @ '' in function call'')); inline_call proc_stmt t0 name fd args}}"

definition identifier_value :: "stmt_parser \<Rightarrow> expr_value parse \<Rightarrow> expr_env \<Rightarrow> token \<Rightarrow> expr_value parse" where
  "identifier_value proc_stmt expr env t0 =
     (let name = tk_text t0; q0 = \<lparr>qn_name = name, qn_scope = False, qn_dot = False, qn_dots = 0, qn_first = []\<rparr>;
          base = (case ee_subst env name of Some v \<Rightarrow> v | None \<Rightarrow> unset_value)
      in do {(base1, q) \<leftarrow> (if \<not> is_unset base then State_Monad.return (base, q0)
                            else do {n \<leftarrow> token_bound; q \<leftarrow> qual_loop n q0;
                                     t \<leftarrow> peek_tok;
                                     b \<leftarrow> (if qn_dot q \<and> \<not> qn_scope q \<and> qn_dots q = 1 \<and> \<not> is_symbol_tok ''('' t
                                            then try_resolve_inst_port name (qn_first q) base else State_Monad.return base);
                                     State_Monad.return (b, q)});
             base2 \<leftarrow> (case (if is_unset base1 then ee_const env (qn_name q) else None) of
                         Some u \<Rightarrow> build (make_uint_literal u 32)
                       | None \<Rightarrow> State_Monad.return base1);
             if \<not> is_unset base2 then State_Monad.return base2
             else do {b \<leftarrow> symbol ''('';
                      if b then parse_call proc_stmt expr t0 q else name_ref (qn_name q)}})"

subsection \<open>Concatenations\<close>

text \<open>Items separated by commas.\<close>

fun items_loop :: "nat \<Rightarrow> expr_value parse \<Rightarrow> nat list \<Rightarrow> nat list parse" where
  "items_loop 0 expr bits = stuck bits"
| "items_loop (Suc n) expr bits =
     do {e \<leftarrow> expr; c \<leftarrow> symbol '','';
         if c then items_loop n expr (bits @ value_bits e) else State_Monad.return (bits @ value_bits e)}"

definition parse_concat_items_until_rbrace :: "expr_value parse \<Rightarrow> nat list parse" where
  "parse_concat_items_until_rbrace expr =
     do {b \<leftarrow> symbol ''}'';
         if b
         then do {_ \<leftarrow> error_here ''empty concatenation is not supported'';
                  r \<leftarrow> build (make_literal indeterminate_state); State_Monad.return [r]}
         else do {n \<leftarrow> token_bound; bits \<leftarrow> items_loop n expr [];
                  _ \<leftarrow> expect_sym ''}'' (''expected '' @ quoted ''}''); State_Monad.return bits}}"

definition parse_streaming :: "expr_value parse \<Rightarrow> expr_value parse" where
  "parse_streaming expr =
     do {o1 \<leftarrow> symbol ''{'';
         _ \<leftarrow> (if o1 then State_Monad.return ()
                else do {_ \<leftarrow> expr; expect_sym ''{'' (''expected '' @ quoted ''{'' @ '' in streaming concatenation'')});
         bits0 \<leftarrow> parse_concat_items_until_rbrace expr;
         _ \<leftarrow> expect_sym ''}'' (''expected '' @ quoted ''}'');
         let bits = take max_concat_bits bits0;
         build (if length bits \<le> 1
                then do {r \<leftarrow> (if bits = [] then make_literal indeterminate_state else State_Monad.return (hd bits));
                         State_Monad.return (scalar_value r 0 0 False)}
                else make_vector bits False)}"

definition replication_count :: "expr_value \<Rightarrow> int parse" where
  "replication_count first_expr =
     do {m \<leftarrow> the_module;
         case try_eval_const_int m first_expr of
           Some k \<Rightarrow> if k < 0 then do {_ \<leftarrow> error_here ''expected non-negative constant integer replication count''; State_Monad.return 0}
                     else State_Monad.return k
         | None \<Rightarrow> do {_ \<leftarrow> error_here ''expected non-negative constant integer replication count''; State_Monad.return 0}}"

definition replicate_value :: "int \<Rightarrow> nat list \<Rightarrow> expr_value parse" where
  "replicate_value rep_count inner_bits =
     (if rep_count \<le> 0 \<or> inner_bits = [] then build unknown_scalar
      else if max_concat_bits < length inner_bits * nat rep_count
      then do {_ \<leftarrow> error_here ''concatenation/replication too wide (limit exceeded)'';
               build (make_unknown_vector max_concat_bits False)}
      else build (make_vector (concat (replicate (nat rep_count) inner_bits)) False))"

definition parse_replication :: "expr_value parse \<Rightarrow> expr_value \<Rightarrow> expr_value parse" where
  "parse_replication expr first_expr =
     do {rep_count \<leftarrow> replication_count first_expr;
         inner_bits \<leftarrow> parse_concat_items_until_rbrace expr;
         _ \<leftarrow> expect_sym ''}'' (''expected '' @ quoted ''}'');
         replicate_value rep_count inner_bits}"

definition concat_value :: "nat list \<Rightarrow> expr_value parse" where
  "concat_value bits =
     do {_ \<leftarrow> (if max_concat_bits < length bits then error_here ''concatenation too wide (limit exceeded)'' else State_Monad.return ());
         build (make_vector (take max_concat_bits bits) False)}"

definition parse_concat_rest :: "expr_value parse \<Rightarrow> expr_value \<Rightarrow> expr_value parse" where
  "parse_concat_rest expr first_expr =
     do {c \<leftarrow> symbol '','';
         bits \<leftarrow> (if c then do {n \<leftarrow> token_bound; items_loop n expr (value_bits first_expr)} else State_Monad.return (value_bits first_expr));
         _ \<leftarrow> expect_sym ''}'' (''expected '' @ quoted ''}'');
         concat_value bits}"

text \<open>After the opening brace.\<close>

definition parse_concat :: "expr_value parse \<Rightarrow> expr_value parse" where
  "parse_concat expr =
     do {e \<leftarrow> symbol ''}'';
         if e then do {_ \<leftarrow> error_here ''empty concatenation is not supported''; build unknown_scalar}
         else do {l \<leftarrow> symbol ''<<'';
                  r \<leftarrow> (if l then State_Monad.return True else symbol ''>>'');
                  if r then parse_streaming expr
                  else do {first_expr \<leftarrow> expr;
                           b \<leftarrow> symbol ''{'';
                           if b then parse_replication expr first_expr else parse_concat_rest expr first_expr}}}"

subsection \<open>Primaries\<close>

definition number_value :: "logic_t list \<Rightarrow> bool \<Rightarrow> expr_value builder" where
  "number_value lit_bits lit_signed =
     (if length lit_bits \<le> 1
      then do {r \<leftarrow> make_literal (if lit_bits = [] then indeterminate_state else hd lit_bits); State_Monad.return (scalar_value r 0 0 lit_signed)}
      else do {roots \<leftarrow> State_Monad.traverse_list make_literal lit_bits; make_vector roots lit_signed})"

text \<open>Bit and part selects after any primary.\<close>

fun postfix_loop :: "nat \<Rightarrow> expr_value parse \<Rightarrow> expr_value \<Rightarrow> expr_value parse" where
  "postfix_loop 0 expr base = stuck base"
| "postfix_loop (Suc n) expr base =
     do {b \<leftarrow> symbol ''['';
         if \<not> b then State_Monad.return base
         else do {first_e \<leftarrow> expr;
                  up \<leftarrow> symbol ''+:'';
                  if up
                  then do {w_e \<leftarrow> expr; _ \<leftarrow> expect_sym '']'' (''expected '' @ quoted '']'');
                           v \<leftarrow> build (apply_indexed_part_select base first_e w_e True); postfix_loop n expr v}
                  else do {dn \<leftarrow> symbol ''-:'';
                           if dn
                           then do {w_e \<leftarrow> expr; _ \<leftarrow> expect_sym '']'' (''expected '' @ quoted '']'');
                                    v \<leftarrow> build (apply_indexed_part_select base first_e w_e False); postfix_loop n expr v}
                           else do {c \<leftarrow> symbol '':'';
                                    if c
                                    then do {lsb_e \<leftarrow> expr; _ \<leftarrow> expect_sym '']'' (''expected '' @ quoted '']'');
                                             v \<leftarrow> build (apply_part_select base first_e lsb_e); postfix_loop n expr v}
                                    else do {_ \<leftarrow> expect_sym '']'' (''expected '' @ quoted '']'');
                                             v \<leftarrow> build (apply_bit_select base first_e); postfix_loop n expr v}}}}}"

definition parse_postfix :: "expr_value parse \<Rightarrow> expr_value \<Rightarrow> expr_value parse" where
  "parse_postfix expr base = do {n \<leftarrow> token_bound; postfix_loop n expr base}"

definition parse_primary :: "stmt_parser \<Rightarrow> (expr_env \<Rightarrow> expr_value parse) \<Rightarrow> expr_env \<Rightarrow> expr_value parse" where
  "parse_primary proc_stmt expr env =
     do {t0 \<leftarrow> peek_tok;
         if tk_kind t0 = tk_identifier
         then do {cast \<leftarrow> (if is_cast_type (tk_text t0) then parse_cast expr env (tk_text t0) else State_Monad.return None);
                  case cast of
                    Some v \<Rightarrow> State_Monad.return v
                  | None \<Rightarrow>
                      do {_ \<leftarrow> next_tok;
                          sf \<leftarrow> system_function (expr env) t0;
                          case sf of
                            Some v \<Rightarrow> State_Monad.return v
                          | None \<Rightarrow> do {base \<leftarrow> identifier_value proc_stmt (expr env) env t0; parse_postfix (expr env) base}}}
         else if tk_kind t0 = tk_number
         then (case parse_literal_bits True (tk_text t0) of
                 None \<Rightarrow> do {_ \<leftarrow> error_tok t0 ''invalid number literal''; _ \<leftarrow> next_tok; build unknown_scalar}
               | Some (lit_bits, lit_signed) \<Rightarrow>
                   do {_ \<leftarrow> next_tok; base \<leftarrow> build (number_value lit_bits lit_signed); parse_postfix (expr env) base})
         else if tk_kind t0 = tk_symbol \<and> tk_text t0 \<noteq> [] \<and> hd (tk_text t0) = CHR 0x22
         then do {_ \<leftarrow> next_tok; base \<leftarrow> build unknown_scalar; parse_postfix (expr env) base}
         else if is_symbol_tok ''{'' t0
         then do {_ \<leftarrow> next_tok; base \<leftarrow> parse_concat (expr env); parse_postfix (expr env) base}
         else if is_symbol_tok ''('' t0
         then do {_ \<leftarrow> next_tok; base \<leftarrow> expr env; _ \<leftarrow> expect_sym '')'' (''expected '' @ quoted '')''); parse_postfix (expr env) base}
         else do {_ \<leftarrow> error_tok t0 ''expected expression''; _ \<leftarrow> next_tok; base \<leftarrow> build unknown_scalar; parse_postfix (expr env) base}}"

subsection \<open>Operators\<close>

definition reduce_root :: "(nat \<Rightarrow> nat \<Rightarrow> nat builder) \<Rightarrow> logic_t \<Rightarrow> expr_value \<Rightarrow> nat builder" where
  "reduce_root f start a =
     (if \<not> xv_is_vector a then State_Monad.return (xv_scalar_root a)
      else do {r \<leftarrow> make_literal start; fold_roots f r (xv_vector_roots a)})"

definition reduce_and_root :: "expr_value \<Rightarrow> nat builder" where
  "reduce_and_root = reduce_root make_and true_state"

definition reduce_or_root :: "expr_value \<Rightarrow> nat builder" where
  "reduce_or_root = reduce_root make_or false_state"

definition reduce_xor_root :: "expr_value \<Rightarrow> nat builder" where
  "reduce_xor_root = reduce_root make_xor false_state"

definition scalar_of :: "nat builder \<Rightarrow> expr_value builder" where
  "scalar_of b = do {r \<leftarrow> b; State_Monad.return (scalar_value r 0 0 False)}"

fun power_loop :: "nat \<Rightarrow> expr_value parse \<Rightarrow> expr_value parse" where
  "power_loop 0 primary = stuck unset_value"
| "power_loop (Suc n) primary =
     do {lhs \<leftarrow> primary;
         b \<leftarrow> symbol ''**'';
         if b then do {rhs \<leftarrow> power_loop n primary; build (arith_pow lhs rhs)} else State_Monad.return lhs}"

definition parse_power :: "expr_value parse \<Rightarrow> expr_value parse" where
  "parse_power primary = do {n \<leftarrow> token_bound; power_loop n primary}"

definition negate :: "expr_value \<Rightarrow> expr_value builder" where
  "negate a =
     do {z \<leftarrow> (if xv_is_signed a then make_int_literal 0 (value_width a) else make_uint_literal 0 (value_width a));
         r \<leftarrow> arith_sub z a; resize_value r (value_width a) (xv_is_signed a)}"

text \<open>The prefix operators in the order the code tries them.\<close>

definition unary_ops :: "(string \<times> (expr_value \<Rightarrow> expr_value builder)) list" where
  "unary_ops =
     [(''!'', \<lambda>a. scalar_of (do {r \<leftarrow> to_bool_root a; make_not r})),
      (''~&'', \<lambda>a. scalar_of (do {r \<leftarrow> reduce_and_root a; make_not r})),
      (''~|'', \<lambda>a. scalar_of (do {r \<leftarrow> reduce_or_root a; make_not r})),
      (''~^'', \<lambda>a. scalar_of (do {r \<leftarrow> reduce_xor_root a; make_not r})),
      (''^~'', \<lambda>a. scalar_of (do {r \<leftarrow> reduce_xor_root a; make_not r})),
      (''&'', \<lambda>a. scalar_of (reduce_and_root a)),
      (''|'', \<lambda>a. scalar_of (reduce_or_root a)),
      (''^'', \<lambda>a. scalar_of (reduce_xor_root a)),
      (''+'', \<lambda>a. State_Monad.return a),
      (''-'', negate),
      (''~'', \<lambda>a. bitwise_unary a unary_not)]"

text \<open>The first operator of a table at the cursor.\<close>

fun accept_op :: "(string \<times> 'a) list \<Rightarrow> 'a option parse" where
  "accept_op [] = State_Monad.return None"
| "accept_op ((txt, f) # ops) = do {b \<leftarrow> symbol txt; if b then State_Monad.return (Some f) else accept_op ops}"

fun unary_loop :: "nat \<Rightarrow> expr_value parse \<Rightarrow> expr_value parse" where
  "unary_loop 0 primary = stuck unset_value"
| "unary_loop (Suc n) primary =
     do {u \<leftarrow> accept_op unary_ops;
         case u of
           Some f \<Rightarrow> do {a \<leftarrow> unary_loop n primary; build (f a)}
         | None \<Rightarrow> parse_power primary}"

definition parse_unary :: "expr_value parse \<Rightarrow> expr_value parse" where
  "parse_unary primary = do {n \<leftarrow> token_bound; unary_loop n primary}"

text \<open>The loop of a level of left-associative operators.\<close>

type_synonym binary_op = "expr_value \<Rightarrow> expr_value \<Rightarrow> expr_value builder"

fun op_loop :: "nat \<Rightarrow> (string \<times> binary_op) list \<Rightarrow> expr_value parse \<Rightarrow> expr_value \<Rightarrow> expr_value parse" where
  "op_loop 0 ops operand lhs = stuck lhs"
| "op_loop (Suc n) ops operand lhs =
     do {u \<leftarrow> accept_op ops;
         case u of
           Some f \<Rightarrow> do {rhs \<leftarrow> operand; v \<leftarrow> build (f lhs rhs); op_loop n ops operand v}
         | None \<Rightarrow> State_Monad.return lhs}"

definition left_assoc :: "(string \<times> binary_op) list \<Rightarrow> expr_value parse \<Rightarrow> expr_value parse" where
  "left_assoc ops operand = do {lhs \<leftarrow> operand; n \<leftarrow> token_bound; op_loop n ops operand lhs}"

definition mul_ops :: "(string \<times> binary_op) list" where
  "mul_ops = [(''*'', arith_mul), (''/'', arith_div), (''%'', arith_mod)]"

definition parse_mul :: "expr_value parse \<Rightarrow> expr_value parse" where
  "parse_mul primary = left_assoc mul_ops (parse_unary primary)"

definition add_ops :: "(string \<times> binary_op) list" where
  "add_ops = [(''+'', arith_add), (''-'', arith_sub)]"

definition parse_add :: "expr_value parse \<Rightarrow> expr_value parse" where
  "parse_add primary = left_assoc add_ops (parse_mul primary)"

definition shift_ops :: "(string \<times> binary_op) list" where
  "shift_ops = [(''<<'', shift_left), (''>>'', shift_right)]"

definition parse_shift :: "expr_value parse \<Rightarrow> expr_value parse" where
  "parse_shift primary = left_assoc shift_ops (parse_add primary)"

definition and_ops :: "(string \<times> binary_op) list" where
  "and_ops = [(''&'', \<lambda>a b. bitwise_binary a b binary_and)]"

definition parse_and :: "expr_value parse \<Rightarrow> expr_value parse" where
  "parse_and primary = left_assoc and_ops (parse_shift primary)"

definition xnor_values :: binary_op where
  "xnor_values a b = do {x \<leftarrow> bitwise_binary a b binary_xor; bitwise_unary x unary_not}"

definition xor_ops :: "(string \<times> binary_op) list" where
  "xor_ops = [(''^'', \<lambda>a b. bitwise_binary a b binary_xor), (''~^'', xnor_values), (''^~'', xnor_values)]"

definition parse_xor :: "expr_value parse \<Rightarrow> expr_value parse" where
  "parse_xor primary = left_assoc xor_ops (parse_and primary)"

definition or_ops :: "(string \<times> binary_op) list" where
  "or_ops = [(''|'', \<lambda>a b. bitwise_binary a b binary_or)]"

definition parse_or :: "expr_value parse \<Rightarrow> expr_value parse" where
  "parse_or primary = left_assoc or_ops (parse_xor primary)"

definition rel_ops :: "(string \<times> binary_op) list" where
  "rel_ops = [(''<'', \<lambda>a b. scalar_of (compare_lt a b)), (''<='', \<lambda>a b. scalar_of (compare_le a b)),
     (''>'', \<lambda>a b. scalar_of (compare_gt a b)), (''>='', \<lambda>a b. scalar_of (compare_ge a b))]"

definition parse_rel :: "expr_value parse \<Rightarrow> expr_value parse" where
  "parse_rel primary = left_assoc rel_ops (parse_or primary)"

definition eq_ops :: "(string \<times> binary_op) list" where
  "eq_ops = [(''==='', \<lambda>a b. scalar_of (compare_case_eq a b)),
     (''!=='', \<lambda>a b. scalar_of (do {r \<leftarrow> compare_case_eq a b; make_not r})),
     (''=='', \<lambda>a b. scalar_of (compare_eq a b)),
     (''!='', \<lambda>a b. scalar_of (do {r \<leftarrow> compare_eq a b; make_not r}))]"

definition parse_eq :: "expr_value parse \<Rightarrow> expr_value parse" where
  "parse_eq primary = left_assoc eq_ops (parse_rel primary)"

definition logical_op :: "expr_kind \<Rightarrow> binary_op" where
  "logical_op k a b = scalar_of (do {x \<leftarrow> to_bool_root a; y \<leftarrow> to_bool_root b; add_node (binary_node k x y)})"

definition land_ops :: "(string \<times> binary_op) list" where
  "land_ops = [(''&&'', logical_op binary_and)]"

definition parse_land :: "expr_value parse \<Rightarrow> expr_value parse" where
  "parse_land primary = left_assoc land_ops (parse_eq primary)"

definition lor_ops :: "(string \<times> binary_op) list" where
  "lor_ops = [(''||'', logical_op binary_or)]"

definition parse_lor :: "expr_value parse \<Rightarrow> expr_value parse" where
  "parse_lor primary = left_assoc lor_ops (parse_land primary)"

fun cond_loop :: "nat \<Rightarrow> expr_value parse \<Rightarrow> expr_value parse" where
  "cond_loop 0 primary = stuck unset_value"
| "cond_loop (Suc n) primary =
     do {cond \<leftarrow> parse_lor primary;
         q \<leftarrow> symbol ''?'';
         if \<not> q then State_Monad.return cond
         else do {t \<leftarrow> cond_loop n primary;
                  _ \<leftarrow> expect_sym '':'' (''expected '' @ quoted '':'' @ '' in conditional operator'');
                  f \<leftarrow> cond_loop n primary;
                  build (make_conditional cond t f)}}"

definition parse_cond :: "expr_value parse \<Rightarrow> expr_value parse" where
  "parse_cond primary = do {n \<leftarrow> token_bound; cond_loop n primary}"

text \<open>The recursion of \<^verbatim>\<open>parse_expr\<close> through \<^verbatim>\<open>parse_primary\<close>; each level has consumed a token.\<close>

fun expr_rec :: "stmt_parser \<Rightarrow> nat \<Rightarrow> expr_env \<Rightarrow> expr_value parse" where
  "expr_rec proc_stmt 0 env = stuck unset_value"
| "expr_rec proc_stmt (Suc n) env = parse_cond (parse_primary proc_stmt (expr_rec proc_stmt n) env)"

definition parse_expr :: "stmt_parser \<Rightarrow> expr_env \<Rightarrow> expr_value parse" where
  "parse_expr proc_stmt env = do {n \<leftarrow> token_bound; expr_rec proc_stmt n env}"

end
