(* ===== verification/Symbol_Props.thy ===== *)
theory Symbol_Props
  imports Symbols
begin

text \<open>
  The cursor never leaves the tokens, leaving a scope restores all names, and the symbol table keeps names,
  signals and vector bits in step.
\<close>

subsection \<open>The cursor\<close>

definition cursor_ok :: "parser \<Rightarrow> bool" where
  "cursor_ok p \<longleftrightarrow> ps_pos p < length (ps_toks p) \<and> tk_kind (last (ps_toks p)) = tk_eof"

text \<open>What the parser may do with its cursor.\<close>

datatype cursor_op = op_consume | op_sym char | op_sym2 char char | op_sym3 char char char | op_kw string | op_ident string | op_skip

fun cursor_step :: "cursor_op \<Rightarrow> parser \<Rightarrow> parser option" where
  "cursor_step op_consume p = Some (snd (consume p))"
| "cursor_step (op_sym a) p = Some (snd (accept_sym a p))"
| "cursor_step (op_sym2 a b) p = Some (snd (accept_sym2 a b p))"
| "cursor_step (op_sym3 a b c) p = Some (snd (accept_sym3 a b c p))"
| "cursor_step (op_kw kw) p = Some (snd (accept_kw kw p))"
| "cursor_step (op_ident what) p = Some (snd (expect_ident what p))"
| "cursor_step op_skip p = skip_until_semicolon p"

fun cursor_run :: "cursor_op list \<Rightarrow> parser \<Rightarrow> parser option" where
  "cursor_run [] p = Some p"
| "cursor_run (x # xs) p = (case cursor_step x p of None \<Rightarrow> None | Some p' \<Rightarrow> cursor_run xs p')"

text \<open>\<open>follows p p'\<close>: the same tokens, a valid cursor that did not move back, and only more errors.\<close>

definition follows :: "parser \<Rightarrow> parser \<Rightarrow> bool" where
  "follows p p' \<longleftrightarrow> ps_toks p' = ps_toks p \<and> cursor_ok p' \<and> ps_pos p \<le> ps_pos p' \<and> (\<exists>es. ps_errors p' = ps_errors p @ es)"

lemma follows_refl: "cursor_ok p \<Longrightarrow> follows p p"
  by (simp add: follows_def)

lemma follows_trans: "follows p q \<Longrightarrow> follows q r \<Longrightarrow> follows p r"
  by (auto simp: follows_def)

lemma consume_follows: "cursor_ok p \<Longrightarrow> follows p (snd (consume p))"
proof -
  assume c: "cursor_ok p"
  have "ps_pos p + 1 < length (ps_toks p)" if "\<not> at_eof p"
  proof (rule ccontr)
    assume "\<not> ?thesis"
    then have e: "ps_pos p = length (ps_toks p) - 1" "ps_toks p \<noteq> []" using c by (auto simp: cursor_ok_def)
    then have "peek p = last (ps_toks p)" by (simp add: peek_def last_conv_nth)
    then show False using that c by (simp add: at_eof_def cursor_ok_def)
  qed
  then show ?thesis using c by (simp add: consume_def follows_def cursor_ok_def)
qed

lemma accept_token_follows: "cursor_ok p \<Longrightarrow> follows p (snd (accept_token k t p))"
  using consume_follows follows_refl by (simp add: accept_token_def)

lemma consume_moves: "\<not> at_eof p \<Longrightarrow> ps_pos (snd (consume p)) = Suc (ps_pos p)"
  by (simp add: consume_def)

lemma skip_loop_follows:
  "cursor_ok p \<Longrightarrow> length (ps_toks p) - ps_pos p < n \<Longrightarrow> \<exists>p'. skip_loop n p = Some p' \<and> follows p p'"
proof (induction n arbitrary: p)
  case (Suc n)
  show ?case
  proof (cases "at_eof p")
    case False
    obtain b q where a: "accept_sym CHR '';'' p = (b, q)" by fastforce
    have q: "follows p q" using accept_token_follows [OF Suc(2)] a by (metis accept_sym_def snd_conv)
    show ?thesis
    proof (cases b)
      case n: False
      then have pq: "q = p" using a by (auto simp: accept_sym_def accept_token_def split: if_splits)
      let ?r = "snd (consume p)"
      have r: "follows p ?r" using consume_follows [OF Suc(2)] .
      then have "cursor_ok ?r" "length (ps_toks ?r) - ps_pos ?r < n"
        using Suc(2,3) consume_moves [OF False] by (auto simp: follows_def cursor_ok_def)
      then show ?thesis using Suc(1) follows_trans [OF r] a n pq False by auto
    qed (use a q False in simp)
  qed (use Suc follows_refl in simp)
qed simp

lemma cursor_step_follows: "cursor_ok p \<Longrightarrow> \<exists>p'. cursor_step x p = Some p' \<and> follows p p'"
proof (cases x)
  case (op_ident what)
  assume c: "cursor_ok p"
  have "follows p (snd (expect_ident what p))"
    using consume_follows [OF c] c by (auto simp: expect_ident_def err_def follows_def cursor_ok_def)
  then show ?thesis using op_ident by simp
next
  case op_skip
  assume c: "cursor_ok p"
  show ?thesis using skip_loop_follows [OF c, of "Suc (length (ps_toks p))"] op_skip by (simp add: skip_until_semicolon_def less_Suc_eq_le del: skip_loop.simps)
qed (use consume_follows accept_token_follows in \<open>simp_all add: accept_sym_def accept_sym2_def accept_sym3_def accept_kw_def\<close>)

lemma cursor_run_follows: "cursor_ok p \<Longrightarrow> \<exists>p'. cursor_run xs p = Some p' \<and> follows p p'"
proof (induction xs arbitrary: p)
  case (Cons x xs)
  obtain q where q: "cursor_step x p = Some q" "follows p q" using cursor_step_follows [OF Cons(2)] by blast
  then have "cursor_ok q" by (simp add: follows_def)
  then show ?case using Cons(1) [of q] q follows_trans by auto
qed (simp add: follows_refl)

lemma lex_cursor_ok: "cursor_ok \<lparr>ps_toks = lx_tokens (lex smap src), ps_pos = 0, ps_errors = es, ps_return_target = r\<rparr>"
  by (simp add: cursor_ok_def lex_pieces eof_at_def)

text \<open>
  Whatever sequence of the member functions of the cursor is called on the tokens of a lexed source, every
  one of them returns, the cursor stays inside the token vector, also after errors and at the end of the
  file, and no earlier error is lost. (The places where the parser assigns the cursor itself are no such
  calls; the one in the expression parser is part of \<open>Expr_Parse\<close>.)
\<close>

theorem parser_stays_in_tokens:
  "\<exists>p. cursor_run ops \<lparr>ps_toks = lx_tokens (lex smap src), ps_pos = 0, ps_errors = es, ps_return_target = r\<rparr> = Some p \<and>
     ps_toks p = lx_tokens (lex smap src) \<and> ps_pos p < length (ps_toks p) \<and> take (length es) (ps_errors p) = es"
  using cursor_run_follows [OF lex_cursor_ok [of smap src es r], of ops] by (auto simp: follows_def cursor_ok_def)

subsection \<open>Scopes\<close>

datatype scope_item = Bind string string expr_value | Block "scope_item list"

fun scope_run :: "scope_item \<Rightarrow> proc_scope \<Rightarrow> proc_scope" where
  "scope_run (Bind n i ev) sc = bind_name n i ev sc"
| "scope_run (Block items) sc = pop_frame (fold scope_run items (push_frame sc))"

text \<open>\<open>extends sc sc'\<close>: undoing down to the height of \<open>sc\<close> gives \<open>sc\<close> back.\<close>

definition extends :: "proc_scope \<Rightarrow> proc_scope \<Rightarrow> bool" where
  "extends sc sc' \<longleftrightarrow> sc_marks sc' = sc_marks sc \<and> (\<exists>us. sc_undo sc' = us @ sc_undo sc) \<and>
     undo_to (length (sc_undo sc)) (sc_undo sc') (sc_aliases sc') (sc_subst sc') = (sc_undo sc, sc_aliases sc, sc_subst sc)"

lemma undo_to_stop: "undo_to (length us) us al su = (us, al, su)"
  by (cases us) auto

lemma undo_to_twice:
  "m \<le> n \<Longrightarrow> undo_to n us al su = (vs, al', su') \<Longrightarrow> undo_to m us al su = undo_to m vs al' su'"
  by (induction us arbitrary: al su) (auto split: if_splits)

lemma extends_refl: "extends sc sc"
  by (simp add: extends_def undo_to_stop)

lemma extends_trans: "extends a b \<Longrightarrow> extends b c \<Longrightarrow> extends a c"
  using undo_to_twice [of "length (sc_undo a)" "length (sc_undo b)" "sc_undo c"] by (auto simp: extends_def)

lemma extends_bind: "extends sc (bind_name n i ev sc)"
proof -
  have "al(n := al n) = al" "su(n := su n) = su" for al :: "string \<rightharpoonup> string" and su :: "string \<rightharpoonup> expr_value" by auto
  then show ?thesis by (simp add: extends_def bind_name_def undo_to_stop)
qed

lemma pop_extends: "extends (push_frame sc) sc' \<Longrightarrow> pop_frame sc' = sc"
  by (simp add: extends_def push_frame_def pop_frame_def)

lemma fold_extends: "(\<And>x sc. x \<in> set items \<Longrightarrow> extends sc (f x sc)) \<Longrightarrow> extends sc (fold f items sc)"
proof (induction items arbitrary: sc)
  case (Cons x xs)
  then have "extends sc (f x sc)" "extends (f x sc) (fold f xs (f x sc))" by simp_all
  then show ?case using extends_trans by simp
qed (simp add: extends_refl)

lemma scope_run_extends: "extends sc (scope_run it sc)"
proof (induction it arbitrary: sc)
  case (Block items)
  have "pop_frame (fold scope_run items (push_frame sc)) = sc" by (rule pop_extends) (rule fold_extends [OF Block])
  then show ?case by (simp add: extends_refl)
qed (simp add: extends_bind)

text \<open>
  C39: Entering a block, binding any names in it, hidden outer names and repeated bindings
  included, with any nested blocks, and leaving it again gives back exactly the scope from before:
  all aliases, all substitutions and both stacks.
\<close>

theorem leaving_a_block_restores_names: "scope_run (Block items) sc = sc"
  by (simp add: pop_extends [OF fold_extends [OF scope_run_extends]])

subsection \<open>Signals and vectors\<close>

definition index_ok :: "string list \<Rightarrow> (string \<rightharpoonup> nat) \<Rightarrow> bool" where
  "index_ok names idx \<longleftrightarrow> (\<forall>s i. idx s = Some i \<longleftrightarrow> i < length names \<and> names ! i = s)"

lemma index_ok_snoc:
  assumes "index_ok names idx" "idx name = None"
  shows "index_ok (names @ [name]) (idx(name \<mapsto> length names))"
  unfolding index_ok_def
proof (intro allI)
  fix s i
  have i: "idx s = Some j \<longleftrightarrow> j < length names \<and> names ! j = s" for s j using assms(1) by (simp add: index_ok_def)
  show "(idx(name \<mapsto> length names)) s = Some i \<longleftrightarrow> i < length (names @ [name]) \<and> (names @ [name]) ! i = s"
  proof (cases "s = name")
    case True
    have "\<not> (i < length names \<and> names ! i = name)" using i [of name i] assms(2) by simp
    then show ?thesis using True by (auto simp: nth_append less_Suc_eq)
  next
    case False
    then show ?thesis using i [of s i] by (auto simp: nth_append less_Suc_eq)
  qed
qed

definition tab_ok :: "compiled_module \<Rightarrow> bool" where
  "tab_ok m \<longleftrightarrow>
     length (m_signal_is_reg m) = length (m_signal_names m) \<and> length (m_signal_is_signed m) = length (m_signal_names m) \<and>
     length (m_signal_is_const m) = length (m_signal_names m) \<and> length (m_signal_is_const_foldable m) = length (m_signal_names m) \<and>
     length (m_signal_const_value m) = length (m_signal_names m) \<and>
     index_ok (m_signal_names m) (m_signal_index m)"

definition vec_ok :: "compiled_module \<Rightarrow> string \<Rightarrow> vector_desc \<Rightarrow> bool" where
  "vec_ok m base vd \<longleftrightarrow> length (vd_bits vd) = vector_width (vd_msb vd) (vd_lsb vd) \<and>
     (\<forall>pos < length (vd_bits vd). m_signal_index m (make_bit_name base (vector_index_at (vd_msb vd) (vd_lsb vd) pos)) = Some (vd_bits vd ! pos))"

definition table_ok :: "compiled_module \<Rightarrow> bool" where
  "table_ok m \<longleftrightarrow> tab_ok m \<and> (\<forall>base vd. m_vectors m base = Some vd \<longrightarrow> vec_ok m base vd)"

text \<open>\<open>grows m m'\<close>: signals keep their names and numbers.\<close>

definition grows :: "compiled_module \<Rightarrow> compiled_module \<Rightarrow> bool" where
  "grows m m' \<longleftrightarrow> tab_ok m' \<and> m_signal_index m \<subseteq>\<^sub>m m_signal_index m'"

lemma grows_refl: "tab_ok m \<Longrightarrow> grows m m"
  by (simp add: grows_def)

lemma grows_trans: "grows a b \<Longrightarrow> grows b c \<Longrightarrow> grows a c"
  by (auto simp: grows_def intro: map_le_trans)

lemma vec_ok_grows: "vec_ok m base vd \<Longrightarrow> grows m m' \<Longrightarrow> vec_ok m' base vd"
  by (auto simp: vec_ok_def grows_def map_le_def dom_def)

lemma get_or_create_signal_ok:
  assumes "tab_ok m" "get_or_create_signal name m = (sig, m')"
  shows "grows m m'" "m_signal_index m' name = Some sig" "m_vectors m' = m_vectors m"
  using assms index_ok_snoc [of "m_signal_names m" "m_signal_index m" name]
  by (auto simp: get_or_create_signal_def tab_ok_def grows_def Let_def map_le_def split: option.splits)

lemma mark_regs_length: "length (mark_regs sigs regs) = length regs"
  unfolding mark_regs_def by (induction sigs arbitrary: regs) auto

lemma tab_ok_updates [simp]:
  "length rs = length (m_signal_is_reg m) \<Longrightarrow> tab_ok (m\<lparr>m_signal_is_reg := rs\<rparr>) = tab_ok m"
  "length rs = length (m_signal_is_signed m) \<Longrightarrow> tab_ok (m\<lparr>m_signal_is_signed := rs\<rparr>) = tab_ok m"
  "tab_ok (m\<lparr>m_vectors := vs\<rparr>) = tab_ok m"
  by (simp_all add: tab_ok_def)

lemma vector_signals_ok:
  assumes "tab_ok m" "vector_signals base is_reg is_signed idxs m = (sigs, m')"
  shows "grows m m' \<and> length sigs = length idxs \<and> m_vectors m' = m_vectors m \<and>
    (\<forall>pos < length idxs. m_signal_index m' (make_bit_name base (idxs ! pos)) = Some (sigs ! pos))"
  using assms
proof (induction idxs arbitrary: m sigs m')
  case (Cons idx idxs)
  obtain sig m1 where g: "get_or_create_signal (make_bit_name base idx) m = (sig, m1)" by fastforce
  define m2 where "m2 = (if is_reg then m1\<lparr>m_signal_is_reg := (m_signal_is_reg m1)[sig := True]\<rparr> else m1)"
  define m3 where "m3 = (if is_signed then m2\<lparr>m_signal_is_signed := (m_signal_is_signed m2)[sig := True]\<rparr> else m2)"
  obtain sigs' where v: "vector_signals base is_reg is_signed idxs m3 = (sigs', m')" "sigs = sig # sigs'"
    using Cons(3) g unfolding m3_def m2_def by (auto simp: Let_def split: prod.splits)
  note k = get_or_create_signal_ok [OF Cons(2) g]
  have "grows m m3" "tab_ok m3" "m_vectors m3 = m_vectors m" "m_signal_index m3 (make_bit_name base idx) = Some sig"
    using k by (auto simp: m2_def m3_def grows_def)
  moreover note Cons(1) [OF this(2) v(1)]
  ultimately show ?case
    using v(2) grows_trans [of m m3 m'] by (auto simp: nth_Cons grows_def map_le_def dom_def split: nat.split)
qed (simp add: grows_refl)

lemma vec_ok_same: "vec_ok (m\<lparr>m_vectors := vs\<rparr>) base vd = vec_ok m base vd"
  by (simp add: vec_ok_def)

lemma declare_vector_range_ok:
  assumes "table_ok m" "declare_vector_range p base msb lsb is_reg is_signed m = (vd, p', m')"
  shows "table_ok m' \<and> grows m m' \<and> m_vectors m' base = Some vd"
proof (cases "m_vectors m base")
  case None
  let ?idxs = "map (vector_index_at msb lsb) [0..<vector_width msb lsb]"
  obtain sigs m1 where v: "vector_signals base is_reg is_signed ?idxs m = (sigs, m1)" by fastforce
  have t: "tab_ok m" using assms(1) by (simp add: table_ok_def)
  note k = vector_signals_ok [OF t v]
  have m': "m' = m1\<lparr>m_vectors := (m_vectors m1)(base \<mapsto> vd)\<rparr>" "vd = \<lparr>vd_msb = msb, vd_lsb = lsb, vd_is_reg = is_reg, vd_is_signed = is_signed, vd_bits = sigs\<rparr>"
    using assms(2) None v by (auto simp: declare_vector_range_def Let_def)
  have "vec_ok m1 base vd" using k m'(2) by (simp add: vec_ok_def)
  moreover have "vec_ok m1 b d" if "m_vectors m1 b = Some d" for b d
    using that k assms(1) vec_ok_grows unfolding table_ok_def by metis
  ultimately have "table_ok m'" using k m'(1) by (simp add: table_ok_def vec_ok_same grows_def)
  then show ?thesis using k m'(1) by (simp add: grows_def)
next
  case (Some vd0)
  then have i: "m_signal_index m' = m_signal_index m" "tab_ok m' = tab_ok m" "vd_bits vd = vd_bits vd0" "vd_msb vd = vd_msb vd0" "vd_lsb vd = vd_lsb vd0"
    "m_vectors m' = (m_vectors m)(base \<mapsto> vd)"
    using assms(2) by (auto simp: declare_vector_range_def Let_def mark_regs_length split: if_splits)
  then have "vec_ok m' b d \<longleftrightarrow> vec_ok m b d" "vec_ok m base vd = vec_ok m base vd0" for b d by (simp_all add: vec_ok_def)
  then show ?thesis using assms(1) i Some by (auto simp: table_ok_def grows_def)
qed

lemma vector_pos_index:
  "vector_pos msb lsb idx = Some pos \<Longrightarrow> pos < vector_width msb lsb \<and> vector_index_at msb lsb pos = idx"
  by (auto simp: vector_pos_def vector_contains_def vector_width_def vector_index_at_def split: if_splits)

lemma table_ok_grows:
  assumes "table_ok m" "grows m m'" "m_vectors m' = m_vectors m"
  shows "table_ok m'"
proof -
  have "vec_ok m' b d" if "m_vectors m' b = Some d" for b d
    using that assms vec_ok_grows unfolding table_ok_def by metis
  then show ?thesis using assms(2) by (simp add: table_ok_def grows_def)
qed

lemma get_or_create_vector_bit_ok:
  assumes "table_ok m" "get_or_create_vector_bit base idx is_reg m = (sig, m')"
  shows "table_ok m' \<and> grows m m' \<and> m_signal_index m' (make_bit_name base idx) = Some sig"
proof (cases "\<exists>vd pos. m_vectors m base = Some vd \<and> vector_pos (vd_msb vd) (vd_lsb vd) idx = Some pos")
  case True
  then obtain vd pos where v: "m_vectors m base = Some vd" "vector_pos (vd_msb vd) (vd_lsb vd) idx = Some pos" by blast
  then have "vec_ok m base vd" using assms(1) by (simp add: table_ok_def)
  then have "m_signal_index m (make_bit_name base idx) = Some (vd_bits vd ! pos)" using vector_pos_index [OF v(2)] by (auto simp: vec_ok_def)
  moreover have "sig = vd_bits vd ! pos" "m' = m" using assms(2) v by (auto simp: get_or_create_vector_bit_def)
  ultimately show ?thesis using assms(1) by (simp add: grows_refl table_ok_def)
next
  case False
  then have n: "(case m_vectors m base of None \<Rightarrow> None | Some vd \<Rightarrow> map_option (\<lambda>pos. vd_bits vd ! pos) (vector_pos (vd_msb vd) (vd_lsb vd) idx)) = None"
    by (auto split: option.split)
  obtain m1 where g: "get_or_create_signal (make_bit_name base idx) m = (sig, m1)"
    and m': "m' = (if is_reg then m1\<lparr>m_signal_is_reg := (m_signal_is_reg m1)[sig := True]\<rparr> else m1)"
    using assms(2) unfolding get_or_create_vector_bit_def n by (auto split: prod.splits)
  have "tab_ok m" using assms(1) by (simp add: table_ok_def)
  note k = get_or_create_signal_ok [OF this g]
  have "grows m m'" "m_vectors m' = m_vectors m" "m_signal_index m' (make_bit_name base idx) = Some sig" using k m' by (auto simp: grows_def)
  then show ?thesis using table_ok_grows [OF assms(1)] by blast
qed

lemma set_const_grows: "tab_ok m \<Longrightarrow> grows m (set_foldable sig l (set_const_signal sig' v m)) \<and> m_vectors (set_foldable sig l (set_const_signal sig' v m)) = m_vectors m"
  by (auto simp: set_foldable_def set_const_signal_def Let_def tab_ok_def grows_def)

lemma fold_grows:
  "(\<And>x m. tab_ok m \<Longrightarrow> grows m (f x m) \<and> m_vectors (f x m) = m_vectors m) \<Longrightarrow> tab_ok m \<Longrightarrow> grows m (fold f xs m) \<and> m_vectors (fold f xs m) = m_vectors m"
proof (induction xs arbitrary: m)
  case (Cons x xs)
  then have "grows m (f x m)" "m_vectors (f x m) = m_vectors m" "tab_ok (f x m)" by (auto simp: grows_def)
  then show ?case using Cons(1) [OF Cons(2), of "f x m"] grows_trans by auto
qed (simp add: grows_refl)

lemma define_param_ok:
  assumes "table_ok m"
  shows "table_ok (snd (define_param p name val is_local m)) \<and> grows m (snd (define_param p name val is_local m))"
proof (cases "name = [] \<or> m_param_default_values m name \<noteq> None")
  case True
  then show ?thesis using assms by (auto simp: define_param_def table_ok_def grows_refl)
next
  case False
  obtain vd p1 m1 where d: "declare_vector_range p name 31 0 False False m = (vd, p1, m1)" by (metis prod_cases3)
  have k: "table_ok m1" "grows m m1" using declare_vector_range_ok [OF assms d] by auto
  then have t: "tab_ok m1" by (simp add: table_ok_def)
  define m2 where "m2 = (if length (vd_bits vd) = 32
      then fold (\<lambda>k m. let sig = vd_bits vd ! (31 - k) in set_foldable sig is_local (set_const_signal sig (of_bool_state (bit val k)) m)) [0..<32] m1
      else fold (\<lambda>sig m. set_foldable sig is_local (set_const_signal sig indeterminate_state m)) (vd_bits vd) m1)"
  have g: "grows m1 m2 \<and> m_vectors m2 = m_vectors m1"
  proof (cases "length (vd_bits vd) = 32")
    case True
    show ?thesis unfolding m2_def Let_def if_P [OF True] by (rule fold_grows [OF set_const_grows t])
  next
    case False
    show ?thesis unfolding m2_def if_not_P [OF False] by (rule fold_grows [OF set_const_grows t])
  qed
  have e: "\<exists>po dv il. snd (define_param p name val is_local m) = m2\<lparr>m_param_order := po, m_param_default_values := dv, m_param_is_local := il\<rparr>"
  proof -
    have n: "\<not> name = []" "\<not> m_param_default_values m name \<noteq> None" using False by auto
    have o: "\<exists>po dv il. (if c then m2\<lparr>m_param_order := x\<rparr> else m2)\<lparr>m_param_default_values := a, m_param_is_local := b\<rparr>
        = m2\<lparr>m_param_order := po, m_param_default_values := dv, m_param_is_local := il\<rparr>" for a b c x
      by (rule exI [of _ "if c then x else m_param_order m2"], rule exI [of _ a], rule exI [of _ b]) simp
    show ?thesis unfolding define_param_def if_not_P [OF n(1)] if_not_P [OF n(2)] d prod.case m2_def [symmetric]
      unfolding Let_def snd_conv by (rule o)
  qed
  have i: "tab_ok (m2\<lparr>m_param_order := po, m_param_default_values := dv, m_param_is_local := il\<rparr>) = tab_ok m2" for po dv il by (simp add: tab_ok_def)
  have "table_ok m2" "grows m m2" using table_ok_grows [OF k(1)] g grows_trans [OF k(2)] by auto
  then show ?thesis using e i by (auto simp: table_ok_def grows_def vec_ok_def)
qed

subsection \<open>Names of bits\<close>

lemma dec_string_inj: "dec_string a = dec_string b \<Longrightarrow> a = b"
  by (metis dec_string_digits)

lemma dec_int_string_inj: "dec_int_string a = dec_int_string b \<Longrightarrow> a = b"
proof -
  assume e: "dec_int_string a = dec_int_string b"
  have h: "hd (dec_string n) \<noteq> CHR ''-''" for n using dec_string_digits [of n] by (cases "dec_string n") (auto simp: is_digit_def)
  then have "dec_string n \<noteq> CHR ''-'' # s" for n s by (metis list.sel(1))
  then show ?thesis using e dec_string_inj by (auto simp: dec_int_string_def split: if_splits) (metis dec_string_inj nat_eq_iff2 eq_nat_nat_iff linorder_not_less neg_le_0_iff_le less_imp_le neg_0_le_iff_le equation_minus_iff)+
qed

lemma make_bit_name_inj:
  assumes "CHR ''['' \<notin> set a" "CHR ''['' \<notin> set b" "make_bit_name a i = make_bit_name b j"
  shows "a = b \<and> i = j"
proof -
  have t: "takeWhile (\<lambda>c. c \<noteq> CHR ''['') (make_bit_name x k) = x" if "CHR ''['' \<notin> set x" for x k
    using that unfolding make_bit_name_def by (induction x) auto
  then have "a = b" using assms by metis
  then show ?thesis using assms(3) dec_int_string_inj by (simp add: make_bit_name_def)
qed

text \<open>What the parser may do with the tables.\<close>

datatype table_op = T_signal string | T_vector string int int bool bool | T_bit string int bool | T_port string | T_param string u64 bool

fun table_step :: "table_op \<Rightarrow> compiled_module \<Rightarrow> compiled_module" where
  "table_step (T_signal n) m = snd (get_or_create_signal n m)"
| "table_step (T_vector b msb lsb r s) m = snd (snd (declare_vector_range None b msb lsb r s m))"
| "table_step (T_bit b i r) m = snd (get_or_create_vector_bit b i r m)"
| "table_step (T_port b) m = snd (ensure_port_decl b m)"
| "table_step (T_param n v l) m = snd (define_param None n v l m)"

lemma table_step_ok: "table_ok m \<Longrightarrow> table_ok (table_step x m) \<and> grows m (table_step x m)"
proof (cases x)
  case (T_signal n)
  assume t: "table_ok m"
  then have "tab_ok m" by (simp add: table_ok_def)
  then show ?thesis using get_or_create_signal_ok [of m n] table_ok_grows [OF t] T_signal by (cases "get_or_create_signal n m") auto
next
  case (T_vector b msb lsb r s)
  assume "table_ok m"
  then show ?thesis using declare_vector_range_ok T_vector by (cases "declare_vector_range None b msb lsb r s m") auto
next
  case (T_bit b i r)
  assume "table_ok m"
  then show ?thesis using get_or_create_vector_bit_ok T_bit by (cases "get_or_create_vector_bit b i r m") auto
next
  case (T_port b)
  assume "table_ok m"
  then show ?thesis using T_port by (auto simp: ensure_port_decl_def table_ok_def tab_ok_def vec_ok_def grows_def split: option.splits)
qed (use define_param_ok in auto)

lemma table_run_ok: "table_ok m \<Longrightarrow> table_ok (fold table_step ops m) \<and> grows m (fold table_step ops m)"
proof (induction ops arbitrary: m)
  case (Cons x xs)
  then show ?case using table_step_ok [of m x] grows_trans by auto
qed (simp add: table_ok_def grows_refl)

lemma empty_table_ok: "table_ok empty_module"
  by (simp add: table_ok_def tab_ok_def index_ok_def empty_module_def)

text \<open>
  C40: Starting from an empty module, whatever signals, vectors, bits, ports and parameters are
  declared before and in between, two bits of vectors with plain names are the same signal exactly
  when vector and index are the same, and the signal carries the name of its bit.
\<close>

theorem vector_bits_are_distinct_signals:
  assumes "CHR ''['' \<notin> set base" "CHR ''['' \<notin> set base'"
    and "get_or_create_vector_bit base idx r (fold table_step ops empty_module) = (sig, m1)"
    and "get_or_create_vector_bit base' idx' r' (fold table_step ops' m1) = (sig', m2)"
  shows "sig < length (m_signal_names m2) \<and> m_signal_names m2 ! sig = make_bit_name base idx \<and>
    (sig' = sig) = (base' = base \<and> idx' = idx)"
proof -
  have 1: "table_ok m1" "m_signal_index m1 (make_bit_name base idx) = Some sig"
    using get_or_create_vector_bit_ok [OF conjunct1 [OF table_run_ok [OF empty_table_ok]] assms(3)] by auto
  have 2: "table_ok m2" "grows m1 m2" "m_signal_index m2 (make_bit_name base' idx') = Some sig'"
    using table_run_ok [OF 1(1), of ops'] get_or_create_vector_bit_ok [OF _ assms(4)] grows_trans by blast+
  then have 3: "m_signal_index m2 (make_bit_name base idx) = Some sig" using 1(2) by (auto simp: grows_def map_le_def dom_def)
  have i: "m_signal_index m2 s = Some k \<longleftrightarrow> k < length (m_signal_names m2) \<and> m_signal_names m2 ! k = s" for s k
    using 2(1) by (simp add: table_ok_def tab_ok_def index_ok_def)
  have "sig' = sig \<longleftrightarrow> make_bit_name base' idx' = make_bit_name base idx" using i 2(3) 3 by (metis option.inject)
  also have "\<dots> \<longleftrightarrow> base' = base \<and> idx' = idx" using make_bit_name_inj [OF assms(2,1)] by blast
  finally show ?thesis using i 3 by blast
qed

theorem vector_bits_are_distinct_signals_witness:
  "fst (get_or_create_vector_bit ''b'' 1 False (fold table_step [T_vector ''b'' 0 1 True False]
     (snd (get_or_create_vector_bit ''a'' 1 False (fold table_step [T_vector ''a'' 3 0 False False] empty_module))))) \<noteq>
   fst (get_or_create_vector_bit ''a'' 1 False (fold table_step [T_vector ''a'' 3 0 False False] empty_module))"
proof -
  let ?x = "get_or_create_vector_bit ''a'' 1 False (fold table_step [T_vector ''a'' 3 0 False False] empty_module)"
  let ?y = "get_or_create_vector_bit ''b'' 1 False (fold table_step [T_vector ''b'' 0 1 True False] (snd ?x))"
  have b: "CHR ''['' \<notin> set ''a''" "CHR ''['' \<notin> set ''b''" by simp_all
  have "?x = (fst ?x, snd ?x)" "?y = (fst ?y, snd ?y)" by simp_all
  from vector_bits_are_distinct_signals [OF b this] show ?thesis by simp
qed

end
