(* ===== verification/Expr_Parse_Safe.thy ===== *)
theory Expr_Parse_Safe
  imports Expr_Parse Symbol_Props
begin

text \<open>
  The expression parser always returns: every recursive call and every iteration of a loop has consumed a
  token, so the bounds of the model are never used up, and the cursor stays inside the tokens. The judgement
  \<open>safe n c\<close> says so for a computation on states with fewer than \<open>n\<close> tokens left; its rules follow the
  structure of the code.
\<close>

definition state_ok :: "pstate \<Rightarrow> bool" where
  "state_ok s \<longleftrightarrow> cursor_ok (pt_parser s) \<and> \<not> pt_stuck s"

definition room :: "pstate \<Rightarrow> nat" where
  "room s = length (ps_toks (pt_parser s)) - ps_pos (pt_parser s)"

definition moves :: "pstate \<Rightarrow> pstate \<Rightarrow> bool" where
  "moves s s' \<longleftrightarrow> follows (pt_parser s) (pt_parser s') \<and> \<not> pt_stuck s'"

definition safe :: "nat \<Rightarrow> 'a parse \<Rightarrow> bool" where
  "safe n c \<longleftrightarrow> (\<forall>s. state_ok s \<longrightarrow> room s < n \<longrightarrow> moves s (snd (run_state c s)))"

lemma safeD: "safe n c \<Longrightarrow> state_ok s \<Longrightarrow> room s < n \<Longrightarrow> moves s (snd (run_state c s))"
  by (simp add: safe_def)

lemma safeI: "(\<And>s. state_ok s \<Longrightarrow> room s < n \<Longrightarrow> moves s (snd (run_state c s))) \<Longrightarrow> safe n c"
  by (simp add: safe_def)

lemma safe_mono: "safe n c \<Longrightarrow> m \<le> n \<Longrightarrow> safe m c"
  by (simp add: safe_def)

lemma moves_ok: "moves s s' \<Longrightarrow> state_ok s'"
  by (simp add: moves_def state_ok_def follows_def)

lemma moves_room: "moves s s' \<Longrightarrow> room s' \<le> room s"
  by (auto simp: moves_def follows_def room_def)

lemma moves_refl: "state_ok s \<Longrightarrow> moves s s"
  by (simp add: state_ok_def moves_def follows_refl)

lemma moves_trans: "moves s t \<Longrightarrow> moves t u \<Longrightarrow> moves s u"
  using follows_trans by (auto simp: moves_def)

text \<open>A computation that does not touch the cursor and only adds errors.\<close>

definition same_cursor :: "pstate \<Rightarrow> pstate \<Rightarrow> bool" where
  "same_cursor s t \<longleftrightarrow> ps_toks (pt_parser t) = ps_toks (pt_parser s) \<and> ps_pos (pt_parser t) = ps_pos (pt_parser s) \<and>
     (\<exists>es. ps_errors (pt_parser t) = ps_errors (pt_parser s) @ es) \<and> pt_stuck t = pt_stuck s"

definition keeps :: "'a parse \<Rightarrow> bool" where
  "keeps c \<longleftrightarrow> (\<forall>s. same_cursor s (snd (run_state c s)))"

lemma same_cursor_refl: "same_cursor s s"
  by (simp add: same_cursor_def)

lemma same_cursor_trans: "same_cursor s t \<Longrightarrow> same_cursor t u \<Longrightarrow> same_cursor s u"
  by (auto simp: same_cursor_def)

lemma same_cursor_moves: "same_cursor s t \<Longrightarrow> state_ok s \<Longrightarrow> moves s t"
  by (auto simp: same_cursor_def state_ok_def moves_def follows_def cursor_ok_def)

lemma keeps_safe: "keeps c \<Longrightarrow> safe n c"
  by (simp add: keeps_def safe_def same_cursor_moves)

lemma err_fields [simp]:
  "ps_toks (err t msg p) = ps_toks p" "ps_pos (err t msg p) = ps_pos p"
  by (simp_all add: err_def)

lemma errs_fields:
  "ps_toks (fold (\<lambda>msg p. err (peek p) msg p) msgs p) = ps_toks p \<and> ps_pos (fold (\<lambda>msg p. err (peek p) msg p) msgs p) = ps_pos p
   \<and> (\<exists>es. ps_errors (fold (\<lambda>msg p. err (peek p) msg p) msgs p) = ps_errors p @ es)"
proof (induction msgs arbitrary: p)
  case (Cons msg msgs)
  show ?case using Cons [of "err (peek p) msg p"] by (auto simp: err_def)
qed simp

lemma keeps_build: "keeps (build b)"
  using errs_fields by (auto simp: keeps_def same_cursor_def build_def split: prod.splits)

lemma keeps_module: "keeps (on_module f)"
  by (auto simp: keeps_def same_cursor_def on_module_def split: prod.splits)

lemma keeps_the_module: "keeps the_module"
  by (simp add: the_module_def keeps_module)

lemma keeps_return: "keeps (State_Monad.return a)"
  by (simp add: keeps_def same_cursor_refl)

lemma keeps_error: "keeps (error_tok t msg)" "keeps (error_here msg)"
  by (simp_all add: keeps_def same_cursor_def error_tok_def error_here_def on_parser_def err_def)

lemma keeps_look: "keeps peek_tok" "keeps eof_here" "keeps get_pos" "keeps token_bound"
  by (simp_all add: keeps_def same_cursor_def peek_tok_def eof_here_def get_pos_def token_bound_def on_parser_def)

lemma keeps_declare: "keeps (declare_vector b msb lsb r sg)"
  by (auto simp: keeps_def same_cursor_def declare_vector_def declare_vector_range_def Let_def err_def split: option.splits prod.splits)

lemma keeps_bind:
  assumes "keeps c" "\<And>a. keeps (f a)"
  shows "keeps (State_Monad.bind c f)"
  unfolding keeps_def
proof
  fix s
  obtain a t where r: "run_state c s = (a, t)" by fastforce
  then have "same_cursor s t" using assms(1) by (metis keeps_def snd_conv)
  moreover have "same_cursor t (snd (run_state (f a) t))" using assms(2) by (simp add: keeps_def)
  ultimately show "same_cursor s (snd (run_state (State_Monad.bind c f) s))" using r same_cursor_trans by simp
qed

subsection \<open>Rules\<close>

lemma safe_bind:
  assumes "safe n c" "\<And>a. safe n (f a)"
  shows "safe n (State_Monad.bind c f)"
proof (rule safeI)
  fix s
  assume s: "state_ok s" "room s < n"
  obtain a t where r: "run_state c s = (a, t)" by fastforce
  then have t: "moves s t" using safeD [OF assms(1) s] by simp
  have "moves t (snd (run_state (f a) t))" using safeD [OF assms(2)] moves_ok [OF t] moves_room [OF t] s(2) by simp
  then show "moves s (snd (run_state (State_Monad.bind c f) s))" using r moves_trans [OF t] by simp
qed

text \<open>A computation that consumes a token when it succeeds.\<close>

definition eats :: "('a \<Rightarrow> bool) \<Rightarrow> 'a parse \<Rightarrow> bool" where
  "eats P c \<longleftrightarrow> (\<forall>s. state_ok s \<longrightarrow> moves s (snd (run_state c s)) \<and> (P (fst (run_state c s)) \<longrightarrow> room (snd (run_state c s)) < room s))"

lemma eats_safe: "eats P c \<Longrightarrow> safe n c"
  by (simp add: eats_def safe_def)

lemma safe_eats:
  assumes "eats P c" "\<And>a. P a \<Longrightarrow> safe (n - 1) (f a)" "\<And>a. \<not> P a \<Longrightarrow> safe n (f a)"
  shows "safe n (State_Monad.bind c f)"
proof (rule safeI)
  fix s
  assume s: "state_ok s" "room s < n"
  obtain a t where r: "run_state c s = (a, t)" by fastforce
  then have t: "moves s t" "P a \<Longrightarrow> room t < room s" using assms(1) s(1) by (auto simp: eats_def)
  have "moves t (snd (run_state (f a) t))"
  proof (cases "P a")
    case True
    then have "room t < n - 1" using t(2) s(2) by simp
    then show ?thesis using safeD [OF assms(2) [OF True]] moves_ok [OF t(1)] by simp
  next
    case False
    then show ?thesis using safeD [OF assms(3) [OF False]] moves_ok [OF t(1)] moves_room [OF t(1)] s(2) by simp
  qed
  then show "moves s (snd (run_state (State_Monad.bind c f) s))" using r moves_trans [OF t(1)] by simp
qed

lemma accept_token_eats: "k \<noteq> tk_eof \<Longrightarrow> eats (\<lambda>b. b) (on_parser (accept_token k tx))"
  unfolding eats_def
proof (intro allI impI)
  fix s
  assume k: "k \<noteq> tk_eof" and s: "state_ok s"
  let ?p = "pt_parser s"
  have c: "cursor_ok ?p" using s by (simp add: state_ok_def)
  show "moves s (snd (run_state (on_parser (accept_token k tx)) s)) \<and>
      (fst (run_state (on_parser (accept_token k tx)) s) \<longrightarrow> room (snd (run_state (on_parser (accept_token k tx)) s)) < room s)"
  proof (cases "tk_kind (peek ?p) = k \<and> tk_text (peek ?p) = tx")
    case True
    then have "\<not> at_eof ?p" using k by (simp add: at_eof_def)
    then have "ps_pos (snd (consume ?p)) = Suc (ps_pos ?p)" "ps_toks (snd (consume ?p)) = ps_toks ?p"
      by (simp_all add: consume_def)
    then show ?thesis using True consume_follows [OF c] s c
      by (auto simp: on_parser_def accept_token_def moves_def room_def state_ok_def cursor_ok_def)
  qed (use s moves_refl in \<open>auto simp: on_parser_def accept_token_def\<close>)
qed

lemma symbol_eats: "eats (\<lambda>b. b) (symbol tx)"
  unfolding symbol_def by (rule accept_token_eats) simp

lemma kw_eats: "eats (\<lambda>b. b) (kw tx)"
  unfolding kw_def accept_kw_def by (rule accept_token_eats) simp

lemma safe_symbol: "safe (n - 1) (f True) \<Longrightarrow> safe n (f False) \<Longrightarrow> safe n (State_Monad.bind (symbol tx) f)"
  by (rule safe_eats [OF symbol_eats]) auto

lemma safe_kw: "safe (n - 1) (f True) \<Longrightarrow> safe n (f False) \<Longrightarrow> safe n (State_Monad.bind (kw tx) f)"
  by (rule safe_eats [OF kw_eats]) auto

lemma accept_op_eats: "eats (\<lambda>u. u \<noteq> None) (accept_op ops)"
proof (induction ops)
  case (Cons x ops)
  obtain tx f where x: "x = (tx, f)" by fastforce
  have s: "state_ok s \<Longrightarrow> moves s (snd (run_state (symbol tx) s)) \<and> (fst (run_state (symbol tx) s) \<longrightarrow> room (snd (run_state (symbol tx) s)) < room s)" for s
    using symbol_eats [of tx] unfolding eats_def by blast
  have os: "state_ok s \<Longrightarrow> moves s (snd (run_state (accept_op ops) s)) \<and>
      (fst (run_state (accept_op ops) s) \<noteq> None \<longrightarrow> room (snd (run_state (accept_op ops) s)) < room s)" for s
    using Cons unfolding eats_def by blast
  show ?case unfolding eats_def
  proof (intro allI impI)
    fix s
    assume k: "state_ok s"
    obtain b t where r: "run_state (symbol tx) s = (b, t)" by fastforce
    then have t: "moves s t" "b \<Longrightarrow> room t < room s" using s [OF k] by auto
    show "moves s (snd (run_state (accept_op (x # ops)) s)) \<and>
        (fst (run_state (accept_op (x # ops)) s) \<noteq> None \<longrightarrow> room (snd (run_state (accept_op (x # ops)) s)) < room s)"
    proof (cases b)
      case False
      then show ?thesis using r x os [OF moves_ok [OF t(1)]] moves_trans [OF t(1)] moves_room [OF t(1)] by auto
    qed (use r x t in simp)
  qed
qed (simp add: eats_def moves_refl)

lemma safe_op:
  assumes "\<And>f. safe (n - 1) (g (Some f))" "safe n (g None)"
  shows "safe n (State_Monad.bind (accept_op ops) g)"
proof (rule safe_eats [OF accept_op_eats])
  fix a :: "'a option"
  show "a \<noteq> None \<Longrightarrow> safe (n - 1) (g a)" using assms(1) by (cases a) auto
  show "\<not> a \<noteq> None \<Longrightarrow> safe n (g a)" using assms(2) by simp
qed

lemma safe_bound: "(\<And>k. safe (min n k) (f k)) \<Longrightarrow> safe n (State_Monad.bind token_bound f)"
proof (rule safeI)
  fix s
  assume f: "\<And>k. safe (min n k) (f k)" and s: "state_ok s" "room s < n"
  let ?k = "Suc (length (ps_toks (pt_parser s)))"
  have "room s < min n ?k" using s(2) by (simp add: room_def less_Suc_eq_le)
  then show "moves s (snd (run_state (State_Monad.bind token_bound f) s))"
    using safeD [OF f [of ?k] s(1)] by (simp add: token_bound_def on_parser_def)
qed

lemma safe_next: "safe n next_tok"
  by (rule safeI) (use consume_follows in \<open>auto simp: next_tok_def on_parser_def moves_def state_ok_def consume_def\<close>)

lemma safe_ifs: "safe n c \<Longrightarrow> safe n (if True then c else d)" "safe n d \<Longrightarrow> safe n (if False then c else d)"
  "safe n d \<Longrightarrow> safe n (if \<not> True then c else d)" "safe n c \<Longrightarrow> safe n (if \<not> False then c else d)"
  by simp_all

lemma safe_if: "(b \<Longrightarrow> safe n c) \<Longrightarrow> (\<not> b \<Longrightarrow> safe n d) \<Longrightarrow> safe n (if b then c else d)"
  by simp

lemma safe_cases: "safe n c \<Longrightarrow> safe n (case None of None \<Rightarrow> c | Some a \<Rightarrow> f a)" "safe n (f a) \<Longrightarrow> safe n (case Some a of None \<Rightarrow> c | Some a \<Rightarrow> f a)"
  by simp_all

lemma safe_case: "safe n c \<Longrightarrow> (\<And>a. safe n (f a)) \<Longrightarrow> safe n (case x of None \<Rightarrow> c | Some a \<Rightarrow> f a)"
  by (cases x) auto

lemma safe_pair: "(\<And>a b. safe n (f a b)) \<Longrightarrow> safe n (case x of (a, b) \<Rightarrow> f a b)"
  by (cases x) auto

lemma safe_0: "safe 0 c"
  by (simp add: safe_def)

lemmas safe_return = keeps_safe [OF keeps_return]

lemmas safe_basic = safe_return keeps_safe [OF keeps_build] keeps_safe [OF keeps_error(1)] keeps_safe [OF keeps_error(2)]
  keeps_safe [OF keeps_look(1)] keeps_safe [OF keeps_look(2)] keeps_safe [OF keeps_look(3)] keeps_safe [OF keeps_the_module]
  keeps_safe [OF keeps_module] keeps_safe [OF keeps_declare] safe_next eats_safe [OF symbol_eats]

lemmas safe_rules = safe_ifs safe_cases safe_symbol safe_kw safe_op safe_bound safe_basic safe_bind safe_if safe_case safe_pair

lemma safe_expect: "safe n (expect_sym tx msg)"
  unfolding expect_sym_def by (intro safe_rules)

lemma safe_skip: "safe n (skip_to tx)"
proof -
  have "safe k (skip_to_loop k tx)" for k
  proof (induction k)
    case (Suc k)
    show ?case
    proof (rule safeI)
      fix s
      assume s: "state_ok s" "room s < Suc k"
      show "moves s (snd (run_state (skip_to_loop (Suc k) tx) s))"
      proof (cases "at_eof (pt_parser s)")
        case False
        let ?p = "pt_parser s"
        obtain b t where r: "run_state (symbol tx) s = (b, t)" by fastforce
        then have t: "moves s t" using s symbol_eats [of tx] unfolding eats_def by (metis snd_conv)
        show ?thesis
        proof (cases b)
          case nb: False
          then have ts: "t = s" using r by (auto simp: symbol_def on_parser_def accept_token_def split: if_splits)
          let ?u = "snd (run_state next_tok s)"
          have u: "moves s ?u" using safeD [OF safe_next s] .
          have "room ?u < k" using s False
            by (auto simp: next_tok_def on_parser_def consume_def room_def state_ok_def cursor_ok_def)
          then have "moves ?u (snd (run_state (skip_to_loop k tx) ?u))" using safeD [OF Suc] moves_ok [OF u] by blast
          then have "moves s (snd (run_state (skip_to_loop k tx) ?u))" using moves_trans [OF u] by blast
          then show ?thesis using r nb ts False by (simp add: eof_here_def on_parser_def split_def)
        qed (use r t False in \<open>simp add: eof_here_def on_parser_def\<close>)
      qed (use s moves_refl in \<open>simp add: eof_here_def on_parser_def\<close>)
    qed
  qed (rule safe_0)
  then show ?thesis unfolding skip_to_def by (intro safe_rules; (rule safe_mono)?; simp)
qed

lemmas safe_rules2 = safe_ifs safe_cases safe_symbol safe_kw safe_op safe_bound safe_basic safe_expect safe_skip safe_bind safe_if safe_case safe_pair

subsection \<open>Arguments, ranges, casts, names\<close>

lemma safe_args: "safe n expr \<Longrightarrow> safe n (parse_args expr msg)"
proof -
  assume e: "safe n expr"
  have "safe (min n k) (args_loop k expr msg)" for k
  proof (induction k)
    case (Suc k)
    show ?case unfolding args_loop.simps by (intro safe_rules2; (rule safe_mono [OF Suc] safe_mono [OF e])?; auto simp: min_def)
  qed (simp add: safe_0)
  then show ?thesis unfolding parse_args_def by (intro safe_rules2; (erule safe_mono)?; simp)
qed

lemma safe_close: "safe n (close_call msg)"
  unfolding close_call_def by (intro safe_rules2)

lemma safe_range: "safe n expr \<Longrightarrow> safe (Suc n) (accept_range expr)"
  unfolding accept_range_def range_error_def by (intro safe_rules2; (erule safe_mono)?; simp)

lemma safe_signs: "safe n (parse_signs sg)"
proof -
  have "safe k (sign_loop k sg)" for k
  proof (induction k arbitrary: sg)
    case (Suc k)
    show ?case unfolding sign_loop.simps by (intro safe_rules2; (rule safe_mono [OF Suc])?; simp)
  qed (rule safe_0)
  then show ?thesis unfolding parse_signs_def by (intro safe_rules2; (rule safe_mono)?; simp)
qed

lemma safe_system: "safe n expr \<Longrightarrow> safe n (system_function expr t0)"
  unfolding system_function_def Let_def
  by (intro safe_rules2 safe_close safe_args; (erule safe_mono)?; simp)

text \<open>A cast that is none puts the cursor back; \<open>safe_from k\<close> allows this down to the position \<open>k\<close>.\<close>

definition safe_from :: "nat \<Rightarrow> nat \<Rightarrow> 'a parse \<Rightarrow> bool" where
  "safe_from k n c \<longleftrightarrow> (\<forall>s. state_ok s \<longrightarrow> room s < n \<longrightarrow> k \<le> ps_pos (pt_parser s) \<longrightarrow>
     moves (s\<lparr>pt_parser := (pt_parser s)\<lparr>ps_pos := k\<rparr>\<rparr>) (snd (run_state c s)))"

lemma safe_from_safe: "safe n c \<Longrightarrow> safe_from k n c"
  by (force simp: safe_from_def safe_def moves_def follows_def)

lemma safe_from_bind:
  assumes "safe n c" "\<And>a. safe_from k n (f a)"
  shows "safe_from k n (State_Monad.bind c f)"
  unfolding safe_from_def
proof (intro allI impI)
  fix s
  assume s: "state_ok s" "room s < n" "k \<le> ps_pos (pt_parser s)"
  obtain a t where r: "run_state c s = (a, t)" by fastforce
  then have t: "moves s t" using safeD [OF assms(1) s(1,2)] by simp
  then have k: "k \<le> ps_pos (pt_parser t)" "ps_toks (pt_parser t) = ps_toks (pt_parser s)" "\<exists>es. ps_errors (pt_parser t) = ps_errors (pt_parser s) @ es"
    using s(3) by (auto simp: moves_def follows_def)
  then have "moves (t\<lparr>pt_parser := (pt_parser t)\<lparr>ps_pos := k\<rparr>\<rparr>) (snd (run_state (f a) t))"
    using assms(2) moves_ok [OF t] moves_room [OF t] s(2) unfolding safe_from_def by (meson le_less_trans)
  then show "moves (s\<lparr>pt_parser := (pt_parser s)\<lparr>ps_pos := k\<rparr>\<rparr>) (snd (run_state (State_Monad.bind c f) s))"
    using r k(2,3) by (auto simp: moves_def follows_def)
qed

lemma safe_from_if: "(b \<Longrightarrow> safe_from k n c) \<Longrightarrow> (\<not> b \<Longrightarrow> safe_from k n d) \<Longrightarrow> safe_from k n (if b then c else d)"
  by simp

lemma safe_from_back: "safe_from k n (State_Monad.bind (set_pos k) (\<lambda>_. State_Monad.return x))"
  by (auto simp: safe_from_def set_pos_def on_parser_def state_ok_def moves_def follows_def cursor_ok_def)

lemma next_room:
  assumes "state_ok s" "\<not> at_eof (pt_parser s)"
  shows "moves s (snd (run_state next_tok s)) \<and> room (snd (run_state next_tok s)) < room s"
  using safeD [OF safe_next assms(1), of "Suc (room s)"] assms
  by (auto simp: next_tok_def on_parser_def consume_def room_def state_ok_def cursor_ok_def)

lemma cast_moves:
  assumes "state_ok s" "room s < Suc n" "\<not> at_eof (pt_parser s)" "\<And>env. safe n (expr env)"
  shows "moves s (snd (run_state (parse_cast expr env k) s))"
proof -
  let ?t = "snd (run_state next_tok s)"
  have t: "moves s ?t" "room ?t < n" using next_room [OF assms(1,3)] assms(2) by auto
  have r: "safe n (accept_range (expr no_env))" using safe_mono [OF safe_range [OF assms(4)]] by simp
  define c where "c saved = do {sg1 \<leftarrow> parse_signs (cast_default_signed k); tr \<leftarrow> accept_range (expr no_env); cast_signed \<leftarrow> parse_signs sg1;
      q \<leftarrow> symbol [CHR 0x27];
      if q
      then do {_ \<leftarrow> expect_sym ''('' (''expected '' @ quoted ''('' @ '' after cast'');
               v \<leftarrow> expr env;
               _ \<leftarrow> expect_sym '')'' (''expected '' @ quoted '')'' @ '' after cast'');
               r \<leftarrow> build (cast_value tr (case tr of Some (msb, lsb) \<Rightarrow> vector_width msb lsb | None \<Rightarrow> cast_default_width k) cast_signed v);
               State_Monad.return (Some r)}
      else do {_ \<leftarrow> set_pos saved; State_Monad.return None}}" for saved
  have c: "safe_from saved n (c saved)" for saved
    unfolding c_def by (intro safe_from_back safe_from_bind safe_from_if safe_from_safe [OF safe_return] safe_signs r safe_rules2 assms(4))
  have "run_state (parse_cast expr env k) s = run_state (c (ps_pos (pt_parser s))) ?t"
    unfolding parse_cast_def c_def Let_def by (simp add: get_pos_def next_tok_def on_parser_def split_def)
  moreover have "ps_pos (pt_parser s) \<le> ps_pos (pt_parser ?t)" using t(1) by (simp add: moves_def follows_def)
  ultimately have "moves (?t\<lparr>pt_parser := (pt_parser ?t)\<lparr>ps_pos := ps_pos (pt_parser s)\<rparr>\<rparr>) (snd (run_state (parse_cast expr env k) s))"
    using c moves_ok [OF t(1)] t(2) unfolding safe_from_def by metis
  then show ?thesis using t(1) by (auto simp: moves_def follows_def)
qed

lemma scope_eats: "eats (\<lambda>b. b) accept_scope_resolution"
  unfolding eats_def
proof (intro allI impI)
  fix s
  assume s: "state_ok s"
  let ?p = "pt_parser s" and ?c = "run_state accept_scope_resolution s"
  show "moves s (snd ?c) \<and> (fst ?c \<longrightarrow> room (snd ?c) < room s)"
  proof (cases "ps_pos ?p + 1 < length (ps_toks ?p) \<and> is_symbol_tok '':'' (ps_toks ?p ! ps_pos ?p) \<and> is_symbol_tok '':'' (ps_toks ?p ! (ps_pos ?p + 1))")
    case True
    have ne: "\<not> at_eof ?p" using True by (simp add: at_eof_def peek_def is_symbol_tok_def)
    let ?t = "snd (run_state next_tok s)"
    have t: "moves s ?t" "room ?t < room s" using next_room [OF s ne] by auto
    have u: "moves ?t (snd (run_state next_tok ?t))" using safeD [OF safe_next moves_ok [OF t(1)]] by blast
    have "snd ?c = snd (run_state next_tok ?t)" using True
      by (simp add: accept_scope_resolution_def next_tok_def on_parser_def)
    then show ?thesis using moves_trans [OF t(1) u] moves_room [OF u] t(2) by simp
  qed (use s moves_refl in \<open>auto simp: accept_scope_resolution_def on_parser_def\<close>)
qed

lemma safe_scope: "safe (n - 1) (f True) \<Longrightarrow> safe n (f False) \<Longrightarrow> safe n (State_Monad.bind accept_scope_resolution f)"
  by (rule safe_eats [OF scope_eats]) auto

lemma safe_ident: "safe n (ident what)"
proof (rule safeI)
  fix s
  assume "state_ok s"
  then show "moves s (snd (run_state (ident what) s))"
    using consume_follows [of "pt_parser s"]
    by (auto simp: ident_def on_parser_def expect_ident_def moves_def state_ok_def follows_def cursor_ok_def err_def consume_def)
qed

lemma safe_qual: "safe k (qual_loop k q)"
proof (induction k arbitrary: q)
  case (Suc k)
  show ?case unfolding qual_loop.simps Let_def
    by (intro safe_scope safe_rules2 safe_ident; (rule safe_mono [OF Suc])?; simp)
qed (rule safe_0)

lemma safe_qual_min: "safe (min n k) (qual_loop k q)"
  by (rule safe_mono [OF safe_qual]) simp

subsection \<open>Calls\<close>

text \<open>What is asked of the parser of function bodies: it returns, and only adds errors.\<close>

definition proc_ok :: "stmt_parser \<Rightarrow> bool" where
  "proc_ok ps \<longleftrightarrow> (\<forall>p m. \<exists>r ns p' m' es. ps p m = Some (r, ns, p', m') \<and> ps_errors p' = ps_errors p @ es)"

lemma keeps_inline_body: "proc_ok ps \<Longrightarrow> keeps (inline_body ps tx ret)"
  unfolding keeps_def
proof
  fix s :: pstate
  assume ok: "proc_ok ps"
  let ?fp = "\<lparr>ps_toks = lx_tokens (lex None tx), ps_pos = 0, ps_errors = ps_errors (pt_parser s), ps_return_target = ret\<rparr>"
  obtain r ns p' m' es where "ps ?fp (pt_m s) = Some (r, ns, p', m')" "ps_errors p' = ps_errors ?fp @ es"
    using ok unfolding proc_ok_def by blast
  then show "same_cursor s (snd (run_state (inline_body ps tx ret) s))"
    by (simp add: inline_body_def Let_def same_cursor_def)
qed

lemma keeps_ifs: "keeps c \<Longrightarrow> keeps d \<Longrightarrow> keeps (if b then c else d)"
  by simp

lemma keeps_case: "keeps c \<Longrightarrow> (\<And>a. keeps (f a)) \<Longrightarrow> keeps (case x of None \<Rightarrow> c | Some a \<Rightarrow> f a)"
  by (cases x) auto

lemmas keeps_rules = keeps_return keeps_build keeps_module keeps_the_module keeps_error keeps_look keeps_declare keeps_bind keeps_ifs keeps_case

lemma keeps_declares: "keeps (declare_scalar nm r sg)" "keeps (declare_vector_like nm r sg h msb lsb w)" "keeps (add_assigns ps)"
  unfolding declare_vector_like_def declare_scalar_def add_assigns_def by (intro keeps_rules)+

lemma keeps_connect: "keeps (connect_params i ps)"
  by (induction i ps rule: connect_params.induct) (auto simp: Let_def intro!: keeps_rules keeps_declares)

lemma keeps_inline: "proc_ok ps \<Longrightarrow> keeps (inline_call ps t0 name fd args)"
  unfolding inline_call_def Let_def by (intro keeps_rules keeps_declares keeps_connect keeps_inline_body)

lemma safe_call: "proc_ok ps \<Longrightarrow> safe n expr \<Longrightarrow> safe n (parse_call ps expr t0 q)"
  unfolding parse_call_def Let_def by (intro safe_rules2 safe_args keeps_safe [OF keeps_inline]; (erule safe_mono)?; simp)

lemma keeps_refs: "keeps (name_ref name)" "keeps (try_resolve_inst_port h f b)"
  unfolding name_ref_def try_resolve_inst_port_def by (intro keeps_rules)+

lemma safe_identifier: "proc_ok ps \<Longrightarrow> safe n expr \<Longrightarrow> safe n (identifier_value ps expr env t0)"
  unfolding identifier_value_def Let_def
  by (intro safe_rules2 keeps_safe [OF keeps_refs(1)] keeps_safe [OF keeps_refs(2)] safe_call safe_qual_min; (erule safe_mono)?; simp)

subsection \<open>Primaries\<close>

lemma safe_items: "safe n expr \<Longrightarrow> safe (min n k) (items_loop k expr bits)"
proof (induction k arbitrary: bits)
  case (Suc k)
  show ?case unfolding items_loop.simps
    by (intro safe_rules2; (rule safe_mono [OF Suc(1) [OF Suc(2)]] safe_mono [OF Suc(2)])?; auto simp: min_def)
qed (simp add: safe_0)

lemma safe_braces: "safe n expr \<Longrightarrow> safe n (parse_concat_items_until_rbrace expr)"
  unfolding parse_concat_items_until_rbrace_def by (intro safe_rules2 safe_items)

lemma safe_concat: "safe n expr \<Longrightarrow> safe n (parse_concat expr)"
  unfolding parse_concat_def parse_streaming_def parse_replication_def replication_count_def replicate_value_def parse_concat_rest_def
    concat_value_def Let_def
  by (intro safe_rules2 safe_braces safe_items; (erule safe_mono)?; simp)

lemma safe_postfix: "safe n expr \<Longrightarrow> safe (Suc n) (parse_postfix expr base)"
proof -
  assume e: "safe n expr"
  have "safe (min (Suc n) k) (postfix_loop k expr base)" for k
  proof (induction k arbitrary: base)
    case (Suc k)
    show ?case unfolding postfix_loop.simps
      by (intro safe_rules2; (rule safe_mono [OF Suc] safe_mono [OF e])?; auto simp: min_def)
  qed (simp add: safe_0)
  then show ?thesis unfolding parse_postfix_def by (intro safe_rules2)
qed

text \<open>After a token that is not the end of the file there is one token less.\<close>

lemma moves_next:
  assumes "state_ok s" "room s < Suc n" "\<not> at_eof (pt_parser s)" "safe n (f ())"
  shows "moves s (snd (run_state (State_Monad.bind next_tok f) s))"
proof -
  let ?t = "snd (run_state next_tok s)"
  have t: "moves s ?t" "room ?t < n" using next_room [OF assms(1,3)] assms(2) by auto
  then have "moves ?t (snd (run_state (f ()) ?t))" using safeD [OF assms(4)] moves_ok by blast
  then show ?thesis using moves_trans [OF t(1)] by (simp add: split_def)
qed

lemma moves_bind:
  assumes "moves s (snd (run_state c s))" "\<And>a t. run_state c s = (a, t) \<Longrightarrow> moves t (snd (run_state (f a) t))"
  shows "moves s (snd (run_state (State_Monad.bind c f) s))"
  using assms moves_trans by (cases "run_state c s") auto

lemma cast_back: "run_state (parse_cast expr env k) s = (None, t) \<Longrightarrow> ps_pos (pt_parser t) = ps_pos (pt_parser s)"
  unfolding parse_cast_def Let_def by (auto simp: get_pos_def set_pos_def on_parser_def split: prod.splits if_splits)

lemma run_peek: "run_state (State_Monad.bind peek_tok f) s = run_state (f (peek (pt_parser s))) s"
  by (simp add: peek_tok_def on_parser_def)

lemma safe_primary:
  assumes "proc_ok ps" "\<And>env. safe n (expr env)"
  shows "safe (Suc n) (parse_primary ps expr env)"
proof (rule safeI)
  fix s
  assume s: "state_ok s" "room s < Suc n"
  let ?p = "pt_parser s" and ?t0 = "peek (pt_parser s)"
  have post: "safe n (parse_postfix (expr env) b)" "safe (Suc n) (parse_postfix (expr env) b)" for b
    using safe_postfix [OF assms(2)] safe_mono [OF safe_postfix [OF assms(2)]] by auto
  define rest where "rest = do {_ \<leftarrow> next_tok; sf \<leftarrow> system_function (expr env) ?t0;
      case sf of Some v \<Rightarrow> State_Monad.return v
      | None \<Rightarrow> do {base \<leftarrow> identifier_value ps (expr env) env ?t0; parse_postfix (expr env) base}}"
  have rest: "moves t (snd (run_state rest t))" if "state_ok t" "room t < Suc n" "\<not> at_eof (pt_parser t)" for t
    unfolding rest_def using that
    by (rule moves_next) (intro safe_rules2 safe_system safe_identifier assms post)
  consider "tk_kind ?t0 = tk_identifier" | "tk_kind ?t0 = tk_number" | "tk_kind ?t0 = tk_symbol" | "tk_kind ?t0 = tk_eof"
    by (cases "tk_kind ?t0") auto
  then show "moves s (snd (run_state (parse_primary ps expr env) s))"
  proof cases
    case 1
    then have ne: "\<not> at_eof ?p" by (simp add: at_eof_def)
    let ?c = "if is_cast_type (tk_text ?t0) then parse_cast expr env (tk_text ?t0) else State_Monad.return None"
    have r: "run_state (parse_primary ps expr env) s = run_state (State_Monad.bind ?c (\<lambda>x. case x of Some v \<Rightarrow> State_Monad.return v | None \<Rightarrow> rest)) s"
      using 1 unfolding rest_def unfolding parse_primary_def run_peek by simp
    show ?thesis unfolding r
    proof (rule moves_bind)
      show c: "moves s (snd (run_state ?c s))" using cast_moves [OF s ne assms(2)] moves_refl [OF s(1)] by simp
      fix a t
      assume t: "run_state ?c s = (a, t)"
      then have m: "moves s t" using c by simp
      then have "ps_toks (pt_parser t) = ps_toks ?p" by (simp add: moves_def follows_def)
      moreover have "ps_pos (pt_parser t) = ps_pos ?p" if "a = None" using t that cast_back by (auto split: if_splits)
      ultimately have "\<not> at_eof (pt_parser t)" if "a = None" using ne that by (simp add: at_eof_def peek_def)
      then show "moves t (snd (run_state (case a of Some v \<Rightarrow> State_Monad.return v | None \<Rightarrow> rest) t))"
        using rest moves_ok [OF m] moves_room [OF m] s(2) moves_refl by (cases a) auto
    qed
  next
    case 2
    then have ne: "\<not> at_eof ?p" by (simp add: at_eof_def)
    show ?thesis
    proof (cases "parse_literal_bits True (tk_text ?t0)")
      case None
      then have r: "run_state (parse_primary ps expr env) s = run_state (do {_ \<leftarrow> error_tok ?t0 ''invalid number literal''; _ \<leftarrow> next_tok; build unknown_scalar}) s"
        using 2 unfolding parse_primary_def run_peek by simp
      show ?thesis unfolding r by (rule safeD [OF _ s]) (intro safe_rules2)
    next
      case (Some a)
      then obtain bs sg where a: "parse_literal_bits True (tk_text ?t0) = Some (bs, sg)" by (cases a) auto
      then have r: "run_state (parse_primary ps expr env) s =
          run_state (do {_ \<leftarrow> next_tok; base \<leftarrow> build (number_value bs sg); parse_postfix (expr env) base}) s"
        using 2 unfolding parse_primary_def run_peek by simp
      show ?thesis unfolding r by (rule safeD [OF _ s]) (intro safe_rules2 post)
    qed
  next
    case 3
    then have ne: "\<not> at_eof ?p" by (simp add: at_eof_def)
    have m: "moves s (snd (run_state (State_Monad.bind next_tok f) s))" if "safe n (f ())" for f :: "unit \<Rightarrow> expr_value parse"
      by (rule moves_next [OF s ne]) (rule that)
    have x: "moves s (snd (run_state (do {_ \<leftarrow> error_tok ?t0 ''expected expression''; _ \<leftarrow> next_tok; base \<leftarrow> build unknown_scalar; parse_postfix (expr env) base}) s))"
      by (rule safeD [OF _ s]) (intro safe_rules2 post)
    show ?thesis unfolding parse_primary_def run_peek using 3
      by (simp del: run_state_bind) (intro impI conjI x m safe_rules2 post safe_concat assms)
  next
    case 4
    then have r: "run_state (parse_primary ps expr env) s =
        run_state (do {_ \<leftarrow> error_tok ?t0 ''expected expression''; _ \<leftarrow> next_tok; base \<leftarrow> build unknown_scalar; parse_postfix (expr env) base}) s"
      unfolding parse_primary_def run_peek by (simp add: is_symbol_tok_def)
    show ?thesis unfolding r by (rule safeD [OF _ s]) (intro safe_rules2 post)
  qed
qed

subsection \<open>Operators\<close>

lemma safe_power: "safe n primary \<Longrightarrow> safe n (parse_power primary)"
proof -
  assume e: "safe n primary"
  have "safe (min n k) (power_loop k primary)" for k
  proof (induction k)
    case (Suc k)
    show ?case unfolding power_loop.simps by (intro safe_rules2; (rule safe_mono [OF Suc] safe_mono [OF e])?; auto simp: min_def)
  qed (simp add: safe_0)
  then show ?thesis unfolding parse_power_def by (intro safe_rules2)
qed

lemma safe_unary: "safe n primary \<Longrightarrow> safe n (parse_unary primary)"
proof -
  assume e: "safe n primary"
  have "safe (min n k) (unary_loop k primary)" for k
  proof (induction k)
    case (Suc k)
    show ?case unfolding unary_loop.simps
      by (intro safe_rules2; (rule safe_mono [OF Suc] safe_mono [OF safe_power [OF e]])?; auto simp: min_def)
  qed (simp add: safe_0)
  then show ?thesis unfolding parse_unary_def by (intro safe_rules2)
qed

lemma safe_left_assoc: "safe n operand \<Longrightarrow> safe n (left_assoc ops operand)"
proof -
  assume e: "safe n operand"
  have "safe (min n k) (op_loop k ops operand lhs)" for k lhs
  proof (induction k arbitrary: lhs)
    case (Suc k)
    show ?case unfolding op_loop.simps by (intro safe_rules2; (rule safe_mono [OF Suc] safe_mono [OF e])?; auto simp: min_def)
  qed (simp add: safe_0)
  then show ?thesis unfolding left_assoc_def by (intro safe_rules2 e)
qed

lemma safe_lor: "safe n primary \<Longrightarrow> safe n (parse_lor primary)"
  unfolding parse_lor_def parse_land_def parse_eq_def parse_rel_def parse_or_def parse_xor_def parse_and_def
    parse_shift_def parse_add_def parse_mul_def
  by (intro safe_left_assoc safe_unary)

lemma safe_cond: "safe n primary \<Longrightarrow> safe n (parse_cond primary)"
proof -
  assume e: "safe n primary"
  have "safe (min n k) (cond_loop k primary)" for k
  proof (induction k)
    case (Suc k)
    show ?case unfolding cond_loop.simps
      by (intro safe_rules2; (rule safe_mono [OF Suc] safe_mono [OF safe_lor [OF e]])?; auto simp: min_def)
  qed (simp add: safe_0)
  then show ?thesis unfolding parse_cond_def by (intro safe_rules2)
qed

lemma safe_expr_rec: "proc_ok ps \<Longrightarrow> safe n (expr_rec ps n env)"
proof (induction n arbitrary: env)
  case (Suc n)
  show ?case unfolding expr_rec.simps by (rule safe_cond [OF safe_primary [OF Suc(2) Suc(1) [OF Suc(2)]]])
qed (rule safe_0)

lemma safe_parse_expr: "proc_ok ps \<Longrightarrow> safe n (parse_expr ps env)"
  unfolding parse_expr_def by (rule safe_bound) (rule safe_mono [OF safe_expr_rec], simp_all)

text \<open>
  C38: Parsing an expression at any place of a lexed source, well formed or not, returns: no loop
  and no recursion of the parser goes on without consuming a token, the jump back after a type
  keyword that is no cast included. The cursor ends inside the token vector and not before where
  it started, the tokens are unchanged, and the errors reported before are kept. Of the statement
  parser that reads the bodies of inlined functions it is assumed that it returns and only adds
  errors (which excludes mutually recursive functions).
\<close>

theorem expression_parsing_terminates:
  assumes "proc_ok proc_stmt" "pt_parser s = \<lparr>ps_toks = lx_tokens (lex smap src), ps_pos = pos, ps_errors = es, ps_return_target = r\<rparr>"
    and "pos < length (lx_tokens (lex smap src))" "\<not> pt_stuck s" "run_state (parse_expr proc_stmt env) s = (v, s')"
  shows "\<not> pt_stuck s' \<and> ps_toks (pt_parser s') = lx_tokens (lex smap src) \<and> pos \<le> ps_pos (pt_parser s') \<and>
    ps_pos (pt_parser s') < length (lx_tokens (lex smap src)) \<and> take (length es) (ps_errors (pt_parser s')) = es"
proof -
  have "cursor_ok (pt_parser s)" using assms(2,3) lex_cursor_ok [of smap src es r] by (simp add: cursor_ok_def)
  then have "state_ok s" using assms(4) by (simp add: state_ok_def)
  then have "moves s (snd (run_state (parse_expr proc_stmt env) s))" by (rule safeD [OF safe_parse_expr [OF assms(1)]]) (rule lessI)
  then have "moves s s'" using assms(5) by simp
  then show ?thesis using assms(2) by (auto simp: moves_def follows_def cursor_ok_def)
qed

theorem expression_parsing_terminates_witness:
  "\<exists>v s'. run_state (parse_expr (\<lambda>p m. Some (0, [], p, m)) no_env)
       \<lparr>pt_parser = \<lparr>ps_toks = lx_tokens (lex None ''((a + ''), ps_pos = 0, ps_errors = [], ps_return_target = []\<rparr>, pt_m = empty_module, pt_stuck = False\<rparr> = (v, s') \<and>
     \<not> pt_stuck s' \<and> ps_pos (pt_parser s') < length (lx_tokens (lex None ''((a + ''))"
proof -
  let ?s = "\<lparr>pt_parser = \<lparr>ps_toks = lx_tokens (lex None ''((a + ''), ps_pos = 0, ps_errors = [], ps_return_target = []\<rparr>, pt_m = empty_module, pt_stuck = False\<rparr>"
  obtain v s' where r: "run_state (parse_expr (\<lambda>p m. Some (0, [], p, m)) no_env) ?s = (v, s')" by fastforce
  have "proc_ok (\<lambda>p m. Some (0, [], p, m))" by (simp add: proc_ok_def)
  then have "\<not> pt_stuck s' \<and> ps_pos (pt_parser s') < length (lx_tokens (lex None ''((a + ''))"
    using expression_parsing_terminates [of "\<lambda>p m. Some (0, [], p, m)" ?s None "''((a + ''" 0 "[]" "[]" no_env v s'] r by (simp add: lex_pieces)
  then show ?thesis using r by blast
qed

end
