(* ===== verification/Expr_Grammar.thy ===== *)
theory Expr_Grammar
  imports Expr_Parse_Safe
begin

text \<open>
  What the expression parser reads: expressions as trees, their tokens with as few parentheses as the
  precedence levels of the code need, and the calls of the builder a tree stands for. The parser reads the
  tokens of a tree, however they go on, and performs exactly these calls.
\<close>

subsection \<open>Trees\<close>

text \<open>The levels are numbered from the outside: 0 the conditional, 1 to 10 the binary operators, 11 prefix operators,
  12 powers, 13 selects, 14 atoms. A chain is an operand with a list of operators of one level and operands.\<close>

datatype vexpr =
    E_num string
  | E_id string
  | E_un string vexpr
  | E_chain nat vexpr vtail
  | E_pow vexpr vexpr
  | E_cond vexpr vexpr vexpr
  | E_sel vexpr vsel
  | E_cat vexpr vtail
  | E_rep vexpr vexpr vtail
and vtail = T_end | T_op string vexpr vtail
and vsel = S_end | S_bit vexpr vsel | S_part vexpr vexpr vsel | S_up vexpr vexpr vsel | S_down vexpr vexpr vsel

definition level_ops :: "nat \<Rightarrow> (string \<times> binary_op) list" where
  "level_ops k = [[], lor_ops, land_ops, eq_ops, rel_ops, or_ops, xor_ops, and_ops, shift_ops, add_ops, mul_ops] ! k"

definition level_parser :: "nat \<Rightarrow> expr_value parse \<Rightarrow> expr_value parse" where
  "level_parser k = [\<lambda>p. p, parse_lor, parse_land, parse_eq, parse_rel, parse_or, parse_xor, parse_and, parse_shift, parse_add, parse_mul, parse_unary] ! k"

definition op_of :: "(string \<times> 'a) list \<Rightarrow> string \<Rightarrow> 'a" where
  "op_of ops t = the (map_of ops t)"

fun prec :: "vexpr \<Rightarrow> nat" where
  "prec (E_num t) = 14"
| "prec (E_id x) = 14"
| "prec (E_un p e) = 11"
| "prec (E_chain k e t) = k"
| "prec (E_pow a b) = 12"
| "prec (E_cond c t f) = 0"
| "prec (E_sel e s) = 13"
| "prec (E_cat e t) = 14"
| "prec (E_rep n e t) = 14"

type_synonym key = "token_kind \<times> string"

definition sy :: "string \<Rightarrow> key" where
  "sy t = (tk_symbol, t)"

fun show_at :: "nat \<Rightarrow> vexpr \<Rightarrow> key list" and show_body :: "vexpr \<Rightarrow> key list" and show_tail :: "nat \<Rightarrow> vtail \<Rightarrow> key list" and show_sels :: "vsel \<Rightarrow> key list" where
  "show_at l e = (if prec e < l then sy ''('' # show_body e @ [sy '')''] else show_body e)"
| "show_body (E_num t) = [(tk_number, t)]"
| "show_body (E_id x) = [(tk_identifier, x)]"
| "show_body (E_un p e) = sy p # show_at 11 e"
| "show_body (E_chain k e t) = show_at (Suc k) e @ show_tail (Suc k) t"
| "show_body (E_pow a b) = show_at 13 a @ sy ''**'' # show_at 12 b"
| "show_body (E_cond c t f) = show_at 1 c @ sy ''?'' # show_at 0 t @ sy '':'' # show_at 0 f"
| "show_body (E_sel e s) = show_at 14 e @ show_sels s"
| "show_body (E_cat e t) = sy ''{'' # show_at 0 e @ show_tail 0 t @ [sy ''}'']"
| "show_body (E_rep n e t) = sy ''{'' # show_at 0 n @ sy ''{'' # show_at 0 e @ show_tail 0 t @ [sy ''}'', sy ''}'']"
| "show_tail l T_end = []"
| "show_tail l (T_op p e t) = sy p # show_at l e @ show_tail l t"
| "show_sels S_end = []"
| "show_sels (S_bit i s) = sy ''['' # show_at 0 i @ sy '']'' # show_sels s"
| "show_sels (S_part a b s) = sy ''['' # show_at 0 a @ sy '':'' # show_at 0 b @ sy '']'' # show_sels s"
| "show_sels (S_up a b s) = sy ''['' # show_at 0 a @ sy ''+:'' # show_at 0 b @ sy '']'' # show_sels s"
| "show_sels (S_down a b s) = sy ''['' # show_at 0 a @ sy ''-:'' # show_at 0 b @ sy '']'' # show_sels s"

text \<open>The calls of the builder, from left to right.\<close>

fun denote :: "vexpr \<Rightarrow> expr_value parse" and denote_tail :: "nat \<Rightarrow> vtail \<Rightarrow> expr_value \<Rightarrow> expr_value parse"
  and denote_items :: "vtail \<Rightarrow> nat list \<Rightarrow> nat list parse" and denote_sels :: "vsel \<Rightarrow> expr_value \<Rightarrow> expr_value parse" where
  "denote (E_num t) = (case parse_literal_bits True t of Some (bits, sg) \<Rightarrow> build (number_value bits sg) | None \<Rightarrow> build unknown_scalar)"
| "denote (E_id x) = name_ref x"
| "denote (E_un p e) = do {a \<leftarrow> denote e; build (op_of unary_ops p a)}"
| "denote (E_chain k e t) = do {v \<leftarrow> denote e; denote_tail k t v}"
| "denote (E_pow a b) = do {x \<leftarrow> denote a; y \<leftarrow> denote b; build (arith_pow x y)}"
| "denote (E_cond c t f) = do {x \<leftarrow> denote c; y \<leftarrow> denote t; z \<leftarrow> denote f; build (make_conditional x y z)}"
| "denote (E_sel e s) = do {v \<leftarrow> denote e; denote_sels s v}"
| "denote (E_cat e t) = do {v \<leftarrow> denote e; bits \<leftarrow> denote_items t (value_bits v); concat_value bits}"
| "denote (E_rep n e t) =
     do {c \<leftarrow> denote n; k \<leftarrow> replication_count c; v \<leftarrow> denote e; bits \<leftarrow> denote_items t (value_bits v); replicate_value k bits}"
| "denote_tail k T_end v = State_Monad.return v"
| "denote_tail k (T_op p e t) v = do {x \<leftarrow> denote e; w \<leftarrow> build (op_of (level_ops k) p v x); denote_tail k t w}"
| "denote_items T_end bits = State_Monad.return bits"
| "denote_items (T_op p e t) bits = do {v \<leftarrow> denote e; denote_items t (bits @ value_bits v)}"
| "denote_sels S_end v = State_Monad.return v"
| "denote_sels (S_bit i s) v = do {x \<leftarrow> denote i; w \<leftarrow> build (apply_bit_select v x); denote_sels s w}"
| "denote_sels (S_part a b s) v = do {x \<leftarrow> denote a; y \<leftarrow> denote b; w \<leftarrow> build (apply_part_select v x y); denote_sels s w}"
| "denote_sels (S_up a b s) v = do {x \<leftarrow> denote a; y \<leftarrow> denote b; w \<leftarrow> build (apply_indexed_part_select v x y True); denote_sels s w}"
| "denote_sels (S_down a b s) v = do {x \<leftarrow> denote a; y \<leftarrow> denote b; w \<leftarrow> build (apply_indexed_part_select v x y False); denote_sels s w}"

definition plain_name :: "string \<Rightarrow> bool" where
  "plain_name x \<longleftrightarrow> \<not> is_cast_type x \<and> x \<notin> {''$urandom'', ''$random'', ''$clog2'', ''$bits'', ''$signed'', ''$unsigned''}"

fun wf_vexpr :: "vexpr \<Rightarrow> bool" and wf_tail :: "string list \<Rightarrow> vtail \<Rightarrow> bool" and wf_sels :: "vsel \<Rightarrow> bool" where
  "wf_vexpr (E_num t) \<longleftrightarrow> parse_literal_bits True t \<noteq> None"
| "wf_vexpr (E_id x) \<longleftrightarrow> plain_name x"
| "wf_vexpr (E_un p e) \<longleftrightarrow> p \<in> set (map fst unary_ops) \<and> wf_vexpr e"
| "wf_vexpr (E_chain k e t) \<longleftrightarrow> 1 \<le> k \<and> k \<le> 10 \<and> wf_vexpr e \<and> wf_tail (map fst (level_ops k)) t"
| "wf_vexpr (E_pow a b) \<longleftrightarrow> wf_vexpr a \<and> wf_vexpr b"
| "wf_vexpr (E_cond c t f) \<longleftrightarrow> wf_vexpr c \<and> wf_vexpr t \<and> wf_vexpr f"
| "wf_vexpr (E_sel e s) \<longleftrightarrow> wf_vexpr e \<and> wf_sels s"
| "wf_vexpr (E_cat e t) \<longleftrightarrow> wf_vexpr e \<and> wf_tail ['',''] t"
| "wf_vexpr (E_rep n e t) \<longleftrightarrow> wf_vexpr n \<and> wf_vexpr e \<and> wf_tail ['',''] t"
| "wf_tail ps T_end \<longleftrightarrow> True"
| "wf_tail ps (T_op p e t) \<longleftrightarrow> p \<in> set ps \<and> wf_vexpr e \<and> wf_tail ps t"
| "wf_sels S_end \<longleftrightarrow> True"
| "wf_sels (S_bit i s) \<longleftrightarrow> wf_vexpr i \<and> wf_sels s"
| "wf_sels (S_part a b s) \<longleftrightarrow> wf_vexpr a \<and> wf_vexpr b \<and> wf_sels s"
| "wf_sels (S_up a b s) \<longleftrightarrow> wf_vexpr a \<and> wf_vexpr b \<and> wf_sels s"
| "wf_sels (S_down a b s) \<longleftrightarrow> wf_vexpr a \<and> wf_vexpr b \<and> wf_sels s"

text \<open>The symbols that continue an expression of a level, and what may follow one.\<close>

definition cont :: "nat \<Rightarrow> string list" where
  "cont l = [''['', ''('', ''.''] @ (if l \<le> 12 then [''**''] else []) @ concat (map (\<lambda>k. map fst (level_ops k)) [max 1 l..<11])
     @ (if l = 0 then [''?''] else [])"

definition calm :: "key list \<Rightarrow> bool" where
  "calm r \<longleftrightarrow> hd r \<noteq> sy ''('' \<and> hd r \<noteq> sy ''.'' \<and> take 2 r \<noteq> [sy '':'', sy '':'']"

definition stops :: "nat \<Rightarrow> key list \<Rightarrow> bool" where
  "stops l r \<longleftrightarrow> r \<noteq> [] \<and> list_all (\<lambda>p. hd r \<noteq> sy p) (cont l) \<and> take 2 r \<noteq> [sy '':'', sy '':'']"

subsection \<open>Reading\<close>

definition keys :: "pstate \<Rightarrow> key list" where
  "keys s = map token_key (drop (ps_pos (pt_parser s)) (ps_toks (pt_parser s)))"

text \<open>\<open>sim\<close>: equal up to the place of the cursor and of the errors.\<close>

definition sim :: "pstate \<Rightarrow> pstate \<Rightarrow> bool" where
  "sim s t \<longleftrightarrow> pt_m s = pt_m t \<and> pt_stuck s = pt_stuck t \<and> map ce_message (ps_errors (pt_parser s)) = map ce_message (ps_errors (pt_parser t))"

definition steady :: "'a parse \<Rightarrow> bool" where
  "steady d \<longleftrightarrow> (\<forall>s t. sim s t \<longrightarrow> fst (run_state d s) = fst (run_state d t) \<and> sim (snd (run_state d s)) (snd (run_state d t)))"

text \<open>\<open>reads c ks F d\<close>: on tokens \<open>ks\<close> followed by something \<open>F\<close> allows, \<open>c\<close> consumes \<open>ks\<close> and does what \<open>d\<close> does.\<close>

definition reads :: "'a parse \<Rightarrow> key list \<Rightarrow> (key list \<Rightarrow> bool) \<Rightarrow> 'a parse \<Rightarrow> bool" where
  "reads c ks F d \<longleftrightarrow> steady d \<and> (\<forall>s r. state_ok s \<longrightarrow> keys s = ks @ r \<longrightarrow> F r \<longrightarrow>
     fst (run_state c s) = fst (run_state d s) \<and> sim (snd (run_state c s)) (snd (run_state d s)) \<and>
     keys (snd (run_state c s)) = r \<and> state_ok (snd (run_state c s)))"

lemma readsI:
  assumes "steady d"
    "\<And>s r. state_ok s \<Longrightarrow> keys s = ks @ r \<Longrightarrow> F r \<Longrightarrow> fst (run_state c s) = fst (run_state d s) \<and> sim (snd (run_state c s)) (snd (run_state d s)) \<and>
       keys (snd (run_state c s)) = r \<and> state_ok (snd (run_state c s))"
  shows "reads c ks F d"
  using assms by (simp add: reads_def)

lemma readsD:
  assumes "reads c ks F d" "state_ok s" "keys s = ks @ r" "F r"
  shows "fst (run_state c s) = fst (run_state d s) \<and> sim (snd (run_state c s)) (snd (run_state d s)) \<and>
     keys (snd (run_state c s)) = r \<and> state_ok (snd (run_state c s))"
  using assms by (simp add: reads_def)

lemma reads_steady: "reads c ks F d \<Longrightarrow> steady d"
  by (simp add: reads_def)

lemma sim_refl: "sim s s"
  by (simp add: sim_def)

lemma sim_trans: "sim s t \<Longrightarrow> sim t u \<Longrightarrow> sim s u"
  by (simp add: sim_def)

lemma steady_bind:
  assumes "steady c" "\<And>a. steady (f a)"
  shows "steady (State_Monad.bind c f)"
  unfolding steady_def
proof (intro allI impI)
  fix s t
  assume "sim s t"
  then have "fst (run_state c s) = fst (run_state c t)" "sim (snd (run_state c s)) (snd (run_state c t))"
    using assms(1) by (auto simp: steady_def)
  then show "fst (run_state (State_Monad.bind c f) s) = fst (run_state (State_Monad.bind c f) t) \<and>
      sim (snd (run_state (State_Monad.bind c f) s)) (snd (run_state (State_Monad.bind c f) t))"
    using assms(2) unfolding steady_def by (simp add: split_def)
qed

lemma steady_return: "steady (State_Monad.return a)"
  by (simp add: steady_def)

lemma fold_err_messages: "map ce_message (ps_errors (fold (\<lambda>msg p. err (peek p) msg p) msgs p)) = map ce_message (ps_errors p) @ msgs"
  by (induction msgs arbitrary: p) (simp_all add: err_def)

lemma steady_build: "steady (build b)"
  by (auto simp: steady_def sim_def build_def fold_err_messages split: prod.splits)

lemma steady_module: "steady (on_module f)"
  by (auto simp: steady_def sim_def on_module_def split: prod.splits)

lemma steady_the_module: "steady the_module"
  by (simp add: the_module_def steady_module)

lemma steady_error_here: "steady (error_here msg)"
  by (simp add: steady_def sim_def error_here_def on_parser_def err_def)

lemma steady_if: "steady c \<Longrightarrow> steady d \<Longrightarrow> steady (if b then c else d)"
  by simp

lemma steady_case: "steady c \<Longrightarrow> (\<And>a. steady (f a)) \<Longrightarrow> steady (case x of None \<Rightarrow> c | Some a \<Rightarrow> f a)"
  by (cases x) auto

lemma steady_pair: "(\<And>a b. steady (f a b)) \<Longrightarrow> steady (case x of (a, b) \<Rightarrow> f a b)"
  by (cases x) auto

lemmas steady_rules = steady_return steady_build steady_module steady_the_module steady_error_here steady_bind steady_if steady_case steady_pair

lemma steady_values: "steady (name_ref x)" "steady (concat_value bits)" "steady (replication_count v)" "steady (replicate_value k bits)"
  unfolding name_ref_def concat_value_def replication_count_def replicate_value_def by (intro steady_rules)+

lemma keeps_values: "keeps (concat_value bits)" "keeps (replication_count v)" "keeps (replicate_value k bits)"
  unfolding concat_value_def replication_count_def replicate_value_def by (intro keeps_rules)+

subsection \<open>Rules\<close>

lemma reads_bind:
  assumes "reads c1 ks1 F1 d1" "\<And>v. reads (c2 v) ks2 F2 (d2 v)" "\<And>r. F2 r \<Longrightarrow> F1 (ks2 @ r)"
  shows "reads (State_Monad.bind c1 c2) (ks1 @ ks2) F2 (State_Monad.bind d1 d2)"
proof (rule readsI)
  show "steady (State_Monad.bind d1 d2)" by (intro steady_bind reads_steady [OF assms(1)] reads_steady [OF assms(2)])
  fix s r
  assume s: "state_ok s" "keys s = (ks1 @ ks2) @ r" "F2 r"
  obtain v s1 where r1: "run_state c1 s = (v, s1)" by fastforce
  have 1: "fst (run_state d1 s) = v" "sim s1 (snd (run_state d1 s))" "keys s1 = ks2 @ r" "state_ok s1"
    using readsD [OF assms(1) s(1), of "ks2 @ r"] s(2,3) assms(3) r1 by auto
  then obtain t1 where d1: "run_state d1 s = (v, t1)" "sim s1 t1" by (cases "run_state d1 s") auto
  have 2: "fst (run_state (c2 v) s1) = fst (run_state (d2 v) s1)" "sim (snd (run_state (c2 v) s1)) (snd (run_state (d2 v) s1))"
    "keys (snd (run_state (c2 v) s1)) = r" "state_ok (snd (run_state (c2 v) s1))"
    using readsD [OF assms(2) 1(4,3) s(3)] by auto
  have "fst (run_state (d2 v) s1) = fst (run_state (d2 v) t1)" "sim (snd (run_state (d2 v) s1)) (snd (run_state (d2 v) t1))"
    using reads_steady [OF assms(2)] d1(2) by (auto simp: steady_def)
  then show "fst (run_state (State_Monad.bind c1 c2) s) = fst (run_state (State_Monad.bind d1 d2) s) \<and>
      sim (snd (run_state (State_Monad.bind c1 c2) s)) (snd (run_state (State_Monad.bind d1 d2) s)) \<and>
      keys (snd (run_state (State_Monad.bind c1 c2) s)) = r \<and> state_ok (snd (run_state (State_Monad.bind c1 c2) s))"
    using 2 r1 d1(1) sim_trans by auto
qed

lemma reads_keep:
  assumes "steady c" "keeps c"
  shows "reads c [] F c"
proof (rule readsI [OF assms(1)])
  fix s r
  assume "state_ok s" "keys s = [] @ r" "F r"
  moreover have "same_cursor s (snd (run_state c s))" using assms(2) by (simp add: keeps_def)
  ultimately show "fst (run_state c s) = fst (run_state c s) \<and> sim (snd (run_state c s)) (snd (run_state c s)) \<and>
      keys (snd (run_state c s)) = r \<and> state_ok (snd (run_state c s))"
    by (auto simp: sim_refl same_cursor_def keys_def state_ok_def cursor_ok_def)
qed

lemmas reads_return = reads_keep [OF steady_return keeps_return]
lemmas reads_build = reads_keep [OF steady_build keeps_build]

lemma reads_mono: "reads c ks F d \<Longrightarrow> (\<And>r. G r \<Longrightarrow> F r) \<Longrightarrow> reads c ks G d"
  by (auto simp: reads_def)

lemma reads_cong:
  assumes "reads c ks F d" "\<And>s r. state_ok s \<Longrightarrow> keys s = ks @ r \<Longrightarrow> F r \<Longrightarrow> run_state c' s = run_state c s"
  shows "reads c' ks F d"
  using assms by (simp add: reads_def)

text \<open>One token.\<close>

lemma keys_head: "state_ok s \<Longrightarrow> keys s = token_key (peek (pt_parser s)) # map token_key (drop (Suc (ps_pos (pt_parser s))) (ps_toks (pt_parser s)))"
  by (simp add: keys_def state_ok_def cursor_ok_def peek_def Cons_nth_drop_Suc [symmetric])

definition advance :: "pstate \<Rightarrow> pstate" where
  "advance s = s\<lparr>pt_parser := snd (consume (pt_parser s))\<rparr>"

lemma advance_reads:
  assumes "state_ok s" "keys s = k # r" "fst k \<noteq> tk_eof"
  shows "keys (advance s) = r \<and> state_ok (advance s) \<and> sim (advance s) s"
proof -
  have e: "\<not> at_eof (pt_parser s)" using assms by (auto simp: keys_head at_eof_def)
  then have "cursor_ok (snd (consume (pt_parser s)))" using consume_follows [of "pt_parser s"] assms(1) by (simp add: state_ok_def follows_def)
  moreover have "map token_key (drop (Suc (ps_pos (pt_parser s))) (ps_toks (pt_parser s))) = r" using keys_head [OF assms(1)] assms(2) by simp
  ultimately show ?thesis using e assms(1) by (simp add: advance_def keys_def state_ok_def sim_def consume_def)
qed

lemma reads_step:
  assumes "reads c ks F d" "fst k \<noteq> tk_eof" "\<And>s r. state_ok s \<Longrightarrow> keys s = k # r \<Longrightarrow> run_state c' s = run_state c (advance s)"
  shows "reads c' (k # ks) F d"
proof (rule readsI)
  show "steady d" using reads_steady [OF assms(1)] .
  fix s r
  assume s: "state_ok s" "keys s = (k # ks) @ r" "F r"
  have a: "keys (advance s) = ks @ r" "state_ok (advance s)" "sim (advance s) s" using advance_reads [OF s(1) _ assms(2)] s(2) by auto
  have "fst (run_state d (advance s)) = fst (run_state d s)" "sim (snd (run_state d (advance s))) (snd (run_state d s))"
    using reads_steady [OF assms(1)] a(3) by (auto simp: steady_def)
  then show "fst (run_state c' s) = fst (run_state d s) \<and> sim (snd (run_state c' s)) (snd (run_state d s)) \<and>
      keys (snd (run_state c' s)) = r \<and> state_ok (snd (run_state c' s))"
    using readsD [OF assms(1) a(2,1) s(3)] assms(3) [OF s(1), of "ks @ r"] s(2) sim_trans by auto
qed

lemma run_symbol:
  assumes "state_ok s"
  shows "run_state (symbol t) s = (if hd (keys s) = sy t then (True, advance s) else (False, s))"
  using keys_head [OF assms] by (auto simp: symbol_def on_parser_def accept_token_def sy_def advance_def)

lemma reads_symbol: "reads (f True) ks F d \<Longrightarrow> reads (State_Monad.bind (symbol t) f) (sy t # ks) F d"
  by (rule reads_step) (auto simp: sy_def run_symbol)

lemma reads_no_symbol:
  assumes "reads (f False) ks F d" "\<And>r. F r \<Longrightarrow> hd (ks @ r) \<noteq> sy t"
  shows "reads (State_Monad.bind (symbol t) f) ks F d"
  using assms(1) by (rule reads_cong) (use assms(2) in \<open>simp add: run_symbol\<close>)

lemma reads_expect: "reads (f ()) ks F d \<Longrightarrow> reads (State_Monad.bind (expect_sym t msg) f) (sy t # ks) F d"
  by (rule reads_step) (auto simp: sy_def run_symbol expect_sym_def)

lemma reads_next: "reads (f ()) ks F d \<Longrightarrow> fst k \<noteq> tk_eof \<Longrightarrow> reads (State_Monad.bind next_tok f) (k # ks) F d"
  by (rule reads_step) (auto simp: next_tok_def on_parser_def advance_def)

lemma reads_peek:
  assumes "\<And>t. token_key t = k \<Longrightarrow> reads (f t) (k # ks) F d"
  shows "reads (State_Monad.bind peek_tok f) (k # ks) F d"
proof (rule readsI)
  show "steady d" using reads_steady [OF assms [of "\<lparr>tk_kind = fst k, tk_text = snd k, tk_line = 0, tk_column = 0\<rparr>"]] by simp
  fix s r
  assume s: "state_ok s" "keys s = (k # ks) @ r" "F r"
  have k: "token_key (peek (pt_parser s)) = k" using keys_head [OF s(1)] s(2) by simp
  show "fst (run_state (State_Monad.bind peek_tok f) s) = fst (run_state d s) \<and> sim (snd (run_state (State_Monad.bind peek_tok f) s)) (snd (run_state d s)) \<and>
      keys (snd (run_state (State_Monad.bind peek_tok f) s)) = r \<and> state_ok (snd (run_state (State_Monad.bind peek_tok f) s))"
    unfolding run_peek using readsD [OF assms [OF k] s] .
qed

lemma reads_bound:
  assumes "\<And>k. length ks < k \<Longrightarrow> reads (f k) ks F d"
  shows "reads (State_Monad.bind token_bound f) ks F d"
proof (rule readsI)
  show "steady d" using reads_steady [OF assms [of "Suc (length ks)"]] by simp
  fix s r
  assume s: "state_ok s" "keys s = ks @ r" "F r"
  let ?k = "Suc (length (ps_toks (pt_parser s)))"
  have "length ks \<le> length (keys s)" using s(2) by simp
  also have "\<dots> \<le> length (ps_toks (pt_parser s))" by (simp add: keys_def)
  finally have "length ks < ?k" by simp
  then show "fst (run_state (State_Monad.bind token_bound f) s) = fst (run_state d s) \<and> sim (snd (run_state (State_Monad.bind token_bound f) s)) (snd (run_state d s)) \<and>
      keys (snd (run_state (State_Monad.bind token_bound f) s)) = r \<and> state_ok (snd (run_state (State_Monad.bind token_bound f) s))"
    using readsD [OF assms s] by (simp add: token_bound_def on_parser_def)
qed

lemma run_accept_op:
  assumes "state_ok s"
  shows "run_state (accept_op ops) s =
    (case find (\<lambda>(t, f). hd (keys s) = sy t) ops of Some (t, f) \<Rightarrow> (Some f, advance s) | None \<Rightarrow> (None, s))"
  using assms by (induction ops) (auto simp: run_symbol)

lemma find_op: "distinct (map fst ops) \<Longrightarrow> t \<in> set (map fst ops) \<Longrightarrow> find (\<lambda>(u, f). sy t = sy u) ops = Some (t, op_of ops t)"
  by (induction ops) (auto simp: sy_def op_of_def)

lemma reads_op:
  assumes "distinct (map fst ops)" "t \<in> set (map fst ops)" "reads (f (Some (op_of ops t))) ks F d"
  shows "reads (State_Monad.bind (accept_op ops) f) (sy t # ks) F d"
  using assms(3) by (rule reads_step) (use find_op [OF assms(1,2)] in \<open>auto simp: sy_def run_accept_op\<close>)

lemma reads_no_op:
  assumes "reads (f None) ks F d" "\<And>r. F r \<Longrightarrow> list_all (\<lambda>t. hd (ks @ r) \<noteq> sy t) (map fst ops)"
  shows "reads (State_Monad.bind (accept_op ops) f) ks F d"
  using assms(1)
proof (rule reads_cong)
  fix s r
  assume s: "state_ok s" "keys s = ks @ r" "F r"
  have "find (\<lambda>(t, f). hd (keys s) = sy t) ops = None"
    using assms(2) [OF s(3)] s(2) by (auto simp: find_None_iff list_all_iff)
  then show "run_state (State_Monad.bind (accept_op ops) f) s = run_state (f None) s" using s(1) by (simp add: run_accept_op)
qed

lemma reads_qual:
  assumes "reads (f q) ks F d" "\<And>r. F r \<Longrightarrow> calm (ks @ r)" "0 < k"
  shows "reads (State_Monad.bind (qual_loop k q) f) ks F d"
  using assms(1)
proof (rule reads_cong)
  fix s r
  assume s: "state_ok s" "keys s = ks @ r" "F r"
  let ?p = "pt_parser s"
  obtain n where n: "k = Suc n" using assms(3) by (cases k) auto
  have c: "hd (keys s) \<noteq> sy ''.''" "take 2 (keys s) \<noteq> [sy '':'', sy '':'']" using assms(2) [OF s(3)] s(2) by (simp_all add: calm_def)
  have "\<not> (is_symbol_tok '':'' (ps_toks ?p ! ps_pos ?p) \<and> is_symbol_tok '':'' (ps_toks ?p ! (ps_pos ?p + 1)))" if l: "ps_pos ?p + 1 < length (ps_toks ?p)"
  proof -
    have "drop (ps_pos ?p) (ps_toks ?p) = ps_toks ?p ! ps_pos ?p # ps_toks ?p ! Suc (ps_pos ?p) # drop (Suc (Suc (ps_pos ?p))) (ps_toks ?p)"
      using l by (simp add: Cons_nth_drop_Suc)
    then show ?thesis using c(2) by (auto simp: keys_def is_symbol_tok_def sy_def numeral_2_eq_2)
  qed
  then have "run_state accept_scope_resolution s = (False, s)"
    by (cases "ps_pos ?p + 1 < length (ps_toks ?p)") (auto simp: accept_scope_resolution_def on_parser_def)
  then show "run_state (State_Monad.bind (qual_loop k q) f) s = run_state (f q) s" using c(1) s(1) n by (simp add: run_symbol)
qed

end
