(* ===== verification/Expr_Facts.thy ===== *)
theory Expr_Facts
  imports Expr_Grammar
begin

text \<open>
  The expression parser inverts the printing of expressions: levels of operators bind as their numbers say,
  chains associate to the left, powers to the right, and every tree comes back as its calls of the builder.
\<close>

subsection \<open>Levels\<close>

lemmas ops_defs = lor_ops_def land_ops_def eq_ops_def rel_ops_def or_ops_def xor_ops_def and_ops_def shift_ops_def add_ops_def mul_ops_def

lemma level_cases:
  fixes k :: nat
  assumes "1 \<le> k" "k \<le> 10"
  obtains "k = 1" | "k = 2" | "k = 3" | "k = 4" | "k = 5" | "k = 6" | "k = 7" | "k = 8" | "k = 9" | "k = 10"
proof -
  have "k = 1 \<or> k = 2 \<or> k = 3 \<or> k = 4 \<or> k = 5 \<or> k = 6 \<or> k = 7 \<or> k = 8 \<or> k = 9 \<or> k = 10" using assms by arith
  then show thesis using that by blast
qed

lemma level_parser_step: "1 \<le> k \<Longrightarrow> k \<le> 10 \<Longrightarrow> level_parser k p = left_assoc (level_ops k) (level_parser (Suc k) p)"
  by (erule level_cases, assumption)
     (simp_all add: level_parser_def level_ops_def parse_lor_def parse_land_def parse_eq_def parse_rel_def parse_or_def parse_xor_def
       parse_and_def parse_shift_def parse_add_def parse_mul_def)

lemma level_distinct: "1 \<le> k \<Longrightarrow> k \<le> 10 \<Longrightarrow> distinct (map fst (level_ops k))"
  by (erule level_cases, assumption) (simp_all add: level_ops_def ops_defs)

lemma unary_distinct: "distinct (map fst unary_ops)"
  by (simp add: unary_ops_def)

lemma in_cont:
  "p \<in> set (cont l) \<longleftrightarrow> p \<in> {''['', ''('', ''.''} \<or> (p = ''**'' \<and> l \<le> 12) \<or> (\<exists>k. 1 \<le> k \<and> l \<le> k \<and> k < 11 \<and> p \<in> fst ` set (level_ops k)) \<or> (p = ''?'' \<and> l = 0)"
proof -
  have "(p \<in> set (concat (map (\<lambda>k. map fst (level_ops k)) [max 1 l..<11]))) = (\<exists>k. 1 \<le> k \<and> l \<le> k \<and> k < 11 \<and> p \<in> fst ` set (level_ops k))"
    by (simp del: upt_Suc upt_eq_Cons_conv) (metis atLeastLessThan_iff max.bounded_iff One_nat_def)
  then show ?thesis unfolding cont_def by (simp del: set_concat)
qed

lemma cont_mono: "l \<le> l' \<Longrightarrow> set (cont l') \<subseteq> set (cont l)"
proof
  fix p
  assume l: "l \<le> l'" and "p \<in> set (cont l')"
  then consider "p \<in> {''['', ''('', ''.''}" | "l' \<le> 12" "p = ''**''" | k where "1 \<le> k" "l' \<le> k" "k < 11" "p \<in> fst ` set (level_ops k)" | "l' = 0" "p = ''?''"
    unfolding in_cont by blast
  then show "p \<in> set (cont l)" unfolding in_cont by cases (use l in \<open>auto dest: order_trans\<close>)
qed

lemma stops_mono: "stops l r \<Longrightarrow> l \<le> l' \<Longrightarrow> stops l' r"
  using cont_mono by (fastforce simp: stops_def list_all_iff)

lemma level_ops_cont: "1 \<le> k \<Longrightarrow> k \<le> 10 \<Longrightarrow> p \<in> set (map fst (level_ops k)) \<Longrightarrow> p \<in> set (cont k)"
  by (auto simp: cont_def max_def)

lemma op_not_cont: "1 \<le> k \<Longrightarrow> k \<le> 10 \<Longrightarrow> list_all (\<lambda>p. p \<notin> set (cont (Suc k)) \<and> p \<noteq> '':'') (map fst (level_ops k))"
  by (erule level_cases, assumption) (simp_all add: cont_def level_ops_def ops_defs upt_rec numeral_eq_Suc)

lemma sy_eq [simp]: "sy a = sy b \<longleftrightarrow> a = b"
  by (simp add: sy_def)

lemma stops_sy: "p \<notin> set (cont l) \<Longrightarrow> p \<noteq> '':'' \<Longrightarrow> stops l (sy p # r)"
  by (auto simp: stops_def list_all_iff numeral_2_eq_2)

lemma stops_colon: "r \<noteq> [] \<Longrightarrow> hd r \<noteq> sy '':'' \<Longrightarrow> '':'' \<notin> set (cont l) \<Longrightarrow> stops l (sy '':'' # r)"
  by (cases r) (auto simp: stops_def list_all_iff numeral_2_eq_2)

lemma stops_not: "stops l r \<Longrightarrow> p \<in> set (cont l) \<Longrightarrow> hd r \<noteq> sy p"
  by (auto simp: stops_def list_all_iff)

lemma stops_calm: "stops l r \<Longrightarrow> calm r"
  by (auto simp: stops_def calm_def cont_def)

lemma cont_base: "''['' \<in> set (cont l)" "l \<le> 12 \<Longrightarrow> ''**'' \<in> set (cont l)" "''?'' \<in> set (cont 0)"
  by (simp_all add: cont_def)

lemma stops_closers: "stops l (sy '']'' # r)" "stops l (sy '')'' # r)" "stops l (sy ''}'' # r)" "stops l (sy ''{'' # r)" "stops l (sy '','' # r)"
  "stops l (sy ''+:'' # r)" "stops l (sy ''-:'' # r)" "'':'' \<notin> set (cont l)" "1 \<le> l \<Longrightarrow> stops l (sy ''?'' # r)" "13 \<le> l \<Longrightarrow> stops l (sy ''**'' # r)"
proof -
  have c: "set (cont l) \<subseteq> set (cont 0)" for l using cont_mono [of 0 l] by simp
  have "{'']'', '')'', ''}'', ''{'', '','', ''+:'', ''-:'', '':''} \<inter> set (cont 0) = {}"
    by (simp add: cont_def level_ops_def ops_defs upt_rec numeral_eq_Suc)
  then show "stops l (sy '']'' # r)" "stops l (sy '')'' # r)" "stops l (sy ''}'' # r)" "stops l (sy ''{'' # r)" "stops l (sy '','' # r)"
    "stops l (sy ''+:'' # r)" "stops l (sy ''-:'' # r)" "'':'' \<notin> set (cont l)"
    using c [of l] by (auto intro!: stops_sy)
  have "''?'' \<notin> set (cont 1)" "''**'' \<notin> set (cont 13)" by (simp_all add: cont_def level_ops_def ops_defs upt_rec numeral_eq_Suc)
  then show "1 \<le> l \<Longrightarrow> stops l (sy ''?'' # r)" "13 \<le> l \<Longrightarrow> stops l (sy ''**'' # r)"
    using cont_mono [of 1 l] cont_mono [of 13 l] by (auto intro!: stops_sy)
qed

subsection \<open>First tokens\<close>

definition starts :: "nat \<Rightarrow> key \<Rightarrow> bool" where
  "starts l k \<longleftrightarrow> fst k = tk_number \<or> fst k = tk_identifier \<or> k = sy ''('' \<or> k = sy ''{'' \<or> (l \<le> 11 \<and> k \<in> set (map (\<lambda>u. sy (fst u)) unary_ops))"

lemma starts_mono: "starts l' k \<Longrightarrow> l \<le> l' \<Longrightarrow> starts l k"
  by (auto simp: starts_def)

lemma show_starts:
  "wf_vexpr e \<Longrightarrow> show_body e \<noteq> [] \<and> starts (prec e) (hd (show_body e))"
proof (induction e rule: vexpr.induct [where ?P2.0 = "\<lambda>_. True" and ?P3.0 = "\<lambda>_. True"])
  case (E_chain k e t)
  then have "show_body e \<noteq> []" "starts (prec e) (hd (show_body e))" by simp_all
  then show ?case using starts_mono [of "prec e" _ k] by (auto simp: starts_def)
next
  case (E_pow a b)
  then have "show_body a \<noteq> []" "starts (prec a) (hd (show_body a))" by simp_all
  then show ?case using starts_mono [of "prec a" _ 12] by (auto simp: starts_def)
next
  case (E_cond c t f)
  then have "show_body c \<noteq> []" "starts (prec c) (hd (show_body c))" by simp_all
  then show ?case using starts_mono [of "prec c" _ 0] by (auto simp: starts_def)
next
  case (E_sel e s)
  then have "show_body e \<noteq> []" "starts (prec e) (hd (show_body e))" by simp_all
  then show ?case using starts_mono [of "prec e" _ 13] by (auto simp: starts_def)
qed (auto simp: starts_def)

lemma show_at_starts: "wf_vexpr e \<Longrightarrow> show_at l e \<noteq> [] \<and> starts l (hd (show_at l e))"
  using show_starts [of e] starts_mono [of "prec e" _ l] by (auto simp: starts_def)

lemma starts_not: "starts l k \<Longrightarrow> p \<in> {''}'', ''<<'', ''>>'', '':''} \<Longrightarrow> k \<noteq> sy p"
  by (auto simp: starts_def sy_def unary_ops_def)

lemma starts_12: "starts l k \<Longrightarrow> 12 \<le> l \<Longrightarrow> list_all (\<lambda>t. k \<noteq> sy t) (map fst unary_ops)"
  by (auto simp: starts_def sy_def unary_ops_def)

declare show_at.simps [simp del]

subsection \<open>From one level to the next\<close>

definition lreads :: "stmt_parser \<Rightarrow> nat \<Rightarrow> nat \<Rightarrow> key list \<Rightarrow> expr_value parse \<Rightarrow> bool" where
  "lreads ps N l ks d \<longleftrightarrow>
     (let prim = parse_primary ps (expr_rec ps N) no_env
      in if l = 0 then (\<forall>n. length ks < n \<longrightarrow> reads (cond_loop n prim) ks (stops 0) d)
         else if l \<le> 10 then reads (level_parser l prim) ks (stops l) d
         else if l = 11 then (\<forall>n. length ks < n \<longrightarrow> reads (unary_loop n prim) ks (stops 11) d)
         else if l = 12 then (\<forall>n. length ks < n \<longrightarrow> reads (power_loop n prim) ks (stops 12) d)
         else if l = 13 then reads prim ks (stops 13) d
         else (\<forall>ks2 F d2. (\<forall>v. reads (parse_postfix (expr_rec ps N no_env) v) ks2 F (d2 v)) \<longrightarrow> (\<forall>r. F r \<longrightarrow> calm (ks2 @ r)) \<longrightarrow>
                 reads prim (ks @ ks2) F (State_Monad.bind d d2)))"

lemma reads_then_return:
  assumes "reads c ks F d" "\<And>v. reads (f v) [] G (State_Monad.return v)" "\<And>r. G r \<Longrightarrow> F r"
  shows "reads (State_Monad.bind c f) ks G d"
  using reads_bind [where ?c2.0 = f and ?d2.0 = State_Monad.return, OF assms(1,2)] assms(3) by simp

lemma reads_postfix_end: "reads (parse_postfix expr v) [] (stops 13) (State_Monad.return v)"
  unfolding parse_postfix_def
proof (rule reads_bound)
  fix k :: nat
  assume "length ([] :: key list) < k"
  then obtain n where "k = Suc n" by (cases k) auto
  then show "reads (postfix_loop k expr v) [] (stops 13) (State_Monad.return v)"
    using stops_not [OF _ cont_base(1)] by (auto intro!: reads_no_symbol reads_return)
qed

lemma lreads_operand:
  assumes "lreads ps N (Suc l) ks d" "1 \<le> l" "l \<le> 10"
  shows "reads (level_parser (Suc l) (parse_primary ps (expr_rec ps N) no_env)) ks (stops (Suc l)) d"
proof (cases "l = 10")
  case True
  then have "reads (parse_unary (parse_primary ps (expr_rec ps N) no_env)) ks (stops 11) d"
    unfolding parse_unary_def using assms(1) by (intro reads_bound) (simp add: lreads_def)
  then show ?thesis using True by (simp add: level_parser_def)
qed (use assms in \<open>simp add: lreads_def\<close>)

lemma climb:
  assumes "lreads ps N (Suc l) ks d" "l \<le> 13" "l = 11 \<Longrightarrow> ks \<noteq> [] \<and> list_all (\<lambda>t. hd ks \<noteq> sy t) (map fst unary_ops)"
  shows "lreads ps N l ks d"
proof -
  let ?p = "parse_primary ps (expr_rec ps N) no_env"
  consider "l = 0" | "1 \<le> l" "l \<le> 10" | "l = 11" | "l = 12" | "l = 13" using assms(2) by linarith
  then show ?thesis
  proof cases
    case 1
    have r: "reads (parse_lor ?p) ks (stops 1) d" using assms(1) 1 by (simp add: lreads_def level_parser_def)
    have "reads (cond_loop (Suc n) ?p) ks (stops 0) d" for n
      unfolding cond_loop.simps
      by (rule reads_then_return [OF r], rule reads_no_symbol) (simp_all add: reads_return stops_not [OF _ cont_base(3)] stops_mono [of 0])
    then show ?thesis using 1 by (auto simp: lreads_def dest: less_imp_Suc_add)
  next
    case 2
    have r: "reads (level_parser (Suc l) ?p) ks (stops (Suc l)) d" using lreads_operand [OF assms(1) 2] .
    have t: "reads (State_Monad.bind token_bound (\<lambda>n. op_loop n (level_ops l) (level_parser (Suc l) ?p) v)) [] (stops l) (State_Monad.return v)" for v
    proof (rule reads_bound)
      fix k :: nat
      assume "length ([] :: key list) < k"
      then obtain n where k: "k = Suc n" by (cases k) auto
      have "stops l r \<Longrightarrow> list_all (\<lambda>t. hd ([] @ r) \<noteq> sy t) (map fst (level_ops l))" for r
        using level_ops_cont [OF 2] stops_not by (fastforce simp: list_all_iff)
      then show "reads (op_loop k (level_ops l) (level_parser (Suc l) ?p) v) [] (stops l) (State_Monad.return v)"
        unfolding k op_loop.simps by (intro reads_no_op) (simp_all add: reads_return)
    qed
    have "reads (level_parser l ?p) ks (stops l) d"
      unfolding level_parser_step [OF 2] left_assoc_def by (rule reads_then_return [OF r t]) (rule stops_mono, auto)
    then show ?thesis using 2 by (simp add: lreads_def)
  next
    case 3
    have r: "reads (parse_power ?p) ks (stops 12) d"
      unfolding parse_power_def using assms(1) 3 by (intro reads_bound) (simp add: lreads_def)
    have u: "list_all (\<lambda>t. hd (ks @ r) \<noteq> sy t) (map fst unary_ops)" for r using assms(3) [OF 3] by simp
    have "reads (unary_loop (Suc n) ?p) ks (stops 11) d" for n
      unfolding unary_loop.simps by (rule reads_no_op [OF _ u]) (use reads_mono [OF r] stops_mono in simp)
    then show ?thesis using 3 by (auto simp: lreads_def dest: less_imp_Suc_add)
  next
    case 4
    have r: "reads ?p ks (stops 13) d" using assms(1) 4 by (simp add: lreads_def)
    have "reads (power_loop (Suc n) ?p) ks (stops 12) d" for n
      unfolding power_loop.simps
      by (rule reads_then_return [OF r], rule reads_no_symbol) (simp_all add: reads_return stops_not [OF _ cont_base(2)] stops_mono [of 12])
    then show ?thesis using 4 by (auto simp: lreads_def dest: less_imp_Suc_add)
  next
    case 5
    have a: "\<forall>ks2 F d2. (\<forall>v. reads (parse_postfix (expr_rec ps N no_env) v) ks2 F (d2 v)) \<longrightarrow> (\<forall>r. F r \<longrightarrow> calm (ks2 @ r)) \<longrightarrow>
        reads ?p (ks @ ks2) F (State_Monad.bind d d2)"
      using assms(1) 5 by (simp add: lreads_def)
    have "reads ?p (ks @ []) (stops 13) (State_Monad.bind d State_Monad.return)"
      using a reads_postfix_end stops_calm by fastforce
    then show ?thesis using 5 by (simp add: lreads_def)
  qed
qed

lemma descend:
  assumes "lreads ps N l' ks d" "l \<le> l'" "l' \<le> 14" "12 \<le> l' \<Longrightarrow> ks \<noteq> [] \<and> list_all (\<lambda>t. hd ks \<noteq> sy t) (map fst unary_ops)"
  shows "lreads ps N l ks d"
  using assms
proof (induction "l' - l" arbitrary: l)
  case (Suc x)
  then have "lreads ps N (Suc l) ks d" by simp
  then show ?case by (rule climb) (use Suc in auto)
qed simp

lemma expr_reads: "lreads ps N 0 ks d \<Longrightarrow> reads (expr_rec ps (Suc N) no_env) ks (stops 0) d"
  unfolding expr_rec.simps parse_cond_def by (intro reads_bound) (simp add: lreads_def)

subsection \<open>Trees\<close>

definition good :: "stmt_parser \<Rightarrow> vexpr \<Rightarrow> bool" where
  "good ps e \<longleftrightarrow> (\<forall>l N. l \<le> 14 \<longrightarrow> length (show_at l e) \<le> N \<longrightarrow> lreads ps N l (show_at l e) (denote e))"

lemma good_level: "good ps e \<Longrightarrow> l \<le> 14 \<Longrightarrow> length (show_at l e) \<le> N \<Longrightarrow> lreads ps N l (show_at l e) (denote e)"
  by (simp add: good_def)

lemma good_expr: "good ps e \<Longrightarrow> length (show_at 0 e) < N \<Longrightarrow> reads (expr_rec ps N no_env) (show_at 0 e) (stops 0) (denote e)"
  using expr_reads good_level by (cases N) auto

lemma reads_peek_any:
  assumes "\<And>t. reads (f t) ks F d"
  shows "reads (State_Monad.bind peek_tok f) ks F d"
  using reads_steady [OF assms] readsD [OF assms] by (intro readsI) (auto simp: run_peek simp del: run_state_bind)

lemma atomI:
  assumes "\<And>ks2 F d2. (\<And>v. reads (parse_postfix (expr_rec ps N no_env) v) ks2 F (d2 v)) \<Longrightarrow> (\<And>r. F r \<Longrightarrow> calm (ks2 @ r)) \<Longrightarrow>
    reads (parse_primary ps (expr_rec ps N) no_env) (ks @ ks2) F (State_Monad.bind d d2)"
  shows "lreads ps N 14 ks d"
  using assms by (simp add: lreads_def)

lemma paren_reads:
  assumes "reads (expr_rec ps N no_env) ks (stops 0) d"
  shows "lreads ps N 14 (sy ''('' # ks @ [sy '')'']) d"
proof (rule atomI)
  fix ks2 F d2
  assume post: "\<And>v. reads (parse_postfix (expr_rec ps N no_env) v) ks2 F (d2 v)"
  have "reads (State_Monad.bind (expr_rec ps N no_env) (\<lambda>base. State_Monad.bind (expect_sym '')'' (''expected '' @ quoted '')'')) (\<lambda>_. parse_postfix (expr_rec ps N no_env) base)))
      (ks @ sy '')'' # ks2) F (State_Monad.bind d d2)"
    by (rule reads_bind [OF assms]) (simp_all add: reads_expect post stops_closers(2))
  then have "reads (State_Monad.bind next_tok (\<lambda>_. State_Monad.bind (expr_rec ps N no_env) (\<lambda>base. State_Monad.bind (expect_sym '')'' (''expected '' @ quoted '')''))
      (\<lambda>_. parse_postfix (expr_rec ps N no_env) base)))) (sy ''('' # ks @ sy '')'' # ks2) F (State_Monad.bind d d2)"
    by (rule reads_next) (simp add: sy_def)
  then have "reads (parse_primary ps (expr_rec ps N) no_env) (sy ''('' # ks @ sy '')'' # ks2) F (State_Monad.bind d d2)"
    unfolding parse_primary_def by (intro reads_peek) (auto simp: sy_def is_symbol_tok_def)
  then show "reads (parse_primary ps (expr_rec ps N) no_env) ((sy ''('' # ks @ [sy '')'']) @ ks2) F (State_Monad.bind d d2)" by simp
qed

lemma goodI:
  assumes "wf_vexpr e" "prec e \<le> 14" "\<And>N. length (show_body e) \<le> N \<Longrightarrow> lreads ps N (prec e) (show_body e) (denote e)"
  shows "good ps e"
  unfolding good_def
proof (intro allI impI)
  fix l N
  assume l: "l \<le> 14" "length (show_at l e) \<le> N"
  have body: "lreads ps N l (show_body e) (denote e)" if "l \<le> prec e" "length (show_body e) \<le> N" for l N
    using descend [OF assms(3) [OF that(2)] that(1) assms(2)] show_starts [OF assms(1)] starts_12 by blast
  show "lreads ps N l (show_at l e) (denote e)"
  proof (cases "prec e < l")
    case True
    then have N: "length (show_body e) + 2 \<le> N" using l(2) by (simp add: show_at.simps)
    then obtain M where M: "N = Suc M" "length (show_body e) \<le> M" by (cases N) auto
    have "reads (expr_rec ps N no_env) (show_body e) (stops 0) (denote e)" unfolding M(1) by (rule expr_reads [OF body]) (simp_all add: M)
    then have "lreads ps N l (sy ''('' # show_body e @ [sy '')'']) (denote e)"
      using l(1) by (intro descend [OF paren_reads]) (simp_all add: unary_ops_def)
    then show ?thesis using True by (simp add: show_at.simps)
  qed (use body l in \<open>simp add: show_at.simps\<close>)
qed

lemma good_num: "wf_vexpr (E_num t) \<Longrightarrow> good ps (E_num t)"
proof (rule goodI)
  fix N
  assume "wf_vexpr (E_num t)"
  then obtain bits sg where p: "parse_literal_bits True t = Some (bits, sg)" by auto
  have "lreads ps N 14 [(tk_number, t)] (build (number_value bits sg))"
  proof (rule atomI)
    fix ks2 F d2
    assume post: "\<And>v. reads (parse_postfix (expr_rec ps N no_env) v) ks2 F (d2 v)"
    have "reads (State_Monad.bind next_tok (\<lambda>_. State_Monad.bind (build (number_value bits sg)) (parse_postfix (expr_rec ps N no_env)))) ((tk_number, t) # [] @ ks2) F
        (State_Monad.bind (build (number_value bits sg)) d2)"
      by (rule reads_next, rule reads_bind [OF reads_build [where F = "\<lambda>_. True"]]) (simp_all add: post)
    then show "reads (parse_primary ps (expr_rec ps N) no_env) ([(tk_number, t)] @ ks2) F (State_Monad.bind (build (number_value bits sg)) d2)"
      unfolding parse_primary_def by (simp, intro reads_peek) (auto simp: p)
  qed
  then show "lreads ps N (prec (E_num t)) (show_body (E_num t)) (denote (E_num t))" by (simp add: p)
qed simp_all

lemma env_simps [simp]: "ee_subst no_env x = None" "ee_const no_env x = None" "is_unset unset_value"
  by (simp_all add: no_env_def is_unset_def unset_value_def scalar_value_def)

lemma good_id: "wf_vexpr (E_id x) \<Longrightarrow> good ps (E_id x)"
proof (rule goodI)
  fix N
  assume x: "wf_vexpr (E_id x)"
  let ?e = "expr_rec ps N"
  have "lreads ps N 14 [(tk_identifier, x)] (name_ref x)"
  proof (rule atomI)
    fix ks2 F d2
    assume post: "\<And>v. reads (parse_postfix (?e no_env) v) ks2 F (d2 v)" and calm: "\<And>r. F r \<Longrightarrow> calm (ks2 @ r)"
    have r: "reads (State_Monad.bind (name_ref x) (parse_postfix (?e no_env))) ([] @ ks2) F (State_Monad.bind (name_ref x) d2)"
      by (rule reads_bind [OF reads_keep [OF steady_values(1) keeps_refs(1)]]) (auto simp: post)
    have id: "reads (State_Monad.bind (identifier_value ps (?e no_env) no_env t) (parse_postfix (?e no_env))) ks2 F (State_Monad.bind (name_ref x) d2)"
      if "tk_text t = x" for t
      using that r
      by (simp add: identifier_value_def Let_def, intro reads_bound reads_qual)
         (auto intro!: reads_peek_any reads_no_symbol calm dest!: calm simp: calm_def)
    show "reads (parse_primary ps ?e no_env) ([(tk_identifier, x)] @ ks2) F (State_Monad.bind (name_ref x) d2)"
      unfolding parse_primary_def
    proof (simp, rule reads_peek)
      fix t
      assume "token_key t = (tk_identifier, x)"
      then show "reads (if tk_kind t = tk_identifier
          then State_Monad.bind (if is_cast_type (tk_text t) then parse_cast ?e no_env (tk_text t) else State_Monad.return None)
            (\<lambda>cast. case cast of None \<Rightarrow> State_Monad.bind next_tok (\<lambda>_. State_Monad.bind (system_function (?e no_env) t)
                 (\<lambda>sf. case sf of None \<Rightarrow> State_Monad.bind (identifier_value ps (?e no_env) no_env t) (parse_postfix (?e no_env)) | Some v \<Rightarrow> State_Monad.return v))
             | Some v \<Rightarrow> State_Monad.return v)
          else A t) ((tk_identifier, x) # ks2) F (State_Monad.bind (name_ref x) d2)" for A
        using x id by (auto simp: plain_name_def system_function_def intro!: reads_next)
    qed
  qed
  then show "lreads ps N (prec (E_id x)) (show_body (E_id x)) (denote (E_id x))" by simp
qed simp_all

lemma less_Suc_obtain: "m < n \<Longrightarrow> (\<And>k. n = Suc k \<Longrightarrow> m \<le> k \<Longrightarrow> thesis) \<Longrightarrow> thesis"
  by (cases n) auto

lemma good_un: "wf_vexpr (E_un p e) \<Longrightarrow> good ps e \<Longrightarrow> good ps (E_un p e)"
proof (rule goodI)
  fix N
  assume w: "wf_vexpr (E_un p e)" and g: "good ps e" and N: "length (show_body (E_un p e)) \<le> N"
  let ?p = "parse_primary ps (expr_rec ps N) no_env"
  have "reads (unary_loop n ?p) (sy p # show_at 11 e) (stops 11) (denote (E_un p e))" if n: "length (sy p # show_at 11 e) < n" for n
  proof -
    obtain k where k: "n = Suc k" "length (show_at 11 e) < k" using n by (cases n) auto
    have r: "reads (unary_loop k ?p) (show_at 11 e) (stops 11) (denote e)"
      using good_level [OF g, of 11 N] N k(2) by (simp add: lreads_def)
    have b: "reads (State_Monad.bind (unary_loop k ?p) (\<lambda>a. build (op_of unary_ops p a))) (show_at 11 e @ []) (stops 11) (denote (E_un p e))"
      unfolding denote.simps by (rule reads_bind [OF r reads_build]) simp
    show ?thesis unfolding k(1) unary_loop.simps
      by (rule reads_op [OF unary_distinct]) (use w b in simp_all)
  qed
  then show "lreads ps N (prec (E_un p e)) (show_body (E_un p e)) (denote (E_un p e))" by (simp add: lreads_def)
qed simp_all

lemma good_pow: "wf_vexpr (E_pow a b) \<Longrightarrow> good ps a \<Longrightarrow> good ps b \<Longrightarrow> good ps (E_pow a b)"
proof (rule goodI)
  fix N
  assume g: "good ps a" "good ps b" and N: "length (show_body (E_pow a b)) \<le> N"
  let ?p = "parse_primary ps (expr_rec ps N) no_env"
  have "reads (power_loop n ?p) (show_at 13 a @ sy ''**'' # show_at 12 b) (stops 12) (denote (E_pow a b))" if n: "length (show_at 13 a @ sy ''**'' # show_at 12 b) < n" for n
  proof -
    obtain k where k: "n = Suc k" "length (show_at 12 b) < k" using n by (cases n) auto
    have ra: "reads ?p (show_at 13 a) (stops 13) (denote a)" using good_level [OF g(1), of 13 N] N by (simp add: lreads_def)
    have rb: "reads (power_loop k ?p) (show_at 12 b) (stops 12) (denote b)" using good_level [OF g(2), of 12 N] N k(2) by (simp add: lreads_def)
    have t: "reads (State_Monad.bind (power_loop k ?p) (\<lambda>y. build (arith_pow x y))) (show_at 12 b @ []) (stops 12) (State_Monad.bind (denote b) (\<lambda>y. build (arith_pow x y)))" for x
      by (rule reads_bind [OF rb reads_build]) simp
    have u: "reads (State_Monad.bind (symbol ''**'') (\<lambda>q. if q then State_Monad.bind (power_loop k ?p) (\<lambda>y. build (arith_pow x y)) else State_Monad.return x))
        (sy ''**'' # show_at 12 b) (stops 12) (State_Monad.bind (denote b) (\<lambda>y. build (arith_pow x y)))" for x
      using t by (intro reads_symbol) simp
    show ?thesis unfolding k(1) power_loop.simps denote.simps by (rule reads_bind [OF ra u]) (simp add: stops_closers(10))
  qed
  then show "lreads ps N (prec (E_pow a b)) (show_body (E_pow a b)) (denote (E_pow a b))" by (simp add: lreads_def)
qed simp_all

lemma good_cond: "wf_vexpr (E_cond c t f) \<Longrightarrow> good ps c \<Longrightarrow> good ps t \<Longrightarrow> good ps f \<Longrightarrow> good ps (E_cond c t f)"
proof (rule goodI)
  fix N
  assume w: "wf_vexpr (E_cond c t f)" and g: "good ps c" "good ps t" "good ps f" and N: "length (show_body (E_cond c t f)) \<le> N"
  let ?p = "parse_primary ps (expr_rec ps N) no_env"
  have "reads (cond_loop n ?p) (show_body (E_cond c t f)) (stops 0) (denote (E_cond c t f))" if n: "length (show_body (E_cond c t f)) < n" for n
  proof -
    obtain k where k: "n = Suc k" "length (show_at 0 t) < k" "length (show_at 0 f) < k" using n by (cases n) auto
    have rc: "reads (parse_lor ?p) (show_at 1 c) (stops 1) (denote c)" using good_level [OF g(1), of 1 N] N by (simp add: lreads_def level_parser_def)
    have rt: "reads (cond_loop k ?p) (show_at 0 t) (stops 0) (denote t)" using good_level [OF g(2), of 0 N] N k(2) by (simp add: lreads_def)
    have rf: "reads (cond_loop k ?p) (show_at 0 f) (stops 0) (denote f)" using good_level [OF g(3), of 0 N] N k(3) by (simp add: lreads_def)
    have 1: "reads (State_Monad.bind (cond_loop k ?p) (\<lambda>z. build (make_conditional x y z))) (show_at 0 f @ []) (stops 0)
        (State_Monad.bind (denote f) (\<lambda>z. build (make_conditional x y z)))" for x y
      by (rule reads_bind [OF rf reads_build]) simp
    have h: "show_at 0 f \<noteq> []" "hd (show_at 0 f) \<noteq> sy '':''" using show_at_starts [of f 0] starts_not [of 0 _ "'':''"] w by auto
    have 2: "reads (State_Monad.bind (cond_loop k ?p) (\<lambda>y. State_Monad.bind (expect_sym '':'' msg) (\<lambda>_. State_Monad.bind (cond_loop k ?p) (\<lambda>z. build (make_conditional x y z)))))
        (show_at 0 t @ sy '':'' # show_at 0 f) (stops 0) (State_Monad.bind (denote t) (\<lambda>y. State_Monad.bind (denote f) (\<lambda>z. build (make_conditional x y z))))" for x msg
      by (rule reads_bind [OF rt reads_expect]) (use 1 h in \<open>simp_all add: stops_colon stops_closers(8)\<close>)
    have 3: "reads (State_Monad.bind (symbol ''?'') (\<lambda>q. if \<not> q then State_Monad.return x else
          State_Monad.bind (cond_loop k ?p) (\<lambda>y. State_Monad.bind (expect_sym '':'' msg) (\<lambda>_. State_Monad.bind (cond_loop k ?p) (\<lambda>z. build (make_conditional x y z))))))
        (sy ''?'' # show_at 0 t @ sy '':'' # show_at 0 f) (stops 0) (State_Monad.bind (denote t) (\<lambda>y. State_Monad.bind (denote f) (\<lambda>z. build (make_conditional x y z))))" for x msg
      using 2 by (intro reads_symbol) simp
    show ?thesis unfolding k(1) cond_loop.simps denote.simps show_body.simps by (rule reads_bind [OF rc 3]) (simp add: stops_closers(9))
  qed
  then show "lreads ps N (prec (E_cond c t f)) (show_body (E_cond c t f)) (denote (E_cond c t f))" by (simp add: lreads_def)
qed simp_all

text \<open>The rest of a chain.\<close>

definition good_tail :: "stmt_parser \<Rightarrow> vtail \<Rightarrow> bool" where
  "good_tail ps t \<longleftrightarrow> (\<forall>k N n v. 1 \<le> k \<longrightarrow> k \<le> 10 \<longrightarrow> wf_tail (map fst (level_ops k)) t \<longrightarrow> length (show_tail (Suc k) t) \<le> N \<longrightarrow> length (show_tail (Suc k) t) < n \<longrightarrow>
     reads (op_loop n (level_ops k) (level_parser (Suc k) (parse_primary ps (expr_rec ps N) no_env)) v) (show_tail (Suc k) t) (stops k) (denote_tail k t v))"

lemma tail_stops:
  assumes "1 \<le> k" "k \<le> 10" "wf_tail (map fst (level_ops k)) t" "stops k r"
  shows "stops (Suc k) (show_tail (Suc k) t @ r)"
proof (cases t)
  case (T_op p e u)
  then have "p \<notin> set (cont (Suc k))" "p \<noteq> '':''" using assms(3) op_not_cont [OF assms(1,2)] by (auto simp: list_all_iff)
  then show ?thesis using T_op by (simp add: stops_sy)
qed (use assms(4) stops_mono in simp)

lemma good_tail_end: "good_tail ps T_end"
  unfolding good_tail_def
proof (intro allI impI)
  fix k N n :: nat and v
  assume k: "1 \<le> k" "k \<le> 10" and n: "length (show_tail (Suc k) T_end) < n"
  obtain m where m: "n = Suc m" using n by (cases n) auto
  have "stops k r \<Longrightarrow> list_all (\<lambda>t. hd ([] @ r) \<noteq> sy t) (map fst (level_ops k))" for r
    using level_ops_cont [OF k] stops_not by (fastforce simp: list_all_iff)
  then show "reads (op_loop n (level_ops k) (level_parser (Suc k) (parse_primary ps (expr_rec ps N) no_env)) v) (show_tail (Suc k) T_end) (stops k) (denote_tail k T_end v)"
    unfolding m op_loop.simps by (simp, intro reads_no_op) (simp_all add: reads_return)
qed

lemma good_tail_op:
  assumes "good ps e" "good_tail ps t"
  shows "good_tail ps (T_op p e t)"
  unfolding good_tail_def
proof (intro allI impI)
  fix k N n v
  let ?q = "level_parser (Suc k) (parse_primary ps (expr_rec ps N) no_env)"
  assume k: "1 \<le> k" "k \<le> 10" and w: "wf_tail (map fst (level_ops k)) (T_op p e t)"
    and N: "length (show_tail (Suc k) (T_op p e t)) \<le> N" and n: "length (show_tail (Suc k) (T_op p e t)) < n"
  obtain m where m: "n = Suc m" "length (show_tail (Suc k) t) < m" using n by (cases n) auto
  have re: "reads ?q (show_at (Suc k) e) (stops (Suc k)) (denote e)"
    using lreads_operand [OF good_level [OF assms(1), of "Suc k" N] k] N k by simp
  have rt: "reads (op_loop m (level_ops k) ?q x) (show_tail (Suc k) t) (stops k) (denote_tail k t x)" for x
    using assms(2) k w N m(2) unfolding good_tail_def by auto
  have "reads (State_Monad.bind (build (op_of (level_ops k) p v x)) (\<lambda>x. op_loop m (level_ops k) ?q x)) ([] @ show_tail (Suc k) t) (stops k)
      (State_Monad.bind (build (op_of (level_ops k) p v x)) (\<lambda>w. denote_tail k t w))" for x
    by (rule reads_bind [OF reads_build rt, where ?F1.0 = "\<lambda>_. True"]) simp
  then have b: "reads (State_Monad.bind (build (op_of (level_ops k) p v x)) (op_loop m (level_ops k) ?q)) (show_tail (Suc k) t) (stops k)
      (State_Monad.bind (build (op_of (level_ops k) p v x)) (denote_tail k t))" for x by simp
  have "reads (State_Monad.bind ?q (\<lambda>x. State_Monad.bind (build (op_of (level_ops k) p v x)) (op_loop m (level_ops k) ?q))) (show_at (Suc k) e @ show_tail (Suc k) t) (stops k)
      (denote_tail k (T_op p e t) v)"
    unfolding denote_tail.simps by (rule reads_bind [OF re b]) (use tail_stops [OF k] w in simp)
  then show "reads (op_loop n (level_ops k) ?q v) (show_tail (Suc k) (T_op p e t)) (stops k) (denote_tail k (T_op p e t) v)"
    unfolding m(1) op_loop.simps show_tail.simps by (intro reads_op [OF level_distinct [OF k]]) (use w in simp_all)
qed

lemma good_chain: "wf_vexpr (E_chain k e t) \<Longrightarrow> good ps e \<Longrightarrow> good_tail ps t \<Longrightarrow> good ps (E_chain k e t)"
proof (rule goodI)
  fix N
  assume w: "wf_vexpr (E_chain k e t)" and g: "good ps e" "good_tail ps t" and N: "length (show_body (E_chain k e t)) \<le> N"
  let ?q = "level_parser (Suc k) (parse_primary ps (expr_rec ps N) no_env)"
  have k: "1 \<le> k" "k \<le> 10" using w by simp_all
  have re: "reads ?q (show_at (Suc k) e) (stops (Suc k)) (denote e)"
    using lreads_operand [OF good_level [OF g(1), of "Suc k" N] k] N k by simp
  have rt: "reads (State_Monad.bind token_bound (\<lambda>n. op_loop n (level_ops k) ?q v)) (show_tail (Suc k) t) (stops k) (denote_tail k t v)" for v
    using g(2) k w N unfolding good_tail_def by (intro reads_bound) simp
  have "reads (level_parser k (parse_primary ps (expr_rec ps N) no_env)) (show_body (E_chain k e t)) (stops k) (denote (E_chain k e t))"
    unfolding level_parser_step [OF k] left_assoc_def denote.simps show_body.simps by (rule reads_bind [OF re rt]) (use tail_stops [OF k] w in simp)
  then show "lreads ps N (prec (E_chain k e t)) (show_body (E_chain k e t)) (denote (E_chain k e t))" using k by (simp add: lreads_def)
qed simp_all

subsection \<open>Selects\<close>

definition good_sels :: "stmt_parser \<Rightarrow> vsel \<Rightarrow> bool" where
  "good_sels ps x \<longleftrightarrow> (\<forall>N n v. wf_sels x \<longrightarrow> length (show_sels x) \<le> N \<longrightarrow> length (show_sels x) < n \<longrightarrow>
     reads (postfix_loop n (expr_rec ps N no_env) v) (show_sels x) (stops 13) (denote_sels x v))"

lemma good_sels_end: "good_sels ps S_end"
  unfolding good_sels_def
proof (intro allI impI)
  fix N n :: nat and v
  assume "length (show_sels S_end) < n"
  then obtain m where m: "n = Suc m" by (cases n) auto
  show "reads (postfix_loop n (expr_rec ps N no_env) v) (show_sels S_end) (stops 13) (denote_sels S_end v)"
    unfolding m postfix_loop.simps by (simp, intro reads_no_symbol) (simp_all add: reads_return stops_not [OF _ cont_base(1)])
qed

text \<open>After the first index: the closing bracket, the builder, and the other selects.\<close>

lemma sel_rest:
  assumes "\<And>v. reads (post v) ks (stops 13) (d v)"
  shows "reads (State_Monad.bind (expect_sym '']'' msg) (\<lambda>_. State_Monad.bind (build b) post)) (sy '']'' # ks) (stops 13) (State_Monad.bind (build b) d)"
proof (rule reads_expect)
  have "reads (State_Monad.bind (build b) post) ([] @ ks) (stops 13) (State_Monad.bind (build b) d)"
    by (rule reads_bind [OF reads_build assms, where ?F1.0 = "\<lambda>_. True"]) simp
  then show "reads (State_Monad.bind (build b) post) ks (stops 13) (State_Monad.bind (build b) d)" by simp
qed

lemma sel_two:
  assumes "reads expr (show_at 0 b) (stops 0) (denote b)" "\<And>v. reads (post v) ks (stops 13) (d v)"
  shows "reads (State_Monad.bind expr (\<lambda>y. State_Monad.bind (expect_sym '']'' msg) (\<lambda>_. State_Monad.bind (build (h y)) post)))
     (show_at 0 b @ sy '']'' # ks) (stops 13) (State_Monad.bind (denote b) (\<lambda>y. State_Monad.bind (build (h y)) d))"
  by (rule reads_bind [OF assms(1) sel_rest [OF assms(2)]]) (simp add: stops_closers(1))

lemma good_sels_step:
  assumes "good_sels ps x" "wf_sels x" "length (show_sels x) \<le> N" "length (show_sels x) < n"
  shows "reads (postfix_loop n (expr_rec ps N no_env) v) (show_sels x) (stops 13) (denote_sels x v)"
  using assms by (simp add: good_sels_def)

lemma good_sels_bit:
  assumes "good ps i" "good_sels ps x"
  shows "good_sels ps (S_bit i x)"
  unfolding good_sels_def
proof (intro allI impI)
  fix N n v
  assume w: "wf_sels (S_bit i x)" and N: "length (show_sels (S_bit i x)) \<le> N" and n: "length (show_sels (S_bit i x)) < n"
  obtain m where m: "n = Suc m" "length (show_sels x) < m" using n by (cases n) auto
  have ri: "reads (expr_rec ps N no_env) (show_at 0 i) (stops 0) (denote i)" using good_expr [OF assms(1)] N by simp
  have rx: "reads (postfix_loop m (expr_rec ps N no_env) v) (show_sels x) (stops 13) (denote_sels x v)" for v
    using good_sels_step [OF assms(2)] w N m(2) by simp
  note rest = sel_rest [OF rx]
  show "reads (postfix_loop n (expr_rec ps N no_env) v) (show_sels (S_bit i x)) (stops 13) (denote_sels (S_bit i x) v)"
    unfolding m(1) postfix_loop.simps show_sels.simps denote_sels.simps
    by (rule reads_symbol, simp, rule reads_bind [OF ri])
       (rule reads_no_symbol, simp, rule reads_no_symbol, simp, rule reads_no_symbol, simp_all add: rest stops_closers(1))
qed

lemma good_sels_part:
  assumes "good ps a" "good ps b" "good_sels ps x"
  shows "good_sels ps (S_part a b x)"
  unfolding good_sels_def
proof (intro allI impI)
  fix N n v
  assume w: "wf_sels (S_part a b x)" and N: "length (show_sels (S_part a b x)) \<le> N" and n: "length (show_sels (S_part a b x)) < n"
  obtain m where m: "n = Suc m" "length (show_sels x) < m" using n by (cases n) auto
  have ra: "reads (expr_rec ps N no_env) (show_at 0 a) (stops 0) (denote a)" using good_expr [OF assms(1)] N by simp
  have rb: "reads (expr_rec ps N no_env) (show_at 0 b) (stops 0) (denote b)" using good_expr [OF assms(2)] N by simp
  have rx: "reads (postfix_loop m (expr_rec ps N no_env) v) (show_sels x) (stops 13) (denote_sels x v)" for v
    using good_sels_step [OF assms(3)] w N m(2) by simp
  note rest = sel_two [OF rb rx]
  have h: "show_at 0 b \<noteq> []" "hd (show_at 0 b) \<noteq> sy '':''" using show_at_starts [of b 0] starts_not [of 0 _ "'':''"] w by auto
  show "reads (postfix_loop n (expr_rec ps N no_env) v) (show_sels (S_part a b x)) (stops 13) (denote_sels (S_part a b x) v)"
    unfolding m(1) postfix_loop.simps show_sels.simps denote_sels.simps
    by (rule reads_symbol, simp, rule reads_bind [OF ra])
       (rule reads_no_symbol, simp, rule reads_no_symbol, simp, rule reads_symbol, simp_all add: rest h stops_colon stops_closers(8))
qed

lemma good_sels_up:
  assumes "good ps a" "good ps b" "good_sels ps x"
  shows "good_sels ps (S_up a b x)"
  unfolding good_sels_def
proof (intro allI impI)
  fix N n v
  assume w: "wf_sels (S_up a b x)" and N: "length (show_sels (S_up a b x)) \<le> N" and n: "length (show_sels (S_up a b x)) < n"
  obtain m where m: "n = Suc m" "length (show_sels x) < m" using n by (cases n) auto
  have ra: "reads (expr_rec ps N no_env) (show_at 0 a) (stops 0) (denote a)" using good_expr [OF assms(1)] N by simp
  have rb: "reads (expr_rec ps N no_env) (show_at 0 b) (stops 0) (denote b)" using good_expr [OF assms(2)] N by simp
  have rx: "reads (postfix_loop m (expr_rec ps N no_env) v) (show_sels x) (stops 13) (denote_sels x v)" for v
    using good_sels_step [OF assms(3)] w N m(2) by simp
  show "reads (postfix_loop n (expr_rec ps N no_env) v) (show_sels (S_up a b x)) (stops 13) (denote_sels (S_up a b x) v)"
    unfolding m(1) postfix_loop.simps show_sels.simps denote_sels.simps
    by (rule reads_symbol, simp, rule reads_bind [OF ra])
       (rule reads_symbol, simp_all add: sel_two [OF rb rx] stops_closers)
qed

lemma good_sels_down:
  assumes "good ps a" "good ps b" "good_sels ps x"
  shows "good_sels ps (S_down a b x)"
  unfolding good_sels_def
proof (intro allI impI)
  fix N n v
  assume w: "wf_sels (S_down a b x)" and N: "length (show_sels (S_down a b x)) \<le> N" and n: "length (show_sels (S_down a b x)) < n"
  obtain m where m: "n = Suc m" "length (show_sels x) < m" using n by (cases n) auto
  have ra: "reads (expr_rec ps N no_env) (show_at 0 a) (stops 0) (denote a)" using good_expr [OF assms(1)] N by simp
  have rb: "reads (expr_rec ps N no_env) (show_at 0 b) (stops 0) (denote b)" using good_expr [OF assms(2)] N by simp
  have rx: "reads (postfix_loop m (expr_rec ps N no_env) v) (show_sels x) (stops 13) (denote_sels x v)" for v
    using good_sels_step [OF assms(3)] w N m(2) by simp
  show "reads (postfix_loop n (expr_rec ps N no_env) v) (show_sels (S_down a b x)) (stops 13) (denote_sels (S_down a b x) v)"
    unfolding m(1) postfix_loop.simps show_sels.simps denote_sels.simps
    by (rule reads_symbol, simp, rule reads_bind [OF ra])
       (rule reads_no_symbol, simp, rule reads_symbol, simp_all add: sel_two [OF rb rx] stops_closers)
qed

lemma sels_calm: "F = stops 13 \<Longrightarrow> F r \<Longrightarrow> calm (show_sels x @ r)"
  using stops_calm by (cases x) (auto simp: calm_def numeral_2_eq_2)

lemma good_sel: "wf_vexpr (E_sel e x) \<Longrightarrow> good ps e \<Longrightarrow> good_sels ps x \<Longrightarrow> good ps (E_sel e x)"
proof (rule goodI)
  fix N
  assume w: "wf_vexpr (E_sel e x)" and g: "good ps e" "good_sels ps x" and N: "length (show_body (E_sel e x)) \<le> N"
  have rx: "reads (parse_postfix (expr_rec ps N no_env) v) (show_sels x) (stops 13) (denote_sels x v)" for v
    unfolding parse_postfix_def using good_sels_step [OF g(2)] w N by (intro reads_bound) simp
  have "lreads ps N 14 (show_at 14 e) (denote e)" using good_level [OF g(1), of 14 N] N by simp
  then have "reads (parse_primary ps (expr_rec ps N) no_env) (show_at 14 e @ show_sels x) (stops 13) (State_Monad.bind (denote e) (denote_sels x))"
    using rx sels_calm [OF refl] unfolding lreads_def by simp
  then show "lreads ps N (prec (E_sel e x)) (show_body (E_sel e x)) (denote (E_sel e x))" by (simp add: lreads_def)
qed simp_all

subsection \<open>Concatenations\<close>

definition closed :: "key list \<Rightarrow> bool" where
  "closed r \<longleftrightarrow> (\<exists>r'. r = sy ''}'' # r')"

definition good_items :: "stmt_parser \<Rightarrow> vtail \<Rightarrow> bool" where
  "good_items ps t \<longleftrightarrow> (\<forall>N n bits. wf_tail ['',''] t \<longrightarrow> length (show_tail 0 t) \<le> N \<longrightarrow> length (show_tail 0 t) \<le> n \<longrightarrow>
     reads (State_Monad.bind (symbol '','') (\<lambda>c. if c then items_loop n (expr_rec ps N no_env) bits else State_Monad.return bits))
       (show_tail 0 t) closed (denote_items t bits))"

lemma items_stop: "wf_tail ['',''] t \<Longrightarrow> closed r \<Longrightarrow> stops l (show_tail 0 t @ r)"
  by (cases t) (auto simp: closed_def stops_closers)

lemma items_reads:
  assumes "good ps e" "good_items ps t" "wf_tail ['',''] t" "length (show_at 0 e @ show_tail 0 t) < N" "length (show_at 0 e @ show_tail 0 t) < n"
  shows "reads (items_loop n (expr_rec ps N no_env) bits) (show_at 0 e @ show_tail 0 t) closed (State_Monad.bind (denote e) (\<lambda>v. denote_items t (bits @ value_bits v)))"
proof -
  obtain m where m: "n = Suc m" "length (show_tail 0 t) \<le> m" using assms(5) by (cases n) auto
  have re: "reads (expr_rec ps N no_env) (show_at 0 e) (stops 0) (denote e)" using good_expr [OF assms(1)] assms(4) by simp
  have rt: "reads (State_Monad.bind (symbol '','') (\<lambda>c. if c then items_loop m (expr_rec ps N no_env) (bits @ value_bits v) else State_Monad.return (bits @ value_bits v)))
      (show_tail 0 t) closed (denote_items t (bits @ value_bits v))" for v
    using assms(2-4) m(2) unfolding good_items_def by simp
  show ?thesis unfolding m(1) items_loop.simps by (rule reads_bind [OF re rt]) (rule items_stop [OF assms(3)])
qed

lemma good_items_end: "good_items ps T_end"
  unfolding good_items_def by (auto simp: closed_def intro!: reads_no_symbol reads_return)

lemma good_items_op:
  assumes "good ps e" "good_items ps t"
  shows "good_items ps (T_op p e t)"
  unfolding good_items_def
proof (intro allI impI)
  fix N n bits
  assume w: "wf_tail ['',''] (T_op p e t)" and N: "length (show_tail 0 (T_op p e t)) \<le> N" and n: "length (show_tail 0 (T_op p e t)) \<le> n"
  have "reads (items_loop n (expr_rec ps N no_env) bits) (show_at 0 e @ show_tail 0 t) closed (denote_items (T_op p e t) bits)"
    unfolding denote_items.simps using w N n by (intro items_reads [OF assms]) simp_all
  then show "reads (State_Monad.bind (symbol '','') (\<lambda>c. if c then items_loop n (expr_rec ps N no_env) bits else State_Monad.return bits))
      (show_tail 0 (T_op p e t)) closed (denote_items (T_op p e t) bits)"
    using w by (simp, intro reads_symbol) simp
qed

lemma brace_atom:
  assumes "reads (parse_concat (expr_rec ps N no_env)) ks (\<lambda>_. True) d"
  shows "lreads ps N 14 (sy ''{'' # ks) d"
proof (rule atomI)
  fix ks2 F d2
  assume post: "\<And>v. reads (parse_postfix (expr_rec ps N no_env) v) ks2 F (d2 v)"
  have "reads (State_Monad.bind (parse_concat (expr_rec ps N no_env)) (parse_postfix (expr_rec ps N no_env))) (ks @ ks2) F (State_Monad.bind d d2)"
    by (rule reads_bind [OF assms post]) simp
  then have "reads (State_Monad.bind next_tok (\<lambda>_. State_Monad.bind (parse_concat (expr_rec ps N no_env)) (parse_postfix (expr_rec ps N no_env)))) (sy ''{'' # ks @ ks2) F
      (State_Monad.bind d d2)"
    by (rule reads_next) (simp add: sy_def)
  then have "reads (parse_primary ps (expr_rec ps N) no_env) (sy ''{'' # ks @ ks2) F (State_Monad.bind d d2)"
    unfolding parse_primary_def by (intro reads_peek) (auto simp: sy_def is_symbol_tok_def)
  then show "reads (parse_primary ps (expr_rec ps N) no_env) ((sy ''{'' # ks) @ ks2) F (State_Monad.bind d d2)" by simp
qed

text \<open>After the brace comes an expression, which starts with none of the tokens tried first.\<close>

lemma concat_first:
  assumes "wf_vexpr e" "reads expr (show_at 0 e) (stops 0) (denote e)"
    "\<And>v. reads (State_Monad.bind (symbol ''{'') (\<lambda>b. if b then parse_replication expr v else parse_concat_rest expr v)) ks F (d v)" "\<And>r. F r \<Longrightarrow> stops 0 (ks @ r)"
  shows "reads (parse_concat expr) (show_at 0 e @ ks) F (State_Monad.bind (denote e) d)"
proof -
  have h: "show_at 0 e \<noteq> []" "starts 0 (hd (show_at 0 e))" using show_at_starts [OF assms(1)] by auto
  have n: "hd ((show_at 0 e @ ks) @ r) \<noteq> sy p" if "p \<in> {''}'', ''<<'', ''>>''}" for p r using h starts_not [OF h(2), of p] that by auto
  have r: "reads (State_Monad.bind expr (\<lambda>v. State_Monad.bind (symbol ''{'') (\<lambda>b. if b then parse_replication expr v else parse_concat_rest expr v))) (show_at 0 e @ ks) F (State_Monad.bind (denote e) d)"
    by (rule reads_bind [OF assms(2,3)]) (rule assms(4))
  have s: "reads (State_Monad.bind (symbol ''>>'') (\<lambda>r. if r then parse_streaming expr else
      State_Monad.bind expr (\<lambda>v. State_Monad.bind (symbol ''{'') (\<lambda>b. if b then parse_replication expr v else parse_concat_rest expr v)))) (show_at 0 e @ ks) F (State_Monad.bind (denote e) d)"
    using r by (intro reads_no_symbol n) simp_all
  show ?thesis unfolding parse_concat_def
    by (rule reads_no_symbol, simp, rule reads_no_symbol, simp) (use s n in simp_all)
qed

lemma run_token_bound: "run_state token_bound s = (Suc (length (ps_toks (pt_parser s))), s)"
  by (simp add: token_bound_def on_parser_def)

lemma advance_toks: "ps_toks (pt_parser (advance s)) = ps_toks (pt_parser s)"
  by (simp add: advance_def consume_def)

lemma items_bound:
  assumes "good_items ps t" "wf_tail ['',''] t" "length (show_tail 0 t) \<le> N"
  shows "reads (State_Monad.bind (symbol '','') (\<lambda>c. if c then State_Monad.bind token_bound (\<lambda>n. items_loop n (expr_rec ps N no_env) bits) else State_Monad.return bits))
    (show_tail 0 t) closed (denote_items t bits)"
proof (rule reads_cong)
  show "reads (State_Monad.bind token_bound (\<lambda>n. State_Monad.bind (symbol '','') (\<lambda>c. if c then items_loop n (expr_rec ps N no_env) bits else State_Monad.return bits)))
      (show_tail 0 t) closed (denote_items t bits)"
    using assms unfolding good_items_def by (intro reads_bound) simp
  fix s r
  assume "state_ok s"
  then show "run_state (State_Monad.bind (symbol '','') (\<lambda>c. if c then State_Monad.bind token_bound (\<lambda>n. items_loop n (expr_rec ps N no_env) bits) else State_Monad.return bits)) s =
      run_state (State_Monad.bind token_bound (\<lambda>n. State_Monad.bind (symbol '','') (\<lambda>c. if c then items_loop n (expr_rec ps N no_env) bits else State_Monad.return bits))) s"
    by (simp add: run_symbol run_token_bound advance_toks del: items_loop.simps)
qed

lemma good_cat: "wf_vexpr (E_cat e t) \<Longrightarrow> good ps e \<Longrightarrow> good_items ps t \<Longrightarrow> good ps (E_cat e t)"
proof (rule goodI)
  fix N
  assume w: "wf_vexpr (E_cat e t)" and g: "good ps e" "good_items ps t" and N: "length (show_body (E_cat e t)) \<le> N"
  let ?e = "expr_rec ps N no_env" and ?c = "''expected '' @ quoted ''}''"
  have re: "reads ?e (show_at 0 e) (stops 0) (denote e)" using good_expr [OF g(1)] N by simp
  have close: "reads (State_Monad.bind (expect_sym ''}'' ?c) (\<lambda>_. concat_value bits)) [sy ''}''] (\<lambda>_. True) (concat_value bits)" for bits
    by (rule reads_expect) (rule reads_keep [OF steady_values(2) keeps_values(1)])
  have rest: "reads (parse_concat_rest ?e v) (show_tail 0 t @ [sy ''}'']) (\<lambda>_. True) (State_Monad.bind (denote_items t (value_bits v)) concat_value)" for v
  proof -
    have "reads (State_Monad.bind (State_Monad.bind (symbol '','') (\<lambda>c. if c then State_Monad.bind token_bound (\<lambda>n. items_loop n ?e (value_bits v)) else State_Monad.return (value_bits v)))
        (\<lambda>bits. State_Monad.bind (expect_sym ''}'' ?c) (\<lambda>_. concat_value bits))) (show_tail 0 t @ [sy ''}'']) (\<lambda>_. True) (State_Monad.bind (denote_items t (value_bits v)) concat_value)"
      using w N by (intro reads_bind [OF items_bound [OF g(2)] close]) (simp_all add: closed_def)
    then show ?thesis by (simp add: parse_concat_rest_def)
  qed
  have "reads (parse_concat ?e) (show_at 0 e @ show_tail 0 t @ [sy ''}'']) (\<lambda>_. True) (denote (E_cat e t))"
    unfolding denote.simps
  proof (rule concat_first [OF _ re])
    show "reads (State_Monad.bind (symbol ''{'') (\<lambda>b. if b then parse_replication ?e v else parse_concat_rest ?e v)) (show_tail 0 t @ [sy ''}'']) (\<lambda>_. True)
        (State_Monad.bind (denote_items t (value_bits v)) concat_value)" for v
      using rest [of v] w by (intro reads_no_symbol) (simp, cases t, simp_all)
    show "stops 0 ((show_tail 0 t @ [sy ''}'']) @ r)" for r using w items_stop [of t "sy ''}'' # r" 0] by (simp add: closed_def)
  qed (use w in simp)
  then show "lreads ps N (prec (E_cat e t)) (show_body (E_cat e t)) (denote (E_cat e t))" using brace_atom by simp
qed simp_all

lemma good_rep: "wf_vexpr (E_rep c e t) \<Longrightarrow> good ps c \<Longrightarrow> good ps e \<Longrightarrow> good_items ps t \<Longrightarrow> good ps (E_rep c e t)"
proof (rule goodI)
  fix N
  assume w: "wf_vexpr (E_rep c e t)" and g: "good ps c" "good ps e" "good_items ps t" and N: "length (show_body (E_rep c e t)) \<le> N"
  let ?e = "expr_rec ps N no_env" and ?c = "''expected '' @ quoted ''}''"
  let ?ks = "show_at 0 e @ show_tail 0 t"
  have rc: "reads ?e (show_at 0 c) (stops 0) (denote c)" using good_expr [OF g(1)] N by simp
  have h: "show_at 0 e \<noteq> []" "starts 0 (hd (show_at 0 e))" using show_at_starts [of e] w by auto
  have items: "reads (State_Monad.bind token_bound (\<lambda>n. items_loop n ?e [])) ?ks closed (State_Monad.bind (denote e) (\<lambda>v. denote_items t (value_bits v)))"
    using items_reads [OF g(2,3), of N _ "[]"] w N by (intro reads_bound) simp
  have "reads (State_Monad.bind (State_Monad.bind token_bound (\<lambda>n. items_loop n ?e [])) (\<lambda>bits. State_Monad.bind (expect_sym ''}'' ?c) (\<lambda>_. State_Monad.return bits)))
      (?ks @ [sy ''}'']) (\<lambda>_. True) (State_Monad.bind (State_Monad.bind (denote e) (\<lambda>v. denote_items t (value_bits v))) State_Monad.return)"
    by (rule reads_bind [OF items]) (simp_all add: reads_expect reads_return closed_def)
  then have braces: "reads (parse_concat_items_until_rbrace ?e) (?ks @ [sy ''}'']) (\<lambda>_. True) (State_Monad.bind (denote e) (\<lambda>v. denote_items t (value_bits v)))"
    unfolding parse_concat_items_until_rbrace_def using h starts_not [OF h(2), of "''}''"] by (intro reads_no_symbol) simp_all
  have close: "reads (State_Monad.bind (expect_sym ''}'' ?c) (\<lambda>_. replicate_value k bits)) [sy ''}''] (\<lambda>_. True) (replicate_value k bits)" for k bits
    by (rule reads_expect) (rule reads_keep [OF steady_values(4) keeps_values(3)])
  have inner: "reads (State_Monad.bind (parse_concat_items_until_rbrace ?e) (\<lambda>bits. State_Monad.bind (expect_sym ''}'' ?c) (\<lambda>_. replicate_value k bits)))
      ((?ks @ [sy ''}'']) @ [sy ''}'']) (\<lambda>_. True) (State_Monad.bind (State_Monad.bind (denote e) (\<lambda>v. denote_items t (value_bits v))) (replicate_value k))" for k
    by (rule reads_bind [OF braces close]) simp
  have rest: "reads (parse_replication ?e v) ([] @ (?ks @ [sy ''}'']) @ [sy ''}'']) (\<lambda>_. True)
      (State_Monad.bind (replication_count v) (\<lambda>k. State_Monad.bind (State_Monad.bind (denote e) (\<lambda>v. denote_items t (value_bits v))) (replicate_value k)))" for v
    unfolding parse_replication_def
    by (rule reads_bind [OF reads_keep [OF steady_values(3) keeps_values(2), where F = "\<lambda>_. True"] inner]) simp
  have "reads (parse_concat ?e) (show_at 0 c @ sy ''{'' # show_at 0 e @ show_tail 0 t @ [sy ''}'', sy ''}'']) (\<lambda>_. True) (denote (E_rep c e t))"
    unfolding denote.simps
  proof (rule concat_first [OF _ rc])
    show "reads (State_Monad.bind (symbol ''{'') (\<lambda>b. if b then parse_replication ?e v else parse_concat_rest ?e v)) (sy ''{'' # show_at 0 e @ show_tail 0 t @ [sy ''}'', sy ''}'']) (\<lambda>_. True)
        (State_Monad.bind (replication_count v) (\<lambda>k. State_Monad.bind (denote e) (\<lambda>v. State_Monad.bind (denote_items t (value_bits v)) (replicate_value k))))" for v
      using rest [of v] by (intro reads_symbol) simp
  qed (use w in \<open>simp_all add: stops_closers\<close>)
  then show "lreads ps N (prec (E_rep c e t)) (show_body (E_rep c e t)) (denote (E_rep c e t))" using brace_atom by simp
qed simp_all

subsection \<open>All trees\<close>

lemma all_good:
  "wf_vexpr e \<longrightarrow> good ps e"
  "(\<forall>qs. wf_tail qs t \<longrightarrow> good_tail ps t \<and> good_items ps t)"
  "wf_sels x \<longrightarrow> good_sels ps x"
proof (induction e and t and x)
  case (E_num t)
  then show ?case using good_num by blast
next
  case (E_id x)
  then show ?case using good_id by blast
next
  case (E_un p e)
  then show ?case using good_un by simp
next
  case (E_chain k e t)
  then show ?case using good_chain by (meson wf_vexpr.simps(4))
next
  case (E_pow a b)
  then show ?case using good_pow by simp
next
  case (E_cond c t f)
  then show ?case using good_cond by simp
next
  case (E_sel e x)
  then show ?case using good_sel by simp
next
  case (E_cat e t)
  then show ?case using good_cat by (meson wf_vexpr.simps(8))
next
  case (E_rep c e t)
  then show ?case using good_rep by (meson wf_vexpr.simps(9))
next
  case T_end
  then show ?case using good_tail_end good_items_end by blast
next
  case (T_op p e t)
  then show ?case using good_tail_op good_items_op by (meson wf_tail.simps(2))
next
  case S_end
  then show ?case using good_sels_end by blast
next
  case (S_bit i x)
  then show ?case using good_sels_bit by simp
next
  case (S_part a b x)
  then show ?case using good_sels_part by simp
next
  case (S_up a b x)
  then show ?case using good_sels_up by simp
next
  case (S_down a b x)
  then show ?case using good_sels_down by simp
qed

subsection \<open>Properties\<close>

lemma parse_expr_reads:
  assumes "wf_vexpr e"
  shows "reads (parse_expr ps no_env) (show_at 0 e) (stops 0) (denote e)"
  unfolding parse_expr_def using good_expr all_good(1) assms by (intro reads_bound) blast

text \<open>
  C37: The expression parser inverts printing. Take any expression tree over number literals,
  names that are neither casts nor system functions, prefix operators, chains of binary operators
  of one level, powers, conditionals, bit and part selects, concatenations and replications, and
  write its tokens with parentheses only where a part binds less tightly than its place. On a
  lexed source that goes on at the cursor with these tokens, followed by a token that does not
  continue an expression, the parser reads exactly them and performs exactly the calls of the
  builder the tree stands for, operands from left to right, with the same value, the same module
  and the same messages: the levels bind in the order of the code (conditional, ||, &&, equality,
  relations, |, ^, &, shifts, sums, products, prefix, power), chains group to the left and powers
  to the right.
\<close>

theorem parser_inverts_printing:
  assumes "wf_vexpr e" "pt_parser s = \<lparr>ps_toks = lx_tokens (lex smap src), ps_pos = pos, ps_errors = es, ps_return_target = rt\<rparr>"
    and "pos < length (lx_tokens (lex smap src))" "\<not> pt_stuck s"
    and "map token_key (drop pos (lx_tokens (lex smap src))) = show_at 0 e @ r" "stops 0 r"
    and "run_state (parse_expr proc_stmt no_env) s = (v, s')" "run_state (denote e) s = (w, t)"
  shows "v = w \<and> pt_m s' = pt_m t \<and> \<not> pt_stuck s' \<and> map token_key (drop (ps_pos (pt_parser s')) (ps_toks (pt_parser s'))) = r \<and>
    map ce_message (ps_errors (pt_parser s')) = map ce_message (ps_errors (pt_parser t))"
proof -
  have "cursor_ok (pt_parser s)" using assms(2,3) lex_cursor_ok [of smap src es rt] by (simp add: cursor_ok_def)
  then have ok: "state_ok s" using assms(4) by (simp add: state_ok_def)
  have k: "keys s = show_at 0 e @ r" using assms(2,5) by (simp add: keys_def)
  show ?thesis
    using readsD [OF parse_expr_reads [OF assms(1), of proc_stmt] ok k assms(6)] assms(7,8) by (auto simp: sim_def keys_def state_ok_def)
qed

text \<open>The source \<open>a==b&c\<close> with the cursor on its first token.\<close>

definition demo_expr_state :: pstate where
  "demo_expr_state =
     \<lparr>pt_parser = \<lparr>ps_toks = lx_tokens (lex None ''a==b&c''), ps_pos = 0, ps_errors = [], ps_return_target = []\<rparr>, pt_m = empty_module, pt_stuck = False\<rparr>"

definition demo_expr :: vexpr where
  "demo_expr = E_chain 3 (E_id ''a'') (T_op ''=='' (E_chain 7 (E_id ''b'') (T_op ''&'' (E_id ''c'') T_end)) T_end)"

lemma demo_expr_tokens:
  "map token_key (lx_tokens (lex None ''a==b&c'')) = show_at 0 demo_expr @ [(tk_eof, [])]"
proof -
  have "map token_key (lx_tokens (lex None ''a==b&c'')) =
      [(tk_identifier, ''a''), (tk_symbol, ''==''), (tk_identifier, ''b''), (tk_symbol, ''&''), (tk_identifier, ''c''), (tk_eof, [])]" by code_simp
  then show ?thesis by (simp add: demo_expr_def show_at.simps sy_def)
qed

theorem parser_inverts_printing_witness:
  "\<exists>v s' t. run_state (parse_expr (\<lambda>p m. Some (0, [], p, m)) no_env) demo_expr_state = (v, s') \<and>
     run_state (denote demo_expr) demo_expr_state = (v, t) \<and> pt_m s' = pt_m t \<and>
     map token_key (drop (ps_pos (pt_parser s')) (ps_toks (pt_parser s'))) = [(tk_eof, [])]"
proof -
  obtain v s' w t where r: "run_state (parse_expr (\<lambda>p m. Some (0, [], p, m)) no_env) demo_expr_state = (v, s')" "run_state (denote demo_expr) demo_expr_state = (w, t)"
    by fastforce
  have wf: "wf_vexpr demo_expr" by (simp add: demo_expr_def plain_name_def is_cast_type_def level_ops_def ops_defs)
  have st: "pt_parser demo_expr_state = \<lparr>ps_toks = lx_tokens (lex None ''a==b&c''), ps_pos = 0, ps_errors = [], ps_return_target = []\<rparr>" "\<not> pt_stuck demo_expr_state"
    by (simp_all add: demo_expr_state_def)
  have ne: "0 < length (lx_tokens (lex None ''a==b&c''))" using demo_expr_tokens by (cases "lx_tokens (lex None ''a==b&c'')") auto
  have k: "map token_key (drop 0 (lx_tokens (lex None ''a==b&c''))) = show_at 0 demo_expr @ [(tk_eof, [])]" using demo_expr_tokens by simp
  have stp: "stops 0 [(tk_eof, [])]" by (simp add: stops_def list_all_iff sy_def)
  show ?thesis using parser_inverts_printing [OF wf st(1) ne st(2) k stp r] r by metis
qed

end
