(* ===== verification/Spec2Isabelle.thy ===== *)
theory Spec2Isabelle
  imports Format_Props Verilog_Facts Preprocess_Facts Expr_Facts
begin

text \<open>
  A verification library for the digital simulation, the netlist and the file format of Phy-Engine (sources under
  \<^verbatim>\<open>src/phy_engine_src/include/phy_engine/\<close>).

  \<^bold>\<open>The program.\<close> Phy-Engine is a mixed-signal circuit simulator. A circuit is a netlist of device models whose
  pins are connected to nodes; it is stored as a directory or packed into one file. The digital side is a Verilog subset
  (\<^verbatim>\<open>verilog/digital/digital.h\<close>): text is preprocessed, lexed and parsed into \<^verbatim>\<open>compiled_module\<close>s whose
  expressions live in one arena of one-bit nodes; \<^verbatim>\<open>build_design\<close> and \<^verbatim>\<open>elaborate\<close> turn modules into a tree of
  instances; \<^verbatim>\<open>simulate\<close> advances that tree by one tick: a sequential pass (initial blocks, due events,
  edge-triggered blocks), a combinational settling loop, and the snapshot of the previous values. Besides it there are
  33 built-in digital devices (\<^verbatim>\<open>model/models/digital/\<close>) and one that embeds a Verilog design, which \<^verbatim>\<open>circult::digital_clk\<close> evaluates by events: a device that changes a
  node puts it into a queue, and the devices with a pin on a queued node are evaluated until the queue is empty. All share the
  four-valued logic of \<^verbatim>\<open>model/node/node.h\<close>.

  \<^bold>\<open>The theories\<close>, in the order of the code:
  \<^item> \<open>Prelude\<close>, \<open>Bits\<close>: machine types, vectors that grow, the fact collections; MSB-first bit lists as
    numbers and width coercion.
  \<^item> \<open>Logic4\<close>: the four values, the operators of \<^verbatim>\<open>node.h\<close> and \<^verbatim>\<open>digital.h\<close>, net resolution. The locales
    \<open>kleene_ops\<close> and \<open>net_resolution\<close> state the algebra the optimiser and the simulator rely on and are
    interpreted on both renderings.
  \<^item> \<open>Ast\<close>: the structs from \<^verbatim>\<open>expr_node\<close> to \<^verbatim>\<open>compiled_module\<close>.
  \<^item> \<open>Expr\<close>: \<^verbatim>\<open>eval_expr\<close>, \<^verbatim>\<open>eval_expr_cached\<close> and the reference semantics \<open>deval\<close> both compute.
  \<^item> \<open>State\<close>, \<open>Stmt\<close>, \<open>Stmt_Props\<close>: \<^verbatim>\<open>module_state\<close> and its primitive updates; \<^verbatim>\<open>exec_stmt\<close> with every statement
    kind. The locale \<open>exec_rel\<close> proves once that a relation kept by evaluation, assignment and queueing is
    kept by every statement; it is interpreted for the invariant, the frame, the written signals, the
    queues, the change flag and the change log.
  \<^item> \<open>Instance\<close>, \<open>Scheduler\<close>, \<open>Elab\<close>: the passes on one instance, the passes over the tree, and elaboration.
  \<^item> \<open>Sched_Props\<close>, \<open>Settle\<close>, \<open>Settle_Elab\<close>, \<open>Sim_Facts\<close>, \<open>Elab_Facts\<close>: every pass returns and keeps the invariant
    and the shape of the tree; what a pass that reports no change has established; events, queues,
    triggers, the random bus; width coercion and parameters.
  \<^item> \<open>Builder\<close>, \<open>Builder_Props\<close>, \<open>Arith\<close>, \<open>Arith_Add\<close>: the expression builder (\<^verbatim>\<open>details::expr_parser\<close> from
    \<^verbatim>\<open>add_node\<close> to the part selects) in the state monad. The judgement \<open>builds\<close> says that a run without
    diagnostics only extends the arena and returns roots with given values; operators are proved by
    composing its rules.
  \<^item> \<open>Demo\<close>: small designs, and the rewrite rules that run the model on them.
  \<^item> \<open>Codec\<close>, \<open>Blobs\<close>, \<open>Archive\<close>, \<open>Format_Props\<close>: the file format (\<^verbatim>\<open>pe_nl_fileformat/\<close>): fixed-size and
    variable-length fields, attribute, environment and analyzer blobs, and the single-file archive. The
    locales \<open>codec\<close>, \<open>codec_pair\<close> and \<open>layout\<close> state what a writer and its reader owe each other and are
    interpreted on every field type; round trips, rejection of other input, corruption, path safety.
  \<^item> \<open>Netlist\<close>, \<open>Netlist_Props\<close>, \<open>Floating\<close>, \<open>Netlist_Facts\<close>: the circuit container (\<^verbatim>\<open>netlist/\<close>), whose pins and nodes
    point at each other, with the invariant of reachable netlists, the refinement of a connection
    table, copies and merges; and the search for subnets without a path to ground
    (\<^verbatim>\<open>circuits/floating_subnet/detect.h\<close>) against the components of the locale \<open>undirected\<close>.
  \<^item> \<open>Devices\<close>, \<open>Registers\<close>, \<open>Attributes\<close>: the digital devices, one function per \<^verbatim>\<open>update_digital_clk_define\<close>, and their
    attributes; \<open>Device_Bounds\<close>, \<open>Attribute_Props\<close>: what their states and attributes satisfy.
  \<^item> \<open>Digital\<close>, \<open>Digital_Props\<close>, \<open>Digital_Run\<close>: the event engine of \<^verbatim>\<open>circuits/circuit.h\<close> over a netlist, what a device may write, and
    what holds of its outputs after it ran. The locale \<open>event_loop\<close> of \<open>Event_Loop\<close> proves once, for devices that only
    disturb what they announce, that every device fits its inputs or has one pending; \<open>Digital_Sim\<close> carries
    this through ticks and attribute settings. The locale \<open>costed_loop\<close> of \<open>Digital_Live\<close> bounds the number of events
    of a circuit without feedback. Both are interpreted on the engine. \<open>Tri_State\<close> shows that no device forgets a
    pending node and what follows for the tri-state driver; \<open>Digital_Facts\<close> states the results.
  \<^item> \<open>Verilog_Module\<close>, \<open>Verilog_Facts\<close>: the device that embeds a Verilog design in a circuit, where the two simulators
    meet: it samples its pins, calls \<^verbatim>\<open>simulate\<close> and drives its pins. It is one of the devices of the engine, so
    what holds of circuits holds with embedded designs.
  \<^item> \<open>Lexer\<close>, \<open>Lexer_Props\<close>: the lexer of the Verilog front end, as a function that cuts the rest of the text; it loses
    nothing, gives exact positions, and finds the same tokens in its own output.
  \<^item> \<open>Preprocess\<close>, \<open>Preprocess_Props\<close>, \<open>Preprocess_Cond\<close>, \<open>Preprocess_Facts\<close>: the preprocessor: macros with and without
    parameters, conditionals, includes and the source map. The map covers the output and keeps line numbers;
    conditional blocks do what the selected branch does; the two stages compose. The 33 levels of macro
    expansion and the include limit are the recursion depths of \<open>expand_text\<close> and \<open>process_text\<close>, so both are total.
  \<^item> \<open>Literals\<close>, \<open>Diagnostics\<close>, \<open>Literal_Props\<close>: number tokens as bits, against the number their digits denote, and back;
    compile errors as text, whose caret stands below the character meant.
  \<^item> \<open>Symbols\<close>, \<open>Symbol_Props\<close>: what the parser works with: the cursor over the tokens, the scopes of blocks with their undo
    stack, and the tables of signals, vectors, ports and parameters, with their invariants.
  \<^item> \<open>Expr_Parse\<close>, \<open>Expr_Parse_Safe\<close>, \<open>Expr_Grammar\<close>, \<open>Expr_Facts\<close>: the expression parser (\<^verbatim>\<open>details::expr_parser\<close> from
    \<^verbatim>\<open>parse_primary\<close> to \<^verbatim>\<open>parse_expr\<close>), which turns tokens into calls of the builder. The judgement \<open>safe\<close> says that a
    parser returns and moves the cursor forward within the tokens; the judgement \<open>reads\<close> says which tokens a parser
    consumes and what it does; by its rules the parser inverts the printing of expression trees.

  \<^bold>\<open>How code and model correspond.\<close> Containers indexed by \<^verbatim>\<open>std::size_t\<close> are lists with natural indices and the
  sentinel \<open>SIZE_MAX\<close>; ticks and epochs are words, so their wrap-around is the machine's. A function that
  updates an object returns the new object; the change flag is the first component. Pointers to modules
  are options. Functions that recurse over an arena take a depth bound and return \<open>None\<close> when it is used up:
  the memoising evaluator is given one more than the number of nodes (enough on every arena, C4), statement
  execution one more than the length of the statement arena (enough when sub-statements point downwards, as
  the parser builds them, C5), \<^verbatim>\<open>comb_resolve\<close> the depth of the tree (C1). Loops the code bounds keep its
  bound: 4096 iterations of a statement loop, 64 settling iterations, 65 levels of instances. The loops and the
  recursion of the expression parser are given one more than the number of tokens; using it up sets the flag
  \<open>pt_stuck\<close>, which never happens on a lexed source (theorem \<open>expression_parsing_terminates\<close>).

  \<^bold>\<open>Hypotheses.\<close> \<open>wf_module\<close> says that arenas are ordered (operands and sub-statements have smaller indices, or
  are missing); \<open>add_node\<close> is proved to keep expression arenas so. \<open>env_ok\<close> says that the signals the builder may
  fold have their constant value.

  \<^bold>\<open>Not modelled.\<close> The parser of statements, declarations and modules (an argument of the expression parser, where
  it reads the bodies of inlined functions); the netlist
  synthesiser \<^verbatim>\<open>pe_synth.h\<close>; analog devices and solvers, which compute with
  floating-point numbers (digital devices compare doubles through the argument \<open>ops\<close>); the netlist database, which is
  a sequence of LevelDB calls; the PhysicsLab JSON wrapper and layout; the C API and tools; vendored libraries.
\<close>

section \<open>Simulation of an elaborated design\<close>

lemma simulate_run_quiescent:
  "tree_ok t \<Longrightarrow> ticks \<noteq> [] \<Longrightarrow> \<exists>t'. simulate_run t ticks = Some t' \<and> tree_all quiescent t'"
proof (induction ticks arbitrary: t)
  case Nil
  then show ?case by simp
next
  case (Cons tick ticks)
  obtain t1 where t1: "simulate t tick True = Some t1" "tree_ok t1" "tree_all quiescent t1"
    using simulate_ok [OF Cons.prems(1)] by blast
  then show ?case using Cons.IH [of t1] by (cases ticks) auto
qed

lemma elaborate_ok:
  assumes "\<forall>m \<in> set ms. wf_module m" and "wf_module tm"
  shows "tree_ok (elaborate (build_design ms) tm)"
  unfolding elaborate_def
  using elaborate_children_ok(1) [OF wf_build_design [OF assms(1)] inode_ok_new [OF assms(2)]] .

text \<open>
  C1: For modules whose expression and statement arenas are ordered, elaborating a top module and
  simulating any list of ticks returns (no pass recurses forever or reads past an arena), the
  instance tree keeps its shape, modules, bindings and driven nets, has at most 66 levels, every
  instance state keeps its invariant, and after at least one tick every nonblocking queue is empty
  and both value snapshots equal the current values.
\<close>

theorem simulate_run_safe:
  assumes "\<forall>m \<in> set ms. wf_module m" and "wf_module tm"
  shows "\<exists>t. simulate_run (elaborate (build_design ms) tm) ticks = Some t \<and>
    shape t = shape (elaborate (build_design ms) tm) \<and> depth t \<le> 66 \<and> tree_ok t \<and>
    (ticks \<noteq> [] \<longrightarrow> tree_all quiescent t)"
proof -
  let ?t0 = "elaborate (build_design ms) tm"
  have ok: "tree_ok ?t0" using elaborate_ok [OF assms] .
  obtain t where t: "simulate_run ?t0 ticks = Some t" "shape t = shape ?t0" "tree_ok t"
    using simulate_run_ok [OF ok] by blast
  moreover have "depth t \<le> 66"
    using t(2) elaborate_children_depth(1) [of max_levels "build_design ms" "new_node tm (m_name tm)"]
    by (simp add: depth_shape elaborate_def max_levels_def)
  moreover have "tree_all quiescent t" if "ticks \<noteq> []"
    using simulate_run_quiescent [OF ok that] t(1) by auto
  ultimately show ?thesis by blast
qed

theorem simulate_run_safe_witness:
  "list_all wf_module [inv_mod, top_mod, swap_mod] \<and>
   (\<exists>t. simulate_run (elaborate demo_design top_mod) [0, 5] = Some t \<and>
    shape t = shape (elaborate demo_design top_mod) \<and> depth t \<le> 66 \<and> tree_ok t \<and>
    tree_all quiescent t)"
  using simulate_run_safe [OF demo_design_wf, of top_mod "[0, 5]"] demo_design_wf
  by (simp add: demo_design_def)

text \<open>
  C2: In any reachable state of an elaborated design that drives no register from a continuous
  assignment or an output port, a combinational pass that reports no change has reached a fixed
  point: it left every value alone, every internally driven net carries the resolution of all its
  drivers (guarded continuous assignments and child output ports), and every child input port
  carries the value of the expression bound to it, at every level of the tree.
\<close>

theorem quiet_pass_settles:
  assumes "\<forall>m \<in> set ms. wf_module m" and "wf_module tm"
    and "no_reg_targets (elaborate (build_design ms) tm)"
    and "simulate_run (elaborate (build_design ms) tm) ticks = Some t"
    and "comb_resolve (depth t) tick t = Some (False, t')"
  shows "values_of t' = values_of t \<and> settled_tree t'"
proof -
  let ?t0 = "elaborate (build_design ms) tm"
  have ok: "tree_ok ?t0" using elaborate_ok [OF assms(1,2)] .
  then have t: "shape t = shape ?t0" "tree_ok t" using simulate_run_ok [OF ok, of ticks] assms(4) by auto
  have "marked_tree ?t0"
    unfolding elaborate_def by (rule elaborate_marked(1)) (use marked_new [of tm "m_name tm"] in \<open>auto simp: marked_def\<close>)
  then have "driven_tree t" using marked_driven [OF _ assms(3) ok] driven_tree_shape t(1) by metis
  then show ?thesis
    using comb_resolve_settles [of "depth t" tick] t(2) assms(5) unfolding settles_def by blast
qed


theorem quiet_pass_settles_witness:
  "\<exists>t t'. simulate_run (elaborate demo_design top_mod) [0] = Some t \<and>
     comb_resolve (depth t) 1 t = Some (False, t') \<and>
     values_of t' = Rose [false_state, true_state] [Rose [false_state, true_state] []] \<and> settled_tree t'"
proof -
  obtain t t' where t: "simulate_run (elaborate demo_design top_mod) [0] = Some t"
      "comb_resolve (depth t) 1 t = Some (False, t')"
      "values_of t' = Rose [false_state, true_state] [Rose [false_state, true_state] []]"
    using demo_quiet by (auto split: option.splits)
  have "no_reg_targets (elaborate (build_design [inv_mod, top_mod, swap_mod]) top_mod)"
    by (simp add: elaborate_demo [unfolded demo_design_def] demo_top_def demo_child_def is_reg_def)
  then show ?thesis
    using quiet_pass_settles [OF demo_design_wf, of top_mod "[0]" t 1 t'] t demo_design_wf
    by (auto simp: demo_design_def)
qed


section \<open>Expression evaluation\<close>

text \<open>
  C3: The memoising evaluator returns the reference value of an expression for every cache left by
  earlier evaluations, also when its 32-bit epoch wraps, keeps the cache invariant, and agrees
  with the plain recursive evaluator wherever that one is defined.
\<close>

theorem eval_expr_cached_correct:
  assumes "wf_arena ns" and "cache_inv c"
  shows "\<exists>c'. eval_expr_cached ns root vals c = (deval ns vals root, c') \<and> cache_inv c' \<and>
    (complete_arena ns \<longrightarrow> root < length ns \<longrightarrow>
       (\<forall>fuel > root. eval_expr fuel ns root vals = Some (fst (eval_expr_cached ns root vals c))))"
  using eval_expr_cached_deval [OF assms, of root vals] eval_expr_deval [of ns root _ vals] by auto

theorem eval_expr_cached_correct_witness:
  "complete_arena (m_expr_nodes inv_mod) \<and> cache_inv eval_cache_init \<and>
   fst (eval_expr_cached (m_expr_nodes inv_mod) 1 [true_state, indeterminate_state] eval_cache_init) = false_state \<and>
   eval_expr 2 (m_expr_nodes inv_mod) 1 [true_state, indeterminate_state] = Some false_state"
proof -
  have c: "complete_arena (m_expr_nodes inv_mod)"
    by (simp add: complete_arena_def less_Suc_eq demo_defs kind_arity_def)
  have "wf_arena (m_expr_nodes inv_mod)" using demo_design_wf by (simp add: wf_module_def)
  moreover have "deval (m_expr_nodes inv_mod) [true_state, indeterminate_state] 1 = false_state"
    by (simp add: deval.simps demo_defs kind_simps)
  ultimately show ?thesis
    using c eval_expr_cached_correct [of "m_expr_nodes inv_mod" eval_cache_init 1 "[true_state, indeterminate_state]"]
    by auto
qed

text \<open>
  C4: The recursion of the memoising evaluator ends on every arena, cyclic ones included, within
  one more step than the arena has nodes, because each node is marked before its operands are
  visited.
\<close>

theorem eval_go_terminates:
  assumes "length ns \<le> length mark"
  shows "\<exists>v mark' cache'. eval_go (Suc (length ns)) ns vals tok root (mark, cache) = Some (v, mark', cache')"
  using eval_go_returns [of ns "(mark, cache)" tok "Suc (length ns)" vals root] assms unmarked_le [of tok "length ns" mark]
  by (auto simp: returns_def)

theorem eval_go_terminates_witness:
  "eval_go 2 [unary_node unary_not 0] [] (1::u32) 0 ([0], [false_state]) = Some (true_state, [1], [true_state]) \<and>
   (\<exists>v mark' cache'. eval_go 2 [unary_node unary_not 0] [] (1::u32) 0 ([0], [false_state]) = Some (v, mark', cache'))"
  using eval_go_terminates [of "[unary_node unary_not 0]" "[0::u32]" "[]" 1 0 "[false_state]"]
  by (simp add: numeral_2_eq_2 unary_node_def expr_node_default_def eval_kind_def eval_unary_def)

section \<open>Statements\<close>

text \<open>
  C5: Executing any statement of an ordered arena returns, keeps the state invariant and
  everything but the values, queues and caches, writes only signals the arena assigns, only
  appends to the nonblocking queue and to the event list, and when it reports no change the values
  are unchanged.
\<close>

theorem exec_stmt_sound:
  assumes "wf_stmts arena" and "st_ok m st"
  shows "\<exists>c st' fs'. exec_stmt (Suc (length arena)) m arena tick tnb idx st fs = Some (c, st', fs') \<and>
    st_ok m st' \<and> same_shape st st' \<and> writes_only (arena_targets tnb arena) st st' \<and>
    queues_grow st st' \<and> flag_sound c st st'"
proof -
  have "exec_stmt (Suc (length arena)) m arena tick tnb idx st fs \<noteq> None"
    using exec_stmt_returns [OF assms(1)] by (meson le_less_linear less_SucI zero_less_Suc)
  then obtain c st' fs' where run: "exec_stmt (Suc (length arena)) m arena tick tnb idx st fs = Some (c, st', fs')"
    by (metis not_None_eq prod_cases3)
  then show ?thesis
    using st_ok_exec [OF run assms(2)] exec_shape.exec_stmt_R [OF _ run] exec_writes.exec_stmt_R [OF order_refl run]
      exec_queues.exec_stmt_R [OF _ run] exec_flag.exec_stmt_R [OF _ run] by auto
qed

theorem exec_stmt_sound_witness:
  "wf_stmts swap_arena \<and> st_ok swap_mod demo_state \<and>
   (\<exists>c st' fs'. exec_stmt 4 swap_mod swap_arena 0 False 2 demo_state (Some flow_none) = Some (c, st', fs') \<and>
      writes_only (arena_targets False swap_arena) demo_state st' \<and> queues_grow demo_state st' \<and> flag_sound c demo_state st')"
proof -
  have wf: "wf_stmts swap_arena"
    by (simp add: wf_stmts_def swap_arena_def less_Suc_eq demo_defs stmt_children_def)
  have "Suc (length swap_arena) = 4" by (simp add: swap_arena_def)
  then show ?thesis
    using exec_stmt_sound [OF wf demo_state_ok, of 0 False 2 "Some flow_none"] wf demo_state_ok by auto
qed

text \<open>
  C12: A block of undelayed nonblocking assignments to distinct signals leaves all values alone
  while it runs, and applying the queue afterwards performs the assignments in parallel: every
  target gets the value its right-hand side had before the block, and no other signal changes.
\<close>

theorem nonblocking_block_parallel:
  assumes "st_ok m st" and "st_nba_queue st = []"
    and "r < length arena" and "sn_k (arena ! r) = block" and "sn_stmts (arena ! r) = idxs"
    and "\<forall>i \<in> set idxs. i < length arena \<and> sn_k (arena ! i) = nonblocking_assign \<and>
      sn_delay_ticks (arena ! i) = 0 \<and> sn_lhs_signal (arena ! i) < length (st_values st)"
    and "distinct (map (\<lambda>i. sn_lhs_signal (arena ! i)) idxs)"
  shows "\<exists>st'. exec_stmt (Suc (Suc f)) m arena tick False r st (Some flow_none) = Some (False, st', Some flow_none) \<and>
    st_values st' = st_values st \<and>
    (\<forall>i \<in> set idxs. st_values (snd (apply_nba st')) ! sn_lhs_signal (arena ! i) =
       deval (m_expr_nodes m) (st_values st) (sn_expr_root (arena ! i))) \<and>
    (\<forall>s. s \<notin> (\<lambda>i. sn_lhs_signal (arena ! i)) ` set idxs \<longrightarrow>
       st_values (snd (apply_nba st')) ! s = st_values st ! s)"
proof -
  let ?q = "map (\<lambda>i. (sn_lhs_signal (arena ! i), deval (m_expr_nodes m) (st_values st) (sn_expr_root (arena ! i)))) idxs"
  obtain st' where st': "exec_seq (exec_stmt (Suc f) m arena tick False) idxs False st (Some flow_none) =
      Some (False, st', Some flow_none)" "st_values st' = st_values st" "st_nba_queue st' = ?q"
    using nonblocking_seq [OF assms(1,6), of f tick False] assms(2) by auto
  have "exec_stmt (Suc (Suc f)) m arena tick False r st (Some flow_none) = Some (False, st', Some flow_none)"
    using assms(3-5) st'(1) by (subst exec_stmt.simps(2)) (simp add: exec_node_def del: exec_stmt.simps)
  moreover have fst: "map fst ?q = map (\<lambda>i. sn_lhs_signal (arena ! i)) idxs" by simp
  have "st_values (snd (apply_nba st')) ! sn_lhs_signal (arena ! i) =
       deval (m_expr_nodes m) (st_values st) (sn_expr_root (arena ! i))" if "i \<in> set idxs" for i
    unfolding apply_nba_values st'(2,3)
    by (rule fold_updates_in) (use that assms(6,7) fst in \<open>auto simp del: map_map\<close>)
  moreover have "st_values (snd (apply_nba st')) ! s = st_values st ! s"
    if "s \<notin> (\<lambda>i. sn_lhs_signal (arena ! i)) ` set idxs" for s
    unfolding apply_nba_values st'(2,3)
    by (rule fold_updates_notin) (use that in auto)
  ultimately show ?thesis using st'(2) by blast
qed

theorem nonblocking_block_parallel_witness:
  "\<exists>st'. exec_stmt 2 swap_mod swap_arena 0 False 2 demo_state (Some flow_none) = Some (False, st', Some flow_none) \<and>
    st_values st' = [true_state, false_state, true_state] \<and>
    st_values (snd (apply_nba st')) ! 1 = true_state \<and> st_values (snd (apply_nba st')) ! 2 = false_state"
proof -
  have "st_nba_queue demo_state = []" "length (st_values demo_state) = 3"
    "st_values demo_state = [true_state, false_state, true_state]"
    by (simp_all add: demo_state_def init_state_def Let_def)
  moreover have "deval (m_expr_nodes swap_mod) [true_state, false_state, true_state] 1 = true_state"
    "deval (m_expr_nodes swap_mod) [true_state, false_state, true_state] 0 = false_state"
    by (simp_all add: deval.simps demo_defs kind_simps)
  ultimately show ?thesis
    using nonblocking_block_parallel [OF demo_state_ok, of 2 swap_arena "[0, 1]" 0 0]
    by (simp add: swap_arena_def demo_defs numeral_2_eq_2 del: exec_stmt.simps) blast
qed


text \<open>
  From the start of a change epoch, the change log kept while statements run has no
  duplicates, lists only signals marked with the epoch, and lists every signal whose value differs
  from the start of the epoch.
\<close>

theorem change_log_complete:
  assumes "st_ok m st" and "begin_change_epoch st = (tok, st1)"
    and "exec_stmt fuel m arena tick tnb idx st1 fs = Some (c, st2, fs')"
  shows "distinct (st_changed_signals st2) \<and> st_change_token st2 = tok \<and>
    (\<forall>i \<in> set (st_changed_signals st2). st_change_mark st2 ! i = tok) \<and>
    (\<forall>i < length (st_values st). st_values st2 ! i \<noteq> st_values st ! i \<longrightarrow> i \<in> set (st_changed_signals st2))"
proof -
  have m: "wf_arena (m_expr_nodes m)" "st_inv st" using assms(1) by (simp_all add: st_ok_def)
  have "log_ok (st_values st) st1" using log_ok_epoch [OF m(2)] assms(2) by simp
  then have log: "log_ok (st_values st) st2"
    using exec_log.exec_stmt_R [OF _ assms(3)] m(1) by (auto simp: log_rel_def)
  have tok: "st_change_token st2 = tok"
    using exec_shape.exec_stmt_R [OF _ assms(3)] begin_change_epoch_frame(11) [of st] assms(2) by (simp add: same_shape_def)
  have "st_inv st2" using log by (simp add: log_ok_def)
  then have "distinct (st_changed_signals st2)" "\<forall>i \<in> set (st_changed_signals st2). st_change_mark st2 ! i = tok"
    using tok by (simp_all add: st_inv_def)
  moreover have "\<forall>i < length (st_values st). st_values st2 ! i \<noteq> st_values st ! i \<longrightarrow> i \<in> set (st_changed_signals st2)"
    using log by (simp add: log_ok_def)
  ultimately show ?thesis using tok by blast
qed

theorem change_log_complete_witness:
  "\<exists>tok st1 c st2 fs'. begin_change_epoch demo_state = (tok, st1) \<and>
     exec_stmt 1 swap_mod [assign_stmt 1 1 0] 0 False 0 st1 None = Some (c, st2, fs') \<and>
     st_values demo_state ! 1 = false_state \<and> st_values st2 ! 1 = true_state \<and> 1 \<in> set (st_changed_signals st2)"
proof -
  obtain tok st1 where 1: "begin_change_epoch demo_state = (tok, st1)" by fastforce
  have v: "st_values st1 = [true_state, false_state, true_state]" "st_ok swap_mod st1"
    using begin_change_epoch_frame(2) [of demo_state] st_ok_begin_change_epoch [OF demo_state_ok] 1
    by (simp_all add: demo_state_def)
  obtain e where 2: "eval_in swap_mod 1 st1 = (deval (m_expr_nodes swap_mod) (st_values st1) 1, st1\<lparr>st_eval := e\<rparr>)"
    using eval_in_eq [OF v(2)] .
  have d: "deval (m_expr_nodes swap_mod) [true_state, false_state, true_state] 1 = true_state"
    by (simp add: deval.simps demo_defs kind_simps)
  let ?r = "assign_signal (st1\<lparr>st_eval := e\<rparr>) 1 true_state"
  have run: "exec_stmt 1 swap_mod [assign_stmt 1 1 0] 0 False 0 st1 None = Some (fst ?r, snd ?r, None)"
    using 2 v(1) d by (simp add: exec_node_def plain_def exec_blocking_assign_def demo_defs)
  have "st_values (snd ?r) ! 1 = true_state" by (simp add: assign_signal_values v(1))
  moreover have "st_values demo_state = [true_state, false_state, true_state]" by (simp add: demo_state_def)
  ultimately show ?thesis
    using change_log_complete [OF demo_state_ok 1 run] 1 run by (auto simp del: exec_stmt.simps)
qed

text \<open>
  C13: Processing the events of a tick runs exactly the events due at or before the tick, in the
  order they were scheduled, and keeps exactly the later ones, in their order.
\<close>

theorem process_due_events_exact:
  assumes "st_mod st = Some m"
  shows "process_due_events st tick =
    (fold (run_event m) (filter (\<lambda>ev. ev_due_tick ev \<le> tick) (st_events st)) st)
      \<lparr>st_events := filter (\<lambda>ev. tick < ev_due_tick ev) (st_events st)\<rparr>"
  using process_due_events_fold [OF assms] .

theorem process_due_events_exact_witness:
  "st_events (process_due_events
     (demo_state\<lparr>st_events := [scalar_event 3 False 1 1, scalar_event 9 False 2 0]\<rparr>) 4) = [scalar_event 9 False 2 0]"
  by (subst process_due_events_exact [of _ swap_mod]) (simp_all add: demo_state_def init_state_def Let_def scalar_event_def)

section \<open>Nets\<close>

text \<open>
  Accumulating drivers with resolve_net_drivers from high impedance yields high impedance when
  no driver drives, the common value when all driving drivers agree, and unknown otherwise; the
  order of the drivers does not matter.
\<close>

theorem net_drivers_resolve:
  "fold (\<lambda>d acc. resolve_net_drivers acc d) ds high_impedence_state =
     (case filter (\<lambda>d. d \<noteq> high_impedence_state) ds of
        [] \<Rightarrow> high_impedence_state
      | d # r \<Rightarrow> if list_all (\<lambda>e. e = d) r then d else indeterminate_state) \<and>
   (mset ds = mset es \<longrightarrow>
      fold (\<lambda>d acc. resolve_net_drivers acc d) ds high_impedence_state =
      fold (\<lambda>d acc. resolve_net_drivers acc d) es high_impedence_state)"
  using verilog_net.resolve_all_char [of ds] verilog_net.resolve_all_perm [of ds es]
  unfolding verilog_net.resolve_all_def list_all_iff Let_def by blast

theorem net_drivers_resolve_witness:
  "fold (\<lambda>d acc. resolve_net_drivers acc d) [high_impedence_state, true_state, false_state] high_impedence_state = indeterminate_state \<and>
   fold (\<lambda>d acc. resolve_net_drivers acc d) [true_state, high_impedence_state, false_state] high_impedence_state = indeterminate_state"
proof -
  have "mset [high_impedence_state, true_state, false_state] = mset [true_state, high_impedence_state, false_state]" by simp
  then show ?thesis
    using net_drivers_resolve [of "[high_impedence_state, true_state, false_state]" "[true_state, high_impedence_state, false_state]"]
    by (simp del: fold_simps) (simp add: logic_defs)
qed

section \<open>Triggers of combinational blocks\<close>

text \<open>
  Away from the wrap of the epoch counter, the first iteration of a combinational pass runs
  an always block with an explicit sensitivity list exactly when one of its signals differs from
  the last settled snapshot.
\<close>

theorem comb_block_triggered_exactly:
  assumes "st_inv st" and "length (st_comb_prev_values st) = length (st_values st)"
    and "st_change_token st + 1 \<noteq> 0" and "st_change_token st + 2 \<noteq> 0"
    and "comb_start st = (tok, any, st1)" and "\<not> ac_is_star ac"
  shows "comb_runs tok any ac (snd (begin_change_epoch st1)) \<longleftrightarrow>
    (\<exists>sig \<in> set (ac_sens_signals ac). sig < length (st_values st) \<and>
       st_values st ! sig \<noteq> st_comb_prev_values st ! sig)"
  using comb_runs_exact [OF assms] .

theorem comb_block_triggered_exactly_witness:
  "comb_runs (fst (comb_start demo_state)) (fst (snd (comb_start demo_state)))
     \<lparr>ac_is_star = False, ac_sens_signals = [1], ac_stmt_nodes = [], ac_roots = []\<rparr>
     (snd (begin_change_epoch (snd (snd (comb_start demo_state)))))"
  by (subst comb_block_triggered_exactly [of demo_state])
    (use demo_state_ok in \<open>simp_all add: st_ok_def\<close>, simp_all add: demo_state_def init_state_def init_value_def swap_mod_def empty_module_def Let_def)

text \<open>
  When the 32-bit epoch counter wraps between the trigger epoch and the first iteration, the
  marks of the trigger epoch are erased and no always block with an explicit sensitivity list
  runs, whatever changed.
\<close>

theorem comb_block_missed_on_wrap:
  assumes "st_inv st" and "length (st_comb_prev_values st) = length (st_values st)"
    and "st_change_token st + 2 = 0"
    and "comb_start st = (tok, any, st1)" and "\<not> ac_is_star ac"
  shows "\<not> comb_runs tok any ac (snd (begin_change_epoch st1))"
  using comb_runs_wrap [OF assms] .

theorem comb_block_missed_on_wrap_witness:
  "let st = demo_state\<lparr>st_change_token := 0xFFFFFFFE\<rparr> in
     st_values st ! 1 \<noteq> st_comb_prev_values st ! 1 \<and>
     \<not> comb_runs (fst (comb_start st)) (fst (snd (comb_start st)))
        \<lparr>ac_is_star = False, ac_sens_signals = [1], ac_stmt_nodes = [], ac_roots = []\<rparr>
        (snd (begin_change_epoch (snd (snd (comb_start st)))))"
proof -
  let ?st = "demo_state\<lparr>st_change_token := 0xFFFFFFFE\<rparr>"
  have "st_inv ?st" by (simp add: demo_state_def init_state_def Let_def st_inv_def)
  moreover have "length (st_comb_prev_values ?st) = length (st_values ?st)" "st_values ?st ! 1 \<noteq> st_comb_prev_values ?st ! 1"
    by (simp_all add: demo_state_def init_state_def init_value_def swap_mod_def empty_module_def Let_def)
  ultimately show ?thesis
    using comb_block_missed_on_wrap [of ?st "fst (comb_start ?st)" "fst (snd (comb_start ?st))" "snd (snd (comb_start ?st))"]
    by simp
qed

section \<open>Initial blocks\<close>

text \<open>
  C14: In the first tick of an instance whose module has one initial block, a begin-end block of
  an undelayed scalar assignment and a conditional, the assignment is performed twice: its event
  is scheduled, then the block is found not to be linear and is executed directly, assignment
  first and conditional after it, and then the due events, the event of the assignment among them,
  are performed on the state the block left, in the same tick.
\<close>

theorem initial_block_runs_twice:
  assumes "inode_ok n" "in_mod n = Some m" "\<not> st_initial_ran (in_state n)" "m_initials m = [ib]"
    and "ib_roots ib = [r]" "r < length (ib_stmt_nodes ib)"
    and "sn_k (ib_stmt_nodes ib ! r) = block" "sn_stmts (ib_stmt_nodes ib ! r) = [a, b]"
    and "sn_k (ib_stmt_nodes ib ! a) = blocking_assign" "sn_delay_ticks (ib_stmt_nodes ib ! a) = 0"
    and "sn_k (ib_stmt_nodes ib ! b) = if_stmt"
    and ev: "ev = scalar_event tick False (sn_lhs_signal (ib_stmt_nodes ib ! a)) (sn_expr_root (ib_stmt_nodes ib ! a))"
    and st: "st = (in_state n)\<lparr>st_nba_queue := [], st_initial_ran := True, st_initial_base_tick := tick\<rparr>"
  shows "\<exists>c st1 fs pre post n1.
    exec_stmt (length (ib_stmt_nodes ib)) m (ib_stmt_nodes ib) tick False b (run_event m ev (push_event ev st)) (Some flow_none) = Some (c, st1, fs) \<and>
    filter (\<lambda>e. ev_due_tick e \<le> tick) (st_events st1) = pre @ [ev] @ post \<and>
    n1 = n\<lparr>in_state := (fold (run_event m) post (run_event m ev (fold (run_event m) pre st1)))
             \<lparr>st_events := filter (\<lambda>e. tick < ev_due_tick e) (st_events st1)\<rparr>\<rparr> \<and>
    sequential_local tick ps n = (if ps then run_sequential n1 tick else Some n1)"
proof -
  have wf: "wf_stmts (ib_stmt_nodes ib)" "st_ok m (in_state n)" using assms(1,2,4) by (auto simp: inode_ok_def wf_module_def)
  have ok: "st_ok m st" using wf(2) by (simp add: st st_ok_def st_inv_def Let_def)
  have base: "st_initial_base_tick st = tick" by (simp add: st)
  obtain c st1 fs where
    x: "exec_stmt (length (ib_stmt_nodes ib)) m (ib_stmt_nodes ib) tick False b (run_event m ev (push_event ev st)) (Some flow_none) = Some (c, st1, fs)"
    and run: "run_initial m ib st = Some st1" "st_ok m st1" "ev \<in> set (st_events st1)"
    using initial_block_replays [OF wf(1) ok assms(5-11), unfolded base, OF ev] by blast
  have "ev \<in> set (filter (\<lambda>e. ev_due_tick e \<le> tick) (st_events st1))" using run(3) by (simp add: ev scalar_event_def)
  then obtain pre post where due: "filter (\<lambda>e. ev_due_tick e \<le> tick) (st_events st1) = pre @ [ev] @ post" by (metis split_list append_Cons append_Nil)
  have "initial_pass n tick = Some (n\<lparr>in_state := st1\<rparr>)"
    using assms(2-4) run(1) wf(2) by (simp add: initial_pass_def st st_ok_def Let_def)
  moreover have "st_mod st1 = Some m" using run(2) by (simp add: st_ok_def)
  ultimately have "sequential_local tick ps n = (let n1 = n\<lparr>in_state := (fold (run_event m) post (run_event m ev (fold (run_event m) pre st1)))
             \<lparr>st_events := filter (\<lambda>e. tick < ev_due_tick e) (st_events st1)\<rparr>\<rparr> in if ps then run_sequential n1 tick else Some n1)"
    by (simp add: sequential_local_def process_due_events_fold due)
  then show ?thesis using x due unfolding Let_def by blast
qed

theorem initial_block_runs_twice_witness:
  "\<exists>c st1 fs pre post n1.
     exec_stmt 3 flip_mod (ib_stmt_nodes flip_block) 0 False 1
       (run_event flip_mod (scalar_event 0 False 0 1) (push_event (scalar_event 0 False 0 1)
          ((in_state flip_inst)\<lparr>st_nba_queue := [], st_initial_ran := True, st_initial_base_tick := 0\<rparr>))) (Some flow_none) = Some (c, st1, fs) \<and>
     n1 = flip_inst\<lparr>in_state := (fold (run_event flip_mod) post (run_event flip_mod (scalar_event 0 False 0 1) (fold (run_event flip_mod) pre st1)))
             \<lparr>st_events := filter (\<lambda>e. 0 < ev_due_tick e) (st_events st1)\<rparr>\<rparr> \<and>
     sequential_local 0 False flip_inst = Some n1 \<and> st_values (in_state n1) = [false_state]"
proof -
  obtain n1 where n1: "sequential_local 0 False flip_inst = Some n1" "st_values (in_state n1) = [false_state]" using flip_result by blast
  have "2 < length (ib_stmt_nodes flip_block)" by (simp add: flip_block_fields)
  from initial_block_runs_twice [OF flip_ok flip_mod_fields(2) flip_block_fields(1) this flip_block_fields(3-7) refl refl, of 0 False, unfolded flip_block_fields(2,8,9) if_False]
  show ?thesis using n1 by (metis (no_types, lifting) option.inject)
qed


section \<open>The random-number bus\<close>

text \<open>
  On a rising clock edge with reset released, the four-bit random bus steps from a known
  value by lfsr_next; from the reset value 0 the steps run through 15 distinct values and return
  to 0, and the value 15 is a fixed point outside that cycle.
\<close>

theorem urandom_sequence:
  assumes "m_vectors m ''$urandom'' = Some vd" and "vd_bits vd = [a, b, c, d]" and "distinct [a, b, c, d]"
    and "\<forall>s \<in> {a, b, c, d}. s < length (st_values st)"
    and "reset_level m st = true_state" and "find_sig m ''clk'' = clk" and "clk \<noteq> SIZE_MAX"
    and "clk < length (st_values st)" and "clk < length (st_prev_values st)"
    and "is_posedge (st_prev_values st ! clk) (st_values st ! clk)"
    and "read_bus st [a, b, c, d] 0 0 = Some s"
  shows "read_bus (urandom_update m st) [a, b, c, d] 0 0 = Some (lfsr_next s) \<and>
    distinct (map (\<lambda>k. (lfsr_next ^^ k) 0) [0..<15]) \<and> (lfsr_next ^^ 15) 0 = 0 \<and> lfsr_next 15 = 15"
  using urandom_step [OF assms] lfsr_orbit lfsr_table by simp

theorem urandom_sequence_witness:
  "read_bus urandom_state [1, 2, 3, 4] 0 0 = Some 7 \<and>
   read_bus (urandom_update urandom_mod urandom_state) [1, 2, 3, 4] 0 0 = Some (lfsr_next 7)"
proof -
  have r: "read_bus urandom_state [1, 2, 3, 4] 0 0 = Some 7"
    by (simp add: urandom_state_def Let_def numeral_eq_Suc)
  have "reset_level urandom_mod urandom_state = true_state"
    by (simp add: reset_level_def find_sig_def urandom_mod_def empty_module_def Let_def)
  moreover have "find_sig urandom_mod ''clk'' = 0" by (simp add: find_sig_def urandom_mod_def)
  moreover have "m_vectors urandom_mod ''$urandom'' =
      Some \<lparr>vd_msb = 3, vd_lsb = 0, vd_is_reg = True, vd_is_signed = False, vd_bits = [1, 2, 3, 4]\<rparr>"
    by (simp add: urandom_mod_def)
  ultimately show ?thesis
    using r urandom_sequence [of urandom_mod _ 1 2 3 4 urandom_state 0 7]
    by (simp add: urandom_state_def is_posedge_def SIZE_MAX_def del: read_bus.simps)
qed

section \<open>Elaboration\<close>

text \<open>
  Coercing a connection with known bits to a port of positive width gives exactly that many
  known bits; without sign extension, and whenever bits are cut, they denote the number modulo two
  to the width, and with sign extension they denote the same signed number.
\<close>

theorem port_coercion_value:
  assumes "map (bound_value n) src = map of_bool_state bs" and "src \<noteq> []" and "0 < w"
  shows "\<exists>cs. map (bound_value n) (resize_bits src w se) = map of_bool_state cs \<and> length cs = w \<and>
    (\<not> se \<or> w \<le> length bs \<longrightarrow> bits_val cs = bits_val bs mod 2 ^ w) \<and>
    (se \<and> length bs \<le> w \<longrightarrow> sbits_val cs = sbits_val bs)"
proof -
  let ?cs = "resize_msb False False bs w se"
  have bs: "bs \<noteq> []" using assms(1,2) by auto
  have low: "bits_val ?cs = bits_val bs mod 2 ^ w" if "w \<le> length bs"
    using resize_msb_low [OF bs assms(3) that] bits_val_drop [of "length bs - w" bs] that by simp
  have "bits_val ?cs = bits_val bs mod 2 ^ w" if "\<not> se"
    using resize_unsigned [OF bs assms(3)] that by simp
  moreover have "sbits_val ?cs = sbits_val bs" if "se" "length bs \<le> w"
    using resize_signed [OF bs that(2)] that by simp
  ultimately show ?thesis
    using resize_bits_known [OF assms(1,2)] length_resize_msb [OF bs] low by blast
qed

theorem port_coercion_value_witness:
  "\<exists>cs. map (bound_value demo_top) (resize_bits [make_literal_binding true_state, make_literal_binding false_state] 4 True) =
      map of_bool_state cs \<and> length cs = 4 \<and> sbits_val cs = -2"
proof -
  have "map (bound_value demo_top) [make_literal_binding true_state, make_literal_binding false_state] =
      map of_bool_state [True, False]" by simp
  then show ?thesis
    using port_coercion_value [of demo_top "[make_literal_binding true_state, make_literal_binding false_state]" "[True, False]" 4 True]
    by (simp add: sbits_val_def bits_val_Cons)
qed

text \<open>
  Overriding a 32-bit parameter writes the bits of the value to its 32 signals, most
  significant first, and changes no other signal.
\<close>

theorem parameter_override_bits:
  assumes "m_vectors cm pname = Some vd" and "length (vd_bits vd) = 32" and "distinct (vd_bits vd)"
    and "\<forall>s \<in> set (vd_bits vd). s < length (st_values st)"
  shows "map ((!) (st_values (apply_param_value cm pname value st))) (vd_bits vd) =
      map (\<lambda>i. of_bool_state (bit value (31 - i))) [0..<32] \<and>
    (\<forall>s. s \<notin> set (vd_bits vd) \<longrightarrow>
       st_values (apply_param_value cm pname value st) ! s = st_values st ! s)"
  using apply_param_value_bits [OF assms] .

theorem parameter_override_bits_witness:
  "map ((!) (st_values (apply_param_value param_mod ''W'' 5 (init_state param_mod)))) [0..<32] =
     map (\<lambda>i. of_bool_state (bit (5::u64) (31 - i))) [0..<32]"
  using parameter_override_bits [of param_mod "''W''"
      "\<lparr>vd_msb = 31, vd_lsb = 0, vd_is_reg = False, vd_is_signed = False, vd_bits = [0..<32]\<rparr>" "init_state param_mod" 5]
  by (simp add: param_mod_def init_state_def Let_def)


section \<open>Four-valued logic\<close>

text \<open>The operators of the device models and the RESOLVE2 device compute the same functions as the Verilog front end.\<close>

theorem device_and_verilog_logic_agree:
  "op_and a b = logic_and a b \<and> op_or a b = logic_or a b \<and> op_xor a b = logic_xor a b \<and>
   op_not a = logic_not a \<and> resolve2 a b = resolve_net_drivers a b"
  by (simp add: node_ops_eq resolve2_eq)

text \<open>
  C15: Replacing unknown inputs by known ones never changes a known result: an expression without
  is_unknown and case-equality nodes is monotone in the information order of its signal values.
\<close>

theorem unknown_inputs_are_safe:
  assumes "list_all2 info_le vs vs'"
    and "\<forall>n \<in> set ns. en_kind n \<noteq> is_unknown_kind \<and> en_kind n \<noteq> binary_case_eq"
  shows "info_le (deval ns vs r) (deval ns vs' r)"
proof (induction r rule: less_induct)
  case (less r)
  show ?case
  proof (cases "r < length ns")
    case True
    then have k: "en_kind (ns ! r) \<noteq> is_unknown_kind" "en_kind (ns ! r) \<noteq> binary_case_eq" using assms(2) by auto
    have leaf: "info_le (leaf_value (ns ! r) vs) (leaf_value (ns ! r) vs')"
      using assms(1) by (auto simp: leaf_value_def list_all2_conv_all_nth)
    show ?thesis
      using k less leaf by (cases "en_kind (ns ! r)")
        (simp_all add: deval_leaf [OF True] deval_op [OF True] kind_arity_def, simp_all add: kind_fun_def info_mono)
  qed (simp add: deval_out)
qed

theorem unknown_inputs_are_safe_witness:
  "info_le (deval (m_expr_nodes inv_mod) [indeterminate_state] 1) (deval (m_expr_nodes inv_mod) [true_state] 1)"
  by (rule unknown_inputs_are_safe) (simp_all add: demo_defs info_le_def)

section \<open>The expression builder\<close>

text \<open>
  C16: Adding an operator node without an error only appends to the arena, keeps its invariants,
  and returns a root whose value is the operator applied to the values of its operands, whether
  the node was folded to a literal, shared with an existing one or appended; adding the same node
  again returns the same root and changes nothing.
\<close>

theorem add_node_sound:
  assumes "bwf s" and "env_ok (xp_m s) vs" and "kind_arity (en_kind n) \<ge> 1"
    and "en_a n < length (nodes s)" and "kind_arity (en_kind n) = 2 \<Longrightarrow> en_b n < length (nodes s)"
    and "run_state (add_node n) s = (r, s')" and "xp_errs s' = xp_errs s"
  shows "bwf s' \<and> ext s s' \<and> r < length (nodes s') \<and>
    deval (nodes s') vs r = kind_fun (en_kind n) (deval (nodes s) vs (en_a n))
      (if kind_arity (en_kind n) = 2 then deval (nodes s) vs (en_b n) else indeterminate_state) \<and>
    run_state (add_node n) s' = (r, s')"
proof -
  let ?x = "deval (nodes s) vs (en_a n)"
    and ?y = "if kind_arity (en_kind n) = 2 then deval (nodes s) vs (en_b n) else indeterminate_state"
  have "builds s (add_node n) (\<lambda>r s'. den vs s' r (kind_fun (en_kind n) ?x ?y))"
    using assms(3-5) by (intro builds_op_node) (auto simp: den_def)
  then have b: "ext s s' \<and> bwf s' \<and> den vs s' r (kind_fun (en_kind n) ?x ?y)"
    using assms(1,6,7) by (auto simp: builds_def)
  then have "env_ok (xp_m s') vs" using ext_env assms(2) by blast
  moreover have "run_state (add_node n) s' = (r, s')"
    using assms(3-5) by (intro add_node_shares [OF assms(6,7)]) (auto simp: kind_arity_def split: expr_kind.splits)
  ultimately show ?thesis using b by (simp add: den_def)
qed


theorem add_node_sound_witness:
  "\<exists>r s'. run_state (add_node (binary_node binary_and 0 1)) demo_xp = (r, s') \<and> bwf s' \<and>
     deval (nodes s') [true_state, false_state] r = false_state \<and>
     run_state (add_node (binary_node binary_and 0 1)) s' = (r, s')"
proof -
  let ?n = "binary_node binary_and 0 1"
  obtain r s' where run: "run_state (add_node ?n) demo_xp = (r, s')" by fastforce
  moreover have "case run_state (add_node ?n) demo_xp of (r, s') \<Rightarrow> xp_errs s' = []"
    by (simp add: builder_simps demo_xp_def Let_def)
  moreover have "deval [signal_node 0, signal_node 1] [true_state, false_state] 0 = true_state"
    "deval [signal_node 0, signal_node 1] [true_state, false_state] 1 = false_state"
    by (simp_all add: deval.simps demo_defs kind_simps)
  moreover have "kind_arity (en_kind ?n) = 2" "en_a ?n = 0" "en_b ?n = 1" "en_kind ?n = binary_and"
    by (simp_all add: binary_node_def kind_arity_def)
  ultimately show ?thesis
    using add_node_sound [OF demo_xp_ok(1) demo_xp_ok(2) [of "[true_state, false_state]"], of ?n r s'] by (simp add: kind_fun_def)
qed

text \<open>
  The nodes built for an addition whose operands have known bits compute the sum of the
  operand numbers, read as signed when both operands are signed, modulo two to the larger operand
  width, and the result has that width.
\<close>

theorem arith_add_correct:
  assumes "bwf s" and "env_ok (xp_m s) vs" and "operand_ok s a" and "operand_ok s b"
    and "run_state (arith_add a b) s = (v, s')" and "xp_errs s' = xp_errs s"
    and "root_vals s vs a = map of_bool_state as" and "root_vals s vs b = map of_bool_state bs"
    and "sg = (xv_is_signed a \<and> xv_is_signed b)" and "w = max (length as) (length bs)"
  shows "built_ok s s' v \<and> xv_is_signed v = sg \<and>
    (\<exists>cs. root_vals s' vs v = map of_bool_state cs \<and> length cs = w \<and>
       int (bits_val cs) = (numval sg as + numval sg bs) mod 2 ^ w)"
proof -
  have "as \<noteq> []" "bs \<noteq> []" using assms(3,4,7,8) root_vals_nonempty by fastforce+
  then show ?thesis
    using add_sub_run [OF assms(1-4) assms(5) [unfolded arith_add_def] assms(6)] v_add_sub_known [of as bs False sg] assms(7-10)
    by simp
qed

theorem arith_add_correct_witness:
  "\<exists>v s' cs. run_state (arith_add demo_a demo_b) demo_xp = (v, s') \<and>
     root_vals s' [true_state, false_state] v = map of_bool_state cs \<and> bits_val cs = 3"
proof -
  obtain v s' where run: "run_state (arith_add demo_a demo_b) demo_xp = (v, s')" by fastforce
  have "xp_errs s' = xp_errs demo_xp" using demo_add run by simp
  then show ?thesis
    using arith_add_correct [OF demo_xp_ok(1) demo_xp_ok(2) [of "[true_state, false_state]"] demo_operands(1,2) run _ demo_root_vals refl refl] run
    by (auto simp: demo_operands numval_def bits_val_Cons)
qed

text \<open>
  C17: The nodes built for a subtraction whose operands have known bits compute the difference of
  the operand numbers, read as signed when both operands are signed, modulo two to the larger
  operand width.
\<close>

theorem arith_sub_correct:
  assumes "bwf s" and "env_ok (xp_m s) vs" and "operand_ok s a" and "operand_ok s b"
    and "run_state (arith_sub a b) s = (v, s')" and "xp_errs s' = xp_errs s"
    and "root_vals s vs a = map of_bool_state as" and "root_vals s vs b = map of_bool_state bs"
    and "sg = (xv_is_signed a \<and> xv_is_signed b)" and "w = max (length as) (length bs)"
  shows "built_ok s s' v \<and> xv_is_signed v = sg \<and>
    (\<exists>cs. root_vals s' vs v = map of_bool_state cs \<and> length cs = w \<and>
       int (bits_val cs) = (numval sg as - numval sg bs) mod 2 ^ w)"
proof -
  have "as \<noteq> []" "bs \<noteq> []" using assms(3,4,7,8) root_vals_nonempty by fastforce+
  then show ?thesis
    using add_sub_run [OF assms(1-4) assms(5) [unfolded arith_sub_def] assms(6)] v_add_sub_known [of as bs True sg] assms(7-10)
    by simp
qed

theorem arith_sub_correct_witness:
  "\<exists>v s' cs. run_state (arith_sub demo_a demo_b) demo_xp = (v, s') \<and>
     root_vals s' [true_state, false_state] v = map of_bool_state cs \<and> bits_val cs = 1"
proof -
  obtain v s' where run: "run_state (arith_sub demo_a demo_b) demo_xp = (v, s')" by fastforce
  have "xp_errs s' = xp_errs demo_xp" using demo_sub run by simp
  then show ?thesis
    using arith_sub_correct [OF demo_xp_ok(1) demo_xp_ok(2) [of "[true_state, false_state]"] demo_operands(1,2) run _ demo_root_vals refl refl] run
    by (auto simp: demo_operands numval_def bits_val_Cons)
qed

text \<open>
  When any bit of an operand of an addition or subtraction is unknown or high impedance,
  every bit of the result is unknown.
\<close>

theorem arith_unknown_operand:
  assumes "bwf s" and "env_ok (xp_m s) vs" and "operand_ok s a" and "operand_ok s b"
    and "run_state (arith_add a b) s = (v, s') \<or> run_state (arith_sub a b) s = (v, s')" and "xp_errs s' = xp_errs s"
    and "some_unknown (root_vals s vs a) \<or> some_unknown (root_vals s vs b)"
  shows "root_vals s' vs v = replicate (max (value_width a) (value_width b)) indeterminate_state"
proof -
  have run: "root_vals s' vs v = v_add_sub neg (xv_is_signed a \<and> xv_is_signed b) (root_vals s vs a) (root_vals s vs b)"
    if "run_state (add_sub neg msg a b) s = (v, s')" for neg msg
    using add_sub_run [OF assms(1-4) that assms(6)] by simp
  show ?thesis
    using assms(5,7) run v_add_sub_unknown [OF root_vals_nonempty [OF assms(3)] root_vals_nonempty [OF assms(4)]]
    unfolding arith_add_def arith_sub_def by auto
qed

theorem arith_unknown_operand_witness:
  "\<exists>v s'. run_state (arith_add demo_a demo_b) demo_xp = (v, s') \<and>
     root_vals s' [indeterminate_state, false_state] v = [indeterminate_state, indeterminate_state]"
proof -
  obtain v s' where run: "run_state (arith_add demo_a demo_b) demo_xp = (v, s')" by fastforce
  have "xp_errs s' = xp_errs demo_xp" using demo_add run by simp
  moreover have "some_unknown (root_vals demo_xp [indeterminate_state, false_state] demo_a)"
    by (simp add: some_unknown_def root_vals_def demo_a_def vector_value_def value_bits_def deval.simps demo_defs kind_simps)
  moreover have "max (value_width demo_a) (value_width demo_b) = 2"
    by (simp add: demo_a_def demo_b_def value_width_def vector_value_def scalar_value_def)
  ultimately show ?thesis
    using arith_unknown_operand [OF demo_xp_ok(1) demo_xp_ok(2) [of "[indeterminate_state, false_state]"] demo_operands(1,2), of v s'] run
    by (auto simp: numeral_2_eq_2)
qed

end
